(* ===== verification/Kern_Prelude.thy ===== *)
theory Kern_Prelude
  imports Main "HOL-Library.Word" "HOL-Library.Monad_Syntax"
begin

text \<open>
  What the components of the OS/161 kernel share: the error numbers of
  \<open>kern/include/kern/errno.h\<close>, the way a C function that may fail or panic is written
  here, memory obtained from \<open>kmalloc\<close>, C integer arithmetic, and generic lemmas.

  A kernel function is a HOL function into \<open>'a option\<close>: \<open>None\<close> is a panic (a failed
  \<open>assert\<close>, an explicit \<open>panic\<close>, a null or out-of-range access), after which the kernel
  does nothing more.  A function whose C result is an error number returns a value of the
  sum \<open>errno + 'a\<close>: \<open>Inl e\<close> is the error return \<open>e\<close> and \<open>Inr\<close> the return value 0 with
  what the function hands back through its pointer arguments.  A function that changes
  state returns the new state beside that value, on the error paths too.
\<close>

section \<open>Error numbers\<close>

datatype errno =
    EINVAL | EFAULT | ENAMETOOLONG | ENOMEM | EIO | ENOENT | ENOTDIR | EISDIR | EEXIST
  | EXDEV | EAGAIN | ESPIPE | EUNIMP | ENXIO | ENODEV | EBUSY | EIOCTL | ENOTEMPTY
  | ERANGE | ENOSPC | EMFILE | ENFILE | ENOSYS | ENOEXEC | E2BIG | EBADF

fun errno_code :: "errno \<Rightarrow> int" where
  "errno_code EINVAL = 1"
| "errno_code EFAULT = 2"
| "errno_code ENAMETOOLONG = 3"
| "errno_code ENOMEM = 4"
| "errno_code EIO = 5"
| "errno_code ENOENT = 6"
| "errno_code ENOTDIR = 7"
| "errno_code EISDIR = 8"
| "errno_code EEXIST = 9"
| "errno_code EXDEV = 10"
| "errno_code EAGAIN = 11"
| "errno_code ESPIPE = 12"
| "errno_code EUNIMP = 13"
| "errno_code ENXIO = 14"
| "errno_code ENODEV = 15"
| "errno_code EBUSY = 16"
| "errno_code EIOCTL = 17"
| "errno_code ENOTEMPTY = 18"
| "errno_code ERANGE = 19"
| "errno_code ENOSPC = 20"
| "errno_code EMFILE = 21"
| "errno_code ENFILE = 22"
| "errno_code ENOSYS = 23"
| "errno_code ENOEXEC = 24"
| "errno_code E2BIG = 25"
| "errno_code EBADF = 26"

section \<open>Panics and error returns\<close>

named_theorems kern_simps \<open>unfolding rules of the kernel's control flow\<close>

text \<open>The \<open>assert\<close> macro of \<open>kern/include/lib.h\<close>: a false condition panics.\<close>

definition kassert :: "bool \<Rightarrow> unit option" where
  "kassert b = (if b then Some () else None)"

lemma kassert_simps [simp]: "kassert True = Some ()" "kassert False = None"
  by (simp_all add: kassert_def)

lemma kassert_eq_Some [simp]: "(kassert b = Some u) \<longleftrightarrow> b"
  by (simp add: kassert_def)

lemma kassert_bind [simp]: "Option.bind (kassert b) f = (if b then f () else None)"
  by (simp add: kassert_def)

text \<open>A call whose state and error number the caller passes on when it fails:
  \<open>result = f(...); if (result) return result;\<close>\<close>

type_synonym ('a, 's) kcall = "((errno + 'a) \<times> 's) option"

definition try_k :: "('a, 's) kcall \<Rightarrow> ('a \<Rightarrow> 's \<Rightarrow> ('b, 's) kcall) \<Rightarrow> ('b, 's) kcall" where
  "try_k m k = (case m of
      None \<Rightarrow> None
    | Some (Inl e, s) \<Rightarrow> Some (Inl e, s)
    | Some (Inr a, s) \<Rightarrow> k a s)"

lemma try_k_simps [simp]:
  "try_k None k = None"
  "try_k (Some (Inl e, s)) k = Some (Inl e, s)"
  "try_k (Some (Inr a, s)) k = k a s"
  by (simp_all add: try_k_def)

lemma try_k_eq_Inr [kern_simps]:
  "(try_k m k = Some (Inr b, t)) \<longleftrightarrow> (\<exists>a s. m = Some (Inr a, s) \<and> k a s = Some (Inr b, t))"
  by (auto simp: try_k_def split: option.splits sum.splits prod.splits)

lemma try_k_eq_Inl [kern_simps]:
  "(try_k m k = Some (Inl e, t)) \<longleftrightarrow>
     m = Some (Inl e, t) \<or> (\<exists>a s. m = Some (Inr a, s) \<and> k a s = Some (Inl e, t))"
  by (auto simp: try_k_def split: option.splits sum.splits prod.splits)

lemma try_k_eq_None [kern_simps]:
  "(try_k m k = None) \<longleftrightarrow> m = None \<or> (\<exists>a s. m = Some (Inr a, s) \<and> k a s = None)"
  by (auto simp: try_k_def split: option.splits sum.splits prod.splits)

section \<open>Kernel memory\<close>

text \<open>
  A client of the kernel heap sees \<open>kmalloc(n * sizeof(void *))\<close> as either \<open>NULL\<close> or
  \<open>n\<close> slots with unspecified contents.  The type \<open>'a kmem\<close> is such an allocator: it maps
  the number of slots asked for to \<open>None\<close> or to the initial contents.  The operations that
  allocate take it as an argument, so that every theorem holds for every success or failure
  of the allocation and for every contents of the fresh memory.
\<close>

type_synonym 'a kmem = "nat \<Rightarrow> (nat \<Rightarrow> 'a) option"

definition kalloc :: "'a kmem \<Rightarrow> nat \<Rightarrow> 'a list option" where
  "kalloc km n = map_option (\<lambda>junk. map junk [0..<n]) (km n)"

lemma kalloc_length: "kalloc km n = Some xs \<Longrightarrow> length xs = n"
  by (auto simp: kalloc_def)

lemma kalloc_None [simp]: "kalloc km n = None \<longleftrightarrow> km n = None"
  by (simp add: kalloc_def)

text \<open>
  \<open>kmalloc\<close> hands out memory of the direct-mapped segment \<open>kseg0\<close> of 512 MB, so no block has
  \<open>2^27\<close> pointers or more.  Where the growth of a structure has to stay bounded, the allocator
  is assumed to respect this limit.
\<close>

definition kmem_limit :: "'a kmem \<Rightarrow> bool" where
  "kmem_limit km \<longleftrightarrow> (\<forall>n. km n \<noteq> None \<longrightarrow> n < 2 ^ 27)"

lemma kmem_limitD: "kmem_limit km \<Longrightarrow> km n = Some junk \<Longrightarrow> n < 1073741824"
proof -
  assume "kmem_limit km" "km n = Some junk"
  then have "n < 2 ^ 27" by (auto simp: kmem_limit_def)
  then show "n < 1073741824" by simp
qed

lemma kmem_limit_never [simp]: "kmem_limit (\<lambda>_. None)"
  by (simp add: kmem_limit_def)

text \<open>A pointer to a block of slots; a null or out-of-range access panics.\<close>

definition mem_read :: "'a list option \<Rightarrow> int \<Rightarrow> 'a option" where
  "mem_read p i = (case p of
      None \<Rightarrow> None
    | Some xs \<Rightarrow> if 0 \<le> i \<and> nat i < length xs then Some (xs ! nat i) else None)"

definition mem_write :: "'a list option \<Rightarrow> int \<Rightarrow> 'a \<Rightarrow> 'a list option option" where
  "mem_write p i x = (case p of
      None \<Rightarrow> None
    | Some xs \<Rightarrow> if 0 \<le> i \<and> nat i < length xs then Some (Some (xs[nat i := x])) else None)"

text \<open>\<open>memmove\<close> inside one block, counted in slots.\<close>

definition mem_move :: "'a list option \<Rightarrow> int \<Rightarrow> int \<Rightarrow> int \<Rightarrow> 'a list option option" where
  "mem_move p dst src n = (case p of
      None \<Rightarrow> if n = 0 then Some None else None
    | Some xs \<Rightarrow>
        if 0 \<le> dst \<and> 0 \<le> src \<and> 0 \<le> n \<and> nat (dst + n) \<le> length xs \<and> nat (src + n) \<le> length xs
        then Some (Some (take (nat dst) xs @ take (nat n) (drop (nat src) xs) @ drop (nat (dst + n)) xs))
        else None)"

text \<open>The copy loop \<open>for (i=0; i<n; i++) dst[i] = src[i];\<close>\<close>

fun copy_slots :: "nat \<Rightarrow> 'a list option \<Rightarrow> 'a list \<Rightarrow> 'a list option" where
  "copy_slots 0 src dst = Some dst"
| "copy_slots (Suc n) src dst = do {
     dst' \<leftarrow> copy_slots n src dst;
     x \<leftarrow> mem_read src (int n);
     p \<leftarrow> mem_write (Some dst') (int n) x;
     p }"

lemma copy_slots_eq:
  assumes "n \<le> length dst" and "0 < n \<Longrightarrow> src = Some xs" and "n \<le> length xs"
  shows "copy_slots n src dst = Some (take n xs @ drop n dst)"
  using assms
proof (induction n)
  case 0
  then show ?case by simp
next
  case (Suc n)
  then have ih: "copy_slots n src dst = Some (take n xs @ drop n dst)" by auto
  have "(take n xs @ drop n dst)[n := xs ! n] = take (Suc n) xs @ drop (Suc n) dst"
    using Suc.prems by (simp add: list_update_append take_Suc_conv_app_nth Cons_nth_drop_Suc [symmetric])
  with ih Suc.prems show ?case by (simp add: mem_read_def mem_write_def)
qed

lemma take_remove_nth:
  assumes "k < n" and "n \<le> length xs"
  shows "take (n - 1) (take k xs @ take (n - Suc k) (drop (Suc k) xs) @ drop (n - 1) xs) =
    take k (take n xs) @ drop (Suc k) (take n xs)"
proof -
  have "min (n - 1) k = k" "min n k = k" "min (length xs) k = k" "n - 1 - k = n - Suc k"
    using assms by auto
  with assms show ?thesis by (simp add: drop_take)
qed

lemma find_upt_Some: "find P [0..<n] = Some k \<longleftrightarrow> k < n \<and> P k \<and> (\<forall>j < k. \<not> P j)"
  by (auto simp: find_Some_iff)

lemma find_upt_None: "find P [0..<n] = None \<longleftrightarrow> (\<forall>j < n. \<not> P j)"
  by (auto simp: find_None_iff)

section \<open>C integers\<close>

text \<open>The value of a 32-bit signed \<open>int\<close> after an operation whose exact result is \<open>x\<close>.\<close>

definition c_int :: "int \<Rightarrow> int" where
  "c_int x = (x + 2 ^ 31) mod 2 ^ 32 - 2 ^ 31"

text \<open>The value of a 32-bit unsigned \<open>u_int32_t\<close> after an operation with exact result \<open>x\<close>.\<close>

definition c_uint :: "nat \<Rightarrow> nat" where
  "c_uint x = x mod 2 ^ 32"

definition c_usub :: "nat \<Rightarrow> nat \<Rightarrow> nat" where
  "c_usub x y = (x + (2 ^ 32 - y)) mod 2 ^ 32"

lemma c_usub_id: "y \<le> x \<Longrightarrow> x < 2 ^ 32 \<Longrightarrow> c_usub x y = x - y"
proof -
  assume "y \<le> x" "x < 2 ^ 32"
  then have "x + (2 ^ 32 - y) = x - y + 2 ^ 32" "x - y < 2 ^ 32" by simp_all
  then show "c_usub x y = x - y" by (simp add: c_usub_def)
qed

lemma c_int_id: "- (2 ^ 31) \<le> x \<Longrightarrow> x < 2 ^ 31 \<Longrightarrow> c_int x = x"
  by (simp add: c_int_def)

lemma c_uint_id: "x < 2 ^ 32 \<Longrightarrow> c_uint x = x"
  by (simp add: c_uint_def)

lemma c_int_double_neg:
  assumes "2 ^ 30 \<le> x" and "x < 2 ^ 31"
  shows "c_int (x * 2) < 0"
proof -
  have "(x * 2 + 2 ^ 31) mod 2 ^ 32 = (x * 2 + 2 ^ 31 - 2 ^ 32) mod 2 ^ 32"
    by (rule minus_mod_self2 [symmetric])
  also have "\<dots> = x * 2 + 2 ^ 31 - 2 ^ 32" using assms by (intro mod_pos_pos_trivial) simp_all
  finally show ?thesis using assms by (simp add: c_int_def)
qed

text \<open>\<open>DIVROUNDUP(a,b)\<close> of \<open>lib.h\<close> on \<open>u_int32_t\<close>: the addition wraps.\<close>

definition DIVROUNDUP :: "nat \<Rightarrow> nat \<Rightarrow> nat" where
  "DIVROUNDUP a b = c_uint (a + b - 1) div b"

lemma DIVROUNDUP_bounds:
  assumes "0 < b" and "a + b \<le> 2 ^ 32"
  shows "a \<le> DIVROUNDUP a b * b" and "DIVROUNDUP a b * b < a + b"
proof -
  have e: "DIVROUNDUP a b = (a + b - 1) div b"
    using assms by (simp add: DIVROUNDUP_def c_uint_id)
  have "(a + b - 1) div b * b + (a + b - 1) mod b = a + b - 1" by simp
  moreover have "(a + b - 1) mod b < b" using assms by simp
  ultimately show "a \<le> DIVROUNDUP a b * b" and "DIVROUNDUP a b * b < a + b"
    unfolding e using assms by linarith+
qed

end
