(* ===== verification/Kern_Bitmap.thy ===== *)
theory Kern_Bitmap
  imports Kern_Prelude
begin

unbundle bit_operations_syntax

text \<open>
  The fixed-size array of bits of \<open>kern/lib/bitmap.c\<close>, used for the SFS free-block map, the
  core map and the swap map.  Bit \<open>i\<close> is bit \<open>i % 8\<close> of byte \<open>i / 8\<close>; the bits past
  \<open>nbits\<close> in the last byte are set when the map is made, so that they are never handed out.

  The interface \<open>bit_allocator\<close> states what the clients rely on: the map is a set of used
  indices, allocation takes the lowest free one.
\<close>

section \<open>The model\<close>

abbreviation BITS_PER_WORD :: nat where "BITS_PER_WORD \<equiv> 8"
abbreviation WORD_ALLBITS :: "8 word" where "WORD_ALLBITS \<equiv> 0xff"

record bitmap =
  b_nbits :: nat
  b_v :: "8 word list"

text \<open>The mask \<open>((WORD_TYPE)1) << offset\<close>.\<close>

definition bmask :: "nat \<Rightarrow> 8 word" where
  "bmask offset = push_bit offset 1"

text \<open>The loop that marks the leftover bits of byte \<open>ix\<close> in use.\<close>

definition mark_over :: "nat \<Rightarrow> nat \<Rightarrow> 8 word list \<Rightarrow> 8 word list" where
  "mark_over ix overbits v =
     fold (\<lambda>j v. v[ix := (v ! ix) OR bmask j]) [overbits..<BITS_PER_WORD] v"

text \<open>The flags say whether the two calls of \<open>kmalloc\<close> succeed.\<close>

definition bitmap_create :: "bool \<Rightarrow> bool \<Rightarrow> nat \<Rightarrow> bitmap option option" where
  "bitmap_create ok okv nbits = (let words = DIVROUNDUP nbits BITS_PER_WORD in
     if \<not> ok \<or> \<not> okv then Some None
     else let v = replicate words 0 in
       if nbits div BITS_PER_WORD < words then
         let ix = words - 1; overbits = nbits - ix * BITS_PER_WORD in do {
           kassert (nbits div BITS_PER_WORD = words - 1);
           kassert (0 < overbits \<and> overbits < BITS_PER_WORD);
           Some (Some \<lparr>b_nbits = nbits, b_v = mark_over ix overbits v\<rparr>) }
       else Some (Some \<lparr>b_nbits = nbits, b_v = v\<rparr>))"

definition bitmap_getdata :: "bitmap \<Rightarrow> 8 word list" where
  "bitmap_getdata b = b_v b"

text \<open>The loop over the words in \<open>bitmap_alloc\<close>; the inner \<open>for\<close> is the \<open>find\<close>.\<close>

function bitmap_alloc_from :: "nat \<Rightarrow> nat \<Rightarrow> bitmap \<Rightarrow> (nat, bitmap) kcall" where
  "bitmap_alloc_from ix maxix b =
     (if ix < maxix then do {
        w \<leftarrow> mem_read (Some (b_v b)) (int ix);
        if w \<noteq> WORD_ALLBITS then
          (case find (\<lambda>offset. w AND bmask offset = 0) [0..<BITS_PER_WORD] of
             Some offset \<Rightarrow> (let index = ix * BITS_PER_WORD + offset in do {
               kassert (index < b_nbits b);
               Some (Inr index, b\<lparr>b_v := (b_v b)[ix := w OR bmask offset]\<rparr>) })
           | None \<Rightarrow> None)
        else bitmap_alloc_from (ix + 1) maxix b }
      else Some (Inl ENOSPC, b))"
  by pat_completeness auto
termination
  by (relation "measure (\<lambda>(ix, maxix, b). maxix - ix)") auto

declare bitmap_alloc_from.simps [simp del]

definition bitmap_alloc :: "bitmap \<Rightarrow> (nat, bitmap) kcall" where
  "bitmap_alloc b = bitmap_alloc_from 0 (DIVROUNDUP (b_nbits b) BITS_PER_WORD) b"

definition bitmap_translate :: "nat \<Rightarrow> nat \<times> 8 word" where
  "bitmap_translate bitno = (bitno div BITS_PER_WORD, bmask (bitno mod BITS_PER_WORD))"

definition bitmap_mark :: "bitmap \<Rightarrow> nat \<Rightarrow> bitmap option" where
  "bitmap_mark b index = do {
     kassert (index < b_nbits b);
     let (ix, mask) = bitmap_translate index;
     w \<leftarrow> mem_read (Some (b_v b)) (int ix);
     kassert (w AND mask = 0);
     Some (b\<lparr>b_v := (b_v b)[ix := w OR mask]\<rparr>) }"

definition bitmap_unmark :: "bitmap \<Rightarrow> nat \<Rightarrow> bitmap option" where
  "bitmap_unmark b index = do {
     kassert (index < b_nbits b);
     let (ix, mask) = bitmap_translate index;
     w \<leftarrow> mem_read (Some (b_v b)) (int ix);
     kassert (w AND mask \<noteq> 0);
     Some (b\<lparr>b_v := (b_v b)[ix := w AND NOT mask]\<rparr>) }"

definition bitmap_isset :: "bitmap \<Rightarrow> nat \<Rightarrow> 8 word option" where
  "bitmap_isset b index = (let (ix, mask) = bitmap_translate index in do {
     w \<leftarrow> mem_read (Some (b_v b)) (int ix);
     Some (w AND mask) })"

section \<open>The set of used indices\<close>

definition bm_bit :: "8 word list \<Rightarrow> nat \<Rightarrow> bool" where
  "bm_bit v i = bit (v ! (i div 8)) (i mod 8)"

definition bitmap_inv :: "bitmap \<Rightarrow> bool" where
  "bitmap_inv b \<longleftrightarrow> b_nbits b + 8 \<le> 2 ^ 32 \<and>
     length (b_v b) = DIVROUNDUP (b_nbits b) BITS_PER_WORD \<and>
     (\<forall>i. b_nbits b \<le> i \<longrightarrow> i < 8 * length (b_v b) \<longrightarrow> bm_bit (b_v b) i)"

definition bitmap_used :: "bitmap \<Rightarrow> nat set" where
  "bitmap_used b = {i. i < b_nbits b \<and> bm_bit (b_v b) i}"

lemma bit_bmask [bit_simps]: "bit (bmask offset) n \<longleftrightarrow> n = offset \<and> n < 8"
  by (auto simp: bmask_def bit_simps)

lemma and_mask_eq_0:
  assumes "offset < 8"
  shows "((w :: 8 word) AND bmask offset = 0) \<longleftrightarrow> \<not> bit w offset"
proof
  assume "w AND bmask offset = 0"
  then have "\<not> bit (w AND bmask offset) offset" by simp
  with assms show "\<not> bit w offset" by (simp add: bit_simps)
next
  assume "\<not> bit w offset"
  then show "w AND bmask offset = 0" by (intro bit_word_eqI) (auto simp: bit_simps)
qed

lemma split_index: "off < 8 \<Longrightarrow> (i = ix * 8 + off) \<longleftrightarrow> (i div 8 = ix \<and> i mod 8 = (off :: nat))"
  by auto

lemma bm_bit_or:
  assumes "ix < length v" and "off < 8"
  shows "bm_bit (v[ix := (v ! ix) OR bmask off]) i \<longleftrightarrow> i = ix * 8 + off \<or> bm_bit v i"
  using assms unfolding split_index [OF assms(2)]
  by (auto simp: bm_bit_def nth_list_update bit_simps)

lemma bm_bit_and_not:
  assumes "ix < length v" and "off < 8"
  shows "bm_bit (v[ix := (v ! ix) AND NOT (bmask off)]) i \<longleftrightarrow> i \<noteq> ix * 8 + off \<and> bm_bit v i"
  using assms unfolding split_index [OF assms(2)]
  by (auto simp: bm_bit_def nth_list_update bit_simps)

lemma word_allbits: "(w = WORD_ALLBITS) \<longleftrightarrow> (\<forall>o1 < 8. bit w o1)"
proof -
  have e: "(WORD_ALLBITS :: 8 word) = - 1" by simp
  show ?thesis unfolding e by (auto intro!: bit_word_eqI)
qed

lemma find_clear_Some:
  "find (\<lambda>offset. w AND bmask offset = 0) [0..<8] = Some off \<longleftrightarrow>
     off < 8 \<and> \<not> bit (w :: 8 word) off \<and> (\<forall>j < off. bit w j)"
  unfolding find_upt_Some using and_mask_eq_0 by (meson less_trans)

lemma find_clear_None:
  "find (\<lambda>offset. w AND bmask offset = 0) [0..<8] = None \<longleftrightarrow> (\<forall>j < 8. bit (w :: 8 word) j)"
  unfolding find_upt_None using and_mask_eq_0 by blast

lemma bm_bits_below:
  assumes "\<forall>j < ix * 8. bm_bit v j" and "\<forall>j < off. bit (v ! ix) j" and "off \<le> 8"
  shows "\<forall>j < ix * 8 + off. bm_bit v j"
proof (intro allI impI)
  fix j assume j: "j < ix * 8 + off"
  show "bm_bit v j"
  proof (cases "j < ix * 8")
    case True
    with assms(1) show ?thesis by simp
  next
    case False
    with j assms(3) have "j - ix * 8 < off" "j = ix * 8 + (j - ix * 8)" "j - ix * 8 < 8" by auto
    then have "j div 8 = ix" "j mod 8 < off" using split_index by metis+
    with assms(2) show ?thesis by (simp add: bm_bit_def)
  qed
qed

lemma bitmap_words:
  assumes "bitmap_inv b"
  shows "b_nbits b \<le> 8 * length (b_v b)"
  using assms DIVROUNDUP_bounds [of 8 "b_nbits b"] by (simp add: bitmap_inv_def mult.commute)

lemma bitmap_alloc_from_correct:
  assumes "bitmap_inv b" and "\<forall>i < ix * 8. bm_bit (b_v b) i" and "ix \<le> length (b_v b)"
  shows "case bitmap_alloc_from ix (length (b_v b)) b of
      Some (Inr i, b') \<Rightarrow> i < b_nbits b \<and> \<not> bm_bit (b_v b) i \<and> (\<forall>j < i. bm_bit (b_v b) j) \<and>
        b' = b\<lparr>b_v := (b_v b)[i div 8 := b_v b ! (i div 8) OR bmask (i mod 8)]\<rparr>
    | Some (Inl e, b') \<Rightarrow> e = ENOSPC \<and> b' = b \<and> (\<forall>j < 8 * length (b_v b). bm_bit (b_v b) j)
    | None \<Rightarrow> False"
  using assms
proof (induction ix "length (b_v b)" b rule: bitmap_alloc_from.induct)
  case (1 ix b)
  let ?w = "b_v b ! ix"
  show ?case
  proof (cases "ix < length (b_v b)")
    case False
    with 1(4,3) show ?thesis by (simp add: bitmap_alloc_from.simps mult.commute)
  next
    case ix: True
    show ?thesis
    proof (cases "?w = WORD_ALLBITS")
      case True
      then have "\<forall>o1 < 8. bit ?w o1" by (simp only: word_allbits)
      then have "\<forall>i < (ix + 1) * 8. bm_bit (b_v b) i"
        using bm_bits_below [OF 1(3), of 8] by (simp add: algebra_simps)
      then show ?thesis
        using 1(1) [OF ix, of ?w] 1(2) ix True
        by (simp add: bitmap_alloc_from.simps [of ix] mem_read_def)
    next
      case False
      then have "\<not> (\<forall>o1 < 8. bit ?w o1)" by (simp only: word_allbits) simp
      then obtain off where off: "find (\<lambda>offset. ?w AND bmask offset = 0) [0..<8] = Some off"
        using find_clear_None [of ?w] by fastforce
      then have o: "off < 8" "\<not> bit ?w off" "\<forall>j < off. bit ?w j" using find_clear_Some by blast+
      let ?i = "ix * 8 + off"
      have clear: "\<not> bm_bit (b_v b) ?i" using o by (simp add: bm_bit_def)
      have low: "\<forall>j < ?i. bm_bit (b_v b) j"
        using bm_bits_below [OF 1(3) o(3)] o(1) by simp
      have "?i < 8 * length (b_v b)" using ix o by simp
      then have lt: "?i < b_nbits b" using 1(2) clear unfolding bitmap_inv_def by (meson not_less)
      show ?thesis
        using ix False off lt clear low o
        by (simp add: bitmap_alloc_from.simps [of ix] mem_read_def)
    qed
  qed
qed

lemma bm_used_upd:
  assumes "bitmap_inv b" and "i < b_nbits b"
  shows "bitmap_inv (b\<lparr>b_v := (b_v b)[i div 8 := b_v b ! (i div 8) OR bmask (i mod 8)]\<rparr>)"
    and "bitmap_used (b\<lparr>b_v := (b_v b)[i div 8 := b_v b ! (i div 8) OR bmask (i mod 8)]\<rparr>) =
      insert i (bitmap_used b)"
proof -
  have ix: "i div 8 < length (b_v b)" using bitmap_words [OF assms(1)] assms(2) by auto
  show "bitmap_inv (b\<lparr>b_v := (b_v b)[i div 8 := b_v b ! (i div 8) OR bmask (i mod 8)]\<rparr>)"
    using assms ix by (simp add: bitmap_inv_def bm_bit_or)
  show "bitmap_used (b\<lparr>b_v := (b_v b)[i div 8 := b_v b ! (i div 8) OR bmask (i mod 8)]\<rparr>) =
      insert i (bitmap_used b)"
    using assms(2) ix by (auto simp: bitmap_used_def bm_bit_or)
qed

lemma bitmap_alloc_cases:
  assumes "bitmap_inv b"
  shows "(\<exists>i b'. bitmap_alloc b = Some (Inr i, b') \<and> i < b_nbits b \<and> i \<notin> bitmap_used b \<and>
      (\<forall>j < i. j \<in> bitmap_used b) \<and> bitmap_inv b' \<and> b_nbits b' = b_nbits b \<and>
      bitmap_used b' = insert i (bitmap_used b))
    \<or> (bitmap_alloc b = Some (Inl ENOSPC, b) \<and> bitmap_used b = {0..<b_nbits b})"
proof -
  have len: "DIVROUNDUP (b_nbits b) 8 = length (b_v b)" using assms by (simp add: bitmap_inv_def)
  note cor = bitmap_alloc_from_correct [OF assms, of 0, simplified]
  show ?thesis
  proof (cases "bitmap_alloc b")
    case None
    with cor show ?thesis by (simp add: bitmap_alloc_def len)
  next
    case (Some r)
    show ?thesis
    proof (cases "fst r")
      case (Inl e)
      with Some cor have "e = ENOSPC" "snd r = b" "\<forall>j < 8 * length (b_v b). bm_bit (b_v b) j"
        by (cases r; simp add: bitmap_alloc_def len)+
      with Some Inl bitmap_words [OF assms] show ?thesis
        by (cases r) (auto simp: bitmap_used_def)
    next
      case (Inr i)
      with Some cor have i: "i < b_nbits b" "\<not> bm_bit (b_v b) i" "\<forall>j < i. bm_bit (b_v b) j"
          "snd r = b\<lparr>b_v := (b_v b)[i div 8 := b_v b ! (i div 8) OR bmask (i mod 8)]\<rparr>"
        by (cases r; simp add: bitmap_alloc_def len)+
      then have "i \<notin> bitmap_used b \<and> (\<forall>j < i. j \<in> bitmap_used b)" by (auto simp: bitmap_used_def)
      with Some Inr i bm_used_upd [OF assms i(1)] show ?thesis by (cases r) auto
    qed
  qed
qed

lemma bitmap_mem:
  assumes "bitmap_inv b" and "i < b_nbits b"
  shows "mem_read (Some (b_v b)) (int (i div 8)) = Some (b_v b ! (i div 8))"
  using bitmap_words [OF assms(1)] assms(2) by (auto simp: mem_read_def simp del: of_nat_div)

lemma used_iff: "i < b_nbits b \<Longrightarrow> i \<in> bitmap_used b \<longleftrightarrow> bit (b_v b ! (i div 8)) (i mod 8)"
  by (simp add: bitmap_used_def bm_bit_def)

lemma bitmap_mark_correct:
  assumes "bitmap_inv b" and "i < b_nbits b" and "i \<notin> bitmap_used b"
  shows "\<exists>b'. bitmap_mark b i = Some b' \<and> bitmap_inv b' \<and> b_nbits b' = b_nbits b \<and>
    bitmap_used b' = insert i (bitmap_used b)"
  using assms bm_used_upd [OF assms(1,2)] bitmap_mem [OF assms(1,2)]
  by (simp add: bitmap_mark_def bitmap_translate_def used_iff and_mask_eq_0 del: of_nat_div)

lemma bitmap_mark_panics:
  assumes "bitmap_inv b" and "b_nbits b \<le> i \<or> i \<in> bitmap_used b"
  shows "bitmap_mark b i = None"
proof (cases "i < b_nbits b")
  case True
  with assms have "bit (b_v b ! (i div 8)) (i mod 8)" using used_iff by auto
  with True bitmap_mem [OF assms(1) True] show ?thesis
    by (simp add: bitmap_mark_def bitmap_translate_def and_mask_eq_0 del: of_nat_div)
qed (simp add: bitmap_mark_def)

lemma bitmap_unmark_correct:
  assumes "bitmap_inv b" and "i \<in> bitmap_used b"
  shows "\<exists>b'. bitmap_unmark b i = Some b' \<and> bitmap_inv b' \<and> b_nbits b' = b_nbits b \<and>
    bitmap_used b' = bitmap_used b - {i}"
proof -
  have i: "i < b_nbits b" using assms(2) by (simp add: bitmap_used_def)
  have ix: "i div 8 < length (b_v b)" using bitmap_words [OF assms(1)] i by auto
  let ?b = "b\<lparr>b_v := (b_v b)[i div 8 := b_v b ! (i div 8) AND NOT (bmask (i mod 8))]\<rparr>"
  have "bitmap_unmark b i = Some ?b"
    using bitmap_mem [OF assms(1) i] i assms(2)
    by (simp add: bitmap_unmark_def bitmap_translate_def used_iff and_mask_eq_0 del: of_nat_div)
  moreover have "bitmap_inv ?b"
    using assms(1) i ix by (auto simp: bitmap_inv_def bm_bit_and_not)
  moreover have "bitmap_used ?b = bitmap_used b - {i}"
    using ix by (auto simp: bitmap_used_def bm_bit_and_not)
  ultimately show ?thesis by simp
qed

lemma bitmap_unmark_panics:
  assumes "bitmap_inv b" and "i \<notin> bitmap_used b"
  shows "bitmap_unmark b i = None"
proof (cases "i < b_nbits b")
  case True
  with assms(2) have "\<not> bit (b_v b ! (i div 8)) (i mod 8)" using used_iff by blast
  with True bitmap_mem [OF assms(1) True] show ?thesis
    by (simp add: bitmap_unmark_def bitmap_translate_def and_mask_eq_0 del: of_nat_div)
qed (simp add: bitmap_unmark_def)

lemma bitmap_isset_correct:
  assumes "bitmap_inv b" and "i < b_nbits b"
  shows "\<exists>w. bitmap_isset b i = Some w \<and> (w \<noteq> 0 \<longleftrightarrow> i \<in> bitmap_used b)"
  using assms bitmap_mem [OF assms]
  by (simp add: bitmap_isset_def bitmap_translate_def used_iff and_mask_eq_0 del: of_nat_div)

lemma mark_upto:
  assumes "ix < length v" and "b \<le> 8"
  shows "length (fold (\<lambda>j v. v[ix := (v ! ix) OR bmask j]) [a..<b] v) = length v \<and>
    (\<forall>i. bm_bit (fold (\<lambda>j v. v[ix := (v ! ix) OR bmask j]) [a..<b] v) i \<longleftrightarrow>
      (\<exists>j. a \<le> j \<and> j < b \<and> i = ix * 8 + j) \<or> bm_bit v i)"
  using assms(2)
proof (induction b)
  case 0
  then show ?case by simp
next
  case (Suc b)
  let ?f = "fold (\<lambda>j v. v[ix := (v ! ix) OR bmask j])"
  from Suc have ih: "length (?f [a..<b] v) = length v"
    "\<And>i. bm_bit (?f [a..<b] v) i \<longleftrightarrow> (\<exists>j. a \<le> j \<and> j < b \<and> i = ix * 8 + j) \<or> bm_bit v i" by auto
  show ?case
  proof (cases "a \<le> b")
    case True
    then have "?f [a..<Suc b] v = (?f [a..<b] v)[ix := ?f [a..<b] v ! ix OR bmask b]" by simp
    with ih assms(1) Suc.prems True show ?thesis by (auto simp: bm_bit_or less_Suc_eq)
  qed (auto simp: less_Suc_eq)
qed

lemma div8_roundup:
  assumes "n + 8 \<le> 2 ^ 32"
  shows "DIVROUNDUP n 8 = (if n mod 8 = 0 then n div 8 else n div 8 + 1)"
proof -
  have "DIVROUNDUP n 8 = (n + 7) div 8" using assms by (simp add: DIVROUNDUP_def c_uint_id)
  also have "\<dots> = n div 8 + (n mod 8 + 7) div 8" by (simp add: div_add1_eq [of n 7])
  also have "(n mod 8 + 7) div 8 = (if n mod 8 = 0 then 0 else 1)"
    using mod_less_divisor [of 8 n] by (simp add: div_nat_eqI)
  finally show ?thesis by simp
qed

lemma bitmap_create_correct:
  assumes "n + 8 \<le> 2 ^ 32"
  shows "\<exists>b. bitmap_create True True n = Some (Some b) \<and> bitmap_inv b \<and> b_nbits b = n \<and> bitmap_used b = {}"
proof (cases "n mod 8 = 0")
  case True
  let ?b = "\<lparr>b_nbits = n, b_v = replicate (n div 8) 0\<rparr>"
  have "bitmap_create True True n = Some (Some ?b)"
    using True assms by (simp add: bitmap_create_def div8_roundup)
  moreover have "8 * (n div 8) = n" using True by auto
  ultimately show ?thesis
    using True assms by (auto simp: bitmap_inv_def div8_roundup bitmap_used_def bm_bit_def)
next
  case False
  let ?ix = "n div 8" and ?v = "replicate (n div 8 + 1) (0 :: 8 word)"
  let ?b = "\<lparr>b_nbits = n, b_v = mark_over ?ix (n mod 8) ?v\<rparr>"
  have o: "n - n div 8 * 8 = n mod 8" by (simp add: minus_div_mult_eq_mod)
  have c: "bitmap_create True True n = Some (Some ?b)"
    using False assms o by (simp add: bitmap_create_def div8_roundup Let_def)
  have m: "length (b_v ?b) = n div 8 + 1"
    "\<And>i. bm_bit (b_v ?b) i \<longleftrightarrow> (\<exists>j. n mod 8 \<le> j \<and> j < 8 \<and> i = ?ix * 8 + j) \<or> bm_bit ?v i"
    using mark_upto [of ?ix ?v 8 "n mod 8"] by (auto simp: mark_over_def)
  have z: "\<not> bm_bit ?v i" if "i < n" for i
    using that by (simp add: bm_bit_def nth_append div_le_mono less_Suc_eq_le del: replicate.simps)
  have over: "\<exists>j. n mod 8 \<le> j \<and> j < 8 \<and> i = ?ix * 8 + j" if "n \<le> i" "i < 8 * (n div 8 + 1)" for i
    using that div_mult_mod_eq [of n 8] unfolding distrib_left
    by (intro exI [of _ "i - ?ix * 8"] conjI) arith+
  have low: "?ix * 8 + j \<ge> n" if "n mod 8 \<le> j" for j
    using that div_mult_mod_eq [of n 8] by linarith
  have "i \<notin> bitmap_used ?b" for i
    using z [of i] m(2) [of i] low unfolding bitmap_used_def
    by (metis (no_types, lifting) bitmap.select_convs(1) mem_Collect_eq not_less)
  then have "bitmap_used ?b = {}" by blast
  moreover have "bitmap_inv ?b"
    using assms False m over by (auto simp: bitmap_inv_def div8_roundup simp del: bitmap.simps(2))
  ultimately show ?thesis using c by simp
qed

section \<open>The interface the kernel's clients use\<close>

locale bit_allocator =
  fixes used :: "'s \<Rightarrow> nat set"
    and limit :: "'s \<Rightarrow> nat"
    and inv :: "'s \<Rightarrow> bool"
    and alloc :: "'s \<Rightarrow> (nat, 's) kcall"
    and mark :: "'s \<Rightarrow> nat \<Rightarrow> 's option"
    and unmark :: "'s \<Rightarrow> nat \<Rightarrow> 's option"
  assumes used_limit: "inv s \<Longrightarrow> used s \<subseteq> {0..<limit s}"
    and alloc: "inv s \<Longrightarrow>
        (\<exists>i s'. alloc s = Some (Inr i, s') \<and> i < limit s \<and> i \<notin> used s \<and> (\<forall>j < i. j \<in> used s) \<and>
           inv s' \<and> limit s' = limit s \<and> used s' = insert i (used s))
        \<or> (alloc s = Some (Inl ENOSPC, s) \<and> used s = {0..<limit s})"
    and mark: "inv s \<Longrightarrow> i < limit s \<Longrightarrow> i \<notin> used s \<Longrightarrow>
        \<exists>s'. mark s i = Some s' \<and> inv s' \<and> limit s' = limit s \<and> used s' = insert i (used s)"
    and unmark: "inv s \<Longrightarrow> i \<in> used s \<Longrightarrow>
        \<exists>s'. unmark s i = Some s' \<and> inv s' \<and> limit s' = limit s \<and> used s' = used s - {i}"
begin

lemma alloc_never_panics: "inv s \<Longrightarrow> alloc s \<noteq> None"
  using alloc [of s] by auto

lemma alloc_fresh: "inv s \<Longrightarrow> alloc s = Some (Inr i, s') \<Longrightarrow>
    i \<notin> used s \<and> i < limit s \<and> used s' = insert i (used s) \<and> inv s' \<and> limit s' = limit s"
  using alloc [of s] by auto

lemma alloc_error: "inv s \<Longrightarrow> alloc s = Some (Inl e, s') \<Longrightarrow> e = ENOSPC \<and> s' = s \<and> used s = {0..<limit s}"
  using alloc [of s] by auto

lemma alloc_twice_distinct:
  assumes "inv s" and "alloc s = Some (Inr i, s')" and "alloc s' = Some (Inr j, s'')"
  shows "i \<noteq> j"
  using alloc_fresh [OF assms(1,2)] alloc_fresh [of s' j s''] assms(3) by auto

lemma alloc_unmark:
  assumes "inv s" and "alloc s = Some (Inr i, s')"
  shows "\<exists>t. unmark s' i = Some t \<and> inv t \<and> limit t = limit s \<and> used t = used s"
  using alloc_fresh [OF assms] unmark [of s' i] by auto

lemma alloc_free_count:
  assumes "inv s" and "alloc s = Some (Inr i, s')"
  shows "card ({0..<limit s'} - used s') < card ({0..<limit s} - used s)"
proof -
  have "{0..<limit s'} - used s' = ({0..<limit s} - used s) - {i}" "i \<in> {0..<limit s} - used s"
    using alloc_fresh [OF assms] by auto
  then show ?thesis by (metis card_Diff1_less finite_Diff finite_atLeastLessThan)
qed

end

interpretation bm: bit_allocator bitmap_used b_nbits bitmap_inv bitmap_alloc bitmap_mark bitmap_unmark
proof
  fix s :: bitmap and i
  assume inv: "bitmap_inv s"
  show "bitmap_used s \<subseteq> {0..<b_nbits s}" by (auto simp: bitmap_used_def)
  show "(\<exists>i s'. bitmap_alloc s = Some (Inr i, s') \<and> i < b_nbits s \<and> i \<notin> bitmap_used s \<and>
      (\<forall>j < i. j \<in> bitmap_used s) \<and> bitmap_inv s' \<and> b_nbits s' = b_nbits s \<and>
      bitmap_used s' = insert i (bitmap_used s))
    \<or> (bitmap_alloc s = Some (Inl ENOSPC, s) \<and> bitmap_used s = {0..<b_nbits s})"
    using bitmap_alloc_cases [OF inv] by blast
  show "\<exists>s'. bitmap_mark s i = Some s' \<and> bitmap_inv s' \<and> b_nbits s' = b_nbits s \<and>
      bitmap_used s' = insert i (bitmap_used s)" if "i < b_nbits s" "i \<notin> bitmap_used s"
    using inv that by (rule bitmap_mark_correct)
  show "\<exists>s'. bitmap_unmark s i = Some s' \<and> bitmap_inv s' \<and> b_nbits s' = b_nbits s \<and>
      bitmap_used s' = bitmap_used s - {i}" if "i \<in> bitmap_used s"
    using inv that by (rule bitmap_unmark_correct)
qed

section \<open>Properties\<close>

text \<open>
  C39: allocation from a bitmap.  On every well-formed map \<open>bitmap_alloc\<close> never panics: it marks and
  returns the lowest free index, or fails with \<open>ENOSPC\<close>, changing nothing, exactly when
  every index is in use.  The index it returned is set, cannot be marked again (that panics),
  and unmarking it gives back the set of used indices there was before.
\<close>

theorem bitmap_alloc_correct:
  assumes "bitmap_inv b"
  shows "(\<exists>i b'. bitmap_alloc b = Some (Inr i, b') \<and> i < b_nbits b \<and> i \<notin> bitmap_used b \<and>
      (\<forall>j < i. j \<in> bitmap_used b) \<and> bitmap_inv b' \<and> bitmap_used b' = insert i (bitmap_used b) \<and>
      bitmap_mark b' i = None \<and> (\<exists>b''. bitmap_unmark b' i = Some b'' \<and> bitmap_used b'' = bitmap_used b))
    \<or> (bitmap_alloc b = Some (Inl ENOSPC, b) \<and> bitmap_used b = {0..<b_nbits b})"
proof -
  consider (ok) i b' where "bitmap_alloc b = Some (Inr i, b')" "i < b_nbits b" "i \<notin> bitmap_used b"
      "\<forall>j < i. j \<in> bitmap_used b" "bitmap_inv b'" "b_nbits b' = b_nbits b" "bitmap_used b' = insert i (bitmap_used b)"
    | (full) "bitmap_alloc b = Some (Inl ENOSPC, b)" "bitmap_used b = {0..<b_nbits b}"
    using bm.alloc [OF assms] by blast
  then show ?thesis
  proof cases
    case ok
    moreover have "bitmap_mark b' i = None" using ok by (intro bitmap_mark_panics) auto
    moreover obtain b'' where "bitmap_unmark b' i = Some b''" "bitmap_used b'' = bitmap_used b' - {i}"
      using bm.unmark [of b' i] ok by auto
    ultimately show ?thesis by auto
  next
    case full
    then show ?thesis by blast
  qed
qed

theorem bitmap_alloc_correct_witness:
  "\<exists>b b'. bitmap_create True True 10 = Some (Some b) \<and> bitmap_alloc b = Some (Inr 0, b') \<and> bitmap_used b' = {0}"
proof -
  obtain b where b: "bitmap_create True True 10 = Some (Some b)" "bitmap_inv b" "b_nbits b = 10" "bitmap_used b = {}"
    using bitmap_create_correct [of 10] by auto
  then obtain i b' where "bitmap_alloc b = Some (Inr i, b')" "\<forall>j < i. j \<in> bitmap_used b" "bitmap_used b' = {i}"
    using bitmap_alloc_correct [OF b(2)] by auto
  moreover from this have "i = 0" using b(4) by auto
  ultimately show ?thesis using b(1) by blast
qed

end
