(* ===== verification/Kern_Array.thy ===== *)
theory Kern_Array
  imports Kern_Prelude
begin

text \<open>
  The resizeable array of pointers of \<open>kern/lib/array.c\<close>, which holds the sleeping and the
  zombie threads, the loaded SFS vnodes and the VFS device list.

  The record \<open>array\<close> is the C struct: \<open>a_v\<close> is the block \<open>v\<close> points to, with \<open>a_max\<close>
  slots.  The operations follow the C functions one by one.  The second half shows, through
  the interface \<open>pointer_seq\<close>, that the array is a list of pointers.
\<close>

section \<open>The model\<close>

record 'a array =
  a_num :: int
  a_max :: int
  a_v :: "'a list option"

text \<open>The argument says whether \<open>kmalloc\<close> finds room for the struct.\<close>

definition array_create :: "bool \<Rightarrow> 'a array option" where
  "array_create ok = (if ok then Some \<lparr>a_num = 0, a_max = 0, a_v = None\<rparr> else None)"

definition array_getnum :: "'a array \<Rightarrow> int" where
  "array_getnum a = a_num a"

definition array_getguy :: "'a array \<Rightarrow> int \<Rightarrow> 'a option" where
  "array_getguy a index = do {
     kassert (a_num a \<le> a_max a);
     kassert (0 \<le> index \<and> index < a_num a);
     mem_read (a_v a) index }"

text \<open>
  The loop \<open>while (nguys > newmax) newmax = (newmax+1)*2;\<close>.  The \<open>assert\<close> before it makes
  \<open>newmax\<close> non-negative; below \<open>-1\<close> the C loop would not end, so that test is part of the
  guard here.
\<close>

function grow_max :: "int \<Rightarrow> int \<Rightarrow> int" where
  "grow_max nguys newmax =
     (if nguys > newmax \<and> 0 \<le> newmax then grow_max nguys ((newmax + 1) * 2) else newmax)"
  by pat_completeness auto
termination
  by (relation "measure (\<lambda>(nguys, newmax). nat (nguys - newmax))") auto

declare grow_max.simps [simp del]

definition array_preallocate :: "'a kmem \<Rightarrow> 'a array \<Rightarrow> int \<Rightarrow> (unit, 'a array) kcall" where
  "array_preallocate km a nguys = do {
     kassert (0 \<le> a_num a \<and> a_num a \<le> a_max a);
     let newmax = grow_max nguys (a_max a);
     case kalloc km (nat newmax) of
       None \<Rightarrow> Some (Inl ENOMEM, a)
     | Some newv \<Rightarrow> do {
         newv' \<leftarrow> copy_slots (nat (a_num a)) (a_v a) newv;
         Some (Inr (), a\<lparr>a_max := newmax, a_v := Some newv'\<rparr>) } }"

definition array_setsize :: "'a kmem \<Rightarrow> 'a array \<Rightarrow> int \<Rightarrow> (unit, 'a array) kcall" where
  "array_setsize km a nguys = do {
     kassert (0 \<le> a_num a \<and> a_num a \<le> a_max a);
     if nguys > a_max a then
       try_k (array_preallocate km a nguys) (\<lambda>_ a'. Some (Inr (), a'\<lparr>a_num := nguys\<rparr>))
     else if nguys = 0 \<and> a_max a > 16 then do {
       kassert (a_v a \<noteq> None);
       Some (Inr (), a\<lparr>a_v := None, a_max := 0, a_num := nguys\<rparr>) }
     else Some (Inr (), a\<lparr>a_num := nguys\<rparr>) }"

definition array_setguy :: "'a array \<Rightarrow> int \<Rightarrow> 'a \<Rightarrow> 'a array option" where
  "array_setguy a index ptr = do {
     kassert (a_num a \<le> a_max a);
     kassert (0 \<le> index \<and> index < a_num a);
     v' \<leftarrow> mem_write (a_v a) index ptr;
     Some (a\<lparr>a_v := v'\<rparr>) }"

definition array_add :: "'a kmem \<Rightarrow> 'a array \<Rightarrow> 'a \<Rightarrow> (unit, 'a array) kcall" where
  "array_add km a guy = (let ix = a_num a in
     try_k (array_setsize km a (ix + 1)) (\<lambda>_ a'. do {
       v' \<leftarrow> mem_write (a_v a') ix guy;
       Some (Inr (), a'\<lparr>a_v := v'\<rparr>) }))"

definition array_remove :: "'a array \<Rightarrow> int \<Rightarrow> 'a array option" where
  "array_remove a index = do {
     kassert (a_num a \<le> a_max a);
     kassert (0 \<le> index \<and> index < a_num a);
     let nmove = a_num a - (index + 1);
     v' \<leftarrow> mem_move (a_v a) index (index + 1) nmove;
     Some (a\<lparr>a_v := v', a_num := a_num a - 1\<rparr>) }"

section \<open>Well-formed arrays and the list they hold\<close>

definition array_inv :: "'a array \<Rightarrow> bool" where
  "array_inv a \<longleftrightarrow> 0 \<le> a_num a \<and> a_num a \<le> a_max a \<and>
     (case a_v a of None \<Rightarrow> a_max a = 0 | Some xs \<Rightarrow> int (length xs) = a_max a)"

definition array_list :: "'a array \<Rightarrow> 'a list" where
  "array_list a = take (nat (a_num a)) (case a_v a of None \<Rightarrow> [] | Some xs \<Rightarrow> xs)"

lemma array_list_length: "array_inv a \<Longrightarrow> length (array_list a) = nat (a_num a)"
  by (auto simp: array_inv_def array_list_def split: option.splits)

lemma array_num_eq: "array_inv a \<Longrightarrow> a_num a = int (length (array_list a))"
  by (simp add: array_list_length array_inv_def)

lemma array_block:
  assumes "array_inv a" and "0 < a_num a"
  obtains xs where "a_v a = Some xs" and "int (length xs) = a_max a"
    and "array_list a = take (nat (a_num a)) xs"
  using assms by (auto simp: array_inv_def array_list_def split: option.splits)

lemma array_create_correct:
  "array_create True = Some a \<Longrightarrow> array_inv a \<and> array_list a = []"
  by (auto simp: array_create_def array_inv_def array_list_def)

lemma grow_max_ge: "0 \<le> m \<Longrightarrow> nguys \<le> grow_max nguys m \<and> m \<le> grow_max nguys m"
proof (induction nguys m rule: grow_max.induct)
  case (1 nguys m)
  then show ?case by (auto simp: grow_max.simps [of nguys m])
qed

lemma grow_max_le: "0 \<le> m \<Longrightarrow> grow_max nguys m \<le> max m (2 * nguys)"
proof (induction nguys m rule: grow_max.induct)
  case (1 nguys m)
  then show ?case by (auto simp: grow_max.simps [of nguys m])
qed

lemma array_getguy_eq:
  assumes "array_inv a"
  shows "array_getguy a i =
    (if 0 \<le> i \<and> i < a_num a then Some (array_list a ! nat i) else None)"
  using assms
  by (auto simp: array_getguy_def array_inv_def array_list_def mem_read_def split: option.splits)

lemma array_preallocate_ok:
  assumes "array_inv a" and "km (nat (grow_max nguys (a_max a))) = Some junk"
  shows "\<exists>a'. array_preallocate km a nguys = Some (Inr (), a') \<and> array_inv a' \<and>
    array_list a' = array_list a \<and> a_num a' = a_num a \<and>
    a_max a' = grow_max nguys (a_max a) \<and> a_v a' \<noteq> None"
proof -
  let ?m = "grow_max nguys (a_max a)"
  obtain newv where nv: "kalloc km (nat ?m) = Some newv" and len: "length newv = nat ?m"
    using assms(2) by (simp add: kalloc_def)
  define xs where "xs = (case a_v a of None \<Rightarrow> [] | Some xs \<Rightarrow> xs)"
  have m: "a_max a \<le> ?m" "0 \<le> a_num a" "a_num a \<le> a_max a"
    using grow_max_ge [of "a_max a" nguys] assms(1) by (auto simp: array_inv_def)
  have xs: "0 < nat (a_num a) \<Longrightarrow> a_v a = Some xs" "nat (a_num a) \<le> length xs"
    using assms(1) by (auto simp: array_inv_def xs_def split: option.splits)
  have "copy_slots (nat (a_num a)) (a_v a) newv =
      Some (take (nat (a_num a)) xs @ drop (nat (a_num a)) newv)"
    using m len xs by (intro copy_slots_eq) auto
  with nv m len xs show ?thesis
    by (auto simp: array_preallocate_def array_inv_def array_list_def xs_def)
qed

lemma array_preallocate_fail:
  assumes "array_inv a" and "km (nat (grow_max nguys (a_max a))) = None"
  shows "array_preallocate km a nguys = Some (Inl ENOMEM, a)"
  using assms by (simp add: array_preallocate_def array_inv_def kalloc_def)

lemma array_setsize_shrink:
  assumes "array_inv a" and "0 \<le> n" and "n \<le> a_num a"
  shows "\<exists>a'. array_setsize km a n = Some (Inr (), a') \<and> array_inv a' \<and>
    array_list a' = take (nat n) (array_list a)"
  using assms
  by (auto simp: array_setsize_def array_inv_def array_list_def split: option.splits)

lemma array_setguy_correct:
  assumes "array_inv a" and "0 \<le> i" and "i < a_num a"
  shows "\<exists>a'. array_setguy a i x = Some a' \<and> array_inv a' \<and>
    array_list a' = (array_list a)[nat i := x]"
  using assms
  by (auto simp: array_setguy_def array_inv_def array_list_def mem_write_def take_update_swap
      split: option.splits)

lemma array_add_room:
  assumes "array_inv a" and "a_num a < a_max a"
  shows "\<exists>a'. array_add km a x = Some (Inr (), a') \<and> array_inv a' \<and>
    array_list a' = array_list a @ [x] \<and> a_max a' = a_max a"
proof -
  let ?n = "a_num a"
  have n: "0 \<le> ?n" using assms by (auto simp: array_inv_def)
  obtain xs where xs: "a_v a = Some xs" "int (length xs) = a_max a"
    using assms n by (auto simp: array_inv_def split: option.splits)
  have lt: "nat ?n < length xs" using xs n assms by linarith
  have eq: "array_add km a x = Some (Inr (), a\<lparr>a_num := ?n + 1, a_v := Some (xs[nat ?n := x])\<rparr>)"
    using assms n lt xs by (simp add: array_add_def array_setsize_def mem_write_def Let_def)
  have "take (nat (?n + 1)) (xs[nat ?n := x]) = take (nat ?n) xs @ [x]"
    using lt n by (simp add: nat_add_distrib take_Suc_conv_app_nth)
  with eq xs n lt show ?thesis by (auto simp: array_inv_def array_list_def)
qed

lemma array_add_grow:
  assumes "array_inv a" and "a_num a = a_max a"
    and "km (nat (grow_max (a_num a + 1) (a_max a))) = Some junk"
  shows "\<exists>a'. array_add km a x = Some (Inr (), a') \<and> array_inv a' \<and>
    array_list a' = array_list a @ [x] \<and> a_max a \<le> a_max a'"
proof -
  let ?n = "a_num a"
  obtain a1 where a1: "array_preallocate km a (?n + 1) = Some (Inr (), a1)" "array_inv a1"
      "array_list a1 = array_list a" "a_num a1 = ?n" "a_max a1 = grow_max (?n + 1) (a_max a)"
      "a_v a1 \<noteq> None"
    using array_preallocate_ok [OF assms(1), of km "?n + 1" junk] assms(3) by blast
  obtain xs where xs: "a_v a1 = Some xs" "int (length xs) = a_max a1"
    using a1 by (auto simp: array_inv_def)
  have n: "0 \<le> ?n" "?n \<le> a_max a" using assms by (auto simp: array_inv_def)
  then have lt: "nat ?n < length xs"
    using grow_max_ge [of "a_max a" "?n + 1"] a1 xs by linarith
  have eq: "array_add km a x =
      Some (Inr (), a1\<lparr>a_num := ?n + 1, a_v := Some (xs[nat ?n := x])\<rparr>)"
    using assms n lt a1 xs by (simp add: array_add_def array_setsize_def mem_write_def Let_def)
  have "take (nat (?n + 1)) (xs[nat ?n := x]) = take (nat ?n) xs @ [x]"
    using lt n by (simp add: nat_add_distrib take_Suc_conv_app_nth)
  with eq a1 xs n lt show ?thesis
    using grow_max_ge [of "a_max a" "?n + 1"] by (auto simp: array_inv_def array_list_def)
qed

lemma array_add_fail:
  assumes "array_inv a" and "a_num a = a_max a"
    and "km (nat (grow_max (a_num a + 1) (a_max a))) = None"
  shows "array_add km a x = Some (Inl ENOMEM, a)"
  using assms array_preallocate_fail [OF assms(1), of km "a_num a + 1"]
  by (simp add: array_add_def array_setsize_def array_inv_def Let_def)

lemma array_remove_correct:
  assumes "array_inv a" and "0 \<le> i" and "i < a_num a"
  shows "\<exists>a'. array_remove a i = Some a' \<and> array_inv a' \<and> a_max a' = a_max a \<and>
    array_list a' = take (nat i) (array_list a) @ drop (Suc (nat i)) (array_list a)"
proof -
  obtain xs where xs: "a_v a = Some xs" "int (length xs) = a_max a"
    "array_list a = take (nat (a_num a)) xs"
    using assms by (auto elim: array_block)
  have n: "0 \<le> a_num a" "a_num a \<le> a_max a" using assms by (auto simp: array_inv_def)
  have d: "nat (i + 1) = Suc (nat i)" "nat (a_num a - (i + 1)) = nat (a_num a) - Suc (nat i)"
    "nat (i + (a_num a - (i + 1))) = nat (a_num a) - 1" "nat (a_num a - 1) = nat (a_num a) - 1"
    using assms n by auto
  let ?ys = "take (nat i) xs @ take (nat (a_num a) - Suc (nat i)) (drop (Suc (nat i)) xs)
    @ drop (nat (a_num a) - 1) xs"
  have le: "nat (a_num a) \<le> length xs" using xs n by linarith
  have eq: "array_remove a i = Some (a\<lparr>a_v := Some ?ys, a_num := a_num a - 1\<rparr>)"
    using assms xs n le by (simp add: array_remove_def mem_move_def d Let_def)
  have len: "length ?ys = length xs" "nat i < nat (a_num a)" "nat (a_num a) \<le> length xs"
    using assms xs n by auto
  then have "take (nat (a_num a) - 1) ?ys =
      take (nat i) (array_list a) @ drop (Suc (nat i)) (array_list a)"
    using xs take_remove_nth [of "nat i" "nat (a_num a)" xs] by simp
  with eq len xs n assms show ?thesis by (auto simp: array_inv_def array_list_def d)
qed

section \<open>The interface the kernel's clients use\<close>

text \<open>
  A sequence of pointers that grows at its end and loses elements anywhere.  \<open>room s k\<close> says
  that \<open>k\<close> elements fit without asking for memory: this is what \<open>thread_fork\<close> arranges for
  with \<open>array_preallocate\<close>.
\<close>

locale pointer_seq =
  fixes seq :: "'s \<Rightarrow> 'a list"
    and inv :: "'s \<Rightarrow> bool"
    and room :: "'s \<Rightarrow> nat \<Rightarrow> bool"
    and getnum :: "'s \<Rightarrow> int"
    and getguy :: "'s \<Rightarrow> int \<Rightarrow> 'a option"
    and add :: "'a kmem \<Rightarrow> 's \<Rightarrow> 'a \<Rightarrow> (unit, 's) kcall"
    and remove :: "'s \<Rightarrow> int \<Rightarrow> 's option"
  assumes getnum: "inv s \<Longrightarrow> getnum s = int (length (seq s))"
    and getguy: "inv s \<Longrightarrow> 0 \<le> i \<Longrightarrow> i < int (length (seq s)) \<Longrightarrow> getguy s i = Some (seq s ! nat i)"
    and getguy_range: "inv s \<Longrightarrow> i < 0 \<or> int (length (seq s)) \<le> i \<Longrightarrow> getguy s i = None"
    and add_cases: "inv s \<Longrightarrow> (\<exists>s'. add km s x = Some (Inr (), s') \<and> inv s' \<and> seq s' = seq s @ [x] \<and>
        (\<forall>k. room s k \<longrightarrow> room s' k)) \<or> add km s x = Some (Inl ENOMEM, s)"
    and add_room: "inv s \<Longrightarrow> room s (Suc (length (seq s))) \<Longrightarrow> add km s x \<noteq> Some (Inl ENOMEM, s)"
    and remove: "inv s \<Longrightarrow> 0 \<le> i \<Longrightarrow> i < int (length (seq s)) \<Longrightarrow>
        \<exists>s'. remove s i = Some s' \<and> inv s' \<and>
          seq s' = take (nat i) (seq s) @ drop (Suc (nat i)) (seq s) \<and> (\<forall>k. room s k \<longrightarrow> room s' k)"
begin

lemma add_success:
  assumes "inv s" and "room s (Suc (length (seq s)))"
  obtains s' where "add km s x = Some (Inr (), s')" and "inv s'" and "seq s' = seq s @ [x]"
    and "\<And>k. room s k \<Longrightarrow> room s' k"
  using add_cases [OF assms(1), of km x] add_room [OF assms, of km x] by blast

lemma get_after_add:
  assumes "inv s" and "add km s x = Some (Inr (), s')"
  shows "getguy s' (getnum s) = Some x"
  using add_cases [OF assms(1), of km x] assms getguy [of s' "getnum s"] by (auto simp: getnum)

lemma get_old_after_add:
  assumes "inv s" and "add km s x = Some (Inr (), s')" and "0 \<le> i" and "i < getnum s"
  shows "getguy s' i = getguy s i"
  using add_cases [OF assms(1), of km x] assms getguy [of s' i] getguy [of s i]
  by (auto simp: getnum nth_append nat_less_iff)

lemma remove_last_after_add:
  assumes "inv s" and "add km s x = Some (Inr (), s')"
  shows "\<exists>t. remove s' (getnum s) = Some t \<and> inv t \<and> seq t = seq s"
  using add_cases [OF assms(1), of km x] assms remove [of s' "getnum s"] by (auto simp: getnum)

end

definition array_room :: "'a array \<Rightarrow> nat \<Rightarrow> bool" where
  "array_room a k \<longleftrightarrow> int k \<le> a_max a"

lemma array_add_cases:
  assumes "array_inv a"
  shows "(\<exists>a'. array_add km a x = Some (Inr (), a') \<and> array_inv a' \<and>
      array_list a' = array_list a @ [x] \<and> a_max a \<le> a_max a')
    \<or> (a_num a = a_max a \<and> array_add km a x = Some (Inl ENOMEM, a))"
proof (cases "a_num a = a_max a")
  case False
  then have "a_num a < a_max a" using assms by (auto simp: array_inv_def)
  then show ?thesis using array_add_room [OF assms, of km x] by fastforce
next
  case True
  then show ?thesis
    using array_add_grow [OF assms True] array_add_fail [OF assms True]
    by (cases "km (nat (grow_max (a_num a + 1) (a_max a)))") fastforce+
qed

interpretation arr: pointer_seq array_list array_inv array_room array_getnum array_getguy
  array_add array_remove
proof
  fix s :: "'a array" and i :: int and x :: 'a and km :: "'a kmem"
  assume inv: "array_inv s"
  then have n: "a_num s = int (length (array_list s))" by (rule array_num_eq)
  show "array_getnum s = int (length (array_list s))" using n by (simp add: array_getnum_def)
  show "array_getguy s i = Some (array_list s ! nat i)" if "0 \<le> i" "i < int (length (array_list s))"
    using that inv n by (simp add: array_getguy_eq)
  show "array_getguy s i = None" if "i < 0 \<or> int (length (array_list s)) \<le> i"
    using that inv n by (auto simp: array_getguy_eq)
  show "(\<exists>s'. array_add km s x = Some (Inr (), s') \<and> array_inv s' \<and>
      array_list s' = array_list s @ [x] \<and> (\<forall>k. array_room s k \<longrightarrow> array_room s' k))
    \<or> array_add km s x = Some (Inl ENOMEM, s)"
    using array_add_cases [OF inv, of km x] by (fastforce simp: array_room_def)
  show "array_add km s x \<noteq> Some (Inl ENOMEM, s)" if "array_room s (Suc (length (array_list s)))"
    using array_add_room [OF inv, of km x] that n by (auto simp: array_room_def)
  show "\<exists>s'. array_remove s i = Some s' \<and> array_inv s' \<and>
      array_list s' = take (nat i) (array_list s) @ drop (Suc (nat i)) (array_list s) \<and>
      (\<forall>k. array_room s k \<longrightarrow> array_room s' k)" if "0 \<le> i" "i < int (length (array_list s))"
    using array_remove_correct [OF inv, of i] that n by (auto simp: array_room_def)
qed

end
