(* ===== verification/Kern_Queue.thy ===== *)
theory Kern_Queue
  imports Kern_Prelude
begin

text \<open>
  The queue of pointers of \<open>kern/lib/queue.c\<close>, a ring buffer that doubles when it is full.
  It is the run queue of the scheduler and the waiting line of a condition variable.

  The ring of \<open>size\<close> slots never holds more than \<open>size - 1\<close> pointers: \<open>nextread = nextwrite\<close>
  means empty.  \<open>q_addtail\<close> and \<open>q_grow\<close> call each other, so both carry a call depth; a
  depth of 2 is enough (\<open>q_addtail_cases\<close>: it never panics on a well-formed queue).  The
  loop that doubles the size works on a 32-bit \<open>int\<close>: its \<open>assert(nsize > 0)\<close> is what
  stops it when the product overflows.
\<close>

section \<open>The model\<close>

record 'a queue =
  q_size :: nat
  q_nextwrite :: nat
  q_nextread :: nat
  q_data :: "'a list"

text \<open>The indices the loop \<open>for (i=onr; i!=onw; i = (i+1)%osize)\<close> visits.\<close>

function q_range :: "nat \<Rightarrow> nat \<Rightarrow> nat \<Rightarrow> nat list" where
  "q_range i onw osize =
     (if i = onw \<or> osize \<le> i \<or> osize \<le> onw then [] else i # q_range ((i + 1) mod osize) onw osize)"
  by pat_completeness auto
termination
proof (relation "measure (\<lambda>(i, onw, osize). (onw + osize - i) mod osize)", goal_cases)
  case 1
  then show ?case by simp
next
  case (2 i onw osize)
  then have "(onw + osize - (i + 1) mod osize) mod osize = (onw + osize - i) mod osize - 1"
    by (cases "i + 1 = osize"; cases "i < onw") (auto simp: le_mod_geq)
  moreover have "0 < (onw + osize - i) mod osize"
    using 2 by (cases "i < onw") (auto simp: le_mod_geq)
  ultimately show ?case by simp
qed

declare q_range.simps [simp del]

text \<open>
  The loop \<open>while (nsize < targetsize) { nsize *= 2; assert(nsize > 0); }\<close>.  For a value of
  type \<open>int\<close> a positive product is larger than the factor (\<open>double_pos_grows\<close> below), so the
  second test changes nothing; it makes the recursion well-founded on all of \<open>int\<close>.
\<close>

function grow_size :: "int \<Rightarrow> int \<Rightarrow> int option" where
  "grow_size nsize targetsize =
     (if nsize < targetsize then
        (let nsize' = c_int (nsize * 2)
         in if nsize' > 0 \<and> nsize' > nsize then grow_size nsize' targetsize else None)
      else Some nsize)"
  by pat_completeness auto
termination
  by (relation "measure (\<lambda>(nsize, targetsize). nat (targetsize - nsize))") auto

declare grow_size.simps [simp del]

fun q_addtail_d :: "nat \<Rightarrow> 'a kmem \<Rightarrow> 'a queue \<Rightarrow> 'a \<Rightarrow> (unit, 'a queue) kcall"
and q_grow_d :: "nat \<Rightarrow> 'a kmem \<Rightarrow> 'a queue \<Rightarrow> int \<Rightarrow> (unit, 'a queue) kcall"
and q_refill_d :: "nat \<Rightarrow> 'a kmem \<Rightarrow> 'a list \<Rightarrow> nat list \<Rightarrow> 'a queue \<Rightarrow> 'a queue option" where
  "q_addtail_d 0 km q ptr = None"
| "q_addtail_d (Suc d) km q ptr = do {
     kassert (0 < q_size q);
     let put = (\<lambda>q. do {
       p \<leftarrow> mem_write (Some (q_data q)) (int (q_nextwrite q)) ptr;
       data \<leftarrow> p;
       Some (Inr (), q\<lparr>q_data := data, q_nextwrite := (q_nextwrite q + 1) mod q_size q\<rparr>) });
     if (q_nextwrite q + 1) mod q_size q = q_nextread q
     then try_k (q_grow_d d km q (int (q_size q) + 1)) (\<lambda>_. put)
     else put q }"
| "q_grow_d 0 km q targetsize = None"
| "q_grow_d (Suc d) km q targetsize = do {
     nsize \<leftarrow> grow_size (int (q_size q)) targetsize;
     case kalloc km (nat nsize) of
       None \<Rightarrow> Some (Inl ENOMEM, q)
     | Some ndata \<Rightarrow> do {
         q' \<leftarrow> q_refill_d d km (q_data q) (q_range (q_nextread q) (q_nextwrite q) (q_size q))
                 \<lparr>q_size = nat nsize, q_nextwrite = 0, q_nextread = 0, q_data = ndata\<rparr>;
         Some (Inr (), q') } }"
| "q_refill_d d km olddata [] q = Some q"
| "q_refill_d 0 km olddata (i # is) q = None"
| "q_refill_d (Suc d) km olddata (i # is) q = do {
     x \<leftarrow> mem_read (Some olddata) (int i);
     (r, q') \<leftarrow> q_addtail_d (Suc d) km q x;
     kassert (r = Inr ());
     q_refill_d (Suc d) km olddata is q' }"

definition q_addtail :: "'a kmem \<Rightarrow> 'a queue \<Rightarrow> 'a \<Rightarrow> (unit, 'a queue) kcall" where
  "q_addtail km q ptr = q_addtail_d 3 km q ptr"

definition q_grow :: "'a kmem \<Rightarrow> 'a queue \<Rightarrow> int \<Rightarrow> (unit, 'a queue) kcall" where
  "q_grow km q targetsize = q_grow_d 2 km q targetsize"

text \<open>The flag says whether \<open>kmalloc\<close> finds room for the struct.\<close>

definition q_create :: "bool \<Rightarrow> 'a kmem \<Rightarrow> nat \<Rightarrow> 'a queue option" where
  "q_create ok km sz =
     (if ok then
        (case kalloc km sz of
           None \<Rightarrow> None
         | Some data \<Rightarrow> Some \<lparr>q_size = sz, q_nextwrite = 0, q_nextread = 0, q_data = data\<rparr>)
      else None)"

definition q_preallocate :: "'a kmem \<Rightarrow> 'a queue \<Rightarrow> int \<Rightarrow> (unit, 'a queue) kcall" where
  "q_preallocate km q sz = do {
     kassert (0 < q_size q);
     if sz > int (q_size q) then q_grow km q sz else Some (Inr (), q) }"

definition q_empty :: "'a queue \<Rightarrow> bool" where
  "q_empty q \<longleftrightarrow> q_nextwrite q = q_nextread q"

definition q_remhead :: "'a queue \<Rightarrow> ('a \<times> 'a queue) option" where
  "q_remhead q = do {
     kassert (0 < q_size q);
     kassert (\<not> q_empty q);
     ret \<leftarrow> mem_read (Some (q_data q)) (int (q_nextread q));
     Some (ret, q\<lparr>q_nextread := (q_nextread q + 1) mod q_size q\<rparr>) }"

text \<open>\<open>q_destroy\<close> hands back the two freed blocks to the heap; it panics on a queue in use.\<close>

definition q_destroy :: "'a queue \<Rightarrow> unit option" where
  "q_destroy q = kassert (q_empty q)"

definition q_getstart :: "'a queue \<Rightarrow> nat" where
  "q_getstart q = q_nextread q"

definition q_getend :: "'a queue \<Rightarrow> nat" where
  "q_getend q = q_nextwrite q"

definition q_getsize :: "'a queue \<Rightarrow> nat" where
  "q_getsize q = q_size q"

definition q_getguy :: "'a queue \<Rightarrow> int \<Rightarrow> 'a option" where
  "q_getguy q index = do {
     kassert (0 \<le> index \<and> index < int (q_size q));
     mem_read (Some (q_data q)) index }"

section \<open>Indices of a ring\<close>

lemma q_range_map:
  assumes "i < n" and "w < n"
  shows "q_range i w n = map (\<lambda>k. (i + k) mod n) [0..<(w + n - i) mod n]"
  using assms
proof (induction i w n rule: q_range.induct)
  case (1 i w n)
  show ?case
  proof (cases "i = w")
    case True
    then show ?thesis by (subst q_range.simps) simp
  next
    case False
    let ?c = "(w + n - i) mod n"
    have c: "(w + n - (i + 1) mod n) mod n = ?c - 1" "0 < ?c"
      using 1(2,3) False by (cases "i + 1 = n"; cases "i < w"; auto simp: le_mod_geq)+
    have "q_range i w n = i # map (\<lambda>k. ((i + 1) mod n + k) mod n) [0..<?c - 1]"
      using 1 False c by (simp add: q_range.simps [of i w n])
    also have "map (\<lambda>k. ((i + 1) mod n + k) mod n) [0..<?c - 1] = map (\<lambda>k. (i + k) mod n) [1..<?c]"
      by (rule nth_equalityI) (auto simp: mod_simps)
    also have "i # \<dots> = map (\<lambda>k. (i + k) mod n) [0..<?c]"
      using c(2) 1(2) by (simp add: upt_conv_Cons)
    finally show ?thesis .
  qed
qed

lemma length_q_range: "i < n \<Longrightarrow> w < n \<Longrightarrow> length (q_range i w n) = (w + n - i) mod n"
  by (simp add: q_range_map)

lemma set_q_range: "i < n \<Longrightarrow> w < n \<Longrightarrow> set (q_range i w n) \<subseteq> {0..<n}"
  by (auto simp: q_range_map)

lemma q_range_end_notin:
  assumes "i < n" and "w < n"
  shows "w \<notin> set (q_range i w n)"
proof
  assume "w \<in> set (q_range i w n)"
  then obtain k where k: "k < (w + n - i) mod n" "w = (i + k) mod n"
    using assms by (auto simp: q_range_map)
  then show False
    using assms by (cases "i \<le> w"; cases "i + k < n") (auto simp: le_mod_geq)
qed

lemma q_range_snoc:
  assumes "i < n" and "w < n" and "(w + 1) mod n \<noteq> i"
  shows "q_range i ((w + 1) mod n) n = q_range i w n @ [w]"
proof -
  let ?c = "(w + n - i) mod n"
  have c: "((w + 1) mod n + n - i) mod n = ?c + 1" "(i + ?c) mod n = w"
    using assms by (cases "w + 1 = n"; cases "i \<le> w"; auto simp: le_mod_geq)+
  have "(w + 1) mod n < n" using assms by simp
  with assms c show ?thesis by (simp add: q_range_map)
qed

section \<open>Well-formed queues and the list they hold\<close>

definition q_inv :: "'a queue \<Rightarrow> bool" where
  "q_inv q \<longleftrightarrow> 0 < q_size q \<and> q_size q < 2 ^ 31 \<and> length (q_data q) = q_size q \<and>
     q_nextread q < q_size q \<and> q_nextwrite q < q_size q"

definition q_list :: "'a queue \<Rightarrow> 'a list" where
  "q_list q = map (\<lambda>i. q_data q ! i) (q_range (q_nextread q) (q_nextwrite q) (q_size q))"

text \<open>\<open>k\<close> pointers fit without growing the ring: one slot always stays unused.\<close>

definition q_room :: "'a queue \<Rightarrow> nat \<Rightarrow> bool" where
  "q_room q k \<longleftrightarrow> k < q_size q"

lemma q_list_length: "q_inv q \<Longrightarrow> length (q_list q) < q_size q"
  by (simp add: q_inv_def q_list_def length_q_range)

lemma q_full_iff:
  assumes "q_inv q"
  shows "(q_nextwrite q + 1) mod q_size q = q_nextread q \<longleftrightarrow> Suc (length (q_list q)) = q_size q"
  using assms unfolding q_inv_def q_list_def
  by (cases "q_nextwrite q + 1 = q_size q"; cases "q_nextread q \<le> q_nextwrite q")
     (auto simp: length_q_range le_mod_geq)

lemma q_empty_iff: "q_inv q \<Longrightarrow> q_empty q \<longleftrightarrow> q_list q = []"
  by (auto simp: q_inv_def q_list_def q_empty_def q_range.simps [of "q_nextread q"])

lemma q_remhead_Cons:
  assumes "q_inv q" and "q_list q = x # xs"
  shows "\<exists>q'. q_remhead q = Some (x, q') \<and> q_inv q' \<and> q_list q' = xs \<and> q_size q' = q_size q"
proof -
  let ?r = "q_nextread q" and ?w = "q_nextwrite q" and ?n = "q_size q"
  have b: "?r < ?n" "?w < ?n" "length (q_data q) = ?n" using assms by (auto simp: q_inv_def)
  have ne: "?r \<noteq> ?w" using assms q_empty_iff [OF assms(1)] by (auto simp: q_empty_def)
  have rng: "q_range ?r ?w ?n = ?r # q_range ((?r + 1) mod ?n) ?w ?n"
    using ne b by (simp add: q_range.simps [of ?r])
  then have x: "x = q_data q ! ?r" "xs = map (\<lambda>i. q_data q ! i) (q_range ((?r + 1) mod ?n) ?w ?n)"
    using assms(2) by (auto simp: q_list_def)
  have "q_remhead q = Some (x, q\<lparr>q_nextread := (?r + 1) mod ?n\<rparr>)"
    using b ne x by (auto simp: q_remhead_def q_empty_def mem_read_def)
  then show ?thesis using assms(1) x b by (simp add: q_inv_def q_list_def)
qed

lemma q_remhead_empty: "q_inv q \<Longrightarrow> q_list q = [] \<Longrightarrow> q_remhead q = None"
  by (simp add: q_remhead_def q_empty_iff)

definition q_put :: "'a queue \<Rightarrow> 'a \<Rightarrow> 'a queue" where
  "q_put q x = q\<lparr>q_data := (q_data q)[q_nextwrite q := x],
                  q_nextwrite := (q_nextwrite q + 1) mod q_size q\<rparr>"

lemma q_put_correct:
  assumes "q_inv q" and "Suc (length (q_list q)) < q_size q"
  shows "q_inv (q_put q x)" and "q_list (q_put q x) = q_list q @ [x]" and "q_size (q_put q x) = q_size q"
proof -
  let ?r = "q_nextread q" and ?w = "q_nextwrite q" and ?n = "q_size q"
  have b: "?r < ?n" "?w < ?n" "length (q_data q) = ?n" using assms by (auto simp: q_inv_def)
  have ne: "(?w + 1) mod ?n \<noteq> ?r" using assms q_full_iff [OF assms(1)] by simp
  show "q_inv (q_put q x)" using assms(1) by (simp add: q_inv_def q_put_def)
  show "q_size (q_put q x) = q_size q" by (simp add: q_put_def)
  have "map (\<lambda>i. (q_data q)[?w := x] ! i) (q_range ?r ?w ?n) = map (\<lambda>i. q_data q ! i) (q_range ?r ?w ?n)"
    using q_range_end_notin [OF b(1,2)] by (metis (no_types, lifting) map_eq_conv nth_list_update_neq)
  then show "q_list (q_put q x) = q_list q @ [x]"
    using b q_range_snoc [OF b(1,2) ne] by (simp add: q_put_def q_list_def)
qed

lemma q_addtail_d_room:
  assumes "q_inv q" and "Suc (length (q_list q)) < q_size q"
  shows "q_addtail_d (Suc d) km q x = Some (Inr (), q_put q x)"
  using assms q_full_iff [OF assms(1)]
  by (auto simp: q_inv_def q_put_def mem_write_def)

section \<open>Growing\<close>

lemma double_pos_grows: "n < 2 ^ 31 \<Longrightarrow> 0 < n \<Longrightarrow> 0 < c_int (n * 2) \<Longrightarrow> n < c_int (n * 2)"
  using c_int_double_neg [of n] by (cases "n < 2 ^ 30") (auto simp: c_int_id)

lemma grow_size_ge:
  "grow_size n t = Some m \<Longrightarrow> 0 < n \<Longrightarrow> n < 2 ^ 31 \<Longrightarrow> t \<le> m \<and> n \<le> m \<and> m < 2 ^ 31"
proof (induction n t rule: grow_size.induct)
  case (1 n t)
  have "c_int (n * 2) < 2 ^ 31" by (simp add: c_int_def)
  with 1 show ?case
    by (auto simp: grow_size.simps [of n t] Let_def split: if_splits)
qed

lemma grow_size_defined: "0 < n \<Longrightarrow> n < 2 ^ 30 \<Longrightarrow> t \<le> 2 ^ 30 \<Longrightarrow> grow_size n t \<noteq> None"
proof (induction n t rule: grow_size.induct)
  case (1 n t)
  have e: "c_int (n * 2) = n * 2" using 1(2,3) by (intro c_int_id) auto
  show ?case
  proof (cases "n < t")
    case True
    show ?thesis
    proof (cases "n * 2 < 2 ^ 30")
      case True
      with 1 e \<open>n < t\<close> show ?thesis by (simp add: grow_size.simps [of n t] Let_def)
    next
      case False
      then have "grow_size (n * 2) t = Some (n * 2)" using 1(4) by (simp add: grow_size.simps)
      with 1 e \<open>n < t\<close> show ?thesis by (simp add: grow_size.simps [of n t] Let_def)
    qed
  next
    case False
    then show ?thesis by (simp add: grow_size.simps [of n t])
  qed
qed

lemma q_refill_correct:
  assumes "q_inv q" and "length (q_list q) + length is < q_size q" and "set is \<subseteq> {0..<length old}"
  shows "\<exists>q'. q_refill_d (Suc d) km old is q = Some q' \<and> q_inv q' \<and> q_size q' = q_size q \<and>
    q_list q' = q_list q @ map (\<lambda>i. old ! i) is"
  using assms
proof (induction "is" arbitrary: q)
  case Nil
  then show ?case by simp
next
  case (Cons i "is")
  have room: "Suc (length (q_list q)) < q_size q" using Cons.prems by simp
  note put = q_put_correct [OF Cons.prems(1) room, of "old ! i"]
  have "\<exists>q'. q_refill_d (Suc d) km old is (q_put q (old ! i)) = Some q' \<and> q_inv q' \<and>
      q_size q' = q_size q \<and> q_list q' = q_list q @ old ! i # map (\<lambda>i. old ! i) is"
    using Cons.IH [OF put(1)] Cons.prems put by simp
  moreover have "mem_read (Some old) (int i) = Some (old ! i)"
    using Cons.prems by (simp add: mem_read_def)
  ultimately show ?case
    using q_addtail_d_room [OF Cons.prems(1) room, of d km "old ! i"] by simp
qed

lemma q_grow_d_correct:
  assumes "q_inv q" and "int (q_size q) < t"
    and "grow_size (int (q_size q)) t = Some m" and "km (nat m) = Some junk"
  shows "\<exists>q'. q_grow_d (Suc (Suc d)) km q t = Some (Inr (), q') \<and> q_inv q' \<and>
    q_list q' = q_list q \<and> t \<le> int (q_size q') \<and> int (q_size q') = m"
proof -
  let ?is = "q_range (q_nextread q) (q_nextwrite q) (q_size q)"
  obtain nd where nd: "kalloc km (nat m) = Some nd" "length nd = nat m"
    using assms(4) by (simp add: kalloc_def)
  define q0 where "q0 = \<lparr>q_size = nat m, q_nextwrite = 0, q_nextread = 0, q_data = nd\<rparr>"
  have m: "t \<le> m" "m < 2 ^ 31" using grow_size_ge [OF assms(3)] assms(1) by (auto simp: q_inv_def)
  have q0: "q_inv q0" "q_list q0 = []" "q_size q0 = nat m"
    using nd m assms(2) by (auto simp: q0_def q_inv_def q_list_def q_range.simps)
  have "length ?is < q_size q" "set ?is \<subseteq> {0..<length (q_data q)}"
    using q_list_length [OF assms(1)] assms(1) set_q_range [of "q_nextread q" "q_size q" "q_nextwrite q"]
    by (auto simp: q_list_def q_inv_def)
  moreover have "length ?is < nat m" using \<open>length ?is < q_size q\<close> m assms(2) by linarith
  ultimately obtain q' where "q_refill_d (Suc d) km (q_data q) ?is q0 = Some q'" "q_inv q'"
      "q_size q' = q_size q0" "q_list q' = map (\<lambda>i. q_data q ! i) ?is"
    using q_refill_correct [OF q0(1), of ?is "q_data q" d km] q0 m assms(2) by auto
  then show ?thesis
    using assms(3) nd m assms(2) by (auto simp: q0_def q_list_def)
qed

lemma q_grow_d_fail:
  assumes "grow_size (int (q_size q)) t = Some m" and "km (nat m) = None"
  shows "q_grow_d (Suc d) km q t = Some (Inl ENOMEM, q)"
  using assms by (simp add: kalloc_def)

text \<open>Every outcome of \<open>q_addtail\<close> on a ring of fewer than \<open>2^30\<close> slots.\<close>

lemma q_addtail_cases:
  assumes "q_inv q" and "q_size q < 2 ^ 30"
  shows "(\<exists>q'. q_addtail km q x = Some (Inr (), q') \<and> q_inv q' \<and> q_list q' = q_list q @ [x] \<and>
      q_size q \<le> q_size q' \<and> (q_size q' = q_size q \<or> km (q_size q') \<noteq> None))
    \<or> (Suc (length (q_list q)) = q_size q \<and> q_addtail km q x = Some (Inl ENOMEM, q))"
proof (cases "Suc (length (q_list q)) = q_size q")
  case False
  then have "Suc (length (q_list q)) < q_size q" using q_list_length [OF assms(1)] by simp
  then show ?thesis
    using q_addtail_d_room [OF assms(1), of 2 km x] q_put_correct [OF assms(1), of x]
    by (simp add: q_addtail_def numeral_3_eq_3)
next
  case True
  let ?t = "int (q_size q) + 1"
  have pos: "0 < q_size q" using assms by (simp add: q_inv_def)
  obtain m where m: "grow_size (int (q_size q)) ?t = Some m"
    using grow_size_defined [of "int (q_size q)" ?t] assms pos by force
  have full: "(q_nextwrite q + 1) mod q_size q = q_nextread q" using q_full_iff [OF assms(1)] True by simp
  show ?thesis
  proof (cases "km (nat m)")
    case None
    then have "q_grow_d 2 km q ?t = Some (Inl ENOMEM, q)"
      using q_grow_d_fail [OF m, of km 1] by (simp add: numeral_2_eq_2)
    with full pos True show ?thesis by (simp add: q_addtail_def numeral_3_eq_3 numeral_2_eq_2)
  next
    case (Some junk)
    then obtain q1 where q1: "q_grow_d 2 km q ?t = Some (Inr (), q1)" "q_inv q1"
        "q_list q1 = q_list q" "?t \<le> int (q_size q1)" "int (q_size q1) = m"
      using q_grow_d_correct [OF assms(1) _ m, of km junk 0] by (auto simp: numeral_2_eq_2)
    then have "Suc (length (q_list q1)) < q_size q1" using True by simp
    note put = q_put_correct [OF q1(2) this, of x]
    have "q_nextwrite q1 < length (q_data q1)" using q1(2) by (simp add: q_inv_def)
    then have "q_addtail km q x = Some (Inr (), q_put q1 x)"
      using full pos q1(1)
      by (simp add: q_addtail_def numeral_3_eq_3 numeral_2_eq_2 mem_write_def q_put_def)
    moreover have "km (q_size q1) \<noteq> None" using Some q1(5) by auto
    ultimately show ?thesis using put q1 by simp
  qed
qed

lemma q_preallocate_cases:
  assumes "q_inv q" and "q_size q < 2 ^ 30" and "t \<le> 2 ^ 30"
  shows "(\<exists>q'. q_preallocate km q t = Some (Inr (), q') \<and> q_inv q' \<and> q_list q' = q_list q \<and>
      t \<le> int (q_size q') \<and> q_size q \<le> q_size q' \<and> (q_size q' = q_size q \<or> km (q_size q') \<noteq> None))
    \<or> q_preallocate km q t = Some (Inl ENOMEM, q)"
proof (cases "int (q_size q) < t")
  case False
  then show ?thesis using assms by (simp add: q_preallocate_def q_inv_def)
next
  case True
  have pos: "0 < q_size q" using assms by (simp add: q_inv_def)
  obtain m where m: "grow_size (int (q_size q)) t = Some m"
    using grow_size_defined [of "int (q_size q)" t] assms pos by force
  show ?thesis
  proof (cases "km (nat m)")
    case None
    with True pos q_grow_d_fail [OF m, of km 1] show ?thesis
      by (simp add: q_preallocate_def q_grow_def numeral_2_eq_2)
  next
    case (Some junk)
    then obtain q1 where "q_grow km q t = Some (Inr (), q1)" "q_inv q1" "q_list q1 = q_list q"
        "t \<le> int (q_size q1)" "km (q_size q1) \<noteq> None"
      using q_grow_d_correct [OF assms(1) True m, of km junk 0] by (auto simp: q_grow_def numeral_2_eq_2)
    with True pos show ?thesis by (simp add: q_preallocate_def)
  qed
qed

section \<open>The interface the kernel's clients use\<close>

text \<open>
  A first-in first-out line of pointers.  \<open>usable\<close> bounds the size of the representation, and
  \<open>room s k\<close> says that the line can hold \<open>k\<close> pointers without asking for memory.
\<close>

locale fifo =
  fixes seq :: "'s \<Rightarrow> 'a list"
    and inv :: "'s \<Rightarrow> bool"
    and usable :: "'s \<Rightarrow> bool"
    and room :: "'s \<Rightarrow> nat \<Rightarrow> bool"
    and is_empty :: "'s \<Rightarrow> bool"
    and addtail :: "'a kmem \<Rightarrow> 's \<Rightarrow> 'a \<Rightarrow> (unit, 's) kcall"
    and remhead :: "'s \<Rightarrow> ('a \<times> 's) option"
  assumes empty: "inv s \<Longrightarrow> is_empty s \<longleftrightarrow> seq s = []"
    and addtail: "inv s \<Longrightarrow> usable s \<Longrightarrow>
        (\<exists>s'. addtail km s x = Some (Inr (), s') \<and> inv s' \<and> seq s' = seq s @ [x] \<and>
          (kmem_limit km \<longrightarrow> usable s') \<and> (\<forall>k. room s k \<longrightarrow> room s' k)) \<or>
        addtail km s x = Some (Inl ENOMEM, s)"
    and addtail_room: "inv s \<Longrightarrow> usable s \<Longrightarrow> room s (Suc (length (seq s))) \<Longrightarrow>
        \<exists>s'. addtail km s x = Some (Inr (), s') \<and> usable s' \<and> (\<forall>k. room s' k \<longleftrightarrow> room s k)"
    and room_mono: "j \<le> k \<Longrightarrow> room s k \<Longrightarrow> room s j"
    and remhead: "inv s \<Longrightarrow> seq s = x # xs \<Longrightarrow>
        \<exists>s'. remhead s = Some (x, s') \<and> inv s' \<and> seq s' = xs \<and> (usable s' \<longleftrightarrow> usable s) \<and>
          (\<forall>k. room s' k \<longleftrightarrow> room s k)"
    and remhead_empty: "inv s \<Longrightarrow> seq s = [] \<Longrightarrow> remhead s = None"
begin

lemma addtail_success:
  assumes "inv s" and "usable s" and "room s (Suc (length (seq s)))"
  obtains s' where "addtail km s x = Some (Inr (), s')" and "inv s'" and "usable s'"
    and "seq s' = seq s @ [x]" and "\<And>k. room s' k \<longleftrightarrow> room s k"
  using addtail [OF assms(1,2), of km x] addtail_room [OF assms, of km x] by auto

lemma head_leaves_first:
  assumes "inv s" and "usable s" and "room s (Suc (length (seq s)))" and "seq s = y # ys"
  shows "\<exists>s' s''. addtail km s x = Some (Inr (), s') \<and> remhead s' = Some (y, s'') \<and>
    inv s'' \<and> seq s'' = ys @ [x]"
proof -
  obtain s' where "addtail km s x = Some (Inr (), s')" "inv s'" "seq s' = y # (ys @ [x])"
    using addtail_success [OF assms(1-3), of km x] assms(4) by auto
  with remhead [of s' y "ys @ [x]"] show ?thesis by blast
qed

lemma remhead_total: "inv s \<Longrightarrow> \<not> is_empty s \<Longrightarrow> \<exists>x s'. remhead s = Some (x, s') \<and> inv s' \<and> seq s = x # seq s'"
  using remhead [of s] empty [of s] by (cases "seq s") fastforce+

end

definition q_usable :: "'a queue \<Rightarrow> bool" where
  "q_usable q \<longleftrightarrow> q_size q < 2 ^ 30"

interpretation kq: fifo q_list q_inv q_usable q_room q_empty q_addtail q_remhead
proof
  fix s :: "'a queue" and x :: 'a and xs and km :: "'a kmem" and j k :: nat
  show "q_room s k \<Longrightarrow> q_room s j" if "j \<le> k" using that by (simp add: q_room_def)
  assume inv: "q_inv s"
  then show "q_empty s \<longleftrightarrow> q_list s = []" by (rule q_empty_iff)
  show "(\<exists>s'. q_addtail km s x = Some (Inr (), s') \<and> q_inv s' \<and> q_list s' = q_list s @ [x] \<and>
        (kmem_limit km \<longrightarrow> q_usable s') \<and> (\<forall>k. q_room s k \<longrightarrow> q_room s' k)) \<or>
      q_addtail km s x = Some (Inl ENOMEM, s)" if "q_usable s"
    using q_addtail_cases [OF inv, of km x] that
    by (auto simp: q_usable_def q_room_def dest: kmem_limitD)
  show "\<exists>s'. q_addtail km s x = Some (Inr (), s') \<and> q_usable s' \<and> (\<forall>k. q_room s' k \<longleftrightarrow> q_room s k)"
    if "q_usable s" "q_room s (Suc (length (q_list s)))"
    using q_addtail_d_room [OF inv, of 2 km x] q_put_correct(3) [OF inv, of x] that
    by (simp add: q_addtail_def numeral_3_eq_3 q_usable_def q_room_def)
  show "\<exists>s'. q_remhead s = Some (x, s') \<and> q_inv s' \<and> q_list s' = xs \<and>
      (q_usable s' \<longleftrightarrow> q_usable s) \<and> (\<forall>k. q_room s' k \<longleftrightarrow> q_room s k)" if "q_list s = x # xs"
    using q_remhead_Cons [OF inv that] by (auto simp: q_usable_def q_room_def)
  show "q_remhead s = None" if "q_list s = []" using inv that by (rule q_remhead_empty)
qed

section \<open>Properties\<close>

definition ex_queue :: "nat queue" where
  "ex_queue = \<lparr>q_size = 4, q_nextwrite = 1, q_nextread = 2, q_data = [7, 0, 5, 6]\<rparr>"

lemma ex_queue_ok: "q_inv ex_queue" "q_list ex_queue = [5, 6, 7]" "q_size ex_queue = 4"
  by (simp_all add: ex_queue_def q_inv_def q_list_def q_range.simps)

text \<open>
  the ring buffer is a queue.  On a well-formed ring of fewer than \<open>2^30\<close> slots \<open>q_addtail\<close> never
  panics: it appends the pointer (growing the ring when it is full) or, if the ring is full and
  there is no memory, returns \<open>ENOMEM\<close> and changes nothing.  After a successful call
  \<open>q_remhead\<close> takes the pointers out in the order they went in, the new one last.
\<close>

theorem q_addtail_fifo:
  assumes "q_inv q" and "q_size q < 2 ^ 30" and "q_list q = y # ys"
  shows "(\<exists>q' q''. q_addtail km q x = Some (Inr (), q') \<and> q_inv q' \<and> q_list q' = q_list q @ [x] \<and>
      q_remhead q' = Some (y, q'') \<and> q_inv q'' \<and> q_list q'' = ys @ [x])
    \<or> (Suc (length (q_list q)) = q_size q \<and> q_addtail km q x = Some (Inl ENOMEM, q))"
proof -
  consider (ok) q' where "q_addtail km q x = Some (Inr (), q')" "q_inv q'" "q_list q' = q_list q @ [x]"
    | (full) "Suc (length (q_list q)) = q_size q" "q_addtail km q x = Some (Inl ENOMEM, q)"
    using q_addtail_cases [OF assms(1,2), of km x] by blast
  then show ?thesis
  proof cases
    case ok
    then show ?thesis using kq.remhead [of q' y "ys @ [x]"] assms(3) by auto
  next
    case full
    then show ?thesis by blast
  qed
qed

theorem q_addtail_fifo_witness:
  "\<exists>q' q''. q_addtail (\<lambda>n. Some (\<lambda>_. 0)) ex_queue 8 = Some (Inr (), q') \<and> q_list q' = [5, 6, 7, 8] \<and>
    q_remhead q' = Some (5, q'')"
proof -
  have "q_addtail (\<lambda>n. Some (\<lambda>_. 0)) ex_queue 8 \<noteq> Some (Inl ENOMEM, ex_queue)" by code_simp
  then show ?thesis
    using q_addtail_fifo [OF ex_queue_ok(1) _ ex_queue_ok(2), of "\<lambda>n. Some (\<lambda>_. 0)" 8] ex_queue_ok by auto
qed

text \<open>
  \<open>q_preallocate\<close> is one short.  A queue that was preallocated for \<open>n\<close> pointers and got
  exactly \<open>n\<close> slots holds only \<open>n - 1\<close> of them without growing: adding the \<open>n\<close>-th one
  still allocates, and fails when there is no memory.
\<close>

theorem q_preallocate_one_short:
  assumes "q_inv q" and "q_size q < 2 ^ 30" and "Suc (length (q_list q)) = q_size q"
  shows "q_preallocate km q (int (q_size q)) = Some (Inr (), q) \<and>
    q_addtail (\<lambda>_. None) q x = Some (Inl ENOMEM, q)"
proof -
  have pos: "0 < q_size q" using assms(1) by (simp add: q_inv_def)
  obtain m where m: "grow_size (int (q_size q)) (int (q_size q) + 1) = Some m"
    using grow_size_defined [of "int (q_size q)" "int (q_size q) + 1"] assms(2) pos by force
  have "q_grow_d 2 (\<lambda>_. None) q (int (q_size q) + 1) = Some (Inl ENOMEM, q)"
    using q_grow_d_fail [OF m, of "\<lambda>_. None" 1] by (simp add: numeral_2_eq_2)
  then have "q_addtail (\<lambda>_. None) q x = Some (Inl ENOMEM, q)"
    using q_full_iff [OF assms(1)] assms(3) pos by (simp add: q_addtail_def numeral_3_eq_3 numeral_2_eq_2)
  then show ?thesis using pos by (simp add: q_preallocate_def)
qed

theorem q_preallocate_one_short_witness:
  "q_preallocate (\<lambda>_. None) ex_queue 4 = Some (Inr (), ex_queue) \<and>
    q_addtail (\<lambda>_. None) ex_queue 8 = Some (Inl ENOMEM, ex_queue)"
  using q_preallocate_one_short [OF ex_queue_ok(1), of "\<lambda>_. None" 8] ex_queue_ok by simp

end
