(* ===== verification/Threads.thy ===== *)
theory Threads
  imports Kern_Array Kern_Queue
begin

text \<open>
  The thread system: \<open>kern/thread/thread.c\<close> and \<open>kern/thread/scheduler.c\<close>, with the
  interrupt level of \<open>kern/arch/mips/mips/spl.c\<close>.

  A thread structure lives at an address (\<open>tid\<close>).  The kernel state holds the table of
  thread structures, the current thread (\<open>None\<close> while the scheduler idles), the ring buffer
  of runnable threads, the arrays of sleeping and zombie threads and the thread count, all
  built from the components \<open>Kern_Array\<close> and \<open>Kern_Queue\<close>.

  A context switch stops one thread in the middle of \<open>mi_switch\<close> and goes on in another one.
  What a stopped thread does when it is switched to again is kept in its \<open>t_pcb\<close>: a new thread
  starts in \<open>mi_threadstart\<close>, any other returns from \<open>md_switch\<close> to a caller of \<open>mi_switch\<close>,
  described by a value of type \<open>'k\<close>; \<open>t_ininterrupt\<close> is the field \<open>pcb_ininterrupt\<close>, in which
  \<open>md_switch\<close> saves the flag \<open>in_interrupt\<close> of the thread.  \<open>mi_switch\<close> is therefore two functions: \<open>mi_switch_out\<close>
  puts the current thread on its list and \<open>schedule\<close> is the scheduler up to \<open>md_switch\<close>, leaving
  in \<open>k_pending\<close> what the chosen thread has to do first; \<open>mi_switch_return\<close> is the code after
  \<open>md_switch\<close>.

  Calls into the VM system and the VFS (\<open>as_activate\<close>, \<open>as_destroy\<close>, \<open>VOP_INCREF\<close>,
  \<open>VOP_DECREF\<close>) and console output are recorded in order in \<open>k_calls\<close>.
\<close>

section \<open>The model\<close>

datatype threadstate_t = S_RUN | S_READY | S_SLEEP | S_ZOMB

type_synonym tid = nat

text \<open>
  What a thread can sleep on: the address of a kernel object, or a process id cast to a
  pointer.  Distinct kernel objects have distinct addresses.
\<close>

datatype sleepaddr = SemObj nat | LockObj nat | CvObj nat | PidObj int | LboltObj

datatype 'k pcb = PcbStart | PcbSwitch 'k

record 'k thread =
  t_pcb :: "'k pcb"
  t_ininterrupt :: int
  t_name :: string
  t_sleepaddr :: "sleepaddr option"
  t_stack :: "8 word list option"
  t_pid :: int
  t_parent_pid :: int
  t_vmspace :: "nat option"
  t_cwd :: "nat option"

datatype kevent =
    As_activate nat | As_destroy nat | Vop_incref nat | Vop_decref nat | Kprintf string

record 'k kstate =
  threads :: "tid \<Rightarrow> 'k thread option"
  curthread :: "tid option"
  sleepers :: "tid array"
  zombies :: "tid array"
  runqueue :: "tid queue"
  numthreads :: int
  curspl :: int
  in_interrupt :: int
  k_pending :: "'k pcb option"
  k_calls :: "kevent list"

abbreviation SPL_HIGH :: int where "SPL_HIGH \<equiv> 15"

definition splx :: "int \<Rightarrow> ('k, 'z) kstate_scheme \<Rightarrow> int \<times> ('k, 'z) kstate_scheme" where
  "splx newspl st = (curspl st, st\<lparr>curspl := newspl\<rparr>)"

definition splhigh :: "('k, 'z) kstate_scheme \<Rightarrow> int \<times> ('k, 'z) kstate_scheme" where
  "splhigh st = splx SPL_HIGH st"

definition spl0 :: "('k, 'z) kstate_scheme \<Rightarrow> int \<times> ('k, 'z) kstate_scheme" where
  "spl0 st = splx 0 st"

definition kcall_log :: "kevent \<Rightarrow> ('k, 'z) kstate_scheme \<Rightarrow> ('k, 'z) kstate_scheme" where
  "kcall_log e st = st\<lparr>k_calls := k_calls st @ [e]\<rparr>"

definition upd_thread ::
  "tid \<Rightarrow> ('k thread \<Rightarrow> 'k thread) \<Rightarrow> ('k, 'z) kstate_scheme \<Rightarrow> ('k, 'z) kstate_scheme" where
  "upd_thread t f st = st\<lparr>threads := (threads st)(t := map_option f (threads st t))\<rparr>"

text \<open>The magic number \<open>thread_fork\<close> puts at the bottom of a stack.\<close>

definition stack_magic :: "8 word list" where
  "stack_magic = [0xae, 0x11, 0xda, 0x33]"

definition stack_ok :: "'k thread \<Rightarrow> bool" where
  "stack_ok th = (case t_stack th of None \<Rightarrow> True | Some bs \<Rightarrow> take 4 bs = stack_magic)"

subsection \<open>Scheduler\<close>

text \<open>The flags and the allocator are the results of \<open>kmalloc\<close>; no memory means a panic.\<close>

definition scheduler_bootstrap :: "bool \<Rightarrow> tid kmem \<Rightarrow> ('k, 'z) kstate_scheme \<Rightarrow> ('k, 'z) kstate_scheme option" where
  "scheduler_bootstrap ok km st = do {
     q \<leftarrow> q_create ok km 32;
     Some (st\<lparr>runqueue := q\<rparr>) }"

definition scheduler_preallocate ::
  "tid kmem \<Rightarrow> int \<Rightarrow> ('k, 'z) kstate_scheme \<Rightarrow> (unit, ('k, 'z) kstate_scheme) kcall" where
  "scheduler_preallocate km nthreads st = do {
     kassert (curspl st > 0);
     (r, q) \<leftarrow> q_preallocate km (runqueue st) nthreads;
     Some (r, st\<lparr>runqueue := q\<rparr>) }"

definition make_runnable ::
  "tid kmem \<Rightarrow> tid \<Rightarrow> ('k, 'z) kstate_scheme \<Rightarrow> (unit, ('k, 'z) kstate_scheme) kcall" where
  "make_runnable km t st = do {
     kassert (curspl st > 0);
     (r, q) \<leftarrow> q_addtail km (runqueue st) t;
     Some (r, st\<lparr>runqueue := q\<rparr>) }"

text \<open>
  The loop of \<open>scheduler_killall\<close>; the argument counts the pointers left in the ring, which
  is at most its size.
\<close>

fun killall_loop :: "nat \<Rightarrow> ('k, 'z) kstate_scheme \<Rightarrow> ('k, 'z) kstate_scheme option" where
  "killall_loop n st =
     (if q_empty (runqueue st) then Some st
      else case n of 0 \<Rightarrow> None | Suc m \<Rightarrow> do {
        (t, q) \<leftarrow> q_remhead (runqueue st);
        th \<leftarrow> threads st t;
        killall_loop m (kcall_log (Kprintf (''scheduler: Dropping thread '' @ t_name th @ [CHR ''.'', CHR 0x0A]))
                                  (st\<lparr>runqueue := q\<rparr>)) })"

declare killall_loop.simps [simp del]

definition scheduler_killall :: "('k, 'z) kstate_scheme \<Rightarrow> ('k, 'z) kstate_scheme option" where
  "scheduler_killall st = do {
     kassert (curspl st > 0);
     killall_loop (q_size (runqueue st)) st }"

definition scheduler_shutdown :: "('k, 'z) kstate_scheme \<Rightarrow> ('k, 'z) kstate_scheme option" where
  "scheduler_shutdown st = do {
     st1 \<leftarrow> scheduler_killall st;
     kassert (curspl st1 > 0);
     q_destroy (runqueue st1);
     Some st1 }"

subsection \<open>Creating and destroying thread structures\<close>

text \<open>
  The first argument is the address \<open>kmalloc\<close> returned for the structure (\<open>None\<close> for \<open>NULL\<close>),
  the flag whether \<open>kstrdup\<close> found room for the name.
\<close>

definition new_thread :: "string \<Rightarrow> 'k thread" where
  "new_thread name = \<lparr>t_pcb = PcbStart, t_ininterrupt = 0, t_name = name, t_sleepaddr = None, t_stack = None,
     t_pid = 0, t_parent_pid = 0, t_vmspace = None, t_cwd = None\<rparr>"

definition thread_create ::
  "tid option \<Rightarrow> bool \<Rightarrow> string \<Rightarrow> ('k, 'z) kstate_scheme \<Rightarrow> tid option \<times> ('k, 'z) kstate_scheme" where
  "thread_create mem okname name st =
     (case mem of
        None \<Rightarrow> (None, st)
      | Some t \<Rightarrow> if okname then (Some t, st\<lparr>threads := (threads st)(t := Some (new_thread name))\<rparr>)
                  else (None, st))"

definition thread_destroy :: "tid \<Rightarrow> ('k, 'z) kstate_scheme \<Rightarrow> ('k, 'z) kstate_scheme option" where
  "thread_destroy t st = do {
     kassert (Some t \<noteq> curthread st);
     th \<leftarrow> threads st t;
     kassert (t_vmspace th = None);
     kassert (t_cwd th = None);
     Some (st\<lparr>threads := (threads st)(t := None)\<rparr>) }"

text \<open>The loop over \<open>zombies\<close> in \<open>exorcise\<close>, from index \<open>i\<close> on.\<close>

function exorcise_loop :: "int \<Rightarrow> ('k, 'z) kstate_scheme \<Rightarrow> ('k, 'z) kstate_scheme option" where
  "exorcise_loop i st =
     (if i < array_getnum (zombies st) then do {
        z \<leftarrow> array_getguy (zombies st) i;
        kassert (Some z \<noteq> curthread st);
        st' \<leftarrow> thread_destroy z st;
        exorcise_loop (i + 1) st' }
      else Some st)"
  by pat_completeness auto
termination
  by (relation "measure (\<lambda>(i, st). nat (a_num (zombies st) - i))")
     (auto simp: array_getnum_def thread_destroy_def split: Option.bind_splits if_splits)

declare exorcise_loop.simps [simp del]

text \<open>Shrinking an array does not allocate, so the allocator passed here is never used.\<close>

definition exorcise :: "('k, 'z) kstate_scheme \<Rightarrow> ('k, 'z) kstate_scheme option" where
  "exorcise st = do {
     kassert (curspl st > 0);
     st1 \<leftarrow> exorcise_loop 0 st;
     (r, z) \<leftarrow> array_setsize (\<lambda>_. None) (zombies st1) 0;
     kassert (r = Inr ());
     Some (st1\<lparr>zombies := z\<rparr>) }"

subsection \<open>Shutdown\<close>

fun thread_killall_msgs :: "nat \<Rightarrow> ('k, 'z) kstate_scheme \<Rightarrow> ('k, 'z) kstate_scheme option" where
  "thread_killall_msgs 0 st = Some st"
| "thread_killall_msgs (Suc n) st = do {
     st' \<leftarrow> thread_killall_msgs n st;
     t \<leftarrow> array_getguy (sleepers st') (int n);
     th \<leftarrow> threads st' t;
     Some (kcall_log (Kprintf (''sleep: Dropping thread '' @ t_name th @ [CHR 0x0A])) st') }"

definition thread_killall :: "('k, 'z) kstate_scheme \<Rightarrow> ('k, 'z) kstate_scheme option" where
  "thread_killall st = do {
     kassert (curspl st > 0);
     st1 \<leftarrow> thread_killall_msgs (nat (array_getnum (sleepers st))) st;
     (r, s) \<leftarrow> array_setsize (\<lambda>_. None) (sleepers st1) 0;
     kassert (r = Inr ());
     Some (st1\<lparr>sleepers := s\<rparr>) }"

definition thread_panic :: "('k, 'z) kstate_scheme \<Rightarrow> ('k, 'z) kstate_scheme option" where
  "thread_panic st = do {
     kassert (curspl st > 0);
     st1 \<leftarrow> thread_killall st;
     scheduler_killall st1 }"

text \<open>The state before \<open>thread_bootstrap\<close>: interrupts are off, there is no thread.\<close>

definition boot_state :: "tid queue \<Rightarrow> 'k kstate" where
  "boot_state rq = \<lparr>threads = (\<lambda>_. None), curthread = None,
     sleepers = \<lparr>a_num = 0, a_max = 0, a_v = None\<rparr>, zombies = \<lparr>a_num = 0, a_max = 0, a_v = None\<rparr>,
     runqueue = rq, numthreads = 0, curspl = SPL_HIGH, in_interrupt = 0, k_pending = None, k_calls = []\<rparr>"

definition thread_bootstrap ::
  "bool \<Rightarrow> bool \<Rightarrow> tid option \<Rightarrow> bool \<Rightarrow> ('k, 'z) kstate_scheme \<Rightarrow> ('k, 'z) kstate_scheme option" where
  "thread_bootstrap ok1 ok2 mem okname st = do {
     s \<leftarrow> array_create ok1;
     z \<leftarrow> array_create ok2;
     let (me, st1) = thread_create mem okname ''<boot/menu>'' (st\<lparr>sleepers := s, zombies := z\<rparr>);
     t \<leftarrow> me;
     Some (st1\<lparr>curthread := Some t, numthreads := 1\<rparr>) }"

subsection \<open>Forking\<close>

text \<open>The label \<open>fail\<close> of \<open>thread_fork\<close>.\<close>

definition thread_fork_fail ::
  "errno \<Rightarrow> int \<Rightarrow> tid \<Rightarrow> ('k, 'z) kstate_scheme \<Rightarrow> (tid, ('k, 'z) kstate_scheme) kcall" where
  "thread_fork_fail e s t st = (let st1 = snd (splx s st) in do {
     th \<leftarrow> threads st1 t;
     let st2 = (case t_cwd th of None \<Rightarrow> st1 | Some v \<Rightarrow> kcall_log (Vop_decref v) st1);
     Some (Inl e, st2\<lparr>threads := (threads st2)(t := None)\<rparr>) })"

text \<open>
  The part of \<open>thread_fork\<close> between \<open>splhigh\<close> and \<open>splx\<close>, with interrupts off: room is made
  in the thread lists, then the new thread becomes runnable and is counted.
\<close>

definition thread_fork_admit ::
  "tid kmem \<Rightarrow> int \<Rightarrow> tid \<Rightarrow> ('k, 'z) kstate_scheme \<Rightarrow> (tid, ('k, 'z) kstate_scheme) kcall" where
  "thread_fork_admit km s t st = do {
     (r1, sl) \<leftarrow> array_preallocate km (sleepers st) (numthreads st + 1);
     let st1 = st\<lparr>sleepers := sl\<rparr>;
     case r1 of Inl e \<Rightarrow> thread_fork_fail e s t st1 | Inr _ \<Rightarrow> do {
     (r2, zo) \<leftarrow> array_preallocate km (zombies st1) (numthreads st1 + 1);
     let st2 = st1\<lparr>zombies := zo\<rparr>;
     case r2 of Inl e \<Rightarrow> thread_fork_fail e s t st2 | Inr _ \<Rightarrow> do {
     (r3, st3) \<leftarrow> scheduler_preallocate km (numthreads st2 + 1) st2;
     case r3 of Inl e \<Rightarrow> thread_fork_fail e s t st3 | Inr _ \<Rightarrow> do {
     (r4, st4) \<leftarrow> make_runnable km t st3;
     case r4 of Inl e \<Rightarrow> thread_fork_fail e s t st4 | Inr _ \<Rightarrow>
       Some (Inr t, snd (splx s (st4\<lparr>numthreads := numthreads st4 + 1\<rparr>))) } } } }"

text \<open>
  The arguments \<open>mem\<close>, \<open>okname\<close>, \<open>okstack\<close> and \<open>km\<close> are the results of the allocations, in
  the order the code makes them.  \<open>newguy->parent_pid\<close> is written before \<open>newguy\<close> is
  compared with \<open>NULL\<close>, so a failed allocation of the structure is a null dereference.
\<close>

definition thread_fork ::
  "tid option \<Rightarrow> bool \<Rightarrow> bool \<Rightarrow> tid kmem \<Rightarrow> string \<Rightarrow> ('k, 'z) kstate_scheme
     \<Rightarrow> (tid, ('k, 'z) kstate_scheme) kcall" where
  "thread_fork mem okname okstack km name st = do {
     let (newguy, st1) = thread_create mem okname name st;
     cur \<leftarrow> curthread st1;
     cth \<leftarrow> threads st1 cur;
     t \<leftarrow> newguy;
     let st2 = upd_thread t (\<lambda>th. th\<lparr>t_parent_pid := t_pid cth\<rparr>) st1;
     if \<not> okstack then Some (Inl ENOMEM, st2\<lparr>threads := (threads st2)(t := None)\<rparr>)
     else do {
       let st3 = upd_thread t (\<lambda>th. th\<lparr>t_stack := Some stack_magic\<rparr>) st2;
       let st4 = (case t_cwd cth of
             None \<Rightarrow> st3
           | Some v \<Rightarrow> upd_thread t (\<lambda>th. th\<lparr>t_cwd := Some v\<rparr>) (kcall_log (Vop_incref v) st3));
       let st5 = upd_thread t (\<lambda>th. th\<lparr>t_pcb := PcbStart, t_ininterrupt := 0\<rparr>) st4;
       let (s, st6) = splhigh st5;
       thread_fork_admit km s t st6 } }"

subsection \<open>Context switch\<close>

text \<open>The list \<open>mi_switch\<close> stashes the current thread on.\<close>

definition stash ::
  "tid kmem \<Rightarrow> threadstate_t \<Rightarrow> tid \<Rightarrow> ('k, 'z) kstate_scheme \<Rightarrow> (unit, ('k, 'z) kstate_scheme) kcall" where
  "stash km nextstate cur st =
     (if nextstate = S_READY then make_runnable km cur st
      else if nextstate = S_SLEEP then do {
        (r, a) \<leftarrow> array_add km (sleepers st) cur;
        Some (r, st\<lparr>sleepers := a\<rparr>) }
      else do {
        kassert (nextstate = S_ZOMB);
        (r, a) \<leftarrow> array_add km (zombies st) cur;
        Some (r, st\<lparr>zombies := a\<rparr>) })"

definition mi_switch_out ::
  "tid kmem \<Rightarrow> threadstate_t \<Rightarrow> 'k \<Rightarrow> ('k, 'z) kstate_scheme \<Rightarrow> ('k, 'z) kstate_scheme option" where
  "mi_switch_out km nextstate k st = do {
     kassert (curspl st > 0);
     case curthread st of
       None \<Rightarrow> Some st
     | Some cur \<Rightarrow> do {
         th \<leftarrow> threads st cur;
         kassert (stack_ok th);
         let st1 = (upd_thread cur (\<lambda>th. th\<lparr>t_pcb := PcbSwitch k, t_ininterrupt := in_interrupt st\<rparr>) st)
                    \<lparr>curthread := None\<rparr>;
         (r, st2) \<leftarrow> stash km nextstate cur st1;
         kassert (r = Inr ());
         Some st2 } }"

text \<open>One turn of the scheduler; with an empty run queue it idles until the next interrupt.\<close>

definition schedule :: "('k, 'z) kstate_scheme \<Rightarrow> ('k, 'z) kstate_scheme option" where
  "schedule st = do {
     kassert (curspl st > 0);
     if q_empty (runqueue st) then Some st
     else do {
       (next, q) \<leftarrow> q_remhead (runqueue st);
       th \<leftarrow> threads st next;
       Some (st\<lparr>runqueue := q, curthread := Some next, in_interrupt := t_ininterrupt th,
                k_pending := Some (t_pcb th)\<rparr>) } }"

definition mi_switch ::
  "tid kmem \<Rightarrow> threadstate_t \<Rightarrow> 'k \<Rightarrow> ('k, 'z) kstate_scheme \<Rightarrow> ('k, 'z) kstate_scheme option" where
  "mi_switch km nextstate k st = do {
     st1 \<leftarrow> mi_switch_out km nextstate k st;
     if curthread st = None then Some st1 else schedule st1 }"

definition activate_cur :: "('k, 'z) kstate_scheme \<Rightarrow> ('k, 'z) kstate_scheme option" where
  "activate_cur st = do {
     cur \<leftarrow> curthread st;
     th \<leftarrow> threads st cur;
     Some (case t_vmspace th of None \<Rightarrow> st | Some a \<Rightarrow> kcall_log (As_activate a) st) }"

definition mi_switch_return :: "('k, 'z) kstate_scheme \<Rightarrow> ('k, 'z) kstate_scheme option" where
  "mi_switch_return st = do {
     st1 \<leftarrow> exorcise st;
     st2 \<leftarrow> activate_cur st1;
     Some (st2\<lparr>k_pending := None\<rparr>) }"

definition mi_threadstart :: "('k, 'z) kstate_scheme \<Rightarrow> ('k, 'z) kstate_scheme option" where
  "mi_threadstart st = do {
     st1 \<leftarrow> activate_cur st;
     Some ((snd (spl0 st1))\<lparr>k_pending := None\<rparr>) }"

subsection \<open>Exit, yield, sleep and wakeup\<close>

definition thread_exit ::
  "tid kmem \<Rightarrow> 'k \<Rightarrow> ('k, 'z) kstate_scheme \<Rightarrow> ('k, 'z) kstate_scheme option" where
  "thread_exit km k st = do {
     cur \<leftarrow> curthread st;
     th \<leftarrow> threads st cur;
     kassert (stack_ok th);
     let st1 = snd (splhigh st);
     let st2 = (case t_vmspace th of None \<Rightarrow> st1
       | Some a \<Rightarrow> kcall_log (As_destroy a) (upd_thread cur (\<lambda>th. th\<lparr>t_vmspace := None\<rparr>) st1));
     let st3 = (case t_cwd th of None \<Rightarrow> st2
       | Some v \<Rightarrow> upd_thread cur (\<lambda>th. th\<lparr>t_cwd := None\<rparr>) (kcall_log (Vop_decref v) st2));
     kassert (numthreads st3 > 0);
     mi_switch km S_ZOMB k (st3\<lparr>numthreads := numthreads st3 - 1\<rparr>) }"

text \<open>The caller's \<open>splx(spl)\<close> after \<open>mi_switch\<close> belongs to what the thread does when it returns.\<close>

definition thread_yield ::
  "tid kmem \<Rightarrow> (int \<Rightarrow> 'k) \<Rightarrow> ('k, 'z) kstate_scheme \<Rightarrow> ('k, 'z) kstate_scheme option" where
  "thread_yield km k st = (let (spl, st1) = splhigh st in
     if curthread st = None then do { st2 \<leftarrow> mi_switch km S_READY (k spl) st1; Some (snd (splx spl st2)) }
     else mi_switch km S_READY (k spl) st1)"

definition thread_sleep ::
  "tid kmem \<Rightarrow> sleepaddr \<Rightarrow> 'k \<Rightarrow> ('k, 'z) kstate_scheme \<Rightarrow> ('k, 'z) kstate_scheme option" where
  "thread_sleep km addr k st = do {
     kassert (in_interrupt st = 0);
     cur \<leftarrow> curthread st;
     mi_switch km S_SLEEP k (upd_thread cur (\<lambda>th. th\<lparr>t_sleepaddr := Some addr\<rparr>) st) }"

text \<open>The end of \<open>thread_sleep\<close>, after \<open>mi_switch\<close> has returned.\<close>

definition thread_sleep_return :: "('k, 'z) kstate_scheme \<Rightarrow> ('k, 'z) kstate_scheme option" where
  "thread_sleep_return st = do {
     cur \<leftarrow> curthread st;
     Some (upd_thread cur (\<lambda>th. th\<lparr>t_sleepaddr := None\<rparr>) st) }"

function thread_wakeup_loop ::
  "tid kmem \<Rightarrow> sleepaddr \<Rightarrow> int \<Rightarrow> ('k, 'z) kstate_scheme \<Rightarrow> ('k, 'z) kstate_scheme option" where
  "thread_wakeup_loop km addr i st =
     (if i < array_getnum (sleepers st) then do {
        t \<leftarrow> array_getguy (sleepers st) i;
        th \<leftarrow> threads st t;
        if t_sleepaddr th = Some addr then do {
          a \<leftarrow> array_remove (sleepers st) i;
          (r, st') \<leftarrow> make_runnable km t (st\<lparr>sleepers := a\<rparr>);
          kassert (r = Inr ());
          thread_wakeup_loop km addr i st' }
        else thread_wakeup_loop km addr (i + 1) st }
      else Some st)"
  by pat_completeness auto
termination
  by (relation "measure (\<lambda>(km, addr, i, st). nat (a_num (sleepers st) - i))")
     (auto simp: array_getnum_def array_remove_def make_runnable_def Let_def
       split: Option.bind_splits if_splits)

declare thread_wakeup_loop.simps [simp del]

definition thread_wakeup ::
  "tid kmem \<Rightarrow> sleepaddr \<Rightarrow> ('k, 'z) kstate_scheme \<Rightarrow> ('k, 'z) kstate_scheme option" where
  "thread_wakeup km addr st = do {
     kassert (curspl st > 0);
     thread_wakeup_loop km addr 0 st }"

function thread_wakeup_head_loop ::
  "tid kmem \<Rightarrow> sleepaddr \<Rightarrow> tid \<Rightarrow> int \<Rightarrow> ('k, 'z) kstate_scheme \<Rightarrow> ('k, 'z) kstate_scheme option" where
  "thread_wakeup_head_loop km addr head i st =
     (if i < array_getnum (sleepers st) then do {
        t \<leftarrow> array_getguy (sleepers st) i;
        th \<leftarrow> threads st t;
        if t_sleepaddr th = Some addr \<and> head = t then do {
          a \<leftarrow> array_remove (sleepers st) i;
          (r, st') \<leftarrow> make_runnable km t (st\<lparr>sleepers := a\<rparr>);
          kassert (r = Inr ());
          Some st' }
        else thread_wakeup_head_loop km addr head (i + 1) st }
      else Some st)"
  by pat_completeness auto
termination
  by (relation "measure (\<lambda>(km, addr, head, i, st). nat (a_num (sleepers st) - i))")
     (auto simp: array_getnum_def)

declare thread_wakeup_head_loop.simps [simp del]

text \<open>The waiting line is the condition variable's queue; it is handed back without its head.\<close>

definition thread_wakeup_head ::
  "tid kmem \<Rightarrow> sleepaddr \<Rightarrow> tid queue \<Rightarrow> ('k, 'z) kstate_scheme
     \<Rightarrow> (tid queue \<times> ('k, 'z) kstate_scheme) option" where
  "thread_wakeup_head km addr cv_queue st = do {
     (head, q) \<leftarrow> q_remhead cv_queue;
     kassert (curspl st > 0);
     st' \<leftarrow> thread_wakeup_head_loop km addr head 0 st;
     Some (q, st') }"

function thread_hassleepers_loop :: "sleepaddr \<Rightarrow> int \<Rightarrow> ('k, 'z) kstate_scheme \<Rightarrow> bool option" where
  "thread_hassleepers_loop addr i st =
     (if i < array_getnum (sleepers st) then do {
        t \<leftarrow> array_getguy (sleepers st) i;
        th \<leftarrow> threads st t;
        if t_sleepaddr th = Some addr then Some True
        else thread_hassleepers_loop addr (i + 1) st }
      else Some False)"
  by pat_completeness auto
termination
  by (relation "measure (\<lambda>(addr, i, st). nat (a_num (sleepers st) - i))") (auto simp: array_getnum_def)

declare thread_hassleepers_loop.simps [simp del]

definition thread_hassleepers :: "sleepaddr \<Rightarrow> ('k, 'z) kstate_scheme \<Rightarrow> bool option" where
  "thread_hassleepers addr st = do {
     kassert (curspl st > 0);
     thread_hassleepers_loop addr 0 st }"

end
