(* ===== verification/Thread_Inv.thy ===== *)
theory Thread_Inv
  imports Threads "HOL-Library.Multiset"
begin

text \<open>
  The invariant of the thread system and what its operations do to it.

  \<open>thr_struct\<close> says that every thread is in exactly one place (running, ready, sleeping or
  zombie), that each listed thread has a structure, and that \<open>thread_fork\<close>'s preallocation
  keeps room in the arrays; \<open>thr_inv\<close> adds that \<open>numthreads\<close> counts the threads that are not
  zombies.  \<open>sched_view\<close> is the abstract scheduler state: the running thread and three lists.
  The lemmas give the effect of each operation on the view, on every branch, and show that the
  operations do not panic while the ring buffer of the run queue has room.
\<close>

section \<open>Invariant\<close>

abbreviation ready :: "('k, 'z) kstate_scheme \<Rightarrow> tid list" where
  "ready st \<equiv> q_list (runqueue st)"

abbreviation sleeping :: "('k, 'z) kstate_scheme \<Rightarrow> tid list" where
  "sleeping st \<equiv> array_list (sleepers st)"

abbreviation dead :: "('k, 'z) kstate_scheme \<Rightarrow> tid list" where
  "dead st \<equiv> array_list (zombies st)"

definition running :: "('k, 'z) kstate_scheme \<Rightarrow> tid list" where
  "running st = (case curthread st of None \<Rightarrow> [] | Some t \<Rightarrow> [t])"

definition live :: "('k, 'z) kstate_scheme \<Rightarrow> tid list" where
  "live st = running st @ ready st @ sleeping st"

definition thr_lists :: "('k, 'z) kstate_scheme \<Rightarrow> bool" where
  "thr_lists st \<longleftrightarrow> array_inv (sleepers st) \<and> array_inv (zombies st) \<and>
     q_inv (runqueue st) \<and> q_usable (runqueue st)"

definition disposable :: "'k thread \<Rightarrow> bool" where
  "disposable th \<longleftrightarrow> t_vmspace th = None \<and> t_cwd th = None"

definition thr_struct :: "('k, 'z) kstate_scheme \<Rightarrow> bool" where
  "thr_struct st \<longleftrightarrow> thr_lists st
     \<and> distinct (live st @ dead st)
     \<and> set (live st @ dead st) \<subseteq> dom (threads st)
     \<and> length (live st) \<le> q_size (runqueue st)
     \<and> (1 < length (live st) \<longrightarrow> int (length (live st)) \<le> a_max (sleepers st))
     \<and> (\<forall>z \<in> set (dead st). \<exists>th. threads st z = Some th \<and> disposable th)
     \<and> (\<forall>th \<in> ran (threads st). stack_ok th)"

definition thr_inv :: "('k, 'z) kstate_scheme \<Rightarrow> bool" where
  "thr_inv st \<longleftrightarrow> thr_struct st \<and> numthreads st = int (length (live st))"

definition sleeps_on :: "('k, 'z) kstate_scheme \<Rightarrow> sleepaddr \<Rightarrow> tid \<Rightarrow> bool" where
  "sleeps_on st addr t \<longleftrightarrow> (case threads st t of None \<Rightarrow> False | Some th \<Rightarrow> t_sleepaddr th = Some addr)"

lemma thr_structD:
  assumes "thr_struct st"
  shows "array_inv (sleepers st)" "array_inv (zombies st)" "q_inv (runqueue st)" "q_usable (runqueue st)"
    "distinct (live st @ dead st)" "set (live st) \<subseteq> dom (threads st)" "length (live st) \<le> q_size (runqueue st)"
  using assms by (auto simp: thr_struct_def thr_lists_def)

lemma spl_simps [simp]:
  "splx n st = (curspl st, st\<lparr>curspl := n\<rparr>)" "splhigh st = (curspl st, st\<lparr>curspl := 15\<rparr>)"
  "spl0 st = (curspl st, st\<lparr>curspl := 0\<rparr>)"
  by (simp_all add: splx_def splhigh_def spl0_def)

lemma thr_struct_frame [simp]:
  "thr_struct (st\<lparr>curspl := n\<rparr>) = thr_struct st"
  "thr_struct (st\<lparr>in_interrupt := n\<rparr>) = thr_struct st"
  "thr_struct (st\<lparr>k_pending := p\<rparr>) = thr_struct st"
  "thr_struct (st\<lparr>k_calls := c\<rparr>) = thr_struct st"
  "thr_struct (st\<lparr>numthreads := m\<rparr>) = thr_struct st"
  by (simp_all add: thr_struct_def thr_lists_def live_def running_def)

lemma live_frame [simp]:
  "live (st\<lparr>curspl := n\<rparr>) = live st"
  "live (st\<lparr>in_interrupt := n\<rparr>) = live st"
  "live (st\<lparr>k_pending := p\<rparr>) = live st"
  "live (st\<lparr>k_calls := c\<rparr>) = live st"
  "live (st\<lparr>numthreads := m\<rparr>) = live st"
  "live (st\<lparr>threads := ts\<rparr>) = live st"
  by (simp_all add: live_def running_def)

lemma thr_inv_frame [simp]:
  "thr_inv (st\<lparr>curspl := n\<rparr>) = thr_inv st"
  "thr_inv (st\<lparr>in_interrupt := n\<rparr>) = thr_inv st"
  "thr_inv (st\<lparr>k_pending := p\<rparr>) = thr_inv st"
  "thr_inv (st\<lparr>k_calls := c\<rparr>) = thr_inv st"
  by (simp_all add: thr_inv_def)

text \<open>Changing a field of a thread structure, stack and disposability aside.\<close>

lemma upd_thread_struct:
  assumes "thr_struct st" and "\<And>th. stack_ok (f th) = stack_ok th" and "\<And>th. disposable th \<Longrightarrow> disposable (f th)"
  shows "thr_struct (upd_thread t f st)"
  using assms unfolding thr_struct_def thr_lists_def upd_thread_def live_def running_def
  by (auto simp: ran_def)

lemma live_upd_thread [simp]: "live (upd_thread t f st) = live st"
  by (simp add: upd_thread_def)

lemma upd_thread_fields [simp]:
  "curthread (upd_thread t f st) = curthread st" "sleepers (upd_thread t f st) = sleepers st"
  "zombies (upd_thread t f st) = zombies st" "runqueue (upd_thread t f st) = runqueue st"
  "numthreads (upd_thread t f st) = numthreads st" "curspl (upd_thread t f st) = curspl st"
  "in_interrupt (upd_thread t f st) = in_interrupt st" "k_pending (upd_thread t f st) = k_pending st"
  "k_calls (upd_thread t f st) = k_calls st"
  "threads (upd_thread t f st) = (threads st)(t := map_option f (threads st t))"
  by (simp_all add: upd_thread_def)

lemma kcall_log_fields [simp]:
  "threads (kcall_log e st) = threads st" "curthread (kcall_log e st) = curthread st"
  "sleepers (kcall_log e st) = sleepers st" "zombies (kcall_log e st) = zombies st"
  "runqueue (kcall_log e st) = runqueue st" "numthreads (kcall_log e st) = numthreads st"
  "curspl (kcall_log e st) = curspl st" "in_interrupt (kcall_log e st) = in_interrupt st"
  "k_pending (kcall_log e st) = k_pending st" "live (kcall_log e st) = live st"
  "thr_struct (kcall_log e st) = thr_struct st"
  by (simp_all add: kcall_log_def)

section \<open>Making threads runnable\<close>

text \<open>The part of the run queue a step may change, and how.\<close>

definition rq_step :: "tid queue \<Rightarrow> tid list \<Rightarrow> tid queue \<Rightarrow> bool" where
  "rq_step q ts q' \<longleftrightarrow> q_inv q' \<and> q_usable q' \<and> q_list q' = q_list q @ ts \<and> q_size q \<le> q_size q'"

lemma rq_step_refl: "q_inv q \<Longrightarrow> q_usable q \<Longrightarrow> rq_step q [] q"
  by (simp add: rq_step_def)

lemma rq_step_trans: "rq_step q ts q' \<Longrightarrow> rq_step q' us q'' \<Longrightarrow> rq_step q (ts @ us) q''"
  by (auto simp: rq_step_def)

lemma q_room_mono_size: "(\<forall>k. q_room q k \<longrightarrow> q_room q' k) \<Longrightarrow> 0 < q_size q \<Longrightarrow> q_size q \<le> q_size q'"
proof -
  assume "\<forall>k. q_room q k \<longrightarrow> q_room q' k" and "0 < q_size q"
  then have "q_room q' (q_size q - 1)" by (simp add: q_room_def)
  then show ?thesis by (simp add: q_room_def)
qed

lemma make_runnable_cases:
  assumes "q_inv (runqueue st)" and "q_usable (runqueue st)" and "kmem_limit km" and "curspl st > 0"
  shows "(\<exists>q'. make_runnable km t st = Some (Inr (), st\<lparr>runqueue := q'\<rparr>) \<and> rq_step (runqueue st) [t] q')
    \<or> (make_runnable km t st = Some (Inl ENOMEM, st) \<and> \<not> q_room (runqueue st) (Suc (length (ready st))))"
proof -
  have pos: "0 < q_size (runqueue st)" using assms(1) by (simp add: q_inv_def)
  show ?thesis
    using kq.addtail [OF assms(1,2), of km t] kq.addtail_room [OF assms(1,2), of km t] assms(3,4)
      q_room_mono_size [OF _ pos]
    by (fastforce simp: make_runnable_def rq_step_def)
qed

text \<open>The outcome of a wakeup loop that moved the threads \<open>ts\<close> and left \<open>us\<close>.\<close>

definition woke :: "('k, 'z) kstate_scheme \<Rightarrow> tid list \<Rightarrow> tid list \<Rightarrow> ('k, 'z) kstate_scheme \<Rightarrow> bool" where
  "woke st ts us st' \<longleftrightarrow> (\<exists>a q. st' = st\<lparr>sleepers := a, runqueue := q\<rparr> \<and> array_inv a \<and>
     array_list a = us \<and> a_max a = a_max (sleepers st) \<and> rq_step (runqueue st) ts q)"

lemma woke_sleeps_on [simp]: "woke st ts us st' \<Longrightarrow> sleeps_on st' = sleeps_on st"
  by (auto simp: woke_def sleeps_on_def fun_eq_iff)

lemma woke_trans:
  assumes "woke st ts us st'" and "woke st' ts' us' st''"
  shows "woke st (ts @ ts') us' st''"
  using assms by (fastforce simp: woke_def intro: rq_step_trans)

text \<open>One turn of a wakeup loop that moves the sleeper at index \<open>i\<close>.\<close>

lemma wake_one:
  fixes st :: "('k, 'z) kstate_scheme"
  assumes "thr_lists st" and "kmem_limit km" and "curspl st > 0" and "n < length (sleeping st)"
  defines "t \<equiv> sleeping st ! n" and "us \<equiv> take n (sleeping st) @ drop (Suc n) (sleeping st)"
  shows "\<exists>a r st'. array_remove (sleepers st) (int n) = Some a \<and>
    make_runnable km t (st\<lparr>sleepers := a\<rparr>) = Some (r, st') \<and>
    (if r = Inr () then woke st [t] us st' else \<not> q_room (runqueue st) (Suc (length (ready st))))"
proof -
  have inv: "array_inv (sleepers st)" "q_inv (runqueue st)" "q_usable (runqueue st)"
    using assms(1) by (auto simp: thr_lists_def)
  obtain a where a: "array_remove (sleepers st) (int n) = Some a" "array_inv a" "array_list a = us"
      "a_max a = a_max (sleepers st)"
    using array_remove_correct [OF inv(1), of "int n"] assms(4) by (auto simp: us_def array_num_eq [OF inv(1)])
  show ?thesis
    using make_runnable_cases [of "st\<lparr>sleepers := a\<rparr>" km t] inv assms(2,3) a
    by (auto simp: woke_def)
qed

lemma woke_room:
  assumes "woke st ts us st'" and "\<not> q_room (runqueue st') k"
  shows "\<not> q_room (runqueue st) k"
  using assms by (auto simp: woke_def rq_step_def q_room_def)

lemma woke_lists:
  assumes "woke st ts us st'" and "thr_lists st"
  shows "thr_lists st'" "sleeping st' = us" "ready st' = ready st @ ts" "threads st' = threads st"
    "curspl st' = curspl st"
  using assms by (auto simp: woke_def thr_lists_def rq_step_def)

lemma woke_refl: "thr_lists st \<Longrightarrow> woke st [] (sleeping st) st"
  unfolding woke_def thr_lists_def rq_step_def
  by (rule exI [of _ "sleepers st"], rule exI [of _ "runqueue st"]) simp

lemma sleeps_on_thread: "threads st t = Some th \<Longrightarrow> sleeps_on st addr t \<longleftrightarrow> t_sleepaddr th = Some addr"
  by (simp add: sleeps_on_def)

lemma getguy_sleeper:
  "thr_lists st \<Longrightarrow> i < length (sleeping st) \<Longrightarrow> array_getguy (sleepers st) (int i) = Some (sleeping st ! i)"
  by (simp add: thr_lists_def arr.getguy)

lemma getnum_sleepers: "thr_lists st \<Longrightarrow> array_getnum (sleepers st) = int (length (sleeping st))"
  by (simp add: thr_lists_def arr.getnum)

lemma thread_wakeup_loop_cases:
  fixes st :: "('k, 'z) kstate_scheme"
  assumes "thr_lists st" and "set (sleeping st) \<subseteq> dom (threads st)" and "kmem_limit km"
    and "curspl st > 0" and "i \<le> length (sleeping st)"
  shows "case thread_wakeup_loop km addr (int i) st of
      None \<Rightarrow> \<not> q_room (runqueue st) (length (ready st) + length (filter (sleeps_on st addr) (drop i (sleeping st))))
    | Some st' \<Rightarrow> woke st (filter (sleeps_on st addr) (drop i (sleeping st)))
        (take i (sleeping st) @ filter (\<lambda>t. \<not> sleeps_on st addr t) (drop i (sleeping st))) st'"
  using assms
proof (induction "length (sleeping st) - i" arbitrary: i st)
  case 0
  then show ?case by (simp add: thread_wakeup_loop.simps [of km addr _ st] getnum_sleepers woke_refl)
next
  case (Suc n)
  let ?t = "sleeping st ! i" and ?m = "sleeps_on st addr"
  have i: "i < length (sleeping st)" using Suc.hyps(2) by simp
  then have dr: "drop i (sleeping st) = ?t # drop (Suc i) (sleeping st)" by (rule Cons_nth_drop_Suc [symmetric])
  obtain th where th: "threads st ?t = Some th" using Suc.prems(2) i nth_mem by blast
  note step = thread_wakeup_loop.simps [of km addr "int i" st] getguy_sleeper [OF Suc.prems(1) i]
    getnum_sleepers [OF Suc.prems(1)] th
  show ?case
  proof (cases "?m ?t")
    case False
    have "thread_wakeup_loop km addr (int i) st = thread_wakeup_loop km addr (int (Suc i)) st"
      using False i by (simp add: step sleeps_on_thread [OF th] add.commute)
    moreover have "n = length (sleeping st) - Suc i" using Suc.hyps(2) by simp
    moreover note Suc.hyps(1) [of st "Suc i", OF _ Suc.prems(1-4)]
    ultimately show ?thesis using i False
      by (auto simp: dr take_Suc_conv_app_nth split: option.splits)
  next
    case True
    obtain a r st' where a: "array_remove (sleepers st) (int i) = Some a"
        "make_runnable km ?t (st\<lparr>sleepers := a\<rparr>) = Some (r, st')"
        "if r = Inr () then woke st [?t] (take i (sleeping st) @ drop (Suc i) (sleeping st)) st'
         else \<not> q_room (runqueue st) (Suc (length (ready st)))"
      using wake_one [OF Suc.prems(1,3,4) i] by blast
    have eq: "thread_wakeup_loop km addr (int i) st =
        (if r = Inr () then thread_wakeup_loop km addr (int i) st' else None)"
      using True i a(1,2) by (simp add: step sleeps_on_thread [OF th])
    show ?thesis
    proof (cases "r = Inr ()")
      case False
      then show ?thesis using eq a(3) True by (auto simp: dr q_room_def)
    next
      case ok: True
      then have w: "woke st [?t] (take i (sleeping st) @ drop (Suc i) (sleeping st)) st'" using a(3) by simp
      note w' = woke_lists [OF w Suc.prems(1)] woke_sleeps_on [OF w]
      have dom: "set (sleeping st') \<subseteq> dom (threads st')"
        using Suc.prems(2) w' set_drop_subset [of "Suc i" "sleeping st"] set_take_subset [of i "sleeping st"] by auto
      have "drop i (sleeping st') = drop (Suc i) (sleeping st)" "take i (sleeping st') = take i (sleeping st)"
        using w' i by simp_all
      then show ?thesis
        using Suc.hyps(1) [of st' i, OF _ w'(1) dom Suc.prems(3)] Suc.hyps(2) Suc.prems(4) i eq ok True w'
          woke_trans [OF w] woke_room [OF w]
        by (auto simp: dr split: option.splits)
    qed
  qed
qed

lemma woke_struct:
  assumes "thr_struct st" and "woke st ts us st'" and "mset (ts @ us) = mset (sleeping st)"
  shows "thr_struct st'" and "length (live st') = length (live st)" and "set (live st') = set (live st)"
proof -
  obtain a q where st': "st' = st\<lparr>sleepers := a, runqueue := q\<rparr>" "array_inv a" "array_list a = us"
      "a_max a = a_max (sleepers st)" "rq_step (runqueue st) ts q"
    using assms(2) by (auto simp: woke_def)
  have ls: "length (sleeping st) = length ts + length us" "set (sleeping st) = set ts \<union> set us"
    "distinct (sleeping st) = distinct (ts @ us)"
    using mset_eq_length [OF assms(3)] mset_eq_setD [OF assms(3)] mset_eq_imp_distinct_iff [OF assms(3)]
    by auto
  show len: "length (live st') = length (live st)" and "set (live st') = set (live st)"
    using st' ls by (auto simp: live_def running_def rq_step_def)
  moreover have "distinct (live st' @ dead st')"
    using assms(1) st' ls by (auto simp: thr_struct_def live_def running_def rq_step_def)
  ultimately show "thr_struct st'"
    using assms(1) st' by (auto simp: thr_struct_def thr_lists_def rq_step_def)
qed

lemma thread_wakeup_cases:
  fixes addr :: sleepaddr
  assumes "thr_struct st" and "kmem_limit km" and "curspl st > 0"
  defines "ts \<equiv> filter (sleeps_on st addr) (sleeping st)"
    and "us \<equiv> filter (\<lambda>t. \<not> sleeps_on st addr t) (sleeping st)"
  shows "(\<exists>st'. thread_wakeup km addr st = Some st' \<and> woke st ts us st') \<or>
    (thread_wakeup km addr st = None \<and> curthread st = None \<and> length (live st) = q_size (runqueue st))"
proof -
  have l: "thr_lists st" "set (sleeping st) \<subseteq> dom (threads st)" "length (live st) \<le> q_size (runqueue st)"
    using assms(1) by (auto simp: thr_struct_def live_def)
  have len: "length (live st) = length (running st) + length (ready st) + length (sleeping st)"
    by (simp add: live_def)
  have loop: "case thread_wakeup_loop km addr 0 st of
      None \<Rightarrow> \<not> q_room (runqueue st) (length (ready st) + length ts) | Some st' \<Rightarrow> woke st ts us st'"
    using thread_wakeup_loop_cases [OF l(1,2) assms(2,3), of 0 addr]
    by (simp add: ts_def us_def split: option.splits)
  have eq: "thread_wakeup km addr st = thread_wakeup_loop km addr 0 st"
    using assms(3) by (simp add: thread_wakeup_def)
  show ?thesis
  proof (cases "thread_wakeup_loop km addr 0 st")
    case None
    have "length ts \<le> length (sleeping st)" by (simp add: ts_def)
    moreover have "\<not> length (ready st) + length ts < q_size (runqueue st)"
      using None loop by (simp add: q_room_def)
    ultimately have "length (running st) = 0" "length (live st) = q_size (runqueue st)"
      using len l(3) by linarith+
    then show ?thesis using None eq by (simp add: running_def split: option.splits)
  next
    case (Some st')
    then show ?thesis using loop eq by simp
  qed
qed

lemma thread_wakeup_inv:
  assumes "thr_inv st" and "kmem_limit km" and "thread_wakeup km addr st = Some st'"
  shows "thr_inv st'"
proof -
  have "curspl st > 0" using assms(3) by (auto simp: thread_wakeup_def split: if_splits)
  then have w: "woke st (filter (sleeps_on st addr) (sleeping st))
      (filter (\<lambda>t. \<not> sleeps_on st addr t) (sleeping st)) st'"
    using thread_wakeup_cases [of st km addr] assms by (auto simp: thr_inv_def)
  then have "numthreads st' = numthreads st" by (auto simp: woke_def)
  with w assms(1) show ?thesis
    using woke_struct [OF _ w] by (simp add: thr_inv_def)
qed

lemma thread_wakeup_head_loop_cases:
  fixes st :: "('k, 'z) kstate_scheme"
  assumes "thr_lists st" and "set (sleeping st) \<subseteq> dom (threads st)" and "kmem_limit km"
    and "curspl st > 0" and "i \<le> length (sleeping st)"
  shows "case thread_wakeup_head_loop km addr h (int i) st of
      None \<Rightarrow> \<not> q_room (runqueue st) (Suc (length (ready st))) \<and> h \<in> set (sleeping st)
    | Some st' \<Rightarrow>
        if sleeps_on st addr h \<and> h \<in> set (drop i (sleeping st))
        then woke st [h] (take i (sleeping st) @ remove1 h (drop i (sleeping st))) st'
        else st' = st"
  using assms
proof (induction "length (sleeping st) - i" arbitrary: i)
  case 0
  then show ?case by (simp add: thread_wakeup_head_loop.simps [of km addr h _ st] getnum_sleepers)
next
  case (Suc n)
  let ?t = "sleeping st ! i" and ?m = "sleeps_on st addr"
  have i: "i < length (sleeping st)" using Suc.hyps(2) by simp
  then have dr: "drop i (sleeping st) = ?t # drop (Suc i) (sleeping st)" by (rule Cons_nth_drop_Suc [symmetric])
  obtain th where th: "threads st ?t = Some th" using Suc.prems(2) i nth_mem by blast
  note step = thread_wakeup_head_loop.simps [of km addr h "int i" st] getguy_sleeper [OF Suc.prems(1) i]
    getnum_sleepers [OF Suc.prems(1)] th sleeps_on_thread [OF th, symmetric]
  show ?case
  proof (cases "?m ?t \<and> h = ?t")
    case False
    have "thread_wakeup_head_loop km addr h (int i) st = thread_wakeup_head_loop km addr h (int (Suc i)) st"
      using False i by (auto simp: step add.commute)
    moreover have "n = length (sleeping st) - Suc i" using Suc.hyps(2) by simp
    moreover note Suc.hyps(1) [of "Suc i", OF _ Suc.prems(1-4)]
    moreover have "sleeps_on st addr h \<Longrightarrow> ?t \<noteq> h" using False by auto
    ultimately show ?thesis using i
      by (cases "sleeps_on st addr h") (auto simp: dr take_Suc_conv_app_nth split: option.splits if_splits)
  next
    case True
    obtain a r st' where a: "array_remove (sleepers st) (int i) = Some a"
        "make_runnable km ?t (st\<lparr>sleepers := a\<rparr>) = Some (r, st')"
        "if r = Inr () then woke st [?t] (take i (sleeping st) @ drop (Suc i) (sleeping st)) st'
         else \<not> q_room (runqueue st) (Suc (length (ready st)))"
      using wake_one [OF Suc.prems(1,3,4) i] by blast
    then have "thread_wakeup_head_loop km addr h (int i) st = (if r = Inr () then Some st' else None)"
      using True i by (simp add: step thread_wakeup_head_loop.simps [of km addr ?t "int i" st])
    then show ?thesis using a(3) True i by (auto simp: dr)
  qed
qed

lemma thread_wakeup_head_cases:
  assumes "thr_struct st" and "kmem_limit km" and "curspl st > 0" and "q_inv q" and "q_list q = h # hs"
    and "curthread st \<noteq> None"
  shows "\<exists>q' st'. thread_wakeup_head km addr q st = Some (q', st') \<and> q_inv q' \<and> q_list q' = hs \<and>
    q_usable q' = q_usable q \<and>
    (if sleeps_on st addr h \<and> h \<in> set (sleeping st) then woke st [h] (remove1 h (sleeping st)) st'
     else st' = st)"
proof -
  obtain q' where q': "q_remhead q = Some (h, q')" "q_inv q'" "q_list q' = hs" "q_usable q' = q_usable q"
    using kq.remhead [OF assms(4,5)] by blast
  have l: "thr_lists st" "set (sleeping st) \<subseteq> dom (threads st)"
    using assms(1) by (auto simp: thr_struct_def live_def)
  have "q_room (runqueue st) (Suc (length (ready st)))" if "h \<in> set (sleeping st)"
  proof -
    have "sleeping st \<noteq> []" using that by auto
    then have "0 < length (sleeping st)" by simp
    moreover have "length (running st) = 1" using assms(6) by (auto simp: running_def)
    ultimately have "Suc (length (ready st)) < length (live st)" by (simp add: live_def)
    then show ?thesis using thr_structD(7) [OF assms(1)] by (simp add: q_room_def)
  qed
  then obtain st' where "thread_wakeup_head_loop km addr h 0 st = Some st'"
    and "if sleeps_on st addr h \<and> h \<in> set (sleeping st) then woke st [h] (remove1 h (sleeping st)) st'
      else st' = st"
    using thread_wakeup_head_loop_cases [OF l assms(2,3), where i = 0 and addr = addr and h = h]
    by (auto split: option.splits if_splits)
  with q' assms(3) show ?thesis by (simp add: thread_wakeup_head_def)
qed

lemma remove1_mset: "h \<in> set xs \<Longrightarrow> mset ([h] @ remove1 h xs) = mset xs"
  by simp

lemma thread_hassleepers_loop_eq:
  assumes "thr_lists st" and "set (sleeping st) \<subseteq> dom (threads st)" and "i \<le> length (sleeping st)"
  shows "thread_hassleepers_loop addr (int i) st = Some (\<exists>t \<in> set (drop i (sleeping st)). sleeps_on st addr t)"
  using assms
proof (induction "length (sleeping st) - i" arbitrary: i)
  case 0
  then show ?case by (simp add: thread_hassleepers_loop.simps [of addr _ st] getnum_sleepers)
next
  case (Suc n)
  have i: "i < length (sleeping st)" using Suc.hyps(2) by simp
  then have dr: "drop i (sleeping st) = sleeping st ! i # drop (Suc i) (sleeping st)"
    by (rule Cons_nth_drop_Suc [symmetric])
  obtain th where th: "threads st (sleeping st ! i) = Some th" using Suc.prems(2) i nth_mem by blast
  have "thread_hassleepers_loop addr (int (Suc i)) st =
      Some (\<exists>t \<in> set (drop (Suc i) (sleeping st)). sleeps_on st addr t)"
    using Suc.hyps i by (intro Suc.hyps(1) Suc.prems) auto
  then show ?case
    using i th by (simp add: thread_hassleepers_loop.simps [of addr "int i" st] dr add.commute
        getguy_sleeper [OF Suc.prems(1) i] getnum_sleepers [OF Suc.prems(1)] sleeps_on_thread [OF th])
qed

lemma thread_hassleepers_eq:
  assumes "thr_struct st" and "curspl st > 0"
  shows "thread_hassleepers addr st = Some (\<exists>t \<in> set (sleeping st). sleeps_on st addr t)"
  using thread_hassleepers_loop_eq [of st 0 addr] assms
  by (auto simp: thread_hassleepers_def thr_struct_def live_def)

section \<open>Context switch\<close>

abbreviation stopped :: "tid \<Rightarrow> 'k \<Rightarrow> ('k, 'z) kstate_scheme \<Rightarrow> ('k, 'z) kstate_scheme" where
  "stopped cur k st \<equiv> (upd_thread cur (\<lambda>th. th\<lparr>t_pcb := PcbSwitch k, t_ininterrupt := in_interrupt st\<rparr>) st)
     \<lparr>curthread := None\<rparr>"

lemma mi_switch_out_stash:
  assumes "thr_struct st" and "curthread st = Some cur" and "curspl st > 0"
  shows "mi_switch_out km s k st = do {
    (r, st2) \<leftarrow> stash km s cur (stopped cur k st); kassert (r = Inr ()); Some st2 }"
proof -
  obtain th where "threads st cur = Some th" "stack_ok th"
    using assms by (auto simp: thr_struct_def live_def running_def ran_def)
  then show ?thesis using assms by (simp add: mi_switch_out_def)
qed

lemma mi_switch_out_ready:
  assumes "thr_struct st" and "curthread st = Some cur" and "curspl st > 0" and "kmem_limit km"
  shows "(\<exists>q. mi_switch_out km S_READY k st = Some ((stopped cur k st)\<lparr>runqueue := q\<rparr>) \<and>
      rq_step (runqueue st) [cur] q)
    \<or> (mi_switch_out km S_READY k st = None \<and> Suc (length (ready st)) = q_size (runqueue st))"
proof -
  have "Suc (length (ready st)) \<le> q_size (runqueue st)"
    using assms(1,2) by (simp add: thr_struct_def live_def running_def)
  then show ?thesis
    using make_runnable_cases [of "stopped cur k st" km cur] assms thr_structD [OF assms(1)]
    by (auto simp: mi_switch_out_stash [OF assms(1-3)] stash_def q_room_def)
qed

lemma mi_switch_out_sleep:
  assumes "thr_struct st" and "curthread st = Some cur" and "curspl st > 0"
  shows "(\<exists>a. mi_switch_out km S_SLEEP k st = Some ((stopped cur k st)\<lparr>sleepers := a\<rparr>) \<and> array_inv a \<and>
      array_list a = sleeping st @ [cur] \<and> a_max (sleepers st) \<le> a_max a \<and> 0 < a_max a)
    \<or> (mi_switch_out km S_SLEEP k st = None \<and> live st = [cur] \<and> a_max (sleepers st) = 0)"
proof -
  have inv: "array_inv (sleepers st)" using thr_structD [OF assms(1)] by simp
  have n: "a_num (sleepers st) = int (length (sleeping st))" using inv by (rule array_num_eq)
  have live: "live st = cur # ready st @ sleeping st" using assms(2) by (simp add: live_def running_def)
  have cap: "1 < length (live st) \<Longrightarrow> int (length (live st)) \<le> a_max (sleepers st)"
    using assms(1) by (simp add: thr_struct_def)
  have one: "live st = [cur] \<and> a_max (sleepers st) = 0" if "a_num (sleepers st) = a_max (sleepers st)"
  proof -
    have "\<not> 1 < length (live st)" using cap that n live by auto
    then have "live st = [cur]" using live by (cases "ready st @ sleeping st") auto
    with that n live show ?thesis by auto
  qed
  have pos: "0 < a_max a" if "array_list a = sleeping st @ [cur]" "array_inv a" for a
  proof -
    have "a_num a = int (length (sleeping st)) + 1" using that array_num_eq [of a] by simp
    then show ?thesis using that(2) unfolding array_inv_def by linarith
  qed
  consider (ok) a where "array_add km (sleepers st) cur = Some (Inr (), a)" "array_inv a"
      "array_list a = sleeping st @ [cur]" "a_max (sleepers st) \<le> a_max a"
    | (full) "a_num (sleepers st) = a_max (sleepers st)" "array_add km (sleepers st) cur = Some (Inl ENOMEM, sleepers st)"
    using array_add_cases [OF inv, of km cur] by blast
  then show ?thesis
  proof cases
    case ok
    then show ?thesis using pos [OF ok(3,2)] by (auto simp: mi_switch_out_stash [OF assms(1-3)] stash_def)
  next
    case full
    then show ?thesis using one [OF full(1)] by (simp add: mi_switch_out_stash [OF assms(1-3)] stash_def)
  qed
qed

lemma mi_switch_out_zomb:
  assumes "thr_struct st" and "curthread st = Some cur" and "curspl st > 0"
  shows "(\<exists>a. mi_switch_out km S_ZOMB k st = Some ((stopped cur k st)\<lparr>zombies := a\<rparr>) \<and> array_inv a \<and>
      array_list a = dead st @ [cur])
    \<or> (mi_switch_out km S_ZOMB k st = None \<and> a_max (zombies st) = int (length (dead st)))"
proof -
  have inv: "array_inv (zombies st)" using thr_structD [OF assms(1)] by simp
  consider (ok) a where "array_add km (zombies st) cur = Some (Inr (), a)" "array_inv a"
      "array_list a = dead st @ [cur]"
    | (full) "a_num (zombies st) = a_max (zombies st)" "array_add km (zombies st) cur = Some (Inl ENOMEM, zombies st)"
    using array_add_cases [OF inv, of km cur] by blast
  then show ?thesis
    by cases (auto simp: mi_switch_out_stash [OF assms(1-3)] stash_def array_num_eq [OF inv, symmetric])
qed

lemma stopped_struct:
  assumes "thr_struct st" and "curthread st = Some cur"
  shows "thr_struct (stopped cur k st)" and "live st = cur # live (stopped cur k st)"
proof -
  show l: "live st = cur # live (stopped cur k st)" using assms(2) by (simp add: live_def running_def)
  have "thr_struct (upd_thread cur (\<lambda>th. th\<lparr>t_pcb := PcbSwitch k, t_ininterrupt := in_interrupt st\<rparr>) st)"
    by (rule upd_thread_struct [OF assms(1)]) (simp_all add: stack_ok_def disposable_def)
  then show "thr_struct (stopped cur k st)"
    using l by (auto simp: thr_struct_def thr_lists_def)
qed

lemma struct_ready_add:
  assumes "thr_struct st" and "t \<notin> set (live st @ dead st)" and "t \<in> dom (threads st)"
    and "rq_step (runqueue st) [t] q" and "length (live st) < q_size (runqueue st)"
    and "0 < length (live st) \<longrightarrow> int (length (live st)) < a_max (sleepers st)"
  shows "thr_struct (st\<lparr>runqueue := q\<rparr>)" and "mset (live (st\<lparr>runqueue := q\<rparr>)) = add_mset t (mset (live st))"
proof -
  let ?st = "st\<lparr>runqueue := q\<rparr>"
  show m: "mset (live ?st) = add_mset t (mset (live st))"
    using assms(4) by (simp add: live_def running_def rq_step_def)
  have l: "length (live ?st) = Suc (length (live st))" "set (live ?st) = insert t (set (live st))"
    using mset_eq_setD [of "live ?st" "t # live st"] mset_eq_length [of "live ?st" "t # live st"] m by auto
  have "distinct (live ?st @ dead ?st)"
    using mset_eq_imp_distinct_iff [of "live ?st @ dead ?st" "t # live st @ dead st"] m assms(1,2)
    by (simp add: thr_struct_def)
  moreover have "Suc (length (live st)) \<le> q_size q" using assms(4,5) by (simp add: rq_step_def)
  ultimately show "thr_struct ?st"
    unfolding thr_struct_def l using assms l by (auto simp: thr_struct_def thr_lists_def rq_step_def)
qed

lemma struct_sleeping_add:
  assumes "thr_struct st" and "t \<notin> set (live st @ dead st)" and "t \<in> dom (threads st)"
    and "array_inv a" and "array_list a = sleeping st @ [t]" and "length (live st) < q_size (runqueue st)"
    and "0 < length (live st) \<longrightarrow> int (length (live st)) < a_max a"
  shows "thr_struct (st\<lparr>sleepers := a\<rparr>)" and "mset (live (st\<lparr>sleepers := a\<rparr>)) = add_mset t (mset (live st))"
proof -
  let ?st = "st\<lparr>sleepers := a\<rparr>"
  show m: "mset (live ?st) = add_mset t (mset (live st))"
    using assms(5) by (simp add: live_def running_def)
  have l: "length (live ?st) = Suc (length (live st))" "set (live ?st) = insert t (set (live st))"
    using mset_eq_setD [of "live ?st" "t # live st"] mset_eq_length [of "live ?st" "t # live st"] m by auto
  have "distinct (live ?st @ dead ?st)"
    using mset_eq_imp_distinct_iff [of "live ?st @ dead ?st" "t # live st @ dead st"] m assms(1,2)
    by (simp add: thr_struct_def)
  then show "thr_struct ?st"
    unfolding thr_struct_def l using assms l by (auto simp: thr_struct_def thr_lists_def)
qed

lemma struct_dead_add:
  assumes "thr_struct st" and "t \<notin> set (live st @ dead st)" and "threads st t = Some th" and "disposable th"
    and "array_inv a" and "array_list a = dead st @ [t]"
  shows "thr_struct (st\<lparr>zombies := a\<rparr>)" and "live (st\<lparr>zombies := a\<rparr>) = live st"
proof -
  show l: "live (st\<lparr>zombies := a\<rparr>) = live st" by (simp add: live_def running_def)
  show "thr_struct (st\<lparr>zombies := a\<rparr>)"
    unfolding thr_struct_def l using assms by (auto simp: thr_struct_def thr_lists_def)
qed

text \<open>The switch proper: the scheduler takes the head of the run queue or idles.\<close>

lemma schedule_cases:
  assumes "thr_struct st" and "curthread st = None" and "curspl st > 0"
  shows "(ready st = [] \<and> schedule st = Some st)
    \<or> (\<exists>t ts q th. ready st = t # ts \<and> threads st t = Some th \<and> q_inv q \<and> q_list q = ts \<and>
        q_size q = q_size (runqueue st) \<and>
        schedule st = Some (st\<lparr>runqueue := q, curthread := Some t, in_interrupt := t_ininterrupt th, k_pending := Some (t_pcb th)\<rparr>))"
proof (cases "ready st")
  case Nil
  then show ?thesis using assms thr_structD(3) [OF assms(1)] by (simp add: schedule_def kq.empty)
next
  case (Cons t ts)
  obtain q where "q_remhead (runqueue st) = Some (t, q)" "q_inv q" "q_list q = ts"
      "q_size q = q_size (runqueue st)"
    using q_remhead_Cons [OF thr_structD(3) [OF assms(1)] Cons] by blast
  moreover obtain th where "threads st t = Some th"
    using assms(1) Cons by (auto simp: thr_struct_def live_def)
  ultimately show ?thesis
    using Cons assms thr_structD(3) [OF assms(1)] by (auto simp: schedule_def kq.empty)
qed

lemma schedule_struct:
  fixes st :: "('k, 'z) kstate_scheme"
  assumes "thr_struct st" and "curthread st = None" and "schedule st = Some st'"
  shows "thr_struct st'" and "mset (live st') = mset (live st)" and "sleepers st' = sleepers st"
    and "zombies st' = zombies st" and "threads st' = threads st" and "numthreads st' = numthreads st"
    and "curspl st' = curspl st"
proof -
  have "curspl st > 0" using assms(3) by (auto simp: schedule_def split: if_splits)
  then consider "ready st = []" "schedule st = Some st"
    | t ts q and th :: "'k thread" where "ready st = t # ts" "q_inv q" "q_list q = ts" "q_size q = q_size (runqueue st)"
      "schedule st = Some (st\<lparr>runqueue := q, curthread := Some t, in_interrupt := t_ininterrupt th, k_pending := Some (t_pcb th)\<rparr>)"
    using schedule_cases [OF assms(1,2)] by blast
  then have "thr_struct st' \<and> mset (live st') = mset (live st) \<and> sleepers st' = sleepers st \<and>
    zombies st' = zombies st \<and> threads st' = threads st \<and> numthreads st' = numthreads st \<and>
    curspl st' = curspl st"
  proof cases
    case 1
    with assms show ?thesis by simp
  next
    case (2 t ts q th)
    then have st': "st' = st\<lparr>runqueue := q, curthread := Some t, in_interrupt := t_ininterrupt th, k_pending := Some (t_pcb th)\<rparr>"
      using assms(3) by simp
    then have l: "live st' = live st" using 2 assms(2) by (simp add: live_def running_def)
    have "thr_struct st'"
      unfolding thr_struct_def l using 2 st' assms(1) by (auto simp: thr_struct_def thr_lists_def q_usable_def)
    with st' l show ?thesis by simp
  qed
  then show "thr_struct st'" and "mset (live st') = mset (live st)" and "sleepers st' = sleepers st"
    and "zombies st' = zombies st" and "threads st' = threads st" and "numthreads st' = numthreads st"
    and "curspl st' = curspl st"
    by auto
qed

lemma stopped_fresh:
  assumes "thr_struct st" and "curthread st = Some cur"
  shows "cur \<notin> set (live (stopped cur k st) @ dead (stopped cur k st))"
    and "cur \<in> dom (threads (stopped cur k st))"
    and "length (live (stopped cur k st)) < q_size (runqueue st)"
    and "0 < length (live (stopped cur k st)) \<longrightarrow> int (length (live (stopped cur k st))) < a_max (sleepers st)"
  using assms stopped_struct(2) [OF assms, of k] by (auto simp: thr_struct_def)

text \<open>What \<open>mi_switch\<close> keeps, for each list the current thread may go to.\<close>

lemma mi_switch_out_struct:
  assumes "thr_struct st" and "curthread st = Some cur" and "kmem_limit km"
    and "mi_switch_out km s k st = Some st'" and "s = S_READY \<or> s = S_SLEEP"
  shows "thr_struct st'" and "mset (live st') = mset (live st)" and "curthread st' = None"
    and "numthreads st' = numthreads st"
proof -
  have c: "curspl st > 0" using assms(4) by (auto simp: mi_switch_out_def split: if_splits)
  note fresh = stopped_fresh [OF assms(1,2), of k] and base = stopped_struct [OF assms(1,2), of k]
  have "thr_struct st' \<and> mset (live st') = mset (live st) \<and> curthread st' = None \<and>
    numthreads st' = numthreads st"
  proof (cases "s = S_READY")
    case True
    then obtain q where q: "st' = (stopped cur k st)\<lparr>runqueue := q\<rparr>" "rq_step (runqueue st) [cur] q"
      using mi_switch_out_ready [OF assms(1,2) c assms(3), of k] assms(4) by auto
    then show ?thesis
      using struct_ready_add [OF base(1) fresh(1,2), of q] fresh(3,4) base(2) by simp
  next
    case False
    then obtain a where a: "st' = (stopped cur k st)\<lparr>sleepers := a\<rparr>" "array_inv a"
        "array_list a = sleeping st @ [cur]" "a_max (sleepers st) \<le> a_max a"
      using mi_switch_out_sleep [OF assms(1,2) c, of km k] assms(4,5) by auto
    then show ?thesis
      using struct_sleeping_add [OF base(1) fresh(1,2) a(2)] fresh(3,4) base(2) by auto
  qed
  then show "thr_struct st'" and "mset (live st') = mset (live st)" and "curthread st' = None"
    and "numthreads st' = numthreads st"
    by auto
qed

lemma live_length: "mset (live st) = mset (live st') \<Longrightarrow> length (live st) = length (live st')"
  by (rule mset_eq_length)

lemma mi_switch_inv:
  assumes "thr_inv st" and "kmem_limit km" and "mi_switch km s k st = Some st'"
    and "s = S_READY \<or> s = S_SLEEP"
  shows "thr_inv st'" and "mset (live st') = mset (live st)"
proof -
  have "thr_inv st' \<and> mset (live st') = mset (live st)"
  proof (cases "curthread st")
    case None
    then have "st' = st" using assms(3) by (auto simp: mi_switch_def mi_switch_out_def split: if_splits)
    with assms(1) show ?thesis by simp
  next
    case (Some cur)
    then obtain st1 where st1: "mi_switch_out km s k st = Some st1" "schedule st1 = Some st'"
      using assms(3) by (auto simp: mi_switch_def split: Option.bind_splits)
    have base: "thr_struct st" "numthreads st = int (length (live st))" using assms(1) by (auto simp: thr_inv_def)
    note out = mi_switch_out_struct [OF base(1) Some assms(2) st1(1) assms(4)]
    note sch = schedule_struct [OF out(1,3) st1(2)]
    show ?thesis using out sch base live_length [of st' st] by (simp add: thr_inv_def)
  qed
  then show "thr_inv st'" and "mset (live st') = mset (live st)" by auto
qed

lemma upd_thread_inv:
  assumes "thr_inv st" and "\<And>th. stack_ok (f th) = stack_ok th" and "\<And>th. disposable th \<Longrightarrow> disposable (f th)"
  shows "thr_inv (upd_thread t f st)"
  using assms upd_thread_struct [of st f t] by (simp add: thr_inv_def)

lemma sleepaddr_inv: "thr_inv st \<Longrightarrow> thr_inv (upd_thread t (\<lambda>th. th\<lparr>t_sleepaddr := x\<rparr>) st)"
  by (rule upd_thread_inv) (simp_all add: stack_ok_def disposable_def)

lemma thread_yield_inv:
  assumes "thr_inv st" and "kmem_limit km" and "thread_yield km k st = Some st'"
  shows "thr_inv st'" and "mset (live st') = mset (live st)"
  using assms mi_switch_inv [of "st\<lparr>curspl := 15\<rparr>" km S_READY "k (curspl st)"]
  by (auto simp: thread_yield_def split: if_splits Option.bind_splits)

lemma thread_sleep_inv:
  assumes "thr_inv st" and "kmem_limit km" and "thread_sleep km addr k st = Some st'"
  shows "thr_inv st'" and "mset (live st') = mset (live st)"
  using assms mi_switch_inv [OF sleepaddr_inv [OF assms(1)] assms(2)]
  by (auto simp: thread_sleep_def split: if_splits Option.bind_splits)

lemma thread_sleep_return_inv:
  assumes "thr_inv st" and "thread_sleep_return st = Some st'"
  shows "thr_inv st'"
  using assms sleepaddr_inv by (auto simp: thread_sleep_return_def split: Option.bind_splits)

text \<open>\<open>exorcise\<close> frees exactly the zombies.\<close>

lemma exorcise_loop_eq:
  assumes "thr_struct st'" and "zombies st = zombies st'" and "curthread st = curthread st'"
    and "threads st = (\<lambda>t. if t \<in> set (take i (dead st')) then None else threads st' t)"
    and "i \<le> length (dead st')"
  shows "exorcise_loop (int i) st =
    Some (st\<lparr>threads := (\<lambda>t. if t \<in> set (dead st') then None else threads st' t)\<rparr>)"
  using assms(2-)
proof (induction "length (dead st') - i" arbitrary: i st)
  case 0
  have num: "array_getnum (zombies st') = int (length (dead st'))"
    using thr_structD(2) [OF assms(1)] by (rule arr.getnum)
  have i: "i = length (dead st')" using 0 by simp
  have "threads st = (\<lambda>t. if t \<in> set (dead st') then None else threads st' t)"
    using 0(4) unfolding i by simp
  then have "st\<lparr>threads := (\<lambda>t. if t \<in> set (dead st') then None else threads st' t)\<rparr> = st" by simp
  then show ?case using 0 num i by (simp add: exorcise_loop.simps [of _ st])
next
  case (Suc n)
  let ?z = "dead st' ! i"
  have i: "i < length (dead st')" using Suc.hyps(2) by simp
  have num: "array_getnum (zombies st') = int (length (dead st'))"
    using thr_structD(2) [OF assms(1)] by (rule arr.getnum)
  have z: "array_getguy (zombies st') (int i) = Some ?z"
    using arr.getguy [OF thr_structD(2) [OF assms(1)], of "int i"] i by simp
  have dist: "distinct (dead st')" "set (live st') \<inter> set (dead st') = {}"
    using thr_structD(5) [OF assms(1)] by auto
  have mem: "?z \<in> set (dead st')" using i by simp
  obtain th where th: "threads st' ?z = Some th" "disposable th"
    using assms(1) mem unfolding thr_struct_def by blast
  have "?z \<notin> set (take i (dead st'))"
    using distinct_take [OF dist(1), of "Suc i"] i by (simp add: take_Suc_conv_app_nth)
  then have st: "threads st ?z = Some th" using Suc.prems(3) th by simp
  have cur: "curthread st \<noteq> Some ?z"
    using dist(2) mem Suc.prems(2) by (auto simp: live_def running_def split: option.splits)
  define st2 where "st2 = st\<lparr>threads := (threads st)(?z := None)\<rparr>"
  have "threads st2 = (\<lambda>t. if t \<in> set (take (Suc i) (dead st')) then None else threads st' t)"
    using Suc.prems(3) i by (auto simp: st2_def take_Suc_conv_app_nth fun_eq_iff)
  then have "exorcise_loop (int (Suc i)) st2 =
      Some (st2\<lparr>threads := (\<lambda>t. if t \<in> set (dead st') then None else threads st' t)\<rparr>)"
    using Suc.prems Suc.hyps(2) i by (intro Suc.hyps(1)) (auto simp: st2_def)
  then show ?case
    using Suc.prems i num z st cur th(2)
    by (auto simp: exorcise_loop.simps [of "int i" st] thread_destroy_def disposable_def st2_def add.commute)
qed

end
