(* ===== verification/Thread_Ops.thy ===== *)
theory Thread_Ops
  imports Thread_Inv
begin

text \<open>
  The operations that create and destroy threads: \<open>exorcise\<close>, \<open>thread_exit\<close>, \<open>thread_fork\<close>,
  \<open>thread_bootstrap\<close> and the two ways a thread that was switched to goes on.  Each keeps
  \<open>thr_inv\<close>; the properties of the thread system that do not involve the synchronization
  primitives close the theory.
\<close>

section \<open>Disposing of zombies\<close>

lemma exorcise_eq:
  assumes "thr_struct st" and "curspl st > 0"
  shows "\<exists>z. exorcise st = Some (st\<lparr>threads := (\<lambda>t. if t \<in> set (dead st) then None else threads st t),
      zombies := z\<rparr>) \<and> array_inv z \<and> array_list z = [] \<and>
      a_max z = (if a_max (zombies st) > 16 then 0 else a_max (zombies st))"
proof -
  let ?ts = "\<lambda>t. if t \<in> set (dead st) then None else threads st t"
  have loop: "exorcise_loop 0 st = Some (st\<lparr>threads := ?ts\<rparr>)"
    using exorcise_loop_eq [of st st 0] assms(1) by simp
  have inv: "array_inv (zombies st)" using assms(1) by (rule thr_structD)
  obtain z where z: "array_setsize (\<lambda>_. None) (zombies st) 0 = Some (Inr (), z)" "array_inv z" "array_list z = []"
    using array_setsize_shrink [OF inv, of 0 "\<lambda>_. None"] inv by (auto simp: array_inv_def)
  have "a_max z = (if a_max (zombies st) > 16 then 0 else a_max (zombies st))"
    using z(1) inv by (auto simp: array_setsize_def array_inv_def split: if_splits option.splits)
  with loop z assms(2) show ?thesis by (auto simp: exorcise_def)
qed

lemma exorcise_struct:
  assumes "thr_struct st" and "exorcise st = Some st'"
  shows "thr_struct st'" and "live st' = live st" and "dead st' = []" and "numthreads st' = numthreads st"
    and "curthread st' = curthread st" and "t \<in> set (live st) \<Longrightarrow> threads st' t = threads st t"
proof -
  have c: "curspl st > 0" using assms(2) by (auto simp: exorcise_def split: if_splits)
  obtain z where st': "st' = st\<lparr>threads := (\<lambda>t. if t \<in> set (dead st) then None else threads st t), zombies := z\<rparr>"
    and z: "array_inv z" "array_list z = []"
    using exorcise_eq [OF assms(1) c] assms(2) by auto
  show l: "live st' = live st" by (simp add: st' live_def running_def)
  show "dead st' = []" "numthreads st' = numthreads st" "curthread st' = curthread st"
    using z by (simp_all add: st')
  have d: "set (live st) \<inter> set (dead st) = {}" using thr_structD(5) [OF assms(1)] by auto
  then show "t \<in> set (live st) \<Longrightarrow> threads st' t = threads st t" by (auto simp: st')
  show "thr_struct st'"
    unfolding thr_struct_def l using assms(1) d z
    by (auto simp: thr_struct_def thr_lists_def st' ran_def split: if_splits)
qed

lemma activate_cur_cases:
  "activate_cur st = (case curthread st of None \<Rightarrow> None | Some cur \<Rightarrow>
     (case threads st cur of None \<Rightarrow> None | Some th \<Rightarrow>
       Some (case t_vmspace th of None \<Rightarrow> st | Some a \<Rightarrow> kcall_log (As_activate a) st)))"
  by (simp add: activate_cur_def split: option.splits)

lemma activate_cur_inv:
  assumes "activate_cur st = Some st'"
  shows "thr_struct st' = thr_struct st" "live st' = live st" "dead st' = dead st" "numthreads st' = numthreads st"
    "threads st' = threads st" "curthread st' = curthread st" "sleepers st' = sleepers st"
    "runqueue st' = runqueue st" "curspl st' = curspl st"
  using assms by (auto simp: activate_cur_cases split: option.splits)

lemma mi_switch_return_inv:
  assumes "thr_inv st" and "mi_switch_return st = Some st'"
  shows "thr_inv st'" and "live st' = live st" and "dead st' = []"
proof -
  obtain st1 st2 where st: "exorcise st = Some st1" "activate_cur st1 = Some st2"
      "st' = st2\<lparr>k_pending := None\<rparr>"
    using assms(2) by (auto simp: mi_switch_return_def split: Option.bind_splits)
  have s: "thr_struct st" "numthreads st = int (length (live st))" using assms(1) by (auto simp: thr_inv_def)
  note ex = exorcise_struct [OF s(1) st(1)] and ac = activate_cur_inv [OF st(2)]
  show "thr_inv st'" "live st' = live st" "dead st' = []"
    using ex ac s st(3) by (simp_all add: thr_inv_def)
qed

text \<open>A thread that was switched to does not panic on its way out of \<open>mi_switch\<close>.\<close>

lemma mi_switch_return_defined:
  assumes "thr_struct st" and "curthread st = Some t" and "curspl st > 0"
  shows "mi_switch_return st \<noteq> None"
proof -
  obtain st1 where st1: "exorcise st = Some st1" using exorcise_eq [OF assms(1,3)] by auto
  note ex = exorcise_struct [OF assms(1) st1]
  have "t \<in> set (live st1)" using assms(2) ex(2) by (simp add: live_def running_def)
  then obtain th where "threads st1 t = Some th" using thr_structD(6) [OF ex(1)] by blast
  then have "activate_cur st1 \<noteq> None" using ex(5) assms(2) by (simp add: activate_cur_cases)
  then show ?thesis using st1 by (auto simp: mi_switch_return_def)
qed

lemma mi_threadstart_inv:
  assumes "thr_inv st" and "mi_threadstart st = Some st'"
  shows "thr_inv st'"
  using assms by (auto simp: mi_threadstart_def thr_inv_def activate_cur_inv split: Option.bind_splits)

section \<open>Exit\<close>

lemma thread_exit_eq:
  fixes st :: "('k, 'z) kstate_scheme"
  assumes "thr_inv st" and "curthread st = Some cur" and "threads st cur = Some th"
  shows "\<exists>st1. thread_exit km k st = mi_switch km S_ZOMB k st1 \<and> thr_struct st1 \<and> live st1 = live st \<and>
    curthread st1 = Some cur \<and> numthreads st1 = numthreads st - 1 \<and> curspl st1 = 15 \<and>
    (\<exists>th'. threads st1 cur = Some th' \<and> disposable th') \<and> zombies st1 = zombies st \<and>
    runqueue st1 = runqueue st \<and> sleepers st1 = sleepers st"
proof -
  let ?st1 = "st\<lparr>curspl := 15\<rparr>"
  define st2 where "st2 = (case t_vmspace th of None \<Rightarrow> ?st1
       | Some a \<Rightarrow> kcall_log (As_destroy a) (upd_thread cur (\<lambda>th. th\<lparr>t_vmspace := None\<rparr>) ?st1))"
  define st3 where "st3 = (case t_cwd th of None \<Rightarrow> st2
       | Some v \<Rightarrow> upd_thread cur (\<lambda>th. th\<lparr>t_cwd := None\<rparr>) (kcall_log (Vop_decref v) st2))"
  have s: "thr_struct st" "numthreads st = int (length (live st))" using assms(1) by (auto simp: thr_inv_def)
  have ok: "stack_ok th" using s(1) assms(3) by (auto simp: thr_struct_def intro: ranI)
  have 2: "thr_struct st2" "live st2 = live st" "curthread st2 = Some cur" "numthreads st2 = numthreads st"
    "curspl st2 = 15" "zombies st2 = zombies st" "runqueue st2 = runqueue st" "sleepers st2 = sleepers st"
    "threads st2 cur = Some (th\<lparr>t_vmspace := None\<rparr>)"
    using s assms upd_thread_struct [of ?st1 "\<lambda>th. th\<lparr>t_vmspace := None\<rparr>" cur]
    by (auto simp: st2_def stack_ok_def disposable_def split: option.splits)
  have 3: "thr_struct st3" "live st3 = live st" "curthread st3 = Some cur" "numthreads st3 = numthreads st"
    "curspl st3 = 15" "zombies st3 = zombies st" "runqueue st3 = runqueue st" "sleepers st3 = sleepers st"
    "\<exists>th'. threads st3 cur = Some th' \<and> disposable th'"
    using 2 upd_thread_struct [of "kcall_log e st2" "\<lambda>th. th\<lparr>t_cwd := None\<rparr>" cur for e]
    by (auto simp: st3_def stack_ok_def disposable_def split: option.splits)
  have "numthreads st3 > 0" using s(2) 3(4) assms(2) by (simp add: live_def running_def)
  then have "thread_exit km k st = mi_switch km S_ZOMB k (st3\<lparr>numthreads := numthreads st3 - 1\<rparr>)"
    using assms ok
    by (cases "t_vmspace th"; cases "t_cwd th") (simp_all add: thread_exit_def Let_def st2_def st3_def)
  with 3 show ?thesis by (intro exI [of _ "st3\<lparr>numthreads := numthreads st3 - 1\<rparr>"]) simp
qed

text \<open>The three ways \<open>thread_exit\<close> can end; the zombie list is the only one that can be full.\<close>

lemma thread_exit_cases:
  assumes "thr_inv st" and "curthread st = Some cur"
  shows "(thread_exit km k st = None \<and> a_max (zombies st) = int (length (dead st))) \<or>
    (\<exists>st'. thread_exit km k st = Some st' \<and> thr_inv st' \<and> numthreads st' = numthreads st - 1 \<and>
      dead st' = dead st @ [cur] \<and> mset (live st) = add_mset cur (mset (live st')) \<and>
      sleepers st' = sleepers st \<and> curspl st' = 15 \<and>
      (case ready st of [] \<Rightarrow> curthread st' = None | t # ts \<Rightarrow> curthread st' = Some t \<and> ready st' = ts))"
proof -
  obtain th where "threads st cur = Some th"
    using assms by (auto simp: thr_inv_def thr_struct_def live_def running_def)
  then obtain st1 th' where st1: "thread_exit km k st = mi_switch km S_ZOMB k st1" "thr_struct st1" "live st1 = live st"
      "curthread st1 = Some cur" "numthreads st1 = numthreads st - 1" "curspl st1 = 15"
      "threads st1 cur = Some th'" "disposable th'" "zombies st1 = zombies st"
      "runqueue st1 = runqueue st" "sleepers st1 = sleepers st"
    using thread_exit_eq [OF assms, of th km k] by blast
  have num: "numthreads st = int (length (live st))" using assms(1) by (simp add: thr_inv_def)
  note base = stopped_struct [OF st1(2,4), of k] and fresh = stopped_fresh [OF st1(2,4), of k]
  have c: "0 < curspl st1" using st1(6) by simp
  show ?thesis
  proof (cases "mi_switch_out km S_ZOMB k st1")
    case None
    then show ?thesis using mi_switch_out_zomb [OF st1(2,4) c, of km k] st1 by (auto simp: mi_switch_def)
  next
    case (Some st2)
    then obtain a where a: "st2 = (stopped cur k st1)\<lparr>zombies := a\<rparr>" "array_inv a" "array_list a = dead st1 @ [cur]"
      using mi_switch_out_zomb [OF st1(2,4) c, of km k] by auto
    have "threads (stopped cur k st1) cur = Some (th'\<lparr>t_pcb := PcbSwitch k, t_ininterrupt := in_interrupt st1\<rparr>)" using st1(7) by simp
    moreover have "disposable (th'\<lparr>t_pcb := PcbSwitch k, t_ininterrupt := in_interrupt st1\<rparr>)" using st1(8) by (simp add: disposable_def)
    ultimately have s2: "thr_struct st2" "live st2 = live (stopped cur k st1)"
      using struct_dead_add [OF base(1) fresh(1)] a by auto
    have st2: "curthread st2 = None" "curspl st2 > 0" "curspl st2 = 15" "numthreads st2 = numthreads st - 1" "ready st2 = ready st"
      "sleepers st2 = sleepers st" "dead st2 = dead st @ [cur]"
      using a st1 by simp_all
    obtain st' where st': "schedule st2 = Some st'" "case ready st of [] \<Rightarrow> curthread st' = None
        | t # ts \<Rightarrow> curthread st' = Some t \<and> ready st' = ts"
      using schedule_cases [OF s2(1) st2(1,2)] st2 by auto
    note sch = schedule_struct [OF s2(1) st2(1) st'(1)]
    have m: "mset (live st) = add_mset cur (mset (live st'))" using base(2) s2(2) sch(2) st1(3) by simp
    then have "length (live st) = Suc (length (live st'))"
      using mset_eq_length [of "live st" "cur # live st'"] by simp
    then have "thr_inv st'" using sch num st2 by (simp add: thr_inv_def)
    then show ?thesis using Some st'(2) m sch st2 st1 st'(1) by (auto simp: mi_switch_def)
  qed
qed

section \<open>Fork\<close>

lemma array_preallocate_cases:
  assumes "array_inv a"
  shows "(\<exists>a'. array_preallocate km a n = Some (Inr (), a') \<and> array_inv a' \<and> array_list a' = array_list a \<and>
      n \<le> a_max a' \<and> a_max a \<le> a_max a')
    \<or> array_preallocate km a n = Some (Inl ENOMEM, a)"
proof (cases "km (nat (grow_max n (a_max a)))")
  case None
  then show ?thesis using array_preallocate_fail [OF assms] by blast
next
  case (Some junk)
  have "0 \<le> a_max a" using assms by (auto simp: array_inv_def)
  then show ?thesis using array_preallocate_ok [of a km n junk] assms Some grow_max_ge [of "a_max a" n] by auto
qed

text \<open>The structure of the new thread and the state in which \<open>thread_fork\<close> asks for room.\<close>

definition fork_child :: "string \<Rightarrow> 'k thread \<Rightarrow> 'k thread" where
  "fork_child name cth = \<lparr>t_pcb = PcbStart, t_ininterrupt = 0, t_name = name, t_sleepaddr = None, t_stack = Some stack_magic,
     t_pid = 0, t_parent_pid = t_pid cth, t_vmspace = None, t_cwd = t_cwd cth\<rparr>"

definition fork_setup :: "tid \<Rightarrow> string \<Rightarrow> 'k thread \<Rightarrow> ('k, 'z) kstate_scheme \<Rightarrow> ('k, 'z) kstate_scheme" where
  "fork_setup t name cth st =
     st\<lparr>k_calls := k_calls st @ (case t_cwd cth of None \<Rightarrow> [] | Some v \<Rightarrow> [Vop_incref v]),
        threads := (threads st)(t \<mapsto> fork_child name cth), curspl := 15\<rparr>"

lemma thread_fork_eq:
  assumes "curthread st = Some cur" and "threads st cur = Some cth" and "t \<noteq> cur"
  shows "thread_fork (Some t) True True km name st = thread_fork_admit km (curspl st) t (fork_setup t name cth st)"
  using assms
  by (cases "t_cwd cth")
     (simp_all add: thread_fork_def thread_create_def Let_def fork_setup_def fork_child_def new_thread_def
        upd_thread_def kcall_log_def stack_magic_def)

text \<open>The new structure is in no list, so the lists keep their invariant.\<close>

lemma fork_setup_struct:
  assumes "thr_struct st" and "threads st t = None"
  shows "thr_struct (fork_setup t name cth st)" and "live (fork_setup t name cth st) = live st"
    and "t \<notin> set (live st @ dead st)"
proof -
  let ?st = "fork_setup t name cth st"
  show l: "live ?st = live st" by (simp add: fork_setup_def)
  show f: "t \<notin> set (live st @ dead st)" using assms by (auto simp: thr_struct_def)
  have "stack_ok (fork_child name cth)" by (simp add: stack_ok_def fork_child_def stack_magic_def)
  then show "thr_struct ?st"
    unfolding thr_struct_def l using assms f
    by (auto simp: thr_struct_def thr_lists_def fork_setup_def ran_def)
qed

lemma struct_room:
  assumes "thr_struct st" and "array_inv sl" and "array_list sl = sleeping st"
    and "a_max (sleepers st) \<le> a_max sl" and "array_inv zo" and "array_list zo = dead st"
    and "q_inv q" and "q_usable q" and "q_list q = ready st" and "q_size (runqueue st) \<le> q_size q"
  shows "thr_struct (st\<lparr>sleepers := sl, zombies := zo, runqueue := q\<rparr>)"
    and "live (st\<lparr>sleepers := sl, zombies := zo, runqueue := q\<rparr>) = live st"
proof -
  show l: "live (st\<lparr>sleepers := sl, zombies := zo, runqueue := q\<rparr>) = live st"
    using assms by (simp add: live_def running_def)
  show "thr_struct (st\<lparr>sleepers := sl, zombies := zo, runqueue := q\<rparr>)"
    unfolding thr_struct_def l using assms by (auto simp: thr_struct_def thr_lists_def)
qed

text \<open>What an admission that fails leaves behind: larger lists and no trace of the new thread.\<close>

definition fork_failed :: "tid \<Rightarrow> int \<Rightarrow> ('k, 'z) kstate_scheme \<Rightarrow> (errno + tid) \<times> ('k, 'z) kstate_scheme \<Rightarrow> bool" where
  "fork_failed t s st r \<longleftrightarrow> (\<exists>sl zo q calls. r = (Inl ENOMEM, st\<lparr>sleepers := sl, zombies := zo, runqueue := q,
      curspl := s, k_calls := calls, threads := (threads st)(t := None)\<rparr>) \<and>
      array_inv sl \<and> array_list sl = sleeping st \<and> a_max (sleepers st) \<le> a_max sl \<and>
      array_inv zo \<and> array_list zo = dead st \<and>
      q_inv q \<and> q_usable q \<and> q_list q = ready st \<and> q_size (runqueue st) \<le> q_size q)"

definition fork_done :: "tid \<Rightarrow> int \<Rightarrow> ('k, 'z) kstate_scheme \<Rightarrow> (errno + tid) \<times> ('k, 'z) kstate_scheme \<Rightarrow> bool" where
  "fork_done t s st r \<longleftrightarrow> (\<exists>sl zo q. r = (Inr t, st\<lparr>sleepers := sl, zombies := zo, runqueue := q,
      numthreads := numthreads st + 1, curspl := s\<rparr>) \<and>
      array_inv sl \<and> array_list sl = sleeping st \<and> numthreads st < a_max sl \<and> a_max (sleepers st) \<le> a_max sl \<and>
      array_inv zo \<and> array_list zo = dead st \<and> numthreads st < a_max zo \<and>
      rq_step (runqueue st) [t] q \<and> numthreads st < int (q_size q))"

lemma thread_fork_fail_eq:
  assumes "threads st t = Some th"
  shows "\<exists>calls. thread_fork_fail e s t st =
    Some (Inl e, st\<lparr>curspl := s, k_calls := calls, threads := (threads st)(t := None)\<rparr>)"
  using assms
  by (cases "t_cwd th") (auto simp: thread_fork_fail_def Let_def kcall_log_def intro: exI [of _ "k_calls st"])

lemma fork_failedI:
  fixes st :: "('k, 'z) kstate_scheme"
  assumes "thr_struct st" and "t \<in> dom (threads st)"
    and "array_inv sl" "array_list sl = sleeping st" "a_max (sleepers st) \<le> a_max sl"
    and "array_inv zo" "array_list zo = dead st"
    and "q_inv q" "q_usable q" "q_list q = ready st" "q_size (runqueue st) \<le> q_size q"
  shows "\<exists>r. thread_fork_fail ENOMEM s t (st\<lparr>sleepers := sl, zombies := zo, runqueue := q\<rparr>) = Some r \<and>
    fork_failed t s st r"
proof -
  let ?st = "st\<lparr>sleepers := sl, zombies := zo, runqueue := q\<rparr>"
  obtain th where th: "threads ?st t = Some th" using assms(2) by auto
  obtain calls where "thread_fork_fail ENOMEM s t ?st =
      Some (Inl ENOMEM, ?st\<lparr>curspl := s, k_calls := calls, threads := (threads ?st)(t := None)\<rparr>)"
    using thread_fork_fail_eq [OF th] by blast
  then show ?thesis using assms(3-) unfolding fork_failed_def by auto
qed

lemma thread_fork_admit_cases:
  fixes st :: "('k, 'z) kstate_scheme"
  assumes "thr_inv st" and "t \<in> dom (threads st)" and "kmem_limit km" and "curspl st > 0"
  shows "\<exists>r. thread_fork_admit km s t st = Some r \<and> (fork_failed t s st r \<or> fork_done t s st r)"
proof -
  let ?n = "numthreads st + 1"
  have str: "thr_struct st" and n: "numthreads st = int (length (live st))" using assms(1) by (auto simp: thr_inv_def)
  note inv = thr_structD [OF str]
  have failI: "\<exists>r. thread_fork_fail ENOMEM s t st' = Some r \<and> (fork_failed t s st r \<or> fork_done t s st r)"
    if "st' = st\<lparr>sleepers := sl, zombies := zo, runqueue := q\<rparr>" "array_inv sl" "array_list sl = sleeping st"
      "a_max (sleepers st) \<le> a_max sl" "array_inv zo" "array_list zo = dead st" "q_inv q" "q_usable q"
      "q_list q = ready st" "q_size (runqueue st) \<le> q_size q" for st' sl zo q
    using fork_failedI [OF str assms(2) that(2-)] that(1) by blast
  consider (f) "array_preallocate km (sleepers st) ?n = Some (Inl ENOMEM, sleepers st)"
    | (ok) sl where "array_preallocate km (sleepers st) ?n = Some (Inr (), sl)" "array_inv sl"
      "array_list sl = sleeping st" "?n \<le> a_max sl" "a_max (sleepers st) \<le> a_max sl"
    using array_preallocate_cases [OF inv(1), of km ?n] by blast
  then show ?thesis
  proof cases
    case f
    then show ?thesis using failI [where st' = st and sl = "sleepers st" and zo = "zombies st" and q = "runqueue st"] inv
      by (simp add: thread_fork_admit_def Let_def)
  next
    case ok
    note sl = ok
    consider (f) "array_preallocate km (zombies st) ?n = Some (Inl ENOMEM, zombies st)"
      | (ok) zo where "array_preallocate km (zombies st) ?n = Some (Inr (), zo)" "array_inv zo"
        "array_list zo = dead st" "?n \<le> a_max zo"
      using array_preallocate_cases [OF inv(2), of km ?n] by blast
    then show ?thesis
    proof cases
      case f
      then show ?thesis using failI [where sl = sl and zo = "zombies st" and q = "runqueue st"] inv sl
        by (simp add: thread_fork_admit_def Let_def)
    next
      case ok
      note zo = ok
      have "?n \<le> 2 ^ 30" using n inv(4,7) by (simp add: q_usable_def)
      then consider (f) "q_preallocate km (runqueue st) ?n = Some (Inl ENOMEM, runqueue st)"
        | (ok) q where "q_preallocate km (runqueue st) ?n = Some (Inr (), q)" "q_inv q" "q_usable q"
          "q_list q = ready st" "?n \<le> int (q_size q)" "q_size (runqueue st) \<le> q_size q"
        using q_preallocate_cases [OF inv(3) _ , of ?n km] inv(4) assms(3) kmem_limitD [OF assms(3)]
        unfolding q_usable_def by fastforce
      then show ?thesis
      proof cases
        case f
        then show ?thesis using failI [where sl = sl and zo = zo and q = "runqueue st"] inv sl zo assms(4)
          by (simp add: thread_fork_admit_def Let_def scheduler_preallocate_def)
      next
        case ok
        let ?st3 = "st\<lparr>sleepers := sl, zombies := zo, runqueue := q\<rparr>"
        have pre: "thread_fork_admit km s t st = (do { (r4, st4) \<leftarrow> make_runnable km t ?st3;
            case r4 of Inl e \<Rightarrow> thread_fork_fail e s t st4 | Inr _ \<Rightarrow>
              Some (Inr t, snd (splx s (st4\<lparr>numthreads := numthreads st4 + 1\<rparr>))) })"
          using sl zo ok assms(4) by (simp add: thread_fork_admit_def Let_def scheduler_preallocate_def)
        consider "make_runnable km t ?st3 = Some (Inl ENOMEM, ?st3)"
          | q' where "make_runnable km t ?st3 = Some (Inr (), ?st3\<lparr>runqueue := q'\<rparr>)" "rq_step q [t] q'"
          using make_runnable_cases [of ?st3 km t] ok assms(3,4) by auto
        then show ?thesis
        proof cases
          case 1
          then show ?thesis using failI [where sl = sl and zo = zo and q = q] sl zo ok pre by simp
        next
          case (2 q')
          then have "fork_done t s st (Inr t, ?st3\<lparr>runqueue := q', numthreads := numthreads st + 1, curspl := s\<rparr>)"
            using sl zo ok unfolding fork_done_def rq_step_def by fastforce
          then show ?thesis using pre 2 by simp
        qed
      qed
    qed
  qed
qed

lemma fork_setup_inv:
  assumes "thr_inv st" and "threads st t = None"
  shows "thr_inv (fork_setup t name cth st)"
  using assms fork_setup_struct(1,2) [of st t name cth] by (simp add: thr_inv_def) (simp add: fork_setup_def)

lemma fork_done_inv:
  assumes "thr_inv st" and "t \<notin> set (live st @ dead st)" and "t \<in> dom (threads st)"
    and "fork_done t s st (r, st')"
  shows "thr_inv st'"
proof -
  obtain sl zo q where st': "st' = st\<lparr>sleepers := sl, zombies := zo, runqueue := q,
        numthreads := numthreads st + 1, curspl := s\<rparr>"
      and f: "array_inv sl" "array_list sl = sleeping st" "numthreads st < a_max sl" "array_inv zo"
        "array_list zo = dead st" "rq_step (runqueue st) [t] q" "numthreads st < int (q_size q)"
    using assms(4) by (auto simp: fork_done_def)
  have str: "thr_struct st" and n: "numthreads st = int (length (live st))" using assms(1) by (auto simp: thr_inv_def)
  have m: "mset (live st') = mset (t # live st)"
    using st' f by (simp add: live_def running_def rq_step_def)
  have l: "length (live st') = Suc (length (live st))" "set (live st') = insert t (set (live st))"
    using mset_eq_length [OF m] mset_eq_setD [OF m] by auto
  have "distinct (live st' @ dead st')"
    using mset_eq_imp_distinct_iff [of "live st' @ dead st'" "t # live st @ dead st"] m str assms(2) st' f(5)
    by (simp add: thr_struct_def)
  then have "thr_struct st'"
    unfolding thr_struct_def l using str assms(3) l st' f n
    by (auto simp: thr_struct_def thr_lists_def rq_step_def)
  then show ?thesis using st' n l by (simp add: thr_inv_def)
qed

lemma fork_failed_inv:
  assumes "thr_inv st" and "t \<notin> set (live st @ dead st)" and "fork_failed t s st (r, st')"
  shows "thr_inv st'"
proof -
  obtain sl zo q calls where st': "st' = st\<lparr>sleepers := sl, zombies := zo, runqueue := q,
      curspl := s, k_calls := calls, threads := (threads st)(t := None)\<rparr>"
    and f: "array_inv sl" "array_list sl = sleeping st" "a_max (sleepers st) \<le> a_max sl" "array_inv zo"
      "array_list zo = dead st" "q_inv q" "q_usable q" "q_list q = ready st" "q_size (runqueue st) \<le> q_size q"
    using assms(3) by (auto simp: fork_failed_def)
  have l: "live st' = live st" using st' f by (simp add: live_def running_def)
  have "thr_struct st'"
    unfolding thr_struct_def l using assms(1,2) st' f
    by (auto simp: thr_inv_def thr_struct_def thr_lists_def ran_def split: if_splits)
  then show ?thesis using assms(1) st' l by (simp add: thr_inv_def)
qed

definition fork_result :: "tid \<Rightarrow> 'k thread \<Rightarrow> ('k, 'z) kstate_scheme \<Rightarrow> errno + tid \<Rightarrow> ('k, 'z) kstate_scheme \<Rightarrow> bool" where
  "fork_result t child st r st' \<longleftrightarrow> curspl st' = curspl st \<and> curthread st' = curthread st \<and>
     sleeping st' = sleeping st \<and> dead st' = dead st \<and> in_interrupt st' = in_interrupt st \<and>
     k_pending st' = k_pending st \<and> kstate.more st' = kstate.more st \<and>
     (if r = Inr t then ready st' = ready st @ [t] \<and> numthreads st' = numthreads st + 1 \<and>
        threads st' = (threads st)(t \<mapsto> child)
      else r = Inl ENOMEM \<and> ready st' = ready st \<and> numthreads st' = numthreads st \<and> threads st' = threads st)"

lemma thread_fork_cases:
  assumes "thr_inv st" and "curthread st = Some cur" and "threads st cur = Some cth"
    and "threads st t = None" and "kmem_limit km"
  shows "\<exists>r st'. thread_fork (Some t) True okstack km name st = Some (r, st') \<and> thr_inv st' \<and>
    fork_result t (fork_child name cth) st r st'"
proof (cases okstack)
  case True
  let ?st = "fork_setup t name cth st"
  have ne: "t \<noteq> cur" using assms by auto
  have inv: "thr_inv ?st" using assms(1,4) by (rule fork_setup_inv)
  have dom: "t \<in> dom (threads ?st)" and spl: "curspl ?st > 0" by (simp_all add: fork_setup_def)
  have out: "t \<notin> set (live ?st @ dead ?st)"
    using fork_setup_struct(2) [of st t name cth] fork_setup_struct(3) [of st t] assms(1,4)
    by (simp add: thr_inv_def) (simp add: fork_setup_def)
  obtain r st' where r: "thread_fork_admit km (curspl st) t ?st = Some (r, st')"
      "fork_failed t (curspl st) ?st (r, st') \<or> fork_done t (curspl st) ?st (r, st')"
    using thread_fork_admit_cases [OF inv dom assms(5) spl, of "curspl st"] by auto
  have "thr_inv st'" using r(2) fork_done_inv [OF inv out dom] fork_failed_inv [OF inv out] by blast
  moreover have "fork_result t (fork_child name cth) st r st'"
    using r(2) assms(4) by (auto simp: fork_result_def fork_failed_def fork_done_def fork_setup_def rq_step_def)
  ultimately show ?thesis using True r(1) thread_fork_eq [OF assms(2,3) ne] by simp
next
  case False
  then have "thread_fork (Some t) True okstack km name st = Some (Inl ENOMEM, st)"
    using assms by (auto simp: thread_fork_def thread_create_def Let_def fun_upd_idem upd_thread_def)
  then show ?thesis using assms(1) by (simp add: fork_result_def)
qed

lemma thread_sleep_cases:
  assumes "thr_inv st" and "curthread st = Some cur" and "curspl st > 0" and "in_interrupt st = 0"
    and "1 < numthreads st" and "kmem_limit km"
  shows "\<exists>st'. thread_sleep km addr k st = Some st' \<and> thr_inv st' \<and> sleeping st' = sleeping st @ [cur] \<and>
    sleeps_on st' addr cur \<and> map_option t_pcb (threads st' cur) = Some (PcbSwitch k) \<and> dead st' = dead st \<and>
    (case ready st of [] \<Rightarrow> curthread st' = None | t # ts \<Rightarrow> curthread st' = Some t \<and> ready st' = ts)"
proof -
  let ?st = "upd_thread cur (\<lambda>th. th\<lparr>t_sleepaddr := Some addr\<rparr>) st"
  have inv: "thr_inv ?st" using assms(1) by (rule sleepaddr_inv)
  have str: "thr_struct ?st" and n: "numthreads st = int (length (live st))"
    using inv by (auto simp: thr_inv_def)
  obtain th where th: "threads st cur = Some th"
    using assms(1,2) by (auto simp: thr_inv_def thr_struct_def live_def running_def)
  have "live ?st \<noteq> [cur]" using n assms(5) by auto
  then obtain a where a: "mi_switch_out km S_SLEEP k ?st = Some ((stopped cur k ?st)\<lparr>sleepers := a\<rparr>)"
      "array_list a = sleeping st @ [cur]"
    using mi_switch_out_sleep [OF str, of cur km k] assms(2,3) by auto
  define st1 where "st1 = (stopped cur k ?st)\<lparr>sleepers := a\<rparr>"
  have st1: "thr_struct st1" "curthread st1 = None" "curspl st1 > 0" "sleepers st1 = a" "zombies st1 = zombies st"
    "runqueue st1 = runqueue st" "threads st1 cur = Some (th\<lparr>t_sleepaddr := Some addr, t_pcb := PcbSwitch k, t_ininterrupt := in_interrupt st\<rparr>)"
    using mi_switch_out_struct [OF str _ assms(6) a(1)] assms(2,3) th by (auto simp: st1_def)
  obtain st' where st': "schedule st1 = Some st'" "case ready st of [] \<Rightarrow> curthread st' = None
      | t # ts \<Rightarrow> curthread st' = Some t \<and> ready st' = ts"
    using schedule_cases [OF st1(1-3)] st1 by (auto split: list.splits)
  note sch = schedule_struct [OF st1(1,2) st'(1)]
  have sl: "thread_sleep km addr k st = Some st'"
    using a(1) st'(1) assms(2,4) by (simp add: thread_sleep_def mi_switch_def st1_def)
  moreover have "thr_inv st'" using thread_sleep_inv(1) [OF assms(1,6) sl] .
  ultimately show ?thesis using sch st1 a(2) st'(2) by (auto simp: sleeps_on_def)
qed

section \<open>Boot\<close>

lemma thread_bootstrap_inv:
  assumes "scheduler_bootstrap True km st00 = Some st0"
    and "thread_bootstrap True True (Some t) True st0 = Some st" and "threads st00 = (\<lambda>_. None)"
  shows "thr_inv st" and "curthread st = Some t" and "live st = [t]" and "dead st = []"
proof -
  obtain q where q: "q_create True km 32 = Some q" "st0 = st00\<lparr>runqueue := q\<rparr>"
    using assms(1) by (auto simp: scheduler_bootstrap_def split: Option.bind_splits)
  have q': "q_inv q" "q_list q = []" "q_size q = 32" "q_usable q"
    using q(1) by (auto simp: q_create_def q_inv_def q_list_def q_usable_def q_range.simps kalloc_def
        split: option.splits)
  show st: "curthread st = Some t" "live st = [t]" "dead st = []" and "thr_inv st"
    using assms(2,3) q q'
    by (auto simp: thread_bootstrap_def array_create_def thread_create_def live_def running_def
        thr_inv_def thr_struct_def thr_lists_def array_inv_def array_list_def new_thread_def stack_ok_def ran_def
        split: if_splits)
qed

section \<open>Properties of the thread system\<close>

text \<open>A state with one running, two ready and two sleeping threads, for the examples below.\<close>

definition ex_state :: "nat kstate" where
  "ex_state = \<lparr>threads = [1 \<mapsto> new_thread ''a'', 2 \<mapsto> new_thread ''b'', 3 \<mapsto> new_thread ''c'',
       4 \<mapsto> (new_thread ''d'')\<lparr>t_sleepaddr := Some (SemObj 7)\<rparr>,
       5 \<mapsto> (new_thread ''e'')\<lparr>t_sleepaddr := Some (LockObj 9)\<rparr>],
     curthread = Some 1, sleepers = \<lparr>a_num = 2, a_max = 6, a_v = Some [5, 4, 0, 0, 0, 0]\<rparr>,
     zombies = \<lparr>a_num = 0, a_max = 2, a_v = Some [0, 0]\<rparr>,
     runqueue = \<lparr>q_size = 8, q_nextwrite = 1, q_nextread = 7, q_data = [3, 0, 0, 0, 0, 0, 0, 2]\<rparr>,
     numthreads = 5, curspl = 15, in_interrupt = 0, k_pending = None, k_calls = []\<rparr>"

lemma ex_state_lists: "ready ex_state = [2, 3]" "sleeping ex_state = [5, 4]" "dead ex_state = []"
  by (simp_all add: ex_state_def q_list_def q_range.simps array_list_def)

lemma ex_state_fields: "curthread ex_state = Some 1" "numthreads ex_state = 5" "curspl ex_state = 15"
  "in_interrupt ex_state = 0" "q_size (runqueue ex_state) = 8" "a_max (zombies ex_state) = 2"
  "threads ex_state 1 = Some (new_thread ''a'')" "threads ex_state 2 = Some (new_thread ''b'')"
  "threads ex_state 6 = None"
  by (simp_all add: ex_state_def)

lemma ex_state_sleeps [simp]:
  "sleeps_on ex_state addr 5 = (addr = LockObj 9)" "sleeps_on ex_state addr 4 = (addr = SemObj 7)"
  by (auto simp: sleeps_on_def ex_state_def)

lemma ex_state_inv: "thr_inv ex_state"
proof -
  have live: "live ex_state = [1, 2, 3, 5, 4]" by (simp add: live_def running_def ex_state_lists ex_state_fields)
  have ran: "stack_ok th" if "th \<in> ran (threads ex_state)" for th
    using that by (auto simp: ex_state_def ran_def new_thread_def stack_ok_def split: if_splits)
  have "thr_lists ex_state"
    by (simp add: thr_lists_def ex_state_def array_inv_def q_inv_def q_usable_def)
  moreover have "set (live ex_state @ dead ex_state) \<subseteq> dom (threads ex_state)"
    unfolding live ex_state_lists by (simp add: ex_state_def)
  ultimately show ?thesis
    unfolding thr_inv_def thr_struct_def live ex_state_lists using ran by (simp add: ex_state_def)
qed

text \<open>
  C35: round-robin scheduling.  A switch hands the processor to the thread that has been ready longest: with \<open>t # ts\<close> ready,
  \<open>thread_yield\<close> by the running thread \<open>cur\<close> makes \<open>t\<close> the running thread and queues \<open>cur\<close>
  behind \<open>ts\<close>; it needs no memory while fewer threads exist than the ring buffer has slots.
\<close>

theorem thread_yield_round_robin:
  assumes "thr_inv st" and "curthread st = Some cur" and "ready st = t # ts" and "kmem_limit km"
    and "numthreads st < int (q_size (runqueue st))"
  shows "\<exists>st' th. thread_yield km k st = Some st' \<and> curthread st' = Some t \<and> ready st' = ts @ [cur] \<and>
    sleeping st' = sleeping st \<and> dead st' = dead st \<and> numthreads st' = numthreads st \<and>
    threads st t = Some th \<and> k_pending st' = Some (t_pcb th)"
proof -
  let ?st = "st\<lparr>curspl := 15\<rparr>"
  have str: "thr_struct ?st" and n: "numthreads st = int (length (live st))" using assms(1) by (auto simp: thr_inv_def)
  have "Suc (length (ready ?st)) \<noteq> q_size (runqueue ?st)"
    using n assms(2,5) by (simp add: live_def running_def)
  then obtain q where q: "mi_switch_out km S_READY (k (curspl st)) ?st =
      Some ((stopped cur (k (curspl st)) ?st)\<lparr>runqueue := q\<rparr>)" "rq_step (runqueue ?st) [cur] q"
    using mi_switch_out_ready [OF str, of cur km "k (curspl st)"] assms(2,4) by auto
  define st1 where "st1 = (stopped cur (k (curspl st)) ?st)\<lparr>runqueue := q\<rparr>"
  have "thr_struct st1"
    using mi_switch_out_struct(1) [OF str _ assms(4) q(1)] assms(2) by (simp add: st1_def)
  moreover have "ready st1 = t # (ts @ [cur])" "curthread st1 = None" "curspl st1 > 0"
    using q(2) assms(3) by (simp_all add: st1_def rq_step_def)
  ultimately obtain q' th where sch: "threads st1 t = Some th" "q_list q' = ts @ [cur]"
      "schedule st1 = Some (st1\<lparr>runqueue := q', curthread := Some t, in_interrupt := t_ininterrupt th, k_pending := Some (t_pcb th)\<rparr>)"
    using schedule_cases [of st1] by auto
  have "t \<noteq> cur" using assms(1-3) by (auto simp: thr_inv_def thr_struct_def live_def running_def)
  then have "threads st t = Some th" using sch(1) by (simp add: st1_def)
  then show ?thesis
    using q(1) sch(2,3) assms(2) by (auto simp: thread_yield_def mi_switch_def st1_def [symmetric]) (auto simp: st1_def)
qed

theorem thread_yield_round_robin_witness:
  "\<exists>st'. thread_yield (\<lambda>_. None) (\<lambda>_. 0) ex_state = Some st' \<and> curthread st' = Some 2 \<and> ready st' = [3, 1]"
  using thread_yield_round_robin [OF ex_state_inv ex_state_fields(1) ex_state_lists(1) kmem_limit_never, of "\<lambda>_. 0"]
  by (auto simp: ex_state_fields)

text \<open>
  exact wakeups.  Called by a running thread with interrupts off, \<open>thread_wakeup\<close> never
  panics, whatever the allocator does: the preallocation of \<open>thread_fork\<close> is enough.  Exactly
  the threads that sleep on the address move from the sleepers to the end of the run queue, in
  their order, and everything else stays.
\<close>

theorem thread_wakeup_exact:
  assumes "thr_inv st" and "curthread st \<noteq> None" and "curspl st > 0" and "kmem_limit km"
  shows "\<exists>st'. thread_wakeup km addr st = Some st' \<and> thr_inv st' \<and>
    ready st' = ready st @ filter (sleeps_on st addr) (sleeping st) \<and>
    sleeping st' = filter (\<lambda>t. \<not> sleeps_on st addr t) (sleeping st) \<and>
    dead st' = dead st \<and> curthread st' = curthread st \<and> threads st' = threads st"
proof -
  have "thr_struct st" using assms(1) by (simp add: thr_inv_def)
  then obtain st' where st': "thread_wakeup km addr st = Some st'"
      "woke st (filter (sleeps_on st addr) (sleeping st)) (filter (\<lambda>t. \<not> sleeps_on st addr t) (sleeping st)) st'"
    using thread_wakeup_cases [OF _ assms(4,3), of addr] assms(2) by auto
  moreover have "thr_inv st'" using assms(1,4) st'(1) by (rule thread_wakeup_inv)
  ultimately show ?thesis by (auto simp: woke_def rq_step_def)
qed

theorem thread_wakeup_exact_witness:
  "\<exists>st'. thread_wakeup (\<lambda>_. None) (SemObj 7) ex_state = Some st' \<and> ready st' = [2, 3, 4] \<and> sleeping st' = [5]"
  using thread_wakeup_exact [OF ex_state_inv, of "\<lambda>_. None" "SemObj 7"]
  by (auto simp: ex_state_fields ex_state_lists)

text \<open>
  C34: going to sleep cannot fail.  With at least one other thread in the system,
  \<open>thread_sleep\<close> never panics, even when no memory is left.  The thread is appended to
  the sleepers with its sleep address, its continuation is stored, and the thread at the head
  of the run queue runs next; with none ready the scheduler idles.
\<close>

theorem thread_sleep_never_fails:
  assumes "thr_inv st" and "curthread st = Some cur" and "curspl st > 0" and "in_interrupt st = 0"
    and "1 < numthreads st" and "kmem_limit km"
  shows "\<exists>st'. thread_sleep km addr k st = Some st' \<and> thr_inv st' \<and> sleeping st' = sleeping st @ [cur] \<and>
    sleeps_on st' addr cur \<and> map_option t_pcb (threads st' cur) = Some (PcbSwitch k) \<and> dead st' = dead st \<and>
    (case ready st of [] \<Rightarrow> curthread st' = None | t # ts \<Rightarrow> curthread st' = Some t \<and> ready st' = ts)"
  using assms by (rule thread_sleep_cases)

theorem thread_sleep_never_fails_witness:
  "\<exists>st'. thread_sleep (\<lambda>_. None) (CvObj 3) 0 ex_state = Some st' \<and> sleeping st' = [5, 4, 1] \<and>
    curthread st' = Some 2 \<and> ready st' = [3]"
  using thread_sleep_never_fails [OF ex_state_inv ex_state_fields(1), of "\<lambda>_. None" "CvObj 3" 0]
  by (auto simp: ex_state_fields ex_state_lists)

text \<open>
  C33: \<open>thread_fork\<close> is all or nothing.  With a fresh structure it never panics, for every
  behaviour of the allocator: either the new thread is at the end of the run queue, counted, with the
  parent's process id and working directory, or the error is \<open>ENOMEM\<close> and the thread table, all
  lists and the count are as before.  The interrupt level is restored in both cases.
\<close>

theorem thread_fork_atomic:
  assumes "thr_inv st" and "curthread st = Some cur" and "threads st cur = Some cth"
    and "threads st t = None" and "kmem_limit km"
  shows "\<exists>r st'. thread_fork (Some t) True okstack km name st = Some (r, st') \<and> thr_inv st' \<and>
    curspl st' = curspl st \<and> curthread st' = curthread st \<and> sleeping st' = sleeping st \<and> dead st' = dead st \<and>
    (if r = Inr t then ready st' = ready st @ [t] \<and> numthreads st' = numthreads st + 1 \<and>
       (\<exists>th. threads st' = (threads st)(t \<mapsto> th) \<and> t_parent_pid th = t_pid cth \<and> t_cwd th = t_cwd cth \<and>
         t_name th = name \<and> t_pcb th = PcbStart)
     else r = Inl ENOMEM \<and> ready st' = ready st \<and> numthreads st' = numthreads st \<and> threads st' = threads st)"
proof -
  obtain r st' where "thread_fork (Some t) True okstack km name st = Some (r, st')" "thr_inv st'"
      "fork_result t (fork_child name cth) st r st'"
    using thread_fork_cases [OF assms, of okstack name] by blast
  then show ?thesis
    by (intro exI [of _ r] exI [of _ st']) (auto simp: fork_result_def fork_child_def)
qed

theorem thread_fork_atomic_witness:
  "\<exists>r st'. thread_fork (Some 6) True True (\<lambda>_. None) ''f'' ex_state = Some (r, st') \<and> curspl st' = 15 \<and>
    (r = Inr 6 \<or> r = Inl ENOMEM \<and> numthreads st' = 5)"
  using thread_fork_atomic [OF ex_state_inv ex_state_fields(1,7,9) kmem_limit_never, of True "''f''"]
  by (auto simp: ex_state_fields split: if_splits)

text \<open>
  the life of a dying thread.  When another thread is ready, a thread that exits is put on
  the zombie list (unless that list is full and cannot grow), the next thread runs, and when it
  returns from \<open>mi_switch\<close> exactly the structures of the zombies, the dead thread's included,
  are gone from the thread table; every live thread keeps its structure.
\<close>

theorem thread_exit_reaped:
  assumes "thr_inv st" and "curthread st = Some cur" and "ready st = t # ts"
    and "thread_exit km k st = Some st1"
  shows "curthread st1 = Some t \<and> dead st1 = dead st @ [cur] \<and> numthreads st1 = numthreads st - 1 \<and>
    (\<exists>st2. mi_switch_return st1 = Some st2 \<and> thr_inv st2 \<and> dead st2 = [] \<and> threads st2 cur = None \<and>
      dom (threads st2) = dom (threads st1) - set (dead st1))"
proof -
  have ex: "thr_inv st1" "numthreads st1 = numthreads st - 1" "dead st1 = dead st @ [cur]"
      "curthread st1 = Some t" "curspl st1 > 0"
    using thread_exit_cases [OF assms(1,2), of km k] assms(3,4) by auto
  note spl = ex(5)
  have str: "thr_struct st1" using ex(1) by (simp add: thr_inv_def)
  obtain st2 where st2: "mi_switch_return st1 = Some st2"
    using mi_switch_return_defined [OF str ex(4) spl] by blast
  note ret = mi_switch_return_inv [OF ex(1) st2]
  obtain z where z: "exorcise st1 = Some (st1\<lparr>threads := (\<lambda>t. if t \<in> set (dead st1) then None else threads st1 t), zombies := z\<rparr>)"
    using exorcise_eq [OF str spl] by blast
  have "threads st2 = (\<lambda>t. if t \<in> set (dead st1) then None else threads st1 t)"
    using st2 z by (auto simp: mi_switch_return_def activate_cur_inv split: Option.bind_splits)
  with ret st2 ex show ?thesis by (auto simp: dom_def split: if_splits)
qed

theorem thread_exit_reaped_witness:
  "\<exists>st1 st2. thread_exit (\<lambda>_. None) 0 ex_state = Some st1 \<and>
    curthread st1 = Some 2 \<and> mi_switch_return st1 = Some st2 \<and> threads st2 1 = None"
proof -
  obtain st1 where "thread_exit (\<lambda>_. None) 0 ex_state = Some st1"
    using thread_exit_cases [OF ex_state_inv ex_state_fields(1), of "\<lambda>_. None" 0]
    by (auto simp: ex_state_fields ex_state_lists)
  then show ?thesis
    using thread_exit_reaped [OF ex_state_inv ex_state_fields(1) ex_state_lists(1)] by blast
qed

text \<open>
  A preallocation that does not last.  \<open>thread_fork\<close> makes room in \<open>zombies\<close> so that
  \<open>thread_exit\<close> cannot run out of memory, but once that array has grown past 16 slots
  \<open>exorcise\<close> gives its storage back: after it, a thread that exits when no memory is left
  panics in \<open>mi_switch\<close>, whatever had been preallocated.
\<close>

theorem exorcise_discards_room:
  assumes "thr_inv st" and "curthread st = Some cur" and "curspl st > 0" and "16 < a_max (zombies st)"
  shows "\<exists>st'. exorcise st = Some st' \<and> thr_inv st' \<and> thread_exit (\<lambda>_. None) k st' = None"
proof -
  have str: "thr_struct st" using assms(1) by (simp add: thr_inv_def)
  obtain st' where st': "exorcise st = Some st'" "a_max (zombies st') = 0" "curthread st' = Some cur"
    using exorcise_eq [OF str assms(3)] assms(2,4) by auto
  note ex = exorcise_struct [OF str st'(1)]
  have inv: "thr_inv st'" using assms(1) ex by (simp add: thr_inv_def)
  then obtain th where "threads st' cur = Some th"
    using st'(3) by (auto simp: thr_inv_def thr_struct_def live_def running_def)
  then obtain st1 where st1: "thread_exit (\<lambda>_. None) k st' = mi_switch (\<lambda>_. None) S_ZOMB k st1" "thr_struct st1"
      "curthread st1 = Some cur" "curspl st1 = 15" "zombies st1 = zombies st'"
    using thread_exit_eq [OF inv st'(3), of th "\<lambda>_. None" k] by blast
  have zi: "array_inv (zombies st1)" using st1(2) by (rule thr_structD)
  have "a_num (zombies st1) = a_max (zombies st1)"
    using array_num_eq [OF zi] ex(3) st1(5) st'(2) by simp
  then have "array_add (\<lambda>_. None) (zombies st1) cur = Some (Inl ENOMEM, zombies st1)"
    using array_add_fail [OF zi, of "\<lambda>_. None"] by simp
  then have "mi_switch (\<lambda>_. None) S_ZOMB k st1 = None"
    using mi_switch_out_stash [OF st1(2,3), of "\<lambda>_. None" S_ZOMB k] st1(4)
    by (simp add: mi_switch_def stash_def)
  with st'(1) inv st1(1) show ?thesis by simp
qed

theorem exorcise_discards_room_witness:
  "\<exists>st'. exorcise (ex_state\<lparr>zombies := \<lparr>a_num = 0, a_max = 30, a_v = Some (replicate 30 0)\<rparr>\<rparr>) = Some st' \<and>
    thread_exit (\<lambda>_. None) 0 st' = None"
proof -
  let ?st = "ex_state\<lparr>zombies := \<lparr>a_num = 0, a_max = 30, a_v = Some (replicate 30 0)\<rparr>\<rparr>"
  have l: "live ?st = live ex_state" "dead ?st = []" by (simp_all add: live_def running_def array_list_def)
  have "thr_inv ?st"
    using ex_state_inv l ex_state_lists(3)
    by (simp add: thr_inv_def thr_struct_def thr_lists_def array_inv_def)
  then show ?thesis
    using exorcise_discards_room [of ?st 1 0] by (auto simp: ex_state_fields)
qed

end
