(* ===== verification/Synch.thy ===== *)
theory Synch
  imports Thread_Ops
begin

text \<open>
  Semaphores, locks and condition variables of \<open>kern/thread/synch.c\<close>, the clock of
  \<open>kern/thread/hardclock.c\<close> and the interrupt path of \<open>kern/arch/mips/mips/interrupt.c\<close> and
  \<open>trap.c\<close>, on top of the thread system.

  Every operation runs until it returns or until its thread is switched away from.  In the
  second case the rest of the call is a value of type \<open>kont\<close>, stored in the thread, and
  \<open>resume\<close> is the code that runs when the thread is switched to again.  The relation \<open>kstep\<close>
  is the kernel as a whole: the running thread calls any operation, the thread that was just
  switched to goes on, a timer or device interrupt arrives (only while interrupts are enabled
  or the scheduler idles), or the idle scheduler takes a ready thread.  A pointer to an object
  that does not exist stands for \<open>NULL\<close> and for freed memory: using it is a panic.
\<close>

section \<open>The model\<close>

record sem =
  s_name :: string
  s_count :: int

record lock =
  l_name :: string
  l_thread_addr :: "tid option"

record cv =
  c_name :: string
  c_queue :: "tid queue"

text \<open>
  The rest of a call after a context switch: the end of \<open>thread_yield\<close>, of a timer interrupt
  (the level \<open>thread_yield\<close> restores, the saved \<open>in_interrupt\<close>, the saved level), of \<open>P\<close>, of
  \<open>lock_acquire\<close> (with the level that \<open>cv_wait\<close> restores after it, if it is the caller), of
  \<open>cv_wait\<close> and of \<open>clocksleep\<close>.  A thread that called \<open>thread_exit\<close> must not return.
\<close>

datatype kont =
    K_yield int
  | K_intr int int int
  | K_P nat int
  | K_lock nat int "int option"
  | K_cv nat int
  | K_clock int int
  | K_exit

record sstate = "kont kstate" +
  sems :: "nat \<Rightarrow> sem option"
  locks :: "nat \<Rightarrow> lock option"
  cvs :: "nat \<Rightarrow> cv option"
  lbolt_counter :: int

abbreviation HZ :: int where "HZ \<equiv> 100"

subsection \<open>Semaphores\<close>

text \<open>The first argument of a constructor function is the address the allocator returned.\<close>

definition sem_create :: "nat option \<Rightarrow> bool \<Rightarrow> string \<Rightarrow> int \<Rightarrow> sstate \<Rightarrow> (nat option \<times> sstate) option" where
  "sem_create mem okname namearg initial_count st = do {
     kassert (initial_count \<ge> 0);
     Some (case mem of
         None \<Rightarrow> (None, st)
       | Some s \<Rightarrow>
           if okname then (Some s, st\<lparr>sems := (sems st)(s \<mapsto> \<lparr>s_name = namearg, s_count = initial_count\<rparr>)\<rparr>)
           else (None, st)) }"

definition sem_destroy :: "nat \<Rightarrow> sstate \<Rightarrow> sstate option" where
  "sem_destroy s st = do {
     sems st s;
     let (spl, st1) = splhigh st;
     has \<leftarrow> thread_hassleepers (SemObj s) st1;
     kassert (\<not> has);
     let st2 = snd (splx spl st1);
     Some (st2\<lparr>sems := (sems st2)(s := None)\<rparr>) }"

text \<open>The loop of \<open>P\<close> and what follows it, entered with interrupts off.\<close>

definition P_loop :: "tid kmem \<Rightarrow> nat \<Rightarrow> int \<Rightarrow> sstate \<Rightarrow> sstate option" where
  "P_loop km s spl st = do {
     sem \<leftarrow> sems st s;
     if s_count sem = 0 then thread_sleep km (SemObj s) (K_P s spl) st
     else do {
       kassert (s_count sem > 0);
       Some (snd (splx spl (st\<lparr>sems := (sems st)(s \<mapsto> sem\<lparr>s_count := s_count sem - 1\<rparr>)\<rparr>))) } }"

definition P :: "tid kmem \<Rightarrow> nat \<Rightarrow> sstate \<Rightarrow> sstate option" where
  "P km s st = do {
     sems st s;
     kassert (in_interrupt st = 0);
     let (spl, st1) = splhigh st;
     P_loop km s spl st1 }"

definition V :: "tid kmem \<Rightarrow> nat \<Rightarrow> sstate \<Rightarrow> sstate option" where
  "V km s st = do {
     sem \<leftarrow> sems st s;
     let (spl, st1) = splhigh st;
     let count = c_int (s_count sem + 1);
     let st2 = st1\<lparr>sems := (sems st1)(s \<mapsto> sem\<lparr>s_count := count\<rparr>)\<rparr>;
     kassert (count > 0);
     st3 \<leftarrow> thread_wakeup km (SemObj s) st2;
     Some (snd (splx spl st3)) }"

subsection \<open>Locks\<close>

definition lock_create :: "nat option \<Rightarrow> bool \<Rightarrow> string \<Rightarrow> sstate \<Rightarrow> nat option \<times> sstate" where
  "lock_create mem okname name st = (case mem of
       None \<Rightarrow> (None, st)
     | Some l \<Rightarrow>
         if okname then (Some l, st\<lparr>locks := (locks st)(l \<mapsto> \<lparr>l_name = name, l_thread_addr = None\<rparr>)\<rparr>)
         else (None, st))"

definition lock_destroy :: "nat \<Rightarrow> sstate \<Rightarrow> sstate option" where
  "lock_destroy l st = do {
     locks st l;
     Some (st\<lparr>locks := (locks st)(l := None)\<rparr>) }"

definition lock_do_i_hold :: "nat \<Rightarrow> sstate \<Rightarrow> bool" where
  "lock_do_i_hold l st = (case locks st l of
       None \<Rightarrow> False
     | Some lk \<Rightarrow> l_thread_addr lk = curthread st)"

definition set_holder :: "nat \<Rightarrow> tid option \<Rightarrow> sstate \<Rightarrow> sstate" where
  "set_holder l t st = st\<lparr>locks := (locks st)(l := map_option (\<lambda>lk. lk\<lparr>l_thread_addr := t\<rparr>) (locks st l))\<rparr>"

definition lock_acquire_loop :: "tid kmem \<Rightarrow> nat \<Rightarrow> int \<Rightarrow> int option \<Rightarrow> sstate \<Rightarrow> sstate option" where
  "lock_acquire_loop km l spl outer st = do {
     lk \<leftarrow> locks st l;
     if l_thread_addr lk \<noteq> None \<and> \<not> lock_do_i_hold l st then thread_sleep km (LockObj l) (K_lock l spl outer) st
     else do {
       let st1 = snd (splx spl (set_holder l (curthread st) st));
       Some (case outer of None \<Rightarrow> st1 | Some s \<Rightarrow> snd (splx s st1)) } }"

definition lock_acquire_k :: "tid kmem \<Rightarrow> nat \<Rightarrow> int option \<Rightarrow> sstate \<Rightarrow> sstate option" where
  "lock_acquire_k km l outer st = do {
     locks st l;
     kassert (in_interrupt st = 0);
     let (spl, st1) = splhigh st;
     lock_acquire_loop km l spl outer st1 }"

definition lock_acquire :: "tid kmem \<Rightarrow> nat \<Rightarrow> sstate \<Rightarrow> sstate option" where
  "lock_acquire km l st = lock_acquire_k km l None st"

definition lock_release :: "tid kmem \<Rightarrow> nat \<Rightarrow> sstate \<Rightarrow> sstate option" where
  "lock_release km l st = do {
     locks st l;
     kassert (in_interrupt st = 0);
     let (spl, st1) = splhigh st;
     st2 \<leftarrow> (if lock_do_i_hold l st1 then thread_wakeup km (LockObj l) (set_holder l None st1) else Some st1);
     Some (snd (splx spl st2)) }"

subsection \<open>Condition variables\<close>

definition cv_create :: "nat option \<Rightarrow> bool \<Rightarrow> bool \<Rightarrow> tid kmem \<Rightarrow> string \<Rightarrow> sstate \<Rightarrow> (nat option \<times> sstate) option" where
  "cv_create mem okname okq km name st = (case mem of
       None \<Rightarrow> Some (None, st)
     | Some c \<Rightarrow>
         if okname then do {
           q \<leftarrow> q_create okq km 32;
           Some (Some c, st\<lparr>cvs := (cvs st)(c \<mapsto> \<lparr>c_name = name, c_queue = q\<rparr>)\<rparr>) }
         else Some (None, st))"

definition cv_destroy :: "nat \<Rightarrow> sstate \<Rightarrow> sstate option" where
  "cv_destroy c st = do {
     cv \<leftarrow> cvs st c;
     q_destroy (c_queue cv);
     Some (st\<lparr>cvs := (cvs st)(c := None)\<rparr>) }"

text \<open>\<open>cv_wait\<close> ignores the result of \<open>q_addtail\<close>.  Its \<open>lock_acquire\<close> is \<open>resume\<close>'s case \<open>K_cv\<close>.\<close>

definition cv_wait :: "tid kmem \<Rightarrow> nat \<Rightarrow> nat \<Rightarrow> sstate \<Rightarrow> sstate option" where
  "cv_wait km c l st = do {
     cv \<leftarrow> cvs st c;
     cur \<leftarrow> curthread st;
     (r, q) \<leftarrow> q_addtail km (c_queue cv) cur;
     let st1 = st\<lparr>cvs := (cvs st)(c \<mapsto> cv\<lparr>c_queue := q\<rparr>)\<rparr>;
     let (spl, st2) = splhigh st1;
     st3 \<leftarrow> lock_release km l st2;
     thread_sleep km (CvObj c) (K_cv l spl) st3 }"

text \<open>With an empty waiting line \<open>cv_signal\<close> returns before its \<open>splx\<close>.\<close>

definition cv_signal :: "tid kmem \<Rightarrow> nat \<Rightarrow> nat \<Rightarrow> sstate \<Rightarrow> sstate option" where
  "cv_signal km c l st = do {
     let (spl, st1) = splhigh st;
     locks st1 l;
     cv \<leftarrow> cvs st1 c;
     if q_empty (c_queue cv) then Some st1
     else do {
       (q, st2) \<leftarrow> thread_wakeup_head km (CvObj c) (c_queue cv) st1;
       Some (snd (splx spl (st2\<lparr>cvs := (cvs st2)(c \<mapsto> cv\<lparr>c_queue := q\<rparr>)\<rparr>))) } }"

definition cv_broadcast :: "tid kmem \<Rightarrow> nat \<Rightarrow> sstate \<Rightarrow> sstate option" where
  "cv_broadcast km c st = do {
     let (spl, st1) = splhigh st;
     st2 \<leftarrow> thread_wakeup km (CvObj c) st1;
     Some (snd (splx spl st2)) }"

subsection \<open>Clock and interrupts\<close>

text \<open>The continuation is what the interrupted code does after \<open>thread_yield\<close>.\<close>

definition hardclock :: "tid kmem \<Rightarrow> (int \<Rightarrow> kont) \<Rightarrow> sstate \<Rightarrow> sstate option" where
  "hardclock km k st = do {
     let st1 = st\<lparr>lbolt_counter := lbolt_counter st + 1\<rparr>;
     st2 \<leftarrow> (if lbolt_counter st1 \<ge> HZ then thread_wakeup km LboltObj (st1\<lparr>lbolt_counter := 0\<rparr>) else Some st1);
     thread_yield km k st2 }"

definition clocksleep_loop :: "tid kmem \<Rightarrow> int \<Rightarrow> int \<Rightarrow> sstate \<Rightarrow> sstate option" where
  "clocksleep_loop km num_secs s st =
     (if num_secs > 0 then thread_sleep km LboltObj (K_clock (num_secs - 1) s) st
      else Some (snd (splx s st)))"

definition clocksleep :: "tid kmem \<Rightarrow> int \<Rightarrow> sstate \<Rightarrow> sstate option" where
  "clocksleep km num_secs st = (let (s, st1) = splhigh st in clocksleep_loop km num_secs s st1)"

text \<open>
  The exception entry raises \<open>curspl\<close>, \<open>mips_interrupt\<close> sets \<open>in_interrupt\<close>, and both are restored
  on the way out: at once if no switch took place (the scheduler was idle), or when the
  interrupted thread runs again.
\<close>

definition intr_enter :: "sstate \<Rightarrow> sstate" where
  "intr_enter st = st\<lparr>curspl := SPL_HIGH, in_interrupt := 1\<rparr>"

definition intr_leave :: "int \<Rightarrow> int \<Rightarrow> sstate \<Rightarrow> sstate" where
  "intr_leave old_in savespl st = st\<lparr>in_interrupt := old_in, curspl := savespl\<rparr>"

definition timer_interrupt :: "tid kmem \<Rightarrow> sstate \<Rightarrow> sstate option" where
  "timer_interrupt km st = do {
     st1 \<leftarrow> hardclock km (\<lambda>spl. K_intr spl (in_interrupt st) (curspl st)) (intr_enter st);
     Some (if curthread st = None then intr_leave (in_interrupt st) (curspl st) st1 else st1) }"

definition device_interrupt :: "tid kmem \<Rightarrow> nat \<Rightarrow> sstate \<Rightarrow> sstate option" where
  "device_interrupt km s st = do {
     st1 \<leftarrow> V km s (intr_enter st);
     Some (intr_leave (in_interrupt st) (curspl st) st1) }"

subsection \<open>Going on after a context switch\<close>

definition resume :: "tid kmem \<Rightarrow> kont \<Rightarrow> sstate \<Rightarrow> sstate option" where
  "resume km k st = (case k of
       K_yield spl \<Rightarrow> Some (snd (splx spl st))
     | K_intr spl old_in savespl \<Rightarrow> Some (intr_leave old_in savespl (snd (splx spl st)))
     | K_P s spl \<Rightarrow> do { st1 \<leftarrow> thread_sleep_return st; P_loop km s spl st1 }
     | K_lock l spl outer \<Rightarrow> do { st1 \<leftarrow> thread_sleep_return st; lock_acquire_loop km l spl outer st1 }
     | K_cv l spl \<Rightarrow> do { st1 \<leftarrow> thread_sleep_return st; lock_acquire_k km l (Some spl) st1 }
     | K_clock n s \<Rightarrow> do { st1 \<leftarrow> thread_sleep_return st; clocksleep_loop km n s st1 }
     | K_exit \<Rightarrow> None)"

definition dispatch :: "tid kmem \<Rightarrow> kont pcb \<Rightarrow> sstate \<Rightarrow> sstate option" where
  "dispatch km p st = (case p of
       PcbStart \<Rightarrow> mi_threadstart st
     | PcbSwitch k \<Rightarrow> do { st1 \<leftarrow> mi_switch_return st; resume km k st1 })"

end
