(* ===== verification/Synch_Inv.thy ===== *)
theory Synch_Inv
  imports Synch
begin

text \<open>
  The invariant of the synchronization primitives.  \<open>waiters st a\<close> is the set of threads that
  sleep on the address \<open>a\<close>; the first section gives the effect of every operation of the thread
  system on it.  \<open>synch_inv\<close> says that nobody sleeps on a semaphore with a positive count nor
  on a lock that is free, and it is kept by every step of the kernel.
\<close>

section \<open>Sleeping threads under the operations of the thread system\<close>

definition waiters :: "('k, 'z) kstate_scheme \<Rightarrow> sleepaddr \<Rightarrow> tid set" where
  "waiters st a = {t \<in> set (sleeping st). sleeps_on st a t}"

lemma waiters_cong:
  assumes "sleeping st' = sleeping st" and "\<And>t. t \<in> set (sleeping st) \<Longrightarrow> threads st' t = threads st t"
  shows "waiters st' a = waiters st a"
  using assms by (auto simp: waiters_def sleeps_on_def)

lemma waiters_frame [simp]:
  "waiters (st\<lparr>curspl := n\<rparr>) a = waiters st a" "waiters (st\<lparr>in_interrupt := n\<rparr>) a = waiters st a"
  "waiters (st\<lparr>k_pending := p\<rparr>) a = waiters st a" "waiters (kcall_log e st) a = waiters st a"
  "waiters (st\<lparr>numthreads := m\<rparr>) a = waiters st a"
  by (simp_all add: waiters_def sleeps_on_def)

lemma cur_not_sleeping:
  assumes "thr_struct st" and "curthread st = Some cur"
  shows "cur \<notin> set (sleeping st)"
  using thr_structD(5) [OF assms(1)] assms(2) by (auto simp: live_def running_def)

lemma waiters_upd_cur:
  assumes "thr_struct st" and "curthread st = Some cur"
  shows "waiters (upd_thread cur f st) a = waiters st a"
  using cur_not_sleeping [OF assms] by (intro waiters_cong) auto

lemma waiters_wakeup:
  assumes "thr_struct st" and "kmem_limit km" and "thread_wakeup km b st = Some st'"
  shows "waiters st' a = (if a = b then {} else waiters st a)"
proof -
  have "curspl st > 0" using assms(3) by (auto simp: thread_wakeup_def split: if_splits)
  then have w: "woke st (filter (sleeps_on st b) (sleeping st)) (filter (\<lambda>t. \<not> sleeps_on st b t) (sleeping st)) st'"
    using thread_wakeup_cases [OF assms(1,2), of b] assms(3) by auto
  have "thr_lists st" using assms(1) by (simp add: thr_struct_def)
  note w' = woke_lists [OF w this] woke_sleeps_on [OF w]
  show ?thesis using w' by (auto simp: waiters_def sleeps_on_def split: option.splits)
qed

lemma waiters_woke: "woke st ts us st' \<Longrightarrow> thr_lists st \<Longrightarrow> set us \<subseteq> set (sleeping st) \<Longrightarrow> waiters st' a \<subseteq> waiters st a"
  by (frule (1) woke_lists(2)) (auto simp: waiters_def)

lemma waiters_switch_out:
  assumes "thr_struct st" and "curthread st = Some cur" and "kmem_limit km"
    and "mi_switch_out km s k st = Some st'" and "sleeps_on st b cur \<or> s \<noteq> S_SLEEP"
  shows "waiters st' a = (if s = S_SLEEP \<and> sleeps_on st a cur then insert cur (waiters st a) else waiters st a)"
proof -
  have c: "curspl st > 0" using assms(4) by (auto simp: mi_switch_out_def split: if_splits)
  have keep: "sleeps_on (stopped cur k st) a t = sleeps_on st a t" for t
    by (auto simp: sleeps_on_def split: option.splits)
  consider q where "s = S_READY" "st' = (stopped cur k st)\<lparr>runqueue := q\<rparr>"
    | sl where "s = S_SLEEP" "st' = (stopped cur k st)\<lparr>sleepers := sl\<rparr>" "array_list sl = sleeping st @ [cur]"
    | z where "s = S_ZOMB" "st' = (stopped cur k st)\<lparr>zombies := z\<rparr>"
    | "s = S_RUN"
    using mi_switch_out_ready [OF assms(1,2) c assms(3), of k] mi_switch_out_sleep [OF assms(1,2) c, of km k]
      mi_switch_out_zomb [OF assms(1,2) c, of km k] assms(4)
    by (cases s) auto
  then show ?thesis
  proof cases
    case 4
    then show ?thesis using assms(1,2,4) c by (simp add: mi_switch_out_stash stash_def)
  qed (use keep in \<open>auto simp: waiters_def sleeps_on_def\<close>)
qed

lemma waiters_schedule:
  assumes "thr_struct st" and "curthread st = None" and "schedule st = Some st'"
  shows "waiters st' a = waiters st a"
  using schedule_struct [OF assms] by (intro waiters_cong) simp_all

lemma waiters_yield:
  assumes "thr_inv st" and "kmem_limit km" and "thread_yield km k st = Some st'"
  shows "waiters st' a = waiters st a"
proof (cases "curthread st")
  case None
  then show ?thesis
    using assms(3) by (auto simp: thread_yield_def mi_switch_def mi_switch_out_def split: Option.bind_splits if_splits)
next
  case (Some cur)
  let ?st = "st\<lparr>curspl := 15\<rparr>"
  obtain st1 where st1: "mi_switch_out km S_READY (k (curspl st)) ?st = Some st1" "schedule st1 = Some st'"
    using assms(3) Some by (auto simp: thread_yield_def mi_switch_def split: Option.bind_splits)
  have s: "thr_struct ?st" "curthread ?st = Some cur" using assms(1) Some by (auto simp: thr_inv_def)
  note out = mi_switch_out_struct [OF s assms(2) st1(1)]
  show ?thesis
    using waiters_schedule [OF out(1,3) st1(2), of a] waiters_switch_out [OF s assms(2) st1(1), of _ a] by simp
qed

lemma waiters_sleep:
  assumes "thr_inv st" and "kmem_limit km" and "thread_sleep km b k st = Some st'" and "curthread st = Some cur"
  shows "waiters st' a = (if a = b then insert cur (waiters st a) else waiters st a)"
proof -
  let ?st = "upd_thread cur (\<lambda>th. th\<lparr>t_sleepaddr := Some b\<rparr>) st"
  have s: "thr_struct ?st" "curthread ?st = Some cur" "thr_struct st"
    using sleepaddr_inv [OF assms(1)] assms(1,4) by (auto simp: thr_inv_def)
  obtain st1 where st1: "mi_switch_out km S_SLEEP k ?st = Some st1" "schedule st1 = Some st'"
    using assms(3,4) by (auto simp: thread_sleep_def mi_switch_def split: Option.bind_splits if_splits)
  note out = mi_switch_out_struct [OF s(1,2) assms(2) st1(1)]
  have "cur \<in> dom (threads st)" using thr_structD(6) [OF s(3)] assms(4) by (auto simp: live_def running_def)
  then have on: "sleeps_on ?st a cur \<longleftrightarrow> a = b" for a by (auto simp: sleeps_on_def)
  then show ?thesis
    using waiters_schedule [OF out(1,3) st1(2), of a] waiters_switch_out [OF s(1,2) assms(2) st1(1), of b a]
      waiters_upd_cur [OF s(3) assms(4)] by simp
qed

lemma waiters_sleep_return:
  assumes "thr_inv st" and "thread_sleep_return st = Some st'"
  shows "waiters st' a = waiters st a"
  using assms waiters_upd_cur [of st] by (auto simp: thread_sleep_return_def thr_inv_def split: Option.bind_splits)

lemma waiters_exit:
  assumes "thr_inv st" and "curthread st = Some cur" and "thread_exit km k st = Some st'" and "kmem_limit km"
  shows "waiters st' a = waiters st a"
proof -
  have s: "sleepers st' = sleepers st" "thr_inv st'"
    using thread_exit_cases [OF assms(1,2), of km k] assms(3) by auto
  have "threads st' t = threads st t" if "t \<noteq> cur" for t
    using assms(2,3) that
    by (auto simp: thread_exit_def Let_def mi_switch_def mi_switch_out_def stash_def schedule_def
        split: Option.bind_splits if_splits option.splits)
  moreover have "cur \<notin> set (sleeping st)" using assms(1,2) cur_not_sleeping by (auto simp: thr_inv_def)
  ultimately have "threads st' t = threads st t" if "t \<in> set (sleeping st)" for t using that by metis
  then show ?thesis using s by (intro waiters_cong) simp_all
qed

lemma waiters_fork_result:
  assumes "fork_result t child st r st'" and "thr_inv st" and "threads st t = None"
  shows "waiters st' a = waiters st a"
proof -
  have "t \<notin> set (sleeping st)" using assms(2,3) by (auto simp: thr_inv_def thr_struct_def live_def)
  then show ?thesis using assms(1) by (intro waiters_cong) (auto simp: fork_result_def split: if_splits)
qed

lemma waiters_switch_return:
  assumes "thr_inv st" and "mi_switch_return st = Some st'"
  shows "waiters st' a = waiters st a"
proof -
  obtain st1 st2 where st: "exorcise st = Some st1" "activate_cur st1 = Some st2" "st' = st2\<lparr>k_pending := None\<rparr>"
    using assms(2) by (auto simp: mi_switch_return_def split: Option.bind_splits)
  have s: "thr_struct st" using assms(1) by (simp add: thr_inv_def)
  note ex = exorcise_struct [OF s st(1)] and ac = activate_cur_inv [OF st(2)]
  have "sleepers st1 = sleepers st"
    using st(1) exorcise_eq [OF s] by (auto simp: exorcise_def split: if_splits)
  then show ?thesis
    using ex(6) ac st(3) by (intro waiters_cong) (auto simp: live_def)
qed

section \<open>The primitives' own state\<close>

text \<open>The operations of the thread system leave the semaphores, locks and condition variables alone.\<close>

lemma more_eq:
  fixes st st' :: sstate
  assumes "kstate.more st' = kstate.more st"
  shows "sems st' = sems st" "locks st' = locks st" "cvs st' = cvs st" "lbolt_counter st' = lbolt_counter st"
  using assms by (cases st; cases st'; simp)+

lemma more_stash: "stash km s t st = Some (r, st') \<Longrightarrow> kstate.more st' = kstate.more st"
  by (auto simp: stash_def make_runnable_def split: if_splits Option.bind_splits)

lemma more_mi_switch:
  assumes "mi_switch km s k st = Some st'"
  shows "kstate.more st' = kstate.more st"
proof -
  have "kstate.more st1 = kstate.more st" if "mi_switch_out km s k st = Some st1" for st1
    using that more_stash
    by (fastforce simp: mi_switch_out_def Let_def upd_thread_def split: Option.bind_splits if_splits option.splits)
  then show ?thesis
    using assms by (auto simp: mi_switch_def schedule_def split: Option.bind_splits if_splits)
qed

lemma more_wakeup:
  assumes "thread_wakeup km a st = Some st'" and "thr_struct st" and "kmem_limit km"
  shows "kstate.more st' = kstate.more st" and "curthread st' = curthread st" and "k_pending st' = k_pending st"
    and "curspl st' = curspl st" and "in_interrupt st' = in_interrupt st" and "threads st' = threads st"
proof -
  have "curspl st > 0" using assms(1) by (auto simp: thread_wakeup_def split: if_splits)
  then obtain ts us where w: "woke st ts us st'"
    using thread_wakeup_cases [OF assms(2,3), of a] assms(1) by auto
  then show "kstate.more st' = kstate.more st" and "curthread st' = curthread st" and "k_pending st' = k_pending st"
    and "curspl st' = curspl st" and "in_interrupt st' = in_interrupt st" and "threads st' = threads st"
    by (auto simp: woke_def)
qed

lemma more_yield: "thread_yield km k st = Some st' \<Longrightarrow> kstate.more st' = kstate.more st"
  by (auto simp: thread_yield_def split: if_splits Option.bind_splits dest!: more_mi_switch)

lemma more_sleep: "thread_sleep km a k st = Some st' \<Longrightarrow> kstate.more st' = kstate.more st"
  by (auto simp: thread_sleep_def upd_thread_def split: if_splits Option.bind_splits dest!: more_mi_switch)

lemma more_sleep_return: "thread_sleep_return st = Some st' \<Longrightarrow> kstate.more st' = kstate.more st"
  by (auto simp: thread_sleep_return_def upd_thread_def split: Option.bind_splits)

lemma more_exit: "thread_exit km k st = Some st' \<Longrightarrow> kstate.more st' = kstate.more st"
  by (auto simp: thread_exit_def Let_def upd_thread_def kcall_log_def
      split: if_splits Option.bind_splits option.splits dest!: more_mi_switch)

lemma more_exorcise: "exorcise st = Some st' \<Longrightarrow> thr_struct st \<Longrightarrow> kstate.more st' = kstate.more st"
  using exorcise_eq [of st] by (auto simp: exorcise_def split: if_splits)

lemma more_activate: "activate_cur st = Some st' \<Longrightarrow> kstate.more st' = kstate.more st"
  by (auto simp: activate_cur_cases kcall_log_def split: option.splits)

section \<open>Invariant\<close>

text \<open>What has to hold of an object while a thread sleeps on it.\<close>

fun may_sleep_on :: "sstate \<Rightarrow> sleepaddr \<Rightarrow> bool" where
  "may_sleep_on st (SemObj s) \<longleftrightarrow> map_option s_count (sems st s) = Some 0"
| "may_sleep_on st (LockObj l) \<longleftrightarrow> (\<exists>t. map_option l_thread_addr (locks st l) = Some (Some t))"
| "may_sleep_on st _ \<longleftrightarrow> True"

definition objs_ok :: "sstate \<Rightarrow> bool" where
  "objs_ok st \<longleftrightarrow> (\<forall>s sem. sems st s = Some sem \<longrightarrow> 0 \<le> s_count sem) \<and>
     (\<forall>a. waiters st a \<noteq> {} \<longrightarrow> may_sleep_on st a) \<and>
     (\<forall>c cv. cvs st c = Some cv \<longrightarrow> q_inv (c_queue cv) \<and> q_usable (c_queue cv))"

definition in_kernel :: "sstate \<Rightarrow> bool" where
  "in_kernel st \<longleftrightarrow> curthread st \<noteq> None \<and> k_pending st = None"

text \<open>An idle processor has nothing pending, and a context switch happens with interrupts off.\<close>

definition cpu_ok :: "sstate \<Rightarrow> bool" where
  "cpu_ok st \<longleftrightarrow> (curthread st = None \<longrightarrow> k_pending st = None) \<and>
     (curthread st = None \<or> k_pending st \<noteq> None \<longrightarrow> curspl st > 0)"

definition synch_inv :: "sstate \<Rightarrow> bool" where
  "synch_inv st \<longleftrightarrow> thr_inv st \<and> objs_ok st \<and> cpu_ok st"

lemma in_kernel_cpu_ok: "in_kernel st \<Longrightarrow> cpu_ok st"
  by (auto simp: in_kernel_def cpu_ok_def)

lemma may_sleep_cong:
  "sems st' = sems st \<Longrightarrow> locks st' = locks st \<Longrightarrow> may_sleep_on st' a = may_sleep_on st a"
  by (cases a) simp_all

lemma may_sleep_frame [simp]:
  "may_sleep_on (st\<lparr>curspl := n\<rparr>) a = may_sleep_on st a" "may_sleep_on (st\<lparr>in_interrupt := n\<rparr>) a = may_sleep_on st a"
  "may_sleep_on (st\<lparr>k_pending := p\<rparr>) a = may_sleep_on st a"
  by (rule may_sleep_cong; simp)+

lemma synch_frame [simp]:
  "objs_ok (st\<lparr>curspl := n\<rparr>) = objs_ok st" "objs_ok (st\<lparr>in_interrupt := n\<rparr>) = objs_ok st"
  "objs_ok (st\<lparr>k_pending := p\<rparr>) = objs_ok st" "in_kernel (st\<lparr>curspl := n\<rparr>) = in_kernel st"
  "in_kernel (st\<lparr>in_interrupt := n\<rparr>) = in_kernel st"
  by (simp_all add: objs_ok_def in_kernel_def)

lemma objs_ok_mono:
  fixes st st' :: sstate
  assumes "objs_ok st" and "kstate.more st' = kstate.more st" and "\<And>a. waiters st' a \<subseteq> waiters st a"
  shows "objs_ok st'"
  using assms(1,3) unfolding objs_ok_def more_eq [OF assms(2)] may_sleep_cong [OF more_eq(1,2) [OF assms(2)]]
  by blast

lemma mi_switch_cpu:
  assumes "mi_switch km s k st = Some st'" and "in_kernel st"
  shows "cpu_ok st'"
proof -
  obtain st1 where st1: "mi_switch_out km s k st = Some st1" "schedule st1 = Some st'"
    using assms by (auto simp: mi_switch_def in_kernel_def split: Option.bind_splits)
  then have "curspl st > 0" by (auto simp: mi_switch_out_def split: if_splits)
  then have "curspl st1 > 0" "k_pending st1 = None"
    using st1(1) assms(2)
    by (auto simp: mi_switch_out_def stash_def make_runnable_def in_kernel_def Let_def
        split: Option.bind_splits if_splits option.splits)
  then show ?thesis
    using st1(2) by (auto simp: schedule_def cpu_ok_def split: Option.bind_splits if_splits)
qed

lemma thread_sleep_synch:
  assumes "thr_inv st" and "objs_ok st" and "in_kernel st" and "kmem_limit km"
    and "thread_sleep km a k st = Some st'" and "may_sleep_on st a"
  shows "synch_inv st'"
proof -
  obtain cur where cur: "curthread st = Some cur" using assms(3) by (auto simp: in_kernel_def)
  have w: "waiters st' b = (if b = a then insert cur (waiters st b) else waiters st b)" for b
    using waiters_sleep [OF assms(1,4,5) cur] .
  have m: "kstate.more st' = kstate.more st" using assms(5) by (rule more_sleep)
  have "objs_ok st'"
    using assms(2,6) unfolding objs_ok_def more_eq [OF m] may_sleep_cong [OF more_eq(1,2) [OF m]] by (auto simp: w)
  moreover have "cpu_ok st'"
    using assms(3,5) cur mi_switch_cpu
    by (fastforce simp: thread_sleep_def in_kernel_def split: Option.bind_splits if_splits)
  ultimately show ?thesis using thread_sleep_inv [OF assms(1,4,5)] by (simp add: synch_inv_def)
qed

text \<open>
  A wakeup after the object the threads sleep on has changed: the sleepers on other objects are
  not concerned, and afterwards nobody sleeps on the changed object.
\<close>

lemma thread_wakeup_synch:
  assumes "thr_inv st" and "kmem_limit km" and "thread_wakeup km a st = Some st'"
    and "\<And>b. b \<noteq> a \<Longrightarrow> waiters st b \<noteq> {} \<Longrightarrow> may_sleep_on st b"
    and "\<And>s sem. sems st s = Some sem \<Longrightarrow> 0 \<le> s_count sem"
    and "\<And>c cv. cvs st c = Some cv \<Longrightarrow> q_inv (c_queue cv) \<and> q_usable (c_queue cv)"
  shows "thr_inv st'" and "objs_ok st'" and "in_kernel st' = in_kernel st" and "curthread st' = curthread st"
    and "curspl st' = curspl st" and "in_interrupt st' = in_interrupt st" and "kstate.more st' = kstate.more st"
    and "cpu_ok st' = cpu_ok st"
proof -
  have str: "thr_struct st" using assms(1) by (simp add: thr_inv_def)
  note m = more_wakeup [OF assms(3) str assms(2)]
  have w: "waiters st' b = (if b = a then {} else waiters st b)" for b
    using waiters_wakeup [OF str assms(2,3)] .
  then show "objs_ok st'"
    using assms(4-6) unfolding objs_ok_def more_eq [OF m(1)] may_sleep_cong [OF more_eq(1,2) [OF m(1)]]
    by (auto split: if_splits)
  show "thr_inv st'" using assms(1-3) by (rule thread_wakeup_inv)
  show "in_kernel st' = in_kernel st" "curthread st' = curthread st" "curspl st' = curspl st"
    "in_interrupt st' = in_interrupt st" "kstate.more st' = kstate.more st" "cpu_ok st' = cpu_ok st"
    using m by (simp_all add: in_kernel_def cpu_ok_def)
qed

section \<open>Every operation keeps the invariant\<close>

lemma synch_invI: "thr_inv st \<Longrightarrow> objs_ok st \<Longrightarrow> in_kernel st \<Longrightarrow> synch_inv st"
  by (simp add: synch_inv_def in_kernel_cpu_ok)

lemma thr_inv_objs [simp]:
  "thr_inv (st\<lparr>sems := x\<rparr>) = thr_inv st" "thr_inv (st\<lparr>locks := y\<rparr>) = thr_inv st"
  "thr_inv (st\<lparr>cvs := z\<rparr>) = thr_inv st" "thr_inv (st\<lparr>lbolt_counter := n\<rparr>) = thr_inv st"
  by (simp_all add: thr_inv_def thr_struct_def thr_lists_def live_def running_def)

lemma waiters_objs [simp]:
  "waiters (st\<lparr>sems := x\<rparr>) a = waiters st a" "waiters (st\<lparr>locks := y\<rparr>) a = waiters st a"
  "waiters (st\<lparr>cvs := z\<rparr>) a = waiters st a" "waiters (st\<lparr>lbolt_counter := n\<rparr>) a = waiters st a"
  by (simp_all add: waiters_def sleeps_on_def)

lemma in_kernel_objs [simp]:
  "in_kernel (st\<lparr>sems := x\<rparr>) = in_kernel st" "in_kernel (st\<lparr>locks := y\<rparr>) = in_kernel st"
  "in_kernel (st\<lparr>cvs := z\<rparr>) = in_kernel st" "in_kernel (st\<lparr>lbolt_counter := n\<rparr>) = in_kernel st"
  by (simp_all add: in_kernel_def)

lemma objs_okD:
  assumes "objs_ok st"
  shows "sems st s = Some sem \<Longrightarrow> 0 \<le> s_count sem" and "waiters st a \<noteq> {} \<Longrightarrow> may_sleep_on st a"
    and "cvs st c = Some cv \<Longrightarrow> q_inv (c_queue cv) \<and> q_usable (c_queue cv)"
  using assms by (auto simp: objs_ok_def)

text \<open>Taking a unit from a semaphore that has one, and giving one with a wakeup to follow.\<close>

lemma objs_ok_sem_dec:
  assumes "objs_ok st" and "sems st s = Some sem" and "0 < s_count sem"
  shows "objs_ok (st\<lparr>sems := (sems st)(s \<mapsto> sem\<lparr>s_count := s_count sem - 1\<rparr>)\<rparr>)"
proof -
  have "waiters st (SemObj s) = {}" using objs_okD(2) [OF assms(1), of "SemObj s"] assms(2,3) by auto
  then have "may_sleep_on (st\<lparr>sems := (sems st)(s \<mapsto> sem\<lparr>s_count := s_count sem - 1\<rparr>)\<rparr>) a"
    if "waiters st a \<noteq> {}" for a using that objs_okD(2) [OF assms(1) that] by (cases a) auto
  then show ?thesis using assms by (auto simp: objs_ok_def)
qed

lemma P_loop_synch:
  assumes "thr_inv st" and "objs_ok st" and "in_kernel st" and "kmem_limit km" and "P_loop km s spl st = Some st'"
  shows "synch_inv st'"
proof -
  obtain sem where sem: "sems st s = Some sem" using assms(5) by (auto simp: P_loop_def split: Option.bind_splits)
  show ?thesis
  proof (cases "s_count sem = 0")
    case True
    then show ?thesis
      using thread_sleep_synch [OF assms(1-4)] assms(5) sem by (auto simp: P_loop_def)
  next
    case False
    then have "0 < s_count sem" using objs_okD(1) [OF assms(2) sem] by simp
    with objs_ok_sem_dec [OF assms(2) sem] assms sem False show ?thesis
      by (auto simp: P_loop_def intro!: synch_invI)
  qed
qed

lemma P_synch:
  assumes "thr_inv st" and "objs_ok st" and "in_kernel st" and "kmem_limit km" and "P km s st = Some st'"
  shows "synch_inv st'"
  using assms P_loop_synch [of "st\<lparr>curspl := 15\<rparr>" km s "curspl st"]
  by (auto simp: P_def split: Option.bind_splits if_splits)

lemma V_synch:
  assumes "thr_inv st" and "objs_ok st" and "kmem_limit km" and "V km s st = Some st'"
  shows "thr_inv st'" and "objs_ok st'" and "curthread st' = curthread st" and "k_pending st' = k_pending st"
    and "curspl st' = curspl st" and "in_interrupt st' = in_interrupt st" and "locks st' = locks st"
proof -
  obtain sem st3 where sem: "sems st s = Some sem" and pos: "0 < c_int (s_count sem + 1)"
    and wk: "thread_wakeup km (SemObj s)
      (st\<lparr>curspl := 15, sems := (sems st)(s \<mapsto> sem\<lparr>s_count := c_int (s_count sem + 1)\<rparr>)\<rparr>) = Some st3"
    and st': "st' = st3\<lparr>curspl := curspl st\<rparr>"
    using assms(4) by (auto simp: V_def Let_def split: Option.bind_splits if_splits)
  let ?st2 = "st\<lparr>curspl := 15, sems := (sems st)(s \<mapsto> sem\<lparr>s_count := c_int (s_count sem + 1)\<rparr>)\<rparr>"
  have inv: "thr_inv ?st2" using assms(1) by simp
  have may: "may_sleep_on ?st2 b" if "b \<noteq> SemObj s" "waiters ?st2 b \<noteq> {}" for b
    using objs_okD(2) [OF assms(2), of b] that by (cases b) auto
  have cnt: "0 \<le> s_count sem'" if "sems ?st2 s' = Some sem'" for s' sem'
    using objs_okD(1) [OF assms(2)] that pos by (auto split: if_splits)
  have cv: "q_inv (c_queue cv) \<and> q_usable (c_queue cv)" if "cvs ?st2 c = Some cv" for c cv
    using objs_okD(3) [OF assms(2)] that by simp
  note w = thread_wakeup_synch [OF inv assms(3) wk may cnt cv]
  have "thr_struct ?st2" using inv by (simp add: thr_inv_def)
  note m = more_wakeup [OF wk this assms(3)]
  show "thr_inv st'" "objs_ok st'" "curthread st' = curthread st" "k_pending st' = k_pending st"
    "curspl st' = curspl st" "in_interrupt st' = in_interrupt st" "locks st' = locks st"
    using w(1,2) m more_eq [OF m(1)] by (simp_all add: st')
qed

lemma set_holder_fields [simp]:
  "thr_inv (set_holder l t st) = thr_inv st" "waiters (set_holder l t st) a = waiters st a"
  "in_kernel (set_holder l t st) = in_kernel st" "sems (set_holder l t st) = sems st"
  "cvs (set_holder l t st) = cvs st" "curspl (set_holder l t st) = curspl st"
  "curthread (set_holder l t st) = curthread st" "in_interrupt (set_holder l t st) = in_interrupt st"
  by (simp_all add: set_holder_def)

lemma may_sleep_set_holder:
  "may_sleep_on st a \<Longrightarrow> a \<noteq> LockObj l \<or> t \<noteq> None \<Longrightarrow> may_sleep_on (set_holder l t st) a"
  by (cases a) (auto simp: set_holder_def)

lemma lock_acquire_loop_synch:
  assumes "thr_inv st" and "objs_ok st" and "in_kernel st" and "kmem_limit km"
    and "lock_acquire_loop km l spl outer st = Some st'"
  shows "synch_inv st'"
proof -
  obtain lk where lk: "locks st l = Some lk" using assms(5) by (auto simp: lock_acquire_loop_def split: Option.bind_splits)
  show ?thesis
  proof (cases "l_thread_addr lk \<noteq> None \<and> \<not> lock_do_i_hold l st")
    case True
    then have "may_sleep_on st (LockObj l)" using lk by auto
    with True show ?thesis
      using thread_sleep_synch [OF assms(1-4)] assms(5) lk by (auto simp: lock_acquire_loop_def)
  next
    case False
    let ?st = "set_holder l (curthread st) st"
    have "may_sleep_on ?st a" if "waiters st a \<noteq> {}" for a
      using objs_okD(2) [OF assms(2) that] assms(3) by (intro may_sleep_set_holder) (auto simp: in_kernel_def)
    then have "objs_ok ?st" using assms(2) by (auto simp: objs_ok_def)
    then show ?thesis
      using False assms lk by (auto simp: lock_acquire_loop_def Let_def split: option.splits intro!: synch_invI)
  qed
qed

lemma lock_acquire_k_synch:
  assumes "thr_inv st" and "objs_ok st" and "in_kernel st" and "kmem_limit km"
    and "lock_acquire_k km l outer st = Some st'"
  shows "synch_inv st'"
  using assms lock_acquire_loop_synch [of "st\<lparr>curspl := 15\<rparr>" km l "curspl st" outer]
  by (auto simp: lock_acquire_k_def split: Option.bind_splits if_splits)

lemma lock_release_synch:
  assumes "thr_inv st" and "objs_ok st" and "in_kernel st" and "kmem_limit km" and "lock_release km l st = Some st'"
  shows "thr_inv st'" and "objs_ok st'" and "in_kernel st'" and "curspl st' = curspl st"
    and "in_interrupt st' = in_interrupt st" and "sems st' = sems st" and "cvs st' = cvs st"
    and "curthread st' = curthread st"
proof -
  let ?st1 = "st\<lparr>curspl := 15\<rparr>"
  obtain st2 where st': "st' = st2\<lparr>curspl := curspl st\<rparr>"
    and c: "(if lock_do_i_hold l ?st1 then thread_wakeup km (LockObj l) (set_holder l None ?st1) else Some ?st1) = Some st2"
    using assms(5) by (auto simp: lock_release_def Let_def split: Option.bind_splits if_splits)
  have "thr_inv st' \<and> objs_ok st' \<and> in_kernel st' \<and> curspl st' = curspl st \<and>
    in_interrupt st' = in_interrupt st \<and> sems st' = sems st \<and> cvs st' = cvs st \<and> curthread st' = curthread st"
  proof (cases "lock_do_i_hold l ?st1")
    case False
    then show ?thesis using assms st' c by auto
  next
    case True
    let ?st = "set_holder l None ?st1"
    have wk: "thread_wakeup km (LockObj l) ?st = Some st2" using True c by simp
    have inv: "thr_inv ?st" using assms(1) by simp
    have may: "may_sleep_on ?st b" if "b \<noteq> LockObj l" "waiters ?st b \<noteq> {}" for b
      using objs_okD(2) [OF assms(2), of b] that by (intro may_sleep_set_holder) auto
    have cnt: "0 \<le> s_count sem'" if "sems ?st s' = Some sem'" for s' sem'
      using objs_okD(1) [OF assms(2)] that by simp
    have cv: "q_inv (c_queue cv) \<and> q_usable (c_queue cv)" if "cvs ?st c = Some cv" for c cv
      using objs_okD(3) [OF assms(2)] that by simp
    note w = thread_wakeup_synch [OF inv assms(4) wk may cnt cv]
    show ?thesis using w more_eq [OF w(7)] assms(3) st' by simp
  qed
  then show "thr_inv st'" and "objs_ok st'" and "in_kernel st'" and "curspl st' = curspl st"
    and "in_interrupt st' = in_interrupt st" and "sems st' = sems st" and "cvs st' = cvs st"
    and "curthread st' = curthread st"
    by auto
qed

lemma objs_ok_cv:
  assumes "objs_ok st" and "q_inv q" and "q_usable q"
  shows "objs_ok (st\<lparr>cvs := (cvs st)(c \<mapsto> cv\<lparr>c_queue := q\<rparr>)\<rparr>)"
proof -
  have "may_sleep_on (st\<lparr>cvs := (cvs st)(c \<mapsto> cv\<lparr>c_queue := q\<rparr>)\<rparr>) a = may_sleep_on st a" for a
    by (rule may_sleep_cong) simp_all
  then show ?thesis using assms by (auto simp: objs_ok_def)
qed

lemma cv_wait_synch:
  assumes "thr_inv st" and "objs_ok st" and "in_kernel st" and "kmem_limit km" and "cv_wait km c l st = Some st'"
  shows "synch_inv st'"
proof -
  obtain cv cur r q st3 where cv: "cvs st c = Some cv" "curthread st = Some cur"
      "q_addtail km (c_queue cv) cur = Some (r, q)"
    and rel: "lock_release km l (st\<lparr>cvs := (cvs st)(c \<mapsto> cv\<lparr>c_queue := q\<rparr>), curspl := 15\<rparr>) = Some st3"
    and sl: "thread_sleep km (CvObj c) (K_cv l (curspl st)) st3 = Some st'"
    using assms(5) by (auto simp: cv_wait_def Let_def split: Option.bind_splits)
  have "q_inv q \<and> q_usable q"
    using kq.addtail [of "c_queue cv" km cur] objs_okD(3) [OF assms(2) cv(1)] cv(3) assms(4) by auto
  then have "objs_ok (st\<lparr>cvs := (cvs st)(c \<mapsto> cv\<lparr>c_queue := q\<rparr>), curspl := 15\<rparr>)"
    using objs_ok_cv [OF assms(2)] by simp
  then have "thr_inv st3" "objs_ok st3" "in_kernel st3"
    using lock_release_synch [OF _ _ _ assms(4) rel] assms(1,3) by simp_all
  then show ?thesis using thread_sleep_synch [OF _ _ _ assms(4) sl] by simp
qed

lemma cv_signal_synch:
  assumes "thr_inv st" and "objs_ok st" and "in_kernel st" and "kmem_limit km" and "cv_signal km c l st = Some st'"
  shows "synch_inv st'"
proof -
  let ?st = "st\<lparr>curspl := 15\<rparr>"
  obtain cv where cv: "cvs st c = Some cv"
    using assms(5) by (auto simp: cv_signal_def Let_def split: Option.bind_splits)
  have q: "q_inv (c_queue cv)" "q_usable (c_queue cv)" using objs_okD(3) [OF assms(2) cv] by auto
  show ?thesis
  proof (cases "q_list (c_queue cv)")
    case Nil
    then have "q_empty (c_queue cv)" using kq.empty [OF q(1)] by simp
    then have "st' = ?st" using assms(5) cv by (auto simp: cv_signal_def Let_def split: Option.bind_splits)
    then show ?thesis using assms(1-3) by (intro synch_invI) simp_all
  next
    case (Cons h hs)
    then have ne: "\<not> q_empty (c_queue cv)" using kq.empty [OF q(1)] by simp
    have str: "thr_struct ?st" using assms(1) by (simp add: thr_inv_def)
    obtain q' st2 where w: "thread_wakeup_head km (CvObj c) (c_queue cv) ?st = Some (q', st2)" "q_inv q'"
        "q_usable q' = q_usable (c_queue cv)"
        "if sleeps_on ?st (CvObj c) h \<and> h \<in> set (sleeping ?st) then woke ?st [h] (remove1 h (sleeping ?st)) st2
         else st2 = ?st"
      using thread_wakeup_head_cases [OF str assms(4) _ q(1) Cons, of "CvObj c"] assms(3)
      by (auto simp: in_kernel_def)
    have st': "st' = st2\<lparr>cvs := (cvs st2)(c \<mapsto> cv\<lparr>c_queue := q'\<rparr>), curspl := curspl st\<rparr>"
      using assms(5) cv ne w(1) by (auto simp: cv_signal_def Let_def split: Option.bind_splits)
    have "thr_inv st2 \<and> objs_ok st2 \<and> in_kernel st2"
    proof (cases "sleeps_on ?st (CvObj c) h \<and> h \<in> set (sleeping ?st)")
      case False
      then show ?thesis using w(4) assms(1-3) by auto
    next
      case True
      then have wk: "woke ?st [h] (remove1 h (sleeping ?st)) st2" using w(4) by simp
      note ws = woke_struct [OF str wk remove1_mset] and wl = waiters_woke [OF wk]
      have f: "kstate.more st2 = kstate.more ?st" "curthread st2 = curthread st" "k_pending st2 = k_pending st"
        "numthreads st2 = numthreads st" using wk by (auto simp: woke_def)
      have sub: "waiters st2 a \<subseteq> waiters ?st a" for a
        using waiters_woke [OF wk, of a] str set_remove1_subset [of h "sleeping ?st"] by (simp add: thr_struct_def)
      have "objs_ok st2"
        using objs_ok_mono [OF _ f(1) sub] assms(2) by simp
      then show ?thesis using ws f assms(1,3) True by (simp add: thr_inv_def in_kernel_def)
    qed
    then show ?thesis
      using objs_ok_cv [of st2 q' c cv] w(2,3) q(2) st' by (intro synch_invI) auto
  qed
qed

lemma wakeup_other_synch:
  assumes "thr_inv st" and "objs_ok st" and "kmem_limit km" and "thread_wakeup km a st = Some st'"
  shows "thr_inv st'" and "objs_ok st'" and "in_kernel st' = in_kernel st" and "curthread st' = curthread st"
    and "curspl st' = curspl st" and "in_interrupt st' = in_interrupt st" and "kstate.more st' = kstate.more st"
    and "cpu_ok st' = cpu_ok st"
  using thread_wakeup_synch [OF assms(1,3,4) objs_okD(2) [OF assms(2)] objs_okD(1) [OF assms(2)] objs_okD(3) [OF assms(2)]]
  by auto

lemma cv_broadcast_synch:
  assumes "thr_inv st" and "objs_ok st" and "in_kernel st" and "kmem_limit km" and "cv_broadcast km c st = Some st'"
  shows "synch_inv st'"
  using assms wakeup_other_synch [of "st\<lparr>curspl := 15\<rparr>" km "CvObj c"]
  by (auto simp: cv_broadcast_def split: Option.bind_splits intro!: synch_invI)

lemma thread_yield_synch:
  assumes "thr_inv st" and "objs_ok st" and "in_kernel st" and "kmem_limit km" and "thread_yield km k st = Some st'"
  shows "synch_inv st'"
proof -
  have "objs_ok st'"
    using objs_ok_mono [OF assms(2) more_yield [OF assms(5)]] waiters_yield [OF assms(1,4,5)] by simp
  moreover have "cpu_ok st'"
    using assms(3,5) mi_switch_cpu [of km S_READY "k (curspl st)" "st\<lparr>curspl := 15\<rparr>" st']
    by (auto simp: thread_yield_def in_kernel_def)
  ultimately show ?thesis using thread_yield_inv(1) [OF assms(1,4,5)] by (simp add: synch_inv_def)
qed

text \<open>While the scheduler idles, \<open>thread_yield\<close> does nothing.\<close>

lemma thread_yield_idle:
  assumes "curthread st = None" and "thread_yield km k st = Some st'"
  shows "st' = st"
  using assms by (simp add: thread_yield_def mi_switch_def mi_switch_out_def split: if_splits)

lemma thread_exit_synch:
  assumes "thr_inv st" and "objs_ok st" and "in_kernel st" and "kmem_limit km" and "thread_exit km k st = Some st'"
  shows "synch_inv st'"
proof -
  obtain cur where cur: "curthread st = Some cur" using assms(3) by (auto simp: in_kernel_def)
  have inv: "thr_inv st'" using thread_exit_cases [OF assms(1) cur, of km k] assms(5) by auto
  have "objs_ok st'"
    using objs_ok_mono [OF assms(2) more_exit [OF assms(5)]] waiters_exit [OF assms(1) cur assms(5,4)] by simp
  moreover have "cpu_ok st'"
  proof -
    obtain th where "threads st cur = Some th"
      using assms(1) cur by (auto simp: thr_inv_def thr_struct_def live_def running_def)
    then have "\<exists>st1. mi_switch km S_ZOMB k st1 = Some st' \<and> in_kernel st1"
      using assms(3,5) cur
      by (fastforce simp: thread_exit_def Let_def in_kernel_def split: if_splits option.splits)
    then show ?thesis using mi_switch_cpu by blast
  qed
  ultimately show ?thesis using inv by (simp add: synch_inv_def)
qed

lemma clocksleep_loop_synch:
  assumes "thr_inv st" and "objs_ok st" and "in_kernel st" and "kmem_limit km"
    and "clocksleep_loop km n s st = Some st'"
  shows "synch_inv st'"
  using assms thread_sleep_synch [OF assms(1-4)]
  by (auto simp: clocksleep_loop_def split: if_splits intro!: synch_invI)

lemma clocksleep_synch:
  assumes "thr_inv st" and "objs_ok st" and "in_kernel st" and "kmem_limit km" and "clocksleep km n st = Some st'"
  shows "synch_inv st'"
  using assms clocksleep_loop_synch [of "st\<lparr>curspl := 15\<rparr>" km n "curspl st"] by (auto simp: clocksleep_def)

lemma lbolt_frame [simp]:
  "objs_ok (st\<lparr>lbolt_counter := n\<rparr>) = objs_ok st"
proof -
  have "may_sleep_on (st\<lparr>lbolt_counter := n\<rparr>) a = may_sleep_on st a" for a by (rule may_sleep_cong) simp_all
  then show ?thesis by (simp add: objs_ok_def)
qed

text \<open>Up to its \<open>thread_yield\<close>, \<open>hardclock\<close> is at most a wakeup.\<close>

lemma hardclock_wake:
  assumes "thr_inv st" and "objs_ok st" and "kmem_limit km" and "hardclock km k st = Some st'"
  shows "\<exists>st1. thr_inv st1 \<and> objs_ok st1 \<and> in_kernel st1 = in_kernel st \<and> curthread st1 = curthread st \<and>
    curspl st1 = curspl st \<and> k_pending st1 = k_pending st \<and> sems st1 = sems st \<and> locks st1 = locks st \<and>
    cvs st1 = cvs st \<and> thread_yield km k st1 = Some st'"
proof (cases "lbolt_counter st + 1 \<ge> HZ")
  case False
  then show ?thesis
    using assms by (intro exI [of _ "st\<lparr>lbolt_counter := lbolt_counter st + 1\<rparr>"]) (auto simp: hardclock_def)
next
  case True
  let ?st = "st\<lparr>lbolt_counter := 0\<rparr>"
  obtain st1 where st1: "thread_wakeup km LboltObj ?st = Some st1" "thread_yield km k st1 = Some st'"
    using assms(4) True by (auto simp: hardclock_def split: Option.bind_splits)
  have s: "thr_inv ?st" "objs_ok ?st" using assms by simp_all
  note w = wakeup_other_synch [OF s assms(3) st1(1)]
  have "k_pending st1 = k_pending st"
    using more_wakeup(3) [OF st1(1) _ assms(3)] s(1) by (simp add: thr_inv_def)
  then show ?thesis using w more_eq [OF w(7)] st1(2) by auto
qed

definition interruptible :: "sstate \<Rightarrow> bool" where
  "interruptible st \<longleftrightarrow> curthread st = None \<or> (curspl st = 0 \<and> k_pending st = None)"

lemma intr_enter_synch [simp]:
  "thr_inv (intr_enter st) = thr_inv st" "objs_ok (intr_enter st) = objs_ok st"
  "in_kernel (intr_enter st) = in_kernel st" "curthread (intr_enter st) = curthread st"
  "k_pending (intr_enter st) = k_pending st" "sems (intr_enter st) = sems st" "locks (intr_enter st) = locks st"
  by (simp_all add: intr_enter_def in_kernel_def)

lemma intr_leave_synch [simp]:
  "thr_inv (intr_leave i n st) = thr_inv st" "objs_ok (intr_leave i n st) = objs_ok st"
  "in_kernel (intr_leave i n st) = in_kernel st" "curthread (intr_leave i n st) = curthread st"
  "k_pending (intr_leave i n st) = k_pending st" "curspl (intr_leave i n st) = n"
  "locks (intr_leave i n st) = locks st" "sems (intr_leave i n st) = sems st"
  by (simp_all add: intr_leave_def in_kernel_def)

lemma timer_interrupt_synch:
  assumes "synch_inv st" and "interruptible st" and "kmem_limit km" and "timer_interrupt km st = Some st'"
  shows "synch_inv st'"
proof -
  have s: "thr_inv (intr_enter st)" "objs_ok (intr_enter st)" "cpu_ok st" using assms(1) by (simp_all add: synch_inv_def)
  obtain k st1 where hc: "hardclock km k (intr_enter st) = Some st1"
    and st': "st' = (if curthread st = None then intr_leave (in_interrupt st) (curspl st) st1 else st1)"
    using assms(4) by (auto simp: timer_interrupt_def split: Option.bind_splits)
  obtain st0 where st0: "thr_inv st0" "objs_ok st0" "in_kernel st0 = in_kernel st" "curthread st0 = curthread st"
      "k_pending st0 = k_pending st" "thread_yield km k st0 = Some st1"
    using hardclock_wake [OF s(1,2) assms(3) hc] by auto
  show ?thesis
  proof (cases "curthread st")
    case None
    then have "st1 = st0" using thread_yield_idle st0 by simp
    then show ?thesis using st' st0 None s(3) by (simp add: synch_inv_def cpu_ok_def)
  next
    case (Some t)
    then have "in_kernel st" using assms(2) by (auto simp: interruptible_def in_kernel_def)
    then show ?thesis using thread_yield_synch [OF st0(1,2) _ assms(3) st0(6)] st0(3) st' Some by simp
  qed
qed

lemma device_interrupt_synch:
  assumes "synch_inv st" and "kmem_limit km" and "device_interrupt km s st = Some st'"
  shows "synch_inv st'"
proof -
  obtain st1 where v: "V km s (intr_enter st) = Some st1" "st' = intr_leave (in_interrupt st) (curspl st) st1"
    using assms(3) by (auto simp: device_interrupt_def split: Option.bind_splits)
  have "thr_inv (intr_enter st)" "objs_ok (intr_enter st)" "cpu_ok st" using assms(1) by (simp_all add: synch_inv_def)
  then show ?thesis
    using V_synch [OF _ _ assms(2) v(1)] v(2) by (simp add: synch_inv_def cpu_ok_def)
qed

lemma sleep_return_synch:
  assumes "thr_inv st" and "objs_ok st" and "in_kernel st" and "thread_sleep_return st = Some st'"
  shows "thr_inv st'" and "objs_ok st'" and "in_kernel st'" and "kstate.more st' = kstate.more st"
    and "curthread st' = curthread st"
proof -
  show "thr_inv st'" using assms(1,4) by (rule thread_sleep_return_inv)
  show m: "kstate.more st' = kstate.more st" using assms(4) by (rule more_sleep_return)
  show "objs_ok st'" using objs_ok_mono [OF assms(2) m] waiters_sleep_return [OF assms(1,4)] by simp
  show "in_kernel st'" "curthread st' = curthread st"
    using assms(3,4) by (auto simp: thread_sleep_return_def in_kernel_def split: Option.bind_splits)
qed

lemma resume_synch:
  assumes "thr_inv st" and "objs_ok st" and "in_kernel st" and "kmem_limit km" and "resume km k st = Some st'"
  shows "synch_inv st'"
proof (cases "thread_sleep_return st")
  case None
  then show ?thesis using assms by (cases k) (auto simp: resume_def intro!: synch_invI)
next
  case (Some st1)
  note r = sleep_return_synch(1-3) [OF assms(1-3) Some]
  show ?thesis
    using assms(5) Some P_loop_synch [OF r assms(4)] lock_acquire_loop_synch [OF r assms(4)]
      lock_acquire_k_synch [OF r assms(4)] clocksleep_loop_synch [OF r assms(4)] assms(1-3)
    by (cases k) (auto simp: resume_def intro: synch_invI)
qed

lemma switch_return_synch:
  assumes "thr_inv st" and "objs_ok st" and "curthread st \<noteq> None" and "mi_switch_return st = Some st'"
  shows "thr_inv st'" and "objs_ok st'" and "in_kernel st'" and "kstate.more st' = kstate.more st"
    and "curthread st' = curthread st"
proof -
  obtain st1 st2 where st: "exorcise st = Some st1" "activate_cur st1 = Some st2" "st' = st2\<lparr>k_pending := None\<rparr>"
    using assms(4) by (auto simp: mi_switch_return_def split: Option.bind_splits)
  have s: "thr_struct st" using assms(1) by (simp add: thr_inv_def)
  show "thr_inv st'" using assms(1,4) by (rule mi_switch_return_inv)
  show m: "kstate.more st' = kstate.more st"
    using more_exorcise [OF st(1) s] more_activate [OF st(2)] st(3) by simp
  show "objs_ok st'" using objs_ok_mono [OF assms(2) m] waiters_switch_return [OF assms(1,4)] by simp
  show c: "curthread st' = curthread st"
    using exorcise_struct(5) [OF s st(1)] activate_cur_inv(6) [OF st(2)] st(3) by simp
  show "in_kernel st'" using c assms(3) st(3) by (simp add: in_kernel_def)
qed

lemma threadstart_synch:
  assumes "thr_inv st" and "objs_ok st" and "mi_threadstart st = Some st'"
  shows "thr_inv st'" and "objs_ok st'" and "in_kernel st'" and "kstate.more st' = kstate.more st"
    and "curthread st' = curthread st"
proof -
  obtain st1 where st1: "activate_cur st = Some st1" "st' = st1\<lparr>curspl := 0, k_pending := None\<rparr>"
    using assms(3) by (auto simp: mi_threadstart_def split: Option.bind_splits)
  note a = activate_cur_inv [OF st1(1)]
  show "thr_inv st'" using assms(1,3) by (rule mi_threadstart_inv)
  show m: "kstate.more st' = kstate.more st" using more_activate [OF st1(1)] st1(2) by simp
  have "waiters st' b = waiters st b" for b using a st1(2) by (intro waiters_cong) simp_all
  then show "objs_ok st'" using objs_ok_mono [OF assms(2) m] by simp
  show "curthread st' = curthread st" using a st1(2) by simp
  show "in_kernel st'" using st1 by (auto simp: in_kernel_def activate_cur_cases split: option.splits)
qed

lemma dispatch_synch:
  assumes "synch_inv st" and "k_pending st = Some p" and "kmem_limit km" and "dispatch km p st = Some st'"
  shows "synch_inv st'"
proof -
  have s: "thr_inv st" "objs_ok st" "curthread st \<noteq> None"
    using assms(1,2) by (auto simp: synch_inv_def cpu_ok_def)
  show ?thesis
  proof (cases p)
    case PcbStart
    then show ?thesis using threadstart_synch [OF s(1,2)] assms(4) by (auto simp: dispatch_def intro: synch_invI)
  next
    case (PcbSwitch k)
    then obtain st1 where st1: "mi_switch_return st = Some st1" "resume km k st1 = Some st'"
      using assms(4) by (auto simp: dispatch_def split: Option.bind_splits)
    show ?thesis using resume_synch [OF switch_return_synch(1-3) [OF s st1(1)] assms(3) st1(2)] .
  qed
qed

end
