(* ===== verification/Kernel_Steps.thy ===== *)
theory Kernel_Steps
  imports Synch_Inv
begin

text \<open>
  The kernel as a transition system.  The running thread calls an arbitrary operation of the
  thread system or of \<open>synch.c\<close>; a thread that was just switched to goes on with what it was
  doing; the idle scheduler takes a ready thread; interrupts arrive when they are enabled.  The
  clients are arbitrary but for two obligations of \<open>synch.h\<close> and of the allocator: a lock is not
  destroyed while a thread holds it, and new objects have addresses that are not in use.
\<close>

section \<open>Steps\<close>

datatype kop =
    Op_P nat | Op_V nat
  | Op_acquire nat | Op_release nat
  | Op_wait nat nat | Op_signal nat nat | Op_broadcast nat
  | Op_yield | Op_exit | Op_clocksleep int
  | Op_fork tid bool string
  | Op_sem_create nat string int | Op_sem_destroy nat
  | Op_lock_create nat string | Op_lock_destroy nat
  | Op_cv_create nat string | Op_cv_destroy nat

definition run_op :: "tid kmem \<Rightarrow> kop \<Rightarrow> sstate \<Rightarrow> sstate option" where
  "run_op km op st = (case op of
       Op_P s \<Rightarrow> P km s st
     | Op_V s \<Rightarrow> V km s st
     | Op_acquire l \<Rightarrow> lock_acquire km l st
     | Op_release l \<Rightarrow> lock_release km l st
     | Op_wait c l \<Rightarrow> cv_wait km c l st
     | Op_signal c l \<Rightarrow> cv_signal km c l st
     | Op_broadcast c \<Rightarrow> cv_broadcast km c st
     | Op_yield \<Rightarrow> thread_yield km K_yield st
     | Op_exit \<Rightarrow> thread_exit km K_exit st
     | Op_clocksleep n \<Rightarrow> clocksleep km n st
     | Op_fork t okstack name \<Rightarrow> map_option snd (thread_fork (Some t) True okstack km name st)
     | Op_sem_create s name n \<Rightarrow> map_option snd (sem_create (Some s) True name n st)
     | Op_sem_destroy s \<Rightarrow> sem_destroy s st
     | Op_lock_create l name \<Rightarrow> Some (snd (lock_create (Some l) True name st))
     | Op_lock_destroy l \<Rightarrow> lock_destroy l st
     | Op_cv_create c name \<Rightarrow> map_option snd (cv_create (Some c) True True km name st)
     | Op_cv_destroy c \<Rightarrow> cv_destroy c st)"

text \<open>What the client and the allocator owe before the call.\<close>

definition op_allowed :: "kop \<Rightarrow> sstate \<Rightarrow> bool" where
  "op_allowed op st \<longleftrightarrow> (case op of
       Op_fork t _ _ \<Rightarrow> threads st t = None
     | Op_sem_create s _ _ \<Rightarrow> sems st s = None
     | Op_lock_create l _ \<Rightarrow> locks st l = None
     | Op_cv_create c _ \<Rightarrow> cvs st c = None
     | Op_lock_destroy l \<Rightarrow> (case locks st l of None \<Rightarrow> True | Some lk \<Rightarrow> l_thread_addr lk = None)
     | _ \<Rightarrow> True)"

inductive kstep :: "sstate \<Rightarrow> sstate \<Rightarrow> bool" where
  call: "kstep st st'" if "in_kernel st" "op_allowed op st" "kmem_limit km" "run_op km op st = Some st'"
| go_on: "kstep st st'" if "k_pending st = Some p" "kmem_limit km" "dispatch km p st = Some st'"
| timer: "kstep st st'" if "interruptible st" "kmem_limit km" "timer_interrupt km st = Some st'"
| device: "kstep st st'" if "interruptible st" "kmem_limit km" "device_interrupt km s st = Some st'"
| idle: "kstep st st'" if "curthread st = None" "schedule st = Some st'"

inductive_cases kstepE: "kstep st st'"

definition boot_sstate :: "tid queue \<Rightarrow> sstate" where
  "boot_sstate rq = kstate.extend (boot_state rq)
     \<lparr>sems = \<lambda>_. None, locks = \<lambda>_. None, cvs = \<lambda>_. None, lbolt_counter = 0\<rparr>"

inductive booted :: "sstate \<Rightarrow> bool" where
  "booted st" if "scheduler_bootstrap True km (boot_sstate rq) = Some st0"
    "thread_bootstrap True True (Some t) True st0 = Some st"

inductive reachable :: "sstate \<Rightarrow> bool" where
  boot: "reachable st" if "booted st"
| step: "reachable st'" if "reachable st" "kstep st st'"

section \<open>The invariant holds in every reachable state\<close>

lemma objs_ok_create:
  assumes "objs_ok st"
  shows "sems st s = None \<Longrightarrow> 0 \<le> n \<Longrightarrow>
      objs_ok (st\<lparr>sems := (sems st)(s \<mapsto> \<lparr>s_name = name, s_count = n\<rparr>)\<rparr>)"
    and "locks st l = None \<Longrightarrow>
      objs_ok (st\<lparr>locks := (locks st)(l \<mapsto> \<lparr>l_name = name, l_thread_addr = None\<rparr>)\<rparr>)"
    and "q_inv q \<Longrightarrow> q_usable q \<Longrightarrow> objs_ok (st\<lparr>cvs := (cvs st)(c \<mapsto> \<lparr>c_name = name, c_queue = q\<rparr>)\<rparr>)"
    and "objs_ok (st\<lparr>cvs := (cvs st)(c := None)\<rparr>)"
proof -
  note may = objs_okD(2) [OF assms]
  show "objs_ok (st\<lparr>sems := (sems st)(s \<mapsto> \<lparr>s_name = name, s_count = n\<rparr>)\<rparr>)" if "sems st s = None" "0 \<le> n"
  proof -
    have "may_sleep_on (st\<lparr>sems := (sems st)(s \<mapsto> \<lparr>s_name = name, s_count = n\<rparr>)\<rparr>) a" if "waiters st a \<noteq> {}" for a
      using may [OF that] \<open>sems st s = None\<close> by (cases a) auto
    then show ?thesis using assms that by (auto simp: objs_ok_def)
  qed
  show "objs_ok (st\<lparr>locks := (locks st)(l \<mapsto> \<lparr>l_name = name, l_thread_addr = None\<rparr>)\<rparr>)" if "locks st l = None"
  proof -
    have "may_sleep_on (st\<lparr>locks := (locks st)(l \<mapsto> \<lparr>l_name = name, l_thread_addr = None\<rparr>)\<rparr>) a"
      if "waiters st a \<noteq> {}" for a using may [OF that] \<open>locks st l = None\<close> by (cases a) auto
    then show ?thesis using assms by (auto simp: objs_ok_def)
  qed
  have "may_sleep_on (st\<lparr>cvs := z\<rparr>) a = may_sleep_on st a" for a z by (rule may_sleep_cong) simp_all
  then show "q_inv q \<Longrightarrow> q_usable q \<Longrightarrow> objs_ok (st\<lparr>cvs := (cvs st)(c \<mapsto> \<lparr>c_name = name, c_queue = q\<rparr>)\<rparr>)"
    "objs_ok (st\<lparr>cvs := (cvs st)(c := None)\<rparr>)"
    using assms by (auto simp: objs_ok_def split: if_splits)
qed

lemma objs_ok_destroy:
  assumes "objs_ok st"
  shows "waiters st (SemObj s) = {} \<Longrightarrow> objs_ok (st\<lparr>sems := (sems st)(s := None)\<rparr>)"
    and "waiters st (LockObj l) = {} \<Longrightarrow> objs_ok (st\<lparr>locks := (locks st)(l := None)\<rparr>)"
proof -
  note may = objs_okD(2) [OF assms]
  show "objs_ok (st\<lparr>sems := (sems st)(s := None)\<rparr>)" if "waiters st (SemObj s) = {}"
  proof -
    have "may_sleep_on (st\<lparr>sems := (sems st)(s := None)\<rparr>) a" if "waiters st a \<noteq> {}" for a
      using may [OF that] \<open>waiters st (SemObj s) = {}\<close> that by (cases a) auto
    then show ?thesis using assms by (auto simp: objs_ok_def split: if_splits)
  qed
  show "objs_ok (st\<lparr>locks := (locks st)(l := None)\<rparr>)" if "waiters st (LockObj l) = {}"
  proof -
    have "may_sleep_on (st\<lparr>locks := (locks st)(l := None)\<rparr>) a" if "waiters st a \<noteq> {}" for a
      using may [OF that] \<open>waiters st (LockObj l) = {}\<close> that by (cases a) auto
    then show ?thesis using assms by (auto simp: objs_ok_def)
  qed
qed

lemma sem_destroy_synch:
  assumes "thr_inv st" and "objs_ok st" and "in_kernel st" and "sem_destroy s st = Some st'"
  shows "synch_inv st'"
proof -
  let ?st = "st\<lparr>curspl := 15\<rparr>"
  have str: "thr_struct ?st" using assms(1) by (simp add: thr_inv_def)
  have "\<not> (\<exists>t \<in> set (sleeping ?st). sleeps_on ?st (SemObj s) t)"
    and st': "st' = st\<lparr>sems := (sems st)(s := None)\<rparr>"
    using assms(4) thread_hassleepers_eq [OF str, of "SemObj s"]
    by (auto simp: sem_destroy_def Let_def split: Option.bind_splits if_splits)
  then have "waiters ?st (SemObj s) = {}" by (auto simp: waiters_def)
  then show ?thesis
    using objs_ok_destroy(1) [OF assms(2)] assms(1,3) by (auto simp: st' intro!: synch_invI)
qed

lemma lock_destroy_synch:
  assumes "thr_inv st" and "objs_ok st" and "in_kernel st" and "lock_destroy l st = Some st'"
    and "op_allowed (Op_lock_destroy l) st"
  shows "synch_inv st'"
proof -
  have "waiters st (LockObj l) = {}"
    using objs_okD(2) [OF assms(2), of "LockObj l"] assms(5) by (fastforce simp: op_allowed_def)
  then show ?thesis
    using objs_ok_destroy(2) [OF assms(2)] assms(1,3,4)
    by (auto simp: lock_destroy_def split: Option.bind_splits intro!: synch_invI)
qed

lemma fork_synch:
  assumes "thr_inv st" and "objs_ok st" and "in_kernel st" and "kmem_limit km" and "threads st t = None"
    and "thread_fork (Some t) True okstack km name st = Some (r, st')"
  shows "synch_inv st'" and "kstate.more st' = kstate.more st" and "curthread st' = curthread st"
proof -
  obtain cur where cur: "curthread st = Some cur" using assms(3) by (auto simp: in_kernel_def)
  obtain cth where cth: "threads st cur = Some cth"
    using assms(1) cur by (auto simp: thr_inv_def thr_struct_def live_def running_def)
  have f: "thr_inv st'" "fork_result t (fork_child name cth) st r st'"
    using thread_fork_cases [OF assms(1) cur cth assms(5,4), of okstack name] assms(6) by auto
  show m: "kstate.more st' = kstate.more st" and "curthread st' = curthread st"
    using f(2) by (auto simp: fork_result_def)
  have "objs_ok st'"
    using objs_ok_mono [OF assms(2) m] waiters_fork_result [OF f(2) assms(1,5)] by simp
  moreover have "in_kernel st'" using f(2) assms(3) by (auto simp: fork_result_def in_kernel_def)
  ultimately show "synch_inv st'" using f(1) by (intro synch_invI)
qed

lemma q_create_ok: "q_create ok km 32 = Some q \<Longrightarrow> q_inv q \<and> q_usable q"
  by (auto simp: q_create_def q_inv_def q_usable_def kalloc_def split: if_splits option.splits)

lemma run_op_synch:
  assumes "synch_inv st" and "in_kernel st" and "op_allowed op st" and "kmem_limit km"
    and "run_op km op st = Some st'"
  shows "synch_inv st'"
proof -
  have s: "thr_inv st" "objs_ok st" using assms(1) by (auto simp: synch_inv_def)
  note ops = P_synch [OF s assms(2,4)] lock_acquire_k_synch [OF s assms(2,4)] cv_wait_synch [OF s assms(2,4)]
    cv_signal_synch [OF s assms(2,4)] cv_broadcast_synch [OF s assms(2,4)] thread_yield_synch [OF s assms(2,4)]
    thread_exit_synch [OF s assms(2,4)] clocksleep_synch [OF s assms(2,4)] sem_destroy_synch [OF s assms(2)]
    lock_destroy_synch [OF s assms(2)] fork_synch(1) [OF s assms(2,4)]
  show ?thesis
  proof (cases op)
    case (Op_V n)
    then show ?thesis using V_synch [OF s assms(4)] assms(2,5)
      by (intro synch_invI) (auto simp: run_op_def in_kernel_def)
  next
    case (Op_release l)
    then show ?thesis using lock_release_synch [OF s assms(2,4)] assms(5)
      by (intro synch_invI) (auto simp: run_op_def)
  next
    case (Op_fork t okstack name)
    then show ?thesis using ops(11) assms(3,5) by (auto simp: run_op_def op_allowed_def)
  next
    case (Op_sem_create n name c)
    then show ?thesis using objs_ok_create(1) [OF s(2)] s(1) assms(2,3,5)
      by (intro synch_invI) (auto simp: run_op_def op_allowed_def sem_create_def split: if_splits)
  next
    case (Op_lock_create l name)
    then show ?thesis using objs_ok_create(2) [OF s(2)] s(1) assms(2,3,5)
      by (intro synch_invI) (auto simp: run_op_def op_allowed_def lock_create_def)
  next
    case (Op_cv_create c name)
    then obtain q where "q_create True km 32 = Some q" "st' = st\<lparr>cvs := (cvs st)(c \<mapsto> \<lparr>c_name = name, c_queue = q\<rparr>)\<rparr>"
      using assms(5) by (auto simp: run_op_def cv_create_def split: Option.bind_splits)
    then show ?thesis using objs_ok_create(3) [OF s(2)] q_create_ok [of True km q] s(1) assms(2)
      by (intro synch_invI) simp_all
  next
    case (Op_cv_destroy c)
    then show ?thesis using objs_ok_create(4) [OF s(2)] s(1) assms(2,5)
      by (intro synch_invI) (auto simp: run_op_def cv_destroy_def q_destroy_def split: Option.bind_splits if_splits)
  next
    case (Op_lock_destroy l)
    then show ?thesis using ops(10) assms(3,5) by (auto simp: run_op_def)
  qed (use ops(1-9) assms(5) in \<open>auto simp: run_op_def lock_acquire_def\<close>)
qed

lemma idle_synch:
  assumes "synch_inv st" and "curthread st = None" and "schedule st = Some st'"
  shows "synch_inv st'"
proof -
  have s: "thr_struct st" "numthreads st = int (length (live st))" "objs_ok st" "cpu_ok st"
    using assms(1) by (auto simp: synch_inv_def thr_inv_def)
  note sch = schedule_struct [OF s(1) assms(2,3)]
  have m: "kstate.more st' = kstate.more st"
    using assms(3) by (auto simp: schedule_def split: Option.bind_splits if_splits)
  have "objs_ok st'" using objs_ok_mono [OF s(3) m] waiters_schedule [OF s(1) assms(2,3)] by simp
  moreover have "cpu_ok st'"
    using assms(2,3) s(4) sch(7) by (auto simp: schedule_def cpu_ok_def split: Option.bind_splits if_splits)
  ultimately show ?thesis using sch s(2) live_length [OF sch(2)] by (simp add: synch_inv_def thr_inv_def)
qed

lemma kstep_synch: "kstep st st' \<Longrightarrow> synch_inv st \<Longrightarrow> synch_inv st'"
  by (induction rule: kstep.induct)
     (auto intro: run_op_synch dispatch_synch timer_interrupt_synch device_interrupt_synch idle_synch)

lemma booted_synch:
  assumes "booted st"
  shows "synch_inv st"
proof -
  obtain km rq st0 t where b: "scheduler_bootstrap True km (boot_sstate rq) = Some st0"
      "thread_bootstrap True True (Some t) True st0 = Some st"
    using assms by (auto simp: booted.simps)
  have e: "threads (boot_sstate rq) = (\<lambda>_. None)" "k_pending (boot_sstate rq) = None"
    "sems (boot_sstate rq) = (\<lambda>_. None)" "cvs (boot_sstate rq) = (\<lambda>_. None)"
    by (simp_all add: boot_sstate_def boot_state_def kstate.extend_def)
  note inv = thread_bootstrap_inv [OF b e(1)]
  have f: "k_pending st = None" "sems st = (\<lambda>_. None)" "cvs st = (\<lambda>_. None)"
    using b e by (auto simp: scheduler_bootstrap_def thread_bootstrap_def thread_create_def array_create_def
        split: Option.bind_splits)
  have "sleeping st = []" using inv(3,2) by (simp add: live_def running_def)
  then have "waiters st a = {}" for a by (simp add: waiters_def)
  then show ?thesis
    using inv f by (intro synch_invI) (auto simp: objs_ok_def in_kernel_def)
qed

lemma reachable_synch: "reachable st \<Longrightarrow> synch_inv st"
  by (induction rule: reachable.induct) (auto intro: booted_synch kstep_synch)

section \<open>Who may change a lock\<close>

text \<open>
  Between two states a lock is unchanged, or it was free and the thread \<open>c\<close> took it, or \<open>c\<close> held
  it and gave it up.
\<close>

definition lock_change :: "tid option \<Rightarrow> sstate \<Rightarrow> sstate \<Rightarrow> bool" where
  "lock_change c st st' \<longleftrightarrow> (\<forall>l lk lk'. locks st l = Some lk \<longrightarrow> locks st' l = Some lk' \<longrightarrow>
     l_thread_addr lk' = l_thread_addr lk \<or>
     (l_thread_addr lk = None \<and> l_thread_addr lk' = c) \<or>
     (l_thread_addr lk = c \<and> l_thread_addr lk' = None))"

lemma lock_change_same: "locks st' = locks st \<Longrightarrow> lock_change c st st'"
  by (simp add: lock_change_def)

lemma lock_change_more: "kstate.more st' = kstate.more (st :: sstate) \<Longrightarrow> lock_change c st st'"
  by (rule lock_change_same, rule more_eq)

lemma lock_change_left: "locks st1 = locks st \<Longrightarrow> lock_change c st1 st' = lock_change c st st'"
  by (simp add: lock_change_def)

lemma lock_change_right: "locks st' = locks st1 \<Longrightarrow> lock_change c st st' = lock_change c st st1"
  by (simp add: lock_change_def)

lemma P_loop_locks: "P_loop km s spl st = Some st' \<Longrightarrow> locks st' = locks st"
  using more_eq(2) [OF more_sleep] by (auto simp: P_loop_def split: Option.bind_splits if_splits)

lemma clocksleep_locks: "clocksleep_loop km n s st = Some st' \<Longrightarrow> locks st' = locks st"
  using more_eq(2) [OF more_sleep] by (auto simp: clocksleep_loop_def split: if_splits)

lemma lock_acquire_loop_change:
  assumes "lock_acquire_loop km l spl outer st = Some st'"
  shows "lock_change (curthread st) st st'"
proof -
  obtain lk where lk: "locks st l = Some lk" using assms by (auto simp: lock_acquire_loop_def split: Option.bind_splits)
  show ?thesis
  proof (cases "l_thread_addr lk \<noteq> None \<and> \<not> lock_do_i_hold l st")
    case True
    then have "thread_sleep km (LockObj l) (K_lock l spl outer) st = Some st'"
      using assms lk by (auto simp: lock_acquire_loop_def)
    then show ?thesis by (intro lock_change_more more_sleep)
  next
    case False
    then have "locks st' = locks (set_holder l (curthread st) st)"
      using assms lk by (auto simp: lock_acquire_loop_def Let_def split: option.splits)
    then show ?thesis using False lk by (auto simp: lock_change_def set_holder_def lock_do_i_hold_def)
  qed
qed

lemma lock_acquire_k_change:
  assumes "lock_acquire_k km l outer st = Some st'"
  shows "lock_change (curthread st) st st'"
proof -
  have "lock_acquire_loop km l (curspl st) outer (st\<lparr>curspl := 15\<rparr>) = Some st'"
    using assms by (auto simp: lock_acquire_k_def split: Option.bind_splits if_splits)
  from lock_acquire_loop_change [OF this] show ?thesis by (simp add: lock_change_def)
qed

lemma lock_release_change:
  assumes "lock_release km l st = Some st'" and "thr_inv st" and "kmem_limit km"
  shows "lock_change (curthread st) st st'"
proof -
  let ?st1 = "st\<lparr>curspl := 15\<rparr>"
  obtain st2 where st': "st' = st2\<lparr>curspl := curspl st\<rparr>"
    and c: "(if lock_do_i_hold l ?st1 then thread_wakeup km (LockObj l) (set_holder l None ?st1) else Some ?st1) = Some st2"
    using assms(1) by (auto simp: lock_release_def Let_def split: Option.bind_splits if_splits)
  show ?thesis
  proof (cases "lock_do_i_hold l ?st1")
    case False
    then show ?thesis using c st' by (auto intro: lock_change_same)
  next
    case True
    have "thr_inv (set_holder l None ?st1)" using assms(2) by simp
    then have "thr_struct (set_holder l None ?st1)" unfolding thr_inv_def by blast
    then have "kstate.more st2 = kstate.more (set_holder l None ?st1)"
      using more_wakeup(1) [of km "LockObj l" "set_holder l None ?st1" st2] True c assms(3) by simp
    then have "locks st2 = locks (set_holder l None ?st1)" by (rule more_eq)
    then show ?thesis
      using True st' by (auto simp: lock_change_def set_holder_def lock_do_i_hold_def split: if_splits option.splits)
  qed
qed

lemma resume_change:
  assumes "resume km k st = Some st'"
  shows "lock_change (curthread st) st st'"
proof (cases "thread_sleep_return st")
  case None
  then show ?thesis using assms by (cases k) (auto simp: resume_def intro: lock_change_same)
next
  case (Some st1)
  have m: "locks st1 = locks st" "curthread st1 = curthread st"
    using Some more_eq(2) [OF more_sleep_return [OF Some]]
    by (auto simp: thread_sleep_return_def split: Option.bind_splits)
  show ?thesis
    using assms Some m lock_change_left [OF m(1)] lock_acquire_loop_change [of km _ _ _ st1 st']
      lock_acquire_k_change [of km _ _ st1 st'] P_loop_locks [of km _ _ st1 st'] clocksleep_locks [of km _ _ st1 st']
    by (cases k) (auto simp: resume_def intro: lock_change_same)
qed

lemma cv_wait_change:
  assumes "cv_wait km c l st = Some st'" and "thr_inv st" and "kmem_limit km"
  shows "lock_change (curthread st) st st'"
proof -
  obtain cv cur q st3 where
      rel: "lock_release km l (st\<lparr>cvs := (cvs st)(c \<mapsto> cv\<lparr>c_queue := q\<rparr>), curspl := 15\<rparr>) = Some st3"
    and sl: "thread_sleep km (CvObj c) (K_cv l (curspl st)) st3 = Some st'"
    using assms(1) by (auto simp: cv_wait_def Let_def split: Option.bind_splits)
  have "lock_change (curthread st) st st3"
    using lock_release_change [OF rel] assms(2,3) by (simp add: lock_change_def)
  moreover have "locks st' = locks st3" using sl by (intro more_eq more_sleep)
  ultimately show ?thesis by (simp add: lock_change_def)
qed

lemma cv_signal_locks: "cv_signal km c l st = Some st' \<Longrightarrow> thr_inv st \<Longrightarrow> kmem_limit km \<Longrightarrow> in_kernel st \<Longrightarrow>
  objs_ok st \<Longrightarrow> locks st' = locks st"
proof -
  assume a: "cv_signal km c l st = Some st'" "thr_inv st" "kmem_limit km" "in_kernel st" "objs_ok st"
  let ?st = "st\<lparr>curspl := 15\<rparr>"
  obtain cv where cv: "cvs st c = Some cv" using a(1) by (auto simp: cv_signal_def Let_def split: Option.bind_splits)
  have q: "q_inv (c_queue cv)" using objs_okD(3) [OF a(5) cv] by auto
  show ?thesis
  proof (cases "q_list (c_queue cv)")
    case Nil
    then show ?thesis using a(1) cv q by (auto simp: cv_signal_def Let_def kq.empty split: Option.bind_splits)
  next
    case (Cons h hs)
    have "thr_struct ?st" using a(2) by (simp add: thr_inv_def)
    then obtain q' st2 where w: "thread_wakeup_head km (CvObj c) (c_queue cv) ?st = Some (q', st2)"
        "if sleeps_on ?st (CvObj c) h \<and> h \<in> set (sleeping ?st) then woke ?st [h] (remove1 h (sleeping ?st)) st2
         else st2 = ?st"
      using thread_wakeup_head_cases [OF _ a(3) _ q Cons, of ?st "CvObj c"] a(4) by (auto simp: in_kernel_def)
    have "locks st2 = locks st" using w(2) by (auto simp: woke_def split: if_splits)
    then show ?thesis
      using a(1) cv w(1) Cons q by (auto simp: cv_signal_def Let_def kq.empty split: Option.bind_splits if_splits)
  qed
qed

lemma run_op_change:
  assumes "run_op km op st = Some st'" and "synch_inv st" and "in_kernel st" and "op_allowed op st" and "kmem_limit km"
  shows "lock_change (curthread st) st st'"
proof -
  have s: "thr_inv st" "objs_ok st" "thr_struct st" using assms(2) by (auto simp: synch_inv_def thr_inv_def)
  show ?thesis
  proof (cases op)
    case (Op_P n)
    then show ?thesis using assms(1) P_loop_locks
      by (fastforce simp: run_op_def P_def split: Option.bind_splits if_splits intro: lock_change_same)
  next
    case (Op_V n)
    then show ?thesis using assms(1) V_synch(7) [OF s(1,2) assms(5)] by (auto simp: run_op_def intro: lock_change_same)
  next
    case (Op_acquire l)
    then show ?thesis using assms(1) lock_acquire_k_change by (auto simp: run_op_def lock_acquire_def)
  next
    case (Op_release l)
    then show ?thesis using assms(1) lock_release_change [OF _ s(1) assms(5)] by (auto simp: run_op_def)
  next
    case (Op_wait c l)
    then show ?thesis using assms(1) cv_wait_change [OF _ s(1) assms(5)] by (auto simp: run_op_def)
  next
    case (Op_signal c l)
    then show ?thesis using assms(1) cv_signal_locks [OF _ s(1) assms(5,3) s(2)]
      by (auto simp: run_op_def intro: lock_change_same)
  next
    case (Op_broadcast c)
    then obtain st2 where "thread_wakeup km (CvObj c) (st\<lparr>curspl := 15\<rparr>) = Some st2" "st' = st2\<lparr>curspl := curspl st\<rparr>"
      using assms(1) by (auto simp: run_op_def cv_broadcast_def split: Option.bind_splits)
    then show ?thesis using more_eq(2) [OF more_wakeup(1)] s(3) assms(5) by (auto intro: lock_change_same)
  next
    case Op_yield
    then show ?thesis using assms(1) more_yield by (auto simp: run_op_def intro!: lock_change_more)
  next
    case Op_exit
    then show ?thesis using assms(1) more_exit by (auto simp: run_op_def intro!: lock_change_more)
  next
    case (Op_clocksleep n)
    then show ?thesis using assms(1) clocksleep_locks
      by (fastforce simp: run_op_def clocksleep_def intro: lock_change_same)
  next
    case (Op_fork t okstack name)
    then show ?thesis using assms(1,4) fork_synch(2) [OF s(1,2) assms(3,5)]
      by (auto simp: run_op_def op_allowed_def intro!: lock_change_more)
  next
    case (Op_sem_destroy n)
    then show ?thesis using assms(1)
      by (auto simp: run_op_def sem_destroy_def Let_def split: Option.bind_splits if_splits intro: lock_change_same)
  qed (use assms(1,4) in \<open>auto simp: run_op_def sem_create_def lock_create_def lock_destroy_def cv_create_def
      cv_destroy_def op_allowed_def lock_change_def split: Option.bind_splits if_splits\<close>)
qed

lemma dispatch_change:
  assumes "dispatch km p st = Some st'" and "synch_inv st" and "k_pending st = Some p"
  shows "lock_change (curthread st) st st'"
proof -
  have s: "thr_inv st" "objs_ok st" "curthread st \<noteq> None" using assms(2,3) by (auto simp: synch_inv_def cpu_ok_def)
  show ?thesis
  proof (cases p)
    case PcbStart
    then show ?thesis
      using threadstart_synch(4) [OF s(1,2)] assms(1) by (auto simp: dispatch_def intro!: lock_change_more)
  next
    case (PcbSwitch k)
    then obtain st1 where st1: "mi_switch_return st = Some st1" "resume km k st1 = Some st'"
      using assms(1) by (auto simp: dispatch_def split: Option.bind_splits)
    note r = switch_return_synch(4,5) [OF s st1(1)]
    show ?thesis using resume_change [OF st1(2)] lock_change_left [OF more_eq(2) [OF r(1)]] r(2) by simp
  qed
qed

lemma timer_locks:
  assumes "timer_interrupt km st = Some st'" and "synch_inv st" and "kmem_limit km"
  shows "locks st' = locks st"
proof -
  have s: "thr_inv (intr_enter st)" "objs_ok (intr_enter st)" using assms(2) by (simp_all add: synch_inv_def)
  obtain k st1 where hc: "hardclock km k (intr_enter st) = Some st1" "locks st' = locks st1"
    using assms(1) by (auto simp: timer_interrupt_def split: Option.bind_splits if_splits)
  obtain st0 where "locks st0 = locks st" "thread_yield km k st0 = Some st1"
    using hardclock_wake [OF s assms(3) hc(1)] by auto
  then show ?thesis using hc(2) more_eq(2) [OF more_yield] by simp
qed

lemma kstep_lock_change:
  assumes "kstep st st'" and "synch_inv st"
  shows "lock_change (curthread st) st st'"
  using assms
proof (induction rule: kstep.induct)
  case (device st km s st')
  then show ?case
    using V_synch(7) [of "intr_enter st" km s]
    by (auto simp: device_interrupt_def synch_inv_def split: Option.bind_splits intro!: lock_change_same)
next
  case (idle st st')
  then show ?case
    by (auto simp: schedule_def split: Option.bind_splits if_splits intro!: lock_change_same)
qed (auto intro: run_op_change dispatch_change timer_locks lock_change_same)

end
