(* ===== verification/Synch_Props.thy ===== *)
theory Synch_Props
  imports Kernel_Steps
begin

text \<open>
  The properties of semaphores, locks and condition variables, on reachable states of the
  kernel.  \<open>krun\<close> executes a schedule of steps, so that the examples are runs of the model from
  boot.
\<close>

section \<open>Runs\<close>

datatype kact = Do kop | Go_on | Tick | Irq nat | Idle

definition kexec :: "tid kmem \<Rightarrow> kact \<Rightarrow> sstate \<Rightarrow> sstate option" where
  "kexec km act st = (case act of
       Do op \<Rightarrow> if in_kernel st \<and> op_allowed op st then run_op km op st else None
     | Go_on \<Rightarrow> (case k_pending st of None \<Rightarrow> None | Some p \<Rightarrow> dispatch km p st)
     | Tick \<Rightarrow> if interruptible st then timer_interrupt km st else None
     | Irq s \<Rightarrow> if interruptible st then device_interrupt km s st else None
     | Idle \<Rightarrow> if curthread st = None then schedule st else None)"

fun krun :: "tid kmem \<Rightarrow> kact list \<Rightarrow> sstate \<Rightarrow> sstate option" where
  "krun km [] st = Some st"
| "krun km (act # acts) st = do { st' \<leftarrow> kexec km act st; krun km acts st' }"

lemma kexec_kstep: "kexec km act st = Some st' \<Longrightarrow> kmem_limit km \<Longrightarrow> kstep st st'"
  by (cases act) (auto simp: kexec_def intro: kstep.intros split: if_splits option.splits)

lemma krun_reachable: "krun km acts st = Some st' \<Longrightarrow> kmem_limit km \<Longrightarrow> reachable st \<Longrightarrow> reachable st'"
  by (induction acts arbitrary: st)
     (auto split: Option.bind_splits dest: kexec_kstep intro: reachable.step)

definition ex_mem :: "tid kmem" where
  "ex_mem n = (if n < 100 then Some (\<lambda>_. 0) else None)"

lemma ex_mem_limit: "kmem_limit ex_mem"
  by (auto simp: kmem_limit_def ex_mem_def)

definition ex_boot :: "sstate option" where
  "ex_boot = do {
     st \<leftarrow> scheduler_bootstrap True ex_mem (boot_sstate \<lparr>q_size = 0, q_nextwrite = 0, q_nextread = 0, q_data = []\<rparr>);
     thread_bootstrap True True (Some 1) True st }"

definition ex_run :: "kact list \<Rightarrow> sstate option" where
  "ex_run acts = do { st \<leftarrow> ex_boot; krun ex_mem acts st }"

lemma ex_run_reachable:
  assumes "ex_run acts = Some st"
  shows "reachable st"
proof -
  obtain st1 where st1: "ex_boot = Some st1" "krun ex_mem acts st1 = Some st"
    using assms by (auto simp: ex_run_def split: Option.bind_splits)
  then have "booted st1" by (auto simp: ex_boot_def split: Option.bind_splits intro: booted.intros)
  then show ?thesis using krun_reachable [OF st1(2) ex_mem_limit] reachable.boot by blast
qed

section \<open>Properties of reachable states\<close>


definition ex_blocked :: "kact list" where
  "ex_blocked = [Do (Op_sem_create 0 ''s'' 0), Do (Op_fork 2 True ''t''), Do (Op_P 0), Go_on]"


text \<open>
  C31: every thread is in one place.  In every reachable state the running thread, the run
  queue, the sleepers and the zombies are disjoint and list each thread at most once, every
  listed thread has a structure, \<open>numthreads\<close> counts the threads that are not zombies, and
  the preallocated room is there: the run queue has at least as many slots as there are
  threads, and the sleepers array too once a thread was forked.
\<close>

theorem threads_in_one_place:
  assumes "reachable st"
  shows "distinct (running st @ ready st @ sleeping st @ dead st) \<and>
    set (running st @ ready st @ sleeping st @ dead st) \<subseteq> dom (threads st) \<and>
    numthreads st = int (length (running st @ ready st @ sleeping st)) \<and>
    numthreads st \<le> int (q_size (runqueue st)) \<and>
    (1 < numthreads st \<longrightarrow> numthreads st \<le> a_max (sleepers st))"
proof -
  have inv: "thr_struct st" "numthreads st = int (length (live st))"
    using reachable_synch [OF assms] by (auto simp: synch_inv_def thr_inv_def)
  then show ?thesis by (auto simp: thr_struct_def live_def)
qed

theorem threads_in_one_place_witness:
  "\<exists>st. reachable st \<and> numthreads st = 2 \<and> numthreads st \<le> a_max (sleepers st)"
proof -
  have r: "map_option numthreads (ex_run ex_blocked) = Some 2" by code_simp
  then obtain st where st: "ex_run ex_blocked = Some st" "numthreads st = 2" by auto
  have "numthreads st \<le> a_max (sleepers st)"
    using threads_in_one_place [OF ex_run_reachable [OF st(1)]] st(2) by simp
  then show ?thesis using ex_run_reachable [OF st(1)] st(2) by blast
qed

text \<open>
  C4: mutual exclusion.  No step of the kernel, whichever thread or interrupt takes it, moves a
  lock from one holder to another, and a lock changes hands only through the running thread: a
  free lock can only become the running thread's, and a held lock can only become free if the
  running thread holds it.
\<close>

theorem lock_mutual_exclusion:
  assumes "reachable st" and "kstep st st'" and "locks st l = Some lk" and "locks st' l = Some lk'"
    and "l_thread_addr lk' \<noteq> l_thread_addr lk"
  shows "curthread st \<noteq> None \<and>
    (l_thread_addr lk = None \<and> l_thread_addr lk' = curthread st \<or>
     l_thread_addr lk = curthread st \<and> l_thread_addr lk' = None)"
proof -
  have "l_thread_addr lk = None \<and> l_thread_addr lk' = curthread st \<or>
      l_thread_addr lk = curthread st \<and> l_thread_addr lk' = None"
    using kstep_lock_change [OF assms(2) reachable_synch [OF assms(1)]] assms(3-5)
    unfolding lock_change_def by blast
  then show ?thesis using assms(5) by (cases "curthread st") auto
qed

definition ex_locked :: "kact list" where
  "ex_locked = [Do (Op_lock_create 3 ''l''), Do (Op_fork 2 True ''t'')]"

theorem lock_mutual_exclusion_witness:
  "\<exists>st st' lk lk'. reachable st \<and> kstep st st' \<and> locks st 3 = Some lk \<and> locks st' 3 = Some lk' \<and>
    l_thread_addr lk' = curthread st \<and> curthread st = Some 1"
proof -
  let ?f = "\<lambda>st. map_option (\<lambda>st'. (curthread st, map_option l_thread_addr (locks st 3),
      map_option l_thread_addr (locks st' 3))) (kexec ex_mem (Do (Op_acquire 3)) st)"
  have r: "map_option ?f (ex_run ex_locked) = Some (Some (Some 1, Some None, Some (Some 1)))" by code_simp
  then obtain st where st: "ex_run ex_locked = Some st" "?f st = Some (Some 1, Some None, Some (Some 1))" by auto
  then obtain st' where st': "kexec ex_mem (Do (Op_acquire 3)) st = Some st'" by auto
  then obtain lk lk' where lk: "locks st 3 = Some lk" "locks st' 3 = Some lk'" "l_thread_addr lk = None"
      "l_thread_addr lk' = Some 1" "curthread st = Some 1"
    using st(2) by auto
  have k: "kstep st st'" using kexec_kstep [OF st' ex_mem_limit] .
  have "l_thread_addr lk' = curthread st"
    using lock_mutual_exclusion [OF ex_run_reachable [OF st(1)] k lk(1,2)] lk(3,4) by simp
  with lk k ex_run_reachable [OF st(1)] show ?thesis by blast
qed

section \<open>What the operations do\<close>

text \<open>
  C36: \<open>V\<close>.  A running thread's \<open>V\<close> on a semaphore of fewer than \<open>2^31 - 1\<close> units never panics;
  it adds one unit, moves every thread that sleeps on the semaphore to the end of the run queue
  and nobody else, changes no other semaphore, lock or condition variable, and leaves the
  interrupt level as it was.
\<close>

theorem V_correct:
  assumes "reachable st" and "in_kernel st" and "sems st s = Some sem" and "s_count sem < 2 ^ 31 - 1"
    and "kmem_limit km"
  shows "\<exists>st'. V km s st = Some st' \<and> sems st' = (sems st)(s \<mapsto> sem\<lparr>s_count := s_count sem + 1\<rparr>) \<and>
    ready st' = ready st @ filter (sleeps_on st (SemObj s)) (sleeping st) \<and>
    sleeping st' = filter (\<lambda>t. \<not> sleeps_on st (SemObj s) t) (sleeping st) \<and>
    locks st' = locks st \<and> cvs st' = cvs st \<and> curthread st' = curthread st \<and> curspl st' = curspl st"
proof -
  have inv: "thr_inv st" "objs_ok st" using reachable_synch [OF assms(1)] by (auto simp: synch_inv_def)
  have c: "c_int (s_count sem + 1) = s_count sem + 1" "0 < s_count sem + 1"
    using objs_okD(1) [OF inv(2) assms(3)] assms(4) by (auto intro: c_int_id)
  let ?st = "st\<lparr>curspl := 15, sems := (sems st)(s \<mapsto> sem\<lparr>s_count := s_count sem + 1\<rparr>)\<rparr>"
  have str: "thr_struct ?st" using inv(1) by (simp add: thr_inv_def thr_struct_def thr_lists_def live_def running_def)
  have so: "sleeps_on ?st = sleeps_on st" by (simp add: sleeps_on_def fun_eq_iff)
  obtain st2 where wk: "thread_wakeup km (SemObj s) ?st = Some st2"
      "woke ?st (filter (sleeps_on st (SemObj s)) (sleeping st))
        (filter (\<lambda>t. \<not> sleeps_on st (SemObj s) t) (sleeping st)) st2"
    using thread_wakeup_cases [OF str assms(5), of "SemObj s"] assms(2) so by (auto simp: in_kernel_def)
  have "V km s st = Some (st2\<lparr>curspl := curspl st\<rparr>)"
    using assms(3) c wk(1) by (simp add: V_def Let_def)
  then show ?thesis using wk(2) by (auto simp: woke_def rq_step_def)
qed

theorem V_correct_witness:
  "\<exists>st st'. reachable st \<and> V ex_mem 0 st = Some st' \<and> sleeping st = [1] \<and> sleeping st' = [] \<and> ready st' = [1] \<and>
    map_option s_count (sems st' 0) = Some 1"
proof -
  have r: "map_option (\<lambda>st. (sleeping st, ready st, sleeps_on st (SemObj 0) 1, in_kernel st, map_option s_count (sems st 0)))
      (ex_run ex_blocked) = Some ([1], [], True, True, Some 0)"
    by code_simp
  then obtain st sem where st: "ex_run ex_blocked = Some st" "sleeping st = [1]" "ready st = []"
      "sleeps_on st (SemObj 0) 1" "in_kernel st" "sems st 0 = Some sem" "s_count sem = 0"
    by auto
  then obtain st' where "V ex_mem 0 st = Some st'" "sems st' = (sems st)(0 \<mapsto> sem\<lparr>s_count := s_count sem + 1\<rparr>)"
      "ready st' = [1]" "sleeping st' = []"
    using V_correct [OF ex_run_reachable [OF st(1)] st(5,6) _ ex_mem_limit] by auto
  with st ex_run_reachable [OF st(1)] show ?thesis by auto
qed



text \<open>
  \<open>lock_acquire\<close>.  A free lock, and a lock the caller already holds, is the caller's at
  once and nothing else changes; if another thread holds it the caller sleeps on it, and the
  holder stays.  A \<open>lock_release\<close> by a thread that does not hold the lock does nothing.
\<close>

theorem lock_acquire_correct:
  assumes "reachable st" and "curthread st = Some cur" and "k_pending st = None" and "in_interrupt st = 0"
    and "locks st l = Some lk" and "kmem_limit km" and "1 < numthreads st"
  shows "if l_thread_addr lk = None \<or> l_thread_addr lk = Some cur
    then lock_acquire km l st = Some (st\<lparr>locks := (locks st)(l \<mapsto> lk\<lparr>l_thread_addr := Some cur\<rparr>)\<rparr>)
    else lock_release km l st = Some st \<and> (\<exists>st'. lock_acquire km l st = Some st' \<and> locks st' = locks st \<and>
      sleeping st' = sleeping st @ [cur] \<and> sleeps_on st' (LockObj l) cur)"
proof (cases "l_thread_addr lk = None \<or> l_thread_addr lk = Some cur")
  case True
  then show ?thesis
    using assms(2,4,5)
    by (auto simp: lock_acquire_def lock_acquire_k_def lock_acquire_loop_def lock_do_i_hold_def set_holder_def)
next
  case False
  let ?st = "st\<lparr>curspl := 15\<rparr>"
  have inv: "thr_inv st" using reachable_synch [OF assms(1)] by (simp add: synch_inv_def)
  obtain st' where st': "thread_sleep km (LockObj l) (K_lock l (curspl st) None) ?st = Some st'"
      "sleeping st' = sleeping st @ [cur]" "sleeps_on st' (LockObj l) cur"
    using thread_sleep_cases [of ?st cur km "LockObj l" "K_lock l (curspl st) None"] inv assms(2,4,6,7) by auto
  have "locks st' = locks st" using more_eq(2) [OF more_sleep [OF st'(1)]] by simp
  with False st' assms(2,4,5) show ?thesis
    by (auto simp: lock_acquire_def lock_acquire_k_def lock_acquire_loop_def lock_do_i_hold_def lock_release_def)
qed

theorem lock_acquire_correct_witness:
  "\<exists>st lk. reachable st \<and> locks st 3 = Some lk \<and>
    lock_acquire ex_mem 3 st = Some (st\<lparr>locks := (locks st)(3 \<mapsto> lk\<lparr>l_thread_addr := Some 1\<rparr>)\<rparr>)"
proof -
  have r: "map_option (\<lambda>st. (curthread st, k_pending st = None, in_interrupt st, map_option l_thread_addr (locks st 3),
      numthreads st)) (ex_run ex_locked) = Some (Some 1, True, 0, Some None, 2)"
    by code_simp
  then obtain st lk where st: "ex_run ex_locked = Some st" "curthread st = Some 1" "k_pending st = None"
      "in_interrupt st = 0" "locks st 3 = Some lk" "l_thread_addr lk = None" "numthreads st = 2"
    by auto
  then show ?thesis
    using lock_acquire_correct [OF ex_run_reachable [OF st(1)] st(2-5) ex_mem_limit] ex_run_reachable [OF st(1)] by auto
qed

text \<open>
  \<open>cv_signal\<close> wakes the longest waiter.  If the thread at the head of the waiting line sleeps
  on the condition variable it is moved to the end of the run queue, alone, and it
  leaves the line.
\<close>

theorem cv_signal_wakes_head:
  assumes "reachable st" and "in_kernel st" and "locks st l = Some lk" and "cvs st c = Some cv"
    and "q_list (c_queue cv) = h # hs" and "h \<in> set (sleeping st)" and "sleeps_on st (CvObj c) h" and "kmem_limit km"
  shows "\<exists>st' cv'. cv_signal km c l st = Some st' \<and> ready st' = ready st @ [h] \<and>
    sleeping st' = remove1 h (sleeping st) \<and> cvs st' = (cvs st)(c \<mapsto> cv') \<and> q_list (c_queue cv') = hs \<and>
    curspl st' = curspl st \<and> curthread st' = curthread st"
proof -
  let ?st = "st\<lparr>curspl := 15\<rparr>"
  have inv: "thr_inv st" "objs_ok st" using reachable_synch [OF assms(1)] by (auto simp: synch_inv_def)
  have str: "thr_struct ?st" using inv(1) by (simp add: thr_inv_def)
  have q: "q_inv (c_queue cv)" using objs_okD(3) [OF inv(2) assms(4)] by simp
  have so: "sleeps_on ?st (CvObj c) h" using assms(7) by (simp add: sleeps_on_def)
  obtain q' st2 where w: "thread_wakeup_head km (CvObj c) (c_queue cv) ?st = Some (q', st2)" "q_list q' = hs"
      "woke ?st [h] (remove1 h (sleeping ?st)) st2"
    using thread_wakeup_head_cases [OF str assms(8) _ q assms(5), of "CvObj c"] assms(2,6) so
    by (auto simp: in_kernel_def)
  have "cv_signal km c l st = Some (st2\<lparr>cvs := (cvs st2)(c \<mapsto> cv\<lparr>c_queue := q'\<rparr>), curspl := curspl st\<rparr>)"
    using assms(3-5) w(1) kq.empty [OF q] by (simp add: cv_signal_def Let_def)
  then show ?thesis
    using w(2,3) by (intro exI [of _ "st2\<lparr>cvs := (cvs st2)(c \<mapsto> cv\<lparr>c_queue := q'\<rparr>), curspl := curspl st\<rparr>"]
        exI [of _ "cv\<lparr>c_queue := q'\<rparr>"]) (auto simp: woke_def rq_step_def)
qed

definition ex_waiting :: "kact list" where
  "ex_waiting = [Do (Op_lock_create 3 ''l''), Do (Op_cv_create 4 ''c''), Do (Op_fork 2 True ''t''),
     Do (Op_acquire 3), Do (Op_wait 4 3), Go_on]"

theorem cv_signal_wakes_head_witness:
  "\<exists>st st'. reachable st \<and> sleeping st = [1] \<and> cv_signal ex_mem 4 3 st = Some st' \<and> ready st' = [1] \<and> sleeping st' = []"
proof -
  have r: "map_option (\<lambda>st. (in_kernel st, locks st 3 = None, map_option (\<lambda>cv. q_list (c_queue cv)) (cvs st 4),
      sleeping st, sleeps_on st (CvObj 4) 1, ready st)) (ex_run ex_waiting) = Some (True, False, Some [1], [1], True, [])"
    by code_simp
  then obtain st lk cv where st: "ex_run ex_waiting = Some st" "in_kernel st" "locks st 3 = Some lk"
      "cvs st 4 = Some cv" "q_list (c_queue cv) = [1]" "sleeping st = [1]" "sleeps_on st (CvObj 4) 1" "ready st = []"
    by auto
  then show ?thesis
    using cv_signal_wakes_head [OF ex_run_reachable [OF st(1)] st(2-5) _ _ ex_mem_limit] ex_run_reachable [OF st(1)]
    by auto
qed

text \<open>
  \<open>cv_signal\<close> with nobody in the waiting line returns without restoring the interrupt
  level: the caller, which had interrupts enabled, goes on with interrupts off, and no timer
  interrupt can preempt it.
\<close>

theorem cv_signal_empty_keeps_interrupts_off:
  assumes "reachable st" and "in_kernel st" and "curspl st = 0" and "locks st l = Some lk"
    and "cvs st c = Some cv" and "q_list (c_queue cv) = []"
  shows "cv_signal km c l st = Some (st\<lparr>curspl := SPL_HIGH\<rparr>) \<and> interruptible st \<and>
    \<not> interruptible (st\<lparr>curspl := SPL_HIGH\<rparr>)"
proof -
  have "objs_ok st" using reachable_synch [OF assms(1)] by (simp add: synch_inv_def)
  then have "q_empty (c_queue cv)" using objs_okD(3) [OF _ assms(5)] assms(6) kq.empty by auto
  then show ?thesis using assms(2-5) by (auto simp: cv_signal_def Let_def interruptible_def in_kernel_def)
qed

theorem cv_signal_empty_keeps_interrupts_off_witness:
  "\<exists>st. reachable st \<and> curspl st = 0 \<and> cv_signal ex_mem 4 3 st = Some (st\<lparr>curspl := SPL_HIGH\<rparr>)"
proof -
  let ?acts = "[Do (Op_lock_create 3 ''l''), Do (Op_cv_create 4 ''c''), Do (Op_fork 2 True ''t''), Do Op_yield, Go_on]"
  have r: "map_option (\<lambda>st. (in_kernel st, curspl st, locks st 3 = None, map_option (\<lambda>cv. q_list (c_queue cv)) (cvs st 4)))
      (ex_run ?acts) = Some (True, 0, False, Some [])"
    by code_simp
  then obtain st lk cv where st: "ex_run ?acts = Some st" "in_kernel st" "curspl st = 0" "locks st 3 = Some lk"
      "cvs st 4 = Some cv" "q_list (c_queue cv) = []"
    by auto
  then show ?thesis
    using cv_signal_empty_keeps_interrupts_off [OF ex_run_reachable [OF st(1)] st(2-6)] ex_run_reachable [OF st(1)]
    by blast
qed

text \<open>
  a lost signal.  \<open>cv_broadcast\<close> wakes the waiters but leaves them in the waiting line, so the
  line can start with a thread that no longer sleeps.  A \<open>cv_signal\<close> then takes that
  entry away and wakes nobody, even while another thread sleeps on the condition variable.
\<close>

theorem cv_signal_lost:
  assumes "reachable st" and "in_kernel st" and "locks st l = Some lk" and "cvs st c = Some cv"
    and "q_list (c_queue cv) = h # hs" and "h \<notin> set (sleeping st)" and "kmem_limit km"
  shows "\<exists>st' cv'. cv_signal km c l st = Some st' \<and> sleeping st' = sleeping st \<and> ready st' = ready st \<and>
    cvs st' = (cvs st)(c \<mapsto> cv') \<and> q_list (c_queue cv') = hs"
proof -
  let ?st = "st\<lparr>curspl := 15\<rparr>"
  have inv: "thr_inv st" "objs_ok st" using reachable_synch [OF assms(1)] by (auto simp: synch_inv_def)
  have str: "thr_struct ?st" using inv(1) by (simp add: thr_inv_def)
  have q: "q_inv (c_queue cv)" using objs_okD(3) [OF inv(2) assms(4)] by simp
  obtain q' where w: "thread_wakeup_head km (CvObj c) (c_queue cv) ?st = Some (q', ?st)" "q_list q' = hs"
    using thread_wakeup_head_cases [OF str assms(7) _ q assms(5), of "CvObj c"] assms(2,6)
    by (auto simp: in_kernel_def)
  have "cv_signal km c l st = Some (st\<lparr>cvs := (cvs st)(c \<mapsto> cv\<lparr>c_queue := q'\<rparr>)\<rparr>)"
    using assms(3-5) w(1) kq.empty [OF q] by (simp add: cv_signal_def Let_def)
  then show ?thesis using w(2) by auto
qed

definition ex_stale :: "kact list" where
  "ex_stale = ex_waiting @ [Do (Op_broadcast 4), Do (Op_fork 5 True ''u''), Do (Op_acquire 3), Do (Op_wait 4 3), Go_on]"

theorem cv_signal_lost_witness:
  "\<exists>st st'. reachable st \<and> sleeping st = [2] \<and> sleeps_on st (CvObj 4) 2 \<and> cv_signal ex_mem 4 3 st = Some st' \<and>
    sleeping st' = [2]"
proof -
  have r: "map_option (\<lambda>st. (in_kernel st, locks st 3 = None, map_option (\<lambda>cv. q_list (c_queue cv)) (cvs st 4),
      sleeping st, sleeps_on st (CvObj 4) 2)) (ex_run ex_stale) = Some (True, False, Some [1, 2], [2], True)"
    by code_simp
  then obtain st lk cv where st: "ex_run ex_stale = Some st" "in_kernel st" "locks st 3 = Some lk"
      "cvs st 4 = Some cv" "q_list (c_queue cv) = [1, 2]" "sleeping st = [2]" "sleeps_on st (CvObj 4) 2"
    by auto
  then show ?thesis
    using cv_signal_lost [OF ex_run_reachable [OF st(1)] st(2-5) _ ex_mem_limit] ex_run_reachable [OF st(1)] by auto
qed

end
