(* ===== verification/Uio.thy ===== *)
theory Uio
  imports Kern_Prelude
begin

text \<open>
  The data movement of \<open>kern/userprog/uio.c\<close>.  A \<open>uio\<close> describes a transfer between a kernel
  buffer and the memory its \<open>iovec\<close> points to: \<open>iov_buf\<close> is that memory from the
  current base on, of length \<open>iov_len\<close>, and \<open>uio_done\<close> the part the transfer has passed.
  \<open>uiomove\<close> returns what the kernel buffer holds afterwards.

  \<open>uio_ufault\<close> stands for the user address space: it says whether a \<open>copyin\<close> or \<open>copyout\<close> of
  so many bytes, that many bytes into the region, fails.  What a failed \<open>copyout\<close> has already
  written to user memory is not described.
\<close>

section \<open>The model\<close>

datatype uio_rw = UIO_READ | UIO_WRITE

datatype uio_seg = UIO_USERSPACE | UIO_SYSSPACE | UIO_USERISPACE

type_synonym bytes = "8 word list"

record uio =
  uio_done :: bytes
  iov_buf :: bytes
  uio_offset :: int
  uio_resid :: nat
  uio_segflg :: uio_seg
  uio_rw :: uio_rw
  uio_ufault :: "nat \<Rightarrow> nat \<Rightarrow> bool"

text \<open>The last lines of the loop: \<open>size\<close> bytes \<open>bs\<close> have been moved to or from the region.\<close>

definition uio_advance :: "bytes \<Rightarrow> uio \<Rightarrow> uio" where
  "uio_advance bs u = u\<lparr>uio_done := uio_done u @ bs, iov_buf := drop (length bs) (iov_buf u),
     uio_resid := c_uint (uio_resid u + 2 ^ 32 - length bs), uio_offset := c_int (uio_offset u + int (length bs))\<rparr>"

definition uio_bad :: "nat \<Rightarrow> uio \<Rightarrow> bool" where
  "uio_bad sz u \<longleftrightarrow> uio_segflg u \<noteq> UIO_SYSSPACE \<and> uio_ufault u (length (uio_done u)) sz"

text \<open>The loop of \<open>uiomove\<close>: \<open>pre\<close> is the part of the kernel buffer behind \<open>ptr\<close>, \<open>ptr\<close> the rest.\<close>

function uiomove_loop :: "bytes \<Rightarrow> bytes \<Rightarrow> uio \<Rightarrow> (bytes, uio) kcall" where
  "uiomove_loop pre ptr u =
     (if ptr \<noteq> [] \<and> uio_resid u > 0 then
        (let sz = min (length (iov_buf u)) (length ptr) in
         if sz = 0 then None
         else if uio_bad sz u then Some (Inl EFAULT, u)
         else let bs = (if uio_rw u = UIO_READ then take sz ptr else take sz (iov_buf u))
              in uiomove_loop (pre @ bs) (drop sz ptr) (uio_advance bs u))
      else Some (Inr (pre @ ptr), u))"
  by pat_completeness auto
termination
  by (relation "measure (\<lambda>(pre, ptr, u). length ptr)") auto

declare uiomove_loop.simps [simp del]

definition uiomove :: "bytes \<Rightarrow> uio \<Rightarrow> (bytes, uio) kcall" where
  "uiomove ptr u = uiomove_loop [] ptr u"

text \<open>The loop of \<open>uiomovezeros\<close>, 16 zeros at a time.\<close>

function uiomovezeros :: "nat \<Rightarrow> uio \<Rightarrow> (unit, uio) kcall" where
  "uiomovezeros n u =
     (if uio_rw u \<noteq> UIO_READ then None
      else if n > 0 then
        (let amt = min 16 n in try_k (uiomove (replicate amt 0) u) (\<lambda>_ u'. uiomovezeros (n - amt) u'))
      else Some (Inr (), u))"
  by pat_completeness auto
termination
  by (relation "measure (\<lambda>(n, u). n)") auto

declare uiomovezeros.simps [simp del]

definition mk_kuio :: "bytes \<Rightarrow> int \<Rightarrow> uio_rw \<Rightarrow> uio" where
  "mk_kuio kbuf pos rw = \<lparr>uio_done = [], iov_buf = kbuf, uio_offset = pos, uio_resid = length kbuf,
     uio_segflg = UIO_SYSSPACE, uio_rw = rw, uio_ufault = (\<lambda>_ _. False)\<rparr>"

section \<open>Transfers that do not run out\<close>

text \<open>
  A transfer of \<open>n\<close> bytes that fits: there is room in the region and in the residue, the offset does
  not overflow and the user memory is there.
\<close>

definition uio_fits :: "nat \<Rightarrow> uio \<Rightarrow> bool" where
  "uio_fits n u \<longleftrightarrow> n \<le> length (iov_buf u) \<and> n \<le> uio_resid u \<and> uio_resid u < 2 ^ 32 \<and>
     0 \<le> uio_offset u \<and> uio_offset u + int n < 2 ^ 31"

definition uio_safe :: "uio \<Rightarrow> bool" where
  "uio_safe u \<longleftrightarrow> uio_segflg u = UIO_SYSSPACE \<or> (\<forall>i n. \<not> uio_ufault u i n)"

text \<open>\<open>n\<close> bytes further: the bytes that crossed are those of the kernel buffer when reading.\<close>

definition uio_moved :: "bytes \<Rightarrow> uio \<Rightarrow> uio" where
  "uio_moved bs u = u\<lparr>uio_done := uio_done u @ bs, iov_buf := drop (length bs) (iov_buf u),
     uio_resid := uio_resid u - length bs, uio_offset := uio_offset u + int (length bs)\<rparr>"

lemma uio_moved_fields [simp]:
  "uio_segflg (uio_moved bs u) = uio_segflg u" "uio_rw (uio_moved bs u) = uio_rw u"
  "uio_ufault (uio_moved bs u) = uio_ufault u" "uio_safe (uio_moved bs u) = uio_safe u"
  "uio_resid (uio_moved bs u) = uio_resid u - length bs"
  "uio_offset (uio_moved bs u) = uio_offset u + int (length bs)"
  "uio_done (uio_moved bs u) = uio_done u @ bs" "iov_buf (uio_moved bs u) = drop (length bs) (iov_buf u)"
  by (simp_all add: uio_moved_def uio_safe_def)

lemma uio_moved_append: "uio_moved bs (uio_moved as u) = uio_moved (as @ bs) u"
  by (simp add: uio_moved_def add.commute)

lemma uio_moved_Nil [simp]: "uio_moved [] u = u"
  by (simp add: uio_moved_def)

lemma uio_advance_fits: "uio_fits (length bs) u \<Longrightarrow> uio_advance bs u = uio_moved bs u"
proof -
  assume f: "uio_fits (length bs) u"
  have "c_uint (uio_resid u + 2 ^ 32 - length bs) = uio_resid u - length bs"
  proof -
    have "uio_resid u + 2 ^ 32 - length bs = (uio_resid u - length bs) + 2 ^ 32" using f by (simp add: uio_fits_def)
    moreover have "uio_resid u - length bs < 2 ^ 32"
      using f unfolding uio_fits_def by (meson diff_le_self le_less_trans)
    ultimately show ?thesis unfolding c_uint_def by (metis mod_add_self2 mod_less)
  qed
  moreover have "c_int (uio_offset u + int (length bs)) = uio_offset u + int (length bs)"
    using f by (intro c_int_id) (auto simp: uio_fits_def)
  ultimately show ?thesis by (simp add: uio_advance_def uio_moved_def)
qed

text \<open>What the kernel buffer and the region hold after a transfer of the whole buffer.\<close>

lemma uiomove_fits:
  assumes "uio_fits (length ptr) u" and "uio_safe u"
  shows "uiomove ptr u =
    (let bs = (if uio_rw u = UIO_READ then ptr else take (length ptr) (iov_buf u)) in
     Some (Inr bs, uio_moved bs u))"
proof (cases "ptr = []")
  case True
  then show ?thesis by (simp add: uiomove_def uiomove_loop.simps)
next
  case False
  define bs where "bs = (if uio_rw u = UIO_READ then ptr else take (length ptr) (iov_buf u))"
  have len: "length bs = length ptr" and m: "min (length (iov_buf u)) (length ptr) = length ptr"
    using assms(1) by (auto simp: bs_def uio_fits_def)
  have "0 < length ptr" using False by simp
  then have "uio_resid u > 0" using assms(1) unfolding uio_fits_def by linarith
  moreover have "\<not> uio_bad (length ptr) u" using assms(2) by (auto simp: uio_bad_def uio_safe_def)
  ultimately have "uiomove ptr u = uiomove_loop bs [] (uio_advance bs u)"
    using False by (simp add: uiomove_def uiomove_loop.simps [of "[]" ptr u] m bs_def Let_def)
  then show ?thesis
    using uio_advance_fits [of bs u] assms(1) len by (simp add: uiomove_loop.simps bs_def [symmetric] Let_def)
qed

lemma uio_fits_mono: "uio_fits n u \<Longrightarrow> m \<le> n \<Longrightarrow> uio_fits m u"
  unfolding uio_fits_def by linarith

lemma uio_fits_moved: "uio_fits (length bs + n) u \<Longrightarrow> uio_fits n (uio_moved bs u)"
  by (auto simp: uio_fits_def)

lemma uiomovezeros_fits:
  assumes "uio_fits n u" and "uio_safe u" and "uio_rw u = UIO_READ"
  shows "uiomovezeros n u = Some (Inr (), uio_moved (replicate n 0) u)"
  using assms
proof (induction n u rule: uiomovezeros.induct)
  case (1 n u)
  show ?case
  proof (cases "n = 0")
    case True
    then show ?thesis using 1(4) by (simp add: uiomovezeros.simps)
  next
    case False
    let ?a = "min 16 n" and ?z = "replicate (min 16 n) (0 :: 8 word)"
    have n: "?a + (n - ?a) = n" by simp
    have f: "uio_fits (length ?z) u" using 1(2) by (rule uio_fits_mono) simp
    have f': "uio_fits (n - ?a) (uio_moved ?z u)" using 1(2) uio_fits_moved [of ?z "n - ?a" u] n by simp
    have mv: "uiomove ?z u = Some (Inr ?z, uio_moved ?z u)"
      using uiomove_fits [OF f 1(3)] 1(4) by (simp add: Let_def)
    have "uiomovezeros (n - ?a) (uio_moved ?z u) = Some (Inr (), uio_moved (replicate (n - ?a) 0) (uio_moved ?z u))"
      using 1(1) [OF _ _ refl] False 1(3,4) f' by simp
    then show ?thesis
      using False 1(4) mv n by (simp add: uiomovezeros.simps [of n u] uio_moved_append replicate_add [symmetric] Let_def)
  qed
qed

end
