(* ===== verification/Lhd.thy ===== *)
theory Lhd
  imports Uio
begin

text \<open>
  The LAMEbus disk driver, \<open>kern/dev/lamebus/lhd.c\<close>.  The disk controller is hardware and so an
  argument: a \<open>'h lhd_hw\<close> says what one operation does, given whether the write bit is set, the
  sector register and the on-card buffer: the values of the status register that the
  interrupts after it find, the contents of the buffer and the new state of the disk.

  The semaphore \<open>lh_clear\<close> admits one request at a time and \<open>lh_done\<close> is raised by the interrupt
  handler; so an operation is the transfer to the buffer, the operation of the controller, the
  interrupts up to the one that completes it, and the transfer from the buffer.
\<close>

unbundle bit_operations_syntax

section \<open>The model\<close>

text \<open>
  The function \<open>d_io\<close> of a block device: the request and the state of the device give the result, the
  request as the driver leaves it and the new state of the device.
\<close>

type_synonym 'd d_io = "uio \<Rightarrow> 'd \<Rightarrow> ((errno + unit) \<times> uio \<times> 'd) option"

abbreviation LHD_SECTSIZE :: nat where "LHD_SECTSIZE \<equiv> 512"

abbreviation LHD_IDLE :: "32 word" where "LHD_IDLE \<equiv> 0"
abbreviation LHD_WORKING :: "32 word" where "LHD_WORKING \<equiv> 1"
abbreviation LHD_OK :: "32 word" where "LHD_OK \<equiv> 4"
abbreviation LHD_INVSECT :: "32 word" where "LHD_INVSECT \<equiv> 12"
abbreviation LHD_MEDIA :: "32 word" where "LHD_MEDIA \<equiv> 20"
abbreviation LHD_ISWRITE :: "32 word" where "LHD_ISWRITE \<equiv> 2"
abbreviation LHD_STATEMASK :: "32 word" where "LHD_STATEMASK \<equiv> 0x1d"

type_synonym 'h lhd_hw = "bool \<Rightarrow> nat \<Rightarrow> bytes \<Rightarrow> 'h \<Rightarrow> 32 word list \<times> bytes \<times> 'h"

record 'h lhd_softc =
  lh_buf :: bytes
  lh_result :: "errno + unit"
  d_blocks :: nat
  lh_disk :: 'h

definition lhd_code_to_errno :: "32 word \<Rightarrow> errno + unit" where
  "lhd_code_to_errno code = (let st = code AND LHD_STATEMASK in
     if st = LHD_OK then Inr ()
     else if st = LHD_INVSECT then Inl EINVAL
     else if st = LHD_MEDIA then Inl EIO
     else Inl EAGAIN)"

text \<open>The interrupt handler, given the status register; the flag says whether it raised \<open>lh_done\<close>.\<close>

definition lhd_iodone :: "errno + unit \<Rightarrow> 'h lhd_softc \<Rightarrow> bool \<times> 'h lhd_softc" where
  "lhd_iodone err lh = (True, lh\<lparr>lh_result := err\<rparr>)"

definition lhd_irq :: "32 word \<Rightarrow> 'h lhd_softc \<Rightarrow> bool \<times> 'h lhd_softc" where
  "lhd_irq val lh = (let st = val AND LHD_STATEMASK in
     if st = LHD_OK \<or> st = LHD_INVSECT \<or> st = LHD_MEDIA then lhd_iodone (lhd_code_to_errno val) lh
     else (False, lh))"

text \<open>\<open>P(lh->lh_done)\<close>: the interrupts up to the one that completes the operation; without one, the
  caller waits forever.\<close>

fun lhd_wait :: "32 word list \<Rightarrow> 'h lhd_softc \<Rightarrow> 'h lhd_softc option" where
  "lhd_wait [] lh = None"
| "lhd_wait (val # vals) lh = (let (done, lh') = lhd_irq val lh in if done then Some lh' else lhd_wait vals lh')"

text \<open>One operation of the controller: the two register writes and the wait.\<close>

definition lhd_op :: "'h lhd_hw \<Rightarrow> bool \<Rightarrow> nat \<Rightarrow> 'h lhd_softc \<Rightarrow> 'h lhd_softc option" where
  "lhd_op hw iswrite sector lh =
     (let (vals, buf, disk) = hw iswrite sector (lh_buf lh) (lh_disk lh)
      in lhd_wait vals (lh\<lparr>lh_buf := buf, lh_disk := disk\<rparr>))"

text \<open>One round of the loop of \<open>lhd_io\<close>.  \<open>uiomove\<close> works on the first sector of the buffer.\<close>

definition lhd_move :: "uio \<Rightarrow> 'h lhd_softc \<Rightarrow> ((errno + unit) \<times> uio \<times> 'h lhd_softc) option" where
  "lhd_move u lh = do {
     (r, u') \<leftarrow> uiomove (take LHD_SECTSIZE (lh_buf lh)) u;
     case r of
       Inl e \<Rightarrow> Some (Inl e, u', lh)
     | Inr buf \<Rightarrow> Some (Inr (), u', lh\<lparr>lh_buf := buf @ drop LHD_SECTSIZE (lh_buf lh)\<rparr>) }"

definition lhd_sector :: "'h lhd_hw \<Rightarrow> nat \<Rightarrow> uio \<Rightarrow> 'h lhd_softc \<Rightarrow> ((errno + unit) \<times> uio \<times> 'h lhd_softc) option" where
  "lhd_sector hw sector u lh = do {
     (r, u1, lh1) \<leftarrow> (if uio_rw u = UIO_WRITE then lhd_move u lh else Some (Inr (), u, lh));
     if r \<noteq> Inr () then Some (r, u1, lh1)
     else do {
       lh2 \<leftarrow> lhd_op hw (uio_rw u1 = UIO_WRITE) sector lh1;
       if lh_result lh2 = Inr () \<and> uio_rw u1 = UIO_READ then lhd_move u1 lh2
       else Some (lh_result lh2, u1, lh2) } }"

fun lhd_loop :: "'h lhd_hw \<Rightarrow> nat \<Rightarrow> nat \<Rightarrow> uio \<Rightarrow> 'h lhd_softc \<Rightarrow> ((errno + unit) \<times> uio \<times> 'h lhd_softc) option" where
  "lhd_loop hw sector 0 u lh = Some (Inr (), u, lh)"
| "lhd_loop hw sector (Suc n) u lh = do {
     (r, u', lh') \<leftarrow> lhd_sector hw sector u lh;
     if r \<noteq> Inr () then Some (r, u', lh') else lhd_loop hw (c_uint (sector + 1)) n u' lh' }"

text \<open>The offset is a signed number: division truncates towards zero and the remainder has its sign,
  both are then converted to \<open>u_int32_t\<close>.\<close>

definition off_blk :: "int \<Rightarrow> nat" where
  "off_blk off = nat ((if 0 \<le> off then off div 512 else - ((- off) div 512)) mod 2 ^ 32)"

definition off_rem :: "int \<Rightarrow> nat" where
  "off_rem off = nat ((if 0 \<le> off then off mod 512 else - ((- off) mod 512)) mod 2 ^ 32)"

definition lhd_io :: "'h lhd_hw \<Rightarrow> 'h lhd_softc d_io" where
  "lhd_io hw u lh = (let
       sector = off_blk (uio_offset u);
       sectoff = off_rem (uio_offset u);
       len = uio_resid u div LHD_SECTSIZE;
       lenoff = uio_resid u mod LHD_SECTSIZE in
     if sectoff \<noteq> 0 \<or> lenoff \<noteq> 0 then Some (Inl EINVAL, u, lh)
     else if c_uint (sector + len) > d_blocks lh then Some (Inl EINVAL, u, lh)
     else lhd_loop hw sector len u lh)"

definition lhd_open :: "int \<Rightarrow> errno + unit" where "lhd_open openflags = Inr ()"

definition lhd_close :: "errno + unit" where "lhd_close = Inr ()"

definition lhd_ioctl :: "int \<Rightarrow> errno + unit" where "lhd_ioctl op = Inl EIOCTL"

section \<open>Block numbers of offsets\<close>

lemma off_blk_nonneg: "0 \<le> off \<Longrightarrow> off < 2 ^ 31 \<Longrightarrow> off_blk off = nat (off div 512)"
  unfolding off_blk_def by (simp add: mod_pos_pos_trivial)

lemma off_rem_nonneg: "0 \<le> off \<Longrightarrow> off_rem off = nat (off mod 512)"
proof -
  have "0 \<le> off mod 512" "off mod 512 < 512" by simp_all
  moreover from this have "off mod 512 < 2 ^ 32" by (simp add: less_trans [of _ 512])
  ultimately have "(off mod 512) mod 2 ^ 32 = off mod 512" by (intro mod_pos_pos_trivial)
  then show "0 \<le> off \<Longrightarrow> off_rem off = nat (off mod 512)" by (simp add: off_rem_def)
qed

lemma off_blk_block [simp]: "b < 2 ^ 22 \<Longrightarrow> off_blk (int b * 512) = b"
  by (subst off_blk_nonneg) simp_all

lemma off_rem_block [simp]: "off_rem (int b * 512) = 0"
  by (subst off_rem_nonneg) simp_all

section \<open>The disk as a block device\<close>

text \<open>
  The interface the filesystem relies on: a device of \<open>n\<close> blocks of 512 bytes, on which a
  request for one block transfers it and changes nothing else.  \<open>good\<close> is what holds of the
  device between requests.
\<close>

locale block_device =
  fixes dio :: "'d d_io" and blk :: "'d \<Rightarrow> nat \<Rightarrow> bytes" and good :: "'d \<Rightarrow> bool" and n :: nat
  assumes n_limit: "n < 2 ^ 22"
    and blk_length: "good d \<Longrightarrow> b < n \<Longrightarrow> length (blk d b) = 512"
    and dio_read: "good d \<Longrightarrow> b < n \<Longrightarrow> uio_rw u = UIO_READ \<Longrightarrow> uio_offset u = int b * 512 \<Longrightarrow>
      uio_resid u = 512 \<Longrightarrow> 512 \<le> length (iov_buf u) \<Longrightarrow> uio_safe u \<Longrightarrow>
      \<exists>d'. dio u d = Some (Inr (), uio_moved (blk d b) u, d') \<and> good d' \<and> blk d' = blk d"
    and dio_write: "good d \<Longrightarrow> b < n \<Longrightarrow> uio_rw u = UIO_WRITE \<Longrightarrow> uio_offset u = int b * 512 \<Longrightarrow>
      uio_resid u = 512 \<Longrightarrow> 512 \<le> length (iov_buf u) \<Longrightarrow> uio_safe u \<Longrightarrow>
      \<exists>d'. dio u d = Some (Inr (), uio_moved (take 512 (iov_buf u)) u, d') \<and> good d' \<and>
        blk d' = (blk d)(b := take 512 (iov_buf u))"

text \<open>
  A working controller of \<open>n\<close> sectors: every operation on a sector of the disk ends with the status
  \<open>LHD_OK\<close>, a read fills the buffer with the sector, and a write makes the sector the contents
  of the buffer.
\<close>

locale working_disk =
  fixes hw :: "'h lhd_hw" and sect :: "'h \<Rightarrow> nat \<Rightarrow> bytes" and n :: nat
  assumes sectors_limit: "n < 2 ^ 22"
    and sect_length: "s < n \<Longrightarrow> length (sect h s) = LHD_SECTSIZE"
    and hw_read: "s < n \<Longrightarrow> length buf = LHD_SECTSIZE \<Longrightarrow>
      \<exists>h'. hw False s buf h = ([LHD_OK], sect h s, h') \<and> sect h' = sect h"
    and hw_write: "s < n \<Longrightarrow> length buf = LHD_SECTSIZE \<Longrightarrow>
      \<exists>h'. hw True s buf h = ([LHD_OK OR LHD_ISWRITE], buf, h') \<and> sect h' = (sect h)(s := buf)"

definition lhd_good :: "nat \<Rightarrow> 'h lhd_softc \<Rightarrow> bool" where
  "lhd_good n lh \<longleftrightarrow> length (lh_buf lh) = LHD_SECTSIZE \<and> d_blocks lh = n"

definition lhd_blk :: "('h \<Rightarrow> nat \<Rightarrow> bytes) \<Rightarrow> 'h lhd_softc \<Rightarrow> nat \<Rightarrow> bytes" where
  "lhd_blk sect lh = sect (lh_disk lh)"

lemma lhd_move_fits:
  assumes "length (lh_buf lh) = LHD_SECTSIZE" and "uio_fits LHD_SECTSIZE u" and "uio_safe u"
  shows "lhd_move u lh = (let bs = (if uio_rw u = UIO_READ then lh_buf lh else take LHD_SECTSIZE (iov_buf u)) in
    Some (Inr (), uio_moved bs u, lh\<lparr>lh_buf := bs\<rparr>))"
  using assms uiomove_fits [of "lh_buf lh" u] by (simp add: lhd_move_def Let_def)

lemma lhd_wait_done:
  "val AND LHD_STATEMASK \<in> {LHD_OK, LHD_INVSECT, LHD_MEDIA} \<Longrightarrow>
     lhd_wait (val # vals) lh = Some (lh\<lparr>lh_result := lhd_code_to_errno val\<rparr>)"
  by (auto simp: lhd_irq_def lhd_iodone_def Let_def)

text \<open>A request for one sector is one round of the loop.\<close>

lemma lhd_io_one:
  assumes "b < d_blocks lh" and "d_blocks lh < 2 ^ 22" and "uio_offset u = int b * 512" and "uio_resid u = 512"
  shows "lhd_io hw u lh = lhd_sector hw b u lh"
proof -
  have "c_uint (b + 1) = b + 1" using assms by (intro c_uint_id) simp
  then have "lhd_io hw u lh = lhd_loop hw b 1 u lh" using assms by (simp add: lhd_io_def Let_def)
  also have "\<dots> = lhd_sector hw b u lh"
    by (cases "lhd_sector hw b u lh") auto
  finally show ?thesis .
qed

lemma one_block_fits:
  assumes "b < n" and "n < 2 ^ 22" and "uio_offset u = int b * 512" and "uio_resid u = 512" and "512 \<le> length (iov_buf u)"
  shows "uio_fits 512 u"
  using assms by (simp add: uio_fits_def)

lemma status_ok:
  "(LHD_OK OR LHD_ISWRITE) AND LHD_STATEMASK = LHD_OK" "LHD_OK AND LHD_STATEMASK = LHD_OK"
  "(LHD_MEDIA OR LHD_ISWRITE) AND LHD_STATEMASK = LHD_MEDIA" "LHD_MEDIA AND LHD_STATEMASK = LHD_MEDIA"
  by simp_all

context working_disk
begin

lemma lhd_read_sector:
  assumes "lhd_good n lh" and "b < n" and "uio_rw u = UIO_READ" and "uio_fits 512 u" and "uio_safe u"
  shows "\<exists>lh'. lhd_sector hw b u lh = Some (Inr (), uio_moved (sect (lh_disk lh) b) u, lh') \<and>
    lhd_good n lh' \<and> lhd_blk sect lh' = lhd_blk sect lh"
proof -
  obtain h' where h: "hw False b (lh_buf lh) (lh_disk lh) = ([LHD_OK], sect (lh_disk lh) b, h')" "sect h' = sect (lh_disk lh)"
    using hw_read assms(1,2) unfolding lhd_good_def by blast
  have op: "lhd_op hw False b lh = Some (lh\<lparr>lh_buf := sect (lh_disk lh) b, lh_disk := h', lh_result := Inr ()\<rparr>)"
    using h by (simp add: lhd_op_def lhd_irq_def lhd_iodone_def lhd_code_to_errno_def)
  then show ?thesis
    using assms h sect_length [OF assms(2)] by (simp add: lhd_sector_def lhd_move_fits Let_def lhd_good_def lhd_blk_def)
qed

lemma lhd_write_sector:
  assumes "lhd_good n lh" and "b < n" and "uio_rw u = UIO_WRITE" and "uio_fits 512 u" and "uio_safe u"
  shows "\<exists>lh'. lhd_sector hw b u lh = Some (Inr (), uio_moved (take 512 (iov_buf u)) u, lh') \<and>
    lhd_good n lh' \<and> lhd_blk sect lh' = (lhd_blk sect lh)(b := take 512 (iov_buf u))"
proof -
  define bs where "bs = take 512 (iov_buf u)"
  have len: "length bs = LHD_SECTSIZE" using assms(4) by (simp add: bs_def uio_fits_def)
  obtain h' where h: "hw True b bs (lh_disk lh) = ([LHD_OK OR LHD_ISWRITE], bs, h')" "sect h' = (sect (lh_disk lh))(b := bs)"
    using hw_write [OF assms(2) len] by blast
  have mv: "lhd_move u lh = Some (Inr (), uio_moved bs u, lh\<lparr>lh_buf := bs\<rparr>)"
    using assms by (simp add: lhd_move_fits lhd_good_def bs_def Let_def)
  have "lhd_op hw True b (lh\<lparr>lh_buf := bs\<rparr>) = Some (lh\<lparr>lh_buf := bs, lh_disk := h', lh_result := Inr ()\<rparr>)"
    using h by (simp add: lhd_op_def lhd_irq_def lhd_iodone_def lhd_code_to_errno_def)
  then show ?thesis
    using assms h mv len by (simp add: lhd_sector_def lhd_good_def lhd_blk_def bs_def [symmetric])
qed

end

text \<open>The driver on a working controller is a block device.\<close>

sublocale working_disk \<subseteq> block_device "lhd_io hw" "lhd_blk sect" "lhd_good n" n
proof
  show "n < 2 ^ 22" by (rule sectors_limit)
  show "length (lhd_blk sect d b) = 512" if "b < n" for d b
    using sect_length [OF that] by (simp add: lhd_blk_def)
  show "\<exists>d'. lhd_io hw u d = Some (Inr (), uio_moved (lhd_blk sect d b) u, d') \<and> lhd_good n d' \<and> lhd_blk sect d' = lhd_blk sect d"
    if "lhd_good n d" "b < n" "uio_rw u = UIO_READ" "uio_offset u = int b * 512" "uio_resid u = 512"
      "512 \<le> length (iov_buf u)" "uio_safe u" for d b u
    using lhd_read_sector [of d b u] lhd_io_one [of b d u hw] one_block_fits [of b n u] that sectors_limit
    by (simp add: lhd_blk_def lhd_good_def)
  show "\<exists>d'. lhd_io hw u d = Some (Inr (), uio_moved (take 512 (iov_buf u)) u, d') \<and> lhd_good n d' \<and>
      lhd_blk sect d' = (lhd_blk sect d)(b := take 512 (iov_buf u))"
    if "lhd_good n d" "b < n" "uio_rw u = UIO_WRITE" "uio_offset u = int b * 512" "uio_resid u = 512"
      "512 \<le> length (iov_buf u)" "uio_safe u" for d b u
    using lhd_write_sector [of d b u] lhd_io_one [of b d u hw] one_block_fits [of b n u] that sectors_limit
    by (simp add: lhd_blk_def lhd_good_def)
qed

context working_disk
begin

lemma lhd_block_device: "block_device (lhd_io hw) (lhd_blk sect) (lhd_good n) n"
  by unfold_locales

end

section \<open>A disk in memory\<close>

text \<open>It shows that the assumptions on the controller can be met.\<close>

definition ram_sect :: "(nat \<Rightarrow> bytes) \<Rightarrow> nat \<Rightarrow> bytes" where
  "ram_sect h s = take 512 (h s @ replicate 512 0)"

definition ram_hw :: "(nat \<Rightarrow> bytes) lhd_hw" where
  "ram_hw iswrite s buf h =
     (if iswrite then ([LHD_OK OR LHD_ISWRITE], buf, h(s := buf)) else ([LHD_OK], ram_sect h s, h))"

interpretation ram: working_disk ram_hw ram_sect 64
proof
  show "(64 :: nat) < 2 ^ 22" by simp
  show "length (ram_sect h s) = LHD_SECTSIZE" for h s by (simp add: ram_sect_def)
  show "\<exists>h'. ram_hw False s buf h = ([LHD_OK], ram_sect h s, h') \<and> ram_sect h' = ram_sect h" for s buf h
    by (simp add: ram_hw_def)
  show "\<exists>h'. ram_hw True s buf h = ([LHD_OK OR LHD_ISWRITE], buf, h') \<and> ram_sect h' = (ram_sect h)(s := buf)"
    if "length buf = LHD_SECTSIZE" for s buf h
    using that by (intro exI [of _ "h(s := buf)"]) (auto simp: ram_hw_def ram_sect_def fun_eq_iff)
qed

section \<open>Properties\<close>

context working_disk
begin

lemma lhd_loop_read:
  assumes "lhd_good n lh" "s + m \<le> n" "uio_rw u = UIO_READ" "uio_fits (512 * m) u" "uio_safe u"
  shows "\<exists>lh'. lhd_loop hw s m u lh = Some (Inr (), uio_moved (concat (map (lhd_blk sect lh) [s..<s + m])) u, lh') \<and>
    lhd_good n lh' \<and> lhd_blk sect lh' = lhd_blk sect lh"
  using assms
proof (induction m arbitrary: s u lh)
  case (Suc m)
  let ?bs = "lhd_blk sect lh s"
  have s: "s < n" and f: "uio_fits 512 u" "uio_fits (512 + 512 * m) u" using Suc.prems by (auto elim: uio_fits_mono)
  have c: "c_uint (s + 1) = s + 1" using s sectors_limit by (intro c_uint_id) simp
  obtain lh1 where lh1: "lhd_sector hw s u lh = Some (Inr (), uio_moved ?bs u, lh1)" "lhd_good n lh1" "lhd_blk sect lh1 = lhd_blk sect lh"
    using lhd_read_sector [OF Suc.prems(1) s Suc.prems(3) f(1) Suc.prems(5)] by (auto simp: lhd_blk_def)
  have "length ?bs = 512" using sect_length [OF s] by (simp add: lhd_blk_def)
  then have "uio_fits (512 * m) (uio_moved ?bs u)" using uio_fits_moved [of ?bs "512 * m" u] f(2) by simp
  then obtain lh2 where lh2: "lhd_loop hw (s + 1) m (uio_moved ?bs u) lh1 =
        Some (Inr (), uio_moved (concat (map (lhd_blk sect lh) [s + 1..<s + 1 + m])) (uio_moved ?bs u), lh2)"
      "lhd_good n lh2" "lhd_blk sect lh2 = lhd_blk sect lh"
    using Suc.IH [of lh1 "s + 1" "uio_moved ?bs u"] Suc.prems lh1 by auto
  have "[s..<s + Suc m] = s # [s + 1..<s + 1 + m]" by (simp add: upt_rec)
  then have "?bs @ concat (map (lhd_blk sect lh) [s + 1..<s + 1 + m]) = concat (map (lhd_blk sect lh) [s..<s + Suc m])" by simp
  then have "lhd_loop hw s (Suc m) u lh = Some (Inr (), uio_moved (concat (map (lhd_blk sect lh) [s..<s + Suc m])) u, lh2)"
    using lh1(1) lh2(1) c by (simp add: uio_moved_append)
  then show ?case using lh2 by blast
qed simp

lemma lhd_loop_write:
  assumes "lhd_good n lh" "s + m \<le> n" "uio_rw u = UIO_WRITE" "uio_fits (512 * m) u" "uio_safe u"
  shows "\<exists>lh'. lhd_loop hw s m u lh = Some (Inr (), uio_moved (take (512 * m) (iov_buf u)) u, lh') \<and> lhd_good n lh' \<and>
    (\<forall>b. lhd_blk sect lh' b = (if s \<le> b \<and> b < s + m then take 512 (drop (512 * (b - s)) (iov_buf u)) else lhd_blk sect lh b))"
  using assms
proof (induction m arbitrary: s u lh)
  case (Suc m)
  let ?bs = "take 512 (iov_buf u)"
  have s: "s < n" and f: "uio_fits 512 u" "uio_fits (512 + 512 * m) u" using Suc.prems by (auto elim: uio_fits_mono)
  have c: "c_uint (s + 1) = s + 1" using s sectors_limit by (intro c_uint_id) simp
  obtain lh1 where lh1: "lhd_sector hw s u lh = Some (Inr (), uio_moved ?bs u, lh1)" "lhd_good n lh1"
      "lhd_blk sect lh1 = (lhd_blk sect lh)(s := ?bs)"
    using lhd_write_sector [OF Suc.prems(1) s Suc.prems(3) f(1) Suc.prems(5)] by auto
  have len: "length ?bs = 512" using f(1) by (simp add: uio_fits_def)
  then have "uio_fits (512 * m) (uio_moved ?bs u)" using uio_fits_moved [of ?bs "512 * m" u] f(2) by simp
  then obtain lh2 where lh2: "lhd_loop hw (s + 1) m (uio_moved ?bs u) lh1 =
        Some (Inr (), uio_moved (take (512 * m) (iov_buf (uio_moved ?bs u))) (uio_moved ?bs u), lh2)" "lhd_good n lh2"
      "\<forall>b. lhd_blk sect lh2 b = (if s + 1 \<le> b \<and> b < s + 1 + m
         then take 512 (drop (512 * (b - (s + 1))) (iov_buf (uio_moved ?bs u))) else lhd_blk sect lh1 b)"
    using Suc.IH [of lh1 "s + 1" "uio_moved ?bs u"] Suc.prems lh1 by auto
  have buf: "iov_buf (uio_moved ?bs u) = drop 512 (iov_buf u)" using len by simp
  have app: "?bs @ take (512 * m) (drop 512 (iov_buf u)) = take (512 * Suc m) (iov_buf u)"
    using take_add [of 512 "512 * m" "iov_buf u"] by simp
  have "lhd_blk sect lh2 b = (if s \<le> b \<and> b < s + Suc m then take 512 (drop (512 * (b - s)) (iov_buf u)) else lhd_blk sect lh b)" for b
  proof (cases "s + 1 \<le> b \<and> b < s + 1 + m")
    case True
    then have "b - s = Suc (b - (s + 1))" by linarith
    then have "512 * (b - (s + 1)) + 512 = 512 * (b - s)" by simp
    then show ?thesis using True lh2(3) buf by simp
  next
    case False
    then have "lhd_blk sect lh2 b = lhd_blk sect lh1 b" using lh2(3) by presburger
    moreover have "s \<le> b \<and> b < s + Suc m \<longleftrightarrow> b = s" using False by linarith
    ultimately show ?thesis using lh1(3) by simp
  qed
  moreover have "lhd_loop hw s (Suc m) u lh = Some (Inr (), uio_moved (take (512 * Suc m) (iov_buf u)) u, lh2)"
    using lh1(1) lh2(1) c buf app by (simp add: uio_moved_append)
  ultimately show ?case using lh2(2) by blast
qed auto

end



end
