(* ===== verification/Sfs_Format.thy ===== *)
theory Sfs_Format
  imports Uio
begin

text \<open>
  The on-disk format of the SFS filesystem, \<open>kern/include/kern/sfs.h\<close>: superblock, inode,
  directory entry and indirect block, each as the bytes of a big-endian machine, and the round
  trips between structures and bytes.  Numbers are natural numbers below \<open>2^32\<close> or \<open>2^16\<close>.
\<close>

section \<open>The model\<close>

abbreviation SFS_MAGIC :: nat where "SFS_MAGIC \<equiv> 0xabadf001"
abbreviation SFS_BLOCKSIZE :: nat where "SFS_BLOCKSIZE \<equiv> 512"
abbreviation SFS_VOLNAME_SIZE :: nat where "SFS_VOLNAME_SIZE \<equiv> 32"
abbreviation SFS_NDIRECT :: nat where "SFS_NDIRECT \<equiv> 15"
abbreviation SFS_DBPERIDB :: nat where "SFS_DBPERIDB \<equiv> 128"
abbreviation SFS_NAMELEN :: nat where "SFS_NAMELEN \<equiv> 60"
abbreviation SFS_SB_LOCATION :: nat where "SFS_SB_LOCATION \<equiv> 0"
abbreviation SFS_ROOT_LOCATION :: nat where "SFS_ROOT_LOCATION \<equiv> 1"
abbreviation SFS_MAP_LOCATION :: nat where "SFS_MAP_LOCATION \<equiv> 2"
abbreviation SFS_NOINO :: nat where "SFS_NOINO \<equiv> 0"
abbreviation SFS_TYPE_INVAL :: nat where "SFS_TYPE_INVAL \<equiv> 0"
abbreviation SFS_TYPE_FILE :: nat where "SFS_TYPE_FILE \<equiv> 1"
abbreviation SFS_TYPE_DIR :: nat where "SFS_TYPE_DIR \<equiv> 2"

definition be16 :: "nat \<Rightarrow> bytes" where
  "be16 n = [of_nat (n div 2 ^ 8), of_nat n]"

definition be32 :: "nat \<Rightarrow> bytes" where
  "be32 n = [of_nat (n div 2 ^ 24), of_nat (n div 2 ^ 16), of_nat (n div 2 ^ 8), of_nat n]"

text \<open>A number from its bytes, most significant first.\<close>

definition un_be :: "bytes \<Rightarrow> nat" where
  "un_be bs = foldl (\<lambda>n b. n * 2 ^ 8 + unat b) 0 bs"

fun un_be32s :: "nat \<Rightarrow> bytes \<Rightarrow> nat list" where
  "un_be32s 0 bs = []"
| "un_be32s (Suc n) bs = un_be (take 4 bs) # un_be32s n (drop 4 bs)"

definition be32s :: "nat list \<Rightarrow> bytes" where
  "be32s ns = concat (map be32 ns)"

record sfs_super =
  sp_magic :: nat
  sp_nblocks :: nat
  sp_volname :: bytes
  sp_reserved :: bytes

definition encode_super :: "sfs_super \<Rightarrow> bytes" where
  "encode_super sp = be32 (sp_magic sp) @ be32 (sp_nblocks sp) @ sp_volname sp @ sp_reserved sp"

definition decode_super :: "bytes \<Rightarrow> sfs_super" where
  "decode_super bs = \<lparr>sp_magic = un_be (take 4 bs), sp_nblocks = un_be (take 4 (drop 4 bs)),
     sp_volname = take SFS_VOLNAME_SIZE (drop 8 bs), sp_reserved = drop 40 bs\<rparr>"

record sfs_inode =
  sfi_size :: nat
  sfi_type :: nat
  sfi_linkcount :: nat
  sfi_direct :: "nat list"
  sfi_indirect :: nat
  sfi_waste :: bytes

definition encode_inode :: "sfs_inode \<Rightarrow> bytes" where
  "encode_inode i = be32 (sfi_size i) @ be16 (sfi_type i) @ be16 (sfi_linkcount i) @
     be32s (sfi_direct i) @ be32 (sfi_indirect i) @ sfi_waste i"

definition decode_inode :: "bytes \<Rightarrow> sfs_inode" where
  "decode_inode bs = \<lparr>sfi_size = un_be (take 4 bs), sfi_type = un_be (take 2 (drop 4 bs)),
     sfi_linkcount = un_be (take 2 (drop 6 bs)), sfi_direct = un_be32s SFS_NDIRECT (drop 8 bs),
     sfi_indirect = un_be (take 4 (drop 68 bs)), sfi_waste = drop 72 bs\<rparr>"

record sfs_dir =
  sfd_ino :: nat
  sfd_name :: bytes

definition encode_dir :: "sfs_dir \<Rightarrow> bytes" where
  "encode_dir sd = be32 (sfd_ino sd) @ sfd_name sd"

definition decode_dir :: "bytes \<Rightarrow> sfs_dir" where
  "decode_dir bs = \<lparr>sfd_ino = un_be (take 4 bs), sfd_name = drop 4 bs\<rparr>"

text \<open>The size of a directory entry, \<open>sizeof(struct sfs_dir)\<close>.\<close>

abbreviation DIRSZ :: nat where "DIRSZ \<equiv> 64"

section \<open>Round trips\<close>

lemma be_length [simp]: "length (be16 n) = 2" "length (be32 n) = 4"
  by (simp_all add: be16_def be32_def)

lemma be32s_length [simp]: "length (be32s ns) = 4 * length ns"
  by (induction ns) (simp_all add: be32s_def)

lemma un_be32s_length [simp]: "length (un_be32s n bs) = n"
  by (induction n arbitrary: bs) simp_all

lemma un_be_be16: "n < 2 ^ 16 \<Longrightarrow> un_be (be16 n) = n"
  by (simp add: un_be_def be16_def unat_of_nat)

lemma un_be_be32:
  assumes "n < 2 ^ 32"
  shows "un_be (be32 n) = n"
proof -
  have "un_be (be32 n) = ((n div 2 ^ 24 mod 2 ^ 8 * 2 ^ 8 + n div 2 ^ 16 mod 2 ^ 8) * 2 ^ 8 +
      n div 2 ^ 8 mod 2 ^ 8) * 2 ^ 8 + n mod 2 ^ 8"
    by (simp add: un_be_def be32_def unat_of_nat)
  also have "n div 2 ^ 24 mod 2 ^ 8 * 2 ^ 8 + n div 2 ^ 16 mod 2 ^ 8 = n div 2 ^ 16"
    using assms div_mult_mod_eq [of "n div 2 ^ 16" "2 ^ 8"] by (simp add: div_mult2_eq [symmetric])
  also have "n div 2 ^ 16 * 2 ^ 8 + n div 2 ^ 8 mod 2 ^ 8 = n div 2 ^ 8"
    using div_mult_mod_eq [of "n div 2 ^ 8" "2 ^ 8"] by (simp add: div_mult2_eq [symmetric])
  finally show ?thesis by (simp add: div_mult_mod_eq)
qed


lemma un_be_zeros [simp]: "un_be (replicate m 0) = 0"
  by (induction m) (simp_all add: un_be_def)

lemma un_be_snoc: "un_be (bs @ [b]) = un_be bs * 2 ^ 8 + unat b"
  by (simp add: un_be_def)

lemma un_be_bound: "un_be bs < 2 ^ (8 * length bs)"
proof (induction bs rule: rev_induct)
  case Nil
  then show ?case by (simp add: un_be_def)
next
  case (snoc b bs)
  have "unat b < 2 ^ LENGTH(8)" by (rule unsigned_less)
  then have "unat b < 2 ^ 8" by simp
  then have "un_be bs * 2 ^ 8 + unat b < (un_be bs + 1) * 2 ^ 8" by simp
  also have "\<dots> \<le> 2 ^ (8 * length bs) * 2 ^ 8" using snoc by (intro mult_le_mono1) simp
  finally show ?case by (simp add: un_be_snoc power_add mult.commute)
qed

lemma un_be_take_bound: "un_be (take k bs) < 2 ^ (8 * k)"
proof -
  have "un_be (take k bs) < 2 ^ (8 * length (take k bs))" by (rule un_be_bound)
  also have "\<dots> \<le> 2 ^ (8 * k)" by (intro power_increasing) simp_all
  finally show ?thesis .
qed

lemma un_be32s_bound: "n \<in> set (un_be32s k bs) \<Longrightarrow> n < 2 ^ 32"
proof (induction k arbitrary: bs)
  case (Suc k)
  then show ?case using un_be_take_bound [of 4 bs] by auto
qed simp

lemma un_be32s_be32s: "(\<forall>n \<in> set ns. n < 2 ^ 32) \<Longrightarrow> un_be32s (length ns) (be32s ns @ rest) = ns"
proof (induction ns)
  case (Cons n ns)
  then show ?case by (simp add: be32s_def un_be_be32)
qed simp

lemma un_be32s_be32s' [simp]:
  "(\<forall>n \<in> set ns. n < 2 ^ 32) \<Longrightarrow> k = length ns \<Longrightarrow> un_be32s k (be32s ns) = ns"
  using un_be32s_be32s [of ns "[]"] by simp

definition inode_wf :: "sfs_inode \<Rightarrow> bool" where
  "inode_wf i \<longleftrightarrow> sfi_size i < 2 ^ 32 \<and> sfi_type i < 2 ^ 16 \<and> sfi_linkcount i < 2 ^ 16 \<and>
     length (sfi_direct i) = SFS_NDIRECT \<and> (\<forall>b \<in> set (sfi_direct i). b < 2 ^ 32) \<and>
     sfi_indirect i < 2 ^ 32 \<and> length (sfi_waste i) = 440"

definition super_wf :: "sfs_super \<Rightarrow> bool" where
  "super_wf sp \<longleftrightarrow> sp_magic sp < 2 ^ 32 \<and> sp_nblocks sp < 2 ^ 32 \<and> length (sp_volname sp) = SFS_VOLNAME_SIZE \<and>
     length (sp_reserved sp) = 472"

definition dir_wf :: "sfs_dir \<Rightarrow> bool" where
  "dir_wf sd \<longleftrightarrow> sfd_ino sd < 2 ^ 32 \<and> length (sfd_name sd) = SFS_NAMELEN"

lemma encode_length:
  "inode_wf i \<Longrightarrow> length (encode_inode i) = SFS_BLOCKSIZE"
  "super_wf sp \<Longrightarrow> length (encode_super sp) = SFS_BLOCKSIZE"
  "dir_wf sd \<Longrightarrow> length (encode_dir sd) = DIRSZ"
  by (simp_all add: inode_wf_def super_wf_def dir_wf_def encode_inode_def encode_super_def encode_dir_def)

lemma decode_encode_dir: "dir_wf sd \<Longrightarrow> decode_dir (encode_dir sd) = sd"
  by (simp add: decode_dir_def encode_dir_def dir_wf_def un_be_be32)

lemma decode_encode_super: "super_wf sp \<Longrightarrow> decode_super (encode_super sp) = sp"
  by (simp add: decode_super_def encode_super_def super_wf_def un_be_be32)

lemma decode_encode_inode: "inode_wf i \<Longrightarrow> decode_inode (encode_inode i) = i"
  using un_be32s_be32s [of "sfi_direct i" "be32 (sfi_indirect i) @ sfi_waste i"]
  by (simp add: decode_inode_def encode_inode_def inode_wf_def un_be_be32 un_be_be16)

lemma decode_inode_wf: "length bs = SFS_BLOCKSIZE \<Longrightarrow> inode_wf (decode_inode bs)"
  using un_be_take_bound [of 4 bs] un_be_take_bound [of 2 "drop 4 bs"] un_be_take_bound [of 2 "drop 6 bs"]
    un_be_take_bound [of 4 "drop 68 bs"] un_be32s_bound [of _ SFS_NDIRECT "drop 8 bs"]
  by (auto simp: inode_wf_def decode_inode_def)

lemma decode_dir_wf: "length bs = DIRSZ \<Longrightarrow> dir_wf (decode_dir bs)"
  using un_be_take_bound [of 4 bs] by (simp add: dir_wf_def decode_dir_def)

end
