(* ===== verification/Sfs_Io.thy ===== *)
theory Sfs_Io
  imports Lhd Sfs_Format Kern_Array Kern_Bitmap
begin

text \<open>
  Block and file I/O of the SFS filesystem: \<open>kern/fs/sfs/sfs_io.c\<close> and the first half of
  \<open>kern/fs/sfs/sfs_vnode.c\<close> (block allocation, block mapping, partial and whole-block I/O).

  The \<open>d_io\<close> function of the device the filesystem is mounted on is an argument: \<open>lhd_io\<close> of the
  theory \<open>Lhd\<close> is the one the kernel has for disks.  The
  filesystem state holds the device state, the free-block map, the superblock, the table of
  loaded vnodes (pointers) and the vnode structures.  Counters that C keeps in 32 bits wrap
  where the code computes them.
\<close>

section \<open>The model\<close>


record sfs_vnode =
  vn_refcount :: int
  vn_opencount :: int
  sv_i :: sfs_inode
  sv_ino :: nat
  sv_dirty :: bool

record 'd sfs_fs =
  sfs_sb :: sfs_super
  sfs_superdirty :: bool
  sfs_device :: 'd
  sfs_vnodes :: "nat array"
  sfs_freemap :: bitmap
  sfs_freemapdirty :: bool
  sv_mem :: "nat \<Rightarrow> sfs_vnode option"

definition upd_sv :: "nat \<Rightarrow> (sfs_vnode \<Rightarrow> sfs_vnode) \<Rightarrow> 'd sfs_fs \<Rightarrow> 'd sfs_fs" where
  "upd_sv v f fs = fs\<lparr>sv_mem := (sv_mem fs)(v := map_option f (sv_mem fs v))\<rparr>"

definition upd_inode :: "nat \<Rightarrow> (sfs_inode \<Rightarrow> sfs_inode) \<Rightarrow> 'd sfs_fs \<Rightarrow> 'd sfs_fs" where
  "upd_inode v f fs = upd_sv v (\<lambda>sv. sv\<lparr>sv_i := f (sv_i sv), sv_dirty := True\<rparr>) fs"

subsection \<open>Block-level I/O\<close>

function sfs_rw_retry :: "'d d_io \<Rightarrow> nat \<Rightarrow> uio \<Rightarrow> 'd \<Rightarrow> ((errno + unit) \<times> uio \<times> 'd) option" where
  "sfs_rw_retry dio tries u d = do {
     (result, u', d') \<leftarrow> dio u d;
     if result = Inl EINVAL then None
     else if result = Inl EIO \<and> tries < 10 then sfs_rw_retry dio (tries + 1) u' d'
     else Some (result, u', d') }"
  by pat_completeness auto
termination
  by (relation "measure (\<lambda>(dio, tries, u, d). 10 - tries)") auto

declare sfs_rw_retry.simps [simp del]

definition sfs_rwblock :: "'d d_io \<Rightarrow> uio \<Rightarrow> 'd sfs_fs \<Rightarrow> ((errno + unit) \<times> uio \<times> 'd sfs_fs) option" where
  "sfs_rwblock dio u fs = do {
     (r, u', d') \<leftarrow> sfs_rw_retry dio 0 u (sfs_device fs);
     Some (r, u', fs\<lparr>sfs_device := d'\<rparr>) }"

text \<open>\<open>data\<close> is what the buffer held before.\<close>

definition sfs_rblock :: "'d d_io \<Rightarrow> bytes \<Rightarrow> nat \<Rightarrow> 'd sfs_fs \<Rightarrow> (bytes, 'd sfs_fs) kcall" where
  "sfs_rblock dio data block fs = do {
     (r, u, fs') \<leftarrow> sfs_rwblock dio (mk_kuio data (c_int (int block * 512)) UIO_READ) fs;
     Some (case r of Inl e \<Rightarrow> Inl e | Inr _ \<Rightarrow> Inr (uio_done u @ iov_buf u), fs') }"

definition sfs_wblock :: "'d d_io \<Rightarrow> bytes \<Rightarrow> nat \<Rightarrow> 'd sfs_fs \<Rightarrow> (unit, 'd sfs_fs) kcall" where
  "sfs_wblock dio data block fs = do {
     (r, u, fs') \<leftarrow> sfs_rwblock dio (mk_kuio data (c_int (int block * 512)) UIO_WRITE) fs;
     Some (r, fs') }"

abbreviation zero_block :: bytes where "zero_block \<equiv> replicate SFS_BLOCKSIZE 0"

definition sfs_clearblock :: "'d d_io \<Rightarrow> nat \<Rightarrow> 'd sfs_fs \<Rightarrow> (unit, 'd sfs_fs) kcall" where
  "sfs_clearblock dio block fs = sfs_wblock dio zero_block block fs"

definition sfs_sync_inode :: "'d d_io \<Rightarrow> nat \<Rightarrow> 'd sfs_fs \<Rightarrow> (unit, 'd sfs_fs) kcall" where
  "sfs_sync_inode dio v fs = do {
     sv \<leftarrow> sv_mem fs v;
     if sv_dirty sv then
       try_k (sfs_wblock dio (encode_inode (sv_i sv)) (sv_ino sv) fs) (\<lambda>_ fs'.
         Some (Inr (), upd_sv v (\<lambda>sv. sv\<lparr>sv_dirty := False\<rparr>) fs'))
     else Some (Inr (), fs) }"

subsection \<open>Space allocation\<close>

definition sfs_balloc :: "'d d_io \<Rightarrow> 'd sfs_fs \<Rightarrow> (nat, 'd sfs_fs) kcall" where
  "sfs_balloc dio fs = do {
     (r, bm) \<leftarrow> bitmap_alloc (sfs_freemap fs);
     case r of
       Inl e \<Rightarrow> Some (Inl e, fs\<lparr>sfs_freemap := bm\<rparr>)
     | Inr diskblock \<Rightarrow> do {
         let fs1 = fs\<lparr>sfs_freemap := bm, sfs_freemapdirty := True\<rparr>;
         kassert (diskblock < sp_nblocks (sfs_sb fs1));
         try_k (sfs_clearblock dio diskblock fs1) (\<lambda>_ fs2. Some (Inr diskblock, fs2)) } }"

definition sfs_bfree :: "nat \<Rightarrow> 'd sfs_fs \<Rightarrow> 'd sfs_fs option" where
  "sfs_bfree diskblock fs = do {
     bm \<leftarrow> bitmap_unmark (sfs_freemap fs) diskblock;
     Some (fs\<lparr>sfs_freemap := bm, sfs_freemapdirty := True\<rparr>) }"

definition sfs_bused :: "nat \<Rightarrow> 'd sfs_fs \<Rightarrow> bool option" where
  "sfs_bused diskblock fs = do {
     kassert (diskblock < sp_nblocks (sfs_sb fs));
     w \<leftarrow> bitmap_isset (sfs_freemap fs) diskblock;
     Some (w \<noteq> 0) }"

subsection \<open>Block mapping\<close>

text \<open>The end of \<open>sfs_bmap\<close>: a block that is handed out must be marked in use.\<close>

definition hand_back :: "nat \<Rightarrow> 'd sfs_fs \<Rightarrow> (nat, 'd sfs_fs) kcall" where
  "hand_back block fs = do {
     used \<leftarrow> (if block \<noteq> 0 then sfs_bused block fs else Some True);
     kassert used;
     Some (Inr block, fs) }"

definition sfs_bmap_direct :: "'d d_io \<Rightarrow> nat \<Rightarrow> nat \<Rightarrow> bool \<Rightarrow> 'd sfs_fs \<Rightarrow> (nat, 'd sfs_fs) kcall" where
  "sfs_bmap_direct dio v fileblock doalloc fs = do {
     sv \<leftarrow> sv_mem fs v;
     block \<leftarrow> mem_read (Some (sfi_direct (sv_i sv))) (int fileblock);
     if block = 0 \<and> doalloc then
       try_k (sfs_balloc dio fs) (\<lambda>block fs1.
         hand_back block (upd_inode v (\<lambda>i. i\<lparr>sfi_direct := (sfi_direct i)[fileblock := block]\<rparr>) fs1))
     else hand_back block fs }"

text \<open>The indirect block: it is allocated and cleared, or read; the result is its number and contents.\<close>

definition sfs_bmap_idblock :: "'d d_io \<Rightarrow> nat \<Rightarrow> 'd sfs_fs \<Rightarrow> (nat \<times> nat list, 'd sfs_fs) kcall" where
  "sfs_bmap_idblock dio v fs = do {
     sv \<leftarrow> sv_mem fs v;
     let idblock = sfi_indirect (sv_i sv);
     if idblock = 0 then
       try_k (sfs_balloc dio fs) (\<lambda>idblock fs1.
         Some (Inr (idblock, replicate SFS_DBPERIDB 0), upd_inode v (\<lambda>i. i\<lparr>sfi_indirect := idblock\<rparr>) fs1))
     else
       try_k (sfs_rblock dio zero_block idblock fs) (\<lambda>bs fs1.
         Some (Inr (idblock, un_be32s SFS_DBPERIDB bs), fs1)) }"

definition sfs_bmap :: "'d d_io \<Rightarrow> nat \<Rightarrow> nat \<Rightarrow> bool \<Rightarrow> 'd sfs_fs \<Rightarrow> (nat, 'd sfs_fs) kcall" where
  "sfs_bmap dio v fileblock doalloc fs =
     (if fileblock < SFS_NDIRECT then sfs_bmap_direct dio v fileblock doalloc fs
      else let fileblock = fileblock - SFS_NDIRECT;
               idnum = fileblock div SFS_DBPERIDB;
               idoff = fileblock mod SFS_DBPERIDB
        in if idnum > 0 then Some (Inl EINVAL, fs)
        else do {
          sv \<leftarrow> sv_mem fs v;
          if sfi_indirect (sv_i sv) = 0 \<and> \<not> doalloc then Some (Inr 0, fs)
          else try_k (sfs_bmap_idblock dio v fs) (\<lambda>(idblock, idbuf) fs1. do {
            block \<leftarrow> mem_read (Some idbuf) (int idoff);
            if block = 0 \<and> doalloc then
              try_k (sfs_balloc dio fs1) (\<lambda>block fs2.
                try_k (sfs_wblock dio (be32s (idbuf[idoff := block])) idblock fs2) (\<lambda>_ fs3.
                  hand_back block fs3))
            else hand_back block fs1 }) })"

subsection \<open>File I/O\<close>

type_synonym 'd fio = "(unit, 'd sfs_fs \<times> uio) kcall"

text \<open>A step that works on the filesystem only, or on the request only.\<close>

definition on_fs :: "('a, 'd sfs_fs) kcall \<Rightarrow> uio \<Rightarrow> ('a, 'd sfs_fs \<times> uio) kcall" where
  "on_fs m u = map_option (\<lambda>(r, fs). (r, fs, u)) m"

definition on_uio :: "('a, uio) kcall \<Rightarrow> 'd sfs_fs \<Rightarrow> ('a, 'd sfs_fs \<times> uio) kcall" where
  "on_uio m fs = map_option (\<lambda>(r, u). (r, fs, u)) m"

definition sfs_partialio :: "'d d_io \<Rightarrow> nat \<Rightarrow> nat \<Rightarrow> nat \<Rightarrow> 'd sfs_fs \<times> uio \<Rightarrow> 'd fio" where
  "sfs_partialio dio v skipstart len = (\<lambda>(fs, u). do {
     let doalloc = (uio_rw u = UIO_WRITE);
     kassert (skipstart + len \<le> SFS_BLOCKSIZE);
     try_k (on_fs (sfs_bmap dio v (off_blk (uio_offset u)) doalloc fs) u) (\<lambda>diskblock (fs1, u). do {
       kassert (diskblock \<noteq> 0 \<or> uio_rw u = UIO_READ);
       try_k (if diskblock = 0 then Some (Inr zero_block, fs1, u)
              else on_fs (sfs_rblock dio zero_block diskblock fs1) u) (\<lambda>iobuf (fs2, u).
         try_k (on_uio (uiomove (take len (drop skipstart iobuf)) u) fs2) (\<lambda>part (fs3, u').
           if uio_rw u' = UIO_WRITE then
             on_fs (sfs_wblock dio (take skipstart iobuf @ part @ drop (skipstart + len) iobuf) diskblock fs3) u'
           else Some (Inr (), fs3, u'))) }) })"

definition sfs_blockio :: "'d d_io \<Rightarrow> nat \<Rightarrow> 'd sfs_fs \<times> uio \<Rightarrow> 'd fio" where
  "sfs_blockio dio v = (\<lambda>(fs, u). do {
     let doalloc = (uio_rw u = UIO_WRITE);
     try_k (on_fs (sfs_bmap dio v (off_blk (uio_offset u)) doalloc fs) u) (\<lambda>diskblock (fs1, u).
       if diskblock = 0 then do {
         kassert (uio_rw u = UIO_READ);
         on_uio (uiomovezeros SFS_BLOCKSIZE u) fs1 }
       else do {
         let saveoff = uio_offset u;
         let diskoff = c_int (int diskblock * 512);
         kassert (uio_resid u \<ge> SFS_BLOCKSIZE);
         let saveres = uio_resid u;
         (result, u1, fs2) \<leftarrow> sfs_rwblock dio (u\<lparr>uio_offset := diskoff, uio_resid := SFS_BLOCKSIZE\<rparr>) fs1;
         Some (result, fs2, u1\<lparr>uio_offset := c_int ((uio_offset u1 - diskoff) + saveoff),
           uio_resid := nat ((int (uio_resid u1) - 512 + int saveres) mod 2 ^ 32)\<rparr>) }) })"

fun sfs_blockio_loop :: "'d d_io \<Rightarrow> nat \<Rightarrow> nat \<Rightarrow> 'd sfs_fs \<times> uio \<Rightarrow> 'd fio" where
  "sfs_blockio_loop dio v 0 s = Some (Inr (), s)"
| "sfs_blockio_loop dio v (Suc n) s = try_k (sfs_blockio dio v s) (\<lambda>_ s'. sfs_blockio_loop dio v n s')"

text \<open>The three parts of the transfer in \<open>sfs_io\<close>, up to the label \<open>out\<close>.\<close>

definition sfs_io_body :: "'d d_io \<Rightarrow> nat \<Rightarrow> 'd sfs_fs \<times> uio \<Rightarrow> 'd fio" where
  "sfs_io_body dio v = (\<lambda>(fs, u).
     let blkoff = off_rem (uio_offset u) in
     try_k (if blkoff \<noteq> 0 then sfs_partialio dio v blkoff (min (SFS_BLOCKSIZE - blkoff) (uio_resid u)) (fs, u)
            else Some (Inr (), fs, u)) (\<lambda>_ (fs1, u1).
       if uio_resid u1 = 0 then Some (Inr (), fs1, u1)
       else do {
         kassert (off_rem (uio_offset u1) = 0);
         try_k (sfs_blockio_loop dio v (uio_resid u1 div SFS_BLOCKSIZE) (fs1, u1)) (\<lambda>_ (fs2, u2). do {
           kassert (uio_resid u2 < SFS_BLOCKSIZE);
           if uio_resid u2 > 0 then sfs_partialio dio v 0 (uio_resid u2) (fs2, u2)
           else Some (Inr (), fs2, u2) }) }))"

definition sfs_io :: "'d d_io \<Rightarrow> nat \<Rightarrow> 'd sfs_fs \<times> uio \<Rightarrow> 'd fio" where
  "sfs_io dio v = (\<lambda>(fs, u). do {
     sv \<leftarrow> sv_mem fs v;
     let fsize = c_int (int (sfi_size (sv_i sv)));
     let endpos = c_int (uio_offset u + int (uio_resid u));
     if uio_rw u = UIO_READ \<and> uio_offset u \<ge> fsize then Some (Inr (), fs, u)
     else do {
       let extraresid = (if uio_rw u = UIO_READ \<and> endpos > fsize then nat (endpos - fsize) else 0);
       kassert (extraresid = 0 \<or> uio_resid u > extraresid);
       (result, fs1, u1) \<leftarrow> sfs_io_body dio v (fs, u\<lparr>uio_resid := uio_resid u - extraresid\<rparr>);
       sv1 \<leftarrow> sv_mem fs1 v;
       let fs2 = (if uio_rw u1 = UIO_WRITE \<and> uio_offset u1 > c_int (int (sfi_size (sv_i sv1)))
         then upd_inode v (\<lambda>i. i\<lparr>sfi_size := nat (uio_offset u1 mod 2 ^ 32)\<rparr>) fs1 else fs1);
       Some (result, fs2, u1\<lparr>uio_resid := c_uint (uio_resid u1 + extraresid)\<rparr>) } })"

end
