(* ===== verification/Sfs_Vnode.thy ===== *)
theory Sfs_Vnode
  imports Sfs_Io
begin

text \<open>
  Directories, vnodes and the vnode operations of SFS (the second half of
  \<open>kern/fs/sfs/sfs_vnode.c\<close>), the reference counts of \<open>kern/fs/vfs/vnode.c\<close>, and the operations on
  a mounted filesystem of \<open>kern/fs/sfs/sfs_fs.c\<close>.

  A vnode is known by the address of its structure in \<open>sv_mem\<close>.  The operations that load a vnode
  take the results of the allocations they make as an argument of type \<open>vmem\<close>.  File names
  are byte lists without a zero byte; a name buffer is read up to its first zero.  The count
  lock of a vnode only serializes the changes of its counts and is not represented.
\<close>

section \<open>Directories\<close>

definition sfs_readdir :: "'d d_io \<Rightarrow> nat \<Rightarrow> nat \<Rightarrow> 'd sfs_fs \<Rightarrow> (sfs_dir, 'd sfs_fs) kcall" where
  "sfs_readdir dio v slot fs = do {
     (r, fs', ku) \<leftarrow> sfs_io dio v (fs, mk_kuio (replicate DIRSZ 0) (c_int (int slot * 64)) UIO_READ);
     case r of Inl e \<Rightarrow> Some (Inl e, fs')
     | Inr _ \<Rightarrow> do {
         kassert (uio_resid ku = 0);
         Some (Inr (decode_dir (uio_done ku @ iov_buf ku)), fs') } }"

definition sfs_writedir :: "'d d_io \<Rightarrow> nat \<Rightarrow> sfs_dir \<Rightarrow> nat \<Rightarrow> 'd sfs_fs \<Rightarrow> (unit, 'd sfs_fs) kcall" where
  "sfs_writedir dio v sd slot fs = do {
     (r, fs', ku) \<leftarrow> sfs_io dio v (fs, mk_kuio (encode_dir sd) (c_int (int slot * 64)) UIO_WRITE);
     case r of Inl e \<Rightarrow> Some (Inl e, fs')
     | Inr _ \<Rightarrow> do {
         kassert (uio_resid ku = 0);
         Some (Inr (), fs') } }"

definition sfs_dir_nentries :: "nat \<Rightarrow> 'd sfs_fs \<Rightarrow> nat option" where
  "sfs_dir_nentries v fs = do {
     sv \<leftarrow> sv_mem fs v;
     kassert (sfi_type (sv_i sv) = SFS_TYPE_DIR);
     kassert (sfi_size (sv_i sv) mod DIRSZ = 0);
     Some (sfi_size (sv_i sv) div DIRSZ) }"

text \<open>The string in a name buffer whose last byte has been set to zero.\<close>

definition dir_name :: "sfs_dir \<Rightarrow> bytes" where
  "dir_name sd = takeWhile (\<lambda>b. b \<noteq> 0) ((sfd_name sd)[SFS_NAMELEN - 1 := 0])"

text \<open>The loop over the slots from \<open>i\<close> on; \<open>found\<close> and \<open>emptyslot\<close> are what it has recorded.\<close>

function sfs_findname_loop :: "'d d_io \<Rightarrow> nat \<Rightarrow> bytes \<Rightarrow> nat \<Rightarrow> nat \<Rightarrow> (nat \<times> nat) option \<Rightarrow> nat option \<Rightarrow> 'd sfs_fs
    \<Rightarrow> ((nat \<times> nat) option \<times> nat option, 'd sfs_fs) kcall" where
  "sfs_findname_loop dio v name i nentries found emptyslot fs =
     (if i < nentries then
        try_k (sfs_readdir dio v i fs) (\<lambda>tsd fs'.
          if sfd_ino tsd = SFS_NOINO then sfs_findname_loop dio v name (i + 1) nentries found (Some i) fs'
          else if dir_name tsd = name then do {
            kassert (found = None);
            sfs_findname_loop dio v name (i + 1) nentries (Some (sfd_ino tsd, i)) emptyslot fs' }
          else sfs_findname_loop dio v name (i + 1) nentries found emptyslot fs')
      else Some (Inr (found, emptyslot), fs))"
  by pat_completeness auto
termination
  by (relation "measure (\<lambda>(dio, v, name, i, nentries, found, emptyslot, fs). nentries - i)") auto

declare sfs_findname_loop.simps [simp del]

text \<open>The result is the entry's inode and slot, or \<open>None\<close> for \<open>ENOENT\<close>, and an empty slot if there is one.\<close>

definition sfs_dir_findname :: "'d d_io \<Rightarrow> nat \<Rightarrow> bytes \<Rightarrow> 'd sfs_fs
    \<Rightarrow> ((nat \<times> nat) option \<times> nat option, 'd sfs_fs) kcall" where
  "sfs_dir_findname dio v name fs = do {
     nentries \<leftarrow> sfs_dir_nentries v fs;
     sfs_findname_loop dio v name 0 nentries None None fs }"

definition new_entry :: "nat \<Rightarrow> bytes \<Rightarrow> sfs_dir" where
  "new_entry ino name = \<lparr>sfd_ino = ino, sfd_name = name @ replicate (SFS_NAMELEN - length name) 0\<rparr>"

definition sfs_dir_link :: "'d d_io \<Rightarrow> nat \<Rightarrow> bytes \<Rightarrow> nat \<Rightarrow> 'd sfs_fs \<Rightarrow> (nat, 'd sfs_fs) kcall" where
  "sfs_dir_link dio v name ino fs =
     try_k (sfs_dir_findname dio v name fs) (\<lambda>(found, emptyslot) fs1.
       if found \<noteq> None then Some (Inl EEXIST, fs1)
       else if length name + 1 > SFS_NAMELEN then Some (Inl ENAMETOOLONG, fs1)
       else do {
         slot \<leftarrow> (case emptyslot of None \<Rightarrow> sfs_dir_nentries v fs1 | Some s \<Rightarrow> Some s);
         try_k (sfs_writedir dio v (new_entry ino name) slot fs1) (\<lambda>_ fs2. Some (Inr slot, fs2)) })"

definition sfs_dir_unlink :: "'d d_io \<Rightarrow> nat \<Rightarrow> nat \<Rightarrow> 'd sfs_fs \<Rightarrow> (unit, 'd sfs_fs) kcall" where
  "sfs_dir_unlink dio v slot fs = sfs_writedir dio v (new_entry SFS_NOINO []) slot fs"

section \<open>Vnodes in memory\<close>

text \<open>The address of a new \<open>sfs_vnode\<close>, whether \<open>lock_create\<close> succeeds, and the array's allocator.\<close>

type_synonym vmem = "nat option \<times> bool \<times> nat kmem"

definition vnode_incref :: "nat \<Rightarrow> 'd sfs_fs \<Rightarrow> 'd sfs_fs option" where
  "vnode_incref v fs = do {
     sv_mem fs v;
     Some (upd_sv v (\<lambda>sv. sv\<lparr>vn_refcount := vn_refcount sv + 1\<rparr>) fs) }"

text \<open>The search for a loaded vnode; every vnode passed must be in an allocated block.\<close>

function sfs_find_loaded :: "nat \<Rightarrow> int \<Rightarrow> 'd sfs_fs \<Rightarrow> nat option option" where
  "sfs_find_loaded ino i fs =
     (if i < array_getnum (sfs_vnodes fs) then do {
        v \<leftarrow> array_getguy (sfs_vnodes fs) i;
        sv \<leftarrow> sv_mem fs v;
        used \<leftarrow> sfs_bused (sv_ino sv) fs;
        kassert used;
        if sv_ino sv = ino then Some (Some v) else sfs_find_loaded ino (i + 1) fs }
      else Some None)"
  by pat_completeness auto
termination
  by (relation "measure (\<lambda>(ino, i, fs). nat (a_num (sfs_vnodes fs) - i))") (auto simp: array_getnum_def)

declare sfs_find_loaded.simps [simp del]

text \<open>The end of \<open>sfs_loadvnode\<close>: \<open>VOP_INIT\<close>, and the new vnode goes into the table.\<close>

definition sfs_enter :: "nat \<Rightarrow> bool \<Rightarrow> nat kmem \<Rightarrow> sfs_vnode \<Rightarrow> 'd sfs_fs \<Rightarrow> (nat, 'd sfs_fs) kcall" where
  "sfs_enter v okinit km sv fs =
     (if \<not> okinit then Some (Inl ENOMEM, fs)
      else do {
        (r, a) \<leftarrow> array_add km (sfs_vnodes fs) v;
        case r of Inl e \<Rightarrow> Some (Inl e, fs\<lparr>sfs_vnodes := a\<rparr>)
        | Inr _ \<Rightarrow> Some (Inr v, fs\<lparr>sfs_vnodes := a, sv_mem := (sv_mem fs)(v \<mapsto> sv)\<rparr>) })"

definition sfs_loadvnode :: "'d d_io \<Rightarrow> vmem \<Rightarrow> nat \<Rightarrow> nat \<Rightarrow> 'd sfs_fs \<Rightarrow> (nat, 'd sfs_fs) kcall" where
  "sfs_loadvnode dio vm ino forcetype fs = (let (mem, okinit, km) = vm in do {
     found \<leftarrow> sfs_find_loaded ino 0 fs;
     case found of
       Some v \<Rightarrow> do {
         kassert (forcetype = SFS_TYPE_INVAL);
         fs1 \<leftarrow> vnode_incref v fs;
         Some (Inr v, fs1) }
     | None \<Rightarrow> (case mem of None \<Rightarrow> Some (Inl ENOMEM, fs) | Some v \<Rightarrow> do {
         used \<leftarrow> sfs_bused ino fs;
         kassert used;
         try_k (sfs_rblock dio zero_block ino fs) (\<lambda>bs fs1. do {
           let i = decode_inode bs;
           kassert (forcetype = SFS_TYPE_INVAL \<or> sfi_type i = SFS_TYPE_INVAL);
           let sv = \<lparr>vn_refcount = 1, vn_opencount = 0,
             sv_i = (if forcetype \<noteq> SFS_TYPE_INVAL then i\<lparr>sfi_type := forcetype\<rparr> else i),
             sv_ino = ino, sv_dirty = (forcetype \<noteq> SFS_TYPE_INVAL)\<rparr>;
           kassert (sfi_type (sv_i sv) = SFS_TYPE_FILE \<or> sfi_type (sv_i sv) = SFS_TYPE_DIR);
           sfs_enter v okinit km sv fs1 }) }) })"

definition sfs_lookonce :: "'d d_io \<Rightarrow> vmem \<Rightarrow> nat \<Rightarrow> bytes \<Rightarrow> 'd sfs_fs \<Rightarrow> (nat \<times> nat, 'd sfs_fs) kcall" where
  "sfs_lookonce dio vm v name fs =
     try_k (sfs_dir_findname dio v name fs) (\<lambda>(found, _) fs1. case found of
         None \<Rightarrow> Some (Inl ENOENT, fs1)
       | Some (ino, slot) \<Rightarrow>
           try_k (sfs_loadvnode dio vm ino SFS_TYPE_INVAL fs1) (\<lambda>g fs2. do {
             sv \<leftarrow> sv_mem fs2 g;
             kassert (sfi_linkcount (sv_i sv) \<noteq> 0);
             Some (Inr (g, slot), fs2) }))"

definition sfs_makeobj :: "'d d_io \<Rightarrow> vmem \<Rightarrow> nat \<Rightarrow> 'd sfs_fs \<Rightarrow> (nat, 'd sfs_fs) kcall" where
  "sfs_makeobj dio vm ty fs =
     try_k (sfs_balloc dio fs) (\<lambda>ino fs1. sfs_loadvnode dio vm ino ty fs1)"

section \<open>Truncation and reclaiming\<close>

text \<open>The loop over the direct blocks from \<open>i\<close> on.\<close>

fun sfs_trunc_direct :: "nat \<Rightarrow> nat \<Rightarrow> nat list \<Rightarrow> nat \<Rightarrow> 'd sfs_fs \<Rightarrow> 'd sfs_fs option" where
  "sfs_trunc_direct v blocklen [] i fs = Some fs"
| "sfs_trunc_direct v blocklen (block # bs) i fs =
     (if i \<ge> blocklen \<and> block \<noteq> 0 then do {
        fs1 \<leftarrow> sfs_bfree block fs;
        sfs_trunc_direct v blocklen bs (i + 1)
          (upd_inode v (\<lambda>ino. ino\<lparr>sfi_direct := (sfi_direct ino)[i := 0]\<rparr>) fs1) }
      else sfs_trunc_direct v blocklen bs (i + 1) fs)"

text \<open>The loop over the entries of the indirect block from \<open>j\<close> on: the new entries and whether one changed.\<close>

fun sfs_trunc_indirect :: "nat \<Rightarrow> nat list \<Rightarrow> nat \<Rightarrow> 'd sfs_fs \<Rightarrow> (nat list \<times> bool \<times> 'd sfs_fs) option" where
  "sfs_trunc_indirect blocklen [] j fs = Some ([], False, fs)"
| "sfs_trunc_indirect blocklen (block # bs) j fs =
     (if blocklen < SFS_NDIRECT + j \<and> block \<noteq> 0 then do {
        fs1 \<leftarrow> sfs_bfree block fs;
        (bs', _, fs2) \<leftarrow> sfs_trunc_indirect blocklen bs (j + 1) fs1;
        Some (0 # bs', True, fs2) }
      else do {
        (bs', iddirty, fs2) \<leftarrow> sfs_trunc_indirect blocklen bs (j + 1) fs;
        Some (block # bs', iddirty, fs2) })"

text \<open>The indirect block: it is read, its entries are dealt with, and it is freed or written back.\<close>

definition sfs_trunc_idblock :: "'d d_io \<Rightarrow> nat \<Rightarrow> nat \<Rightarrow> nat \<Rightarrow> 'd sfs_fs \<Rightarrow> (unit, 'd sfs_fs) kcall" where
  "sfs_trunc_idblock dio v blocklen idblock fs =
     try_k (sfs_rblock dio zero_block idblock fs) (\<lambda>bs fs1. do {
       (idbuf, iddirty, fs2) \<leftarrow> sfs_trunc_indirect blocklen (un_be32s SFS_DBPERIDB bs) 0 fs1;
       if \<forall>b \<in> set idbuf. b = 0 then do {
         fs3 \<leftarrow> sfs_bfree idblock fs2;
         Some (Inr (), upd_inode v (\<lambda>i. i\<lparr>sfi_indirect := 0\<rparr>) fs3) }
       else if iddirty then sfs_wblock dio (be32s idbuf) idblock fs2
       else Some (Inr (), fs2) })"

definition sfs_truncate :: "'d d_io \<Rightarrow> nat \<Rightarrow> int \<Rightarrow> 'd sfs_fs \<Rightarrow> (unit, 'd sfs_fs) kcall" where
  "sfs_truncate dio v len fs = do {
     sv \<leftarrow> sv_mem fs v;
     let blocklen = off_blk (c_int (len + 511));
     fs1 \<leftarrow> sfs_trunc_direct v blocklen (sfi_direct (sv_i sv)) 0 fs;
     let idblock = sfi_indirect (sv_i sv);
     let highblock = SFS_NDIRECT + SFS_DBPERIDB - 1;
     try_k (if blocklen < highblock \<and> idblock \<noteq> 0 then sfs_trunc_idblock dio v blocklen idblock fs1
       else Some (Inr (), fs1)) (\<lambda>_ fs2.
       Some (Inr (), upd_inode v (\<lambda>i. i\<lparr>sfi_size := nat (len mod 2 ^ 32)\<rparr>) fs2)) }"

text \<open>The index of a vnode in the table of loaded vnodes.\<close>

function sfs_vnode_index :: "nat \<Rightarrow> int \<Rightarrow> 'd sfs_fs \<Rightarrow> int option" where
  "sfs_vnode_index v i fs =
     (if i < array_getnum (sfs_vnodes fs) then do {
        v2 \<leftarrow> array_getguy (sfs_vnodes fs) i;
        if v2 = v then Some i else sfs_vnode_index v (i + 1) fs }
      else None)"
  by pat_completeness auto
termination
  by (relation "measure (\<lambda>(v, i, fs). nat (a_num (sfs_vnodes fs) - i))") (auto simp: array_getnum_def)

declare sfs_vnode_index.simps [simp del]

text \<open>
  \<open>VOP_TRUNCATE\<close> of a directory is \<open>EISDIR\<close> by the function table.  \<open>VOP_KILL\<close> checks the counts.
\<close>

definition sfs_reclaim :: "'d d_io \<Rightarrow> nat \<Rightarrow> 'd sfs_fs \<Rightarrow> (unit, 'd sfs_fs) kcall" where
  "sfs_reclaim dio v fs = do {
     sv \<leftarrow> sv_mem fs v;
     if vn_refcount sv \<noteq> 1 then do {
       kassert (vn_refcount sv > 1);
       Some (Inl EBUSY, upd_sv v (\<lambda>sv. sv\<lparr>vn_refcount := vn_refcount sv - 1\<rparr>) fs) }
     else
       try_k (if sfi_linkcount (sv_i sv) = 0 then
                (if sfi_type (sv_i sv) = SFS_TYPE_DIR then Some (Inl EISDIR, fs) else sfs_truncate dio v 0 fs)
              else Some (Inr (), fs)) (\<lambda>_ fs1.
       try_k (sfs_sync_inode dio v fs1) (\<lambda>_ fs2. do {
         fs3 \<leftarrow> (if sfi_linkcount (sv_i sv) = 0 then sfs_bfree (sv_ino sv) fs2 else Some fs2);
         ix \<leftarrow> sfs_vnode_index v 0 fs3;
         a \<leftarrow> array_remove (sfs_vnodes fs3) ix;
         kassert (vn_opencount sv = 0);
         Some (Inr (), fs3\<lparr>sfs_vnodes := a, sv_mem := (sv_mem fs3)(v := None)\<rparr>) })) }"

text \<open>An error of \<open>VOP_RECLAIM\<close> other than \<open>EBUSY\<close> is only printed.\<close>

definition vnode_decref :: "'d d_io \<Rightarrow> nat \<Rightarrow> 'd sfs_fs \<Rightarrow> 'd sfs_fs option" where
  "vnode_decref dio v fs = do {
     sv \<leftarrow> sv_mem fs v;
     kassert (vn_refcount sv > 0);
     if vn_refcount sv > 1 then Some (upd_sv v (\<lambda>sv. sv\<lparr>vn_refcount := vn_refcount sv - 1\<rparr>) fs)
     else do { (_, fs1) \<leftarrow> sfs_reclaim dio v fs; Some fs1 } }"

definition vnode_incopen :: "nat \<Rightarrow> 'd sfs_fs \<Rightarrow> 'd sfs_fs option" where
  "vnode_incopen v fs = do {
     sv_mem fs v;
     Some (upd_sv v (\<lambda>sv. sv\<lparr>vn_opencount := vn_opencount sv + 1\<rparr>) fs) }"

end
