(* ===== verification/Sfs_File.thy ===== *)
theory Sfs_File
  imports Sfs_Vnode
begin

text \<open>
  Files as byte sequences.  The inode and the indirect block of a file give its block map, a list of
  143 disk block numbers with 0 for a hole, and the block map and the disk give its contents.  The
  lemmas of the locale \<open>block_device\<close> describe block allocation, \<open>sfs_bmap\<close> and \<open>sfs_io\<close> on
  these, for every device that keeps the contract of \<open>Lhd\<close>.
\<close>

section \<open>The abstraction\<close>

abbreviation NBLK :: nat where "NBLK \<equiv> 143"

definition indir :: "(nat \<Rightarrow> bytes) \<Rightarrow> sfs_inode \<Rightarrow> nat list" where
  "indir B i = (if sfi_indirect i = 0 then replicate SFS_DBPERIDB 0 else un_be32s SFS_DBPERIDB (B (sfi_indirect i)))"

definition blkmap :: "(nat \<Rightarrow> bytes) \<Rightarrow> sfs_inode \<Rightarrow> nat list" where
  "blkmap B i = sfi_direct i @ indir B i"

definition data_block :: "(nat \<Rightarrow> bytes) \<Rightarrow> nat \<Rightarrow> bytes" where
  "data_block B b = (if b = 0 then zero_block else B b)"

definition file_bytes :: "(nat \<Rightarrow> bytes) \<Rightarrow> sfs_inode \<Rightarrow> bytes" where
  "file_bytes B i = concat (map (data_block B) (blkmap B i))"

text \<open>The disk blocks of a file, its indirect block included.\<close>

definition inode_blocks :: "(nat \<Rightarrow> bytes) \<Rightarrow> sfs_inode \<Rightarrow> nat set" where
  "inode_blocks B i = insert (sfi_indirect i) (set (blkmap B i)) - {0}"

text \<open>No block occurs twice in a block map.\<close>

definition dist0 :: "nat list \<Rightarrow> bool" where
  "dist0 xs \<longleftrightarrow> (\<forall>i < length xs. \<forall>j < length xs. xs ! i = xs ! j \<longrightarrow> xs ! i \<noteq> 0 \<longrightarrow> i = j)"

text \<open>An inode whose blocks are distinct, in use and inside the volume.\<close>

definition inode_ok :: "nat \<Rightarrow> nat set \<Rightarrow> (nat \<Rightarrow> bytes) \<Rightarrow> sfs_inode \<Rightarrow> bool" where
  "inode_ok nb U B i \<longleftrightarrow> inode_wf i \<and> dist0 (blkmap B i) \<and>
     (sfi_indirect i \<noteq> 0 \<longrightarrow> sfi_indirect i \<notin> set (blkmap B i)) \<and>
     inode_blocks B i \<subseteq> U \<and> (\<forall>b \<in> inode_blocks B i. b < nb)"

abbreviation used_blocks :: "'d sfs_fs \<Rightarrow> nat set" where
  "used_blocks fs \<equiv> bitmap_used (sfs_freemap fs)"

abbreviation nblocks :: "'d sfs_fs \<Rightarrow> nat" where
  "nblocks fs \<equiv> sp_nblocks (sfs_sb fs)"

text \<open>A sound free map: the superblock's block and what is past the volume are never free.\<close>

definition fs_ok :: "('d \<Rightarrow> bool) \<Rightarrow> nat \<Rightarrow> 'd sfs_fs \<Rightarrow> bool" where
  "fs_ok good n fs \<longleftrightarrow> good (sfs_device fs) \<and> bitmap_inv (sfs_freemap fs) \<and> nblocks fs \<le> n \<and>
     nblocks fs \<le> b_nbits (sfs_freemap fs) \<and> {nblocks fs..<b_nbits (sfs_freemap fs)} \<subseteq> used_blocks fs \<and>
     0 \<in> used_blocks fs"

definition inode_of :: "'d sfs_fs \<Rightarrow> nat \<Rightarrow> sfs_inode" where
  "inode_of fs v = sv_i (the (sv_mem fs v))"

text \<open>
  A loaded file: its inode is sound, it lies in a block of its own, and unless it is marked dirty
  the disk has it as it is in memory.
\<close>

definition sv_ok :: "nat \<Rightarrow> nat set \<Rightarrow> (nat \<Rightarrow> bytes) \<Rightarrow> sfs_vnode \<Rightarrow> bool" where
  "sv_ok nb U B sv \<longleftrightarrow> inode_ok nb U B (sv_i sv) \<and> sv_ino sv \<in> U \<and> sv_ino sv < nb \<and> sv_ino sv \<noteq> 0 \<and>
     sv_ino sv \<notin> inode_blocks B (sv_i sv) \<and> (sv_dirty sv \<or> decode_inode (B (sv_ino sv)) = sv_i sv)"

definition file_ok :: "('d \<Rightarrow> nat \<Rightarrow> bytes) \<Rightarrow> 'd sfs_fs \<Rightarrow> nat \<Rightarrow> bool" where
  "file_ok blk fs v \<longleftrightarrow> (\<exists>sv. sv_mem fs v = Some sv \<and>
     sv_ok (nblocks fs) (used_blocks fs) (blk (sfs_device fs)) sv)"

definition file_blocks :: "('d \<Rightarrow> nat \<Rightarrow> bytes) \<Rightarrow> 'd sfs_fs \<Rightarrow> nat \<Rightarrow> nat set" where
  "file_blocks blk fs v = inode_blocks (blk (sfs_device fs)) (inode_of fs v)"

definition contents :: "('d \<Rightarrow> nat \<Rightarrow> bytes) \<Rightarrow> 'd sfs_fs \<Rightarrow> nat \<Rightarrow> bytes" where
  "contents blk fs v = file_bytes (blk (sfs_device fs)) (inode_of fs v)"

text \<open>The blocks a loaded file owns: the one of its inode and those of its data.\<close>

definition owned :: "('d \<Rightarrow> nat \<Rightarrow> bytes) \<Rightarrow> 'd sfs_fs \<Rightarrow> nat \<Rightarrow> nat set" where
  "owned blk fs v = insert (sv_ino (the (sv_mem fs v))) (file_blocks blk fs v)"

text \<open>
  What an operation on the file \<open>v\<close> may do to the rest of the filesystem: it keeps everything sound,
  touches no other vnode and no block in use that is not the file's, frees only blocks of the file and
  takes only free blocks for it.
\<close>

definition file_step :: "('d \<Rightarrow> nat \<Rightarrow> bytes) \<Rightarrow> ('d \<Rightarrow> bool) \<Rightarrow> nat \<Rightarrow> nat \<Rightarrow> 'd sfs_fs \<Rightarrow> 'd sfs_fs \<Rightarrow> bool" where
  "file_step blk good n v fs fs' \<longleftrightarrow> fs_ok good n fs' \<and> file_ok blk fs' v \<and>
     sfs_sb fs' = sfs_sb fs \<and> sfs_superdirty fs' = sfs_superdirty fs \<and> sfs_vnodes fs' = sfs_vnodes fs \<and>
     used_blocks fs - file_blocks blk fs v \<subseteq> used_blocks fs' \<and> (\<forall>w. w \<noteq> v \<longrightarrow> sv_mem fs' w = sv_mem fs w) \<and>
     sv_ino (the (sv_mem fs' v)) = sv_ino (the (sv_mem fs v)) \<and>
     vn_refcount (the (sv_mem fs' v)) = vn_refcount (the (sv_mem fs v)) \<and>
     vn_opencount (the (sv_mem fs' v)) = vn_opencount (the (sv_mem fs v)) \<and>
     sfi_type (inode_of fs' v) = sfi_type (inode_of fs v) \<and>
     sfi_linkcount (inode_of fs' v) = sfi_linkcount (inode_of fs v) \<and>
     file_blocks blk fs' v \<subseteq> file_blocks blk fs v \<union> (used_blocks fs' - used_blocks fs) \<and>
     (\<forall>b \<in> used_blocks fs - owned blk fs v. blk (sfs_device fs') b = blk (sfs_device fs) b)"

text \<open>A sound filesystem: the table lists the loaded vnodes and no block has two owners.\<close>

definition vnode_table :: "'d sfs_fs \<Rightarrow> bool" where
  "vnode_table fs \<longleftrightarrow> array_inv (sfs_vnodes fs) \<and> distinct (array_list (sfs_vnodes fs)) \<and>
     set (array_list (sfs_vnodes fs)) = dom (sv_mem fs)"

definition sfs_inv :: "('d \<Rightarrow> nat \<Rightarrow> bytes) \<Rightarrow> ('d \<Rightarrow> bool) \<Rightarrow> nat \<Rightarrow> 'd sfs_fs \<Rightarrow> bool" where
  "sfs_inv blk good n fs \<longleftrightarrow> fs_ok good n fs \<and> vnode_table fs \<and> (\<forall>v \<in> dom (sv_mem fs). file_ok blk fs v) \<and>
     (\<forall>v \<in> dom (sv_mem fs). \<forall>w \<in> dom (sv_mem fs). v \<noteq> w \<longrightarrow> owned blk fs v \<inter> owned blk fs w = {})"

section \<open>Lemmas on block maps\<close>

lemma blkmap_length [simp]: "inode_wf i \<Longrightarrow> length (blkmap B i) = NBLK"
  by (simp add: blkmap_def indir_def inode_wf_def)

lemma inode_ok_wf: "inode_ok nb U B i \<Longrightarrow> inode_wf i"
  by (simp add: inode_ok_def)

lemma inode_ok_sub: "inode_ok nb U B i \<Longrightarrow> inode_blocks B i \<subseteq> U' \<Longrightarrow> inode_ok nb U' B i"
  by (simp add: inode_ok_def)

lemma inode_blocksI: "b \<noteq> 0 \<Longrightarrow> b \<in> set (blkmap B i) \<Longrightarrow> b \<in> inode_blocks B i"
  by (simp add: inode_blocks_def)

lemma inode_ok_indirect:
  "inode_ok nb U B i \<Longrightarrow> sfi_indirect i \<noteq> 0 \<Longrightarrow> sfi_indirect i \<in> U \<and> sfi_indirect i < nb"
  by (auto simp: inode_ok_def inode_blocks_def)

lemma inode_ok_block:
  assumes "inode_ok nb U B i" and "k < NBLK" and "blkmap B i ! k \<noteq> 0"
  shows "blkmap B i ! k \<in> U" and "blkmap B i ! k < nb" and "blkmap B i ! k \<in> inode_blocks B i"
    and "blkmap B i ! k \<noteq> sfi_indirect i"
proof -
  have m: "blkmap B i ! k \<in> set (blkmap B i)"
    using assms(1,2) by (intro nth_mem) (simp add: inode_ok_def)
  then show b: "blkmap B i ! k \<in> inode_blocks B i" using assms(3) by (rule inode_blocksI [rotated])
  show "blkmap B i ! k \<in> U" "blkmap B i ! k < nb" using b assms(1) by (auto simp: inode_ok_def)
  show "blkmap B i ! k \<noteq> sfi_indirect i" using m assms(1,3) by (auto simp: inode_ok_def)
qed

lemma dist0_update:
  assumes "dist0 xs" and "b \<notin> set xs"
  shows "dist0 (xs[k := b])"
proof -
  have "i = j" if "i < length xs" "j < length xs" "xs[k := b] ! i = xs[k := b] ! j" "xs[k := b] ! i \<noteq> 0" for i j
    using that assms nth_mem [of i xs] nth_mem [of j xs] unfolding dist0_def
    by (cases "i = k"; cases "j = k"; simp)
  then show ?thesis by (simp add: dist0_def)
qed

lemma concat_blocks_eq:
  "length xs = length ys \<Longrightarrow> (\<And>j. j < length xs \<Longrightarrow> data_block B (xs ! j) = data_block B' (ys ! j)) \<Longrightarrow>
     concat (map (data_block B) xs) = concat (map (data_block B') ys)"
  by (intro arg_cong [where f = concat] nth_equalityI) simp_all

text \<open>Contents depend on the file's own blocks only.\<close>

lemma indir_frame:
  "(\<And>b. b \<in> inode_blocks B i \<Longrightarrow> B' b = B b) \<Longrightarrow> indir B' i = indir B i"
  by (simp add: indir_def inode_blocks_def)

lemma blkmap_frame:
  "(\<And>b. b \<in> inode_blocks B i \<Longrightarrow> B' b = B b) \<Longrightarrow> blkmap B' i = blkmap B i"
  using indir_frame [of B i B'] by (simp add: blkmap_def)

lemma inode_frame:
  assumes "\<And>b. b \<in> inode_blocks B i \<Longrightarrow> B' b = B b"
  shows "blkmap B' i = blkmap B i" and "inode_blocks B' i = inode_blocks B i" and "file_bytes B' i = file_bytes B i"
    and "inode_ok nb U B' i = inode_ok nb U B i"
proof -
  show bm: "blkmap B' i = blkmap B i" using assms by (rule blkmap_frame)
  then show ib: "inode_blocks B' i = inode_blocks B i" by (simp add: inode_blocks_def)
  show "file_bytes B' i = file_bytes B i"
    unfolding file_bytes_def bm
  proof (rule concat_blocks_eq)
    fix j assume "j < length (blkmap B i)"
    then show "data_block B' (blkmap B i ! j) = data_block B (blkmap B i ! j)"
      using assms inode_blocksI [of "blkmap B i ! j" B i] by (auto simp: data_block_def)
  qed simp
  show "inode_ok nb U B' i = inode_ok nb U B i" by (simp add: inode_ok_def bm ib)
qed

text \<open>A free, cleared block put into a hole of the block map: the contents stay as they were.\<close>

lemma blkmap_assign:
  assumes ok: "inode_ok nb U B i" and b: "b \<notin> U" "b < nb" and k: "k < NBLK" "blkmap B i ! k = 0"
    and wf: "inode_wf i'" and ind: "sfi_indirect i' = sfi_indirect i"
    and bm: "blkmap B' i' = (blkmap B i)[k := b]"
    and old: "\<And>c. c \<in> inode_blocks B i \<Longrightarrow> c \<noteq> sfi_indirect i \<Longrightarrow> B' c = B c" and new: "B' b = zero_block"
  shows "inode_ok nb (insert b U) B' i'" and "file_bytes B' i' = file_bytes B i"
    and "inode_blocks B' i' \<subseteq> insert b (inode_blocks B i)"
proof -
  have len: "length (blkmap B i) = NBLK" using ok by (simp add: inode_ok_def)
  have sub: "inode_blocks B i \<subseteq> U" using ok by (simp add: inode_ok_def)
  show ib: "inode_blocks B' i' \<subseteq> insert b (inode_blocks B i)"
    using set_update_subset_insert [of "blkmap B i" k b] by (auto simp: inode_blocks_def bm ind)
  show "file_bytes B' i' = file_bytes B i"
    unfolding file_bytes_def
  proof (rule concat_blocks_eq)
    fix j assume "j < length (blkmap B' i')"
    then have j: "j < NBLK" by (simp add: bm len)
    show "data_block B' (blkmap B' i' ! j) = data_block B (blkmap B i ! j)"
    proof (cases "j = k")
      case True
      then show ?thesis using k new by (simp add: bm len data_block_def)
    next
      case False
      then show ?thesis using inode_ok_block [OF ok j] old by (auto simp: bm data_block_def)
    qed
  qed (simp add: bm)
  have "b \<notin> set (blkmap B i) \<or> b = 0" using b sub by (auto simp: inode_blocks_def)
  moreover have "dist0 ((blkmap B i)[k := b])" if "b = 0"
    using ok k that by (metis inode_ok_def list_update_id)
  ultimately have "dist0 ((blkmap B i)[k := b])" using ok dist0_update by (auto simp: inode_ok_def)
  moreover have "sfi_indirect i \<noteq> 0 \<Longrightarrow> sfi_indirect i \<notin> set ((blkmap B i)[k := b])"
    using inode_ok_indirect [OF ok] b ok set_update_subset_insert [of "blkmap B i" k b]
    unfolding inode_ok_def by fast
  moreover have "inode_blocks B' i' \<subseteq> insert b U" using ib sub by blast
  moreover have "\<forall>c \<in> inode_blocks B' i'. c < nb" using ib b ok unfolding inode_ok_def by blast
  ultimately show "inode_ok nb (insert b U) B' i'" using wf by (simp add: inode_ok_def bm ind)
qed

lemma file_blocks_used: "file_ok blk fs v \<Longrightarrow> file_blocks blk fs v \<subseteq> used_blocks fs"
  by (auto simp: file_ok_def sv_ok_def inode_ok_def file_blocks_def inode_of_def)

lemma file_step_refl: "fs_ok good n fs \<Longrightarrow> file_ok blk fs v \<Longrightarrow> file_step blk good n v fs fs"
  by (simp add: file_step_def)

lemma file_step_trans:
  assumes "file_step blk good n v fs fs1" and "file_step blk good n v fs1 fs2"
  shows "file_step blk good n v fs fs2"
proof -
  have "blk (sfs_device fs2) b = blk (sfs_device fs) b" if "b \<in> used_blocks fs - owned blk fs v" for b
  proof -
    have "b \<in> used_blocks fs1 - owned blk fs1 v" using that assms(1) unfolding file_step_def owned_def by auto
    with that assms show ?thesis unfolding file_step_def by simp
  qed
  moreover have "file_blocks blk fs2 v \<subseteq> used_blocks fs2"
    using assms(2) by (intro file_blocks_used) (simp add: file_step_def)
  then have "file_blocks blk fs2 v \<subseteq> file_blocks blk fs v \<union> (used_blocks fs2 - used_blocks fs)"
    using assms unfolding file_step_def by blast
  moreover have "used_blocks fs - file_blocks blk fs v \<subseteq> used_blocks fs2" using assms unfolding file_step_def by blast
  ultimately show ?thesis using assms unfolding file_step_def by simp
qed

text \<open>A step of one file keeps the filesystem sound and the other files as they were.\<close>

lemma owned_used: "file_ok blk fs v \<Longrightarrow> owned blk fs v \<subseteq> used_blocks fs"
  using file_blocks_used [of blk fs v] by (auto simp: owned_def file_ok_def sv_ok_def)

lemma file_step_other:
  assumes st: "file_step blk good n v fs fs'" and inv: "sfs_inv blk good n fs"
    and w: "w \<noteq> v" "w \<in> dom (sv_mem fs)" and v: "v \<in> dom (sv_mem fs)"
  shows "sv_mem fs' w = sv_mem fs w" and "contents blk fs' w = contents blk fs w"
    and "file_ok blk fs' w" and "owned blk fs' w = owned blk fs w"
proof -
  let ?B = "blk (sfs_device fs)" and ?B' = "blk (sfs_device fs')"
  show mem: "sv_mem fs' w = sv_mem fs w" using st w by (simp add: file_step_def)
  then have ino: "inode_of fs' w = inode_of fs w" by (simp add: inode_of_def)
  have fw: "file_ok blk fs w" using inv w by (simp add: sfs_inv_def)
  have dis: "owned blk fs v \<inter> owned blk fs w = {}" using inv w v unfolding sfs_inv_def by blast
  have same: "?B' b = ?B b" if "b \<in> owned blk fs w" for b
    using that dis owned_used [OF fw] st unfolding file_step_def owned_def by blast
  then have fr: "?B' b = ?B b" if "b \<in> inode_blocks ?B (inode_of fs w)" for b
    using that by (simp add: owned_def file_blocks_def)
  note fr = inode_frame [of ?B "inode_of fs w" ?B', OF fr]
  show "contents blk fs' w = contents blk fs w" using fr(3) ino by (simp add: contents_def)
  show "owned blk fs' w = owned blk fs w" using fr(2) ino mem by (simp add: owned_def file_blocks_def)
  obtain sv where sv: "sv_mem fs w = Some sv" "sv_ok (nblocks fs) (used_blocks fs) ?B sv"
    using fw by (auto simp: file_ok_def)
  have "?B' (sv_ino sv) = ?B (sv_ino sv)" using same sv(1) by (simp add: owned_def)
  moreover have own: "owned blk fs w \<subseteq> used_blocks fs'"
    using dis owned_used [OF fw] st unfolding file_step_def owned_def by blast
  then have "inode_ok (nblocks fs') (used_blocks fs') ?B' (sv_i sv)"
    using sv st fr(2,4) inode_ok_sub [of "nblocks fs" "used_blocks fs" ?B' "sv_i sv" "used_blocks fs'"]
    by (simp add: sv_ok_def file_step_def inode_of_def owned_def file_blocks_def)
  moreover have "sv_ino sv \<in> used_blocks fs'" using own sv(1) by (simp add: owned_def)
  ultimately have "sv_ok (nblocks fs') (used_blocks fs') ?B' sv"
    using sv st fr(2) by (auto simp: sv_ok_def file_step_def inode_of_def)
  then show "file_ok blk fs' w" using mem sv(1) by (simp add: file_ok_def)
qed

lemma file_step_inv:
  assumes st: "file_step blk good n v fs fs'" and inv: "sfs_inv blk good n fs" and v: "v \<in> dom (sv_mem fs)"
  shows "sfs_inv blk good n fs'"
proof -
  have dom: "dom (sv_mem fs') = dom (sv_mem fs)"
    using st v unfolding file_step_def file_ok_def by (auto simp: dom_def)
  have other: "file_ok blk fs' w" "owned blk fs' w = owned blk fs w" if "w \<in> dom (sv_mem fs)" "w \<noteq> v" for w
    using file_step_other [OF st inv that(2,1) v] by simp_all
  have vok: "file_ok blk fs' v" "fs_ok good n fs'" using st by (simp_all add: file_step_def)
  have ow: "owned blk fs' v \<subseteq> owned blk fs v \<union> (used_blocks fs' - used_blocks fs)"
    using st unfolding file_step_def owned_def by auto
  have dis: "owned blk fs v \<inter> owned blk fs w = {}" "owned blk fs w \<subseteq> used_blocks fs"
    if "w \<in> dom (sv_mem fs)" "w \<noteq> v" for w
    using inv that v owned_used [of blk fs w] unfolding sfs_inv_def by blast+
  have vw: "owned blk fs' v \<inter> owned blk fs' w = {}" if "w \<in> dom (sv_mem fs)" "w \<noteq> v" for w
    using ow dis [OF that] other(2) [OF that] by blast
  have "owned blk fs' x \<inter> owned blk fs' w = {}"
    if x: "x \<in> dom (sv_mem fs)" and w: "w \<in> dom (sv_mem fs)" and "x \<noteq> w" for x w
  proof (cases "x = v \<or> w = v")
    case True
    then show ?thesis using vw [OF x] vw [OF w] that(3) by blast
  next
    case False
    then show ?thesis using other(2) [OF x] other(2) [OF w] inv x w that(3) unfolding sfs_inv_def by simp
  qed
  moreover have "vnode_table fs'" using inv st dom by (simp add: sfs_inv_def vnode_table_def file_step_def)
  ultimately show ?thesis using vok other(1) dom unfolding sfs_inv_def by metis
qed

section \<open>Blocks of the device\<close>

text \<open>A step that only reads the device.\<close>

definition same_disk :: "('d \<Rightarrow> nat \<Rightarrow> bytes) \<Rightarrow> ('d \<Rightarrow> bool) \<Rightarrow> 'd sfs_fs \<Rightarrow> 'd sfs_fs \<Rightarrow> bool" where
  "same_disk blk good fs fs' \<longleftrightarrow> good (sfs_device fs') \<and> blk (sfs_device fs') = blk (sfs_device fs) \<and>
     fs' = fs\<lparr>sfs_device := sfs_device fs'\<rparr>"

text \<open>A free block \<open>b\<close> has been taken and cleared.\<close>

definition took_block :: "('d \<Rightarrow> nat \<Rightarrow> bytes) \<Rightarrow> ('d \<Rightarrow> bool) \<Rightarrow> nat \<Rightarrow> nat \<Rightarrow> 'd sfs_fs \<Rightarrow> 'd sfs_fs \<Rightarrow> bool" where
  "took_block blk good n b fs fs' \<longleftrightarrow> b \<notin> used_blocks fs \<and> b \<noteq> 0 \<and> b < nblocks fs \<and> fs_ok good n fs' \<and>
     used_blocks fs' = insert b (used_blocks fs) \<and>
     blk (sfs_device fs') = (blk (sfs_device fs))(b := zero_block) \<and> sfs_sb fs' = sfs_sb fs \<and>
     sfs_superdirty fs' = sfs_superdirty fs \<and> sfs_vnodes fs' = sfs_vnodes fs \<and> sv_mem fs' = sv_mem fs"

lemma same_disk_refl: "good (sfs_device fs) \<Longrightarrow> same_disk blk good fs fs"
  by (simp add: same_disk_def)

lemma same_disk_fields:
  assumes "same_disk blk good fs fs'"
  shows "sfs_sb fs' = sfs_sb fs" "sfs_superdirty fs' = sfs_superdirty fs" "sfs_vnodes fs' = sfs_vnodes fs"
    "sfs_freemap fs' = sfs_freemap fs" "sfs_freemapdirty fs' = sfs_freemapdirty fs" "sv_mem fs' = sv_mem fs"
    "blk (sfs_device fs') = blk (sfs_device fs)" "good (sfs_device fs')"
proof -
  obtain d where "fs' = fs\<lparr>sfs_device := d\<rparr>" using assms unfolding same_disk_def by blast
  then show "sfs_sb fs' = sfs_sb fs" "sfs_superdirty fs' = sfs_superdirty fs" "sfs_vnodes fs' = sfs_vnodes fs"
    "sfs_freemap fs' = sfs_freemap fs" "sfs_freemapdirty fs' = sfs_freemapdirty fs" "sv_mem fs' = sv_mem fs"
    by simp_all
  show "blk (sfs_device fs') = blk (sfs_device fs)" "good (sfs_device fs')" using assms by (simp_all add: same_disk_def)
qed

lemma same_disk_trans:
  assumes "same_disk blk good fs fs1" and "same_disk blk good fs1 fs2"
  shows "same_disk blk good fs fs2"
proof -
  obtain d1 d2 where "fs1 = fs\<lparr>sfs_device := d1\<rparr>" "fs2 = fs1\<lparr>sfs_device := d2\<rparr>"
    using assms unfolding same_disk_def by blast
  then show ?thesis using assms by (simp add: same_disk_def)
qed

lemma same_disk_ok:
  assumes "same_disk blk good fs fs'"
  shows "fs_ok good n fs \<Longrightarrow> fs_ok good n fs'" and "file_ok blk fs' v = file_ok blk fs v"
    and "contents blk fs' v = contents blk fs v" and "inode_of fs' v = inode_of fs v"
  using same_disk_fields [OF assms] by (simp_all add: fs_ok_def file_ok_def contents_def inode_of_def)

lemma same_disk_step:
  assumes "same_disk blk good fs fs'" and "fs_ok good n fs" and "file_ok blk fs v"
  shows "file_step blk good n v fs fs'"
  using assms same_disk_ok [OF assms(1)] same_disk_fields [OF assms(1)]
  by (simp add: file_step_def file_blocks_def)

lemma upd_inode_fields [simp]:
  "sfs_sb (upd_inode v f fs) = sfs_sb fs" "sfs_superdirty (upd_inode v f fs) = sfs_superdirty fs"
  "sfs_vnodes (upd_inode v f fs) = sfs_vnodes fs" "sfs_freemap (upd_inode v f fs) = sfs_freemap fs"
  "sfs_freemapdirty (upd_inode v f fs) = sfs_freemapdirty fs" "sfs_device (upd_inode v f fs) = sfs_device fs"
  "w \<noteq> v \<Longrightarrow> sv_mem (upd_inode v f fs) w = sv_mem fs w"
  "sv_mem (upd_inode v f fs) v = map_option (\<lambda>sv. sv\<lparr>sv_i := f (sv_i sv), sv_dirty := True\<rparr>) (sv_mem fs v)"
  "fs_ok good n (upd_inode v f fs) = fs_ok good n fs"
  by (simp_all add: upd_inode_def upd_sv_def fs_ok_def)

context block_device
begin

lemma block_offset: "b < n \<Longrightarrow> c_int (int b * 512) = int b * 512"
  using n_limit by (intro c_int_id) simp_all

lemma rwblock_read:
  assumes "good (sfs_device fs)" and "b < n" and "uio_rw u = UIO_READ" and "uio_offset u = int b * 512"
    and "uio_resid u = 512" and "512 \<le> length (iov_buf u)" and "uio_safe u"
  shows "\<exists>fs'. sfs_rwblock dio u fs = Some (Inr (), uio_moved (blk (sfs_device fs) b) u, fs') \<and> same_disk blk good fs fs'"
  using dio_read [OF assms] by (auto simp: sfs_rwblock_def sfs_rw_retry.simps same_disk_def)

lemma rwblock_write:
  assumes "good (sfs_device fs)" and "b < n" and "uio_rw u = UIO_WRITE" and "uio_offset u = int b * 512"
    and "uio_resid u = 512" and "512 \<le> length (iov_buf u)" and "uio_safe u"
  shows "\<exists>d'. sfs_rwblock dio u fs = Some (Inr (), uio_moved (take 512 (iov_buf u)) u, fs\<lparr>sfs_device := d'\<rparr>) \<and>
    good d' \<and> blk d' = (blk (sfs_device fs))(b := take 512 (iov_buf u))"
  using dio_write [OF assms] by (auto simp: sfs_rwblock_def sfs_rw_retry.simps)

lemma rblock_ok:
  assumes "good (sfs_device fs)" and "b < n" and "length data = 512"
  shows "\<exists>fs'. sfs_rblock dio data b fs = Some (Inr (blk (sfs_device fs) b), fs') \<and> same_disk blk good fs fs'"
proof -
  let ?u = "mk_kuio data (int b * 512) UIO_READ"
  obtain fs' where "sfs_rwblock dio ?u fs = Some (Inr (), uio_moved (blk (sfs_device fs) b) ?u, fs')" "same_disk blk good fs fs'"
    using rwblock_read [of fs b ?u] assms by (auto simp: mk_kuio_def uio_safe_def)
  then show ?thesis
    using assms blk_length [of "sfs_device fs" b] by (simp add: sfs_rblock_def block_offset) (simp add: mk_kuio_def)
qed

lemma wblock_ok:
  assumes "good (sfs_device fs)" and "b < n" and "length data = 512"
  shows "\<exists>d'. sfs_wblock dio data b fs = Some (Inr (), fs\<lparr>sfs_device := d'\<rparr>) \<and> good d' \<and>
    blk d' = (blk (sfs_device fs))(b := data)"
proof -
  let ?u = "mk_kuio data (int b * 512) UIO_WRITE"
  obtain d' where "sfs_rwblock dio ?u fs = Some (Inr (), uio_moved data ?u, fs\<lparr>sfs_device := d'\<rparr>)"
      "good d'" "blk d' = (blk (sfs_device fs))(b := data)"
    using rwblock_write [of fs b ?u] assms by (auto simp: mk_kuio_def uio_safe_def)
  then show ?thesis using assms by (auto simp: sfs_wblock_def block_offset)
qed

lemma balloc_ok:
  assumes "fs_ok good n fs"
  shows "(\<exists>b fs'. sfs_balloc dio fs = Some (Inr b, fs') \<and> took_block blk good n b fs fs')
    \<or> (sfs_balloc dio fs = Some (Inl ENOSPC, fs) \<and> used_blocks fs = {0..<b_nbits (sfs_freemap fs)})"
proof -
  have inv: "bitmap_inv (sfs_freemap fs)" using assms by (simp add: fs_ok_def)
  consider (ok) b bm where "bitmap_alloc (sfs_freemap fs) = Some (Inr b, bm)" "b < b_nbits (sfs_freemap fs)"
      "b \<notin> used_blocks fs" "bitmap_inv bm" "b_nbits bm = b_nbits (sfs_freemap fs)" "bitmap_used bm = insert b (used_blocks fs)"
    | (full) "bitmap_alloc (sfs_freemap fs) = Some (Inl ENOSPC, sfs_freemap fs)" "used_blocks fs = {0..<b_nbits (sfs_freemap fs)}"
    using bm.alloc [OF inv] by blast
  then show ?thesis
  proof cases
    case ok
    have "b \<notin> {nblocks fs..<b_nbits (sfs_freemap fs)}" "b \<noteq> 0"
      using ok(3) assms unfolding fs_ok_def by (blast, metis)
    then have b: "b < nblocks fs" "b \<noteq> 0" using ok(2) by auto
    let ?fs = "fs\<lparr>sfs_freemap := bm, sfs_freemapdirty := True\<rparr>"
    have "good (sfs_device ?fs)" "b < n" using assms b by (simp_all add: fs_ok_def)
    then obtain d' where d': "sfs_wblock dio zero_block b ?fs = Some (Inr (), ?fs\<lparr>sfs_device := d'\<rparr>)" "good d'"
        "blk d' = (blk (sfs_device fs))(b := zero_block)"
      using wblock_ok [of ?fs b zero_block] by auto
    then have "sfs_balloc dio fs = Some (Inr b, ?fs\<lparr>sfs_device := d'\<rparr>)"
      using ok b by (simp add: sfs_balloc_def sfs_clearblock_def Let_def)
    moreover have "took_block blk good n b fs (?fs\<lparr>sfs_device := d'\<rparr>)"
      using ok b d' assms by (auto simp: took_block_def fs_ok_def)
    ultimately show ?thesis by blast
  next
    case full
    then show ?thesis by (simp add: sfs_balloc_def)
  qed
qed

lemma hand_back_ok:
  assumes "fs_ok good n fs" and "b \<noteq> 0 \<Longrightarrow> b \<in> used_blocks fs \<and> b < nblocks fs"
  shows "hand_back b fs = Some (Inr b, fs)"
proof (cases "b = 0")
  case False
  then have "b < b_nbits (sfs_freemap fs)" "bitmap_inv (sfs_freemap fs)" using assms by (auto simp: fs_ok_def)
  then obtain w where "bitmap_isset (sfs_freemap fs) b = Some w" "w \<noteq> 0"
    using bitmap_isset_correct [of "sfs_freemap fs" b] assms(2) False by auto
  then show ?thesis using False assms(2) by (simp add: hand_back_def sfs_bused_def)
qed (simp add: hand_back_def)

end

end
