(* ===== verification/Sfs_Bmap.thy ===== *)
theory Sfs_Bmap
  imports Sfs_File
begin

text \<open>
  \<open>sfs_bmap\<close> (\<open>kern/fs/sfs/sfs_vnode.c\<close>) on files as byte sequences: without allocation it reads the
  block map; with allocation it fills a hole of the block map with a fresh cleared block, which
  leaves the contents of this and of every other file as they were.
\<close>

lemma mem_read_nat: "mem_read (Some xs) (int k) = (if k < length xs then Some (xs ! k) else None)"
  by (simp add: mem_read_def)

lemma be32s_zero: "be32s (replicate m 0) = replicate (4 * m) 0"
proof (induction m)
  case (Suc m)
  have "replicate 4 (0 :: 8 word) = [0, 0, 0, 0]" by (simp add: numeral_eq_Suc)
  then have "be32 0 = replicate 4 0" by (simp add: be32_def)
  then have "be32s (replicate (Suc m) 0) = replicate 4 0 @ replicate (4 * m) 0" using Suc by (simp add: be32s_def)
  also have "\<dots> = replicate (4 * Suc m) 0" by (simp only: replicate_add [symmetric] mult_Suc_right)
  finally show ?case .
qed (simp add: be32s_def)

lemma un_be32s_zero [simp]: "un_be32s SFS_DBPERIDB zero_block = replicate SFS_DBPERIDB 0"
  using un_be32s_be32s' [of "replicate SFS_DBPERIDB 0" SFS_DBPERIDB] by (simp add: be32s_zero)

lemma inode_of_Some [simp]: "sv_mem fs v = Some sv \<Longrightarrow> inode_of fs v = sv_i sv"
  by (simp add: inode_of_def)

text \<open>The file after a block has been taken for a hole of its block map.\<close>

lemma assign_step:
  assumes sv: "sv_mem fs v = Some sv" "sv_ok (nblocks fs) (used_blocks fs) (blk (sfs_device fs)) sv"
    and took: "took_block blk good n b fs fs1"
    and k: "k < NBLK" "blkmap (blk (sfs_device fs)) (sv_i sv) ! k = 0"
    and fs2: "fs_ok good n fs2" "sfs_sb fs2 = sfs_sb fs1" "sfs_superdirty fs2 = sfs_superdirty fs1"
      "sfs_vnodes fs2 = sfs_vnodes fs1" "sfs_freemap fs2 = sfs_freemap fs1"
      "\<And>w. w \<noteq> v \<Longrightarrow> sv_mem fs2 w = sv_mem fs1 w" "sv_mem fs2 v = Some (sv\<lparr>sv_i := i', sv_dirty := dy\<rparr>)"
    and i': "inode_wf i'" "sfi_indirect i' = sfi_indirect (sv_i sv)" "sfi_type i' = sfi_type (sv_i sv)"
      "sfi_linkcount i' = sfi_linkcount (sv_i sv)" "dy \<or> (i' = sv_i sv \<and> \<not> sv_dirty sv)"
    and disk: "\<And>c. c = 0 \<or> c \<noteq> sfi_indirect (sv_i sv) \<Longrightarrow> blk (sfs_device fs2) c = blk (sfs_device fs1) c"
    and bm: "blkmap (blk (sfs_device fs2)) i' = (blkmap (blk (sfs_device fs)) (sv_i sv))[k := b]"
  shows "file_step blk good n v fs fs2" and "contents blk fs2 v = contents blk fs v"
    and "blkmap (blk (sfs_device fs2)) i' ! k = b"
proof -
  let ?B = "blk (sfs_device fs)" and ?B2 = "blk (sfs_device fs2)" and ?i = "sv_i sv"
  have io: "inode_ok (nblocks fs) (used_blocks fs) ?B ?i" using sv by (simp add: sv_ok_def)
  have b: "b \<notin> used_blocks fs" "b < nblocks fs" "b \<noteq> 0" using took by (simp_all add: took_block_def)
  have ind: "sfi_indirect ?i \<noteq> b" using inode_ok_indirect [OF io] b by metis
  have old: "?B2 c = ?B c" if "c \<in> used_blocks fs" "c = 0 \<or> c \<noteq> sfi_indirect ?i" for c
  proof -
    have "c \<noteq> b" using that(1) b(1) by blast
    then show ?thesis using that(2) took disk by (simp add: took_block_def)
  qed
  have new: "?B2 b = zero_block" using disk [of b] ind took by (simp add: took_block_def)
  have sub: "inode_blocks ?B ?i \<subseteq> used_blocks fs" using io by (simp add: inode_ok_def)
  note as = blkmap_assign [OF io b(1,2) k i'(1,2) bm _ new]
  have as1: "inode_ok (nblocks fs) (insert b (used_blocks fs)) ?B2 i'"
    and as2: "file_bytes ?B2 i' = file_bytes ?B ?i" and as3: "inode_blocks ?B2 i' \<subseteq> insert b (inode_blocks ?B ?i)"
    using as old sub by blast+
  have used: "used_blocks fs2 = insert b (used_blocks fs)" "nblocks fs2 = nblocks fs"
    using took fs2 by (simp_all add: took_block_def)
  have ino: "sv_ino sv \<in> used_blocks fs" "sv_ino sv \<notin> inode_blocks ?B ?i" "sv_ino sv \<noteq> 0" "sv_ino sv < nblocks fs"
    using sv by (simp_all add: sv_ok_def)
  then have "sv_ino sv \<noteq> sfi_indirect ?i" by (auto simp: inode_blocks_def)
  then have "?B2 (sv_ino sv) = ?B (sv_ino sv)" using old ino by blast
  then have "dy \<or> decode_inode (?B2 (sv_ino sv)) = i'" using i'(5) sv by (auto simp: sv_ok_def)
  then have svok: "sv_ok (nblocks fs2) (used_blocks fs2) ?B2 (sv\<lparr>sv_i := i', sv_dirty := dy\<rparr>)"
    using as1 as3 ino b used by (auto simp: sv_ok_def)
  have rest: "?B2 c = ?B c" if "c \<in> used_blocks fs - inode_blocks ?B ?i" for c
    using that old by (auto simp: inode_blocks_def)
  show "contents blk fs2 v = contents blk fs v" using as2 sv fs2 by (simp add: contents_def)
  show "blkmap ?B2 i' ! k = b" using bm k io by (simp add: inode_ok_def)
  show "file_step blk good n v fs fs2"
    unfolding file_step_def file_ok_def owned_def file_blocks_def
    using svok rest as3 fs2 took sv i' used b(1) by (auto simp: took_block_def)
qed

text \<open>The file after a block has been taken for its indirect block.\<close>

lemma indirect_step:
  assumes sv: "sv_mem fs v = Some sv" "sv_ok (nblocks fs) (used_blocks fs) (blk (sfs_device fs)) sv"
    and took: "took_block blk good n b fs fs1" and lim: "nblocks fs < 2 ^ 32" and ind: "sfi_indirect (sv_i sv) = 0"
    and fs2: "fs2 = upd_inode v (\<lambda>i. i\<lparr>sfi_indirect := b\<rparr>) fs1"
  shows "file_step blk good n v fs fs2" and "contents blk fs2 v = contents blk fs v"
    and "blkmap (blk (sfs_device fs2)) (inode_of fs2 v) = blkmap (blk (sfs_device fs)) (inode_of fs v)"
proof -
  let ?B = "blk (sfs_device fs)" and ?B2 = "blk (sfs_device fs2)" and ?i = "sv_i sv" and ?i' = "(sv_i sv)\<lparr>sfi_indirect := b\<rparr>"
  have io: "inode_ok (nblocks fs) (used_blocks fs) ?B ?i" using sv by (simp add: sv_ok_def)
  have b: "b \<notin> used_blocks fs" "b < nblocks fs" "b \<noteq> 0" using took by (simp_all add: took_block_def)
  have mem: "sv_mem fs2 v = Some (sv\<lparr>sv_i := ?i', sv_dirty := True\<rparr>)"
    using sv took by (simp add: fs2 took_block_def)
  have B2: "?B2 = ?B(b := zero_block)" using took by (simp add: fs2 took_block_def)
  have bm: "blkmap ?B2 ?i' = blkmap ?B ?i" using b ind by (simp add: blkmap_def indir_def B2)
  then show "blkmap ?B2 (inode_of fs2 v) = blkmap ?B (inode_of fs v)" using mem sv by simp
  have ib: "inode_blocks ?B2 ?i' \<subseteq> insert b (inode_blocks ?B ?i)" using bm by (auto simp: inode_blocks_def)
  have sub: "inode_blocks ?B ?i \<subseteq> used_blocks fs" using io by (simp add: inode_ok_def)
  have nb: "b \<notin> set (blkmap ?B ?i)" using b sub inode_blocksI [of b ?B ?i] by blast
  have wf: "inode_wf ?i'" using io b lim by (simp add: inode_ok_def inode_wf_def)
  have "file_bytes ?B2 ?i' = file_bytes ?B ?i"
    unfolding file_bytes_def bm
  proof (rule concat_blocks_eq)
    fix j assume "j < length (blkmap ?B ?i)"
    then have "blkmap ?B ?i ! j \<noteq> b" using nb nth_mem by blast
    then show "data_block ?B2 (blkmap ?B ?i ! j) = data_block ?B (blkmap ?B ?i ! j)" by (simp add: data_block_def B2)
  qed simp
  then show "contents blk fs2 v = contents blk fs v" using mem sv by (simp add: contents_def)
  have io2: "inode_ok (nblocks fs) (insert b (used_blocks fs)) ?B2 ?i'"
    using io wf b nb ib sub unfolding inode_ok_def bm by auto
  have ino: "sv_ino sv \<in> used_blocks fs" "sv_ino sv \<notin> inode_blocks ?B ?i" "sv_ino sv \<noteq> 0" "sv_ino sv < nblocks fs"
    using sv by (simp_all add: sv_ok_def)
  have "sv_ok (nblocks fs) (insert b (used_blocks fs)) ?B2 (sv\<lparr>sv_i := ?i', sv_dirty := True\<rparr>)"
    using io2 ino ib b by (auto simp: sv_ok_def)
  then show "file_step blk good n v fs fs2"
    unfolding file_step_def file_ok_def owned_def file_blocks_def
    using mem sv ib took b B2 by (auto simp: took_block_def fs2)
qed

lemma file_okE:
  assumes "file_ok blk fs v"
  obtains sv where "sv_mem fs v = Some sv" "sv_ok (nblocks fs) (used_blocks fs) (blk (sfs_device fs)) sv"
    "inode_ok (nblocks fs) (used_blocks fs) (blk (sfs_device fs)) (sv_i sv)" "inode_wf (sv_i sv)"
  using assms by (auto simp: file_ok_def sv_ok_def inode_ok_def)

lemma blkmap_direct: "inode_wf i \<Longrightarrow> k < SFS_NDIRECT \<Longrightarrow> blkmap B i ! k = sfi_direct i ! k"
  by (simp add: blkmap_def inode_wf_def nth_append)

lemma blkmap_indirect: "inode_wf i \<Longrightarrow> SFS_NDIRECT \<le> k \<Longrightarrow> blkmap B i ! k = indir B i ! (k - SFS_NDIRECT)"
  by (simp add: blkmap_def inode_wf_def nth_append)

lemma indir_length [simp]: "length (indir B i) = SFS_DBPERIDB"
  by (simp add: indir_def)

lemma indir_bound: "b \<in> set (indir B i) \<Longrightarrow> b < 2 ^ 32"
  using un_be32s_bound by (auto simp: indir_def split: if_splits)

lemma fs_ok_limit: "fs_ok good n fs \<Longrightarrow> n < 2 ^ 22 \<Longrightarrow> nblocks fs < 2 ^ 32"
  by (simp add: fs_ok_def)

lemma bmap_too_far: "NBLK \<le> k \<Longrightarrow> sfs_bmap dio v k doalloc fs = Some (Inl EINVAL, fs)"
proof -
  assume "NBLK \<le> k"
  then have "SFS_DBPERIDB \<le> k - SFS_NDIRECT" by linarith
  then have "(k - SFS_NDIRECT) div SFS_DBPERIDB > 0" by (simp add: div_greater_zero_iff)
  then show ?thesis using \<open>NBLK \<le> k\<close> by (simp add: sfs_bmap_def Let_def)
qed

text \<open>\<open>bmap_result\<close> bounds by \<open>g\<close> the number of blocks that have been taken.\<close>

definition grew :: "nat \<Rightarrow> 'd sfs_fs \<Rightarrow> 'd sfs_fs \<Rightarrow> bool" where
  "grew g fs fs' \<longleftrightarrow> card (used_blocks fs' - used_blocks fs) \<le> g"

lemma finite_used [simp]: "finite (bitmap_used b)"
  by (rule finite_subset [of _ "{0..<b_nbits b}"]) (auto simp: bitmap_used_def)

lemma grew_refl [simp]: "grew g fs fs"
  by (simp add: grew_def)

lemma grew_trans:
  assumes "grew g fs fs1" and "grew g' fs1 fs2"
  shows "grew (g + g') fs fs2"
proof -
  have "card (used_blocks fs2 - used_blocks fs) \<le> card ((used_blocks fs2 - used_blocks fs1) \<union> (used_blocks fs1 - used_blocks fs))"
    by (intro card_mono) auto
  also have "\<dots> \<le> card (used_blocks fs2 - used_blocks fs1) + card (used_blocks fs1 - used_blocks fs)" by (rule card_Un_le)
  finally show ?thesis using assms by (simp add: grew_def)
qed

lemma grew_took:
  assumes "took_block blk good n b fs fs1" and "used_blocks fs2 = used_blocks fs1"
  shows "grew 1 fs fs2"
proof -
  have "used_blocks fs2 - used_blocks fs \<subseteq> {b}" using assms by (auto simp: took_block_def)
  then show ?thesis using card_mono [of "{b}"] by (simp add: grew_def)
qed

lemma grew_mono: "grew g fs fs' \<Longrightarrow> g \<le> g' \<Longrightarrow> grew g' fs fs'"
  by (simp add: grew_def)

lemma grew_same: "used_blocks fs' = used_blocks fs \<Longrightarrow> grew g fs fs'"
  by (simp add: grew_def)

definition bmap_result :: "('d \<Rightarrow> nat \<Rightarrow> bytes) \<Rightarrow> nat \<Rightarrow> nat \<Rightarrow> nat \<Rightarrow> 'd sfs_fs \<Rightarrow> errno + nat \<Rightarrow> 'd sfs_fs \<Rightarrow> bool" where
  "bmap_result blk v k g fs r fs' \<longleftrightarrow> grew g fs fs' \<and> contents blk fs' v = contents blk fs v \<and>
     sfi_size (inode_of fs' v) = sfi_size (inode_of fs v) \<and>
     (case r of
        Inl e \<Rightarrow> e = ENOSPC \<and> used_blocks fs' = {0..<b_nbits (sfs_freemap fs')}
      | Inr b \<Rightarrow> b \<noteq> 0 \<and> blkmap (blk (sfs_device fs')) (inode_of fs' v) ! k = b)"

context block_device
begin

lemma bmap_idblock_read:
  assumes "fs_ok good n fs" and "file_ok blk fs v" and "sfi_indirect (inode_of fs v) \<noteq> 0"
  shows "\<exists>fs'. sfs_bmap_idblock dio v fs =
      Some (Inr (sfi_indirect (inode_of fs v), indir (blk (sfs_device fs)) (inode_of fs v)), fs') \<and> same_disk blk good fs fs'"
proof -
  obtain sv where sv: "sv_mem fs v = Some sv" "inode_ok (nblocks fs) (used_blocks fs) (blk (sfs_device fs)) (sv_i sv)"
    using assms(2) by (elim file_okE)
  have "good (sfs_device fs)" "sfi_indirect (sv_i sv) < n"
    using inode_ok_indirect [OF sv(2)] assms sv by (auto simp: fs_ok_def)
  then obtain fs' where "sfs_rblock dio zero_block (sfi_indirect (sv_i sv)) fs =
      Some (Inr (blk (sfs_device fs) (sfi_indirect (sv_i sv))), fs')" "same_disk blk good fs fs'"
    using rblock_ok [of fs "sfi_indirect (sv_i sv)" zero_block] by auto
  then show ?thesis using sv assms(3) by (auto simp: sfs_bmap_idblock_def indir_def Let_def)
qed

text \<open>A block that is there, or a lookup without allocation.\<close>

lemma bmap_mapped:
  assumes "fs_ok good n fs" and "file_ok blk fs v" and "k < NBLK"
    and al: "doalloc \<Longrightarrow> blkmap (blk (sfs_device fs)) (inode_of fs v) ! k \<noteq> 0"
  shows "\<exists>fs'. sfs_bmap dio v k doalloc fs =
    Some (Inr (blkmap (blk (sfs_device fs)) (inode_of fs v) ! k), fs') \<and> same_disk blk good fs fs'"
proof -
  obtain sv where sv: "sv_mem fs v = Some sv" "inode_ok (nblocks fs) (used_blocks fs) (blk (sfs_device fs)) (sv_i sv)"
      "inode_wf (sv_i sv)"
    using assms(2) by (elim file_okE)
  let ?b = "blkmap (blk (sfs_device fs)) (sv_i sv) ! k"
  have na: "\<not> (?b = 0 \<and> doalloc)" using al sv(1) by auto
  have hb: "hand_back ?b fs' = Some (Inr ?b, fs')" if "same_disk blk good fs fs'" for fs'
    using hand_back_ok [of fs' ?b] inode_ok_block [OF sv(2) assms(3)] same_disk_fields [OF that]
      same_disk_ok(1) [OF that assms(1)] by auto
  have refl: "same_disk blk good fs fs" using assms(1) by (intro same_disk_refl) (simp add: fs_ok_def)
  show ?thesis
  proof (cases "k < SFS_NDIRECT")
    case True
    then have "mem_read (Some (sfi_direct (sv_i sv))) (int k) = Some ?b"
      using sv(3) by (simp add: mem_read_def blkmap_direct inode_wf_def)
    then show ?thesis using True sv hb [OF refl] refl na by (auto simp: sfs_bmap_def sfs_bmap_direct_def)
  next
    case False
    show ?thesis
    proof (cases "sfi_indirect (sv_i sv) = 0")
      case True
      then have "?b = 0" using False assms(3) sv(3) by (simp add: blkmap_indirect indir_def)
      then show ?thesis using True False assms(3) sv refl na by (simp add: sfs_bmap_def Let_def)
    next
      case ind: False
      then obtain fs' where fs': "sfs_bmap_idblock dio v fs =
          Some (Inr (sfi_indirect (sv_i sv), indir (blk (sfs_device fs)) (sv_i sv)), fs')" "same_disk blk good fs fs'"
        using bmap_idblock_read [OF assms(1,2)] sv by auto
      have "mem_read (Some (indir (blk (sfs_device fs)) (sv_i sv))) (int (k - 15)) = Some ?b"
        using False assms(3) sv(3) by (simp add: mem_read_nat blkmap_indirect del: of_nat_diff)
      then show ?thesis using fs' ind False assms(3) sv hb [OF fs'(2)] na by (auto simp: sfs_bmap_def Let_def)
    qed
  qed
qed

lemma bmap_noalloc:
  assumes "fs_ok good n fs" and "file_ok blk fs v" and "k < NBLK"
  shows "\<exists>fs'. sfs_bmap dio v k False fs =
    Some (Inr (blkmap (blk (sfs_device fs)) (inode_of fs v) ! k), fs') \<and> same_disk blk good fs fs'"
  using bmap_mapped [OF assms] by simp

text \<open>With allocation, in the direct blocks.\<close>

lemma bmap_alloc_direct:
  assumes "fs_ok good n fs" and "file_ok blk fs v" and "k < SFS_NDIRECT"
  shows "\<exists>r fs'. sfs_bmap dio v k True fs = Some (r, fs') \<and> file_step blk good n v fs fs' \<and> bmap_result blk v k 1 fs r fs'"
proof -
  obtain sv where sv: "sv_mem fs v = Some sv" "sv_ok (nblocks fs) (used_blocks fs) (blk (sfs_device fs)) sv"
      "inode_ok (nblocks fs) (used_blocks fs) (blk (sfs_device fs)) (sv_i sv)" "inode_wf (sv_i sv)"
    using assms(2) by (elim file_okE)
  let ?b = "sfi_direct (sv_i sv) ! k"
  have b: "mem_read (Some (sfi_direct (sv_i sv))) (int k) = Some ?b" "blkmap (blk (sfs_device fs)) (sv_i sv) ! k = ?b"
    using sv(4) assms(3) by (simp_all add: mem_read_nat blkmap_direct inode_wf_def)
  have stay: "file_step blk good n v fs fs" using assms by (intro file_step_refl)
  show ?thesis
  proof (cases "?b = 0")
    case False
    then have "hand_back ?b fs = Some (Inr ?b, fs)"
      using hand_back_ok [OF assms(1), of ?b] inode_ok_block [OF sv(3), of k] b(2) assms(3) by simp
    then show ?thesis using False assms(3) sv b stay by (simp add: sfs_bmap_def sfs_bmap_direct_def bmap_result_def)
  next
    case zero: True
    from balloc_ok [OF assms(1)] show ?thesis
    proof (elim disjE exE conjE)
      assume "sfs_balloc dio fs = Some (Inl ENOSPC, fs)" "used_blocks fs = {0..<b_nbits (sfs_freemap fs)}"
      then show ?thesis using zero assms(3) sv b stay by (simp add: sfs_bmap_def sfs_bmap_direct_def bmap_result_def)
    next
      fix b fs1
      assume al: "sfs_balloc dio fs = Some (Inr b, fs1)" and took: "took_block blk good n b fs fs1"
      define i' where "i' = (sv_i sv)\<lparr>sfi_direct := (sfi_direct (sv_i sv))[k := b]\<rparr>"
      define fs2 where "fs2 = upd_inode v (\<lambda>i. i\<lparr>sfi_direct := (sfi_direct i)[k := b]\<rparr>) fs1"
      have mem: "sv_mem fs2 v = Some (sv\<lparr>sv_i := i', sv_dirty := True\<rparr>)"
        using sv took by (simp add: fs2_def took_block_def i'_def)
      have t: "b < nblocks fs" "b \<notin> used_blocks fs" "blk (sfs_device fs1) = (blk (sfs_device fs))(b := zero_block)"
          "b \<noteq> 0" "fs_ok good n fs1"
        using took by (simp_all add: took_block_def)
      have lim: "b < 2 ^ 32" using fs_ok_limit [OF assms(1) n_limit] t(1) by linarith
      have wf: "inode_wf i'" using sv(4) set_update_subset_insert [of "sfi_direct (sv_i sv)" k b] lim
        by (auto simp: inode_wf_def i'_def)
      have "sfi_indirect (sv_i sv) \<noteq> 0 \<Longrightarrow> sfi_indirect (sv_i sv) \<noteq> b"
        using inode_ok_indirect [OF sv(3)] t(2) by metis
      then have bm: "blkmap (blk (sfs_device fs2)) i' = (blkmap (blk (sfs_device fs)) (sv_i sv))[k := b]"
        using assms(3) sv(4) t(3) by (auto simp: blkmap_def indir_def i'_def fs2_def list_update_append inode_wf_def)
      note as = assign_step [OF sv(1,2) took _ _ _ _ _ _ _ _ mem wf _ _ _ _ _ bm]
      have as1: "file_step blk good n v fs fs2" and as2: "contents blk fs2 v = contents blk fs v"
        and as3: "blkmap (blk (sfs_device fs2)) i' ! k = b"
        using as assms(3) zero b(2) t(5) bm by (simp_all add: fs2_def i'_def)
      have "hand_back b fs2 = Some (Inr b, fs2)"
        using t took by (intro hand_back_ok) (simp_all add: fs2_def took_block_def)
      then have "sfs_bmap dio v k True fs = Some (Inr b, fs2)"
        using assms(3) sv b zero al by (simp add: sfs_bmap_def sfs_bmap_direct_def fs2_def)
      moreover have "bmap_result blk v k 1 fs (Inr b) fs2"
        using as2 as3 mem t(4) sv grew_took [OF took, of fs2] by (simp add: bmap_result_def i'_def fs2_def)
      ultimately show ?thesis using as1 by blast
    qed
  qed
qed

text \<open>The part of \<open>sfs_bmap\<close> after the indirect block is in memory.\<close>

lemma bmap_alloc_entry:
  assumes "fs_ok good n fs" and "file_ok blk fs v" and o: "j < SFS_DBPERIDB" and "sfi_indirect (inode_of fs v) \<noteq> 0"
    and idbuf: "idbuf = indir (blk (sfs_device fs)) (inode_of fs v)" and idblock: "idblock = sfi_indirect (inode_of fs v)"
  shows "\<exists>r fs'. (if idbuf ! j = 0 then
        try_k (sfs_balloc dio fs) (\<lambda>block fs2.
          try_k (sfs_wblock dio (be32s (idbuf[j := block])) idblock fs2) (\<lambda>_ fs3. hand_back block fs3))
      else hand_back (idbuf ! j) fs) = Some (r, fs') \<and>
    file_step blk good n v fs fs' \<and> bmap_result blk v (SFS_NDIRECT + j) 1 fs r fs'"
proof -
  obtain sv where sv: "sv_mem fs v = Some sv" "sv_ok (nblocks fs) (used_blocks fs) (blk (sfs_device fs)) sv"
      "inode_ok (nblocks fs) (used_blocks fs) (blk (sfs_device fs)) (sv_i sv)" "inode_wf (sv_i sv)"
    using assms(2) by (elim file_okE)
  have b: "blkmap (blk (sfs_device fs)) (sv_i sv) ! (SFS_NDIRECT + j) = idbuf ! j" and k: "SFS_NDIRECT + j < NBLK"
    using sv o by (simp_all add: blkmap_indirect idbuf)
  have stay: "file_step blk good n v fs fs" using assms by (intro file_step_refl)
  have id: "idblock \<noteq> 0" "idblock \<in> used_blocks fs" "idblock < nblocks fs" "idblock = sfi_indirect (sv_i sv)"
    using inode_ok_indirect [OF sv(3)] assms(4) idblock sv by auto
  show ?thesis
  proof (cases "idbuf ! j = 0")
    case False
    then have "hand_back (idbuf ! j) fs = Some (Inr (idbuf ! j), fs)"
      using hand_back_ok [OF assms(1), of "idbuf ! j"] inode_ok_block [OF sv(3) k] b by simp
    then show ?thesis using False b stay sv by (simp add: bmap_result_def)
  next
    case zero: True
    from balloc_ok [OF assms(1)] show ?thesis
    proof (elim disjE exE conjE)
      assume "sfs_balloc dio fs = Some (Inl ENOSPC, fs)" "used_blocks fs = {0..<b_nbits (sfs_freemap fs)}"
      then show ?thesis using zero stay by (simp add: bmap_result_def)
    next
      fix b fs1
      assume al: "sfs_balloc dio fs = Some (Inr b, fs1)" and took: "took_block blk good n b fs fs1"
      have t: "b < nblocks fs" "b \<notin> used_blocks fs" "blk (sfs_device fs1) = (blk (sfs_device fs))(b := zero_block)"
          "b \<noteq> 0" "fs_ok good n fs1" "nblocks fs1 = nblocks fs" "sv_mem fs1 = sv_mem fs"
        using took by (simp_all add: took_block_def)
      have lim: "b < 2 ^ 32" using fs_ok_limit [OF assms(1) n_limit] t(1) by linarith
      have "good (sfs_device fs1)" "idblock < n" "length (be32s (idbuf[j := b])) = 512"
        using t(5,6) id(3) by (auto simp: fs_ok_def idbuf)
      then obtain d where d: "sfs_wblock dio (be32s (idbuf[j := b])) idblock fs1 = Some (Inr (), fs1\<lparr>sfs_device := d\<rparr>)"
          "good d" "blk d = (blk (sfs_device fs1))(idblock := be32s (idbuf[j := b]))"
        using wblock_ok by blast
      define fs2 where "fs2 = fs1\<lparr>sfs_device := d\<rparr>"
      have dy: "sv_dirty sv \<or> sv_i sv = sv_i sv \<and> \<not> sv_dirty sv" by simp
      have mem: "sv_mem fs2 v = Some (sv\<lparr>sv_i := sv_i sv, sv_dirty := sv_dirty sv\<rparr>)"
        using sv t by (simp add: fs2_def)
      have ok2: "fs_ok good n fs2" using t(5) d(2) by (simp add: fs2_def fs_ok_def)
      have "\<forall>c \<in> set (idbuf[j := b]). c < 2 ^ 32"
        using set_update_subset_insert [of idbuf j b] lim indir_bound [of _ "blk (sfs_device fs)" "inode_of fs v"]
        by (auto simp: idbuf)
      then have "un_be32s SFS_DBPERIDB (be32s (idbuf[j := b])) = idbuf[j := b]" by (intro un_be32s_be32s') (simp_all add: idbuf)
      then have bm: "blkmap (blk (sfs_device fs2)) (sv_i sv) = (blkmap (blk (sfs_device fs)) (sv_i sv))[SFS_NDIRECT + j := b]"
        using d id sv(1,4) by (simp add: blkmap_def indir_def fs2_def list_update_append inode_wf_def idbuf)
      have disk: "blk (sfs_device fs2) c = blk (sfs_device fs1) c" if "c = 0 \<or> c \<noteq> sfi_indirect (sv_i sv)" for c
        using that d(3) id by (auto simp: fs2_def)
      have hole: "blkmap (blk (sfs_device fs)) (sv_i sv) ! (SFS_NDIRECT + j) = 0" using b zero by simp
      note as = assign_step [OF sv(1,2) took k hole ok2 _ _ _ _ _ mem sv(4) refl refl refl dy disk bm]
      have as1: "file_step blk good n v fs fs2" and as2: "contents blk fs2 v = contents blk fs v"
        and as3: "blkmap (blk (sfs_device fs2)) (sv_i sv) ! (SFS_NDIRECT + j) = b"
        using as by (simp_all add: fs2_def)
      have "hand_back b fs2 = Some (Inr b, fs2)"
        using t took ok2 by (intro hand_back_ok) (simp_all add: fs2_def took_block_def)
      moreover have "bmap_result blk v (SFS_NDIRECT + j) 1 fs (Inr b) fs2"
        using as2 as3 mem t(4) sv grew_took [OF took, of fs2] by (simp add: bmap_result_def fs2_def)
      ultimately show ?thesis using as1 zero al d(1) by (simp add: fs2_def)
    qed
  qed
qed

lemma bmap_idblock_alloc:
  assumes "fs_ok good n fs" and "file_ok blk fs v"
  shows "(sfs_bmap_idblock dio v fs = Some (Inl ENOSPC, fs) \<and> used_blocks fs = {0..<b_nbits (sfs_freemap fs)}) \<or>
    (\<exists>fs'. sfs_bmap_idblock dio v fs =
        Some (Inr (sfi_indirect (inode_of fs' v), indir (blk (sfs_device fs')) (inode_of fs' v)), fs') \<and>
      file_step blk good n v fs fs' \<and> grew 1 fs fs' \<and> contents blk fs' v = contents blk fs v \<and>
      sfi_size (inode_of fs' v) = sfi_size (inode_of fs v) \<and> sfi_indirect (inode_of fs' v) \<noteq> 0)"
proof (cases "sfi_indirect (inode_of fs v) = 0")
  case False
  then obtain fs' where "sfs_bmap_idblock dio v fs =
      Some (Inr (sfi_indirect (inode_of fs v), indir (blk (sfs_device fs)) (inode_of fs v)), fs')" "same_disk blk good fs fs'"
    using bmap_idblock_read [OF assms] by blast
  then show ?thesis
    using False same_disk_ok [of blk good fs fs'] same_disk_fields [of blk good fs fs'] same_disk_step [OF _ assms, of fs']
    by (simp add: grew_same)
next
  case True
  obtain sv where sv: "sv_mem fs v = Some sv" "sv_ok (nblocks fs) (used_blocks fs) (blk (sfs_device fs)) sv"
    using assms(2) by (elim file_okE)
  from balloc_ok [OF assms(1)] show ?thesis
  proof (elim disjE exE conjE)
    assume "sfs_balloc dio fs = Some (Inl ENOSPC, fs)" "used_blocks fs = {0..<b_nbits (sfs_freemap fs)}"
    then show ?thesis using True sv by (simp add: sfs_bmap_idblock_def Let_def)
  next
    fix b fs1
    assume al: "sfs_balloc dio fs = Some (Inr b, fs1)" and took: "took_block blk good n b fs fs1"
    define fs2 where "fs2 = upd_inode v (\<lambda>i. i\<lparr>sfi_indirect := b\<rparr>) fs1"
    have ind: "sfi_indirect (sv_i sv) = 0" using True sv by simp
    have mem: "sv_mem fs2 v = Some (sv\<lparr>sv_i := (sv_i sv)\<lparr>sfi_indirect := b\<rparr>, sv_dirty := True\<rparr>)"
      using sv took by (simp add: fs2_def took_block_def)
    have "indir (blk (sfs_device fs2)) (inode_of fs2 v) = replicate SFS_DBPERIDB 0" "b \<noteq> 0"
      using mem took by (auto simp: indir_def fs2_def took_block_def)
    then have "sfs_bmap_idblock dio v fs =
        Some (Inr (sfi_indirect (inode_of fs2 v), indir (blk (sfs_device fs2)) (inode_of fs2 v)), fs2)"
      using al ind sv mem by (simp add: sfs_bmap_idblock_def fs2_def Let_def)
    then show ?thesis
      using indirect_step [OF sv took fs_ok_limit [OF assms(1) n_limit] ind fs2_def] mem sv \<open>b \<noteq> 0\<close>
        grew_took [OF took, of fs2] by (simp add: fs2_def)
  qed
qed

lemma bmap_alloc_indirect:
  assumes "fs_ok good n fs" and "file_ok blk fs v" and "SFS_NDIRECT \<le> k" and "k < NBLK"
  shows "\<exists>r fs'. sfs_bmap dio v k True fs = Some (r, fs') \<and> file_step blk good n v fs fs' \<and> bmap_result blk v k 2 fs r fs'"
proof -
  obtain sv where sv: "sv_mem fs v = Some sv" using assms(2) by (elim file_okE)
  from bmap_idblock_alloc [OF assms(1,2)] show ?thesis
  proof (elim disjE exE conjE)
    assume "sfs_bmap_idblock dio v fs = Some (Inl ENOSPC, fs)" "used_blocks fs = {0..<b_nbits (sfs_freemap fs)}"
    then show ?thesis using assms sv file_step_refl [OF assms(1,2)] by (simp add: sfs_bmap_def Let_def bmap_result_def)
  next
    fix fs1
    let ?idblock = "sfi_indirect (inode_of fs1 v)" and ?idbuf = "indir (blk (sfs_device fs1)) (inode_of fs1 v)"
    assume id: "sfs_bmap_idblock dio v fs = Some (Inr (?idblock, ?idbuf), fs1)" and st: "file_step blk good n v fs fs1"
      and g: "grew 1 fs fs1" and same: "contents blk fs1 v = contents blk fs v" "sfi_size (inode_of fs1 v) = sfi_size (inode_of fs v)" "?idblock \<noteq> 0"
    have ok1: "fs_ok good n fs1" "file_ok blk fs1 v" using st by (simp_all add: file_step_def)
    have j: "k - SFS_NDIRECT < SFS_DBPERIDB" using assms by simp
    obtain r fs' where r: "(if ?idbuf ! (k - SFS_NDIRECT) = 0 then
        try_k (sfs_balloc dio fs1) (\<lambda>block fs2.
          try_k (sfs_wblock dio (be32s (?idbuf[k - SFS_NDIRECT := block])) ?idblock fs2) (\<lambda>_ fs3. hand_back block fs3))
      else hand_back (?idbuf ! (k - SFS_NDIRECT)) fs1) = Some (r, fs')"
      "file_step blk good n v fs1 fs'" "bmap_result blk v (SFS_NDIRECT + (k - SFS_NDIRECT)) 1 fs1 r fs'"
      using bmap_alloc_entry [OF ok1 j same(3) refl refl] by blast
    have "sfs_bmap dio v k True fs = Some (r, fs')"
      using assms sv id r(1) j by (simp add: sfs_bmap_def Let_def mem_read_nat split: if_splits del: of_nat_diff)
    moreover have "bmap_result blk v k 2 fs r fs'" using r(3) same assms(3) grew_trans [OF g, of 1 fs']
      by (simp add: bmap_result_def numeral_2_eq_2)
    ultimately show ?thesis using file_step_trans [OF st r(2)] by blast
  qed
qed

lemma bmap_alloc:
  assumes "fs_ok good n fs" and "file_ok blk fs v" and "k < NBLK"
  shows "\<exists>r fs'. sfs_bmap dio v k True fs = Some (r, fs') \<and> file_step blk good n v fs fs' \<and> bmap_result blk v k 2 fs r fs'"
proof (cases "k < SFS_NDIRECT")
  case True
  then obtain r fs' where "sfs_bmap dio v k True fs = Some (r, fs')" "file_step blk good n v fs fs'" "bmap_result blk v k 1 fs r fs'"
    using bmap_alloc_direct [OF assms(1,2)] by blast
  moreover from this have "bmap_result blk v k 2 fs r fs'" by (auto simp: bmap_result_def grew_def)
  ultimately show ?thesis by blast
next
  case False
  then show ?thesis using bmap_alloc_indirect [OF assms(1,2) _ assms(3)] by simp
qed

end

end
