(* ===== verification/Sfs_Fileio.thy ===== *)
theory Sfs_Fileio
  imports Sfs_Bmap
begin

text \<open>
  File I/O (\<open>sfs_partialio\<close>, \<open>sfs_blockio\<close>, \<open>sfs_io\<close> of \<open>kern/fs/sfs/sfs_vnode.c\<close>) on files as byte
  sequences: a read delivers a slice of the contents, a write replaces one.
\<close>

section \<open>Slices\<close>

definition put_at :: "nat \<Rightarrow> 'a list \<Rightarrow> 'a list \<Rightarrow> 'a list" where
  "put_at off bs xs = take off xs @ bs @ drop (off + length bs) xs"

lemma put_at_Nil [simp]: "put_at off [] xs = xs"
  by (simp add: put_at_def)

lemma put_at_length: "off + length bs \<le> length xs \<Longrightarrow> length (put_at off bs xs) = length xs"
  by (simp add: put_at_def)

lemma put_at_put_at:
  "off + length a + length b \<le> length xs \<Longrightarrow> put_at (off + length a) b (put_at off a xs) = put_at off (a @ b) xs"
  by (simp add: put_at_def ac_simps)

lemma put_at_nth:
  assumes "off + length bs \<le> length xs"
  shows "put_at off bs xs ! i = (if i < off then xs ! i else if i < off + length bs then bs ! (i - off) else xs ! i)"
  using assms by (auto simp: put_at_def nth_append)

lemma put_at_slice:
  assumes "off + length bs \<le> length xs" and "off + length bs \<le> s"
  shows "take (length bs) (drop off (take s (put_at off bs xs))) = bs"
proof -
  have "take (length bs) (drop off (take s (put_at off bs xs))) = take (length bs) (drop off (put_at off bs xs))"
    using assms(2) by (simp add: take_drop min_def)
  also have "\<dots> = bs" using assms(1) by (simp add: put_at_def)
  finally show ?thesis .
qed

lemma take_drop_append: "bs = take a (drop k c) \<Longrightarrow> bs @ take b (drop (k + a) c) = take (a + b) (drop k c)"
  by (simp add: take_add add.commute)

lemma concat_uniform_length: "(\<forall>x \<in> set xss. length x = c) \<Longrightarrow> length (concat xss) = c * length xss"
  by (induction xss) simp_all

lemma concat_split_at:
  assumes "\<forall>x \<in> set xss. length x = c" and "k < length xss"
  shows "take (c * k) (concat xss) = concat (take k xss)" and "drop (c * k) (concat xss) = concat (drop k xss)"
proof -
  have "concat xss = concat (take k xss) @ concat (drop k xss)" by (metis append_take_drop_id concat_append)
  moreover have "length (concat (take k xss)) = c * k"
    using assms concat_uniform_length [of "take k xss" c] in_set_takeD [of _ k xss] by auto
  ultimately show "take (c * k) (concat xss) = concat (take k xss)" "drop (c * k) (concat xss) = concat (drop k xss)"
    by simp_all
qed

lemma concat_slice:
  assumes "\<forall>x \<in> set xss. length x = c" and "k < length xss" and "s + len \<le> c"
  shows "take len (drop s (xss ! k)) = take len (drop (c * k + s) (concat xss))"
proof -
  have "drop (c * k + s) (concat xss) = drop s (xss ! k @ concat (drop (Suc k) xss))"
    using concat_split_at(2) [OF assms(1,2)] Cons_nth_drop_Suc [OF assms(2)]
    by (metis add.commute concat.simps(2) drop_drop)
  moreover have "length (xss ! k) = c" using assms(1,2) by simp
  ultimately show ?thesis using assms(3) by simp
qed

lemma concat_put_at:
  assumes "\<forall>x \<in> set xss. length x = c" and "k < length xss" and "s + length bs \<le> c"
  shows "concat (xss[k := put_at s bs (xss ! k)]) = put_at (c * k + s) bs (concat xss)"
proof -
  have len: "length (xss ! k) = c" using assms(1,2) by simp
  have split: "concat xss = concat (take k xss) @ xss ! k @ concat (drop (Suc k) xss)"
    using id_take_nth_drop [OF assms(2)] by (metis concat.simps(2) concat_append)
  have "length (concat (take k xss)) = c * k"
    using assms concat_uniform_length [of "take k xss" c] in_set_takeD [of _ k xss] by auto
  moreover have "concat (xss[k := y]) = concat (take k xss) @ y @ concat (drop (Suc k) xss)" for y
    using assms(2) by (simp add: upd_conv_take_nth_drop)
  ultimately show ?thesis using len assms(3) by (simp add: split put_at_def)
qed

section \<open>Changing the size\<close>

lemma size_step:
  assumes ok: "fs_ok good n fs" "file_ok blk fs v" and s: "s < 2 ^ 32"
  shows "file_step blk good n v fs (upd_inode v (\<lambda>i. i\<lparr>sfi_size := s\<rparr>) fs) \<and>
    contents blk (upd_inode v (\<lambda>i. i\<lparr>sfi_size := s\<rparr>) fs) v = contents blk fs v"
proof -
  obtain sv where sv: "sv_mem fs v = Some sv" "sv_ok (nblocks fs) (used_blocks fs) (blk (sfs_device fs)) sv"
    using ok(2) by (elim file_okE)
  have bm: "blkmap B (i\<lparr>sfi_size := s\<rparr>) = blkmap B i" for B i by (simp add: blkmap_def indir_def)
  have ib: "inode_blocks B (i\<lparr>sfi_size := s\<rparr>) = inode_blocks B i" for B i by (simp add: inode_blocks_def bm)
  have "sv_ok (nblocks fs) (used_blocks fs) (blk (sfs_device fs)) (sv\<lparr>sv_i := (sv_i sv)\<lparr>sfi_size := s\<rparr>, sv_dirty := True\<rparr>)"
    using sv(2) s by (simp add: sv_ok_def inode_ok_def bm ib inode_wf_def)
  then show ?thesis
    using ok sv by (simp add: file_step_def file_ok_def file_blocks_def inode_of_def ib contents_def file_bytes_def bm)
qed

section \<open>Writing one block\<close>

abbreviation MAXFILE :: nat where "MAXFILE \<equiv> 73216"

context block_device
begin

lemma blocks_uniform:
  assumes "fs_ok good n fs" and "file_ok blk fs v"
  shows "\<forall>x \<in> set (map (data_block (blk (sfs_device fs))) (blkmap (blk (sfs_device fs)) (inode_of fs v))). length x = 512"
proof -
  obtain sv where sv: "sv_mem fs v = Some sv" "inode_ok (nblocks fs) (used_blocks fs) (blk (sfs_device fs)) (sv_i sv)"
    using assms(2) by (elim file_okE)
  have "length (data_block (blk (sfs_device fs)) b) = 512" if "b \<in> set (blkmap (blk (sfs_device fs)) (sv_i sv))" for b
  proof (cases "b = 0")
    case False
    then have "b < n" using inode_blocksI [OF False that] sv assms(1) by (auto simp: inode_ok_def fs_ok_def)
    then show ?thesis using False assms(1) blk_length by (simp add: data_block_def fs_ok_def)
  qed (simp add: data_block_def)
  then show ?thesis using sv by auto
qed

lemma contents_length:
  assumes "fs_ok good n fs" and "file_ok blk fs v"
  shows "length (contents blk fs v) = MAXFILE"
proof -
  obtain sv where "sv_mem fs v = Some sv" "inode_wf (sv_i sv)" using assms(2) by (elim file_okE)
  then show ?thesis
    using concat_uniform_length [OF blocks_uniform [OF assms]] by (simp add: contents_def file_bytes_def)
qed

text \<open>A block of the file is written as a whole.\<close>

lemma write_step:
  assumes ok: "fs_ok good n fs" "file_ok blk fs v" and k: "k < NBLK"
    and b: "b = blkmap (blk (sfs_device fs)) (inode_of fs v) ! k" "b \<noteq> 0"
    and d: "good d" "blk d = (blk (sfs_device fs))(b := data)" and fs': "fs' = fs\<lparr>sfs_device := d\<rparr>"
  shows "file_step blk good n v fs fs'" and "inode_of fs' v = inode_of fs v"
    and "contents blk fs' v = concat ((map (data_block (blk (sfs_device fs)))
      (blkmap (blk (sfs_device fs)) (inode_of fs v)))[k := data])"
proof -
  let ?B = "blk (sfs_device fs)" and ?B' = "blk (sfs_device fs')"
  obtain sv where sv: "sv_mem fs v = Some sv" "sv_ok (nblocks fs) (used_blocks fs) ?B sv"
      "inode_ok (nblocks fs) (used_blocks fs) ?B (sv_i sv)" "inode_wf (sv_i sv)"
    using ok(2) by (elim file_okE)
  have b': "b = blkmap ?B (sv_i sv) ! k" using b sv by simp
  note bk = inode_ok_block [OF sv(3) k, folded b', OF b(2)]
  have B': "?B' = ?B(b := data)" using d by (simp add: fs')
  have bm: "blkmap ?B' (sv_i sv) = blkmap ?B (sv_i sv)" using bk(4) by (simp add: blkmap_def indir_def B')
  have ib: "inode_blocks ?B' (sv_i sv) = inode_blocks ?B (sv_i sv)" by (simp add: inode_blocks_def bm)
  have ino: "sv_ino sv \<noteq> b" using bk(3) sv(2) by (auto simp: sv_ok_def)
  have io: "inode_ok (nblocks fs) (used_blocks fs) ?B' (sv_i sv)" using sv(3) by (simp add: inode_ok_def bm ib)
  then have "sv_ok (nblocks fs) (used_blocks fs) ?B' sv" using sv(2) ino ib by (auto simp: sv_ok_def B')
  then have fok: "file_ok blk fs' v" using sv by (simp add: file_ok_def fs')
  show inode: "inode_of fs' v = inode_of fs v" by (simp add: inode_of_def fs')
  show "file_step blk good n v fs fs'"
    using ok fok d sv ib bk(3) by (auto simp: file_step_def fs' fs_ok_def owned_def file_blocks_def inode_of_def)
  have dist: "dist0 (blkmap ?B (sv_i sv))" using sv(3) by (simp add: inode_ok_def)
  have "map (data_block ?B') (blkmap ?B (sv_i sv)) = (map (data_block ?B) (blkmap ?B (sv_i sv)))[k := data]"
  proof (rule nth_equalityI)
    fix j assume "j < length (map (data_block ?B') (blkmap ?B (sv_i sv)))"
    then have j: "j < NBLK" using sv(4) by simp
    have "j \<noteq> k \<Longrightarrow> blkmap ?B (sv_i sv) ! j \<noteq> b" using dist j k sv(4) b' b(2) unfolding dist0_def by (metis blkmap_length)
    then show "map (data_block ?B') (blkmap ?B (sv_i sv)) ! j = (map (data_block ?B) (blkmap ?B (sv_i sv)))[k := data] ! j"
      using j k sv(4) b' b(2) by (cases "j = k") (simp_all add: data_block_def B')
  qed simp
  then show "contents blk fs' v = concat ((map (data_block ?B) (blkmap ?B (inode_of fs v)))[k := data])"
    using inode sv(1) by (simp add: contents_def file_bytes_def bm)
qed

text \<open>Part of a block is written: the block is read, changed and written back.\<close>

lemma put_at_step:
  assumes ok: "fs_ok good n fs" "file_ok blk fs v" and k: "k < NBLK"
    and b: "b = blkmap (blk (sfs_device fs)) (inode_of fs v) ! k" "b \<noteq> 0"
    and d: "good d" "blk d = (blk (sfs_device fs))(b := put_at s bs (blk (sfs_device fs) b))"
    and fs': "fs' = fs\<lparr>sfs_device := d\<rparr>" and s: "s + length bs \<le> 512"
  shows "contents blk fs' v = put_at (512 * k + s) bs (contents blk fs v)"
proof -
  let ?B = "blk (sfs_device fs)" let ?xs = "map (data_block ?B) (blkmap ?B (inode_of fs v))"
  obtain sv where sv: "sv_mem fs v = Some sv" "inode_wf (sv_i sv)" using ok(2) by (elim file_okE)
  have k': "k < length ?xs" using k sv by simp
  have "?xs ! k = ?B b" using k' b by (simp add: data_block_def)
  then have "contents blk fs' v = concat (?xs[k := put_at s bs (?xs ! k)])"
    using write_step(3) [OF ok k b d fs'] by simp
  also have "\<dots> = put_at (512 * k + s) bs (concat ?xs)"
    using concat_put_at [OF blocks_uniform [OF ok] k' s] .
  finally show ?thesis by (simp add: contents_def file_bytes_def)
qed

lemma block_slice:
  assumes ok: "fs_ok good n fs" "file_ok blk fs v" and k: "k < NBLK" and s: "s + len \<le> 512"
  shows "take len (drop s (data_block (blk (sfs_device fs)) (blkmap (blk (sfs_device fs)) (inode_of fs v) ! k))) =
    take len (drop (512 * k + s) (contents blk fs v))"
proof -
  obtain sv where sv: "sv_mem fs v = Some sv" "inode_wf (sv_i sv)" using ok(2) by (elim file_okE)
  show ?thesis
    using concat_slice [OF blocks_uniform [OF ok], of k s len] k s sv by (simp add: contents_def file_bytes_def)
qed

end

section \<open>Transfers\<close>

text \<open>The whole blocks and the rest, from an aligned offset.\<close>

abbreviation io_tail :: "'d d_io \<Rightarrow> nat \<Rightarrow> 'd sfs_fs \<Rightarrow> uio \<Rightarrow> 'd fio" where
  "io_tail dio v fs1 u1 \<equiv> try_k (sfs_blockio_loop dio v (uio_resid u1 div SFS_BLOCKSIZE) (fs1, u1)) (\<lambda>_ (fs2, u2).
     if uio_resid u2 < SFS_BLOCKSIZE then
       if uio_resid u2 > 0 then sfs_partialio dio v 0 (uio_resid u2) (fs2, u2) else Some (Inr (), fs2, u2)
     else None)"

text \<open>
  The outcome of a write of \<open>cnt\<close> bytes: the first \<open>m\<close> of them are in the file at the offset of the
  request, which has moved on by as many, and at most \<open>g\<close> blocks have been taken; \<open>m\<close> is \<open>cnt\<close> unless there was an error, and the
  only errors are a full volume and a request past the largest file.  After an error the part that was
  written is empty or ends at a block boundary inside the request.
\<close>

definition stop_at :: "uio \<Rightarrow> nat \<Rightarrow> nat \<Rightarrow> bool" where
  "stop_at u cnt m \<longleftrightarrow> m = 0 \<or> m < cnt \<and> (nat (uio_offset u) + m) mod 512 = 0"

definition write_res :: "('d \<Rightarrow> nat \<Rightarrow> bytes) \<Rightarrow> ('d \<Rightarrow> bool) \<Rightarrow> nat \<Rightarrow> nat \<Rightarrow> 'd sfs_fs \<Rightarrow> uio \<Rightarrow> nat \<Rightarrow> nat \<Rightarrow>
    errno + unit \<Rightarrow> 'd sfs_fs \<Rightarrow> uio \<Rightarrow> bool" where
  "write_res blk good n v fs u cnt g r fs' u' \<longleftrightarrow> (\<exists>m \<le> cnt. file_step blk good n v fs fs' \<and> grew g fs fs' \<and>
     u' = uio_moved (take m (iov_buf u)) u \<and>
     contents blk fs' v = put_at (nat (uio_offset u)) (take m (iov_buf u)) (contents blk fs v) \<and>
     sfi_size (inode_of fs' v) = sfi_size (inode_of fs v) \<and> (m = 0 \<or> nat (uio_offset u) + m \<le> MAXFILE) \<and>
     (case r of
        Inr _ \<Rightarrow> m = cnt
      | Inl e \<Rightarrow> stop_at u cnt m \<and> ((e = ENOSPC \<and> used_blocks fs' = {0..<b_nbits (sfs_freemap fs')}) \<or>
          (e = EINVAL \<and> MAXFILE < nat (uio_offset u) + cnt))))"

lemma nat_aligned: "0 \<le> off \<Longrightarrow> off mod 512 = 0 \<Longrightarrow> (nat off + 512 * q) mod 512 = 0"
  by presburger

lemma write_res_fail:
  assumes "file_step blk good n v fs fs'" and "grew g fs fs'" and "contents blk fs' v = contents blk fs v"
    and "sfi_size (inode_of fs' v) = sfi_size (inode_of fs v)"
    and "(e = ENOSPC \<and> used_blocks fs' = {0..<b_nbits (sfs_freemap fs')}) \<or> (e = EINVAL \<and> MAXFILE < nat (uio_offset u) + cnt)"
  shows "write_res blk good n v fs u cnt g (Inl e) fs' u"
  unfolding write_res_def using assms by (intro exI [of _ 0]) (simp add: stop_at_def)

lemma write_res_grew: "write_res blk good n v fs u c g r fs' u' \<Longrightarrow> g \<le> g' \<Longrightarrow> write_res blk good n v fs u c g' r fs' u'"
  unfolding write_res_def using grew_mono [of g fs fs' g'] by blast

lemma write_res_mono:
  assumes "write_res blk good n v fs u c g (Inl e) fs' u'" and "c \<le> c'" and "g \<le> g'"
  shows "write_res blk good n v fs u c' g' (Inl e) fs' u'"
proof -
  obtain m where m: "m \<le> c" "file_step blk good n v fs fs' \<and> grew g fs fs' \<and> u' = uio_moved (take m (iov_buf u)) u \<and>
      contents blk fs' v = put_at (nat (uio_offset u)) (take m (iov_buf u)) (contents blk fs v) \<and>
      sfi_size (inode_of fs' v) = sfi_size (inode_of fs v) \<and> (m = 0 \<or> nat (uio_offset u) + m \<le> MAXFILE)"
      "(e = ENOSPC \<and> used_blocks fs' = {0..<b_nbits (sfs_freemap fs')}) \<or> (e = EINVAL \<and> MAXFILE < nat (uio_offset u) + c)" "stop_at u c m"
    using assms(1) unfolding write_res_def by auto
  have "m \<le> c'" "stop_at u c' m" using m(1,4) assms(2) by (auto simp: stop_at_def)
  moreover have "(e = ENOSPC \<and> used_blocks fs' = {0..<b_nbits (sfs_freemap fs')}) \<or> (e = EINVAL \<and> MAXFILE < nat (uio_offset u) + c')"
    using m(3) assms(2) by linarith
  ultimately show ?thesis unfolding write_res_def using m(2) grew_mono [of g fs fs' g'] assms(3) by (intro exI [of _ m]) simp
qed

lemma write_res_trans:
  assumes w1: "write_res blk good n v fs u c1 g1 (Inr ()) fs1 u1" and w2: "write_res blk good n v fs1 u1 c2 g2 r fs2 u2"
    and len: "length (contents blk fs v) = MAXFILE" and fits: "uio_fits (c1 + c2) u" and al: "(nat (uio_offset u) + c1) mod 512 = 0" "0 < c2"
  shows "write_res blk good n v fs u (c1 + c2) (g1 + g2) r fs2 u2"
proof -
  obtain st1: "file_step blk good n v fs fs1" and gr1: "grew g1 fs fs1" and u1: "u1 = uio_moved (take c1 (iov_buf u)) u"
    and c1: "contents blk fs1 v = put_at (nat (uio_offset u)) (take c1 (iov_buf u)) (contents blk fs v)"
    and s1: "sfi_size (inode_of fs1 v) = sfi_size (inode_of fs v)" and b1: "c1 = 0 \<or> nat (uio_offset u) + c1 \<le> MAXFILE"
    using w1 by (auto simp: write_res_def)
  obtain m where m: "m \<le> c2" "file_step blk good n v fs1 fs2" "grew g2 fs1 fs2" "u2 = uio_moved (take m (iov_buf u1)) u1"
    "contents blk fs2 v = put_at (nat (uio_offset u1)) (take m (iov_buf u1)) (contents blk fs1 v)"
    "sfi_size (inode_of fs2 v) = sfi_size (inode_of fs1 v)" "m = 0 \<or> nat (uio_offset u1) + m \<le> MAXFILE"
    "case r of Inr _ \<Rightarrow> m = c2 | Inl e \<Rightarrow> stop_at u1 c2 m \<and> ((e = ENOSPC \<and> used_blocks fs2 = {0..<b_nbits (sfs_freemap fs2)}) \<or>
          (e = EINVAL \<and> MAXFILE < nat (uio_offset u1) + c2))"
    using w2 unfolding write_res_def by blast
  have l: "length (take c1 (iov_buf u)) = c1" "length (take m (drop c1 (iov_buf u))) = m" "0 \<le> uio_offset u"
    using fits m(1) by (auto simp: uio_fits_def)
  have app: "take c1 (iov_buf u) @ take m (drop c1 (iov_buf u)) = take (c1 + m) (iov_buf u)" by (simp add: take_add)
  have off: "nat (uio_offset u1) = nat (uio_offset u) + c1" using l(1,3) by (simp add: u1 nat_add_distrib)
  have buf: "iov_buf u1 = drop c1 (iov_buf u)" using l(1) by (simp add: u1)
  have "contents blk fs2 v = put_at (nat (uio_offset u)) (take (c1 + m) (iov_buf u)) (contents blk fs v)"
  proof (cases "m = 0")
    case True
    then show ?thesis using m(5) c1 by simp
  next
    case False
    then have "nat (uio_offset u) + c1 + m \<le> MAXFILE" using m(7) off by simp
    then show ?thesis
      using put_at_put_at [of "nat (uio_offset u)" "take c1 (iov_buf u)" "take m (drop c1 (iov_buf u))" "contents blk fs v"]
        l len app m(5) c1 off buf by simp
  qed
  moreover have "u2 = uio_moved (take (c1 + m) (iov_buf u)) u"
    using m(4) u1 buf app by (simp add: uio_moved_append)
  moreover have "c1 + m = 0 \<or> nat (uio_offset u) + (c1 + m) \<le> MAXFILE" using b1 m(7) off by auto
  moreover have "stop_at u1 c2 m \<Longrightarrow> stop_at u (c1 + c2) (c1 + m)" using off al by (auto simp: stop_at_def add.assoc)
  then have "case r of Inr _ \<Rightarrow> c1 + m = c1 + c2 | Inl e \<Rightarrow> stop_at u (c1 + c2) (c1 + m) \<and>
      ((e = ENOSPC \<and> used_blocks fs2 = {0..<b_nbits (sfs_freemap fs2)}) \<or> (e = EINVAL \<and> MAXFILE < nat (uio_offset u) + (c1 + c2)))"
    using m(8) off by (auto split: sum.splits)
  ultimately show ?thesis
    unfolding write_res_def using file_step_trans [OF st1 m(2)] grew_trans [OF gr1 m(3)] m(1,6) s1 by (intro exI [of _ "c1 + m"]) simp
qed

lemma file_stepD:
  assumes "file_step blk good n v fs fs'"
  shows "fs_ok good n fs'" and "file_ok blk fs' v"
  using assms by (simp_all add: file_step_def)

lemma offset_split:
  assumes "0 \<le> off"
  shows "512 * nat (off div 512) + nat (off mod 512) = nat off"
  using assms by (simp add: nat_div_distrib nat_mod_distrib)

lemma on_fs_Some [simp]: "on_fs (Some (r, fs)) u = Some (r, fs, u)"
  by (simp add: on_fs_def)

lemma on_uio_Some [simp]: "on_uio (Some (r, u)) fs = Some (r, fs, u)"
  by (simp add: on_uio_def)

context block_device
begin

lemma bmap_write:
  assumes "fs_ok good n fs" and "file_ok blk fs v"
  shows "\<exists>r fs'. sfs_bmap dio v k True fs = Some (r, fs') \<and> file_step blk good n v fs fs' \<and> grew 2 fs fs' \<and>
    contents blk fs' v = contents blk fs v \<and> sfi_size (inode_of fs' v) = sfi_size (inode_of fs v) \<and>
    (case r of
        Inl e \<Rightarrow> (e = ENOSPC \<and> used_blocks fs' = {0..<b_nbits (sfs_freemap fs')}) \<or> (e = EINVAL \<and> NBLK \<le> k)
      | Inr b \<Rightarrow> k < NBLK \<and> b \<noteq> 0 \<and> b < n \<and> b = blkmap (blk (sfs_device fs')) (inode_of fs' v) ! k)"
proof (cases "k < NBLK")
  case True
  then obtain r fs' where r: "sfs_bmap dio v k True fs = Some (r, fs')" "file_step blk good n v fs fs'" "bmap_result blk v k 2 fs r fs'"
    using bmap_alloc [OF assms] by blast
  obtain sv where sv: "sv_mem fs' v = Some sv" "inode_ok (nblocks fs') (used_blocks fs') (blk (sfs_device fs')) (sv_i sv)"
    using file_stepD(2) [OF r(2)] by (elim file_okE)
  have "r = Inr b \<Longrightarrow> b < n" for b
    using r(3) inode_ok_block(2) [OF sv(2) True] sv(1) file_stepD(1) [OF r(2)]
    by (auto simp: bmap_result_def fs_ok_def)
  then show ?thesis using r True by (intro exI [of _ r] exI [of _ fs']) (auto simp: bmap_result_def split: sum.splits)
next
  case False
  then show ?thesis using bmap_too_far [of k dio v True fs] file_step_refl [OF assms] by simp
qed

lemma partialio_write:
  assumes ok: "fs_ok good n fs" "file_ok blk fs v" and u: "uio_rw u = UIO_WRITE" "uio_fits len u" "uio_safe u"
    and s: "skip = nat (uio_offset u mod 512)" "skip + len \<le> 512" "0 < skip + len"
  shows "\<exists>r fs' u'. sfs_partialio dio v skip len (fs, u) = Some (r, fs', u') \<and> write_res blk good n v fs u len 2 r fs' u'"
proof -
  define k where "k = nat (uio_offset u div 512)"
  have off: "0 \<le> uio_offset u" "uio_offset u < 2 ^ 31" "len \<le> length (iov_buf u)" using u(2) by (auto simp: uio_fits_def)
  have blk: "off_blk (uio_offset u) = k" using off by (simp add: off_blk_nonneg k_def)
  have pos: "512 * k + skip = nat (uio_offset u)" using offset_split [OF off(1)] by (simp add: k_def s)
  obtain r fs1 where gr: "grew 2 fs fs1" and r: "sfs_bmap dio v k True fs = Some (r, fs1)" "file_step blk good n v fs fs1"
      "contents blk fs1 v = contents blk fs v" "sfi_size (inode_of fs1 v) = sfi_size (inode_of fs v)"
      "case r of Inl e \<Rightarrow> (e = ENOSPC \<and> used_blocks fs1 = {0..<b_nbits (sfs_freemap fs1)}) \<or> (e = EINVAL \<and> NBLK \<le> k)
      | Inr b \<Rightarrow> k < NBLK \<and> b \<noteq> 0 \<and> b < n \<and> b = blkmap (blk (sfs_device fs1)) (inode_of fs1 v) ! k"
    using bmap_write [OF ok] by blast
  note ok1 = file_stepD [OF r(2)]
  show ?thesis
  proof (cases r)
    case (Inl e)
    have "NBLK \<le> k \<Longrightarrow> MAXFILE < nat (uio_offset u) + len" using pos s(3) by linarith
    then have "write_res blk good n v fs u len 2 (Inl e) fs1 u" using r gr Inl by (intro write_res_fail) auto
    moreover have "sfs_partialio dio v skip len (fs, u) = Some (Inl e, fs1, u)"
      using u(1) s(2) Inl r(1) by (simp add: sfs_partialio_def blk Let_def)
    ultimately show ?thesis by blast
  next
    case (Inr b)
    then have b: "k < NBLK" "b \<noteq> 0" "b < n" "b = blkmap (blk (sfs_device fs1)) (inode_of fs1 v) ! k" using r(5) by simp_all
    have g1: "good (sfs_device fs1)" using ok1(1) by (simp add: fs_ok_def)
    let ?io = "blk (sfs_device fs1) b" and ?bs = "take len (iov_buf u)"
    have iolen: "length ?io = 512" using blk_length [OF g1 b(3)] .
    obtain fs2 where fs2: "sfs_rblock dio zero_block b fs1 = Some (Inr ?io, fs2)" "same_disk blk good fs1 fs2"
      using rblock_ok [OF g1 b(3), of zero_block] by auto
    have mv: "uiomove (take len (drop skip ?io)) u = Some (Inr ?bs, uio_moved ?bs u)"
      using uiomove_fits [of "take len (drop skip ?io)" u] u iolen s(2) by (simp add: Let_def)
    have sp: "take skip ?io @ ?bs @ drop (skip + len) ?io = put_at skip ?bs ?io"
      using off(3) by (simp add: put_at_def)
    have "length (put_at skip ?bs ?io) = 512" using iolen s(2) off(3) by (simp add: put_at_length)
    then obtain d where d: "sfs_wblock dio (put_at skip ?bs ?io) b fs2 = Some (Inr (), fs2\<lparr>sfs_device := d\<rparr>)" "good d"
        "blk d = (blk (sfs_device fs2))(b := put_at skip ?bs ?io)"
      using wblock_ok [of fs2 b] same_disk_fields [OF fs2(2)] b(3) by metis
    note sd = same_disk_ok [OF fs2(2)] same_disk_fields(7) [OF fs2(2)]
    have ok2: "fs_ok good n fs2" "file_ok blk fs2 v" using sd ok1 by simp_all
    define fs3 where "fs3 = fs2\<lparr>sfs_device := d\<rparr>"
    have b2: "b = blkmap (blk (sfs_device fs2)) (inode_of fs2 v) ! k" using b(4) sd by simp
    note ws = write_step [OF ok2 b(1) b2 b(2) d(2,3) fs3_def]
    have "contents blk fs3 v = put_at (512 * k + skip) ?bs (contents blk fs2 v)"
      using put_at_step [OF ok2 b(1) b2 b(2) d(2) _ fs3_def, of skip ?bs] d(3) sd s(2) off(3) by simp
    then have "contents blk fs3 v = put_at (nat (uio_offset u)) ?bs (contents blk fs v)" using pos sd r(3) by simp
    moreover have "file_step blk good n v fs fs3"
      using file_step_trans [OF r(2) file_step_trans [OF same_disk_step [OF fs2(2) ok1] ws(1)]] .
    moreover have "sfi_size (inode_of fs3 v) = sfi_size (inode_of fs v)" using ws(2) sd r(4) by simp
    moreover have "nat (uio_offset u) + len \<le> MAXFILE" using pos s(2) b(1) by linarith
    ultimately have "write_res blk good n v fs u len 2 (Inr ()) fs3 (uio_moved ?bs u)"
      unfolding write_res_def using grew_trans [OF gr, of 0 fs3] same_disk_fields(4) [OF fs2(2)] by (intro exI [of _ len]) (simp add: fs3_def grew_same)
    moreover have "sfs_partialio dio v skip len (fs, u) = Some (Inr (), fs3, uio_moved ?bs u)"
      using u(1) s(2) b(2) Inr r(1) fs2(1) mv sp d(1) by (simp add: sfs_partialio_def blk Let_def fs3_def)
    ultimately show ?thesis by blast
  qed
qed

text \<open>A write into a block the file has already cannot fail.\<close>

lemma partialio_mapped:
  assumes ok: "fs_ok good n fs" "file_ok blk fs v" and u: "uio_rw u = UIO_WRITE" "uio_fits len u" "uio_safe u"
    and s: "skip + len \<le> 512" and k: "k = off_blk (uio_offset u)" "k < NBLK" "blkmap (blk (sfs_device fs)) (inode_of fs v) ! k \<noteq> 0"
  shows "\<exists>fs' u'. sfs_partialio dio v skip len (fs, u) = Some (Inr (), fs', u')"
proof -
  let ?b = "blkmap (blk (sfs_device fs)) (inode_of fs v) ! k"
  obtain fs1 where r: "sfs_bmap dio v k True fs = Some (Inr ?b, fs1)" "same_disk blk good fs fs1" using bmap_mapped [OF ok k(2,3)] by blast
  note sd1 = same_disk_fields [OF r(2)]
  obtain sv where sv: "sv_mem fs v = Some sv" "inode_ok (nblocks fs) (used_blocks fs) (blk (sfs_device fs)) (sv_i sv)" using ok(2) by (elim file_okE)
  have b: "?b < n" using inode_ok_block(2) [OF sv(2) k(2)] sv(1) k(3) ok(1) by (simp add: fs_ok_def)
  let ?io = "blk (sfs_device fs1) ?b" and ?bs = "take len (iov_buf u)"
  have iolen: "length ?io = 512" using blk_length [OF sd1(8) b] .
  obtain fs2 where fs2: "sfs_rblock dio zero_block ?b fs1 = Some (Inr ?io, fs2)" "same_disk blk good fs1 fs2"
    using rblock_ok [OF sd1(8) b, of zero_block] by auto
  have mv: "uiomove (take len (drop skip ?io)) u = Some (Inr ?bs, uio_moved ?bs u)"
    using uiomove_fits [of "take len (drop skip ?io)" u] u iolen s by (simp add: Let_def)
  have "length (take skip ?io @ ?bs @ drop (skip + len) ?io) = 512" using iolen s u(2) by (simp add: uio_fits_def)
  then obtain d where "sfs_wblock dio (take skip ?io @ ?bs @ drop (skip + len) ?io) ?b fs2 = Some (Inr (), fs2\<lparr>sfs_device := d\<rparr>)"
    using wblock_ok [of fs2 ?b] same_disk_fields(8) [OF fs2(2)] b by metis
  then show ?thesis using u(1) s k(1,3) r(1) fs2(1) mv by (simp add: sfs_partialio_def Let_def)
qed

lemma partialio_read:
  assumes ok: "fs_ok good n fs" "file_ok blk fs v" and u: "uio_rw u = UIO_READ" "uio_fits len u" "uio_safe u"
    and s: "skip = nat (uio_offset u mod 512)" "skip + len \<le> 512" "0 < skip + len"
    and lim: "nat (uio_offset u) + len \<le> MAXFILE"
  shows "\<exists>fs'. sfs_partialio dio v skip len (fs, u) =
      Some (Inr (), fs', uio_moved (take len (drop (nat (uio_offset u)) (contents blk fs v))) u) \<and> same_disk blk good fs fs'"
proof -
  define k where "k = nat (uio_offset u div 512)"
  have off: "0 \<le> uio_offset u" "uio_offset u < 2 ^ 31" "len \<le> length (iov_buf u)" using u(2) by (auto simp: uio_fits_def)
  have kb: "off_blk (uio_offset u) = k" using off by (simp add: off_blk_nonneg k_def)
  have pos: "512 * k + skip = nat (uio_offset u)" using offset_split [OF off(1)] by (simp add: k_def s)
  then have k: "k < NBLK" using lim s(3) by linarith
  define b where "b = blkmap (blk (sfs_device fs)) (inode_of fs v) ! k"
  let ?io = "data_block (blk (sfs_device fs)) b"
  obtain fs1 where fs1: "sfs_bmap dio v k False fs = Some (Inr b, fs1)" "same_disk blk good fs fs1"
    using bmap_noalloc [OF ok k] by (auto simp: b_def)
  obtain sv where sv: "sv_mem fs v = Some sv" "inode_ok (nblocks fs) (used_blocks fs) (blk (sfs_device fs)) (sv_i sv)"
    using ok(2) by (elim file_okE)
  have b: "b \<noteq> 0 \<Longrightarrow> b < n" using inode_ok_block(2) [OF sv(2) k] sv(1) ok(1) by (simp add: b_def fs_ok_def)
  note sd1 = same_disk_fields [OF fs1(2)]
  have "\<exists>fs2. (if b = 0 then Some (Inr zero_block, fs1, u) else on_fs (sfs_rblock dio zero_block b fs1) u) =
      Some (Inr ?io, fs2, u) \<and> same_disk blk good fs1 fs2"
  proof (cases "b = 0")
    case True
    then show ?thesis using same_disk_refl [of good fs1 blk] sd1(8) by (simp add: data_block_def)
  next
    case False
    then show ?thesis using rblock_ok [of fs1 b zero_block] b sd1(7,8) by (auto simp: data_block_def)
  qed
  then obtain fs2 where fs2: "(if b = 0 then Some (Inr zero_block, fs1, u) else on_fs (sfs_rblock dio zero_block b fs1) u) =
      Some (Inr ?io, fs2, u)" "same_disk blk good fs1 fs2" by blast
  have sl: "take len (drop skip ?io) = take len (drop (nat (uio_offset u)) (contents blk fs v))"
    using block_slice [OF ok k s(2)] pos by (simp add: b_def)
  have "length ?io = 512" using blk_length [of "sfs_device fs" b] b ok(1) by (simp add: data_block_def fs_ok_def)
  then have mv: "uiomove (take len (drop skip ?io)) u = Some (Inr (take len (drop skip ?io)), uio_moved (take len (drop skip ?io)) u)"
    using uiomove_fits [of "take len (drop skip ?io)" u] u s(2) by (simp add: Let_def)
  show ?thesis
    using u(1) s(2) fs1(1) fs2(1) mv same_disk_trans [OF fs1(2) fs2(2)] by (simp add: sfs_partialio_def kb Let_def sl)
qed

lemma uio_restore:
  assumes "uio_fits 512 u" and "length bs = 512"
  shows "(uio_moved bs (u\<lparr>uio_offset := doff, uio_resid := SFS_BLOCKSIZE\<rparr>))
    \<lparr>uio_offset := c_int (uio_offset (uio_moved bs (u\<lparr>uio_offset := doff, uio_resid := SFS_BLOCKSIZE\<rparr>)) - doff + uio_offset u),
     uio_resid := nat ((int (uio_resid (uio_moved bs (u\<lparr>uio_offset := doff, uio_resid := SFS_BLOCKSIZE\<rparr>))) - 512 + int (uio_resid u)) mod 2 ^ 32)\<rparr>
    = uio_moved bs u"
proof -
  have "c_int (512 + uio_offset u) = 512 + uio_offset u" using assms(1) by (intro c_int_id) (auto simp: uio_fits_def)
  moreover have "(int (uio_resid u) - 512) mod 2 ^ 32 = int (uio_resid u) - 512"
    using assms(1) by (intro mod_pos_pos_trivial) (auto simp: uio_fits_def)
  moreover have "nat (int (uio_resid u) - 512) = uio_resid u - 512" by simp
  ultimately show ?thesis using assms(2) by (simp add: uio_moved_def add.commute)
qed

lemma blockio_write:
  assumes ok: "fs_ok good n fs" "file_ok blk fs v" and u: "uio_rw u = UIO_WRITE" "uio_fits 512 u" "uio_safe u"
    and al: "uio_offset u mod 512 = 0"
  shows "\<exists>r fs' u'. sfs_blockio dio v (fs, u) = Some (r, fs', u') \<and> write_res blk good n v fs u 512 2 r fs' u'"
proof -
  define k where "k = nat (uio_offset u div 512)"
  have off: "0 \<le> uio_offset u" "uio_offset u < 2 ^ 31" "512 \<le> length (iov_buf u)" "512 \<le> uio_resid u"
    using u(2) by (auto simp: uio_fits_def)
  have kb: "off_blk (uio_offset u) = k" using off by (simp add: off_blk_nonneg k_def)
  have pos: "512 * k = nat (uio_offset u)" using offset_split [OF off(1)] al by (simp add: k_def)
  obtain r fs1 where gr: "grew 2 fs fs1" and r: "sfs_bmap dio v k True fs = Some (r, fs1)" "file_step blk good n v fs fs1"
      "contents blk fs1 v = contents blk fs v" "sfi_size (inode_of fs1 v) = sfi_size (inode_of fs v)"
      "case r of Inl e \<Rightarrow> (e = ENOSPC \<and> used_blocks fs1 = {0..<b_nbits (sfs_freemap fs1)}) \<or> (e = EINVAL \<and> NBLK \<le> k)
      | Inr b \<Rightarrow> k < NBLK \<and> b \<noteq> 0 \<and> b < n \<and> b = blkmap (blk (sfs_device fs1)) (inode_of fs1 v) ! k"
    using bmap_write [OF ok] by blast
  note ok1 = file_stepD [OF r(2)]
  show ?thesis
  proof (cases r)
    case (Inl e)
    have "NBLK \<le> k \<Longrightarrow> MAXFILE < nat (uio_offset u) + 512" using pos by linarith
    then have "write_res blk good n v fs u 512 2 (Inl e) fs1 u" using r gr Inl by (intro write_res_fail) auto
    moreover have "sfs_blockio dio v (fs, u) = Some (Inl e, fs1, u)"
      using u(1) Inl r(1) by (simp add: sfs_blockio_def kb Let_def)
    ultimately show ?thesis by blast
  next
    case (Inr b)
    then have b: "k < NBLK" "b \<noteq> 0" "b < n" "b = blkmap (blk (sfs_device fs1)) (inode_of fs1 v) ! k" using r(5) by simp_all
    let ?bs = "take 512 (iov_buf u)" and ?io = "blk (sfs_device fs1) b"
    let ?u = "u\<lparr>uio_offset := int b * 512, uio_resid := SFS_BLOCKSIZE\<rparr>"
    have "good (sfs_device fs1)" using ok1(1) by (simp add: fs_ok_def)
    then obtain d where d: "sfs_rwblock dio ?u fs1 = Some (Inr (), uio_moved ?bs ?u, fs1\<lparr>sfs_device := d\<rparr>)" "good d"
        "blk d = (blk (sfs_device fs1))(b := ?bs)"
      using rwblock_write [of fs1 b ?u] b(3) u off(3) by (auto simp: uio_safe_def)
    have "length ?io = 512" "length ?bs = 512" using blk_length b(3) \<open>good (sfs_device fs1)\<close> off(3) by simp_all
    then have sp: "?bs = put_at 0 ?bs ?io" by (simp add: put_at_def)
    define fs2 where "fs2 = fs1\<lparr>sfs_device := d\<rparr>"
    note ws = write_step [OF ok1 b(1,4,2) d(2,3) fs2_def]
    have "contents blk fs2 v = put_at (512 * k + 0) ?bs (contents blk fs1 v)"
      using put_at_step [OF ok1 b(1,4,2) d(2) _ fs2_def, of 0 ?bs] d(3) sp off(3) by simp
    then have "contents blk fs2 v = put_at (nat (uio_offset u)) ?bs (contents blk fs v)" using pos r(3) by simp
    moreover have "file_step blk good n v fs fs2" using file_step_trans [OF r(2) ws(1)] .
    moreover have "sfi_size (inode_of fs2 v) = sfi_size (inode_of fs v)" using ws(2) r(4) by simp
    moreover have "nat (uio_offset u) + 512 \<le> MAXFILE" using pos b(1) by linarith
    ultimately have "write_res blk good n v fs u 512 2 (Inr ()) fs2 (uio_moved ?bs u)"
      unfolding write_res_def using grew_trans [OF gr, of 0 fs2] by (intro exI [of _ 512]) (simp add: fs2_def grew_same)
    moreover have "sfs_blockio dio v (fs, u) = Some (Inr (), fs2, uio_moved ?bs u)"
      using u(1) b(2) Inr r(1) d(1) off(4) uio_restore [OF u(2), of ?bs "int b * 512"] \<open>length ?bs = 512\<close>
      by (simp add: sfs_blockio_def kb Let_def fs2_def block_offset [OF b(3)] del: uio_moved_fields)
    ultimately show ?thesis by blast
  qed
qed

lemma blockio_read:
  assumes ok: "fs_ok good n fs" "file_ok blk fs v" and u: "uio_rw u = UIO_READ" "uio_fits 512 u" "uio_safe u"
    and al: "uio_offset u mod 512 = 0" and lim: "nat (uio_offset u) + 512 \<le> MAXFILE"
  shows "\<exists>fs'. sfs_blockio dio v (fs, u) =
      Some (Inr (), fs', uio_moved (take 512 (drop (nat (uio_offset u)) (contents blk fs v))) u) \<and> same_disk blk good fs fs'"
proof -
  define k where "k = nat (uio_offset u div 512)"
  have off: "0 \<le> uio_offset u" "uio_offset u < 2 ^ 31" "512 \<le> length (iov_buf u)" "512 \<le> uio_resid u"
    using u(2) by (auto simp: uio_fits_def)
  have kb: "off_blk (uio_offset u) = k" using off by (simp add: off_blk_nonneg k_def)
  have pos: "512 * k = nat (uio_offset u)" using offset_split [OF off(1)] al by (simp add: k_def)
  then have k: "k < NBLK" using lim by linarith
  define b where "b = blkmap (blk (sfs_device fs)) (inode_of fs v) ! k"
  let ?io = "data_block (blk (sfs_device fs)) b"
  obtain fs1 where fs1: "sfs_bmap dio v k False fs = Some (Inr b, fs1)" "same_disk blk good fs fs1"
    using bmap_noalloc [OF ok k] by (auto simp: b_def)
  obtain sv where sv: "sv_mem fs v = Some sv" "inode_ok (nblocks fs) (used_blocks fs) (blk (sfs_device fs)) (sv_i sv)"
    using ok(2) by (elim file_okE)
  have b: "b \<noteq> 0 \<Longrightarrow> b < n" using inode_ok_block(2) [OF sv(2) k] sv(1) ok(1) by (simp add: b_def fs_ok_def)
  have len: "length ?io = 512" using blk_length [of "sfs_device fs" b] b ok(1) by (simp add: data_block_def fs_ok_def)
  have "take 512 (drop 0 ?io) = take 512 (drop (512 * k + 0) (contents blk fs v))"
    unfolding b_def by (rule block_slice [OF ok k]) simp
  then have sl: "?io = take 512 (drop (nat (uio_offset u)) (contents blk fs v))" using len pos by simp
  show ?thesis
  proof (cases "b = 0")
    case True
    then have "?io = replicate 512 0" by (simp add: data_block_def)
    then show ?thesis
      using True u fs1 uiomovezeros_fits [OF u(2,3,1)] sl by (simp add: sfs_blockio_def kb Let_def)
  next
    case False
    let ?u = "u\<lparr>uio_offset := int b * 512, uio_resid := SFS_BLOCKSIZE\<rparr>"
    obtain fs2 where fs2: "sfs_rwblock dio ?u fs1 = Some (Inr (), uio_moved ?io ?u, fs2)" "same_disk blk good fs1 fs2"
      using rwblock_read [of fs1 b ?u] b False u off(3) same_disk_fields(7,8) [OF fs1(2)]
      by (auto simp: uio_safe_def data_block_def)
    then have "sfs_blockio dio v (fs, u) = Some (Inr (), fs2, uio_moved ?io u)"
      using u(1) False fs1(1) off(4) uio_restore [OF u(2) len, of "int b * 512"]
      by (simp add: sfs_blockio_def kb Let_def block_offset [OF b [OF False]] del: uio_moved_fields)
    then show ?thesis using sl same_disk_trans [OF fs1(2) fs2(2)] by simp
  qed
qed

lemma blockio_loop_write:
  assumes "fs_ok good n fs" "file_ok blk fs v" "uio_rw u = UIO_WRITE" "uio_fits (512 * m) u" "uio_safe u"
    "uio_offset u mod 512 = 0"
  shows "\<exists>r fs' u'. sfs_blockio_loop dio v m (fs, u) = Some (r, fs', u') \<and> write_res blk good n v fs u (512 * m) (2 * m) r fs' u'"
  using assms
proof (induction m arbitrary: fs u)
  case 0
  then show ?case using file_step_refl by (auto simp: write_res_def)
next
  case (Suc m)
  have f: "uio_fits 512 u" "uio_fits (512 + 512 * m) u" using Suc.prems(4) by (auto elim: uio_fits_mono)
  obtain r fs1 u1 where r: "sfs_blockio dio v (fs, u) = Some (r, fs1, u1)" "write_res blk good n v fs u 512 2 r fs1 u1"
    using blockio_write [OF Suc.prems(1-3) f(1) Suc.prems(5,6)] by blast
  show ?case
  proof (cases r)
    case (Inl e)
    have "write_res blk good n v fs u (512 * Suc m) (2 * Suc m) (Inl e) fs1 u1"
      using r(2) unfolding Inl by (rule write_res_mono) simp_all
    then show ?thesis using r(1) Inl by auto
  next
    case (Inr x)
    have r2: "write_res blk good n v fs u 512 2 (Inr ()) fs1 u1" using r(2) Inr by simp
    then have u1: "u1 = uio_moved (take 512 (iov_buf u)) u" "file_step blk good n v fs fs1" by (auto simp: write_res_def)
    have "length (take 512 (iov_buf u)) = 512" using f(1) by (simp add: uio_fits_def)
    then have "uio_fits (512 * m) u1" "uio_offset u1 mod 512 = 0" "uio_rw u1 = UIO_WRITE" "uio_safe u1"
      using uio_fits_moved [of "take 512 (iov_buf u)" "512 * m" u] f(2) Suc.prems(3,5,6) by (simp_all add: u1)
    then obtain r' fs2 u2 where "sfs_blockio_loop dio v m (fs1, u1) = Some (r', fs2, u2)"
        "write_res blk good n v fs1 u1 (512 * m) (2 * m) r' fs2 u2"
      using Suc.IH [OF file_stepD [OF u1(2)]] by metis
    moreover have "(nat (uio_offset u) + 512) mod 512 = 0"
      using nat_aligned [OF _ Suc.prems(6), of 1] f(1) by (simp add: uio_fits_def)
    ultimately show ?thesis
      using r(1) Inr r2 write_res_trans [OF r2 _ contents_length [OF Suc.prems(1,2)] f(2)] by (cases "m = 0") auto
  qed
qed

lemma blockio_loop_read:
  assumes "fs_ok good n fs" "file_ok blk fs v" "uio_rw u = UIO_READ" "uio_fits (512 * m) u" "uio_safe u"
    "uio_offset u mod 512 = 0" "nat (uio_offset u) + 512 * m \<le> MAXFILE"
  shows "\<exists>fs'. sfs_blockio_loop dio v m (fs, u) =
      Some (Inr (), fs', uio_moved (take (512 * m) (drop (nat (uio_offset u)) (contents blk fs v))) u) \<and> same_disk blk good fs fs'"
  using assms
proof (induction m arbitrary: fs u)
  case 0
  then show ?case using same_disk_refl by (auto simp: fs_ok_def)
next
  case (Suc m)
  let ?c = "contents blk fs v" and ?off = "nat (uio_offset u)"
  define bs where "bs = take 512 (drop ?off ?c)"
  have f: "uio_fits 512 u" "uio_fits (512 + 512 * m) u" using Suc.prems(4) by (auto elim: uio_fits_mono)
  have len: "length bs = 512" using contents_length [OF Suc.prems(1,2)] Suc.prems(7) by (simp add: bs_def)
  obtain fs1 where fs1: "sfs_blockio dio v (fs, u) = Some (Inr (), fs1, uio_moved bs u)" "same_disk blk good fs fs1"
    using blockio_read [OF Suc.prems(1-3) f(1) Suc.prems(5,6)] Suc.prems(7) by (auto simp: bs_def)
  let ?u1 = "uio_moved bs u"
  have off: "nat (uio_offset ?u1) = ?off + 512" using len f(1) by (simp add: uio_fits_def nat_add_distrib)
  have "uio_fits (512 * m) ?u1" "uio_offset ?u1 mod 512 = 0" "uio_rw ?u1 = UIO_READ" "uio_safe ?u1"
    using uio_fits_moved [of bs "512 * m" u] f(2) len Suc.prems(3,5,6) by simp_all
  then obtain fs2 where "sfs_blockio_loop dio v m (fs1, ?u1) =
        Some (Inr (), fs2, uio_moved (take (512 * m) (drop (?off + 512) ?c)) ?u1)" "same_disk blk good fs1 fs2"
    using Suc.IH [of fs1 ?u1] same_disk_ok [OF fs1(2)] Suc.prems(1,2,7) off by auto
  moreover have "bs @ take (512 * m) (drop (?off + 512) ?c) = take (512 * Suc m) (drop ?off ?c)"
    by (simp add: bs_def take_add add.commute)
  ultimately show ?case using fs1 same_disk_trans [OF fs1(2)] by (auto simp: uio_moved_append)
qed

lemma io_tail_write:
  assumes ok: "fs_ok good n fs" "file_ok blk fs v" and u: "uio_rw u = UIO_WRITE" "uio_fits (uio_resid u) u" "uio_safe u"
    and al: "uio_offset u mod 512 = 0"
  shows "\<exists>r fs' u'. io_tail dio v fs u = Some (r, fs', u') \<and> write_res blk good n v fs u (uio_resid u) (2 * (uio_resid u div SFS_BLOCKSIZE + 1)) r fs' u'"
proof -
  let ?q = "uio_resid u div SFS_BLOCKSIZE" and ?m = "uio_resid u mod SFS_BLOCKSIZE"
  have cnt: "512 * ?q + ?m = uio_resid u" by simp
  have f: "uio_fits (512 * ?q) u" by (rule uio_fits_mono [OF u(2)]) simp
  obtain r fs1 u1 where r: "sfs_blockio_loop dio v ?q (fs, u) = Some (r, fs1, u1)" "write_res blk good n v fs u (512 * ?q) (2 * ?q) r fs1 u1"
    using blockio_loop_write [OF ok u(1) f u(3) al] by blast
  show ?thesis
  proof (cases r)
    case (Inl e)
    have "write_res blk good n v fs u (uio_resid u) (2 * (uio_resid u div SFS_BLOCKSIZE + 1)) (Inl e) fs1 u1"
      using r(2) unfolding Inl by (rule write_res_mono) simp_all
    then show ?thesis using r(1) Inl by auto
  next
    case (Inr x)
    have r2: "write_res blk good n v fs u (512 * ?q) (2 * ?q) (Inr ()) fs1 u1" using r(2) Inr by simp
    then have u1: "u1 = uio_moved (take (512 * ?q) (iov_buf u)) u" and st: "file_step blk good n v fs fs1" by (auto simp: write_res_def)
    have len: "length (take (512 * ?q) (iov_buf u)) = 512 * ?q" using f by (simp add: uio_fits_def)
    have resid: "uio_resid u1 = ?m" using len by (simp add: u1 minus_mult_div_eq_mod)
    have off: "uio_offset u1 mod 512 = 0" using al len by (simp add: u1 mod_simps)
    have u1': "uio_fits ?m u1" "uio_rw u1 = UIO_WRITE" "uio_safe u1"
      using uio_fits_moved [of "take (512 * ?q) (iov_buf u)" ?m u] u len cnt by (simp_all add: u1)
    show ?thesis
    proof (cases "?m = 0")
      case True
      then have "write_res blk good n v fs u (uio_resid u) (2 * (?q + 1)) (Inr ()) fs1 u1"
        using write_res_grew [OF r2, of "2 * (?q + 1)"] cnt by simp
      then show ?thesis using True r(1) Inr resid by simp
    next
      case False
      have al': "(nat (uio_offset u) + 512 * ?q) mod 512 = 0" using nat_aligned [OF _ al] u(2) by (simp add: uio_fits_def)
      obtain r' fs2 u2 where "sfs_partialio dio v 0 ?m (fs1, u1) = Some (r', fs2, u2)" "write_res blk good n v fs1 u1 ?m 2 r' fs2 u2"
        using partialio_write [OF file_stepD [OF st] u1'(2,1,3), of 0] off False by auto
      moreover from this have "write_res blk good n v fs u (512 * ?q + ?m) (2 * ?q + 2) r' fs2 u2"
        using write_res_trans [OF r2 _ contents_length [OF ok] _ al', of ?m 2] u(2) cnt False by simp
      ultimately show ?thesis using r(1) Inr resid cnt False by simp
    qed
  qed
qed

lemma io_body_write:
  assumes ok: "fs_ok good n fs" "file_ok blk fs v" and u: "uio_rw u = UIO_WRITE" "uio_fits (uio_resid u) u" "uio_safe u"
  shows "\<exists>r fs' u'. sfs_io_body dio v (fs, u) = Some (r, fs', u') \<and> write_res blk good n v fs u (uio_resid u) (2 * (uio_resid u div SFS_BLOCKSIZE + 2)) r fs' u'"
proof -
  define s where "s = nat (uio_offset u mod 512)"
  have off: "0 \<le> uio_offset u" using u(2) by (simp add: uio_fits_def)
  have rem: "off_rem (uio_offset u) = s" "s < 512" using off by (simp_all add: off_rem_nonneg s_def)
  show ?thesis
  proof (cases "s = 0")
    case True
    then have al: "uio_offset u mod 512 = 0" using off by (simp add: s_def)
    show ?thesis
    proof (cases "uio_resid u = 0")
      case False
      obtain r fs' u' where "io_tail dio v fs u = Some (r, fs', u')"
          "write_res blk good n v fs u (uio_resid u) (2 * (uio_resid u div SFS_BLOCKSIZE + 1)) r fs' u'"
        using io_tail_write [OF ok u al] by blast
      moreover from this(2) have "write_res blk good n v fs u (uio_resid u) (2 * (uio_resid u div SFS_BLOCKSIZE + 2)) r fs' u'"
        by (rule write_res_grew) simp
      ultimately show ?thesis using False True rem by (simp add: sfs_io_body_def Let_def)
    next
      case zero: True
      then have "write_res blk good n v fs u 0 4 (Inr ()) fs u" using file_step_refl [OF ok] by (simp add: write_res_def)
      then show ?thesis using zero True rem by (simp add: sfs_io_body_def Let_def)
    qed
  next
    case False
    let ?m = "min (SFS_BLOCKSIZE - s) (uio_resid u)"
    have f: "uio_fits ?m u" by (rule uio_fits_mono [OF u(2)]) simp
    have "s + ?m \<le> 512" "0 < s + ?m" using rem(2) False by simp_all
    then obtain r fs1 u1 where r: "sfs_partialio dio v s ?m (fs, u) = Some (r, fs1, u1)" "write_res blk good n v fs u ?m 2 r fs1 u1"
      using partialio_write [OF ok u(1) f u(3) s_def] by metis
    show ?thesis
    proof (cases r)
      case (Inl e)
      have "write_res blk good n v fs u (uio_resid u) (2 * (uio_resid u div SFS_BLOCKSIZE + 2)) (Inl e) fs1 u1"
        using r(2) unfolding Inl by (rule write_res_mono) simp_all
      then show ?thesis using r(1) Inl False rem by (simp add: sfs_io_body_def Let_def)
    next
      case (Inr x)
      have r2: "write_res blk good n v fs u ?m 2 (Inr ()) fs1 u1" using r(2) Inr by simp
      then have u1: "u1 = uio_moved (take ?m (iov_buf u)) u" and st: "file_step blk good n v fs fs1" by (auto simp: write_res_def)
      have len: "length (take ?m (iov_buf u)) = ?m" using f by (simp add: uio_fits_def)
      have resid: "uio_resid u1 = uio_resid u - ?m" using len by (simp add: u1)
      show ?thesis
      proof (cases "uio_resid u1 = 0")
        case True
        then have "?m = uio_resid u" using resid by simp
        then have "write_res blk good n v fs u (uio_resid u) (2 * (uio_resid u div SFS_BLOCKSIZE + 2)) (Inr ()) fs1 u1"
          using write_res_grew [OF r2, of "2 * (uio_resid u div SFS_BLOCKSIZE + 2)"] by simp
        then show ?thesis using \<open>?m = uio_resid u\<close> r(1) Inr True False rem by (simp add: sfs_io_body_def Let_def)
      next
        case more: False
        then have m: "?m = 512 - s" using resid by simp
        have "uio_offset u mod 512 = int s" using off by (simp add: s_def)
        then have "uio_offset u1 = uio_offset u - uio_offset u mod 512 + 512" using len m rem(2) by (simp add: u1 of_nat_diff)
        then have al: "uio_offset u1 mod 512 = 0" by (simp add: minus_mod_eq_mult_div)
        have cnt: "?m + (uio_resid u - ?m) = uio_resid u" by simp
        have "nat (uio_offset u1) = nat (uio_offset u) + ?m" using off len by (simp add: u1 nat_add_distrib)
        moreover have "0 \<le> uio_offset u1" using off by (simp add: u1)
        ultimately have al': "(nat (uio_offset u) + ?m) mod 512 = 0" using nat_aligned [OF _ al, of 0] by simp
        have u1': "uio_fits (uio_resid u1) u1" "uio_rw u1 = UIO_WRITE" "uio_safe u1"
          using uio_fits_moved [of "take ?m (iov_buf u)" "uio_resid u - ?m" u] u len cnt resid by (simp_all add: u1)
        obtain r' fs2 u2 where t: "io_tail dio v fs1 u1 = Some (r', fs2, u2)" "write_res blk good n v fs1 u1 (uio_resid u1) (2 * (uio_resid u1 div SFS_BLOCKSIZE + 1)) r' fs2 u2"
          using io_tail_write [OF file_stepD [OF st] u1'(2,1,3) al] by blast
        have "write_res blk good n v fs u (uio_resid u) (2 * (uio_resid u div SFS_BLOCKSIZE + 2)) r' fs2 u2"
        proof (rule write_res_grew)
          show "write_res blk good n v fs u (uio_resid u) (2 + 2 * (uio_resid u1 div SFS_BLOCKSIZE + 1)) r' fs2 u2"
            using write_res_trans [OF r2 _ contents_length [OF ok] _ al', of "uio_resid u - ?m"] t(2) u(2) cnt resid more by simp
          have "uio_resid u1 div SFS_BLOCKSIZE \<le> uio_resid u div SFS_BLOCKSIZE" by (rule div_le_mono) (simp add: resid)
          then show "2 + 2 * (uio_resid u1 div SFS_BLOCKSIZE + 1) \<le> 2 * (uio_resid u div SFS_BLOCKSIZE + 2)" by simp
        qed
        moreover have "off_rem (uio_offset u1) = 0" using al u1'(1) by (simp add: off_rem_nonneg uio_fits_def)
        ultimately show ?thesis using r(1) Inr more False rem t(1) by (simp add: sfs_io_body_def Let_def)
      qed
    qed
  qed
qed

lemma io_tail_read:
  assumes ok: "fs_ok good n fs" "file_ok blk fs v" and u: "uio_rw u = UIO_READ" "uio_fits (uio_resid u) u" "uio_safe u"
    and al: "uio_offset u mod 512 = 0" and lim: "nat (uio_offset u) + uio_resid u \<le> MAXFILE"
  shows "\<exists>fs'. io_tail dio v fs u =
    Some (Inr (), fs', uio_moved (take (uio_resid u) (drop (nat (uio_offset u)) (contents blk fs v))) u) \<and> same_disk blk good fs fs'"
proof -
  let ?q = "uio_resid u div SFS_BLOCKSIZE" and ?m = "uio_resid u mod SFS_BLOCKSIZE"
    and ?c = "contents blk fs v" and ?off = "nat (uio_offset u)"
  define bs where "bs = take (512 * ?q) (drop ?off ?c)"
  have cnt: "512 * ?q + ?m = uio_resid u" by simp
  have f: "uio_fits (512 * ?q) u" by (rule uio_fits_mono [OF u(2)]) simp
  have lim': "?off + 512 * ?q \<le> MAXFILE" using lim cnt by linarith
  have len: "length bs = 512 * ?q" using contents_length [OF ok] lim' by (simp add: bs_def)
  let ?u1 = "uio_moved bs u"
  obtain fs1 where fs1: "sfs_blockio_loop dio v ?q (fs, u) = Some (Inr (), fs1, ?u1)" "same_disk blk good fs fs1"
    using blockio_loop_read [OF ok u(1) f u(3) al lim'] by (auto simp: bs_def)
  have resid: "uio_resid ?u1 = ?m" using len by (simp add: minus_mult_div_eq_mod)
  have off: "uio_offset ?u1 mod 512 = 0" using al len by (simp add: mod_simps)
  have pos: "nat (uio_offset ?u1) = ?off + 512 * ?q" using len u(2) by (simp add: uio_fits_def nat_add_distrib nat_mult_distrib)
  show ?thesis
  proof (cases "?m = 0")
    case True
    then have "512 * ?q = uio_resid u" using cnt by simp
    then show ?thesis using fs1 resid True by (simp add: bs_def)
  next
    case False
    have u1': "uio_fits ?m ?u1" "uio_rw ?u1 = UIO_READ" "uio_safe ?u1"
      using uio_fits_moved [of bs ?m u] u len cnt by simp_all
    have "nat (uio_offset ?u1) + ?m \<le> MAXFILE" using lim cnt pos by linarith
    then obtain fs2 where fs2: "sfs_partialio dio v 0 ?m (fs1, ?u1) =
        Some (Inr (), fs2, uio_moved (take ?m (drop (nat (uio_offset ?u1)) (contents blk fs1 v))) ?u1)" "same_disk blk good fs1 fs2"
      using partialio_read [OF _ _ u1'(2,1,3), of fs1 v 0] same_disk_ok [OF fs1(2)] ok off False by auto
    have "bs @ take ?m (drop (nat (uio_offset ?u1)) (contents blk fs1 v)) = take (uio_resid u) (drop ?off ?c)"
      using take_drop_append [OF bs_def, of ?m] by (simp only: pos cnt same_disk_ok(3) [OF fs1(2)])
    then show ?thesis
      using fs1(1) fs2(1) resid False same_disk_trans [OF fs1(2) fs2(2)] by (simp add: uio_moved_append del: uio_moved_fields)
  qed
qed

lemma io_body_read:
  assumes ok: "fs_ok good n fs" "file_ok blk fs v" and u: "uio_rw u = UIO_READ" "uio_fits (uio_resid u) u" "uio_safe u"
    and lim: "nat (uio_offset u) + uio_resid u \<le> MAXFILE"
  shows "\<exists>fs'. sfs_io_body dio v (fs, u) =
    Some (Inr (), fs', uio_moved (take (uio_resid u) (drop (nat (uio_offset u)) (contents blk fs v))) u) \<and> same_disk blk good fs fs'"
proof -
  let ?c = "contents blk fs v" and ?off = "nat (uio_offset u)"
  define s where "s = nat (uio_offset u mod 512)"
  have off: "0 \<le> uio_offset u" using u(2) by (simp add: uio_fits_def)
  have rem: "off_rem (uio_offset u) = s" "s < 512" using off by (simp_all add: off_rem_nonneg s_def)
  show ?thesis
  proof (cases "s = 0")
    case True
    then have al: "uio_offset u mod 512 = 0" using off by (simp add: s_def)
    show ?thesis
    proof (cases "uio_resid u = 0")
      case False
      then show ?thesis
        using io_tail_read [OF ok u al lim] True rem by (simp add: sfs_io_body_def Let_def)
    next
      case zero: True
      have "same_disk blk good fs fs" using ok(1) by (intro same_disk_refl) (simp add: fs_ok_def)
      then show ?thesis using zero True rem by (simp add: sfs_io_body_def Let_def)
    qed
  next
    case False
    let ?m = "min (SFS_BLOCKSIZE - s) (uio_resid u)"
    define bs where "bs = take ?m (drop ?off ?c)"
    let ?u1 = "uio_moved bs u"
    have f: "uio_fits ?m u" by (rule uio_fits_mono [OF u(2)]) simp
    have lim': "?off + ?m \<le> MAXFILE" using lim by linarith
    have len: "length bs = ?m" using contents_length [OF ok] lim' by (simp add: bs_def)
    have "s + ?m \<le> 512" "0 < s + ?m" using rem(2) False by simp_all
    then obtain fs1 where fs1: "sfs_partialio dio v s ?m (fs, u) = Some (Inr (), fs1, ?u1)" "same_disk blk good fs fs1"
      using partialio_read [OF ok u(1) f u(3) s_def _ _ lim'] unfolding bs_def by metis
    have resid: "uio_resid ?u1 = uio_resid u - ?m" using len by simp
    show ?thesis
    proof (cases "uio_resid ?u1 = 0")
      case True
      then have "?m = uio_resid u" using resid by simp
      then show ?thesis using fs1 True False rem by (simp add: sfs_io_body_def Let_def bs_def)
    next
      case more: False
      then have m: "?m = 512 - s" using resid by simp
      have "uio_offset u mod 512 = int s" using off by (simp add: s_def)
      then have "uio_offset ?u1 = uio_offset u - uio_offset u mod 512 + 512" using len m rem(2) by (simp add: of_nat_diff)
      then have al: "uio_offset ?u1 mod 512 = 0" by (simp add: minus_mod_eq_mult_div)
      have cnt: "?m + (uio_resid u - ?m) = uio_resid u" by simp
      have u1': "uio_fits (uio_resid ?u1) ?u1" "uio_rw ?u1 = UIO_READ" "uio_safe ?u1"
        using uio_fits_moved [of bs "uio_resid u - ?m" u] u len cnt by simp_all
      have pos: "nat (uio_offset ?u1) = ?off + ?m" using len off by (simp add: nat_add_distrib)
      have "nat (uio_offset ?u1) + uio_resid ?u1 \<le> MAXFILE" unfolding pos resid using lim by simp
      then obtain fs2 where t: "io_tail dio v fs1 ?u1 = Some (Inr (), fs2,
          uio_moved (take (uio_resid ?u1) (drop (nat (uio_offset ?u1)) (contents blk fs1 v))) ?u1)" "same_disk blk good fs1 fs2"
        using io_tail_read [OF _ _ u1'(2,1,3) al] same_disk_ok [OF fs1(2)] ok by blast
      have "bs @ take (uio_resid ?u1) (drop (nat (uio_offset ?u1)) (contents blk fs1 v)) = take (uio_resid u) (drop ?off ?c)"
        using take_drop_append [OF bs_def, of "uio_resid u - ?m"] by (simp only: pos resid cnt same_disk_ok(3) [OF fs1(2)])
      moreover have "off_rem (uio_offset ?u1) = 0" using al u1'(1) by (simp add: off_rem_nonneg uio_fits_def del: uio_moved_fields)
      ultimately show ?thesis
        using fs1(1) more False rem t(1) same_disk_trans [OF fs1(2) t(2)]
        by (simp add: sfs_io_body_def Let_def uio_moved_append del: uio_moved_fields)
    qed
  qed
qed

text \<open>\<open>sfs_io\<close>.\<close>

lemma io_write:
  assumes ok: "fs_ok good n fs" "file_ok blk fs v" and u: "uio_rw u = UIO_WRITE" "uio_fits (uio_resid u) u" "uio_safe u"
    and sz: "sfi_size (inode_of fs v) < 2 ^ 31"
  shows "\<exists>r m fs'. m \<le> uio_resid u \<and> sfs_io dio v (fs, u) = Some (r, fs', uio_moved (take m (iov_buf u)) u) \<and>
    file_step blk good n v fs fs' \<and> grew (2 * (uio_resid u div SFS_BLOCKSIZE + 2)) fs fs' \<and>
    contents blk fs' v = put_at (nat (uio_offset u)) (take m (iov_buf u)) (contents blk fs v) \<and>
    sfi_size (inode_of fs' v) = max (sfi_size (inode_of fs v)) (nat (uio_offset u) + m) \<and>
    (m = 0 \<or> nat (uio_offset u) + m \<le> MAXFILE) \<and>
    (case r of
        Inr _ \<Rightarrow> m = uio_resid u
      | Inl e \<Rightarrow> stop_at u (uio_resid u) m \<and> ((e = ENOSPC \<and> used_blocks fs' = {0..<b_nbits (sfs_freemap fs')}) \<or>
          (e = EINVAL \<and> MAXFILE < nat (uio_offset u) + uio_resid u)))"
proof -
  obtain sv where sv: "sv_mem fs v = Some sv" using ok(2) by (elim file_okE)
  obtain r fs1 u1 where r: "sfs_io_body dio v (fs, u) = Some (r, fs1, u1)" "write_res blk good n v fs u (uio_resid u) (2 * (uio_resid u div SFS_BLOCKSIZE + 2)) r fs1 u1"
    using io_body_write [OF ok u] by blast
  then obtain m where m: "m \<le> uio_resid u" "file_step blk good n v fs fs1" and gr: "grew (2 * (uio_resid u div SFS_BLOCKSIZE + 2)) fs fs1" and
      m2: "u1 = uio_moved (take m (iov_buf u)) u"
      "contents blk fs1 v = put_at (nat (uio_offset u)) (take m (iov_buf u)) (contents blk fs v)"
      "sfi_size (inode_of fs1 v) = sfi_size (inode_of fs v)" "m = 0 \<or> nat (uio_offset u) + m \<le> MAXFILE"
      "case r of Inr _ \<Rightarrow> m = uio_resid u
      | Inl e \<Rightarrow> stop_at u (uio_resid u) m \<and> ((e = ENOSPC \<and> used_blocks fs1 = {0..<b_nbits (sfs_freemap fs1)}) \<or>
          (e = EINVAL \<and> MAXFILE < nat (uio_offset u) + uio_resid u))"
    unfolding write_res_def by blast
  have len: "length (take m (iov_buf u)) = m" using m(1) u(2) by (simp add: uio_fits_def)
  have off: "0 \<le> uio_offset u" "uio_offset u + int m < 2 ^ 31" "uio_resid u < 2 ^ 32"
    using u(2) m(1) by (auto simp: uio_fits_def)
  obtain sv1 where sv1: "sv_mem fs1 v = Some sv1" using file_stepD(2) [OF m(2)] by (elim file_okE)
  define fs2 where "fs2 = (if uio_offset u + int m > int (sfi_size (sv_i sv1))
    then upd_inode v (\<lambda>i. i\<lparr>sfi_size := nat ((uio_offset u + int m) mod 2 ^ 32)\<rparr>) fs1 else fs1)"
  have size1: "sfi_size (sv_i sv1) = sfi_size (inode_of fs v)" using m2(3) sv1 by simp
  have ci: "c_int (int (sfi_size (sv_i sv1))) = int (sfi_size (sv_i sv1))"
    using sz size1 by (intro c_int_id) simp_all
  have io: "sfs_io dio v (fs, u) = Some (r, fs2, u1)"
  proof -
    have c: "c_uint (uio_resid u - m) = uio_resid u - m" using off(3) by (intro c_uint_id) simp
    have rs: "u1\<lparr>uio_resid := c_uint (uio_resid u1)\<rparr> = u1" using c len by (simp add: m2(1))
    show ?thesis using sv u(1) r(1) sv1 rs len
      by (cases "uio_offset u + int m > int (sfi_size (sv_i sv1))") (simp_all add: sfs_io_def Let_def ci fs2_def m2(1))
  qed
  have md: "nat ((uio_offset u + int m) mod 2 ^ 32) = nat (uio_offset u) + m"
    using off by (simp add: mod_pos_pos_trivial nat_add_distrib)
  have "uio_offset u + int m < 2147483648" using off(2) by simp
  then have "nat (uio_offset u) + m < 4294967296" using off(1) by linarith
  then have lim: "nat (uio_offset u) + m < 2 ^ 32" by simp
  have st: "file_step blk good n v fs1 fs2 \<and> contents blk fs2 v = contents blk fs1 v"
    using size_step [OF file_stepD [OF m(2)] lim] file_step_refl [OF file_stepD [OF m(2)]]
    unfolding fs2_def md by simp
  have fm: "sfs_freemap fs2 = sfs_freemap fs1" by (simp add: fs2_def)
  have size2: "sfi_size (inode_of fs2 v) = max (sfi_size (inode_of fs v)) (nat (uio_offset u) + m)"
  proof (cases "uio_offset u + int m > int (sfi_size (sv_i sv1))")
    case True
    then have "sfi_size (inode_of fs2 v) = nat (uio_offset u) + m" using sv1 unfolding fs2_def md by (simp add: inode_of_def)
    then show ?thesis using True size1 off(1) by linarith
  next
    case False
    then have "sfi_size (inode_of fs2 v) = sfi_size (inode_of fs v)" using m2(3) by (simp add: fs2_def)
    then show ?thesis using False size1 off(1) by linarith
  qed
  show ?thesis
    using m m2 gr grew_trans [OF gr, of 0 fs2] io st fm size2 file_step_trans [OF m(2)] by (intro exI [of _ r] exI [of _ m] exI [of _ fs2]) (simp add: grew_same split: sum.splits)
qed

lemma io_read:
  assumes ok: "fs_ok good n fs" "file_ok blk fs v" and u: "uio_rw u = UIO_READ" "uio_fits (uio_resid u) u" "uio_safe u"
    and sz: "sfi_size (inode_of fs v) \<le> MAXFILE"
  shows "\<exists>fs'. sfs_io dio v (fs, u) = Some (Inr (), fs', uio_moved (take (uio_resid u)
      (drop (nat (uio_offset u)) (take (sfi_size (inode_of fs v)) (contents blk fs v)))) u) \<and> same_disk blk good fs fs'"
proof -
  obtain sv where sv: "sv_mem fs v = Some sv" using ok(2) by (elim file_okE)
  let ?size = "sfi_size (sv_i sv)" and ?off = "nat (uio_offset u)" and ?c = "contents blk fs v"
  have size: "sfi_size (inode_of fs v) = ?size" using sv by simp
  have off: "0 \<le> uio_offset u" "uio_offset u + int (uio_resid u) < 2 ^ 31" "uio_resid u < 2 ^ 32"
    using u(2) by (auto simp: uio_fits_def)
  have ci: "c_int (int ?size) = int ?size" "c_int (uio_offset u + int (uio_resid u)) = uio_offset u + int (uio_resid u)"
    using sz off size by (auto intro!: c_int_id)
  show ?thesis
  proof (cases "int ?size \<le> uio_offset u")
    case True
    have "same_disk blk good fs fs" using ok(1) by (intro same_disk_refl) (simp add: fs_ok_def)
    moreover have "drop ?off (take ?size ?c) = []" using True off by simp
    ultimately show ?thesis using True sv u(1) by (simp add: sfs_io_def Let_def ci)
  next
    case False
    define ex where "ex = ?off + uio_resid u - ?size"
    have x: "uio_offset u + int (uio_resid u) > int ?size \<Longrightarrow> nat (uio_offset u + int (uio_resid u) - int ?size) = ex"
        "\<not> uio_offset u + int (uio_resid u) > int ?size \<Longrightarrow> ex = 0"
      using off False by (auto simp: ex_def)
    let ?u = "u\<lparr>uio_resid := uio_resid u - ex\<rparr>"
    have "ex = 0 \<or> ex < uio_resid u" using False off(1) unfolding ex_def by linarith
    have f: "uio_fits (uio_resid ?u) ?u" using u(2) by (auto simp: uio_fits_def)
    have lim: "nat (uio_offset ?u) + uio_resid ?u \<le> MAXFILE"
      using False off(1) sz size unfolding ex_def by simp
    define bs where "bs = take (uio_resid u - ex) (drop ?off ?c)"
    obtain fs1 where fs1: "sfs_io_body dio v (fs, ?u) = Some (Inr (), fs1, uio_moved bs ?u)" "same_disk blk good fs fs1"
      using io_body_read [OF ok _ f _ lim] u by (auto simp: uio_safe_def bs_def)
    have len: "length bs = uio_resid u - ex"
      using contents_length [OF ok] lim by (simp add: bs_def)
    have "take (uio_resid u) (drop ?off (take ?size ?c)) = bs"
      using False off(1) by (auto simp: bs_def ex_def drop_take min_def)
    moreover have "c_uint (uio_resid (uio_moved bs ?u) + ex) = uio_resid u - length bs"
      using len off(3) \<open>ex = 0 \<or> ex < uio_resid u\<close> by (auto simp: c_uint_id)
    moreover have mv: "(uio_moved bs ?u)\<lparr>uio_resid := uio_resid u - length bs\<rparr> = uio_moved bs u"
      by (simp add: uio_moved_def)
    have tk: "take (uio_resid u) bs = bs" using len by simp
    moreover have "sv_mem fs1 v = Some sv" using same_disk_fields [OF fs1(2)] sv by simp
    ultimately show ?thesis
      using False sv u(1) fs1 \<open>ex = 0 \<or> ex < uio_resid u\<close> x size
      by (cases "uio_offset u + int (uio_resid u) > int ?size") (simp_all add: sfs_io_def Let_def ci mv tk)
  qed
qed

end

end
