(* ===== verification/Sfs_Ops.thy ===== *)
theory Sfs_Ops
  imports Sfs_Vnode
begin

text \<open>
  The vnode operations of SFS that the VFS layer calls, with the function tables for files and
  directories as a dispatch on the inode type, and the operations on a mounted filesystem:
  mount, sync and unmount.
\<close>

unbundle bit_operations_syntax

section \<open>Vnode operations\<close>

abbreviation O_ACCMODE :: int where "O_ACCMODE \<equiv> 3"
abbreviation O_APPEND :: int where "O_APPEND \<equiv> 32"

definition sfs_open :: "int \<Rightarrow> errno + unit" where
  "sfs_open openflags = (if openflags AND O_APPEND \<noteq> 0 then Inl EUNIMP else Inr ())"

definition sfs_opendir :: "int \<Rightarrow> errno + unit" where
  "sfs_opendir openflags =
     (if openflags AND O_ACCMODE \<noteq> 0 then Inl EISDIR
      else if openflags AND O_APPEND \<noteq> 0 then Inl EISDIR
      else Inr ())"

definition sfs_fsync :: "'d d_io \<Rightarrow> nat \<Rightarrow> 'd sfs_fs \<Rightarrow> (unit, 'd sfs_fs) kcall" where
  "sfs_fsync dio v fs = sfs_sync_inode dio v fs"

definition sfs_close :: "'d d_io \<Rightarrow> nat \<Rightarrow> 'd sfs_fs \<Rightarrow> (unit, 'd sfs_fs) kcall" where
  "sfs_close dio v fs = sfs_fsync dio v fs"

definition vnode_decopen :: "'d d_io \<Rightarrow> nat \<Rightarrow> 'd sfs_fs \<Rightarrow> 'd sfs_fs option" where
  "vnode_decopen dio v fs = do {
     sv \<leftarrow> sv_mem fs v;
     kassert (vn_opencount sv > 0);
     let fs1 = upd_sv v (\<lambda>sv. sv\<lparr>vn_opencount := vn_opencount sv - 1\<rparr>) fs;
     if vn_opencount sv - 1 > 0 then Some fs1
     else do { (_, fs2) \<leftarrow> sfs_close dio v fs1; Some fs2 } }"

definition sfs_read :: "'d d_io \<Rightarrow> nat \<Rightarrow> 'd sfs_fs \<times> uio \<Rightarrow> 'd fio" where
  "sfs_read dio v s = do { kassert (uio_rw (snd s) = UIO_READ); sfs_io dio v s }"

definition sfs_write :: "'d d_io \<Rightarrow> nat \<Rightarrow> 'd sfs_fs \<times> uio \<Rightarrow> 'd fio" where
  "sfs_write dio v s = do { kassert (uio_rw (snd s) = UIO_WRITE); sfs_io dio v s }"

definition sfs_ioctl :: "errno + unit" where
  "sfs_ioctl = Inl EINVAL"

datatype ftype = S_IFREG | S_IFDIR | S_IFLNK | S_IFCHR | S_IFBLK

definition sfs_gettype :: "nat \<Rightarrow> 'd sfs_fs \<Rightarrow> (errno + ftype) option" where
  "sfs_gettype v fs = do {
     sv \<leftarrow> sv_mem fs v;
     if sfi_type (sv_i sv) = SFS_TYPE_FILE then Some (Inr S_IFREG)
     else if sfi_type (sv_i sv) = SFS_TYPE_DIR then Some (Inr S_IFDIR)
     else None }"

record stat =
  st_mode :: ftype
  st_size :: int
  st_nlink :: nat
  st_blocks :: nat

definition sfs_stat :: "nat \<Rightarrow> 'd sfs_fs \<Rightarrow> (errno + stat) option" where
  "sfs_stat v fs = do {
     r \<leftarrow> sfs_gettype v fs;
     sv \<leftarrow> sv_mem fs v;
     Some (case r of Inl e \<Rightarrow> Inl e
       | Inr ty \<Rightarrow> Inr \<lparr>st_mode = ty, st_size = c_int (int (sfi_size (sv_i sv))), st_nlink = 0, st_blocks = 0\<rparr>) }"

definition sfs_tryseek :: "int \<Rightarrow> errno + unit" where
  "sfs_tryseek pos = (if pos < 0 then Inl EINVAL else Inr ())"

definition sfs_mmap :: "errno + unit" where
  "sfs_mmap = Inl EUNIMP"

definition sfs_namefile :: "nat \<Rightarrow> 'd sfs_fs \<Rightarrow> (errno + unit) option" where
  "sfs_namefile v fs = do {
     sv \<leftarrow> sv_mem fs v;
     kassert (sv_ino sv = SFS_ROOT_LOCATION);
     Some (Inr ()) }"

text \<open>\<open>linkcount++\<close> and \<open>linkcount--\<close> on 16 bits, marking the inode dirty.\<close>

definition link_inc :: "nat \<Rightarrow> 'd sfs_fs \<Rightarrow> 'd sfs_fs" where
  "link_inc v fs = upd_inode v (\<lambda>i. i\<lparr>sfi_linkcount := (sfi_linkcount i + 1) mod 2 ^ 16\<rparr>) fs"

definition link_dec :: "nat \<Rightarrow> 'd sfs_fs \<Rightarrow> 'd sfs_fs" where
  "link_dec v fs = upd_inode v (\<lambda>i. i\<lparr>sfi_linkcount := (sfi_linkcount i + (2 ^ 16 - 1)) mod 2 ^ 16\<rparr>) fs"

definition sfs_creat :: "'d d_io \<Rightarrow> vmem \<Rightarrow> nat \<Rightarrow> bytes \<Rightarrow> bool \<Rightarrow> 'd sfs_fs \<Rightarrow> (nat, 'd sfs_fs) kcall" where
  "sfs_creat dio vm v name excl fs =
     try_k (sfs_dir_findname dio v name fs) (\<lambda>(found, _) fs1. case found of
         Some (ino, _) \<Rightarrow>
           if excl then Some (Inl EEXIST, fs1)
           else sfs_loadvnode dio vm ino SFS_TYPE_INVAL fs1
       | None \<Rightarrow>
           try_k (sfs_makeobj dio vm SFS_TYPE_FILE fs1) (\<lambda>newguy fs2. do {
             sv \<leftarrow> sv_mem fs2 newguy;
             (r, fs3) \<leftarrow> sfs_dir_link dio v name (sv_ino sv) fs2;
             case r of
               Inl e \<Rightarrow> do { fs4 \<leftarrow> vnode_decref dio newguy fs3; Some (Inl e, fs4) }
             | Inr _ \<Rightarrow> Some (Inr newguy, link_inc newguy fs3) }))"

definition sfs_link :: "'d d_io \<Rightarrow> nat \<Rightarrow> bytes \<Rightarrow> nat \<Rightarrow> 'd sfs_fs \<Rightarrow> (unit, 'd sfs_fs) kcall" where
  "sfs_link dio dir name file fs = do {
     f \<leftarrow> sv_mem fs file;
     try_k (sfs_dir_link dio dir name (sv_ino f) fs) (\<lambda>_ fs1. Some (Inr (), link_inc file fs1)) }"

definition sfs_remove :: "'d d_io \<Rightarrow> vmem \<Rightarrow> nat \<Rightarrow> bytes \<Rightarrow> 'd sfs_fs \<Rightarrow> (unit, 'd sfs_fs) kcall" where
  "sfs_remove dio vm dir name fs =
     try_k (sfs_lookonce dio vm dir name fs) (\<lambda>(victim, slot) fs1. do {
       (r, fs2) \<leftarrow> sfs_dir_unlink dio dir slot fs1;
       sv \<leftarrow> sv_mem fs2 victim;
       kassert (r = Inr () \<longrightarrow> sfi_linkcount (sv_i sv) > 0);
       fs3 \<leftarrow> vnode_decref dio victim (if r = Inr () then link_dec victim fs2 else fs2);
       Some (r, fs3) })"

text \<open>
  \<open>sfs_rename\<close> from the linking of the new name on, with the file loaded at \<open>g1\<close>; the error path after
  \<open>puke_harder\<close> decrements the link count without marking the inode dirty (it is dirty already).
\<close>

definition sfs_rename_tail :: "'d d_io \<Rightarrow> nat \<Rightarrow> bytes \<Rightarrow> nat \<Rightarrow> nat \<Rightarrow> sfs_vnode \<Rightarrow> 'd sfs_fs \<Rightarrow> (unit, 'd sfs_fs) kcall" where
  "sfs_rename_tail dio d n2 g1 slot1 g fs = do {
     (r, fs2) \<leftarrow> sfs_dir_link dio d n2 (sv_ino g) fs;
     case r of
       Inl e \<Rightarrow> do { fs3 \<leftarrow> vnode_decref dio g1 fs2; Some (Inl e, fs3) }
     | Inr slot2 \<Rightarrow> do {
         (r1, fs3) \<leftarrow> sfs_dir_unlink dio d slot1 (link_inc g1 fs2);
         case r1 of
           Inr _ \<Rightarrow> do {
             g' \<leftarrow> sv_mem fs3 g1;
             kassert (sfi_linkcount (sv_i g') > 0);
             fs4 \<leftarrow> vnode_decref dio g1 (link_dec g1 fs3);
             Some (Inr (), fs4) }
         | Inl e \<Rightarrow> do {
             (r2, fs4) \<leftarrow> sfs_dir_unlink dio d slot2 fs3;
             kassert (r2 = Inr ());
             fs5 \<leftarrow> vnode_decref dio g1 (upd_sv g1 (\<lambda>sv. sv\<lparr>sv_i := (sv_i sv)\<lparr>sfi_linkcount :=
               (sfi_linkcount (sv_i sv) + (2 ^ 16 - 1)) mod 2 ^ 16\<rparr>\<rparr>) fs4);
             Some (Inl e, fs5) } } }"

definition sfs_rename :: "'d d_io \<Rightarrow> vmem \<Rightarrow> nat \<Rightarrow> bytes \<Rightarrow> nat \<Rightarrow> bytes \<Rightarrow> 'd sfs_fs \<Rightarrow> (unit, 'd sfs_fs) kcall" where
  "sfs_rename dio vm d1 n1 d2 n2 fs = do {
     sv \<leftarrow> sv_mem fs d1;
     kassert (d1 = d2);
     kassert (sv_ino sv = SFS_ROOT_LOCATION);
     try_k (sfs_lookonce dio vm d1 n1 fs) (\<lambda>(g1, slot1) fs1. do {
       g \<leftarrow> sv_mem fs1 g1;
       kassert (sfi_type (sv_i g) = SFS_TYPE_FILE);
       sfs_rename_tail dio d1 n2 g1 slot1 g fs1 }) }"

definition sfs_lookparent :: "nat \<Rightarrow> bytes \<Rightarrow> nat \<Rightarrow> 'd sfs_fs \<Rightarrow> (nat \<times> bytes, 'd sfs_fs) kcall" where
  "sfs_lookparent v path buflen fs = do {
     sv \<leftarrow> sv_mem fs v;
     if sfi_type (sv_i sv) \<noteq> SFS_TYPE_DIR then Some (Inl ENOTDIR, fs)
     else if length path + 1 > buflen then Some (Inl ENAMETOOLONG, fs)
     else do {
       fs1 \<leftarrow> vnode_incref v fs;
       Some (Inr (v, path), fs1) } }"

definition sfs_lookup :: "'d d_io \<Rightarrow> vmem \<Rightarrow> nat \<Rightarrow> bytes \<Rightarrow> 'd sfs_fs \<Rightarrow> (nat, 'd sfs_fs) kcall" where
  "sfs_lookup dio vm v path fs = do {
     sv \<leftarrow> sv_mem fs v;
     if sfi_type (sv_i sv) \<noteq> SFS_TYPE_DIR then Some (Inl ENOTDIR, fs)
     else try_k (sfs_lookonce dio vm v path fs) (\<lambda>(final, _) fs1. Some (Inr final, fs1)) }"

definition sfs_getroot :: "'d d_io \<Rightarrow> vmem \<Rightarrow> 'd sfs_fs \<Rightarrow> (nat \<times> 'd sfs_fs) option" where
  "sfs_getroot dio vm fs = do {
     (r, fs1) \<leftarrow> sfs_loadvnode dio vm SFS_ROOT_LOCATION SFS_TYPE_INVAL fs;
     case r of Inl e \<Rightarrow> None | Inr v \<Rightarrow> Some (v, fs1) }"

section \<open>Mounted filesystems\<close>

definition SFS_BITMAPSIZE :: "nat \<Rightarrow> nat" where
  "SFS_BITMAPSIZE nblocks = c_uint (c_uint (nblocks + 4095) div 4096 * 4096)"

definition SFS_BITBLOCKS :: "nat \<Rightarrow> nat" where
  "SFS_BITBLOCKS nblocks = SFS_BITMAPSIZE nblocks div 4096"

text \<open>The loop over the sectors of the free-block map from \<open>j\<close> on.\<close>

function sfs_mapio_loop :: "'d d_io \<Rightarrow> uio_rw \<Rightarrow> nat \<Rightarrow> nat \<Rightarrow> 'd sfs_fs \<Rightarrow> (unit, 'd sfs_fs) kcall" where
  "sfs_mapio_loop dio rw j mapsize fs =
     (if j < mapsize then
        (let bitdata = bitmap_getdata (sfs_freemap fs);
             ptr = take SFS_BLOCKSIZE (drop (j * SFS_BLOCKSIZE) bitdata) in
         try_k (if rw = UIO_READ then
             try_k (sfs_rblock dio ptr (SFS_MAP_LOCATION + j) fs) (\<lambda>bs fs1.
               Some (Inr (), fs1\<lparr>sfs_freemap := (sfs_freemap fs1)\<lparr>b_v :=
                 take (j * SFS_BLOCKSIZE) bitdata @ bs @ drop (j * SFS_BLOCKSIZE + SFS_BLOCKSIZE) bitdata\<rparr>\<rparr>))
           else sfs_wblock dio ptr (SFS_MAP_LOCATION + j) fs)
           (\<lambda>_ fs2. sfs_mapio_loop dio rw (j + 1) mapsize fs2))
      else Some (Inr (), fs))"
  by pat_completeness auto
termination
  by (relation "measure (\<lambda>(dio, rw, j, mapsize, fs). mapsize - j)") auto

declare sfs_mapio_loop.simps [simp del]

definition sfs_mapio :: "'d d_io \<Rightarrow> uio_rw \<Rightarrow> 'd sfs_fs \<Rightarrow> (unit, 'd sfs_fs) kcall" where
  "sfs_mapio dio rw fs = sfs_mapio_loop dio rw 0 (SFS_BITBLOCKS (sp_nblocks (sfs_sb fs))) fs"

text \<open>The loop over the loaded vnodes; the result of \<open>VOP_FSYNC\<close> is ignored.\<close>

fun sfs_sync_vnodes :: "'d d_io \<Rightarrow> int \<Rightarrow> nat \<Rightarrow> 'd sfs_fs \<Rightarrow> 'd sfs_fs option" where
  "sfs_sync_vnodes dio i 0 fs = Some fs"
| "sfs_sync_vnodes dio i (Suc n) fs = do {
     v \<leftarrow> array_getguy (sfs_vnodes fs) i;
     (_, fs1) \<leftarrow> sfs_fsync dio v fs;
     sfs_sync_vnodes dio (i + 1) n fs1 }"

definition sfs_sync :: "'d d_io \<Rightarrow> 'd sfs_fs \<Rightarrow> (unit, 'd sfs_fs) kcall" where
  "sfs_sync dio fs = do {
     fs1 \<leftarrow> sfs_sync_vnodes dio 0 (nat (array_getnum (sfs_vnodes fs))) fs;
     try_k (if sfs_freemapdirty fs1 then
         try_k (sfs_mapio dio UIO_WRITE fs1) (\<lambda>_ fs2. Some (Inr (), fs2\<lparr>sfs_freemapdirty := False\<rparr>))
       else Some (Inr (), fs1)) (\<lambda>_ fs3.
     try_k (if sfs_superdirty fs3 then
         try_k (sfs_wblock dio (encode_super (sfs_sb fs3)) SFS_SB_LOCATION fs3) (\<lambda>_ fs4.
           Some (Inr (), fs4\<lparr>sfs_superdirty := False\<rparr>))
       else Some (Inr (), fs3)) (\<lambda>_ fs5. Some (Inr (), fs5))) }"

definition sfs_getvolname :: "'d sfs_fs \<Rightarrow> bytes" where
  "sfs_getvolname fs = takeWhile (\<lambda>b. b \<noteq> 0) (sp_volname (sfs_sb fs))"

definition sfs_unmount :: "'d sfs_fs \<Rightarrow> (errno + unit) option" where
  "sfs_unmount fs =
     (if array_getnum (sfs_vnodes fs) > 0 then Some (Inl EBUSY)
      else do {
        kassert (\<not> sfs_superdirty fs);
        kassert (\<not> sfs_freemapdirty fs);
        Some (Inr ()) })"

text \<open>
  The flags are the results of the allocations: the \<open>sfs_fs\<close>, its array, and the bitmap's two
  blocks.  A mount that fails leaves no filesystem; the result has the device as the reads have left it.
\<close>

definition sfs_domount :: "'d d_io \<Rightarrow> bool \<Rightarrow> bool \<Rightarrow> bool \<times> bool \<Rightarrow> nat \<Rightarrow> 'd \<Rightarrow> ((errno + 'd sfs_fs) \<times> 'd) option" where
  "sfs_domount dio okfs okarr okbm blocksize d =
     (if blocksize \<noteq> SFS_BLOCKSIZE then Some (Inl ENXIO, d)
      else if \<not> okfs then Some (Inl ENOMEM, d)
      else case array_create okarr of None \<Rightarrow> Some (Inl ENOMEM, d) | Some vs \<Rightarrow> do {
        let fs0 = \<lparr>sfs_sb = decode_super zero_block, sfs_superdirty = False, sfs_device = d, sfs_vnodes = vs,
          sfs_freemap = \<lparr>b_nbits = 0, b_v = []\<rparr>, sfs_freemapdirty = False, sv_mem = (\<lambda>_. None)\<rparr>;
        (r, fs1) \<leftarrow> sfs_rblock dio zero_block SFS_SB_LOCATION fs0;
        case r of Inl e \<Rightarrow> Some (Inl e, sfs_device fs1) | Inr bs \<Rightarrow> do {
        let sb = decode_super bs;
        if sp_magic sb \<noteq> SFS_MAGIC then Some (Inl EINVAL, sfs_device fs1)
        else do {
          let sb1 = sb\<lparr>sp_volname := (sp_volname sb)[SFS_VOLNAME_SIZE - 1 := 0]\<rparr>;
          bm \<leftarrow> bitmap_create (fst okbm) (snd okbm) (SFS_BITMAPSIZE (sp_nblocks sb1));
          case bm of None \<Rightarrow> Some (Inl ENOMEM, sfs_device fs1) | Some bm \<Rightarrow> do {
            (r2, fs2) \<leftarrow> sfs_mapio dio UIO_READ (fs1\<lparr>sfs_sb := sb1, sfs_freemap := bm\<rparr>);
            case r2 of Inl e \<Rightarrow> Some (Inl e, sfs_device fs2)
            | Inr _ \<Rightarrow> Some (Inr (fs2\<lparr>sfs_superdirty := False, sfs_freemapdirty := False\<rparr>), sfs_device fs2) } } } })"

end
