(* ===== verification/Sfs_Props.thy ===== *)
theory Sfs_Props
  imports Sfs_Fileio Sfs_Ops
begin

text \<open>
  The properties of SFS on the disk driver: the lemmas of \<open>Sfs_Fileio\<close> on the block device that
  \<open>lhd_io\<close> makes of a working disk controller, and what happens when the controller reports
  media errors.
\<close>

section \<open>An example volume\<close>

text \<open>A volume of 16 blocks on a disk in memory with one empty file, loaded at address 7, whose inode is in block 3.\<close>

definition ex_inode :: sfs_inode where
  "ex_inode = \<lparr>sfi_size = 0, sfi_type = SFS_TYPE_FILE, sfi_linkcount = 1, sfi_direct = replicate SFS_NDIRECT 0,
     sfi_indirect = 0, sfi_waste = replicate 440 0\<rparr>"

definition ex_fs :: "(nat \<Rightarrow> bytes) lhd_softc sfs_fs" where
  "ex_fs = \<lparr>sfs_sb = \<lparr>sp_magic = SFS_MAGIC, sp_nblocks = 16, sp_volname = replicate 32 0, sp_reserved = replicate 472 0\<rparr>,
     sfs_superdirty = False,
     sfs_device = \<lparr>lh_buf = zero_block, lh_result = Inr (), d_blocks = 64, lh_disk = (\<lambda>_. [])\<rparr>,
     sfs_vnodes = \<lparr>a_num = 1, a_max = 1, a_v = Some [7]\<rparr>,
     sfs_freemap = \<lparr>b_nbits = 16, b_v = [15, 0]\<rparr>, sfs_freemapdirty = True,
     sv_mem = [7 \<mapsto> \<lparr>vn_refcount = 1, vn_opencount = 1, sv_i = ex_inode, sv_ino = 3, sv_dirty = True\<rparr>]\<rparr>"

lemma less_16: "(i :: nat) < 16 \<longleftrightarrow> i \<in> {0, 1, 2, 3, 4, 5, 6, 7, 8, 9, 10, 11, 12, 13, 14, 15}"
  by (simp, arith)

lemma ex_used: "used_blocks ex_fs = {0, 1, 2, 3}"
proof -
  have "i < 16 \<Longrightarrow> bm_bit [15, 0] i \<longleftrightarrow> i < 4" for i
    unfolding less_16 by (elim insertE emptyE) (simp_all add: bm_bit_def bit_numeral_rec)
  then show ?thesis by (auto simp: ex_fs_def bitmap_used_def)
qed

lemma ex_fs_inv: "sfs_inv (lhd_blk ram_sect) (lhd_good 64) 64 ex_fs"
proof -
  have bm: "bitmap_inv (sfs_freemap ex_fs)" by (simp add: ex_fs_def bitmap_inv_def DIVROUNDUP_def c_uint_def)
  have wf: "inode_wf ex_inode" by (simp add: ex_inode_def inode_wf_def)
  have map0: "blkmap B ex_inode = replicate NBLK 0" for B
    by (simp add: blkmap_def indir_def ex_inode_def replicate_add [symmetric])
  have blocks: "inode_blocks B ex_inode = {}" for B
    by (simp add: inode_blocks_def map0) (simp add: ex_inode_def)
  have "inode_ok 16 {0, 1, 2, 3} B ex_inode" for B
    using wf by (simp add: inode_ok_def blocks map0 dist0_def)
  then have "file_ok (lhd_blk ram_sect) ex_fs 7"
    using ex_used by (simp add: file_ok_def sv_ok_def blocks ex_fs_def)
  moreover have "fs_ok (lhd_good 64) 64 ex_fs"
    using bm ex_used by (simp add: fs_ok_def) (simp add: ex_fs_def lhd_good_def)
  moreover have "dom (sv_mem ex_fs) = {7}" by (simp add: ex_fs_def)
  moreover have "vnode_table ex_fs" by (simp add: ex_fs_def vnode_table_def array_inv_def array_list_def)
  ultimately show ?thesis by (simp add: sfs_inv_def)
qed

definition ex_write :: uio where
  "ex_write = mk_kuio [104, 105] 1000 UIO_WRITE"

definition ex_read :: uio where
  "ex_read = mk_kuio [0, 0] 1000 UIO_READ"

lemma ex_requests:
  "uio_rw ex_write = UIO_WRITE" "uio_fits (uio_resid ex_write) ex_write" "uio_safe ex_write"
  "uio_rw ex_read = UIO_READ" "uio_fits (uio_resid ex_read) ex_read" "uio_safe ex_read"
  by (simp_all add: ex_write_def ex_read_def mk_kuio_def uio_fits_def uio_safe_def)

lemma ex_vnode: "7 \<in> dom (sv_mem ex_fs)" "inode_of ex_fs 7 = ex_inode" "sfi_size ex_inode = 0"
  by (simp_all add: ex_fs_def inode_of_def ex_inode_def)

section \<open>Reading and writing files\<close>

text \<open>
  C2: writing a file.  On a sound filesystem over a working disk \<open>sfs_write\<close> never panics.  Some
  prefix of the request, all of it on success, replaces the bytes of the file at the offset, the
  request has advanced by as much, and the file ends at the end of what was written or where it
  ended before.  After an error that prefix is empty or ends at a block boundary.  It fails only when no block of the volume is free or when the request goes past the
  largest file.  The filesystem stays sound (no block has two owners) and every other
  loaded file keeps its inode and its contents.
\<close>

theorem sfs_write_correct:
  assumes hw: "working_disk hw sect n" and inv: "sfs_inv (lhd_blk sect) (lhd_good n) n fs" and v: "v \<in> dom (sv_mem fs)"
    and u: "uio_rw u = UIO_WRITE" "uio_fits (uio_resid u) u" "uio_safe u" and sz: "sfi_size (inode_of fs v) < 2 ^ 31"
  shows "\<exists>r m fs'. m \<le> uio_resid u \<and> sfs_write (lhd_io hw) v (fs, u) = Some (r, fs', uio_moved (take m (iov_buf u)) u) \<and>
    contents (lhd_blk sect) fs' v = put_at (nat (uio_offset u)) (take m (iov_buf u)) (contents (lhd_blk sect) fs v) \<and>
    sfi_size (inode_of fs' v) = max (sfi_size (inode_of fs v)) (nat (uio_offset u) + m) \<and>
    (case r of
        Inr _ \<Rightarrow> m = uio_resid u
      | Inl e \<Rightarrow> (m = 0 \<or> m < uio_resid u \<and> (nat (uio_offset u) + m) mod SFS_BLOCKSIZE = 0) \<and>
          ((e = ENOSPC \<and> used_blocks fs' = {0..<b_nbits (sfs_freemap fs')}) \<or>
           (e = EINVAL \<and> MAXFILE < nat (uio_offset u) + uio_resid u))) \<and>
    sfs_inv (lhd_blk sect) (lhd_good n) n fs' \<and>
    (\<forall>w \<in> dom (sv_mem fs) - {v}. sv_mem fs' w = sv_mem fs w \<and>
       contents (lhd_blk sect) fs' w = contents (lhd_blk sect) fs w)"
proof -
  have ok: "fs_ok (lhd_good n) n fs" "file_ok (lhd_blk sect) fs v" using inv v by (auto simp: sfs_inv_def)
  obtain r m fs' where r: "m \<le> uio_resid u" "sfs_io (lhd_io hw) v (fs, u) = Some (r, fs', uio_moved (take m (iov_buf u)) u)"
      "file_step (lhd_blk sect) (lhd_good n) n v fs fs'"
      "contents (lhd_blk sect) fs' v = put_at (nat (uio_offset u)) (take m (iov_buf u)) (contents (lhd_blk sect) fs v)"
      "sfi_size (inode_of fs' v) = max (sfi_size (inode_of fs v)) (nat (uio_offset u) + m)"
      "case r of Inr _ \<Rightarrow> m = uio_resid u
      | Inl e \<Rightarrow> stop_at u (uio_resid u) m \<and> ((e = ENOSPC \<and> used_blocks fs' = {0..<b_nbits (sfs_freemap fs')}) \<or>
          (e = EINVAL \<and> MAXFILE < nat (uio_offset u) + uio_resid u))"
    using block_device.io_write [OF working_disk.lhd_block_device [OF hw] ok u sz] by blast
  have "\<forall>w \<in> dom (sv_mem fs) - {v}. sv_mem fs' w = sv_mem fs w \<and> contents (lhd_blk sect) fs' w = contents (lhd_blk sect) fs w"
    using file_step_other [OF r(3) inv _ _ v] by blast
  moreover have "sfs_write (lhd_io hw) v (fs, u) = Some (r, fs', uio_moved (take m (iov_buf u)) u)"
    using r(2) u(1) by (simp add: sfs_write_def)
  ultimately show ?thesis using r file_step_inv [OF r(3) inv v] unfolding stop_at_def by blast
qed

theorem sfs_write_correct_witness:
  "\<exists>r m fs'. m \<le> 2 \<and> sfs_write (lhd_io ram_hw) 7 (ex_fs, ex_write) = Some (r, fs', uio_moved (take m [104, 105]) ex_write) \<and>
    sfi_size (inode_of fs' 7) = 1000 + m \<and> sfs_inv (lhd_blk ram_sect) (lhd_good 64) 64 fs'"
proof -
  have e: "uio_resid ex_write = 2" "iov_buf ex_write = [104, 105]" "uio_offset ex_write = 1000"
    by (simp_all add: ex_write_def mk_kuio_def)
  show ?thesis
    using sfs_write_correct [OF ram.working_disk_axioms ex_fs_inv ex_vnode(1) ex_requests(1-3)] ex_vnode
    unfolding e by auto
qed



text \<open>
  C29: what is written is read back.  A write inside the largest file, with enough free blocks on the
  volume for the blocks it touches and their indirect blocks, succeeds; a read of the same range then
  delivers exactly the bytes that were written.
\<close>

theorem sfs_write_read:
  assumes hw: "working_disk hw sect n" and inv: "sfs_inv (lhd_blk sect) (lhd_good n) n fs" and v: "v \<in> dom (sv_mem fs)"
    and u: "uio_rw u = UIO_WRITE" "uio_fits (uio_resid u) u" "uio_safe u" and sz: "sfi_size (inode_of fs v) \<le> MAXFILE"
    and lim: "nat (uio_offset u) + uio_resid u \<le> MAXFILE"
    and room: "2 * (uio_resid u div SFS_BLOCKSIZE + 2) < card ({0..<nblocks fs} - used_blocks fs)"
    and u2: "uio_rw u2 = UIO_READ" "uio_fits (uio_resid u2) u2" "uio_safe u2" "uio_offset u2 = uio_offset u" "uio_resid u2 = uio_resid u"
  shows "\<exists>fs1 u1 fs2. sfs_write (lhd_io hw) v (fs, u) = Some (Inr (), fs1, u1) \<and>
    sfs_read (lhd_io hw) v (fs1, u2) = Some (Inr (), fs2, uio_moved (take (uio_resid u) (iov_buf u)) u2)"
proof -
  have ok: "fs_ok (lhd_good n) n fs" "file_ok (lhd_blk sect) fs v" using inv v by (auto simp: sfs_inv_def)
  have bd: "block_device (lhd_io hw) (lhd_blk sect) (lhd_good n) n" by (rule working_disk.lhd_block_device [OF hw])
  have sz': "sfi_size (inode_of fs v) < 2 ^ 31" using sz by simp
  let ?o = "nat (uio_offset u)" and ?bs = "take (uio_resid u) (iov_buf u)"
  obtain r m fs1 where m: "sfs_io (lhd_io hw) v (fs, u) = Some (r, fs1, uio_moved (take m (iov_buf u)) u)"
      "file_step (lhd_blk sect) (lhd_good n) n v fs fs1" "grew (2 * (uio_resid u div SFS_BLOCKSIZE + 2)) fs fs1"
      "contents (lhd_blk sect) fs1 v = put_at ?o (take m (iov_buf u)) (contents (lhd_blk sect) fs v)"
      "sfi_size (inode_of fs1 v) = max (sfi_size (inode_of fs v)) (?o + m)"
      "case r of Inr _ \<Rightarrow> m = uio_resid u
      | Inl e \<Rightarrow> stop_at u (uio_resid u) m \<and> ((e = ENOSPC \<and> used_blocks fs1 = {0..<b_nbits (sfs_freemap fs1)}) \<or>
          (e = EINVAL \<and> MAXFILE < nat (uio_offset u) + uio_resid u))"
    using block_device.io_write [OF bd ok u sz'] by blast
  have "nblocks fs \<le> b_nbits (sfs_freemap fs1)" using m(2) unfolding file_step_def fs_ok_def by metis
  have free: "used_blocks fs1 \<noteq> {0..<b_nbits (sfs_freemap fs1)}"
  proof
    assume "used_blocks fs1 = {0..<b_nbits (sfs_freemap fs1)}"
    then have "{0..<nblocks fs} \<subseteq> used_blocks fs1" using \<open>nblocks fs \<le> b_nbits (sfs_freemap fs1)\<close> by simp
    then have "{0..<nblocks fs} - used_blocks fs \<subseteq> used_blocks fs1 - used_blocks fs" by blast
    then have "card ({0..<nblocks fs} - used_blocks fs) \<le> card (used_blocks fs1 - used_blocks fs)"
      by (intro card_mono) simp_all
    then show False using m(3) room unfolding grew_def by linarith
  qed
  have r: "r = Inr ()" "m = uio_resid u" using m(6) lim free by (cases r; simp)+
  have size: "?o + uio_resid u \<le> sfi_size (inode_of fs1 v)" "sfi_size (inode_of fs1 v) \<le> MAXFILE"
    using m(5) r(2) lim sz by auto
  have len: "length (contents (lhd_blk sect) fs v) = MAXFILE" "length ?bs = uio_resid u"
    using block_device.contents_length [OF bd ok] u(2) by (simp_all add: uio_fits_def)
  have "take (uio_resid u) (drop ?o (take (sfi_size (inode_of fs1 v)) (contents (lhd_blk sect) fs1 v))) = ?bs"
    using put_at_slice [of ?o ?bs "contents (lhd_blk sect) fs v" "sfi_size (inode_of fs1 v)"] lim size(1) len m(4) r(2) by simp
  then show ?thesis
    using block_device.io_read [OF bd file_stepD [OF m(2)] u2(1-3) size(2)] u2 m(1) r u(1)
    by (auto simp: sfs_read_def sfs_write_def)
qed

theorem sfs_write_read_witness:
  "\<exists>fs1 u1 fs2. sfs_write (lhd_io ram_hw) 7 (ex_fs, ex_write) = Some (Inr (), fs1, u1) \<and>
    sfs_read (lhd_io ram_hw) 7 (fs1, ex_read) = Some (Inr (), fs2, uio_moved [104, 105] ex_read)"
proof -
  have e: "uio_resid ex_write = 2" "iov_buf ex_write = [104, 105]" "uio_offset ex_write = 1000"
      "uio_resid ex_read = 2" "uio_offset ex_read = 1000"
    by (simp_all add: ex_write_def ex_read_def mk_kuio_def)
  have "{0..<nblocks ex_fs} - used_blocks ex_fs = {4..<16}" unfolding ex_used by (auto simp: ex_fs_def)
  then show ?thesis
    using sfs_write_read [OF ram.working_disk_axioms ex_fs_inv ex_vnode(1) ex_requests(1-3) _ _ _ ex_requests(4-6)] ex_vnode
    by (simp add: e)
qed

section \<open>Media errors\<close>

lemma lhd_media_read:
  assumes "lhd_good n lh" and "b < n" and "n < 2 ^ 22" and u: "uio_rw u = UIO_READ" "uio_offset u = int b * 512" "uio_resid u = 512"
    and hw: "hw False b (lh_buf lh) (lh_disk lh) = ([LHD_MEDIA], buf, h)" "length buf = 512"
  shows "\<exists>lh'. lhd_io hw u lh = Some (Inl EIO, u, lh') \<and> lhd_good n lh' \<and> lh_disk lh' = h"
  using assms lhd_io_one [of b lh u hw]
  by (simp add: lhd_good_def lhd_sector_def lhd_op_def lhd_irq_def lhd_iodone_def lhd_code_to_errno_def)

lemma lhd_ok_read:
  assumes "lhd_good n lh" and "b < n" and "n < 2 ^ 22" and u: "uio_rw u = UIO_READ" "uio_offset u = int b * 512" "uio_resid u = 512"
      "512 \<le> length (iov_buf u)" "uio_safe u"
    and hw: "hw False b (lh_buf lh) (lh_disk lh) = ([LHD_OK], data, h)" "length data = 512"
  shows "\<exists>lh'. lhd_io hw u lh = Some (Inr (), uio_moved data u, lh') \<and> lhd_good n lh' \<and> lh_disk lh' = h"
  using assms lhd_io_one [of b lh u hw] one_block_fits [of b n u]
  by (simp add: lhd_good_def lhd_sector_def lhd_op_def lhd_irq_def lhd_iodone_def lhd_code_to_errno_def lhd_move_fits Let_def)

text \<open>The controller fails \<open>k\<close> times on sector \<open>b\<close> and then reads \<open>data\<close>; \<open>hs\<close> are its states.\<close>

definition flaky_read :: "'h lhd_hw \<Rightarrow> nat \<Rightarrow> (nat \<Rightarrow> 'h) \<Rightarrow> nat \<Rightarrow> bytes \<Rightarrow> bool" where
  "flaky_read hw b hs k data \<longleftrightarrow> length data = 512 \<and> (\<forall>buf. length buf = 512 \<longrightarrow>
     (\<forall>i < k. \<exists>buf'. hw False b buf (hs i) = ([LHD_MEDIA], buf', hs (Suc i)) \<and> length buf' = 512) \<and>
     hw False b buf (hs k) = ([LHD_OK], data, hs (Suc k)))"

lemma retry_flaky:
  assumes fl: "flaky_read hw b hs k data" and u: "uio_rw u = UIO_READ" "uio_offset u = int b * 512" "uio_resid u = 512"
      "512 \<le> length (iov_buf u)" "uio_safe u" and b: "b < n" "n < 2 ^ 22"
  shows "lhd_good n lh \<Longrightarrow> lh_disk lh = hs i \<Longrightarrow> i \<le> k \<Longrightarrow> i \<le> 10 \<Longrightarrow>
    \<exists>lh'. sfs_rw_retry (lhd_io hw) i u lh =
      Some (if k \<le> 10 then (Inr (), uio_moved data u, lh') else (Inl EIO, u, lh')) \<and>
      lh_disk lh' = hs (Suc (min k 10))"
proof (induction "10 - i" arbitrary: i lh rule: less_induct)
  case less
  have len: "length (lh_buf lh) = 512" using less.prems(1) by (simp add: lhd_good_def)
  show ?case
  proof (cases "i < k")
    case True
    then obtain buf where "hw False b (lh_buf lh) (hs i) = ([LHD_MEDIA], buf, hs (Suc i))" "length buf = 512"
      using fl len unfolding flaky_read_def by blast
    then obtain lh1 where lh1: "lhd_io hw u lh = Some (Inl EIO, u, lh1)" "lhd_good n lh1" "lh_disk lh1 = hs (Suc i)"
      using lhd_media_read [OF less.prems(1) b u(1-3), of hw buf "hs (Suc i)"] less.prems(2) by auto
    show ?thesis
    proof (cases "i < 10")
      case small: True
      then show ?thesis
        using less.hyps [of "i + 1" lh1] True lh1 by (simp add: sfs_rw_retry.simps [of _ i])
    next
      case False
      then have "i = 10" using less.prems by simp
      then show ?thesis using lh1 True by (simp add: sfs_rw_retry.simps [of _ 10])
    qed
  next
    case False
    then have i: "i = k" using less.prems by simp
    then have "hw False b (lh_buf lh) (lh_disk lh) = ([LHD_OK], data, hs (Suc k))" "length data = 512"
      using fl len less.prems(2) unfolding flaky_read_def by auto
    then obtain lh1 where "lhd_io hw u lh = Some (Inr (), uio_moved data u, lh1)" "lh_disk lh1 = hs (Suc k)"
      using lhd_ok_read [OF less.prems(1) b u, of hw data "hs (Suc k)"] by auto
    then show ?thesis using i less.prems by (simp add: sfs_rw_retry.simps [of _ k])
  qed
qed

text \<open>
  media errors when reading.  When the controller reports a media error \<open>k\<close> times for a block
  before it reads it, \<open>sfs_rblock\<close> tries again after each of the first ten errors: up to ten errors the
  caller sees the contents of the block and no error, with more it sees \<open>EIO\<close>.
\<close>

theorem sfs_rblock_retries:
  assumes fl: "flaky_read hw b hs k data" and "lhd_good n (sfs_device fs)" and "lh_disk (sfs_device fs) = hs 0"
    and b: "b < n" "n < 2 ^ 22" and len: "length old = 512"
  shows "\<exists>fs'. sfs_rblock (lhd_io hw) old b fs = Some (if k \<le> 10 then Inr data else Inl EIO, fs') \<and>
    lh_disk (sfs_device fs') = hs (Suc (min k 10))"
proof -
  let ?u = "mk_kuio old (int b * 512) UIO_READ"
  have off: "c_int (int b * 512) = int b * 512" using b by (intro c_int_id) simp_all
  have u: "uio_rw ?u = UIO_READ" "uio_offset ?u = int b * 512" "uio_resid ?u = 512" "512 \<le> length (iov_buf ?u)" "uio_safe ?u"
    using len by (simp_all add: mk_kuio_def uio_safe_def)
  obtain lh' where lh': "sfs_rw_retry (lhd_io hw) 0 ?u (sfs_device fs) =
      Some (if k \<le> 10 then (Inr (), uio_moved data ?u, lh') else (Inl EIO, ?u, lh'))" "lh_disk lh' = hs (Suc (min k 10))"
    using retry_flaky [OF fl u b, of "sfs_device fs" 0] assms(2,3) by auto
  moreover have "length data = 512" using fl by (simp add: flaky_read_def)
  moreover have "iov_buf ?u = old" "uio_done ?u = []" by (simp_all add: mk_kuio_def)
  ultimately show ?thesis
    using len off by (cases "k \<le> 10") (simp_all add: sfs_rblock_def sfs_rwblock_def)
qed

text \<open>A controller whose first two operations fail.\<close>

definition ex_flaky :: "nat lhd_hw" where
  "ex_flaky iswrite s buf h = (if h < 2 then [if iswrite then LHD_MEDIA OR LHD_ISWRITE else LHD_MEDIA] else [LHD_OK],
     if iswrite \<or> h < 2 then buf else replicate 512 9, Suc h)"

definition ex_flaky_fs :: "nat lhd_softc sfs_fs" where
  "ex_flaky_fs = \<lparr>sfs_sb = sfs_sb ex_fs, sfs_superdirty = False,
     sfs_device = \<lparr>lh_buf = zero_block, lh_result = Inr (), d_blocks = 64, lh_disk = 0\<rparr>,
     sfs_vnodes = sfs_vnodes ex_fs, sfs_freemap = sfs_freemap ex_fs, sfs_freemapdirty = True, sv_mem = Map.empty\<rparr>"

lemma ex_flaky_facts: "flaky_read ex_flaky 3 id 2 (replicate 512 9)" "lhd_good 64 (sfs_device ex_flaky_fs)"
    "lh_disk (sfs_device ex_flaky_fs) = 0"
  by (simp_all add: flaky_read_def ex_flaky_def ex_flaky_fs_def lhd_good_def)

theorem sfs_rblock_retries_witness:
  "\<exists>fs'. sfs_rblock (lhd_io ex_flaky) zero_block 3 ex_flaky_fs = Some (Inr (replicate 512 9), fs') \<and> lh_disk (sfs_device fs') = 3"
  using sfs_rblock_retries [OF ex_flaky_facts(1,2), of zero_block] ex_flaky_facts(3) by simp

text \<open>
  C38: media errors when writing.  When the controller reports a media error for the write of a block,
  \<open>sfs_wblock\<close> reports success although this failed operation is the only one the disk has seen:
  the driver has already consumed the request when the error arrives, so that the second attempt has
  nothing left to transfer and succeeds without touching the disk.
\<close>

theorem sfs_wblock_media_error_lost:
  assumes "lhd_good n (sfs_device fs)" and b: "b < n" "n < 2 ^ 22" and len: "length data = 512"
    and hw: "hw True b data (lh_disk (sfs_device fs)) = ([LHD_MEDIA OR LHD_ISWRITE], buf, h)"
  shows "\<exists>fs'. sfs_wblock (lhd_io hw) data b fs = Some (Inr (), fs') \<and> lh_disk (sfs_device fs') = h"
proof -
  let ?u = "mk_kuio data (int b * 512) UIO_WRITE" and ?lh = "sfs_device fs"
  let ?u1 = "uio_moved data ?u" and ?lh1 = "?lh\<lparr>lh_buf := buf, lh_disk := h, lh_result := Inl EIO\<rparr>"
  have lh: "length (lh_buf ?lh) = 512" "d_blocks ?lh = n" using assms(1) by (simp_all add: lhd_good_def)
  have off: "c_int (int b * 512) = int b * 512" using b by (intro c_int_id) simp_all
  have u: "uio_rw ?u = UIO_WRITE" "uio_offset ?u = int b * 512" "uio_resid ?u = 512" "iov_buf ?u = data" "uio_safe ?u"
    using len by (simp_all add: mk_kuio_def uio_safe_def)
  have fits: "uio_fits 512 ?u" using one_block_fits [OF b u(2,3)] len u(4) by simp
  have "lhd_move ?u ?lh = Some (Inr (), ?u1, ?lh\<lparr>lh_buf := data\<rparr>)"
    using lhd_move_fits [OF lh(1) fits u(5)] u len by (simp add: Let_def)
  moreover have "lhd_op hw True b (?lh\<lparr>lh_buf := data\<rparr>) = Some ?lh1"
    using hw by (simp add: lhd_op_def lhd_irq_def lhd_iodone_def lhd_code_to_errno_def)
  ultimately have first: "lhd_io hw ?u ?lh = Some (Inl EIO, ?u1, ?lh1)"
    using lhd_io_one [of b ?lh ?u hw] b lh u by (simp add: lhd_sector_def)
  have off1: "uio_offset ?u1 = int (b + 1) * 512" "uio_resid ?u1 = 0" using u len by simp_all
  have "off_blk (uio_offset ?u1) = b + 1" "off_rem (uio_offset ?u1) = 0"
    unfolding off1 using b by (simp_all del: of_nat_add of_nat_Suc)
  moreover have "c_uint (b + 1) = b + 1" using b by (intro c_uint_id) simp
  ultimately have second: "lhd_io hw ?u1 ?lh1 = Some (Inr (), ?u1, ?lh1)"
    using off1 b lh by (simp add: lhd_io_def Let_def)
  have "sfs_rw_retry (lhd_io hw) 0 ?u ?lh = Some (Inr (), ?u1, ?lh1)"
    using first second by (simp add: sfs_rw_retry.simps [of _ 0] sfs_rw_retry.simps [of _ "Suc 0"])
  then show ?thesis by (simp add: sfs_wblock_def sfs_rwblock_def off)
qed

theorem sfs_wblock_media_error_lost_witness:
  "\<exists>fs'. sfs_wblock (lhd_io ex_flaky) (replicate 512 9) 3 ex_flaky_fs = Some (Inr (), fs') \<and> lh_disk (sfs_device fs') = 1"
  using sfs_wblock_media_error_lost [OF ex_flaky_facts(2), of 3 "replicate 512 9" ex_flaky "replicate 512 9" 1] ex_flaky_facts(3)
  by (simp add: ex_flaky_def)

section \<open>Writing past the largest file\<close>

lemma io_body_too_far:
  assumes u: "uio_rw u = UIO_WRITE" "int MAXFILE \<le> uio_offset u" "uio_offset u < 2 ^ 31" "0 < uio_resid u"
  shows "sfs_io_body dio v (fs, u) = Some (Inl EINVAL, fs, u)"
proof -
  have k: "NBLK \<le> off_blk (uio_offset u)" using u(2,3) by (simp add: off_blk_nonneg nat_le_iff)
  have rem: "off_rem (uio_offset u) < 512" using u(2) by (simp add: off_rem_nonneg nat_less_iff)
  have part: "sfs_partialio dio v skip len (fs, u) = Some (Inl EINVAL, fs, u)" if "skip + len \<le> 512" for skip len
    using that u(1) by (simp add: sfs_partialio_def Let_def bmap_too_far [OF k])
  have block: "sfs_blockio dio v (fs, u) = Some (Inl EINVAL, fs, u)"
    using u(1) by (simp add: sfs_blockio_def Let_def bmap_too_far [OF k])
  show ?thesis
  proof (cases "off_rem (uio_offset u) = 0")
    case False
    then show ?thesis using part [of "off_rem (uio_offset u)" "min (512 - off_rem (uio_offset u)) (uio_resid u)"] rem
      by (simp add: sfs_io_body_def Let_def)
  next
    case True
    show ?thesis
    proof (cases "uio_resid u div SFS_BLOCKSIZE")
      case 0
      then have "uio_resid u < SFS_BLOCKSIZE" by (simp add: div_eq_0_iff)
      then show ?thesis using True 0 u(4) part [of 0 "uio_resid u"] by (simp add: sfs_io_body_def Let_def)
    next
      case (Suc m)
      then show ?thesis using True u(4) block by (simp add: sfs_io_body_def Let_def)
    qed
  qed
qed

text \<open>
  A write that starts at or past the size of the largest file (73216 bytes) fails with \<open>EINVAL\<close> and
  transfers nothing, and yet it makes the file as long as its offset: the error path of
  \<open>sfs_io\<close> runs the code that extends the file.
\<close>

theorem sfs_write_past_limit_grows:
  assumes u: "uio_rw u = UIO_WRITE" "int MAXFILE \<le> uio_offset u" "uio_offset u < 2 ^ 31" "0 < uio_resid u" "uio_resid u < 2 ^ 32"
    and sv: "sv_mem fs v = Some sv" and sz: "sfi_size (sv_i sv) \<le> MAXFILE" "int (sfi_size (sv_i sv)) < uio_offset u"
  shows "\<exists>fs'. sfs_write dio v (fs, u) = Some (Inl EINVAL, fs', u) \<and> sfi_size (inode_of fs' v) = nat (uio_offset u)"
proof -
  have ci: "c_int (int (sfi_size (sv_i sv))) = int (sfi_size (sv_i sv))" using sz by (intro c_int_id) simp_all
  have md: "nat (uio_offset u mod 2 ^ 32) = nat (uio_offset u)" using u(2,3) by (simp add: mod_pos_pos_trivial)
  have "u\<lparr>uio_resid := c_uint (uio_resid u)\<rparr> = u" using u(5) by (simp add: c_uint_id)
  then have "sfs_write dio v (fs, u) =
      Some (Inl EINVAL, upd_inode v (\<lambda>i. i\<lparr>sfi_size := nat (uio_offset u)\<rparr>) fs, u)"
    using io_body_too_far [OF u(1-4), of dio v fs] u(1) sv sz(2) md
    by (simp add: sfs_write_def sfs_io_def Let_def ci)
  then show ?thesis using sv by (simp add: inode_of_def)
qed

theorem sfs_write_past_limit_grows_witness:
  "\<exists>fs'. sfs_write (lhd_io ram_hw) 7 (ex_fs, mk_kuio [1] 80000 UIO_WRITE) = Some (Inl EINVAL, fs', mk_kuio [1] 80000 UIO_WRITE) \<and>
    sfi_size (inode_of fs' 7) = 80000"
  using sfs_write_past_limit_grows [of "mk_kuio [1] 80000 UIO_WRITE" ex_fs 7 _ "lhd_io ram_hw"]
  by (simp add: mk_kuio_def ex_fs_def ex_inode_def)

end
