(* ===== verification/Sfs_Dir.thy ===== *)
theory Sfs_Dir
  imports Sfs_Fileio
begin

text \<open>
  Directories as maps from names to inode numbers.  The bytes of a directory are a list of entries of 64
  bytes, the entries in use give the map, and the lemmas of the locale \<open>block_device\<close> say which
  operation on the map \<open>sfs_dir_findname\<close>, \<open>sfs_dir_link\<close> and \<open>sfs_dir_unlink\<close> are.
\<close>

section \<open>Entries\<close>

definition entries :: "nat \<Rightarrow> bytes \<Rightarrow> sfs_dir list" where
  "entries k bs = map (\<lambda>i. decode_dir (take DIRSZ (drop (DIRSZ * i) bs))) [0..<k]"

definition dir_entries :: "('d \<Rightarrow> nat \<Rightarrow> bytes) \<Rightarrow> 'd sfs_fs \<Rightarrow> nat \<Rightarrow> sfs_dir list" where
  "dir_entries blk fs v = entries (sfi_size (inode_of fs v) div DIRSZ) (contents blk fs v)"

lemma entries_length [simp]: "length (entries k bs) = k"
  by (simp add: entries_def)

lemma entries_nth: "i < k \<Longrightarrow> entries k bs ! i = decode_dir (take DIRSZ (drop (DIRSZ * i) bs))"
  by (simp add: entries_def)

text \<open>A write elsewhere does not touch a slice.\<close>

lemma put_at_other:
  assumes "off + length bs \<le> length xs" and "a + c \<le> off \<or> off + length bs \<le> a"
  shows "take c (drop a (put_at off bs xs)) = take c (drop a xs)"
proof (rule nth_equalityI)
  show l: "length (take c (drop a (put_at off bs xs))) = length (take c (drop a xs))" using assms(1) by (simp add: put_at_length)
  fix i assume "i < length (take c (drop a (put_at off bs xs)))"
  then have i: "i < c" "a + i < length xs" using assms(1) by (auto simp: put_at_length)
  have "a + i < off \<or> off + length bs \<le> a + i" using assms(2) i(1) by linarith
  then have "put_at off bs xs ! (a + i) = xs ! (a + i)" using put_at_nth [OF assms(1)] by auto
  then show "take c (drop a (put_at off bs xs)) ! i = take c (drop a xs) ! i"
    using i assms(1) by (simp add: put_at_length)
qed

lemma entries_update:
  assumes "dir_wf sd" and "DIRSZ * slot + DIRSZ \<le> length bs" and "slot \<le> k"
  shows "entries (max k (Suc slot)) (put_at (DIRSZ * slot) (encode_dir sd) bs) =
    (if slot < k then (entries k bs)[slot := sd] else entries k bs @ [sd])"
proof (rule nth_equalityI)
  let ?es = "entries (max k (Suc slot)) (put_at (DIRSZ * slot) (encode_dir sd) bs)"
  let ?rs = "if slot < k then (entries k bs)[slot := sd] else entries k bs @ [sd]"
  have len: "length (encode_dir sd) = DIRSZ" using encode_length(3) [OF assms(1)] .
  show l: "length ?es = length ?rs" using assms(3) by auto
  fix i assume "i < length ?es"
  then have i: "i < max k (Suc slot)" by simp
  show "?es ! i = ?rs ! i"
  proof (cases "i = slot")
    case True
    have "take DIRSZ (drop (DIRSZ * slot) (put_at (DIRSZ * slot) (encode_dir sd) bs)) = encode_dir sd"
      using assms(2) len by (simp add: put_at_def)
    then show ?thesis using True i decode_encode_dir [OF assms(1)] assms(3) by (auto simp: entries_nth nth_append)
  next
    case False
    then have "DIRSZ * i + DIRSZ \<le> DIRSZ * slot \<or> DIRSZ * slot + DIRSZ \<le> DIRSZ * i" by linarith
    then have "take DIRSZ (drop (DIRSZ * i) (put_at (DIRSZ * slot) (encode_dir sd) bs)) = take DIRSZ (drop (DIRSZ * i) bs)"
      using put_at_other [of "DIRSZ * slot" "encode_dir sd" bs "DIRSZ * i" DIRSZ] assms(2) len by simp
    moreover have "i < k" using False i assms(3) by linarith
    ultimately show ?thesis using False i by (auto simp: entries_nth nth_append)
  qed
qed

section \<open>The map of a directory\<close>

text \<open>The entry at slot \<open>k\<close> is in use for the name.\<close>

definition slot_has :: "sfs_dir list \<Rightarrow> bytes \<Rightarrow> nat \<Rightarrow> bool" where
  "slot_has es name k \<longleftrightarrow> sfd_ino (es ! k) \<noteq> SFS_NOINO \<and> dir_name (es ! k) = name"

definition dir_find :: "sfs_dir list \<Rightarrow> bytes \<Rightarrow> nat option" where
  "dir_find es name = List.find (slot_has es name) [0..<length es]"

definition dir_map :: "sfs_dir list \<Rightarrow> bytes \<Rightarrow> nat option" where
  "dir_map es name = map_option (\<lambda>k. sfd_ino (es ! k)) (dir_find es name)"

text \<open>No name is in use twice.\<close>

definition dir_unique :: "sfs_dir list \<Rightarrow> bool" where
  "dir_unique es \<longleftrightarrow> (\<forall>i < length es. \<forall>j < length es. \<forall>name. slot_has es name i \<longrightarrow> slot_has es name j \<longrightarrow> i = j)"

lemma find_upt_Suc: "List.find P [0..<Suc i] = (case List.find P [0..<i] of None \<Rightarrow> if P i then Some i else None | Some k \<Rightarrow> Some k)"
proof -
  have "List.find P (xs @ [x]) = (case List.find P xs of None \<Rightarrow> if P x then Some x else None | Some k \<Rightarrow> Some k)" for xs and x :: nat
    by (induction xs) simp_all
  then show ?thesis by simp
qed

lemma find_None: "List.find P [0..<n] = None \<longleftrightarrow> (\<forall>k < n. \<not> P k)"
  by (auto simp: find_None_iff)

lemma find_Some: "List.find P [0..<n] = Some k \<Longrightarrow> k < n \<and> P k"
  by (auto simp: find_Some_iff)

lemma dir_find_eq:
  assumes "dir_unique es"
  shows "dir_find es name = Some k \<longleftrightarrow> k < length es \<and> slot_has es name k"
proof
  assume k: "k < length es \<and> slot_has es name k"
  then obtain j where j: "dir_find es name = Some j" using find_None [of "slot_has es name" "length es"]
    by (cases "dir_find es name") (auto simp: dir_find_def)
  then have "j < length es" "slot_has es name j" using find_Some [of "slot_has es name"] by (auto simp: dir_find_def)
  then show "dir_find es name = Some k" using assms k j unfolding dir_unique_def by metis
qed (use find_Some [of "slot_has es name" "length es" k] in \<open>simp add: dir_find_def\<close>)

lemma dir_find_cong:
  assumes "dir_unique es" and "dir_unique es'" and "\<And>k. k < length es' \<and> slot_has es' nm k \<longleftrightarrow> k < length es \<and> slot_has es nm k"
  shows "dir_find es' nm = dir_find es nm"
  using dir_find_eq [OF assms(1), of nm] dir_find_eq [OF assms(2), of nm] assms(3) by (metis option.exhaust)

lemma dir_map_eq:
  assumes "dir_unique es"
  shows "dir_map es name = Some ino \<longleftrightarrow> (\<exists>k < length es. slot_has es name k \<and> ino = sfd_ino (es ! k))"
  using dir_find_eq [OF assms, of name] by (auto simp: dir_map_def)

lemma dir_map_None: "dir_map es name = None \<longleftrightarrow> (\<forall>k < length es. \<not> slot_has es name k)"
  using find_None [of "slot_has es name" "length es"] by (simp add: dir_map_def dir_find_def)

lemma dir_mapI: "(\<And>name ino. f name = Some ino \<longleftrightarrow> dir_map es name = Some ino) \<Longrightarrow> dir_map es = f"
  by (rule ext, metis option.exhaust)

text \<open>A name in a buffer.\<close>

definition name_ok :: "bytes \<Rightarrow> bool" where
  "name_ok name \<longleftrightarrow> 0 \<notin> set name"

lemma new_entry_name:
  assumes "name_ok name" and "length name < SFS_NAMELEN"
  shows "dir_name (new_entry ino name) = name" and "ino < 2 ^ 32 \<Longrightarrow> dir_wf (new_entry ino name)"
proof -
  let ?buf = "name @ replicate (SFS_NAMELEN - length name) (0 :: 8 word)"
  have "?buf[SFS_NAMELEN - 1 := 0] = ?buf"
    using assms(2) by (subst list_update_same_conv) (simp_all add: nth_append)
  moreover have "takeWhile (\<lambda>b. b \<noteq> 0) ?buf = name"
  proof -
    have "takeWhile (\<lambda>b. b \<noteq> 0) ?buf = name @ takeWhile (\<lambda>b. b \<noteq> 0) (replicate (SFS_NAMELEN - length name) 0)"
      using assms(1) by (intro takeWhile_append2) (auto simp: name_ok_def)
    then show ?thesis by simp
  qed
  ultimately show "dir_name (new_entry ino name) = name" by (simp add: dir_name_def new_entry_def)
  show "ino < 2 ^ 32 \<Longrightarrow> dir_wf (new_entry ino name)" using assms(2) by (simp add: dir_wf_def new_entry_def)
qed

text \<open>Putting a new name into a free slot or at the end adds it to the map; clearing a slot takes its name out.\<close>

lemma dir_map_append:
  assumes u: "dir_unique es" and n: "dir_map es (dir_name sd) = None" and i: "sfd_ino sd \<noteq> 0"
  shows "dir_unique (es @ [sd])" and "dir_map (es @ [sd]) = (dir_map es)(dir_name sd \<mapsto> sfd_ino sd)"
proof -
  have has: "slot_has (es @ [sd]) name k \<longleftrightarrow> (if k < length es then slot_has es name k else name = dir_name sd)"
    if "k < Suc (length es)" for name k
    using that i by (auto simp: slot_has_def nth_append)
  have no: "\<not> slot_has es (dir_name sd) k" if "k < length es" for k using n that by (simp add: dir_map_None)
  show u': "dir_unique (es @ [sd])" unfolding dir_unique_def
  proof (intro allI impI)
    fix i j name assume "i < length (es @ [sd])" "j < length (es @ [sd])" "slot_has (es @ [sd]) name i" "slot_has (es @ [sd]) name j"
    then show "i = j" using u no unfolding dir_unique_def by (auto simp: has less_Suc_eq)
  qed
  show "dir_map (es @ [sd]) = (dir_map es)(dir_name sd \<mapsto> sfd_ino sd)"
  proof (rule dir_mapI)
    fix name ino
    show "((dir_map es)(dir_name sd \<mapsto> sfd_ino sd)) name = Some ino \<longleftrightarrow> dir_map (es @ [sd]) name = Some ino"
      using no by (auto simp: dir_map_eq [OF u] dir_map_eq [OF u'] has less_Suc_eq nth_append)
  qed
qed

lemma slot_has_update:
  assumes "k < length es" and "j < length es"
  shows "slot_has (es[k := sd]) name j \<longleftrightarrow> (if j = k then sfd_ino sd \<noteq> 0 \<and> dir_name sd = name else slot_has es name j)"
  using assms by (simp add: slot_has_def)

lemma dir_map_update:
  assumes "k < length es" and "dir_unique (es[k := sd])"
  shows "dir_map (es[k := sd]) name = Some ino \<longleftrightarrow> (sfd_ino sd \<noteq> 0 \<and> dir_name sd = name \<and> ino = sfd_ino sd) \<or>
    (\<exists>j < length es. j \<noteq> k \<and> slot_has es name j \<and> ino = sfd_ino (es ! j))"
proof -
  have split: "(\<exists>j < n. P j) \<longleftrightarrow> P k \<or> (\<exists>j < n. j \<noteq> k \<and> P j)" if "k < n" for P n using that by blast
  have "dir_map (es[k := sd]) name = Some ino \<longleftrightarrow> (\<exists>j < length es. slot_has (es[k := sd]) name j \<and> ino = sfd_ino (es[k := sd] ! j))"
    unfolding dir_map_eq [OF assms(2)] by simp
  also have "\<dots> \<longleftrightarrow> (slot_has (es[k := sd]) name k \<and> ino = sfd_ino (es[k := sd] ! k)) \<or>
      (\<exists>j < length es. j \<noteq> k \<and> slot_has (es[k := sd]) name j \<and> ino = sfd_ino (es[k := sd] ! j))"
    by (rule split [OF assms(1)])
  also have "\<dots> \<longleftrightarrow> (sfd_ino sd \<noteq> 0 \<and> dir_name sd = name \<and> ino = sfd_ino sd) \<or>
      (\<exists>j < length es. j \<noteq> k \<and> slot_has es name j \<and> ino = sfd_ino (es ! j))"
    using assms(1) by (auto simp: slot_has_def)
  finally show ?thesis .
qed

lemma dir_map_fill:
  assumes u: "dir_unique es" and n: "dir_map es (dir_name sd) = None" and i: "sfd_ino sd \<noteq> 0" and k: "k < length es" "sfd_ino (es ! k) = 0"
  shows "dir_unique (es[k := sd])" and "dir_map (es[k := sd]) = (dir_map es)(dir_name sd \<mapsto> sfd_ino sd)"
proof -
  note has = slot_has_update [OF k(1)]
  have no: "\<not> slot_has es (dir_name sd) j" if "j < length es" for j using n that by (simp add: dir_map_None)
  have nk: "\<not> slot_has es name k" for name using k(2) by (simp add: slot_has_def)
  show u': "dir_unique (es[k := sd])" unfolding dir_unique_def
  proof (intro allI impI)
    fix i j name assume "i < length (es[k := sd])" "j < length (es[k := sd])" "slot_has (es[k := sd]) name i" "slot_has (es[k := sd]) name j"
    then show "i = j" using u no unfolding dir_unique_def by (auto simp: has split: if_splits)
  qed
  show "dir_map (es[k := sd]) = (dir_map es)(dir_name sd \<mapsto> sfd_ino sd)"
  proof (rule dir_mapI)
    fix name ino
    have "(\<exists>j < length es. j \<noteq> k \<and> slot_has es name j \<and> ino = sfd_ino (es ! j)) \<longleftrightarrow> dir_map es name = Some ino"
      unfolding dir_map_eq [OF u] using nk by blast
    then show "((dir_map es)(dir_name sd \<mapsto> sfd_ino sd)) name = Some ino \<longleftrightarrow> dir_map (es[k := sd]) name = Some ino"
      using n i by (auto simp: dir_map_update [OF k(1) u'])
  qed
qed

lemma dir_map_clear:
  assumes u: "dir_unique es" and k: "k < length es" "slot_has es name k" and i: "sfd_ino sd = 0"
  shows "dir_unique (es[k := sd])" and "dir_map (es[k := sd]) = (dir_map es)(name := None)"
proof -
  note has = slot_has_update [OF k(1)]
  show u': "dir_unique (es[k := sd])" unfolding dir_unique_def
  proof (intro allI impI)
    fix i j name' assume "i < length (es[k := sd])" "j < length (es[k := sd])" "slot_has (es[k := sd]) name' i" "slot_has (es[k := sd]) name' j"
    then show "i = j" using u i unfolding dir_unique_def by (auto simp: has split: if_splits)
  qed
  show "dir_map (es[k := sd]) = (dir_map es)(name := None)"
  proof (rule dir_mapI)
    fix name' ino
    have only: "slot_has es name j \<Longrightarrow> j < length es \<Longrightarrow> j = k" for j using u k unfolding dir_unique_def by blast
    have self: "slot_has es name' k \<Longrightarrow> name' = name" using k(2) by (simp add: slot_has_def)
    have "(\<exists>j < length es. j \<noteq> k \<and> slot_has es name' j \<and> ino = sfd_ino (es ! j)) \<longleftrightarrow> name' \<noteq> name \<and> dir_map es name' = Some ino"
      unfolding dir_map_eq [OF u] using only self by metis
    then show "((dir_map es)(name := None)) name' = Some ino \<longleftrightarrow> dir_map (es[k := sd]) name' = Some ino"
      using i by (auto simp: dir_map_update [OF k(1) u'])
  qed
qed

section \<open>The operations\<close>

text \<open>A sound directory.\<close>

definition dir_ok :: "('d \<Rightarrow> nat \<Rightarrow> bytes) \<Rightarrow> 'd sfs_fs \<Rightarrow> nat \<Rightarrow> bool" where
  "dir_ok blk fs v \<longleftrightarrow> sfi_type (inode_of fs v) = SFS_TYPE_DIR \<and> sfi_size (inode_of fs v) mod DIRSZ = 0 \<and>
     sfi_size (inode_of fs v) \<le> MAXFILE \<and> dir_unique (dir_entries blk fs v)"

lemma sixty_four: "(64 :: nat) dvd 512"
  by simp

lemma dir_same_disk:
  assumes "same_disk blk good fs fs'"
  shows "dir_entries blk fs' v = dir_entries blk fs v" and "dir_ok blk fs' v = dir_ok blk fs v"
  using same_disk_ok [OF assms] by (simp_all add: dir_entries_def dir_ok_def)

lemma dir_nentries_ok:
  assumes "file_ok blk fs v" and "dir_ok blk fs v"
  shows "sfs_dir_nentries v fs = Some (length (dir_entries blk fs v))"
proof -
  obtain sv where "sv_mem fs v = Some sv" using assms(1) by (elim file_okE)
  then show ?thesis using assms(2) by (simp add: sfs_dir_nentries_def dir_ok_def dir_entries_def inode_of_def)
qed

context block_device
begin

lemma readdir_ok:
  assumes ok: "fs_ok good n fs" "file_ok blk fs v" and d: "sfi_size (inode_of fs v) \<le> MAXFILE" and slot: "slot < length (dir_entries blk fs v)"
  shows "\<exists>fs'. sfs_readdir dio v slot fs = Some (Inr (dir_entries blk fs v ! slot), fs') \<and> same_disk blk good fs fs'"
proof -
  let ?s = "sfi_size (inode_of fs v)" and ?c = "contents blk fs v"
  have s: "slot < ?s div DIRSZ" using slot by (simp add: dir_entries_def)
  then have "Suc slot \<le> ?s div DIRSZ" by simp
  then have "Suc slot * DIRSZ \<le> ?s div DIRSZ * DIRSZ" by (rule mult_le_mono1)
  then have lim: "DIRSZ * slot + DIRSZ \<le> ?s" using div_times_less_eq_dividend [of ?s DIRSZ] unfolding mult_Suc by linarith
  let ?bs = "take DIRSZ (drop (DIRSZ * slot) ?c)"
  let ?u = "mk_kuio (replicate DIRSZ 0) (int slot * 64) UIO_READ"
  have len: "length ?bs = DIRSZ" using contents_length [OF ok] lim d by simp
  have bound: "int slot * 64 + 64 \<le> int MAXFILE" using lim d by linarith
  have c: "c_int (int slot * 64) = int slot * 64" using bound by (intro c_int_id) simp_all
  have "uio_rw ?u = UIO_READ" "uio_fits (uio_resid ?u) ?u" "uio_safe ?u"
    using bound by (simp_all add: mk_kuio_def uio_fits_def uio_safe_def)
  then obtain fs' where "sfs_io dio v (fs, ?u) = Some (Inr (), fs', uio_moved (take (uio_resid ?u)
      (drop (nat (uio_offset ?u)) (take ?s ?c))) ?u)" "same_disk blk good fs fs'"
    using io_read [OF ok _ _ _ d, of ?u] by blast
  moreover have "take (uio_resid ?u) (drop (nat (uio_offset ?u)) (take ?s ?c)) = ?bs"
    using lim by (simp add: mk_kuio_def nat_mult_distrib mult.commute drop_take)
  ultimately have io: "sfs_io dio v (fs, ?u) = Some (Inr (), fs', uio_moved ?bs ?u)" "same_disk blk good fs fs'" by simp_all
  have "sfs_readdir dio v slot fs = Some (Inr (decode_dir ?bs), fs')"
    using io(1) len by (simp add: sfs_readdir_def c) (simp add: mk_kuio_def)
  then show ?thesis using io(2) s by (simp add: dir_entries_def entries_nth)
qed

lemma writedir_ok:
  assumes ok: "fs_ok good n fs" "file_ok blk fs v" and d: "sfi_size (inode_of fs v) mod DIRSZ = 0" "sfi_size (inode_of fs v) \<le> MAXFILE"
    and sd: "dir_wf sd" and slot: "slot \<le> length (dir_entries blk fs v)"
  shows "\<exists>r fs'. sfs_writedir dio v sd slot fs = Some (r, fs') \<and> file_step blk good n v fs fs' \<and>
    sfi_size (inode_of fs' v) mod DIRSZ = 0 \<and> sfi_size (inode_of fs' v) \<le> MAXFILE \<and>
    (case r of Inr _ \<Rightarrow> dir_entries blk fs' v = (if slot < length (dir_entries blk fs v) then (dir_entries blk fs v)[slot := sd]
         else dir_entries blk fs v @ [sd])
     | Inl e \<Rightarrow> dir_entries blk fs' v = dir_entries blk fs v \<and> ((e = ENOSPC \<and> used_blocks fs' = {0..<b_nbits (sfs_freemap fs')}) \<or>
         (e = EINVAL \<and> slot = MAXFILE div DIRSZ)))"
proof -
  let ?s = "sfi_size (inode_of fs v)" and ?k = "sfi_size (inode_of fs v) div DIRSZ" and ?u = "mk_kuio (encode_dir sd) (int slot * 64) UIO_WRITE"
  have sz: "?s = DIRSZ * ?k" using mult_div_mod_eq [of DIRSZ ?s] d(1) by simp
  have s: "slot \<le> ?k" "?k \<le> 1144" using slot sz d(2) by (simp_all add: dir_entries_def)
  have len: "length (encode_dir sd) = DIRSZ" using encode_length(3) [OF sd] .
  have c: "c_int (int slot * 64) = int slot * 64" using s by (intro c_int_id) simp_all
  have u: "uio_rw ?u = UIO_WRITE" "uio_fits (uio_resid ?u) ?u" "uio_safe ?u" "uio_resid ?u = DIRSZ" "iov_buf ?u = encode_dir sd"
      "nat (uio_offset ?u) = DIRSZ * slot"
    using s len by (simp_all add: mk_kuio_def uio_fits_def uio_safe_def)
  have "?s < 2 ^ 31" using d(2) by simp
  then obtain r m fs' where io: "m \<le> DIRSZ" "sfs_io dio v (fs, ?u) = Some (r, fs', uio_moved (take m (encode_dir sd)) ?u)"
      "file_step blk good n v fs fs'"
      "contents blk fs' v = put_at (DIRSZ * slot) (take m (encode_dir sd)) (contents blk fs v)"
      "sfi_size (inode_of fs' v) = max ?s (DIRSZ * slot + m)" "m = 0 \<or> DIRSZ * slot + m \<le> MAXFILE"
      "case r of Inr _ \<Rightarrow> m = DIRSZ
      | Inl e \<Rightarrow> stop_at ?u DIRSZ m \<and> ((e = ENOSPC \<and> used_blocks fs' = {0..<b_nbits (sfs_freemap fs')}) \<or>
          (e = EINVAL \<and> MAXFILE < DIRSZ * slot + DIRSZ))"
    using io_write [OF ok u(1-3)] unfolding u by blast
  show ?thesis
  proof (cases r)
    case (Inr x)
    then have m: "m = DIRSZ" using io(7) by simp
    then have lim: "DIRSZ * slot + DIRSZ \<le> MAXFILE" using io(6) by simp
    have size: "sfi_size (inode_of fs' v) = DIRSZ * max ?k (Suc slot)" using io(5) m sz by (simp add: max_def)
    have "dir_entries blk fs' v = entries (max ?k (Suc slot)) (put_at (DIRSZ * slot) (encode_dir sd) (contents blk fs v))"
      using io(4) m len unfolding dir_entries_def size by simp
    then have "dir_entries blk fs' v = (if slot < ?k then (dir_entries blk fs v)[slot := sd] else dir_entries blk fs v @ [sd])"
      using entries_update [OF sd _ s(1), of "contents blk fs v"] lim contents_length [OF ok] by (simp add: dir_entries_def)
    moreover have "sfi_size (inode_of fs' v) \<le> MAXFILE" using size sz lim s by simp
    moreover have "sfs_writedir dio v sd slot fs = Some (Inr (), fs')"
      using io(2) Inr m len by (simp add: sfs_writedir_def c) (simp add: mk_kuio_def)
    ultimately show ?thesis using io(3) size Inr by (simp add: dir_entries_def)
  next
    case (Inl e)
    have "m = 0"
    proof (rule ccontr)
      assume "m \<noteq> 0"
      then have "m < DIRSZ" "(DIRSZ * slot + m) mod 512 = 0" using io(7) Inl u(6) by (auto simp: stop_at_def)
      then have "DIRSZ dvd m" by (metis dvd_add_right_iff dvd_triv_left mod_0_imp_dvd dvd_trans [of 64 512] sixty_four)
      then show False using \<open>m \<noteq> 0\<close> \<open>m < DIRSZ\<close> nat_dvd_not_less by blast
    qed
    then have same: "contents blk fs' v = contents blk fs v" "sfi_size (inode_of fs' v) = ?s" using io(4,5) sz s by simp_all
    moreover have "slot = MAXFILE div DIRSZ" if "MAXFILE < DIRSZ * slot + DIRSZ" using that s by simp
    moreover have "sfs_writedir dio v sd slot fs = Some (Inl e, fs')" using io(2) Inl by (simp add: sfs_writedir_def c)
    ultimately show ?thesis using io(3,7) d Inl by (auto simp: dir_entries_def)
  qed
qed

lemma findname_loop_ok:
  assumes "fs_ok good n fs" "file_ok blk fs v" "dir_ok blk fs v" and "es = dir_entries blk fs v"
    and "i \<le> length es" and "found = map_option (\<lambda>k. (sfd_ino (es ! k), k)) (List.find (slot_has es name) [0..<i])"
    and "case emp of None \<Rightarrow> \<forall>k < i. sfd_ino (es ! k) \<noteq> 0 | Some k \<Rightarrow> k < i \<and> sfd_ino (es ! k) = 0"
  shows "\<exists>emp' fs'. sfs_findname_loop dio v name i (length es) found emp fs =
      Some (Inr (map_option (\<lambda>k. (sfd_ino (es ! k), k)) (dir_find es name), emp'), fs') \<and> same_disk blk good fs fs' \<and>
    (case emp' of None \<Rightarrow> \<forall>k < length es. sfd_ino (es ! k) \<noteq> 0 | Some k \<Rightarrow> k < length es \<and> sfd_ino (es ! k) = 0)"
  using assms
proof (induction "length es - i" arbitrary: i fs found emp)
  case 0
  then have i: "i = length es" "same_disk blk good fs fs" by (simp_all add: same_disk_refl fs_ok_def)
  have "sfs_findname_loop dio v name i (length es) found emp fs = Some (Inr (found, emp), fs)"
    unfolding i(1) by (simp add: sfs_findname_loop.simps)
  then show ?case using 0(7,8) i by (cases emp) (simp_all add: dir_find_def)
next
  case (Suc d)
  note p = Suc.prems
  have i: "i < length es" using Suc.hyps(2) by simp
  have sz: "sfi_size (inode_of fs v) \<le> MAXFILE" and uq: "dir_unique es" using p(3,4) by (simp_all add: dir_ok_def)
  obtain fs1 where rd: "sfs_readdir dio v i fs = Some (Inr (es ! i), fs1)" "same_disk blk good fs fs1"
    using readdir_ok [OF p(1,2) sz] i p(4) by blast
  have pre: "fs_ok good n fs1" "file_ok blk fs1 v" "dir_ok blk fs1 v" "es = dir_entries blk fs1 v"
    using p same_disk_ok [OF rd(2)] dir_same_disk [OF rd(2)] by simp_all
  define found' where "found' = (if slot_has es name i then Some (sfd_ino (es ! i), i) else found)"
  define emp' where "emp' = (if sfd_ino (es ! i) = 0 then Some i else emp)"
  have fn: "found = None" if "slot_has es name i"
  proof (rule ccontr)
    assume "found \<noteq> None"
    then obtain k where "k < i" "slot_has es name k" using p(6) find_Some [of "slot_has es name" i] by auto
    then show False using uq [unfolded dir_unique_def, rule_format, of k i name] i that by simp
  qed
  have step: "sfs_findname_loop dio v name i (length es) found emp fs = sfs_findname_loop dio v name (Suc i) (length es) found' emp' fs1"
    using rd(1) i fn by (auto simp: sfs_findname_loop.simps [of _ _ _ i] found'_def emp'_def slot_has_def)
  have f': "found' = map_option (\<lambda>k. (sfd_ino (es ! k), k)) (List.find (slot_has es name) [0..<Suc i])"
    unfolding find_upt_Suc using fn p(6) by (auto simp: found'_def split: option.splits)
  have e': "case emp' of None \<Rightarrow> \<forall>k < Suc i. sfd_ino (es ! k) \<noteq> 0 | Some k \<Rightarrow> k < Suc i \<and> sfd_ino (es ! k) = 0"
    using p(7) by (auto simp: emp'_def less_Suc_eq split: option.splits)
  have d: "d = length es - Suc i" "Suc i \<le> length es" using Suc.hyps(2) i by simp_all
  obtain emp2 fs2 where "sfs_findname_loop dio v name (Suc i) (length es) found' emp' fs1 =
        Some (Inr (map_option (\<lambda>k. (sfd_ino (es ! k), k)) (dir_find es name), emp2), fs2)" "same_disk blk good fs1 fs2"
      "case emp2 of None \<Rightarrow> \<forall>k < length es. sfd_ino (es ! k) \<noteq> 0 | Some k \<Rightarrow> k < length es \<and> sfd_ino (es ! k) = 0"
    using Suc.hyps(1) [OF d(1) pre d(2) f' e'] by blast
  then show ?case using step same_disk_trans [OF rd(2)] by (intro exI [of _ emp2] exI [of _ fs2]) simp
qed

lemma dir_findname_ok:
  assumes ok: "fs_ok good n fs" "file_ok blk fs v" "dir_ok blk fs v" and es: "es = dir_entries blk fs v"
  shows "\<exists>emp fs'. sfs_dir_findname dio v name fs =
      Some (Inr (map_option (\<lambda>k. (sfd_ino (es ! k), k)) (dir_find es name), emp), fs') \<and> same_disk blk good fs fs' \<and>
    (case emp of None \<Rightarrow> \<forall>k < length es. sfd_ino (es ! k) \<noteq> 0 | Some k \<Rightarrow> k < length es \<and> sfd_ino (es ! k) = 0)"
proof -
  have "sfs_dir_nentries v fs = Some (length es)" using dir_nentries_ok [OF ok(2,3)] es by simp
  then show ?thesis using findname_loop_ok [OF ok es, of 0 None name None] by (simp add: sfs_dir_findname_def)
qed

lemma writedir_dir_ok:
  assumes "file_step blk good n v fs fs'" and "dir_ok blk fs v" and "sfi_size (inode_of fs' v) mod DIRSZ = 0"
    and "sfi_size (inode_of fs' v) \<le> MAXFILE" and "dir_unique (dir_entries blk fs' v)"
  shows "dir_ok blk fs' v"
  using assms by (simp add: dir_ok_def file_step_def)

lemma dir_link_ok:
  assumes ok: "fs_ok good n fs" "file_ok blk fs v" "dir_ok blk fs v" and name: "name_ok name" and ino: "ino \<noteq> 0" "ino < 2 ^ 32"
  shows "\<exists>r fs'. sfs_dir_link dio v name ino fs = Some (r, fs') \<and> file_step blk good n v fs fs' \<and> dir_ok blk fs' v \<and>
    (case r of
       Inr slot \<Rightarrow> dir_map (dir_entries blk fs v) name = None \<and> length name < SFS_NAMELEN \<and>
         dir_map (dir_entries blk fs' v) = (dir_map (dir_entries blk fs v))(name \<mapsto> ino) \<and>
         dir_find (dir_entries blk fs' v) name = Some slot \<and>
         (\<forall>nm. nm \<noteq> name \<longrightarrow> dir_find (dir_entries blk fs' v) nm = dir_find (dir_entries blk fs v) nm)
     | Inl e \<Rightarrow> dir_entries blk fs' v = dir_entries blk fs v \<and>
         ((e = EEXIST \<and> name \<in> dom (dir_map (dir_entries blk fs v))) \<or> (e = ENAMETOOLONG \<and> SFS_NAMELEN \<le> length name) \<or>
          (e = ENOSPC \<and> used_blocks fs' = {0..<b_nbits (sfs_freemap fs')}) \<or>
          (e = EINVAL \<and> length (dir_entries blk fs v) = MAXFILE div DIRSZ)))"
proof -
  define es where "es = dir_entries blk fs v"
  have uq: "dir_unique es" and sz: "sfi_size (inode_of fs v) mod DIRSZ = 0" "sfi_size (inode_of fs v) \<le> MAXFILE"
    using ok(3) by (simp_all add: dir_ok_def es_def)
  obtain emp fs1 where fn: "sfs_dir_findname dio v name fs = Some (Inr (map_option (\<lambda>k. (sfd_ino (es ! k), k)) (dir_find es name), emp), fs1)"
      "same_disk blk good fs fs1" "case emp of None \<Rightarrow> \<forall>k < length es. sfd_ino (es ! k) \<noteq> 0 | Some k \<Rightarrow> k < length es \<and> sfd_ino (es ! k) = 0"
    using dir_findname_ok [OF ok es_def] by blast
  note sd = same_disk_ok [OF fn(2)]
  have ok1: "fs_ok good n fs1" "file_ok blk fs1 v" "dir_ok blk fs1 v" "dir_entries blk fs1 v = es" "inode_of fs1 v = inode_of fs v"
    using ok sd dir_same_disk [OF fn(2)] by (simp_all add: es_def)
  have st: "file_step blk good n v fs fs1" by (rule same_disk_step [OF fn(2) ok(1,2)])
  consider (exists) "dir_find es name \<noteq> None" | (long) "dir_find es name = None" "SFS_NAMELEN \<le> length name"
    | (link) "dir_find es name = None" "length name < SFS_NAMELEN" by linarith
  then show ?thesis
  proof cases
    case exists
    then have "sfs_dir_link dio v name ino fs = Some (Inl EEXIST, fs1)" "name \<in> dom (dir_map es)"
      using fn(1) by (auto simp: sfs_dir_link_def dir_map_def)
    then show ?thesis using st ok1 unfolding es_def by (intro exI [of _ "Inl EEXIST"] exI [of _ fs1]) simp
  next
    case long
    then have "sfs_dir_link dio v name ino fs = Some (Inl ENAMETOOLONG, fs1)" using fn(1) by (simp add: sfs_dir_link_def)
    then show ?thesis using st ok1 long unfolding es_def by (intro exI [of _ "Inl ENAMETOOLONG"] exI [of _ fs1]) simp
  next
    case link
    note ne = new_entry_name [OF name link(2), of ino]
    have new: "dir_map es (dir_name (new_entry ino name)) = None" "sfd_ino (new_entry ino name) \<noteq> 0"
      using link(1) ino(1) by (simp_all add: ne dir_map_def) (simp add: new_entry_def)
    obtain slot where slot: "(case emp of None \<Rightarrow> sfs_dir_nentries v fs1 | Some s \<Rightarrow> Some s) = Some slot"
        "(slot < length es \<and> sfd_ino (es ! slot) = 0) \<or> slot = length es"
    proof (cases emp)
      case None
      then show ?thesis using that dir_nentries_ok [OF ok1(2,3)] ok1(4) by simp
    qed (use that fn(3) in simp)
    then have le: "slot \<le> length es" by auto
    obtain r fs' where w: "sfs_writedir dio v (new_entry ino name) slot fs1 = Some (r, fs')" "file_step blk good n v fs1 fs'"
        "sfi_size (inode_of fs' v) mod DIRSZ = 0" "sfi_size (inode_of fs' v) \<le> MAXFILE"
        "case r of Inr _ \<Rightarrow> dir_entries blk fs' v = (if slot < length es then es[slot := new_entry ino name] else es @ [new_entry ino name])
        | Inl e \<Rightarrow> dir_entries blk fs' v = es \<and> ((e = ENOSPC \<and> used_blocks fs' = {0..<b_nbits (sfs_freemap fs')}) \<or>
         (e = EINVAL \<and> slot = MAXFILE div DIRSZ))"
      using writedir_ok [OF ok1(1,2) _ _ ne(2) [OF ino(2)], unfolded ok1(4,5), OF sz le] by (elim exE conjE) (rule that)
    note st' = file_step_trans [OF st w(2)]
    show ?thesis
    proof (cases r)
      case (Inl e)
      then have "sfs_dir_link dio v name ino fs = Some (Inl e, fs')" "dir_entries blk fs' v = es"
        using fn(1) link slot(1) w(1,5) by (simp_all add: sfs_dir_link_def)
      moreover have "dir_ok blk fs' v" using writedir_dir_ok [OF w(2) ok1(3) w(3,4)] uq calculation(2) by simp
      moreover have "length es = MAXFILE div DIRSZ" if "slot = MAXFILE div DIRSZ"
        using that le sz(2) by (simp add: es_def dir_entries_def)
      ultimately show ?thesis using st' w(5) Inl unfolding es_def by (intro exI [of _ "Inl e"] exI [of _ fs']) auto
    next
      case (Inr x)
      define es' where "es' = dir_entries blk fs' v"
      have run: "sfs_dir_link dio v name ino fs = Some (Inr slot, fs')"
        using fn(1) link slot(1) w(1) Inr by (simp add: sfs_dir_link_def)
      have es': "es' = (if slot < length es then es[slot := new_entry ino name] else es @ [new_entry ino name])"
        using w(5) Inr by (simp add: es'_def)
      have r: "dir_unique es' \<and> dir_map es' = (dir_map es)(name \<mapsto> ino)"
        using dir_map_append [OF uq new] dir_map_fill [OF uq new, of slot] slot(2) unfolding es' ne(1) by (auto simp: new_entry_def)
      have "slot < length es'" "slot_has es' name slot" using slot(2) ne(1) ino(1) by (auto simp: es' slot_has_def new_entry_def)
      then have "dir_find es' name = Some slot" using dir_find_eq [of es' name slot] r by simp
      moreover have "dir_find es' nm = dir_find es nm" if "nm \<noteq> name" for nm
      proof (rule dir_find_cong [OF uq])
        show "dir_unique es'" using r by simp
        fix k show "k < length es' \<and> slot_has es' nm k \<longleftrightarrow> k < length es \<and> slot_has es nm k"
          using slot(2) that ne(1) by (auto simp: es' slot_has_def nth_append nth_list_update)
      qed
      moreover have "dir_ok blk fs' v" using writedir_dir_ok [OF w(2) ok1(3) w(3,4)] r by (simp add: es'_def)
      moreover have "dir_map es name = None" using link(1) by (simp add: dir_map_def)
      ultimately show ?thesis using run st' r link(2) unfolding es_def es'_def by (intro exI [of _ "Inr slot"] exI [of _ fs']) simp
    qed
  qed
qed

text \<open>An entry in use lies in a block of the directory, and a hole reads as free entries.\<close>

lemma used_slot_mapped:
  assumes ok: "fs_ok good n fs" "file_ok blk fs v" and d: "sfi_size (inode_of fs v) \<le> MAXFILE"
    and slot: "slot < length (dir_entries blk fs v)" "sfd_ino (dir_entries blk fs v ! slot) \<noteq> 0"
  shows "slot div 8 < NBLK" and "blkmap (blk (sfs_device fs)) (inode_of fs v) ! (slot div 8) \<noteq> 0"
proof -
  let ?s = "sfi_size (inode_of fs v)"
  have sl: "slot < ?s div DIRSZ" using slot(1) by (simp add: dir_entries_def)
  also have "\<dots> \<le> MAXFILE div DIRSZ" by (rule div_le_mono [OF d])
  finally have lim: "slot < 1144" by simp
  then show k: "slot div 8 < NBLK" by simp
  have off: "512 * (slot div 8) + DIRSZ * (slot mod 8) = DIRSZ * slot" using mult_div_mod_eq [of 8 slot] by linarith
  have "slot mod 8 < 8" by simp
  then have "DIRSZ * (slot mod 8) + DIRSZ \<le> 512" by linarith
  note bs = block_slice [OF ok k this, unfolded off]
  show "blkmap (blk (sfs_device fs)) (inode_of fs v) ! (slot div 8) \<noteq> 0"
  proof
    assume "blkmap (blk (sfs_device fs)) (inode_of fs v) ! (slot div 8) = 0"
    then have "take DIRSZ (drop (DIRSZ * slot) (contents blk fs v)) = take DIRSZ (drop (DIRSZ * (slot mod 8)) zero_block)"
      using bs by (simp add: data_block_def)
    then have "sfd_ino (dir_entries blk fs v ! slot) = 0"
      using sl un_be_zeros by (simp add: dir_entries_def entries_nth decode_dir_def)
    then show False using slot(2) by simp
  qed
qed

lemma writedir_mapped:
  assumes ok: "fs_ok good n fs" "file_ok blk fs v" and d: "sfi_size (inode_of fs v) \<le> MAXFILE" and sd: "dir_wf sd"
    and slot: "slot < length (dir_entries blk fs v)" "sfd_ino (dir_entries blk fs v ! slot) \<noteq> 0"
    and r: "sfs_writedir dio v sd slot fs = Some (r, fs')"
  shows "r = Inr ()"
proof -
  let ?u = "mk_kuio (encode_dir sd) (int slot * 64) UIO_WRITE"
  note m = used_slot_mapped [OF ok d slot]
  have len: "length (encode_dir sd) = DIRSZ" using encode_length(3) [OF sd] .
  have lim: "slot < 1144" using m(1) by simp
  have c: "c_int (int slot * 64) = int slot * 64" using lim by (intro c_int_id) simp_all
  have u: "uio_rw ?u = UIO_WRITE" "uio_fits DIRSZ ?u" "uio_safe ?u" "uio_resid ?u = DIRSZ" "uio_offset ?u = int slot * 64"
    using lim len by (simp_all add: mk_kuio_def uio_fits_def uio_safe_def)
  have "int slot * 64 div 512 = int (slot div 8)" "int slot * 64 mod 512 = int (64 * (slot mod 8))"
    using div_mult_mult2 [of 64 "int slot" 8] mult_mod_right [of 64 "int slot" 8] by (simp_all add: zdiv_int zmod_int mult.commute)
  then have rem: "off_rem (int slot * 64) = 64 * (slot mod 8)" "off_blk (int slot * 64) = slot div 8"
    using off_rem_nonneg [of "int slot * 64"] off_blk_nonneg [of "int slot * 64"] lim by (auto simp: nat_mult_distrib)
  have "slot mod 8 < 8" by simp
  then have sk: "64 * (slot mod 8) + DIRSZ \<le> 512" by linarith
  obtain fs1 u1 where p: "sfs_partialio dio v (64 * (slot mod 8)) DIRSZ (fs, ?u) = Some (Inr (), fs1, u1)"
    using partialio_mapped [OF ok u(1-3) sk _ m] rem(2) u(5) by auto
  have "uio_fits (uio_resid ?u) ?u" using u(2,4) by simp
  then obtain r' m' fs2 where io: "sfs_io dio v (fs, ?u) = Some (r', fs2, uio_moved (take m' (iov_buf ?u)) ?u)"
    using io_write [OF ok u(1) _ u(3)] d by fastforce
  have "uio_resid u1 = 0"
    using partialio_write [OF ok u(1,2,3), of "64 * (slot mod 8)"] p sk len u(4,5) rem(1)
    by (auto simp: write_res_def off_rem_nonneg mk_kuio_def)
  moreover have mn: "min (SFS_BLOCKSIZE - 64 * (slot mod 8)) DIRSZ = DIRSZ" using sk by linarith
  ultimately have body: "sfs_io_body dio v (fs, ?u) = Some (Inr (), fs1, u1)"
    using p u(4,5) rem mn by (auto simp: sfs_io_body_def Let_def)
  have "r' = Inr ()"
    using io body u(1) by (auto simp: sfs_io_def Let_def bind_eq_Some_conv split: if_splits)
  then show ?thesis using r io by (auto simp: sfs_writedir_def c bind_eq_Some_conv split: if_splits)
qed

lemma dir_unlink_ok:
  assumes ok: "fs_ok good n fs" "file_ok blk fs v" "dir_ok blk fs v" and slot: "dir_find (dir_entries blk fs v) name = Some slot"
  shows "\<exists>fs'. sfs_dir_unlink dio v slot fs = Some (Inr (), fs') \<and> file_step blk good n v fs fs' \<and> dir_ok blk fs' v \<and>
    dir_map (dir_entries blk fs' v) = (dir_map (dir_entries blk fs v))(name := None)"
proof -
  define es where "es = dir_entries blk fs v"
  have uq: "dir_unique es" and sz: "sfi_size (inode_of fs v) mod DIRSZ = 0" "sfi_size (inode_of fs v) \<le> MAXFILE"
    using ok(3) by (simp_all add: dir_ok_def es_def)
  have k: "slot < length es" "slot_has es name slot" using dir_find_eq [OF uq, of name slot] slot by (simp_all add: es_def)
  have wf: "dir_wf (new_entry 0 [])" "sfd_ino (new_entry 0 []) = 0" by (simp_all add: dir_wf_def new_entry_def)
  obtain r fs' where w: "sfs_writedir dio v (new_entry 0 []) slot fs = Some (r, fs')" "file_step blk good n v fs fs'"
      "sfi_size (inode_of fs' v) mod DIRSZ = 0" "sfi_size (inode_of fs' v) \<le> MAXFILE"
      "case r of Inr _ \<Rightarrow> dir_entries blk fs' v = (if slot < length es then es[slot := new_entry 0 []] else es @ [new_entry 0 []]) | Inl e \<Rightarrow> True"
  proof -
    obtain r fs' where "sfs_writedir dio v (new_entry 0 []) slot fs = Some (r, fs')" "file_step blk good n v fs fs'"
      "sfi_size (inode_of fs' v) mod DIRSZ = 0" "sfi_size (inode_of fs' v) \<le> MAXFILE"
      "case r of Inr _ \<Rightarrow> dir_entries blk fs' v = (if slot < length es then es[slot := new_entry 0 []] else es @ [new_entry 0 []])
        | Inl e \<Rightarrow> dir_entries blk fs' v = es \<and> ((e = ENOSPC \<and> used_blocks fs' = {0..<b_nbits (sfs_freemap fs')}) \<or>
         (e = EINVAL \<and> slot = MAXFILE div DIRSZ))"
      using writedir_ok [OF ok(1,2) sz wf(1), of slot, folded es_def, OF less_imp_le [OF k(1)]] by (elim exE conjE) (rule that)
    then show thesis using that [of r fs'] by (cases r) simp_all
  qed
  have r: "r = Inr ()" using writedir_mapped [OF ok(1,2) sz(2) wf(1) _ _ w(1)] k by (simp add: es_def slot_has_def)
  note clear = dir_map_clear [OF uq k wf(2)]
  have "dir_ok blk fs' v" using writedir_dir_ok [OF w(2) ok(3) w(3,4)] clear(1) w(5) r k(1) by simp
  then show ?thesis using w clear(2) r k(1) unfolding es_def by (intro exI [of _ fs']) (simp add: sfs_dir_unlink_def)
qed

end

end
