(* ===== verification/Sfs_Trunc.thy ===== *)
theory Sfs_Trunc
  imports Sfs_Fileio
begin

text \<open>
  Truncation and reclaiming (\<open>sfs_truncate\<close>, \<open>sfs_reclaim\<close> of \<open>kern/fs/sfs/sfs_vnode.c\<close>) on block maps: which
  entries of the map stay, which blocks become free, and what of the file's bytes is kept.
\<close>

section \<open>Freeing blocks\<close>

definition freed :: "('d \<Rightarrow> bool) \<Rightarrow> nat \<Rightarrow> nat set \<Rightarrow> 'd sfs_fs \<Rightarrow> 'd sfs_fs \<Rightarrow> bool" where
  "freed good n S fs fs' \<longleftrightarrow> fs_ok good n fs' \<and> used_blocks fs' = used_blocks fs - S \<and> sfs_sb fs' = sfs_sb fs \<and>
     sfs_superdirty fs' = sfs_superdirty fs \<and> sfs_vnodes fs' = sfs_vnodes fs \<and> sfs_device fs' = sfs_device fs"

lemma freed_refl: "fs_ok good n fs \<Longrightarrow> freed good n {} fs fs"
  by (simp add: freed_def)

lemma freed_trans: "freed good n S fs fs1 \<Longrightarrow> freed good n T fs1 fs2 \<Longrightarrow> freed good n (S \<union> T) fs fs2"
  by (auto simp: freed_def)

lemma freed_upd_inode: "freed good n S fs fs1 \<Longrightarrow> freed good n S fs (upd_inode v f fs1)"
  by (simp add: freed_def)

lemma fs_ok_device: "good d \<Longrightarrow> fs_ok good n fs \<Longrightarrow> fs_ok good n (fs\<lparr>sfs_device := d\<rparr>)"
  by (simp add: fs_ok_def)

lemma bfree_ok:
  assumes ok: "fs_ok good n fs" and b: "b \<in> used_blocks fs" "b \<noteq> 0" "b < nblocks fs"
  shows "\<exists>fs'. sfs_bfree b fs = Some fs' \<and> freed good n {b} fs fs' \<and> sv_mem fs' = sv_mem fs"
proof -
  have inv: "bitmap_inv (sfs_freemap fs)" using ok by (simp add: fs_ok_def)
  obtain bm where bm: "bitmap_unmark (sfs_freemap fs) b = Some bm" "bitmap_inv bm" "b_nbits bm = b_nbits (sfs_freemap fs)"
      "bitmap_used bm = used_blocks fs - {b}"
    using bm.unmark [OF inv b(1)] by blast
  have "{nblocks fs..<b_nbits (sfs_freemap fs)} \<subseteq> used_blocks fs - {b}" "0 \<in> used_blocks fs - {b}"
    using ok b by (auto simp: fs_ok_def)
  then have "freed good n {b} fs (fs\<lparr>sfs_freemap := bm, sfs_freemapdirty := True\<rparr>)"
    using bm ok by (simp add: freed_def fs_ok_def)
  then show ?thesis using bm(1) by (simp add: sfs_bfree_def)
qed

lemma dist0_Cons: "dist0 (b # bs) \<longleftrightarrow> (b \<noteq> 0 \<longrightarrow> b \<notin> set bs) \<and> dist0 bs"
proof
  assume d: "dist0 (b # bs)"
  have "dist0 bs" unfolding dist0_def
  proof (intro allI impI)
    fix i j assume "i < length bs" "j < length bs" "bs ! i = bs ! j" "bs ! i \<noteq> 0"
    then show "i = j" using d [unfolded dist0_def, rule_format, of "Suc i" "Suc j"] by simp
  qed
  moreover have "b \<notin> set bs" if "b \<noteq> 0"
  proof
    assume "b \<in> set bs"
    then obtain j where "j < length bs" "bs ! j = b" by (auto simp: in_set_conv_nth)
    then show False using d [unfolded dist0_def, rule_format, of 0 "Suc j"] that by simp
  qed
  ultimately show "(b \<noteq> 0 \<longrightarrow> b \<notin> set bs) \<and> dist0 bs" by blast
next
  assume d: "(b \<noteq> 0 \<longrightarrow> b \<notin> set bs) \<and> dist0 bs"
  show "dist0 (b # bs)" unfolding dist0_def
  proof (intro allI impI)
    fix i j assume ij: "i < length (b # bs)" "j < length (b # bs)" "(b # bs) ! i = (b # bs) ! j" "(b # bs) ! i \<noteq> 0"
    show "i = j"
    proof (cases i; cases j)
      fix i' j' assume "i = Suc i'" "j = Suc j'"
      then show ?thesis using d ij by (simp add: dist0_def)
    next
      fix j' assume "i = 0" "j = Suc j'"
      then show ?thesis using d ij nth_mem [of j' bs] by auto
    next
      fix i' assume "i = Suc i'" "j = 0"
      then show ?thesis using d ij nth_mem [of i' bs] by auto
    qed simp
  qed
qed

lemma dist0_append: "dist0 (xs @ ys) \<longleftrightarrow> dist0 xs \<and> dist0 ys \<and> set xs \<inter> set ys \<subseteq> {0}"
  by (induction xs) (auto simp: dist0_Cons, simp add: dist0_def)

lemma dist0_take: "dist0 xs \<Longrightarrow> dist0 (take k xs)"
  by (metis append_take_drop_id dist0_append)

lemma dist0_zeros: "dist0 (replicate k 0)"
  by (simp add: dist0_def)

text \<open>The loop over the direct blocks: the entries from \<open>blocklen\<close> on become 0 and their blocks free.\<close>

definition cutoff :: "nat \<Rightarrow> nat list \<Rightarrow> nat list" where
  "cutoff k bs = take k bs @ replicate (length bs - k) 0"

lemma cutoff_simps [simp]:
  "cutoff k [] = []" "cutoff 0 (b # bs) = 0 # cutoff 0 bs" "cutoff (Suc k) (b # bs) = b # cutoff k bs" "length (cutoff k bs) = length bs"
  by (simp_all add: cutoff_def)

lemma cutoff_nth: "j < length bs \<Longrightarrow> cutoff k bs ! j = (if j < k then bs ! j else 0)"
  by (simp add: cutoff_def nth_append)

lemma trunc_direct_ok:
  assumes "fs_ok good n fs" and "sv_mem fs v = Some sv" and "i + length bs = length (sfi_direct (sv_i sv))"
    and "drop i (sfi_direct (sv_i sv)) = bs" and "dist0 bs" and "\<forall>b \<in> set bs. b \<noteq> 0 \<longrightarrow> b \<in> used_blocks fs \<and> b < nblocks fs"
  shows "\<exists>fs' dy. sfs_trunc_direct v bl bs i fs = Some fs' \<and> freed good n (set (drop (bl - i) bs) - {0}) fs fs' \<and>
    (\<forall>w. w \<noteq> v \<longrightarrow> sv_mem fs' w = sv_mem fs w) \<and>
    sv_mem fs' v = Some (sv\<lparr>sv_i := (sv_i sv)\<lparr>sfi_direct := take i (sfi_direct (sv_i sv)) @ cutoff (bl - i) bs\<rparr>, sv_dirty := dy\<rparr>)"
  using assms
proof (induction bs arbitrary: i fs sv)
  case Nil
  then have "take i (sfi_direct (sv_i sv)) = sfi_direct (sv_i sv)" by simp
  then show ?case using Nil freed_refl [OF Nil.prems(1)] by (intro exI [of _ fs] exI [of _ "sv_dirty sv"]) simp
next
  case (Cons b bs)
  let ?d = "sfi_direct (sv_i sv)"
  have b: "?d ! i = b" "i < length ?d" using Cons.prems(3,4) by (simp_all add: nth_via_drop)
  have dr: "drop (Suc i) ?d = bs" using Cons.prems(4) by (metis drop_Suc list.sel(3) tl_drop)
  have tk: "take (Suc i) ?d = take i ?d @ [b]" using b by (simp add: take_Suc_conv_app_nth)
  show ?case
  proof (cases "bl \<le> i \<and> b \<noteq> 0")
    case False
    have c: "cutoff (bl - i) (b # bs) = b # cutoff (bl - Suc i) bs" "set (drop (bl - i) (b # bs)) - {0} = set (drop (bl - Suc i) bs) - {0}"
    proof -
      consider "bl \<le> i" "b = 0" | "bl - i = Suc (bl - Suc i)" using False by linarith
      then show "cutoff (bl - i) (b # bs) = b # cutoff (bl - Suc i) bs" "set (drop (bl - i) (b # bs)) - {0} = set (drop (bl - Suc i) bs) - {0}"
        by (cases; simp)+
    qed
    obtain fs' dy where "sfs_trunc_direct v bl bs (Suc i) fs = Some fs'" "freed good n (set (drop (bl - Suc i) bs) - {0}) fs fs'"
        "\<forall>w. w \<noteq> v \<longrightarrow> sv_mem fs' w = sv_mem fs w"
        "sv_mem fs' v = Some (sv\<lparr>sv_i := (sv_i sv)\<lparr>sfi_direct := take (Suc i) ?d @ cutoff (bl - Suc i) bs\<rparr>, sv_dirty := dy\<rparr>)"
      using Cons.IH [OF Cons.prems(1,2), of "Suc i"] Cons.prems(3,5,6) dr by (auto simp: dist0_Cons)
    then show ?thesis using False c tk by (intro exI [of _ fs'] exI [of _ dy]) auto
  next
    case True
    then obtain fs1 where fs1: "sfs_bfree b fs = Some fs1" "freed good n {b} fs fs1" "sv_mem fs1 = sv_mem fs"
      using bfree_ok [OF Cons.prems(1), of b] Cons.prems(6) by auto
    define fs2 where "fs2 = upd_inode v (\<lambda>ino. ino\<lparr>sfi_direct := (sfi_direct ino)[i := 0]\<rparr>) fs1"
    define sv2 where "sv2 = sv\<lparr>sv_i := (sv_i sv)\<lparr>sfi_direct := ?d[i := 0]\<rparr>, sv_dirty := True\<rparr>"
    have fr2: "freed good n {b} fs fs2" unfolding fs2_def by (rule freed_upd_inode [OF fs1(2)])
    have mem2: "sv_mem fs2 v = Some sv2" using fs1(3) Cons.prems(2) by (simp add: fs2_def sv2_def)
    have "\<forall>c \<in> set bs. c \<noteq> 0 \<longrightarrow> c \<in> used_blocks fs2 \<and> c < nblocks fs2"
      using Cons.prems(5,6) fr2 True by (auto simp: freed_def dist0_Cons)
    then obtain fs' dy where r: "sfs_trunc_direct v bl bs (Suc i) fs2 = Some fs'" "freed good n (set (drop (bl - Suc i) bs) - {0}) fs2 fs'"
        "\<forall>w. w \<noteq> v \<longrightarrow> sv_mem fs' w = sv_mem fs2 w"
        "sv_mem fs' v = Some (sv2\<lparr>sv_i := (sv_i sv2)\<lparr>sfi_direct := take (Suc i) (?d[i := 0]) @ cutoff (bl - Suc i) bs\<rparr>, sv_dirty := dy\<rparr>)"
      using Cons.IH [of fs2 sv2 "Suc i"] mem2 fr2 Cons.prems(3,5) dr by (auto simp: sv2_def freed_def dist0_Cons)
    have "freed good n (set (drop (bl - i) (b # bs)) - {0}) fs fs'"
      using freed_trans [OF fr2 r(2)] True by (simp add: insert_Diff_if)
    moreover have "take (Suc i) (?d[i := 0]) = take i ?d @ [0]" using b(2) by (simp add: take_Suc_conv_app_nth)
    moreover have "\<forall>w. w \<noteq> v \<longrightarrow> sv_mem fs' w = sv_mem fs w" using r(3) fs1(3) by (simp add: fs2_def)
    ultimately show ?thesis
      using True fs1(1) r(1,4) by (intro exI [of _ fs'] exI [of _ dy]) (simp add: fs2_def sv2_def)
  qed
qed

lemma trunc_indirect_ok:
  assumes "fs_ok good n fs" and "dist0 bs" and "\<forall>b \<in> set bs. b \<noteq> 0 \<longrightarrow> b \<in> used_blocks fs \<and> b < nblocks fs"
  shows "\<exists>fs'. sfs_trunc_indirect bl bs j fs =
      Some (cutoff (Suc bl - SFS_NDIRECT - j) bs, set (drop (Suc bl - SFS_NDIRECT - j) bs) - {0} \<noteq> {}, fs') \<and>
    freed good n (set (drop (Suc bl - SFS_NDIRECT - j) bs) - {0}) fs fs' \<and> sv_mem fs' = sv_mem fs"
  using assms
proof (induction bs arbitrary: j fs)
  case Nil
  then show ?case using freed_refl [OF Nil.prems(1)] by simp
next
  case (Cons b bs)
  let ?k = "Suc bl - SFS_NDIRECT - j"
  have k: "Suc bl - SFS_NDIRECT - Suc j = ?k - 1" "bl < SFS_NDIRECT + j \<longleftrightarrow> ?k = 0" by auto
  show ?case
  proof (cases "bl < SFS_NDIRECT + j \<and> b \<noteq> 0")
    case False
    have c: "cutoff ?k (b # bs) = b # cutoff (?k - 1) bs" "set (drop ?k (b # bs)) - {0} = set (drop (?k - 1) bs) - {0}"
      using False k(2) by (cases ?k; auto)+
    obtain fs' where "sfs_trunc_indirect bl bs (j + 1) fs = Some (cutoff (?k - 1) bs, set (drop (?k - 1) bs) - {0} \<noteq> {}, fs')"
        "freed good n (set (drop (?k - 1) bs) - {0}) fs fs'" "sv_mem fs' = sv_mem fs"
      using Cons.IH [OF Cons.prems(1), of "Suc j"] Cons.prems(2,3) k(1) by (auto simp: dist0_Cons)
    moreover have "(bl < SFS_NDIRECT + j \<and> b \<noteq> 0) = False" using False by blast
    ultimately have "sfs_trunc_indirect bl (b # bs) j fs = Some (b # cutoff (?k - 1) bs, set (drop (?k - 1) bs) - {0} \<noteq> {}, fs')"
      by (simp only: sfs_trunc_indirect.simps if_False bind.simps prod.case)
    then show ?thesis using c \<open>freed good n (set (drop (?k - 1) bs) - {0}) fs fs'\<close> \<open>sv_mem fs' = sv_mem fs\<close>
      by (intro exI [of _ fs']) (simp only: simp_thms)
  next
    case True
    then have k0: "?k = 0" using k(2) by blast
    from True obtain fs1 where fs1: "sfs_bfree b fs = Some fs1" "freed good n {b} fs fs1" "sv_mem fs1 = sv_mem fs"
      using bfree_ok [OF Cons.prems(1), of b] Cons.prems(3) by auto
    have "\<forall>c \<in> set bs. c \<noteq> 0 \<longrightarrow> c \<in> used_blocks fs1 \<and> c < nblocks fs1"
      using Cons.prems(2,3) fs1(2) True by (auto simp: freed_def dist0_Cons)
    then obtain fs' where r: "sfs_trunc_indirect bl bs (j + 1) fs1 = Some (cutoff 0 bs, set bs - {0} \<noteq> {}, fs')"
        "freed good n (set bs - {0}) fs1 fs'" "sv_mem fs' = sv_mem fs1"
      using Cons.IH [of fs1 "Suc j"] Cons.prems(2) fs1(2) k(1) k0 by (auto simp: freed_def dist0_Cons)
    have "freed good n (set (b # bs) - {0}) fs fs'" using freed_trans [OF fs1(2) r(2)] True by (simp add: insert_Diff_if)
    then show ?thesis using True k0 fs1 r by auto
  qed
qed

section \<open>Truncation\<close>

text \<open>The block map a truncation to \<open>bl\<close> blocks leaves: of the direct blocks the first \<open>bl\<close>, of those in the
  indirect block one more.\<close>

definition trunc_map :: "nat \<Rightarrow> nat list \<Rightarrow> nat list" where
  "trunc_map bl bm = cutoff bl (take SFS_NDIRECT bm) @ cutoff (Suc bl - SFS_NDIRECT) (drop SFS_NDIRECT bm)"

lemma trunc_map_length [simp]: "length (trunc_map bl bm) = length bm"
  by (simp add: trunc_map_def)

lemma trunc_map_nth:
  assumes "k < length bm"
  shows "trunc_map bl bm ! k = (if k < bl \<or> (SFS_NDIRECT \<le> k \<and> k = bl) then bm ! k else 0)"
proof (cases "k < SFS_NDIRECT")
  case True
  then show ?thesis using assms by (simp add: trunc_map_def nth_append cutoff_nth)
next
  case False
  then have "k - SFS_NDIRECT < Suc bl - SFS_NDIRECT \<longleftrightarrow> k \<le> bl" by linarith
  moreover have "SFS_NDIRECT + (k - SFS_NDIRECT) = k" using False by simp
  ultimately show ?thesis using False assms by (auto simp: trunc_map_def nth_append cutoff_nth nth_drop min_def)
qed

lemma cutoff_set: "set (cutoff k bs) - {0} = set (take k bs) - {0}"
  by (auto simp: cutoff_def)

lemma cutoff_freed: "dist0 bs \<Longrightarrow> set (drop k bs) - {0} = set bs - {0} - set (cutoff k bs)"
proof -
  assume "dist0 bs"
  then have "set (take k bs) \<inter> set (drop k bs) \<subseteq> {0}" by (metis append_take_drop_id dist0_append)
  moreover have "set bs = set (take k bs) \<union> set (drop k bs)" by (metis append_take_drop_id set_append)
  ultimately show ?thesis using cutoff_set [of k bs] by blast
qed

lemma cutoff_dist0: "dist0 bs \<Longrightarrow> dist0 (cutoff k bs)"
  by (auto simp: cutoff_def dist0_append dist0_zeros dist0_take)

lemma cutoff_all [simp]: "length bs \<le> k \<Longrightarrow> cutoff k bs = bs"
  by (simp add: cutoff_def)

lemma cutoff_zeros [simp]: "cutoff k (replicate m 0) = replicate m 0"
  by (rule nth_equalityI) (simp_all add: cutoff_nth)

lemma trunc_map_dist0: "dist0 bm \<Longrightarrow> dist0 (trunc_map bl bm)"
proof -
  assume "dist0 bm"
  then have d: "dist0 (take SFS_NDIRECT bm)" "dist0 (drop SFS_NDIRECT bm)"
      "set (take SFS_NDIRECT bm) \<inter> set (drop SFS_NDIRECT bm) \<subseteq> {0}"
    by (metis append_take_drop_id dist0_append)+
  have "set (cutoff k bs) \<subseteq> insert 0 (set bs)" for k bs by (auto simp: cutoff_def dest: in_set_takeD)
  then show ?thesis using d unfolding trunc_map_def dist0_append by (auto intro: cutoff_dist0) blast
qed

lemma trunc_map_subset: "set (trunc_map bl bm) \<subseteq> insert 0 (set bm)"
  by (auto simp: trunc_map_def cutoff_def dest: in_set_takeD in_set_dropD)

text \<open>The bytes before the new end are in blocks that stay.\<close>

lemma trunc_bytes:
  assumes len: "\<forall>x \<in> set (map (data_block B) bm). length x = 512" and same: "\<And>b. b \<in> set bm \<Longrightarrow> data_block B' b = data_block B b"
    and m: "m \<le> 512 * bl"
  shows "take m (concat (map (data_block B') (trunc_map bl bm))) = take m (concat (map (data_block B) bm))"
proof -
  let ?xs = "map (data_block B') (trunc_map bl bm)" and ?ys = "map (data_block B) bm"
  have z: "data_block B' 0 = data_block B 0" by (simp add: data_block_def)
  have eq: "?xs ! k = ?ys ! k" if "k < bl" "k < length bm" for k
    using that same [of "bm ! k"] by (simp add: trunc_map_nth)
  have ux: "\<forall>x \<in> set ?xs. length x = 512"
  proof
    fix x assume "x \<in> set ?xs"
    then obtain b where b: "x = data_block B' b" "b \<in> insert 0 (set bm)" using trunc_map_subset [of bl bm] by auto
    show "length x = 512"
    proof (cases "b = 0")
      case False
      then show ?thesis using b same [of b] len by auto
    qed (simp add: b data_block_def)
  qed
  show ?thesis
  proof (cases "bl < length bm")
    case True
    have "take bl ?xs = take bl ?ys" using eq True by (intro nth_equalityI) simp_all
    then have "take (512 * bl) (concat ?xs) = take (512 * bl) (concat ?ys)"
      using concat_split_at(1) [OF ux, of bl] concat_split_at(1) [OF len, of bl] True by simp
    then have "take m (take (512 * bl) (concat ?xs)) = take m (take (512 * bl) (concat ?ys))" by simp
    then show ?thesis using m by (simp only: take_take min_absorb1)
  next
    case False
    then have "?xs = ?ys" using eq by (intro nth_equalityI) simp_all
    then show ?thesis by simp
  qed
qed

lemma trunc_step:
  assumes ok: "fs_ok good n fs" and sv: "sv_mem fs v = Some sv" "sv_ok (nblocks fs) (used_blocks fs) (blk (sfs_device fs)) sv"
    and fs': "fs_ok good n fs'" "sfs_sb fs' = sfs_sb fs" "sfs_superdirty fs' = sfs_superdirty fs" "sfs_vnodes fs' = sfs_vnodes fs"
      "\<And>w. w \<noteq> v \<Longrightarrow> sv_mem fs' w = sv_mem fs w" "sv_mem fs' v = Some (sv\<lparr>sv_i := i', sv_dirty := True\<rparr>)"
    and i': "inode_wf i'" "sfi_indirect i' = sfi_indirect (sv_i sv) \<or> sfi_indirect i' = 0" "sfi_type i' = sfi_type (sv_i sv)"
      "sfi_linkcount i' = sfi_linkcount (sv_i sv)"
    and bm: "blkmap (blk (sfs_device fs')) i' = trunc_map bl (blkmap (blk (sfs_device fs)) (sv_i sv))"
    and disk: "\<And>c. c \<noteq> sfi_indirect (sv_i sv) \<Longrightarrow> blk (sfs_device fs') c = blk (sfs_device fs) c"
    and zero: "sfi_indirect (sv_i sv) = 0 \<Longrightarrow> blk (sfs_device fs') = blk (sfs_device fs)"
    and used: "used_blocks fs' = used_blocks fs - (inode_blocks (blk (sfs_device fs)) (sv_i sv) - inode_blocks (blk (sfs_device fs')) i')"
    and len: "\<forall>x \<in> set (map (data_block (blk (sfs_device fs))) (blkmap (blk (sfs_device fs)) (sv_i sv))). length x = 512"
    and m: "m \<le> 512 * bl"
  shows "file_step blk good n v fs fs'" and "take m (contents blk fs' v) = take m (contents blk fs v)"
proof -
  let ?B = "blk (sfs_device fs)" and ?B' = "blk (sfs_device fs')" and ?i = "sv_i sv"
  have io: "inode_ok (nblocks fs) (used_blocks fs) ?B ?i" using sv by (simp add: sv_ok_def)
  have ind: "sfi_indirect ?i \<noteq> 0 \<Longrightarrow> sfi_indirect ?i \<notin> set (blkmap ?B ?i)" using io by (simp add: inode_ok_def)
  have ib: "inode_blocks ?B' i' \<subseteq> inode_blocks ?B ?i"
    using trunc_map_subset [of bl "blkmap ?B ?i"] i'(2) by (auto simp: inode_blocks_def bm)
  have same: "data_block ?B' b = data_block ?B b" if "b \<in> set (blkmap ?B ?i)" for b
  proof (cases "b = 0")
    case False
    then have "b \<noteq> sfi_indirect ?i" using that ind by (cases "sfi_indirect ?i = 0") auto
    then show ?thesis using disk by (simp add: data_block_def)
  qed (simp add: data_block_def)
  show "take m (contents blk fs' v) = take m (contents blk fs v)"
    using trunc_bytes [OF len same m] fs'(6) sv(1) by (simp add: contents_def inode_of_def file_bytes_def bm)
  have "inode_blocks ?B' i' \<subseteq> used_blocks fs'" using ib io used by (auto simp: inode_ok_def)
  moreover have "sfi_indirect i' \<noteq> 0 \<Longrightarrow> sfi_indirect i' \<notin> set (trunc_map bl (blkmap ?B ?i))"
    using i'(2) ind trunc_map_subset [of bl "blkmap ?B ?i"] by auto
  moreover have "\<forall>b \<in> inode_blocks ?B' i'. b < nblocks fs'" using ib io fs'(2) by (auto simp: inode_ok_def)
  ultimately have io': "inode_ok (nblocks fs') (used_blocks fs') ?B' i'"
    using i'(1) io trunc_map_dist0 [of "blkmap ?B ?i" bl] by (simp add: inode_ok_def bm)
  have ino: "sv_ino sv \<in> used_blocks fs" "sv_ino sv \<notin> inode_blocks ?B ?i" "sv_ino sv \<noteq> 0" "sv_ino sv < nblocks fs"
    using sv by (simp_all add: sv_ok_def)
  then have "sv_ok (nblocks fs') (used_blocks fs') ?B' (sv\<lparr>sv_i := i', sv_dirty := True\<rparr>)"
    using io' ib fs'(2) used by (auto simp: sv_ok_def)
  then have "file_ok blk fs' v" using fs'(6) by (simp add: file_ok_def)
  moreover have "?B' b = ?B b" if "b \<in> used_blocks fs - inode_blocks ?B ?i" for b
  proof (cases "sfi_indirect ?i = 0")
    case True
    then show ?thesis using zero by simp
  next
    case False
    then have "b \<noteq> sfi_indirect ?i" using that by (auto simp: inode_blocks_def)
    then show ?thesis by (rule disk)
  qed
  ultimately show "file_step blk good n v fs fs'"
    using fs' i' sv(1) ib used by (auto simp: file_step_def owned_def file_blocks_def inode_of_def)
qed

text \<open>The blocks that leave a block map.\<close>

lemma trunc_freed:
  assumes "dist0 (D @ I)" and "ind \<noteq> 0 \<Longrightarrow> ind \<notin> set (D @ I)" and "ind' = ind \<or> ind' = 0"
  shows "insert ind (set (D @ I)) - {0} - (insert ind' (set (cutoff k D @ cutoff l I)) - {0}) =
    (set (drop k D) - {0}) \<union> (set (drop l I) - {0}) \<union> (if ind' = ind then {} else {ind} - {0})"
proof -
  have d: "dist0 D" "dist0 I" "set D \<inter> set I \<subseteq> {0}" using assms(1) by (simp_all add: dist0_append)
  have sub: "set (cutoff k D) \<subseteq> insert 0 (set D)" "set (cutoff l I) \<subseteq> insert 0 (set I)"
    by (auto simp: cutoff_def dest: in_set_takeD)
  show ?thesis
    unfolding cutoff_freed [OF d(1)] cutoff_freed [OF d(2)] set_append using d(3) sub assms(2,3) by auto
qed

text \<open>
  A state in the middle of a truncation of \<open>v\<close>: what is left of the direct blocks, of the entries of the
  indirect block and of the indirect block itself, and the set of the blocks freed so far.
\<close>

definition trunc_mid :: "('d \<Rightarrow> nat \<Rightarrow> bytes) \<Rightarrow> ('d \<Rightarrow> bool) \<Rightarrow> nat \<Rightarrow> nat \<Rightarrow> sfs_vnode \<Rightarrow> nat list \<Rightarrow> nat list \<Rightarrow> nat \<Rightarrow> nat set \<Rightarrow>
    'd sfs_fs \<Rightarrow> 'd sfs_fs \<Rightarrow> bool" where
  "trunc_mid blk good n v sv D I ind S fs fs' \<longleftrightarrow> fs_ok good n fs' \<and> sfs_sb fs' = sfs_sb fs \<and>
     sfs_superdirty fs' = sfs_superdirty fs \<and> sfs_vnodes fs' = sfs_vnodes fs \<and> (\<forall>w. w \<noteq> v \<longrightarrow> sv_mem fs' w = sv_mem fs w) \<and>
     (\<exists>dy. sv_mem fs' v = Some (sv\<lparr>sv_i := (sv_i sv)\<lparr>sfi_direct := D, sfi_indirect := ind\<rparr>, sv_dirty := dy\<rparr>)) \<and>
     (ind = sfi_indirect (sv_i sv) \<or> ind = 0) \<and>
     indir (blk (sfs_device fs')) ((sv_i sv)\<lparr>sfi_indirect := ind\<rparr>) = I \<and>
     (\<forall>c. c \<noteq> sfi_indirect (sv_i sv) \<longrightarrow> blk (sfs_device fs') c = blk (sfs_device fs) c) \<and>
     (sfi_indirect (sv_i sv) = 0 \<longrightarrow> blk (sfs_device fs') = blk (sfs_device fs)) \<and> used_blocks fs' = used_blocks fs - S"

lemma trunc_mid_freed:
  assumes "trunc_mid blk good n v sv D I ind S fs fs1" and "freed good n T fs1 fs2" and "sv_mem fs2 = sv_mem fs1"
  shows "trunc_mid blk good n v sv D I ind (S \<union> T) fs fs2"
  using assms unfolding trunc_mid_def freed_def by (simp add: set_diff_eq conj_comms)

lemma trunc_mid_same_disk:
  assumes "trunc_mid blk good n v sv D I ind S fs fs1" and "same_disk blk good fs1 fs2"
  shows "trunc_mid blk good n v sv D I ind S fs fs2"
  using assms(1) same_disk_fields [OF assms(2)] same_disk_ok(1) [OF assms(2)] unfolding trunc_mid_def by simp

text \<open>The indirect block is given back.\<close>

lemma trunc_mid_no_indirect:
  assumes "trunc_mid blk good n v sv D I ind S fs fs1"
  shows "trunc_mid blk good n v sv D (replicate SFS_DBPERIDB 0) 0 S fs (upd_inode v (\<lambda>i. i\<lparr>sfi_indirect := 0\<rparr>) fs1)"
  using assms unfolding trunc_mid_def by (auto simp: indir_def)

lemma trunc_mid_direct:
  assumes ok: "fs_ok good n fs" "file_ok blk fs v" and sv: "sv_mem fs v = Some sv"
  shows "\<exists>fs1. sfs_trunc_direct v bl (sfi_direct (sv_i sv)) 0 fs = Some fs1 \<and>
    trunc_mid blk good n v sv (cutoff bl (sfi_direct (sv_i sv))) (indir (blk (sfs_device fs)) (sv_i sv)) (sfi_indirect (sv_i sv))
      (set (drop bl (sfi_direct (sv_i sv))) - {0}) fs fs1"
proof -
  let ?B = "blk (sfs_device fs)" and ?i = "sv_i sv"
  have io: "inode_ok (nblocks fs) (used_blocks fs) ?B ?i" using ok(2) sv by (auto simp: file_ok_def sv_ok_def)
  have "\<forall>b \<in> set (sfi_direct ?i). b \<noteq> 0 \<longrightarrow> b \<in> used_blocks fs \<and> b < nblocks fs"
    using io inode_blocksI [of _ ?B ?i] by (auto simp: inode_ok_def blkmap_def)
  moreover have "dist0 (sfi_direct ?i)" using io by (simp add: inode_ok_def blkmap_def dist0_append)
  ultimately show ?thesis
    using trunc_direct_ok [OF ok(1) sv, of 0 "sfi_direct ?i" bl] unfolding trunc_mid_def freed_def by fastforce
qed

context block_device
begin

lemma truncate_finish:
  assumes ok: "fs_ok good n fs" "file_ok blk fs v" and sv: "sv_mem fs v = Some sv"
    and len: "0 \<le> len" "len < 2 ^ 31" "nat len \<le> 512 * bl"
    and mid: "trunc_mid blk good n v sv (cutoff bl (sfi_direct (sv_i sv))) (cutoff (Suc bl - SFS_NDIRECT) (indir (blk (sfs_device fs)) (sv_i sv)))
      ind' ((set (drop bl (sfi_direct (sv_i sv))) - {0}) \<union>
        (set (drop (Suc bl - SFS_NDIRECT) (indir (blk (sfs_device fs)) (sv_i sv))) - {0}) \<union>
        (if ind' = sfi_indirect (sv_i sv) then {} else {sfi_indirect (sv_i sv)} - {0})) fs fs5"
    and fs': "fs' = upd_inode v (\<lambda>i. i\<lparr>sfi_size := nat (len mod 2 ^ 32)\<rparr>) fs5"
  shows "file_step blk good n v fs fs'" and "sfi_size (inode_of fs' v) = nat len" and "sfi_indirect (inode_of fs' v) = ind'"
    and "take (nat len) (contents blk fs' v) = take (nat len) (contents blk fs v)"
    and "blkmap (blk (sfs_device fs')) (inode_of fs' v) = trunc_map bl (blkmap (blk (sfs_device fs)) (inode_of fs v))"
    and "used_blocks fs' = used_blocks fs - (file_blocks blk fs v - file_blocks blk fs' v)"
proof -
  let ?B = "blk (sfs_device fs)" and ?B' = "blk (sfs_device fs')" and ?i = "sv_i sv"
  let ?D = "sfi_direct ?i" and ?I = "indir ?B ?i"
  note m = mid [unfolded trunc_mid_def]
  define i' where "i' = ?i\<lparr>sfi_direct := cutoff bl ?D, sfi_indirect := ind', sfi_size := nat len\<rparr>"
  have svok: "sv_ok (nblocks fs) (used_blocks fs) ?B sv" and io: "inode_ok (nblocks fs) (used_blocks fs) ?B ?i" and wf: "inode_wf ?i"
    using ok(2) sv by (auto simp: file_ok_def sv_ok_def inode_ok_def)
  have md: "nat (len mod 2 ^ 32) = nat len" using len by (simp add: mod_pos_pos_trivial)
  have mem: "sv_mem fs' v = Some (sv\<lparr>sv_i := i', sv_dirty := True\<rparr>)"
    using m unfolding fs' md by (auto simp: i'_def)
  have dl: "length ?D = SFS_NDIRECT" using wf by (simp add: inode_wf_def)
  have ind': "ind' = sfi_indirect ?i \<or> ind' = 0" using m by blast
  have "set (cutoff bl ?D) \<subseteq> insert 0 (set ?D)" by (auto simp: cutoff_def dest: in_set_takeD)
  moreover have "nat len < 2 ^ 32" using len(1,2) by simp
  ultimately have wf': "inode_wf i'" using wf ind' dl by (auto simp: inode_wf_def i'_def)
  have "indir ?B' i' = indir (blk (sfs_device fs5)) (?i\<lparr>sfi_indirect := ind'\<rparr>)" by (simp add: indir_def i'_def fs')
  then have "indir ?B' i' = cutoff (Suc bl - SFS_NDIRECT) ?I" using m by simp
  then have bm': "blkmap ?B' i' = cutoff bl ?D @ cutoff (Suc bl - SFS_NDIRECT) ?I" by (simp add: blkmap_def i'_def)
  then have bm: "blkmap ?B' i' = trunc_map bl (blkmap ?B ?i)" using dl by (simp add: trunc_map_def blkmap_def)
  have "dist0 (?D @ ?I)" "sfi_indirect ?i \<noteq> 0 \<Longrightarrow> sfi_indirect ?i \<notin> set (?D @ ?I)"
    using io by (simp_all add: inode_ok_def blkmap_def)
  then have "inode_blocks ?B ?i - inode_blocks ?B' i' = (set (drop bl ?D) - {0}) \<union> (set (drop (Suc bl - SFS_NDIRECT) ?I) - {0}) \<union>
      (if ind' = sfi_indirect ?i then {} else {sfi_indirect ?i} - {0})"
    using trunc_freed [of ?D ?I "sfi_indirect ?i" ind' bl "Suc bl - SFS_NDIRECT"] ind'
    unfolding inode_blocks_def bm' by (simp add: blkmap_def i'_def)
  then have us: "used_blocks fs' = used_blocks fs - (inode_blocks ?B ?i - inode_blocks ?B' i')" using m by (simp add: fs')
  have uni: "\<forall>x \<in> set (map (data_block ?B) (blkmap ?B ?i)). length x = 512" using blocks_uniform [OF ok] sv by simp
  note ts = trunc_step [OF ok(1) sv svok _ _ _ _ _ mem wf' _ _ _ bm _ _ us uni len(3)]
  show "file_step blk good n v fs fs'" "take (nat len) (contents blk fs' v) = take (nat len) (contents blk fs v)"
    using ts m by (simp_all add: fs' i'_def)
  show "sfi_size (inode_of fs' v) = nat len" "sfi_indirect (inode_of fs' v) = ind'"
    using mem by (simp_all add: inode_of_def i'_def)
  show "blkmap ?B' (inode_of fs' v) = trunc_map bl (blkmap ?B (inode_of fs v))"
    "used_blocks fs' = used_blocks fs - (file_blocks blk fs v - file_blocks blk fs' v)"
    using mem sv bm us by (simp_all add: inode_of_def file_blocks_def)
qed

text \<open>The part of \<open>sfs_truncate\<close> that works on the indirect block.\<close>

lemma truncate_indirect:
  assumes ok: "fs_ok good n fs" "file_ok blk fs v" and sv: "sv_mem fs v = Some sv" and k: "k = Suc bl - SFS_NDIRECT"
    and D: "D = sfi_direct (sv_i sv)" and I: "I = indir (blk (sfs_device fs)) (sv_i sv)" and ind: "ind = sfi_indirect (sv_i sv)" "ind \<noteq> 0"
    and mid: "trunc_mid blk good n v sv (cutoff bl D) I ind (set (drop bl D) - {0}) fs fs1"
  shows "\<exists>fs5 ind'. sfs_trunc_idblock dio v bl ind fs1 = Some (Inr (), fs5) \<and>
    trunc_mid blk good n v sv (cutoff bl D) (cutoff k I) ind'
      ((set (drop bl D) - {0}) \<union> (set (drop k I) - {0}) \<union> (if ind' = ind then {} else {ind} - {0})) fs fs5 \<and> (bl = 0 \<longrightarrow> ind' = 0)"
proof -
  let ?B = "blk (sfs_device fs)"
  let ?S = "(set (drop bl D) - {0}) \<union> (set (drop k I) - {0})"
  have io: "inode_ok (nblocks fs) (used_blocks fs) ?B (sv_i sv)" using ok(2) sv by (auto simp: file_ok_def sv_ok_def)
  have all: "\<forall>b \<in> set I. b \<noteq> 0 \<longrightarrow> b \<in> used_blocks fs \<and> b < nblocks fs"
    using io inode_blocksI [of _ ?B "sv_i sv"] by (auto simp: inode_ok_def blkmap_def I)
  have dist: "dist0 I" "set D \<inter> set I \<subseteq> {0}" using io by (simp_all add: inode_ok_def blkmap_def dist0_append D I)
  have indok: "ind \<in> used_blocks fs" "ind < nblocks fs" "ind \<notin> set D" "ind \<notin> set I"
    using inode_ok_indirect [OF io] io ind by (simp_all add: inode_ok_def blkmap_def D I)
  have il: "length I = SFS_DBPERIDB" by (simp add: I)
  have g1: "good (sfs_device fs1)" "ind < n" using mid indok ok(1) by (auto simp: trunc_mid_def fs_ok_def)
  obtain fs2 where fs2: "sfs_rblock dio zero_block ind fs1 = Some (Inr (blk (sfs_device fs1) ind), fs2)" "same_disk blk good fs1 fs2"
    using rblock_ok [OF g1, of zero_block] by auto
  have rd: "un_be32s SFS_DBPERIDB (blk (sfs_device fs1) ind) = I" using mid ind by (simp add: trunc_mid_def indir_def)
  have mid2: "trunc_mid blk good n v sv (cutoff bl D) I ind (set (drop bl D) - {0}) fs fs2"
    using trunc_mid_same_disk [OF mid fs2(2)] .
  then have ok2: "fs_ok good n fs2" by (simp add: trunc_mid_def)
  have "\<forall>b \<in> set I. b \<noteq> 0 \<longrightarrow> b \<in> used_blocks fs2 \<and> b < nblocks fs2"
    using all dist(2) mid2 set_drop_subset [of bl D] unfolding trunc_mid_def by auto
  then obtain fs3 where fs3: "sfs_trunc_indirect bl I 0 fs2 = Some (cutoff k I, set (drop k I) - {0} \<noteq> {}, fs3)"
      "freed good n (set (drop k I) - {0}) fs2 fs3" "sv_mem fs3 = sv_mem fs2"
    using trunc_indirect_ok [OF ok2 dist(1), of bl 0] k by auto
  have mid3: "trunc_mid blk good n v sv (cutoff bl D) I ind ?S fs fs3" using trunc_mid_freed [OF mid2 fs3(2,3)] .
  then have f3: "fs_ok good n fs3" "used_blocks fs3 = used_blocks fs - ?S" "sfs_sb fs3 = sfs_sb fs" by (simp_all add: trunc_mid_def)
  have cut0: "bl = 0 \<Longrightarrow> cutoff k I = replicate SFS_DBPERIDB 0" using il k by (simp add: cutoff_def)
  consider (zero) "\<forall>b \<in> set (cutoff k I). b = 0" | (clean) "\<not> (\<forall>b \<in> set (cutoff k I). b = 0)" "set (drop k I) - {0} = {}"
    | (dirty) "\<not> (\<forall>b \<in> set (cutoff k I). b = 0)" "set (drop k I) - {0} \<noteq> {}" by blast
  then show ?thesis
  proof cases
    case zero
    have "ind \<in> used_blocks fs3" using indok f3(2) by (auto dest: in_set_dropD)
    then obtain fs4 where fs4: "sfs_bfree ind fs3 = Some fs4" "freed good n {ind} fs3 fs4" "sv_mem fs4 = sv_mem fs3"
      using bfree_ok [OF f3(1), of ind] indok ind(2) f3(3) by auto
    have "cutoff k I = replicate SFS_DBPERIDB 0" using zero replicate_length_same [of "cutoff k I" 0] il by simp
    then have "trunc_mid blk good n v sv (cutoff bl D) (cutoff k I) 0 (?S \<union> {ind}) fs (upd_inode v (\<lambda>i. i\<lparr>sfi_indirect := 0\<rparr>) fs4)"
      using trunc_mid_no_indirect [OF trunc_mid_freed [OF mid3 fs4(2,3)]] by simp
    then show ?thesis
      using fs2(1) rd fs3(1) zero fs4(1) ind by (intro exI [of _ "upd_inode v (\<lambda>i. i\<lparr>sfi_indirect := 0\<rparr>) fs4"] exI [of _ 0]) (simp add: sfs_trunc_idblock_def)
  next
    case clean
    have "I ! j = 0" if "j < length I" "\<not> j < k" for j
    proof -
      have "I ! j \<in> set (drop k I)" using that nth_mem [of "j - k" "drop k I"] by simp
      then show ?thesis using clean(2) by blast
    qed
    then have "cutoff k I = I" by (intro nth_equalityI) (simp_all add: cutoff_nth)
    then have "trunc_mid blk good n v sv (cutoff bl D) (cutoff k I) ind ?S fs fs3" using mid3 by simp
    moreover have "bl \<noteq> 0" using cut0 clean(1) by force
    ultimately show ?thesis
      using fs2(1) rd fs3(1) clean(1) by (intro exI [of _ fs3] exI [of _ ind]) (auto simp: clean(2) sfs_trunc_idblock_def)
  next
    case dirty
    have "good (sfs_device fs3)" "length (be32s (cutoff k I)) = 512" using f3(1) il by (simp_all add: fs_ok_def)
    then obtain d where d: "sfs_wblock dio (be32s (cutoff k I)) ind fs3 = Some (Inr (), fs3\<lparr>sfs_device := d\<rparr>)" "good d"
        "blk d = (blk (sfs_device fs3))(ind := be32s (cutoff k I))"
      using wblock_ok [of fs3 ind] g1(2) by metis
    have "\<forall>b \<in> set (cutoff k I). b < 2 ^ 32"
      using indir_bound [of _ ?B "sv_i sv"] I by (auto simp: cutoff_def dest: in_set_takeD)
    then have "un_be32s SFS_DBPERIDB (be32s (cutoff k I)) = cutoff k I" using il by (intro un_be32s_be32s') simp_all
    then have "trunc_mid blk good n v sv (cutoff bl D) (cutoff k I) ind ?S fs (fs3\<lparr>sfs_device := d\<rparr>)"
      using mid3 d ind fs_ok_device [of good d n fs3] unfolding trunc_mid_def by (simp add: indir_def)
    moreover have "bl \<noteq> 0" using cut0 dirty(1) by force
    ultimately show ?thesis
      using fs2(1) rd fs3(1) dirty d(1) by (intro exI [of _ "fs3\<lparr>sfs_device := d\<rparr>"] exI [of _ ind]) (auto simp: sfs_trunc_idblock_def)
  qed
qed

lemma truncate_ok:
  assumes ok: "fs_ok good n fs" "file_ok blk fs v" and len: "0 \<le> len" "len + 511 < 2 ^ 31" and bl: "bl = nat ((len + 511) div 512)"
  shows "\<exists>fs'. sfs_truncate dio v len fs = Some (Inr (), fs') \<and> file_step blk good n v fs fs' \<and> sfi_size (inode_of fs' v) = nat len \<and>
    take (nat len) (contents blk fs' v) = take (nat len) (contents blk fs v) \<and>
    blkmap (blk (sfs_device fs')) (inode_of fs' v) = trunc_map bl (blkmap (blk (sfs_device fs)) (inode_of fs v)) \<and>
    used_blocks fs' = used_blocks fs - (file_blocks blk fs v - file_blocks blk fs' v) \<and> (bl = 0 \<longrightarrow> file_blocks blk fs' v = {})"
proof -
  obtain sv where sv: "sv_mem fs v = Some sv" using ok(2) by (elim file_okE)
  let ?ind = "sfi_indirect (sv_i sv)" and ?I = "indir (blk (sfs_device fs)) (sv_i sv)" and ?D = "sfi_direct (sv_i sv)"
  let ?k = "Suc bl - SFS_NDIRECT" and ?fin = "\<lambda>fs5. upd_inode v (\<lambda>i. i\<lparr>sfi_size := nat (len mod 2 ^ 32)\<rparr>) fs5"
  let ?mid = "\<lambda>ind'. trunc_mid blk good n v sv (cutoff bl ?D) (cutoff ?k ?I) ind' ((set (drop bl ?D) - {0}) \<union> (set (drop ?k ?I) - {0}) \<union>
    (if ind' = ?ind then {} else {?ind} - {0})) fs"
  have obl: "off_blk (c_int (len + 511)) = bl" using len by (simp add: c_int_id off_blk_nonneg bl)
  have lim: "len < 2 ^ 31" "nat len \<le> 512 * bl" using len unfolding bl by linarith+
  obtain fs1 where fs1: "sfs_trunc_direct v bl ?D 0 fs = Some fs1"
      "trunc_mid blk good n v sv (cutoff bl ?D) ?I ?ind (set (drop bl ?D) - {0}) fs fs1"
    using trunc_mid_direct [OF ok sv, of bl] by blast
  have "\<exists>fs5 ind'. sfs_truncate dio v len fs = Some (Inr (), ?fin fs5) \<and> ?mid ind' fs5 \<and> (bl = 0 \<longrightarrow> ind' = 0)"
  proof (cases "bl < SFS_NDIRECT + SFS_DBPERIDB - 1 \<and> ?ind \<noteq> 0")
    case False
    have "set (drop ?k ?I) - {0} = {} \<and> cutoff ?k ?I = ?I"
    proof (cases "?ind = 0")
      case False
      then have "length ?I \<le> ?k" using \<open>\<not> (bl < SFS_NDIRECT + SFS_DBPERIDB - 1 \<and> ?ind \<noteq> 0)\<close> by simp
      then show ?thesis by (simp add: cutoff_def)
    qed (auto simp: indir_def)
    then have "?mid ?ind fs1" using fs1(2) by (simp only: Un_empty_right refl if_True)
    moreover have "bl = 0 \<Longrightarrow> ?ind = 0" using False by simp
    moreover have "sfs_truncate dio v len fs = Some (Inr (), ?fin fs1)"
      using False sv fs1(1) obl by (auto simp: sfs_truncate_def Let_def)
    ultimately show ?thesis by blast
  next
    case True
    then obtain fs5 ind' where i: "?mid ind' fs5" "bl = 0 \<longrightarrow> ind' = 0" and run: "sfs_trunc_idblock dio v bl ?ind fs1 = Some (Inr (), fs5)"
      using truncate_indirect [OF ok sv refl refl refl refl _ fs1(2)] by metis
    have "sfs_truncate dio v len fs = Some (Inr (), ?fin fs5)"
      unfolding sfs_truncate_def Let_def sv obl using True fs1(1) run by simp
    then show ?thesis using i by blast
  qed
  then obtain fs5 ind' where r: "sfs_truncate dio v len fs = Some (Inr (), ?fin fs5)" "?mid ind' fs5" "bl = 0 \<Longrightarrow> ind' = 0" by blast
  note fin = truncate_finish [OF ok sv len(1) lim r(2) refl]
  have "bl = 0 \<Longrightarrow> file_blocks blk (?fin fs5) v = {}"
    using fin(3,5) r(3) by (auto simp: file_blocks_def inode_blocks_def trunc_map_def cutoff_def)
  then show ?thesis using r(1) fin by blast
qed

end

section \<open>Writing the inode back\<close>

context block_device
begin

lemma sync_inode_ok:
  assumes ok: "fs_ok good n fs" "file_ok blk fs v" and sv: "sv_mem fs v = Some sv"
  shows "\<exists>fs'. sfs_sync_inode dio v fs = Some (Inr (), fs') \<and> file_step blk good n v fs fs' \<and>
    sv_mem fs' v = Some (sv\<lparr>sv_dirty := False\<rparr>) \<and> sfs_freemap fs' = sfs_freemap fs \<and> sfs_freemapdirty fs' = sfs_freemapdirty fs \<and>
    contents blk fs' v = contents blk fs v \<and> file_blocks blk fs' v = file_blocks blk fs v \<and>
    decode_inode (blk (sfs_device fs') (sv_ino sv)) = sv_i sv \<and>
    (\<forall>b. b \<noteq> sv_ino sv \<longrightarrow> blk (sfs_device fs') b = blk (sfs_device fs) b)"
proof -
  let ?B = "blk (sfs_device fs)"
  have svok: "sv_ok (nblocks fs) (used_blocks fs) ?B sv" and wf: "inode_wf (sv_i sv)"
    using ok(2) sv by (auto simp: file_ok_def sv_ok_def inode_ok_def)
  have ino: "sv_ino sv \<notin> inode_blocks ?B (sv_i sv)" "sv_ino sv < nblocks fs" "sv_ino sv \<in> used_blocks fs" "sv_ino sv \<noteq> 0"
    using svok by (simp_all add: sv_ok_def)
  show ?thesis
  proof (cases "sv_dirty sv")
    case False
    then have "sv\<lparr>sv_dirty := False\<rparr> = sv" "decode_inode (?B (sv_ino sv)) = sv_i sv" using svok by (simp_all add: sv_ok_def)
    then show ?thesis using False sv file_step_refl [OF ok] by (simp add: sfs_sync_inode_def)
  next
    case True
    have "good (sfs_device fs)" "sv_ino sv < n" using ok(1) ino by (auto simp: fs_ok_def)
    then obtain d where d: "sfs_wblock dio (encode_inode (sv_i sv)) (sv_ino sv) fs = Some (Inr (), fs\<lparr>sfs_device := d\<rparr>)" "good d"
        "blk d = ?B(sv_ino sv := encode_inode (sv_i sv))"
      using wblock_ok [of fs "sv_ino sv"] encode_length(1) [OF wf] by metis
    define fs' where "fs' = upd_sv v (\<lambda>sv. sv\<lparr>sv_dirty := False\<rparr>) (fs\<lparr>sfs_device := d\<rparr>)"
    have mem: "sv_mem fs' v = Some (sv\<lparr>sv_dirty := False\<rparr>)" "\<And>w. w \<noteq> v \<Longrightarrow> sv_mem fs' w = sv_mem fs w"
      using sv by (simp_all add: fs'_def upd_sv_def)
    have f': "sfs_sb fs' = sfs_sb fs" "sfs_superdirty fs' = sfs_superdirty fs" "sfs_vnodes fs' = sfs_vnodes fs"
        "sfs_freemap fs' = sfs_freemap fs" "sfs_freemapdirty fs' = sfs_freemapdirty fs" "sfs_device fs' = d"
      by (simp_all add: fs'_def upd_sv_def)
    have same: "blk (sfs_device fs') b = ?B b" if "b \<noteq> sv_ino sv" for b using d(3) f'(6) that by simp
    then have fr: "blk (sfs_device fs') b = ?B b" if "b \<in> inode_blocks ?B (sv_i sv)" for b using ino(1) that by metis
    note fr = inode_frame [of ?B "sv_i sv" "blk (sfs_device fs')", OF fr]
    have dec: "decode_inode (blk (sfs_device fs') (sv_ino sv)) = sv_i sv"
      using d(3) f'(6) decode_encode_inode [OF wf] by simp
    then have "file_ok blk fs' v"
      using mem f' svok fr by (simp add: file_ok_def sv_ok_def)
    moreover have "fs_ok good n fs'" using ok(1) f' d(2) by (simp add: fs_ok_def)
    ultimately have "file_step blk good n v fs fs'"
      using mem f' sv fr(2) same by (simp add: file_step_def file_blocks_def inode_of_def owned_def)
    moreover have "sfs_sync_inode dio v fs = Some (Inr (), fs')"
      using sv True d(1) by (simp add: sfs_sync_inode_def fs'_def)
    ultimately show ?thesis
      using mem(1) f' dec same fr sv by (intro exI [of _ fs']) (simp add: contents_def file_blocks_def inode_of_def)
  qed
qed

end

section \<open>Reclaiming a vnode\<close>

lemma vnode_index_ok:
  assumes "array_inv (sfs_vnodes fs)" and "k < length (array_list (sfs_vnodes fs))" and "array_list (sfs_vnodes fs) ! k = v"
    and "distinct (array_list (sfs_vnodes fs))"
  shows "i \<le> k \<Longrightarrow> sfs_vnode_index v (int i) fs = Some (int k)"
proof (induction "k - i" arbitrary: i)
  case 0
  then show ?case using assms arr.getguy [of "sfs_vnodes fs" "int k"] arr.getnum [of "sfs_vnodes fs"]
    by (simp add: sfs_vnode_index.simps [of v "int i"])
next
  case (Suc d)
  then have "i < k" by simp
  then have "array_list (sfs_vnodes fs) ! i \<noteq> v" using assms by (metis nat_neq_iff nth_eq_iff_index_eq order.strict_trans)
  moreover have "sfs_vnode_index v (int (Suc i)) fs = Some (int k)" using Suc by (intro Suc(1)) auto
  ultimately show ?case
    using \<open>i < k\<close> assms arr.getguy [of "sfs_vnodes fs" "int i"] arr.getnum [of "sfs_vnodes fs"]
    by (simp add: sfs_vnode_index.simps [of v "int i"] add.commute)
qed

text \<open>The vnode \<open>v\<close> and the blocks it owned are gone.\<close>

lemma forget_inv:
  assumes inv: "sfs_inv blk good n fs" and v: "v \<in> dom (sv_mem fs)"
    and fr: "freed good n S fs fs1" "sv_mem fs1 = sv_mem fs" "S \<subseteq> owned blk fs v"
    and a: "array_inv a" "distinct (array_list a)" "set (array_list a) = dom (sv_mem fs) - {v}"
    and fs': "fs' = fs1\<lparr>sfs_vnodes := a, sv_mem := (sv_mem fs1)(v := None)\<rparr>"
  shows "sfs_inv blk good n fs'"
    and "\<forall>w \<in> dom (sv_mem fs) - {v}. sv_mem fs' w = sv_mem fs w \<and> contents blk fs' w = contents blk fs w"
proof -
  have dom: "dom (sv_mem fs') = dom (sv_mem fs) - {v}" using fr(2) by (auto simp: fs')
  have mem: "sv_mem fs' w = sv_mem fs w" if "w \<noteq> v" for w using that fr(2) by (simp add: fs')
  have "fs_ok good n fs1" using fr(1) by (simp add: freed_def)
  then have fsok: "fs_ok good n fs'" by (simp add: fs' fs_ok_def)
  have f': "sfs_device fs' = sfs_device fs" "sfs_sb fs' = sfs_sb fs" "used_blocks fs' = used_blocks fs - S"
    using fr(1) by (simp_all add: fs' freed_def)
  have own: "owned blk fs' w = owned blk fs w" "inode_of fs' w = inode_of fs w" if "w \<noteq> v" for w
    using mem [OF that] f'(1) by (simp_all add: owned_def file_blocks_def inode_of_def)
  have fok: "file_ok blk fs' w" if "w \<in> dom (sv_mem fs) - {v}" for w
  proof -
    have "file_ok blk fs w" "owned blk fs w \<inter> owned blk fs v = {}" using inv v that unfolding sfs_inv_def by blast+
    then have o: "owned blk fs w \<subseteq> used_blocks fs'" using owned_used [of blk fs w] fr(3) f'(3) by blast
    obtain sv where sv: "sv_mem fs w = Some sv" "sv_ok (nblocks fs) (used_blocks fs) (blk (sfs_device fs)) sv"
      using \<open>file_ok blk fs w\<close> by (auto simp: file_ok_def)
    have "inode_blocks (blk (sfs_device fs)) (sv_i sv) \<subseteq> used_blocks fs'" "sv_ino sv \<in> used_blocks fs'"
      using o sv(1) by (auto simp: owned_def file_blocks_def)
    then have "sv_ok (nblocks fs') (used_blocks fs') (blk (sfs_device fs')) sv"
      using sv(2) f' inode_ok_sub [of "nblocks fs" "used_blocks fs" "blk (sfs_device fs)" "sv_i sv" "used_blocks fs'"]
      by (simp add: sv_ok_def)
    then show ?thesis using mem [of w] that sv(1) by (simp add: file_ok_def)
  qed
  have "vnode_table fs'" using a dom by (simp add: vnode_table_def fs')
  then show "sfs_inv blk good n fs'"
    using inv dom fok own fsok unfolding sfs_inv_def by auto
  show "\<forall>w \<in> dom (sv_mem fs) - {v}. sv_mem fs' w = sv_mem fs w \<and> contents blk fs' w = contents blk fs w"
    using mem own f'(1) by (simp add: contents_def)
qed

lemma forget_table:
  assumes inv: "sfs_inv blk good n fs" and v: "v \<in> dom (sv_mem fs)" and same: "sfs_vnodes fs1 = sfs_vnodes fs"
  shows "\<exists>ix a. sfs_vnode_index v 0 fs1 = Some ix \<and> array_remove (sfs_vnodes fs1) ix = Some a \<and> array_inv a \<and>
    distinct (array_list a) \<and> set (array_list a) = dom (sv_mem fs) - {v}"
proof -
  let ?l = "array_list (sfs_vnodes fs)"
  have t: "array_inv (sfs_vnodes fs)" "distinct ?l" "set ?l = dom (sv_mem fs)" using inv by (auto simp: sfs_inv_def vnode_table_def)
  obtain k where k: "k < length ?l" "?l ! k = v" using v t(3) by (metis in_set_conv_nth)
  have ix: "sfs_vnode_index v 0 fs1 = Some (int k)" using vnode_index_ok [of fs1 k v 0] t k same by simp
  obtain a where a: "array_remove (sfs_vnodes fs) (int k) = Some a" "array_inv a" "array_list a = take k ?l @ drop (Suc k) ?l"
    using arr.remove [OF t(1), of "int k"] k by auto
  have l: "?l = take k ?l @ v # drop (Suc k) ?l" using k id_take_nth_drop by metis
  then have "distinct (take k ?l @ v # drop (Suc k) ?l)" using t(2) by simp
  then have "distinct (array_list a)" "v \<notin> set (array_list a)" using a(3) by auto
  moreover have "insert v (set (array_list a)) = dom (sv_mem fs)" using t(3) l a(3) by (metis Un_insert_right list.set(2) set_append)
  ultimately show ?thesis using ix a same by (intro exI [of _ "int k"] exI [of _ a]) auto
qed

text \<open>The inode has been written back and the inode's block freed where no name is left.\<close>

context block_device
begin

lemma reclaim_tail:
  assumes inv: "sfs_inv blk good n fs" and sv: "sv_mem fs v = Some sv"
    and S: "S = (if sfi_linkcount (sv_i sv) = 0 then {sv_ino sv} else {})"
  shows "\<exists>fs2 fs3 ix a fs'. sfs_sync_inode dio v fs = Some (Inr (), fs2) \<and>
    (if sfi_linkcount (sv_i sv) = 0 then sfs_bfree (sv_ino sv) fs2 else Some fs2) = Some fs3 \<and>
    sfs_vnode_index v 0 fs3 = Some ix \<and> array_remove (sfs_vnodes fs3) ix = Some a \<and>
    fs' = fs3\<lparr>sfs_vnodes := a, sv_mem := (sv_mem fs3)(v := None)\<rparr> \<and>
    sfs_inv blk good n fs' \<and> sv_mem fs' = (sv_mem fs)(v := None) \<and> used_blocks fs' = used_blocks fs - S \<and>
    decode_inode (blk (sfs_device fs') (sv_ino sv)) = sv_i sv \<and>
    (\<forall>w \<in> dom (sv_mem fs) - {v}. contents blk fs' w = contents blk fs w) \<and> sfs_sb fs' = sfs_sb fs \<and>
    (\<forall>b. b \<noteq> sv_ino sv \<longrightarrow> blk (sfs_device fs') b = blk (sfs_device fs) b)"
proof -
  have v: "v \<in> dom (sv_mem fs)" using sv by blast
  have ok: "fs_ok good n fs" "file_ok blk fs v" using inv v by (simp_all add: sfs_inv_def)
  obtain fs2 where fs2: "sfs_sync_inode dio v fs = Some (Inr (), fs2)" "file_step blk good n v fs fs2"
      "sv_mem fs2 v = Some (sv\<lparr>sv_dirty := False\<rparr>)" "sfs_freemap fs2 = sfs_freemap fs"
      "decode_inode (blk (sfs_device fs2) (sv_ino sv)) = sv_i sv"
      "\<forall>b. b \<noteq> sv_ino sv \<longrightarrow> blk (sfs_device fs2) b = blk (sfs_device fs) b"
    using sync_inode_ok [OF ok sv] by blast
  have inv2: "sfs_inv blk good n fs2" using file_step_inv [OF fs2(2) inv v] .
  have v2: "v \<in> dom (sv_mem fs2)" using fs2(3) by blast
  have ok2: "fs_ok good n fs2" "file_ok blk fs2 v" using inv2 v2 by (simp_all add: sfs_inv_def)
  have ino: "sv_ino sv \<in> used_blocks fs2" "sv_ino sv \<noteq> 0" "sv_ino sv < nblocks fs2"
    using ok2(2) fs2(3) by (auto simp: file_ok_def sv_ok_def)
  obtain fs3 where fs3: "(if sfi_linkcount (sv_i sv) = 0 then sfs_bfree (sv_ino sv) fs2 else Some fs2) = Some fs3"
      "freed good n S fs2 fs3" "sv_mem fs3 = sv_mem fs2"
    using bfree_ok [OF ok2(1) ino] freed_refl [OF ok2(1)] S by (cases "sfi_linkcount (sv_i sv) = 0") auto
  have same: "sfs_vnodes fs3 = sfs_vnodes fs2" "sfs_device fs3 = sfs_device fs2" using fs3(2) by (simp_all add: freed_def)
  obtain ix a where a: "sfs_vnode_index v 0 fs3 = Some ix" "array_remove (sfs_vnodes fs3) ix = Some a" "array_inv a"
      "distinct (array_list a)" "set (array_list a) = dom (sv_mem fs2) - {v}"
    using forget_table [OF inv2 v2 same(1)] by blast
  define fs' where "fs' = fs3\<lparr>sfs_vnodes := a, sv_mem := (sv_mem fs3)(v := None)\<rparr>"
  have "S \<subseteq> owned blk fs2 v" using S fs2(3) by (auto simp: owned_def)
  note fi = forget_inv [OF inv2 v2 fs3(2,3) this a(3-5) fs'_def]
  have other: "sv_mem fs2 w = sv_mem fs w" if "w \<noteq> v" for w using fs2(2) that by (simp add: file_step_def)
  then have mem: "sv_mem fs' = (sv_mem fs)(v := None)" using fs3(3) by (auto simp: fs'_def)
  have dom2: "dom (sv_mem fs2) - {v} = dom (sv_mem fs) - {v}" using other by (auto simp: dom_def)
  have "contents blk fs' w = contents blk fs w" if "w \<in> dom (sv_mem fs) - {v}" for w
    using fi(2) that dom2 file_step_other(2) [OF fs2(2) inv _ _ v, of w] by auto
  moreover have "used_blocks fs' = used_blocks fs - S" "sfs_sb fs' = sfs_sb fs"
    using fs3(2) fs2(2,4) by (simp_all add: fs'_def freed_def file_step_def)
  ultimately show ?thesis
    using fs2(1,5,6) fs3(1) a(1,2) fi(1) mem same(2) fs'_def
    by (intro exI [of _ fs2] exI [of _ fs3] exI [of _ ix] exI [of _ a] exI [of _ fs']) (simp add: fs'_def)
qed

text \<open>The last reference to a file that still has a name: its inode is on the disk, its blocks stay.\<close>

lemma reclaim_keeps:
  assumes inv: "sfs_inv blk good n fs" and sv: "sv_mem fs v = Some sv" "vn_refcount sv = 1" "vn_opencount sv = 0" "sfi_linkcount (sv_i sv) \<noteq> 0"
  shows "\<exists>fs'. sfs_reclaim dio v fs = Some (Inr (), fs') \<and> sfs_inv blk good n fs' \<and> sv_mem fs' = (sv_mem fs)(v := None) \<and>
    used_blocks fs' = used_blocks fs \<and> decode_inode (blk (sfs_device fs') (sv_ino sv)) = sv_i sv \<and>
    (\<forall>w \<in> dom (sv_mem fs) - {v}. contents blk fs' w = contents blk fs w) \<and> sfs_sb fs' = sfs_sb fs \<and>
    (\<forall>b. b \<noteq> sv_ino sv \<longrightarrow> blk (sfs_device fs') b = blk (sfs_device fs) b)"
  using reclaim_tail [OF inv sv(1) refl] sv by (elim exE conjE) (simp add: sfs_reclaim_def)

text \<open>The last reference to a file without a name: all its blocks are free.\<close>

lemma reclaim_frees:
  assumes inv: "sfs_inv blk good n fs" and sv: "sv_mem fs v = Some sv" "vn_refcount sv = 1" "vn_opencount sv = 0" "sfi_linkcount (sv_i sv) = 0"
    "sfi_type (sv_i sv) = SFS_TYPE_FILE"
  shows "\<exists>fs'. sfs_reclaim dio v fs = Some (Inr (), fs') \<and> sfs_inv blk good n fs' \<and> sv_mem fs' = (sv_mem fs)(v := None) \<and>
    used_blocks fs' = used_blocks fs - owned blk fs v \<and> sfs_sb fs' = sfs_sb fs \<and>
    (\<forall>w \<in> dom (sv_mem fs) - {v}. contents blk fs' w = contents blk fs w) \<and>
    (\<forall>b \<in> used_blocks fs - owned blk fs v. blk (sfs_device fs') b = blk (sfs_device fs) b)"
proof -
  have v: "v \<in> dom (sv_mem fs)" using sv(1) by blast
  have ok: "fs_ok good n fs" "file_ok blk fs v" using inv v by (simp_all add: sfs_inv_def)
  obtain fs1 where fs1: "sfs_truncate dio v 0 fs = Some (Inr (), fs1)" "file_step blk good n v fs fs1"
      "used_blocks fs1 = used_blocks fs - file_blocks blk fs v"
    using truncate_ok [OF ok, of 0 0] by auto
  have inv1: "sfs_inv blk good n fs1" using file_step_inv [OF fs1(2) inv v] .
  then have "file_ok blk fs1 v" using fs1(2) by (simp add: file_step_def)
  then obtain sv1 where sv1: "sv_mem fs1 v = Some sv1" by (elim file_okE)
  have eq: "sv_ino sv1 = sv_ino sv" "sfi_linkcount (sv_i sv1) = 0"
    using fs1(2) sv(1,4) sv1 by (simp_all add: file_step_def inode_of_def)
  have other: "sv_mem fs1 w = sv_mem fs w" if "w \<noteq> v" for w using fs1(2) that by (simp add: file_step_def)
  then have m: "(sv_mem fs1)(v := None) = (sv_mem fs)(v := None)" "dom (sv_mem fs1) - {v} = dom (sv_mem fs) - {v}"
    by (auto simp: dom_def)
  have c: "contents blk fs1 w = contents blk fs w" if "w \<in> dom (sv_mem fs) - {v}" for w
    using that file_step_other(2) [OF fs1(2) inv _ _ v, of w] by auto
  have u: "used_blocks fs1 - {sv_ino sv} = used_blocks fs - owned blk fs v"
    unfolding fs1(3) using sv(1) by (auto simp: owned_def)
  obtain fs2 fs3 ix a fs' where r: "sfs_sync_inode dio v fs1 = Some (Inr (), fs2)" "sfs_bfree (sv_ino sv) fs2 = Some fs3"
      "sfs_vnode_index v 0 fs3 = Some ix" "array_remove (sfs_vnodes fs3) ix = Some a"
      "fs' = fs3\<lparr>sfs_vnodes := a, sv_mem := (sv_mem fs3)(v := None)\<rparr>" "sfs_inv blk good n fs'"
      "sv_mem fs' = (sv_mem fs)(v := None)" "used_blocks fs' = used_blocks fs - owned blk fs v"
      "\<forall>w \<in> dom (sv_mem fs) - {v}. contents blk fs' w = contents blk fs1 w" "sfs_sb fs' = sfs_sb fs1"
      "\<forall>b. b \<noteq> sv_ino sv \<longrightarrow> blk (sfs_device fs') b = blk (sfs_device fs1) b"
    using reclaim_tail [OF inv1 sv1 refl] unfolding eq m if_P [OF refl] u by (elim exE conjE) (erule that; assumption)
  have "sfs_reclaim dio v fs = Some (Inr (), fs')"
    using sv fs1(1) r(1-5) by (simp add: sfs_reclaim_def)
  moreover have "blk (sfs_device fs') b = blk (sfs_device fs) b" if "b \<in> used_blocks fs - owned blk fs v" for b
    using that r(11) fs1(2) sv(1) by (auto simp: file_step_def owned_def)
  moreover have "sfs_sb fs' = sfs_sb fs" using r(10) fs1(2) by (simp add: file_step_def)
  ultimately show ?thesis using r(6-9) c by auto
qed

end

end
