(* ===== verification/Sfs_Volume.thy ===== *)
theory Sfs_Volume
  imports Sfs_Dir Sfs_Trunc Sfs_Ops
begin

text \<open>
  Whole volumes.  A volume is described by the map \<open>I\<close> from the inode numbers in use to the
  inodes as they are now: the one in memory for a loaded vnode, the one on the disk otherwise.  The lemmas
  say how loading, making, changing and reclaiming a vnode change \<open>I\<close>, and what the
  operations on names do to it.
\<close>

section \<open>The invariant\<close>

definition ino_blocks :: "(nat \<Rightarrow> bytes) \<Rightarrow> nat \<Rightarrow> sfs_inode \<Rightarrow> nat set" where
  "ino_blocks B ino i = insert ino (inode_blocks B i)"

definition live :: "nat \<Rightarrow> nat set \<Rightarrow> (nat \<Rightarrow> bytes) \<Rightarrow> nat \<Rightarrow> sfs_inode \<Rightarrow> bool" where
  "live nb U B ino i \<longleftrightarrow> inode_ok nb U B i \<and> ino \<in> U \<and> ino < nb \<and> ino \<noteq> 0 \<and> ino \<notin> inode_blocks B i"

text \<open>The inode is loaded and has changed since it was last written.\<close>

definition dirty_at :: "'d sfs_fs \<Rightarrow> nat \<Rightarrow> bool" where
  "dirty_at fs ino \<longleftrightarrow> (\<exists>v sv. sv_mem fs v = Some sv \<and> sv_ino sv = ino \<and> sv_dirty sv)"

text \<open>No inode is loaded twice.\<close>

definition inos_distinct :: "'d sfs_fs \<Rightarrow> bool" where
  "inos_distinct fs \<longleftrightarrow> (\<forall>v sv w sw. sv_mem fs v = Some sv \<longrightarrow> sv_mem fs w = Some sw \<longrightarrow> sv_ino sv = sv_ino sw \<longrightarrow> v = w)"

definition vol :: "('d \<Rightarrow> nat \<Rightarrow> bytes) \<Rightarrow> ('d \<Rightarrow> bool) \<Rightarrow> nat \<Rightarrow> (nat \<Rightarrow> sfs_inode option) \<Rightarrow> 'd sfs_fs \<Rightarrow> bool" where
  "vol blk good n I fs \<longleftrightarrow> fs_ok good n fs \<and> vnode_table fs \<and> inos_distinct fs \<and>
     (\<forall>v sv. sv_mem fs v = Some sv \<longrightarrow> I (sv_ino sv) = Some (sv_i sv)) \<and>
     (\<forall>ino i. I ino = Some i \<longrightarrow> live (nblocks fs) (used_blocks fs) (blk (sfs_device fs)) ino i \<and>
        (decode_inode (blk (sfs_device fs) ino) = i \<or> dirty_at fs ino)) \<and>
     (\<forall>ino i ino' i'. I ino = Some i \<longrightarrow> I ino' = Some i' \<longrightarrow> ino \<noteq> ino' \<longrightarrow>
        ino_blocks (blk (sfs_device fs)) ino i \<inter> ino_blocks (blk (sfs_device fs)) ino' i' = {})"

lemma volD:
  assumes "vol blk good n I fs"
  shows "fs_ok good n fs" and "vnode_table fs" and "inos_distinct fs"
    and "sv_mem fs v = Some sv \<Longrightarrow> I (sv_ino sv) = Some (sv_i sv)"
    and "I ino = Some i \<Longrightarrow> live (nblocks fs) (used_blocks fs) (blk (sfs_device fs)) ino i"
    and "I ino = Some i \<Longrightarrow> decode_inode (blk (sfs_device fs) ino) = i \<or> dirty_at fs ino"
    and "I ino = Some i \<Longrightarrow> I ino' = Some i' \<Longrightarrow> ino \<noteq> ino' \<Longrightarrow>
      ino_blocks (blk (sfs_device fs)) ino i \<inter> ino_blocks (blk (sfs_device fs)) ino' i' = {}"
  using assms unfolding vol_def by blast+

lemma volI:
  assumes "fs_ok good n fs" and "vnode_table fs" and "inos_distinct fs"
    and "\<And>v sv. sv_mem fs v = Some sv \<Longrightarrow> I (sv_ino sv) = Some (sv_i sv)"
    and "\<And>ino i. I ino = Some i \<Longrightarrow> live (nblocks fs) (used_blocks fs) (blk (sfs_device fs)) ino i"
    and "\<And>ino i. I ino = Some i \<Longrightarrow> decode_inode (blk (sfs_device fs) ino) = i \<or> dirty_at fs ino"
    and "\<And>ino i ino' i'. I ino = Some i \<Longrightarrow> I ino' = Some i' \<Longrightarrow> ino \<noteq> ino' \<Longrightarrow>
      ino_blocks (blk (sfs_device fs)) ino i \<inter> ino_blocks (blk (sfs_device fs)) ino' i' = {}"
  shows "vol blk good n I fs"
  unfolding vol_def using assms by blast

lemma live_used: "live nb U B ino i \<Longrightarrow> ino_blocks B ino i \<subseteq> U"
  by (auto simp: live_def ino_blocks_def inode_ok_def)

text \<open>An inode whose blocks are still in use and as they were.\<close>

lemma live_inodes_frame:
  assumes "live nb U B ino i" and "ino_blocks B ino i \<subseteq> U'" and "\<And>b. b \<in> ino_blocks B ino i \<Longrightarrow> B' b = B b"
  shows "live nb U' B' ino i" and "ino_blocks B' ino i = ino_blocks B ino i" and "file_bytes B' i = file_bytes B i"
    and "decode_inode (B' ino) = decode_inode (B ino)"
proof -
  have "\<And>b. b \<in> inode_blocks B i \<Longrightarrow> B' b = B b" using assms(3) by (simp add: ino_blocks_def)
  note fr = inode_frame [of B i B', OF this]
  show "ino_blocks B' ino i = ino_blocks B ino i" "file_bytes B' i = file_bytes B i" using fr(2,3) by (simp_all add: ino_blocks_def)
  show "decode_inode (B' ino) = decode_inode (B ino)" using assms(3) by (simp add: ino_blocks_def)
  have "inode_ok nb U' B i" using assms(1,2) inode_ok_sub [of nb U B i U'] by (simp add: live_def ino_blocks_def)
  then show "live nb U' B' ino i" using assms(1,2) fr(2,4) by (simp add: live_def ino_blocks_def)
qed

lemma vol_file_ok:
  assumes vol: "vol blk good n I fs" and sv: "sv_mem fs v = Some sv"
  shows "file_ok blk fs v" and "owned blk fs v = ino_blocks (blk (sfs_device fs)) (sv_ino sv) (sv_i sv)"
proof -
  have I: "I (sv_ino sv) = Some (sv_i sv)" by (rule volD(4) [OF vol sv])
  have "dirty_at fs (sv_ino sv) \<Longrightarrow> sv_dirty sv"
    using volD(3) [OF vol] sv unfolding dirty_at_def inos_distinct_def by fastforce
  then show "file_ok blk fs v"
    using volD(5,6) [OF vol I] sv by (auto simp: file_ok_def sv_ok_def live_def)
  show "owned blk fs v = ino_blocks (blk (sfs_device fs)) (sv_ino sv) (sv_i sv)"
    using sv by (simp add: owned_def ino_blocks_def file_blocks_def inode_of_def)
qed

lemma vol_inv:
  assumes vol: "vol blk good n I fs"
  shows "sfs_inv blk good n fs"
proof -
  have "owned blk fs v \<inter> owned blk fs w = {}" if v: "sv_mem fs v = Some sv" and w: "sv_mem fs w = Some sw" and ne: "v \<noteq> w" for v w sv sw
  proof -
    have "sv_ino sv \<noteq> sv_ino sw" using volD(3) [OF vol] v w ne unfolding inos_distinct_def by blast
    then show ?thesis
      using volD(7) [OF vol volD(4) [OF vol v] volD(4) [OF vol w]] vol_file_ok(2) [OF vol] v w by simp
  qed
  moreover have "file_ok blk fs v" if "v \<in> dom (sv_mem fs)" for v using vol_file_ok(1) [OF vol] that by blast
  ultimately show ?thesis using volD(1,2) [OF vol] unfolding sfs_inv_def by blast
qed

section \<open>Changing a file\<close>

text \<open>A step of one loaded file changes its own inode only.\<close>

lemma vol_file_step:
  assumes vol: "vol blk good n I fs" and v: "sv_mem fs v = Some sv" and st: "file_step blk good n v fs fs'"
  shows "vol blk good n (I(sv_ino sv \<mapsto> inode_of fs' v)) fs'"
    and "\<And>ino i. ino \<noteq> sv_ino sv \<Longrightarrow> I ino = Some i \<Longrightarrow> file_bytes (blk (sfs_device fs')) i = file_bytes (blk (sfs_device fs)) i"
proof -
  let ?B = "blk (sfs_device fs)" and ?B' = "blk (sfs_device fs')"
  obtain sv' where sv': "sv_mem fs' v = Some sv'" "sv_ok (nblocks fs') (used_blocks fs') ?B' sv'"
    using st by (auto simp: file_step_def file_ok_def)
  have st': "fs_ok good n fs'" "used_blocks fs - file_blocks blk fs v \<subseteq> used_blocks fs'" "sfs_sb fs' = sfs_sb fs" "sfs_vnodes fs' = sfs_vnodes fs"
      "\<And>w. w \<noteq> v \<Longrightarrow> sv_mem fs' w = sv_mem fs w" "sv_ino sv' = sv_ino sv"
      "\<And>b. b \<in> used_blocks fs - owned blk fs v \<Longrightarrow> ?B' b = ?B b"
      "owned blk fs' v \<subseteq> owned blk fs v \<union> (used_blocks fs' - used_blocks fs)"
    using st v sv'(1) by (auto simp: file_step_def owned_def)
  have own': "owned blk fs' v = ino_blocks ?B' (sv_ino sv) (sv_i sv')"
    using sv'(1) st'(6) by (simp add: owned_def ino_blocks_def file_blocks_def inode_of_def)
  have other: "ino_blocks ?B ino i \<subseteq> used_blocks fs'" "\<And>b. b \<in> ino_blocks ?B ino i \<Longrightarrow> ?B' b = ?B b"
      "ino_blocks ?B ino i \<inter> owned blk fs' v = {}"
    if "I ino = Some i" "ino \<noteq> sv_ino sv" for ino i
  proof -
    have "ino_blocks ?B ino i \<inter> owned blk fs v = {}" "ino_blocks ?B ino i \<subseteq> used_blocks fs"
      using volD(7) [OF vol that(1) volD(4) [OF vol v] that(2)] vol_file_ok(2) [OF vol v] live_used [OF volD(5) [OF vol that(1)]] by simp_all
    then show "ino_blocks ?B ino i \<subseteq> used_blocks fs'" "\<And>b. b \<in> ino_blocks ?B ino i \<Longrightarrow> ?B' b = ?B b"
        "ino_blocks ?B ino i \<inter> owned blk fs' v = {}"
      using st'(2,7,8) unfolding owned_def by blast+
  qed
  have fr: "live (nblocks fs) (used_blocks fs') ?B' ino i" "ino_blocks ?B' ino i = ino_blocks ?B ino i"
      "file_bytes ?B' i = file_bytes ?B i" "decode_inode (?B' ino) = decode_inode (?B ino)"
    if "I ino = Some i" "ino \<noteq> sv_ino sv" for ino i
    using live_inodes_frame [OF volD(5) [OF vol that(1)] other(1) [OF that] other(2) [OF that]] by simp_all
  show "file_bytes ?B' i = file_bytes ?B i" if "ino \<noteq> sv_ino sv" "I ino = Some i" for ino i using fr(3) that by blast
  have dirty: "dirty_at fs' ino = dirty_at fs ino" if "ino \<noteq> sv_ino sv" for ino
    unfolding dirty_at_def using st'(5) sv'(1) st'(6) v that by (metis option.inject)
  have "sv_mem fs' x = None \<longleftrightarrow> sv_mem fs x = None" for x using st'(5) sv'(1) v by (cases "x = v") simp_all
  then have dom: "dom (sv_mem fs') = dom (sv_mem fs)" by (simp add: dom_def)
  have dist: "inos_distinct fs'"
    unfolding inos_distinct_def using volD(3) [OF vol, unfolded inos_distinct_def] st'(5,6) sv'(1) v by (metis option.inject)
  let ?I = "I(sv_ino sv \<mapsto> sv_i sv')"
  have "vol blk good n ?I fs'"
  proof (rule volI)
    show "fs_ok good n fs'" by (rule st'(1))
    show "vnode_table fs'" using volD(2) [OF vol] st'(4) dom by (simp add: vnode_table_def)
    show "inos_distinct fs'" by (rule dist)
    show "?I (sv_ino sw) = Some (sv_i sw)" if "sv_mem fs' w = Some sw" for w sw
      using that st'(5,6) sv'(1) volD(4) [OF vol, of w sw] dist unfolding inos_distinct_def by (cases "w = v") fastforce+
    show "live (nblocks fs') (used_blocks fs') ?B' ino i" if "?I ino = Some i" for ino i
      using that sv'(2) st'(3,6) fr(1) [of ino i] by (cases "ino = sv_ino sv") (auto simp: sv_ok_def live_def)
    show "decode_inode (?B' ino) = i \<or> dirty_at fs' ino" if "?I ino = Some i" for ino i
    proof (cases "ino = sv_ino sv")
      case True
      then show ?thesis using that sv' st'(6) unfolding dirty_at_def sv_ok_def by auto
    next
      case False
      then show ?thesis using that volD(6) [OF vol, of ino i] dirty fr(4) [of ino i] by auto
    qed
    show "ino_blocks ?B' ino i \<inter> ino_blocks ?B' ino' i' = {}" if "?I ino = Some i" "?I ino' = Some i'" "ino \<noteq> ino'" for ino i ino' i'
      using that volD(7) [OF vol, of ino i ino' i'] other(3) fr(2) [of ino i] fr(2) [of ino' i'] own'
      by (cases "ino = sv_ino sv"; cases "ino' = sv_ino sv") auto
  qed
  then show "vol blk good n (I(sv_ino sv \<mapsto> inode_of fs' v)) fs'" using sv'(1) by (simp add: inode_of_def)
qed

text \<open>New blocks may be taken and free blocks written without touching a file.\<close>

lemma vol_store:
  assumes vol: "vol blk good n I fs" and ok: "fs_ok good n fs'" and mem: "sv_mem fs' = sv_mem fs" "sfs_vnodes fs' = sfs_vnodes fs" "nblocks fs' = nblocks fs"
    and used: "used_blocks fs \<subseteq> used_blocks fs'" and same: "\<And>b. b \<in> used_blocks fs \<Longrightarrow> blk (sfs_device fs') b = blk (sfs_device fs) b"
  shows "vol blk good n I fs'" and "\<And>ino i. I ino = Some i \<Longrightarrow> file_bytes (blk (sfs_device fs')) i = file_bytes (blk (sfs_device fs)) i"
proof -
  let ?B = "blk (sfs_device fs)" and ?B' = "blk (sfs_device fs')"
  have fr: "live (nblocks fs) (used_blocks fs') ?B' ino i" "ino_blocks ?B' ino i = ino_blocks ?B ino i"
      "file_bytes ?B' i = file_bytes ?B i" "decode_inode (?B' ino) = decode_inode (?B ino)" if "I ino = Some i" for ino i
  proof -
    have "ino_blocks ?B ino i \<subseteq> used_blocks fs" using live_used [OF volD(5) [OF vol that]] .
    then show "live (nblocks fs) (used_blocks fs') ?B' ino i" "ino_blocks ?B' ino i = ino_blocks ?B ino i"
      "file_bytes ?B' i = file_bytes ?B i" "decode_inode (?B' ino) = decode_inode (?B ino)"
      using live_inodes_frame [OF volD(5) [OF vol that], of "used_blocks fs'" ?B'] used same by blast+
  qed
  show "vol blk good n I fs'"
  proof (rule volI)
    show "vnode_table fs'" "inos_distinct fs'" using volD(2,3) [OF vol] mem by (simp_all add: vnode_table_def inos_distinct_def)
    show "I (sv_ino sv) = Some (sv_i sv)" if "sv_mem fs' v = Some sv" for v sv using volD(4) [OF vol, of v sv] that mem(1) by simp
    show "live (nblocks fs') (used_blocks fs') ?B' ino i" if "I ino = Some i" for ino i using fr(1) [OF that] mem(3) by simp
    show "decode_inode (?B' ino) = i \<or> dirty_at fs' ino" if "I ino = Some i" for ino i
      using volD(6) [OF vol that] fr(4) [OF that] mem(1) by (simp add: dirty_at_def)
    show "ino_blocks ?B' ino i \<inter> ino_blocks ?B' ino' i' = {}" if "I ino = Some i" "I ino' = Some i'" "ino \<noteq> ino'" for ino i ino' i'
      using volD(7) [OF vol that] fr(2) [OF that(1)] fr(2) [OF that(2)] by simp
  qed (rule ok)
  show "file_bytes ?B' i = file_bytes ?B i" if "I ino = Some i" for ino i using fr(3) [OF that] .
qed

lemma vol_same_disk:
  assumes "vol blk good n I fs" and "same_disk blk good fs fs'"
  shows "vol blk good n I fs'"
  using vol_store(1) [OF assms(1) same_disk_ok(1) [OF assms(2) volD(1) [OF assms(1)]]] same_disk_fields [OF assms(2)] by simp

lemma vol_took:
  assumes vol: "vol blk good n I fs" and t: "took_block blk good n b fs fs'"
  shows "vol blk good n I fs'" and "I b = None"
    and "\<And>ino i. I ino = Some i \<Longrightarrow> file_bytes (blk (sfs_device fs')) i = file_bytes (blk (sfs_device fs)) i"
    and "\<And>ino i. I ino = Some i \<Longrightarrow> b \<notin> ino_blocks (blk (sfs_device fs')) ino i"
proof -
  have t': "b \<notin> used_blocks fs" "fs_ok good n fs'" "sv_mem fs' = sv_mem fs" "sfs_vnodes fs' = sfs_vnodes fs" "nblocks fs' = nblocks fs"
      "used_blocks fs \<subseteq> used_blocks fs'" "\<And>c. c \<in> used_blocks fs \<Longrightarrow> blk (sfs_device fs') c = blk (sfs_device fs) c"
    using t by (auto simp: took_block_def)
  note st = vol_store [OF vol t'(2-7)]
  show "vol blk good n I fs'" using st(1) by blast
  show "file_bytes (blk (sfs_device fs')) i = file_bytes (blk (sfs_device fs)) i" if "I ino = Some i" for ino i using st(2) that by blast
  show "b \<notin> ino_blocks (blk (sfs_device fs')) ino i" if "I ino = Some i" for ino i
  proof -
    have "ino_blocks (blk (sfs_device fs)) ino i \<subseteq> used_blocks fs" using live_used [OF volD(5) [OF vol that]] .
    moreover have "ino_blocks (blk (sfs_device fs')) ino i = ino_blocks (blk (sfs_device fs)) ino i"
      using live_inodes_frame(2) [OF volD(5) [OF vol that] calculation] t'(7) calculation by blast
    ultimately show ?thesis using t'(1) by blast
  qed
  show "I b = None"
  proof (rule ccontr)
    assume "I b \<noteq> None"
    then obtain i where "I b = Some i" by blast
    then show False using volD(5) [OF vol, of b i] t'(1) by (simp add: live_def)
  qed
qed

text \<open>A change of the counts of a vnode, and a change of its inode that keeps the block map.\<close>

lemma vol_upd_sv:
  assumes vol: "vol blk good n I fs" and v: "sv_mem fs v = Some sv"
    and f: "sv_ino (f sv) = sv_ino sv" "sv_dirty sv \<longrightarrow> sv_dirty (f sv)" "sv_i (f sv) = sv_i sv \<or> sv_dirty (f sv)"
    and i: "inode_wf (sv_i (f sv))" "sfi_direct (sv_i (f sv)) = sfi_direct (sv_i sv)" "sfi_indirect (sv_i (f sv)) = sfi_indirect (sv_i sv)"
  shows "vol blk good n (I(sv_ino sv \<mapsto> sv_i (f sv))) (upd_sv v f fs)"
    and "file_bytes B (sv_i (f sv)) = file_bytes B (sv_i sv)"
proof -
  let ?fs = "upd_sv v f fs" and ?i = "sv_i (f sv)" and ?B = "blk (sfs_device fs)"
  have eq: "blkmap B ?i = blkmap B (sv_i sv)" "inode_blocks B ?i = inode_blocks B (sv_i sv)" for B
    using i(2,3) by (simp_all add: blkmap_def indir_def inode_blocks_def)
  then show "file_bytes B ?i = file_bytes B (sv_i sv)" by (simp add: file_bytes_def)
  have fld: "sfs_device ?fs = sfs_device fs" "sfs_sb ?fs = sfs_sb fs" "sfs_freemap ?fs = sfs_freemap fs" "sfs_vnodes ?fs = sfs_vnodes fs"
      "sv_mem ?fs = (sv_mem fs)(v \<mapsto> f sv)" "fs_ok good n ?fs = fs_ok good n fs"
    using v by (simp_all add: upd_sv_def fs_ok_def)
  let ?I = "I(sv_ino sv \<mapsto> ?i)"
  have I: "I (sv_ino sv) = Some (sv_i sv)" by (rule volD(4) [OF vol v])
  have live: "live (nblocks fs) (used_blocks fs) ?B (sv_ino sv) ?i"
    using volD(5) [OF vol I] i eq by (simp add: live_def inode_ok_def)
  have dist: "sv_ino sw \<noteq> sv_ino sv" if "w \<noteq> v" "sv_mem fs w = Some sw" for w sw
    using volD(3) [OF vol] v that unfolding inos_distinct_def by blast
  have dirty: "dirty_at ?fs ino \<longleftrightarrow> (if ino = sv_ino sv then sv_dirty (f sv) else dirty_at fs ino)" for ino
  proof -
    have "dirty_at ?fs ino \<longleftrightarrow> (sv_ino sv = ino \<and> sv_dirty (f sv)) \<or> (\<exists>w sw. w \<noteq> v \<and> sv_mem fs w = Some sw \<and> sv_ino sw = ino \<and> sv_dirty sw)"
      unfolding dirty_at_def fld(5) using f(1) by (metis fun_upd_apply option.inject)
    moreover have "(\<exists>w sw. w \<noteq> v \<and> sv_mem fs w = Some sw \<and> sv_ino sw = ino \<and> sv_dirty sw) \<longleftrightarrow> ino \<noteq> sv_ino sv \<and> dirty_at fs ino"
      unfolding dirty_at_def using dist v by (metis option.inject)
    ultimately show ?thesis by auto
  qed
  have self: "dirty_at fs (sv_ino sv) \<Longrightarrow> sv_dirty sv" unfolding dirty_at_def using dist v by (metis option.inject)
  show "vol blk good n ?I ?fs"
  proof (rule volI, unfold fld(1-4,6))
    show "fs_ok good n fs" by (rule volD(1) [OF vol])
    show "vnode_table ?fs" using volD(2) [OF vol] v fld by (auto simp: vnode_table_def)
    show "inos_distinct ?fs" unfolding inos_distinct_def fld(5)
      using volD(3) [OF vol, unfolded inos_distinct_def] dist f(1) by (metis fun_upd_apply option.inject)
    show "?I (sv_ino sw) = Some (sv_i sw)" if "sv_mem ?fs w = Some sw" for w sw
      using that dist [of w sw] f(1) volD(4) [OF vol, of w sw] unfolding fld(5) by (auto split: if_splits)
    show "live (nblocks fs) (used_blocks fs) ?B ino i" if "?I ino = Some i" for ino i
      using that live volD(5) [OF vol, of ino i] by (auto split: if_splits)
    show "decode_inode (?B ino) = i \<or> dirty_at ?fs ino" if "?I ino = Some i" for ino i
      using that volD(6) [OF vol, of ino i] volD(6) [OF vol I] f(2,3) self unfolding dirty by (auto split: if_splits)
    show "ino_blocks ?B ino i \<inter> ino_blocks ?B ino' i' = {}" if "?I ino = Some i" "?I ino' = Some i'" "ino \<noteq> ino'" for ino i ino' i'
      using that volD(7) [OF vol, of ino i ino' i'] volD(7) [OF vol I, of ino' i'] volD(7) [OF vol _ I, of ino i] eq(2)
      by (auto simp: ino_blocks_def split: if_splits)
  qed
qed

section \<open>Loading vnodes\<close>

text \<open>A vnode is entered into the table.\<close>

lemma vol_insert:
  assumes vol: "vol blk good n I fs" and w: "w \<notin> dom (sv_mem fs)" "\<And>u su. sv_mem fs u = Some su \<Longrightarrow> sv_ino su \<noteq> sv_ino sv"
    and lv: "live (nblocks fs) (used_blocks fs) (blk (sfs_device fs)) (sv_ino sv) (sv_i sv)"
    and dis: "\<And>ino i. I ino = Some i \<Longrightarrow> ino \<noteq> sv_ino sv \<Longrightarrow>
      ino_blocks (blk (sfs_device fs)) ino i \<inter> ino_blocks (blk (sfs_device fs)) (sv_ino sv) (sv_i sv) = {}"
    and cl: "decode_inode (blk (sfs_device fs) (sv_ino sv)) = sv_i sv \<or> sv_dirty sv"
    and a: "array_inv a" "array_list a = array_list (sfs_vnodes fs) @ [w]"
  shows "vol blk good n (I(sv_ino sv \<mapsto> sv_i sv)) (fs\<lparr>sfs_vnodes := a, sv_mem := (sv_mem fs)(w \<mapsto> sv)\<rparr>)"
proof (rule volI)
  let ?fs = "fs\<lparr>sfs_vnodes := a, sv_mem := (sv_mem fs)(w \<mapsto> sv)\<rparr>" and ?I = "I(sv_ino sv \<mapsto> sv_i sv)"
  show "fs_ok good n ?fs" using volD(1) [OF vol] by (simp add: fs_ok_def)
  show "vnode_table ?fs" using volD(2) [OF vol] w(1) a by (auto simp: vnode_table_def)
  show "inos_distinct ?fs"
    using volD(3) [OF vol] w(2) unfolding inos_distinct_def by (auto split: if_splits) (metis w(2))+
  show "?I (sv_ino su) = Some (sv_i su)" if "sv_mem ?fs u = Some su" for u su
    using that volD(4) [OF vol, of u su] w(2) [of u su] by (auto split: if_splits)
  show "live (nblocks ?fs) (used_blocks ?fs) (blk (sfs_device ?fs)) ino i" if "?I ino = Some i" for ino i
    using that lv volD(5) [OF vol, of ino i] by (auto split: if_splits)
  show "decode_inode (blk (sfs_device ?fs) ino) = i \<or> dirty_at ?fs ino" if "?I ino = Some i" for ino i
  proof (cases "ino = sv_ino sv")
    case True
    then show ?thesis using that cl by (auto simp: dirty_at_def)
  next
    case False
    then show ?thesis using that volD(6) [OF vol, of ino i] w(1) unfolding dirty_at_def by (auto simp: domIff) (metis option.distinct(1))
  qed
  show "ino_blocks (blk (sfs_device ?fs)) ino i \<inter> ino_blocks (blk (sfs_device ?fs)) ino' i' = {}"
    if "?I ino = Some i" "?I ino' = Some i'" "ino \<noteq> ino'" for ino i ino' i'
    using that dis volD(7) [OF vol, of ino i ino' i'] by (auto split: if_splits)
qed

lemma enter_ok:
  assumes vol: "vol blk good n I fs" and w: "w \<notin> dom (sv_mem fs)" "\<And>u su. sv_mem fs u = Some su \<Longrightarrow> sv_ino su \<noteq> sv_ino sv"
    and lv: "live (nblocks fs) (used_blocks fs) (blk (sfs_device fs)) (sv_ino sv) (sv_i sv)"
    and dis: "\<And>ino i. I ino = Some i \<Longrightarrow> ino \<noteq> sv_ino sv \<Longrightarrow>
      ino_blocks (blk (sfs_device fs)) ino i \<inter> ino_blocks (blk (sfs_device fs)) (sv_ino sv) (sv_i sv) = {}"
    and cl: "decode_inode (blk (sfs_device fs) (sv_ino sv)) = sv_i sv \<or> sv_dirty sv"
  shows "sfs_enter w okinit km sv fs = Some (Inl ENOMEM, fs) \<or>
    (\<exists>a. sfs_enter w okinit km sv fs = Some (Inr w, fs\<lparr>sfs_vnodes := a, sv_mem := (sv_mem fs)(w \<mapsto> sv)\<rparr>) \<and>
       vol blk good n (I(sv_ino sv \<mapsto> sv_i sv)) (fs\<lparr>sfs_vnodes := a, sv_mem := (sv_mem fs)(w \<mapsto> sv)\<rparr>))"
proof -
  have "array_inv (sfs_vnodes fs)" using volD(2) [OF vol] by (simp add: vnode_table_def)
  then consider "array_add km (sfs_vnodes fs) w = Some (Inl ENOMEM, sfs_vnodes fs)"
    | a where "array_add km (sfs_vnodes fs) w = Some (Inr (), a)" "array_inv a" "array_list a = array_list (sfs_vnodes fs) @ [w]"
    using arr.add_cases [of "sfs_vnodes fs" km w] by blast
  then show ?thesis
  proof cases
    case 2
    then have "vol blk good n (I(sv_ino sv \<mapsto> sv_i sv)) (fs\<lparr>sfs_vnodes := a, sv_mem := (sv_mem fs)(w \<mapsto> sv)\<rparr>)"
      by (intro vol_insert [OF vol w(1) _ lv dis cl]) (use w(2) in auto)
    then show ?thesis using 2(1) by (cases okinit) (auto simp: sfs_enter_def)
  qed (simp add: sfs_enter_def)
qed

text \<open>Nothing but vnodes in memory has changed.\<close>

definition same_store :: "('d \<Rightarrow> nat \<Rightarrow> bytes) \<Rightarrow> 'd sfs_fs \<Rightarrow> 'd sfs_fs \<Rightarrow> bool" where
  "same_store blk fs fs' \<longleftrightarrow> blk (sfs_device fs') = blk (sfs_device fs) \<and> sfs_sb fs' = sfs_sb fs \<and> sfs_superdirty fs' = sfs_superdirty fs \<and>
     sfs_freemap fs' = sfs_freemap fs \<and> sfs_freemapdirty fs' = sfs_freemapdirty fs"

lemma same_disk_store: "same_disk blk good fs fs' \<Longrightarrow> same_store blk fs fs'"
  using same_disk_fields [of blk good fs fs'] by (simp add: same_store_def)

lemma same_store_trans: "same_store blk fs fs1 \<Longrightarrow> same_store blk fs1 fs2 \<Longrightarrow> same_store blk fs fs2"
  by (simp add: same_store_def)

lemma bused_ok:
  assumes "fs_ok good n fs" and "b \<in> used_blocks fs" and "b < nblocks fs"
  shows "sfs_bused b fs = Some True"
proof -
  have "b < b_nbits (sfs_freemap fs)" "bitmap_inv (sfs_freemap fs)" using assms by (auto simp: fs_ok_def)
  then obtain w where "bitmap_isset (sfs_freemap fs) b = Some w" "w \<noteq> 0"
    using bitmap_isset_correct [of "sfs_freemap fs" b] assms(2) by auto
  then show ?thesis using assms(3) by (simp add: sfs_bused_def)
qed

lemma find_loaded_ok:
  assumes vol: "vol blk good n I fs" and "i \<le> length (array_list (sfs_vnodes fs))"
    and "\<And>k. k < i \<Longrightarrow> sv_ino (the (sv_mem fs (array_list (sfs_vnodes fs) ! k))) \<noteq> ino"
  shows "\<exists>found. sfs_find_loaded ino (int i) fs = Some found \<and>
    (case found of None \<Rightarrow> \<forall>v sv. sv_mem fs v = Some sv \<longrightarrow> sv_ino sv \<noteq> ino | Some v \<Rightarrow> \<exists>sv. sv_mem fs v = Some sv \<and> sv_ino sv = ino)"
  using assms(2,3)
proof (induction "length (array_list (sfs_vnodes fs)) - i" arbitrary: i)
  let ?l = "array_list (sfs_vnodes fs)"
  have t: "array_inv (sfs_vnodes fs)" "set ?l = dom (sv_mem fs)" using volD(2) [OF vol] by (simp_all add: vnode_table_def)
  note num = arr.getnum [OF t(1)]
  {
    case 0
    have "sv_ino sv \<noteq> ino" if "sv_mem fs v = Some sv" for v sv
    proof -
      have "v \<in> set ?l" using that t(2) by auto
      then obtain k where "k < length ?l" "?l ! k = v" by (auto simp: in_set_conv_nth)
      then show ?thesis using 0(1) 0(3) [of k] that by auto
    qed
    then show ?case using 0 num by (simp add: sfs_find_loaded.simps)
  next
    case (Suc d)
    have i: "i < length ?l" using Suc.hyps(2) by simp
    have g: "array_getguy (sfs_vnodes fs) (int i) = Some (?l ! i)" using arr.getguy [OF t(1), of "int i"] i by simp
    have "?l ! i \<in> dom (sv_mem fs)" using nth_mem [OF i] t(2) by simp
    then obtain sv where sv: "sv_mem fs (?l ! i) = Some sv" by blast
    have "live (nblocks fs) (used_blocks fs) (blk (sfs_device fs)) (sv_ino sv) (sv_i sv)"
      by (rule volD(5) [OF vol volD(4) [OF vol sv]])
    then have u: "sfs_bused (sv_ino sv) fs = Some True" using bused_ok [OF volD(1) [OF vol]] by (simp add: live_def)
    show ?case
    proof (cases "sv_ino sv = ino")
      case True
      then show ?thesis using i g sv u num by (simp add: sfs_find_loaded.simps [of ino "int i"])
    next
      case False
      have "d = length ?l - Suc i" "Suc i \<le> length ?l" using Suc.hyps(2) i by simp_all
      moreover have "sv_ino (the (sv_mem fs (?l ! k))) \<noteq> ino" if "k < Suc i" for k
        using that Suc.prems(2) [of k] sv False by (cases "k = i") auto
      moreover have "sfs_find_loaded ino (int i) fs = sfs_find_loaded ino (int (Suc i)) fs"
        using i g sv u num False by (simp add: sfs_find_loaded.simps [of ino "int i"] add.commute)
      ultimately show ?thesis using Suc.hyps(1) [of "Suc i"] by presburger
    qed
  }
qed

text \<open>The memory of \<open>fs'\<close> has one reference more to \<open>w\<close>, loaded for \<open>ino\<close> with the inode \<open>i\<close>.\<close>

definition loaded_at :: "'d sfs_fs \<Rightarrow> 'd sfs_fs \<Rightarrow> nat \<Rightarrow> nat \<Rightarrow> sfs_inode \<Rightarrow> bool" where
  "loaded_at fs fs' w ino i \<longleftrightarrow>
     (case sv_mem fs w of
        Some sv \<Rightarrow> sv_ino sv = ino \<and> sv_i sv = i \<and> sv_mem fs' = (sv_mem fs)(w \<mapsto> sv\<lparr>vn_refcount := vn_refcount sv + 1\<rparr>)
      | None \<Rightarrow> (\<exists>dy. sv_mem fs' = (sv_mem fs)(w \<mapsto> \<lparr>vn_refcount = 1, vn_opencount = 0, sv_i = i, sv_ino = ino, sv_dirty = dy\<rparr>)))"

text \<open>The allocator hands out memory that no vnode occupies.\<close>

definition fresh_mem :: "nat option \<Rightarrow> 'd sfs_fs \<Rightarrow> bool" where
  "fresh_mem mem fs \<longleftrightarrow> (\<forall>v. mem = Some v \<longrightarrow> v \<notin> dom (sv_mem fs))"

context block_device
begin

lemma loadvnode_ok:
  assumes vol: "vol blk good n I fs" and I: "I ino = Some i" and ty: "sfi_type i = SFS_TYPE_FILE \<or> sfi_type i = SFS_TYPE_DIR"
    and fresh: "fresh_mem mem fs"
  shows "\<exists>r fs'. sfs_loadvnode dio (mem, okinit, km) ino SFS_TYPE_INVAL fs = Some (r, fs') \<and> vol blk good n I fs' \<and> same_store blk fs fs' \<and>
    (case r of Inl e \<Rightarrow> e = ENOMEM \<and> sv_mem fs' = sv_mem fs | Inr w \<Rightarrow> loaded_at fs fs' w ino i)"
proof -
  have lv: "live (nblocks fs) (used_blocks fs) (blk (sfs_device fs)) ino i" by (rule volD(5) [OF vol I])
  then have ino: "ino \<in> used_blocks fs" "ino < nblocks fs" by (simp_all add: live_def)
  obtain found where fl: "sfs_find_loaded ino 0 fs = Some found"
      "case found of None \<Rightarrow> \<forall>v sv. sv_mem fs v = Some sv \<longrightarrow> sv_ino sv \<noteq> ino | Some v \<Rightarrow> \<exists>sv. sv_mem fs v = Some sv \<and> sv_ino sv = ino"
    using find_loaded_ok [OF vol, of 0 ino] by auto
  show ?thesis
  proof (cases found)
    case (Some w)
    then obtain sv where sv: "sv_mem fs w = Some sv" "sv_ino sv = ino" using fl(2) by auto
    have svi: "sv_i sv = i" using volD(4) [OF vol sv(1)] sv(2) I by simp
    let ?f = "\<lambda>sv :: sfs_vnode. sv\<lparr>vn_refcount := vn_refcount sv + 1\<rparr>"
    have "inode_wf i" using lv by (simp add: live_def inode_ok_def)
    then have "vol blk good n I (upd_sv w ?f fs)" using vol_upd_sv(1) [OF vol sv(1), of ?f] svi sv(2) I by (simp add: fun_upd_idem)
    moreover have "same_store blk fs (upd_sv w ?f fs)" by (simp add: same_store_def upd_sv_def)
    moreover have "loaded_at fs (upd_sv w ?f fs) w ino i" using sv svi by (simp add: loaded_at_def upd_sv_def)
    ultimately show ?thesis
      using fl(1) Some sv(1) by (simp add: sfs_loadvnode_def vnode_incref_def)
  next
    case None
    then have no: "\<And>v sv. sv_mem fs v = Some sv \<Longrightarrow> sv_ino sv \<noteq> ino" using fl(2) by simp
    then have dec: "decode_inode (blk (sfs_device fs) ino) = i" using volD(6) [OF vol I] by (auto simp: dirty_at_def)
    show ?thesis
    proof (cases mem)
      case None
      then have "sfs_loadvnode dio (mem, okinit, km) ino SFS_TYPE_INVAL fs = Some (Inl ENOMEM, fs)"
        using fl(1) \<open>found = None\<close> by (simp add: sfs_loadvnode_def)
      then show ?thesis using vol by (simp add: same_store_def)
    next
      case (Some w)
      have g: "good (sfs_device fs)" "ino < n" using volD(1) [OF vol] ino(2) by (simp_all add: fs_ok_def)
      obtain fs1 where rd: "sfs_rblock dio zero_block ino fs = Some (Inr (blk (sfs_device fs) ino), fs1)" "same_disk blk good fs fs1"
        using rblock_ok [OF g, of zero_block] by auto
      note sd = same_disk_fields [OF rd(2)]
      note vol1 = vol_same_disk [OF vol rd(2)] same_disk_store [OF rd(2)]
      have u: "sfs_bused ino fs = Some True" using bused_ok [OF volD(1) [OF vol] ino] .
      let ?sv = "\<lparr>vn_refcount = 1, vn_opencount = 0, sv_i = i, sv_ino = ino, sv_dirty = False\<rparr>"
      have w: "w \<notin> dom (sv_mem fs1)" using fresh Some sd(6) by (simp add: fresh_mem_def)
      have run: "sfs_loadvnode dio (mem, okinit, km) ino SFS_TYPE_INVAL fs = sfs_enter w okinit km ?sv fs1"
        using fl(1) \<open>found = None\<close> Some u rd(1) dec ty by (simp add: sfs_loadvnode_def Let_def)
      have "sfs_enter w okinit km ?sv fs1 = Some (Inl ENOMEM, fs1) \<or>
        (\<exists>a. sfs_enter w okinit km ?sv fs1 = Some (Inr w, fs1\<lparr>sfs_vnodes := a, sv_mem := (sv_mem fs1)(w \<mapsto> ?sv)\<rparr>) \<and>
          vol blk good n (I(sv_ino ?sv \<mapsto> sv_i ?sv)) (fs1\<lparr>sfs_vnodes := a, sv_mem := (sv_mem fs1)(w \<mapsto> ?sv)\<rparr>))"
        using volD(5) [OF vol1(1) I] volD(7) [OF vol1(1) _ I] no dec sd(6,7) by (intro enter_ok [OF vol1(1) w]) simp_all
      then show ?thesis
      proof (elim disjE exE conjE)
        assume "sfs_enter w okinit km ?sv fs1 = Some (Inl ENOMEM, fs1)"
        then show ?thesis using run vol1 sd(6) by simp
      next
        fix a let ?fs2 = "fs1\<lparr>sfs_vnodes := a, sv_mem := (sv_mem fs1)(w \<mapsto> ?sv)\<rparr>"
        assume e: "sfs_enter w okinit km ?sv fs1 = Some (Inr w, ?fs2)" "vol blk good n (I(sv_ino ?sv \<mapsto> sv_i ?sv)) ?fs2"
        have "vol blk good n I ?fs2" using e(2) I by (simp add: fun_upd_idem)
        moreover have "same_store blk fs ?fs2" using vol1(2) by (simp add: same_store_def)
        moreover have "loaded_at fs ?fs2 w ino i" using w sd(6) by (auto simp: loaded_at_def domIff)
        ultimately show ?thesis using run e(1) by simp
      qed
    qed
  qed
qed

end

text \<open>The inode of a new file.\<close>

definition new_inode :: sfs_inode where
  "new_inode = (decode_inode zero_block)\<lparr>sfi_type := SFS_TYPE_FILE\<rparr>"

lemma new_inode_fields:
  "sfi_size new_inode = 0" "sfi_type new_inode = SFS_TYPE_FILE" "sfi_linkcount new_inode = 0" "sfi_type (decode_inode zero_block) = 0"
  "sfi_direct new_inode = replicate SFS_NDIRECT 0" "sfi_indirect new_inode = 0" "inode_wf new_inode"
proof -
  have "un_be32s k (replicate m 0) = replicate k 0" for k m
    by (induction k arbitrary: m) simp_all
  then show "sfi_direct new_inode = replicate SFS_NDIRECT 0" by (simp add: new_inode_def decode_inode_def)
  show "sfi_size new_inode = 0" "sfi_linkcount new_inode = 0" "sfi_indirect new_inode = 0" "sfi_type (decode_inode zero_block) = 0"
    by (simp_all add: new_inode_def decode_inode_def)
  show "sfi_type new_inode = SFS_TYPE_FILE" by (simp add: new_inode_def)
  show "inode_wf new_inode" using decode_inode_wf [of zero_block] by (simp add: new_inode_def inode_wf_def)
qed

lemma new_inode_blocks: "blkmap B new_inode = replicate NBLK 0" "inode_blocks B new_inode = {}"
  using new_inode_fields by (simp_all add: inode_blocks_def blkmap_def indir_def replicate_add [symmetric])

context block_device
begin

text \<open>A new file: a block of its own, an empty inode marked dirty, and one reference.\<close>

lemma makeobj_ok:
  assumes vol: "vol blk good n I fs" and fresh: "fresh_mem mem fs"
  shows "\<exists>r fs'. sfs_makeobj dio (mem, okinit, km) SFS_TYPE_FILE fs = Some (r, fs') \<and> sfs_sb fs' = sfs_sb fs \<and>
    (\<forall>ino i. I ino = Some i \<longrightarrow> file_bytes (blk (sfs_device fs')) i = file_bytes (blk (sfs_device fs)) i) \<and>
    (case r of
       Inl e \<Rightarrow> vol blk good n I fs' \<and> sv_mem fs' = sv_mem fs \<and> (e = ENOMEM \<or> e = ENOSPC \<and> used_blocks fs = {0..<b_nbits (sfs_freemap fs)})
     | Inr w \<Rightarrow> \<exists>b. I b = None \<and> b \<noteq> 0 \<and> b < 2 ^ 32 \<and> vol blk good n (I(b \<mapsto> new_inode)) fs' \<and> w \<notin> dom (sv_mem fs) \<and>
         sv_mem fs' = (sv_mem fs)(w \<mapsto> \<lparr>vn_refcount = 1, vn_opencount = 0, sv_i = new_inode, sv_ino = b, sv_dirty = True\<rparr>))"
proof -
  consider (full) "sfs_balloc dio fs = Some (Inl ENOSPC, fs)" "used_blocks fs = {0..<b_nbits (sfs_freemap fs)}"
    | (took) b fs1 where "sfs_balloc dio fs = Some (Inr b, fs1)" "took_block blk good n b fs fs1"
    using balloc_ok [OF volD(1) [OF vol]] by blast
  then show ?thesis
  proof cases
    case full
    then show ?thesis using vol by (simp add: sfs_makeobj_def)
  next
    case took
    note vt = vol_took [OF vol took(2)]
    have t: "sv_mem fs1 = sv_mem fs" "b \<in> used_blocks fs1" "b < nblocks fs1" "b \<noteq> 0" "blk (sfs_device fs1) b = zero_block" "sfs_sb fs1 = sfs_sb fs"
      using took(2) by (auto simp: took_block_def)
    have no: "\<And>v sv. sv_mem fs1 v = Some sv \<Longrightarrow> sv_ino sv \<noteq> b" using volD(4) [OF vt(1)] vt(2) by force
    obtain found where fl: "sfs_find_loaded b 0 fs1 = Some found" "case found of None \<Rightarrow> True | Some v \<Rightarrow> \<exists>sv. sv_mem fs1 v = Some sv \<and> sv_ino sv = b"
      using find_loaded_ok [OF vt(1), of 0 b] by (auto split: option.splits)
    then have fl: "sfs_find_loaded b 0 fs1 = Some None" using no by (cases found) auto
    have ok1: "fs_ok good n fs1" by (rule volD(1) [OF vt(1)])
    have g: "good (sfs_device fs1)" "b < n" using ok1 t(3) by (simp_all add: fs_ok_def)
    have b32: "b < 2 ^ 32" using g(2) n_limit by simp
    obtain fs2 where rd: "sfs_rblock dio zero_block b fs1 = Some (Inr zero_block, fs2)" "same_disk blk good fs1 fs2"
      using rblock_ok [OF g, of zero_block] t(5) by auto
    note sd = same_disk_fields [OF rd(2)]
    have vol2: "vol blk good n I fs2" by (rule vol_same_disk [OF vt(1) rd(2)])
    have fb: "\<forall>ino i. I ino = Some i \<longrightarrow> file_bytes (blk (sfs_device fs2)) i = file_bytes (blk (sfs_device fs)) i" using vt(3) sd(7) by simp
    have u: "sfs_bused b fs1 = Some True" by (rule bused_ok [OF ok1 t(2,3)])
    let ?sv = "\<lparr>vn_refcount = 1, vn_opencount = 0, sv_i = new_inode, sv_ino = b, sv_dirty = True\<rparr>"
    show ?thesis
    proof (cases mem)
      case None
      then have "sfs_makeobj dio (mem, okinit, km) SFS_TYPE_FILE fs = Some (Inl ENOMEM, fs1)"
        using took(1) fl by (simp add: sfs_makeobj_def sfs_loadvnode_def)
      then show ?thesis using vt(1,3) t by simp
    next
      case (Some w)
      have w: "w \<notin> dom (sv_mem fs2)" using fresh Some sd(6) t(1) by (simp add: fresh_mem_def)
      have run: "sfs_makeobj dio (mem, okinit, km) SFS_TYPE_FILE fs = sfs_enter w okinit km ?sv fs2"
        using took(1) fl u rd(1) new_inode_fields(2,4) Some by (simp add: sfs_makeobj_def sfs_loadvnode_def Let_def new_inode_def)
      have lv: "live (nblocks fs2) (used_blocks fs2) (blk (sfs_device fs2)) b new_inode"
        using t sd new_inode_fields(7) by (simp add: live_def inode_ok_def new_inode_blocks new_inode_fields dist0_def)
      have "b \<notin> ino_blocks (blk (sfs_device fs2)) ino i" if "I ino = Some i" for ino i using vt(4) [OF that] sd(7) by simp
      then have "sfs_enter w okinit km ?sv fs2 = Some (Inl ENOMEM, fs2) \<or>
        (\<exists>a. sfs_enter w okinit km ?sv fs2 = Some (Inr w, fs2\<lparr>sfs_vnodes := a, sv_mem := (sv_mem fs2)(w \<mapsto> ?sv)\<rparr>) \<and>
          vol blk good n (I(sv_ino ?sv \<mapsto> sv_i ?sv)) (fs2\<lparr>sfs_vnodes := a, sv_mem := (sv_mem fs2)(w \<mapsto> ?sv)\<rparr>))"
        using lv no sd(6) by (intro enter_ok [OF vol2 w]) (simp_all add: ino_blocks_def new_inode_blocks)
      then show ?thesis
      proof (elim disjE exE conjE)
        assume "sfs_enter w okinit km ?sv fs2 = Some (Inl ENOMEM, fs2)"
        then show ?thesis using run vol2 fb sd t by simp
      next
        fix a let ?fs3 = "fs2\<lparr>sfs_vnodes := a, sv_mem := (sv_mem fs2)(w \<mapsto> ?sv)\<rparr>"
        assume e: "sfs_enter w okinit km ?sv fs2 = Some (Inr w, ?fs3)" "vol blk good n (I(sv_ino ?sv \<mapsto> sv_i ?sv)) ?fs3"
        then show ?thesis
          using run fb sd t vt(2) b32 w by (intro exI [of _ "Inr w"] exI [of _ ?fs3]) (auto intro!: exI [of _ b])
      qed
    qed
  qed
qed

end

section \<open>Giving vnodes up\<close>

text \<open>The vnode \<open>v\<close> has left the memory; its inode is on the disk, or is gone from the volume with its blocks.\<close>

lemma vol_forget:
  assumes vol: "vol blk good n I fs" and v: "sv_mem fs v = Some sv" and inv: "sfs_inv blk good n fs'"
    and mem: "sv_mem fs' = (sv_mem fs)(v := None)" "nblocks fs' = nblocks fs"
    and I': "I' = I \<and> decode_inode (blk (sfs_device fs') (sv_ino sv)) = sv_i sv \<and> used_blocks fs' = used_blocks fs \<and>
        (\<forall>b. b \<noteq> sv_ino sv \<longrightarrow> blk (sfs_device fs') b = blk (sfs_device fs) b)
      \<or> I' = I(sv_ino sv := None) \<and> used_blocks fs' = used_blocks fs - owned blk fs v \<and>
        (\<forall>b \<in> used_blocks fs - owned blk fs v. blk (sfs_device fs') b = blk (sfs_device fs) b)"
  shows "vol blk good n I' fs'" and "\<And>ino i. I' ino = Some i \<Longrightarrow> file_bytes (blk (sfs_device fs')) i = file_bytes (blk (sfs_device fs)) i"
proof -
  let ?B = "blk (sfs_device fs)" and ?B' = "blk (sfs_device fs')"
  have Iv: "I (sv_ino sv) = Some (sv_i sv)" by (rule volD(4) [OF vol v])
  have sub: "I' ino = Some i \<Longrightarrow> I ino = Some i" for ino i using I' by (auto split: if_splits)
  have own: "owned blk fs v = ino_blocks ?B (sv_ino sv) (sv_i sv)" by (rule vol_file_ok(2) [OF vol v])
  have fr: "live (nblocks fs) (used_blocks fs') ?B' ino i \<and> ino_blocks ?B' ino i = ino_blocks ?B ino i \<and> file_bytes ?B' i = file_bytes ?B i \<and>
      (ino \<noteq> sv_ino sv \<longrightarrow> decode_inode (?B' ino) = decode_inode (?B ino))" if Ii: "I' ino = Some i" for ino i
  proof -
    note lv = volD(5) [OF vol sub [OF Ii]]
    have u: "ino_blocks ?B ino i \<subseteq> used_blocks fs" by (rule live_used [OF lv])
    show ?thesis
    proof (cases "ino = sv_ino sv")
      case False
      have d: "ino_blocks ?B ino i \<inter> owned blk fs v = {}" using volD(7) [OF vol sub [OF Ii] Iv False] own by simp
      have "sv_ino sv \<in> owned blk fs v" by (simp add: own ino_blocks_def)
      then have "b \<in> used_blocks fs - owned blk fs v \<and> b \<noteq> sv_ino sv" if "b \<in> ino_blocks ?B ino i" for b using that d u by blast
      then have "?B' b = ?B b" if "b \<in> ino_blocks ?B ino i" for b using that I' by auto
      moreover have "ino_blocks ?B ino i \<subseteq> used_blocks fs'" using d u I' by auto
      ultimately show ?thesis using live_inodes_frame [OF lv, of "used_blocks fs'" ?B'] by blast
    next
      case True
      then have k: "used_blocks fs' = used_blocks fs" "\<And>b. b \<noteq> sv_ino sv \<Longrightarrow> ?B' b = ?B b" using I' Ii by auto
      have "ino \<notin> inode_blocks ?B i" using lv by (simp add: live_def)
      then have "?B' b = ?B b" if "b \<in> inode_blocks ?B i" for b using k(2) True that by metis
      note fr = inode_frame [of ?B i ?B', OF this]
      then show ?thesis using lv True k(1) by (simp add: live_def ino_blocks_def)
    qed
  qed
  show "file_bytes ?B' i = file_bytes ?B i" if "I' ino = Some i" for ino i using fr that by blast
  have other: "sv_ino sw \<noteq> sv_ino sv" if "w \<noteq> v" "sv_mem fs w = Some sw" for w sw
    using volD(3) [OF vol] v that unfolding inos_distinct_def by blast
  show "vol blk good n I' fs'"
  proof (rule volI)
    show "fs_ok good n fs'" "vnode_table fs'" using inv by (simp_all add: sfs_inv_def)
    show "inos_distinct fs'" using volD(3) [OF vol] mem(1) unfolding inos_distinct_def by (auto split: if_splits)
    show "I' (sv_ino sw) = Some (sv_i sw)" if "sv_mem fs' w = Some sw" for w sw
      using that volD(4) [OF vol, of w sw] other [of w sw] I' mem(1) by (auto split: if_splits)
    show "live (nblocks fs') (used_blocks fs') ?B' ino i" if "I' ino = Some i" for ino i using fr [OF that] mem(2) by simp
    show "decode_inode (?B' ino) = i \<or> dirty_at fs' ino" if "I' ino = Some i" for ino i
    proof (cases "ino = sv_ino sv")
      case True
      then show ?thesis using that Iv sub [OF that] I' by auto
    next
      case False
      have "dirty_at fs ino \<Longrightarrow> dirty_at fs' ino" unfolding dirty_at_def mem(1) using False v by (metis fun_upd_apply option.inject)
      then show ?thesis using False fr [OF that] volD(6) [OF vol sub [OF that]] by auto
    qed
    show "ino_blocks ?B' ino i \<inter> ino_blocks ?B' ino' i' = {}" if "I' ino = Some i" "I' ino' = Some i'" "ino \<noteq> ino'" for ino i ino' i'
      using fr [OF that(1)] fr [OF that(2)] volD(7) [OF vol sub [OF that(1)] sub [OF that(2)] that(3)] by simp
  qed
qed

context block_device
begin

text \<open>
  One reference less: the last one writes the inode back, or frees all blocks of a file without a name.
\<close>

lemma decref_ok:
  assumes vol: "vol blk good n I fs" and v: "sv_mem fs v = Some sv" and rc: "0 < vn_refcount sv" "vn_refcount sv = 1 \<Longrightarrow> vn_opencount sv = 0"
    and ty: "sfi_linkcount (sv_i sv) = 0 \<Longrightarrow> sfi_type (sv_i sv) = SFS_TYPE_FILE"
    and I': "I' = (if vn_refcount sv = 1 \<and> sfi_linkcount (sv_i sv) = 0 then I(sv_ino sv := None) else I)"
  shows "\<exists>fs'. vnode_decref dio v fs = Some fs' \<and> vol blk good n I' fs' \<and>
    sv_mem fs' = (sv_mem fs)(v := (if vn_refcount sv = 1 then None else Some (sv\<lparr>vn_refcount := vn_refcount sv - 1\<rparr>))) \<and>
    (\<forall>ino i. I' ino = Some i \<longrightarrow> file_bytes (blk (sfs_device fs')) i = file_bytes (blk (sfs_device fs)) i)"
proof (cases "vn_refcount sv = 1")
  case False
  let ?f = "\<lambda>sv :: sfs_vnode. sv\<lparr>vn_refcount := vn_refcount sv - 1\<rparr>"
  have I: "I (sv_ino sv) = Some (sv_i sv)" by (rule volD(4) [OF vol v])
  then have "inode_wf (sv_i sv)" using volD(5) [OF vol I] by (simp add: live_def inode_ok_def)
  then have "vol blk good n I (upd_sv v ?f fs)" using vol_upd_sv(1) [OF vol v, of ?f] I by (simp add: fun_upd_idem)
  then show ?thesis using False v rc(1) I' by (simp add: vnode_decref_def upd_sv_def)
next
  case True
  have dec: "vnode_decref dio v fs = do { (_, fs1) \<leftarrow> sfs_reclaim dio v fs; Some fs1 }" using v True by (simp add: vnode_decref_def)
  note inv = vol_inv [OF vol]
  show ?thesis
  proof (cases "sfi_linkcount (sv_i sv) = 0")
    case l: True
    obtain fs' where r: "sfs_reclaim dio v fs = Some (Inr (), fs')" "sfs_inv blk good n fs'" "sv_mem fs' = (sv_mem fs)(v := None)"
        "used_blocks fs' = used_blocks fs - owned blk fs v" "sfs_sb fs' = sfs_sb fs"
        "\<forall>b \<in> used_blocks fs - owned blk fs v. blk (sfs_device fs') b = blk (sfs_device fs) b"
      using reclaim_frees [OF inv v True rc(2) [OF True] l ty [OF l]] by blast
    have "nblocks fs' = nblocks fs" using r(5) by simp
    note f = vol_forget [OF vol v r(2,3) this, of "I(sv_ino sv := None)"]
    show ?thesis using dec r f True l I' by simp
  next
    case l: False
    obtain fs' where r: "sfs_reclaim dio v fs = Some (Inr (), fs')" "sfs_inv blk good n fs'" "sv_mem fs' = (sv_mem fs)(v := None)"
        "used_blocks fs' = used_blocks fs" "sfs_sb fs' = sfs_sb fs" "decode_inode (blk (sfs_device fs') (sv_ino sv)) = sv_i sv"
        "\<forall>b. b \<noteq> sv_ino sv \<longrightarrow> blk (sfs_device fs') b = blk (sfs_device fs) b"
      using reclaim_keeps [OF inv v True rc(2) [OF True] l] by blast
    have "nblocks fs' = nblocks fs" using r(5) by simp
    note f = vol_forget [OF vol v r(2,3) this, of I]
    show ?thesis using dec r f True l I' by simp
  qed
qed

end

end
