(* ===== verification/Sfs_Names.thy ===== *)
theory Sfs_Names
  imports Sfs_Volume
begin

text \<open>
  The operations on names: a volume with its root directory as a map \<open>F\<close> from names to the bytes of files, and
  \<open>sfs_lookup\<close>, \<open>sfs_creat\<close>, \<open>sfs_link\<close>, \<open>sfs_remove\<close> and \<open>sfs_rename\<close> as operations on that map.
\<close>

section \<open>Names and files\<close>

text \<open>
  What the directory says and what the inodes say agree: every name leads to a file, and the link count of a file
  is the number of its names.
\<close>

definition names_ok :: "(nat \<Rightarrow> sfs_inode option) \<Rightarrow> (bytes \<Rightarrow> nat option) \<Rightarrow> bool" where
  "names_ok I M \<longleftrightarrow> finite (dom M) \<and> card (dom M) < 2 ^ 15 \<and> (\<forall>name ino. M name = Some ino \<longrightarrow> ino \<noteq> SFS_ROOT_LOCATION \<and> ino \<in> dom I) \<and>
     (\<forall>ino i. I ino = Some i \<longrightarrow> ino \<noteq> SFS_ROOT_LOCATION \<longrightarrow>
        sfi_type i = SFS_TYPE_FILE \<and> sfi_linkcount i = card {name. M name = Some ino})"

definition refs_ok :: "'d sfs_fs \<Rightarrow> bool" where
  "refs_ok fs \<longleftrightarrow> (\<forall>v sv. sv_mem fs v = Some sv \<longrightarrow> 0 < vn_refcount sv)"

definition tree :: "('d \<Rightarrow> nat \<Rightarrow> bytes) \<Rightarrow> (nat \<Rightarrow> sfs_inode option) \<Rightarrow> (bytes \<Rightarrow> nat option) \<Rightarrow> 'd sfs_fs \<Rightarrow> nat \<Rightarrow> bool" where
  "tree blk I M fs d \<longleftrightarrow> refs_ok fs \<and> (\<exists>sd. sv_mem fs d = Some sd \<and> sv_ino sd = SFS_ROOT_LOCATION) \<and> dir_ok blk fs d \<and>
     dir_map (dir_entries blk fs d) = M \<and> names_ok I M"

definition file_data :: "(nat \<Rightarrow> bytes) \<Rightarrow> sfs_inode \<Rightarrow> bytes" where
  "file_data B i = take (sfi_size i) (file_bytes B i)"

definition files :: "(nat \<Rightarrow> bytes) \<Rightarrow> (nat \<Rightarrow> sfs_inode option) \<Rightarrow> (bytes \<Rightarrow> nat option) \<Rightarrow> bytes \<Rightarrow> bytes option" where
  "files B I M name = map_option (\<lambda>ino. file_data B (the (I ino))) (M name)"

text \<open>The volume, with its root directory loaded at \<open>d\<close>, holds the files \<open>F\<close>.\<close>

definition volume :: "('d \<Rightarrow> nat \<Rightarrow> bytes) \<Rightarrow> ('d \<Rightarrow> bool) \<Rightarrow> nat \<Rightarrow> 'd sfs_fs \<Rightarrow> nat \<Rightarrow> (bytes \<Rightarrow> bytes option) \<Rightarrow> bool" where
  "volume blk good n fs d F \<longleftrightarrow> (\<exists>I M. vol blk good n I fs \<and> tree blk I M fs d \<and> F = files (blk (sfs_device fs)) I M)"

lemma volumeI:
  "vol blk good n I fs \<Longrightarrow> tree blk I M fs d \<Longrightarrow> F = files (blk (sfs_device fs)) I M \<Longrightarrow> volume blk good n fs d F"
  unfolding volume_def by blast

text \<open>The vnode loaded at \<open>w\<close> is that of the file which the directory has under \<open>name\<close>.\<close>

definition named_by :: "('d \<Rightarrow> nat \<Rightarrow> bytes) \<Rightarrow> 'd sfs_fs \<Rightarrow> nat \<Rightarrow> bytes \<Rightarrow> nat \<Rightarrow> bool" where
  "named_by blk fs d name w \<longleftrightarrow> w \<noteq> d \<and> (\<exists>sw. sv_mem fs w = Some sw \<and> dir_map (dir_entries blk fs d) name = Some (sv_ino sw))"

lemma dom_files: "dom (files B I M) = dom M"
  by (auto simp: files_def dom_def)

lemma files_cong:
  assumes "\<And>name ino. M name = Some ino \<Longrightarrow> file_data B' (the (I' ino)) = file_data B (the (I ino))"
  shows "files B' I' M = files B I M"
  using assms by (auto simp: files_def fun_eq_iff option.map_comp intro!: map_option_cong)

lemma card_names: "names_ok I M \<Longrightarrow> card {name. M name = Some ino} < 2 ^ 15"
proof -
  assume ok: "names_ok I M"
  have "card {name. M name = Some ino} \<le> card (dom M)" using ok by (intro card_mono) (auto simp: names_ok_def)
  then show ?thesis using ok unfolding names_ok_def by linarith
qed

lemma dir_map_dom: "dom (dir_map es) \<subseteq> dir_name ` set es"
proof
  fix name assume "name \<in> dom (dir_map es)"
  then obtain k where "k < length es" "slot_has es name k" using dir_map_None [of es name] by auto
  then show "name \<in> dir_name ` set es" by (auto simp: slot_has_def)
qed

lemma dir_map_small:
  assumes "dir_ok blk fs v"
  shows "finite (dom (dir_map (dir_entries blk fs v)))" and "card (dom (dir_map (dir_entries blk fs v))) \<le> MAXFILE div DIRSZ"
proof -
  let ?es = "dir_entries blk fs v"
  show fin: "finite (dom (dir_map ?es))" using finite_subset [OF dir_map_dom] by simp
  have "card (dom (dir_map ?es)) \<le> card (dir_name ` set ?es)" by (intro card_mono dir_map_dom) simp
  also have "\<dots> \<le> length ?es" by (metis card_image_le card_length finite_set order_trans)
  also have "\<dots> \<le> MAXFILE div DIRSZ"
    using assms div_le_mono [of "sfi_size (inode_of fs v)" MAXFILE DIRSZ] unfolding dir_ok_def dir_entries_def entries_length by blast
  finally show "card (dom (dir_map ?es)) \<le> MAXFILE div DIRSZ" .
qed

text \<open>One name more or less.\<close>

lemma names_ok_root: "names_ok I M \<Longrightarrow> names_ok (I(SFS_ROOT_LOCATION \<mapsto> i)) M"
  by (auto simp: names_ok_def)

lemma names_ok_add:
  assumes ok: "names_ok I M" and name: "M name = None" and I: "I ino = Some i" "ino \<noteq> SFS_ROOT_LOCATION" and c: "card (dom (M(name \<mapsto> ino))) < 2 ^ 15"
    and i': "sfi_type i' = sfi_type i" "sfi_linkcount i' = sfi_linkcount i + 1"
  shows "names_ok (I(ino \<mapsto> i')) (M(name \<mapsto> ino))"
proof -
  have fin: "finite {nm. M nm = Some ino}" using ok by (auto simp: names_ok_def intro: finite_subset [of _ "dom M"])
  have "{nm. (M(name \<mapsto> ino)) nm = Some ino} = insert name {nm. M nm = Some ino}" by auto
  then have "card {nm. (M(name \<mapsto> ino)) nm = Some ino} = card {nm. M nm = Some ino} + 1" using fin name by simp
  moreover have "{nm. (M(name \<mapsto> ino)) nm = Some x} = {nm. M nm = Some x}" if "x \<noteq> ino" for x using that name by auto
  moreover have "sfi_type i = SFS_TYPE_FILE" "sfi_linkcount i = card {nm. M nm = Some ino}" using ok I by (auto simp: names_ok_def)
  ultimately show ?thesis using ok I i' c by (auto simp: names_ok_def)
qed

lemma names_ok_del:
  assumes ok: "names_ok I M" and name: "M name = Some ino" and I: "I ino = Some i"
    and i': "sfi_type i' = sfi_type i" "sfi_linkcount i' = sfi_linkcount i - 1"
  shows "names_ok (I(ino \<mapsto> i')) (M(name := None))"
proof -
  have fin: "finite {nm. M nm = Some ino}" and ino: "ino \<noteq> SFS_ROOT_LOCATION"
    using ok name by (auto simp: names_ok_def intro: finite_subset [of _ "dom M"])
  have "{nm. (M(name := None)) nm = Some ino} = {nm. M nm = Some ino} - {name}" by auto
  then have "card {nm. (M(name := None)) nm = Some ino} = card {nm. M nm = Some ino} - 1" using fin name by simp
  moreover have "{nm. (M(name := None)) nm = Some x} = {nm. M nm = Some x}" if "x \<noteq> ino" for x using that name by auto
  moreover have "sfi_type i = SFS_TYPE_FILE" "sfi_linkcount i = card {nm. M nm = Some ino}" using ok I ino by (auto simp: names_ok_def)
  moreover have "card (dom M - {name}) < 2 ^ 15" using ok card_Diff1_le [of "dom M" name] unfolding names_ok_def by linarith
  ultimately show ?thesis using ok I i' ino by (auto simp: names_ok_def)
qed

lemma names_ok_drop:
  assumes "names_ok I M" and "\<And>name. M name \<noteq> Some ino"
  shows "names_ok (I(ino := None)) M"
  using assms unfolding names_ok_def by auto

lemma names_ok_new:
  assumes "names_ok I M" and "I ino = None" and "sfi_type i = SFS_TYPE_FILE" and "sfi_linkcount i = 0"
  shows "names_ok (I(ino \<mapsto> i)) M"
proof -
  have "{name. M name = Some ino} = {}" using assms(1,2) by (auto simp: names_ok_def)
  then show ?thesis using assms by (auto simp: names_ok_def)
qed

text \<open>The directory is as it was when its inode and its bytes are.\<close>

lemma dir_frame:
  assumes "inode_of fs' d = inode_of fs d" and "contents blk fs' d = contents blk fs d"
  shows "dir_entries blk fs' d = dir_entries blk fs d" and "dir_ok blk fs' d = dir_ok blk fs d"
  using assms by (simp_all add: dir_entries_def dir_ok_def)

lemma tree_frame:
  assumes "tree blk I M fs d" and "sv_mem fs' d = sv_mem fs d" and "contents blk fs' d = contents blk fs d" and "refs_ok fs'" and "names_ok I' M"
  shows "tree blk I' M fs' d"
proof -
  have "inode_of fs' d = inode_of fs d" using assms(2) by (simp add: inode_of_def)
  then show ?thesis using assms dir_frame [of fs' d fs blk] by (simp add: tree_def)
qed

lemma treeD:
  assumes "tree blk I M fs d"
  shows "refs_ok fs" and "dir_ok blk fs d" and "dir_map (dir_entries blk fs d) = M" and "names_ok I M"
    and "\<exists>sd. sv_mem fs d = Some sd \<and> sv_ino sd = SFS_ROOT_LOCATION"
  using assms by (simp_all add: tree_def)

lemma same_store_contents:
  assumes "same_store blk fs fs'" and "sv_mem fs' d = sv_mem fs d"
  shows "contents blk fs' d = contents blk fs d"
  using assms by (simp add: same_store_def contents_def inode_of_def)

text \<open>A vnode that has been loaded is not the directory.\<close>

lemma loaded_at_other:
  assumes "loaded_at fs fs' w ino i" and "sv_mem fs d = Some sd" and "sv_ino sd \<noteq> ino"
  shows "w \<noteq> d" and "sv_mem fs' d = sv_mem fs d"
proof -
  show "w \<noteq> d" using assms by (auto simp: loaded_at_def)
  then show "sv_mem fs' d = sv_mem fs d" using assms(1) by (auto simp: loaded_at_def split: option.splits)
qed

lemma refs_ok_upd: "refs_ok fs \<Longrightarrow> sv_mem fs' = (sv_mem fs)(w := x) \<Longrightarrow> (\<And>sv. x = Some sv \<Longrightarrow> 0 < vn_refcount sv) \<Longrightarrow> refs_ok fs'"
  unfolding refs_ok_def by (metis fun_upd_apply)

lemma loaded_at_refs:
  assumes "loaded_at fs fs' w ino i" and "refs_ok fs"
  shows "refs_ok fs'"
proof (cases "sv_mem fs w")
  case (Some sv)
  then have "0 < vn_refcount sv" using assms(2) by (simp add: refs_ok_def)
  then show ?thesis using Some assms(1) by (intro refs_ok_upd [OF assms(2)]) (auto simp: loaded_at_def)
next
  case None
  then obtain dy where "sv_mem fs' = (sv_mem fs)(w \<mapsto> \<lparr>vn_refcount = 1, vn_opencount = 0, sv_i = i, sv_ino = ino, sv_dirty = dy\<rparr>)"
    using assms(1) by (auto simp: loaded_at_def)
  then show ?thesis by (rule refs_ok_upd [OF assms(2)]) auto
qed

lemma loaded_at_vnode:
  assumes "loaded_at fs fs' w ino i" and "refs_ok fs"
  shows "\<exists>sv. sv_mem fs' w = Some sv \<and> sv_ino sv = ino \<and> sv_i sv = i \<and> 0 < vn_refcount sv \<and> (vn_refcount sv = 1 \<longrightarrow> vn_opencount sv = 0)"
proof (cases "sv_mem fs w")
  case (Some sv)
  then have "0 < vn_refcount sv" using assms(2) by (simp add: refs_ok_def)
  then show ?thesis using Some assms(1) by (simp add: loaded_at_def)
qed (use assms(1) in \<open>auto simp: loaded_at_def\<close>)

section \<open>Looking names up\<close>

context block_device
begin

lemma lookonce_ok:
  assumes vol: "vol blk good n I fs" and tr: "tree blk I M fs d" and fresh: "fresh_mem mem fs"
  shows "\<exists>r fs'. sfs_lookonce dio (mem, okinit, km) d name fs = Some (r, fs') \<and> vol blk good n I fs' \<and> tree blk I M fs' d \<and> same_store blk fs fs' \<and>
    (case r of
       Inl e \<Rightarrow> e = ENOENT \<and> M name = None \<or> e = ENOMEM \<and> M name \<noteq> None
     | Inr (w, slot) \<Rightarrow> w \<noteq> d \<and> dir_find (dir_entries blk fs d) name = Some slot \<and>
         (\<exists>ino i. M name = Some ino \<and> I ino = Some i \<and> loaded_at fs fs' w ino i))"
proof -
  note t = treeD [OF tr]
  obtain sd where sd: "sv_mem fs d = Some sd" "sv_ino sd = SFS_ROOT_LOCATION" using t(5) by blast
  let ?es = "dir_entries blk fs d"
  obtain emp fs1 where fn: "sfs_dir_findname dio d name fs = Some (Inr (map_option (\<lambda>k. (sfd_ino (?es ! k), k)) (dir_find ?es name), emp), fs1)"
      "same_disk blk good fs fs1"
    using dir_findname_ok [OF volD(1) [OF vol] vol_file_ok(1) [OF vol sd(1)] t(2) refl] by blast
  note mem1 = same_disk_fields(6) [OF fn(2)]
  have vol1: "vol blk good n I fs1" by (rule vol_same_disk [OF vol fn(2)])
  have ss1: "same_store blk fs fs1" by (rule same_disk_store [OF fn(2)])
  have refs1: "refs_ok fs1" using t(1) mem1 by (simp add: refs_ok_def)
  have tr1: "tree blk I M fs1 d" using tree_frame [OF tr _ same_store_contents [OF ss1] refs1 t(4)] mem1 by simp
  show ?thesis
  proof (cases "dir_find ?es name")
    case None
    then have "sfs_lookonce dio (mem, okinit, km) d name fs = Some (Inl ENOENT, fs1)" "M name = None"
      using fn(1) t(3) by (auto simp: sfs_lookonce_def dir_map_def)
    then show ?thesis using vol1 tr1 ss1 by simp
  next
    case (Some slot)
    define ino where "ino = sfd_ino (?es ! slot)"
    have M: "M name = Some ino" using Some t(3) by (auto simp: dir_map_def ino_def)
    then have "ino \<in> dom I" "ino \<noteq> SFS_ROOT_LOCATION" using t(4) unfolding names_ok_def by blast+
    then obtain i where I: "I ino = Some i" "ino \<noteq> SFS_ROOT_LOCATION" by blast
    then have ty: "sfi_type i = SFS_TYPE_FILE" "sfi_linkcount i = card {nm. M nm = Some ino}" using t(4) by (simp_all add: names_ok_def)
    have "finite {nm. M nm = Some ino}" using t(4) by (auto simp: names_ok_def intro: finite_subset [of _ "dom M"])
    then have lc: "sfi_linkcount i \<noteq> 0" using ty(2) M by auto
    obtain r fs' where ld: "sfs_loadvnode dio (mem, okinit, km) ino SFS_TYPE_INVAL fs1 = Some (r, fs')" "vol blk good n I fs'" "same_store blk fs1 fs'"
        "case r of Inl e \<Rightarrow> e = ENOMEM \<and> sv_mem fs' = sv_mem fs1 | Inr w \<Rightarrow> loaded_at fs1 fs' w ino i"
      using loadvnode_ok [OF vol1 I(1) disjI1 [OF ty(1)], of mem okinit km] fresh mem1 by (auto simp: fresh_mem_def)
    have ss: "same_store blk fs fs'" by (rule same_store_trans [OF ss1 ld(3)])
    show ?thesis
    proof (cases r)
      case (Inl e)
      then have e: "e = ENOMEM" "sv_mem fs' = sv_mem fs" using ld(4) mem1 by simp_all
      then have "refs_ok fs'" using t(1) by (simp add: refs_ok_def)
      then have "tree blk I M fs' d" using tree_frame [OF tr _ same_store_contents [OF ss] _ t(4)] e(2) by simp
      moreover have "sfs_lookonce dio (mem, okinit, km) d name fs = Some (Inl ENOMEM, fs')"
        using fn(1) Some ld(1) Inl e(1) by (simp add: sfs_lookonce_def ino_def)
      ultimately show ?thesis using ld(2) ss M by simp
    next
      case (Inr w)
      then have la: "loaded_at fs fs' w ino i" using ld(4) unfolding loaded_at_def mem1 by simp
      have wd: "w \<noteq> d" "sv_mem fs' d = sv_mem fs d" using loaded_at_other [OF la sd(1)] sd(2) I(2) by simp_all
      have "tree blk I M fs' d" using tree_frame [OF tr wd(2) same_store_contents [OF ss wd(2)] loaded_at_refs [OF la t(1)] t(4)] .
      moreover have "sfs_lookonce dio (mem, okinit, km) d name fs = Some (Inr (w, slot), fs')"
        using fn(1) Some ld(1) Inr lc loaded_at_vnode [OF la t(1)] by (auto simp: sfs_lookonce_def ino_def)
      ultimately show ?thesis using ld(2) ss M I(1) la wd(1) Some by auto
    qed
  qed
qed

end

section \<open>Changing the directory\<close>

text \<open>The directory \<open>d\<close> has been written and has become \<open>M\<close>; no file has changed.\<close>

definition dir_step :: "('d \<Rightarrow> nat \<Rightarrow> bytes) \<Rightarrow> ('d \<Rightarrow> bool) \<Rightarrow> nat \<Rightarrow> nat \<Rightarrow> (nat \<Rightarrow> sfs_inode option) \<Rightarrow> (bytes \<Rightarrow> nat option) \<Rightarrow>
    'd sfs_fs \<Rightarrow> 'd sfs_fs \<Rightarrow> bool" where
  "dir_step blk good n d I M fs fs' \<longleftrightarrow> vol blk good n (I(SFS_ROOT_LOCATION \<mapsto> inode_of fs' d)) fs' \<and> refs_ok fs' \<and>
     (\<exists>sd. sv_mem fs' d = Some sd \<and> sv_ino sd = SFS_ROOT_LOCATION) \<and> dir_ok blk fs' d \<and> dir_map (dir_entries blk fs' d) = M \<and>
     (\<forall>w. w \<noteq> d \<longrightarrow> sv_mem fs' w = sv_mem fs w) \<and>
     (\<forall>ino i. ino \<noteq> SFS_ROOT_LOCATION \<longrightarrow> I ino = Some i \<longrightarrow> file_bytes (blk (sfs_device fs')) i = file_bytes (blk (sfs_device fs)) i)"

lemma dir_stepI:
  assumes vol: "vol blk good n I fs" and tr: "tree blk I' M' fs d" and st: "file_step blk good n d fs fs'" and ok: "dir_ok blk fs' d"
  shows "dir_step blk good n d I (dir_map (dir_entries blk fs' d)) fs fs'"
proof -
  obtain sd where sd: "sv_mem fs d = Some sd" "sv_ino sd = SFS_ROOT_LOCATION" using treeD(5) [OF tr] by blast
  note vs = vol_file_step [OF vol sd(1) st, unfolded sd(2)]
  obtain sd' where sd': "sv_mem fs' d = Some sd'" using st by (auto simp: file_step_def file_ok_def)
  have "sv_ino sd' = SFS_ROOT_LOCATION" "vn_refcount sd' = vn_refcount sd" "\<And>w. w \<noteq> d \<Longrightarrow> sv_mem fs' w = sv_mem fs w"
    using st sd sd' by (simp_all add: file_step_def)
  moreover have "refs_ok fs'" unfolding refs_ok_def
  proof (intro allI impI)
    fix w sw assume "sv_mem fs' w = Some sw"
    then show "0 < vn_refcount sw" using treeD(1) [OF tr] calculation sd(1) sd' unfolding refs_ok_def by (metis option.inject)
  qed
  ultimately show ?thesis using vs sd' ok by (simp add: dir_step_def)
qed

lemma dir_step_tree:
  assumes "dir_step blk good n d I M fs fs'" and "names_ok (I(SFS_ROOT_LOCATION \<mapsto> inode_of fs' d)) M"
  shows "tree blk (I(SFS_ROOT_LOCATION \<mapsto> inode_of fs' d)) M fs' d"
  using assms by (simp add: dir_step_def tree_def)

lemma dir_step_volume:
  assumes st: "dir_step blk good n d I M fs fs'" and nm: "names_ok I M"
  shows "volume blk good n fs' d (files (blk (sfs_device fs)) I M)"
proof -
  let ?I = "I(SFS_ROOT_LOCATION \<mapsto> inode_of fs' d)"
  have "files (blk (sfs_device fs')) ?I M = files (blk (sfs_device fs)) I M"
  proof (rule files_cong)
    fix name ino assume "M name = Some ino"
    then have "ino \<noteq> SFS_ROOT_LOCATION" "ino \<in> dom I" using nm unfolding names_ok_def by blast+
    then show "file_data (blk (sfs_device fs')) (the (?I ino)) = file_data (blk (sfs_device fs)) (the (I ino))"
      using st by (auto simp: file_data_def dir_step_def)
  qed
  moreover have "vol blk good n ?I fs'" using st by (simp add: dir_step_def)
  ultimately show ?thesis using volumeI [OF _ dir_step_tree [OF st names_ok_root [OF nm]]] by metis
qed

text \<open>The link count of the file \<open>w\<close> changes after the directory did.\<close>

lemma relink:
  assumes vol: "vol blk good n I fs" and w: "sv_mem fs w = Some sv" and f: "f = (\<lambda>i. i\<lparr>sfi_linkcount := g (sfi_linkcount i)\<rparr>)" and k: "g (sfi_linkcount (sv_i sv)) < 2 ^ 16"
  shows "vol blk good n (I(sv_ino sv \<mapsto> f (sv_i sv))) (upd_inode w f fs)"
    and "file_data B (f (sv_i sv)) = file_data B (sv_i sv)"
proof -
  let ?h = "\<lambda>sv. sv\<lparr>sv_i := f (sv_i sv), sv_dirty := True\<rparr>"
  have "inode_wf (sv_i sv)" using volD(5) [OF vol volD(4) [OF vol w]] by (simp add: live_def inode_ok_def)
  then have wf: "inode_wf (f (sv_i sv))" using k by (simp add: inode_wf_def f)
  have u: "upd_inode w f fs = upd_sv w ?h fs" by (simp add: upd_inode_def)
  have fb: "file_bytes B (f (sv_i sv)) = file_bytes B (sv_i sv)"
    by (simp add: f file_bytes_def blkmap_def indir_def)
  then show "file_data B (f (sv_i sv)) = file_data B (sv_i sv)" by (simp add: file_data_def f)
  show "vol blk good n (I(sv_ino sv \<mapsto> f (sv_i sv))) (upd_inode w f fs)"
    unfolding u using vol_upd_sv(1) [OF vol w, of ?h] wf by (simp add: f)
qed

context block_device
begin

lemma link_step:
  assumes vol: "vol blk good n I fs" and tr: "tree blk I M fs d" and name: "name_ok name" and ino: "ino \<noteq> 0" "ino < 2 ^ 32"
  shows "\<exists>r fs'. sfs_dir_link dio d name ino fs = Some (r, fs') \<and>
    (case r of
       Inr slot \<Rightarrow> M name = None \<and> length name < SFS_NAMELEN \<and> dir_step blk good n d I (M(name \<mapsto> ino)) fs fs' \<and>
         dir_find (dir_entries blk fs' d) name = Some slot \<and>
         (\<forall>nm. nm \<noteq> name \<longrightarrow> dir_find (dir_entries blk fs' d) nm = dir_find (dir_entries blk fs d) nm)
     | Inl e \<Rightarrow> dir_step blk good n d I M fs fs' \<and> dir_entries blk fs' d = dir_entries blk fs d \<and> (e = EEXIST \<and> name \<in> dom M \<or> e = ENAMETOOLONG \<and> SFS_NAMELEN \<le> length name \<or>
         e = ENOSPC \<or> e = EINVAL))"
proof -
  note t = treeD [OF tr]
  obtain sd where sd: "sv_mem fs d = Some sd" using t(5) by blast
  obtain r fs' where l: "sfs_dir_link dio d name ino fs = Some (r, fs')" "file_step blk good n d fs fs'" "dir_ok blk fs' d"
      "case r of
       Inr slot \<Rightarrow> dir_map (dir_entries blk fs d) name = None \<and> length name < SFS_NAMELEN \<and>
         dir_map (dir_entries blk fs' d) = (dir_map (dir_entries blk fs d))(name \<mapsto> ino) \<and>
         dir_find (dir_entries blk fs' d) name = Some slot \<and>
         (\<forall>nm. nm \<noteq> name \<longrightarrow> dir_find (dir_entries blk fs' d) nm = dir_find (dir_entries blk fs d) nm)
     | Inl e \<Rightarrow> dir_entries blk fs' d = dir_entries blk fs d \<and>
         ((e = EEXIST \<and> name \<in> dom (dir_map (dir_entries blk fs d))) \<or> (e = ENAMETOOLONG \<and> SFS_NAMELEN \<le> length name) \<or>
          (e = ENOSPC \<and> used_blocks fs' = {0..<b_nbits (sfs_freemap fs')}) \<or>
          (e = EINVAL \<and> length (dir_entries blk fs d) = MAXFILE div DIRSZ))"
    using dir_link_ok [OF volD(1) [OF vol] vol_file_ok(1) [OF vol sd] t(2) name ino] by (elim exE conjE) (rule that)
  note ds = dir_stepI [OF vol tr l(2,3)]
  show ?thesis using l(1,4) ds t(3) by (cases r) auto
qed

lemma unlink_step:
  assumes vol: "vol blk good n I fs" and tr: "tree blk I' M fs d" and slot: "dir_find (dir_entries blk fs d) name = Some slot"
  shows "\<exists>fs'. sfs_dir_unlink dio d slot fs = Some (Inr (), fs') \<and> dir_step blk good n d I (M(name := None)) fs fs'"
proof -
  note t = treeD [OF tr]
  obtain sd where sd: "sv_mem fs d = Some sd" using t(5) by blast
  obtain fs' where l: "sfs_dir_unlink dio d slot fs = Some (Inr (), fs')" "file_step blk good n d fs fs'" "dir_ok blk fs' d"
      "dir_map (dir_entries blk fs' d) = (dir_map (dir_entries blk fs d))(name := None)"
    using dir_unlink_ok [OF volD(1) [OF vol] vol_file_ok(1) [OF vol sd] t(2) slot] by blast
  show ?thesis using l(1,4) dir_stepI [OF vol tr l(2,3)] t(3) by auto
qed

end

lemma names_card:
  assumes "dir_step blk good n d I M fs fs'"
  shows "card (dom M) < 2 ^ 15"
  using dir_map_small [of blk fs' d] assms by (auto simp: dir_step_def)

text \<open>The link count of \<open>w\<close> follows the directory: the volume is sound again, with the new names.\<close>

lemma relink_volume:
  assumes st: "dir_step blk good n d I M' fs fs'" and wd: "w \<noteq> d" and w: "sv_mem fs' w = Some sw" "sv_ino sw = b" "b \<noteq> SFS_ROOT_LOCATION"
    and f: "f = (\<lambda>i. i\<lparr>sfi_linkcount := g (sfi_linkcount i)\<rparr>)" "g (sfi_linkcount (sv_i sw)) < 2 ^ 16"
    and I': "I' = I(SFS_ROOT_LOCATION \<mapsto> inode_of fs' d, b \<mapsto> f (sv_i sw))" and nm: "names_ok I' M'" and fs'': "fs'' = upd_inode w f fs'"
  shows "vol blk good n I' fs''" and "tree blk I' M' fs'' d"
    and "\<And>ino i. ino \<noteq> SFS_ROOT_LOCATION \<Longrightarrow> I ino = Some i \<Longrightarrow> file_data (blk (sfs_device fs'')) (the (I' ino)) = file_data (blk (sfs_device fs)) i"
proof -
  have vol3: "vol blk good n (I(SFS_ROOT_LOCATION \<mapsto> inode_of fs' d)) fs'" using st by (simp add: dir_step_def)
  note rl = relink [OF vol3 w(1) f]
  show "vol blk good n I' fs''" using rl(1) w(2) by (simp add: I' fs'')
  have dm: "sv_mem fs'' d = sv_mem fs' d" using wd by (simp add: fs'')
  have io: "inode_of fs'' d = inode_of fs' d" using dm by (simp add: inode_of_def)
  have ct: "contents blk fs'' d = contents blk fs' d" using io by (simp add: contents_def fs'')
  have "refs_ok fs''" using w(1) st by (intro refs_ok_upd [of fs' fs'' w]) (auto simp: fs'' upd_inode_def upd_sv_def dir_step_def refs_ok_def)
  then show "tree blk I' M' fs'' d"
    using st nm dm dir_frame [OF io ct] by (simp add: dir_step_def tree_def)
  have Ib: "I b = Some (sv_i sw)" using volD(4) [OF vol3 w(1)] w(2,3) by simp
  show "file_data (blk (sfs_device fs'')) (the (I' ino)) = file_data (blk (sfs_device fs)) i" if "ino \<noteq> SFS_ROOT_LOCATION" "I ino = Some i" for ino i
  proof -
    have "file_data (blk (sfs_device fs')) i = file_data (blk (sfs_device fs)) i" using st that by (simp add: dir_step_def file_data_def)
    then show ?thesis using that Ib rl(2) by (cases "ino = b") (simp_all add: I' fs'')
  qed
qed

lemma link_finish:
  assumes vol: "vol blk good n I fs" and nm: "names_ok I M" and st: "dir_step blk good n d I (M(name \<mapsto> b)) fs fs'" and name: "M name = None"
    and wd: "w \<noteq> d" and w: "sv_mem fs' w = Some sw" "sv_ino sw = b" "b \<noteq> SFS_ROOT_LOCATION" and I: "I b = Some i"
  shows "\<exists>I'. vol blk good n I' (link_inc w fs') \<and> tree blk I' (M(name \<mapsto> b)) (link_inc w fs') d \<and>
    files (blk (sfs_device (link_inc w fs'))) I' (M(name \<mapsto> b)) = (files (blk (sfs_device fs)) I M)(name \<mapsto> file_data (blk (sfs_device fs)) i) \<and>
    sfi_linkcount (the (I' b)) = sfi_linkcount i + 1"
proof -
  let ?g = "\<lambda>k. (k + 1) mod 2 ^ 16" and ?r = "SFS_ROOT_LOCATION"
  let ?f = "\<lambda>i. i\<lparr>sfi_linkcount := ?g (sfi_linkcount i)\<rparr>"
  have vol3: "vol blk good n (I(?r \<mapsto> inode_of fs' d)) fs'" using st by (simp add: dir_step_def)
  have swi: "sv_i sw = i" using volD(4) [OF vol3 w(1)] w(2,3) I by simp
  have lc: "sfi_linkcount i = card {nm. M nm = Some b}" using nm I w(3) by (simp add: names_ok_def)
  then have g: "?g (sfi_linkcount i) = sfi_linkcount i + 1" using card_names [OF nm, of b] by simp
  define I' where "I' = I(?r \<mapsto> inode_of fs' d, b \<mapsto> ?f i)"
  have "names_ok I' (M(name \<mapsto> b))"
    unfolding I'_def using names_ok_add [OF names_ok_root [OF nm] name _ w(3) names_card [OF st]] I w(3) g by simp
  note rv = relink_volume [OF st wd w refl _ _ this refl, of ?g, unfolded swi]
  have li: "link_inc w fs' = upd_inode w ?f fs'" by (simp add: link_inc_def)
  have v: "vol blk good n I' (link_inc w fs')" "tree blk I' (M(name \<mapsto> b)) (link_inc w fs') d"
      "\<And>ino i. ino \<noteq> ?r \<Longrightarrow> I ino = Some i \<Longrightarrow> file_data (blk (sfs_device (link_inc w fs'))) (the (I' ino)) = file_data (blk (sfs_device fs)) i"
    using rv unfolding li by (simp_all add: I'_def)
  have "files (blk (sfs_device (link_inc w fs'))) I' (M(name \<mapsto> b)) nm' = ((files (blk (sfs_device fs)) I M)(name \<mapsto> file_data (blk (sfs_device fs)) i)) nm'" for nm'
  proof (cases "M nm'")
    case None
    then show ?thesis using v(3) [OF w(3) I] by (simp add: files_def)
  next
    case (Some ino)
    then have "ino \<in> dom I" "ino \<noteq> ?r" using nm unfolding names_ok_def by blast+
    then show ?thesis using v(3) [of ino] v(3) [OF w(3) I] Some name by (auto simp: files_def)
  qed
  then show ?thesis using v(1,2) g by (intro exI [of _ I'] conjI ext) (simp_all add: I'_def)
qed

lemma unlink_finish:
  assumes vol: "vol blk good n I fs" and nm: "names_ok I M" and st: "dir_step blk good n d I (M(name := None)) fs fs'" and name: "M name = Some b"
    and wd: "w \<noteq> d" and w: "sv_mem fs' w = Some sw" "sv_ino sw = b" "b \<noteq> SFS_ROOT_LOCATION" and I: "I b = Some i"
  shows "0 < sfi_linkcount i" and "sv_i sw = i"
    and "\<exists>I'. vol blk good n I' (link_dec w fs') \<and> tree blk I' (M(name := None)) (link_dec w fs') d \<and>
    files (blk (sfs_device (link_dec w fs'))) I' (M(name := None)) = (files (blk (sfs_device fs)) I M)(name := None)"
proof -
  let ?g = "\<lambda>k. (k + (2 ^ 16 - 1)) mod 2 ^ 16" and ?r = "SFS_ROOT_LOCATION"
  let ?f = "\<lambda>i. i\<lparr>sfi_linkcount := ?g (sfi_linkcount i)\<rparr>"
  have vol3: "vol blk good n (I(?r \<mapsto> inode_of fs' d)) fs'" using st by (simp add: dir_step_def)
  show swi: "sv_i sw = i" using volD(4) [OF vol3 w(1)] w(2,3) I by simp
  have fin: "finite {nm. M nm = Some b}" using nm by (auto simp: names_ok_def intro: finite_subset [of _ "dom M"])
  have lc: "sfi_linkcount i = card {nm. M nm = Some b}" using nm I w(3) by (simp add: names_ok_def)
  then show pos: "0 < sfi_linkcount i" using fin name by (auto simp: card_gt_0_iff)
  have small: "sfi_linkcount i < 2 ^ 15" using card_names [OF nm, of b] lc by simp
  have g: "?g (sfi_linkcount i) = sfi_linkcount i - 1"
  proof -
    have "sfi_linkcount i + (2 ^ 16 - 1) = (sfi_linkcount i - 1) + 2 ^ 16" using pos by simp
    then have "?g (sfi_linkcount i) = (sfi_linkcount i - 1) mod 2 ^ 16" by (simp only: mod_add_self2)
    also have "\<dots> = sfi_linkcount i - 1" using small by (intro mod_less) simp
    finally show ?thesis .
  qed
  define I' where "I' = I(?r \<mapsto> inode_of fs' d, b \<mapsto> ?f i)"
  have "names_ok I' (M(name := None))"
    unfolding I'_def using names_ok_del [OF names_ok_root [OF nm] name] I w(3) g by simp
  note rv = relink_volume [OF st wd w refl _ _ this refl, of ?g, unfolded swi]
  have li: "link_dec w fs' = upd_inode w ?f fs'" by (simp add: link_dec_def)
  have v: "vol blk good n I' (link_dec w fs')" "tree blk I' (M(name := None)) (link_dec w fs') d"
      "\<And>ino i. ino \<noteq> ?r \<Longrightarrow> I ino = Some i \<Longrightarrow> file_data (blk (sfs_device (link_dec w fs'))) (the (I' ino)) = file_data (blk (sfs_device fs)) i"
    using rv unfolding li by (simp_all add: I'_def)
  have "files (blk (sfs_device (link_dec w fs'))) I' (M(name := None)) nm' = ((files (blk (sfs_device fs)) I M)(name := None)) nm'" for nm'
  proof (cases "M nm'")
    case (Some ino)
    then have "ino \<in> dom I" "ino \<noteq> ?r" using nm unfolding names_ok_def by blast+
    then show ?thesis using v(3) [of ino] Some by (auto simp: files_def)
  qed (simp add: files_def)
  then show "\<exists>I'. vol blk good n I' (link_dec w fs') \<and> tree blk I' (M(name := None)) (link_dec w fs') d \<and>
      files (blk (sfs_device (link_dec w fs'))) I' (M(name := None)) = (files (blk (sfs_device fs)) I M)(name := None)"
    using v(1,2) by (intro exI [of _ I'] conjI ext) simp_all
qed

section \<open>The operations on names\<close>

text \<open>A reference to a file is given up.\<close>

context block_device
begin

lemma decref_volume:
  assumes vol: "vol blk good n I fs" and tr: "tree blk I M fs d" and wd: "w \<noteq> d" and w: "sv_mem fs w = Some sw" "sv_ino sw \<noteq> SFS_ROOT_LOCATION"
    "vn_refcount sw = 1 \<longrightarrow> vn_opencount sw = 0"
  shows "\<exists>fs'. vnode_decref dio w fs = Some fs' \<and> volume blk good n fs' d (files (blk (sfs_device fs)) I M)"
proof -
  note t = treeD [OF tr]
  have I: "I (sv_ino sw) = Some (sv_i sw)" by (rule volD(4) [OF vol w(1)])
  have ty: "sfi_type (sv_i sw) = SFS_TYPE_FILE" "sfi_linkcount (sv_i sw) = card {nm. M nm = Some (sv_ino sw)}"
    using t(4) I w(2) by (auto simp: names_ok_def)
  have rc: "0 < vn_refcount sw" using t(1) w(1) by (auto simp: refs_ok_def)
  define I' where "I' = (if vn_refcount sw = 1 \<and> sfi_linkcount (sv_i sw) = 0 then I(sv_ino sw := None) else I)"
  obtain fs' where d: "vnode_decref dio w fs = Some fs'" "vol blk good n I' fs'"
      "sv_mem fs' = (sv_mem fs)(w := (if vn_refcount sw = 1 then None else Some (sw\<lparr>vn_refcount := vn_refcount sw - 1\<rparr>)))"
      "\<forall>ino i. I' ino = Some i \<longrightarrow> file_bytes (blk (sfs_device fs')) i = file_bytes (blk (sfs_device fs)) i"
    using decref_ok [OF vol w(1) rc _ ty(1) I'_def] w(3) by blast
  have fin: "finite {nm. M nm = Some (sv_ino sw)}" using t(4) by (auto simp: names_ok_def intro: finite_subset [of _ "dom M"])
  have gone: "M nm \<noteq> Some (sv_ino sw)" if "sfi_linkcount (sv_i sw) = 0" for nm using ty(2) that fin by auto
  then have nm: "names_ok I' M" using t(4) names_ok_drop [OF t(4), of "sv_ino sw"] by (simp add: I'_def)
  obtain sd where sd: "sv_mem fs d = Some sd" "sv_ino sd = SFS_ROOT_LOCATION" using t(5) by blast
  have sd': "sv_mem fs' d = sv_mem fs d" using d(3) wd by simp
  have "I' SFS_ROOT_LOCATION = Some (sv_i sd)" using volD(4) [OF vol sd(1)] sd(2) w(2) by (simp add: I'_def)
  then have ct: "contents blk fs' d = contents blk fs d" using d(4) sd(1) sd' by (simp add: contents_def inode_of_def)
  have "refs_ok fs'" using rc by (intro refs_ok_upd [OF t(1) d(3)]) (auto split: if_splits)
  then have tr': "tree blk I' M fs' d" using tree_frame [OF tr sd' ct _ nm] by blast
  have "files (blk (sfs_device fs')) I' M = files (blk (sfs_device fs)) I M"
  proof (rule files_cong)
    fix name ino assume M: "M name = Some ino"
    then have "I' ino = I ino" "ino \<in> dom I" using gone t(4) unfolding I'_def names_ok_def by auto
    then show "file_data (blk (sfs_device fs')) (the (I' ino)) = file_data (blk (sfs_device fs)) (the (I ino))"
      using d(4) by (auto simp: file_data_def)
  qed
  then show ?thesis using d(1) volumeI [OF d(2) tr'] by auto
qed

lemma lookup_ok:
  assumes v: "volume blk good n fs d F" and fresh: "fresh_mem mem fs"
  shows "\<exists>r fs'. sfs_lookup dio (mem, okinit, km) d name fs = Some (r, fs') \<and> volume blk good n fs' d F \<and>
    (case r of
       Inl e \<Rightarrow> e = ENOENT \<and> F name = None \<or> e = ENOMEM \<and> F name \<noteq> None
     | Inr w \<Rightarrow> named_by blk fs' d name w \<and> F name = Some (file_data (blk (sfs_device fs')) (inode_of fs' w)))"
proof -
  obtain I M where I: "vol blk good n I fs" "tree blk I M fs d" "F = files (blk (sfs_device fs)) I M" using v by (auto simp: volume_def)
  note t = treeD [OF I(2)]
  obtain r fs' where l: "sfs_lookonce dio (mem, okinit, km) d name fs = Some (r, fs')" "vol blk good n I fs'" "tree blk I M fs' d" "same_store blk fs fs'"
      "case r of
       Inl e \<Rightarrow> e = ENOENT \<and> M name = None \<or> e = ENOMEM \<and> M name \<noteq> None
     | Inr (w, slot) \<Rightarrow> w \<noteq> d \<and> dir_find (dir_entries blk fs d) name = Some slot \<and>
         (\<exists>ino i. M name = Some ino \<and> I ino = Some i \<and> loaded_at fs fs' w ino i)"
    using lookonce_ok [OF I(1,2) fresh, of okinit km name] by (elim exE conjE) (rule that)
  have B: "blk (sfs_device fs') = blk (sfs_device fs)" using l(4) by (simp add: same_store_def)
  have vl: "volume blk good n fs' d F" using volumeI [OF l(2,3)] I(3) B by simp
  obtain sd where sd: "sv_mem fs d = Some sd" using t(5) by blast
  have ty: "sfi_type (sv_i sd) = SFS_TYPE_DIR" using t(2) sd by (simp add: dir_ok_def inode_of_def)
  have run: "sfs_lookup dio (mem, okinit, km) d name fs = try_k (Some (r, fs')) (\<lambda>(final, _) fs1. Some (Inr final, fs1))"
    using sd ty l(1) by (simp add: sfs_lookup_def)
  show ?thesis
  proof (cases r)
    case (Inl e)
    then show ?thesis using run vl l(5) I(3) by (auto simp: files_def)
  next
    case (Inr p)
    obtain w slot where p: "p = (w, slot)" by (cases p)
    then obtain ino i where w: "w \<noteq> d" "M name = Some ino" "I ino = Some i" "loaded_at fs fs' w ino i" using l(5) Inr by auto
    obtain sv where sv: "sv_mem fs' w = Some sv" "sv_i sv = i" "sv_ino sv = ino" using loaded_at_vnode [OF w(4) t(1)] by blast
    then have "named_by blk fs' d name w" using w(1,2) treeD(3) [OF l(3)] by (auto simp: named_by_def)
    moreover have "F name = Some (file_data (blk (sfs_device fs')) (inode_of fs' w))"
      using w(2,3) sv I(3) B by (simp add: files_def inode_of_def)
    ultimately show ?thesis using run Inr p vl by auto
  qed
qed

text \<open>Removing a name.\<close>

lemma remove_ok:
  assumes v: "volume blk good n fs d F" and fresh: "fresh_mem mem fs"
  shows "\<exists>r fs'. sfs_remove dio (mem, okinit, km) d name fs = Some (r, fs') \<and>
    (case r of
       Inr _ \<Rightarrow> name \<in> dom F \<and> volume blk good n fs' d (F(name := None))
     | Inl e \<Rightarrow> volume blk good n fs' d F \<and> (e = ENOENT \<and> name \<notin> dom F \<or> e = ENOMEM \<and> name \<in> dom F))"
proof -
  obtain I M where I: "vol blk good n I fs" "tree blk I M fs d" "F = files (blk (sfs_device fs)) I M" using v by (auto simp: volume_def)
  note t = treeD [OF I(2)]
  obtain r fs1 where l: "sfs_lookonce dio (mem, okinit, km) d name fs = Some (r, fs1)" "vol blk good n I fs1" "tree blk I M fs1 d" "same_store blk fs fs1"
      "case r of
       Inl e \<Rightarrow> e = ENOENT \<and> M name = None \<or> e = ENOMEM \<and> M name \<noteq> None
     | Inr (w, slot) \<Rightarrow> w \<noteq> d \<and> dir_find (dir_entries blk fs d) name = Some slot \<and>
         (\<exists>ino i. M name = Some ino \<and> I ino = Some i \<and> loaded_at fs fs1 w ino i)"
    using lookonce_ok [OF I(1,2) fresh, of okinit km name] by (elim exE conjE) (rule that)
  have B: "blk (sfs_device fs1) = blk (sfs_device fs)" using l(4) by (simp add: same_store_def)
  have dF: "name \<in> dom F \<longleftrightarrow> M name \<noteq> None" for name using dom_files [of _ I M] I(3) by (simp add: dom_def)
  show ?thesis
  proof (cases r)
    case (Inl e)
    then have "sfs_remove dio (mem, okinit, km) d name fs = Some (Inl e, fs1)" using l(1) by (simp add: sfs_remove_def)
    moreover have "volume blk good n fs1 d F" using volumeI [OF l(2,3)] I(3) B by simp
    ultimately show ?thesis using l(5) Inl dF by auto
  next
    case (Inr p)
    obtain w slot where p: "p = (w, slot)" by (cases p)
    then obtain ino i where w: "w \<noteq> d" "dir_find (dir_entries blk fs d) name = Some slot" "M name = Some ino" "I ino = Some i" "loaded_at fs fs1 w ino i"
      using l(5) Inr by auto
    have root: "ino \<noteq> SFS_ROOT_LOCATION" using t(4) w(3) by (auto simp: names_ok_def)
    obtain sd where sd: "sv_mem fs d = Some sd" "sv_ino sd = SFS_ROOT_LOCATION" using t(5) by blast
    have "sv_mem fs1 d = sv_mem fs d" using loaded_at_other(2) [OF w(5) sd(1)] sd(2) root by simp
    then have "dir_entries blk fs1 d = dir_entries blk fs d"
      using dir_frame(1) [of fs1 d fs blk] same_store_contents [OF l(4)] by (simp add: inode_of_def)
    then obtain fs2 where u: "sfs_dir_unlink dio d slot fs1 = Some (Inr (), fs2)" "dir_step blk good n d I (M(name := None)) fs1 fs2"
      using unlink_step [OF l(2,3)] w(2) by metis
    obtain sw where sw: "sv_mem fs1 w = Some sw" "sv_ino sw = ino" "sv_i sw = i" "vn_refcount sw = 1 \<longrightarrow> vn_opencount sw = 0"
      using loaded_at_vnode [OF w(5) t(1)] by blast
    have sw2: "sv_mem fs2 w = Some sw" using u(2) sw(1) w(1) by (simp add: dir_step_def)
    note uf = unlink_finish [OF l(2) t(4) u(2) w(3,1) sw2 sw(2) root w(4)]
    obtain I' where I': "vol blk good n I' (link_dec w fs2)" "tree blk I' (M(name := None)) (link_dec w fs2) d"
        "files (blk (sfs_device (link_dec w fs2))) I' (M(name := None)) = F(name := None)"
      using uf(3) I(3) B by auto
    obtain sx where sx: "sv_mem (link_dec w fs2) w = Some sx" "sv_ino sx = ino" "vn_refcount sx = vn_refcount sw" "vn_opencount sx = vn_opencount sw"
      using sw2 sw(2) by (simp add: link_dec_def)
    then obtain fs3 where "vnode_decref dio w (link_dec w fs2) = Some fs3" "volume blk good n fs3 d (F(name := None))"
      using decref_volume [OF I'(1,2) w(1), of sx] sw(4) root I'(3) by auto
    moreover from this have "sfs_remove dio (mem, okinit, km) d name fs = Some (Inr (), fs3)"
      using l(1) Inr p u(1) sw2 sw(3) uf(1) by (simp add: sfs_remove_def)
    ultimately show ?thesis using dF w(3) by (intro exI [of _ "Inr ()"] exI [of _ fs3]) simp
  qed
qed

end

section \<open>Making, linking and renaming files\<close>

context block_device
begin

lemma findname_volume:
  assumes vol: "vol blk good n I fs" and tr: "tree blk I M fs d"
  shows "\<exists>found emp fs'. sfs_dir_findname dio d name fs = Some (Inr (found, emp), fs') \<and> map_option fst found = M name \<and>
    same_disk blk good fs fs' \<and> vol blk good n I fs' \<and> tree blk I M fs' d"
proof -
  note t = treeD [OF tr]
  obtain sd where sd: "sv_mem fs d = Some sd" using t(5) by blast
  let ?es = "dir_entries blk fs d"
  obtain emp fs1 where fn: "sfs_dir_findname dio d name fs = Some (Inr (map_option (\<lambda>k. (sfd_ino (?es ! k), k)) (dir_find ?es name), emp), fs1)"
      "same_disk blk good fs fs1"
    using dir_findname_ok [OF volD(1) [OF vol] vol_file_ok(1) [OF vol sd] t(2) refl] by blast
  note mem1 = same_disk_fields(6) [OF fn(2)]
  have "refs_ok fs1" using t(1) mem1 by (simp add: refs_ok_def)
  then have "tree blk I M fs1 d" using tree_frame [OF tr _ same_store_contents [OF same_disk_store [OF fn(2)]] _ t(4)] mem1 by simp
  moreover have "map_option fst (map_option (\<lambda>k. (sfd_ino (?es ! k), k)) (dir_find ?es name)) = M name"
    using t(3) by (auto simp: dir_map_def option.map_comp comp_def)
  ultimately show ?thesis using fn vol_same_disk [OF vol fn(2)] by blast
qed

text \<open>A new file has been made and the directory entry could not be written: the file is gone again.\<close>

lemma creat_undo:
  assumes vol: "vol blk good n I fs" and tr: "tree blk I M fs d" and b: "I b = None" "b \<noteq> SFS_ROOT_LOCATION" and wd: "w \<noteq> d"
    and st: "dir_step blk good n d (I(b \<mapsto> new_inode)) M fs2 fs3"
    and fb: "\<forall>ino i. I ino = Some i \<longrightarrow> file_bytes (blk (sfs_device fs2)) i = file_bytes (blk (sfs_device fs)) i"
    and w: "sv_mem fs3 w = Some sw" "sv_ino sw = b" "vn_refcount sw = 1" "vn_opencount sw = 0"
  shows "\<exists>fs4. vnode_decref dio w fs3 = Some fs4 \<and> volume blk good n fs4 d (files (blk (sfs_device fs)) I M)"
proof -
  let ?I = "I(b \<mapsto> new_inode, SFS_ROOT_LOCATION \<mapsto> inode_of fs3 d)"
  have vol3: "vol blk good n ?I fs3" using st by (simp add: dir_step_def)
  have "names_ok ?I M" using names_ok_root [OF names_ok_new [OF treeD(4) [OF tr] b(1)]] new_inode_fields by simp
  then have tr3: "tree blk ?I M fs3 d" using dir_step_tree [OF st] by simp
  have "files (blk (sfs_device fs3)) ?I M = files (blk (sfs_device fs)) I M"
  proof (rule files_cong)
    fix name ino assume "M name = Some ino"
    then have "ino \<noteq> SFS_ROOT_LOCATION" "ino \<in> dom I" using treeD(4) [OF tr] unfolding names_ok_def by blast+
    moreover from this have "ino \<noteq> b" using b(1) by auto
    ultimately show "file_data (blk (sfs_device fs3)) (the (?I ino)) = file_data (blk (sfs_device fs)) (the (I ino))"
      using fb st by (auto simp: file_data_def dir_step_def)
  qed
  then show ?thesis using decref_volume [OF vol3 tr3 wd w(1)] w b(2) by simp
qed

text \<open>The name leads to a file: it is loaded.\<close>

lemma creat_existing:
  assumes vol: "vol blk good n I fs" and tr: "tree blk I M fs d" and fresh: "fresh_mem mem fs" and M: "M name = Some ino"
  shows "\<exists>r fs'. sfs_loadvnode dio (mem, okinit, km) ino SFS_TYPE_INVAL fs = Some (r, fs') \<and>
    volume blk good n fs' d (files (blk (sfs_device fs)) I M) \<and> (case r of Inl e \<Rightarrow> e = ENOMEM | Inr w \<Rightarrow> named_by blk fs' d name w)"
proof -
  note t = treeD [OF tr]
  obtain sd where sd: "sv_mem fs d = Some sd" "sv_ino sd = SFS_ROOT_LOCATION" using t(5) by blast
  have "ino \<in> dom I" and root: "ino \<noteq> SFS_ROOT_LOCATION" using t(4) M unfolding names_ok_def by blast+
  then obtain i where i: "I ino = Some i" "sfi_type i = SFS_TYPE_FILE" using t(4) by (auto simp: names_ok_def)
  obtain r fs' where ld: "sfs_loadvnode dio (mem, okinit, km) ino SFS_TYPE_INVAL fs = Some (r, fs')" "vol blk good n I fs'" "same_store blk fs fs'"
      "case r of Inl e \<Rightarrow> e = ENOMEM \<and> sv_mem fs' = sv_mem fs | Inr w \<Rightarrow> loaded_at fs fs' w ino i"
    using loadvnode_ok [OF vol i(1) disjI1 [OF i(2)] fresh, of okinit km] by blast
  have keep: "sv_mem fs' d = sv_mem fs d \<and> refs_ok fs' \<and>
      (case r of Inl e \<Rightarrow> e = ENOMEM | Inr w \<Rightarrow> w \<noteq> d \<and> (\<exists>sw. sv_mem fs' w = Some sw \<and> sv_ino sw = ino))"
  proof (cases r)
    case (Inr w)
    then have la: "loaded_at fs fs' w ino i" using ld(4) by simp
    show ?thesis
      using Inr loaded_at_other [OF la sd(1)] sd(2) root loaded_at_refs [OF la t(1)] loaded_at_vnode [OF la t(1)] by auto
  qed (use ld(4) t(1) in \<open>simp add: refs_ok_def\<close>)
  have tr': "tree blk I M fs' d" using tree_frame [OF tr _ same_store_contents [OF ld(3)] _ t(4)] keep by blast
  then have "volume blk good n fs' d (files (blk (sfs_device fs)) I M)" using volumeI [OF ld(2)] ld(3) by (simp add: same_store_def)
  moreover have "case r of Inl e \<Rightarrow> e = ENOMEM | Inr w \<Rightarrow> named_by blk fs' d name w"
    using keep treeD(3) [OF tr'] M by (cases r) (auto simp: named_by_def)
  ultimately show ?thesis using ld(1) by blast
qed

text \<open>The name is new: a file is made and entered.\<close>

lemma creat_new:
  assumes vol: "vol blk good n I fs1" and tr: "tree blk I M fs1 d" and fresh: "fresh_mem mem fs1" and name: "name_ok name" and M: "M name = None"
    and F1: "F = files (blk (sfs_device fs1)) I M" and fn: "sfs_dir_findname dio d name fs = Some (Inr (None, emp), fs1)"
  shows "\<exists>r fs'. sfs_creat dio (mem, okinit, km) d name excl fs = Some (r, fs') \<and>
    (case r of
       Inr w \<Rightarrow> named_by blk fs' d name w \<and> volume blk good n fs' d (F(name \<mapsto> []))
     | Inl e \<Rightarrow> volume blk good n fs' d F \<and> (e = ENAMETOOLONG \<and> SFS_NAMELEN \<le> length name \<or> e = ENOMEM \<or> e = ENOSPC \<or> e = EINVAL))"
proof -
  note t = treeD [OF tr]
  obtain sd where sd: "sv_mem fs1 d = Some sd" "sv_ino sd = SFS_ROOT_LOCATION" using t(5) by blast
  obtain r fs2 where mk: "sfs_makeobj dio (mem, okinit, km) SFS_TYPE_FILE fs1 = Some (r, fs2)"
      "\<forall>ino i. I ino = Some i \<longrightarrow> file_bytes (blk (sfs_device fs2)) i = file_bytes (blk (sfs_device fs1)) i"
      "case r of
       Inl e \<Rightarrow> vol blk good n I fs2 \<and> sv_mem fs2 = sv_mem fs1 \<and> (e = ENOMEM \<or> e = ENOSPC \<and> used_blocks fs1 = {0..<b_nbits (sfs_freemap fs1)})
     | Inr w \<Rightarrow> \<exists>b. I b = None \<and> b \<noteq> 0 \<and> b < 2 ^ 32 \<and> vol blk good n (I(b \<mapsto> new_inode)) fs2 \<and> w \<notin> dom (sv_mem fs1) \<and>
         sv_mem fs2 = (sv_mem fs1)(w \<mapsto> \<lparr>vn_refcount = 1, vn_opencount = 0, sv_i = new_inode, sv_ino = b, sv_dirty = True\<rparr>)"
    using makeobj_ok [OF vol fresh, of okinit km] by (elim exE conjE) (rule that)
  have Ir: "I SFS_ROOT_LOCATION = Some (sv_i sd)" using volD(4) [OF vol sd(1)] sd(2) by simp
  have ct2: "contents blk fs2 d = contents blk fs1 d" if "sv_mem fs2 d = sv_mem fs1 d"
    using that mk(2) Ir sd(1) by (simp add: contents_def inode_of_def)
  have files2: "files (blk (sfs_device fs2)) I M = F"
    unfolding F1
  proof (rule files_cong)
    fix nm ino assume "M nm = Some ino"
    then have "ino \<in> dom I" using t(4) unfolding names_ok_def by blast
    then show "file_data (blk (sfs_device fs2)) (the (I ino)) = file_data (blk (sfs_device fs1)) (the (I ino))"
      using mk(2) by (auto simp: file_data_def)
  qed
  show ?thesis
  proof (cases r)
    case (Inl e)
    then have e: "vol blk good n I fs2" "sv_mem fs2 = sv_mem fs1" "e = ENOMEM \<or> e = ENOSPC" using mk(3) by auto
    then have "refs_ok fs2" using t(1) by (simp add: refs_ok_def)
    then have "tree blk I M fs2 d" using tree_frame [OF tr _ ct2 _ t(4)] e(2) by simp
    then have "volume blk good n fs2 d F" using volumeI [OF e(1)] files2 by metis
    moreover have "sfs_creat dio (mem, okinit, km) d name excl fs = Some (Inl e, fs2)" using fn mk(1) Inl by (simp add: sfs_creat_def)
    ultimately show ?thesis using e(3) by auto
  next
    case (Inr w)
    let ?sw = "\<lambda>b. \<lparr>vn_refcount = 1, vn_opencount = 0, sv_i = new_inode, sv_ino = b, sv_dirty = True\<rparr>"
    obtain b where b: "I b = None" "b \<noteq> 0" "b < 2 ^ 32" "vol blk good n (I(b \<mapsto> new_inode)) fs2" "w \<notin> dom (sv_mem fs1)"
        "sv_mem fs2 = (sv_mem fs1)(w \<mapsto> ?sw b)"
      using mk(3) Inr by auto
    have wd: "w \<noteq> d" and broot: "b \<noteq> SFS_ROOT_LOCATION" using b(1,5) sd(1) Ir by auto
    have nm: "names_ok (I(b \<mapsto> new_inode)) M" using names_ok_new [OF t(4) b(1)] new_inode_fields by simp
    have "refs_ok fs2" by (rule refs_ok_upd [OF t(1) b(6)]) auto
    then have tr2: "tree blk (I(b \<mapsto> new_inode)) M fs2 d" using tree_frame [OF tr _ ct2 _ nm] b(6) wd by simp
    obtain r2 fs3 where l: "sfs_dir_link dio d name b fs2 = Some (r2, fs3)"
      "case r2 of
       Inr slot \<Rightarrow> M name = None \<and> length name < SFS_NAMELEN \<and> dir_step blk good n d (I(b \<mapsto> new_inode)) (M(name \<mapsto> b)) fs2 fs3 \<and>
         dir_find (dir_entries blk fs3 d) name = Some slot \<and>
         (\<forall>nm. nm \<noteq> name \<longrightarrow> dir_find (dir_entries blk fs3 d) nm = dir_find (dir_entries blk fs2 d) nm)
     | Inl e \<Rightarrow> dir_step blk good n d (I(b \<mapsto> new_inode)) M fs2 fs3 \<and> dir_entries blk fs3 d = dir_entries blk fs2 d \<and> (e = EEXIST \<and> name \<in> dom M \<or>
         e = ENAMETOOLONG \<and> SFS_NAMELEN \<le> length name \<or> e = ENOSPC \<or> e = EINVAL)"
      using link_step [OF b(4) tr2 name b(2,3)] by (elim exE conjE) (rule that)
    have run: "sfs_creat dio (mem, okinit, km) d name excl fs =
        (case r2 of Inl e \<Rightarrow> do { fs4 \<leftarrow> vnode_decref dio w fs3; Some (Inl e, fs4) } | Inr _ \<Rightarrow> Some (Inr w, link_inc w fs3))"
      using fn mk(1) Inr b(6) l(1) by (simp add: sfs_creat_def)
    show ?thesis
    proof (cases r2)
      case (Inl e)
      then have st: "dir_step blk good n d (I(b \<mapsto> new_inode)) M fs2 fs3" and e: "e = ENAMETOOLONG \<and> SFS_NAMELEN \<le> length name \<or> e = ENOSPC \<or> e = EINVAL"
        using l(2) M by auto
      then have "sv_mem fs3 w = Some (?sw b)" using wd b(6) by (simp add: dir_step_def)
      then obtain fs4 where "vnode_decref dio w fs3 = Some fs4" "volume blk good n fs4 d F"
        using creat_undo [OF vol tr b(1) broot wd st mk(2)] F1 by auto
      then show ?thesis using run Inl e by auto
    next
      case (Inr slot)
      then have st: "dir_step blk good n d (I(b \<mapsto> new_inode)) (M(name \<mapsto> b)) fs2 fs3" using l(2) by simp
      then have sw3: "sv_mem fs3 w = Some (?sw b)" using wd b(6) by (simp add: dir_step_def)
      obtain I' where I': "vol blk good n I' (link_inc w fs3)" "tree blk I' (M(name \<mapsto> b)) (link_inc w fs3) d"
          "files (blk (sfs_device (link_inc w fs3))) I' (M(name \<mapsto> b)) =
            (files (blk (sfs_device fs2)) (I(b \<mapsto> new_inode)) M)(name \<mapsto> file_data (blk (sfs_device fs2)) new_inode)"
        using link_finish [OF b(4) nm st M wd sw3 _ broot, of new_inode] by auto
      have "files (blk (sfs_device fs2)) (I(b \<mapsto> new_inode)) M = F"
        unfolding files2 [symmetric] by (rule files_cong) (use b(1) t(4) in \<open>auto simp: names_ok_def\<close>)
      then have "volume blk good n (link_inc w fs3) d (F(name \<mapsto> []))"
        using volumeI [OF I'(1,2)] I'(3) new_inode_fields(1) by (simp add: file_data_def)
      moreover have "named_by blk (link_inc w fs3) d name w"
        using treeD(3) [OF I'(2)] wd sw3 by (simp add: named_by_def) (simp add: link_inc_def upd_inode_def upd_sv_def)
      ultimately show ?thesis using run Inr by auto
    qed
  qed
qed

lemma creat_ok:
  assumes v: "volume blk good n fs d F" and fresh: "fresh_mem mem fs" and name: "name_ok name"
  shows "\<exists>r fs'. sfs_creat dio (mem, okinit, km) d name excl fs = Some (r, fs') \<and>
    (case r of
       Inr w \<Rightarrow> named_by blk fs' d name w \<and> \<not> (excl \<and> name \<in> dom F) \<and>
         volume blk good n fs' d (if name \<in> dom F then F else F(name \<mapsto> []))
     | Inl e \<Rightarrow> volume blk good n fs' d F \<and> (e = EEXIST \<and> excl \<and> name \<in> dom F \<or> e = ENAMETOOLONG \<and> SFS_NAMELEN \<le> length name \<or>
         e = ENOMEM \<or> e = ENOSPC \<or> e = EINVAL))"
proof -
  obtain I M where I: "vol blk good n I fs" "tree blk I M fs d" "F = files (blk (sfs_device fs)) I M" using v by (auto simp: volume_def)
  note t = treeD [OF I(2)]
  obtain found emp fs1 where fn: "sfs_dir_findname dio d name fs = Some (Inr (found, emp), fs1)" "map_option fst found = M name"
      "same_disk blk good fs fs1" "vol blk good n I fs1" "tree blk I M fs1 d"
    using findname_volume [OF I(1,2)] by blast
  note mem1 = same_disk_fields(6) [OF fn(3)]
  have fresh1: "fresh_mem mem fs1" using fresh mem1 by (simp add: fresh_mem_def)
  have F1: "F = files (blk (sfs_device fs1)) I M" using I(3) same_disk_fields(7) [OF fn(3)] by simp
  have dF: "name \<in> dom F \<longleftrightarrow> M name \<noteq> None" using dom_files [of _ I M] I(3) by (simp add: dom_def)
  have V1: "volume blk good n fs1 d F" using volumeI [OF fn(4,5) F1] .
  show ?thesis
  proof (cases found)
    case (Some p)
    obtain ino slot where p: "p = (ino, slot)" by (cases p)
    then have M: "M name = Some ino" using fn(2) Some by simp
    show ?thesis
    proof (cases excl)
      case True
      then have "sfs_creat dio (mem, okinit, km) d name excl fs = Some (Inl EEXIST, fs1)" using fn(1) Some p by (simp add: sfs_creat_def)
      then show ?thesis using V1 True dF M by simp
    next
      case False
      obtain r fs' where ld: "sfs_loadvnode dio (mem, okinit, km) ino SFS_TYPE_INVAL fs1 = Some (r, fs')" "volume blk good n fs' d F"
          "case r of Inl e \<Rightarrow> e = ENOMEM | Inr w \<Rightarrow> named_by blk fs' d name w"
        using creat_existing [OF fn(4,5) fresh1 M, of okinit km, folded F1] by (elim exE conjE) (rule that)
      have "sfs_creat dio (mem, okinit, km) d name excl fs = Some (r, fs')" using fn(1) Some p False ld(1) by (simp add: sfs_creat_def)
      then show ?thesis using ld(2,3) False dF M by (cases r) auto
    qed
  next
    case None
    then have M: "M name = None" using fn(2) by simp
    have "sfs_dir_findname dio d name fs = Some (Inr (None, emp), fs1)" using fn(1) None by simp
    from creat_new [OF fn(4,5) fresh1 name M F1 this, of okinit km excl] show ?thesis
      using dF M by (elim exE conjE) (intro exI conjI, assumption, auto split: sum.splits)
  qed
qed

text \<open>A second name.\<close>

lemma link_ok:
  assumes v: "volume blk good n fs d F" and name: "name_ok name" and w: "sv_mem fs w = Some sw" "w \<noteq> d"
  shows "\<exists>r fs'. sfs_link dio d name w fs = Some (r, fs') \<and>
    (case r of
       Inr _ \<Rightarrow> name \<notin> dom F \<and> volume blk good n fs' d (F(name \<mapsto> file_data (blk (sfs_device fs)) (sv_i sw)))
     | Inl e \<Rightarrow> volume blk good n fs' d F \<and> (e = EEXIST \<and> name \<in> dom F \<or> e = ENAMETOOLONG \<and> SFS_NAMELEN \<le> length name \<or> e = ENOSPC \<or> e = EINVAL))"
proof -
  obtain I M where I: "vol blk good n I fs" "tree blk I M fs d" "F = files (blk (sfs_device fs)) I M" using v by (auto simp: volume_def)
  note t = treeD [OF I(2)]
  have dF: "name \<in> dom F \<longleftrightarrow> M name \<noteq> None" using dom_files [of _ I M] I(3) by (simp add: dom_def)
  obtain sd where sd: "sv_mem fs d = Some sd" "sv_ino sd = SFS_ROOT_LOCATION" using t(5) by blast
  have root: "sv_ino sw \<noteq> SFS_ROOT_LOCATION" using volD(3) [OF I(1)] sd w unfolding inos_distinct_def by metis
  have Iw: "I (sv_ino sw) = Some (sv_i sw)" by (rule volD(4) [OF I(1) w(1)])
  have "sv_ino sw \<noteq> 0" "sv_ino sw < nblocks fs" using volD(5) [OF I(1) Iw] by (simp_all add: live_def)
  then have ino: "sv_ino sw \<noteq> 0" "sv_ino sw < 2 ^ 32" using volD(1) [OF I(1)] n_limit by (simp_all add: fs_ok_def)
  obtain r fs' where l: "sfs_dir_link dio d name (sv_ino sw) fs = Some (r, fs')"
      "case r of
       Inr slot \<Rightarrow> M name = None \<and> length name < SFS_NAMELEN \<and> dir_step blk good n d I (M(name \<mapsto> sv_ino sw)) fs fs' \<and>
         dir_find (dir_entries blk fs' d) name = Some slot \<and>
         (\<forall>nm. nm \<noteq> name \<longrightarrow> dir_find (dir_entries blk fs' d) nm = dir_find (dir_entries blk fs d) nm)
     | Inl e \<Rightarrow> dir_step blk good n d I M fs fs' \<and> dir_entries blk fs' d = dir_entries blk fs d \<and> (e = EEXIST \<and> name \<in> dom M \<or>
         e = ENAMETOOLONG \<and> SFS_NAMELEN \<le> length name \<or> e = ENOSPC \<or> e = EINVAL)"
    using link_step [OF I(1,2) name ino] by (elim exE conjE) (rule that)
  show ?thesis
  proof (cases r)
    case (Inl e)
    then have st: "dir_step blk good n d I M fs fs'" using l(2) by simp
    have "volume blk good n fs' d F" using dir_step_volume [OF st t(4)] I(3) by simp
    moreover have "sfs_link dio d name w fs = Some (Inl e, fs')" using w(1) l(1) Inl by (simp add: sfs_link_def)
    ultimately show ?thesis using l(2) Inl dF by auto
  next
    case (Inr slot)
    then have st: "dir_step blk good n d I (M(name \<mapsto> sv_ino sw)) fs fs'" and M: "M name = None" using l(2) by simp_all
    then have "sv_mem fs' w = Some sw" using w by (simp add: dir_step_def)
    then obtain I' where "vol blk good n I' (link_inc w fs')" "tree blk I' (M(name \<mapsto> sv_ino sw)) (link_inc w fs') d"
        "files (blk (sfs_device (link_inc w fs'))) I' (M(name \<mapsto> sv_ino sw)) = F(name \<mapsto> file_data (blk (sfs_device fs)) (sv_i sw))"
      using link_finish [OF I(1) t(4) st M w(2) _ refl root Iw] I(3) by auto
    then have "volume blk good n (link_inc w fs') d (F(name \<mapsto> file_data (blk (sfs_device fs)) (sv_i sw)))" using volumeI by metis
    moreover have "sfs_link dio d name w fs = Some (Inr (), link_inc w fs')" using w(1) l(1) Inr by (simp add: sfs_link_def)
    ultimately show ?thesis using M dF by (intro exI [of _ "Inr ()"]) simp
  qed
qed

lemma rename_tail_ok:
  assumes vol: "vol blk good n I fs" and tr: "tree blk I M fs d" and name: "name_ok n2" and w: "w \<noteq> d" "M n1 = Some ino" "ino \<noteq> SFS_ROOT_LOCATION" "I ino = Some i"
    and sw: "sv_mem fs w = Some sw" "sv_ino sw = ino" "sv_i sw = i" "vn_refcount sw = 1 \<longrightarrow> vn_opencount sw = 0"
    and slot: "dir_find (dir_entries blk fs d) n1 = Some slot" and F: "F = files (blk (sfs_device fs)) I M"
  shows "\<exists>r fs'. sfs_rename_tail dio d n2 w slot sw fs = Some (r, fs') \<and>
    (case r of
       Inr _ \<Rightarrow> M n2 = None \<and> volume blk good n fs' d (F(n2 := F n1, n1 := None))
     | Inl e \<Rightarrow> volume blk good n fs' d F \<and> (e = EEXIST \<and> M n2 \<noteq> None \<or> e = ENAMETOOLONG \<and> SFS_NAMELEN \<le> length n2 \<or> e = ENOSPC \<or> e = EINVAL))"
proof -
  note t = treeD [OF tr]
  have "ino \<noteq> 0" "ino < nblocks fs" using volD(5) [OF vol w(4)] by (simp_all add: live_def)
  then have ino: "ino \<noteq> 0" "ino < 2 ^ 32" using volD(1) [OF vol] n_limit by (simp_all add: fs_ok_def)
  obtain r fs2 where l: "sfs_dir_link dio d n2 ino fs = Some (r, fs2)"
      "case r of
       Inr slot \<Rightarrow> M n2 = None \<and> length n2 < SFS_NAMELEN \<and> dir_step blk good n d I (M(n2 \<mapsto> ino)) fs fs2 \<and>
         dir_find (dir_entries blk fs2 d) n2 = Some slot \<and>
         (\<forall>nm. nm \<noteq> n2 \<longrightarrow> dir_find (dir_entries blk fs2 d) nm = dir_find (dir_entries blk fs d) nm)
     | Inl e \<Rightarrow> dir_step blk good n d I M fs fs2 \<and> dir_entries blk fs2 d = dir_entries blk fs d \<and> (e = EEXIST \<and> n2 \<in> dom M \<or>
         e = ENAMETOOLONG \<and> SFS_NAMELEN \<le> length n2 \<or> e = ENOSPC \<or> e = EINVAL)"
    using link_step [OF vol tr name ino] by (elim exE conjE) (rule that)
  show ?thesis
  proof (cases r)
    case (Inl e)
    then have st: "dir_step blk good n d I M fs fs2" using l(2) by simp
    let ?I = "I(SFS_ROOT_LOCATION \<mapsto> inode_of fs2 d)"
    have vol2: "vol blk good n ?I fs2" and sw2: "sv_mem fs2 w = Some sw" using st sw(1) w(1) by (simp_all add: dir_step_def)
    have "files (blk (sfs_device fs2)) ?I M = F"
      unfolding F
    proof (rule files_cong)
      fix nm x assume "M nm = Some x"
      then have "x \<noteq> SFS_ROOT_LOCATION" "x \<in> dom I" using t(4) unfolding names_ok_def by blast+
      then show "file_data (blk (sfs_device fs2)) (the (?I x)) = file_data (blk (sfs_device fs)) (the (I x))"
        using st by (auto simp: file_data_def dir_step_def)
    qed
    then obtain fs3 where "vnode_decref dio w fs2 = Some fs3" "volume blk good n fs3 d F"
      using decref_volume [OF vol2 dir_step_tree [OF st names_ok_root [OF t(4)]] w(1) sw2] sw(2,4) w(3) by auto
    then show ?thesis using l Inl sw(2) by (auto simp: sfs_rename_tail_def)
  next
    case (Inr slot2)
    then have st: "dir_step blk good n d I (M(n2 \<mapsto> ino)) fs fs2" and M2: "M n2 = None" and n12: "n1 \<noteq> n2" using l(2) w(2) by auto
    have sw2: "sv_mem fs2 w = Some sw" using st sw(1) w(1) by (simp add: dir_step_def)
    obtain I' where I': "vol blk good n I' (link_inc w fs2)" "tree blk I' (M(n2 \<mapsto> ino)) (link_inc w fs2) d"
        "files (blk (sfs_device (link_inc w fs2))) I' (M(n2 \<mapsto> ino)) = F(n2 \<mapsto> file_data (blk (sfs_device fs)) i)"
      using link_finish [OF vol t(4) st M2 w(1) sw2 sw(2) w(3,4)] F by auto
    have Fn1: "F n1 = Some (file_data (blk (sfs_device fs)) i)" using F w(2,4) by (simp add: files_def)
    have "dir_entries blk (link_inc w fs2) d = dir_entries blk fs2 d"
      using w(1) by (intro dir_frame(1)) (simp_all add: inode_of_def contents_def link_inc_def)
    then have slot': "dir_find (dir_entries blk (link_inc w fs2) d) n1 = Some slot" using l(2) Inr n12 slot by simp
    obtain fs3 where u: "sfs_dir_unlink dio d slot (link_inc w fs2) = Some (Inr (), fs3)"
        "dir_step blk good n d I' (M(n2 \<mapsto> ino, n1 := None)) (link_inc w fs2) fs3"
      using unlink_step [OF I'(1,2) slot'] by blast
    obtain sx where sx: "sv_mem fs3 w = Some sx" "sv_ino sx = ino" "vn_refcount sx = vn_refcount sw" "vn_opencount sx = vn_opencount sw"
      using u(2) sw2 sw(2) w(1) by (simp add: dir_step_def link_inc_def)
    have M1: "(M(n2 \<mapsto> ino)) n1 = Some ino" using w(2) n12 by simp
    obtain i' where i': "I' ino = Some i'" using treeD(4) [OF I'(2)] M1 unfolding names_ok_def by blast
    note uf = unlink_finish [OF I'(1) treeD(4) [OF I'(2)] u(2) M1 w(1) sx(1,2) w(3) i']
    obtain I'' where I'': "vol blk good n I'' (link_dec w fs3)" "tree blk I'' (M(n2 \<mapsto> ino, n1 := None)) (link_dec w fs3) d"
        "files (blk (sfs_device (link_dec w fs3))) I'' (M(n2 \<mapsto> ino, n1 := None)) = F(n2 := F n1, n1 := None)"
      using uf(3) [unfolded I'(3) Fn1 [symmetric]] by blast
    obtain sy where sy: "sv_mem (link_dec w fs3) w = Some sy" "sv_ino sy = ino" "vn_refcount sy = vn_refcount sw" "vn_opencount sy = vn_opencount sw"
      using sx by (simp add: link_dec_def)
    then obtain fs4 where "vnode_decref dio w (link_dec w fs3) = Some fs4" "volume blk good n fs4 d (F(n2 := F n1, n1 := None))"
      using decref_volume [OF I''(1,2) w(1) sy(1)] sw(4) w(3) I''(3) by auto
    moreover from this have "sfs_rename_tail dio d n2 w slot sw fs = Some (Inr (), fs4)"
      using l(1) Inr sw(2) u(1) sx(1) uf(1,2) by (simp add: sfs_rename_tail_def)
    ultimately show ?thesis using M2 by (intro exI [of _ "Inr ()"] exI [of _ fs4]) simp
  qed
qed

text \<open>Another name: the new one is entered first, then the old one is taken out.\<close>

lemma rename_ok:
  assumes v: "volume blk good n fs d F" and fresh: "fresh_mem mem fs" and name: "name_ok n2"
  shows "\<exists>r fs'. sfs_rename dio (mem, okinit, km) d n1 d n2 fs = Some (r, fs') \<and>
    (case r of
       Inr _ \<Rightarrow> n1 \<in> dom F \<and> n2 \<notin> dom F \<and> volume blk good n fs' d (F(n2 := F n1, n1 := None))
     | Inl e \<Rightarrow> volume blk good n fs' d F \<and> (e = ENOENT \<and> n1 \<notin> dom F \<or> e = EEXIST \<and> n2 \<in> dom F \<or>
         e = ENAMETOOLONG \<and> SFS_NAMELEN \<le> length n2 \<or> e = ENOMEM \<or> e = ENOSPC \<or> e = EINVAL))"
proof -
  obtain I M where I: "vol blk good n I fs" "tree blk I M fs d" "F = files (blk (sfs_device fs)) I M" using v by (auto simp: volume_def)
  note t = treeD [OF I(2)]
  have dF: "nm \<in> dom F \<longleftrightarrow> M nm \<noteq> None" for nm using dom_files [of _ I M] I(3) by (simp add: dom_def)
  obtain sd where sd: "sv_mem fs d = Some sd" "sv_ino sd = SFS_ROOT_LOCATION" using t(5) by blast
  obtain r fs1 where l: "sfs_lookonce dio (mem, okinit, km) d n1 fs = Some (r, fs1)" "vol blk good n I fs1" "tree blk I M fs1 d" "same_store blk fs fs1"
      "case r of
       Inl e \<Rightarrow> e = ENOENT \<and> M n1 = None \<or> e = ENOMEM \<and> M n1 \<noteq> None
     | Inr (w, slot) \<Rightarrow> w \<noteq> d \<and> dir_find (dir_entries blk fs d) n1 = Some slot \<and>
         (\<exists>ino i. M n1 = Some ino \<and> I ino = Some i \<and> loaded_at fs fs1 w ino i)"
    using lookonce_ok [OF I(1,2) fresh, of okinit km n1] by (elim exE conjE) (rule that)
  have F1: "F = files (blk (sfs_device fs1)) I M" using l(4) I(3) by (simp add: same_store_def)
  show ?thesis
  proof (cases r)
    case (Inl e)
    then have "sfs_rename dio (mem, okinit, km) d n1 d n2 fs = Some (Inl e, fs1)" using sd l(1) by (simp add: sfs_rename_def)
    then show ?thesis using volumeI [OF l(2,3) F1] l(5) Inl dF by auto
  next
    case (Inr p)
    obtain w slot where p: "p = (w, slot)" by (cases p)
    then obtain ino i where w: "w \<noteq> d" "dir_find (dir_entries blk fs d) n1 = Some slot" "M n1 = Some ino" "I ino = Some i" "loaded_at fs fs1 w ino i"
      using l(5) Inr by auto
    have root: "ino \<noteq> SFS_ROOT_LOCATION" using t(4) w(3) by (auto simp: names_ok_def)
    have "sv_mem fs1 d = sv_mem fs d" using loaded_at_other(2) [OF w(5) sd(1)] sd(2) root by simp
    then have slot1: "dir_find (dir_entries blk fs1 d) n1 = Some slot"
      using dir_frame(1) [of fs1 d fs blk] same_store_contents [OF l(4)] w(2) by (simp add: inode_of_def)
    obtain sw where sw: "sv_mem fs1 w = Some sw" "sv_ino sw = ino" "sv_i sw = i" "vn_refcount sw = 1 \<longrightarrow> vn_opencount sw = 0"
      using loaded_at_vnode [OF w(5) t(1)] by blast
    have ty: "sfi_type i = SFS_TYPE_FILE" using t(4) w(4) root by (simp add: names_ok_def)
    have run: "sfs_rename dio (mem, okinit, km) d n1 d n2 fs = sfs_rename_tail dio d n2 w slot sw fs1"
      using sd l(1) Inr p sw ty by (simp add: sfs_rename_def)
    show ?thesis
      using rename_tail_ok [OF l(2,3) name w(1,3) root w(4) sw slot1 F1] w(3) unfolding run
      by (elim exE conjE) (intro exI conjI, assumption, auto simp: dF split: sum.splits)
  qed
qed

end

end
