(* ===== verification/Sfs_Tree.thy ===== *)
theory Sfs_Tree
  imports Sfs_Props Sfs_Names
begin

text \<open>
  The properties of truncation, reclaiming and the operations on names, on the disk driver: the lemmas of
  \<open>Sfs_Trunc\<close> and \<open>Sfs_Names\<close> on the block device that \<open>lhd_io\<close> makes of a working disk controller.
\<close>

section \<open>An example volume with a directory\<close>

text \<open>
  The root directory, loaded at address 8, has the name \<open>a\<close> in block 4 for the file whose inode is in block 3,
  loaded at address 7 with one reference, and whose bytes are in block 5.
\<close>

definition ex_root :: sfs_inode where
  "ex_root = ex_inode\<lparr>sfi_size := 64, sfi_type := SFS_TYPE_DIR, sfi_direct := 4 # replicate 14 0\<rparr>"

definition ex_file :: sfs_inode where
  "ex_file = ex_inode\<lparr>sfi_size := 2, sfi_direct := 5 # replicate 14 0\<rparr>"

definition ex_disk :: "nat \<Rightarrow> bytes" where
  "ex_disk b = (if b = 4 then encode_dir (new_entry 3 [97]) else if b = 5 then [104, 105] else [])"

definition ex_vol :: "(nat \<Rightarrow> bytes) lhd_softc sfs_fs" where
  "ex_vol = ex_fs\<lparr>sfs_device := \<lparr>lh_buf = zero_block, lh_result = Inr (), d_blocks = 64, lh_disk = ex_disk\<rparr>,
     sfs_vnodes := \<lparr>a_num = 2, a_max = 2, a_v = Some [7, 8]\<rparr>, sfs_freemap := \<lparr>b_nbits = 16, b_v = [63, 0]\<rparr>,
     sv_mem := [7 \<mapsto> \<lparr>vn_refcount = 1, vn_opencount = 0, sv_i = ex_file, sv_ino = 3, sv_dirty = True\<rparr>,
                8 \<mapsto> \<lparr>vn_refcount = 1, vn_opencount = 0, sv_i = ex_root, sv_ino = 1, sv_dirty = True\<rparr>]\<rparr>"

abbreviation ex_blk :: "nat \<Rightarrow> bytes" where "ex_blk \<equiv> ram_sect ex_disk"

lemma ex_vol_fields:
  "lhd_blk ram_sect (sfs_device ex_vol) = ex_blk" "nblocks ex_vol = 16" "dom (sv_mem ex_vol) = {7, 8}" "lhd_good 64 (sfs_device ex_vol)"
  by (simp_all add: ex_vol_def ex_fs_def lhd_blk_def lhd_good_def insert_commute)

lemma ex_vol_used: "used_blocks ex_vol = {0, 1, 2, 3, 4, 5}"
proof -
  have "i < 16 \<Longrightarrow> bm_bit [63, 0] i \<longleftrightarrow> i < 6" for i
    unfolding less_16 by (elim insertE emptyE) (simp_all add: bm_bit_def bit_numeral_rec)
  then show ?thesis by (auto simp: ex_vol_def bitmap_used_def)
qed

lemma ex_maps:
  "blkmap B ex_root = 4 # replicate 142 0" "blkmap B ex_file = 5 # replicate 142 0"
  "inode_blocks B ex_root = {4}" "inode_blocks B ex_file = {5}" "inode_wf ex_root" "inode_wf ex_file"
proof -
  have r: "replicate 14 0 @ replicate 128 (0 :: nat) = replicate 142 0" by (simp add: replicate_add [symmetric])
  show m: "blkmap B ex_root = 4 # replicate 142 0" "blkmap B ex_file = 5 # replicate 142 0"
    by (simp_all add: blkmap_def indir_def ex_root_def ex_file_def ex_inode_def r)
  show "inode_blocks B ex_root = {4}" "inode_blocks B ex_file = {5}"
    unfolding inode_blocks_def m by (auto simp: ex_root_def ex_file_def ex_inode_def)
  show "inode_wf ex_root" "inode_wf ex_file" by (simp_all add: ex_root_def ex_file_def ex_inode_def inode_wf_def)
qed

definition ex_I :: "nat \<Rightarrow> sfs_inode option" where
  "ex_I = [1 \<mapsto> ex_root, 3 \<mapsto> ex_file]"

lemma ex_dist0: "dist0 (b # replicate k 0)"
  by (auto simp: dist0_def nth_Cons split: nat.splits)

lemma ex_vol_vol: "vol (lhd_blk ram_sect) (lhd_good 64) 64 ex_I ex_vol"
proof (rule volI, unfold ex_vol_fields ex_vol_used)
  have "bitmap_inv (sfs_freemap ex_vol)" "b_nbits (sfs_freemap ex_vol) = 16"
    by (simp_all add: ex_vol_def bitmap_inv_def DIVROUNDUP_def c_uint_def)
  then show "fs_ok (lhd_good 64) 64 ex_vol" using ex_vol_used ex_vol_fields by (simp add: fs_ok_def)
  show "vnode_table ex_vol" using ex_vol_fields(3) unfolding vnode_table_def by (auto simp: ex_vol_def array_inv_def array_list_def)
  show "inos_distinct ex_vol" by (auto simp: inos_distinct_def ex_vol_def split: if_splits)
  show "ex_I (sv_ino sv) = Some (sv_i sv)" if "sv_mem ex_vol v = Some sv" for v sv
    using that by (auto simp: ex_vol_def ex_I_def split: if_splits)
  show "live 16 {0, 1, 2, 3, 4, 5} ex_blk ino i" if "ex_I ino = Some i" for ino i
    using that by (auto simp: ex_I_def live_def inode_ok_def ex_maps ex_dist0 split: if_splits)
      (simp_all add: ex_root_def ex_file_def ex_inode_def)
  show "decode_inode (ex_blk ino) = i \<or> dirty_at ex_vol ino" if "ex_I ino = Some i" for ino i
  proof -
    have "dirty_at ex_vol 3" unfolding dirty_at_def by (intro exI [of _ 7]) (simp add: ex_vol_def)
    moreover have "dirty_at ex_vol 1" unfolding dirty_at_def by (intro exI [of _ 8]) (simp add: ex_vol_def)
    ultimately show ?thesis using that by (auto simp: ex_I_def split: if_splits)
  qed
  show "ino_blocks ex_blk ino i \<inter> ino_blocks ex_blk ino' i' = {}" if "ex_I ino = Some i" "ex_I ino' = Some i'" "ino \<noteq> ino'" for ino i ino' i'
    using that by (auto simp: ex_I_def ino_blocks_def ex_maps split: if_splits)
qed

lemma ex_dir: "dir_entries (lhd_blk ram_sect) ex_vol 8 = [new_entry 3 [97]]"
proof -
  have wf: "dir_wf (new_entry 3 [97])" by (simp add: dir_wf_def new_entry_def)
  have "take 64 (data_block ex_blk 4 @ xs) = encode_dir (new_entry 3 [97])" for xs
    using encode_length(3) [OF wf] by (simp add: data_block_def ram_sect_def ex_disk_def)
  moreover have "contents (lhd_blk ram_sect) ex_vol 8 = data_block ex_blk 4 @ concat (map (data_block ex_blk) (replicate 142 0))"
    unfolding contents_def ex_vol_fields file_bytes_def by (simp add: ex_vol_def inode_of_def ex_maps)
  moreover have "sfi_size (inode_of ex_vol 8) div 64 = 1" by (simp add: ex_vol_def inode_of_def ex_root_def)
  ultimately show ?thesis by (simp add: dir_entries_def entries_def decode_encode_dir [OF wf])
qed

lemma ex_slot: "slot_has [new_entry 3 [97]] name 0 \<longleftrightarrow> name = [97]"
  by (auto simp: slot_has_def new_entry_name [of "[97]"] name_ok_def) (simp add: new_entry_def)

lemma ex_vol_map: "dir_map (dir_entries (lhd_blk ram_sect) ex_vol 8) = [[97] \<mapsto> 3]"
  unfolding ex_dir by (rule ext) (simp add: dir_map_def dir_find_def ex_slot, simp add: new_entry_def)

definition ex_F :: "bytes \<Rightarrow> bytes option" where
  "ex_F = [[97] \<mapsto> [104, 105]]"

lemma ex_volume: "volume (lhd_blk ram_sect) (lhd_good 64) 64 ex_vol 8 ex_F"
proof (rule volumeI [OF ex_vol_vol])
  have "dir_unique [new_entry 3 [97]]" by (simp add: dir_unique_def)
  then have "dir_ok (lhd_blk ram_sect) ex_vol 8" by (simp add: dir_ok_def ex_dir) (simp add: ex_vol_def inode_of_def ex_root_def)
  moreover have "{name. name = [97 :: 8 word]} = {[97]}" by auto
  then have "names_ok ex_I [[97] \<mapsto> 3]"
    by (auto simp: names_ok_def ex_I_def ex_file_def ex_inode_def split: if_splits)
  moreover have "refs_ok ex_vol" by (auto simp: refs_ok_def ex_vol_def split: if_splits)
  ultimately show "tree (lhd_blk ram_sect) ex_I [[97] \<mapsto> 3] ex_vol 8"
    using ex_vol_map by (simp add: tree_def) (simp add: ex_vol_def)
  have "sfi_size ex_file = 2" by (simp add: ex_file_def)
  then have "file_data ex_blk ex_file = [104, 105]"
    by (simp add: file_data_def file_bytes_def ex_maps(2) data_block_def ram_sect_def ex_disk_def)
  then show "ex_F = files (lhd_blk ram_sect (sfs_device ex_vol)) ex_I [[97] \<mapsto> 3]"
    by (auto simp: ex_F_def files_def ex_vol_fields ex_I_def)
qed

section \<open>Truncation and reclaiming\<close>

text \<open>
  C27: truncating a file.  On a sound filesystem over a working disk \<open>sfs_truncate\<close> succeeds: the file has the new
  length, the bytes before it are kept, and of the blocks of the file exactly those stay whose index is below the
  number of blocks of the new length, or equal to it and mapped by the indirect block; the others are free afterwards.
  (The one block too many is what the comparison with \<open>blocklen < baseblock+j\<close> keeps.)  The filesystem stays sound
  and every other loaded file keeps its inode and its contents.
\<close>

theorem sfs_truncate_correct:
  assumes hw: "working_disk hw sect n" and inv: "sfs_inv (lhd_blk sect) (lhd_good n) n fs" and v: "v \<in> dom (sv_mem fs)"
    and len: "0 \<le> len" "len + 511 < 2 ^ 31"
  shows "\<exists>fs'. sfs_truncate (lhd_io hw) v len fs = Some (Inr (), fs') \<and> sfi_size (inode_of fs' v) = nat len \<and>
    take (nat len) (contents (lhd_blk sect) fs' v) = take (nat len) (contents (lhd_blk sect) fs v) \<and>
    (\<forall>k < NBLK. blkmap (lhd_blk sect (sfs_device fs')) (inode_of fs' v) ! k =
       (if k < nat ((len + 511) div 512) \<or> SFS_NDIRECT \<le> k \<and> k = nat ((len + 511) div 512)
        then blkmap (lhd_blk sect (sfs_device fs)) (inode_of fs v) ! k else 0)) \<and>
    used_blocks fs' = used_blocks fs - (file_blocks (lhd_blk sect) fs v - file_blocks (lhd_blk sect) fs' v) \<and>
    sfs_inv (lhd_blk sect) (lhd_good n) n fs' \<and>
    (\<forall>w \<in> dom (sv_mem fs) - {v}. sv_mem fs' w = sv_mem fs w \<and>
       contents (lhd_blk sect) fs' w = contents (lhd_blk sect) fs w)"
proof -
  let ?B = "lhd_blk sect" and ?bl = "nat ((len + 511) div 512)"
  have ok: "fs_ok (lhd_good n) n fs" "file_ok ?B fs v" using inv v by (auto simp: sfs_inv_def)
  then have "inode_wf (inode_of fs v)" by (auto simp: file_ok_def sv_ok_def inode_ok_def inode_of_def)
  then have bm: "length (blkmap (?B (sfs_device fs)) (inode_of fs v)) = NBLK" by simp
  obtain fs' where t: "sfs_truncate (lhd_io hw) v len fs = Some (Inr (), fs')" "file_step ?B (lhd_good n) n v fs fs'"
      "sfi_size (inode_of fs' v) = nat len" "take (nat len) (contents ?B fs' v) = take (nat len) (contents ?B fs v)"
      "blkmap (?B (sfs_device fs')) (inode_of fs' v) = trunc_map ?bl (blkmap (?B (sfs_device fs)) (inode_of fs v))"
      "used_blocks fs' = used_blocks fs - (file_blocks ?B fs v - file_blocks ?B fs' v)"
    using block_device.truncate_ok [OF working_disk.lhd_block_device [OF hw] ok len refl] by blast
  have "\<forall>w \<in> dom (sv_mem fs) - {v}. sv_mem fs' w = sv_mem fs w \<and> contents ?B fs' w = contents ?B fs w"
    using file_step_other [OF t(2) inv _ _ v] by blast
  then show ?thesis using t bm trunc_map_nth [of _ "blkmap (?B (sfs_device fs)) (inode_of fs v)" ?bl] file_step_inv [OF t(2) inv v] by simp
qed

lemma ex_vol_inv: "sfs_inv (lhd_blk ram_sect) (lhd_good 64) 64 ex_vol"
  by (rule vol_inv [OF ex_vol_vol])

theorem sfs_truncate_correct_witness:
  "\<exists>fs'. sfs_truncate (lhd_io ram_hw) 7 1 ex_vol = Some (Inr (), fs') \<and> sfi_size (inode_of fs' 7) = 1 \<and>
    sfs_inv (lhd_blk ram_sect) (lhd_good 64) 64 fs'"
  using sfs_truncate_correct [OF ram.working_disk_axioms ex_vol_inv, of 7 1] ex_vol_fields(3) by auto

text \<open>
  C28: a file without a name is freed with its last reference.  When the only reference to a loaded file with link count 0
  is given up, \<open>sfs_reclaim\<close> succeeds, the block of the inode and all blocks of the file become free and nothing else
  does, the vnode leaves the table, and every other loaded file keeps its inode and its contents.
\<close>

theorem sfs_reclaim_frees:
  assumes hw: "working_disk hw sect n" and inv: "sfs_inv (lhd_blk sect) (lhd_good n) n fs" and sv: "sv_mem fs v = Some sv"
    "vn_refcount sv = 1" "vn_opencount sv = 0" "sfi_linkcount (sv_i sv) = 0" "sfi_type (sv_i sv) = SFS_TYPE_FILE"
  shows "\<exists>fs'. sfs_reclaim (lhd_io hw) v fs = Some (Inr (), fs') \<and> sv_mem fs' = (sv_mem fs)(v := None) \<and>
    used_blocks fs' = used_blocks fs - owned (lhd_blk sect) fs v \<and> sfs_inv (lhd_blk sect) (lhd_good n) n fs' \<and>
    (\<forall>w \<in> dom (sv_mem fs) - {v}. contents (lhd_blk sect) fs' w = contents (lhd_blk sect) fs w)"
  using block_device.reclaim_frees [OF working_disk.lhd_block_device [OF hw] inv sv] by blast

definition ex_orphan :: "(nat \<Rightarrow> bytes) lhd_softc sfs_fs" where
  "ex_orphan = ex_fs\<lparr>sv_mem := [7 \<mapsto> \<lparr>vn_refcount = 1, vn_opencount = 0, sv_i = ex_inode\<lparr>sfi_linkcount := 0\<rparr>, sv_ino = 3, sv_dirty = True\<rparr>]\<rparr>"

lemma ex_orphan_inv: "sfs_inv (lhd_blk ram_sect) (lhd_good 64) 64 ex_orphan"
proof -
  have "fs_ok (lhd_good 64) 64 ex_orphan" "vnode_table ex_orphan" "used_blocks ex_orphan = {0, 1, 2, 3}"
    using ex_fs_inv ex_used by (simp_all add: sfs_inv_def fs_ok_def ex_orphan_def vnode_table_def) (simp_all add: ex_fs_def)
  moreover have "blkmap B (ex_inode\<lparr>sfi_linkcount := 0\<rparr>) = replicate NBLK 0" "inode_wf (ex_inode\<lparr>sfi_linkcount := 0\<rparr>)" for B
    by (simp_all add: blkmap_def indir_def ex_inode_def replicate_add [symmetric] inode_wf_def)
  moreover from this(1) have "inode_blocks B (ex_inode\<lparr>sfi_linkcount := 0\<rparr>) = {}" for B
    by (simp add: inode_blocks_def) (simp add: ex_inode_def)
  ultimately have "file_ok (lhd_blk ram_sect) ex_orphan 7"
    by (simp add: file_ok_def sv_ok_def inode_ok_def dist0_def ex_orphan_def) (simp add: ex_fs_def ex_inode_def)
  moreover have "dom (sv_mem ex_orphan) = {7}" by (simp add: ex_orphan_def)
  ultimately show ?thesis using \<open>fs_ok (lhd_good 64) 64 ex_orphan\<close> \<open>vnode_table ex_orphan\<close> by (simp add: sfs_inv_def)
qed

theorem sfs_reclaim_frees_witness:
  "\<exists>fs'. sfs_reclaim (lhd_io ram_hw) 7 ex_orphan = Some (Inr (), fs') \<and> sv_mem fs' 7 = None \<and>
    sfs_inv (lhd_blk ram_sect) (lhd_good 64) 64 fs'"
  using sfs_reclaim_frees [OF ram.working_disk_axioms ex_orphan_inv, of 7] by (auto simp: ex_orphan_def ex_inode_def)

section \<open>The volume as a map from names to files\<close>

text \<open>
  C26: looking a name up.  On a volume that holds the files \<open>F\<close>, \<open>sfs_lookup\<close> gives \<open>ENOENT\<close> exactly for a name that \<open>F\<close>
  does not have; for the others it gives, unless memory runs out, the vnode of the file the directory has under the name,
  whose inode and blocks hold the bytes that \<open>F\<close> has for it.  The volume holds the same files as before.
\<close>

theorem sfs_lookup_correct:
  assumes hw: "working_disk hw sect n" and v: "volume (lhd_blk sect) (lhd_good n) n fs d F" and fresh: "fresh_mem mem fs"
  shows "\<exists>r fs'. sfs_lookup (lhd_io hw) (mem, okinit, km) d name fs = Some (r, fs') \<and> volume (lhd_blk sect) (lhd_good n) n fs' d F \<and>
    (case r of
       Inl e \<Rightarrow> e = ENOENT \<and> F name = None \<or> e = ENOMEM \<and> F name \<noteq> None
     | Inr w \<Rightarrow> named_by (lhd_blk sect) fs' d name w \<and> F name = Some (file_data (lhd_blk sect (sfs_device fs')) (inode_of fs' w)))"
  by (rule block_device.lookup_ok [OF working_disk.lhd_block_device [OF hw] v fresh])

lemma ex_fresh: "fresh_mem (Some 9) ex_vol"
  using ex_vol_fields(3) by (simp add: fresh_mem_def)

theorem sfs_lookup_correct_witness:
  "\<exists>r fs'. sfs_lookup (lhd_io ram_hw) (Some 9, True, (\<lambda>_. None)) 8 [97] ex_vol = Some (r, fs') \<and>
    (case r of Inl e \<Rightarrow> e = ENOMEM | Inr w \<Rightarrow> file_data (lhd_blk ram_sect (sfs_device fs')) (inode_of fs' w) = [104, 105])"
  using sfs_lookup_correct [OF ram.working_disk_axioms ex_volume ex_fresh, of True "\<lambda>_. None" "[97]"]
  by (elim exE conjE) (intro exI conjI, assumption, auto simp: ex_F_def split: sum.splits)

text \<open>
  C5: making a file.  On a volume that holds the files \<open>F\<close>, \<open>sfs_creat\<close> of a new name adds an empty file under it and
  changes no other; of a name there is already it gives the vnode of that file, or fails with \<open>EEXIST\<close> when asked for a new one.
  Whatever error it reports (out of blocks, memory or directory slots, or a name too long), the volume holds the
  same files as before.
\<close>

theorem sfs_creat_correct:
  assumes hw: "working_disk hw sect n" and v: "volume (lhd_blk sect) (lhd_good n) n fs d F" and fresh: "fresh_mem mem fs"
    and name: "name_ok name"
  shows "\<exists>r fs'. sfs_creat (lhd_io hw) (mem, okinit, km) d name excl fs = Some (r, fs') \<and>
    (case r of
       Inr w \<Rightarrow> named_by (lhd_blk sect) fs' d name w \<and> \<not> (excl \<and> name \<in> dom F) \<and>
         volume (lhd_blk sect) (lhd_good n) n fs' d (if name \<in> dom F then F else F(name \<mapsto> []))
     | Inl e \<Rightarrow> volume (lhd_blk sect) (lhd_good n) n fs' d F \<and> (e = EEXIST \<and> excl \<and> name \<in> dom F \<or>
         e = ENAMETOOLONG \<and> SFS_NAMELEN \<le> length name \<or> e = ENOMEM \<or> e = ENOSPC \<or> e = EINVAL))"
  by (rule block_device.creat_ok [OF working_disk.lhd_block_device [OF hw] v fresh name])

theorem sfs_creat_correct_witness:
  "\<exists>r fs'. sfs_creat (lhd_io ram_hw) (Some 9, True, (\<lambda>_. None)) 8 [98] True ex_vol = Some (r, fs') \<and>
    volume (lhd_blk ram_sect) (lhd_good 64) 64 fs' 8 (case r of Inr _ \<Rightarrow> ex_F([98] \<mapsto> []) | Inl _ \<Rightarrow> ex_F)"
proof -
  have nm: "name_ok [98]" and "[98] \<notin> dom ex_F" by (simp_all add: name_ok_def ex_F_def)
  then show ?thesis
    using sfs_creat_correct [OF ram.working_disk_axioms ex_volume ex_fresh nm, of True "\<lambda>_. None" True]
    by (elim exE conjE) (intro exI conjI, assumption, auto split: sum.splits)
qed

text \<open>
  C6: removing a name.  On a volume that holds the files \<open>F\<close>, \<open>sfs_remove\<close> takes the name out of \<open>F\<close> and changes no
  other file; it fails only for a name that \<open>F\<close> does not have or when there is no memory to load the file, and then
  the volume holds the same files as before.
\<close>

theorem sfs_remove_correct:
  assumes hw: "working_disk hw sect n" and v: "volume (lhd_blk sect) (lhd_good n) n fs d F" and fresh: "fresh_mem mem fs"
  shows "\<exists>r fs'. sfs_remove (lhd_io hw) (mem, okinit, km) d name fs = Some (r, fs') \<and>
    (case r of
       Inr _ \<Rightarrow> name \<in> dom F \<and> volume (lhd_blk sect) (lhd_good n) n fs' d (F(name := None))
     | Inl e \<Rightarrow> volume (lhd_blk sect) (lhd_good n) n fs' d F \<and> (e = ENOENT \<and> name \<notin> dom F \<or> e = ENOMEM \<and> name \<in> dom F))"
  by (rule block_device.remove_ok [OF working_disk.lhd_block_device [OF hw] v fresh])

theorem sfs_remove_correct_witness:
  "\<exists>r fs'. sfs_remove (lhd_io ram_hw) (Some 9, True, (\<lambda>_. None)) 8 [97] ex_vol = Some (r, fs') \<and>
    (case r of Inr _ \<Rightarrow> volume (lhd_blk ram_sect) (lhd_good 64) 64 fs' 8 Map.empty | Inl e \<Rightarrow> e = ENOMEM)"
proof -
  have "ex_F([97] := None) = Map.empty" "[97] \<in> dom ex_F" by (simp_all add: ex_F_def)
  then show ?thesis
    using sfs_remove_correct [OF ram.working_disk_axioms ex_volume ex_fresh, of True "\<lambda>_. None" "[97]"]
    by (elim exE conjE) (intro exI conjI, assumption, auto split: sum.splits)
qed

text \<open>
  C7: renaming.  On a volume that holds the files \<open>F\<close>, \<open>sfs_rename\<close> moves the file of the old name to the new name and
  changes no other.  It fails when there is no such file, when the new name is taken or too long, or when it
  runs out of memory, blocks or directory slots, and then the volume holds the same files as before: taking the
  old name out cannot fail once the new one is in, so that the recovery that may panic is never reached.
\<close>

theorem sfs_rename_correct:
  assumes hw: "working_disk hw sect n" and v: "volume (lhd_blk sect) (lhd_good n) n fs d F" and fresh: "fresh_mem mem fs"
    and name: "name_ok n2"
  shows "\<exists>r fs'. sfs_rename (lhd_io hw) (mem, okinit, km) d n1 d n2 fs = Some (r, fs') \<and>
    (case r of
       Inr _ \<Rightarrow> n1 \<in> dom F \<and> n2 \<notin> dom F \<and> volume (lhd_blk sect) (lhd_good n) n fs' d (F(n2 := F n1, n1 := None))
     | Inl e \<Rightarrow> volume (lhd_blk sect) (lhd_good n) n fs' d F \<and> (e = ENOENT \<and> n1 \<notin> dom F \<or> e = EEXIST \<and> n2 \<in> dom F \<or>
         e = ENAMETOOLONG \<and> SFS_NAMELEN \<le> length n2 \<or> e = ENOMEM \<or> e = ENOSPC \<or> e = EINVAL))"
  by (rule block_device.rename_ok [OF working_disk.lhd_block_device [OF hw] v fresh name])

theorem sfs_rename_correct_witness:
  "\<exists>r fs'. sfs_rename (lhd_io ram_hw) (Some 9, True, (\<lambda>_. None)) 8 [97] 8 [98] ex_vol = Some (r, fs') \<and>
    volume (lhd_blk ram_sect) (lhd_good 64) 64 fs' 8 (case r of Inr _ \<Rightarrow> [[98] \<mapsto> [104, 105]] | Inl _ \<Rightarrow> ex_F)"
proof -
  have nm: "name_ok [98]" and "ex_F([98] := ex_F [97], [97] := None) = [[98] \<mapsto> [104, 105]]" by (auto simp: name_ok_def ex_F_def)
  then show ?thesis
    using sfs_rename_correct [OF ram.working_disk_axioms ex_volume ex_fresh nm, of True "\<lambda>_. None" "[97]"]
    by (elim exE conjE) (intro exI conjI, assumption, auto split: sum.splits)
qed

text \<open>
  C25: a second name.  On a volume that holds the files \<open>F\<close>, \<open>sfs_link\<close> enters a loaded file under one more name, where
  the file's bytes are then found; it fails when the name is taken or too long or when it runs out of blocks or
  directory slots, and then the volume holds the same files as before.
\<close>

theorem sfs_link_correct:
  assumes hw: "working_disk hw sect n" and v: "volume (lhd_blk sect) (lhd_good n) n fs d F" and name: "name_ok name"
    and w: "sv_mem fs w = Some sw" "w \<noteq> d"
  shows "\<exists>r fs'. sfs_link (lhd_io hw) d name w fs = Some (r, fs') \<and>
    (case r of
       Inr _ \<Rightarrow> name \<notin> dom F \<and> volume (lhd_blk sect) (lhd_good n) n fs' d (F(name \<mapsto> file_data (lhd_blk sect (sfs_device fs)) (sv_i sw)))
     | Inl e \<Rightarrow> volume (lhd_blk sect) (lhd_good n) n fs' d F \<and> (e = EEXIST \<and> name \<in> dom F \<or>
         e = ENAMETOOLONG \<and> SFS_NAMELEN \<le> length name \<or> e = ENOSPC \<or> e = EINVAL))"
  by (rule block_device.link_ok [OF working_disk.lhd_block_device [OF hw] v name w])

theorem sfs_link_correct_witness:
  "\<exists>r fs'. sfs_link (lhd_io ram_hw) 8 [97] 7 ex_vol = Some (r, fs') \<and> r \<noteq> Inr () \<and> volume (lhd_blk ram_sect) (lhd_good 64) 64 fs' 8 ex_F"
proof -
  have nm: "name_ok [97]" and w: "sv_mem ex_vol 7 = Some (the (sv_mem ex_vol 7))" "(7::nat) \<noteq> 8" and "[97] \<in> dom ex_F" by (simp_all add: name_ok_def ex_F_def ex_vol_def)
  then show ?thesis
    using sfs_link_correct [OF ram.working_disk_axioms ex_volume nm w]
    by (elim exE conjE) (intro exI conjI, assumption, auto split: sum.splits)
qed

end
