(* ===== verification/Kpages.thy ===== *)
theory Kpages
  imports Kern_Prelude
begin

text \<open>
  The interface between the kernel heap and the physical page allocator: \<open>alloc_kpages\<close> and \<open>free_kpages\<close> of
  \<open>kern/include/vm.h\<close>.  A run of pages is known by the kernel address of its first page; the address 0
  is the error return.
\<close>

abbreviation PAGE_SIZE :: nat where "PAGE_SIZE \<equiv> 4096"

type_synonym 'p alloc_pages = "nat \<Rightarrow> 'p \<Rightarrow> (nat \<times> 'p) option"
type_synonym 'p free_pages = "nat \<Rightarrow> 'p \<Rightarrow> 'p option"

definition run_of :: "nat \<Rightarrow> nat \<Rightarrow> nat set" where
  "run_of a n = {a..<a + n * PAGE_SIZE}"

text \<open>
  \<open>holds p G\<close> says that in state \<open>p\<close> of the allocator the runs of \<open>G\<close>, a map from addresses to numbers of pages,
  are out.  The allocator may keep more pages in use than those of \<open>G\<close>.
\<close>

locale page_allocator =
  fixes alloc :: "'p alloc_pages" and free :: "'p free_pages" and holds :: "'p \<Rightarrow> (nat \<rightharpoonup> nat) \<Rightarrow> bool"
  assumes alloc_ok: "holds p G \<Longrightarrow> 0 < n \<Longrightarrow> n < 2 ^ 20 \<Longrightarrow>
      \<exists>a p'. alloc n p = Some (a, p') \<and> (if a = 0 then holds p' G else a \<notin> dom G \<and> holds p' (G(a \<mapsto> n)))"
    and free_ok: "holds p G \<Longrightarrow> a \<in> dom G \<Longrightarrow> \<exists>p'. free a p = Some p' \<and> holds p' (G(a := None))"
    and run_range: "holds p G \<Longrightarrow> G a = Some n \<Longrightarrow> 0 < a \<and> a mod PAGE_SIZE = 0 \<and> 0 < n \<and> a + n * PAGE_SIZE < 2 ^ 32"
    and run_disjoint: "holds p G \<Longrightarrow> G a = Some m \<Longrightarrow> G b = Some n \<Longrightarrow> a \<noteq> b \<Longrightarrow> run_of a m \<inter> run_of b n = {}"
begin

lemma new_run_fresh:
  assumes "holds p G" and "0 < n" and "n < 2 ^ 20" and "alloc n p = Some (a, p')" and "a \<noteq> 0" and "G b = Some m"
  shows "run_of a n \<inter> run_of b m = {}"
proof -
  have "a \<notin> dom G" "holds p' (G(a \<mapsto> n))" using alloc_ok [OF assms(1-3)] assms(4,5) by auto
  then show ?thesis using run_disjoint [of p' "G(a \<mapsto> n)" a n b m] assms(6) by (cases "a = b") auto
qed

end

end
