(* ===== verification/Kheap.thy ===== *)
theory Kheap
  imports Kpages
begin

unbundle bit_operations_syntax

text \<open>
  The kernel heap, \<open>kern/lib/kheap.c\<close>: blocks smaller than a page come from pages cut into blocks of one size,
  each page with its own free list threaded through the first word of its free blocks; larger ones are
  whole pages.

  Addresses are numbers below \<open>2 ^ 32\<close> and \<open>kmemory\<close> gives the word at an address; it stands for the memory
  that the heap hands out, free lists included.  A pointer to a \<open>struct pageref\<close> is its index in \<open>pagerefs\<close>
  and \<open>None\<close> is \<open>NULL\<close>.  The page allocator (\<open>alloc_kpages\<close>, \<open>free_kpages\<close> of \<open>vm.c\<close>) is an argument
  with a state of its own.  The functions run with interrupts off from the first access to the last, so that
  each is one step; the checks under \<open>SLOW\<close> are compiled out, and \<open>kheap_printstats\<close> only prints.
\<close>

section \<open>The model\<close>

abbreviation NSIZES :: nat where "NSIZES \<equiv> 8"
abbreviation NPAGEREFS :: nat where "NPAGEREFS \<equiv> 256"
abbreviation INUSE_WORDS :: nat where "INUSE_WORDS \<equiv> 8"
abbreviation LARGEST_SUBPAGE_SIZE :: nat where "LARGEST_SUBPAGE_SIZE \<equiv> 2048"
abbreviation INVALID_OFFSET :: nat where "INVALID_OFFSET \<equiv> 65535"

definition sizes :: "nat list" where
  "sizes = [16, 32, 64, 128, 256, 512, 1024, 2048]"

record pageref =
  next_samesize :: "nat option"
  next_all :: "nat option"
  pageaddr_and_blocktype :: nat
  freelist_offset :: nat
  nfree :: nat

text \<open>\<open>PAGE_FRAME\<close> masks the low twelve bits.\<close>

definition PR_PAGEADDR :: "pageref \<Rightarrow> nat" where
  "PR_PAGEADDR pr = pageaddr_and_blocktype pr div 4096 * 4096"

definition PR_BLOCKTYPE :: "pageref \<Rightarrow> nat" where
  "PR_BLOCKTYPE pr = pageaddr_and_blocktype pr mod 4096"

definition MKPAB :: "nat \<Rightarrow> nat \<Rightarrow> nat" where
  "MKPAB pageaddr blk = pageaddr div 4096 * 4096 + blk mod 4096"

record 'p kheap =
  pagerefs :: "pageref list"
  pagerefs_inuse :: "32 word list"
  sizebases :: "nat option list"
  allbase :: "nat option"
  kmemory :: "nat \<Rightarrow> nat"
  kpages :: 'p

definition pr_at :: "nat \<Rightarrow> 'p kheap \<Rightarrow> pageref option" where
  "pr_at i h = (if i < length (pagerefs h) then Some (pagerefs h ! i) else None)"

definition pr_upd :: "nat \<Rightarrow> (pageref \<Rightarrow> pageref) \<Rightarrow> 'p kheap \<Rightarrow> 'p kheap" where
  "pr_upd i f h = h\<lparr>pagerefs := (pagerefs h)[i := f (pagerefs h ! i)]\<rparr>"

definition prmask :: "nat \<Rightarrow> 32 word" where
  "prmask j = push_bit j 1"

text \<open>The loop \<open>for (k=1,j=0; k!=0; k<<=1,j++)\<close> tries the 32 bits of a word from the lowest on.\<close>

definition allocpageref :: "'p kheap \<Rightarrow> (nat option \<times> 'p kheap) option" where
  "allocpageref h = (case find (\<lambda>i. pagerefs_inuse h ! i \<noteq> 0xffffffff) [0..<INUSE_WORDS] of
     None \<Rightarrow> Some (None, h)
   | Some i \<Rightarrow> (let w = pagerefs_inuse h ! i in
       case find (\<lambda>j. w AND prmask j = 0) [0..<32] of
         None \<Rightarrow> None
       | Some j \<Rightarrow> Some (Some (i * 32 + j), h\<lparr>pagerefs_inuse := (pagerefs_inuse h)[i := w OR prmask j]\<rparr>)))"

definition freepageref :: "nat \<Rightarrow> 'p kheap \<Rightarrow> 'p kheap option" where
  "freepageref j h = do {
     kassert (j < NPAGEREFS);
     let i = j div 32;
     let k = prmask (j mod 32);
     let w = pagerefs_inuse h ! i;
     kassert (w AND k \<noteq> 0);
     Some (h\<lparr>pagerefs_inuse := (pagerefs_inuse h)[i := w AND NOT k]\<rparr>) }"

definition blocktype :: "nat \<Rightarrow> nat option" where
  "blocktype sz = find (\<lambda>i. sz \<le> sizes ! i) [0..<NSIZES]"

text \<open>\<open>doalloc\<close>: the first block of the page's free list is taken off.\<close>

definition subpage_doalloc :: "nat \<Rightarrow> 'p kheap \<Rightarrow> (nat \<times> 'p kheap) option" where
  "subpage_doalloc i h = do {
     pr \<leftarrow> pr_at i h;
     kassert (freelist_offset pr < PAGE_SIZE);
     let prpage = PR_PAGEADDR pr;
     let fla = c_uint (prpage + freelist_offset pr);
     let fl = kmemory h fla;
     let n = (nfree pr + 65535) mod 2 ^ 16;
     if fl \<noteq> 0 then do {
       kassert (n > 0);
       kassert (c_usub fl prpage < PAGE_SIZE);
       Some (fla, pr_upd i (\<lambda>pr. pr\<lparr>nfree := n, freelist_offset := c_usub fl prpage\<rparr>) h) }
     else do {
       kassert (n = 0);
       Some (fla, pr_upd i (\<lambda>pr. pr\<lparr>nfree := n, freelist_offset := INVALID_OFFSET\<rparr>) h) } }"

text \<open>The search for a page of the right size with a free block.\<close>

partial_function (option) subpage_search :: "nat \<Rightarrow> 'p kheap \<Rightarrow> nat option \<Rightarrow> nat option option" where
  "subpage_search blktype h pr = (case pr of
     None \<Rightarrow> Some None
   | Some i \<Rightarrow> Option.bind (pr_at i h) (\<lambda>p.
       if PR_BLOCKTYPE p = blktype then
         (if nfree p > 0 then Some (Some i) else subpage_search blktype h (next_samesize p))
       else None))"

text \<open>The loop that threads the free list through a new page, block \<open>i\<close> last, with its last block and the memory.\<close>

fun link_blocks :: "nat \<Rightarrow> nat \<Rightarrow> nat \<Rightarrow> (nat \<Rightarrow> nat) \<Rightarrow> (nat \<times> (nat \<Rightarrow> nat)) option" where
  "link_blocks fla sz 0 mem = Some (fla, mem(fla := 0))"
| "link_blocks fla sz (Suc i) mem = do {
     (_, mem1) \<leftarrow> link_blocks fla sz i mem;
     let fl = c_uint (fla + Suc i * sz);
     let next = c_uint (fla + i * sz);
     kassert (fl \<noteq> next);
     Some (fl, mem1(fl := next)) }"

text \<open>A fresh page, after its address has been found: it goes to the front of both lists of pages.\<close>

definition subpage_newpage :: "nat \<Rightarrow> nat \<Rightarrow> nat \<Rightarrow> 'p kheap \<Rightarrow> 'p kheap option" where
  "subpage_newpage i blktype prpage h = do {
     pr_at i h;
     let sz = sizes ! blktype;
     let n = PAGE_SIZE div sz;
     (fla, mem) \<leftarrow> link_blocks prpage sz (n - 1) (kmemory h);
     let off = c_usub fla prpage mod 2 ^ 16;
     kassert (off = (n - 1) * sz);
     Some ((pr_upd i (\<lambda>_. \<lparr>next_samesize = sizebases h ! blktype, next_all = allbase h,
         pageaddr_and_blocktype = MKPAB prpage blktype, freelist_offset = off, nfree = n\<rparr>) h)
       \<lparr>sizebases := (sizebases h)[blktype := Some i], allbase := Some i, kmemory := mem\<rparr>) }"

text \<open>The address handed back is 0 for \<open>NULL\<close>.\<close>

definition subpage_kmalloc :: "'p alloc_pages \<Rightarrow> nat \<Rightarrow> 'p kheap \<Rightarrow> (nat \<times> 'p kheap) option" where
  "subpage_kmalloc alloc_kpages sz h = do {
     blktype \<leftarrow> blocktype sz;
     found \<leftarrow> subpage_search blktype h (sizebases h ! blktype);
     case found of
       Some i \<Rightarrow> subpage_doalloc i h
     | None \<Rightarrow> do {
         (pr, h1) \<leftarrow> allocpageref h;
         case pr of
           None \<Rightarrow> Some (0, h1)
         | Some i \<Rightarrow> do {
             (prpage, p) \<leftarrow> alloc_kpages 1 (kpages h1);
             let h2 = h1\<lparr>kpages := p\<rparr>;
             if prpage = 0 then do { h3 \<leftarrow> freepageref i h2; Some (0, h3) }
             else do { h3 \<leftarrow> subpage_newpage i blktype prpage h2; subpage_doalloc i h3 } } } }"

text \<open>
  \<open>remove_lists\<close>: the pointer \<open>guy\<close> points at the head of the list (\<open>None\<close>) or at the next pointer of a page;
  the page is taken out where it is found.
\<close>

partial_function (option) unlink_samesize :: "nat \<Rightarrow> nat \<Rightarrow> nat option \<Rightarrow> 'p kheap \<Rightarrow> 'p kheap option" where
  "unlink_samesize pr blktype guy h = (
     let target = (case guy of None \<Rightarrow> sizebases h ! blktype | Some g \<Rightarrow> next_samesize (pagerefs h ! g)) in
     case target of
       None \<Rightarrow> Some h
     | Some x \<Rightarrow> Option.bind (pr_at x h) (\<lambda>p.
         if x = pr then Some (case guy of
             None \<Rightarrow> h\<lparr>sizebases := (sizebases h)[blktype := next_samesize p]\<rparr>
           | Some g \<Rightarrow> pr_upd g (\<lambda>q. q\<lparr>next_samesize := next_samesize p\<rparr>) h)
         else unlink_samesize pr blktype (Some x) h))"

partial_function (option) unlink_all :: "nat \<Rightarrow> nat option \<Rightarrow> 'p kheap \<Rightarrow> 'p kheap option" where
  "unlink_all pr guy h = (
     let target = (case guy of None \<Rightarrow> allbase h | Some g \<Rightarrow> next_all (pagerefs h ! g)) in
     case target of
       None \<Rightarrow> Some h
     | Some x \<Rightarrow> Option.bind (pr_at x h) (\<lambda>p.
         if x = pr then Some (case guy of
             None \<Rightarrow> h\<lparr>allbase := next_all p\<rparr>
           | Some g \<Rightarrow> pr_upd g (\<lambda>q. q\<lparr>next_all := next_all p\<rparr>) h)
         else unlink_all pr (Some x) h))"

definition remove_lists :: "nat \<Rightarrow> nat \<Rightarrow> 'p kheap \<Rightarrow> 'p kheap option" where
  "remove_lists pr blktype h = do {
     kassert (blktype < NSIZES);
     h1 \<leftarrow> unlink_samesize pr blktype None h;
     unlink_all pr None h1 }"

fun fill_deadbeef :: "nat \<Rightarrow> nat \<Rightarrow> (nat \<Rightarrow> nat) \<Rightarrow> nat \<Rightarrow> nat" where
  "fill_deadbeef ptr 0 mem = mem"
| "fill_deadbeef ptr (Suc n) mem = (fill_deadbeef ptr n mem)(ptr + 4 * n := 0xdeadbeef)"

text \<open>The search for the page that an address is on.\<close>

partial_function (option) page_search :: "nat \<Rightarrow> 'p kheap \<Rightarrow> nat option \<Rightarrow> nat option option" where
  "page_search ptraddr h pr = (case pr of
     None \<Rightarrow> Some None
   | Some i \<Rightarrow> Option.bind (pr_at i h) (\<lambda>p.
       if PR_BLOCKTYPE p < NSIZES then
         (if PR_PAGEADDR p \<le> ptraddr \<and> ptraddr < c_uint (PR_PAGEADDR p + PAGE_SIZE) then Some (Some i)
          else page_search ptraddr h (next_all p))
       else None))"

text \<open>\<open>subpage_kfree\<close> on the page found: the block goes to the front of the free list, and an empty page is given back.\<close>

definition subpage_release :: "'p free_pages \<Rightarrow> nat \<Rightarrow> nat \<Rightarrow> 'p kheap \<Rightarrow> 'p kheap option" where
  "subpage_release free_kpages i ptraddr h = do {
     pr \<leftarrow> pr_at i h;
     let prpage = PR_PAGEADDR pr;
     let blktype = PR_BLOCKTYPE pr;
     let sz = sizes ! blktype;
     let offset = c_usub ptraddr prpage;
     kassert (offset < PAGE_SIZE \<and> offset mod sz = 0);
     let mem = fill_deadbeef ptraddr (sz div 4) (kmemory h);
     let fla = c_uint (prpage + offset);
     let next = (if freelist_offset pr = INVALID_OFFSET then 0 else c_uint (prpage + freelist_offset pr));
     let n = (nfree pr + 1) mod 2 ^ 16;
     let h1 = (pr_upd i (\<lambda>pr. pr\<lparr>freelist_offset := offset mod 2 ^ 16, nfree := n\<rparr>) h)\<lparr>kmemory := mem(fla := next)\<rparr>;
     kassert (n \<le> PAGE_SIZE div sz);
     if n = PAGE_SIZE div sz then do {
       h2 \<leftarrow> remove_lists i blktype h1;
       p \<leftarrow> free_kpages prpage (kpages h2);
       freepageref i (h2\<lparr>kpages := p\<rparr>) }
     else Some h1 }"

text \<open>The flag says whether the address is on a page of the subpage allocator (result 0) or not (result -1).\<close>

definition subpage_kfree :: "'p free_pages \<Rightarrow> nat \<Rightarrow> 'p kheap \<Rightarrow> (bool \<times> 'p kheap) option" where
  "subpage_kfree free_kpages ptraddr h = do {
     found \<leftarrow> page_search ptraddr h (allbase h);
     case found of
       None \<Rightarrow> Some (False, h)
     | Some i \<Rightarrow> do { h1 \<leftarrow> subpage_release free_kpages i ptraddr h; Some (True, h1) } }"

definition kmalloc :: "'p alloc_pages \<Rightarrow> nat \<Rightarrow> 'p kheap \<Rightarrow> (nat \<times> 'p kheap) option" where
  "kmalloc alloc_kpages sz h =
     (if sz \<ge> LARGEST_SUBPAGE_SIZE then do {
        let npages = c_uint (sz + PAGE_SIZE - 1) div PAGE_SIZE;
        (address, p) \<leftarrow> alloc_kpages npages (kpages h);
        Some (address, h\<lparr>kpages := p\<rparr>) }
      else subpage_kmalloc alloc_kpages sz h)"

definition kfree :: "'p free_pages \<Rightarrow> nat \<Rightarrow> 'p kheap \<Rightarrow> 'p kheap option" where
  "kfree free_kpages ptr h =
     (if ptr = 0 then Some h
      else do {
        (subpage, h1) \<leftarrow> subpage_kfree free_kpages ptr h;
        if subpage then Some h1
        else do {
          kassert (ptr mod PAGE_SIZE = 0);
          p \<leftarrow> free_kpages ptr (kpages h1);
          Some (h1\<lparr>kpages := p\<rparr>) } })"

end
