(* ===== verification/Kheap_Inv.thy ===== *)
theory Kheap_Inv
  imports Kheap
begin

unbundle bit_operations_syntax

text \<open>
  The invariant of the kernel heap and the lemmas on its parts: the accounting bits, the lists of pages, the free
  list in a page, and the map from addresses to the blocks that are out.
\<close>

section \<open>Block sizes and pages\<close>

lemma sizes_bounds:
  assumes "t < 8"
  shows "sizes ! t dvd 4096" "16 \<le> sizes ! t" "sizes ! t \<le> 2048" "4 dvd sizes ! t"
proof -
  have "t = 0 \<or> t = 1 \<or> t = 2 \<or> t = 3 \<or> t = 4 \<or> t = 5 \<or> t = 6 \<or> t = 7" using assms by linarith
  then show "sizes ! t dvd 4096" "16 \<le> sizes ! t" "sizes ! t \<le> 2048" "4 dvd sizes ! t"
    by (elim disjE; simp add: sizes_def)+
qed

lemma blocktype_ok:
  assumes "sz \<le> 2048"
  shows "\<exists>t. blocktype sz = Some t \<and> t < 8 \<and> sz \<le> sizes ! t"
proof (cases "blocktype sz")
  case None
  then have "\<not> sz \<le> sizes ! 7" by (simp add: blocktype_def find_upt_None)
  with assms show ?thesis by (simp add: sizes_def)
qed (auto simp: blocktype_def find_upt_Some)

abbreviation bsize :: "pageref \<Rightarrow> nat" where "bsize pr \<equiv> sizes ! PR_BLOCKTYPE pr"

definition on_page :: "pageref \<Rightarrow> nat \<Rightarrow> bool" where
  "on_page pr a \<longleftrightarrow> PR_PAGEADDR pr \<le> a \<and> a < PR_PAGEADDR pr + PAGE_SIZE"

definition on_block :: "pageref \<Rightarrow> nat \<Rightarrow> bool" where
  "on_block pr a \<longleftrightarrow> on_page pr a \<and> (a - PR_PAGEADDR pr) mod bsize pr = 0"

text \<open>A free list in memory and a list of pages.\<close>

definition head_addr :: "nat list \<Rightarrow> nat" where
  "head_addr fs = (case fs of [] \<Rightarrow> 0 | x # _ \<Rightarrow> x)"

fun flist :: "(nat \<Rightarrow> nat) \<Rightarrow> nat list \<Rightarrow> bool" where
  "flist m [] \<longleftrightarrow> True"
| "flist m (x # xs) \<longleftrightarrow> m x = head_addr xs \<and> flist m xs"

fun chain :: "(nat \<Rightarrow> nat option) \<Rightarrow> nat option \<Rightarrow> nat list \<Rightarrow> bool" where
  "chain f p [] \<longleftrightarrow> p = None"
| "chain f p (x # xs) \<longleftrightarrow> p = Some x \<and> chain f (f x) xs"

lemma head_addr_simps [simp]: "head_addr [] = 0" "head_addr (x # xs) = x"
  by (simp_all add: head_addr_def)

lemma flist_cong: "(\<forall>x \<in> set fs. m' x = m x) \<Longrightarrow> flist m' fs = flist m fs"
  by (induction fs) auto

lemma chain_cong: "(\<forall>x \<in> set xs. f x = g x) \<Longrightarrow> chain f p xs = chain g p xs"
  by (induction xs arbitrary: p) auto

definition page_ok :: "(nat \<Rightarrow> nat) \<Rightarrow> pageref \<Rightarrow> nat list \<Rightarrow> bool" where
  "page_ok m pr fs \<longleftrightarrow> PR_BLOCKTYPE pr < NSIZES \<and> 0 < PR_PAGEADDR pr \<and> PR_PAGEADDR pr + PAGE_SIZE < 2 ^ 32 \<and>
     distinct fs \<and> (\<forall>x \<in> set fs. on_block pr x) \<and> flist m fs \<and> nfree pr = length fs \<and>
     freelist_offset pr = (if fs = [] then INVALID_OFFSET else hd fs - PR_PAGEADDR pr)"

lemma page_ok_frame: "page_ok m pr fs \<Longrightarrow> (\<forall>x. on_page pr x \<longrightarrow> m' x = m x) \<Longrightarrow> page_ok m' pr fs"
  using flist_cong [of fs m' m] by (auto simp: page_ok_def on_block_def)

text \<open>A page has \<open>PAGE_SIZE / size\<close> blocks, so a free list without repetition is no longer than that.\<close>

lemma page_blocks:
  assumes "PR_BLOCKTYPE pr < NSIZES"
  shows "{a. on_block pr a} = (\<lambda>k. PR_PAGEADDR pr + k * bsize pr) ` {..<PAGE_SIZE div bsize pr}"
    and "card {a. on_block pr a} = PAGE_SIZE div bsize pr" and "finite {a. on_block pr a}"
proof -
  let ?b = "PR_PAGEADDR pr" and ?s = "bsize pr"
  have s: "?s dvd 4096" "16 \<le> ?s" using sizes_bounds [OF assms] by simp_all
  have lt: "k < 4096 div ?s \<longleftrightarrow> k * ?s < 4096" for k
    using s by (metis dvd_mult_div_cancel less_mult_imp_div_less mult.commute nat_mult_less_cancel_disj zero_less_numeral not_gr_zero mult_eq_0_iff)
  show eq: "{a. on_block pr a} = (\<lambda>k. ?b + k * ?s) ` {..<PAGE_SIZE div ?s}"
  proof safe
    fix a assume "on_block pr a"
    then have a: "?b \<le> a" "a < ?b + 4096" "(a - ?b) mod ?s = 0" by (auto simp: on_block_def on_page_def)
    then have e: "a = ?b + (a - ?b) div ?s * ?s" by (metis add_diff_inverse_nat div_mod_decomp add.right_neutral not_less)
    then have "(a - ?b) div ?s * ?s < 4096" using a by linarith
    then show "a \<in> (\<lambda>k. ?b + k * ?s) ` {..<4096 div ?s}" using e lt by blast
  qed (auto simp: on_block_def on_page_def lt)
  have "inj_on (\<lambda>k. ?b + k * ?s) {..<4096 div ?s}" using s by (auto simp: inj_on_def)
  then show "card {a. on_block pr a} = 4096 div ?s" "finite {a. on_block pr a}" unfolding eq by (simp_all add: card_image)
qed

lemma free_count:
  assumes "page_ok m pr fs"
  shows "length fs \<le> PAGE_SIZE div bsize pr" and "on_block pr a \<Longrightarrow> a \<notin> set fs \<Longrightarrow> length fs < PAGE_SIZE div bsize pr"
proof -
  have t: "PR_BLOCKTYPE pr < NSIZES" and sub: "set fs \<subseteq> {a. on_block pr a}" and d: "length fs = card (set fs)"
    using assms by (auto simp: page_ok_def distinct_card)
  show "length fs \<le> PAGE_SIZE div bsize pr" using card_mono [OF page_blocks(3) [OF t] sub] page_blocks(2) [OF t] d by simp
  assume "on_block pr a" "a \<notin> set fs"
  then have "set fs \<subset> {a. on_block pr a}" using sub by blast
  then show "length fs < PAGE_SIZE div bsize pr" using psubset_card_mono [OF page_blocks(3) [OF t]] page_blocks(2) [OF t] d by simp
qed

section \<open>The accounting bits\<close>

definition inuse :: "32 word list \<Rightarrow> nat set" where
  "inuse ws = {k. k < NPAGEREFS \<and> bit (ws ! (k div 32)) (k mod 32)}"

lemma all_ones: "(w = (0xffffffff :: 32 word)) \<longleftrightarrow> (\<forall>j < 32. bit w j)"
proof -
  have e: "(0xffffffff :: 32 word) = - 1" by simp
  show ?thesis unfolding e by (auto intro!: bit_word_eqI)
qed

lemma bit_prmask [bit_simps]: "bit (prmask j) n \<longleftrightarrow> n = j \<and> n < 32"
  by (auto simp: prmask_def bit_simps)

lemma and_prmask_eq_0: "j < 32 \<Longrightarrow> (w AND prmask j = 0) \<longleftrightarrow> \<not> bit w j"
proof
  assume "j < 32" "w AND prmask j = 0"
  then have "\<not> bit (w AND prmask j) j" by simp
  with \<open>j < 32\<close> show "\<not> bit w j" by (simp add: bit_simps)
next
  assume "\<not> bit w j"
  then show "w AND prmask j = 0" by (intro bit_word_eqI) (auto simp: bit_simps)
qed

lemma inuse_set:
  assumes "length ws = INUSE_WORDS" "i < INUSE_WORDS" "j < 32"
  shows "inuse (ws[i := ws ! i OR prmask j]) = insert (i * 32 + j) (inuse ws)"
    and "inuse (ws[i := ws ! i AND NOT (prmask j)]) = inuse ws - {i * 32 + j}"
proof -
  have split: "k = i * 32 + j \<longleftrightarrow> k div 32 = i \<and> k mod 32 = j" for k using assms(3) by auto
  have "i * 32 + j < 256" using assms by simp
  then show "inuse (ws[i := ws ! i OR prmask j]) = insert (i * 32 + j) (inuse ws)"
    using assms by (auto simp: inuse_def nth_list_update bit_simps split)
  show "inuse (ws[i := ws ! i AND NOT (prmask j)]) = inuse ws - {i * 32 + j}"
    using assms by (auto simp: inuse_def nth_list_update bit_simps split)
qed

lemma allocpageref_ok:
  assumes len: "length (pagerefs_inuse h) = INUSE_WORDS"
  shows "\<exists>r ws. allocpageref h = Some (r, h\<lparr>pagerefs_inuse := ws\<rparr>) \<and> length ws = INUSE_WORDS \<and>
    (case r of None \<Rightarrow> ws = pagerefs_inuse h
     | Some k \<Rightarrow> k < NPAGEREFS \<and> k \<notin> inuse (pagerefs_inuse h) \<and> inuse ws = insert k (inuse (pagerefs_inuse h)))"
proof (cases "find (\<lambda>i. pagerefs_inuse h ! i \<noteq> 0xffffffff) [0..<INUSE_WORDS]")
  case None
  then show ?thesis using len by (intro exI [of _ None] exI [of _ "pagerefs_inuse h"]) (simp add: allocpageref_def)
next
  case (Some i)
  let ?w = "pagerefs_inuse h ! i"
  from Some have i: "i < 8" "?w \<noteq> 0xffffffff" by (simp_all add: find_upt_Some)
  then obtain j where "j < 32" "\<not> bit ?w j" by (auto simp: all_ones)
  then obtain j where j: "find (\<lambda>j. ?w AND prmask j = 0) [0..<32] = Some j"
    by (cases "find (\<lambda>j. ?w AND prmask j = 0) [0..<32]") (auto simp: find_upt_None and_prmask_eq_0)
  then have j': "j < 32" "\<not> bit ?w j" by (auto simp: find_upt_Some and_prmask_eq_0)
  have "i * 32 + j \<notin> inuse (pagerefs_inuse h)" using j' by (auto simp: inuse_def)
  moreover have "i * 32 + j < 256" using i j' by simp
  ultimately show ?thesis
    using Some j inuse_set(1) [OF len i(1) j'(1)] len
    by (intro exI [of _ "Some (i * 32 + j)"] exI [of _ "(pagerefs_inuse h)[i := ?w OR prmask j]"]) (simp add: allocpageref_def)
qed

lemma freepageref_ok:
  assumes "length (pagerefs_inuse h) = INUSE_WORDS" "k \<in> inuse (pagerefs_inuse h)"
  shows "\<exists>ws. freepageref k h = Some (h\<lparr>pagerefs_inuse := ws\<rparr>) \<and> length ws = INUSE_WORDS \<and>
    inuse ws = inuse (pagerefs_inuse h) - {k}"
proof -
  have k: "k < 256" "bit (pagerefs_inuse h ! (k div 32)) (k mod 32)" using assms(2) by (auto simp: inuse_def)
  let ?ws = "(pagerefs_inuse h)[k div 32 := pagerefs_inuse h ! (k div 32) AND NOT (prmask (k mod 32))]"
  have d: "k div 32 < 8" "k mod 32 < 32" using k by simp_all
  have "freepageref k h = Some (h\<lparr>pagerefs_inuse := ?ws\<rparr>)"
    using k and_prmask_eq_0 [OF d(2), of "pagerefs_inuse h ! (k div 32)"] by (simp add: freepageref_def Let_def)
  moreover have "inuse ?ws = inuse (pagerefs_inuse h) - {k}" using inuse_set(2) [OF assms(1) d] by simp
  ultimately show ?thesis using assms(1) by (intro exI [of _ ?ws]) simp
qed

section \<open>Taking a block off a page\<close>

lemma pageref_fields [simp]:
  "PR_PAGEADDR (pr\<lparr>nfree := n\<rparr>) = PR_PAGEADDR pr" "PR_BLOCKTYPE (pr\<lparr>nfree := n\<rparr>) = PR_BLOCKTYPE pr"
  "PR_PAGEADDR (pr\<lparr>freelist_offset := o'\<rparr>) = PR_PAGEADDR pr" "PR_BLOCKTYPE (pr\<lparr>freelist_offset := o'\<rparr>) = PR_BLOCKTYPE pr"
  "PR_PAGEADDR (pr\<lparr>next_all := x\<rparr>) = PR_PAGEADDR pr" "PR_BLOCKTYPE (pr\<lparr>next_all := x\<rparr>) = PR_BLOCKTYPE pr"
  "PR_PAGEADDR (pr\<lparr>next_samesize := x\<rparr>) = PR_PAGEADDR pr" "PR_BLOCKTYPE (pr\<lparr>next_samesize := x\<rparr>) = PR_BLOCKTYPE pr"
  by (simp_all add: PR_PAGEADDR_def PR_BLOCKTYPE_def)

lemma on_block_cong:
  "PR_PAGEADDR p = PR_PAGEADDR q \<Longrightarrow> PR_BLOCKTYPE p = PR_BLOCKTYPE q \<Longrightarrow> on_block p = on_block q \<and> on_page p = on_page q"
  by (auto simp: on_block_def on_page_def fun_eq_iff)

lemma doalloc_ok:
  assumes i: "i < length (pagerefs h)" and ok: "page_ok (kmemory h) (pagerefs h ! i) (x # fs)"
  shows "\<exists>p'. subpage_doalloc i h = Some (x, h\<lparr>pagerefs := (pagerefs h)[i := p']\<rparr>) \<and> page_ok (kmemory h) p' fs \<and>
    next_all p' = next_all (pagerefs h ! i) \<and> next_samesize p' = next_samesize (pagerefs h ! i) \<and>
    pageaddr_and_blocktype p' = pageaddr_and_blocktype (pagerefs h ! i)"
proof -
  let ?p = "pagerefs h ! i" and ?m = "kmemory h"
  let ?off = "if fs = [] then INVALID_OFFSET else hd fs - PR_PAGEADDR ?p"
  let ?p' = "?p\<lparr>nfree := length fs, freelist_offset := ?off\<rparr>"
  have b: "0 < PR_PAGEADDR ?p" "PR_PAGEADDR ?p + 4096 < 2 ^ 32" "on_page ?p x" "\<forall>y \<in> set fs. on_page ?p y"
    and off: "freelist_offset ?p = x - PR_PAGEADDR ?p" and n: "nfree ?p = Suc (length fs)" and mx: "?m x = head_addr fs"
    using ok by (auto simp: page_ok_def on_block_def)
  then have x: "PR_PAGEADDR ?p \<le> x" "x < PR_PAGEADDR ?p + 4096" "x < 2 ^ 32" by (auto simp: on_page_def)
  have len: "Suc (length fs) \<le> 4096 div bsize ?p" using free_count(1) [OF ok] by simp
  also have "\<dots> \<le> 4096" by simp
  finally have small: "(Suc (length fs) + 65535) mod 2 ^ 16 = length fs" by simp
  have a: "c_uint (PR_PAGEADDR ?p + freelist_offset ?p) = x" using x off by (simp add: c_uint_id)
  have "subpage_doalloc i h = Some (x, h\<lparr>pagerefs := (pagerefs h)[i := ?p']\<rparr>)"
  proof (cases fs)
    case Nil
    then show ?thesis using i x a off n mx small by (simp add: subpage_doalloc_def pr_at_def pr_upd_def Let_def)
  next
    case (Cons y ys)
    then have y: "PR_PAGEADDR ?p \<le> y" "y < PR_PAGEADDR ?p + 4096" using b(4) by (auto simp: on_page_def)
    then have "c_usub y (PR_PAGEADDR ?p) = y - PR_PAGEADDR ?p" using b by (intro c_usub_id) simp_all
    moreover have "x - PR_PAGEADDR ?p < 4096" "y - PR_PAGEADDR ?p < 4096" using x y by linarith+
    ultimately show ?thesis using Cons i y(1) a off n mx small b(1) by (simp add: subpage_doalloc_def pr_at_def pr_upd_def Let_def)
  qed
  moreover have "page_ok ?m ?p' fs" using ok by (cases fs) (auto simp: page_ok_def on_block_def on_page_def)
  ultimately show ?thesis by (intro exI [of _ ?p']) simp
qed

section \<open>A new page\<close>

text \<open>The blocks \<open>n - 1, ..., 0\<close> of a page: the free list of a new page.\<close>

definition fresh_list :: "nat \<Rightarrow> nat \<Rightarrow> nat \<Rightarrow> nat list" where
  "fresh_list base sz n = rev (map (\<lambda>k. base + k * sz) [0..<n])"

lemma fresh_list_simps:
  "fresh_list base sz 0 = []" "fresh_list base sz (Suc n) = (base + n * sz) # fresh_list base sz n"
  by (simp_all add: fresh_list_def)

lemma fresh_list_set: "set (fresh_list base sz n) = (\<lambda>k. base + k * sz) ` {..<n}"
  by (auto simp: fresh_list_def)

lemma link_blocks_ok:
  assumes "0 < sz" "base + Suc n * sz \<le> 2 ^ 32"
  shows "\<exists>m'. link_blocks base sz n m = Some (base + n * sz, m') \<and> flist m' (fresh_list base sz (Suc n)) \<and>
    (\<forall>a. a \<notin> set (fresh_list base sz (Suc n)) \<longrightarrow> m' a = m a)"
  using assms(2)
proof (induction n)
  case 0
  then show ?case by (simp add: fresh_list_simps)
next
  case (Suc n)
  then obtain m1 where m1: "link_blocks base sz n m = Some (base + n * sz, m1)" "flist m1 (fresh_list base sz (Suc n))"
    "\<forall>a. a \<notin> set (fresh_list base sz (Suc n)) \<longrightarrow> m1 a = m a" by auto
  let ?m = "m1(base + Suc n * sz := base + n * sz)"
  have u: "c_uint (base + Suc n * sz) = base + Suc n * sz" "c_uint (base + n * sz) = base + n * sz"
    using Suc.prems assms(1) by (auto intro!: c_uint_id)
  have new: "base + Suc n * sz \<notin> set (fresh_list base sz (Suc n))"
    using assms(1) by (auto simp: fresh_list_set simp del: mult_Suc)
  have "link_blocks base sz (Suc n) m = Some (base + Suc n * sz, ?m)" using m1(1) u assms(1) by (simp add: Let_def del: mult_Suc)
  moreover have "flist ?m (fresh_list base sz (Suc (Suc n)))"
    using m1(2) new flist_cong [of "fresh_list base sz (Suc n)" ?m m1]
    by (simp add: fresh_list_simps(2) [of base sz "Suc n"] del: mult_Suc) (simp add: fresh_list_simps)
  moreover have "\<forall>a. a \<notin> set (fresh_list base sz (Suc (Suc n))) \<longrightarrow> ?m a = m a"
    using m1(3) by (simp add: fresh_list_simps(2) [of base sz "Suc n"] del: mult_Suc)
  ultimately show ?case by blast
qed

section \<open>The lists of pages\<close>

definition pages_ok :: "'p kheap \<Rightarrow> nat list \<Rightarrow> bool" where
  "pages_ok h all \<longleftrightarrow> length (pagerefs h) = NPAGEREFS \<and> length (sizebases h) = NSIZES \<and>
     chain (\<lambda>i. next_all (pagerefs h ! i)) (allbase h) all \<and> distinct all \<and> (\<forall>i \<in> set all. i < NPAGEREFS) \<and>
     (\<forall>t < NSIZES. chain (\<lambda>i. next_samesize (pagerefs h ! i)) (sizebases h ! t)
        (filter (\<lambda>i. PR_BLOCKTYPE (pagerefs h ! i) = t) all))"

lemma search_ok:
  assumes "chain (\<lambda>i. next_samesize (pagerefs h ! i)) p xs"
    "\<forall>i \<in> set xs. i < length (pagerefs h) \<and> PR_BLOCKTYPE (pagerefs h ! i) = t"
  shows "subpage_search t h p = Some (find (\<lambda>i. nfree (pagerefs h ! i) > 0) xs)"
  using assms
proof (induction xs arbitrary: p)
  case Nil
  then show ?case by (simp add: subpage_search.simps)
next
  case (Cons x xs)
  then show ?case by (subst subpage_search.simps) (simp add: pr_at_def)
qed

lemma page_search_ok:
  assumes "chain (\<lambda>i. next_all (pagerefs h ! i)) p xs"
    "\<forall>i \<in> set xs. i < length (pagerefs h) \<and> page_ok (kmemory h) (pagerefs h ! i) (FL i)"
  shows "page_search a h p = Some (find (\<lambda>i. on_page (pagerefs h ! i) a) xs)"
  using assms
proof (induction xs arbitrary: p)
  case Nil
  then show ?case by (simp add: page_search.simps)
next
  case (Cons x xs)
  then have "PR_BLOCKTYPE (pagerefs h ! x) < 8" "c_uint (PR_PAGEADDR (pagerefs h ! x) + 4096) = PR_PAGEADDR (pagerefs h ! x) + 4096"
    by (auto simp: page_ok_def intro!: c_uint_id)
  then show ?case using Cons by (subst page_search.simps) (simp add: pr_at_def on_page_def)
qed

text \<open>Taking an element out of a list means one new next pointer.\<close>

lemma chain_prefix: "chain f p (ys @ zs) \<Longrightarrow> ys \<noteq> [] \<Longrightarrow> chain f (f (last ys)) zs"
  by (induction ys arbitrary: p) (auto split: if_splits)

lemma chain_append: "chain f p (ys @ x # zs) \<Longrightarrow> ys \<noteq> [] \<Longrightarrow> f (last ys) = Some x"
  using chain_prefix [of f p ys "x # zs"] by simp

lemma chain_remove:
  assumes "chain f p (ys @ x # zs)" "distinct (ys @ x # zs)" "ys \<noteq> []"
  shows "chain (f(last ys := f x)) p (ys @ zs)"
  using assms
proof (induction ys arbitrary: p)
  case (Cons y ys)
  then show ?case
  proof (cases "ys = []")
    case True
    then have z: "\<forall>a \<in> set zs. (f(y := f x)) a = f a" using Cons.prems by auto
    show ?thesis using True Cons.prems chain_cong [OF z, of "f x"] by (simp del: fun_upd_apply) simp
  next
    case False
    then have "y \<noteq> last ys" using Cons.prems by auto
    then show ?thesis using Cons False by simp
  qed
qed simp

lemma unlink_all_ok:
  assumes "chain (\<lambda>i. next_all (pagerefs h ! i)) (case guy of None \<Rightarrow> allbase h | Some g \<Rightarrow> next_all (pagerefs h ! g)) (ys @ x # zs)"
    "\<forall>i \<in> set (ys @ x # zs). i < length (pagerefs h)" "x \<notin> set ys"
  shows "unlink_all x guy h = Some (case (if ys = [] then guy else Some (last ys)) of
      None \<Rightarrow> h\<lparr>allbase := next_all (pagerefs h ! x)\<rparr>
    | Some g \<Rightarrow> pr_upd g (\<lambda>q. q\<lparr>next_all := next_all (pagerefs h ! x)\<rparr>) h)"
  using assms
proof (induction ys arbitrary: guy)
  case Nil
  then show ?case by (subst unlink_all.simps) (simp add: pr_at_def Let_def)
next
  case (Cons y ys)
  then show ?case by (subst unlink_all.simps) (simp add: pr_at_def Let_def)
qed

lemma unlink_samesize_ok:
  assumes "chain (\<lambda>i. next_samesize (pagerefs h ! i)) (case guy of None \<Rightarrow> sizebases h ! t | Some g \<Rightarrow> next_samesize (pagerefs h ! g)) (ys @ x # zs)"
    "\<forall>i \<in> set (ys @ x # zs). i < length (pagerefs h)" "x \<notin> set ys"
  shows "unlink_samesize x t guy h = Some (case (if ys = [] then guy else Some (last ys)) of
      None \<Rightarrow> h\<lparr>sizebases := (sizebases h)[t := next_samesize (pagerefs h ! x)]\<rparr>
    | Some g \<Rightarrow> pr_upd g (\<lambda>q. q\<lparr>next_samesize := next_samesize (pagerefs h ! x)\<rparr>) h)"
  using assms
proof (induction ys arbitrary: guy)
  case Nil
  then show ?case by (subst unlink_samesize.simps) (simp add: pr_at_def Let_def)
next
  case (Cons y ys)
  then show ?case by (subst unlink_samesize.simps) (simp add: pr_at_def Let_def)
qed

text \<open>What removal leaves alone.\<close>

definition same_pages :: "'p kheap \<Rightarrow> 'p kheap \<Rightarrow> bool" where
  "same_pages h h' \<longleftrightarrow> kmemory h' = kmemory h \<and> pagerefs_inuse h' = pagerefs_inuse h \<and> kpages h' = kpages h \<and>
     (\<forall>j < NPAGEREFS. pageaddr_and_blocktype (pagerefs h' ! j) = pageaddr_and_blocktype (pagerefs h ! j) \<and>
        freelist_offset (pagerefs h' ! j) = freelist_offset (pagerefs h ! j) \<and> nfree (pagerefs h' ! j) = nfree (pagerefs h ! j))"

lemma pr_upd_fields [simp]:
  "kmemory (pr_upd i f h) = kmemory h" "pagerefs_inuse (pr_upd i f h) = pagerefs_inuse h" "kpages (pr_upd i f h) = kpages h"
  "sizebases (pr_upd i f h) = sizebases h" "allbase (pr_upd i f h) = allbase h" "length (pagerefs (pr_upd i f h)) = length (pagerefs h)"
  by (simp_all add: pr_upd_def)

lemma pr_upd_nth: "j < length (pagerefs h) \<Longrightarrow> pagerefs (pr_upd i f h) ! j = (if j = i then f (pagerefs h ! i) else pagerefs h ! j)"
  by (auto simp: pr_upd_def nth_list_update)

lemma unlink_all_pages:
  assumes len: "length (pagerefs h) = NPAGEREFS" and ch: "chain (\<lambda>i. next_all (pagerefs h ! i)) (allbase h) all"
    and d: "distinct all" and lt: "\<forall>i \<in> set all. i < NPAGEREFS" and x: "x \<in> set all"
  shows "\<exists>h'. unlink_all x None h = Some h' \<and> same_pages h h' \<and> sizebases h' = sizebases h \<and>
    length (pagerefs h') = NPAGEREFS \<and> (\<forall>j < NPAGEREFS. next_samesize (pagerefs h' ! j) = next_samesize (pagerefs h ! j)) \<and>
    chain (\<lambda>i. next_all (pagerefs h' ! i)) (allbase h') (remove1 x all)"
proof -
  obtain ys zs where e: "all = ys @ x # zs" "x \<notin> set ys" using x by (meson split_list_first)
  let ?f = "\<lambda>i. next_all (pagerefs h ! i)"
  have c: "chain ?f (allbase h) (ys @ x # zs)" "distinct (ys @ x # zs)" "\<forall>i \<in> set (ys @ x # zs). i < length (pagerefs h)"
    "length (pagerefs h) = 256" using len ch d lt e by auto
  have rem: "remove1 x all = ys @ zs" using e by (simp add: remove1_append)
  show ?thesis
  proof (cases "ys = []")
    case True
    then show ?thesis using unlink_all_ok [of h None ys x zs] c e rem
      by (intro exI [of _ "h\<lparr>allbase := next_all (pagerefs h ! x)\<rparr>"]) (simp add: same_pages_def)
  next
    case False
    let ?h = "pr_upd (last ys) (\<lambda>q. q\<lparr>next_all := ?f x\<rparr>) h"
    have "chain (\<lambda>i. next_all (pagerefs ?h ! i)) (allbase ?h) (ys @ zs)"
      using chain_remove [OF c(1,2) False] c(3) chain_cong [of "ys @ zs" "\<lambda>i. next_all (pagerefs ?h ! i)" "?f(last ys := ?f x)" "allbase h"]
      by (simp add: pr_upd_nth)
    then show ?thesis using unlink_all_ok [of h None ys x zs] c e rem False
      by (intro exI [of _ ?h]) (simp add: same_pages_def pr_upd_nth)
  qed
qed

lemma unlink_samesize_pages:
  assumes ok: "pages_ok h all" and x: "x \<in> set all" and t: "t < NSIZES" "PR_BLOCKTYPE (pagerefs h ! x) = t"
  shows "\<exists>h'. unlink_samesize x t None h = Some h' \<and> same_pages h h' \<and> allbase h' = allbase h \<and>
    length (pagerefs h') = NPAGEREFS \<and> length (sizebases h') = NSIZES \<and>
    (\<forall>j < NPAGEREFS. next_all (pagerefs h' ! j) = next_all (pagerefs h ! j)) \<and>
    (\<forall>u < NSIZES. chain (\<lambda>i. next_samesize (pagerefs h' ! i)) (sizebases h' ! u)
       (filter (\<lambda>i. PR_BLOCKTYPE (pagerefs h ! i) = u) (remove1 x all)))"
proof -
  let ?P = "\<lambda>u i. PR_BLOCKTYPE (pagerefs h ! i) = u" and ?f = "\<lambda>i. next_samesize (pagerefs h ! i)"
  have "x \<in> set (filter (?P t) all)" using x t by simp
  then obtain ys zs where e: "filter (?P t) all = ys @ x # zs" "x \<notin> set ys" by (meson split_list_first)
  have len: "length (pagerefs h) = 256" "length (sizebases h) = 8" and d: "distinct all" and lt: "\<forall>i \<in> set all. i < 256"
    and ch: "\<forall>u < 8. chain ?f (sizebases h ! u) (filter (?P u) all)"
    using ok by (auto simp: pages_ok_def)
  have set: "set (ys @ x # zs) = {i \<in> set all. ?P t i}" using e(1) by (metis set_filter)
  have c: "chain ?f (sizebases h ! t) (ys @ x # zs)" "distinct (ys @ x # zs)" "\<forall>i \<in> set (ys @ x # zs). i < length (pagerefs h)"
    subgoal using ch t(1) e(1) by metis
    subgoal using distinct_filter [OF d, of "?P t"] unfolding e(1) .
    using lt len set by auto
  have rem: "filter (?P u) (remove1 x all) = (if u = t then ys @ zs else filter (?P u) all)" for u
    using e t(2) by (simp add: filter_remove1 remove1_append remove1_idem)
  show ?thesis
  proof (cases "ys = []")
    case True
    then show ?thesis using unlink_samesize_ok [of h t None ys x zs] c len rem ch
      by (intro exI [of _ "h\<lparr>sizebases := (sizebases h)[t := ?f x]\<rparr>"]) (simp add: same_pages_def nth_list_update)
  next
    case False
    let ?h = "pr_upd (last ys) (\<lambda>q. q\<lparr>next_samesize := ?f x\<rparr>) h"
    have "chain (\<lambda>i. next_samesize (pagerefs ?h ! i)) (sizebases h ! t) (ys @ zs)"
      using chain_remove [OF c(1,2) False] c(3) chain_cong [of "ys @ zs" "\<lambda>i. next_samesize (pagerefs ?h ! i)" "?f(last ys := ?f x)" "sizebases h ! t"]
      by (simp add: pr_upd_nth)
    moreover have "chain (\<lambda>i. next_samesize (pagerefs ?h ! i)) (sizebases h ! u) (filter (?P u) all)" if "u < 8" "u \<noteq> t" for u
    proof -
      have "last ys \<in> set (ys @ x # zs)" using last_in_set [OF False] by simp
      then have "last ys \<in> set all" "?P t (last ys)" unfolding set by simp_all
      then have "\<forall>i \<in> set (filter (?P u) all). next_samesize (pagerefs ?h ! i) = ?f i" using that lt len by (simp add: pr_upd_nth)
      from chain_cong [OF this] show ?thesis using ch that by simp
    qed
    ultimately show ?thesis using unlink_samesize_ok [of h t None ys x zs] c len rem False
      by (intro exI [of _ ?h]) (simp add: same_pages_def pr_upd_nth)
  qed
qed

lemma same_pages_fields:
  assumes "same_pages h h'" "j < NPAGEREFS"
  shows "PR_PAGEADDR (pagerefs h' ! j) = PR_PAGEADDR (pagerefs h ! j)" "PR_BLOCKTYPE (pagerefs h' ! j) = PR_BLOCKTYPE (pagerefs h ! j)"
    "on_page (pagerefs h' ! j) = on_page (pagerefs h ! j)" "on_block (pagerefs h' ! j) = on_block (pagerefs h ! j)"
    "page_ok m (pagerefs h' ! j) fs = page_ok m (pagerefs h ! j) fs"
proof -
  show p: "PR_PAGEADDR (pagerefs h' ! j) = PR_PAGEADDR (pagerefs h ! j)" "PR_BLOCKTYPE (pagerefs h' ! j) = PR_BLOCKTYPE (pagerefs h ! j)"
    using assms by (simp_all add: same_pages_def PR_PAGEADDR_def PR_BLOCKTYPE_def)
  from on_block_cong [OF this] show q: "on_page (pagerefs h' ! j) = on_page (pagerefs h ! j)"
    "on_block (pagerefs h' ! j) = on_block (pagerefs h ! j)" by simp_all
  show "page_ok m (pagerefs h' ! j) fs = page_ok m (pagerefs h ! j) fs"
    using assms by (simp add: page_ok_def p q same_pages_def)
qed

lemma remove_lists_ok:
  assumes ok: "pages_ok h all" and x: "x \<in> set all" and t: "t < NSIZES" "PR_BLOCKTYPE (pagerefs h ! x) = t"
  shows "\<exists>h'. remove_lists x t h = Some h' \<and> same_pages h h' \<and> pages_ok h' (remove1 x all)"
proof -
  let ?ch = "\<lambda>h p u. chain (\<lambda>i. next_samesize (pagerefs h ! i)) (sizebases h ! u) (filter (\<lambda>i. PR_BLOCKTYPE (pagerefs p ! i) = u) (remove1 x all))"
  have lt: "\<forall>i \<in> set all. i < 256" and d: "distinct all" using ok by (auto simp: pages_ok_def)
  obtain h1 where h1: "unlink_samesize x t None h = Some h1" "same_pages h h1" "allbase h1 = allbase h"
    "length (pagerefs h1) = NPAGEREFS" "length (sizebases h1) = NSIZES"
    "\<forall>j < NPAGEREFS. next_all (pagerefs h1 ! j) = next_all (pagerefs h ! j)" "\<forall>u < NSIZES. ?ch h1 h u"
    using unlink_samesize_pages [OF assms] by blast
  have "chain (\<lambda>i. next_all (pagerefs h1 ! i)) (allbase h1) all"
    using ok h1(3,6) lt chain_cong [of all "\<lambda>i. next_all (pagerefs h1 ! i)" "\<lambda>i. next_all (pagerefs h ! i)" "allbase h"]
    by (auto simp: pages_ok_def)
  from unlink_all_pages [OF h1(4) this d lt x] obtain h2 where h2: "unlink_all x None h1 = Some h2" "same_pages h1 h2"
    "sizebases h2 = sizebases h1" "length (pagerefs h2) = NPAGEREFS"
    "\<forall>j < NPAGEREFS. next_samesize (pagerefs h2 ! j) = next_samesize (pagerefs h1 ! j)"
    "chain (\<lambda>i. next_all (pagerefs h2 ! i)) (allbase h2) (remove1 x all)" by blast
  have same: "same_pages h h2" using h1(2) h2(2) by (auto simp: same_pages_def)
  have lt': "\<forall>i \<in> set (remove1 x all). i < 256" using lt set_remove1_subset [of x all] by blast
  have "filter (\<lambda>i. PR_BLOCKTYPE (pagerefs h2 ! i) = u) (remove1 x all) = filter (\<lambda>i. PR_BLOCKTYPE (pagerefs h ! i) = u) (remove1 x all)" for u
    by (rule filter_cong [OF refl]) (use lt' same_pages_fields(2) [OF same] in simp)
  moreover have "chain (\<lambda>i. next_samesize (pagerefs h2 ! i)) p (filter P (remove1 x all)) = chain (\<lambda>i. next_samesize (pagerefs h1 ! i)) p (filter P (remove1 x all))" for p P
    by (rule chain_cong) (use lt' h2(5) in simp)
  ultimately have "pages_ok h2 (remove1 x all)" using h2 h1(5,7) d lt' by (simp add: pages_ok_def)
  then show ?thesis using same h1(1) h2(1) t(1) by (simp add: remove_lists_def)
qed

end
