(* ===== verification/Kheap_Props.thy ===== *)
theory Kheap_Props
  imports Kheap_Inv
begin

text \<open>
  The heap as a map from addresses to the sizes of the blocks that are out.  \<open>heap holds h G\<close> says that the state \<open>h\<close>
  of the heap is well formed and that exactly the blocks of \<open>G\<close> are out, where \<open>holds\<close> is what the page
  allocator promises.  The operations are related to it once, in the interface of the page allocator.
\<close>

section \<open>The blocks that are out\<close>

definition heap_ok :: "'p kheap \<Rightarrow> nat list \<Rightarrow> (nat \<Rightarrow> nat list) \<Rightarrow> bool" where
  "heap_ok h all FL \<longleftrightarrow> pages_ok h all \<and> length (pagerefs_inuse h) = INUSE_WORDS \<and> inuse (pagerefs_inuse h) = set all \<and>
     (\<forall>i \<in> set all. page_ok (kmemory h) (pagerefs h ! i) (FL i))"

definition page_runs :: "'p kheap \<Rightarrow> nat list \<Rightarrow> nat \<rightharpoonup> nat" where
  "page_runs h all a = (if a \<in> (\<lambda>i. PR_PAGEADDR (pagerefs h ! i)) ` set all then Some 1 else None)"

definition blocks :: "'p kheap \<Rightarrow> nat list \<Rightarrow> (nat \<Rightarrow> nat list) \<Rightarrow> (nat \<rightharpoonup> nat) \<Rightarrow> nat \<rightharpoonup> nat" where
  "blocks h all FL B a = (case find (\<lambda>i. on_page (pagerefs h ! i) a) all of
     Some i \<Rightarrow> if on_block (pagerefs h ! i) a \<and> a \<notin> set (FL i) then Some (bsize (pagerefs h ! i)) else None
   | None \<Rightarrow> map_option (\<lambda>n. n * PAGE_SIZE) (B a))"

definition heap_repr :: "('p \<Rightarrow> (nat \<rightharpoonup> nat) \<Rightarrow> bool) \<Rightarrow> 'p kheap \<Rightarrow> nat list \<Rightarrow> (nat \<Rightarrow> nat list) \<Rightarrow> (nat \<rightharpoonup> nat) \<Rightarrow> bool" where
  "heap_repr holds h all FL B \<longleftrightarrow> heap_ok h all FL \<and> inj_on (\<lambda>i. PR_PAGEADDR (pagerefs h ! i)) (set all) \<and>
     dom B \<inter> dom (page_runs h all) = {} \<and> holds (kpages h) (B ++ page_runs h all)"

definition heap :: "('p \<Rightarrow> (nat \<rightharpoonup> nat) \<Rightarrow> bool) \<Rightarrow> 'p kheap \<Rightarrow> (nat \<rightharpoonup> nat) \<Rightarrow> bool" where
  "heap holds h G \<longleftrightarrow> (\<exists>all FL B. heap_repr holds h all FL B \<and> G = blocks h all FL B)"

lemma heap_okD:
  assumes "heap_ok h all FL"
  shows "pages_ok h all" "length (pagerefs_inuse h) = INUSE_WORDS" "inuse (pagerefs_inuse h) = set all"
    "i \<in> set all \<Longrightarrow> page_ok (kmemory h) (pagerefs h ! i) (FL i)" "i \<in> set all \<Longrightarrow> i < NPAGEREFS"
    "length (pagerefs h) = NPAGEREFS" "i \<in> set all \<Longrightarrow> PR_BLOCKTYPE (pagerefs h ! i) < NSIZES" "distinct all"
  using assms by (auto simp: heap_ok_def pages_ok_def page_ok_def)

text \<open>Blocks lie in their page and apart from each other.\<close>

lemma block_in_page:
  assumes "on_block pr a" "PR_BLOCKTYPE pr < NSIZES"
  shows "PR_PAGEADDR pr \<le> a" "a + bsize pr \<le> PR_PAGEADDR pr + PAGE_SIZE"
proof -
  let ?s = "bsize pr"
  obtain k where k: "a = PR_PAGEADDR pr + k * ?s" "k < 4096 div ?s" using assms page_blocks(1) [OF assms(2)] by blast
  have "Suc k * ?s \<le> 4096 div ?s * ?s" using k(2) by (intro mult_le_mono1) simp
  also have "\<dots> = 4096" using sizes_bounds(1) [OF assms(2)] by simp
  finally show "PR_PAGEADDR pr \<le> a" "a + bsize pr \<le> PR_PAGEADDR pr + PAGE_SIZE" using k(1) by simp_all
qed

lemma blocks_apart:
  assumes "on_block pr a" "on_block pr b" "PR_BLOCKTYPE pr < NSIZES" "a \<noteq> b"
  shows "{a..<a + bsize pr} \<inter> {b..<b + bsize pr} = {}"
proof -
  let ?s = "bsize pr"
  obtain j k where jk: "a = PR_PAGEADDR pr + j * ?s" "b = PR_PAGEADDR pr + k * ?s"
    using assms(1,2) page_blocks(1) [OF assms(3)] by blast
  have "a + ?s \<le> b" if "j < k"
  proof -
    have "Suc j * ?s \<le> k * ?s" using that by (intro mult_le_mono1) simp
    then show ?thesis using jk by simp
  qed
  moreover have "b + ?s \<le> a" if "k < j"
  proof -
    have "Suc k * ?s \<le> j * ?s" using that by (intro mult_le_mono1) simp
    then show ?thesis using jk by simp
  qed
  moreover have "j \<noteq> k" using assms(4) jk by auto
  ultimately show ?thesis by (cases "j < k") auto
qed

section \<open>Changing one page\<close>

lemma chain_upd:
  "chain f p xs \<Longrightarrow> (\<forall>i \<in> set xs. g i = f i) \<Longrightarrow> chain g p xs"
  using chain_cong [of xs g f p] by simp

lemma heap_ok_upd:
  assumes ok: "heap_ok h all FL" and i: "i \<in> set all" and new: "page_ok m p fs"
    and same: "next_all p = next_all (pagerefs h ! i)" "next_samesize p = next_samesize (pagerefs h ! i)"
      "pageaddr_and_blocktype p = pageaddr_and_blocktype (pagerefs h ! i)"
    and m: "\<And>j a. j \<in> set all \<Longrightarrow> j \<noteq> i \<Longrightarrow> on_page (pagerefs h ! j) a \<Longrightarrow> m a = kmemory h a"
  shows "heap_ok (h\<lparr>pagerefs := (pagerefs h)[i := p], kmemory := m\<rparr>) all (FL(i := fs))" (is "heap_ok ?h _ _")
proof -
  note D = heap_okD [OF ok]
  have nth: "pagerefs ?h ! j = (if j = i then p else pagerefs h ! j)" if "j \<in> set all" for j
    using D(5) [OF that] D(6) by (simp add: nth_list_update)
  have bt: "PR_BLOCKTYPE p = PR_BLOCKTYPE (pagerefs h ! i)" using same(3) by (simp add: PR_BLOCKTYPE_def)
  have f: "filter (\<lambda>j. PR_BLOCKTYPE (pagerefs ?h ! j) = t) all = filter (\<lambda>j. PR_BLOCKTYPE (pagerefs h ! j) = t) all" for t
    by (rule filter_cong [OF refl]) (use nth bt in simp)
  have "chain (\<lambda>j. next_all (pagerefs ?h ! j)) (allbase h) all"
    by (rule chain_upd [of "\<lambda>j. next_all (pagerefs h ! j)"]) (use D(1) nth same in \<open>auto simp: pages_ok_def\<close>)
  moreover have "chain (\<lambda>j. next_samesize (pagerefs ?h ! j)) (sizebases h ! t) (filter (\<lambda>j. PR_BLOCKTYPE (pagerefs h ! j) = t) all)"
    if "t < 8" for t
    by (rule chain_upd [of "\<lambda>j. next_samesize (pagerefs h ! j)"]) (use D(1) nth same that in \<open>auto simp: pages_ok_def\<close>)
  ultimately have "pages_ok ?h all" using D(1) f by (simp add: pages_ok_def)
  moreover have "page_ok m (pagerefs ?h ! j) ((FL(i := fs)) j)" if "j \<in> set all" for j
    using nth [OF that] new page_ok_frame [OF D(4) [OF that], of m] m [OF that] by simp
  ultimately show ?thesis using D(2,3) by (simp add: heap_ok_def)
qed

text \<open>A new page goes to the front of the lists.\<close>

lemma heap_ok_cons:
  assumes ok: "heap_ok h all FL" and i: "i < NPAGEREFS" "i \<notin> set all" and new: "page_ok m p fs"
    and p: "PR_BLOCKTYPE p = t" "t < NSIZES" "next_all p = allbase h" "next_samesize p = sizebases h ! t"
    and ws: "length ws = INUSE_WORDS" "inuse ws = insert i (set all)"
    and m: "\<And>j a. j \<in> set all \<Longrightarrow> on_page (pagerefs h ! j) a \<Longrightarrow> m a = kmemory h a"
  shows "heap_ok (h\<lparr>pagerefs_inuse := ws, kpages := kp, pagerefs := (pagerefs h)[i := p], sizebases := (sizebases h)[t := Some i],
      allbase := Some i, kmemory := m\<rparr>) (i # all) (FL(i := fs))" (is "heap_ok ?h _ _")
proof -
  note D = heap_okD [OF ok]
  let ?P = "\<lambda>g t j. PR_BLOCKTYPE (pagerefs g ! j) = t"
  have len: "length (pagerefs h) = 256" "length (sizebases h) = 8" using D(1) by (simp_all add: pages_ok_def)
  have nth: "pagerefs ?h ! j = pagerefs h ! j" if "j \<in> set all" for j using that i(2) by (cases "j = i") auto
  have nthi: "pagerefs ?h ! i = p" using i len by simp
  have f: "filter (?P ?h u) all = filter (?P h u) all" for u by (rule filter_cong [OF refl]) (use nth in simp)
  have "chain (\<lambda>j. next_all (pagerefs ?h ! j)) (allbase h) all"
    by (rule chain_upd [of "\<lambda>j. next_all (pagerefs h ! j)"]) (use D(1) nth in \<open>auto simp: pages_ok_def\<close>)
  then have c1: "chain (\<lambda>j. next_all (pagerefs ?h ! j)) (Some i) (i # all)" using nthi p(3) by simp
  have c2: "chain (\<lambda>j. next_samesize (pagerefs ?h ! j)) (sizebases h ! u) (filter (?P h u) all)" if "u < 8" for u
    by (rule chain_upd [of "\<lambda>j. next_samesize (pagerefs h ! j)"]) (use D(1) nth that in \<open>auto simp: pages_ok_def\<close>)
  have c3: "chain (\<lambda>j. next_samesize (pagerefs ?h ! j)) (sizebases ?h ! u) (filter (?P ?h u) (i # all))" if "u < 8" for u
    using c2 [OF that] c2 [OF p(2)] nthi p f len that by (simp add: nth_list_update)
  have "pages_ok ?h (i # all)" unfolding pages_ok_def using D(1,5,8) i c1 c3 len by (simp del: chain.simps filter.simps)
  moreover have "page_ok m (pagerefs ?h ! j) ((FL(i := fs)) j)" if "j \<in> set (i # all)" for j
  proof (cases "j = i")
    case False
    then have j: "j \<in> set all" using that by simp
    show ?thesis using page_ok_frame [OF D(4) [OF j], of m] m [OF j] nth [OF j] False by simp
  qed (use nthi new in simp)
  ultimately show ?thesis using ws by (simp add: heap_ok_def)
qed

text \<open>
  What an allocation of \<open>sz\<close> bytes may do to a heap with blocks \<open>G\<close>: it fails and leaves the blocks, or it puts out one
  more block that is large enough; the contents of the blocks that are out stay.
\<close>

definition malloced :: "('p \<Rightarrow> (nat \<rightharpoonup> nat) \<Rightarrow> bool) \<Rightarrow> 'p kheap \<Rightarrow> (nat \<rightharpoonup> nat) \<Rightarrow> nat \<Rightarrow> nat \<Rightarrow> 'p kheap \<Rightarrow> bool" where
  "malloced holds h G sz a h' \<longleftrightarrow>
     (if a = 0 then heap holds h' G else \<exists>s. sz \<le> s \<and> G a = None \<and> heap holds h' (G(a \<mapsto> s))) \<and>
     (\<forall>b s. G b = Some s \<longrightarrow> (\<forall>x \<in> {b..<b + s}. kmemory h' x = kmemory h x))"

lemma heapI: "heap_repr holds h all FL B \<Longrightarrow> blocks h all FL B = G \<Longrightarrow> heap holds h G"
  unfolding heap_def by metis

lemma fill_deadbeef_frame: "x \<notin> {ptr..<ptr + 4 * n} \<Longrightarrow> fill_deadbeef ptr n m x = m x"
  by (induction n) auto

text \<open>A block that is put back goes to the front of the free list of its page.\<close>

lemma put_back:
  assumes pg: "page_ok m pr fs" and a: "on_block pr a" "a \<notin> set fs"
    and m': "m' = (fill_deadbeef a (bsize pr div 4) m)(a := head_addr fs)"
  shows "page_ok m' (pr\<lparr>freelist_offset := a - PR_PAGEADDR pr, nfree := Suc (length fs)\<rparr>) (a # fs)" (is "page_ok m' ?p _")
    and "x \<notin> {a..<a + bsize pr} \<Longrightarrow> m' x = m x"
proof -
  have t: "PR_BLOCKTYPE pr < NSIZES" using pg by (simp add: page_ok_def)
  have s: "4 * (bsize pr div 4) = bsize pr" "16 \<le> bsize pr" using sizes_bounds(2,4) [OF t] by simp_all
  show same: "m' x = m x" if "x \<notin> {a..<a + bsize pr}" for x
    using that fill_deadbeef_frame [of x a "bsize pr div 4" m] s unfolding m' by auto
  have "m' x = m x" if "x \<in> set fs" for x
  proof (rule same)
    have "on_block pr x" "x \<noteq> a" using that pg a(2) by (auto simp: page_ok_def)
    from blocks_apart [OF a(1) this(1) t] this(2) s(2) show "x \<notin> {a..<a + bsize pr}" by auto
  qed
  then have "flist m' fs" using pg flist_cong [of fs m' m] by (simp add: page_ok_def)
  moreover have "m' a = head_addr fs" by (simp add: m')
  moreover have "on_block ?p = on_block pr" using on_block_cong [of ?p pr] by simp
  ultimately show "page_ok m' ?p (a # fs)" using pg a by (auto simp: page_ok_def)
qed

text \<open>The page with the block put back, before the check for an empty page.\<close>

definition put_state :: "nat \<Rightarrow> nat \<Rightarrow> nat list \<Rightarrow> 'p kheap \<Rightarrow> 'p kheap" where
  "put_state i a fs h = (let pr = pagerefs h ! i in
     h\<lparr>pagerefs := (pagerefs h)[i := pr\<lparr>freelist_offset := a - PR_PAGEADDR pr, nfree := Suc (length fs)\<rparr>],
       kmemory := (fill_deadbeef a (bsize pr div 4) (kmemory h))(a := head_addr fs)\<rparr>)"

lemma release_put:
  assumes i: "i < length (pagerefs h)" and pg: "page_ok (kmemory h) (pagerefs h ! i) fs" and a: "on_block (pagerefs h ! i) a" "a \<notin> set fs"
  shows "subpage_release fk i a h = (let n = Suc (length fs); pr = pagerefs h ! i in
     if n = PAGE_SIZE div bsize pr then do {
       h2 \<leftarrow> remove_lists i (PR_BLOCKTYPE pr) (put_state i a fs h);
       p \<leftarrow> fk (PR_PAGEADDR pr) (kpages h2);
       freepageref i (h2\<lparr>kpages := p\<rparr>) }
     else Some (put_state i a fs h))"
proof -
  let ?p = "pagerefs h ! i"
  have b: "0 < PR_PAGEADDR ?p" "PR_PAGEADDR ?p + 4096 < 2 ^ 32" "PR_PAGEADDR ?p \<le> a" "a < PR_PAGEADDR ?p + 4096"
    "(a - PR_PAGEADDR ?p) mod bsize ?p = 0" "nfree ?p = length fs"
    and off: "freelist_offset ?p = (if fs = [] then INVALID_OFFSET else hd fs - PR_PAGEADDR ?p)"
    using pg a(1) by (auto simp: page_ok_def on_block_def on_page_def)
  have u: "c_usub a (PR_PAGEADDR ?p) = a - PR_PAGEADDR ?p" "a - PR_PAGEADDR ?p < 4096" using b by (auto intro!: c_usub_id)
  have "(a - PR_PAGEADDR ?p) mod 2 ^ 16 = a - PR_PAGEADDR ?p" using u(2) by (intro mod_less) simp
  moreover have len: "Suc (length fs) \<le> 4096 div bsize ?p" using free_count(2) [OF pg a] by simp
  then have "Suc (length fs) \<le> 4096" using div_le_dividend [of 4096 "bsize ?p"] by (rule le_trans)
  then have "(length fs + 1) mod 2 ^ 16 = Suc (length fs)" by (simp add: mod_less)
  moreover have "c_uint (PR_PAGEADDR ?p + (a - PR_PAGEADDR ?p)) = a" using b by (simp add: c_uint_id)
  moreover have "(if freelist_offset ?p = INVALID_OFFSET then 0 else c_uint (PR_PAGEADDR ?p + freelist_offset ?p)) = head_addr fs"
  proof (cases fs)
    case (Cons x xs)
    then have "PR_PAGEADDR ?p \<le> x" "x < PR_PAGEADDR ?p + 4096" using pg by (auto simp: page_ok_def on_block_def on_page_def)
    then show ?thesis using Cons off b(2) by (auto simp: c_uint_id)
  qed (use off in simp)
  ultimately show ?thesis using i b u len unfolding subpage_release_def put_state_def Let_def
    by (simp add: pr_at_def pr_upd_def)
qed

lemma find_remove1: "\<not> P x \<Longrightarrow> find P (remove1 x xs) = find P xs"
  by (induction xs) auto

lemma find_remove1_None: "distinct xs \<Longrightarrow> (\<And>y. y \<in> set xs \<Longrightarrow> P y \<Longrightarrow> y = x) \<Longrightarrow> find P (remove1 x xs) = None"
  by (auto simp: find_None_iff)

lemma same_runs: "(\<And>i. i \<in> set all \<Longrightarrow> PR_PAGEADDR (pagerefs h' ! i) = PR_PAGEADDR (pagerefs h ! i)) \<Longrightarrow> page_runs h' all = page_runs h all"
  by (auto simp: page_runs_def fun_eq_iff)

lemma MKPAB_fields:
  assumes "a mod PAGE_SIZE = 0" "t < NSIZES" "pageaddr_and_blocktype pr = MKPAB a t"
  shows "PR_PAGEADDR pr = a" "PR_BLOCKTYPE pr = t"
  using assms by (auto simp: PR_PAGEADDR_def PR_BLOCKTYPE_def MKPAB_def)

text \<open>The free list of a new page has all its blocks.\<close>

lemma fresh_page:
  assumes a: "0 < a" "a mod PAGE_SIZE = 0" "a + PAGE_SIZE < 2 ^ 32" and t: "t < NSIZES" and pr: "pageaddr_and_blocktype pr = MKPAB a t"
    "nfree pr = PAGE_SIZE div sizes ! t" "freelist_offset pr = (PAGE_SIZE div sizes ! t - 1) * sizes ! t"
    and fl: "flist m (fresh_list a (sizes ! t) (PAGE_SIZE div sizes ! t))"
  shows "page_ok m pr (fresh_list a (sizes ! t) (PAGE_SIZE div sizes ! t))" "{x. on_block pr x} = set (fresh_list a (sizes ! t) (PAGE_SIZE div sizes ! t))"
proof -
  let ?s = "sizes ! t" and ?n = "PAGE_SIZE div sizes ! t"
  note f = MKPAB_fields [OF a(2) t pr(1)]
  have s: "16 \<le> ?s" "?s \<le> 2048" using sizes_bounds [OF t] by simp_all
  then have n: "0 < ?n" by (simp add: div_greater_zero_iff)
  show eq: "{x. on_block pr x} = set (fresh_list a ?s ?n)" using page_blocks(1) [of pr] t by (simp add: f fresh_list_set)
  have "distinct (fresh_list a ?s ?n)" using s by (auto simp: fresh_list_def distinct_map inj_on_def)
  moreover have "length (fresh_list a ?s ?n) = ?n" by (simp add: fresh_list_def)
  moreover have "fresh_list a ?s ?n = (a + (?n - 1) * ?s) # fresh_list a ?s (?n - 1)"
    using n fresh_list_simps(2) [of a ?s "?n - 1"] by simp
  then have "hd (fresh_list a ?s ?n) = a + (?n - 1) * ?s" "fresh_list a ?s ?n \<noteq> []" by (metis list.sel(1), metis list.discI)
  ultimately show "page_ok m pr (fresh_list a ?s ?n)" using a t pr fl f eq by (auto simp: page_ok_def)
qed

lemma newpage_ok:
  assumes len: "length (pagerefs h) = NPAGEREFS" and i: "i < NPAGEREFS" and a: "0 < a" "a mod PAGE_SIZE = 0" "a + PAGE_SIZE < 2 ^ 32"
    and t: "t < NSIZES"
  defines "FS \<equiv> fresh_list a (sizes ! t) (PAGE_SIZE div sizes ! t)"
  shows "\<exists>p m. subpage_newpage i t a h = Some (h\<lparr>pagerefs := (pagerefs h)[i := p], sizebases := (sizebases h)[t := Some i],
      allbase := Some i, kmemory := m\<rparr>) \<and> page_ok m p FS \<and> {x. on_block p x} = set FS \<and> PR_PAGEADDR p = a \<and> PR_BLOCKTYPE p = t \<and>
    next_all p = allbase h \<and> next_samesize p = sizebases h ! t \<and> (\<forall>x. x \<notin> set FS \<longrightarrow> m x = kmemory h x)"
proof -
  let ?s = "sizes ! t" and ?n = "PAGE_SIZE div sizes ! t"
  have s: "16 \<le> ?s" "?s \<le> 2048" "?n * ?s = 4096" using sizes_bounds [OF t] by simp_all
  then have n: "0 < ?n" "Suc (?n - 1) = ?n" by (simp_all add: div_greater_zero_iff)
  have "a + Suc (?n - 1) * ?s \<le> 2 ^ 32" using a(3) s(3) n(2) by (metis less_imp_le)
  from link_blocks_ok [OF _ this, of "kmemory h"] s(1) obtain m where m: "link_blocks a ?s (?n - 1) (kmemory h) = Some (a + (?n - 1) * ?s, m)"
    "flist m FS" "\<forall>x. x \<notin> set FS \<longrightarrow> m x = kmemory h x" unfolding n(2) FS_def by auto
  have "?s + (?n - 1) * ?s = 4096" using s(3) n(2) by (metis mult_Suc)
  then have le: "(?n - 1) * ?s < 4096" using s(1) by linarith
  then have "c_usub (a + (?n - 1) * ?s) a = (?n - 1) * ?s" using a(3) by (subst c_usub_id) simp_all
  moreover from le have "(?n - 1) * ?s mod 2 ^ 16 = (?n - 1) * ?s" by (intro mod_less) simp
  ultimately have off: "c_usub (a + (?n - 1) * ?s) a mod 2 ^ 16 = (?n - 1) * ?s" by simp
  let ?p = "\<lparr>next_samesize = sizebases h ! t, next_all = allbase h, pageaddr_and_blocktype = MKPAB a t,
    freelist_offset = (?n - 1) * ?s, nfree = ?n\<rparr>"
  have "subpage_newpage i t a h = Some (h\<lparr>pagerefs := (pagerefs h)[i := ?p], sizebases := (sizebases h)[t := Some i], allbase := Some i, kmemory := m\<rparr>)"
    using len i m(1) off unfolding subpage_newpage_def Let_def by (simp add: pr_at_def pr_upd_def)
  moreover have "page_ok m ?p FS" "{x. on_block ?p x} = set FS" unfolding FS_def
    by (rule fresh_page [OF a t]; use m(2) in \<open>simp add: FS_def\<close>)+
  moreover have "PR_PAGEADDR ?p = a" "PR_BLOCKTYPE ?p = t" using MKPAB_fields [OF a(2) t, of ?p] by simp_all
  ultimately show ?thesis using m(3) by (intro exI [of _ ?p] exI [of _ m]) simp
qed

lemma blocks_cong:
  assumes "\<And>i. i \<in> set all \<Longrightarrow> pageaddr_and_blocktype (pagerefs h' ! i) = pageaddr_and_blocktype (pagerefs h ! i)"
  shows "blocks h' all FL B = blocks h all FL B"
proof
  fix a
  have p: "PR_PAGEADDR (pagerefs h' ! i) = PR_PAGEADDR (pagerefs h ! i)" "PR_BLOCKTYPE (pagerefs h' ! i) = PR_BLOCKTYPE (pagerefs h ! i)"
    if "i \<in> set all" for i using assms [OF that] by (simp_all add: PR_PAGEADDR_def PR_BLOCKTYPE_def)
  then have o: "on_page (pagerefs h' ! i) = on_page (pagerefs h ! i)" "on_block (pagerefs h' ! i) = on_block (pagerefs h ! i)"
    if "i \<in> set all" for i using on_block_cong that by blast+
  have "find (\<lambda>i. on_page (pagerefs h' ! i) a) all = find (\<lambda>i. on_page (pagerefs h ! i) a) all"
    by (rule find_cong [OF refl]) (use o in simp)
  moreover have "i \<in> set all" if "find (\<lambda>i. on_page (pagerefs h ! i) a) all = Some i" for i
    using that by (auto simp: find_Some_iff)
  ultimately show "blocks h' all FL B a = blocks h all FL B a" using o p by (auto simp: blocks_def split: option.splits)
qed

context page_allocator
begin

lemma page_run:
  assumes r: "heap_repr holds h all FL B" and i: "i \<in> set all"
  shows "(B ++ page_runs h all) (PR_PAGEADDR (pagerefs h ! i)) = Some 1"
  using i by (simp add: map_add_def page_runs_def)

lemma pages_apart:
  assumes r: "heap_repr holds h all FL B" and ij: "i \<in> set all" "j \<in> set all" "on_page (pagerefs h ! i) a" "on_page (pagerefs h ! j) a"
  shows "i = j"
proof (rule ccontr)
  assume "i \<noteq> j"
  then have "PR_PAGEADDR (pagerefs h ! i) \<noteq> PR_PAGEADDR (pagerefs h ! j)" using r ij(1,2) by (auto simp: heap_repr_def inj_on_def)
  from run_disjoint [OF _ page_run [OF r ij(1)] page_run [OF r ij(2)] this] r ij(3,4) show False
    by (auto simp: heap_repr_def run_of_def on_page_def)
qed

lemma find_page:
  assumes r: "heap_repr holds h all FL B" and i: "i \<in> set all" "on_page (pagerefs h ! i) a"
  shows "find (\<lambda>i. on_page (pagerefs h ! i) a) all = Some i"
proof (cases "find (\<lambda>i. on_page (pagerefs h ! i) a) all")
  case None
  then show ?thesis using i by (auto simp: find_None_iff)
next
  case (Some j)
  then have "j \<in> set all" "on_page (pagerefs h ! j) a" by (auto simp: find_Some_iff)
  then show ?thesis using pages_apart [OF r i(1) _ i(2)] Some by blast
qed

lemma big_apart:
  assumes r: "heap_repr holds h all FL B" and b: "B b = Some n" and i: "i \<in> set all"
  shows "run_of b n \<inter> {a. on_page (pagerefs h ! i) a} = {}"
proof -
  have "b \<notin> dom (page_runs h all)" using r b by (auto simp: heap_repr_def)
  then have "(B ++ page_runs h all) b = Some n" "b \<noteq> PR_PAGEADDR (pagerefs h ! i)"
    using b i by (auto simp: map_add_def page_runs_def split: option.splits)
  from run_disjoint [OF _ this(1) page_run [OF r i] this(2)] r show ?thesis by (auto simp: heap_repr_def run_of_def on_page_def)
qed

text \<open>A block of the map is a block of a page or a run of pages.\<close>

lemma blocks_cases:
  assumes r: "heap_repr holds h all FL B" and a: "blocks h all FL B a = Some s"
  shows "(\<exists>i \<in> set all. on_block (pagerefs h ! i) a \<and> a \<notin> set (FL i) \<and> s = bsize (pagerefs h ! i)) \<or>
    (\<exists>n. B a = Some n \<and> s = n * PAGE_SIZE \<and> (\<forall>i \<in> set all. \<not> on_page (pagerefs h ! i) a))"
  using a by (auto simp: blocks_def find_Some_iff find_None_iff split: option.splits if_splits)

lemma block_span:
  assumes r: "heap_repr holds h all FL B" and a: "blocks h all FL B a = Some s"
  shows "\<exists>c n. (B ++ page_runs h all) c = Some n \<and> {a..<a + s} \<subseteq> run_of c n \<and>
    ((\<exists>i \<in> set all. c = PR_PAGEADDR (pagerefs h ! i) \<and> on_block (pagerefs h ! i) a) \<or> c = a \<and> a \<notin> dom (page_runs h all))"
  using blocks_cases [OF assms]
proof
  assume "\<exists>i \<in> set all. on_block (pagerefs h ! i) a \<and> a \<notin> set (FL i) \<and> s = bsize (pagerefs h ! i)"
  then obtain i where i: "i \<in> set all" "on_block (pagerefs h ! i) a" "s = bsize (pagerefs h ! i)" by blast
  have "PR_BLOCKTYPE (pagerefs h ! i) < NSIZES" using r i(1) heap_okD(7) by (auto simp: heap_repr_def)
  from block_in_page [OF i(2) this] have "{a..<a + s} \<subseteq> run_of (PR_PAGEADDR (pagerefs h ! i)) 1" using i(3) by (auto simp: run_of_def)
  then show ?thesis using i page_run [OF r i(1)]
    by (intro exI [of _ "PR_PAGEADDR (pagerefs h ! i)"] exI [of _ 1]) auto
next
  assume "\<exists>n. B a = Some n \<and> s = n * PAGE_SIZE \<and> (\<forall>i \<in> set all. \<not> on_page (pagerefs h ! i) a)"
  then obtain n where n: "B a = Some n" "s = n * PAGE_SIZE" by blast
  then have "a \<notin> dom (page_runs h all)" using r by (auto simp: heap_repr_def)
  then show ?thesis using n by (intro exI [of _ a] exI [of _ n]) (auto simp: run_of_def map_add_def split: option.splits)
qed

lemma big_run:
  assumes r: "heap_repr holds h all FL B" and b: "B b = Some n"
  shows "(B ++ page_runs h all) b = Some n" "0 < n"
proof -
  have "b \<notin> dom (page_runs h all)" using r b by (auto simp: heap_repr_def)
  then show e: "(B ++ page_runs h all) b = Some n" using b by (auto simp: map_add_def split: option.splits)
  then show "0 < n" using r run_range [of "kpages h" "B ++ page_runs h all" b n] by (simp add: heap_repr_def)
qed

lemma block_pos:
  assumes r: "heap_repr holds h all FL B" and a: "blocks h all FL B a = Some s"
  shows "0 < s"
  using blocks_cases [OF assms]
proof
  assume "\<exists>i \<in> set all. on_block (pagerefs h ! i) a \<and> a \<notin> set (FL i) \<and> s = bsize (pagerefs h ! i)"
  then obtain i where "i \<in> set all" "s = bsize (pagerefs h ! i)" by blast
  then show ?thesis using sizes_bounds(2) [of "PR_BLOCKTYPE (pagerefs h ! i)"] heap_okD(7) [of h all FL i] r by (simp add: heap_repr_def)
qed (use big_run(2) [OF r] in auto)

lemma blocks_disjoint:
  assumes r: "heap_repr holds h all FL B" and a: "blocks h all FL B a = Some s" and b: "blocks h all FL B b = Some t" and ne: "a \<noteq> b"
  shows "{a..<a + s} \<inter> {b..<b + t} = {}"
proof -
  obtain c m where c: "(B ++ page_runs h all) c = Some m" "{a..<a + s} \<subseteq> run_of c m"
    "(\<exists>i \<in> set all. c = PR_PAGEADDR (pagerefs h ! i) \<and> on_block (pagerefs h ! i) a) \<or> c = a \<and> a \<notin> dom (page_runs h all)"
    using block_span [OF r a] by (elim exE conjE) (rule that)
  obtain d n where d: "(B ++ page_runs h all) d = Some n" "{b..<b + t} \<subseteq> run_of d n"
    "(\<exists>i \<in> set all. d = PR_PAGEADDR (pagerefs h ! i) \<and> on_block (pagerefs h ! i) b) \<or> d = b \<and> b \<notin> dom (page_runs h all)"
    using block_span [OF r b] by (elim exE conjE) (rule that)
  show ?thesis
  proof (cases "c = d")
    case False
    then show ?thesis using run_disjoint [OF _ c(1) d(1)] c(2) d(2) r unfolding heap_repr_def by blast
  next
    case True
    have "PR_PAGEADDR (pagerefs h ! i) \<in> dom (page_runs h all)" if "i \<in> set all" for i using that by (auto simp: page_runs_def)
    then obtain i j where ij: "i \<in> set all" "c = PR_PAGEADDR (pagerefs h ! i)" "on_block (pagerefs h ! i) a"
      "j \<in> set all" "d = PR_PAGEADDR (pagerefs h ! j)" "on_block (pagerefs h ! j) b"
      using c(3) d(3) True ne by metis
    then have j: "j = i" using r True by (auto simp: heap_repr_def inj_on_def)
    then have "find (\<lambda>i. on_page (pagerefs h ! i) a) all = Some i" "find (\<lambda>i. on_page (pagerefs h ! i) b) all = Some i"
      using find_page [OF r] ij by (auto simp: on_block_def)
    then have "s = bsize (pagerefs h ! i)" "t = bsize (pagerefs h ! i)" using a b by (auto simp: blocks_def split: if_splits)
    moreover have "PR_BLOCKTYPE (pagerefs h ! i) < NSIZES" using r ij(1) heap_okD(7) by (auto simp: heap_repr_def)
    ultimately show ?thesis using blocks_apart [of "pagerefs h ! i" a b] ij(3,6) j ne by simp
  qed
qed

section \<open>Allocation\<close>

text \<open>A free block of a page that is there goes out.\<close>

lemma doalloc_heap:
  assumes r: "heap_repr holds h all FL B" and i: "i \<in> set all" "FL i = x # fs"
  shows "\<exists>h'. subpage_doalloc i h = Some (x, h') \<and> kmemory h' = kmemory h \<and> heap_repr holds h' all (FL(i := fs)) B \<and>
    blocks h' all (FL(i := fs)) B = (blocks h all FL B)(x \<mapsto> bsize (pagerefs h ! i)) \<and> blocks h all FL B x = None"
proof -
  have ok: "heap_ok h all FL" and pg: "page_ok (kmemory h) (pagerefs h ! i) (x # fs)" and lt: "i < length (pagerefs h)"
    using r i heap_okD(4,5) [of h all FL i] heap_okD(6) [of h all FL] by (auto simp: heap_repr_def)
  obtain p' where p': "subpage_doalloc i h = Some (x, h\<lparr>pagerefs := (pagerefs h)[i := p']\<rparr>)" "page_ok (kmemory h) p' fs"
    "next_all p' = next_all (pagerefs h ! i)" "next_samesize p' = next_samesize (pagerefs h ! i)"
    "pageaddr_and_blocktype p' = pageaddr_and_blocktype (pagerefs h ! i)"
    using doalloc_ok [OF lt pg] by blast
  let ?h = "h\<lparr>pagerefs := (pagerefs h)[i := p']\<rparr>"
  have heq: "h\<lparr>pagerefs := (pagerefs h)[i := p'], kmemory := kmemory h\<rparr> = ?h" by simp
  have ok': "heap_ok ?h all (FL(i := fs))" using heap_ok_upd [OF ok i(1) p'(2-5)] unfolding heq by simp
  have on: "pageaddr_and_blocktype (pagerefs ?h ! j) = pageaddr_and_blocktype (pagerefs h ! j)" for j
    using p'(5) lt by (simp add: nth_list_update)
  then have on': "PR_PAGEADDR (pagerefs ?h ! j) = PR_PAGEADDR (pagerefs h ! j)" for j by (simp add: PR_PAGEADDR_def)
  have x: "on_block (pagerefs h ! i) x" "x \<notin> set fs" using pg by (auto simp: page_ok_def)
  have fx: "find (\<lambda>i. on_page (pagerefs h ! i) x) all = Some i" using find_page [OF r i(1)] x(1) by (simp add: on_block_def)
  have "heap_repr holds ?h all (FL(i := fs)) B"
    using r ok' same_runs [of all ?h h] on' by (simp add: heap_repr_def inj_on_def)
  moreover have "blocks ?h all (FL(i := fs)) B = blocks h all (FL(i := fs)) B" by (rule blocks_cong) (rule on)
  moreover have "blocks h all (FL(i := fs)) B a = ((blocks h all FL B)(x \<mapsto> bsize (pagerefs h ! i))) a" for a
    using fx x i(2) by (cases "find (\<lambda>i. on_page (pagerefs h ! i) a) all") (auto simp: blocks_def)
  moreover have "blocks h all FL B x = None" using fx i(2) by (simp add: blocks_def)
  ultimately show ?thesis using p'(1) by (intro exI [of _ ?h]) (auto simp: fun_eq_iff)
qed

text \<open>A fresh page is cut into blocks, all of them free.\<close>

lemma newpage_heap:
  assumes r: "heap_repr holds h all FL B" and i: "i < NPAGEREFS" "i \<notin> set all" and t: "t < NSIZES"
    and ws: "length ws = INUSE_WORDS" "inuse ws = insert i (set all)"
    and a: "a \<noteq> 0" "a \<notin> dom (B ++ page_runs h all)" "holds kp ((B ++ page_runs h all)(a \<mapsto> 1))"
  shows "\<exists>h' fs. subpage_newpage i t a (h\<lparr>pagerefs_inuse := ws, kpages := kp\<rparr>) = Some h' \<and>
    heap_repr holds h' (i # all) (FL(i := fs)) B \<and> blocks h' (i # all) (FL(i := fs)) B = blocks h all FL B \<and>
    fs \<noteq> [] \<and> bsize (pagerefs h' ! i) = sizes ! t \<and>
    (\<forall>x. kmemory h' x \<noteq> kmemory h x \<longrightarrow> x \<in> run_of a 1) \<and> (\<forall>b s. blocks h all FL B b = Some s \<longrightarrow> run_of a 1 \<inter> {b..<b + s} = {})"
proof -
  let ?R = "B ++ page_runs h all" and ?h = "h\<lparr>pagerefs_inuse := ws, kpages := kp\<rparr>"
  let ?FS = "fresh_list a (sizes ! t) (PAGE_SIZE div sizes ! t)"
  have ok: "heap_ok h all FL" using r by (simp add: heap_repr_def)
  note D = heap_okD [OF ok]
  have ar: "0 < a" "a mod PAGE_SIZE = 0" "a + PAGE_SIZE < 2 ^ 32" using run_range [OF a(3), of a 1] by auto
  have apart: "run_of a 1 \<inter> run_of b n = {}" if "?R b = Some n" for b n
    using run_disjoint [OF a(3), of a 1 b n] that a(2) by (cases "a = b") auto
  have out: "run_of a 1 \<inter> {b..<b + s} = {}" if "blocks h all FL B b = Some s" for b s
  proof -
    note span = block_span [OF r that]
    obtain c n where "?R c = Some n" "{b..<b + s} \<subseteq> run_of c n" using span by (elim exE conjE) (rule that)
    then show ?thesis using apart [of c n] by auto
  qed
  have nopage: "\<not> on_page (pagerefs h ! j) x" if "j \<in> set all" "x \<in> run_of a 1" for j x
    using apart [OF page_run [OF r that(1)]] that(2) by (auto simp: run_of_def on_page_def)
  have l: "length (pagerefs ?h) = NPAGEREFS" using D(6) by simp
  have e: "pagerefs ?h = pagerefs h" "sizebases ?h = sizebases h" "allbase ?h = allbase h" "kmemory ?h = kmemory h" by simp_all
  obtain p m where p: "subpage_newpage i t a ?h = Some (?h\<lparr>pagerefs := (pagerefs h)[i := p], sizebases := (sizebases h)[t := Some i],
      allbase := Some i, kmemory := m\<rparr>)" "page_ok m p ?FS" "{x. on_block p x} = set ?FS" "PR_PAGEADDR p = a" "PR_BLOCKTYPE p = t"
      "next_all p = allbase h" "next_samesize p = sizebases h ! t" "\<forall>x. x \<notin> set ?FS \<longrightarrow> m x = kmemory h x"
    using newpage_ok [OF l i(1) ar t, unfolded e] by (elim exE conjE) (rule that)
  let ?h' = "?h\<lparr>pagerefs := (pagerefs h)[i := p], sizebases := (sizebases h)[t := Some i], allbase := Some i, kmemory := m\<rparr>"
  have "{x. on_block p x} \<subseteq> run_of a 1" using p(4) by (auto simp: on_block_def on_page_def run_of_def)
  then have fs: "set ?FS \<subseteq> run_of a 1" unfolding p(3) .
  have m: "m x = kmemory h x" if "j \<in> set all" "on_page (pagerefs h ! j) x" for j x
    using p(8) fs nopage that by blast
  have ok': "heap_ok ?h' (i # all) (FL(i := ?FS))"
    by (rule heap_ok_cons [OF ok i p(2,5) t p(6,7) ws m])
  have nth: "pagerefs ?h' ! j = pagerefs h ! j" if "j \<in> set all" for j using that i(2) by (cases "j = i") auto
  have nthi: "pagerefs ?h' ! i = p" using i D(6) by simp
  have runs: "page_runs ?h' (i # all) = (page_runs h all)(a \<mapsto> 1)"
    using nth nthi p(4) by (auto simp: page_runs_def fun_eq_iff)
  have na: "a \<notin> dom B" "a \<notin> dom (page_runs h all)" using a(2) by auto
  have "inj_on (\<lambda>j. PR_PAGEADDR (pagerefs ?h' ! j)) (set (i # all))"
  proof -
    have "inj_on (\<lambda>j. PR_PAGEADDR (pagerefs ?h' ! j)) (set all)" using r nth by (simp add: heap_repr_def inj_on_def)
    moreover have "\<forall>j \<in> set all. PR_PAGEADDR (pagerefs ?h' ! j) \<noteq> a" using na(2) nth by (auto simp: page_runs_def)
    ultimately show ?thesis using nthi p(4) i(2) by (auto simp: inj_on_def)
  qed
  moreover have "dom B \<inter> dom (page_runs ?h' (i # all)) = {}" using r na by (auto simp: heap_repr_def runs)
  moreover have "B ++ page_runs ?h' (i # all) = ?R(a \<mapsto> 1)" unfolding runs by simp
  ultimately have r': "heap_repr holds ?h' (i # all) (FL(i := ?FS)) B" using ok' a(3) by (simp add: heap_repr_def)
  have "blocks ?h' (i # all) (FL(i := ?FS)) B x = blocks h all FL B x" for x
  proof (cases "on_page p x")
    case True
    then have x: "x \<in> run_of a 1" using p(4) by (auto simp: on_page_def run_of_def)
    have "blocks h all FL B x = None"
    proof (rule ccontr)
      assume "blocks h all FL B x \<noteq> None"
      then obtain s where s: "blocks h all FL B x = Some s" by blast
      then show False using out [OF s] x block_pos [OF r s] by auto
    qed
    moreover have "blocks ?h' (i # all) (FL(i := ?FS)) B x = None" using True p(3) nthi by (auto simp: blocks_def)
    ultimately show ?thesis by simp
  next
    case False
    have f: "find (\<lambda>j. on_page (pagerefs ?h' ! j) x) all = find (\<lambda>j. on_page (pagerefs h ! j) x) all"
      by (rule find_cong [OF refl]) (use nth in simp)
    have "j \<in> set all" if "find (\<lambda>j. on_page (pagerefs h ! j) x) all = Some j" for j using that by (auto simp: find_Some_iff)
    then show ?thesis using False nthi f nth i(2) by (auto simp: blocks_def split: option.splits)
  qed
  then have "blocks ?h' (i # all) (FL(i := ?FS)) B = blocks h all FL B" by blast
  moreover have "?FS \<noteq> []" using sizes_bounds [OF t] by (simp add: fresh_list_def div_greater_zero_iff)
  moreover have "\<forall>x. kmemory ?h' x \<noteq> kmemory h x \<longrightarrow> x \<in> run_of a 1" using p(8) fs by auto
  ultimately show ?thesis using p(1,5) r' nthi out by (intro exI [of _ ?h'] exI [of _ ?FS]) simp
qed

lemma heap_repr_pages:
  assumes "heap_repr holds h all FL B" "length ws = INUSE_WORDS" "inuse ws = set all" "dom B' \<inter> dom (page_runs h all) = {}"
    "holds kp (B' ++ page_runs h all)"
  shows "heap_repr holds (h\<lparr>pagerefs_inuse := ws, kpages := kp\<rparr>) all FL B'"
proof -
  let ?h = "h\<lparr>pagerefs_inuse := ws, kpages := kp\<rparr>"
  have "page_runs ?h all = page_runs h all" by (rule same_runs) simp
  then show ?thesis using assms by (simp add: heap_repr_def heap_ok_def pages_ok_def)
qed

lemma take_block:
  assumes r: "heap_repr holds g all FL B" and i: "i \<in> set all" "FL i \<noteq> []" and sz: "sz \<le> bsize (pagerefs g ! i)"
    and b: "blocks g all FL B = G" and m: "\<forall>b s. G b = Some s \<longrightarrow> (\<forall>x \<in> {b..<b + s}. kmemory g x = kmemory h x)"
  shows "\<exists>a h'. subpage_doalloc i g = Some (a, h') \<and> malloced holds h G sz a h'"
proof -
  obtain x fs where fs: "FL i = x # fs" using i(2) by (cases "FL i") auto
  from doalloc_heap [OF r i(1) fs] obtain h' where h': "subpage_doalloc i g = Some (x, h')" "kmemory h' = kmemory g"
    "heap_repr holds h' all (FL(i := fs)) B" "blocks h' all (FL(i := fs)) B = G(x \<mapsto> bsize (pagerefs g ! i))" "G x = None"
    unfolding b by blast
  have "page_ok (kmemory g) (pagerefs g ! i) (x # fs)" using r i(1) heap_okD(4) [of g all FL i] fs by (auto simp: heap_repr_def)
  then have "x \<noteq> 0" by (auto simp: page_ok_def on_block_def on_page_def)
  then show ?thesis using h' heapI [OF h'(3,4)] sz m by (auto simp: malloced_def)
qed

lemma no_page:
  assumes r: "heap_repr holds h all FL B" and ws: "length ws = INUSE_WORDS" "inuse ws = insert i (set all)" and i: "i \<notin> set all" "i < NPAGEREFS"
    and kp: "holds kp (B ++ page_runs h all)"
  shows "\<exists>h'. freepageref i (h\<lparr>pagerefs_inuse := ws, kpages := kp\<rparr>) = Some h' \<and> malloced holds h (blocks h all FL B) sz 0 h'"
proof -
  let ?h2 = "h\<lparr>pagerefs_inuse := ws, kpages := kp\<rparr>"
  obtain ws' where ws': "freepageref i ?h2 = Some (?h2\<lparr>pagerefs_inuse := ws'\<rparr>)" "length ws' = INUSE_WORDS" "inuse ws' = set all"
    using freepageref_ok [of ?h2 i] ws i by auto
  have "heap_repr holds (h\<lparr>pagerefs_inuse := ws', kpages := kp\<rparr>) all FL B"
    by (rule heap_repr_pages [OF r ws'(2,3) _ kp]) (use r in \<open>simp add: heap_repr_def\<close>)
  from heapI [OF this blocks_cong, of h] have "heap holds (h\<lparr>pagerefs_inuse := ws', kpages := kp\<rparr>) (blocks h all FL B)" by simp
  moreover have e: "?h2\<lparr>pagerefs_inuse := ws'\<rparr> = h\<lparr>pagerefs_inuse := ws', kpages := kp\<rparr>" by simp
  ultimately show ?thesis using ws'(1) unfolding e by (simp add: malloced_def)
qed

lemma new_page_block:
  assumes r: "heap_repr holds h all FL B" and i: "i < NPAGEREFS" "i \<notin> set all" and t: "t < NSIZES" "sz \<le> sizes ! t"
    and ws: "length ws = INUSE_WORDS" "inuse ws = insert i (set all)"
    and a: "a \<noteq> 0" "a \<notin> dom (B ++ page_runs h all)" "holds kp ((B ++ page_runs h all)(a \<mapsto> 1))"
  shows "\<exists>g x h'. subpage_newpage i t a (h\<lparr>pagerefs_inuse := ws, kpages := kp\<rparr>) = Some g \<and> subpage_doalloc i g = Some (x, h') \<and>
    malloced holds h (blocks h all FL B) sz x h'"
proof -
  obtain g fs where g: "subpage_newpage i t a (h\<lparr>pagerefs_inuse := ws, kpages := kp\<rparr>) = Some g"
    "heap_repr holds g (i # all) (FL(i := fs)) B" "blocks g (i # all) (FL(i := fs)) B = blocks h all FL B" "fs \<noteq> []"
    "bsize (pagerefs g ! i) = sizes ! t" "\<forall>x. kmemory g x \<noteq> kmemory h x \<longrightarrow> x \<in> run_of a 1"
    "\<forall>b s. blocks h all FL B b = Some s \<longrightarrow> run_of a 1 \<inter> {b..<b + s} = {}"
    using newpage_heap [OF r i t(1) ws a] by (elim exE conjE) (rule that)
  have m: "\<forall>b s. blocks h all FL B b = Some s \<longrightarrow> (\<forall>x \<in> {b..<b + s}. kmemory g x = kmemory h x)" using g(6,7) by blast
  show ?thesis using take_block [OF g(2) _ _ _ g(3) m, of i sz] g(1,4,5) t(2) by auto
qed

lemma subpage_kmalloc_heap:
  assumes r: "heap_repr holds h all FL B" and sz: "sz \<le> 2048"
  shows "\<exists>a h'. subpage_kmalloc alloc sz h = Some (a, h') \<and> malloced holds h (blocks h all FL B) sz a h'"
proof -
  have ok: "heap_ok h all FL" and hr: "holds (kpages h) (B ++ page_runs h all)" using r by (simp_all add: heap_repr_def)
  note D = heap_okD [OF ok]
  obtain t where t: "blocktype sz = Some t" "t < 8" "sz \<le> sizes ! t" using blocktype_ok [OF sz] by blast
  let ?L = "filter (\<lambda>i. PR_BLOCKTYPE (pagerefs h ! i) = t) all"
  have se: "subpage_search t h (sizebases h ! t) = Some (find (\<lambda>i. nfree (pagerefs h ! i) > 0) ?L)"
    by (rule search_ok) (use D(1,5,6) t(2) in \<open>auto simp: pages_ok_def\<close>)
  obtain q ws where ws: "allocpageref h = Some (q, h\<lparr>pagerefs_inuse := ws\<rparr>)" "length ws = INUSE_WORDS"
    "case q of None \<Rightarrow> ws = pagerefs_inuse h | Some k \<Rightarrow> k < NPAGEREFS \<and> k \<notin> inuse (pagerefs_inuse h) \<and> inuse ws = insert k (inuse (pagerefs_inuse h))"
    using allocpageref_ok [OF D(2)] by blast
  obtain a kp where a: "alloc 1 (kpages h) = Some (a, kp)" "if a = 0 then holds kp (B ++ page_runs h all)
      else a \<notin> dom (B ++ page_runs h all) \<and> holds kp ((B ++ page_runs h all)(a \<mapsto> 1))"
    using alloc_ok [OF hr, of 1] by auto
  consider (old) i where "find (\<lambda>i. nfree (pagerefs h ! i) > 0) ?L = Some i"
    | (none) "find (\<lambda>i. nfree (pagerefs h ! i) > 0) ?L = None" "q = None"
    | (new) i where "find (\<lambda>i. nfree (pagerefs h ! i) > 0) ?L = None" "q = Some i"
    by (cases "find (\<lambda>i. nfree (pagerefs h ! i) > 0) ?L"; cases q) auto
  then show ?thesis
  proof cases
    case old
    then have i: "i \<in> set all" "PR_BLOCKTYPE (pagerefs h ! i) = t" "nfree (pagerefs h ! i) > 0" by (auto simp: find_Some_iff dest: nth_mem)
    then have "FL i \<noteq> []" using D(4) by (auto simp: page_ok_def)
    then show ?thesis using take_block [OF r i(1), of sz "blocks h all FL B" h] i t se old by (simp add: subpage_kmalloc_def)
  next
    case none
    then show ?thesis using ws se t heapI [OF r refl] by (auto simp: subpage_kmalloc_def malloced_def)
  next
    case new
    then have i: "i < NPAGEREFS" "i \<notin> set all" "inuse ws = insert i (set all)" using ws(3) D(3) by auto
    show ?thesis
    proof (cases "a = 0")
      case True
      then show ?thesis using no_page [OF r ws(2) i(3,2,1), of kp sz] a new ws(1) se t by (auto simp: subpage_kmalloc_def Let_def)
    next
      case False
      then show ?thesis using new_page_block [OF r i(1,2) t(2,3) ws(2) i(3) False, of kp] a new ws(1) se t by (auto simp: subpage_kmalloc_def Let_def)
    qed
  qed
qed

lemma kmalloc_heap:
  assumes "heap holds h G" and "sz + PAGE_SIZE \<le> 2 ^ 32"
  shows "\<exists>a h'. kmalloc alloc sz h = Some (a, h') \<and> malloced holds h G sz a h'"
proof -
  obtain all FL B where r: "heap_repr holds h all FL B" and G: "G = blocks h all FL B" using assms(1) by (auto simp: heap_def)
  show ?thesis
  proof (cases "sz < 2048")
    case True
    then show ?thesis using subpage_kmalloc_heap [OF r, of sz] G by (simp add: kmalloc_def)
  next
    case False
    let ?n = "(sz + 4095) div 4096" and ?R = "B ++ page_runs h all"
    have u: "c_uint (sz + 4096 - 1) = sz + 4095" using assms(2) by (simp add: c_uint_id)
    have n: "0 < ?n" "?n < 2 ^ 20" "sz \<le> ?n * 4096" using False assms(2) by auto
    have rp: "holds (kpages h) ?R" "dom B \<inter> dom (page_runs h all) = {}" "length (pagerefs_inuse h) = INUSE_WORDS"
      "inuse (pagerefs_inuse h) = set all" using r by (auto simp: heap_repr_def heap_ok_def)
    obtain a kp where a: "alloc ?n (kpages h) = Some (a, kp)" "if a = 0 then holds kp ?R else a \<notin> dom ?R \<and> holds kp (?R(a \<mapsto> ?n))"
      using alloc_ok [OF rp(1) n(1,2)] by blast
    let ?h = "h\<lparr>kpages := kp\<rparr>"
    have k: "kmalloc alloc sz h = Some (a, ?h)" using False u a(1) by (simp add: kmalloc_def)
    have he: "h\<lparr>pagerefs_inuse := pagerefs_inuse h, kpages := kp\<rparr> = ?h" by simp
    have same: "blocks ?h all FL B' = blocks h all FL B'" for B' by (rule blocks_cong) simp
    show ?thesis
    proof (cases "a = 0")
      case True
      then have "heap_repr holds ?h all FL B" using heap_repr_pages [OF r rp(3,4,2)] a(2) unfolding he by simp
      from heapI [OF this] show ?thesis using True k same G by (auto simp: malloced_def)
    next
      case False
      have "?R(a \<mapsto> ?n) = B(a \<mapsto> ?n) ++ page_runs h all" "a \<notin> dom B" "a \<notin> dom (page_runs h all)"
        using a(2) False by (auto simp: map_add_def fun_eq_iff split: option.splits)
      then have r': "heap_repr holds ?h all FL (B(a \<mapsto> ?n))"
        using heap_repr_pages [OF r rp(3,4), of "B(a \<mapsto> ?n)" kp] rp(2) a(2) False unfolding he by simp
      have "\<not> on_page (pagerefs h ! i) a" if "i \<in> set all" for i
      proof -
        have "a \<in> run_of a ?n" using n(1) by (simp add: run_of_def)
        then show ?thesis using big_apart [OF r' _ that, of a ?n] by auto
      qed
      then have "find (\<lambda>i. on_page (pagerefs h ! i) a) all = None" by (auto simp: find_None_iff)
      then have "blocks ?h all FL (B(a \<mapsto> ?n)) = G(a \<mapsto> ?n * 4096)" "G a = None"
        using \<open>a \<notin> dom B\<close> unfolding same G by (auto simp: blocks_def fun_eq_iff split: option.splits)
      then show ?thesis using heapI [OF r'] False k n(3) by (auto simp: malloced_def)
    qed
  qed
qed

section \<open>Release\<close>

lemma put_heap:
  assumes r: "heap_repr holds h all FL B" and i: "i \<in> set all" and a: "on_block (pagerefs h ! i) a" "a \<notin> set (FL i)"
  defines "g \<equiv> put_state i a (FL i) h"
  shows "heap_repr holds g all (FL(i := a # FL i)) B" "blocks g all (FL(i := a # FL i)) B = (blocks h all FL B)(a := None)"
    "\<And>x. x \<notin> {a..<a + bsize (pagerefs h ! i)} \<Longrightarrow> kmemory g x = kmemory h x"
    "kpages g = kpages h" "pageaddr_and_blocktype (pagerefs g ! i) = pageaddr_and_blocktype (pagerefs h ! i)"
    "nfree (pagerefs g ! i) = Suc (length (FL i))"
proof -
  let ?p = "pagerefs h ! i" and ?FL = "FL(i := a # FL i)"
  let ?q = "?p\<lparr>freelist_offset := a - PR_PAGEADDR ?p, nfree := Suc (length (FL i))\<rparr>"
  let ?m = "(fill_deadbeef a (bsize ?p div 4) (kmemory h))(a := head_addr (FL i))"
  have ok: "heap_ok h all FL" using r by (simp add: heap_repr_def)
  note D = heap_okD [OF ok]
  have g: "g = h\<lparr>pagerefs := (pagerefs h)[i := ?q], kmemory := ?m\<rparr>" by (simp add: g_def put_state_def Let_def)
  note pb = put_back [OF D(4) [OF i] a refl]
  have in_page: "x \<in> {a..<a + bsize ?p} \<Longrightarrow> on_page ?p x" for x
    using block_in_page [OF a(1) D(7) [OF i]] by (auto simp: on_page_def)
  have "heap_ok g all ?FL" unfolding g
  proof (rule heap_ok_upd [OF ok i pb(1)])
    fix j x assume "j \<in> set all" "j \<noteq> i" "on_page (pagerefs h ! j) x"
    then show "?m x = kmemory h x" using pb(2) in_page pages_apart [OF r i] by blast
  qed simp_all
  moreover have nth: "pageaddr_and_blocktype (pagerefs g ! j) = pageaddr_and_blocktype (pagerefs h ! j)" for j
    using D(5) [OF i] D(6) by (simp add: g nth_list_update)
  then have pa: "PR_PAGEADDR (pagerefs g ! j) = PR_PAGEADDR (pagerefs h ! j)" for j by (simp add: PR_PAGEADDR_def)
  moreover have "page_runs g all = page_runs h all" by (rule same_runs) (rule pa)
  moreover have "kpages g = kpages h" by (simp add: g)
  ultimately show "heap_repr holds g all ?FL B" using r by (simp add: heap_repr_def)
  have fi: "find (\<lambda>i. on_page (pagerefs h ! i) a) all = Some i" using find_page [OF r i] a(1) by (simp add: on_block_def)
  have "blocks g all ?FL B = blocks h all ?FL B" by (rule blocks_cong) (rule nth)
  also have "\<dots> = (blocks h all FL B)(a := None)"
    using fi by (auto simp: blocks_def fun_eq_iff split: option.splits)
  finally show "blocks g all ?FL B = (blocks h all FL B)(a := None)" .
  show "kpages g = kpages h" "pageaddr_and_blocktype (pagerefs g ! i) = pageaddr_and_blocktype ?p" by (simp add: g, rule nth)
  show "nfree (pagerefs g ! i) = Suc (length (FL i))" using D(5) [OF i] D(6) by (simp add: g)
  show "kmemory g x = kmemory h x" if "x \<notin> {a..<a + bsize ?p}" for x using pb(2) [OF that] by (simp add: g)
qed

text \<open>A page with all its blocks free has none out, and can be given back.\<close>

lemma blocks_full_page:
  assumes r: "heap_repr holds g all FL B" and i: "i \<in> set all" and full: "length (FL i) = PAGE_SIZE div bsize (pagerefs g ! i)"
  shows "blocks g (remove1 i all) FL B = blocks g all FL B"
proof
  fix x
  let ?p = "pagerefs g ! i"
  have ok: "heap_ok g all FL" using r by (simp add: heap_repr_def)
  note D = heap_okD [OF ok]
  show "blocks g (remove1 i all) FL B x = blocks g all FL B x"
  proof (cases "on_page ?p x")
    case True
    have "set (FL i) = {a. on_block ?p a}"
      by (rule card_subset_eq [OF page_blocks(3) [OF D(7) [OF i]]])
        (use D(4) [OF i] full page_blocks(2) [OF D(7) [OF i]] in \<open>auto simp: page_ok_def distinct_card\<close>)
    then have "blocks g all FL B x = None" using find_page [OF r i True] by (auto simp: blocks_def)
    moreover have "find (\<lambda>j. on_page (pagerefs g ! j) x) (remove1 i all) = None"
      using pages_apart [OF r _ i _ True] D(8) by (intro find_remove1_None) auto
    moreover have "B x = None"
    proof (cases "B x")
      case (Some n)
      then have "x \<in> run_of x n" using big_run(2) [OF r] by (simp add: run_of_def)
      then show ?thesis using big_apart [OF r Some i] True by blast
    qed
    ultimately show ?thesis by (simp add: blocks_def)
  next
    case False
    then show ?thesis using find_remove1 [of "\<lambda>j. on_page (pagerefs g ! j) x" i all] by (simp add: blocks_def)
  qed
qed

lemma drop_page:
  assumes r: "heap_repr holds g all FL B" and i: "i \<in> set all" and full: "length (FL i) = PAGE_SIZE div bsize (pagerefs g ! i)"
  shows "\<exists>h2 kp h3. remove_lists i (PR_BLOCKTYPE (pagerefs g ! i)) g = Some h2 \<and> free (PR_PAGEADDR (pagerefs g ! i)) (kpages h2) = Some kp \<and>
    freepageref i (h2\<lparr>kpages := kp\<rparr>) = Some h3 \<and> kmemory h3 = kmemory g \<and> heap holds h3 (blocks g all FL B)"
proof -
  let ?p = "pagerefs g ! i" and ?all = "remove1 i all"
  have ok: "heap_ok g all FL" and hr: "holds (kpages g) (B ++ page_runs g all)" using r by (simp_all add: heap_repr_def)
  note D = heap_okD [OF ok]
  have all: "set ?all = set all - {i}" "distinct ?all" using D(8) by simp_all
  obtain h2 where h2: "remove_lists i (PR_BLOCKTYPE ?p) g = Some h2" "same_pages g h2" "pages_ok h2 ?all"
    using remove_lists_ok [OF D(1) i D(7) [OF i] refl] by blast
  obtain kp where kp: "free (PR_PAGEADDR ?p) (kpages h2) = Some kp" "holds kp ((B ++ page_runs g all)(PR_PAGEADDR ?p := None))"
    using free_ok [OF hr, of "PR_PAGEADDR ?p"] page_run [OF r i] h2(2) by (auto simp: same_pages_def)
  obtain ws where ws: "freepageref i (h2\<lparr>kpages := kp\<rparr>) = Some (h2\<lparr>kpages := kp, pagerefs_inuse := ws\<rparr>)" "length ws = INUSE_WORDS"
    "inuse ws = set ?all" using freepageref_ok [of "h2\<lparr>kpages := kp\<rparr>" i] h2(2) D(2,3) i all by (auto simp: same_pages_def)
  let ?h = "h2\<lparr>kpages := kp, pagerefs_inuse := ws\<rparr>"
  have sp: "same_pages g h2" by (rule h2)
  note F = same_pages_fields [OF sp D(5)]
  have nth: "pageaddr_and_blocktype (pagerefs ?h ! j) = pageaddr_and_blocktype (pagerefs g ! j)" if "j \<in> set all" for j
    using sp D(5) [OF that] by (simp add: same_pages_def)
  have mem: "kmemory ?h = kmemory g" using sp by (simp add: same_pages_def)
  have "heap_ok ?h ?all FL" using h2(3) ws all F(5) D(4) mem by (simp add: heap_ok_def pages_ok_def)
  moreover have inj: "inj_on (\<lambda>j. PR_PAGEADDR (pagerefs g ! j)) (set all)" using r by (simp add: heap_repr_def)
  have "inj_on (\<lambda>j. PR_PAGEADDR (pagerefs ?h ! j)) (set ?all)" using inj F(1) all by (simp add: inj_on_def)
  moreover have pr: "page_runs ?h ?all = (page_runs g all)(PR_PAGEADDR ?p := None)"
    using inj F(1) all i by (auto simp: page_runs_def fun_eq_iff inj_on_def)
  moreover have "B ++ page_runs ?h ?all = (B ++ page_runs g all)(PR_PAGEADDR ?p := None)"
  proof -
    have "PR_PAGEADDR ?p \<in> dom (page_runs g all)" using i by (auto simp: page_runs_def)
    then have "B (PR_PAGEADDR ?p) = None" using r by (auto simp: heap_repr_def)
    then show ?thesis unfolding pr by (auto simp: map_add_def fun_eq_iff)
  qed
  ultimately have r': "heap_repr holds ?h ?all FL B" using kp(2) r by (auto simp: heap_repr_def)
  have "blocks ?h ?all FL B = blocks g ?all FL B" by (rule blocks_cong) (use nth all in simp)
  also have "\<dots> = blocks g all FL B" by (rule blocks_full_page [OF r i full])
  finally have "heap holds ?h (blocks g all FL B)" by (rule heapI [OF r'])
  then show ?thesis using h2(1) kp(1) ws(1) mem by (intro exI [of _ h2] exI [of _ kp] exI [of _ ?h]) simp
qed

text \<open>What releasing the block at \<open>a\<close> does: the block is in, the other blocks keep their contents.\<close>

lemma release_heap:
  assumes r: "heap_repr holds h all FL B" and i: "i \<in> set all" and a: "on_block (pagerefs h ! i) a" "a \<notin> set (FL i)"
  shows "\<exists>h'. subpage_release free i a h = Some h' \<and> heap holds h' ((blocks h all FL B)(a := None)) \<and>
    (\<forall>x. x \<notin> {a..<a + bsize (pagerefs h ! i)} \<longrightarrow> kmemory h' x = kmemory h x)"
proof -
  let ?g = "put_state i a (FL i) h" and ?FL = "FL(i := a # FL i)"
  have ok: "heap_ok h all FL" using r by (simp add: heap_repr_def)
  note D = heap_okD [OF ok]
  note P = put_heap [OF r i a]
  have pp: "PR_PAGEADDR (pagerefs ?g ! i) = PR_PAGEADDR (pagerefs h ! i)" "PR_BLOCKTYPE (pagerefs ?g ! i) = PR_BLOCKTYPE (pagerefs h ! i)"
    using P(5) by (simp_all add: PR_PAGEADDR_def PR_BLOCKTYPE_def)
  have lt: "i < length (pagerefs h)" using D(5,6) i by simp
  note eq = release_put [OF lt D(4) [OF i] a, of free]
  show ?thesis
  proof (cases "Suc (length (FL i)) = PAGE_SIZE div bsize (pagerefs h ! i)")
    case True
    then have "length (?FL i) = PAGE_SIZE div bsize (pagerefs ?g ! i)" using pp by simp
    from drop_page [OF P(1) i this] obtain h2 kp h3 where d: "remove_lists i (PR_BLOCKTYPE (pagerefs h ! i)) ?g = Some h2"
      "free (PR_PAGEADDR (pagerefs h ! i)) (kpages h2) = Some kp" "freepageref i (h2\<lparr>kpages := kp\<rparr>) = Some h3" "kmemory h3 = kmemory ?g"
      "heap holds h3 (blocks ?g all ?FL B)" unfolding pp by blast
    then show ?thesis using True P(2,3) eq by (intro exI [of _ h3]) (simp add: Let_def)
  next
    case False
    then show ?thesis using P(2,3) eq heapI [OF P(1)] by (intro exI [of _ ?g]) (simp add: Let_def)
  qed
qed

lemma kfree_heap:
  assumes h: "heap holds h G" and a: "G a = Some s"
  shows "\<exists>h'. kfree free a h = Some h' \<and> heap holds h' (G(a := None)) \<and>
    (\<forall>b t. G b = Some t \<and> b \<noteq> a \<longrightarrow> (\<forall>x \<in> {b..<b + t}. kmemory h' x = kmemory h x))"
proof -
  obtain all FL B where r: "heap_repr holds h all FL B" and G: "G = blocks h all FL B" using h by (auto simp: heap_def)
  have ok: "heap_ok h all FL" and hr: "holds (kpages h) (B ++ page_runs h all)" using r by (simp_all add: heap_repr_def)
  note D = heap_okD [OF ok]
  have ps: "page_search a h (allbase h) = Some (find (\<lambda>i. on_page (pagerefs h ! i) a) all)"
    by (rule page_search_ok [of _ _ _ FL]) (use D(1,4,5,6) in \<open>auto simp: pages_ok_def\<close>)
  show ?thesis
  proof (cases "find (\<lambda>i. on_page (pagerefs h ! i) a) all")
    case (Some i)
    have "i \<in> set all" using Some by (auto simp: find_Some_iff)
    then have i: "i \<in> set all" "on_block (pagerefs h ! i) a" "a \<notin> set (FL i)" "s = bsize (pagerefs h ! i)"
      using a Some by (auto simp: G blocks_def split: if_splits)
    have "a \<noteq> 0" using D(4) [OF i(1)] i(2) by (auto simp: page_ok_def on_block_def on_page_def)
    moreover obtain h' where h': "subpage_release free i a h = Some h'" "heap holds h' (G(a := None))"
      "\<forall>x. x \<notin> {a..<a + s} \<longrightarrow> kmemory h' x = kmemory h x" using release_heap [OF r i(1-3)] G i(4) by auto
    moreover have "\<forall>b t. G b = Some t \<and> b \<noteq> a \<longrightarrow> (\<forall>x \<in> {b..<b + t}. kmemory h' x = kmemory h x)"
      using h'(3) blocks_disjoint [OF r] a unfolding G by blast
    ultimately show ?thesis using ps Some by (intro exI [of _ h']) (simp add: kfree_def subpage_kfree_def)
  next
    case None
    then obtain n where n: "B a = Some n" using a by (auto simp: G blocks_def)
    note R = big_run [OF r n]
    have a0: "0 < a" "a mod 4096 = 0" using run_range [OF hr R(1)] by simp_all
    obtain kp where kp: "free a (kpages h) = Some kp" "holds kp ((B ++ page_runs h all)(a := None))" using free_ok [OF hr, of a] R(1) by auto
    have na: "a \<notin> dom (page_runs h all)" using r n by (auto simp: heap_repr_def)
    then have "(B ++ page_runs h all)(a := None) = B(a := None) ++ page_runs h all" by (auto simp: map_add_def fun_eq_iff split: option.splits)
    then have "heap_repr holds (h\<lparr>pagerefs_inuse := pagerefs_inuse h, kpages := kp\<rparr>) all FL (B(a := None))"
      using heap_repr_pages [OF r D(2,3), of "B(a := None)" kp] kp(2) r by (auto simp: heap_repr_def)
    moreover have "h\<lparr>pagerefs_inuse := pagerefs_inuse h, kpages := kp\<rparr> = h\<lparr>kpages := kp\<rparr>" by simp
    moreover have "blocks (h\<lparr>kpages := kp\<rparr>) all FL (B(a := None)) = blocks h all FL (B(a := None))" by (rule blocks_cong) simp
    moreover have "blocks h all FL (B(a := None)) = G(a := None)" using None unfolding G by (auto simp: blocks_def fun_eq_iff split: option.splits)
    ultimately have "heap holds (h\<lparr>kpages := kp\<rparr>) (G(a := None))" using heapI by metis
    then show ?thesis using ps None a0 kp(1) by (intro exI [of _ "h\<lparr>kpages := kp\<rparr>"]) (simp add: kfree_def subpage_kfree_def)
  qed
qed

lemma heap_disjoint: "heap holds h G \<Longrightarrow> G a = Some s \<Longrightarrow> G b = Some t \<Longrightarrow> a \<noteq> b \<Longrightarrow> {a..<a + s} \<inter> {b..<b + t} = {}"
  using blocks_disjoint unfolding heap_def by blast

end

end
