(* ===== verification/Coremap.thy ===== *)
theory Coremap
  imports Kpages Kern_Bitmap
begin

text \<open>
  Physical memory: \<open>kern/arch/mips/mips/ram.c\<close> and the core map of \<open>kern/vm/vm.c\<close>, which hands out the pages
  of the kernel heap and of user programs.  Addresses are numbers below \<open>2 ^ 32\<close>.  The core map is the block that
  \<open>coremap_init\<close> gets from \<open>kmalloc\<close>; an access outside it panics.

  Two locals of \<open>getppages\<close> are read before they are set: \<open>index\<close> when there is no free page, and \<open>count\<close>.
  Their values are the argument \<open>junk\<close>.  The functions run with interrupts off.
\<close>

section \<open>The model\<close>

abbreviation MIPS_KSEG0 :: nat where "MIPS_KSEG0 \<equiv> 0x80000000"

definition PADDR_TO_KVADDR :: "nat \<Rightarrow> nat" where
  "PADDR_TO_KVADDR paddr = c_uint (paddr + MIPS_KSEG0)"

definition page_frame :: "nat \<Rightarrow> nat" where
  "page_frame a = a div PAGE_SIZE * PAGE_SIZE"

record page_table_entry =
  pte_va :: nat
  pte_pa :: nat
  pte_addr :: "nat option"
  pte_npages :: nat
  pte_time :: nat
  pte_valid :: nat
  pte_dirty :: nat
  pte_locked :: nat
  pte_writeable :: nat

record vm_state =
  firstpaddr :: nat
  lastpaddr :: nat
  gbl_bmp :: bitmap
  coremap :: "page_table_entry list"
  max_page_num :: nat
  mem_start :: nat
  vm_ref :: int
  if_setupcomplete :: bool
  cur_vmspace :: "nat option"

definition ram_bootstrap :: "nat \<Rightarrow> nat \<Rightarrow> vm_state \<Rightarrow> vm_state" where
  "ram_bootstrap ramsize firstfree s =
     s\<lparr>lastpaddr := (if ramsize > 508 * 1024 * 1024 then 508 * 1024 * 1024 else ramsize),
       firstpaddr := c_usub firstfree MIPS_KSEG0\<rparr>"

definition ram_stealmem :: "nat \<Rightarrow> vm_state \<Rightarrow> nat \<times> vm_state" where
  "ram_stealmem npages s = (let sz = c_uint (npages * PAGE_SIZE) in
     if c_uint (firstpaddr s + sz) > lastpaddr s then (0, s)
     else (firstpaddr s, s\<lparr>firstpaddr := c_uint (firstpaddr s + sz)\<rparr>))"

definition ram_getsize :: "vm_state \<Rightarrow> nat \<times> nat \<times> vm_state" where
  "ram_getsize s = (firstpaddr s, lastpaddr s, s\<lparr>firstpaddr := 0, lastpaddr := 0\<rparr>)"

definition cm_at :: "nat \<Rightarrow> vm_state \<Rightarrow> page_table_entry option" where
  "cm_at i s = (if i < length (coremap s) then Some (coremap s ! i) else None)"

definition cm_upd :: "nat \<Rightarrow> (page_table_entry \<Rightarrow> page_table_entry) \<Rightarrow> vm_state \<Rightarrow> vm_state option" where
  "cm_upd i f s = (if i < length (coremap s) then Some (s\<lparr>coremap := (coremap s)[i := f (coremap s ! i)]\<rparr>) else None)"

text \<open>
  The arguments are the result of \<open>mips_ramsize\<close>, and for the bitmap and the core map the number of pages that
  \<open>kmalloc\<close> takes from \<open>ram_stealmem\<close> for them and whether it succeeds.
\<close>

definition coremap_init :: "nat \<Rightarrow> nat \<times> bool \<times> bool \<Rightarrow> nat \<times> page_table_entry kmem \<Rightarrow> vm_state \<Rightarrow> vm_state option" where
  "coremap_init ramsize bmem cmem s = (let (k1, ok, okv) = bmem; (k2, km) = cmem;
      (firstaddr, s1) = ram_stealmem 0 (s\<lparr>if_setupcomplete := False\<rparr>);
      freeaddr = c_uint (firstaddr + 3 * PAGE_SIZE);
      n = c_usub ramsize freeaddr div PAGE_SIZE in do {
     bm \<leftarrow> bitmap_create ok okv n;
     b0 \<leftarrow> bm;
     let s2 = snd (ram_stealmem k1 s1);
     cm \<leftarrow> kalloc km n;
     let s3 = snd (ram_stealmem k2 s2);
     let cm1 = map (\<lambda>i. if i < 3 then cm ! i
         else (cm ! i)\<lparr>pte_pa := c_uint (freeaddr + i * PAGE_SIZE), pte_valid := 0, pte_dirty := 0, pte_locked := 0, pte_writeable := 0\<rparr>) [0..<n];
     b1 \<leftarrow> bitmap_mark b0 0;
     b2 \<leftarrow> bitmap_mark b1 1;
     b3 \<leftarrow> bitmap_mark b2 2;
     Some (s3\<lparr>gbl_bmp := b3, coremap := cm1, max_page_num := n, mem_start := freeaddr, if_setupcomplete := True\<rparr>) })"

text \<open>The physical address of the page, 0 when there is none, and the index that \<open>bitmap_alloc\<close> stores.\<close>

definition get_singlepage :: "vm_state \<Rightarrow> (nat \<times> nat option \<times> vm_state) option" where
  "get_singlepage s = do {
     (r, bm) \<leftarrow> bitmap_alloc (gbl_bmp s);
     let s1 = s\<lparr>gbl_bmp := bm\<rparr>;
     case r of
       Inl _ \<Rightarrow> Some (0, None, s1)
     | Inr index \<Rightarrow> do {
         s2 \<leftarrow> cm_upd index (\<lambda>e. e\<lparr>pte_addr := cur_vmspace s1, pte_time := nat (vm_ref s1 mod 2 ^ 32)\<rparr>) s1;
         e \<leftarrow> cm_at index s2;
         Some (pte_pa e, Some index, s2\<lparr>vm_ref := c_int (vm_ref s2 + 1)\<rparr>) } }"

definition pt_insert :: "nat \<Rightarrow> nat \<Rightarrow> vm_state \<Rightarrow> vm_state option" where
  "pt_insert vaddr paddr s = do {
     let index = c_usub paddr (mem_start s) div PAGE_SIZE;
     s1 \<leftarrow> cm_upd index (\<lambda>e. e\<lparr>pte_va := vaddr, pte_pa := paddr, pte_valid := 1, pte_time := nat (vm_ref s mod 2 ^ 32),
       pte_addr := cur_vmspace s\<rparr>) s;
     let s2 = s1\<lparr>vm_ref := c_int (vm_ref s1 + 1)\<rparr>;
     set \<leftarrow> bitmap_isset (gbl_bmp s2) index;
     if set = 0 then do { bm \<leftarrow> bitmap_mark (gbl_bmp s2) index; Some (s2\<lparr>gbl_bmp := bm\<rparr>) }
     else Some s2 }"

text \<open>The loop that looks for \<open>npages\<close> free pages in a row, from page \<open>i\<close> on: the final values of \<open>i\<close> and \<open>count\<close>.\<close>

function find_run :: "nat \<Rightarrow> nat \<Rightarrow> int \<Rightarrow> vm_state \<Rightarrow> (nat \<times> int) option" where
  "find_run npages i count s =
     (if i < max_page_num s then do {
        set \<leftarrow> bitmap_isset (gbl_bmp s) i;
        if set \<noteq> 0 then find_run npages (i + 1) 0 s
        else if c_int (count + 1) = int npages then Some (i, c_int (count + 1))
        else find_run npages (i + 1) (c_int (count + 1)) s }
      else Some (i, count))"
  by pat_completeness auto
termination
  by (relation "measure (\<lambda>(npages, i, count, s). max_page_num s - i)") auto

declare find_run.simps [simp del]

text \<open>The loop that takes \<open>count\<close> pages from \<open>index\<close> on.\<close>

fun mark_run :: "nat \<Rightarrow> nat \<Rightarrow> vm_state \<Rightarrow> vm_state option" where
  "mark_run index 0 s = Some s"
| "mark_run index (Suc count) s = do {
     bm \<leftarrow> bitmap_mark (gbl_bmp s) index;
     let s1 = s\<lparr>gbl_bmp := bm\<rparr>;
     e \<leftarrow> cm_at index s1;
     s2 \<leftarrow> pt_insert (PADDR_TO_KVADDR (pte_pa e)) (pte_pa e) s1;
     mark_run (index + 1) count s2 }"

definition getppages :: "nat \<times> int \<Rightarrow> nat \<Rightarrow> vm_state \<Rightarrow> (nat \<times> vm_state) option" where
  "getppages junk npages s = do {
     kassert (npages > 0);
     if \<not> if_setupcomplete s then (let (paddr, s1) = ram_stealmem npages s in Some (page_frame paddr, s1))
     else if npages = 1 then do {
       (paddr, ix, s1) \<leftarrow> get_singlepage s;
       s2 \<leftarrow> cm_upd (case ix of Some i \<Rightarrow> i | None \<Rightarrow> fst junk) (\<lambda>e. e\<lparr>pte_npages := npages\<rparr>) s1;
       if paddr = 0 then Some (0, s2)
       else do {
         s3 \<leftarrow> pt_insert (PADDR_TO_KVADDR paddr) paddr s2;
         Some (page_frame paddr, s3) } }
     else do {
       (i, count) \<leftarrow> find_run npages 0 (snd junk) s;
       if count mod 2 ^ 32 \<noteq> int npages then Some (0, s)
       else do {
         let index = nat ((int i + 1 - count) mod 2 ^ 32);
         s1 \<leftarrow> mark_run index (nat count) s;
         e \<leftarrow> cm_at index s1;
         s2 \<leftarrow> cm_upd index (\<lambda>e. e\<lparr>pte_npages := npages\<rparr>) s1;
         Some (page_frame (pte_pa e), s2) } } }"

definition coremap_remove :: "nat \<Rightarrow> nat \<Rightarrow> vm_state \<Rightarrow> vm_state option" where
  "coremap_remove paddr index s =
     (if index > max_page_num s then Some s
      else do {
        e \<leftarrow> cm_at index s;
        kassert (page_frame (pte_pa e) = page_frame paddr);
        s1 \<leftarrow> cm_upd index (\<lambda>e. e\<lparr>pte_va := 0, pte_valid := 0, pte_npages := 0, pte_pa := page_frame paddr\<rparr>) s;
        set \<leftarrow> bitmap_isset (gbl_bmp s1) index;
        if set \<noteq> 0 then do { bm \<leftarrow> bitmap_unmark (gbl_bmp s1) index; Some (s1\<lparr>gbl_bmp := bm\<rparr>) }
        else Some s1 })"

text \<open>The loop \<open>for (j = 0; j < coremap[i].npages; j++)\<close>, which reads the bound anew each time.\<close>

partial_function (option) free_loop :: "nat \<Rightarrow> nat \<Rightarrow> vm_state \<Rightarrow> vm_state option" where
  "free_loop i j s = Option.bind (cm_at i s) (\<lambda>e.
     if j < pte_npages e then
       Option.bind (cm_at (i + j) s) (\<lambda>x.
         Option.bind (coremap_remove (pte_pa x) (i + j) s) (\<lambda>s1. free_loop i (j + 1) s1))
     else Some s)"

definition free_kpages :: "nat \<Rightarrow> vm_state \<Rightarrow> vm_state option" where
  "free_kpages addr s = do {
     let i = (case find (\<lambda>i. pte_va (coremap s ! i) = addr) [3..<max_page_num s] of Some i \<Rightarrow> i | None \<Rightarrow> max 3 (max_page_num s));
     e \<leftarrow> cm_at i s;
     if pte_va e \<noteq> addr then Some s else free_loop i 0 s }"

definition alloc_kpages :: "nat \<times> int \<Rightarrow> nat \<Rightarrow> vm_state \<Rightarrow> (nat \<times> vm_state) option" where
  "alloc_kpages junk npages s = do {
     (pa, s1) \<leftarrow> getppages junk npages s;
     Some (if pa = 0 then 0 else PADDR_TO_KVADDR pa, s1) }"

end
