(* ===== verification/Coremap_Inv.thy ===== *)
theory Coremap_Inv
  imports Coremap
begin

text \<open>
  The invariant of the core map, and that it is a page allocator for the kernel heap: \<open>cm_holds junk s G\<close> says that
  the runs of pages of \<open>G\<close> are out.
\<close>

section \<open>The invariant\<close>

text \<open>The kernel address of page \<open>i\<close>.\<close>

definition kva :: "vm_state \<Rightarrow> nat \<Rightarrow> nat" where
  "kva s i = MIPS_KSEG0 + mem_start s + i * PAGE_SIZE"

text \<open>An entry has the address of its page, and the kernel address of no other page.\<close>

definition entry_ok :: "vm_state \<Rightarrow> nat \<Rightarrow> page_table_entry \<Rightarrow> bool" where
  "entry_ok s i e \<longleftrightarrow> pte_pa e = mem_start s + i * PAGE_SIZE \<and> (\<forall>k. pte_va e = kva s k \<longrightarrow> k = i)"

definition cm_ok :: "vm_state \<Rightarrow> bool" where
  "cm_ok s \<longleftrightarrow> if_setupcomplete s \<and> bitmap_inv (gbl_bmp s) \<and> b_nbits (gbl_bmp s) = max_page_num s \<and>
     length (coremap s) = max_page_num s \<and> {0, 1, 2} \<subseteq> bitmap_used (gbl_bmp s) \<and>
     mem_start s mod PAGE_SIZE = 0 \<and> mem_start s + max_page_num s * PAGE_SIZE \<le> 2 ^ 29 \<and>
     (\<forall>i \<in> {3..<max_page_num s}. entry_ok s i (coremap s ! i))"

text \<open>Page \<open>i\<close> starts a run of \<open>n\<close> pages that is out.\<close>

definition run_at :: "vm_state \<Rightarrow> nat \<Rightarrow> nat \<Rightarrow> bool" where
  "run_at s i n \<longleftrightarrow> 3 \<le> i \<and> 0 < n \<and> i + n \<le> max_page_num s \<and> {i..<i + n} \<subseteq> bitmap_used (gbl_bmp s) \<and>
     pte_va (coremap s ! i) = kva s i \<and> 0 < pte_npages (coremap s ! i)"

definition cm_holds :: "nat \<times> int \<Rightarrow> vm_state \<Rightarrow> (nat \<rightharpoonup> nat) \<Rightarrow> bool" where
  "cm_holds junk s G \<longleftrightarrow> cm_ok s \<and> fst junk < max_page_num s \<and>
     (\<forall>a n. G a = Some n \<longrightarrow> (\<exists>i. a = kva s i \<and> run_at s i n)) \<and>
     (\<forall>i j m n. G (kva s i) = Some m \<and> G (kva s j) = Some n \<and> i \<noteq> j \<longrightarrow> {i..<i + m} \<inter> {j..<j + n} = {})"

lemma kva_inj [simp]: "kva s i = kva s j \<longleftrightarrow> i = j"
  by (simp add: kva_def)

lemma cm_okD:
  assumes "cm_ok s"
  shows "if_setupcomplete s" "bitmap_inv (gbl_bmp s)" "b_nbits (gbl_bmp s) = max_page_num s" "length (coremap s) = max_page_num s"
    "0 \<in> bitmap_used (gbl_bmp s)" "mem_start s mod PAGE_SIZE = 0" "mem_start s + max_page_num s * PAGE_SIZE \<le> 2 ^ 29"
    "3 \<le> i \<Longrightarrow> i < max_page_num s \<Longrightarrow> pte_pa (coremap s ! i) = mem_start s + i * PAGE_SIZE"
    "i < max_page_num s \<Longrightarrow> i \<notin> bitmap_used (gbl_bmp s) \<Longrightarrow> 3 \<le> i"
    "3 \<le> i \<Longrightarrow> i < max_page_num s \<Longrightarrow> entry_ok s i (coremap s ! i)"
proof -
  show "3 \<le> i" if "i \<notin> bitmap_used (gbl_bmp s)"
  proof (rule ccontr)
    assume "\<not> 3 \<le> i"
    then have "i = 0 \<or> i = 1 \<or> i = 2" by linarith
    then show False using assms that unfolding cm_ok_def by auto
  qed
qed (use assms in \<open>simp_all add: cm_ok_def entry_ok_def\<close>)

text \<open>Numbers of pages and addresses do not wrap.\<close>

lemma page_addr:
  assumes ok: "cm_ok s" and i: "i < max_page_num s"
  shows "c_usub (mem_start s + i * PAGE_SIZE) (mem_start s) div PAGE_SIZE = i"
    "PADDR_TO_KVADDR (mem_start s + i * PAGE_SIZE) = kva s i" "page_frame (mem_start s + i * PAGE_SIZE) = mem_start s + i * PAGE_SIZE"
    "mem_start s + (i + 1) * PAGE_SIZE \<le> 2 ^ 29"
proof -
  have "(i + 1) * 4096 \<le> max_page_num s * 4096" using i by (intro mult_le_mono1) simp
  then show le: "mem_start s + (i + 1) * PAGE_SIZE \<le> 2 ^ 29" using cm_okD(7) [OF ok] by linarith
  then have lt: "mem_start s + i * 4096 < 2 ^ 29" by simp
  then have "c_usub (mem_start s + i * PAGE_SIZE) (mem_start s) = i * 4096" by (subst c_usub_id) simp_all
  then show "c_usub (mem_start s + i * PAGE_SIZE) (mem_start s) div PAGE_SIZE = i" by simp
  show "PADDR_TO_KVADDR (mem_start s + i * PAGE_SIZE) = kva s i"
    using lt by (simp add: PADDR_TO_KVADDR_def kva_def c_uint_id)
  show "page_frame (mem_start s + i * PAGE_SIZE) = mem_start s + i * PAGE_SIZE" using cm_okD(6) [OF ok] by (auto simp: page_frame_def)
qed

lemma pages_used: "run_at s i n \<Longrightarrow> k \<in> {i..<i + n} \<Longrightarrow> k \<in> bitmap_used (gbl_bmp s)"
  by (auto simp: run_at_def)

section \<open>One page\<close>

text \<open>What an operation changes: entries outside \<open>T\<close> keep their address and stay in use or free.\<close>

definition cm_step :: "nat set \<Rightarrow> vm_state \<Rightarrow> vm_state \<Rightarrow> bool" where
  "cm_step T s s' \<longleftrightarrow> cm_ok s' \<and> max_page_num s' = max_page_num s \<and> mem_start s' = mem_start s \<and>
     (\<forall>k. k \<notin> T \<longrightarrow> (k \<in> bitmap_used (gbl_bmp s') \<longleftrightarrow> k \<in> bitmap_used (gbl_bmp s)) \<and>
        pte_va (coremap s' ! k) = pte_va (coremap s ! k) \<and> (0 < pte_npages (coremap s ! k) \<longrightarrow> 0 < pte_npages (coremap s' ! k)))"

lemma cm_step_kva [simp]: "cm_step T s s' \<Longrightarrow> kva s' i = kva s i"
  by (simp add: cm_step_def kva_def)

lemma cm_step_run: "cm_step T s s' \<Longrightarrow> run_at s i n \<Longrightarrow> T \<inter> {i..<i + n} = {} \<Longrightarrow> run_at s' i n"
proof -
  assume st: "cm_step T s s'" and r: "run_at s i n" and T: "T \<inter> {i..<i + n} = {}"
  then have "i \<notin> T" by (auto simp: run_at_def)
  moreover from st have "\<forall>k. k \<notin> T \<longrightarrow> (k \<in> bitmap_used (gbl_bmp s') \<longleftrightarrow> k \<in> bitmap_used (gbl_bmp s))" "max_page_num s' = max_page_num s"
    "mem_start s' = mem_start s" "i \<notin> T \<longrightarrow> pte_va (coremap s' ! i) = pte_va (coremap s ! i) \<and> (0 < pte_npages (coremap s ! i) \<longrightarrow> 0 < pte_npages (coremap s' ! i))"
    unfolding cm_step_def by auto
  ultimately show ?thesis using r T by (auto simp: run_at_def kva_def)
qed

lemma cm_step_refl: "cm_ok s \<Longrightarrow> cm_step T s s"
  by (simp add: cm_step_def)

lemma cm_step_trans: "cm_step T s s' \<Longrightarrow> cm_step T s' s'' \<Longrightarrow> cm_step T s s''"
  by (simp add: cm_step_def)

lemma cm_step_mono: "cm_step T s s' \<Longrightarrow> T \<subseteq> T' \<Longrightarrow> cm_step T' s s'"
  unfolding cm_step_def by blast

text \<open>The runs that are out after a step: those that the step does not touch, and perhaps a new one.\<close>

lemma holdsD:
  assumes "cm_holds junk s G"
  shows "cm_ok s" "fst junk < max_page_num s" "G a = Some n \<Longrightarrow> \<exists>i. a = kva s i \<and> run_at s i n"
    "G (kva s i) = Some m \<Longrightarrow> run_at s i m"
    "G (kva s i) = Some m \<Longrightarrow> G (kva s j) = Some n \<Longrightarrow> i \<noteq> j \<Longrightarrow> {i..<i + m} \<inter> {j..<j + n} = {}"
proof -
  show "\<exists>i. a = kva s i \<and> run_at s i n" if "G a = Some n" for a n using assms that by (auto simp: cm_holds_def)
  then show "run_at s i m" if "G (kva s i) = Some m" using that by fastforce
qed (use assms in \<open>auto simp: cm_holds_def\<close>)

lemma holds_keep:
  assumes h: "cm_holds junk s G" and st: "cm_step T s s'" and sub: "G' \<subseteq>\<^sub>m G"
    and T: "\<And>i n. G' (kva s i) = Some n \<Longrightarrow> T \<inter> {i..<i + n} = {}"
  shows "cm_holds junk s' G'"
proof -
  have G: "G a = Some n" if "G' a = Some n" for a n using sub that by (auto simp: map_le_def dom_def)
  have "\<exists>i. a = kva s' i \<and> run_at s' i n" if "G' a = Some n" for a n
    using holdsD(3) [OF h G [OF that]] cm_step_run [OF st] T that cm_step_kva [OF st] by metis
  moreover have "{i..<i + m} \<inter> {j..<j + n} = {}" if "G' (kva s' i) = Some m" "G' (kva s' j) = Some n" "i \<noteq> j" for i j m n
    using holdsD(5) [OF h G G that(3)] that(1,2) cm_step_kva [OF st] by simp
  moreover have "cm_ok s'" "fst junk < max_page_num s'" using st holdsD(2) [OF h] by (simp_all add: cm_step_def)
  ultimately show ?thesis unfolding cm_holds_def by blast
qed

lemma holds_new:
  assumes h: "cm_holds junk s G" and st: "cm_step {i..<i + n} s s'" and free: "{i..<i + n} \<inter> bitmap_used (gbl_bmp s) = {}" and r: "run_at s' i n"
  shows "kva s i \<notin> dom G" "cm_holds junk s' (G(kva s i \<mapsto> n))"
proof -
  have apart: "{i..<i + n} \<inter> {j..<j + m} = {}" if "G (kva s j) = Some m" for j m
    using holdsD(4) [OF h that] free unfolding run_at_def by blast
  have ne: "0 < n" using r by (simp add: run_at_def)
  show new: "kva s i \<notin> dom G"
  proof
    assume "kva s i \<in> dom G"
    then obtain m where m: "G (kva s i) = Some m" by blast
    then have "0 < m" using holdsD(4) [OF h m] by (simp add: run_at_def)
    then show False using apart [OF m] ne by auto
  qed
  have keep: "cm_holds junk s' G" by (rule holds_keep [OF h st]) (use apart in auto)
  let ?G = "G(kva s i \<mapsto> n)"
  have k: "kva s' j = kva s j" for j using st by simp
  have "\<exists>j. a = kva s' j \<and> run_at s' j m" if "?G a = Some m" for a m
    using that r holdsD(3) [OF keep] k by (auto split: if_splits)
  moreover have "{j..<j + m} \<inter> {l..<l + q} = {}" if "?G (kva s' j) = Some m" "?G (kva s' l) = Some q" "j \<noteq> l" for j l m q
    using that holdsD(5) [OF keep, of j m l q] apart [of l q] apart [of j m] k by (auto split: if_splits)
  ultimately show "cm_holds junk s' ?G" using holdsD(1,2) [OF keep] unfolding cm_holds_def by blast
qed

lemma entry_step:
  assumes ok: "cm_ok s" and i: "i < max_page_num s" and e: "3 \<le> i \<Longrightarrow> pte_pa e = mem_start s + i * PAGE_SIZE"
    "pte_va e = pte_va (coremap s ! i) \<or> pte_va e = kva s i \<or> pte_va e < MIPS_KSEG0"
    and bm: "bitmap_inv bm" "b_nbits bm = max_page_num s" "\<And>k. k \<noteq> i \<Longrightarrow> k \<in> bitmap_used bm \<longleftrightarrow> k \<in> bitmap_used (gbl_bmp s)"
      "i < 3 \<Longrightarrow> i \<in> bitmap_used bm"
  shows "cm_step {i} s (s\<lparr>gbl_bmp := bm, coremap := (coremap s)[i := e], vm_ref := r\<rparr>)"
proof -
  let ?s = "s\<lparr>gbl_bmp := bm, coremap := (coremap s)[i := e], vm_ref := r\<rparr>"
  have nth: "(coremap s)[i := e] ! k = (if k = i then e else coremap s ! k)" for k
    using i cm_okD(4) [OF ok] by (simp add: nth_list_update)
  have ek: "entry_ok ?s k x = entry_ok s k x" for k x by (simp add: entry_ok_def kva_def)
  have "entry_ok s k ((coremap s)[i := e] ! k)" if "k \<in> {3..<max_page_num s}" for k
  proof (cases "k = i")
    case True
    then show ?thesis using that e cm_okD(10) [OF ok, of i] by (auto simp: nth entry_ok_def) (simp_all add: kva_def)
  qed (use that cm_okD(10) [OF ok] in \<open>simp add: nth\<close>)
  then have ent: "\<forall>k \<in> {3..<max_page_num ?s}. entry_ok ?s k (coremap ?s ! k)" unfolding ek by simp
  have "k \<in> bitmap_used bm" if "k \<in> {0, 1, 2}" for k
  proof (cases "k = i")
    case True
    then show ?thesis using that bm(4) by auto
  next
    case False
    then show ?thesis using that bm(3) ok unfolding cm_ok_def by blast
  qed
  then have "{0, 1, 2} \<subseteq> bitmap_used (gbl_bmp ?s)" by simp
  then have "cm_ok ?s" using ent ok bm(1,2) unfolding cm_ok_def by simp
  then show ?thesis using bm(3) by (simp add: cm_step_def nth)
qed

lemma singlepage_ok:
  assumes ok: "cm_ok s"
  shows "(\<exists>i s'. get_singlepage s = Some (mem_start s + i * PAGE_SIZE, Some i, s') \<and> 3 \<le> i \<and> i < max_page_num s \<and>
      i \<notin> bitmap_used (gbl_bmp s) \<and> cm_step {i} s s' \<and> bitmap_used (gbl_bmp s') = insert i (bitmap_used (gbl_bmp s))) \<or>
    get_singlepage s = Some (0, None, s) \<and> bitmap_used (gbl_bmp s) = {0..<max_page_num s}"
  using bm.alloc [OF cm_okD(2) [OF ok]]
proof
  assume "\<exists>i s'. bitmap_alloc (gbl_bmp s) = Some (Inr i, s') \<and> i < b_nbits (gbl_bmp s) \<and> i \<notin> bitmap_used (gbl_bmp s) \<and>
    (\<forall>j<i. j \<in> bitmap_used (gbl_bmp s)) \<and> bitmap_inv s' \<and> b_nbits s' = b_nbits (gbl_bmp s) \<and> bitmap_used s' = insert i (bitmap_used (gbl_bmp s))"
  then obtain i b where b: "bitmap_alloc (gbl_bmp s) = Some (Inr i, b)" "i < max_page_num s" "i \<notin> bitmap_used (gbl_bmp s)"
    "bitmap_inv b" "b_nbits b = max_page_num s" "bitmap_used b = insert i (bitmap_used (gbl_bmp s))"
    using cm_okD(3) [OF ok] by auto
  have i3: "3 \<le> i" using cm_okD(9) [OF ok b(2,3)] .
  let ?e = "(coremap s ! i)\<lparr>pte_addr := cur_vmspace s, pte_time := nat (vm_ref s mod 2 ^ 32)\<rparr>"
  let ?s = "s\<lparr>gbl_bmp := b, coremap := (coremap s)[i := ?e], vm_ref := c_int (vm_ref s + 1)\<rparr>"
  have "get_singlepage s = Some (mem_start s + i * PAGE_SIZE, Some i, ?s)"
    using b(1,2) cm_okD(4) [OF ok] cm_okD(8) [OF ok i3 b(2)] by (simp add: get_singlepage_def cm_upd_def cm_at_def)
  moreover have "cm_step {i} s ?s" using b i3 cm_okD(8) [OF ok i3 b(2)] by (intro entry_step [OF ok b(2)]) auto
  ultimately show ?thesis using b i3 by auto
next
  assume "bitmap_alloc (gbl_bmp s) = Some (Inl ENOSPC, gbl_bmp s) \<and> bitmap_used (gbl_bmp s) = {0..<b_nbits (gbl_bmp s)}"
  then show ?thesis using cm_okD(3) [OF ok] by (simp add: get_singlepage_def)
qed

lemma pt_insert_ok:
  assumes ok: "cm_ok s" and i: "3 \<le> i" "i < max_page_num s" and v: "v = kva s i \<or> v < MIPS_KSEG0"
  shows "\<exists>s'. pt_insert v (mem_start s + i * PAGE_SIZE) s = Some s' \<and> cm_step {i} s s' \<and>
    bitmap_used (gbl_bmp s') = insert i (bitmap_used (gbl_bmp s)) \<and> pte_va (coremap s' ! i) = v \<and>
    pte_npages (coremap s' ! i) = pte_npages (coremap s ! i)"
proof -
  let ?pa = "mem_start s + i * PAGE_SIZE"
  let ?e = "(coremap s ! i)\<lparr>pte_va := v, pte_pa := ?pa, pte_valid := 1, pte_time := nat (vm_ref s mod 2 ^ 32), pte_addr := cur_vmspace s\<rparr>"
  note D = cm_okD(2-4) [OF ok]
  obtain w where w: "bitmap_isset (gbl_bmp s) i = Some w" "w \<noteq> 0 \<longleftrightarrow> i \<in> bitmap_used (gbl_bmp s)"
    using bitmap_isset_correct [OF D(1), of i] i(2) D(2) by auto
  obtain b where b: "(if w = 0 then bitmap_mark (gbl_bmp s) i else Some (gbl_bmp s)) = Some b" "bitmap_inv b" "b_nbits b = max_page_num s"
    "bitmap_used b = insert i (bitmap_used (gbl_bmp s))"
  proof (cases "w = 0")
    case True
    then show ?thesis using bitmap_mark_correct [OF D(1), of i] w(2) i(2) D(2) that by auto
  next
    case False
    then show ?thesis using w(2) D(1,2) that [of "gbl_bmp s"] by auto
  qed
  let ?s = "s\<lparr>gbl_bmp := b, coremap := (coremap s)[i := ?e], vm_ref := c_int (vm_ref s + 1)\<rparr>"
  have ix: "c_usub ?pa (mem_start s) div PAGE_SIZE = i" by (rule page_addr(1) [OF ok i(2)])
  have "pt_insert v ?pa s = Some ?s"
    using i(2) D(3) w(1) b(1) unfolding pt_insert_def Let_def ix by (cases "w = 0") (simp_all add: cm_upd_def)
  moreover have "cm_step {i} s ?s" by (rule entry_step [OF ok i(2) _ _ b(2,3)]) (use v i(1) b(4) in simp_all)
  ultimately show ?thesis using b(4) i(2) D(3) by (intro exI [of _ ?s]) simp
qed

lemma npages_step:
  assumes ok: "cm_ok s" and i: "i < max_page_num s" and n: "0 < n"
  shows "\<exists>s'. cm_upd i (\<lambda>e. e\<lparr>pte_npages := n\<rparr>) s = Some s' \<and> cm_step {} s s' \<and> gbl_bmp s' = gbl_bmp s \<and>
    pte_npages (coremap s' ! i) = n \<and> pte_va (coremap s' ! i) = pte_va (coremap s ! i)"
proof -
  let ?e = "(coremap s ! i)\<lparr>pte_npages := n\<rparr>"
  let ?s = "s\<lparr>coremap := (coremap s)[i := ?e]\<rparr>"
  note D = cm_okD [OF ok]
  have "s\<lparr>gbl_bmp := gbl_bmp s, coremap := (coremap s)[i := ?e], vm_ref := vm_ref s\<rparr> = ?s" by simp
  moreover have "cm_step {i} s (s\<lparr>gbl_bmp := gbl_bmp s, coremap := (coremap s)[i := ?e], vm_ref := vm_ref s\<rparr>)"
    by (rule entry_step [OF ok i _ _ D(2,3)]) (use D(8) [OF _ i] D(9) [OF i] in \<open>simp_all, fastforce\<close>)
  ultimately have st: "cm_step {i} s ?s" by simp
  then have "cm_step {} s ?s" using n i D(4) by (auto simp: cm_step_def nth_list_update)
  then show ?thesis using i D(4) by (auto simp: cm_upd_def)
qed

section \<open>Runs of pages\<close>

lemma find_run_ok:
  assumes ok: "cm_ok s" and n: "int npages < 2 ^ 31"
    and c: "0 \<le> count" "count < int npages" "nat count \<le> i" "i \<le> max_page_num s" "{i - nat count..<i} \<inter> bitmap_used (gbl_bmp s) = {}"
  shows "\<exists>i' c'. find_run npages i count s = Some (i', c') \<and> 0 \<le> c' \<and> c' \<le> int npages \<and>
    (c' = int npages \<longrightarrow> i' < max_page_num s \<and> npages \<le> i' + 1 \<and> {i' + 1 - npages..<i' + 1} \<inter> bitmap_used (gbl_bmp s) = {})"
  using c
proof (induction "max_page_num s - i" arbitrary: i count)
  case 0
  then show ?case by (subst find_run.simps) simp
next
  case (Suc m)
  then have i: "i < max_page_num s" by simp
  obtain w where w: "bitmap_isset (gbl_bmp s) i = Some w" "w \<noteq> 0 \<longleftrightarrow> i \<in> bitmap_used (gbl_bmp s)"
    using bitmap_isset_correct [OF cm_okD(2) [OF ok], of i] i cm_okD(3) [OF ok] by auto
  have c1: "c_int (count + 1) = count + 1" using Suc.prems n by (intro c_int_id) auto
  show ?case
  proof (cases "w = 0")
    case False
    have "\<exists>i' c'. find_run npages (i + 1) 0 s = Some (i', c') \<and> 0 \<le> c' \<and> c' \<le> int npages \<and>
      (c' = int npages \<longrightarrow> i' < max_page_num s \<and> npages \<le> i' + 1 \<and> {i' + 1 - npages..<i' + 1} \<inter> bitmap_used (gbl_bmp s) = {})"
      by (rule Suc.hyps) (use Suc.hyps(2) Suc.prems i in auto)
    then show ?thesis using i w False by (subst find_run.simps) simp
  next
    case True
    then have free: "{i - nat count..<i + 1} \<inter> bitmap_used (gbl_bmp s) = {}" using w(2) Suc.prems(5) by (auto simp: less_Suc_eq)
    show ?thesis
    proof (cases "count + 1 = int npages")
      case True
      then have "i + 1 - npages = i - nat count" "npages \<le> i + 1" using Suc.prems by linarith+
      then show ?thesis using i w \<open>w = 0\<close> c1 True free Suc.prems by (subst find_run.simps) auto
    next
      case False
      have "i + 1 - nat (count + 1) = i - nat count" using Suc.prems by linarith
      then have "\<exists>i' c'. find_run npages (i + 1) (count + 1) s = Some (i', c') \<and> 0 \<le> c' \<and> c' \<le> int npages \<and>
        (c' = int npages \<longrightarrow> i' < max_page_num s \<and> npages \<le> i' + 1 \<and> {i' + 1 - npages..<i' + 1} \<inter> bitmap_used (gbl_bmp s) = {})"
        by (intro Suc.hyps) (use Suc.hyps(2) Suc.prems i False free in auto)
      then show ?thesis using i w True c1 False by (subst find_run.simps) simp
    qed
  qed
qed

lemma mark_run_ok:
  assumes "cm_ok s" "3 \<le> i" "i + c \<le> max_page_num s" "{i..<i + c} \<inter> bitmap_used (gbl_bmp s) = {}"
  shows "\<exists>s'. mark_run i c s = Some s' \<and> cm_step {i..<i + c} s s' \<and> {i..<i + c} \<subseteq> bitmap_used (gbl_bmp s') \<and>
    (0 < c \<longrightarrow> pte_va (coremap s' ! i) = kva s i)"
  using assms
proof (induction c arbitrary: i s)
  case 0
  then show ?case by (simp add: cm_step_refl)
next
  case (Suc c)
  note ok = Suc.prems(1) and i = Suc.prems(2)
  have "i \<in> {i..<i + Suc c}" by simp
  then have lt: "i < max_page_num s" "i \<notin> bitmap_used (gbl_bmp s)" using Suc.prems(3,4) by (simp, blast)
  note D = cm_okD [OF ok]
  obtain b where b: "bitmap_mark (gbl_bmp s) i = Some b" "bitmap_inv b" "b_nbits b = max_page_num s" "bitmap_used b = insert i (bitmap_used (gbl_bmp s))"
    using bitmap_mark_correct [OF D(2), of i] lt D(3) by auto
  let ?s1 = "s\<lparr>gbl_bmp := b\<rparr>"
  have "cm_step {i} s (s\<lparr>gbl_bmp := b, coremap := (coremap s)[i := coremap s ! i], vm_ref := vm_ref s\<rparr>)"
    by (rule entry_step [OF ok lt(1) _ _ b(2,3)]) (use b(4) D(8) i lt in auto)
  then have s1: "cm_step {i} s ?s1" by simp
  then have ok1: "cm_ok ?s1" by (simp add: cm_step_def)
  have pa: "cm_at i ?s1 = Some (coremap s ! i)" "pte_pa (coremap s ! i) = mem_start ?s1 + i * PAGE_SIZE"
    using lt D(4) D(8) [OF i lt(1)] by (simp_all add: cm_at_def)
  have kv: "PADDR_TO_KVADDR (mem_start ?s1 + i * PAGE_SIZE) = kva ?s1 i" using page_addr(2) [OF ok1, of i] lt by simp
  obtain s2 where s2: "pt_insert (kva ?s1 i) (mem_start ?s1 + i * PAGE_SIZE) ?s1 = Some s2" "cm_step {i} ?s1 s2"
    "bitmap_used (gbl_bmp s2) = insert i (bitmap_used b)" "pte_va (coremap s2 ! i) = kva ?s1 i"
    using pt_insert_ok [OF ok1 i, of "kva ?s1 i"] lt by auto
  have st2: "cm_step {i} s s2" using cm_step_trans [OF s1 s2(2)] .
  obtain s3 where s3: "mark_run (i + 1) c s2 = Some s3" "cm_step {i + 1..<i + 1 + c} s2 s3" "{i + 1..<i + 1 + c} \<subseteq> bitmap_used (gbl_bmp s3)"
  proof -
    have "cm_ok s2" "i + 1 + c \<le> max_page_num s2" using st2 Suc.prems(3) by (simp_all add: cm_step_def)
    moreover have "{i + 1..<i + 1 + c} \<inter> bitmap_used (gbl_bmp s2) = {}"
      using Suc.prems(4) unfolding s2(3) b(4) disjoint_iff by simp
    ultimately show ?thesis using Suc.IH [of s2 "i + 1"] i that by auto
  qed
  have "cm_step {i..<i + Suc c} s s3"
    by (rule cm_step_trans [OF cm_step_mono [OF st2] cm_step_mono [OF s3(2)]]) auto
  moreover have "i \<notin> {i + 1..<i + 1 + c}" by simp
  then have "i \<in> bitmap_used (gbl_bmp s3)" "pte_va (coremap s3 ! i) = kva s i"
    using s3(2) s2(3,4) cm_step_kva [OF s1] unfolding cm_step_def by auto
  moreover have "mark_run i (Suc c) s = Some s3" using b(1) pa kv s2(1) s3(1) by (simp add: Let_def)
  moreover have "{i..<i + Suc c} = insert i {i + 1..<i + 1 + c}" by auto
  then have "{i..<i + Suc c} \<subseteq> bitmap_used (gbl_bmp s3)" using s3(3) calculation(2) by simp
  ultimately show ?case by (intro exI [of _ s3]) (simp only: simp_thms)
qed

section \<open>The page allocator\<close>

text \<open>The result of \<open>getppages\<close> with \<open>n\<close> pages asked for: no page, or the first page of a new run.\<close>

definition got :: "nat \<times> int \<Rightarrow> vm_state \<Rightarrow> (nat \<rightharpoonup> nat) \<Rightarrow> nat \<Rightarrow> nat \<Rightarrow> vm_state \<Rightarrow> bool" where
  "got junk s G n p s' \<longleftrightarrow> (if p = 0 then cm_holds junk s' G
     else \<exists>i. p = mem_start s + i * PAGE_SIZE \<and> i < max_page_num s \<and> kva s i \<notin> dom G \<and> cm_holds junk s' (G(kva s i \<mapsto> n)))"

lemma gotI: "p = mem_start s + i * PAGE_SIZE \<Longrightarrow> p \<noteq> 0 \<Longrightarrow> i < max_page_num s \<Longrightarrow> kva s i \<notin> dom G \<Longrightarrow>
    cm_holds junk s' (G(kva s i \<mapsto> n)) \<Longrightarrow> got junk s G n p s'"
  unfolding got_def by (subst if_not_P) (assumption, intro exI [of _ i] conjI)

lemma getppages_single:
  assumes h: "cm_holds junk s G"
  shows "\<exists>p s'. getppages junk 1 s = Some (p, s') \<and> got junk s G 1 p s'"
proof -
  note H = holdsD [OF h]
  note ok = H(1) and up = cm_okD(1) [OF H(1)]
  from singlepage_ok [OF ok] show ?thesis
  proof
    assume "get_singlepage s = Some (0, None, s) \<and> bitmap_used (gbl_bmp s) = {0..<max_page_num s}"
    moreover obtain s' where s': "cm_upd (fst junk) (\<lambda>e. e\<lparr>pte_npages := 1\<rparr>) s = Some s'" "cm_step {} s s'"
      using npages_step [OF ok H(2), of 1] by auto
    moreover have "cm_holds junk s' G" by (rule holds_keep [OF h s'(2)]) simp_all
    ultimately show ?thesis using up by (simp add: getppages_def got_def)
  next
    assume "\<exists>i s'. get_singlepage s = Some (mem_start s + i * PAGE_SIZE, Some i, s') \<and> 3 \<le> i \<and> i < max_page_num s \<and>
      i \<notin> bitmap_used (gbl_bmp s) \<and> cm_step {i} s s' \<and> bitmap_used (gbl_bmp s') = insert i (bitmap_used (gbl_bmp s))"
    then obtain i s1 where s1: "get_singlepage s = Some (mem_start s + i * PAGE_SIZE, Some i, s1)" "3 \<le> i" "i < max_page_num s"
      "i \<notin> bitmap_used (gbl_bmp s)" "cm_step {i} s s1" "bitmap_used (gbl_bmp s1) = insert i (bitmap_used (gbl_bmp s))" by blast
    have e1: "cm_ok s1" "max_page_num s1 = max_page_num s" "mem_start s1 = mem_start s" using s1(5) by (simp_all add: cm_step_def)
    obtain s2 where s2: "cm_upd i (\<lambda>e. e\<lparr>pte_npages := 1\<rparr>) s1 = Some s2" "cm_step {} s1 s2" "gbl_bmp s2 = gbl_bmp s1" "pte_npages (coremap s2 ! i) = 1"
      using npages_step [OF e1(1), of i 1] s1(3) e1(2) by auto
    have e2: "cm_ok s2" "max_page_num s2 = max_page_num s" "mem_start s2 = mem_start s" using s2(2) e1 by (simp_all add: cm_step_def)
    obtain s3 where s3: "pt_insert (kva s2 i) (mem_start s2 + i * PAGE_SIZE) s2 = Some s3" "cm_step {i} s2 s3"
      "bitmap_used (gbl_bmp s3) = insert i (bitmap_used (gbl_bmp s2))" "pte_va (coremap s3 ! i) = kva s2 i" "pte_npages (coremap s3 ! i) = pte_npages (coremap s2 ! i)"
      using pt_insert_ok [OF e2(1) s1(2), of "kva s2 i"] s1(3) e2(2) by auto
    have st: "cm_step {i} s s3" by (rule cm_step_trans [OF cm_step_trans [OF s1(5) cm_step_mono [OF s2(2)]] s3(2)]) simp
    have k: "kva s2 i = kva s i" "kva s3 i = kva s i" using e2(3) st by (simp_all add: kva_def cm_step_def)
    have "run_at s3 i 1" using s1(2,3) st s3(3,4,5) s2(4) k by (auto simp: run_at_def cm_step_def)
    then have new: "kva s i \<notin> dom G" "cm_holds junk s3 (G(kva s i \<mapsto> 1))"
      using holds_new [OF h, of i 1 s3] st s1(4) by simp_all
    define p where "p = mem_start s + i * PAGE_SIZE"
    have pa: "PADDR_TO_KVADDR p = kva s i" "page_frame p = p" "p \<noteq> 0"
      using page_addr(2,3) [OF ok s1(3)] s1(2) by (auto simp: p_def)
    have "get_singlepage s = Some (p, Some i, s1)" "pt_insert (kva s i) p s2 = Some s3"
      using s1(1) s3(1) k(1) e2(3) by (simp_all add: p_def)
    then have "getppages junk 1 s = Some (p, s3)" using up s2(1) pa by (simp add: getppages_def)
    moreover have "got junk s G 1 p s3" by (rule gotI [OF p_def pa(3) s1(3) new])
    ultimately show ?thesis by auto
  qed
qed

lemma getppages_run:
  assumes h: "cm_holds junk s G" and n: "1 < n" "n < 2 ^ 20"
  shows "\<exists>p s'. getppages junk n s = Some (p, s') \<and> got junk s G n p s'"
proof -
  note H = holdsD [OF h]
  note ok = H(1) and D = cm_okD [OF H(1)]
  have z: "0 < max_page_num s" using H(2) by simp
  obtain w where w: "bitmap_isset (gbl_bmp s) 0 = Some w" "w \<noteq> 0" using bitmap_isset_correct [OF D(2), of 0] D(3,5) z by auto
  have fr: "find_run n 0 (snd junk) s = find_run n 1 0 s" using z w by (subst find_run.simps) simp
  have nn: "int n < 2 ^ 31" using n by simp
  obtain i c where ic: "find_run n 1 0 s = Some (i, c)" "0 \<le> c" "c \<le> int n" "c = int n \<longrightarrow> i < max_page_num s \<and> n \<le> i + 1 \<and>
      {i + 1 - n..<i + 1} \<inter> bitmap_used (gbl_bmp s) = {}"
    using find_run_ok [OF ok nn, of 0 1] n z by auto
  have cm: "c mod 2 ^ 32 = c" using ic(2,3) nn by (intro mod_pos_pos_trivial) simp_all
  show ?thesis
  proof (cases "c = int n")
    case False
    then have "getppages junk n s = Some (0, s)" using n D(1) fr ic(1) cm by (simp add: getppages_def)
    then show ?thesis using h by (simp add: got_def)
  next
    case True
    let ?i = "i + 1 - n"
    have i: "i < max_page_num s" "n \<le> i + 1" "{?i..<?i + n} \<inter> bitmap_used (gbl_bmp s) = {}" using ic(4) True by auto
    then have "?i \<in> {?i..<?i + n}" using n by simp
    then have i3: "3 \<le> ?i" "?i + n \<le> max_page_num s" "?i < max_page_num s" using i D(9) [of ?i] n by (auto simp: disjoint_iff)
    obtain s1 where s1: "mark_run ?i n s = Some s1" "cm_step {?i..<?i + n} s s1" "{?i..<?i + n} \<subseteq> bitmap_used (gbl_bmp s1)" "pte_va (coremap s1 ! ?i) = kva s ?i"
      using mark_run_ok [OF ok i3(1,2) i(3)] n by auto
    have e1: "cm_ok s1" "max_page_num s1 = max_page_num s" "mem_start s1 = mem_start s" using s1(2) by (simp_all add: cm_step_def)
    obtain s2 where s2: "cm_upd ?i (\<lambda>e. e\<lparr>pte_npages := n\<rparr>) s1 = Some s2" "cm_step {} s1 s2" "gbl_bmp s2 = gbl_bmp s1" "pte_npages (coremap s2 ! ?i) = n"
      "pte_va (coremap s2 ! ?i) = pte_va (coremap s1 ! ?i)" using npages_step [OF e1(1), of ?i n] i3 n e1(2) by auto
    have st: "cm_step {?i..<?i + n} s s2" by (rule cm_step_trans [OF s1(2) cm_step_mono [OF s2(2)]]) simp
    have "kva s2 ?i = kva s ?i" "max_page_num s2 = max_page_num s" using st cm_step_kva [OF st] by (simp_all add: cm_step_def)
    then have "run_at s2 ?i n" using i3 n s1(3,4) s2(3-5) by (simp add: run_at_def)
    note new = holds_new [OF h st i(3) this]
    have pa: "pte_pa (coremap s1 ! ?i) = mem_start s + ?i * PAGE_SIZE" "cm_at ?i s1 = Some (coremap s1 ! ?i)"
      using cm_okD(8) [OF e1(1), of ?i] i3 e1 cm_okD(4) [OF e1(1)] by (simp_all add: cm_at_def)
    have ix: "nat ((int i + 1 - c) mod 2 ^ 32) = ?i"
    proof -
      have "int i + 1 - c = int ?i" using True i(2) by simp
      moreover have "max_page_num s * 4096 \<le> 2 ^ 29" using D(7) by simp
      then have "int ?i < 2 ^ 32" using i3(3) by simp
      ultimately show ?thesis by (simp add: mod_pos_pos_trivial)
    qed
    have pf: "page_frame (mem_start s + ?i * PAGE_SIZE) = mem_start s + ?i * PAGE_SIZE" by (rule page_addr(3) [OF ok i3(3)])
    have "getppages junk n s = Some (mem_start s + ?i * PAGE_SIZE, s2)"
      using n D(1) fr ic(1) cm True ix s1(1) s2(1) pa pf unfolding getppages_def by (simp del: of_nat_mod)
    moreover have "mem_start s + ?i * PAGE_SIZE \<noteq> 0" using i3(1) by linarith
    then have "got junk s G n (mem_start s + ?i * PAGE_SIZE) s2" by (rule gotI [OF refl _ i3(3) new])
    ultimately show ?thesis by blast
  qed
qed

lemma alloc_kpages_ok:
  assumes h: "cm_holds junk s G" and n: "0 < n" "n < 2 ^ 20"
  shows "\<exists>a s'. alloc_kpages junk n s = Some (a, s') \<and> (if a = 0 then cm_holds junk s' G else a \<notin> dom G \<and> cm_holds junk s' (G(a \<mapsto> n)))"
proof -
  obtain p s' where p: "getppages junk n s = Some (p, s')" "got junk s G n p s'"
    using getppages_single [OF h] getppages_run [OF h _ n(2)] n(1) by (cases "n = 1") auto
  show ?thesis
  proof (cases "p = 0")
    case True
    then show ?thesis using p by (simp add: alloc_kpages_def got_def)
  next
    case False
    then obtain i where i: "p = mem_start s + i * PAGE_SIZE" "i < max_page_num s" "kva s i \<notin> dom G" "cm_holds junk s' (G(kva s i \<mapsto> n))"
      using p(2) unfolding got_def by (subst (asm) if_not_P) blast+
    have "PADDR_TO_KVADDR p = kva s i" using page_addr(2) [OF holdsD(1) [OF h] i(2)] unfolding i(1) .
    then have "alloc_kpages junk n s = Some (kva s i, s')" using p(1) False by (simp add: alloc_kpages_def)
    moreover have "kva s i \<noteq> 0" by (simp add: kva_def)
    ultimately show ?thesis using i(3,4) by auto
  qed
qed

text \<open>Freeing a run gives back its first page only: the entry's page count is cleared with the first page.\<close>

lemma coremap_remove_ok:
  assumes ok: "cm_ok s" and i: "3 \<le> i" "i < max_page_num s" "i \<in> bitmap_used (gbl_bmp s)"
  shows "\<exists>s'. coremap_remove (pte_pa (coremap s ! i)) i s = Some s' \<and> cm_step {i} s s' \<and>
    bitmap_used (gbl_bmp s') = bitmap_used (gbl_bmp s) - {i} \<and> pte_npages (coremap s' ! i) = 0"
proof -
  note D = cm_okD [OF ok]
  let ?pa = "mem_start s + i * PAGE_SIZE"
  let ?e = "(coremap s ! i)\<lparr>pte_va := 0, pte_valid := 0, pte_npages := 0, pte_pa := ?pa\<rparr>"
  have pa: "pte_pa (coremap s ! i) = ?pa" by (rule D(8) [OF i(1,2)])
  obtain w where w: "bitmap_isset (gbl_bmp s) i = Some w" "w \<noteq> 0" using bitmap_isset_correct [OF D(2), of i] i D(3) by auto
  obtain b where b: "bitmap_unmark (gbl_bmp s) i = Some b" "bitmap_inv b" "b_nbits b = max_page_num s" "bitmap_used b = bitmap_used (gbl_bmp s) - {i}"
    using bitmap_unmark_correct [OF D(2) i(3)] D(3) by auto
  let ?s = "s\<lparr>gbl_bmp := b, coremap := (coremap s)[i := ?e], vm_ref := vm_ref s\<rparr>"
  have "coremap_remove ?pa i s = Some ?s"
    using i(2) D(4) pa w b(1) page_addr(3) [OF ok i(2)] by (simp add: coremap_remove_def cm_at_def cm_upd_def)
  moreover have "cm_step {i} s ?s" by (rule entry_step [OF ok i(2) _ _ b(2,3)]) (use i(1) b(4) in simp_all)
  ultimately show ?thesis using pa b(4) i(2) D(4) by (intro exI [of _ ?s]) simp
qed

lemma free_kpages_run:
  assumes ok: "cm_ok s" and r: "run_at s i n"
  shows "\<exists>s'. free_kpages (kva s i) s = Some s' \<and> cm_step {i} s s' \<and> bitmap_used (gbl_bmp s') = bitmap_used (gbl_bmp s) - {i}"
proof -
  note D = cm_okD [OF ok]
  have i: "3 \<le> i" "i < max_page_num s" "i \<in> bitmap_used (gbl_bmp s)" "pte_va (coremap s ! i) = kva s i" "0 < pte_npages (coremap s ! i)"
    using r by (auto simp: run_at_def)
  have uniq: "k = i" if "3 \<le> k" "k < max_page_num s" "pte_va (coremap s ! k) = kva s i" for k
  proof -
    show ?thesis using D(10) [OF that(1,2)] that(3) by (simp add: entry_ok_def)
  qed
  have f: "find (\<lambda>k. pte_va (coremap s ! k) = kva s i) [3..<max_page_num s] = Some i"
  proof (cases "find (\<lambda>k. pte_va (coremap s ! k) = kva s i) [3..<max_page_num s]")
    case None
    then show ?thesis using i by (auto simp: find_None_iff)
  next
    case (Some k)
    then have "k \<in> set [3..<max_page_num s]" "pte_va (coremap s ! k) = kva s i" by (auto simp: find_Some_iff)
    then show ?thesis using Some uniq by simp
  qed
  obtain s' where s': "coremap_remove (pte_pa (coremap s ! i)) i s = Some s'" "cm_step {i} s s'"
    "bitmap_used (gbl_bmp s') = bitmap_used (gbl_bmp s) - {i}" "pte_npages (coremap s' ! i) = 0" using coremap_remove_ok [OF ok i(1-3)] by blast
  have at: "cm_at i s = Some (coremap s ! i)" "cm_at i s' = Some (coremap s' ! i)"
    using i(2) D(4) s'(2) cm_okD(4) [of s'] by (simp_all add: cm_at_def cm_step_def)
  have "free_loop i 1 s' = Some s'" using at(2) s'(4) by (subst free_loop.simps) simp
  then have "free_loop i 0 s = Some s'" using at(1) i(5) s'(1) by (subst free_loop.simps) simp
  then show ?thesis using s' f at(1) i(4) by (simp add: free_kpages_def)
qed

lemma free_kpages_ok:
  assumes h: "cm_holds junk s G" and a: "a \<in> dom G"
  shows "\<exists>s'. free_kpages a s = Some s' \<and> cm_holds junk s' (G(a := None))"
proof -
  obtain n where n: "G a = Some n" using a by blast
  then obtain i where i: "a = kva s i" "run_at s i n" using holdsD(3) [OF h] by blast
  obtain s' where s': "free_kpages a s = Some s'" "cm_step {i} s s'" using free_kpages_run [OF holdsD(1) [OF h] i(2)] i(1) by blast
  have "cm_holds junk s' (G(a := None))"
  proof (rule holds_keep [OF h s'(2)])
    show "G(a := None) \<subseteq>\<^sub>m G" by (simp add: map_le_def)
    fix j m assume "(G(a := None)) (kva s j) = Some m"
    then have j: "G (kva s j) = Some m" "j \<noteq> i" using i(1) by (auto split: if_splits)
    have "i \<in> {i..<i + n}" using i(2) by (simp add: run_at_def)
    then show "{i} \<inter> {j..<j + m} = {}" using holdsD(5) [OF h _ j(1), of i n] n i(1) j(2) by blast
  qed
  then show ?thesis using s'(1) by blast
qed

interpretation cm: page_allocator "alloc_kpages junk" free_kpages "cm_holds junk" for junk
proof
  fix p :: vm_state and G a b m n
  show "\<exists>a p'. alloc_kpages junk n p = Some (a, p') \<and> (if a = 0 then cm_holds junk p' G else a \<notin> dom G \<and> cm_holds junk p' (G(a \<mapsto> n)))"
    if "cm_holds junk p G" "0 < n" "n < 2 ^ 20" by (rule alloc_kpages_ok [OF that])
  show "\<exists>p'. free_kpages a p = Some p' \<and> cm_holds junk p' (G(a := None))" if "cm_holds junk p G" "a \<in> dom G" by (rule free_kpages_ok [OF that])
  show "0 < a \<and> a mod PAGE_SIZE = 0 \<and> 0 < n \<and> a + n * PAGE_SIZE < 2 ^ 32" if h: "cm_holds junk p G" "G a = Some n"
  proof -
    obtain i where i: "a = kva p i" "run_at p i n" using holdsD(3) [OF h] by blast
    have "(i + n) * 4096 \<le> max_page_num p * 4096" using i(2) by (intro mult_le_mono1) (simp add: run_at_def)
    then have "mem_start p + (i + n) * 4096 \<le> 2 ^ 29" using cm_okD(7) [OF holdsD(1) [OF h(1)]] by linarith
    then have "a + n * 4096 < 2 ^ 32" "0 < a" using i(1) by (simp_all add: kva_def add_mult_distrib)
    moreover have "a mod 4096 = 0" using cm_okD(6) [OF holdsD(1) [OF h(1)]] i(1) by (auto simp: kva_def)
    ultimately show ?thesis using i(2) by (simp add: run_at_def)
  qed
  show "run_of a m \<inter> run_of b n = {}" if h: "cm_holds junk p G" "G a = Some m" "G b = Some n" "a \<noteq> b"
  proof -
    obtain i j where ij: "a = kva p i" "b = kva p j" using holdsD(3) [OF h(1,2)] holdsD(3) [OF h(1,3)] by blast
    then have d: "{i..<i + m} \<inter> {j..<j + n} = {}" "0 < m" "0 < n" using holdsD(5) [OF h(1), of i m j n] holdsD(4) [OF h(1), of i m] holdsD(4) [OF h(1), of j n] h by (auto simp: run_at_def)
    then have "i + m \<le> j \<or> j + n \<le> i" by auto
    then have "a + m * 4096 \<le> b \<or> b + n * 4096 \<le> a" using ij by (auto simp: kva_def)
    then show ?thesis by (auto simp: run_of_def)
  qed
qed

end
