(* ===== verification/Kmalloc.thy ===== *)
theory Kmalloc
  imports Kheap_Props Coremap_Inv
begin

text \<open>
  The kernel heap on the pages of the core map: what \<open>kmalloc\<close>, \<open>kfree\<close>, \<open>alloc_kpages\<close>, \<open>free_kpages\<close> and
  \<open>coremap_init\<close> guarantee together.
\<close>

section \<open>The core map at boot\<close>

lemma steal_nothing:
  assumes "firstpaddr s \<le> lastpaddr s" "lastpaddr s < 2 ^ 32"
  shows "ram_stealmem 0 s = (firstpaddr s, s)"
  using assms by (simp add: ram_stealmem_def c_uint_id)

lemma steal_fields: "cur_vmspace (snd (ram_stealmem k s)) = cur_vmspace s" "vm_ref (snd (ram_stealmem k s)) = vm_ref s"
  by (simp_all add: ram_stealmem_def Let_def)

lemma mark_three:
  assumes b: "bitmap_inv b" "bitmap_used b = {}" "3 \<le> b_nbits b"
  shows "\<exists>b1 b2 b3. bitmap_mark b 0 = Some b1 \<and> bitmap_mark b1 1 = Some b2 \<and> bitmap_mark b2 2 = Some b3 \<and>
    bitmap_inv b3 \<and> b_nbits b3 = b_nbits b \<and> bitmap_used b3 = {0, 1, 2}"
proof -
  obtain b1 where b1: "bitmap_mark b 0 = Some b1" "bitmap_inv b1" "b_nbits b1 = b_nbits b" "bitmap_used b1 = {0}"
    using bitmap_mark_correct [OF b(1), of 0] b by auto
  obtain b2 where b2: "bitmap_mark b1 1 = Some b2" "bitmap_inv b2" "b_nbits b2 = b_nbits b" "bitmap_used b2 = {0, 1}"
    using bitmap_mark_correct [OF b1(2), of 1] b1 b by auto
  obtain b3 where "bitmap_mark b2 2 = Some b3" "bitmap_inv b3" "b_nbits b3 = b_nbits b" "bitmap_used b3 = {0, 1, 2}"
    using bitmap_mark_correct [OF b2(2), of 2] b2 b by auto
  then show ?thesis using b1(1) b2(1) by blast
qed

text \<open>
  the core map after boot.  When physical memory is page aligned, has room for at least three pages after the six that
  are left out, and ends below 512 MB, and the memory of the core map does not by chance hold kernel addresses of
  its pages, \<open>coremap_init\<close> succeeds and leaves a core map with no run of pages out.  (The addresses \<open>va\<close> of the
  entries are not initialized, and \<open>free_kpages\<close> searches by them.)
\<close>

theorem coremap_init_correct:
  assumes ram: "firstpaddr s mod PAGE_SIZE = 0" "firstpaddr s \<le> lastpaddr s" "lastpaddr s \<le> 2 ^ 29" "firstpaddr s + 6 * PAGE_SIZE \<le> ramsize" "ramsize \<le> 2 ^ 29"
    and km: "km ((ramsize - (firstpaddr s + 3 * PAGE_SIZE)) div PAGE_SIZE) = Some entries"
    and va: "\<And>i k. pte_va (entries i) \<noteq> MIPS_KSEG0 + firstpaddr s + 3 * PAGE_SIZE + k * PAGE_SIZE"
    and junk: "fst junk < (ramsize - (firstpaddr s + 3 * PAGE_SIZE)) div PAGE_SIZE"
  shows "\<exists>s'. coremap_init ramsize (k1, True, True) (k2, km) s = Some s' \<and> cm_holds junk s' Map.empty"
proof -
  let ?f = "firstpaddr s + 3 * PAGE_SIZE" and ?s1 = "s\<lparr>if_setupcomplete := False\<rparr>"
  let ?n = "(ramsize - ?f) div PAGE_SIZE"
  have st: "ram_stealmem 0 ?s1 = (firstpaddr s, ?s1)" using steal_nothing [of ?s1] ram by simp
  have f: "c_uint ?f = ?f" using ram by (simp add: c_uint_id)
  have n: "c_usub ramsize ?f div PAGE_SIZE = ?n" using ram by (subst c_usub_id) simp_all
  have le: "?f \<le> ramsize" using ram(4) by simp
  have "?n * 4096 \<le> ramsize - ?f" by (rule div_times_less_eq_dividend)
  then have n3: "?f + ?n * 4096 \<le> ramsize" using le by (simp add: le_diff_conv2 add.commute)
  have n4: "3 \<le> ?n" "?n + 8 \<le> 2 ^ 32" using ram by (auto simp: div_le_mono)
  obtain b where b: "bitmap_create True True ?n = Some (Some b)" "bitmap_inv b" "b_nbits b = ?n" "bitmap_used b = {}"
    using bitmap_create_correct [OF n4(2)] by blast
  obtain b1 b2 b3 where b3: "bitmap_mark b 0 = Some b1" "bitmap_mark b1 1 = Some b2" "bitmap_mark b2 2 = Some b3" "bitmap_inv b3"
    "b_nbits b3 = ?n" "bitmap_used b3 = {0, 1, 2}" using mark_three [OF b(2,4)] b(3) n4(1) by auto
  let ?cm = "map entries [0..<?n]" and ?s3 = "snd (ram_stealmem k2 (snd (ram_stealmem k1 ?s1)))"
  let ?cm1 = "map (\<lambda>i. if i < 3 then ?cm ! i
      else (?cm ! i)\<lparr>pte_pa := c_uint (?f + i * PAGE_SIZE), pte_valid := 0, pte_dirty := 0, pte_locked := 0, pte_writeable := 0\<rparr>) [0..<?n]"
  let ?s' = "?s3\<lparr>gbl_bmp := b3, coremap := ?cm1, max_page_num := ?n, mem_start := ?f, if_setupcomplete := True\<rparr>"
  have init: "coremap_init ramsize (k1, True, True) (k2, km) s = Some ?s'"
    unfolding coremap_init_def Let_def prod.case st fst_conv snd_conv f n using b(1) b3(1-3) km by (simp add: kalloc_def)
  have "entry_ok ?s' i (coremap ?s' ! i)" if "i \<in> {3..<max_page_num ?s'}" for i
  proof -
    have i: "3 \<le> i" "i < ?n" using that by simp_all
    have "?f + i * 4096 < ?f + ?n * 4096" using i by simp
    also note n3
    finally have "?f + i * 4096 < ramsize" .
    then have "c_uint (?f + i * 4096) = ?f + i * 4096" using ram(5) by (intro c_uint_id) simp
    then show ?thesis using i va by (auto simp: entry_ok_def kva_def)
  qed
  then have "\<forall>i \<in> {3..<max_page_num ?s'}. entry_ok ?s' i (coremap ?s' ! i)" by blast
  moreover have "?f + ?n * PAGE_SIZE \<le> 2 ^ 29" "?f mod PAGE_SIZE = 0" using n3 ram by (linarith, presburger)
  ultimately have "cm_ok ?s'" using b3(4-6) unfolding cm_ok_def by simp
  then have "cm_holds junk ?s' Map.empty" using junk by (simp add: cm_holds_def)
  with init show ?thesis by blast
qed

text \<open>A machine with 64 KB of memory whose first 16 KB are taken.\<close>

definition ex_boot :: vm_state where
  "ex_boot = \<lparr>firstpaddr = 16384, lastpaddr = 65536, gbl_bmp = \<lparr>b_nbits = 0, b_v = []\<rparr>, coremap = [], max_page_num = 0, mem_start = 0,
     vm_ref = 0, if_setupcomplete = False, cur_vmspace = None\<rparr>"

definition ex_entry :: page_table_entry where
  "ex_entry = \<lparr>pte_va = 0, pte_pa = 0, pte_addr = None, pte_npages = 0, pte_time = 0, pte_valid = 0, pte_dirty = 0, pte_locked = 0, pte_writeable = 0\<rparr>"

theorem coremap_init_correct_witness:
  "\<exists>s'. coremap_init 65536 (1, True, True) (1, \<lambda>_. Some (\<lambda>_. ex_entry)) ex_boot = Some s' \<and> cm_holds (0, 0) s' Map.empty"
  using coremap_init_correct [of ex_boot 65536 "\<lambda>_. Some (\<lambda>_. ex_entry)" "\<lambda>_. ex_entry" "(0, 0)" 1 1]
  by (simp add: ex_boot_def ex_entry_def)

section \<open>Freeing a run of pages\<close>

text \<open>
  \<open>free_kpages\<close> of a run of \<open>n\<close> pages frees its first page only: the loop's bound \<open>coremap[i].npages\<close> is
  cleared together with the first page.  The other \<open>n - 1\<close> pages stay in use, although nothing refers to them any more.
\<close>

theorem free_kpages_leaks:
  assumes h: "cm_holds junk s G" and a: "G a = Some n"
  shows "\<exists>s' i. free_kpages a s = Some s' \<and> a = kva s i \<and> {i..<i + n} \<subseteq> bitmap_used (gbl_bmp s) \<and>
    bitmap_used (gbl_bmp s') = bitmap_used (gbl_bmp s) - {i} \<and> {i + 1..<i + n} \<subseteq> bitmap_used (gbl_bmp s') \<and> cm_holds junk s' (G(a := None))"
proof -
  obtain i where i: "a = kva s i" "run_at s i n" using holdsD(3) [OF h a] by blast
  obtain s' where s': "free_kpages a s = Some s'" "bitmap_used (gbl_bmp s') = bitmap_used (gbl_bmp s) - {i}"
    using free_kpages_run [OF holdsD(1) [OF h] i(2)] i(1) by blast
  have "cm_holds junk s' (G(a := None))" using free_kpages_ok [OF h, of a] a s'(1) by auto
  moreover have "{i..<i + n} \<subseteq> bitmap_used (gbl_bmp s)" using i(2) by (simp add: run_at_def)
  then have "{i + 1..<i + n} \<subseteq> bitmap_used (gbl_bmp s')" "{i..<i + n} \<subseteq> bitmap_used (gbl_bmp s)" unfolding s'(2) by auto
  ultimately show ?thesis using s' i(1) by (intro exI [of _ s'] exI [of _ i]) simp
qed

text \<open>A core map of eight pages with a run of two pages out, pages 3 and 4.\<close>

definition ex_cm :: vm_state where
  "ex_cm = \<lparr>firstpaddr = 0, lastpaddr = 0, gbl_bmp = \<lparr>b_nbits = 8, b_v = [31]\<rparr>,
     coremap = map (\<lambda>i. ex_entry\<lparr>pte_pa := 28672 + i * 4096, pte_va := (if i = 3 \<or> i = 4 then MIPS_KSEG0 + 28672 + i * 4096 else 0),
       pte_npages := (if i = 3 then 2 else 0)\<rparr>) [0..<8],
     max_page_num = 8, mem_start = 28672, vm_ref = 0, if_setupcomplete = True, cur_vmspace = None\<rparr>"

lemma less_8: "(i :: nat) < 8 \<longleftrightarrow> i \<in> {0, 1, 2, 3, 4, 5, 6, 7}"
  by (simp, arith)

lemma ex_cm_used: "bitmap_used (gbl_bmp ex_cm) = {0, 1, 2, 3, 4}" "bitmap_inv (gbl_bmp ex_cm)"
proof -
  have "i < 8 \<Longrightarrow> bm_bit [31] i \<longleftrightarrow> i < 5" for i
    unfolding less_8 by (elim insertE emptyE) (simp_all add: bm_bit_def bit_numeral_rec)
  then show "bitmap_used (gbl_bmp ex_cm) = {0, 1, 2, 3, 4}" by (auto simp: ex_cm_def bitmap_used_def)
  show "bitmap_inv (gbl_bmp ex_cm)" by (simp add: ex_cm_def bitmap_inv_def DIVROUNDUP_def c_uint_def)
qed

lemma ex_cm_nth: "i < 8 \<Longrightarrow> coremap ex_cm ! i = ex_entry\<lparr>pte_pa := 28672 + i * 4096,
    pte_va := (if i = 3 \<or> i = 4 then MIPS_KSEG0 + 28672 + i * 4096 else 0), pte_npages := (if i = 3 then 2 else 0)\<rparr>"
  by (simp add: ex_cm_def del: upt_Suc)

lemma ex_cm_fields [simp]: "max_page_num ex_cm = 8" "mem_start ex_cm = 28672" "if_setupcomplete ex_cm" "length (coremap ex_cm) = 8"
    "b_nbits (gbl_bmp ex_cm) = 8" "kva ex_cm i = MIPS_KSEG0 + 28672 + i * 4096"
  by (simp_all add: ex_cm_def kva_def)

lemma ex_cm_ok: "cm_ok ex_cm"
  using ex_cm_used by (auto simp: cm_ok_def entry_ok_def ex_cm_nth ex_entry_def split: if_splits)

lemma ex_cm_holds: "cm_holds (0, 0) ex_cm [MIPS_KSEG0 + 40960 \<mapsto> 2]"
proof -
  have "run_at ex_cm 3 2" using ex_cm_used by (auto simp: run_at_def ex_cm_nth)
  then show ?thesis using ex_cm_ok unfolding cm_holds_def by (auto split: if_splits)
qed

theorem free_kpages_leaks_witness:
  "\<exists>s'. free_kpages (MIPS_KSEG0 + 40960) ex_cm = Some s' \<and> 4 \<in> bitmap_used (gbl_bmp s') \<and> cm_holds (0, 0) s' Map.empty"
proof -
  obtain s' i where s: "free_kpages (MIPS_KSEG0 + 40960) ex_cm = Some s'" "MIPS_KSEG0 + 40960 = kva ex_cm i"
    "{i + 1..<i + 2} \<subseteq> bitmap_used (gbl_bmp s')" "cm_holds (0, 0) s' ([MIPS_KSEG0 + 40960 \<mapsto> 2](MIPS_KSEG0 + 40960 := None))"
    using free_kpages_leaks [OF ex_cm_holds, of "MIPS_KSEG0 + 40960" 2] by (auto simp del: ex_cm_fields)
  then have "i = 3" by simp
  then show ?thesis using s by auto
qed

section \<open>The heap\<close>



text \<open>The heap before its first use, on the core map with pages 3 and 4 out.\<close>

definition ex_heap :: "vm_state kheap" where
  "ex_heap = \<lparr>pagerefs = replicate NPAGEREFS \<lparr>next_samesize = None, next_all = None, pageaddr_and_blocktype = 0, freelist_offset = 0, nfree = 0\<rparr>,
     pagerefs_inuse = replicate INUSE_WORDS 0, sizebases = replicate NSIZES None, allbase = None, kmemory = (\<lambda>_. 0), kpages = ex_cm\<rparr>"

lemma ex_heap_heap: "heap (cm_holds (0, 0)) ex_heap [MIPS_KSEG0 + 40960 \<mapsto> 8192]"
proof -
  let ?B = "[MIPS_KSEG0 + 40960 \<mapsto> 2 :: nat]"
  have "inuse (pagerefs_inuse ex_heap) = {}" by (auto simp: inuse_def ex_heap_def)
  then have "heap_ok ex_heap [] (\<lambda>_. [])" by (simp add: heap_ok_def pages_ok_def) (simp add: ex_heap_def)
  moreover have "page_runs ex_heap [] = Map.empty" by (simp add: page_runs_def fun_eq_iff)
  ultimately have "heap_repr (cm_holds (0, 0)) ex_heap [] (\<lambda>_. []) ?B" using ex_cm_holds by (simp add: heap_repr_def ex_heap_def)
  moreover have "blocks ex_heap [] (\<lambda>_. []) ?B = [MIPS_KSEG0 + 40960 \<mapsto> 8192]" by (simp add: blocks_def fun_eq_iff)
  ultimately show ?thesis by (rule heapI)
qed



end
