(* ===== verification/Vfs_Dev.thy ===== *)
theory Vfs_Dev
  imports Sfs_Ops
begin

text \<open>
  Devices as files: the vnode operations for devices of \<open>kern/fs/vfs/device.c\<close> and the null device of
  \<open>kern/fs/vfs/devnull.c\<close>.

  A \<open>struct device\<close> is a table of functions with the number and the size of its blocks.  The devices here are the
  null device and the disks of \<open>kern/dev/lamebus/lhd.c\<close>; the functions \<open>d_open\<close>, \<open>d_close\<close>, \<open>d_io\<close> and \<open>d_ioctl\<close> are
  the dispatch on which of the two it is.
\<close>

unbundle bit_operations_syntax

section \<open>Devices\<close>

datatype 'h device = Dev_null | Dev_lhd "'h lhd_softc"

abbreviation O_RDONLY :: int where "O_RDONLY \<equiv> 0"
abbreviation O_WRONLY :: int where "O_WRONLY \<equiv> 1"
abbreviation O_RDWR :: int where "O_RDWR \<equiv> 2"
abbreviation O_CREAT :: int where "O_CREAT \<equiv> 4"
abbreviation O_EXCL :: int where "O_EXCL \<equiv> 8"
abbreviation O_TRUNC :: int where "O_TRUNC \<equiv> 16"

definition nullopen :: "int \<Rightarrow> errno + unit" where
  "nullopen openflags = Inr ()"

definition nullclose :: "errno + unit" where
  "nullclose = Inr ()"

definition nullio :: "uio \<Rightarrow> (errno + unit) \<times> uio" where
  "nullio u = (Inr (), if uio_rw u = UIO_WRITE then u\<lparr>uio_resid := 0\<rparr> else u)"

definition nullioctl :: "int \<Rightarrow> errno + unit" where
  "nullioctl op = Inl EINVAL"

fun dev_nblocks :: "'h device \<Rightarrow> nat" where
  "dev_nblocks Dev_null = 0"
| "dev_nblocks (Dev_lhd lh) = d_blocks lh"

fun dev_blocksize :: "'h device \<Rightarrow> nat" where
  "dev_blocksize Dev_null = 1"
| "dev_blocksize (Dev_lhd lh) = LHD_SECTSIZE"

fun d_open :: "'h device \<Rightarrow> int \<Rightarrow> errno + unit" where
  "d_open Dev_null flags = nullopen flags"
| "d_open (Dev_lhd lh) flags = lhd_open flags"

fun d_close :: "'h device \<Rightarrow> errno + unit" where
  "d_close Dev_null = nullclose"
| "d_close (Dev_lhd lh) = lhd_close"

fun dev_io :: "'h lhd_hw \<Rightarrow> uio \<Rightarrow> 'h device \<Rightarrow> ((errno + unit) \<times> uio \<times> 'h device) option" where
  "dev_io hw u Dev_null = (let (r, u') = nullio u in Some (r, u', Dev_null))"
| "dev_io hw u (Dev_lhd lh) = do { (r, u', lh') \<leftarrow> lhd_io hw u lh; Some (r, u', Dev_lhd lh') }"

fun d_ioctl :: "'h device \<Rightarrow> int \<Rightarrow> errno + unit" where
  "d_ioctl Dev_null op = nullioctl op"
| "d_ioctl (Dev_lhd lh) op = lhd_ioctl op"

section \<open>Vnode operations for devices\<close>

definition dev_open :: "'h device \<Rightarrow> int \<Rightarrow> errno + unit" where
  "dev_open d flags =
     (if flags AND (O_CREAT OR O_TRUNC OR O_EXCL OR O_APPEND) \<noteq> 0 then Inl EINVAL else d_open d flags)"

definition dev_close :: "'h device \<Rightarrow> errno + unit" where
  "dev_close d = d_close d"

definition dev_reclaim :: "errno + unit" where
  "dev_reclaim = Inr ()"

definition dev_read :: "'h lhd_hw \<Rightarrow> uio \<Rightarrow> 'h device \<Rightarrow> ((errno + unit) \<times> uio \<times> 'h device) option" where
  "dev_read hw u d = do { kassert (uio_rw u = UIO_READ); dev_io hw u d }"

definition dev_write :: "'h lhd_hw \<Rightarrow> uio \<Rightarrow> 'h device \<Rightarrow> ((errno + unit) \<times> uio \<times> 'h device) option" where
  "dev_write hw u d = do { kassert (uio_rw u = UIO_WRITE); dev_io hw u d }"

definition null_io :: "errno + unit" where
  "null_io = Inl EINVAL"

definition dev_ioctl :: "'h device \<Rightarrow> int \<Rightarrow> errno + unit" where
  "dev_ioctl d op = d_ioctl d op"

definition dev_gettype :: "'h device \<Rightarrow> errno + ftype" where
  "dev_gettype d = Inr (if dev_nblocks d > 0 then S_IFBLK else S_IFCHR)"

text \<open>The size is a product of 32 bits that becomes a signed offset.\<close>

definition dev_size :: "'h device \<Rightarrow> int" where
  "dev_size d = c_int (int (c_uint (dev_nblocks d * dev_blocksize d)))"

definition dev_stat :: "'h device \<Rightarrow> errno + stat" where
  "dev_stat d = (case dev_gettype d of Inl e \<Rightarrow> Inl e
     | Inr ty \<Rightarrow> Inr \<lparr>st_mode = ty, st_size = (if dev_nblocks d > 0 then dev_size d else 0), st_nlink = 1, st_blocks = dev_nblocks d\<rparr>)"

text \<open>\<open>d_blocksize\<close> is unsigned, so the position becomes unsigned before the remainder and the quotient are taken.\<close>

definition dev_tryseek :: "'h device \<Rightarrow> int \<Rightarrow> errno + unit" where
  "dev_tryseek d pos =
     (if dev_nblocks d > 0 then
        (let upos = nat (pos mod 2 ^ 32) in
         if upos mod dev_blocksize d \<noteq> 0 then Inl EINVAL
         else if pos < 0 then Inl EINVAL
         else if upos div dev_blocksize d \<ge> dev_nblocks d then Inl EINVAL
         else Inr ())
      else Inl ESPIPE)"

definition null_fsync :: "errno + unit" where
  "null_fsync = Inr ()"

definition dev_mmap :: "errno + unit" where
  "dev_mmap = Inl EUNIMP"

definition dev_truncate :: "'h device \<Rightarrow> int \<Rightarrow> errno + unit" where
  "dev_truncate d len = (if dev_nblocks d > 0 \<and> dev_size d = len then Inr () else Inl EINVAL)"

definition dev_namefile :: "errno + unit" where
  "dev_namefile = Inr ()"

text \<open>\<open>creat\<close>, \<open>symlink\<close>, \<open>mkdir\<close>, \<open>remove\<close>, \<open>rmdir\<close>, \<open>link\<close> and \<open>rename\<close>.\<close>

definition null_creat :: "errno + 'v" where
  "null_creat = Inl ENOTDIR"

definition null_symlink :: "errno + unit" where
  "null_symlink = Inl ENOTDIR"

definition null_nameop :: "errno + unit" where
  "null_nameop = Inl ENOTDIR"

definition null_link :: "errno + unit" where
  "null_link = Inl ENOTDIR"

definition null_rename :: "errno + unit" where
  "null_rename = Inl ENOTDIR"

definition dev_lookparent :: "errno + 'v" where
  "dev_lookparent = Inl ENOTDIR"

text \<open>The vnode of a device: \<open>vn_data\<close> points to the device, or is null for a filesystem that has none.\<close>

record dev_vnode =
  dvn_refcount :: int
  dvn_opencount :: int
  dvn_data :: "nat option"

text \<open>\<open>VOP_INIT\<close> fails when its lock cannot be made, and that panics.\<close>

definition dev_create_vnode :: "bool \<Rightarrow> bool \<Rightarrow> nat option \<Rightarrow> dev_vnode option option" where
  "dev_create_vnode okmem oklock dev =
     (if \<not> okmem then Some None
      else do { kassert oklock; Some (Some \<lparr>dvn_refcount = 1, dvn_opencount = 0, dvn_data = dev\<rparr>) })"

section \<open>Reading and writing through a device vnode\<close>

text \<open>The null device reads nothing and takes everything that is written.\<close>

lemma null_read: "uio_rw u = UIO_READ \<Longrightarrow> dev_read hw u Dev_null = Some (Inr (), u, Dev_null)"
  by (simp add: dev_read_def nullio_def)

lemma null_write: "uio_rw u = UIO_WRITE \<Longrightarrow> dev_write hw u Dev_null = Some (Inr (), u\<lparr>uio_resid := 0\<rparr>, Dev_null)"
  by (simp add: dev_write_def nullio_def)

end
