(* ===== verification/Vfs.thy ===== *)
theory Vfs
  imports Vfs_Dev
begin

text \<open>
  The VFS layer: the device list of \<open>kern/fs/vfs/vfslist.c\<close>, the translation of path names of \<open>vfslookup.c\<close>, the
  current directory of \<open>vfscwd.c\<close> and the operations on path names of \<open>vfspath.c\<close>.

  The state holds the structures by address.  A mounted filesystem is kept with the address of its device; the state of
  the disk itself is with the device, so that the filesystem and the raw device see the same disk.  A vnode is a
  vnode of a filesystem or a device vnode, and the \<open>VOP\<close> macros dispatch on which it is and, for SFS,
  on the type of the inode, as the function tables \<open>sfs_fileops\<close>, \<open>sfs_dirops\<close> and \<open>dev_vnode_ops\<close> do.

  The array of known devices is written as the list of its elements; whether \<open>array_add\<close> can grow it is an argument, as
  for every allocation.  Where an operation can load several vnodes, the argument \<open>vm\<close> gives the allocations for
  each.  The locks \<open>knowndevs_lock\<close> and \<open>bootfs_lock\<close> are released on every path of the functions that take them;
  they only serialize and are not represented.
\<close>

unbundle bit_operations_syntax

section \<open>The state\<close>

datatype vnode = SfsVnode nat nat | DevVnode nat

record knowndev =
  kd_name :: bytes
  kd_rawname :: "bytes option"
  kd_device :: "nat option"
  kd_vnode :: nat
  kd_fs :: "nat option"

record 'h vfs =
  knowndevs :: "knowndev list"
  devices :: "nat \<Rightarrow> 'h device option"
  dev_vnodes :: "nat \<Rightarrow> dev_vnode option"
  fs_mem :: "nat \<Rightarrow> (nat \<times> 'h lhd_softc sfs_fs) option"
  bootfs_vnode :: "vnode option"
  t_cwd :: "vnode option"

fun vn_fs :: "vnode \<Rightarrow> nat option" where
  "vn_fs (SfsVnode f v) = Some f"
| "vn_fs (DevVnode a) = None"

text \<open>A filesystem with the present state of its disk, and the state after it has been used.\<close>

definition fs_get :: "nat \<Rightarrow> 'h vfs \<Rightarrow> 'h lhd_softc sfs_fs option" where
  "fs_get f s = do {
     (d, fs) \<leftarrow> fs_mem s f;
     dev \<leftarrow> devices s d;
     case dev of Dev_null \<Rightarrow> None | Dev_lhd lh \<Rightarrow> Some (fs\<lparr>sfs_device := lh\<rparr>) }"

definition fs_put :: "nat \<Rightarrow> 'h lhd_softc sfs_fs \<Rightarrow> 'h vfs \<Rightarrow> 'h vfs" where
  "fs_put f fs s = (case fs_mem s f of None \<Rightarrow> s
     | Some (d, _) \<Rightarrow> s\<lparr>fs_mem := (fs_mem s)(f \<mapsto> (d, fs)), devices := (devices s)(d \<mapsto> Dev_lhd (sfs_device fs))\<rparr>)"

definition fs_call :: "nat \<Rightarrow> ('h lhd_softc sfs_fs \<Rightarrow> ('a, 'h lhd_softc sfs_fs) kcall) \<Rightarrow> 'h vfs \<Rightarrow> ('a, 'h vfs) kcall" where
  "fs_call f act s = do {
     fs \<leftarrow> fs_get f s;
     (r, fs') \<leftarrow> act fs;
     Some (r, fs_put f fs' s) }"

definition fs_upd :: "nat \<Rightarrow> ('h lhd_softc sfs_fs \<Rightarrow> 'h lhd_softc sfs_fs option) \<Rightarrow> 'h vfs \<Rightarrow> 'h vfs option" where
  "fs_upd f act s = do {
     fs \<leftarrow> fs_get f s;
     fs' \<leftarrow> act fs;
     Some (fs_put f fs' s) }"

text \<open>Whether a vnode of a filesystem is a directory, which chooses its function table.\<close>

definition sfs_isdirv :: "nat \<Rightarrow> 'd sfs_fs \<Rightarrow> bool option" where
  "sfs_isdirv v fs = do { sv \<leftarrow> sv_mem fs v; Some (sfi_type (sv_i sv) = SFS_TYPE_DIR) }"

definition dir_call :: "nat \<Rightarrow> nat \<Rightarrow> ('h lhd_softc sfs_fs \<Rightarrow> ('a, 'h lhd_softc sfs_fs) kcall) \<Rightarrow> 'h vfs \<Rightarrow> ('a, 'h vfs) kcall" where
  "dir_call f v act s = fs_call f (\<lambda>fs. do {
     isdir \<leftarrow> sfs_isdirv v fs;
     if isdir then act fs else Some (Inl ENOTDIR, fs) }) s"

section \<open>The operations on vnodes\<close>

definition dev_at :: "nat \<Rightarrow> 'h vfs \<Rightarrow> (dev_vnode \<times> nat \<times> 'h device) option" where
  "dev_at a s = do {
     dv \<leftarrow> dev_vnodes s a;
     p \<leftarrow> dvn_data dv;
     d \<leftarrow> devices s p;
     Some (dv, p, d) }"

fun VOP_INCREF :: "vnode \<Rightarrow> 'h vfs \<Rightarrow> 'h vfs option" where
  "VOP_INCREF (SfsVnode f v) s = fs_upd f (vnode_incref v) s"
| "VOP_INCREF (DevVnode a) s = do {
     dv \<leftarrow> dev_vnodes s a;
     Some (s\<lparr>dev_vnodes := (dev_vnodes s)(a \<mapsto> dv\<lparr>dvn_refcount := dvn_refcount dv + 1\<rparr>)\<rparr>) }"

text \<open>\<open>dev_reclaim\<close> leaves the last reference of a device vnode in place.\<close>

fun VOP_DECREF :: "'h lhd_hw \<Rightarrow> vnode \<Rightarrow> 'h vfs \<Rightarrow> 'h vfs option" where
  "VOP_DECREF hw (SfsVnode f v) s = fs_upd f (vnode_decref (lhd_io hw) v) s"
| "VOP_DECREF hw (DevVnode a) s = do {
     dv \<leftarrow> dev_vnodes s a;
     kassert (dvn_refcount dv > 0);
     if dvn_refcount dv > 1 then Some (s\<lparr>dev_vnodes := (dev_vnodes s)(a \<mapsto> dv\<lparr>dvn_refcount := dvn_refcount dv - 1\<rparr>)\<rparr>)
     else Some s }"

fun VOP_INCOPEN :: "vnode \<Rightarrow> 'h vfs \<Rightarrow> 'h vfs option" where
  "VOP_INCOPEN (SfsVnode f v) s = fs_upd f (vnode_incopen v) s"
| "VOP_INCOPEN (DevVnode a) s = do {
     dv \<leftarrow> dev_vnodes s a;
     Some (s\<lparr>dev_vnodes := (dev_vnodes s)(a \<mapsto> dv\<lparr>dvn_opencount := dvn_opencount dv + 1\<rparr>)\<rparr>) }"

text \<open>The result of \<open>VOP_CLOSE\<close> is only printed.\<close>

fun VOP_DECOPEN :: "'h lhd_hw \<Rightarrow> vnode \<Rightarrow> 'h vfs \<Rightarrow> 'h vfs option" where
  "VOP_DECOPEN hw (SfsVnode f v) s = fs_upd f (vnode_decopen (lhd_io hw) v) s"
| "VOP_DECOPEN hw (DevVnode a) s = do {
     (dv, p, d) \<leftarrow> dev_at a s;
     kassert (dvn_opencount dv > 0);
     Some (s\<lparr>dev_vnodes := (dev_vnodes s)(a \<mapsto> dv\<lparr>dvn_opencount := dvn_opencount dv - 1\<rparr>)\<rparr>) }"

fun VOP_OPEN :: "vnode \<Rightarrow> int \<Rightarrow> 'h vfs \<Rightarrow> (unit, 'h vfs) kcall" where
  "VOP_OPEN (SfsVnode f v) flags s = fs_call f (\<lambda>fs. do {
     isdir \<leftarrow> sfs_isdirv v fs;
     Some (if isdir then sfs_opendir flags else sfs_open flags, fs) }) s"
| "VOP_OPEN (DevVnode a) flags s = do {
     (dv, p, d) \<leftarrow> dev_at a s;
     Some (dev_open d flags, s) }"

fun VOP_GETTYPE :: "vnode \<Rightarrow> 'h vfs \<Rightarrow> (ftype, 'h vfs) kcall" where
  "VOP_GETTYPE (SfsVnode f v) s = do {
     fs \<leftarrow> fs_get f s;
     r \<leftarrow> sfs_gettype v fs;
     Some (r, s) }"
| "VOP_GETTYPE (DevVnode a) s = do {
     (dv, p, d) \<leftarrow> dev_at a s;
     Some (dev_gettype d, s) }"

fun VOP_TRUNCATE :: "'h lhd_hw \<Rightarrow> vnode \<Rightarrow> int \<Rightarrow> 'h vfs \<Rightarrow> (unit, 'h vfs) kcall" where
  "VOP_TRUNCATE hw (SfsVnode f v) len s = fs_call f (\<lambda>fs. do {
     isdir \<leftarrow> sfs_isdirv v fs;
     if isdir then Some (Inl EISDIR, fs) else sfs_truncate (lhd_io hw) v len fs }) s"
| "VOP_TRUNCATE hw (DevVnode a) len s = do {
     (dv, p, d) \<leftarrow> dev_at a s;
     Some (dev_truncate d len, s) }"

text \<open>Reading and writing; the request is passed along with the state.\<close>

definition fs_io :: "nat \<Rightarrow> nat \<Rightarrow> ('h lhd_softc sfs_fs \<times> uio \<Rightarrow> 'h lhd_softc fio) \<Rightarrow> uio \<Rightarrow> 'h vfs \<Rightarrow> ((errno + unit) \<times> uio \<times> 'h vfs) option" where
  "fs_io f v act u s = do {
     fs \<leftarrow> fs_get f s;
     isdir \<leftarrow> sfs_isdirv v fs;
     if isdir then Some (Inl EISDIR, u, s)
     else do {
       (r, fs', u') \<leftarrow> act (fs, u);
       Some (r, u', fs_put f fs' s) } }"

fun VOP_READ :: "'h lhd_hw \<Rightarrow> vnode \<Rightarrow> uio \<Rightarrow> 'h vfs \<Rightarrow> ((errno + unit) \<times> uio \<times> 'h vfs) option" where
  "VOP_READ hw (SfsVnode f v) u s = fs_io f v (sfs_read (lhd_io hw) v) u s"
| "VOP_READ hw (DevVnode a) u s = do {
     (dv, p, d) \<leftarrow> dev_at a s;
     (r, u', d') \<leftarrow> dev_read hw u d;
     Some (r, u', s\<lparr>devices := (devices s)(p \<mapsto> d')\<rparr>) }"

fun VOP_WRITE :: "'h lhd_hw \<Rightarrow> vnode \<Rightarrow> uio \<Rightarrow> 'h vfs \<Rightarrow> ((errno + unit) \<times> uio \<times> 'h vfs) option" where
  "VOP_WRITE hw (SfsVnode f v) u s = fs_io f v (sfs_write (lhd_io hw) v) u s"
| "VOP_WRITE hw (DevVnode a) u s = do {
     (dv, p, d) \<leftarrow> dev_at a s;
     (r, u', d') \<leftarrow> dev_write hw u d;
     Some (r, u', s\<lparr>devices := (devices s)(p \<mapsto> d')\<rparr>) }"

fun VOP_NAMEFILE :: "vnode \<Rightarrow> 'h vfs \<Rightarrow> (unit, 'h vfs) kcall" where
  "VOP_NAMEFILE (SfsVnode f v) s = dir_call f v (\<lambda>fs. do { r \<leftarrow> sfs_namefile v fs; Some (r, fs) }) s"
| "VOP_NAMEFILE (DevVnode a) s = Some (dev_namefile, s)"

fun VOP_CREAT :: "'h lhd_hw \<Rightarrow> vmem \<Rightarrow> vnode \<Rightarrow> bytes \<Rightarrow> bool \<Rightarrow> 'h vfs \<Rightarrow> (vnode, 'h vfs) kcall" where
  "VOP_CREAT hw vm (SfsVnode f v) name excl s =
     try_k (dir_call f v (sfs_creat (lhd_io hw) vm v name excl) s) (\<lambda>w s'. Some (Inr (SfsVnode f w), s'))"
| "VOP_CREAT hw vm (DevVnode a) name excl s = Some (null_creat, s)"

text \<open>\<open>VOP_READLINK\<close>, \<open>VOP_SYMLINK\<close>, \<open>VOP_MKDIR\<close> and \<open>VOP_RMDIR\<close>: entries of the tables that are errors for every vnode.\<close>

fun VOP_READLINK :: "vnode \<Rightarrow> 'h vfs \<Rightarrow> (unit, 'h vfs) kcall" where
  "VOP_READLINK (SfsVnode f v) s = dir_call f v (\<lambda>fs. Some (Inl EISDIR, fs)) s"
| "VOP_READLINK (DevVnode a) s = Some (null_io, s)"

fun VOP_SYMLINK :: "vnode \<Rightarrow> 'h vfs \<Rightarrow> (unit, 'h vfs) kcall" where
  "VOP_SYMLINK (SfsVnode f v) s = dir_call f v (\<lambda>fs. Some (Inl EUNIMP, fs)) s"
| "VOP_SYMLINK (DevVnode a) s = Some (null_symlink, s)"

fun VOP_MKDIR :: "vnode \<Rightarrow> 'h vfs \<Rightarrow> (unit, 'h vfs) kcall" where
  "VOP_MKDIR (SfsVnode f v) s = dir_call f v (\<lambda>fs. Some (Inl EUNIMP, fs)) s"
| "VOP_MKDIR (DevVnode a) s = Some (null_nameop, s)"

fun VOP_RMDIR :: "vnode \<Rightarrow> 'h vfs \<Rightarrow> (unit, 'h vfs) kcall" where
  "VOP_RMDIR (SfsVnode f v) s = dir_call f v (\<lambda>fs. Some (Inl EUNIMP, fs)) s"
| "VOP_RMDIR (DevVnode a) s = Some (null_nameop, s)"

fun VOP_REMOVE :: "'h lhd_hw \<Rightarrow> vmem \<Rightarrow> vnode \<Rightarrow> bytes \<Rightarrow> 'h vfs \<Rightarrow> (unit, 'h vfs) kcall" where
  "VOP_REMOVE hw vm (SfsVnode f v) name s = dir_call f v (sfs_remove (lhd_io hw) vm v name) s"
| "VOP_REMOVE hw vm (DevVnode a) name s = Some (null_nameop, s)"

text \<open>The callers of the next two have compared the filesystems of the two vnodes; SFS takes the second as its own.\<close>

fun VOP_RENAME :: "'h lhd_hw \<Rightarrow> vmem \<Rightarrow> vnode \<Rightarrow> bytes \<Rightarrow> vnode \<Rightarrow> bytes \<Rightarrow> 'h vfs \<Rightarrow> (unit, 'h vfs) kcall" where
  "VOP_RENAME hw vm (SfsVnode f v) n1 d2 n2 s =
     dir_call f v (\<lambda>fs. case d2 of SfsVnode f2 v2 \<Rightarrow> sfs_rename (lhd_io hw) vm v n1 v2 n2 fs | DevVnode _ \<Rightarrow> None) s"
| "VOP_RENAME hw vm (DevVnode a) n1 d2 n2 s = Some (null_rename, s)"

fun VOP_LINK :: "'h lhd_hw \<Rightarrow> vnode \<Rightarrow> bytes \<Rightarrow> vnode \<Rightarrow> 'h vfs \<Rightarrow> (unit, 'h vfs) kcall" where
  "VOP_LINK hw (SfsVnode f v) name file s =
     dir_call f v (\<lambda>fs. case file of SfsVnode f2 w \<Rightarrow> sfs_link (lhd_io hw) v name w fs | DevVnode _ \<Rightarrow> None) s"
| "VOP_LINK hw (DevVnode a) name file s = Some (null_link, s)"

fun VOP_LOOKUP :: "'h lhd_hw \<Rightarrow> vmem \<Rightarrow> vnode \<Rightarrow> bytes \<Rightarrow> 'h vfs \<Rightarrow> (vnode, 'h vfs) kcall" where
  "VOP_LOOKUP hw vm (SfsVnode f v) path s =
     try_k (dir_call f v (sfs_lookup (lhd_io hw) vm v path) s) (\<lambda>w s'. Some (Inr (SfsVnode f w), s'))"
| "VOP_LOOKUP hw vm (DevVnode a) path s =
     (if length path > 0 then Some (Inl ENOENT, s)
      else do { s' \<leftarrow> VOP_INCREF (DevVnode a) s; Some (Inr (DevVnode a), s') })"

fun VOP_LOOKPARENT :: "vnode \<Rightarrow> bytes \<Rightarrow> nat \<Rightarrow> 'h vfs \<Rightarrow> (vnode \<times> bytes, 'h vfs) kcall" where
  "VOP_LOOKPARENT (SfsVnode f v) path buflen s =
     try_k (dir_call f v (sfs_lookparent v path buflen) s) (\<lambda>(w, name) s'. Some (Inr (SfsVnode f w, name), s'))"
| "VOP_LOOKPARENT (DevVnode a) path buflen s = Some (dev_lookparent, s)"

section \<open>The operations on filesystems\<close>

definition FSOP_GETROOT :: "'h lhd_hw \<Rightarrow> vmem \<Rightarrow> nat \<Rightarrow> 'h vfs \<Rightarrow> (vnode \<times> 'h vfs) option" where
  "FSOP_GETROOT hw vm f s = do {
     fs \<leftarrow> fs_get f s;
     (v, fs') \<leftarrow> sfs_getroot (lhd_io hw) vm fs;
     Some (SfsVnode f v, fs_put f fs' s) }"

definition FSOP_GETVOLNAME :: "nat \<Rightarrow> 'h vfs \<Rightarrow> bytes option" where
  "FSOP_GETVOLNAME f s = map_option sfs_getvolname (fs_get f s)"

definition FSOP_SYNC :: "'h lhd_hw \<Rightarrow> nat \<Rightarrow> 'h vfs \<Rightarrow> (unit, 'h vfs) kcall" where
  "FSOP_SYNC hw f s = fs_call f (sfs_sync (lhd_io hw)) s"

text \<open>A successful unmount frees the filesystem structure.\<close>

definition FSOP_UNMOUNT :: "nat \<Rightarrow> 'h vfs \<Rightarrow> (unit, 'h vfs) kcall" where
  "FSOP_UNMOUNT f s = do {
     fs \<leftarrow> fs_get f s;
     r \<leftarrow> sfs_unmount fs;
     Some (r, if r = Inr () then s\<lparr>fs_mem := (fs_mem s)(f := None)\<rparr> else s) }"

end
