(* ===== verification/Vfs_List.thy ===== *)
theory Vfs_List
  imports Vfs
begin

text \<open>
  The list of named devices, \<open>kern/fs/vfs/vfslist.c\<close>: adding a device, finding the vnode for a device or volume name,
  mounting and unmounting.
\<close>

section \<open>Names of devices\<close>

text \<open>The loop of \<open>vfs_getroot\<close> over the rest of the list.\<close>

fun getroot_scan :: "'h lhd_hw \<Rightarrow> vmem \<Rightarrow> bytes \<Rightarrow> knowndev list \<Rightarrow> 'h vfs \<Rightarrow> (vnode, 'h vfs) kcall" where
  "getroot_scan hw vm devname [] s = Some (Inl ENODEV, s)"
| "getroot_scan hw vm devname (kd # kds) s = do {
     volname \<leftarrow> (case kd_fs kd of None \<Rightarrow> Some None | Some f \<Rightarrow> map_option Some (FSOP_GETVOLNAME f s));
     if kd_fs kd \<noteq> None \<and> (kd_name kd = devname \<or> volname = Some devname) then do {
       (v, s') \<leftarrow> FSOP_GETROOT hw vm (the (kd_fs kd)) s;
       Some (Inr v, s') }
     else if kd_fs kd = None \<and> kd_rawname kd \<noteq> None \<and> kd_name kd = devname then Some (Inl ENXIO, s)
     else if kd_name kd = devname then do {
       kassert (kd_fs kd = None);
       kassert (kd_rawname kd = None);
       kassert (kd_device kd \<noteq> None);
       s' \<leftarrow> VOP_INCREF (DevVnode (kd_vnode kd)) s;
       Some (Inr (DevVnode (kd_vnode kd)), s') }
     else if kd_rawname kd = Some devname then do {
       kassert (kd_device kd \<noteq> None);
       s' \<leftarrow> VOP_INCREF (DevVnode (kd_vnode kd)) s;
       Some (Inr (DevVnode (kd_vnode kd)), s') }
     else getroot_scan hw vm devname kds s }"

definition vfs_getroot :: "'h lhd_hw \<Rightarrow> vmem \<Rightarrow> bytes \<Rightarrow> 'h vfs \<Rightarrow> (vnode, 'h vfs) kcall" where
  "vfs_getroot hw vm devname s = getroot_scan hw vm devname (knowndevs s) s"

definition vfs_getdevname :: "nat \<Rightarrow> 'h vfs \<Rightarrow> bytes option" where
  "vfs_getdevname f s = map_option kd_name (find (\<lambda>kd. kd_fs kd = Some f) (knowndevs s))"

definition mkrawname :: "bytes \<Rightarrow> bytes" where
  "mkrawname name = name @ [114, 97, 119]"

definition samestring :: "bytes option \<Rightarrow> bytes option \<Rightarrow> bool" where
  "samestring a b = (if a = None \<or> b = None then False else a = b)"

definition samestring3 :: "bytes option \<Rightarrow> bytes option \<Rightarrow> bytes option \<Rightarrow> bytes option \<Rightarrow> bool" where
  "samestring3 a b c d \<longleftrightarrow> samestring a b \<or> samestring a c \<or> samestring a d"

fun badnames_scan :: "bytes option \<Rightarrow> bytes option \<Rightarrow> bytes option \<Rightarrow> knowndev list \<Rightarrow> 'h vfs \<Rightarrow> bool option" where
  "badnames_scan n1 n2 n3 [] s = Some False"
| "badnames_scan n1 n2 n3 (kd # kds) s = do {
     volname \<leftarrow> (case kd_fs kd of None \<Rightarrow> Some None | Some f \<Rightarrow> map_option Some (FSOP_GETVOLNAME f s));
     if kd_fs kd \<noteq> None \<and> samestring3 volname n1 n2 n3 then Some True
     else if samestring3 (kd_rawname kd) n1 n2 n3 \<or> samestring3 (Some (kd_name kd)) n1 n2 n3 then Some True
     else badnames_scan n1 n2 n3 kds s }"

definition badnames :: "bytes option \<Rightarrow> bytes option \<Rightarrow> bytes option \<Rightarrow> 'h vfs \<Rightarrow> bool option" where
  "badnames n1 n2 n3 s = badnames_scan n1 n2 n3 (knowndevs s) s"

section \<open>Adding devices\<close>

text \<open>The allocations of \<open>vfs_doadd\<close>: the two names, the vnode and its lock, the \<open>knowndev\<close>, and room in the array.\<close>

record addmem =
  am_name :: bool
  am_rawname :: bool
  am_vnode :: "nat option"
  am_lock :: bool
  am_kd :: bool
  am_array :: bool

text \<open>With a name in use, or without room in the array, the vnode that has been made is not freed.\<close>

definition vfs_doadd :: "addmem \<Rightarrow> bytes \<Rightarrow> bool \<Rightarrow> nat option \<Rightarrow> nat option \<Rightarrow> 'h vfs \<Rightarrow> (unit, 'h vfs) kcall" where
  "vfs_doadd am dname mountable dev fs s =
     (if \<not> am_name am then Some (Inl ENOMEM, s)
      else if mountable \<and> \<not> am_rawname am then Some (Inl ENOMEM, s)
      else do {
        let rawname = (if mountable then Some (mkrawname dname) else None);
        vn \<leftarrow> dev_create_vnode (am_vnode am \<noteq> None) (am_lock am) dev;
        case vn of None \<Rightarrow> Some (Inl ENOMEM, s) | Some vn \<Rightarrow>
          if \<not> am_kd am then Some (Inl ENOMEM, s)
          else do {
            let a = the (am_vnode am);
            let kd = \<lparr>kd_name = dname, kd_rawname = rawname, kd_device = dev, kd_vnode = a, kd_fs = fs\<rparr>;
            volname \<leftarrow> (case fs of None \<Rightarrow> Some None | Some f \<Rightarrow> map_option Some (FSOP_GETVOLNAME f s));
            let s1 = s\<lparr>dev_vnodes := (dev_vnodes s)(a \<mapsto> vn)\<rparr>;
            bad \<leftarrow> badnames (Some dname) rawname volname s1;
            if \<not> bad then
              (if am_array am then Some (Inr (), s1\<lparr>knowndevs := knowndevs s1 @ [kd]\<rparr>) else Some (Inl ENOMEM, s1))
            else Some (Inl EEXIST, s1) } })"

definition vfs_adddev :: "addmem \<Rightarrow> bytes \<Rightarrow> nat \<Rightarrow> bool \<Rightarrow> 'h vfs \<Rightarrow> (unit, 'h vfs) kcall" where
  "vfs_adddev am devname dev mountable s = vfs_doadd am devname mountable (Some dev) None s"

definition vfs_addfs :: "addmem \<Rightarrow> bytes \<Rightarrow> nat \<Rightarrow> 'h vfs \<Rightarrow> (unit, 'h vfs) kcall" where
  "vfs_addfs am devname fs s = vfs_doadd am devname False None (Some fs) s"

definition devnull_create :: "nat option \<Rightarrow> addmem \<Rightarrow> 'h vfs \<Rightarrow> 'h vfs option" where
  "devnull_create mem am s = do {
     d \<leftarrow> mem;
     (r, s') \<leftarrow> vfs_adddev am [110, 117, 108, 108] d False (s\<lparr>devices := (devices s)(d \<mapsto> Dev_null)\<rparr>);
     kassert (r = Inr ());
     Some s' }"

definition vfs_bootstrap :: "bool \<Rightarrow> bool \<Rightarrow> bool \<Rightarrow> nat option \<Rightarrow> addmem \<Rightarrow> 'h vfs \<Rightarrow> 'h vfs option" where
  "vfs_bootstrap okarray oklock okboot mem am s = do {
     kassert okarray;
     kassert oklock;
     kassert okboot;
     devnull_create mem am (s\<lparr>knowndevs := []\<rparr>) }"

section \<open>Mounting and unmounting\<close>

fun findmount :: "bytes \<Rightarrow> knowndev list \<Rightarrow> nat \<Rightarrow> errno + nat" where
  "findmount devname [] i = Inl ENODEV"
| "findmount devname (kd # kds) i =
     (if kd_rawname kd = None then findmount devname kds (i + 1)
      else if devname = kd_name kd then Inr i
      else findmount devname kds (i + 1))"

definition set_kd_fs :: "nat \<Rightarrow> nat option \<Rightarrow> 'h vfs \<Rightarrow> 'h vfs" where
  "set_kd_fs i f s = s\<lparr>knowndevs := (knowndevs s)[i := (knowndevs s ! i)\<lparr>kd_fs := f\<rparr>]\<rparr>"

text \<open>
  The mount function is \<open>sfs_domount\<close>, the only one there is.  The allocations are the address of the new filesystem,
  its array and the two blocks of its bitmap.  The null device has the wrong block size.
\<close>

type_synonym mountmem = "nat option \<times> bool \<times> (bool \<times> bool)"

definition vfs_mount :: "'h lhd_hw \<Rightarrow> mountmem \<Rightarrow> bytes \<Rightarrow> 'h vfs \<Rightarrow> (unit, 'h vfs) kcall" where
  "vfs_mount hw mm devname s = (case findmount devname (knowndevs s) 0 of
     Inl e \<Rightarrow> Some (Inl e, s)
   | Inr i \<Rightarrow> let kd = knowndevs s ! i; (mem, okarr, okbm) = mm in
     if kd_fs kd \<noteq> None then Some (Inl EBUSY, s)
     else do {
       kassert (kd_rawname kd \<noteq> None);
       d \<leftarrow> kd_device kd;
       dev \<leftarrow> devices s d;
       case dev of Dev_null \<Rightarrow> Some (Inl ENXIO, s) | Dev_lhd lh \<Rightarrow> do {
         (r, lh') \<leftarrow> sfs_domount (lhd_io hw) (mem \<noteq> None) okarr okbm (dev_blocksize dev) lh;
         let s1 = s\<lparr>devices := (devices s)(d \<mapsto> Dev_lhd lh')\<rparr>;
         case r of Inl e \<Rightarrow> Some (Inl e, s1)
         | Inr fs \<Rightarrow> Some (Inr (), set_kd_fs i mem (s1\<lparr>fs_mem := (fs_mem s1)(the mem \<mapsto> (d, fs))\<rparr>)) } })"

definition sfs_mount :: "'h lhd_hw \<Rightarrow> mountmem \<Rightarrow> bytes \<Rightarrow> 'h vfs \<Rightarrow> (unit, 'h vfs) kcall" where
  "sfs_mount hw mm device s = vfs_mount hw mm device s"

definition vfs_unmount :: "'h lhd_hw \<Rightarrow> bytes \<Rightarrow> 'h vfs \<Rightarrow> (unit, 'h vfs) kcall" where
  "vfs_unmount hw devname s = (case findmount devname (knowndevs s) 0 of
     Inl e \<Rightarrow> Some (Inl e, s)
   | Inr i \<Rightarrow> let kd = knowndevs s ! i in
     (case kd_fs kd of None \<Rightarrow> Some (Inl EINVAL, s) | Some f \<Rightarrow> do {
        kassert (kd_rawname kd \<noteq> None);
        kassert (kd_device kd \<noteq> None);
        try_k (FSOP_SYNC hw f s) (\<lambda>_ s1. try_k (FSOP_UNMOUNT f s1) (\<lambda>_ s2. Some (Inr (), set_kd_fs i None s2))) }))"

text \<open>One round of the loop of \<open>vfs_unmountall\<close>; messages apart, the errors are ignored.\<close>

definition unmount_one :: "'h lhd_hw \<Rightarrow> nat \<Rightarrow> 'h vfs \<Rightarrow> 'h vfs option" where
  "unmount_one hw i s = (let kd = knowndevs s ! i in
     if kd_rawname kd = None then Some s
     else case kd_fs kd of None \<Rightarrow> Some s | Some f \<Rightarrow> do {
       (r, s1) \<leftarrow> FSOP_SYNC hw f s;
       (r', s2) \<leftarrow> (if r \<noteq> Inr () then FSOP_SYNC hw f s1 else Some (r, s1));
       if r' \<noteq> Inr () then Some s2
       else do {
         (r2, s3) \<leftarrow> FSOP_UNMOUNT f s2;
         if r2 \<noteq> Inr () then Some s3 else Some (set_kd_fs i None s3) } })"

fun unmountall_loop :: "'h lhd_hw \<Rightarrow> nat \<Rightarrow> nat \<Rightarrow> 'h vfs \<Rightarrow> 'h vfs option" where
  "unmountall_loop hw i 0 s = Some s"
| "unmountall_loop hw i (Suc k) s = do { s' \<leftarrow> unmount_one hw i s; unmountall_loop hw (i + 1) k s' }"

definition vfs_unmountall :: "'h lhd_hw \<Rightarrow> 'h vfs \<Rightarrow> 'h vfs option" where
  "vfs_unmountall hw s = unmountall_loop hw 0 (length (knowndevs s)) s"

fun sync_loop :: "'h lhd_hw \<Rightarrow> knowndev list \<Rightarrow> 'h vfs \<Rightarrow> 'h vfs option" where
  "sync_loop hw [] s = Some s"
| "sync_loop hw (kd # kds) s = (case kd_fs kd of
     None \<Rightarrow> sync_loop hw kds s
   | Some f \<Rightarrow> do { (_, s') \<leftarrow> FSOP_SYNC hw f s; sync_loop hw kds s' })"

definition vfs_sync :: "'h lhd_hw \<Rightarrow> 'h vfs \<Rightarrow> 'h vfs option" where
  "vfs_sync hw s = sync_loop hw (knowndevs s) s"

end
