(* ===== verification/Vfs_Path.thy ===== *)
theory Vfs_Path
  imports Vfs_List
begin

text \<open>
  Path names: the current directory of \<open>kern/fs/vfs/vfscwd.c\<close>, the choice of the vnode a path starts from and the
  look-ups of \<open>vfslookup.c\<close>, and the operations of \<open>vfspath.c\<close>.

  A path is the list of its characters without the terminating zero; 58 is the colon and 47 the slash.  \<open>getdevice\<close>
  overwrites the colon after a device name in the buffer it is given; no caller reads that part again.
\<close>

unbundle bit_operations_syntax

abbreviation NAME_MAX :: nat where "NAME_MAX \<equiv> 255"
abbreviation colon_char :: "8 word" where "colon_char \<equiv> 58"
abbreviation slash_char :: "8 word" where "slash_char \<equiv> 47"

section \<open>The current directory\<close>

definition vfs_getcurdir :: "'h vfs \<Rightarrow> (vnode, 'h vfs) kcall" where
  "vfs_getcurdir s = (case t_cwd s of
     Some v \<Rightarrow> do { s' \<leftarrow> VOP_INCREF v s; Some (Inr v, s') }
   | None \<Rightarrow> Some (Inl ENOENT, s))"

definition decref_opt :: "'h lhd_hw \<Rightarrow> vnode option \<Rightarrow> 'h vfs \<Rightarrow> 'h vfs option" where
  "decref_opt hw old s = (case old of None \<Rightarrow> Some s | Some v \<Rightarrow> VOP_DECREF hw v s)"

definition vfs_setcurdir :: "'h lhd_hw \<Rightarrow> vnode \<Rightarrow> 'h vfs \<Rightarrow> (unit, 'h vfs) kcall" where
  "vfs_setcurdir hw dir s =
     try_k (VOP_GETTYPE dir s) (\<lambda>vtype s1.
       if vtype \<noteq> S_IFDIR then Some (Inl ENOTDIR, s1)
       else do {
         s2 \<leftarrow> VOP_INCREF dir s1;
         s3 \<leftarrow> decref_opt hw (t_cwd s2) (s2\<lparr>t_cwd := Some dir\<rparr>);
         Some (Inr (), s3) })"

definition vfs_clearcurdir :: "'h lhd_hw \<Rightarrow> 'h vfs \<Rightarrow> 'h vfs option" where
  "vfs_clearcurdir hw s = decref_opt hw (t_cwd s) (s\<lparr>t_cwd := None\<rparr>)"

section \<open>Where a path starts\<close>

text \<open>The loop that looks for the first colon or slash: the values of \<open>slash\<close> and \<open>colon\<close> after it.\<close>

fun scan_path :: "bytes \<Rightarrow> int \<Rightarrow> int \<times> int" where
  "scan_path [] i = (-1, -1)"
| "scan_path (c # cs) i = (if c = colon_char then (-1, i) else if c = slash_char then (i, -1) else scan_path cs (i + 1))"

fun skip_slashes :: "bytes \<Rightarrow> bytes" where
  "skip_slashes [] = []"
| "skip_slashes (c # cs) = (if c = slash_char then skip_slashes cs else c # cs)"

text \<open>The part after the two cases that return at once: \<open>/path\<close> or \<open>:path\<close>.\<close>

definition getdevice_root :: "'h lhd_hw \<Rightarrow> vmem \<Rightarrow> bytes \<Rightarrow> 'h vfs \<Rightarrow> (vnode, 'h vfs) kcall" where
  "getdevice_root hw vm path s =
     (if hd path = slash_char then
        (case bootfs_vnode s of None \<Rightarrow> Some (Inl ENOENT, s)
         | Some v \<Rightarrow> do { s' \<leftarrow> VOP_INCREF v s; Some (Inr v, s') })
      else do {
        kassert (hd path = colon_char);
        try_k (vfs_getcurdir s) (\<lambda>vn s1. do {
          f \<leftarrow> vn_fs vn;
          (root, s2) \<leftarrow> FSOP_GETROOT hw vm f s1;
          s3 \<leftarrow> VOP_DECREF hw vn s2;
          Some (Inr root, s3) }) })"

definition getdevice :: "'h lhd_hw \<Rightarrow> vmem \<Rightarrow> bytes \<Rightarrow> 'h vfs \<Rightarrow> (bytes \<times> vnode, 'h vfs) kcall" where
  "getdevice hw vm path s = (let (slash, colon) = scan_path path 0 in
     if colon < 0 \<and> slash \<noteq> 0 then try_k (vfs_getcurdir s) (\<lambda>v s'. Some (Inr (path, v), s'))
     else if colon > 0 then
       try_k (vfs_getroot hw vm (take (nat colon) path) s) (\<lambda>v s'.
         Some (Inr (skip_slashes (drop (nat colon + 1) path), v), s'))
     else do {
       kassert (colon = 0 \<or> slash = 0);
       try_k (getdevice_root hw vm path s) (\<lambda>v s'. Some (Inr (skip_slashes (drop 1 path), v), s')) })"

section \<open>Looking up a path\<close>

definition vfs_lookparent :: "'h lhd_hw \<Rightarrow> vmem \<Rightarrow> bytes \<Rightarrow> nat \<Rightarrow> 'h vfs \<Rightarrow> (vnode \<times> bytes, 'h vfs) kcall" where
  "vfs_lookparent hw vm path buflen s =
     try_k (getdevice hw vm path s) (\<lambda>(sub, startvn) s1. do {
       (r, s2) \<leftarrow> (if length sub = 0 then Some (Inl EINVAL, s1) else VOP_LOOKPARENT startvn sub buflen s1);
       s3 \<leftarrow> VOP_DECREF hw startvn s2;
       Some (r, s3) })"

definition vfs_lookup :: "'h lhd_hw \<Rightarrow> (nat \<Rightarrow> vmem) \<Rightarrow> bytes \<Rightarrow> 'h vfs \<Rightarrow> (vnode, 'h vfs) kcall" where
  "vfs_lookup hw vm path s =
     try_k (getdevice hw (vm 0) path s) (\<lambda>(sub, startvn) s1.
       if length sub = 0 then Some (Inr startvn, s1)
       else do {
         (r, s2) \<leftarrow> VOP_LOOKUP hw (vm 1) startvn sub s1;
         s3 \<leftarrow> VOP_DECREF hw startvn s2;
         Some (r, s3) })"

definition vfs_chdir :: "'h lhd_hw \<Rightarrow> (nat \<Rightarrow> vmem) \<Rightarrow> bytes \<Rightarrow> 'h vfs \<Rightarrow> (unit, 'h vfs) kcall" where
  "vfs_chdir hw vm path s =
     try_k (vfs_lookup hw vm path s) (\<lambda>vn s1. do {
       (r, s2) \<leftarrow> vfs_setcurdir hw vn s1;
       s3 \<leftarrow> VOP_DECREF hw vn s2;
       Some (r, s3) })"

text \<open>The name of the current directory; the volume name of an SFS filesystem is never null.\<close>

definition vfs_getcwd :: "'h lhd_hw \<Rightarrow> uio \<Rightarrow> 'h vfs \<Rightarrow> ((errno + unit) \<times> uio \<times> 'h vfs) option" where
  "vfs_getcwd hw u s = do {
     kassert (uio_rw u = UIO_READ);
     (r, s1) \<leftarrow> vfs_getcurdir s;
     case r of Inl e \<Rightarrow> Some (Inl e, u, s1) | Inr cwd \<Rightarrow> do {
       f \<leftarrow> vn_fs cwd;
       name \<leftarrow> FSOP_GETVOLNAME f s1;
       (r1, u1) \<leftarrow> try_k (uiomove name u) (\<lambda>_ u'. try_k (uiomove [colon_char] u') (\<lambda>_ u''. Some (Inr (), u'')));
       (r2, s2) \<leftarrow> (if r1 = Inr () then VOP_NAMEFILE cwd s1 else Some (r1, s1));
       s3 \<leftarrow> VOP_DECREF hw cwd s2;
       Some (r2, u1, s3) } }"

definition change_bootfs :: "'h lhd_hw \<Rightarrow> vnode option \<Rightarrow> 'h vfs \<Rightarrow> 'h vfs option" where
  "change_bootfs hw newguy s = decref_opt hw (bootfs_vnode s) (s\<lparr>bootfs_vnode := newguy\<rparr>)"

text \<open>\<open>snprintf\<close> into a buffer of 255 bytes keeps 254 characters.\<close>

definition vfs_setbootfs :: "'h lhd_hw \<Rightarrow> (nat \<Rightarrow> vmem) \<Rightarrow> bytes \<Rightarrow> 'h vfs \<Rightarrow> (unit, 'h vfs) kcall" where
  "vfs_setbootfs hw vm fsname s = (let tmp = take (NAME_MAX + 1 - 1 - 1) fsname in
     if colon_char \<in> set tmp \<and> length (dropWhile (\<lambda>c. c \<noteq> colon_char) tmp) > 0 then Some (Inl EINVAL, s)
     else
       try_k (vfs_chdir hw vm (if colon_char \<in> set tmp then tmp else tmp @ [colon_char]) s) (\<lambda>_ s1.
       try_k (vfs_getcurdir s1) (\<lambda>newguy s2. do {
         s3 \<leftarrow> change_bootfs hw (Some newguy) s2;
         Some (Inr (), s3) })))"

definition vfs_clearbootfs :: "'h lhd_hw \<Rightarrow> 'h vfs \<Rightarrow> 'h vfs option" where
  "vfs_clearbootfs hw s = change_bootfs hw None s"

section \<open>Operations on paths\<close>

text \<open>\<open>vfs_open\<close> from \<open>VOP_OPEN\<close> on.\<close>

definition open_vnode :: "'h lhd_hw \<Rightarrow> int \<Rightarrow> vnode \<Rightarrow> 'h vfs \<Rightarrow> (vnode, 'h vfs) kcall" where
  "open_vnode hw openflags vn s = do {
     (r, s1) \<leftarrow> VOP_OPEN vn openflags s;
     case r of
       Inl e \<Rightarrow> do { s2 \<leftarrow> VOP_DECREF hw vn s1; Some (Inl e, s2) }
     | Inr _ \<Rightarrow> do {
         s2 \<leftarrow> VOP_INCOPEN vn s1;
         if openflags AND O_TRUNC \<noteq> 0 then do {
           (r2, s3) \<leftarrow> (if openflags AND O_ACCMODE = O_RDONLY then Some (Inl EINVAL, s2) else VOP_TRUNCATE hw vn 0 s2);
           case r2 of
             Inl e \<Rightarrow> do {
               s4 \<leftarrow> VOP_DECOPEN hw vn s3;
               s5 \<leftarrow> VOP_DECREF hw vn s4;
               Some (Inl e, s5) }
           | Inr _ \<Rightarrow> Some (Inr vn, s3) }
         else Some (Inr vn, s2) } }"

definition vfs_open :: "'h lhd_hw \<Rightarrow> (nat \<Rightarrow> vmem) \<Rightarrow> bytes \<Rightarrow> int \<Rightarrow> 'h vfs \<Rightarrow> (vnode, 'h vfs) kcall" where
  "vfs_open hw vm path openflags s =
     (if openflags AND O_ACCMODE \<notin> {O_RDONLY, O_WRONLY, O_RDWR} then Some (Inl EINVAL, s)
      else
        try_k
          (if openflags AND O_CREAT \<noteq> 0 then
             try_k (vfs_lookparent hw (vm 0) path (NAME_MAX + 1) s) (\<lambda>(dir, name) s1. do {
               (r, s2) \<leftarrow> VOP_CREAT hw (vm 1) dir name (openflags AND O_EXCL \<noteq> 0) s1;
               s3 \<leftarrow> VOP_DECREF hw dir s2;
               Some (r, s3) })
           else vfs_lookup hw vm path s)
          (open_vnode hw openflags))"

definition vfs_close :: "'h lhd_hw \<Rightarrow> vnode \<Rightarrow> 'h vfs \<Rightarrow> 'h vfs option" where
  "vfs_close hw vn s = do {
     s1 \<leftarrow> VOP_DECOPEN hw vn s;
     VOP_DECREF hw vn s1 }"

definition vfs_remove :: "'h lhd_hw \<Rightarrow> (nat \<Rightarrow> vmem) \<Rightarrow> bytes \<Rightarrow> 'h vfs \<Rightarrow> (unit, 'h vfs) kcall" where
  "vfs_remove hw vm path s =
     try_k (vfs_lookparent hw (vm 0) path (NAME_MAX + 1) s) (\<lambda>(dir, name) s1. do {
       (r, s2) \<leftarrow> VOP_REMOVE hw (vm 1) dir name s1;
       s3 \<leftarrow> VOP_DECREF hw dir s2;
       Some (r, s3) })"

text \<open>After the second look-up of \<open>vfs_rename\<close> and \<open>vfs_link\<close> fails, the first vnode is given up.\<close>

definition vfs_rename :: "'h lhd_hw \<Rightarrow> (nat \<Rightarrow> vmem) \<Rightarrow> bytes \<Rightarrow> bytes \<Rightarrow> 'h vfs \<Rightarrow> (unit, 'h vfs) kcall" where
  "vfs_rename hw vm oldpath newpath s =
     try_k (vfs_lookparent hw (vm 0) oldpath (NAME_MAX + 1) s) (\<lambda>(olddir, oldname) s1. do {
       (r, s2) \<leftarrow> vfs_lookparent hw (vm 1) newpath (NAME_MAX + 1) s1;
       case r of
         Inl e \<Rightarrow> do { s3 \<leftarrow> VOP_DECREF hw olddir s2; Some (Inl e, s3) }
       | Inr (newdir, newname) \<Rightarrow> do {
           (r2, s3) \<leftarrow> (if vn_fs olddir = None \<or> vn_fs newdir = None \<or> vn_fs olddir \<noteq> vn_fs newdir
             then Some (Inl EXDEV, s2) else VOP_RENAME hw (vm 2) olddir oldname newdir newname s2);
           s4 \<leftarrow> VOP_DECREF hw newdir s3;
           s5 \<leftarrow> VOP_DECREF hw olddir s4;
           Some (r2, s5) } })"

definition vfs_link :: "'h lhd_hw \<Rightarrow> (nat \<Rightarrow> vmem) \<Rightarrow> bytes \<Rightarrow> bytes \<Rightarrow> 'h vfs \<Rightarrow> (unit, 'h vfs) kcall" where
  "vfs_link hw vm oldpath newpath s =
     try_k (vfs_lookup hw vm oldpath s) (\<lambda>oldfile s1. do {
       (r, s2) \<leftarrow> vfs_lookparent hw (vm 2) newpath (NAME_MAX + 1) s1;
       case r of
         Inl e \<Rightarrow> do { s3 \<leftarrow> VOP_DECREF hw oldfile s2; Some (Inl e, s3) }
       | Inr (newdir, newname) \<Rightarrow> do {
           (r2, s3) \<leftarrow> (if vn_fs oldfile = None \<or> vn_fs newdir = None \<or> vn_fs oldfile \<noteq> vn_fs newdir
             then Some (Inl EXDEV, s2) else VOP_LINK hw newdir newname oldfile s2);
           s4 \<leftarrow> VOP_DECREF hw newdir s3;
           s5 \<leftarrow> VOP_DECREF hw oldfile s4;
           Some (r2, s5) } })"

text \<open>The operations on the parent directory that are not there in any function table, and \<open>vfs_readlink\<close>.\<close>

definition vfs_symlink :: "'h lhd_hw \<Rightarrow> vmem \<Rightarrow> bytes \<Rightarrow> bytes \<Rightarrow> 'h vfs \<Rightarrow> (unit, 'h vfs) kcall" where
  "vfs_symlink hw vm contents path s =
     try_k (vfs_lookparent hw vm path (NAME_MAX + 1) s) (\<lambda>(newdir, newname) s1. do {
       (r, s2) \<leftarrow> VOP_SYMLINK newdir s1;
       s3 \<leftarrow> VOP_DECREF hw newdir s2;
       Some (r, s3) })"

definition vfs_readlink :: "'h lhd_hw \<Rightarrow> (nat \<Rightarrow> vmem) \<Rightarrow> bytes \<Rightarrow> 'h vfs \<Rightarrow> (unit, 'h vfs) kcall" where
  "vfs_readlink hw vm path s =
     try_k (vfs_lookup hw vm path s) (\<lambda>vn s1. do {
       (r, s2) \<leftarrow> VOP_READLINK vn s1;
       s3 \<leftarrow> VOP_DECREF hw vn s2;
       Some (r, s3) })"

definition vfs_mkdir :: "'h lhd_hw \<Rightarrow> vmem \<Rightarrow> bytes \<Rightarrow> 'h vfs \<Rightarrow> (unit, 'h vfs) kcall" where
  "vfs_mkdir hw vm path s =
     try_k (vfs_lookparent hw vm path (NAME_MAX + 1) s) (\<lambda>(parent, name) s1. do {
       (r, s2) \<leftarrow> VOP_MKDIR parent s1;
       s3 \<leftarrow> VOP_DECREF hw parent s2;
       Some (r, s3) })"

definition vfs_rmdir :: "'h lhd_hw \<Rightarrow> vmem \<Rightarrow> bytes \<Rightarrow> 'h vfs \<Rightarrow> (unit, 'h vfs) kcall" where
  "vfs_rmdir hw vm path s =
     try_k (vfs_lookparent hw vm path (NAME_MAX + 1) s) (\<lambda>(parent, name) s1. do {
       (r, s2) \<leftarrow> VOP_RMDIR parent s1;
       s3 \<leftarrow> VOP_DECREF hw parent s2;
       Some (r, s3) })"

end
