(* ===== verification/Vfs_Res.thy ===== *)
theory Vfs_Res
  imports Vfs_Path
begin

text \<open>
  What a path name means: the forms of a path as a datatype and a reference parser for it, the thing a device or volume
  name stands for, and the invariant that no two devices share a name.
\<close>

section \<open>The forms of a path\<close>

datatype path_form =
    From_cwd bytes
  | On_device bytes bytes
  | From_boot bytes
  | From_curfs bytes

text \<open>
  The reference: a path is cut at its first colon or slash.  A name before a colon is a device; a path that begins
  with a slash is on the boot filesystem, one that begins with a colon on the current one; what follows
  has its leading slashes removed.  Every other path is relative.
\<close>

definition split_path :: "bytes \<Rightarrow> path_form" where
  "split_path path =
     (let pre = takeWhile (\<lambda>c. c \<noteq> colon_char \<and> c \<noteq> slash_char) path;
          rest = dropWhile (\<lambda>c. c \<noteq> colon_char \<and> c \<noteq> slash_char) path;
          sub = dropWhile (\<lambda>c. c = slash_char) (drop 1 rest)
      in if rest \<noteq> [] \<and> hd rest = colon_char then (if pre = [] then From_curfs sub else On_device pre sub)
         else if rest \<noteq> [] \<and> pre = [] then From_boot sub
         else From_cwd path)"

lemma skip_slashes_eq: "skip_slashes cs = dropWhile (\<lambda>c. c = slash_char) cs"
  by (induction cs) auto

lemma scan_path_eq:
  assumes "0 \<le> i"
  shows "scan_path path i =
    (let pre = takeWhile (\<lambda>c. c \<noteq> colon_char \<and> c \<noteq> slash_char) path;
         rest = dropWhile (\<lambda>c. c \<noteq> colon_char \<and> c \<noteq> slash_char) path;
         k = i + int (length pre)
     in if rest = [] then (-1, -1) else if hd rest = colon_char then (-1, k) else (k, -1))"
  using assms
proof (induction path arbitrary: i)
  case (Cons c path)
  then show ?case using Cons.IH [of "i + 1"] by (auto simp: Let_def)
qed simp

lemma try_k_bind: "try_k (Option.bind m f) k = Option.bind m (\<lambda>x. try_k (f x) k)"
  by (cases m) simp_all

lemma try_k_try_k: "try_k (try_k m f) k = try_k m (\<lambda>a s. try_k (f a s) k)"
  by (auto simp: try_k_def split: option.splits sum.splits prod.splits)

text \<open>The part of \<open>getdevice\<close> that depends on the form of the path, in terms of the reference.\<close>

lemma getdevice_forms:
  "getdevice hw vm path s = (case split_path path of
      From_cwd sub \<Rightarrow> try_k (vfs_getcurdir s) (\<lambda>v s'. Some (Inr (sub, v), s'))
    | On_device dev sub \<Rightarrow> try_k (vfs_getroot hw vm dev s) (\<lambda>v s'. Some (Inr (sub, v), s'))
    | From_boot sub \<Rightarrow> (case bootfs_vnode s of None \<Rightarrow> Some (Inl ENOENT, s)
        | Some v \<Rightarrow> do { s' \<leftarrow> VOP_INCREF v s; Some (Inr (sub, v), s') })
    | From_curfs sub \<Rightarrow> try_k (vfs_getcurdir s) (\<lambda>vn s1. do {
        f \<leftarrow> vn_fs vn;
        (root, s2) \<leftarrow> FSOP_GETROOT hw vm f s1;
        s3 \<leftarrow> VOP_DECREF hw vn s2;
        Some (Inr (sub, root), s3) }))"
proof -
  define P where "P = (\<lambda>c :: 8 word. c \<noteq> colon_char \<and> c \<noteq> slash_char)"
  define pre where "pre = takeWhile P path"
  define rest where "rest = dropWhile P path"
  have path: "path = pre @ rest" by (simp add: pre_def rest_def)
  have scan: "scan_path path 0 = (if rest = [] then (-1, -1) else if hd rest = colon_char then (-1, int (length pre)) else (int (length pre), -1))"
    using scan_path_eq [of 0 path] by (simp add: Let_def pre_def rest_def P_def)
  have sp: "split_path path = (let sub = skip_slashes (drop 1 rest) in
      if rest \<noteq> [] \<and> hd rest = colon_char then (if pre = [] then From_curfs sub else On_device pre sub)
      else if rest \<noteq> [] \<and> pre = [] then From_boot sub else From_cwd path)"
    by (simp add: split_path_def Let_def pre_def rest_def P_def skip_slashes_eq)
  have hd: "rest \<noteq> [] \<Longrightarrow> hd rest = colon_char \<or> hd rest = slash_char" using hd_dropWhile [of P path] by (auto simp: rest_def P_def)
  have dr: "drop (Suc (length pre)) path = drop 1 rest" by (simp add: path)
  consider (none) "rest = []" | (colon) "rest \<noteq> []" "hd rest = colon_char" | (slash) "rest \<noteq> []" "hd rest = slash_char"
    using hd by blast
  then show ?thesis
  proof cases
    case none
    then show ?thesis by (simp add: getdevice_def scan sp)
  next
    case colon
    show ?thesis
    proof (cases "pre = []")
      case True
      then have "hd path = colon_char" "drop 1 path = drop 1 rest" using colon path by simp_all
      then show ?thesis using colon True
        by (simp add: getdevice_def scan sp Let_def getdevice_root_def try_k_bind try_k_try_k case_prod_unfold split: option.split)
    next
      case False
      moreover have "take (length pre) path = pre" by (simp add: path)
      ultimately show ?thesis using colon dr by (simp add: getdevice_def scan sp Let_def)
    qed
  next
    case slash
    show ?thesis
    proof (cases "pre = []")
      case True
      then have "hd path = slash_char" "drop 1 path = drop 1 rest" using slash path by simp_all
      then show ?thesis using slash True
        by (simp add: getdevice_def scan sp Let_def getdevice_root_def try_k_bind try_k_try_k case_prod_unfold split: option.split)
    next
      case False
      then show ?thesis using slash by (simp add: getdevice_def scan sp Let_def)
    qed
  qed
qed

text \<open>A device name and what follows the colon come back out of the path they are put in.\<close>

lemma split_device_path:
  assumes "dev \<noteq> []" and "colon_char \<notin> set dev" and "slash_char \<notin> set dev" and "sub = [] \<or> hd sub \<noteq> slash_char"
  shows "split_path (dev @ colon_char # replicate k slash_char @ sub) = On_device dev sub"
proof -
  let ?P = "\<lambda>c :: 8 word. c \<noteq> colon_char \<and> c \<noteq> slash_char"
  have "\<forall>c \<in> set dev. ?P c" using assms(2,3) by auto
  then have "takeWhile ?P (dev @ colon_char # xs) = dev" "dropWhile ?P (dev @ colon_char # xs) = colon_char # xs" for xs
    by (simp_all add: takeWhile_append2 dropWhile_append2)
  moreover have "dropWhile (\<lambda>c. c = slash_char) (replicate k slash_char @ sub) = sub"
    using assms(4) by (cases sub) (auto simp: dropWhile_append)
  ultimately show ?thesis using assms(1) by (simp add: split_path_def)
qed

section \<open>What a name stands for\<close>

datatype name_target = T_fs nat | T_unmounted | T_dev nat

definition volname_of :: "'h vfs \<Rightarrow> knowndev \<Rightarrow> bytes option" where
  "volname_of s kd = Option.bind (kd_fs kd) (\<lambda>f. FSOP_GETVOLNAME f s)"

definition kd_names :: "'h vfs \<Rightarrow> knowndev \<Rightarrow> bytes set" where
  "kd_names s kd = {kd_name kd} \<union> set_option (kd_rawname kd) \<union> set_option (volname_of s kd)"

text \<open>What one device answers to a name.\<close>

definition kd_target :: "'h vfs \<Rightarrow> bytes \<Rightarrow> knowndev \<Rightarrow> name_target option" where
  "kd_target s name kd = (case kd_fs kd of
      Some f \<Rightarrow> if name = kd_name kd \<or> volname_of s kd = Some name then Some (T_fs f)
        else if kd_rawname kd = Some name then Some (T_dev (kd_vnode kd)) else None
    | None \<Rightarrow> if name = kd_name kd then Some (if kd_rawname kd \<noteq> None then T_unmounted else T_dev (kd_vnode kd))
        else if kd_rawname kd = Some name then Some (T_dev (kd_vnode kd)) else None)"

definition name_target :: "'h vfs \<Rightarrow> bytes \<Rightarrow> name_target option" where
  "name_target s name = (case filter (\<lambda>kd. name \<in> kd_names s kd) (knowndevs s) of [] \<Rightarrow> None | kd # _ \<Rightarrow> kd_target s name kd)"

text \<open>The filesystems of the list are there, and a device without one has a device structure.\<close>

definition kd_ok :: "'h vfs \<Rightarrow> knowndev \<Rightarrow> bool" where
  "kd_ok s kd \<longleftrightarrow> (\<forall>f. kd_fs kd = Some f \<longrightarrow> fs_get f s \<noteq> None) \<and> (kd_fs kd = None \<or> kd_rawname kd \<noteq> None \<longrightarrow> kd_device kd \<noteq> None) \<and>
     kd_vnode kd \<in> dom (dev_vnodes s)"

lemma kd_target_some: "name \<in> kd_names s kd \<longleftrightarrow> kd_target s name kd \<noteq> None"
  by (auto simp: kd_names_def kd_target_def volname_of_def split: option.splits if_splits)

lemma getroot_scan_eq:
  assumes "\<forall>kd \<in> set kds. kd_ok s kd"
  shows "getroot_scan hw vm name kds s =
    (case filter (\<lambda>kd. name \<in> kd_names s kd) kds of [] \<Rightarrow> Some (Inl ENODEV, s)
     | kd # _ \<Rightarrow> (case the (kd_target s name kd) of
         T_fs f \<Rightarrow> do { (v, s') \<leftarrow> FSOP_GETROOT hw vm f s; Some (Inr v, s') }
       | T_unmounted \<Rightarrow> Some (Inl ENXIO, s)
       | T_dev a \<Rightarrow> do { s' \<leftarrow> VOP_INCREF (DevVnode a) s; Some (Inr (DevVnode a), s') }))"
  using assms
proof (induction kds)
  case (Cons kd kds)
  have ok: "kd_ok s kd" using Cons.prems by simp
  show ?case
  proof (cases "kd_fs kd")
    case None
    then show ?thesis using Cons ok by (auto simp: kd_names_def kd_target_def volname_of_def kd_ok_def)
  next
    case (Some f)
    then obtain vn where "FSOP_GETVOLNAME f s = Some vn" using ok by (auto simp: kd_ok_def FSOP_GETVOLNAME_def)
    then show ?thesis using Cons ok Some by (auto simp: kd_names_def kd_target_def volname_of_def kd_ok_def)
  qed
qed simp

text \<open>\<open>vfs_getroot\<close> hands back what the name stands for.\<close>

lemma vfs_getroot_eq:
  assumes "\<forall>kd \<in> set (knowndevs s). kd_ok s kd"
  shows "vfs_getroot hw vm name s = (case name_target s name of
      None \<Rightarrow> Some (Inl ENODEV, s)
    | Some (T_fs f) \<Rightarrow> do { (v, s') \<leftarrow> FSOP_GETROOT hw vm f s; Some (Inr v, s') }
    | Some T_unmounted \<Rightarrow> Some (Inl ENXIO, s)
    | Some (T_dev a) \<Rightarrow> do { s' \<leftarrow> VOP_INCREF (DevVnode a) s; Some (Inr (DevVnode a), s') })"
proof (cases "filter (\<lambda>kd. name \<in> kd_names s kd) (knowndevs s)")
  case Nil
  then show ?thesis using getroot_scan_eq [OF assms] by (simp add: vfs_getroot_def name_target_def)
next
  case (Cons kd kds)
  then have "name \<in> kd_names s kd" by (metis (no_types, lifting) Cons_eq_filterD)
  then obtain t where "kd_target s name kd = Some t" using kd_target_some by blast
  then show ?thesis using Cons getroot_scan_eq [OF assms] by (simp add: vfs_getroot_def name_target_def split: name_target.splits)
qed

section \<open>Names are not shared\<close>

definition vfs_ok :: "'h vfs \<Rightarrow> bool" where
  "vfs_ok s \<longleftrightarrow> (\<forall>kd \<in> set (knowndevs s). kd_ok s kd)"

definition names_unique :: "'h vfs \<Rightarrow> bool" where
  "names_unique s \<longleftrightarrow> (\<forall>i < length (knowndevs s). \<forall>j < length (knowndevs s). i \<noteq> j \<longrightarrow>
     kd_names s (knowndevs s ! i) \<inter> kd_names s (knowndevs s ! j) = {})"

definition all_names :: "'h vfs \<Rightarrow> bytes set" where
  "all_names s = (\<Union>kd \<in> set (knowndevs s). kd_names s kd)"

lemma samestring3_iff:
  "samestring3 a n1 n2 n3 \<longleftrightarrow> a \<noteq> None \<and> the a \<in> set_option n1 \<union> set_option n2 \<union> set_option n3"
  by (cases a; cases n1; cases n2; cases n3) (auto simp: samestring3_def samestring_def)

lemma names_meet:
  "({a} \<union> set_option b \<union> set_option c) \<inter> N \<noteq> {} \<longleftrightarrow> a \<in> N \<or> (b \<noteq> None \<and> the b \<in> N) \<or> (c \<noteq> None \<and> the c \<in> N)"
  by (cases b; cases c) auto

lemma badnames_scan_eq:
  assumes "\<forall>kd \<in> set kds. kd_ok s kd"
  shows "badnames_scan n1 n2 n3 kds s =
    Some ((\<Union>kd \<in> set kds. kd_names s kd) \<inter> (set_option n1 \<union> set_option n2 \<union> set_option n3) \<noteq> {})"
  using assms
proof (induction kds)
  case (Cons kd kds)
  have ok: "kd_ok s kd" using Cons.prems by simp
  let ?N = "set_option n1 \<union> set_option n2 \<union> set_option n3"
  have vn: "(case kd_fs kd of None \<Rightarrow> Some None | Some f \<Rightarrow> map_option Some (FSOP_GETVOLNAME f s)) = Some (volname_of s kd)"
    using ok by (auto simp: volname_of_def kd_ok_def FSOP_GETVOLNAME_def split: option.splits)
  have "kd_names s kd \<inter> ?N \<noteq> {} \<longleftrightarrow> kd_fs kd \<noteq> None \<and> samestring3 (volname_of s kd) n1 n2 n3 \<or>
      samestring3 (kd_rawname kd) n1 n2 n3 \<or> samestring3 (Some (kd_name kd)) n1 n2 n3"
  proof -
    have "volname_of s kd \<noteq> None \<Longrightarrow> kd_fs kd \<noteq> None" by (cases "kd_fs kd") (simp_all add: volname_of_def)
    then show ?thesis unfolding samestring3_iff kd_names_def names_meet by (simp only: option.sel option.distinct not_False_eq_True simp_thms) blast
  qed
  moreover have "(\<Union>kd \<in> set (kd # kds). kd_names s kd) \<inter> ?N \<noteq> {} \<longleftrightarrow> kd_names s kd \<inter> ?N \<noteq> {} \<or> (\<Union>kd \<in> set kds. kd_names s kd) \<inter> ?N \<noteq> {}"
    by (simp add: Int_Un_distrib2)
  moreover have "badnames_scan n1 n2 n3 kds s = Some ((\<Union>kd \<in> set kds. kd_names s kd) \<inter> ?N \<noteq> {})" using Cons by simp
  ultimately show ?case by (simp only: badnames_scan.simps vn Option.bind.simps) (simp del: Union_iff)
qed simp

lemma badnames_eq:
  "vfs_ok s \<Longrightarrow> badnames n1 n2 n3 s = Some (all_names s \<inter> (set_option n1 \<union> set_option n2 \<union> set_option n3) \<noteq> {})"
  using badnames_scan_eq [of "knowndevs s" s n1 n2 n3] by (simp add: badnames_def vfs_ok_def all_names_def)

text \<open>Device vnodes and the list itself have no part in the names of a device.\<close>

lemma names_frame [simp]:
  "fs_get f (s\<lparr>dev_vnodes := dv\<rparr>) = fs_get f s" "fs_get f (s\<lparr>knowndevs := ks\<rparr>) = fs_get f s"
  "FSOP_GETVOLNAME f (s\<lparr>dev_vnodes := dv\<rparr>) = FSOP_GETVOLNAME f s" "FSOP_GETVOLNAME f (s\<lparr>knowndevs := ks\<rparr>) = FSOP_GETVOLNAME f s"
  "volname_of (s\<lparr>dev_vnodes := dv\<rparr>) = volname_of s" "volname_of (s\<lparr>knowndevs := ks\<rparr>) = volname_of s"
  "kd_names (s\<lparr>dev_vnodes := dv\<rparr>) = kd_names s" "kd_names (s\<lparr>knowndevs := ks\<rparr>) = kd_names s"
  "kd_target (s\<lparr>dev_vnodes := dv\<rparr>) = kd_target s" "kd_target (s\<lparr>knowndevs := ks\<rparr>) = kd_target s"
proof -
  show g: "fs_get f (s\<lparr>dev_vnodes := dv\<rparr>) = fs_get f s" "fs_get f (s\<lparr>knowndevs := ks\<rparr>) = fs_get f s" for f
    by (simp_all add: fs_get_def)
  show v: "FSOP_GETVOLNAME f (s\<lparr>dev_vnodes := dv\<rparr>) = FSOP_GETVOLNAME f s" "FSOP_GETVOLNAME f (s\<lparr>knowndevs := ks\<rparr>) = FSOP_GETVOLNAME f s" for f
    by (simp_all add: FSOP_GETVOLNAME_def g)
  show n: "volname_of (s\<lparr>dev_vnodes := dv\<rparr>) = volname_of s" "volname_of (s\<lparr>knowndevs := ks\<rparr>) = volname_of s"
    by (simp_all add: volname_of_def fun_eq_iff v)
  show "kd_names (s\<lparr>dev_vnodes := dv\<rparr>) = kd_names s" "kd_names (s\<lparr>knowndevs := ks\<rparr>) = kd_names s"
    "kd_target (s\<lparr>dev_vnodes := dv\<rparr>) = kd_target s" "kd_target (s\<lparr>knowndevs := ks\<rparr>) = kd_target s"
    by (intro ext; simp only: kd_names_def kd_target_def n)+
qed

text \<open>A device is added with names that are not in use.\<close>

lemma add_unused:
  assumes ok: "vfs_ok s" and un: "names_unique s" and a: "a \<notin> dom (dev_vnodes s)" and kd: "kd_names s kd \<inter> all_names s = {}" "kd_vnode kd = a"
    "kd_fs kd = None" "kd_device kd \<noteq> None"
    and s': "s' = s\<lparr>dev_vnodes := (dev_vnodes s)(a \<mapsto> vn), knowndevs := knowndevs s @ [kd]\<rparr>"
  shows "vfs_ok s'" and "names_unique s'"
    and "name_target s' nm = (if nm \<in> kd_names s kd then kd_target s nm kd else name_target s nm)"
proof -
  have f: "kd_names s' = kd_names s" "kd_target s' = kd_target s" "knowndevs s' = knowndevs s @ [kd]"
    by (simp_all add: s')
  have "kd_ok s' x" if "kd_ok s x" for x using that by (auto simp: kd_ok_def s')
  moreover have "kd_ok s' kd" using kd(2-4) by (simp add: kd_ok_def s')
  ultimately show "vfs_ok s'" using ok by (auto simp: vfs_ok_def f)
  have d: "kd_names s x \<inter> kd_names s kd = {}" if "x \<in> set (knowndevs s)" for x using kd(1) that by (auto simp: all_names_def)
  show "names_unique s'" unfolding names_unique_def f
  proof (intro allI impI)
    fix i j assume ij: "i < length (knowndevs s @ [kd])" "j < length (knowndevs s @ [kd])" "i \<noteq> j"
    consider "i < length (knowndevs s)" "j < length (knowndevs s)" | "i < length (knowndevs s)" "j = length (knowndevs s)"
      | "i = length (knowndevs s)" "j < length (knowndevs s)" using ij by fastforce
    then show "kd_names s ((knowndevs s @ [kd]) ! i) \<inter> kd_names s ((knowndevs s @ [kd]) ! j) = {}"
    proof cases
      case 1
      then show ?thesis using un ij(3) by (simp add: names_unique_def nth_append)
    next
      case 2
      then show ?thesis using d [of "knowndevs s ! i"] by (simp add: nth_append)
    next
      case 3
      then show ?thesis using d [of "knowndevs s ! j"] by (simp add: nth_append Int_commute)
    qed
  qed
  have "filter (\<lambda>x. nm \<in> kd_names s x) (knowndevs s) = []" if "nm \<in> kd_names s kd"
    using d that by (auto simp: filter_empty_conv)
  then show "name_target s' nm = (if nm \<in> kd_names s kd then kd_target s nm kd else name_target s nm)"
    by (simp add: name_target_def f split: list.split)
qed

end
