(* ===== verification/Sfs_Stable.thy ===== *)
theory Sfs_Stable
  imports Sfs_Ops
begin

text \<open>
  What the operations of SFS leave alone whatever the disk does and whatever they return: the superblock and, for every
  loaded vnode, the inode number and the two counts, except where a vnode is loaded or given up.  These are facts
  about the code alone; they need none of the invariants of the filesystem.
\<close>

section \<open>Block and file I/O\<close>

definition counts :: "'d sfs_fs \<Rightarrow> nat \<Rightarrow> (int \<times> int \<times> nat) option" where
  "counts fs v = map_option (\<lambda>sv. (vn_refcount sv, vn_opencount sv, sv_ino sv)) (sv_mem fs v)"

definition stable :: "'d sfs_fs \<Rightarrow> 'd sfs_fs \<Rightarrow> bool" where
  "stable fs fs' \<longleftrightarrow> counts fs' = counts fs \<and> sfs_sb fs' = sfs_sb fs"

named_theorems stable_rules \<open>the operations that keep the superblock and the counts\<close>

lemma stable_refl [simp]: "stable fs fs"
  by (simp add: stable_def)

lemma stable_trans: "stable fs fs1 \<Longrightarrow> stable fs1 fs2 \<Longrightarrow> stable fs fs2"
  by (simp add: stable_def)

lemma stable_upd [simp]:
  "stable fs (upd_inode v f fs1) \<longleftrightarrow> stable fs fs1"
  "stable fs (upd_sv v (\<lambda>sv. sv\<lparr>sv_dirty := x\<rparr>) fs1) \<longleftrightarrow> stable fs fs1"
  "stable fs (upd_sv v (\<lambda>sv. sv\<lparr>sv_i := g (sv_i sv)\<rparr>) fs1) \<longleftrightarrow> stable fs fs1"
  "stable fs (fs1\<lparr>sfs_freemap := bm\<rparr>) \<longleftrightarrow> stable fs fs1" "stable fs (fs1\<lparr>sfs_freemapdirty := b\<rparr>) \<longleftrightarrow> stable fs fs1"
  "stable fs (fs1\<lparr>sfs_superdirty := b\<rparr>) \<longleftrightarrow> stable fs fs1" "stable fs (fs1\<lparr>sfs_device := d\<rparr>) \<longleftrightarrow> stable fs fs1"
  by (auto simp: stable_def counts_def upd_inode_def upd_sv_def fun_eq_iff option.map_comp comp_def)

lemma try_k_Some_cases:
  assumes "try_k m k = Some (r, s')"
  obtains (err) e where "r = Inl e" "m = Some (Inl e, s')" | (ok) a s where "m = Some (Inr a, s)" "k a s = Some (r, s')"
  using assms by (auto simp: try_k_def split: option.splits sum.splits prod.splits)

lemma bind_Some_cases:
  assumes "Option.bind m f = Some y"
  obtains x where "m = Some x" "f x = Some y"
  using assms by (auto simp: bind_eq_Some_conv)

lemma stable_rwblock [stable_rules]: "sfs_rwblock dio u fs = Some (r, u', fs') \<Longrightarrow> stable fs fs'"
  by (auto simp: sfs_rwblock_def bind_eq_Some_conv)

lemma stable_rblock [stable_rules]: "sfs_rblock dio data b fs = Some (r, fs') \<Longrightarrow> stable fs fs'"
  by (auto simp: sfs_rblock_def bind_eq_Some_conv dest: stable_rwblock)

lemma stable_wblock [stable_rules]: "sfs_wblock dio data b fs = Some (r, fs') \<Longrightarrow> stable fs fs'"
  by (auto simp: sfs_wblock_def bind_eq_Some_conv dest: stable_rwblock)

lemma stable_clearblock [stable_rules]: "sfs_clearblock dio b fs = Some (r, fs') \<Longrightarrow> stable fs fs'"
  by (simp add: sfs_clearblock_def stable_wblock)

lemma stable_sync_inode [stable_rules]: "sfs_sync_inode dio v fs = Some (r, fs') \<Longrightarrow> stable fs fs'"
  by (auto simp: sfs_sync_inode_def bind_eq_Some_conv split: if_split_asm elim!: try_k_Some_cases dest: stable_wblock)

lemma stable_balloc [stable_rules]: "sfs_balloc dio fs = Some (r, fs') \<Longrightarrow> stable fs fs'"
  unfolding sfs_balloc_def Let_def
  by (auto elim!: bind_Some_cases try_k_Some_cases split: prod.split_asm sum.split_asm if_split_asm dest!: stable_clearblock)
    (simp_all add: stable_def counts_def fun_eq_iff)

lemma stable_bfree [stable_rules]: "sfs_bfree b fs = Some fs' \<Longrightarrow> stable fs fs'"
  by (auto simp: sfs_bfree_def bind_eq_Some_conv)

lemma stable_hand_back [stable_rules]: "hand_back b fs = Some (r, fs') \<Longrightarrow> stable fs fs'"
  by (auto simp: hand_back_def bind_eq_Some_conv split: if_splits)

lemma stable_bmap_direct [stable_rules]: "sfs_bmap_direct dio v k a fs = Some (r, fs') \<Longrightarrow> stable fs fs'"
  by (auto simp: sfs_bmap_direct_def bind_eq_Some_conv split: if_split_asm elim!: try_k_Some_cases dest!: stable_hand_back stable_balloc)
    (simp_all add: stable_def counts_def upd_inode_def upd_sv_def fun_eq_iff option.map_comp comp_def)

lemma stable_bmap_idblock [stable_rules]: "sfs_bmap_idblock dio v fs = Some (r, fs') \<Longrightarrow> stable fs fs'"
  by (auto simp: sfs_bmap_idblock_def bind_eq_Some_conv Let_def split: if_split_asm elim!: try_k_Some_cases dest: stable_rules)

lemma stable_bmap [stable_rules]: "sfs_bmap dio v k a fs = Some (r, fs') \<Longrightarrow> stable fs fs'"
  by (auto simp: sfs_bmap_def bind_eq_Some_conv Let_def split: if_split_asm elim!: try_k_Some_cases dest!: stable_rules)
    (auto simp: stable_def)

lemma on_fs_eq: "on_fs m u = Some (r, fs', u') \<longleftrightarrow> m = Some (r, fs') \<and> u' = u"
  by (auto simp: on_fs_def)

lemma on_uio_eq: "on_uio m fs = Some (r, fs', u') \<longleftrightarrow> m = Some (r, u') \<and> fs' = fs"
  by (auto simp: on_uio_def)

lemma stable_partialio [stable_rules]: "sfs_partialio dio v k len (fs, u) = Some (r, fs', u') \<Longrightarrow> stable fs fs'"
  by (auto simp: sfs_partialio_def Let_def on_fs_eq on_uio_eq split: if_split_asm elim!: try_k_Some_cases dest!: stable_rules)
    (auto simp: stable_def)

lemma stable_blockio [stable_rules]: "sfs_blockio dio v (fs, u) = Some (r, fs', u') \<Longrightarrow> stable fs fs'"
  by (auto simp: sfs_blockio_def Let_def on_fs_eq on_uio_eq bind_eq_Some_conv split: if_split_asm elim!: try_k_Some_cases dest!: stable_rules)
    (auto simp: stable_def)

lemma stable_blockio_loop [stable_rules]: "sfs_blockio_loop dio v n (fs, u) = Some (r, fs', u') \<Longrightarrow> stable fs fs'"
proof (induction n arbitrary: fs u)
  case (Suc n)
  from Suc.prems show ?case
    by (auto elim!: try_k_Some_cases dest!: stable_blockio Suc.IH intro: stable_trans)
qed simp

lemma stable_io_body [stable_rules]: "sfs_io_body dio v (fs, u) = Some (r, fs', u') \<Longrightarrow> stable fs fs'"
  by (auto simp: sfs_io_body_def Let_def bind_eq_Some_conv split: if_split_asm elim!: try_k_Some_cases dest!: stable_rules)
    (auto simp: stable_def)

lemma stable_io [stable_rules]: "sfs_io dio v (fs, u) = Some (r, fs', u') \<Longrightarrow> stable fs fs'"
  by (auto simp: sfs_io_def Let_def bind_eq_Some_conv split: if_splits dest: stable_io_body)

section \<open>Directories and truncation\<close>

lemma stable_readdir [stable_rules]: "sfs_readdir dio v k fs = Some (r, fs') \<Longrightarrow> stable fs fs'"
  unfolding sfs_readdir_def
  by (auto elim!: bind_Some_cases split: prod.split_asm sum.split_asm if_split_asm dest: stable_io)

lemma stable_writedir [stable_rules]: "sfs_writedir dio v sd k fs = Some (r, fs') \<Longrightarrow> stable fs fs'"
  unfolding sfs_writedir_def
  by (auto elim!: bind_Some_cases split: prod.split_asm sum.split_asm if_split_asm dest: stable_io)

lemma stable_findname_loop:
  "sfs_findname_loop dio v name i n found em fs = Some (r, fs') \<Longrightarrow> stable fs fs'"
proof (induction dio v name i n found em fs arbitrary: r fs' rule: sfs_findname_loop.induct)
  case (1 dio v name i n found em fs)
  show ?case
  proof (cases "i < n")
    case False
    then show ?thesis using "1.prems" by (simp add: sfs_findname_loop.simps [of dio v name i])
  next
    case True
    from "1.prems" have "try_k (sfs_readdir dio v i fs) (\<lambda>tsd fs'.
          if sfd_ino tsd = SFS_NOINO then sfs_findname_loop dio v name (i + 1) n found (Some i) fs'
          else if dir_name tsd = name then do {
            kassert (found = None);
            sfs_findname_loop dio v name (i + 1) n (Some (sfd_ino tsd, i)) em fs' }
          else sfs_findname_loop dio v name (i + 1) n found em fs') = Some (r, fs')"
      using True by (subst (asm) sfs_findname_loop.simps) simp
    then show ?thesis
      using "1.IH" True by (elim try_k_Some_cases) (auto dest!: stable_readdir intro: stable_trans split: if_splits)
  qed
qed

lemma stable_findname [stable_rules]: "sfs_dir_findname dio v name fs = Some (r, fs') \<Longrightarrow> stable fs fs'"
  by (auto simp: sfs_dir_findname_def bind_eq_Some_conv dest: stable_findname_loop)

lemma stable_dir_link [stable_rules]: "sfs_dir_link dio v name ino fs = Some (r, fs') \<Longrightarrow> stable fs fs'"
  by (auto simp: sfs_dir_link_def bind_eq_Some_conv split: if_split_asm elim!: try_k_Some_cases dest!: stable_rules)
    (auto simp: stable_def)

lemma stable_dir_unlink [stable_rules]: "sfs_dir_unlink dio v k fs = Some (r, fs') \<Longrightarrow> stable fs fs'"
  by (simp add: sfs_dir_unlink_def stable_writedir)

lemma stable_trunc_direct [stable_rules]: "sfs_trunc_direct v bl bs i fs = Some fs' \<Longrightarrow> stable fs fs'"
proof (induction v bl bs i fs arbitrary: fs' rule: sfs_trunc_direct.induct)
  case (2 v bl b bs i fs)
  show ?case
  proof (cases "i \<ge> bl \<and> b \<noteq> 0")
    case True
    with "2.prems" obtain fs1 where f: "sfs_bfree b fs = Some fs1"
        "sfs_trunc_direct v bl bs (i + 1) (upd_inode v (\<lambda>ino. ino\<lparr>sfi_direct := (sfi_direct ino)[i := 0]\<rparr>) fs1) = Some fs'"
      by (auto simp: bind_eq_Some_conv)
    then have "stable (upd_inode v (\<lambda>ino. ino\<lparr>sfi_direct := (sfi_direct ino)[i := 0]\<rparr>) fs1) fs'" using "2.IH"(1) True by blast
    moreover have "stable fs (upd_inode v (\<lambda>ino. ino\<lparr>sfi_direct := (sfi_direct ino)[i := 0]\<rparr>) fs1)" using stable_bfree [OF f(1)] by simp
    ultimately show ?thesis by (rule stable_trans [rotated])
  next
    case False
    then have "sfs_trunc_direct v bl bs (i + 1) fs = Some fs'" using "2.prems" by (simp del: de_Morgan_conj)
    then show ?thesis using "2.IH"(2) False by blast
  qed
qed simp

lemma stable_trunc_indirect [stable_rules]: "sfs_trunc_indirect bl bs j fs = Some (r, dirty, fs') \<Longrightarrow> stable fs fs'"
proof (induction bl bs j fs arbitrary: r dirty fs' rule: sfs_trunc_indirect.induct)
  case (2 bl b bs j fs)
  show ?case
  proof (cases "bl < SFS_NDIRECT + j \<and> b \<noteq> 0")
    case True
    with "2.prems" obtain fs1 r' dirty' where f: "sfs_bfree b fs = Some fs1" "sfs_trunc_indirect bl bs (j + 1) fs1 = Some (r', dirty', fs')"
      by (auto simp: bind_eq_Some_conv)
    then show ?thesis using "2.IH"(1) True stable_bfree [OF f(1)] stable_trans by blast
  next
    case False
    with "2.prems" obtain r' dirty' where "sfs_trunc_indirect bl bs (j + 1) fs = Some (r', dirty', fs')"
      by (auto simp: bind_eq_Some_conv split: if_split_asm)
    then show ?thesis using "2.IH"(2) False by blast
  qed
qed simp

lemma stable_trunc_idblock [stable_rules]: "sfs_trunc_idblock dio v bl idb fs = Some (r, fs') \<Longrightarrow> stable fs fs'"
  by (auto simp: sfs_trunc_idblock_def bind_eq_Some_conv split: if_split_asm elim!: try_k_Some_cases dest!: stable_rules)
    (auto simp: stable_def)

lemma stable_truncate [stable_rules]: "sfs_truncate dio v len fs = Some (r, fs') \<Longrightarrow> stable fs fs'"
  by (auto simp: sfs_truncate_def Let_def bind_eq_Some_conv split: if_split_asm elim!: try_k_Some_cases dest!: stable_rules)
    (auto simp: stable_def)

lemma stable_sfs_link [stable_rules]: "sfs_link dio d name w fs = Some (r, fs') \<Longrightarrow> stable fs fs'"
  by (auto simp: sfs_link_def bind_eq_Some_conv link_inc_def elim!: try_k_Some_cases dest: stable_dir_link)

section \<open>Vnodes that come and go\<close>

text \<open>All vnodes but \<open>v\<close> keep their counts.\<close>

definition stable_but :: "nat \<Rightarrow> 'd sfs_fs \<Rightarrow> 'd sfs_fs \<Rightarrow> bool" where
  "stable_but v fs fs' \<longleftrightarrow> sfs_sb fs' = sfs_sb fs \<and> (\<forall>w. w \<noteq> v \<longrightarrow> counts fs' w = counts fs w)"

lemma stable_butI: "stable fs fs' \<Longrightarrow> stable_but v fs fs'"
  by (simp add: stable_def stable_but_def)

lemma stable_but_trans: "stable_but v fs fs1 \<Longrightarrow> stable_but v fs1 fs2 \<Longrightarrow> stable_but v fs fs2"
  by (simp add: stable_but_def)

lemma stable_but_mono: "stable fs fs1 \<Longrightarrow> stable_but v fs1 fs2 \<Longrightarrow> stable fs2 fs3 \<Longrightarrow> stable_but v fs fs3"
  by (simp add: stable_def stable_but_def)

lemma stable_but_upd:
  "stable_but v fs (upd_sv v f fs)" "stable_but v fs (fs\<lparr>sv_mem := (sv_mem fs)(v := x)\<rparr>)"
  "stable_but v fs (fs\<lparr>sfs_vnodes := a, sv_mem := (sv_mem fs)(v := x)\<rparr>)" "stable_but v fs (fs\<lparr>sfs_vnodes := a\<rparr>)"
  by (simp_all add: stable_but_def counts_def upd_sv_def)

text \<open>Loading a vnode: it was loaded and has one reference more, or it is new with one reference.\<close>

lemma loadvnode_stable:
  assumes "sfs_loadvnode dio (mem, okinit, km) ino ty fs = Some (r, fs')"
  shows "case r of
      Inl e \<Rightarrow> stable fs fs'
    | Inr g \<Rightarrow> stable_but g fs fs' \<and>
        ((\<exists>rc oc i. counts fs g = Some (rc, oc, i) \<and> counts fs' g = Some (rc + 1, oc, i)) \<or>
         mem = Some g \<and> counts fs' g = Some (1, 0, ino))"
proof -
  from assms obtain found where found: "sfs_find_loaded ino 0 fs = Some found"
    by (auto simp: sfs_loadvnode_def bind_eq_Some_conv)
  show ?thesis
  proof (cases found)
    case (Some g)
    with assms found have "r = Inr g" "vnode_incref g fs = Some fs'"
      by (auto simp: sfs_loadvnode_def bind_eq_Some_conv split: if_split_asm)
    then obtain sv where "sv_mem fs g = Some sv" "fs' = upd_sv g (\<lambda>sv. sv\<lparr>vn_refcount := vn_refcount sv + 1\<rparr>) fs"
      by (auto simp: vnode_incref_def bind_eq_Some_conv)
    then show ?thesis using \<open>r = Inr g\<close> stable_but_upd(1) by (simp add: counts_def upd_sv_def) (simp add: stable_but_def counts_def)
  next
    case None
    show ?thesis
    proof (cases mem)
      case None
      then show ?thesis using assms found \<open>found = None\<close> by (auto simp: sfs_loadvnode_def)
    next
      case (Some g)
      let ?sv = "\<lambda>i. \<lparr>vn_refcount = 1, vn_opencount = 0, sv_i = (if ty \<noteq> SFS_TYPE_INVAL then i\<lparr>sfi_type := ty\<rparr> else i),
        sv_ino = ino, sv_dirty = (ty \<noteq> SFS_TYPE_INVAL)\<rparr>"
      from assms found \<open>found = None\<close> Some have "try_k (sfs_rblock dio zero_block ino fs) (\<lambda>bs fs1. do {
           let i = decode_inode bs;
           kassert (ty = SFS_TYPE_INVAL \<or> sfi_type i = SFS_TYPE_INVAL);
           let sv = ?sv i;
           kassert (sfi_type (sv_i sv) = SFS_TYPE_FILE \<or> sfi_type (sv_i sv) = SFS_TYPE_DIR);
           sfs_enter g okinit km sv fs1 }) = Some (r, fs')"
        by (auto simp: sfs_loadvnode_def bind_eq_Some_conv split: if_split_asm)
      then show ?thesis
      proof (cases rule: try_k_Some_cases)
        case (err e)
        then show ?thesis by (auto dest: stable_rblock)
      next
        case (ok bs fs1)
        then have st: "stable fs fs1" by (auto dest: stable_rblock)
        from ok(2) obtain i where "sfs_enter g okinit km (?sv i) fs1 = Some (r, fs')"
          by (auto simp: Let_def simp del: stable_def split: if_split_asm)
        then have "case r of Inl e \<Rightarrow> stable fs1 fs' | Inr g' \<Rightarrow> g' = g \<and> stable_but g fs1 fs' \<and> counts fs' g = Some (1, 0, ino)"
          unfolding sfs_enter_def
          by (auto elim!: bind_Some_cases split: if_split_asm prod.split_asm sum.split_asm simp: stable_but_upd)
            (simp_all add: stable_def counts_def fun_eq_iff)
        then show ?thesis using st Some by (cases r) (auto simp: stable_def stable_but_def)
      qed
    qed
  qed
qed

lemma reclaim_cases:
  assumes "sfs_reclaim dio v fs = Some (r, fs')" and sv: "sv_mem fs v = Some sv" "vn_refcount sv = 1"
  obtains (kept) "stable fs fs'"
  | (gone) fs3 a where "stable fs fs3" "fs' = fs3\<lparr>sfs_vnodes := a, sv_mem := (sv_mem fs3)(v := None)\<rparr>"
proof -
  let ?first = "if sfi_linkcount (sv_i sv) = 0 then
      (if sfi_type (sv_i sv) = SFS_TYPE_DIR then Some (Inl EISDIR, fs) else sfs_truncate dio v 0 fs) else Some (Inr (), fs)"
  have first: "stable fs fs1" if "?first = Some (x, fs1)" for x fs1
    using that by (auto split: if_split_asm dest: stable_truncate)
  from assms have "try_k ?first (\<lambda>_ fs1. try_k (sfs_sync_inode dio v fs1) (\<lambda>_ fs2. do {
       fs3 \<leftarrow> (if sfi_linkcount (sv_i sv) = 0 then sfs_bfree (sv_ino sv) fs2 else Some fs2);
       ix \<leftarrow> sfs_vnode_index v 0 fs3;
       a \<leftarrow> array_remove (sfs_vnodes fs3) ix;
       kassert (vn_opencount sv = 0);
       Some (Inr (), fs3\<lparr>sfs_vnodes := a, sv_mem := (sv_mem fs3)(v := None)\<rparr>) })) = Some (r, fs')"
    by (simp add: sfs_reclaim_def)
  then show thesis
  proof (cases rule: try_k_Some_cases)
    case (err e)
    then show thesis using first kept by blast
  next
    case (ok x fs1)
    note st1 = first [OF ok(1)]
    from ok(2) show thesis
    proof (cases rule: try_k_Some_cases)
      case (err e)
      then show thesis using st1 stable_sync_inode stable_trans kept by blast
    next
      case (ok y fs2)
      note st2 = stable_sync_inode [OF ok(1)]
      from ok(2) have "\<exists>fs3 a. stable fs2 fs3 \<and> fs' = fs3\<lparr>sfs_vnodes := a, sv_mem := (sv_mem fs3)(v := None)\<rparr>"
        by (elim bind_Some_cases) (auto split: if_split_asm dest: stable_bfree intro!: exI)
      then obtain fs3 a where fs3: "stable fs2 fs3" "fs' = fs3\<lparr>sfs_vnodes := a, sv_mem := (sv_mem fs3)(v := None)\<rparr>"
        by blast
      then have "stable fs fs3" using st1 st2 stable_trans by blast
      then show thesis using gone fs3(2) by blast
    qed
  qed
qed

lemma reclaim_stable: "sfs_reclaim dio v fs = Some (r, fs') \<Longrightarrow> stable_but v fs fs'"
proof -
  assume a: "sfs_reclaim dio v fs = Some (r, fs')"
  then obtain sv where sv: "sv_mem fs v = Some sv" by (auto simp: sfs_reclaim_def bind_eq_Some_conv)
  show ?thesis
  proof (cases "vn_refcount sv = 1")
    case False
    then show ?thesis using a sv by (auto simp: sfs_reclaim_def stable_but_upd split: if_split_asm)
  next
    case True
    from a sv True show ?thesis
    proof (cases rule: reclaim_cases)
      case kept
      then show ?thesis by (rule stable_butI)
    next
      case (gone fs3 a)
      then show ?thesis using stable_but_mono [OF _ stable_but_upd(3) stable_refl] by blast
    qed
  qed
qed

text \<open>The last reference: the vnode goes, or reclaiming it has failed and it stays.\<close>

lemma reclaim_last:
  assumes "sfs_reclaim dio v fs = Some (r, fs')" and "counts fs v = Some (1, oc, i)"
  shows "counts fs' v = None \<or> counts fs' v = Some (1, oc, i)"
proof -
  from assms(2) obtain sv where sv: "sv_mem fs v = Some sv" "vn_refcount sv = 1" by (auto simp: counts_def)
  from assms(1) sv show ?thesis
  proof (cases rule: reclaim_cases)
    case kept
    then show ?thesis using assms(2) by (simp add: stable_def)
  next
    case (gone fs3 a)
    then show ?thesis by (simp add: counts_def)
  qed
qed

lemma decref_stable: "vnode_decref dio v fs = Some fs' \<Longrightarrow> stable_but v fs fs'"
  by (auto simp: vnode_decref_def bind_eq_Some_conv stable_but_upd split: if_split_asm dest: reclaim_stable)

lemma decref_counts:
  "vnode_decref dio v fs = Some fs' \<Longrightarrow> counts fs v = Some (rc, oc, i) \<Longrightarrow> 1 < rc \<Longrightarrow> counts fs' v = Some (rc - 1, oc, i)"
  by (auto simp: vnode_decref_def counts_def upd_sv_def)

text \<open>A vnode is loaded, used and given up: whoever held references before has them afterwards.\<close>

definition held :: "'d sfs_fs \<Rightarrow> nat \<Rightarrow> bool" where
  "held fs v \<longleftrightarrow> (\<exists>rc oc i. counts fs v = Some (rc, oc, i) \<and> 0 < rc)"

lemma load_decref:
  assumes load: "sfs_loadvnode dio (mem, okinit, km) ino ty fs = Some (Inr g, fs1)" and st: "stable fs1 fs2"
    and dec: "vnode_decref dio g fs2 = Some fs3" and d: "held fs d" "mem \<noteq> Some d"
  shows "counts fs3 d = counts fs d" and "sfs_sb fs3 = sfs_sb fs"
proof -
  note l = loadvnode_stable [OF load, simplified]
  show "sfs_sb fs3 = sfs_sb fs" using l decref_stable [OF dec] st by (simp add: stable_def stable_but_def)
  show "counts fs3 d = counts fs d"
  proof (cases "g = d")
    case False
    then show ?thesis using l decref_stable [OF dec] st by (simp add: stable_def stable_but_def)
  next
    case True
    then obtain rc oc i where c: "counts fs d = Some (rc, oc, i)" "counts fs1 d = Some (rc + 1, oc, i)" "0 < rc"
      using l d by (auto simp: held_def)
    then have "counts fs2 d = Some (rc + 1, oc, i)" using st by (simp add: stable_def)
    then show ?thesis using decref_counts [OF dec, of "rc + 1" oc i] c True by simp
  qed
qed

lemma held_stable: "stable fs fs' \<Longrightarrow> held fs v \<Longrightarrow> held fs' v"
  by (simp add: held_def stable_def)

lemma lookonce_stable:
  assumes "sfs_lookonce dio vm v name fs = Some (r, fs')"
  obtains (err) e where "r = Inl e" "stable fs fs'"
  | (ok) g slot fs1 ino where "r = Inr (g, slot)" "stable fs fs1" "sfs_loadvnode dio vm ino SFS_TYPE_INVAL fs1 = Some (Inr g, fs')"
  using assms unfolding sfs_lookonce_def
proof (cases rule: try_k_Some_cases)
  case (err e)
  then show ?thesis using that(1) stable_findname by blast
next
  case (ok p fs1)
  obtain found em where p: "p = (found, em)" by (cases p)
  note st = stable_findname [OF ok(1)]
  show ?thesis
  proof (cases found)
    case None
    then show ?thesis using ok(2) p st that(1) by auto
  next
    case (Some q)
    obtain ino slot where q: "q = (ino, slot)" by (cases q)
    from ok(2) have "try_k (sfs_loadvnode dio vm ino SFS_TYPE_INVAL fs1) (\<lambda>g fs2. do {
             sv \<leftarrow> sv_mem fs2 g;
             kassert (sfi_linkcount (sv_i sv) \<noteq> 0);
             Some (Inr (g, slot), fs2) }) = Some (r, fs')" by (simp add: p q Some)
    then show ?thesis
    proof (cases rule: try_k_Some_cases)
      case (err e)
      obtain mem okinit km where vm: "vm = (mem, okinit, km)" by (cases vm)
      have "stable fs1 fs'" using loadvnode_stable [OF err(2) [unfolded vm]] by simp
      then show ?thesis using err st that(1) stable_trans by blast
    next
      case (ok g fs2)
      then have "r = Inr (g, slot)" "fs2 = fs'" by (auto simp: bind_eq_Some_conv split: if_split_asm)
      then show ?thesis using ok st that(2) by blast
    qed
  qed
qed

lemma lookup_counts:
  assumes "sfs_lookup dio (mem, okinit, km) v name fs = Some (r, fs')" and "mem \<noteq> Some d" and "\<And>w. r = Inr w \<Longrightarrow> w \<noteq> d"
  shows "counts fs' d = counts fs d \<and> sfs_sb fs' = sfs_sb fs"
proof -
  from assms(1) obtain r1 where "r1 = r \<and> fs' = fs \<or> (\<exists>q. sfs_lookonce dio (mem, okinit, km) v name fs = Some (q, fs') \<and>
      r = (case q of Inl e \<Rightarrow> Inl e | Inr (g, _) \<Rightarrow> Inr g))"
    by (auto simp: sfs_lookup_def bind_eq_Some_conv split: if_split_asm elim!: try_k_Some_cases)
  then show ?thesis
  proof (elim disjE exE conjE)
    fix q assume q: "sfs_lookonce dio (mem, okinit, km) v name fs = Some (q, fs')" "r = (case q of Inl e \<Rightarrow> Inl e | Inr (g, _) \<Rightarrow> Inr g)"
    from q(1) show ?thesis
    proof (cases rule: lookonce_stable)
      case (ok g slot fs1 ino)
      then have "g \<noteq> d" using assms(3) q(2) by simp
      then show ?thesis using loadvnode_stable [OF ok(3)] ok(2) by (simp add: stable_def stable_but_def)
    qed (simp add: stable_def)
  qed simp
qed

lemma remove_counts:
  assumes "sfs_remove dio (mem, okinit, km) v name fs = Some (r, fs')" and d: "held fs d" "mem \<noteq> Some d"
  shows "counts fs' d = counts fs d \<and> sfs_sb fs' = sfs_sb fs"
  using assms(1) unfolding sfs_remove_def
proof (cases rule: try_k_Some_cases)
  case (err e)
  from err(2) show ?thesis
  by (cases rule: lookonce_stable) (simp_all add: stable_def)
next
  case (ok p fs1)
  obtain victim slot where p: "p = (victim, slot)" by (cases p)
  from ok(2) obtain r2 fs2 where u: "sfs_dir_unlink dio v slot fs1 = Some (r2, fs2)"
      "vnode_decref dio victim (if r2 = Inr () then link_dec victim fs2 else fs2) = Some fs'"
    unfolding p by (auto elim!: bind_Some_cases split: prod.split_asm if_split_asm)
  have st: "stable fs1 (if r2 = Inr () then link_dec victim fs2 else fs2)"
    using stable_dir_unlink [OF u(1)] by (simp add: link_dec_def)
  from ok(1) show ?thesis
  proof (cases rule: lookonce_stable)
    case (ok g slot' fs0 ino)
    have "g = victim" using ok(1) p by simp
    then show ?thesis using load_decref [OF ok(3) st [folded \<open>g = victim\<close>] u(2) [folded \<open>g = victim\<close>] held_stable [OF ok(2) d(1)] d(2)] ok(2) by (simp add: stable_def)
  qed simp
qed

text \<open>\<open>sfs_creat\<close> fails at once, loads the file there is, or loads a new one and gives it up again on an error.\<close>

lemma creat_cases:
  assumes "sfs_creat dio vm v name excl fs = Some (r, fs')"
  obtains (fail) e where "r = Inl e" "stable fs fs'"
  | (old) ino fs1 where "stable fs fs1" "sfs_loadvnode dio vm ino SFS_TYPE_INVAL fs1 = Some (r, fs')"
  | (new) g b fs0 fs2 where "stable fs fs0" "sfs_loadvnode dio vm b SFS_TYPE_FILE fs0 = Some (Inr g, fs2)" "r = Inr g" "stable fs2 fs'"
  | (undone) g b fs0 fs2 fs3 e where "stable fs fs0" "sfs_loadvnode dio vm b SFS_TYPE_FILE fs0 = Some (Inr g, fs2)" "stable fs2 fs3"
      "r = Inl e" "vnode_decref dio g fs3 = Some fs'"
  using assms unfolding sfs_creat_def
proof (cases rule: try_k_Some_cases)
  case (err e)
  then show thesis using stable_findname [OF err(2)] fail by blast
next
  case (ok p fs1)
  obtain found em where p: "p = (found, em)" by (cases p)
  note st = stable_findname [OF ok(1)]
  show thesis
  proof (cases found)
    case (Some q)
    obtain ino slot where q: "q = (ino, slot)" by (cases q)
    show thesis
    proof (cases excl)
      case True
      then show thesis using ok(2) st fail by (auto simp: p q Some)
    next
      case False
      then show thesis using ok(2) st old by (auto simp: p q Some)
    qed
  next
    case None
    let ?fin = "\<lambda>newguy fs2. do {
             sv \<leftarrow> sv_mem fs2 newguy;
             (r, fs3) \<leftarrow> sfs_dir_link dio v name (sv_ino sv) fs2;
             case r of
               Inl e \<Rightarrow> do { fs4 \<leftarrow> vnode_decref dio newguy fs3; Some (Inl e, fs4) }
             | Inr _ \<Rightarrow> Some (Inr newguy, link_inc newguy fs3) }"
    from ok(2) have "try_k (sfs_makeobj dio vm SFS_TYPE_FILE fs1) ?fin = Some (r, fs')" by (simp add: p None)
    then show thesis
    proof (cases rule: try_k_Some_cases)
      case (err e)
      obtain mem okinit km where vm: "vm = (mem, okinit, km)" by (cases vm)
      from err(2) have "stable fs1 fs'" unfolding sfs_makeobj_def
      proof (cases rule: try_k_Some_cases)
        case (err e')
        then show ?thesis using stable_balloc by blast
      next
        case (ok b fs2)
        then show ?thesis using stable_balloc [OF ok(1)] loadvnode_stable [OF ok(2) [unfolded vm]] by (simp add: stable_def)
      qed
      then show thesis using st stable_trans fail err(1) by blast
    next
      case (ok g fs2)
      from ok(1) obtain b fs0 where b: "sfs_balloc dio fs1 = Some (Inr b, fs0)" "sfs_loadvnode dio vm b SFS_TYPE_FILE fs0 = Some (Inr g, fs2)"
        unfolding sfs_makeobj_def by (cases rule: try_k_Some_cases) auto
      have st0: "stable fs fs0" using st stable_balloc [OF b(1)] stable_trans by blast
      from ok(2) obtain sv where sv: "sv_mem fs2 g = Some sv" by (auto simp: bind_eq_Some_conv)
      with ok(2) obtain r2 fs3 where l: "sfs_dir_link dio v name (sv_ino sv) fs2 = Some (r2, fs3)" by (auto simp: bind_eq_Some_conv)
      have l2: "(case r2 of Inl e \<Rightarrow> do { fs4 \<leftarrow> vnode_decref dio g fs3; Some (Inl e, fs4) } | Inr _ \<Rightarrow> Some (Inr g, link_inc g fs3)) = Some (r, fs')"
        using ok(2) sv l by simp
      note st3 = stable_dir_link [OF l]
      show thesis
      proof (cases r2)
        case (Inl e)
        with l2 have "vnode_decref dio g fs3 = Some fs'" "r = Inl e" by (auto simp: bind_eq_Some_conv)
        then show thesis using undone [OF st0 b(2) st3] by blast
      next
        case (Inr u)
        with l2 have "r = Inr g" "fs' = link_inc g fs3" by auto
        moreover from this have "stable fs2 fs'" using st3 by (simp add: link_inc_def)
        ultimately show thesis using new [OF st0 b(2)] by blast
      qed
    qed
  qed
qed

lemma creat_counts:
  assumes "sfs_creat dio (mem, okinit, km) v name excl fs = Some (r, fs')" and d: "held fs d" "mem \<noteq> Some d"
    and w: "\<And>w. r = Inr w \<Longrightarrow> w \<noteq> d"
  shows "counts fs' d = counts fs d \<and> sfs_sb fs' = sfs_sb fs"
  using assms(1)
proof (cases rule: creat_cases)
  case (fail e)
  then show ?thesis by (simp add: stable_def)
next
  case (old ino fs1)
  from loadvnode_stable [OF old(2)] show ?thesis using old(1) w by (cases r) (auto simp: stable_def stable_but_def)
next
  case (new g b fs0 fs2)
  moreover have "stable_but g fs0 fs2" using loadvnode_stable [OF new(2)] by simp
  ultimately show ?thesis using w by (simp add: stable_def stable_but_def)
next
  case (undone g b fs0 fs2 fs3 e)
  note load_decref [OF undone(2,3,5) held_stable [OF undone(1) d(1)] d(2)]
  then show ?thesis using undone(1) by (simp add: stable_def)
qed

text \<open>The last part of \<open>sfs_rename\<close> gives the file up in every case, after operations that keep the counts.\<close>

lemma rename_tail_stable:
  assumes "sfs_rename_tail dio v n2 g1 slot1 g fs = Some (r, fs')"
  obtains fs2 where "stable fs fs2" "vnode_decref dio g1 fs2 = Some fs'"
proof -
  from assms obtain r2 fs2 where l: "sfs_dir_link dio v n2 (sv_ino g) fs = Some (r2, fs2)"
    by (auto simp: sfs_rename_tail_def bind_eq_Some_conv)
  note st = stable_dir_link [OF l]
  show thesis
  proof (cases r2)
    case (Inl e)
    with assms l have "vnode_decref dio g1 fs2 = Some fs'" by (auto simp: sfs_rename_tail_def bind_eq_Some_conv)
    then show thesis using st that by blast
  next
    case (Inr slot2)
    from assms l Inr obtain r3 fs3 where u: "sfs_dir_unlink dio v slot1 (link_inc g1 fs2) = Some (r3, fs3)"
      by (auto simp: sfs_rename_tail_def bind_eq_Some_conv)
    have "stable fs (link_inc g1 fs2)" using st by (simp add: link_inc_def)
    then have st3: "stable fs fs3" using stable_dir_unlink [OF u] stable_trans by blast
    show thesis
    proof (cases r3)
      case (Inr x)
      with assms l \<open>r2 = Inr slot2\<close> u have "vnode_decref dio g1 (link_dec g1 fs3) = Some fs'"
        by (auto simp: sfs_rename_tail_def bind_eq_Some_conv split: if_split_asm)
      then show thesis using st3 that [of "link_dec g1 fs3"] by (simp add: link_dec_def)
    next
      case (Inl e)
      let ?f = "\<lambda>fs. upd_sv g1 (\<lambda>sv. sv\<lparr>sv_i := (sv_i sv)\<lparr>sfi_linkcount := (sfi_linkcount (sv_i sv) + (2 ^ 16 - 1)) mod 2 ^ 16\<rparr>\<rparr>) fs"
      from Inl assms l \<open>r2 = Inr slot2\<close> u obtain r4 fs4 where "sfs_dir_unlink dio v slot2 fs3 = Some (r4, fs4)"
          "vnode_decref dio g1 (?f fs4) = Some fs'"
        by (auto simp: sfs_rename_tail_def bind_eq_Some_conv split: if_split_asm)
      moreover from this(1) have "stable fs fs4" using st3 stable_dir_unlink stable_trans by blast
      then have "stable fs (?f fs4)" by (subst stable_upd(3))
      ultimately show thesis using that by blast
    qed
  qed
qed

lemma rename_counts:
  assumes "sfs_rename dio (mem, okinit, km) v n1 v2 n2 fs = Some (r, fs')" and d: "held fs d" "mem \<noteq> Some d"
  shows "counts fs' d = counts fs d \<and> sfs_sb fs' = sfs_sb fs"
proof -
  from assms(1) have "try_k (sfs_lookonce dio (mem, okinit, km) v n1 fs) (\<lambda>(g1, slot1) fs1. do {
       g \<leftarrow> sv_mem fs1 g1;
       kassert (sfi_type (sv_i g) = SFS_TYPE_FILE);
       sfs_rename_tail dio v n2 g1 slot1 g fs1 }) = Some (r, fs')"
    by (auto simp: sfs_rename_def bind_eq_Some_conv split: if_split_asm)
  then show ?thesis
  proof (cases rule: try_k_Some_cases)
    case (err e)
    from err(2) show ?thesis by (cases rule: lookonce_stable) (simp_all add: stable_def)
  next
    case (ok p fs1)
    obtain g1 slot1 where p: "p = (g1, slot1)" by (cases p)
    from ok(2) obtain g where "sfs_rename_tail dio v n2 g1 slot1 g fs1 = Some (r, fs')"
      unfolding p by (auto simp: bind_eq_Some_conv split: if_split_asm)
    then obtain fs2 where st: "stable fs1 fs2" "vnode_decref dio g1 fs2 = Some fs'" by (rule rename_tail_stable)
    from ok(1) show ?thesis
    proof (cases rule: lookonce_stable)
      case (ok g' slot' fs0 ino)
      have "g' = g1" using ok(1) p by simp
      then show ?thesis using load_decref [OF ok(3) st(1) st(2) [folded \<open>g' = g1\<close>] held_stable [OF ok(2) d(1)] d(2)] ok(2) by (simp add: stable_def)
    qed simp
  qed
qed

section \<open>Opens hold references\<close>

definition opens_ok :: "'d sfs_fs \<Rightarrow> bool" where
  "opens_ok fs \<longleftrightarrow> (\<forall>v rc oc i. counts fs v = Some (rc, oc, i) \<longrightarrow> 0 \<le> oc \<and> oc \<le> rc)"

lemma opens_stable: "stable fs fs' \<Longrightarrow> opens_ok fs \<Longrightarrow> opens_ok fs'"
  by (simp add: opens_ok_def stable_def)

lemma opens_but:
  assumes "stable_but g fs fs'" and "opens_ok fs" and "\<And>rc oc i. counts fs' g = Some (rc, oc, i) \<Longrightarrow> 0 \<le> oc \<and> oc \<le> rc"
  shows "opens_ok fs'"
  unfolding opens_ok_def using assms by (metis opens_ok_def stable_but_def)

text \<open>
  What loading does to the vnodes: the invariant is kept, no vnode appears but at the address that was allocated, and the
  vnode that is handed out has a reference that is not for an open.
\<close>

definition spare :: "'d sfs_fs \<Rightarrow> nat \<Rightarrow> bool" where
  "spare fs v \<longleftrightarrow> (\<exists>rc oc i. counts fs v = Some (rc, oc, i) \<and> 0 \<le> oc \<and> oc < rc)"

definition loads :: "vmem \<Rightarrow> 'd sfs_fs \<Rightarrow> 'd sfs_fs \<Rightarrow> bool" where
  "loads vm fs fs' \<longleftrightarrow> opens_ok fs' \<and> dom (counts fs') \<subseteq> dom (counts fs) \<union> set_option (fst vm)"

lemma dom_counts [simp]: "dom (counts fs) = dom (sv_mem fs)"
  by (auto simp: counts_def)

lemma loads_stable: "stable fs fs' \<Longrightarrow> opens_ok fs \<Longrightarrow> loads vm fs fs'"
  using opens_stable [of fs fs'] by (simp add: loads_def stable_def)

lemma loads_trans: "stable fs fs1 \<Longrightarrow> loads vm fs1 fs2 \<Longrightarrow> stable fs2 fs3 \<Longrightarrow> loads vm fs fs3"
  using opens_stable [of fs2 fs3] unfolding loads_def stable_def by simp

lemma spare_stable: "stable fs fs' \<Longrightarrow> spare fs v \<Longrightarrow> spare fs' v"
  by (simp add: spare_def stable_def)

lemma loadvnode_loads:
  assumes "sfs_loadvnode dio vm ino ty fs = Some (r, fs')" and o: "opens_ok fs"
  shows "loads vm fs fs'" and "r = Inr g \<Longrightarrow> spare fs' g"
proof -
  obtain mem okinit km where vm: "vm = (mem, okinit, km)" by (cases vm)
  note l = loadvnode_stable [OF assms(1) [unfolded vm]]
  have sp: "spare fs' g" if "r = Inr g" for g
  proof -
    from l that consider (old) rc oc i where "counts fs g = Some (rc, oc, i)" "counts fs' g = Some (rc + 1, oc, i)"
      | (new) "counts fs' g = Some (1, 0, ino)" by auto
    then show ?thesis
    proof cases
      case (old rc oc i)
      then have "0 \<le> oc \<and> oc \<le> rc" using o unfolding opens_ok_def by blast
      then show ?thesis using old(2) by (simp add: spare_def)
    qed (simp add: spare_def)
  qed
  then show "spare fs' g" if "r = Inr g" for g using that .
  show "loads vm fs fs'"
  proof (cases r)
    case (Inl e)
    then show ?thesis using l o loads_stable by simp
  next
    case (Inr g)
    then have st: "stable_but g fs fs'" using l by simp
    then have "opens_ok fs'" using sp [OF Inr] by (intro opens_but [OF st o]) (auto simp: spare_def)
    moreover have "g \<in> dom (counts fs) \<or> mem = Some g" using l Inr by (auto simp del: dom_counts)
    then have "dom (counts fs') \<subseteq> dom (counts fs) \<union> set_option mem"
      using st unfolding stable_but_def by (auto simp del: dom_counts)
    ultimately show ?thesis by (simp add: loads_def vm)
  qed
qed

lemma lookup_loads:
  assumes "sfs_lookup dio vm v name fs = Some (r, fs')" and o: "opens_ok fs"
  shows "loads vm fs fs'" and "r = Inr w \<Longrightarrow> spare fs' w"
proof -
  from assms(1) have "r \<noteq> Inr w \<and> fs' = fs \<or> (\<exists>q. sfs_lookonce dio vm v name fs = Some (q, fs') \<and> (\<forall>w. r = Inr w \<longrightarrow> (\<exists>slot. q = Inr (w, slot))))" for w
    by (auto simp: sfs_lookup_def bind_eq_Some_conv split: if_split_asm elim!: try_k_Some_cases)
  note this [of w]
  then have c: "loads vm fs fs' \<and> (r = Inr w \<longrightarrow> spare fs' w)"
  proof (elim disjE exE conjE)
    fix q assume q: "sfs_lookonce dio vm v name fs = Some (q, fs')" "\<forall>w. r = Inr w \<longrightarrow> (\<exists>slot. q = Inr (w, slot))"
    from q(1) show ?thesis
    proof (cases rule: lookonce_stable)
      case (ok g slot fs1 ino)
      note l = loadvnode_loads [OF ok(3) opens_stable [OF ok(2) o]]
      then show ?thesis using loads_trans [OF ok(2) l(1) stable_refl] q(2) ok(1) by auto
    qed (use q(2) loads_stable [OF _ o, of fs' vm] in auto)
  qed (use loads_stable [OF stable_refl o, of vm] in auto)
  then show "loads vm fs fs'" and "r = Inr w \<Longrightarrow> spare fs' w" by blast+
qed

lemma decref_opens:
  assumes d: "vnode_decref dio v fs = Some fs'" and o: "opens_ok fs" and c: "counts fs v = Some (rc, oc, i)" "oc < rc"
  shows "opens_ok fs'"
proof (rule opens_but [OF decref_stable [OF d] o])
  fix rc' oc' i' assume c': "counts fs' v = Some (rc', oc', i')"
  have oc: "0 \<le> oc" using o c(1) unfolding opens_ok_def by blast
  show "0 \<le> oc' \<and> oc' \<le> rc'"
  proof (cases "1 < rc")
    case True
    then show ?thesis using decref_counts [OF d c(1)] c' c(2) oc by simp
  next
    case False
    then have rc: "rc = 1" using c(2) oc by simp
    then obtain r where "sfs_reclaim dio v fs = Some (r, fs')" using d c(1) by (auto simp: vnode_decref_def bind_eq_Some_conv counts_def)
    then show ?thesis using reclaim_last [of dio v fs r fs' oc i] c c' oc rc by auto
  qed
qed

lemma creat_loads:
  assumes "sfs_creat dio vm v name excl fs = Some (r, fs')" and o: "opens_ok fs"
  shows "loads vm fs fs'" and "r = Inr w \<Longrightarrow> spare fs' w"
proof -
  from assms(1) have c: "loads vm fs fs' \<and> (r = Inr w \<longrightarrow> spare fs' w)" for w
  proof (cases rule: creat_cases)
    case (fail e)
    then show ?thesis using loads_stable o by simp
  next
    case (old ino fs1)
    note l = loadvnode_loads [OF old(2) opens_stable [OF old(1) o]]
    then show ?thesis using loads_trans [OF old(1) l(1) stable_refl] by blast
  next
    case (new g b fs0 fs2)
    note l = loadvnode_loads [OF new(2) opens_stable [OF new(1) o]]
    then show ?thesis using loads_trans [OF new(1) l(1) new(4)] spare_stable [OF new(4)] new(3) by auto
  next
    case (undone g b fs0 fs2 fs3 e)
    note l = loadvnode_loads [OF undone(2) opens_stable [OF undone(1) o]]
    have l3: "loads vm fs fs3" using loads_trans [OF undone(1) l(1) undone(3)] .
    obtain rc oc i where c: "counts fs3 g = Some (rc, oc, i)" "oc < rc"
      using spare_stable [OF undone(3) l(2)] by (auto simp: spare_def)
    have "opens_ok fs'" using decref_opens [OF undone(5) _ c] l3 by (simp add: loads_def)
    moreover have "dom (counts fs') \<subseteq> dom (counts fs3)"
      using decref_stable [OF undone(5)] c(1) unfolding stable_but_def by (auto simp del: dom_counts)
    ultimately show ?thesis using l3 undone(4) by (auto simp: loads_def)
  qed
  then show "loads vm fs fs'" and "r = Inr w \<Longrightarrow> spare fs' w" by blast+
qed

end
