(* ===== verification/Vfs_Vol.thy ===== *)
theory Vfs_Vol
  imports Vfs_Res Sfs_Stable Sfs_Names
begin

text \<open>
  Paths on a mounted volume: the operations on path names do to the map of files that the volume holds what the operations
  of SFS do, every reference that is taken on the way is given back, and nothing of the VFS state but that one
  filesystem changes.
\<close>

section \<open>One filesystem of many\<close>

lemma fs_get_put [simp]: "fs_get f s = Some fs0 \<Longrightarrow> fs_get f (fs_put f fs s) = Some fs"
  by (auto simp: fs_get_def fs_put_def bind_eq_Some_conv)

lemma fs_put_put [simp]: "fs_put f b (fs_put f a s) = fs_put f b s"
  by (auto simp: fs_put_def split: option.splits)

lemma fs_put_fields [simp]:
  "knowndevs (fs_put f fs s) = knowndevs s" "dev_vnodes (fs_put f fs s) = dev_vnodes s"
  "bootfs_vnode (fs_put f fs s) = bootfs_vnode s" "t_cwd (fs_put f fs s) = t_cwd s"
  by (simp_all add: fs_put_def split: option.splits)

text \<open>The other filesystems, when no two are on the same device.\<close>

lemma fs_get_other:
  assumes "f' \<noteq> f" and "\<And>d d' fs fs'. fs_mem s f = Some (d, fs) \<Longrightarrow> fs_mem s f' = Some (d', fs') \<Longrightarrow> d' \<noteq> d"
  shows "fs_get f' (fs_put f fs s) = fs_get f' s"
proof (cases "fs_mem s f")
  case None
  then show ?thesis by (simp add: fs_put_def)
next
  case (Some p)
  then obtain d x where p: "fs_mem s f = Some (d, x)" by (cases p) simp
  show ?thesis
  proof (cases "fs_mem s f'")
    case None
    then show ?thesis using p assms(1) by (simp add: fs_put_def fs_get_def)
  next
    case (Some q)
    then obtain d' y where q: "fs_mem s f' = Some (d', y)" by (cases q) simp
    then have "d' \<noteq> d" using assms(2) p by blast
    then show ?thesis using p q assms(1) by (simp add: fs_put_def fs_get_def)
  qed
qed

text \<open>What names stand for depends on the superblocks only.\<close>

lemma volname_put:
  assumes g: "fs_get f s = Some fs0" and sb: "sfs_sb fs = sfs_sb fs0"
  shows "FSOP_GETVOLNAME f' (fs_put f fs s) = FSOP_GETVOLNAME f' s" and "fs_get f' (fs_put f fs s) = None \<longleftrightarrow> fs_get f' s = None"
proof -
  obtain d x lh where f: "fs_mem s f = Some (d, x)" "devices s d = Some (Dev_lhd lh)" "fs0 = x\<lparr>sfs_device := lh\<rparr>"
    using g unfolding fs_get_def by (elim bind_Some_cases) (auto split: prod.split_asm device.split_asm elim!: bind_Some_cases)
  have "map_option sfs_sb (fs_get f' (fs_put f fs s)) = map_option sfs_sb (fs_get f' s)"
  proof (cases "f' = f")
    case True
    then show ?thesis using g sb by simp
  next
    case False
    show ?thesis
    proof (cases "fs_mem s f'")
      case None
      then show ?thesis using False f(1) by (simp add: fs_get_def fs_put_def)
    next
      case (Some q)
      obtain d' y where q: "q = (d', y)" by (cases q)
      show ?thesis using Some q False f by (simp add: fs_get_def fs_put_def)
    qed
  qed
  moreover have "FSOP_GETVOLNAME f' t = map_option (\<lambda>sb. takeWhile (\<lambda>b. b \<noteq> 0) (sp_volname sb)) (map_option sfs_sb (fs_get f' t))" for t :: "'a vfs"
    by (cases "fs_get f' t") (simp_all add: FSOP_GETVOLNAME_def sfs_getvolname_def)
  ultimately show "FSOP_GETVOLNAME f' (fs_put f fs s) = FSOP_GETVOLNAME f' s" by simp
  show "fs_get f' (fs_put f fs s) = None \<longleftrightarrow> fs_get f' s = None"
    using \<open>map_option sfs_sb (fs_get f' (fs_put f fs s)) = map_option sfs_sb (fs_get f' s)\<close> by (metis option.map_disc_iff)
qed

lemma names_put:
  assumes "fs_get f s = Some fs0" and "sfs_sb fs = sfs_sb fs0"
  shows "name_target (fs_put f fs s) = name_target s" and "vfs_ok (fs_put f fs s) \<longleftrightarrow> vfs_ok s"
proof -
  have v: "volname_of (fs_put f fs s) = volname_of s" using volname_put(1) [OF assms] by (simp add: volname_of_def fun_eq_iff)
  have "kd_names (fs_put f fs s) = kd_names s" "kd_target (fs_put f fs s) = kd_target s"
    by (intro ext; simp only: kd_names_def kd_target_def v)+
  then show "name_target (fs_put f fs s) = name_target s" by (intro ext) (simp only: name_target_def fs_put_fields)
  show "vfs_ok (fs_put f fs s) \<longleftrightarrow> vfs_ok s" using volname_put(2) [OF assms] by (simp add: vfs_ok_def kd_ok_def)
qed

section \<open>References to the root directory\<close>

definition inc_ref :: "nat \<Rightarrow> 'd sfs_fs \<Rightarrow> 'd sfs_fs" where
  "inc_ref v fs = upd_sv v (\<lambda>sv. sv\<lparr>vn_refcount := vn_refcount sv + 1\<rparr>) fs"

definition dec_ref :: "nat \<Rightarrow> 'd sfs_fs \<Rightarrow> 'd sfs_fs" where
  "dec_ref v fs = upd_sv v (\<lambda>sv. sv\<lparr>vn_refcount := vn_refcount sv - 1\<rparr>) fs"

lemma dec_inc [simp]: "dec_ref v (inc_ref v fs) = fs"
proof -
  have "map_option (\<lambda>sv :: sfs_vnode. sv\<lparr>vn_refcount := vn_refcount sv - 1\<rparr>) (map_option (\<lambda>sv. sv\<lparr>vn_refcount := vn_refcount sv + 1\<rparr>) x) = x" for x
    by (cases x) simp_all
  then show ?thesis by (simp add: inc_ref_def dec_ref_def upd_sv_def)
qed

lemma volume_root:
  assumes "volume blk good n fs d F"
  obtains sd where "sv_mem fs d = Some sd" "sv_ino sd = SFS_ROOT_LOCATION" "0 < vn_refcount sd" "sfi_type (sv_i sd) = SFS_TYPE_DIR"
proof -
  obtain I M where t: "tree blk I M fs d" using assms by (auto simp: volume_def)
  obtain sd where sd: "sv_mem fs d = Some sd" "sv_ino sd = SFS_ROOT_LOCATION" using treeD(5) [OF t] by blast
  then have "0 < vn_refcount sd" "sfi_type (sv_i sd) = SFS_TYPE_DIR"
    using treeD(1,2) [OF t] by (auto simp: refs_ok_def dir_ok_def inode_of_def)
  then show thesis using that sd by blast
qed

lemma volume_held: "volume blk good n fs d F \<Longrightarrow> held fs d"
  by (erule volume_root) (simp add: held_def counts_def)

text \<open>A volume stays what it is when a count of a vnode changes and no reference count drops to zero.\<close>

lemma volume_upd_counts:
  assumes v: "volume blk good n fs d F" and sv: "sv_mem fs v = Some sv" "0 < vn_refcount (f sv)"
    and f: "sv_i (f sv) = sv_i sv" "sv_ino (f sv) = sv_ino sv" "sv_dirty (f sv) = sv_dirty sv"
  shows "volume blk good n (upd_sv v f fs) d F"
proof -
  obtain I M where o: "vol blk good n I fs" "tree blk I M fs d" "F = files (blk (sfs_device fs)) I M"
    using v by (auto simp: volume_def)
  have I: "I (sv_ino sv) = Some (sv_i sv)" by (rule volD(4) [OF o(1) sv(1)])
  then have "inode_wf (sv_i sv)" using volD(5) [OF o(1) I] by (simp add: live_def inode_ok_def)
  then have vol': "vol blk good n I (upd_sv v f fs)"
    using vol_upd_sv(1) [OF o(1) sv(1), of f] f I by (simp add: fun_upd_idem)
  have sm: "sv_mem (upd_sv v f fs) = (sv_mem fs)(v \<mapsto> f sv)" using sv by (simp add: upd_sv_def)
  have "inode_of (upd_sv v f fs) d = inode_of fs d" using sm sv(1) f(1) by (simp add: inode_of_def)
  moreover from this have "contents blk (upd_sv v f fs) d = contents blk fs d" by (simp add: contents_def) (simp add: upd_sv_def)
  moreover have "refs_ok (upd_sv v f fs)" using refs_ok_upd [OF treeD(1) [OF o(2)] sm] sv(2) by simp
  moreover have "\<exists>sd. sv_mem (upd_sv v f fs) d = Some sd \<and> sv_ino sd = SFS_ROOT_LOCATION"
    using treeD(5) [OF o(2)] sm sv(1) f(2) by auto
  ultimately have "tree blk I M (upd_sv v f fs) d" using o(2) dir_frame [of "upd_sv v f fs" d fs blk] by (simp add: tree_def)
  then show ?thesis using volumeI [OF vol'] o(3) by (simp add: upd_sv_def)
qed

lemma inc_ref_volume: "volume blk good n fs d F \<Longrightarrow> volume blk good n (inc_ref d fs) d F"
proof -
  assume v: "volume blk good n fs d F"
  then obtain sd where "sv_mem fs d = Some sd" "0 < vn_refcount sd" by (rule volume_root)
  then show ?thesis unfolding inc_ref_def by (intro volume_upd_counts [OF v]) auto
qed

lemma inc_ref_counts: "volume blk good n fs d F \<Longrightarrow> \<exists>rc oc. counts fs d = Some (rc, oc, SFS_ROOT_LOCATION) \<and> 0 < rc \<and>
   counts (inc_ref d fs) d = Some (rc + 1, oc, SFS_ROOT_LOCATION)"
  by (erule volume_root) (simp add: counts_def inc_ref_def upd_sv_def)

text \<open>The extra reference is given back.\<close>

lemma dec_ref_back:
  assumes v: "volume blk good n fs' d F'" and c: "counts fs' d = counts (inc_ref d fs) d" and v0: "volume blk good n fs d F"
  shows "vnode_decref dio d fs' = Some (dec_ref d fs')" and "volume blk good n (dec_ref d fs') d F'"
    and "counts (dec_ref d fs') d = counts fs d"
proof -
  obtain rc oc where rc: "counts fs d = Some (rc, oc, SFS_ROOT_LOCATION)" "0 < rc" "counts (inc_ref d fs) d = Some (rc + 1, oc, SFS_ROOT_LOCATION)"
    using inc_ref_counts [OF v0] by blast
  then obtain sd where sd: "sv_mem fs' d = Some sd" "vn_refcount sd = rc + 1" "vn_opencount sd = oc" "sv_ino sd = SFS_ROOT_LOCATION"
    using c by (auto simp: counts_def)
  then show "vnode_decref dio d fs' = Some (dec_ref d fs')" using rc(2) by (simp add: vnode_decref_def dec_ref_def)
  show "volume blk good n (dec_ref d fs') d F'" unfolding dec_ref_def using sd rc(2) by (intro volume_upd_counts [OF v sd(1)]) simp_all
  show "counts (dec_ref d fs') d = counts fs d" unfolding rc(1) using sd by (simp add: counts_def dec_ref_def upd_sv_def)
qed

section \<open>The start of a path\<close>

text \<open>
  The path names an entry \<open>name\<close> of the root directory \<open>d\<close> of the filesystem \<open>f\<close>: after a device or volume name, from
  the boot filesystem, or from the current directory.
\<close>

definition path_on :: "'h vfs \<Rightarrow> bytes \<Rightarrow> nat \<Rightarrow> nat \<Rightarrow> bytes \<Rightarrow> bool" where
  "path_on s path f d name \<longleftrightarrow> (case split_path path of
      On_device dev sub \<Rightarrow> sub = name \<and> name_target s dev = Some (T_fs f)
    | From_boot sub \<Rightarrow> sub = name \<and> bootfs_vnode s = Some (SfsVnode f d)
    | From_curfs sub \<Rightarrow> sub = name \<and> t_cwd s = Some (SfsVnode f d)
    | From_cwd sub \<Rightarrow> sub = name \<and> t_cwd s = Some (SfsVnode f d))"

lemma path_on_put:
  "fs_get f s = Some fs0 \<Longrightarrow> sfs_sb fs = sfs_sb fs0 \<Longrightarrow> path_on (fs_put f fs s) path f' d name = path_on s path f' d name"
  using names_put(1) [of f s fs0 fs] by (simp only: path_on_def fs_put_fields)

context block_device
begin

lemma getroot_loaded:
  assumes v: "volume blk good n fs d F"
  shows "sfs_getroot dio' vm fs = Some (d, inc_ref d fs)"
proof -
  obtain I M where o: "vol blk good n I fs" using v by (auto simp: volume_def)
  obtain sd where sd: "sv_mem fs d = Some sd" "sv_ino sd = SFS_ROOT_LOCATION" using v by (rule volume_root)
  obtain found where fl: "sfs_find_loaded SFS_ROOT_LOCATION 0 fs = Some found"
      "case found of None \<Rightarrow> \<forall>v sv. sv_mem fs v = Some sv \<longrightarrow> sv_ino sv \<noteq> SFS_ROOT_LOCATION
       | Some v \<Rightarrow> \<exists>sv. sv_mem fs v = Some sv \<and> sv_ino sv = SFS_ROOT_LOCATION"
    using find_loaded_ok [OF o, of 0 SFS_ROOT_LOCATION] by auto
  have "found = Some d"
  proof (cases found)
    case None
    then show ?thesis using fl(2) sd by auto
  next
    case (Some w)
    then obtain sw where "sv_mem fs w = Some sw" "sv_ino sw = SFS_ROOT_LOCATION" using fl(2) by auto
    then have "w = d" using volD(3) [OF o] sd unfolding inos_distinct_def by metis
    then show ?thesis using Some by simp
  qed
  then show ?thesis using fl(1) sd(1)
    by (cases vm) (simp add: sfs_getroot_def sfs_loadvnode_def vnode_incref_def inc_ref_def)
qed

end

text \<open>The VFS calls on a directory of the filesystem.\<close>

lemma vop_incref: "fs_get f s = Some fs \<Longrightarrow> v \<in> dom (sv_mem fs) \<Longrightarrow> VOP_INCREF (SfsVnode f v) s = Some (fs_put f (inc_ref v fs) s)"
  by (auto simp: fs_upd_def vnode_incref_def inc_ref_def)

lemma dir_call_dir:
  "fs_get f s = Some fs \<Longrightarrow> sv_mem fs d = Some sd \<Longrightarrow> sfi_type (sv_i sd) = SFS_TYPE_DIR \<Longrightarrow>
     dir_call f d act s = do { (r, fs') \<leftarrow> act fs; Some (r, fs_put f fs' s) }"
  by (simp add: dir_call_def fs_call_def sfs_isdirv_def)

lemma volume_dom: "volume blk good n fs d F \<Longrightarrow> d \<in> dom (sv_mem fs)"
  by (erule volume_root) auto

lemma inc_ref_root: "volume blk good n fs d F \<Longrightarrow> \<exists>sd. sv_mem (inc_ref d fs) d = Some sd \<and> sfi_type (sv_i sd) = SFS_TYPE_DIR"
  by (drule inc_ref_volume) (erule volume_root, blast)

context working_disk
begin

abbreviation vol_at :: "'h lhd_softc sfs_fs \<Rightarrow> nat \<Rightarrow> (bytes \<Rightarrow> bytes option) \<Rightarrow> bool" where
  "vol_at \<equiv> volume (lhd_blk sect) (lhd_good n) n"

lemma vop_decref_root:
  assumes g: "fs_get f s = Some fs'" and v: "vol_at fs' d F'" and c: "counts fs' d = counts (inc_ref d fs) d" and v0: "vol_at fs d F"
  shows "VOP_DECREF hw (SfsVnode f d) s = Some (fs_put f (dec_ref d fs') s)"
  using g dec_ref_back(1) [OF v c v0, of "lhd_io hw"] by (simp add: fs_upd_def)

lemma getdevice_on:
  assumes ok: "vfs_ok s" and g: "fs_get f s = Some fs" and v: "vol_at fs d F" and p: "path_on s path f d name"
  shows "getdevice hw vm path s = Some (Inr (name, SfsVnode f d), fs_put f (inc_ref d fs) s)"
proof -
  have inc: "VOP_INCREF (SfsVnode f d) s = Some (fs_put f (inc_ref d fs) s)" using vop_incref [OF g volume_dom [OF v]] .
  have cur: "vfs_getcurdir s = Some (Inr (SfsVnode f d), fs_put f (inc_ref d fs) s)" if "t_cwd s = Some (SfsVnode f d)"
    using that inc by (simp add: vfs_getcurdir_def)
  have root: "FSOP_GETROOT hw vm f s' = Some (SfsVnode f d, fs_put f (inc_ref d fs') s')" if "fs_get f s' = Some fs'" "vol_at fs' d F" for s' fs'
    using getroot_loaded [OF that(2)] that(1) by (simp add: FSOP_GETROOT_def)
  have g1: "fs_get f (fs_put f x s) = Some x" for x using g by simp
  show ?thesis
  proof (cases "split_path path")
    case (From_cwd sub)
    then show ?thesis using p cur by (simp add: getdevice_forms path_on_def)
  next
    case (On_device dev sub)
    then show ?thesis using p root [OF g v] by (simp add: getdevice_forms path_on_def vfs_getroot_eq [OF ok [unfolded vfs_ok_def]])
  next
    case (From_boot sub)
    then show ?thesis using p inc by (simp add: getdevice_forms path_on_def)
  next
    case (From_curfs sub)
    let ?fs2 = "inc_ref d (inc_ref d fs)"
    have "VOP_DECREF hw (SfsVnode f d) (fs_put f ?fs2 s) = Some (fs_put f (dec_ref d ?fs2) s)"
      using vop_decref_root [OF g1 inc_ref_volume [OF inc_ref_volume [OF v]] refl inc_ref_volume [OF v]] by simp
    then show ?thesis using From_curfs p cur root [OF g1 inc_ref_volume [OF v]] by (simp add: getdevice_forms path_on_def)
  qed
qed

text \<open>The parent directory of an entry is the root directory, with one reference more.\<close>

lemma lookparent_on:
  assumes ok: "vfs_ok s" and g: "fs_get f s = Some fs" and v: "vol_at fs d F" and p: "path_on s path f d name"
  shows "vfs_lookparent hw vm path (NAME_MAX + 1) s =
    (if name = [] then Some (Inl EINVAL, fs_put f fs s)
     else if NAME_MAX < length name then Some (Inl ENAMETOOLONG, fs_put f fs s)
     else Some (Inr (SfsVnode f d, name), fs_put f (inc_ref d fs) s))"
proof -
  note gd = getdevice_on [OF ok g v p, of vm]
  have g1: "fs_get f (fs_put f x s) = Some x" for x using g by simp
  note v1 = inc_ref_volume [OF v] and v2 = inc_ref_volume [OF inc_ref_volume [OF v]]
  have d1: "VOP_DECREF hw (SfsVnode f d) (fs_put f (inc_ref d fs) s) = Some (fs_put f fs s)"
    using vop_decref_root [OF g1 v1 refl v] by simp
  have d2: "VOP_DECREF hw (SfsVnode f d) (fs_put f (inc_ref d (inc_ref d fs)) s) = Some (fs_put f (inc_ref d fs) s)"
    using vop_decref_root [OF g1 v2 refl v1] by simp
  obtain sd where sd: "sv_mem (inc_ref d fs) d = Some sd" "sfi_type (sv_i sd) = SFS_TYPE_DIR" using inc_ref_root [OF v] by blast
  have "VOP_LOOKPARENT (SfsVnode f d) name (NAME_MAX + 1) (fs_put f (inc_ref d fs) s) =
    (if NAME_MAX < length name then Some (Inl ENAMETOOLONG, fs_put f (inc_ref d fs) s)
     else Some (Inr (SfsVnode f d, name), fs_put f (inc_ref d (inc_ref d fs)) s))"
    using sd by (simp add: dir_call_dir [OF g1 sd] sfs_lookparent_def vnode_incref_def inc_ref_def [symmetric])
  then show ?thesis using gd d1 d2 by (simp add: vfs_lookparent_def)
qed

lemma vfs_remove_on:
  assumes ok: "vfs_ok s" and g: "fs_get f s = Some fs" and v: "vol_at fs d F" and p: "path_on s path f d name"
    and fresh: "fresh_mem (fst (vm 1)) fs"
  shows "\<exists>r fs'. vfs_remove hw vm path s = Some (r, fs_put f fs' s) \<and> counts fs' d = counts fs d \<and>
    (case r of
       Inr _ \<Rightarrow> name \<in> dom F \<and> vol_at fs' d (F(name := None))
     | Inl e \<Rightarrow> vol_at fs' d F \<and> (e = ENOENT \<and> name \<notin> dom F \<or> e = ENOMEM \<and> name \<in> dom F \<or>
         e = EINVAL \<and> name = [] \<or> e = ENAMETOOLONG \<and> NAME_MAX < length name))"
proof -
  note lp = lookparent_on [OF ok g v p, of "vm 0"]
  consider (empty) "name = []" | (long) "name \<noteq> []" "NAME_MAX < length name" | (ok) "name \<noteq> []" "length name \<le> NAME_MAX" by linarith
  then show ?thesis
  proof cases
    case ok
    let ?s = "fs_put f (inc_ref d fs) s"
    have g1: "fs_get f (fs_put f x s) = Some x" for x using g by simp
    obtain mem okinit km where vm: "vm 1 = (mem, okinit, km)" by (cases "vm 1")
    note v1 = inc_ref_volume [OF v]
    have dom1: "dom (sv_mem (inc_ref d fs)) = dom (sv_mem fs)" using volume_dom [OF v] by (auto simp: inc_ref_def upd_sv_def)
    then have fr: "fresh_mem mem (inc_ref d fs)" using fresh vm by (simp add: fresh_mem_def)
    obtain r fs1 where rm: "sfs_remove (lhd_io hw) (mem, okinit, km) d name (inc_ref d fs) = Some (r, fs1)"
        "case r of Inr _ \<Rightarrow> name \<in> dom F \<and> vol_at fs1 d (F(name := None))
         | Inl e \<Rightarrow> vol_at fs1 d F \<and> (e = ENOENT \<and> name \<notin> dom F \<or> e = ENOMEM \<and> name \<in> dom F)"
      using remove_ok [OF v1 fr, of okinit km name] by blast
    have "mem \<noteq> Some d" using fr volume_dom [OF v1] by (auto simp: fresh_mem_def)
    then have c: "counts fs1 d = counts (inc_ref d fs) d" using remove_counts [OF rm(1) volume_held [OF v1]] by simp
    define F' where "F' = (if r = Inr () then F(name := None) else F)"
    have v': "vol_at fs1 d F'" using rm(2) by (cases r) (simp_all add: F'_def)
    obtain sd where sd: "sv_mem (inc_ref d fs) d = Some sd" "sfi_type (sv_i sd) = SFS_TYPE_DIR" using inc_ref_root [OF v] by blast
    have "VOP_REMOVE hw (vm 1) (SfsVnode f d) name ?s = Some (r, fs_put f fs1 s)" using rm(1) vm by (simp add: dir_call_dir [OF g1 sd])
    moreover have "VOP_DECREF hw (SfsVnode f d) (fs_put f fs1 s) = Some (fs_put f (dec_ref d fs1) s)"
      using vop_decref_root [OF g1 v' c v] by simp
    ultimately have "vfs_remove hw vm path s = Some (r, fs_put f (dec_ref d fs1) s)" using lp ok by (simp add: vfs_remove_def)
    moreover have "vol_at (dec_ref d fs1) d F'" "counts (dec_ref d fs1) d = counts fs d"
      using dec_ref_back(2,3) [OF v' c v] by blast+
    ultimately show ?thesis using rm(2) by (cases r) (auto simp: F'_def)
  qed (use lp v in \<open>auto simp: vfs_remove_def\<close>)
qed

end

end
