(* ===== verification/Vfs_File.thy ===== *)
theory Vfs_File
  imports Vfs_Vol
begin

text \<open>
  Open files of a mounted volume: what opening, writing, reading, truncating and closing through the VFS layer do to the
  map of files that the volume holds.
\<close>

section \<open>Files of a volume\<close>

text \<open>The map after the file loaded at \<open>w\<close> has got new contents, which all its names show.\<close>

definition put_file :: "('d \<Rightarrow> nat \<Rightarrow> bytes) \<Rightarrow> 'd sfs_fs \<Rightarrow> nat \<Rightarrow> nat \<Rightarrow> bytes \<Rightarrow> (bytes \<Rightarrow> bytes option) \<Rightarrow> bytes \<Rightarrow> bytes option" where
  "put_file blk fs d w data F nm = (if dir_map (dir_entries blk fs d) nm = Some (sv_ino (the (sv_mem fs w))) then Some data else F nm)"

lemma put_file_name: "named_by blk fs d name w \<Longrightarrow> put_file blk fs d w data F name = Some data"
  by (auto simp: named_by_def put_file_def)

lemma named_file:
  assumes v: "volume blk good n fs d F" and nm: "named_by blk fs d name w"
  obtains sw where "sv_mem fs w = Some sw" "sv_ino sw \<noteq> SFS_ROOT_LOCATION" "sfi_type (sv_i sw) = SFS_TYPE_FILE" "0 < vn_refcount sw"
    "sfi_linkcount (sv_i sw) \<noteq> 0" "F name = Some (file_data (blk (sfs_device fs)) (sv_i sw))"
proof -
  obtain I M where o: "vol blk good n I fs" "tree blk I M fs d" "F = files (blk (sfs_device fs)) I M"
    using v by (auto simp: volume_def)
  note t = treeD [OF o(2)]
  obtain sw where sw: "sv_mem fs w = Some sw" "M name = Some (sv_ino sw)" using nm t(3) by (auto simp: named_by_def)
  note I = volD(4) [OF o(1) sw(1)]
  have r: "sv_ino sw \<noteq> SFS_ROOT_LOCATION" using t(4) sw(2) unfolding names_ok_def by blast
  then have ty: "sfi_type (sv_i sw) = SFS_TYPE_FILE" "sfi_linkcount (sv_i sw) = card {nm. M nm = Some (sv_ino sw)}"
    using t(4) I unfolding names_ok_def by blast+
  have "finite {nm. M nm = Some (sv_ino sw)}" using t(4) by (auto simp: names_ok_def intro: finite_subset [of _ "dom M"])
  then have "card {nm. M nm = Some (sv_ino sw)} \<noteq> 0" using sw(2) by auto
  moreover have "0 < vn_refcount sw" using t(1) sw(1) by (simp add: refs_ok_def)
  moreover have "F name = Some (file_data (blk (sfs_device fs)) (sv_i sw))" using sw(2) I o(3) by (simp add: files_def)
  ultimately show thesis using that sw(1) r ty by metis
qed

text \<open>Counts have no part in what the directory says.\<close>

lemma dir_entries_upd:
  assumes "sv_mem fs v = Some sv" and "sv_i (f sv) = sv_i sv"
  shows "dir_entries blk (upd_sv v f fs) d = dir_entries blk fs d"
proof -
  have "inode_of (upd_sv v f fs) d = inode_of fs d" using assms by (simp add: inode_of_def upd_sv_def)
  then show ?thesis by (simp add: dir_entries_def contents_def) (simp add: upd_sv_def)
qed

lemma named_upd:
  assumes "sv_mem fs v = Some sv" and "sv_i (f sv) = sv_i sv" and "sv_ino (f sv) = sv_ino sv"
  shows "named_by blk (upd_sv v f fs) d name w \<longleftrightarrow> named_by blk fs d name w"
  using dir_entries_upd [of fs v sv f, OF assms(1,2)] assms(1,3) by (auto simp: named_by_def) (auto simp: upd_sv_def split: if_splits)

text \<open>A step of one file changes its entries of the map.\<close>

lemma file_step_volume:
  assumes v: "volume blk good n fs d F" and w: "sv_mem fs w = Some sw" "w \<noteq> d" and st: "file_step blk good n w fs fs'"
  shows "volume blk good n fs' d (put_file blk fs d w (file_data (blk (sfs_device fs')) (inode_of fs' w)) F)"
    and "dir_entries blk fs' d = dir_entries blk fs d" and "\<And>name. named_by blk fs' d name w \<longleftrightarrow> named_by blk fs d name w"
proof -
  obtain I M where o: "vol blk good n I fs" "tree blk I M fs d" "F = files (blk (sfs_device fs)) I M"
    using v by (auto simp: volume_def)
  note t = treeD [OF o(2)]
  let ?B = "blk (sfs_device fs)" and ?B' = "blk (sfs_device fs')" and ?I = "I(sv_ino sw \<mapsto> inode_of fs' w)"
  note vs = vol_file_step [OF o(1) w(1) st]
  obtain sw' where sw': "sv_mem fs' w = Some sw'" using st by (auto simp: file_step_def file_ok_def)
  have sf: "\<And>x. x \<noteq> w \<Longrightarrow> sv_mem fs' x = sv_mem fs x" "sv_ino sw' = sv_ino sw" "vn_refcount sw' = vn_refcount sw"
      "sfi_type (inode_of fs' w) = sfi_type (sv_i sw)" "sfi_linkcount (inode_of fs' w) = sfi_linkcount (sv_i sw)"
    using st w(1) sw' by (simp_all add: file_step_def inode_of_def)
  obtain sd where sd: "sv_mem fs d = Some sd" "sv_ino sd = SFS_ROOT_LOCATION" using t(5) by blast
  have ne: "sv_ino sw \<noteq> SFS_ROOT_LOCATION" using volD(3) [OF o(1)] w sd unfolding inos_distinct_def by metis
  have dmem: "sv_mem fs' d = sv_mem fs d" using sf(1) w(2) by simp
  have Ir: "I SFS_ROOT_LOCATION = Some (sv_i sd)" using volD(4) [OF o(1) sd(1)] sd(2) by simp
  have ct: "contents blk fs' d = contents blk fs d"
    using vs(2) [OF _ Ir] ne dmem sd(1) by (simp add: contents_def inode_of_def)
  have de: "inode_of fs' d = inode_of fs d" using dmem by (simp add: inode_of_def)
  show ents: "dir_entries blk fs' d = dir_entries blk fs d" by (rule dir_frame(1) [OF de ct])
  show "named_by blk fs' d name w \<longleftrightarrow> named_by blk fs d name w" for name
    using ents w(1) sw' sf(2) by (simp add: named_by_def)
  have "names_ok ?I M"
    using t(4) volD(4) [OF o(1) w(1)] sf(4,5) unfolding names_ok_def by (auto split: if_splits)
  moreover have "sv_mem fs' = (sv_mem fs)(w \<mapsto> sw')" using sf(1) sw' by auto
  then have "refs_ok fs'" using refs_ok_upd [OF t(1), of fs' w "Some sw'"] t(1) w(1) sf(3) by (auto simp: refs_ok_def)
  ultimately have tr: "tree blk ?I M fs' d" using tree_frame [OF o(2) dmem ct] by blast
  have "files ?B' ?I M = put_file blk fs d w (file_data ?B' (inode_of fs' w)) F"
  proof
    fix nm
    show "files ?B' ?I M nm = put_file blk fs d w (file_data ?B' (inode_of fs' w)) F nm"
    proof (cases "M nm")
      case None
      then show ?thesis using t(3) o(3) by (simp add: files_def put_file_def)
    next
      case (Some ino)
      then have "ino \<in> dom I" using t(4) unfolding names_ok_def by blast
      then obtain i where i: "I ino = Some i" by blast
      show ?thesis
      proof (cases "ino = sv_ino sw")
        case True
        then show ?thesis using Some t(3) w(1) by (simp add: files_def put_file_def)
      next
        case False
        then have "file_data ?B' i = file_data ?B i" using vs(2) [OF False i] by (simp add: file_data_def)
        then show ?thesis using Some False i t(3) w(1) o(3) by (simp add: files_def put_file_def)
      qed
    qed
  qed
  then show "volume blk good n fs' d (put_file blk fs d w (file_data ?B' (inode_of fs' w)) F)"
    using volumeI [OF vs(1) tr] by metis
qed

lemma put_file_same:
  assumes v: "volume blk good n fs d F" and w: "sv_mem fs w = Some sw" "w \<noteq> d"
  shows "put_file blk fs d w (file_data (blk (sfs_device fs)) (sv_i sw)) F = F"
proof
  fix nm
  obtain I M where o: "vol blk good n I fs" "tree blk I M fs d" "F = files (blk (sfs_device fs)) I M"
    using v by (auto simp: volume_def)
  show "put_file blk fs d w (file_data (blk (sfs_device fs)) (sv_i sw)) F nm = F nm"
    using w(1) volD(4) [OF o(1) w(1)] treeD(3) [OF o(2)] o(3) by (simp add: put_file_def files_def)
qed

lemma volume_ok:
  assumes "volume blk good n fs d F" and "sv_mem fs w = Some sw"
  shows "fs_ok good n fs" and "file_ok blk fs w"
  using assms vol_file_ok(1) volD(1) unfolding volume_def by blast+

section \<open>Operations on a file\<close>

context block_device
begin

lemma truncate_volume:
  assumes v: "volume blk good n fs d F" and nm: "named_by blk fs d name w"
  shows "\<exists>fs'. sfs_truncate dio w 0 fs = Some (Inr (), fs') \<and> volume blk good n fs' d (put_file blk fs d w [] F) \<and>
    (\<forall>nm. named_by blk fs' d nm w \<longleftrightarrow> named_by blk fs d nm w) \<and> stable fs fs'"
proof -
  obtain sw where sw: "sv_mem fs w = Some sw" "w \<noteq> d" using nm by (auto simp: named_by_def)
  obtain fs' where t: "sfs_truncate dio w 0 fs = Some (Inr (), fs')" "file_step blk good n w fs fs'" "sfi_size (inode_of fs' w) = 0"
    using truncate_ok [OF volume_ok [OF v sw(1)], of 0 0] by auto
  note f = file_step_volume [OF v sw t(2)]
  have "file_data (blk (sfs_device fs')) (inode_of fs' w) = []" using t(3) by (simp add: file_data_def)
  then show ?thesis using t(1) f nm stable_truncate [OF t(1)] by auto
qed

text \<open>The first write to an empty file.\<close>

lemma write_volume:
  assumes v: "volume blk good n fs d F" and nm: "named_by blk fs d name w" and data: "F name = Some []"
    and u: "uio_rw u = UIO_WRITE" "uio_fits (uio_resid u) u" "uio_safe u" "uio_offset u = 0"
  shows "\<exists>r m fs'. m \<le> uio_resid u \<and> sfs_write dio w (fs, u) = Some (r, fs', uio_moved (take m (iov_buf u)) u) \<and>
    volume blk good n fs' d (put_file blk fs d w (take m (iov_buf u)) F) \<and> named_by blk fs' d name w \<and> stable fs fs' \<and> m \<le> MAXFILE \<and>
    (case r of Inr _ \<Rightarrow> m = uio_resid u | Inl e \<Rightarrow> e = ENOSPC \<or> e = EINVAL \<and> MAXFILE < uio_resid u)"
proof -
  obtain sw where sw: "sv_mem fs w = Some sw" and wd: "w \<noteq> d" using nm by (auto simp: named_by_def)
  obtain sw0 where f0: "sv_mem fs w = Some sw0" "F name = Some (file_data (blk (sfs_device fs)) (sv_i sw0))" using named_file [OF v nm] by blast
  have len: "length (contents blk fs w) = MAXFILE" by (rule contents_length [OF volume_ok [OF v sw]])
  have "contents blk fs w \<noteq> []" using len by auto
  then have sz: "sfi_size (inode_of fs w) = 0" using f0 data sw by (simp add: file_data_def contents_def inode_of_def)
  then have sz31: "sfi_size (inode_of fs w) < 2 ^ 31" by simp
  obtain r m fs' where r: "m \<le> uio_resid u" "sfs_io dio w (fs, u) = Some (r, fs', uio_moved (take m (iov_buf u)) u)" "file_step blk good n w fs fs'"
      "contents blk fs' w = put_at (nat (uio_offset u)) (take m (iov_buf u)) (contents blk fs w)"
      "sfi_size (inode_of fs' w) = max (sfi_size (inode_of fs w)) (nat (uio_offset u) + m)" "m = 0 \<or> nat (uio_offset u) + m \<le> MAXFILE"
      "case r of Inr _ \<Rightarrow> m = uio_resid u
      | Inl e \<Rightarrow> stop_at u (uio_resid u) m \<and> ((e = ENOSPC \<and> used_blocks fs' = {0..<b_nbits (sfs_freemap fs')}) \<or>
          (e = EINVAL \<and> MAXFILE < nat (uio_offset u) + uio_resid u))"
    using io_write [OF volume_ok [OF v sw] u(1-3) sz31] by blast
  note f = file_step_volume [OF v sw wd r(3)]
  have lm: "length (take m (iov_buf u)) = m" using r(1) u(2) by (simp add: uio_fits_def)
  have "file_data (blk (sfs_device fs')) (inode_of fs' w) = take m (contents blk fs' w)"
    using r(5) sz u(4) by (simp add: file_data_def contents_def)
  also have "\<dots> = take m (iov_buf u)" unfolding r(4) u(4) put_at_def using lm by simp
  finally have "volume blk good n fs' d (put_file blk fs d w (take m (iov_buf u)) F)" using f(1) by simp
  moreover have "m \<le> MAXFILE" using r(6) u(4) by auto
  moreover have "case r of Inr _ \<Rightarrow> m = uio_resid u | Inl e \<Rightarrow> e = ENOSPC \<or> e = EINVAL \<and> MAXFILE < uio_resid u"
    using r(7) u(4) by (cases r) auto
  ultimately show ?thesis using r(1,2) u(1) f(3) [of name] nm stable_io [OF r(2)] by (simp add: sfs_write_def) blast
qed

lemma read_volume:
  assumes v: "volume blk good n fs d F" and nm: "named_by blk fs d name w" and data: "F name = Some bs"
    and sz: "length bs < MAXFILE" and u: "uio_rw u = UIO_READ" "uio_fits (uio_resid u) u" "uio_safe u"
  shows "\<exists>fs'. sfs_read dio w (fs, u) = Some (Inr (), fs', uio_moved (take (uio_resid u) (drop (nat (uio_offset u)) bs)) u)"
proof -
  obtain sw where sw: "sv_mem fs w = Some sw" "F name = Some (file_data (blk (sfs_device fs)) (sv_i sw))" using named_file [OF v nm] by blast
  then have bs: "bs = take (sfi_size (inode_of fs w)) (contents blk fs w)" using data by (simp add: file_data_def contents_def inode_of_def)
  then have "sfi_size (inode_of fs w) \<le> MAXFILE" using sz contents_length [OF volume_ok [OF v sw(1)]] by (simp split: if_splits)
  then show ?thesis using io_read [OF volume_ok [OF v sw(1)] u] u(1) bs by (auto simp: sfs_read_def)
qed

text \<open>Closing: the open is counted off, the inode written back after the last one, and a reference given up.\<close>

lemma decopen_volume:
  assumes v: "volume blk good n fs d F" and nm: "named_by blk fs d name w" and c: "counts fs w = Some (rc, oc, i)" "0 < oc"
  shows "\<exists>fs'. vnode_decopen dio w fs = Some fs' \<and> volume blk good n fs' d F \<and> named_by blk fs' d name w \<and>
    counts fs' = (counts fs)(w \<mapsto> (rc, oc - 1, i)) \<and> sfs_sb fs' = sfs_sb fs"
proof -
  let ?f = "\<lambda>sv :: sfs_vnode. sv\<lparr>vn_opencount := vn_opencount sv - 1\<rparr>" and ?fs1 = "upd_sv w (\<lambda>sv. sv\<lparr>vn_opencount := vn_opencount sv - 1\<rparr>) fs"
  obtain sw where sw: "sv_mem fs w = Some sw" "0 < vn_refcount sw" and wd: "w \<noteq> d" using named_file [OF v nm] nm by (metis named_by_def)
  have oc: "vn_opencount sw = oc" "vn_refcount sw = rc" "sv_ino sw = i" using c(1) sw(1) by (simp_all add: counts_def)
  have v1: "volume blk good n ?fs1 d F" using sw by (intro volume_upd_counts [OF v sw(1)]) simp_all
  have n1: "named_by blk ?fs1 d name w" using nm named_upd [OF sw(1), of ?f] by simp
  have c1: "counts ?fs1 = (counts fs)(w \<mapsto> (rc, oc - 1, i))" using sw(1) oc by (auto simp: counts_def upd_sv_def fun_eq_iff)
  have sb1: "sfs_sb ?fs1 = sfs_sb fs" by (simp add: upd_sv_def)
  show ?thesis
  proof (cases "oc - 1 > 0")
    case True
    then show ?thesis using sw(1) oc v1 n1 c1 sb1 c(2) by (simp add: vnode_decopen_def Let_def)
  next
    case False
    have sw1: "sv_mem ?fs1 w = Some (?f sw)" using sw(1) by (simp add: upd_sv_def)
    obtain fs2 where s: "sfs_sync_inode dio w ?fs1 = Some (Inr (), fs2)" "file_step blk good n w ?fs1 fs2"
        "sv_mem fs2 w = Some ((?f sw)\<lparr>sv_dirty := False\<rparr>)" "contents blk fs2 w = contents blk ?fs1 w"
      using sync_inode_ok [OF volume_ok [OF v1 sw1] sw1] by blast
    have "file_data (blk (sfs_device fs2)) (inode_of fs2 w) = file_data (blk (sfs_device ?fs1)) (sv_i (?f sw))"
      using s(3,4) sw1 by (simp add: file_data_def contents_def inode_of_def)
    then have "volume blk good n fs2 d F"
      using file_step_volume(1) [OF v1 sw1 wd s(2)] put_file_same [OF v1 sw1 wd] by simp
    moreover have "named_by blk fs2 d name w" using file_step_volume(3) [OF v1 sw1 wd s(2)] n1 by simp
    moreover have "counts fs2 = (counts fs)(w \<mapsto> (rc, oc - 1, i))" "sfs_sb fs2 = sfs_sb fs"
      using stable_sync_inode [OF s(1)] c1 sb1 by (simp_all add: stable_def)
    moreover have "vnode_decopen dio w fs = Some fs2"
      using sw(1) oc c(2) False s(1) by (simp add: vnode_decopen_def Let_def sfs_close_def sfs_fsync_def)
    ultimately show ?thesis by blast
  qed
qed

lemma close_volume:
  assumes v: "volume blk good n fs d F" and nm: "named_by blk fs d name w" and o: "opens_ok fs" and c: "counts fs w = Some (rc, oc, i)" "0 < oc"
  shows "\<exists>fs1 fs2. vnode_decopen dio w fs = Some fs1 \<and> vnode_decref dio w fs1 = Some fs2 \<and> volume blk good n fs2 d F \<and>
    counts fs2 d = counts fs d \<and> opens_ok fs2 \<and> sfs_sb fs2 = sfs_sb fs \<and> dom (sv_mem fs2) \<subseteq> dom (sv_mem fs)"
proof -
  obtain fs1 where f1: "vnode_decopen dio w fs = Some fs1" "volume blk good n fs1 d F" "named_by blk fs1 d name w"
      "counts fs1 = (counts fs)(w \<mapsto> (rc, oc - 1, i))" "sfs_sb fs1 = sfs_sb fs"
    using decopen_volume [OF v nm c] by blast
  obtain sw where sw: "sv_mem fs1 w = Some sw" "sv_ino sw \<noteq> SFS_ROOT_LOCATION" using named_file [OF f1(2,3)] by blast
  have wd: "w \<noteq> d" using nm by (simp add: named_by_def)
  have oc: "oc \<le> rc" using o c(1) unfolding opens_ok_def by blast
  have cw: "counts fs1 w = Some (rc, oc - 1, i)" using f1(4) by simp
  then have sc: "vn_refcount sw = rc" "vn_opencount sw = oc - 1" using sw(1) by (simp_all add: counts_def)
  obtain I M where vt: "vol blk good n I fs1" "tree blk I M fs1 d" "F = files (blk (sfs_device fs1)) I M"
    using f1(2) by (auto simp: volume_def)
  have "vn_refcount sw = 1 \<longrightarrow> vn_opencount sw = 0" using sc oc c(2) by simp
  then obtain fs2 where f2: "vnode_decref dio w fs1 = Some fs2" "volume blk good n fs2 d F"
    using decref_volume [OF vt(1,2) wd sw] vt(3) by blast
  note st = decref_stable [OF f2(1)]
  have o1: "opens_ok fs1" using o c oc f1(4) unfolding opens_ok_def by (auto split: if_splits)
  have "opens_ok fs2" using decref_opens [OF f2(1) o1 cw] oc c(2) by simp
  moreover have "counts fs2 d = counts fs d" "sfs_sb fs2 = sfs_sb fs" using st f1(4,5) wd by (simp_all add: stable_but_def)
  moreover have "dom (counts fs2) \<subseteq> dom (counts fs)"
    using st f1(4) c(1) unfolding stable_but_def by (auto simp del: dom_counts split: if_splits)
  ultimately show ?thesis using f1(1) f2 by auto
qed

end

section \<open>Opening a path\<close>

text \<open>
  The file system with \<open>fs'\<close> in place of \<open>fs\<close>: the root directory has the references it had, every open holds one, and new
  vnodes are only where memory has been allocated.
\<close>

definition vfs_step :: "vmem \<Rightarrow> nat \<Rightarrow> 'd sfs_fs \<Rightarrow> 'd sfs_fs \<Rightarrow> bool" where
  "vfs_step vm d fs fs' \<longleftrightarrow> counts fs' d = counts fs d \<and> opens_ok fs' \<and> sfs_sb fs' = sfs_sb fs \<and>
     dom (sv_mem fs') \<subseteq> dom (sv_mem fs) \<union> set_option (fst vm)"

text \<open>The vnode \<open>w\<close> is that of the file under the name, and has a reference that is not for an open.\<close>

definition found :: "('d \<Rightarrow> nat \<Rightarrow> bytes) \<Rightarrow> 'd sfs_fs \<Rightarrow> nat \<Rightarrow> bytes \<Rightarrow> nat \<Rightarrow> bool" where
  "found blk fs d name w \<longleftrightarrow> named_by blk fs d name w \<and> spare fs w"

text \<open>The files after a successful open: \<open>O_TRUNC\<close> empties the file under all its names, and a name that is new has an empty file.\<close>

definition open_files :: "int \<Rightarrow> bytes \<Rightarrow> (bytes \<Rightarrow> bool) \<Rightarrow> (bytes \<Rightarrow> bytes option) \<Rightarrow> bytes \<Rightarrow> bytes option" where
  "open_files fl name same F =
     (if fl AND O_TRUNC \<noteq> 0 then (\<lambda>nm. if same nm then Some [] else F nm) else if name \<in> dom F then F else F(name \<mapsto> []))"

lemma inc_ref_dom [simp]: "dom (sv_mem (inc_ref d fs)) = dom (sv_mem fs)"
  by (auto simp: inc_ref_def upd_sv_def)

lemma inc_ref_opens: "opens_ok fs \<Longrightarrow> opens_ok (inc_ref d fs)"
  by (fastforce simp: opens_ok_def counts_def inc_ref_def upd_sv_def split: if_splits)

lemma dec_ref_dom [simp]: "dom (sv_mem (dec_ref d fs)) = dom (sv_mem fs)"
  by (auto simp: dec_ref_def upd_sv_def)

text \<open>An operation that has been given an extra reference to the root directory, after that is given back.\<close>

lemma step_back:
  assumes v: "volume blk good n fs d F" and o: "opens_ok fs" and v': "volume blk good n fs1 d F'" and c: "counts fs1 d = counts (inc_ref d fs) d"
    and sb: "sfs_sb fs1 = sfs_sb (inc_ref d fs)" and l: "loads vm (inc_ref d fs) fs1"
  shows "vfs_step vm d fs (dec_ref d fs1)" and "volume blk good n (dec_ref d fs1) d F'" and "found blk fs1 d name w \<Longrightarrow> found blk (dec_ref d fs1) d name w"
proof -
  note b = dec_ref_back [OF v' c v]
  obtain sd where sd: "sv_mem fs1 d = Some sd" using v' by (rule volume_root)
  have other: "counts (dec_ref d fs1) x = counts fs1 x" if "x \<noteq> d" for x using that by (simp add: counts_def dec_ref_def upd_sv_def)
  have "opens_ok (dec_ref d fs1)" unfolding opens_ok_def using other b(3) l o unfolding loads_def opens_ok_def by metis
  moreover have "dom (sv_mem fs1) \<subseteq> dom (sv_mem fs) \<union> set_option (fst vm)" using l by (simp add: loads_def)
  moreover have "sfs_sb (dec_ref d fs1) = sfs_sb fs" using sb by (simp add: dec_ref_def inc_ref_def upd_sv_def)
  ultimately show "vfs_step vm d fs (dec_ref d fs1)" using b(3) by (simp add: vfs_step_def)
  show "volume blk good n (dec_ref d fs1) d F'" by (rule b(2))
  show "found blk (dec_ref d fs1) d name w" if "found blk fs1 d name w"
  proof -
    have "w \<noteq> d" using that by (simp add: found_def named_by_def)
    then have "spare (dec_ref d fs1) w" using that other by (simp add: found_def spare_def)
    moreover have "named_by blk (dec_ref d fs1) d name w" using that named_upd [OF sd] by (simp add: found_def dec_ref_def)
    ultimately show ?thesis by (simp add: found_def)
  qed
qed

context working_disk
begin

abbreviation names :: "'h lhd_softc sfs_fs \<Rightarrow> nat \<Rightarrow> bytes \<Rightarrow> nat \<Rightarrow> bool" where
  "names \<equiv> found (lhd_blk sect)"

lemma vfs_lookup_on:
  assumes ok: "vfs_ok s" and g: "fs_get f s = Some fs" and v: "vol_at fs d F" and o: "opens_ok fs" and p: "path_on s path f d name" "name \<noteq> []"
    and fresh: "fresh_mem (fst (vm 1)) fs"
  shows "\<exists>r fs'. vfs_lookup hw vm path s = Some (map_sum id (SfsVnode f) r, fs_put f fs' s) \<and> vfs_step (vm 1) d fs fs' \<and> vol_at fs' d F \<and>
    (case r of Inl e \<Rightarrow> e = ENOENT \<and> name \<notin> dom F \<or> e = ENOMEM \<and> name \<in> dom F | Inr w \<Rightarrow> names fs' d name w \<and> name \<in> dom F)"
proof -
  have g1: "fs_get f (fs_put f x s) = Some x" for x using g by simp
  obtain mem okinit km where vm: "vm 1 = (mem, okinit, km)" by (cases "vm 1")
  note v1 = inc_ref_volume [OF v]
  have fr: "fresh_mem mem (inc_ref d fs)" using fresh vm by (simp add: fresh_mem_def)
  obtain r fs1 where lk: "sfs_lookup (lhd_io hw) (mem, okinit, km) d name (inc_ref d fs) = Some (r, fs1)" "vol_at fs1 d F"
      "case r of Inl e \<Rightarrow> e = ENOENT \<and> F name = None \<or> e = ENOMEM \<and> F name \<noteq> None
       | Inr w \<Rightarrow> named_by (lhd_blk sect) fs1 d name w \<and> F name = Some (file_data (lhd_blk sect (sfs_device fs1)) (inode_of fs1 w))"
    using lookup_ok [OF v1 fr, of okinit km name] by blast
  have md: "mem \<noteq> Some d" using fr volume_dom [OF v1] by (auto simp: fresh_mem_def)
  have "w \<noteq> d" if "r = Inr w" for w using lk(3) that by (simp add: named_by_def)
  then have c: "counts fs1 d = counts (inc_ref d fs) d" "sfs_sb fs1 = sfs_sb (inc_ref d fs)" using lookup_counts [OF lk(1) md] by blast+
  note l = lookup_loads [OF lk(1) inc_ref_opens [OF o]]
  note b = step_back [OF v o lk(2) c l(1)]
  obtain sd where sd: "sv_mem (inc_ref d fs) d = Some sd" "sfi_type (sv_i sd) = SFS_TYPE_DIR" using inc_ref_root [OF v] by blast
  have "VOP_LOOKUP hw (vm 1) (SfsVnode f d) name (fs_put f (inc_ref d fs) s) = Some (map_sum id (SfsVnode f) r, fs_put f fs1 s)"
    using lk(1) vm by (cases r) (simp_all add: dir_call_dir [OF g1 sd])
  moreover have "VOP_DECREF hw (SfsVnode f d) (fs_put f fs1 s) = Some (fs_put f (dec_ref d fs1) s)"
    using vop_decref_root [OF g1 lk(2) c(1) v] by simp
  ultimately have "vfs_lookup hw vm path s = Some (map_sum id (SfsVnode f) r, fs_put f (dec_ref d fs1) s)"
    using getdevice_on [OF ok g v p(1), of "vm 0"] p(2) by (simp add: vfs_lookup_def)
  moreover have "names (dec_ref d fs1) d name w \<and> name \<in> dom F" if "r = Inr w" for w
    using b(3) [of name w] l(2) [OF that] lk(3) that by (auto simp: found_def)
  ultimately show ?thesis using b(1,2) lk(3) vm
    by (intro exI [of _ r] exI [of _ "dec_ref d fs1"]) (cases r; auto)
qed

lemma vfs_creat_on:
  assumes ok: "vfs_ok s" and g: "fs_get f s = Some fs" and v: "vol_at fs d F" and o: "opens_ok fs" and p: "path_on s path f d name" "name \<noteq> []"
    and fresh: "fresh_mem (fst (vm 1)) fs" and nok: "name_ok name"
  shows "\<exists>r fs' F'. try_k (vfs_lookparent hw (vm 0) path (NAME_MAX + 1) s) (\<lambda>(dir, name) s1. do {
               (r, s2) \<leftarrow> VOP_CREAT hw (vm 1) dir name excl s1;
               s3 \<leftarrow> VOP_DECREF hw dir s2;
               Some (r, s3) }) = Some (map_sum id (SfsVnode f) r, fs_put f fs' s) \<and> vfs_step (vm 1) d fs fs' \<and> vol_at fs' d F' \<and>
    (case r of Inl e \<Rightarrow> F' = F \<and> (e = EEXIST \<and> excl \<and> name \<in> dom F \<or> e = ENAMETOOLONG \<or> e = ENOMEM \<or> e = ENOSPC \<or> e = EINVAL)
     | Inr w \<Rightarrow> names fs' d name w \<and> \<not> (excl \<and> name \<in> dom F) \<and> F' = (if name \<in> dom F then F else F(name \<mapsto> [])))"
proof -
  note lp = lookparent_on [OF ok g v p(1), of "vm 0"]
  have g1: "fs_get f (fs_put f x s) = Some x" for x using g by simp
  show ?thesis
  proof (cases "NAME_MAX < length name")
    case True
    have "vfs_step (vm 1) d fs fs" using o by (simp add: vfs_step_def)
    then show ?thesis using lp p(2) True v by (intro exI [of _ "Inl ENAMETOOLONG"] exI [of _ fs] exI [of _ F]) simp
  next
    case False
    obtain mem okinit km where vm: "vm 1 = (mem, okinit, km)" by (cases "vm 1")
    note v1 = inc_ref_volume [OF v]
    have fr: "fresh_mem mem (inc_ref d fs)" using fresh vm by (simp add: fresh_mem_def)
    obtain r fs1 where cr: "sfs_creat (lhd_io hw) (mem, okinit, km) d name excl (inc_ref d fs) = Some (r, fs1)"
        "case r of
           Inr w \<Rightarrow> named_by (lhd_blk sect) fs1 d name w \<and> \<not> (excl \<and> name \<in> dom F) \<and> vol_at fs1 d (if name \<in> dom F then F else F(name \<mapsto> []))
         | Inl e \<Rightarrow> vol_at fs1 d F \<and> (e = EEXIST \<and> excl \<and> name \<in> dom F \<or> e = ENAMETOOLONG \<and> SFS_NAMELEN \<le> length name \<or>
             e = ENOMEM \<or> e = ENOSPC \<or> e = EINVAL)"
      using creat_ok [OF v1 fr nok, of okinit km excl] by blast
    have md: "mem \<noteq> Some d" using fr volume_dom [OF v1] by (auto simp: fresh_mem_def)
    have "w \<noteq> d" if "r = Inr w" for w using cr(2) that by (simp add: named_by_def)
    then have c: "counts fs1 d = counts (inc_ref d fs) d" "sfs_sb fs1 = sfs_sb (inc_ref d fs)"
      using creat_counts [OF cr(1) volume_held [OF v1] md] by blast+
    note l = creat_loads [OF cr(1) inc_ref_opens [OF o]]
    define F' where "F' = (case r of Inl _ \<Rightarrow> F | Inr _ \<Rightarrow> if name \<in> dom F then F else F(name \<mapsto> []))"
    have v': "vol_at fs1 d F'" using cr(2) by (cases r) (auto simp: F'_def)
    note b = step_back [OF v o v' c l(1)]
    obtain sd where sd: "sv_mem (inc_ref d fs) d = Some sd" "sfi_type (sv_i sd) = SFS_TYPE_DIR" using inc_ref_root [OF v] by blast
    have "VOP_CREAT hw (vm 1) (SfsVnode f d) name excl (fs_put f (inc_ref d fs) s) = Some (map_sum id (SfsVnode f) r, fs_put f fs1 s)"
      using cr(1) vm by (cases r) (simp_all add: dir_call_dir [OF g1 sd])
    moreover have "VOP_DECREF hw (SfsVnode f d) (fs_put f fs1 s) = Some (fs_put f (dec_ref d fs1) s)"
      using vop_decref_root [OF g1 v' c(1) v] by simp
    moreover have "names (dec_ref d fs1) d name w" if "r = Inr w" for w
      using b(3) [of name w] l(2) [OF that] cr(2) that by (auto simp: found_def)
    ultimately show ?thesis using lp p(2) False b(1,2) cr(2) vm
      by (intro exI [of _ r] exI [of _ "dec_ref d fs1"] exI [of _ F']) (cases r; auto simp: F'_def)
  qed
qed

text \<open>From the vnode on: the open is counted, and \<open>O_TRUNC\<close> empties the file.\<close>

lemma open_vnode_on:
  assumes g: "fs_get f s = Some fs" and v: "vol_at fs d F" and o: "opens_ok fs" and w: "names fs d name w"
    and fl: "fl AND O_APPEND = 0" "fl AND O_TRUNC = 0 \<or> fl AND O_ACCMODE \<noteq> O_RDONLY"
  shows "\<exists>fs' rc oc i. open_vnode hw fl (SfsVnode f w) s = Some (Inr (SfsVnode f w), fs_put f fs' s) \<and>
    vol_at fs' d (if fl AND O_TRUNC = 0 then F else put_file (lhd_blk sect) fs d w [] F) \<and>
    (\<forall>nm. named_by (lhd_blk sect) fs' d nm w \<longleftrightarrow> named_by (lhd_blk sect) fs d nm w) \<and>
    opens_ok fs' \<and> counts fs' d = counts fs d \<and> counts fs' w = Some (rc, oc, i) \<and> 0 < oc \<and> sfs_sb fs' = sfs_sb fs \<and>
    dom (sv_mem fs') = dom (sv_mem fs)"
proof -
  let ?f = "\<lambda>sv :: sfs_vnode. sv\<lparr>vn_opencount := vn_opencount sv + 1\<rparr>" and ?fs1 = "upd_sv w (\<lambda>sv. sv\<lparr>vn_opencount := vn_opencount sv + 1\<rparr>) fs"
  have g1: "fs_get f (fs_put f x s) = Some x" for x using g by simp
  have nm: "named_by (lhd_blk sect) fs d name w" and wd: "w \<noteq> d" using w by (simp_all add: found_def named_by_def)
  obtain sw where sw: "sv_mem fs w = Some sw" "sfi_type (sv_i sw) = SFS_TYPE_FILE" "0 < vn_refcount sw" using named_file [OF v nm] by blast
  obtain rc oc i where c: "counts fs w = Some (rc, oc, i)" "0 \<le> oc" "oc < rc" using w by (auto simp: found_def spare_def)
  have v1: "vol_at ?fs1 d F" using sw by (intro volume_upd_counts [OF v sw(1)]) simp_all
  have n1: "named_by (lhd_blk sect) ?fs1 d nm w \<longleftrightarrow> named_by (lhd_blk sect) fs d nm w" for nm using named_upd [OF sw(1), of ?f] by simp
  then have n1': "named_by (lhd_blk sect) ?fs1 d name w" using nm by simp
  have sc: "vn_refcount sw = rc" "vn_opencount sw = oc" "sv_ino sw = i" using c(1) sw(1) by (simp_all add: counts_def)
  have c1: "counts ?fs1 = (counts fs)(w \<mapsto> (rc, oc + 1, i))"
    using sw(1) sc by (auto simp: counts_def upd_sv_def fun_eq_iff)
  have o1: "opens_ok ?fs1" using o c unfolding opens_ok_def c1 by auto
  have dom1: "dom (sv_mem ?fs1) = dom (sv_mem fs)" and sb1: "sfs_sb ?fs1 = sfs_sb fs" using sw(1) by (auto simp: upd_sv_def)
  have isdir: "sfs_isdirv w x = Some False" if "sv_mem x w = Some y" "sv_i y = sv_i sw" for x y
    using that sw(2) by (simp add: sfs_isdirv_def)
  have op: "VOP_OPEN (SfsVnode f w) fl s = Some (Inr (), fs_put f fs s)"
    using g isdir [OF sw(1) refl] fl(1) by (simp add: fs_call_def sfs_open_def)
  have inc: "VOP_INCOPEN (SfsVnode f w) (fs_put f fs s) = Some (fs_put f ?fs1 s)"
    using g1 sw(1) by (simp add: fs_upd_def vnode_incopen_def)
  show ?thesis
  proof (cases "fl AND O_TRUNC = 0")
    case True
    then have "open_vnode hw fl (SfsVnode f w) s = Some (Inr (SfsVnode f w), fs_put f ?fs1 s)"
      using op inc by (simp add: open_vnode_def)
    then show ?thesis using True v1 n1 o1 c1 c(2) wd dom1 sb1 by (intro exI [of _ ?fs1]) simp
  next
    case False
    obtain fs2 where t: "sfs_truncate (lhd_io hw) w 0 ?fs1 = Some (Inr (), fs2)" "vol_at fs2 d (put_file (lhd_blk sect) ?fs1 d w [] F)"
        "\<forall>nm. named_by (lhd_blk sect) fs2 d nm w \<longleftrightarrow> named_by (lhd_blk sect) ?fs1 d nm w" "stable ?fs1 fs2"
      using truncate_volume [OF v1 n1'] by blast
    have sw1: "sv_mem ?fs1 w = Some (?f sw)" using sw(1) by (simp add: upd_sv_def)
    have pf: "put_file (lhd_blk sect) ?fs1 d w [] F = put_file (lhd_blk sect) fs d w [] F"
      using sw1 sw(1) dir_entries_upd [of fs w sw ?f, OF sw(1)] by (simp add: put_file_def fun_eq_iff)
    have "VOP_TRUNCATE hw (SfsVnode f w) 0 (fs_put f ?fs1 s) = Some (Inr (), fs_put f fs2 s)"
      using g1 isdir [OF sw1] t(1) by (simp add: fs_call_def)
    then have "open_vnode hw fl (SfsVnode f w) s = Some (Inr (SfsVnode f w), fs_put f fs2 s)"
      using op inc False fl(2) by (simp add: open_vnode_def)
    moreover have "counts fs2 = counts ?fs1" "sfs_sb fs2 = sfs_sb fs" using t(4) sb1 by (simp_all add: stable_def)
    moreover have "dom (sv_mem fs2) = dom (sv_mem fs)" using \<open>counts fs2 = counts ?fs1\<close> dom1 by (metis dom_counts)
    ultimately show ?thesis using False t(2,3) n1 pf opens_stable [OF t(4) o1] c1 c(2) wd by (intro exI [of _ fs2]) simp
  qed
qed

text \<open>\<open>vfs_open\<close>.\<close>

lemma vfs_open_on:
  assumes ok: "vfs_ok s" and g: "fs_get f s = Some fs" and v: "vol_at fs d F" and o: "opens_ok fs" and p: "path_on s path f d name" "name \<noteq> []"
    and fresh: "fresh_mem (fst (vm 1)) fs" and nok: "name_ok name"
    and fl: "fl AND O_ACCMODE \<in> {O_RDONLY, O_WRONLY, O_RDWR}" "fl AND O_APPEND = 0" "fl AND O_TRUNC = 0 \<or> fl AND O_ACCMODE \<noteq> O_RDONLY"
  shows "\<exists>r fs' F'. vfs_open hw vm path fl s = Some (map_sum id (SfsVnode f) r, fs_put f fs' s) \<and> vfs_step (vm 1) d fs fs' \<and> vol_at fs' d F' \<and>
    (case r of
       Inl e \<Rightarrow> F' = F \<and> (e = ENOENT \<and> fl AND O_CREAT = 0 \<and> name \<notin> dom F \<or> e = EEXIST \<and> fl AND O_EXCL \<noteq> 0 \<and> name \<in> dom F \<or>
         e = ENOMEM \<or> fl AND O_CREAT \<noteq> 0 \<and> e \<in> {ENAMETOOLONG, ENOSPC, EINVAL})
     | Inr w \<Rightarrow> named_by (lhd_blk sect) fs' d name w \<and> (\<exists>rc oc i. counts fs' w = Some (rc, oc, i) \<and> 0 < oc) \<and>
         (fl AND O_CREAT \<noteq> 0 \<or> name \<in> dom F) \<and> \<not> (fl AND O_CREAT \<noteq> 0 \<and> fl AND O_EXCL \<noteq> 0 \<and> name \<in> dom F) \<and>
         F' = open_files fl name (\<lambda>nm. named_by (lhd_blk sect) fs' d nm w) F)"
proof -
  let ?find = "if fl AND O_CREAT \<noteq> 0 then
      try_k (vfs_lookparent hw (vm 0) path (NAME_MAX + 1) s) (\<lambda>(dir, name) s1. do {
        (r, s2) \<leftarrow> VOP_CREAT hw (vm 1) dir name (fl AND O_EXCL \<noteq> 0) s1;
        s3 \<leftarrow> VOP_DECREF hw dir s2;
        Some (r, s3) })
    else vfs_lookup hw vm path s"
  have run: "vfs_open hw vm path fl s = try_k ?find (open_vnode hw fl)" using fl(1) by (simp add: vfs_open_def)
  have g1: "fs_get f (fs_put f x s) = Some x" for x using g by simp
  have "\<exists>r fs1 F1. ?find = Some (map_sum id (SfsVnode f) r, fs_put f fs1 s) \<and> vfs_step (vm 1) d fs fs1 \<and> vol_at fs1 d F1 \<and>
    (case r of
       Inl e \<Rightarrow> F1 = F \<and> (e = ENOENT \<and> fl AND O_CREAT = 0 \<and> name \<notin> dom F \<or> e = EEXIST \<and> fl AND O_EXCL \<noteq> 0 \<and> name \<in> dom F \<or>
         e = ENOMEM \<or> fl AND O_CREAT \<noteq> 0 \<and> e \<in> {ENAMETOOLONG, ENOSPC, EINVAL})
     | Inr w \<Rightarrow> names fs1 d name w \<and> (fl AND O_CREAT \<noteq> 0 \<or> name \<in> dom F) \<and> \<not> (fl AND O_CREAT \<noteq> 0 \<and> fl AND O_EXCL \<noteq> 0 \<and> name \<in> dom F) \<and>
         F1 = (if name \<in> dom F then F else F(name \<mapsto> [])))"
  proof (cases "fl AND O_CREAT = 0")
    case True
    obtain r fs1 where l: "vfs_lookup hw vm path s = Some (map_sum id (SfsVnode f) r, fs_put f fs1 s)" "vfs_step (vm 1) d fs fs1" "vol_at fs1 d F"
        "case r of Inl e \<Rightarrow> e = ENOENT \<and> name \<notin> dom F \<or> e = ENOMEM \<and> name \<in> dom F | Inr w \<Rightarrow> names fs1 d name w \<and> name \<in> dom F"
      using vfs_lookup_on [OF ok g v o p, of vm] fresh by blast
    then show ?thesis using True by (intro exI [of _ r] exI [of _ fs1] exI [of _ F]) (cases r; auto)
  next
    case False
    obtain r fs1 F1 where l: "try_k (vfs_lookparent hw (vm 0) path (NAME_MAX + 1) s) (\<lambda>(dir, name) s1. do {
        (r, s2) \<leftarrow> VOP_CREAT hw (vm 1) dir name (fl AND O_EXCL \<noteq> 0) s1;
        s3 \<leftarrow> VOP_DECREF hw dir s2;
        Some (r, s3) }) = Some (map_sum id (SfsVnode f) r, fs_put f fs1 s)" "vfs_step (vm 1) d fs fs1" "vol_at fs1 d F1"
        "case r of Inl e \<Rightarrow> F1 = F \<and> (e = EEXIST \<and> fl AND O_EXCL \<noteq> 0 \<and> name \<in> dom F \<or> e = ENAMETOOLONG \<or> e = ENOMEM \<or> e = ENOSPC \<or> e = EINVAL)
         | Inr w \<Rightarrow> names fs1 d name w \<and> \<not> (fl AND O_EXCL \<noteq> 0 \<and> name \<in> dom F) \<and> F1 = (if name \<in> dom F then F else F(name \<mapsto> []))"
      using vfs_creat_on [where vm = vm, OF ok g v o p fresh nok, of "fl AND O_EXCL \<noteq> 0"] by (elim exE conjE) (rule that)
    then show ?thesis using False by (intro exI [of _ r] exI [of _ fs1] exI [of _ F1]) (cases r; auto)
  qed
  then obtain r fs1 F1 where f: "?find = Some (map_sum id (SfsVnode f) r, fs_put f fs1 s)" and st: "vfs_step (vm 1) d fs fs1" "vol_at fs1 d F1"
    and r: "case r of
       Inl e \<Rightarrow> F1 = F \<and> (e = ENOENT \<and> fl AND O_CREAT = 0 \<and> name \<notin> dom F \<or> e = EEXIST \<and> fl AND O_EXCL \<noteq> 0 \<and> name \<in> dom F \<or>
         e = ENOMEM \<or> fl AND O_CREAT \<noteq> 0 \<and> e \<in> {ENAMETOOLONG, ENOSPC, EINVAL})
     | Inr w \<Rightarrow> names fs1 d name w \<and> (fl AND O_CREAT \<noteq> 0 \<or> name \<in> dom F) \<and> \<not> (fl AND O_CREAT \<noteq> 0 \<and> fl AND O_EXCL \<noteq> 0 \<and> name \<in> dom F) \<and>
         F1 = (if name \<in> dom F then F else F(name \<mapsto> []))"
    by (elim exE conjE) (rule that)
  show ?thesis
  proof (cases r)
    case (Inl e)
    then have "vfs_open hw vm path fl s = Some (Inl e, fs_put f fs1 s)" unfolding run f by simp
    then show ?thesis using Inl r st by (intro exI [of _ r] exI [of _ fs1] exI [of _ F1]) simp
  next
    case (Inr w)
    then have w: "names fs1 d name w" "F1 = (if name \<in> dom F then F else F(name \<mapsto> []))" using r by simp_all
    have o1: "opens_ok fs1" using st(1) by (simp add: vfs_step_def)
    obtain fs2 rc oc i where op: "open_vnode hw fl (SfsVnode f w) (fs_put f fs1 s) = Some (Inr (SfsVnode f w), fs_put f fs2 s)"
        "vol_at fs2 d (if fl AND O_TRUNC = 0 then F1 else put_file (lhd_blk sect) fs1 d w [] F1)"
        "\<forall>nm. named_by (lhd_blk sect) fs2 d nm w \<longleftrightarrow> named_by (lhd_blk sect) fs1 d nm w"
        "opens_ok fs2" "counts fs2 d = counts fs1 d" "counts fs2 w = Some (rc, oc, i)" "0 < oc" "dom (sv_mem fs2) = dom (sv_mem fs1)" "sfs_sb fs2 = sfs_sb fs1"
      using open_vnode_on [OF g1 st(2) o1 w(1) fl(2,3)] by auto
    have nm: "named_by (lhd_blk sect) fs1 d name w" using w(1) by (simp add: found_def)
    then have pf: "put_file (lhd_blk sect) fs1 d w [] F1 nm' = (if named_by (lhd_blk sect) fs1 d nm' w then Some [] else F1 nm')" for nm'
      by (auto simp: put_file_def named_by_def)
    have "(if fl AND O_TRUNC = 0 then F1 else put_file (lhd_blk sect) fs1 d w [] F1) = open_files fl name (\<lambda>nm. named_by (lhd_blk sect) fs2 d nm w) F"
      using op(3) nm w(2) by (auto simp: open_files_def pf fun_eq_iff)
    moreover have "vfs_open hw vm path fl s = Some (Inr (SfsVnode f w), fs_put f fs2 s)" unfolding run f using Inr op(1) by simp
    moreover have "vfs_step (vm 1) d fs fs2" using st(1) op(4,5,8,9) by (simp add: vfs_step_def)
    ultimately show ?thesis using Inr r op(2,3,6,7) nm
      by (intro exI [of _ r] exI [of _ fs2] exI [of _ "open_files fl name (\<lambda>nm. named_by (lhd_blk sect) fs2 d nm w) F"]) simp
  qed
qed

text \<open>\<open>vfs_close\<close> of an open file.\<close>

lemma vfs_close_on:
  assumes g: "fs_get f s = Some fs" and v: "vol_at fs d F" and o: "opens_ok fs" and nm: "named_by (lhd_blk sect) fs d name w"
    and c: "counts fs w = Some (rc, oc, i)" "0 < oc"
  shows "\<exists>fs'. vfs_close hw (SfsVnode f w) s = Some (fs_put f fs' s) \<and> vol_at fs' d F \<and> counts fs' d = counts fs d \<and> opens_ok fs' \<and>
    sfs_sb fs' = sfs_sb fs \<and> dom (sv_mem fs') \<subseteq> dom (sv_mem fs)"
proof -
  obtain fs1 fs2 where f: "vnode_decopen (lhd_io hw) w fs = Some fs1" "vnode_decref (lhd_io hw) w fs1 = Some fs2" "vol_at fs2 d F"
      "counts fs2 d = counts fs d" "opens_ok fs2" "sfs_sb fs2 = sfs_sb fs" "dom (sv_mem fs2) \<subseteq> dom (sv_mem fs)"
    using close_volume [OF v nm o c] by blast
  then show ?thesis using g by (intro exI [of _ fs2]) (simp add: vfs_close_def fs_upd_def)
qed

text \<open>Reading and writing.\<close>

lemma fs_io_file:
  assumes g: "fs_get f s = Some fs" and v: "vol_at fs d F" and nm: "named_by (lhd_blk sect) fs d name w"
  shows "fs_io f w act u s = do { (r, fs', u') \<leftarrow> act (fs, u); Some (r, u', fs_put f fs' s) }"
proof -
  obtain sw where "sv_mem fs w = Some sw" "sfi_type (sv_i sw) = SFS_TYPE_FILE" using named_file [OF v nm] by blast
  then show ?thesis using g by (simp add: fs_io_def sfs_isdirv_def)
qed

lemma save_load_on:
  assumes ok: "vfs_ok s" and g: "fs_get f s = Some fs" and v: "vol_at fs d F"
    and o: "opens_ok fs" and p: "path_on s path f d name" "name \<noteq> []" and nok: "name_ok name"
    and fresh: "fresh_mem (fst (vm 1)) fs" "fresh_mem (fst (vm' 1)) fs" "set_option (fst (vm 1)) \<inter> set_option (fst (vm' 1)) = {}"
    and u: "uio_rw u = UIO_WRITE" "uio_fits (uio_resid u) u" "uio_safe u" "uio_offset u = 0" "uio_resid u < MAXFILE"
    and u': "uio_rw u' = UIO_READ" "uio_fits (uio_resid u') u'" "uio_safe u'" "uio_offset u' = 0"
  shows "\<exists>r1 s1. vfs_open hw vm path (O_WRONLY OR O_CREAT OR O_TRUNC) s = Some (r1, s1) \<and>
    (\<forall>v1. r1 = Inr v1 \<longrightarrow> (\<exists>r2 u2 s2 s3. VOP_WRITE hw v1 u s1 = Some (r2, u2, s2) \<and> vfs_close hw v1 s2 = Some s3 \<and>
      (r2 = Inr () \<longrightarrow> (\<exists>r4 s4. vfs_open hw vm' path O_RDONLY s3 = Some (r4, s4) \<and>
        (case r4 of
           Inl e \<Rightarrow> e = ENOMEM
         | Inr v2 \<Rightarrow> \<exists>s5. VOP_READ hw v2 u' s4 =
             Some (Inr (), uio_moved (take (uio_resid u') (take (uio_resid u) (iov_buf u))) u', s5))))))"
proof -
  let ?fl = "O_WRONLY OR O_CREAT OR O_TRUNC"
  have fl: "?fl AND O_ACCMODE \<in> {O_RDONLY, O_WRONLY, O_RDWR}" "?fl AND O_APPEND = 0" "?fl AND O_TRUNC = 0 \<or> ?fl AND O_ACCMODE \<noteq> O_RDONLY" by simp_all
  have g1: "fs_get f (fs_put f x s) = Some x" for x using g by simp
  obtain r1 fs1 F1 where op: "vfs_open hw vm path ?fl s = Some (map_sum id (SfsVnode f) r1, fs_put f fs1 s)" "vfs_step (vm 1) d fs fs1" "vol_at fs1 d F1"
      "case r1 of
       Inl e \<Rightarrow> F1 = F \<and> (e = ENOENT \<and> ?fl AND O_CREAT = 0 \<and> name \<notin> dom F \<or> e = EEXIST \<and> ?fl AND O_EXCL \<noteq> 0 \<and> name \<in> dom F \<or>
         e = ENOMEM \<or> ?fl AND O_CREAT \<noteq> 0 \<and> e \<in> {ENAMETOOLONG, ENOSPC, EINVAL})
     | Inr w \<Rightarrow> named_by (lhd_blk sect) fs1 d name w \<and> (\<exists>rc oc i. counts fs1 w = Some (rc, oc, i) \<and> 0 < oc) \<and>
         (?fl AND O_CREAT \<noteq> 0 \<or> name \<in> dom F) \<and> \<not> (?fl AND O_CREAT \<noteq> 0 \<and> ?fl AND O_EXCL \<noteq> 0 \<and> name \<in> dom F) \<and>
         F1 = open_files ?fl name (\<lambda>nm. named_by (lhd_blk sect) fs1 d nm w) F"
    using vfs_open_on [where vm = vm, OF ok g v o p fresh(1) nok fl] by (elim exE conjE) (rule that)
  note st1 = op(2) [unfolded vfs_step_def]
  show ?thesis
  proof (cases r1)
    case (Inl e)
    then show ?thesis using op(1) by simp
  next
    case (Inr w)
    then obtain rc oc i where w: "named_by (lhd_blk sect) fs1 d name w" "counts fs1 w = Some (rc, oc, i)" "0 < oc"
        "F1 = open_files ?fl name (\<lambda>nm. named_by (lhd_blk sect) fs1 d nm w) F"
      using op(4) by auto
    have F1: "F1 name = Some []" using w(1,4) by (simp add: open_files_def)
    obtain r2 m fs2 where wr: "m \<le> uio_resid u" "sfs_write (lhd_io hw) w (fs1, u) = Some (r2, fs2, uio_moved (take m (iov_buf u)) u)"
        "vol_at fs2 d (put_file (lhd_blk sect) fs1 d w (take m (iov_buf u)) F1)" "named_by (lhd_blk sect) fs2 d name w" "stable fs1 fs2"
        "case r2 of Inr _ \<Rightarrow> m = uio_resid u | Inl e \<Rightarrow> e = ENOSPC \<or> e = EINVAL \<and> MAXFILE < uio_resid u"
      using write_volume [OF op(3) w(1) F1 u(1-4)] by blast
    define F2 where "F2 = put_file (lhd_blk sect) fs1 d w (take m (iov_buf u)) F1"
    have st2: "counts fs2 = counts fs1" "sfs_sb fs2 = sfs_sb fs1" using wr(5) by (simp_all add: stable_def)
    have W: "VOP_WRITE hw (SfsVnode f w) u (fs_put f fs1 s) = Some (r2, uio_moved (take m (iov_buf u)) u, fs_put f fs2 s)"
      using wr(2) by (simp add: fs_io_file [OF g1 op(3) w(1)])
    have o2: "opens_ok fs2" using opens_stable [OF wr(5)] st1 by blast
    obtain fs3 where cl: "vfs_close hw (SfsVnode f w) (fs_put f fs2 s) = Some (fs_put f fs3 s)" "vol_at fs3 d F2" "opens_ok fs3"
        "sfs_sb fs3 = sfs_sb fs2" "dom (sv_mem fs3) \<subseteq> dom (sv_mem fs2)"
      using vfs_close_on [OF g1 wr(3) [folded F2_def] o2 wr(4), of rc oc i] w(2,3) st2(1) by auto
    have sb3: "sfs_sb fs3 = sfs_sb fs" using cl(4) st2(2) st1 by simp
    have "dom (sv_mem fs2) = dom (sv_mem fs1)" using st2(1) by (metis dom_counts)
    then have "dom (sv_mem fs3) \<subseteq> dom (sv_mem fs) \<union> set_option (fst (vm 1))" using cl(5) st1 by blast
    then have fr3: "fresh_mem (fst (vm' 1)) fs3" using fresh(2,3) unfolding fresh_mem_def by (cases "fst (vm' 1)") auto
    have ok3: "vfs_ok (fs_put f fs3 s)" and p3: "path_on (fs_put f fs3 s) path f d name"
      using names_put(2) [OF g sb3] ok path_on_put [OF g sb3] p(1) by simp_all
    have F2: "F2 name = Some (take m (iov_buf u))" using put_file_name [OF w(1)] by (simp add: F2_def)
    have flr: "(0 :: int) AND O_ACCMODE \<in> {O_RDONLY, O_WRONLY, O_RDWR}" "(0 :: int) AND O_APPEND = 0"
        "(0 :: int) AND O_TRUNC = 0 \<or> (0 :: int) AND O_ACCMODE \<noteq> O_RDONLY" by simp_all
    obtain r4 fs4 F4 where op4: "vfs_open hw vm' path 0 (fs_put f fs3 s) = Some (map_sum id (SfsVnode f) r4, fs_put f fs4 (fs_put f fs3 s))" "vol_at fs4 d F4"
        "case r4 of
       Inl e \<Rightarrow> F4 = F2 \<and> (e = ENOENT \<and> (0 :: int) AND O_CREAT = 0 \<and> name \<notin> dom F2 \<or> e = EEXIST \<and> (0 :: int) AND O_EXCL \<noteq> 0 \<and> name \<in> dom F2 \<or>
         e = ENOMEM \<or> (0 :: int) AND O_CREAT \<noteq> 0 \<and> e \<in> {ENAMETOOLONG, ENOSPC, EINVAL})
     | Inr w2 \<Rightarrow> named_by (lhd_blk sect) fs4 d name w2 \<and> (\<exists>rc oc i. counts fs4 w2 = Some (rc, oc, i) \<and> 0 < oc) \<and>
         ((0 :: int) AND O_CREAT \<noteq> 0 \<or> name \<in> dom F2) \<and> \<not> ((0 :: int) AND O_CREAT \<noteq> 0 \<and> (0 :: int) AND O_EXCL \<noteq> 0 \<and> name \<in> dom F2) \<and>
         F4 = open_files 0 name (\<lambda>nm. named_by (lhd_blk sect) fs4 d nm w2) F2"
      using vfs_open_on [where vm = vm', OF ok3 g1 cl(2,3) p3 p(2) fr3 nok flr] by (elim exE conjE) (rule that)
    have rd: "case map_sum id (SfsVnode f) r4 of
         Inl e \<Rightarrow> e = ENOMEM
       | Inr v2 \<Rightarrow> \<exists>s5. VOP_READ hw v2 u' (fs_put f fs4 s) = Some (Inr (), uio_moved (take (uio_resid u') (take m (iov_buf u))) u', s5)"
    proof (cases r4)
      case (Inl e)
      then show ?thesis using op4(3) F2 by auto
    next
      case (Inr w2)
      then have n2: "named_by (lhd_blk sect) fs4 d name w2" "F4 name = Some (take m (iov_buf u))"
        using op4(3) F2 by (auto simp: open_files_def)
      have "length (take m (iov_buf u)) < MAXFILE" using wr(1) u(5) by simp
      then obtain fs5 where "sfs_read (lhd_io hw) w2 (fs4, u') = Some (Inr (), fs5, uio_moved (take (uio_resid u') (drop (nat (uio_offset u')) (take m (iov_buf u)))) u')"
        using read_volume [OF op4(2) n2 _ u'(1-3)] by blast
      then show ?thesis using Inr u'(4) by (simp add: fs_io_file [OF g1 op4(2) n2(1)])
    qed
    have "\<exists>r4 s4. vfs_open hw vm' path O_RDONLY (fs_put f fs3 s) = Some (r4, s4) \<and>
        (case r4 of Inl e \<Rightarrow> e = ENOMEM
         | Inr v2 \<Rightarrow> \<exists>s5. VOP_READ hw v2 u' s4 = Some (Inr (), uio_moved (take (uio_resid u') (take (uio_resid u) (iov_buf u))) u', s5))" if "r2 = Inr ()"
    proof -
      have "m = uio_resid u" using wr(6) that by simp
      then show ?thesis using op4(1) rd unfolding \<open>m = uio_resid u\<close> by (intro exI [of _ "map_sum id (SfsVnode f) r4"] exI [of _ "fs_put f fs4 s"]) simp
    qed
    with W cl(1) have "\<exists>r2 u2 s2 s3. VOP_WRITE hw (SfsVnode f w) u (fs_put f fs1 s) = Some (r2, u2, s2) \<and> vfs_close hw (SfsVnode f w) s2 = Some s3 \<and>
      (r2 = Inr () \<longrightarrow> (\<exists>r4 s4. vfs_open hw vm' path O_RDONLY s3 = Some (r4, s4) \<and>
        (case r4 of Inl e \<Rightarrow> e = ENOMEM
         | Inr v2 \<Rightarrow> \<exists>s5. VOP_READ hw v2 u' s4 = Some (Inr (), uio_moved (take (uio_resid u') (take (uio_resid u) (iov_buf u))) u', s5))))"
      by blast
    then show ?thesis using op(1) Inr by simp
  qed
qed

end

end
