(* ===== verification/Vfs_Props.thy ===== *)
theory Vfs_Props
  imports Vfs_File Sfs_Tree
begin

text \<open>
  The properties of the VFS layer: how paths are taken apart, that names of devices are not shared, and what the operations
  on paths do to the files of a mounted volume.
\<close>

section \<open>An example\<close>

text \<open>The null device, and a disk \<open>lhd0\<close> on which the example volume is mounted; its root is the current directory.\<close>

definition ex_vfs :: "(nat \<Rightarrow> bytes) vfs" where
  "ex_vfs = \<lparr>knowndevs = [\<lparr>kd_name = [110, 117, 108, 108], kd_rawname = None, kd_device = Some 1, kd_vnode = 11, kd_fs = None\<rparr>,
       \<lparr>kd_name = [108, 104, 100, 48], kd_rawname = Some (mkrawname [108, 104, 100, 48]), kd_device = Some 2, kd_vnode = 12, kd_fs = Some 5\<rparr>],
     devices = [1 \<mapsto> Dev_null, 2 \<mapsto> Dev_lhd (sfs_device ex_vol)],
     dev_vnodes = [11 \<mapsto> \<lparr>dvn_refcount = 1, dvn_opencount = 0, dvn_data = Some 1\<rparr>, 12 \<mapsto> \<lparr>dvn_refcount = 1, dvn_opencount = 0, dvn_data = Some 2\<rparr>],
     fs_mem = [5 \<mapsto> (2, ex_vol)], bootfs_vnode = None, t_cwd = Some (SfsVnode 5 8)\<rparr>"

lemma ex_vfs_fs: "fs_get 5 ex_vfs = Some ex_vol"
  by (simp add: fs_get_def ex_vfs_def)

lemma ex_vfs_ok: "vfs_ok ex_vfs"
  using ex_vfs_fs by (simp add: vfs_ok_def kd_ok_def) (simp add: ex_vfs_def)

text \<open>\<open>lhd0:a\<close> and \<open>lhd0:b\<close>\<close>

definition ex_path :: "8 word \<Rightarrow> bytes" where
  "ex_path c = [108, 104, 100, 48] @ colon_char # replicate 0 slash_char @ [c]"

lemma ex_path_on: "c \<noteq> slash_char \<Longrightarrow> path_on ex_vfs (ex_path c) 5 8 [c]"
proof -
  assume "c \<noteq> slash_char"
  then have sp: "split_path (ex_path c) = On_device [108, 104, 100, 48] [c]"
    unfolding ex_path_def by (intro split_device_path) simp_all
  have "filter (\<lambda>kd. [108, 104, 100, 48] \<in> kd_names ex_vfs kd) (knowndevs ex_vfs) = [knowndevs ex_vfs ! 1]"
    by (simp add: kd_names_def volname_of_def) (simp add: ex_vfs_def)
  then have "name_target ex_vfs [108, 104, 100, 48] = Some (T_fs 5)"
    unfolding name_target_def by (simp add: kd_target_def) (simp add: ex_vfs_def)
  then show ?thesis using sp by (simp add: path_on_def)
qed

lemma ex_vol_opens: "opens_ok ex_vol"
  by (auto simp: opens_ok_def counts_def ex_vol_def split: if_splits)

section \<open>Paths and names\<close>


text \<open>
  C20: adding a device.  When no two devices share a name, \<open>vfs_adddev\<close> fails with \<open>EEXIST\<close> exactly when the new name,
  or the raw name of a mountable device, is a name of some device or volume already; otherwise, unless memory runs out, the
  device is in the list, still no two devices share a name, the new names stand for the new device (\<open>ENXIO\<close> for the name of
  a mountable device until a filesystem is mounted on it), and every other name stands for what it stood for.
  A failed call changes no name.
\<close>

theorem vfs_adddev_correct:
  assumes ok: "vfs_ok s" and un: "names_unique s" and a: "am_vnode am = Some a" "a \<notin> dom (dev_vnodes s)" and lk: "am_lock am"
  shows "\<exists>r s'. vfs_adddev am name dev mountable s = Some (r, s') \<and> vfs_ok s' \<and> names_unique s' \<and>
    (case r of
       Inr _ \<Rightarrow> name \<notin> all_names s \<and> (mountable \<longrightarrow> mkrawname name \<notin> all_names s) \<and>
         name_target s' nm = (if nm = name then Some (if mountable then T_unmounted else T_dev a)
           else if mountable \<and> nm = mkrawname name then Some (T_dev a) else name_target s nm)
     | Inl e \<Rightarrow> name_target s' nm = name_target s nm \<and>
         (e = EEXIST \<and> (name \<in> all_names s \<or> mountable \<and> mkrawname name \<in> all_names s) \<or>
          e = ENOMEM \<and> \<not> (am_name am \<and> am_rawname am \<and> am_kd am \<and> am_array am)))"
proof -
  define raw where "raw = (if mountable then Some (mkrawname name) else None)"
  define kd where "kd = \<lparr>kd_name = name, kd_rawname = raw, kd_device = Some dev, kd_vnode = a, kd_fs = None\<rparr>"
  define vn where "vn = \<lparr>dvn_refcount = 1, dvn_opencount = 0, dvn_data = Some dev\<rparr>"
  define s1 where "s1 = s\<lparr>dev_vnodes := (dev_vnodes s)(a \<mapsto> vn)\<rparr>"
  have names: "kd_names s kd = {name} \<union> set_option raw" by (simp add: kd_names_def volname_of_def kd_def)
  have ok1: "vfs_ok s1" "names_unique s1" "name_target s1 = name_target s" "all_names s1 = all_names s" "knowndevs s1 = knowndevs s"
    using ok un by (auto simp: vfs_ok_def kd_ok_def s1_def names_unique_def name_target_def all_names_def fun_eq_iff cong: list.case_cong)
  have bad: "badnames (Some name) raw None s1 = Some (kd_names s kd \<inter> all_names s \<noteq> {})"
    using badnames_eq [OF ok1(1), of "Some name" raw None] ok1(4) names by (simp add: Int_commute)
  let ?mem = "am_name am \<and> (mountable \<longrightarrow> am_rawname am) \<and> am_kd am"
  have run: "vfs_adddev am name dev mountable s = (if \<not> ?mem then Some (Inl ENOMEM, s)
      else if kd_names s kd \<inter> all_names s \<noteq> {} then Some (Inl EEXIST, s1)
      else if am_array am then Some (Inr (), s1\<lparr>knowndevs := knowndevs s @ [kd]\<rparr>) else Some (Inl ENOMEM, s1))"
    using a(1) lk bad ok1(5)
    by (simp add: vfs_adddev_def vfs_doadd_def dev_create_vnode_def Let_def raw_def [symmetric] kd_def vn_def s1_def cong: if_cong)
  have clash: "kd_names s kd \<inter> all_names s \<noteq> {} \<longleftrightarrow> name \<in> all_names s \<or> mountable \<and> mkrawname name \<in> all_names s"
    by (auto simp: names raw_def)
  have ne: "mkrawname name \<noteq> name" by (simp add: mkrawname_def)
  consider (nomem) "\<not> ?mem" | (clash) "?mem" "kd_names s kd \<inter> all_names s \<noteq> {}" | (full) "?mem" "kd_names s kd \<inter> all_names s = {}" "\<not> am_array am"
    | (add) "?mem" "kd_names s kd \<inter> all_names s = {}" "am_array am" by blast
  then show ?thesis
  proof cases
    case nomem
    then have "vfs_adddev am name dev mountable s = Some (Inl ENOMEM, s)" unfolding run by (simp only: not_False_eq_True if_True)
    then show ?thesis using ok un nomem by auto
  next
    case clash
    then have "vfs_adddev am name dev mountable s = Some (Inl EEXIST, s1)" unfolding run by simp
    then show ?thesis using ok1 clash \<open>kd_names s kd \<inter> all_names s \<noteq> {} \<longleftrightarrow> name \<in> all_names s \<or> mountable \<and> mkrawname name \<in> all_names s\<close> by auto
  next
    case full
    then have "vfs_adddev am name dev mountable s = Some (Inl ENOMEM, s1)" unfolding run by simp
    then show ?thesis using ok1 full by auto
  next
    case add
    let ?s' = "s1\<lparr>knowndevs := knowndevs s @ [kd]\<rparr>"
    have r: "vfs_adddev am name dev mountable s = Some (Inr (), ?s')" unfolding run using add by simp
    have kf: "kd_vnode kd = a" "kd_fs kd = None" "kd_device kd \<noteq> None" by (simp_all add: kd_def)
    have s': "?s' = s\<lparr>dev_vnodes := (dev_vnodes s)(a \<mapsto> vn), knowndevs := knowndevs s @ [kd]\<rparr>" by (simp add: s1_def)
    note ad = add_unused [OF ok un a(2) add(2) kf s']
    have "kd_target s nm kd = (if nm = name then Some (if mountable then T_unmounted else T_dev a)
        else if mountable \<and> nm = mkrawname name then Some (T_dev a) else None)"
      by (simp add: kd_target_def kd_def raw_def)
    moreover have "nm \<in> kd_names s kd \<longleftrightarrow> nm = name \<or> mountable \<and> nm = mkrawname name" by (auto simp: names raw_def)
    ultimately have "name_target ?s' nm = (if nm = name then Some (if mountable then T_unmounted else T_dev a)
        else if mountable \<and> nm = mkrawname name then Some (T_dev a) else name_target s nm)" using ad(3) [of nm] by auto
    then show ?thesis using r ad(1,2) add(2) clash by auto
  qed
qed

theorem vfs_adddev_correct_witness:
  "\<exists>r s'. vfs_adddev \<lparr>am_name = True, am_rawname = True, am_vnode = Some 13, am_lock = True, am_kd = True, am_array = True\<rparr> [99] 3 False ex_vfs = Some (r, s') \<and>
    names_unique s' \<and> (r = Inr () \<longrightarrow> name_target s' [99] = Some (T_dev 13))"
proof -
  have un: "names_unique ex_vfs"
    using ex_vfs_fs by (auto simp: names_unique_def less_Suc_eq kd_names_def volname_of_def FSOP_GETVOLNAME_def ex_vfs_def nth_Cons' mkrawname_def
      sfs_getvolname_def ex_vol_def ex_fs_def)
  have fr: "(13::nat) \<notin> dom (dev_vnodes ex_vfs)" by (simp add: ex_vfs_def)
  have am: "am_vnode \<lparr>am_name = True, am_rawname = True, am_vnode = Some 13, am_lock = True, am_kd = True, am_array = True\<rparr> = Some 13"
      "am_lock \<lparr>am_name = True, am_rawname = True, am_vnode = Some 13, am_lock = True, am_kd = True, am_array = True\<rparr>" by simp_all
  show ?thesis
    using vfs_adddev_correct [OF ex_vfs_ok un am(1) fr am(2), of "[99]" 3 False "[99]"]
    by (elim exE conjE) (intro exI conjI, assumption, assumption, auto)
qed

section \<open>Files\<close>

text \<open>
  C18: removing a path.  Let the path name an entry of a mounted volume that holds the files \<open>F\<close>, by way of a device or volume
  name, of the boot filesystem or of the current directory.  \<open>vfs_remove\<close> then takes that name out of \<open>F\<close>; it fails only for
  a name that is not there, empty or too long, or when there is no memory to load the file, and then the volume
  holds the same files.  In every case the references taken on the way are given back, and nothing
  of the VFS state but this filesystem has changed.
\<close>

theorem vfs_remove_correct:
  assumes hw: "working_disk hw sect n" and ok: "vfs_ok s" and g: "fs_get f s = Some fs" and v: "volume (lhd_blk sect) (lhd_good n) n fs d F"
    and p: "path_on s path f d name" and fresh: "fresh_mem (fst (vm 1)) fs"
  shows "\<exists>r fs'. vfs_remove hw vm path s = Some (r, fs_put f fs' s) \<and> counts fs' d = counts fs d \<and>
    (case r of
       Inr _ \<Rightarrow> name \<in> dom F \<and> volume (lhd_blk sect) (lhd_good n) n fs' d (F(name := None))
     | Inl e \<Rightarrow> volume (lhd_blk sect) (lhd_good n) n fs' d F \<and> (e = ENOENT \<and> name \<notin> dom F \<or> e = ENOMEM \<and> name \<in> dom F \<or>
         e = EINVAL \<and> name = [] \<or> e = ENAMETOOLONG \<and> NAME_MAX < length name))"
  by (rule working_disk.vfs_remove_on [where vm = vm, OF hw ok g v p fresh])

theorem vfs_remove_correct_witness:
  "\<exists>r fs'. vfs_remove ram_hw (\<lambda>_. (Some 9, True, \<lambda>_. None)) (ex_path 97) ex_vfs = Some (r, fs_put 5 fs' ex_vfs) \<and>
    (case r of Inr _ \<Rightarrow> volume (lhd_blk ram_sect) (lhd_good 64) 64 fs' 8 Map.empty | Inl e \<Rightarrow> e = ENOMEM)"
proof -
  have c: "(97 :: 8 word) \<noteq> slash_char" by simp
  have e: "ex_F([97] := None) = Map.empty" "[97] \<in> dom ex_F" by (simp_all add: ex_F_def)
  have fr: "fresh_mem (fst ((\<lambda>_ :: nat. (Some 9, True, \<lambda>_. None)) 1)) ex_vol" using ex_fresh by simp
  show ?thesis
    using vfs_remove_correct [where vm = "\<lambda>_. (Some 9, True, \<lambda>_. None)", OF ram.working_disk_axioms ex_vfs_ok ex_vfs_fs ex_volume ex_path_on [OF c] fr] e
    by (elim exE conjE) (intro exI conjI, assumption, auto split: sum.splits)
qed



text \<open>
  C3: what is saved under a path is loaded from it again.  A path on a mounted volume is opened for writing with \<open>O_CREAT\<close> and \<open>O_TRUNC\<close>, bytes are
  written from the start and the file is closed; then the path is opened for reading.  None of these calls panics.  If the
  first open and the write succeed, the second open can fail only for want of memory, and reading then delivers
  exactly the bytes written, cut to the size of the request.
\<close>

theorem vfs_save_load:
  assumes hw: "working_disk hw sect n" and ok: "vfs_ok s" and g: "fs_get f s = Some fs" and v: "volume (lhd_blk sect) (lhd_good n) n fs d F"
    and o: "opens_ok fs" and p: "path_on s path f d name" "name \<noteq> []" and nok: "name_ok name"
    and fresh: "fresh_mem (fst (vm 1)) fs" "fresh_mem (fst (vm' 1)) fs" "set_option (fst (vm 1)) \<inter> set_option (fst (vm' 1)) = {}"
    and u: "uio_rw u = UIO_WRITE" "uio_fits (uio_resid u) u" "uio_safe u" "uio_offset u = 0" "uio_resid u < MAXFILE"
    and u': "uio_rw u' = UIO_READ" "uio_fits (uio_resid u') u'" "uio_safe u'" "uio_offset u' = 0"
  shows "\<exists>r1 s1. vfs_open hw vm path (O_WRONLY OR O_CREAT OR O_TRUNC) s = Some (r1, s1) \<and>
    (\<forall>v1. r1 = Inr v1 \<longrightarrow> (\<exists>r2 u2 s2 s3. VOP_WRITE hw v1 u s1 = Some (r2, u2, s2) \<and> vfs_close hw v1 s2 = Some s3 \<and>
      (r2 = Inr () \<longrightarrow> (\<exists>r4 s4. vfs_open hw vm' path O_RDONLY s3 = Some (r4, s4) \<and>
        (case r4 of
           Inl e \<Rightarrow> e = ENOMEM
         | Inr v2 \<Rightarrow> \<exists>s5. VOP_READ hw v2 u' s4 =
             Some (Inr (), uio_moved (take (uio_resid u') (take (uio_resid u) (iov_buf u))) u', s5))))))"
  by (rule working_disk.save_load_on [where vm = vm and vm' = vm', OF hw ok g v o p nok fresh u u'])

definition ex_load :: uio where
  "ex_load = mk_kuio [0, 0, 0] 0 UIO_READ"

definition ex_save :: uio where
  "ex_save = mk_kuio [104, 111] 0 UIO_WRITE"

lemma ex_transfers:
  "uio_rw ex_save = UIO_WRITE" "uio_fits (uio_resid ex_save) ex_save" "uio_safe ex_save" "uio_offset ex_save = 0" "uio_resid ex_save < MAXFILE"
  "uio_rw ex_load = UIO_READ" "uio_fits (uio_resid ex_load) ex_load" "uio_safe ex_load" "uio_offset ex_load = 0"
  by (simp_all add: ex_load_def ex_save_def mk_kuio_def uio_fits_def uio_safe_def)

theorem vfs_save_load_witness:
  "\<exists>r1 s1. vfs_open ram_hw (\<lambda>_. (Some 9, True, \<lambda>_. None)) (ex_path 97) (O_WRONLY OR O_CREAT OR O_TRUNC) ex_vfs = Some (r1, s1) \<and>
    (\<forall>v1. r1 = Inr v1 \<longrightarrow> (\<exists>r2 u2 s2 s3. VOP_WRITE ram_hw v1 ex_save s1 = Some (r2, u2, s2) \<and> vfs_close ram_hw v1 s2 = Some s3 \<and>
      (r2 = Inr () \<longrightarrow> (\<exists>r4 s4. vfs_open ram_hw (\<lambda>_. (Some 10, True, \<lambda>_. None)) (ex_path 97) O_RDONLY s3 = Some (r4, s4) \<and>
        (case r4 of
           Inl e \<Rightarrow> e = ENOMEM
         | Inr v2 \<Rightarrow> \<exists>s5. VOP_READ ram_hw v2 ex_load s4 = Some (Inr (), uio_moved [104, 111] ex_load, s5))))))"
proof -
  have c: "(97 :: 8 word) \<noteq> slash_char" and nm: "[97 :: 8 word] \<noteq> []" "name_ok [97]" by (simp_all add: name_ok_def)
  have fr: "fresh_mem (fst ((\<lambda>_ :: nat. (Some 9, True, \<lambda>_. None)) 1)) ex_vol" "fresh_mem (fst ((\<lambda>_ :: nat. (Some 10, True, \<lambda>_. None)) 1)) ex_vol"
      "set_option (fst ((\<lambda>_ :: nat. (Some (9 :: nat), True, \<lambda>_. None)) 1)) \<inter> set_option (fst ((\<lambda>_ :: nat. (Some 10, True, \<lambda>_. None)) 1)) = {}"
    using ex_vol_fields(3) by (simp_all add: fresh_mem_def)
  have e: "take (uio_resid ex_load) (take (uio_resid ex_save) (iov_buf ex_save)) = [104, 111]" by (simp add: ex_save_def ex_load_def mk_kuio_def)
  show ?thesis
    using vfs_save_load [where vm = "\<lambda>_. (Some 9, True, \<lambda>_. None)" and vm' = "\<lambda>_. (Some 10, True, \<lambda>_. None)",
        OF ram.working_disk_axioms ex_vfs_ok ex_vfs_fs ex_volume ex_vol_opens ex_path_on [OF c] nm fr ex_transfers] unfolding e .
qed

end
