(* ===== verification/Printf.thy ===== *)
theory Printf
  imports Kern_Prelude
begin

text \<open>
  Formatted output, shared by kernel and libc: \<open>lib/libc/__printf.c\<close>, \<open>snprintf.c\<close> and, for the way back, \<open>atoi.c\<close>.

  A string is the list of its characters without the terminating zero.  The argument list is a list of machine words and
  strings (\<open>None\<close> is the null pointer); fetching an argument that is not there or of the other kind is undefined in C and
  panics here.  \<open>int\<close> and \<open>long\<close> have 32 bits.  The function that receives the output is the argument \<open>sendfunc\<close>.
\<close>

type_synonym chars = "8 word list"

datatype va = VA_word "32 word" | VA_str "chars option"

datatype intsize = INTSZ | LONGSZ

record 'c pf =
  clientdata :: 'c
  pf_ap :: "va list"
  charcount :: int
  in_pct :: bool
  pf_size :: intsize
  pf_num :: nat
  pf_sign :: int
  spacing :: int
  rightspc :: bool
  fillchar :: "8 word"
  pf_base :: nat
  baseprefix :: bool
  altformat :: bool

type_synonym 'c sendfunc = "'c \<Rightarrow> chars \<Rightarrow> 'c option"

abbreviation NUMBER_BUF_SIZE :: nat where "NUMBER_BUF_SIZE \<equiv> 12"

definition pf_print :: "'c sendfunc \<Rightarrow> chars \<Rightarrow> 'c pf \<Rightarrow> 'c pf option" where
  "pf_print sendfunc tx pf = do {
     c \<leftarrow> sendfunc (clientdata pf) tx;
     Some (pf\<lparr>clientdata := c, charcount := c_int (charcount pf + int (length tx))\<rparr>) }"

definition pf_endfield :: "'c pf \<Rightarrow> 'c pf" where
  "pf_endfield pf = pf\<lparr>in_pct := False, pf_size := INTSZ, pf_num := 0, pf_sign := 0, spacing := 0, rightspc := False,
     fillchar := 32, pf_base := 0, baseprefix := False, altformat := False\<rparr>"

text \<open>The characters \<open># - l q 0\<close>; any other must be a digit.\<close>

definition pf_modifier :: "8 word \<Rightarrow> 'c pf \<Rightarrow> 'c pf option" where
  "pf_modifier ch pf =
     (if ch = 35 then Some (pf\<lparr>altformat := True\<rparr>)
      else if ch = 45 then Some (pf\<lparr>rightspc := True\<rparr>)
      else if ch = 108 then Some (if pf_size pf = LONGSZ then pf else pf\<lparr>pf_size := LONGSZ\<rparr>)
      else if ch = 113 then Some (pf\<lparr>pf_size := LONGSZ\<rparr>)
      else if ch = 48 then
        Some (if spacing pf > 0 then pf\<lparr>spacing := c_int (spacing pf * 10)\<rparr> else pf\<lparr>fillchar := 48\<rparr>)
      else do {
        kassert (48 < ch \<and> ch \<le> 57);
        Some (pf\<lparr>spacing := c_int (spacing pf * 10 + (uint ch - 48))\<rparr>) })"

text \<open>\<open>va_arg\<close> of a word-sized and of a string argument.\<close>

definition va_word :: "'c pf \<Rightarrow> (32 word \<times> 'c pf) option" where
  "va_word pf = (case pf_ap pf of VA_word w # rest \<Rightarrow> Some (w, pf\<lparr>pf_ap := rest\<rparr>) | _ \<Rightarrow> None)"

definition va_str :: "'c pf \<Rightarrow> (chars option \<times> 'c pf) option" where
  "va_str pf = (case pf_ap pf of VA_str s # rest \<Rightarrow> Some (s, pf\<lparr>pf_ap := rest\<rparr>) | _ \<Rightarrow> None)"

text \<open>\<open>int\<close> and \<open>long\<close> arguments have the same width, so that the cases of \<open>size\<close> agree; \<open>-signednum\<close> wraps.\<close>

definition pf_getnum :: "8 word \<Rightarrow> 'c pf \<Rightarrow> 'c pf option" where
  "pf_getnum ch pf = do {
     (w, pf1) \<leftarrow> va_word pf;
     if ch = 112 then Some (pf1\<lparr>pf_num := unat w\<rparr>)
     else if ch = 100 then
       (if sint w < 0 then Some (pf1\<lparr>pf_sign := - 1, pf_num := unat (- w)\<rparr>) else Some (pf1\<lparr>pf_num := unat w\<rparr>))
     else Some (pf1\<lparr>pf_num := unat w\<rparr>) }"

definition pf_setbase :: "8 word \<Rightarrow> 'c pf \<Rightarrow> 'c pf" where
  "pf_setbase ch pf =
     (let pf1 = (if ch = 100 \<or> ch = 117 then pf\<lparr>pf_base := 10\<rparr>
        else if ch = 120 \<or> ch = 112 then pf\<lparr>pf_base := 16\<rparr>
        else if ch = 111 then pf\<lparr>pf_base := 8\<rparr> else pf)
      in if altformat pf1 \<or> ch = 112 then pf1\<lparr>baseprefix := True\<rparr> else pf1)"

fun pf_fill :: "'c sendfunc \<Rightarrow> nat \<Rightarrow> 'c pf \<Rightarrow> 'c pf option" where
  "pf_fill sendfunc 0 pf = Some pf"
| "pf_fill sendfunc (Suc n) pf = do {
     pf1 \<leftarrow> pf_print sendfunc [fillchar pf] pf;
     pf_fill sendfunc n pf1 }"

definition pf_printstuff :: "'c sendfunc \<Rightarrow> chars \<Rightarrow> chars \<Rightarrow> chars \<Rightarrow> 'c pf \<Rightarrow> 'c pf option" where
  "pf_printstuff sendfunc prefix prefix2 stuff pf =
     (let len = c_int (int (length prefix + length prefix2 + length stuff));
          spc = (if spacing pf > len then c_int (spacing pf - len) else 0)
      in do {
        pf1 \<leftarrow> (if spc > 0 \<and> \<not> rightspc pf \<and> fillchar pf \<noteq> 48 then pf_fill sendfunc (nat spc) pf else Some pf);
        pf2 \<leftarrow> pf_print sendfunc prefix pf1;
        pf3 \<leftarrow> pf_print sendfunc prefix2 pf2;
        pf4 \<leftarrow> (if spc > 0 \<and> \<not> rightspc pf3 \<and> fillchar pf3 = 48 then pf_fill sendfunc (nat spc) pf3 else Some pf3);
        pf5 \<leftarrow> pf_print sendfunc stuff pf4;
        if spc > 0 \<and> rightspc pf5 then pf_fill sendfunc (nat spc) pf5 else Some pf5 })"

text \<open>
  The digit loop of \<open>__pf_printnum\<close>.  The position is the number of free bytes of the buffer below the digits written so far; with
  none left the next digit would be written below the buffer.  The result is the index of the first digit.
\<close>

definition digit_char :: "nat \<Rightarrow> 8 word" where
  "digit_char d = (if d < 10 then word_of_nat (48 + d) else word_of_nat (87 + d))"

fun pf_digits :: "nat \<Rightarrow> nat \<Rightarrow> nat \<Rightarrow> chars \<Rightarrow> (nat \<times> chars) option" where
  "pf_digits b 0 xnum buf = None"
| "pf_digits b (Suc x) xnum buf = do {
     kassert (0 < b);
     let buf1 = buf[x := digit_char (xnum mod b)];
         xnum1 = xnum div b
     in if xnum1 > 0 then pf_digits b x xnum1 buf1 else Some (x, buf1) }"

text \<open>The contents of the buffer at the start do not matter; its last byte is the terminating zero.\<close>

definition pf_printnum :: "'c sendfunc \<Rightarrow> 'c pf \<Rightarrow> 'c pf option" where
  "pf_printnum sendfunc pf = do {
     (x, buf) \<leftarrow> pf_digits (pf_base pf) (NUMBER_BUF_SIZE - 1) (pf_num pf) (replicate NUMBER_BUF_SIZE 0);
     let bprefix = (if baseprefix pf \<and> pf_base pf = 16 then [48, 120] else if baseprefix pf \<and> pf_base pf = 8 then [48] else []);
         sprefix = (if pf_sign pf \<noteq> 0 then [45] else [])
     in pf_printstuff sendfunc sprefix bprefix (takeWhile (\<lambda>c. c \<noteq> 0) (drop x buf)) pf }"

abbreviation modifiers :: chars where
  "modifiers \<equiv> [35, 45, 113, 108, 48, 49, 50, 51, 52, 53, 54, 55, 56, 57]"

definition is_modifier :: "8 word \<Rightarrow> bool" where
  "is_modifier c \<longleftrightarrow> c \<in> set modifiers"

definition pf_send :: "'c sendfunc \<Rightarrow> 8 word \<Rightarrow> 'c pf \<Rightarrow> 'c pf option" where
  "pf_send sendfunc ch pf = do {
     kassert (ch \<noteq> 0);
     if \<not> in_pct pf \<and> ch \<noteq> 37 then pf_print sendfunc [ch] pf
     else if \<not> in_pct pf then Some (pf\<lparr>in_pct := True\<rparr>)
     else if is_modifier ch then pf_modifier ch pf
     else if ch \<in> {100, 111, 117, 112, 120} then do {
       pf1 \<leftarrow> pf_getnum ch pf;
       pf2 \<leftarrow> pf_printnum sendfunc (pf_setbase ch pf1);
       Some (pf_endfield pf2) }
     else if ch = 115 then do {
       (str, pf1) \<leftarrow> va_str pf;
       pf2 \<leftarrow> pf_printstuff sendfunc [] [] (case str of None \<Rightarrow> [40, 110, 117, 108, 108, 41] | Some s \<Rightarrow> s) pf1;
       Some (pf_endfield pf2) }
     else do {
       (x, pf1) \<leftarrow> (if ch = 99 then do { (w, pf1) \<leftarrow> va_word pf; Some (ucast w, pf1) } else Some (ch, pf));
       pf2 \<leftarrow> pf_printstuff sendfunc [] [] (if x = 0 then [] else [x]) pf1;
       Some (pf_endfield pf2) } }"

fun vprintf_loop :: "'c sendfunc \<Rightarrow> chars \<Rightarrow> 'c pf \<Rightarrow> 'c pf option" where
  "vprintf_loop sendfunc [] pf = Some pf"
| "vprintf_loop sendfunc (c # cs) pf = do { pf1 \<leftarrow> pf_send sendfunc c pf; vprintf_loop sendfunc cs pf1 }"

definition pf_init :: "'c \<Rightarrow> va list \<Rightarrow> 'c pf" where
  "pf_init client args = pf_endfield \<lparr>clientdata = client, pf_ap = args, charcount = 0, in_pct = False, pf_size = INTSZ, pf_num = 0, pf_sign = 0,
     spacing = 0, rightspc = False, fillchar = 0, pf_base = 0, baseprefix = False, altformat = False\<rparr>"

definition vprintf :: "'c sendfunc \<Rightarrow> 'c \<Rightarrow> chars \<Rightarrow> va list \<Rightarrow> (int \<times> 'c) option" where
  "vprintf sendfunc client format args = do {
     pf \<leftarrow> vprintf_loop sendfunc format (pf_init client args);
     Some (charcount pf, clientdata pf) }"

section \<open>Printing into a buffer\<close>

record snp =
  snp_buf :: "chars option"
  snp_buflen :: nat
  snp_bufpos :: nat

fun snprintf_send :: "snp sendfunc" where
  "snprintf_send snp [] = Some snp"
| "snprintf_send snp (c # cs) =
     (if snp_bufpos snp < snp_buflen snp then do {
        b \<leftarrow> mem_write (snp_buf snp) (int (snp_bufpos snp)) c;
        snprintf_send (snp\<lparr>snp_buf := b, snp_bufpos := snp_bufpos snp + 1\<rparr>) cs }
      else snprintf_send snp cs)"

definition vsnprintf :: "chars option \<Rightarrow> nat \<Rightarrow> chars \<Rightarrow> va list \<Rightarrow> (int \<times> chars option) option" where
  "vsnprintf buf len fmt args = do {
     (n, snp) \<leftarrow> vprintf snprintf_send \<lparr>snp_buf = buf, snp_buflen = (if len = 0 then 0 else len - 1), snp_bufpos = 0\<rparr> fmt args;
     buf' \<leftarrow> (if len > 0 then mem_write (snp_buf snp) (int (snp_bufpos snp)) 0 else Some (snp_buf snp));
     Some (n, buf') }"

definition snprintf :: "chars option \<Rightarrow> nat \<Rightarrow> chars \<Rightarrow> va list \<Rightarrow> (int \<times> chars option) option" where
  "snprintf buf len fmt args = vsnprintf buf len fmt args"

section \<open>Reading a number\<close>

fun atoi_digits :: "chars \<Rightarrow> 32 word \<Rightarrow> 32 word" where
  "atoi_digits [] val = val"
| "atoi_digits (c # cs) val = (if 48 \<le> c \<and> c \<le> 57 then atoi_digits cs (val * 10 + ucast (c - 48)) else val)"

fun skip_blanks :: "chars \<Rightarrow> chars" where
  "skip_blanks [] = []"
| "skip_blanks (c # cs) = (if c = 32 \<or> c = 9 then skip_blanks cs else c # cs)"

definition atoi :: "chars \<Rightarrow> int" where
  "atoi s = (case skip_blanks s of
      [] \<Rightarrow> 0
    | c # cs \<Rightarrow> if c = 45 then sint (- atoi_digits cs 0)
        else if c = 43 then sint (atoi_digits cs 0) else sint (atoi_digits (c # cs) 0))"

end
