(* ===== verification/Printf_Fmt.thy ===== *)
theory Printf_Fmt
  imports Printf
begin

text \<open>
  What a format means: numbers in a base, fields padded to a width, and the text of a whole format, as the reference the
  state machine of \<open>__printf.c\<close> is compared with.  The locale \<open>output_sink\<close> is the contract of the function that receives
  the output.
\<close>

section \<open>C integers\<close>

lemma c_int_c_int_add [simp]: "c_int (c_int x + y) = c_int (x + y)"
  by (simp add: c_int_def mod_simps algebra_simps)

lemma sint_word32: "sint (w :: 32 word) = (if uint w < 2 ^ 31 then uint w else uint w - 2 ^ 32)"
proof -
  have b: "0 \<le> uint w" "uint w < 2 ^ 32" using uint_bounded [of w] by simp_all
  have e: "sint w = (uint w + 2 ^ 31) mod 2 ^ 32 - 2 ^ 31"
    by (simp add: sint_uint signed_take_bit_eq_take_bit_shift take_bit_eq_mod)
  show ?thesis
  proof (cases "uint w < 2 ^ 31")
    case True
    then show ?thesis unfolding e using b by simp
  next
    case False
    have "(uint w + 2 ^ 31) mod 2 ^ 32 = (uint w + 2 ^ 31 - 2 ^ 32) mod 2 ^ 32" by (rule minus_mod_self2 [symmetric])
    also have "\<dots> = uint w + 2 ^ 31 - 2 ^ 32" using False b by (intro mod_pos_pos_trivial) simp_all
    finally show ?thesis unfolding e using False by simp
  qed
qed

lemma unat_abs: "sint (w :: 32 word) < 0 \<Longrightarrow> unat (- w) = nat \<bar>sint w\<bar>" "\<not> sint w < 0 \<Longrightarrow> unat w = nat \<bar>sint w\<bar>"
proof -
  have b: "0 \<le> uint w" "uint w < 2 ^ 32" using uint_bounded [of w] by simp_all
  assume n: "sint w < 0"
  then have s: "2 ^ 31 \<le> uint w" "sint w = uint w - 2 ^ 32" using b by (auto simp: sint_word32 split: if_splits)
  have "uint (- w) = (- uint w) mod 2 ^ 32" by (simp add: uint_word_ariths)
  also have "\<dots> = (- uint w + 2 ^ 32) mod 2 ^ 32" by simp
  also have "\<dots> = 2 ^ 32 - uint w" using s b by (subst mod_pos_pos_trivial) simp_all
  finally show "unat (- w) = nat \<bar>sint w\<bar>" using s b by (simp flip: nat_uint_eq)
next
  have b: "0 \<le> uint w" "uint w < 2 ^ 32" using uint_bounded [of w] by simp_all
  assume "\<not> sint w < 0"
  then show "unat w = nat \<bar>sint w\<bar>" using b by (auto simp: sint_word32 nat_uint_eq split: if_splits)
qed
section \<open>Numbers\<close>

text \<open>The numeral of a number in a base of at least two.\<close>

function numeral_str :: "nat \<Rightarrow> nat \<Rightarrow> chars" where
  "numeral_str b n = (if n < b \<or> b < 2 then [digit_char (n mod b)] else numeral_str b (n div b) @ [digit_char (n mod b)])"
  by pat_completeness auto
termination by (relation "measure snd") auto

declare numeral_str.simps [simp del]

lemma numeral_str_small: "n < b \<Longrightarrow> numeral_str b n = [digit_char n]"
  by (subst numeral_str.simps) simp

lemma numeral_str_step: "2 \<le> b \<Longrightarrow> b \<le> n \<Longrightarrow> numeral_str b n = numeral_str b (n div b) @ [digit_char (n mod b)]"
  by (subst numeral_str.simps) simp

lemma numeral_length_pos: "0 < length (numeral_str b n)"
  by (subst numeral_str.simps) simp

lemma numeral_length: "2 \<le> b \<Longrightarrow> 0 < k \<Longrightarrow> length (numeral_str b n) \<le> k \<longleftrightarrow> n < b ^ k"
proof (induction b n arbitrary: k rule: numeral_str.induct)
  case (1 b n)
  show ?case
  proof (cases "n < b")
    case True
    have "b ^ 1 \<le> b ^ k" using 1(2,3) by (intro power_increasing) auto
    with True 1(3) show ?thesis by (simp add: numeral_str_small)
  next
    case False
    have "length (numeral_str b n) \<le> k \<longleftrightarrow> length (numeral_str b (n div b)) \<le> k - 1" using False 1(2,3) by (auto simp: numeral_str_step)
    also have "\<dots> \<longleftrightarrow> n div b < b ^ (k - 1)"
    proof (cases "k = 1")
      case True
      have "0 < n div b" using False 1(2) by (simp add: div_greater_zero_iff)
      then show ?thesis using True numeral_length_pos [of b "n div b"] by simp
    next
      case k: False
      then show ?thesis using 1(1) [of "k - 1"] 1(2,3) False by auto
    qed
    also have "\<dots> \<longleftrightarrow> n < b ^ k" using 1(2,3) by (cases k) (simp_all add: div_less_iff_less_mult mult.commute)
    finally show ?thesis .
  qed
qed

lemma digit_char_nz: "d < 16 \<Longrightarrow> digit_char d \<noteq> 0"
proof -
  assume "d < 16"
  then have "d \<in> {0..<16}" by simp
  then show ?thesis by (auto simp: digit_char_def atLeastLessThan_nat_numeral)
qed

lemma numeral_str_nz: "2 \<le> b \<Longrightarrow> b \<le> 16 \<Longrightarrow> 0 \<notin> set (numeral_str b n)"
proof (induction b n rule: numeral_str.induct)
  case (1 b n)
  have "n mod b < b" using 1(2) by simp
  then have "digit_char (n mod b) \<noteq> 0" using 1(3) by (intro digit_char_nz) linarith
  then show ?case using 1 by (subst numeral_str.simps) auto
qed

text \<open>The digit loop writes the numeral to the end of the free part of the buffer, when it fits.\<close>

lemma pf_digits_eq:
  "2 \<le> b \<Longrightarrow> pos \<le> length buf \<Longrightarrow> length (numeral_str b n) \<le> pos \<Longrightarrow>
    pf_digits b pos n buf = Some (pos - length (numeral_str b n), take (pos - length (numeral_str b n)) buf @ numeral_str b n @ drop pos buf)"
proof (induction b pos n buf rule: pf_digits.induct)
  case (1 b xnum buf)
  then show ?case using numeral_length_pos [of b xnum] by simp
next
  case (2 b x xnum buf)
  have upd: "buf[x := c] = take x buf @ c # drop (Suc x) buf" for c using 2(3) by (simp add: upd_conv_take_nth_drop)
  show ?case
  proof (cases "xnum < b")
    case True
    then show ?thesis using 2(2) by (simp add: numeral_str_small upd)
  next
    case False
    define d where "d = digit_char (xnum mod b)"
    define k where "k = length (numeral_str b (xnum div b))"
    have n: "numeral_str b xnum = numeral_str b (xnum div b) @ [d]" using False 2(2) by (simp add: numeral_str_step d_def)
    have k: "k \<le> x" "Suc x \<le> length buf" using 2(3,4) n by (simp_all add: k_def)
    have pos: "0 < xnum div b" using False 2(2) by (simp add: div_greater_zero_iff)
    have "pf_digits b x (xnum div b) (buf[x := d]) = Some (x - k, take (x - k) (buf[x := d]) @ numeral_str b (xnum div b) @ drop x (buf[x := d]))"
      using 2(1) [OF _ refl refl] pos k 2(2) unfolding k_def d_def by auto
    then show ?thesis using pos 2(2) k by (simp add: n d_def [symmetric] k_def [symmetric] upd)
  qed
qed

section \<open>Fields\<close>

abbreviation is_digit :: "8 word \<Rightarrow> bool" where "is_digit c \<equiv> 48 \<le> c \<and> c \<le> 57"

definition dec_value :: "chars \<Rightarrow> nat" where
  "dec_value ds = foldl (\<lambda>v c. v * 10 + (unat c - 48)) 0 ds"

text \<open>The width that the modifiers of a field give, and whether it is written with a leading zero.\<close>

definition field_width :: "chars \<Rightarrow> nat" where
  "field_width fs = dec_value (filter is_digit fs)"

definition zero_fill :: "chars \<Rightarrow> bool" where
  "zero_fill fs = (case filter is_digit fs of [] \<Rightarrow> False | d # _ \<Rightarrow> d = 48)"

text \<open>
  A field: prefix and body padded to the width, with blanks on the left, or with zeros between prefix and body.  With the modifier
  \<open>-\<close> the padding is on the right, and it is zeros there too when a zero was given.
\<close>

definition padded :: "chars \<Rightarrow> chars \<Rightarrow> chars \<Rightarrow> chars" where
  "padded fs pre body =
     (let pad = replicate (field_width fs - length (pre @ body)) (if zero_fill fs then 48 else 32)
      in if 45 \<in> set fs then pre @ body @ pad else if zero_fill fs then pre @ pad @ body else pad @ pre @ body)"

definition base_prefix :: "chars \<Rightarrow> 8 word \<Rightarrow> chars" where
  "base_prefix fs conv = (if conv = 112 \<or> conv = 120 \<and> 35 \<in> set fs then [48, 120] else if conv = 111 \<and> 35 \<in> set fs then [48] else [])"

definition number_field :: "chars \<Rightarrow> 8 word \<Rightarrow> 32 word \<Rightarrow> chars" where
  "number_field fs conv w =
     (if conv = 100 then padded fs (if sint w < 0 then [45] else []) (numeral_str 10 (nat \<bar>sint w\<bar>))
      else padded fs (base_prefix fs conv) (numeral_str (if conv = 117 then 10 else if conv = 111 then 8 else 16) (unat w)))"

definition field :: "chars \<Rightarrow> 8 word \<Rightarrow> va list \<Rightarrow> (chars \<times> va list) option" where
  "field fs conv args =
     (if conv \<in> {100, 111, 117, 112, 120} then
        (case args of VA_word w # rest \<Rightarrow> Some (number_field fs conv w, rest) | _ \<Rightarrow> None)
      else if conv = 115 then
        (case args of VA_str s # rest \<Rightarrow> Some (padded fs [] (case s of None \<Rightarrow> [40, 110, 117, 108, 108, 41] | Some t \<Rightarrow> t), rest) | _ \<Rightarrow> None)
      else if conv = 99 then
        (case args of VA_word w # rest \<Rightarrow> Some (padded fs [] (filter (\<lambda>c. c \<noteq> 0) [ucast w]), rest) | _ \<Rightarrow> None)
      else Some (padded fs [] [conv], args))"

lemma dropWhile_shorter: "dropWhile P cs = x # rest \<Longrightarrow> length rest < Suc (length cs)"
  using length_dropWhile_le [of P cs] by simp

text \<open>The text of a format with its arguments; \<open>None\<close> when the arguments do not fit the format.\<close>

function render :: "chars \<Rightarrow> va list \<Rightarrow> chars option" where
  "render [] args = Some []"
| "render (c # cs) args =
     (if c \<noteq> 37 then map_option ((#) c) (render cs args)
      else (case dropWhile is_modifier cs of
          [] \<Rightarrow> Some []
        | conv # rest \<Rightarrow> (case field (takeWhile is_modifier cs) conv args of
              None \<Rightarrow> None
            | Some (tx, args') \<Rightarrow> map_option ((@) tx) (render rest args'))))"
  by pat_completeness auto
termination by (relation "measure (\<lambda>(f, a). length f)") (simp_all only: in_measure wf_measure split_conv list.size lessI add_Suc_right add_0_right dropWhile_shorter)

text \<open>What a format is expected to keep to: it has no zero byte (it is a C string), and no width of more than nine digits.\<close>

definition fmt_ok :: "chars \<Rightarrow> bool" where
  "fmt_ok fmt \<longleftrightarrow> 0 \<notin> set fmt \<and>
     (\<forall>i < length fmt. length (filter is_digit (takeWhile is_modifier (drop i fmt))) \<le> 9)"

text \<open>Strings of the argument list are shorter than an \<open>int\<close> can count.\<close>

definition args_ok :: "va list \<Rightarrow> bool" where
  "args_ok args \<longleftrightarrow> (\<forall>s. VA_str (Some s) \<in> set args \<longrightarrow> length s < 2 ^ 31)"

end
