(* ===== verification/Printf_Sink.thy ===== *)
theory Printf_Sink
  imports Printf_Fmt
begin

text \<open>
  The state machine of \<open>__printf.c\<close> produces the text that the reference gives, for every function that receives output piece by
  piece as it would receive it at once (\<open>output_sink\<close>); \<open>__snprintf_send\<close> is such a function.
\<close>

section \<open>Modifiers\<close>

definition digits_in :: "chars \<Rightarrow> nat" where
  "digits_in fs = length (filter is_digit fs)"

lemma dec_value_snoc: "dec_value (ds @ [c]) = dec_value ds * 10 + (unat c - 48)"
  by (simp add: dec_value_def)

lemma digit_range: "is_digit (c :: 8 word) \<Longrightarrow> 48 \<le> unat c \<and> unat c \<le> 57"
  by (simp add: word_le_nat_alt)

lemma dec_value_bound: "\<forall>c \<in> set ds. is_digit c \<Longrightarrow> dec_value ds < 10 ^ length ds"
proof (induction ds rule: rev_induct)
  case Nil
  then show ?case by (simp add: dec_value_def)
next
  case (snoc c ds)
  then have "dec_value ds < 10 ^ length ds" by simp
  moreover have "unat c - 48 \<le> 9" using snoc.prems digit_range [of c] by (simp add: le_diff_conv)
  ultimately show ?case by (simp add: dec_value_snoc)
qed

lemma dec_value_0: "\<forall>c \<in> set ds. is_digit c \<Longrightarrow> dec_value ds = 0 \<Longrightarrow> \<forall>c \<in> set ds. c = 48"
proof (induction ds rule: rev_induct)
  case (snoc c ds)
  then have "unat c \<le> 48" "dec_value ds = 0" by (simp_all add: dec_value_snoc)
  moreover have "48 \<le> unat c" using snoc.prems(1) digit_range [of c] by simp
  ultimately have "unat c = unat (48 :: 8 word)" by simp
  then have "c = 48" by (simp only: word_unat_eq_iff)
  then show ?case using snoc \<open>dec_value ds = 0\<close> by simp
qed simp

lemma field_width_bound: "digits_in fs \<le> 9 \<Longrightarrow> field_width fs < 10 ^ 9"
proof -
  assume "digits_in fs \<le> 9"
  then have "(10 :: nat) ^ length (filter is_digit fs) \<le> 10 ^ 9" by (intro power_increasing) (simp_all add: digits_in_def)
  then show ?thesis using dec_value_bound [of "filter is_digit fs"] by (simp add: field_width_def)
qed

text \<open>The state after the modifiers \<open>fs\<close> of a field.\<close>

definition flagged :: "chars \<Rightarrow> 'c pf \<Rightarrow> 'c pf" where
  "flagged fs pf = pf\<lparr>in_pct := True, pf_size := (if 108 \<in> set fs \<or> 113 \<in> set fs then LONGSZ else INTSZ),
     spacing := int (field_width fs), rightspc := (45 \<in> set fs), fillchar := (if zero_fill fs then 48 else 32), altformat := (35 \<in> set fs)\<rparr>"

lemma modifier_step:
  assumes c: "is_modifier ch" and d: "digits_in (fs @ [ch]) \<le> 9"
  shows "pf_modifier ch (flagged fs pf) = Some (flagged (fs @ [ch]) pf)"
proof (cases "is_digit ch")
  case False
  then have "ch = 35 \<or> ch = 45 \<or> ch = 108 \<or> ch = 113" using c by (auto simp: is_modifier_def)
  moreover have "field_width (fs @ [ch]) = field_width fs" "zero_fill (fs @ [ch]) = zero_fill fs"
    using False by (auto simp: field_width_def zero_fill_def)
  ultimately show ?thesis by (elim disjE) (auto simp: pf_modifier_def flagged_def)
next
  case True
  have w: "field_width (fs @ [ch]) = field_width fs * 10 + (unat ch - 48)" using True by (simp add: field_width_def dec_value_snoc)
  have "int (unat ch - 48) = uint ch - 48" using digit_range [OF True] by (simp add: of_nat_diff)
  then have e: "int (field_width fs) * 10 + (uint ch - 48) = int (field_width (fs @ [ch]))" unfolding w by simp
  have "int (field_width (fs @ [ch])) < 10 ^ 9" using field_width_bound [OF d] by simp
  then have ci: "c_int (int (field_width fs) * 10 + (uint ch - 48)) = int (field_width (fs @ [ch]))"
    unfolding e by (intro c_int_id) simp_all
  have flags: "35 \<noteq> ch" "45 \<noteq> ch" "108 \<noteq> ch" "113 \<noteq> ch" using True by auto
  have all: "\<forall>c \<in> set (filter is_digit fs). is_digit c" by simp
  have dz: "field_width fs = 0 \<Longrightarrow> filter is_digit fs = [] \<or> zero_fill fs"
    using dec_value_0 [OF all] by (cases "filter is_digit fs") (auto simp: zero_fill_def field_width_def)
  have zf: "zero_fill (fs @ [ch]) = (if field_width fs = 0 \<and> ch = 48 then True else zero_fill fs)"
  proof (cases "filter is_digit fs")
    case Nil
    then show ?thesis using True by (simp add: zero_fill_def field_width_def dec_value_def)
  next
    case (Cons d ds)
    then have "zero_fill (fs @ [ch]) = zero_fill fs" by (simp add: zero_fill_def)
    then show ?thesis using dz Cons by auto
  qed
  show ?thesis
  proof (cases "ch = 48")
    case True
    then have "uint ch - 48 = 0" by simp
    then show ?thesis using True zf ci w by (auto simp: pf_modifier_def flagged_def)
  next
    case False
    then have "48 < ch" using True by (auto simp: less_le)
    then show ?thesis using True False zf ci flags by (auto simp: pf_modifier_def flagged_def)
  qed
qed

section \<open>Functions that receive output\<close>

lemma unat_lt: "unat (v :: 32 word) < 2 ^ 32"
  using unsigned_less [of v, where 'a = nat] by simp

lemma pf_digits_numeral:
  assumes b: "b \<in> {8, 10, 16}" and n: "n < 2 ^ 32"
  shows "\<exists>x buf. pf_digits b (NUMBER_BUF_SIZE - 1) n (replicate NUMBER_BUF_SIZE 0) = Some (x, buf) \<and>
    takeWhile (\<lambda>c. c \<noteq> 0) (drop x buf) = numeral_str b n"
proof -
  let ?s = "numeral_str b n"
  have "(8 :: nat) ^ 11 \<le> b ^ 11" using b by (intro power_mono) auto
  then have "length ?s \<le> 11" using b n by (subst numeral_length) auto
  then have 1: "pf_digits b 11 n (replicate 12 0) = Some (11 - length ?s, take (11 - length ?s) (replicate 12 0) @ ?s @ drop 11 (replicate 12 0))"
    using b by (intro pf_digits_eq) auto
  have "\<forall>c \<in> set ?s. c \<noteq> 0" using numeral_str_nz [of b n] b by auto
  then have 2: "takeWhile (\<lambda>c. c \<noteq> 0) (?s @ [0]) = ?s" by (simp add: takeWhile_append2)
  have 3: "min 12 (11 - length ?s) = 11 - length ?s" by simp
  show ?thesis using 1 2 3 by (simp add: numeral_eq_Suc)
qed

lemma fmt_ok_drop: "fmt_ok fmt \<Longrightarrow> fmt_ok (drop k fmt)"
  unfolding fmt_ok_def by (auto simp: less_diff_conv add.commute dest: in_set_dropD)

lemma fmt_ok_flags: "fmt_ok (c # cs) \<Longrightarrow> digits_in (takeWhile is_modifier cs) \<le> 9"
proof (cases "cs = []")
  case False
  assume "fmt_ok (c # cs)"
  then have "\<forall>i < length (c # cs). digits_in (takeWhile is_modifier (drop i (c # cs))) \<le> 9"
    unfolding fmt_ok_def digits_in_def by blast
  from spec [OF this, of 1] False show ?thesis by simp
qed (simp add: digits_in_def)

lemma field_args: "field fs c args = Some (tx, rest) \<Longrightarrow> set rest \<subseteq> set args"
  by (auto simp: field_def split: if_split_asm list.split_asm va.split_asm)

lemma args_ok_subset: "args_ok args \<Longrightarrow> set rest \<subseteq> set args \<Longrightarrow> args_ok rest"
  unfolding args_ok_def by blast

definition observed :: "'c pf \<Rightarrow> int \<times> 'c" where
  "observed pf = (charcount pf, clientdata pf)"

lemma observed_flagged [simp]: "observed (flagged fs pf) = observed pf"
  by (simp add: observed_def flagged_def)

lemma start_field: "pf_endfield pf = pf \<Longrightarrow> pf\<lparr>in_pct := True\<rparr> = flagged [] pf"
  by (cases pf) (auto simp: pf_endfield_def flagged_def field_width_def dec_value_def zero_fill_def)

locale output_sink =
  fixes send :: "'c sendfunc"
  assumes send_Nil: "send c [] = Some c"
    and send_append: "send c (a @ b) = Option.bind (send c a) (\<lambda>c'. send c' b)"
begin

definition put :: "chars \<Rightarrow> 'c pf \<Rightarrow> 'c pf option" where
  "put tx pf = pf_print send tx pf"

lemma put_put: "Option.bind (put a pf) (put b) = put (a @ b) pf"
  by (cases "send (clientdata pf) a") (simp_all add: put_def pf_print_def send_append add.assoc)

lemma put_fields:
  "put a pf = Some pf' \<Longrightarrow> fillchar pf' = fillchar pf"
  "put a pf = Some pf' \<Longrightarrow> rightspc pf' = rightspc pf"
  by (auto simp: put_def pf_print_def bind_eq_Some_conv)

lemma put_then: "(\<And>pf'. put a pf = Some pf' \<Longrightarrow> k pf' = put b pf') \<Longrightarrow> Option.bind (put a pf) k = put (a @ b) pf"
  unfolding put_put [symmetric] by (cases "put a pf") simp_all

lemma fill_put: "0 < n \<Longrightarrow> pf_fill send n pf = put (replicate n (fillchar pf)) pf"
proof (induction n arbitrary: pf)
  case (Suc n)
  show ?case
  proof (cases "n = 0")
    case True
    then show ?thesis by (cases "pf_print send [fillchar pf] pf") (simp_all add: put_def)
  next
    case False
    have "Option.bind (put [fillchar pf] pf) (pf_fill send n) = put ([fillchar pf] @ replicate n (fillchar pf)) pf"
      using Suc.IH False put_fields by (intro put_then) auto
    then show ?thesis by (simp add: put_def)
  qed
qed simp

text \<open>A field is sent whole.\<close>

lemma printstuff_put:
  assumes len: "length (pre @ pre2 @ body) < 2 ^ 31" and d: "digits_in fs \<le> 9"
    and pf: "spacing pf = int (field_width fs)" "rightspc pf = (45 \<in> set fs)" "fillchar pf = (if zero_fill fs then 48 else 32)"
  shows "pf_printstuff send pre pre2 body pf = put (padded fs (pre @ pre2) body) pf"
proof -
  define n where "n = length (pre @ pre2 @ body)"
  define spc where "spc = field_width fs - n"
  have w: "field_width fs < 2 ^ 31" using field_width_bound [OF d] by simp
  have len': "c_int (int (length pre + length pre2 + length body)) = int n"
    using len by (simp add: n_def) (subst c_int_id, simp_all)
  have sp: "(if spacing pf > int n then c_int (spacing pf - int n) else 0) = int spc"
  proof (cases "n < field_width fs")
    case True
    then have "c_int (int (field_width fs) - int n) = int (field_width fs) - int n" using w by (intro c_int_id) simp_all
    then show ?thesis using True pf(1) by (simp add: spc_def of_nat_diff)
  qed (simp add: pf(1) spc_def)
  have run: "pf_printstuff send pre pre2 body pf = do {
        pf1 \<leftarrow> (if 0 < spc \<and> \<not> rightspc pf \<and> fillchar pf \<noteq> 48 then pf_fill send spc pf else Some pf);
        pf2 \<leftarrow> put pre pf1; pf3 \<leftarrow> put pre2 pf2;
        pf4 \<leftarrow> (if 0 < spc \<and> \<not> rightspc pf3 \<and> fillchar pf3 = 48 then pf_fill send spc pf3 else Some pf3);
        pf5 \<leftarrow> put body pf4;
        if 0 < spc \<and> rightspc pf5 then pf_fill send spc pf5 else Some pf5 }"
    unfolding pf_printstuff_def Let_def len' sp put_def nat_int of_nat_0_less_iff ..
  have pd: "padded fs (pre @ pre2) body = (let pad = replicate spc (fillchar pf) in
      if rightspc pf then pre @ pre2 @ body @ pad else if fillchar pf = 48 then pre @ pre2 @ pad @ body else pad @ pre @ pre2 @ body)"
    using pf by (simp add: padded_def spc_def n_def Let_def)
  have join: "Option.bind (put a p) (\<lambda>p. Option.bind (put b p) k) = Option.bind (put (a @ b) p) k" for a b p k
    by (simp add: put_put [symmetric] Option.bind_assoc)
  show ?thesis
    unfolding run pd Let_def
    by (simp add: fill_put put_fields put_put join cong: Option.bind_cong if_cong)
qed

lemma printnum_put:
  assumes b: "pf_base p \<in> {8, 10, 16}" and n: "pf_num p < 2 ^ 32" and d: "digits_in fs \<le> 9"
    and pf: "spacing p = int (field_width fs)" "rightspc p = (45 \<in> set fs)" "fillchar p = (if zero_fill fs then 48 else 32)"
  shows "pf_printnum send p = put (padded fs ((if pf_sign p \<noteq> 0 then [45] else []) @
      (if baseprefix p \<and> pf_base p = 16 then [48, 120] else if baseprefix p \<and> pf_base p = 8 then [48] else [])) (numeral_str (pf_base p) (pf_num p))) p"
proof -
  obtain x buf where x: "pf_digits (pf_base p) (NUMBER_BUF_SIZE - 1) (pf_num p) (replicate NUMBER_BUF_SIZE 0) = Some (x, buf)"
      "takeWhile (\<lambda>c. c \<noteq> 0) (drop x buf) = numeral_str (pf_base p) (pf_num p)" using pf_digits_numeral [OF b n] by blast
  have "(8 :: nat) ^ 11 \<le> pf_base p ^ 11" using b by (intro power_mono) auto
  then have len: "length (numeral_str (pf_base p) (pf_num p)) \<le> 11" using b n by (subst numeral_length) auto
  show ?thesis unfolding pf_printnum_def x(1) Option.bind.simps prod.case Let_def x(2)
    using len by (intro printstuff_put d pf) auto
qed

text \<open>The end of a field: the conversion character.\<close>

lemma put_endfield: "Option.bind (put tx p) (\<lambda>q. Some (pf_endfield q)) = put tx (pf_endfield p)"
  by (cases "send (clientdata p) tx") (simp_all add: put_def pf_print_def pf_endfield_def)

lemma endfield_flagged:
  "pf_endfield pf = pf \<Longrightarrow> pf_endfield ((flagged fs pf)\<lparr>pf_ap := rest\<rparr>) = pf\<lparr>pf_ap := rest\<rparr>"
proof -
  assume "pf_endfield pf = pf"
  then show ?thesis by (cases pf) (simp add: pf_endfield_def flagged_def)
qed

lemma number_put:
  assumes d: "digits_in fs \<le> 9" and c: "c \<in> {100, 111, 117, 112, 120}" and cl: "pf_endfield pf = pf" and args: "pf_ap pf = VA_word w # rest"
  shows "pf_send send c (flagged fs pf) = put (number_field fs c w) (pf\<lparr>pf_ap := rest\<rparr>)"
proof -
  define q where "q = (flagged fs pf)\<lparr>pf_ap := rest, pf_num := (if c = 100 then nat \<bar>sint w\<bar> else unat w),
      pf_sign := (if c = 100 \<and> sint w < 0 then - 1 else 0), pf_base := (if c \<in> {100, 117} then 10 else if c = 111 then 8 else 16),
      baseprefix := (35 \<in> set fs \<or> c = 112)\<rparr>"
  have c0: "c \<noteq> 0" "\<not> is_modifier c" using c by (auto simp: is_modifier_def)
  have cl': "pf_num pf = 0" "pf_sign pf = 0" "pf_base pf = 0" "\<not> baseprefix pf"
    using arg_cong [OF cl, of pf_num] arg_cong [OF cl, of pf_sign] arg_cong [OF cl, of pf_base] arg_cong [OF cl, of baseprefix]
    by (simp_all add: pf_endfield_def)
  have fl: "in_pct (flagged fs pf)" "pf_ap (flagged fs pf) = VA_word w # rest" "altformat (flagged fs pf) = (35 \<in> set fs)"
    by (simp_all add: flagged_def args)
  have gn: "Option.bind (pf_getnum c (flagged fs pf)) (\<lambda>p. Some (pf_setbase c p)) = Some q"
    using c cl' args unfolding q_def
    by (cases pf) (elim insertE emptyE; simp add: pf_getnum_def va_word_def pf_setbase_def Let_def flagged_def unat_abs)
  have "nat \<bar>sint w\<bar> = unat (if sint w < 0 then - w else w)" using unat_abs [of w] by simp
  then have "nat \<bar>sint w\<bar> < 2 ^ 32" using unat_lt [of "if sint w < 0 then - w else w"] by simp
  then have num: "pf_num q < 2 ^ 32" using unat_lt [of w] by (simp add: q_def)
  have "pf_printnum send q = put (number_field fs c w) q"
    using c by (subst printnum_put [OF _ num d]) (auto simp: q_def flagged_def number_field_def base_prefix_def)
  moreover have "pf_endfield q = pf\<lparr>pf_ap := rest\<rparr>" using endfield_flagged [OF cl, where fs = fs and rest = rest] by (simp add: q_def pf_endfield_def)
  ultimately show ?thesis using gn c c0 fl(1) put_endfield [of "number_field fs c w" q]
    by (cases "pf_getnum c (flagged fs pf)") (auto simp: pf_send_def)
qed

lemma text_put:
  assumes d: "digits_in fs \<le> 9" and cl: "pf_endfield pf = pf" and len: "length body < 2 ^ 31"
  shows "Option.bind (pf_printstuff send [] [] body ((flagged fs pf)\<lparr>pf_ap := rest\<rparr>)) (\<lambda>q. Some (pf_endfield q)) =
    put (padded fs [] body) (pf\<lparr>pf_ap := rest\<rparr>)"
proof -
  have "pf_printstuff send [] [] body ((flagged fs pf)\<lparr>pf_ap := rest\<rparr>) = put (padded fs ([] @ []) body) ((flagged fs pf)\<lparr>pf_ap := rest\<rparr>)"
    using d len by (intro printstuff_put) (simp_all add: flagged_def)
  then show ?thesis using put_endfield endfield_flagged [OF cl] by simp
qed

lemma conv_put:
  assumes d: "digits_in fs \<le> 9" and args: "args_ok (pf_ap pf)" and c: "c \<noteq> 0" "\<not> is_modifier c" and cl: "pf_endfield pf = pf"
  shows "pf_send send c (flagged fs pf) =
    (case field fs c (pf_ap pf) of None \<Rightarrow> None | Some (tx, rest) \<Rightarrow> put tx (pf\<lparr>pf_ap := rest\<rparr>))"
proof -
  have fl: "in_pct (flagged fs pf)" "pf_ap (flagged fs pf) = pf_ap pf" by (simp_all add: flagged_def)
  have same: "(flagged fs pf)\<lparr>pf_ap := pf_ap pf\<rparr> = flagged fs pf" "pf\<lparr>pf_ap := pf_ap pf\<rparr> = pf" by (simp_all add: flagged_def)
  note start = pf_send_def [of send c "flagged fs pf"] and tp = text_put [OF d cl]
  consider (num) "c \<in> {100, 111, 117, 112, 120}" | (str) "c = 115" | (chr) "c = 99" | (other) "c \<notin> {100, 111, 117, 112, 120, 115, 99}" by blast
  then show ?thesis
  proof cases
    case num
    show ?thesis
    proof (cases "\<exists>w rest. pf_ap pf = VA_word w # rest")
      case True
      then show ?thesis using number_put [OF d num cl] num by (auto simp: field_def)
    next
      case False
      then have "va_word (flagged fs pf) = None" "field fs c (pf_ap pf) = None"
        using num by (auto simp: va_word_def field_def fl split: list.split va.split)
      then show ?thesis unfolding start using num fl c by (auto simp: pf_getnum_def)
    qed
  next
    case str
    then have st: "pf_send send c (flagged fs pf) = do {
        (str, pf1) \<leftarrow> va_str (flagged fs pf);
        pf2 \<leftarrow> pf_printstuff send [] [] (case str of None \<Rightarrow> [40, 110, 117, 108, 108, 41] | Some s \<Rightarrow> s) pf1;
        Some (pf_endfield pf2) }" unfolding start using fl c by simp
    show ?thesis
    proof (cases "\<exists>s rest. pf_ap pf = VA_str s # rest")
      case True
      then obtain s rest where s: "pf_ap pf = VA_str s # rest" by blast
      have "length (case s of None \<Rightarrow> [40, 110, 117, 108, 108, 41] | Some t \<Rightarrow> t) < 2 ^ 31"
        using args s by (auto simp: args_ok_def split: option.split)
      from tp [OF this, of rest] show ?thesis unfolding st va_str_def fl s using str by (simp add: field_def s)
    next
      case False
      then show ?thesis unfolding st using str by (auto simp: va_str_def field_def fl split: list.split va.split)
    qed
  next
    case chr
    then have st: "pf_send send c (flagged fs pf) = do {
        (w, pf1) \<leftarrow> va_word (flagged fs pf);
        pf2 \<leftarrow> pf_printstuff send [] [] (if (ucast w :: 8 word) = 0 then [] else [ucast w]) pf1;
        Some (pf_endfield pf2) }" unfolding start using fl c by (cases "va_word (flagged fs pf)") (simp_all split: prod.split)
    show ?thesis
    proof (cases "\<exists>w rest. pf_ap pf = VA_word w # rest")
      case True
      then obtain w rest where w: "pf_ap pf = VA_word w # rest" by blast
      have "filter (\<lambda>c. c \<noteq> 0) [ucast w :: 8 word] = (if (ucast w :: 8 word) = 0 then [] else [ucast w])" by simp
      with tp [of "filter (\<lambda>c. c \<noteq> 0) [ucast w]" rest] show ?thesis unfolding st va_word_def fl w using chr by (simp add: field_def w)
    next
      case False
      then show ?thesis unfolding st using chr by (auto simp: va_word_def field_def fl split: list.split va.split)
    qed
  next
    case other
    then have "pf_send send c (flagged fs pf) = Option.bind (pf_printstuff send [] [] [c] (flagged fs pf)) (\<lambda>pf2. Some (pf_endfield pf2))"
      unfolding start using fl c by simp
    then show ?thesis using tp [of "[c]" "pf_ap pf"] other same by (simp add: field_def)
  qed
qed

lemma modifiers_loop:
  "\<forall>c \<in> set fs. is_modifier c \<Longrightarrow> digits_in fs \<le> 9 \<Longrightarrow> vprintf_loop send (fs @ cs) (flagged [] pf) = vprintf_loop send cs (flagged fs pf)"
proof (induction fs arbitrary: cs rule: rev_induct)
  case (snoc c fs)
  have d: "digits_in fs \<le> 9" using snoc.prems(2) by (simp add: digits_in_def split: if_splits)
  have c: "is_modifier c" "c \<noteq> 0" using snoc.prems(1) by (auto simp: is_modifier_def)
  have "pf_send send c (flagged fs pf) = Some (flagged (fs @ [c]) pf)"
    using modifier_step [OF c(1) snoc.prems(2), of pf] c by (simp add: pf_send_def flagged_def)
  then show ?case using snoc.IH [of "c # cs"] snoc.prems(1) d by simp
qed simp

lemma put_clean:
  assumes "put tx pf = Some pf'" and "pf_endfield pf = pf"
  shows "pf_endfield pf' = pf'" and "pf_ap pf' = pf_ap pf" and "c_int (charcount pf') = charcount pf'"
proof -
  obtain c where c: "pf' = pf\<lparr>clientdata := c, charcount := c_int (charcount pf + int (length tx))\<rparr>"
    using assms(1) by (auto simp: put_def pf_print_def bind_eq_Some_conv)
  show "pf_endfield pf' = pf'" using assms(2) unfolding c by (cases pf) (simp add: pf_endfield_def)
  show "pf_ap pf' = pf_ap pf" by (simp add: c)
  show "c_int (charcount pf') = charcount pf'" using c_int_c_int_add [of "charcount pf + int (length tx)" 0] by (simp add: c)
qed

lemma put_Nil: "c_int (charcount pf) = charcount pf \<Longrightarrow> map_option observed (put [] pf) = Some (observed pf)"
  by (simp add: put_def pf_print_def send_Nil observed_def)

text \<open>Text already sent and the text of the rest of the format make up the whole.\<close>

lemma put_render:
  assumes "\<And>pf'. put tx pf = Some pf' \<Longrightarrow> map_option observed (L pf') = Option.bind r (\<lambda>out. map_option observed (put out pf'))"
  shows "map_option observed (Option.bind (put tx pf) L) = Option.bind (map_option ((@) tx) r) (\<lambda>out. map_option observed (put out pf))"
proof (cases r)
  case None
  then show ?thesis using assms by (cases "put tx pf") auto
next
  case (Some out)
  have "put (tx @ out) pf = Option.bind (put tx pf) (put out)" by (simp add: put_put)
  then show ?thesis using assms Some by (cases "put tx pf") simp_all
qed

lemma loop_put:
  "fmt_ok fmt \<Longrightarrow> args_ok args \<Longrightarrow> pf_endfield pf = pf \<Longrightarrow> pf_ap pf = args \<Longrightarrow> c_int (charcount pf) = charcount pf \<Longrightarrow>
    map_option observed (vprintf_loop send fmt pf) = Option.bind (render fmt args) (\<lambda>out. map_option observed (put out pf))"
proof (induction fmt args arbitrary: pf rule: render.induct)
  case (1 args)
  then show ?case by (simp add: put_Nil)
next
  case (2 c cs args)
  have cok: "c \<noteq> 0" "fmt_ok cs" using 2(3) fmt_ok_drop [OF 2(3), of 1] by (auto simp: fmt_ok_def)
  have np: "\<not> in_pct pf" using arg_cong [OF 2(5), of in_pct] by (simp add: pf_endfield_def)
  show ?case
  proof (cases "c = 37")
    case False
    have "map_option observed (Option.bind (put [c] pf) (vprintf_loop send cs)) =
        Option.bind (map_option ((@) [c]) (render cs args)) (\<lambda>out. map_option observed (put out pf))"
      using 2(1) [OF False cok(2) 2(4)] put_clean [OF _ 2(5)] 2(6) by (intro put_render) auto
    moreover have "pf_send send c pf = put [c] pf" using False cok np by (simp add: pf_send_def put_def)
    moreover have "(@) [c] = (#) c" by auto
    ultimately show ?thesis using False by simp
  next
    case True
    define fs where "fs = takeWhile is_modifier cs"
    have d: "digits_in fs \<le> 9" using fmt_ok_flags [OF 2(3)] by (simp add: fs_def)
    have "pf_send send c pf = Some (flagged [] pf)" using True np start_field [OF 2(5)] by (simp add: pf_send_def)
    then have lp: "vprintf_loop send (c # cs) pf = vprintf_loop send (dropWhile is_modifier cs) (flagged fs pf)"
      using modifiers_loop [OF _ d, of "dropWhile is_modifier cs" pf] set_takeWhileD by (fastforce simp: fs_def)
    show ?thesis
    proof (cases "dropWhile is_modifier cs")
      case Nil
      show ?thesis unfolding lp render.simps Nil using True put_Nil [OF 2(7)] by auto
    next
      case (Cons conv rest)
      have mem: "\<not> is_modifier conv" using hd_dropWhile [of is_modifier cs] Cons by auto
      have rest: "fmt_ok (conv # rest)" using fmt_ok_drop [OF cok(2), of "length (takeWhile is_modifier cs)"] Cons
        by (metis dropWhile_eq_drop)
      have r: "conv \<noteq> 0" "fmt_ok rest" using rest fmt_ok_drop [OF rest, of 1] by (auto simp: fmt_ok_def)
      note cp = conv_put [OF d, of pf, OF _ r(1) mem 2(5), unfolded 2(6), OF 2(4)]
      show ?thesis
      proof (cases "field fs conv args")
        case None
        then show ?thesis unfolding lp Cons using True cp Cons by (simp add: fs_def)
      next
        case (Some tr)
        obtain tx args' where tr: "tr = (tx, args')" by (cases tr)
        let ?pf = "pf\<lparr>pf_ap := args'\<rparr>"
        have cl: "pf_endfield ?pf = ?pf" using 2(5) by (cases pf) (simp add: pf_endfield_def)
        have ok': "args_ok args'" using args_ok_subset [OF 2(4) field_args] Some tr by blast
        have "map_option observed (Option.bind (put tx ?pf) (vprintf_loop send rest)) =
            Option.bind (map_option ((@) tx) (render rest args')) (\<lambda>out. map_option observed (put out ?pf))"
          using put_clean [OF _ cl] True
          by (intro put_render 2(2) [OF _ Cons Some [unfolded fs_def] tr [symmetric] r(2) ok']) auto
        moreover have "map_option observed (put out ?pf) = map_option observed (put out pf)" for out
          by (cases "send (clientdata pf) out") (simp_all add: put_def pf_print_def observed_def)
        ultimately show ?thesis unfolding lp Cons using True cp Cons Some tr by (simp add: fs_def)
      qed
    qed
  qed
qed

lemma vprintf_render:
  assumes "fmt_ok fmt" and "args_ok args"
  shows "vprintf send c fmt args = do { out \<leftarrow> render fmt args; c' \<leftarrow> send c out; Some (c_int (int (length out)), c') }"
proof -
  let ?pf = "pf_init c args"
  have i: "pf_endfield ?pf = ?pf" "pf_ap ?pf = args" "charcount ?pf = 0" "clientdata ?pf = c" by (simp_all add: pf_init_def pf_endfield_def)
  have "vprintf send c fmt args = map_option observed (vprintf_loop send fmt ?pf)"
    by (cases "vprintf_loop send fmt ?pf") (simp_all add: vprintf_def observed_def)
  also have "\<dots> = Option.bind (render fmt args) (\<lambda>out. map_option observed (put out ?pf))"
    using i by (intro loop_put assms) (simp_all add: c_int_def)
  also have "\<dots> = Option.bind (render fmt args) (\<lambda>out. Option.bind (send c out) (\<lambda>c'. Some (c_int (int (length out)), c')))"
    by (rule arg_cong [of _ _ "Option.bind (render fmt args)"])
      (simp add: fun_eq_iff put_def pf_print_def observed_def i map_option_bind cong: Option.bind_cong)
  finally show ?thesis .
qed

end

end
