(* ===== verification/Libc_Mem.thy ===== *)
theory Libc_Mem
  imports Kern_Prelude
begin

text \<open>
  The memory and string functions of \<open>lib/libc\<close> that kernel and libc share: \<open>memcpy.c\<close>, \<open>memmove.c\<close>, \<open>bzero.c\<close>, \<open>memset.c\<close>,
  \<open>memcmp.c\<close>, \<open>strlen.c\<close>, \<open>strcpy.c\<close>, \<open>strcat.c\<close>, \<open>strchr.c\<close>, \<open>strrchr.c\<close>, \<open>strcmp.c\<close>, \<open>strtok_r.c\<close>.

  Memory is a map from addresses to bytes.  An access to an address outside its domain is a fault and panics, so that
  a theorem that a call returns says that it touches mapped memory only.  Loops that look for a terminating zero are
  partial functions into option; on a string in memory they end, which is part of the lemmas.
\<close>

type_synonym c_mem = "nat \<Rightarrow> 8 word option"

definition store_byte :: "nat \<Rightarrow> 8 word \<Rightarrow> c_mem \<Rightarrow> c_mem option" where
  "store_byte a v m = (if m a = None then None else Some (m(a \<mapsto> v)))"

text \<open>A \<open>long\<close> has four bytes; they are read and written together.\<close>

abbreviation sizeof_long :: nat where "sizeof_long \<equiv> 4"

definition load_long :: "nat \<Rightarrow> c_mem \<Rightarrow> (8 word \<times> 8 word \<times> 8 word \<times> 8 word) option" where
  "load_long a m = do { w \<leftarrow> m a; x \<leftarrow> m (a + 1); y \<leftarrow> m (a + 2); z \<leftarrow> m (a + 3); Some (w, x, y, z) }"

definition store_long :: "nat \<Rightarrow> 8 word \<times> 8 word \<times> 8 word \<times> 8 word \<Rightarrow> c_mem \<Rightarrow> c_mem option" where
  "store_long a v m = (case v of (w, x, y, z) \<Rightarrow> do {
     m1 \<leftarrow> store_byte a w m; m2 \<leftarrow> store_byte (a + 1) x m1; m3 \<leftarrow> store_byte (a + 2) y m2; store_byte (a + 3) z m3 })"

section \<open>Blocks of memory\<close>

text \<open>\<open>for (i=0; i<n; i++) d[i] = s[i];\<close> and its mirror image, for bytes and for longs: the
  argument is the number of steps.\<close>

fun copy_bytes_up :: "nat \<Rightarrow> nat \<Rightarrow> nat \<Rightarrow> c_mem \<Rightarrow> c_mem option" where
  "copy_bytes_up dst src 0 m = Some m"
| "copy_bytes_up dst src (Suc n) m = do {
     m1 \<leftarrow> copy_bytes_up dst src n m;
     v \<leftarrow> m1 (src + n);
     store_byte (dst + n) v m1 }"

fun copy_longs_up :: "nat \<Rightarrow> nat \<Rightarrow> nat \<Rightarrow> c_mem \<Rightarrow> c_mem option" where
  "copy_longs_up dst src 0 m = Some m"
| "copy_longs_up dst src (Suc n) m = do {
     m1 \<leftarrow> copy_longs_up dst src n m;
     v \<leftarrow> load_long (src + n * sizeof_long) m1;
     store_long (dst + n * sizeof_long) v m1 }"

fun copy_bytes_down :: "nat \<Rightarrow> nat \<Rightarrow> nat \<Rightarrow> c_mem \<Rightarrow> c_mem option" where
  "copy_bytes_down dst src 0 m = Some m"
| "copy_bytes_down dst src (Suc n) m = do {
     v \<leftarrow> m (src + n);
     m1 \<leftarrow> store_byte (dst + n) v m;
     copy_bytes_down dst src n m1 }"

fun copy_longs_down :: "nat \<Rightarrow> nat \<Rightarrow> nat \<Rightarrow> c_mem \<Rightarrow> c_mem option" where
  "copy_longs_down dst src 0 m = Some m"
| "copy_longs_down dst src (Suc n) m = do {
     v \<leftarrow> load_long (src + n * sizeof_long) m;
     m1 \<leftarrow> store_long (dst + n * sizeof_long) v m;
     copy_longs_down dst src n m1 }"

definition memcpy :: "nat \<Rightarrow> nat \<Rightarrow> nat \<Rightarrow> c_mem \<Rightarrow> c_mem option" where
  "memcpy dst src len m =
     (if dst mod sizeof_long = 0 \<and> src mod sizeof_long = 0 \<and> len mod sizeof_long = 0
      then copy_longs_up dst src (len div sizeof_long) m
      else copy_bytes_up dst src len m)"

definition memmove :: "nat \<Rightarrow> nat \<Rightarrow> nat \<Rightarrow> c_mem \<Rightarrow> c_mem option" where
  "memmove dst src len m =
     (if dst < src then memcpy dst src len m
      else if dst mod sizeof_long = 0 \<and> src mod sizeof_long = 0 \<and> len mod sizeof_long = 0
      then copy_longs_down dst src (len div sizeof_long) m
      else copy_bytes_down dst src len m)"

fun zero_bytes :: "nat \<Rightarrow> 8 word \<Rightarrow> nat \<Rightarrow> c_mem \<Rightarrow> c_mem option" where
  "zero_bytes a v 0 m = Some m"
| "zero_bytes a v (Suc n) m = do { m1 \<leftarrow> zero_bytes a v n m; store_byte (a + n) v m1 }"

fun zero_longs :: "nat \<Rightarrow> nat \<Rightarrow> c_mem \<Rightarrow> c_mem option" where
  "zero_longs a 0 m = Some m"
| "zero_longs a (Suc n) m = do { m1 \<leftarrow> zero_longs a n m; store_long (a + n * sizeof_long) (0, 0, 0, 0) m1 }"

definition bzero :: "nat \<Rightarrow> nat \<Rightarrow> c_mem \<Rightarrow> c_mem option" where
  "bzero a len m =
     (if a mod sizeof_long = 0 \<and> len mod sizeof_long = 0 then zero_longs a (len div sizeof_long) m
      else zero_bytes a 0 len m)"

definition memset :: "nat \<Rightarrow> 8 word \<Rightarrow> nat \<Rightarrow> c_mem \<Rightarrow> c_mem option" where
  "memset a ch len m = zero_bytes a ch len m"

text \<open>\<open>memcmp_from a b i n\<close> is the loop of \<open>memcmp\<close> at index \<open>i\<close> with \<open>n\<close> bytes left.\<close>

fun memcmp_from :: "nat \<Rightarrow> nat \<Rightarrow> nat \<Rightarrow> nat \<Rightarrow> c_mem \<Rightarrow> int option" where
  "memcmp_from a b i 0 m = Some 0"
| "memcmp_from a b i (Suc n) m = do {
     x \<leftarrow> m (a + i); y \<leftarrow> m (b + i);
     if x \<noteq> y then Some (uint x - uint y) else memcmp_from a b (Suc i) n m }"

definition memcmp :: "nat \<Rightarrow> nat \<Rightarrow> nat \<Rightarrow> c_mem \<Rightarrow> int option" where
  "memcmp a b len m = memcmp_from a b 0 len m"

section \<open>Strings\<close>

partial_function (option) strlen_from :: "nat \<Rightarrow> nat \<Rightarrow> c_mem \<Rightarrow> nat option" where
  [code]: "strlen_from s ret m = do { c \<leftarrow> m (s + ret); if c \<noteq> 0 then strlen_from s (ret + 1) m else Some ret }"

definition strlen :: "nat \<Rightarrow> c_mem \<Rightarrow> nat option" where
  "strlen s m = strlen_from s 0 m"

partial_function (option) strcpy_from :: "nat \<Rightarrow> nat \<Rightarrow> nat \<Rightarrow> c_mem \<Rightarrow> c_mem option" where
  [code]: "strcpy_from dest src i m = do {
     c \<leftarrow> m (src + i);
     if c \<noteq> 0 then do { m1 \<leftarrow> store_byte (dest + i) c m; strcpy_from dest src (i + 1) m1 }
     else store_byte (dest + i) 0 m }"

definition strcpy :: "nat \<Rightarrow> nat \<Rightarrow> c_mem \<Rightarrow> c_mem option" where
  "strcpy dest src m = strcpy_from dest src 0 m"

definition strcat :: "nat \<Rightarrow> nat \<Rightarrow> c_mem \<Rightarrow> c_mem option" where
  "strcat dest src m = do { offset \<leftarrow> strlen dest m; strcpy (dest + offset) src m }"

text \<open>A search that finds nothing returns the null pointer, \<open>Some None\<close>.\<close>

partial_function (option) strchr :: "nat \<Rightarrow> 8 word \<Rightarrow> c_mem \<Rightarrow> nat option option" where
  [code]: "strchr s ch m = do {
     c \<leftarrow> m s;
     if c \<noteq> 0 then (if c = ch then Some (Some s) else strchr (s + 1) ch m)
     else Some (if c = ch then Some s else None) }"

fun strrchr_from :: "nat \<Rightarrow> 8 word \<Rightarrow> nat \<Rightarrow> c_mem \<Rightarrow> nat option option" where
  "strrchr_from s ch 0 m = Some None"
| "strrchr_from s ch (Suc i) m = do {
     c \<leftarrow> m (s + i);
     if c = ch then Some (Some (s + i)) else strrchr_from s ch i m }"

definition strrchr :: "nat \<Rightarrow> 8 word \<Rightarrow> c_mem \<Rightarrow> nat option option" where
  "strrchr s ch m = do { n \<leftarrow> strlen s m; strrchr_from s ch (n + 1) m }"

text \<open>Characters are signed: \<open>strcmp\<close> compares \<open>sint\<close>.\<close>

partial_function (option) strcmp_from :: "nat \<Rightarrow> nat \<Rightarrow> nat \<Rightarrow> c_mem \<Rightarrow> int option" where
  [code]: "strcmp_from a b i m = do {
     x \<leftarrow> m (a + i); y \<leftarrow> m (b + i);
     if x \<noteq> 0 \<and> x = y then strcmp_from a b (i + 1) m
     else Some (if sint x > sint y then 1 else if x = y then 0 else - 1) }"

definition strcmp :: "nat \<Rightarrow> nat \<Rightarrow> c_mem \<Rightarrow> int option" where
  "strcmp a b m = strcmp_from a b 0 m"

text \<open>The two loops of \<open>strtok_r\<close>, over separators and over the word.\<close>

partial_function (option) skip_seps :: "nat \<Rightarrow> nat \<Rightarrow> c_mem \<Rightarrow> nat option" where
  [code]: "skip_seps seps head m = do {
     c \<leftarrow> m head;
     if c = 0 then Some head
     else do { w \<leftarrow> strchr seps c m; if w \<noteq> None then skip_seps seps (head + 1) m else Some head } }"

partial_function (option) skip_word :: "nat \<Rightarrow> nat \<Rightarrow> c_mem \<Rightarrow> nat option" where
  [code]: "skip_word seps tail m = do {
     c \<leftarrow> m tail;
     if c = 0 then Some tail
     else do { w \<leftarrow> strchr seps c m; if w = None then skip_word seps (tail + 1) m else Some tail } }"

text \<open>The result is the word, or null, with the new context.\<close>

definition strtok_r :: "nat option \<Rightarrow> nat \<Rightarrow> nat option \<Rightarrow> c_mem \<Rightarrow> (nat option \<times> nat option \<times> c_mem) option" where
  "strtok_r string seps context m =
     (case (if string \<noteq> None then string else context) of
        None \<Rightarrow> Some (None, None, m)
      | Some start \<Rightarrow> do {
          head \<leftarrow> skip_seps seps start m;
          c \<leftarrow> m head;
          if c = 0 then Some (None, None, m)
          else do {
            tail \<leftarrow> skip_word seps head m;
            c \<leftarrow> m tail;
            if c = 0 then Some (Some head, None, m)
            else do {
              m1 \<leftarrow> store_byte tail 0 m;
              Some (Some head, Some (tail + 1), m1) } } })"

end
