(* ===== verification/Libc_Str.thy ===== *)
theory Libc_Str
  imports Libc_Mem
begin

text \<open>
  What the memory and string functions do: a copied block, a string in memory, the words of a string.
\<close>

section \<open>Blocks\<close>

definition mapped :: "c_mem \<Rightarrow> nat \<Rightarrow> nat \<Rightarrow> bool" where
  "mapped m a n \<longleftrightarrow> (\<forall>i < n. m (a + i) \<noteq> None)"

text \<open>The memory after all bytes of a block have been copied at once.\<close>

definition copied :: "nat \<Rightarrow> nat \<Rightarrow> nat \<Rightarrow> c_mem \<Rightarrow> c_mem" where
  "copied dst src n m = (\<lambda>a. if dst \<le> a \<and> a < dst + n then m (src + (a - dst)) else m a)"

definition filled :: "nat \<Rightarrow> 8 word \<Rightarrow> nat \<Rightarrow> c_mem \<Rightarrow> c_mem" where
  "filled a v n m = (\<lambda>b. if a \<le> b \<and> b < a + n then Some v else m b)"

lemma mapped_less: "mapped m a n \<Longrightarrow> k \<le> n \<Longrightarrow> mapped m a k"
  by (simp add: mapped_def)

lemma mapped_block: "mapped m a n \<Longrightarrow> i + k \<le> n \<Longrightarrow> mapped m (a + i) k"
  by (simp add: mapped_def add.assoc)

lemma mapped_nth: "mapped m a n \<Longrightarrow> i < n \<Longrightarrow> \<exists>v. m (a + i) = Some v"
  by (auto simp: mapped_def)

lemma mapped_copied: "mapped m b k \<Longrightarrow> mapped m src n \<Longrightarrow> mapped (copied dst src n m) b k"
proof -
  assume a: "mapped m b k" "mapped m src n"
  show "mapped (copied dst src n m) b k"
    unfolding mapped_def
  proof (intro allI impI)
    fix i
    assume "i < k"
    with a(1) have "m (b + i) \<noteq> None" by (simp add: mapped_def)
    moreover have "dst \<le> b + i \<Longrightarrow> b + i < dst + n \<Longrightarrow> m (src + (b + i - dst)) \<noteq> None"
      using mapped_nth [OF a(2), of "b + i - dst"] by fastforce
    ultimately show "copied dst src n m (b + i) \<noteq> None" unfolding copied_def by simp
  qed
qed

lemma copied_0 [simp]: "copied dst src 0 m = m"
  by (auto simp: copied_def fun_eq_iff)

lemma filled_0 [simp]: "filled a v 0 m = m"
  by (auto simp: filled_def fun_eq_iff)

lemma copied_up: "dst \<le> src \<or> src + k + j \<le> dst \<Longrightarrow> copied (dst + k) (src + k) j (copied dst src k m) = copied dst src (k + j) m"
  by (auto simp: copied_def fun_eq_iff)

lemma copied_down: "src \<le> dst \<Longrightarrow> copied dst src k (copied (dst + k) (src + k) j m) = copied dst src (k + j) m"
  by (auto simp: copied_def fun_eq_iff)

lemma filled_up: "filled (a + k) v j (filled a v k m) = filled a v (k + j) m"
  by (auto simp: filled_def fun_eq_iff)

lemma store_copied: "m src = Some v \<Longrightarrow> mapped m dst 1 \<Longrightarrow> store_byte dst v m = Some (copied dst src 1 m)"
  by (auto simp: store_byte_def mapped_def copied_def fun_eq_iff)

lemma store_filled: "mapped m a 1 \<Longrightarrow> store_byte a v m = Some (filled a v 1 m)"
  by (auto simp: store_byte_def mapped_def filled_def fun_eq_iff)

lemma store_long_mapped:
  assumes "mapped m a 4"
  shows "store_long a (w, x, y, z) m = Some (m(a \<mapsto> w, a + 1 \<mapsto> x, a + 2 \<mapsto> y, a + 3 \<mapsto> z))"
proof -
  have "\<exists>v. m a = Some v" "\<exists>v. m (a + 1) = Some v" "\<exists>v. m (a + 2) = Some v" "\<exists>v. m (a + 3) = Some v"
    using mapped_nth [OF assms, of 0] mapped_nth [OF assms, of 1] mapped_nth [OF assms, of 2] mapped_nth [OF assms, of 3] by simp_all
  then show ?thesis by (auto simp: store_long_def store_byte_def)
qed

lemma four_cases:
  fixes a b :: nat
  assumes "dst \<le> b" "b < dst + 4"
  obtains "b = dst" | "b = dst + 1" | "b = dst + 2" | "b = dst + 3"
  using assms by linarith

lemma copy_long:
  assumes s: "mapped m src 4" and d: "mapped m dst 4"
  shows "\<exists>v. load_long src m = Some v \<and> store_long dst v m = Some (copied dst src 4 m)"
proof -
  obtain w x y z where v: "m src = Some w" "m (src + 1) = Some x" "m (src + 2) = Some y" "m (src + 3) = Some z"
    using mapped_nth [OF s, of 0] mapped_nth [OF s, of 1] mapped_nth [OF s, of 2] mapped_nth [OF s, of 3] by auto
  have "m(dst \<mapsto> w, dst + 1 \<mapsto> x, dst + 2 \<mapsto> y, dst + 3 \<mapsto> z) = copied dst src 4 m"
  proof
    fix b
    show "(m(dst \<mapsto> w, dst + 1 \<mapsto> x, dst + 2 \<mapsto> y, dst + 3 \<mapsto> z)) b = copied dst src 4 m b"
    proof (cases "dst \<le> b \<and> b < dst + 4")
      case True
      then consider "b = dst" | "b = dst + 1" | "b = dst + 2" | "b = dst + 3" by (auto elim: four_cases)
      then show ?thesis using v by cases (simp_all add: copied_def)
    qed (auto simp: copied_def)
  qed
  then show ?thesis using store_long_mapped [OF d, of w x y z] v by (simp add: load_long_def)
qed

lemma fill_long:
  assumes "mapped m a 4"
  shows "store_long a (0, 0, 0, 0) m = Some (filled a 0 4 m)"
proof -
  have "m(a \<mapsto> 0, a + 1 \<mapsto> 0, a + 2 \<mapsto> 0, a + 3 \<mapsto> 0) = filled a 0 4 m"
    by (auto simp: filled_def fun_eq_iff)
  then show ?thesis using store_long_mapped [OF assms] by simp
qed

lemma copy_bytes_up_eq:
  "mapped m src n \<Longrightarrow> mapped m dst n \<Longrightarrow> dst \<le> src \<or> src + n \<le> dst \<Longrightarrow> copy_bytes_up dst src n m = Some (copied dst src n m)"
proof (induction n)
  case (Suc n)
  let ?m = "copied dst src n m"
  have "mapped m src n" "mapped m dst n" using Suc.prems(1,2) by (auto elim: mapped_less)
  then have ih: "copy_bytes_up dst src n m = Some ?m" using Suc.prems(3) by (intro Suc.IH) auto
  obtain v where v: "m (src + n) = Some v" using mapped_nth [OF Suc.prems(1)] by blast
  have v': "?m (src + n) = Some v" using v Suc.prems(3) by (auto simp: copied_def)
  have "mapped ?m (dst + n) 1" using mapped_copied [OF mapped_block [OF Suc.prems(2), of n 1] mapped_less [OF Suc.prems(1), of n]] by simp
  from store_copied [OF v' this] show ?case using ih v' copied_up [of dst src n 1 m] Suc.prems(3) by simp
qed simp

lemma copy_longs_up_eq:
  "mapped m src (n * 4) \<Longrightarrow> mapped m dst (n * 4) \<Longrightarrow> dst \<le> src \<or> src + n * 4 \<le> dst \<Longrightarrow>
    copy_longs_up dst src n m = Some (copied dst src (n * 4) m)"
proof (induction n)
  case (Suc n)
  let ?m = "copied dst src (n * 4) m"
  have ih: "copy_longs_up dst src n m = Some ?m" using Suc.prems by (intro Suc.IH) (auto elim: mapped_less)
  have src: "mapped m src (n * 4)" using Suc.prems(1) by (rule mapped_less) simp
  have "mapped ?m (src + n * 4) 4" "mapped ?m (dst + n * 4) 4"
    using Suc.prems(1,2) by (auto intro!: mapped_copied src mapped_block)
  from copy_long [OF this] obtain v where "load_long (src + n * 4) ?m = Some v"
      "store_long (dst + n * 4) v ?m = Some (copied (dst + n * 4) (src + n * 4) 4 ?m)" by blast
  moreover have "copied (dst + n * 4) (src + n * 4) 4 ?m = copied dst src (n * 4 + 4) m"
    using Suc.prems(3) by (intro copied_up) auto
  ultimately show ?case using ih by (simp add: add.commute)
qed simp

lemma copy_bytes_down_eq:
  "mapped m src n \<Longrightarrow> mapped m dst n \<Longrightarrow> src \<le> dst \<Longrightarrow> copy_bytes_down dst src n m = Some (copied dst src n m)"
proof (induction n arbitrary: m)
  case (Suc n)
  let ?m = "copied (dst + n) (src + n) 1 m"
  obtain v where v: "m (src + n) = Some v" using mapped_nth [OF Suc.prems(1)] by blast
  have b: "mapped m (src + n) 1" "mapped m (dst + n) 1" using Suc.prems(1,2) by (auto intro: mapped_block)
  have "mapped ?m src n" "mapped ?m dst n"
    using mapped_copied [OF _ b(1)] mapped_less [OF Suc.prems(1), of n] mapped_less [OF Suc.prems(2), of n] by auto
  from Suc.IH [OF this Suc.prems(3)] show ?case
    using v store_copied [OF v b(2)] copied_down [OF Suc.prems(3), of n 1 m] by simp
qed simp

lemma copy_longs_down_eq:
  "mapped m src (n * 4) \<Longrightarrow> mapped m dst (n * 4) \<Longrightarrow> src \<le> dst \<Longrightarrow> copy_longs_down dst src n m = Some (copied dst src (n * 4) m)"
proof (induction n arbitrary: m)
  case (Suc n)
  let ?m = "copied (dst + n * 4) (src + n * 4) 4 m"
  have b: "mapped m (src + n * 4) 4" "mapped m (dst + n * 4) 4" using Suc.prems(1,2) by (auto intro: mapped_block)
  obtain v where v: "load_long (src + n * 4) m = Some v" "store_long (dst + n * 4) v m = Some ?m" using copy_long [OF b] by blast
  have "mapped ?m src (n * 4)" "mapped ?m dst (n * 4)"
    using Suc.prems(1,2) by (auto intro!: mapped_copied b(1) elim: mapped_less)
  from Suc.IH [OF this Suc.prems(3)] show ?case
    using v copied_down [OF Suc.prems(3), of "n * 4" 4 m] by (simp add: add.commute)
qed simp

lemma memcpy_eq:
  "mapped m src n \<Longrightarrow> mapped m dst n \<Longrightarrow> dst \<le> src \<or> src + n \<le> dst \<Longrightarrow> memcpy dst src n m = Some (copied dst src n m)"
  using copy_longs_up_eq [of m src "n div 4" dst] copy_bytes_up_eq by (auto simp: memcpy_def dvd_div_mult_self mod_eq_0_iff_dvd)

lemma memmove_eq: "mapped m src n \<Longrightarrow> mapped m dst n \<Longrightarrow> memmove dst src n m = Some (copied dst src n m)"
  using memcpy_eq [of m src n dst] copy_longs_down_eq [of m src "n div 4" dst] copy_bytes_down_eq [of m src n dst]
  by (auto simp: memmove_def dvd_div_mult_self mod_eq_0_iff_dvd)

lemma zero_bytes_eq: "mapped m a n \<Longrightarrow> zero_bytes a v n m = Some (filled a v n m)"
proof (induction n)
  case (Suc n)
  have "mapped m a n" using Suc.prems by (rule mapped_less) simp
  then have "zero_bytes a v n m = Some (filled a v n m)" by (rule Suc.IH)
  moreover have "mapped (filled a v n m) (a + n) 1" using mapped_nth [OF Suc.prems] by (auto simp: mapped_def filled_def)
  ultimately show ?case using store_filled filled_up [of a n v 1 m] by simp
qed simp

lemma zero_longs_eq: "mapped m a (n * 4) \<Longrightarrow> zero_longs a n m = Some (filled a 0 (n * 4) m)"
proof (induction n)
  case (Suc n)
  have "mapped m a (n * 4)" using Suc.prems by (rule mapped_less) simp
  then have "zero_longs a n m = Some (filled a 0 (n * 4) m)" by (rule Suc.IH)
  moreover have "mapped (filled a 0 (n * 4) m) (a + n * 4) 4"
    using mapped_block [OF Suc.prems, of "n * 4" 4] by (auto simp: mapped_def filled_def)
  ultimately show ?case using fill_long filled_up [of a "n * 4" 0 4 m] by (simp add: add.commute)
qed simp

lemma bzero_eq: "mapped m a n \<Longrightarrow> bzero a n m = Some (filled a 0 n m)"
  using zero_longs_eq [of m a "n div 4"] zero_bytes_eq by (auto simp: bzero_def dvd_div_mult_self mod_eq_0_iff_dvd)

section \<open>Strings in memory\<close>

text \<open>The string \<open>s\<close> with its terminating zero stands at address \<open>p\<close>; \<open>span p s\<close> are the addresses it takes.\<close>

fun str_at :: "c_mem \<Rightarrow> nat \<Rightarrow> 8 word list \<Rightarrow> bool" where
  "str_at m p [] \<longleftrightarrow> m p = Some 0"
| "str_at m p (c # cs) \<longleftrightarrow> m p = Some c \<and> c \<noteq> 0 \<and> str_at m (p + 1) cs"

definition span :: "nat \<Rightarrow> 8 word list \<Rightarrow> nat set" where
  "span p s = {p..p + length s}"

lemma str_at_append: "str_at m p (xs @ ys) \<longleftrightarrow> (\<forall>i < length xs. m (p + i) = Some (xs ! i) \<and> xs ! i \<noteq> 0) \<and> str_at m (p + length xs) ys"
  by (induction xs arbitrary: p) (auto simp: less_Suc_eq_0_disj)

lemma str_at_cong: "str_at m p s \<Longrightarrow> (\<And>a. a \<in> span p s \<Longrightarrow> m' a = m a) \<Longrightarrow> str_at m' p s"
  by (induction s arbitrary: p) (auto simp: span_def)

lemma str_at_unique: "str_at m p s \<Longrightarrow> str_at m p t \<Longrightarrow> s = t"
proof (induction s arbitrary: p t)
  case Nil
  then show ?case by (cases t) auto
next
  case (Cons c s)
  then show ?case by (cases t) auto
qed

lemma str_at_nz: "str_at m p s \<Longrightarrow> 0 \<notin> set s"
  by (induction s arbitrary: p) auto

lemma strlen_from_eq: "str_at m (p + k) s \<Longrightarrow> strlen_from p k m = Some (k + length s)"
proof (induction s arbitrary: k)
  case Nil
  then show ?case by (simp add: strlen_from.simps)
next
  case (Cons c s)
  then show ?case using Cons.IH [of "k + 1"] by (simp add: strlen_from.simps [of p k])
qed

lemma strlen_eq: "str_at m p s \<Longrightarrow> strlen p m = Some (length s)"
  using strlen_from_eq [of m p 0 s] by (simp add: strlen_def)

lemma strchr_eq: "str_at m p s \<Longrightarrow> c \<noteq> 0 \<Longrightarrow>
    strchr p c m = Some (if c \<in> set s then Some (p + length (takeWhile (\<lambda>x. x \<noteq> c) s)) else None)"
  by (induction s arbitrary: p) (auto simp: strchr.simps)

lemma strcmp_from_eq:
  assumes "str_at m (p + i) s" and "str_at m (q + i) t"
  shows "\<exists>r. strcmp_from p q i m = Some r \<and> (r = 0 \<longleftrightarrow> s = t)"
  using assms
proof (induction s arbitrary: i t)
  case Nil
  then show ?case by (cases t) (auto simp: strcmp_from.simps)
next
  case (Cons c s)
  show ?case
  proof (cases t)
    case Nil
    then show ?thesis using Cons.prems by (auto simp: strcmp_from.simps)
  next
    case (Cons d t')
    then show ?thesis using Cons.prems Cons.IH [of "i + 1" t'] \<open>t = d # t'\<close>
      by (cases "c = d") (auto simp: strcmp_from.simps [of p q i])
  qed
qed

lemma strcmp_eq: "str_at m p s \<Longrightarrow> str_at m q t \<Longrightarrow> \<exists>r. strcmp p q m = Some r \<and> (r = 0 \<longleftrightarrow> s = t)"
  using strcmp_from_eq [of m p 0 s q t] by (simp add: strcmp_def)

lemma strcpy_from_eq:
  assumes "str_at m (src + i) s" and "mapped m (dst + i) (length s + 1)" and "{dst + i..dst + i + length s} \<inter> {src + i..src + i + length s} = {}"
  shows "\<exists>m'. strcpy_from dst src i m = Some m' \<and> str_at m' (dst + i) s \<and> (\<forall>a. a \<notin> span (dst + i) s \<longrightarrow> m' a = m a)"
  using assms
proof (induction s arbitrary: i m)
  case Nil
  then show ?case by (auto simp: strcpy_from.simps store_byte_def mapped_def span_def)
next
  case (Cons c s)
  define m1 where "m1 = m(dst + i \<mapsto> c)"
  have c: "m (src + i) = Some c" "c \<noteq> 0" "str_at m (src + (i + 1)) s" using Cons.prems(1) by simp_all
  have st: "store_byte (dst + i) c m = Some m1" using mapped_nth [OF Cons.prems(2), of 0] by (auto simp: store_byte_def m1_def)
  have ds: "dst + i \<notin> {src + i..src + i + length (c # s)}" using Cons.prems(3) by auto
  have 1: "str_at m1 (src + (i + 1)) s" by (rule str_at_cong [OF c(3)]) (use ds in \<open>auto simp: m1_def span_def\<close>)
  have 2: "mapped m1 (dst + (i + 1)) (length s + 1)"
    using mapped_block [OF Cons.prems(2), of 1 "length s + 1"] by (auto simp: mapped_def m1_def)
  have 3: "{dst + (i + 1)..dst + (i + 1) + length s} \<inter> {src + (i + 1)..src + (i + 1) + length s} = {}"
    using Cons.prems(3) by fastforce
  obtain m' where m': "strcpy_from dst src (i + 1) m1 = Some m'" "str_at m' (dst + (i + 1)) s" "\<forall>a. a \<notin> span (dst + (i + 1)) s \<longrightarrow> m' a = m1 a"
    using Cons.IH [OF 1 2 3] by blast
  have "m' (dst + i) = Some c" using m'(3) by (auto simp: span_def m1_def)
  moreover have "\<forall>a. a \<notin> span (dst + i) (c # s) \<longrightarrow> m' a = m a" using m'(3) by (auto simp: span_def m1_def)
  ultimately show ?case using c st m'(1,2) by (auto simp: strcpy_from.simps [of dst src i])
qed

lemma strcpy_eq:
  assumes "str_at m src s" and "mapped m dst (length s + 1)" and "span dst s \<inter> span src s = {}"
  shows "\<exists>m'. strcpy dst src m = Some m' \<and> str_at m' dst s \<and> (\<forall>a. a \<notin> span dst s \<longrightarrow> m' a = m a)"
  using strcpy_from_eq [of m src 0 s dst] assms by (simp add: strcpy_def span_def)

section \<open>Words\<close>

text \<open>The words of a string with the separators \<open>S\<close>: its maximal parts without separators.\<close>

function words_of :: "8 word set \<Rightarrow> 8 word list \<Rightarrow> 8 word list list" where
  "words_of S s = (let t = dropWhile (\<lambda>c. c \<in> S) s in
     if t = [] then [] else takeWhile (\<lambda>c. c \<notin> S) t # words_of S (dropWhile (\<lambda>c. c \<notin> S) t))"
  by pat_completeness auto
termination
proof (relation "measure (\<lambda>(S, s). length s)", simp, clarsimp simp del: dropWhile_eq_Nil_conv)
  fix S s
  assume "dropWhile (\<lambda>c. c \<in> S) s \<noteq> []"
  then obtain c t where t: "dropWhile (\<lambda>c. c \<in> S) s = c # t" "c \<notin> S" using hd_dropWhile [of "\<lambda>c. c \<in> S" s] by (cases "dropWhile (\<lambda>c. c \<in> S) s") auto
  have "length (dropWhile (\<lambda>c. c \<notin> S) (c # t)) \<le> length t" using t(2) by (simp add: length_dropWhile_le)
  also have "length t < length s" using length_dropWhile_le [of "\<lambda>c. c \<in> S" s] t(1) by simp
  finally show "length (dropWhile (\<lambda>c. c \<notin> S) (dropWhile (\<lambda>c. c \<in> S) s)) < length s" using t(1) by simp
qed

declare words_of.simps [simp del]

lemma words_of_Nil: "dropWhile (\<lambda>c. c \<in> S) s = [] \<Longrightarrow> words_of S s = []"
  by (subst words_of.simps) (simp add: Let_def)

text \<open>The separator that ends a word may be skipped with it, as \<open>strtok_r\<close> does.\<close>

lemma words_of_Cons: "dropWhile (\<lambda>c. c \<in> S) s = t \<Longrightarrow> t \<noteq> [] \<Longrightarrow>
    words_of S s = takeWhile (\<lambda>c. c \<notin> S) t # words_of S (tl (dropWhile (\<lambda>c. c \<notin> S) t))"
proof -
  assume t: "dropWhile (\<lambda>c. c \<in> S) s = t" "t \<noteq> []"
  let ?r = "dropWhile (\<lambda>c. c \<notin> S) t"
  have "words_of S ?r = words_of S (tl ?r)"
  proof (cases ?r)
    case (Cons c r)
    then have "c \<in> S" using hd_dropWhile [of "\<lambda>c. c \<notin> S" t] by auto
    then have "dropWhile (\<lambda>c. c \<in> S) (c # r) = dropWhile (\<lambda>c. c \<in> S) r" by simp
    then show ?thesis unfolding Cons list.sel words_of.simps [of S "c # r"] words_of.simps [of S r] by (simp only:)
  next
    case Nil
    then show ?thesis by (simp only: list.sel)
  qed
  then show ?thesis using t by (subst words_of.simps) (simp add: Let_def)
qed

lemma skip_seps_eq:
  "str_at m p s \<Longrightarrow> str_at m seps S \<Longrightarrow> skip_seps seps p m = Some (p + length (takeWhile (\<lambda>c. c \<in> set S) s))"
proof (induction s arbitrary: p)
  case Nil
  then show ?case by (simp add: skip_seps.simps)
next
  case (Cons c s)
  then show ?case using Cons.IH [of "p + 1"] strchr_eq [OF Cons.prems(2), of c] by (auto simp: skip_seps.simps [of seps p])
qed

lemma skip_word_eq:
  "str_at m p s \<Longrightarrow> str_at m seps S \<Longrightarrow> skip_word seps p m = Some (p + length (takeWhile (\<lambda>c. c \<notin> set S) s))"
proof (induction s arbitrary: p)
  case Nil
  then show ?case by (simp add: skip_word.simps)
next
  case (Cons c s)
  then show ?case using Cons.IH [of "p + 1"] strchr_eq [OF Cons.prems(2), of c] by (auto simp: skip_word.simps [of seps p])
qed

lemma str_at_first: "str_at m p s \<Longrightarrow> m p = Some (if s = [] then 0 else hd s)" "str_at m p s \<Longrightarrow> s \<noteq> [] \<Longrightarrow> hd s \<noteq> 0"
  by (cases s; simp)+

lemma str_at_dropWhile: "str_at m p s \<Longrightarrow> str_at m (p + length (takeWhile P s)) (dropWhile P s)"
  using str_at_append [of m p "takeWhile P s" "dropWhile P s"] by simp

text \<open>
  One step of \<open>strtok_r\<close> on the rest \<open>s\<close> of the string at \<open>p\<close>: either no word is left, or the next word now stands as a string of its own,
  what follows its separator is the new rest, and at most the byte after the word has changed.
\<close>

lemma strtok_step:
  assumes s: "str_at m p s" and seps: "str_at m seps S" and arg: "string = Some p \<or> string = None \<and> context = Some p"
  defines "t \<equiv> dropWhile (\<lambda>c. c \<in> set S) s"
  shows "if t = [] then strtok_r string seps context m = Some (None, None, m)
    else \<exists>q context' m'. strtok_r string seps context m = Some (Some q, context', m') \<and> q = p + length (takeWhile (\<lambda>c. c \<in> set S) s) \<and>
      str_at m' q (takeWhile (\<lambda>c. c \<notin> set S) t) \<and>
      (case context' of None \<Rightarrow> dropWhile (\<lambda>c. c \<notin> set S) t = [] \<and> m' = m
       | Some p' \<Rightarrow> p' = q + length (takeWhile (\<lambda>c. c \<notin> set S) t) + 1 \<and> dropWhile (\<lambda>c. c \<notin> set S) t \<noteq> [] \<and>
           str_at m p' (tl (dropWhile (\<lambda>c. c \<notin> set S) t)) \<and> m' = m(p' - 1 \<mapsto> 0))"
proof -
  define q where "q = p + length (takeWhile (\<lambda>c. c \<in> set S) s)"
  define w where "w = takeWhile (\<lambda>c. c \<notin> set S) t"
  define r where "r = dropWhile (\<lambda>c. c \<notin> set S) t"
  have st: "(if string \<noteq> None then string else context) = Some p" using arg by auto
  have t: "str_at m q t" unfolding q_def t_def using s by (rule str_at_dropWhile)
  have r: "str_at m (q + length w) r" unfolding w_def r_def using t by (rule str_at_dropWhile)
  have wr: "t = w @ r" by (simp add: w_def r_def)
  note sk = skip_seps_eq [OF s seps, folded q_def] and sw = skip_word_eq [OF t seps, folded w_def]
  show ?thesis
  proof (cases "t = []")
    case True
    then show ?thesis using st sk str_at_first(1) [OF t] by (simp add: strtok_r_def)
  next
    case False
    note hd = str_at_first [OF t] str_at_first [OF r]
    show ?thesis
    proof (cases "r = []")
      case True
      then have "strtok_r string seps context m = Some (Some q, None, m)"
        using False st sk sw hd by (simp add: strtok_r_def)
      then show ?thesis using False t wr True unfolding w_def [symmetric] r_def [symmetric] q_def [symmetric] by auto
    next
      case r0: False
      define m' where "m' = m(q + length w \<mapsto> 0)"
      have "store_byte (q + length w) 0 m = Some m'" using hd r0 by (simp add: store_byte_def m'_def)
      then have run: "strtok_r string seps context m = Some (Some q, Some (q + length w + 1), m')"
        using False r0 st sk sw hd by (simp add: strtok_r_def)
      have "str_at m' q w" using t str_at_append [of m' q w "[]"] unfolding wr by (auto simp: str_at_append [of m] m'_def)
      moreover have "str_at m (q + length w + 1) (tl r)" using r r0 by (cases r) auto
      ultimately show ?thesis using False run r0 unfolding w_def [symmetric] r_def [symmetric] q_def [symmetric] by (auto simp: m'_def)
    qed
  qed
qed

end
