(* ===== verification/Libc_Props.thy ===== *)
theory Libc_Props
  imports Printf_Sink Libc_Str
begin

text \<open>
  The properties of the library functions: overlapping moves, formatted output into a buffer, and that \<open>atoi\<close> reads what \<open>%d\<close> prints.
\<close>

section \<open>Moving memory\<close>

text \<open>
  C23: \<open>memmove\<close> moves a block correctly however source and destination overlap and whatever their alignment: the destination gets the
  bytes that the source had before the call, every other byte stays, and only the two blocks are touched.  It gets there by
  \<open>memcpy\<close>, by longs or by bytes, upwards when the destination is below the source and downwards otherwise.
\<close>

theorem memmove_correct:
  assumes "mapped m src len" and "mapped m dst len"
  shows "memmove dst src len m = Some (\<lambda>a. if dst \<le> a \<and> a < dst + len then m (src + (a - dst)) else m a)"
  using memmove_eq [OF assms] by (simp add: copied_def)

definition ex_mem :: c_mem where
  "ex_mem a = (if 4 \<le> a \<and> a < 20 then Some (word_of_nat a) else None)"

theorem memmove_correct_witness:
  "memmove 8 4 8 ex_mem = Some (\<lambda>a. if 8 \<le> a \<and> a < 8 + 8 then ex_mem (4 + (a - 8)) else ex_mem a)"
  by (rule memmove_correct) (auto simp: mapped_def ex_mem_def)

section \<open>Printing into a buffer\<close>

interpretation snp: output_sink snprintf_send
proof
  show "snprintf_send c [] = Some c" for c by simp
  show "snprintf_send c (a @ b) = Option.bind (snprintf_send c a) (\<lambda>c'. snprintf_send c' b)" for c a b
  proof (induction a arbitrary: c)
    case (Cons x a)
    then show ?case by (cases "mem_write (snp_buf c) (int (snp_bufpos c)) x") auto
  qed simp
qed

lemma snprintf_send_full: "\<not> snp_bufpos s < snp_buflen s \<Longrightarrow> snprintf_send s tx = Some s"
  by (induction tx) simp_all

lemma snprintf_send_eq:
  "snp_buf s = Some b \<Longrightarrow> snp_bufpos s \<le> snp_buflen s \<Longrightarrow> snp_buflen s \<le> length b \<Longrightarrow>
    snprintf_send s tx = Some (s\<lparr>snp_buf := Some (take (snp_bufpos s) b @ take (snp_buflen s - snp_bufpos s) tx @
        drop (snp_bufpos s + length (take (snp_buflen s - snp_bufpos s) tx)) b),
      snp_bufpos := snp_bufpos s + length (take (snp_buflen s - snp_bufpos s) tx)\<rparr>)"
proof (induction tx arbitrary: s b)
  case (Cons c tx)
  show ?case
  proof (cases "snp_bufpos s < snp_buflen s")
    case True
    let ?p = "snp_bufpos s"
    define s1 where "s1 = s\<lparr>snp_buf := Some (b[?p := c]), snp_bufpos := ?p + 1\<rparr>"
    have p: "?p < length b" using True Cons.prems(3) by simp
    have st: "snprintf_send s (c # tx) = snprintf_send s1 tx" using True p Cons.prems(1) by (simp add: mem_write_def s1_def)
    have t: "take (Suc ?p) (b[?p := c]) = take ?p b @ [c]" using p by (simp add: take_Suc_conv_app_nth)
    have n: "snp_buflen s - ?p = Suc (snp_buflen s - Suc ?p)" using True by simp
    show ?thesis unfolding st using Cons.IH [of s1 "b[?p := c]"] True Cons.prems by (simp add: s1_def t n)
  next
    case False
    then show ?thesis using Cons.prems snprintf_send_full [OF False, of "c # tx"] by (cases s) simp
  qed
qed (cases s; simp)

lemma snprintf_eq:
  assumes f: "fmt_ok fmt" and a: "args_ok args" and r: "render fmt args = Some out" and len: "len \<le> length b"
  shows "snprintf (Some b) len fmt args = Some (c_int (int (length out)),
    Some (if len = 0 then b else take (len - 1) out @ 0 # drop (length (take (len - 1) out) + 1) b))"
proof -
  define n where "n = (if len = 0 then 0 else len - 1)"
  let ?s = "\<lparr>snp_buf = Some b, snp_buflen = n, snp_bufpos = 0\<rparr>"
  have n: "n \<le> length b" using len by (auto simp: n_def)
  have send: "snprintf_send ?s out = Some \<lparr>snp_buf = Some (take n out @ drop (length (take n out)) b), snp_buflen = n, snp_bufpos = length (take n out)\<rparr>"
    using snprintf_send_eq [of ?s b out] n by simp
  have "0 < len \<Longrightarrow> length (take n out) < length b" using len by (simp add: n_def)
  then have upd: "0 < len \<Longrightarrow> (take n out @ drop (length (take n out)) b)[length (take n out) := 0] = take n out @ 0 # drop (length (take n out) + 1) b"
    by (simp add: list_update_append Cons_nth_drop_Suc [symmetric])
  have run: "snprintf (Some b) len fmt args = do {
      buf' \<leftarrow> (if len > 0 then mem_write (Some (take n out @ drop (length (take n out)) b)) (int (length (take n out))) 0
        else Some (Some (take n out @ drop (length (take n out)) b)));
      Some (c_int (int (length out)), buf') }"
    unfolding snprintf_def vsnprintf_def snp.vprintf_render [OF f a] r n_def [symmetric] using send by simp
  show ?thesis
  proof (cases "len = 0")
    case True
    then show ?thesis unfolding run by (simp add: n_def)
  next
    case False
    then have "n = len - 1" "length (take n out) < length b" "0 < len" using len by (auto simp: n_def)
    then show ?thesis unfolding run using upd by (simp add: mem_write_def)
  qed
qed


text \<open>\<open>[%5d|%-4s|%#x]\<close> with -42, \<open>ab\<close> and 255 into a buffer of twelve bytes\<close>

definition ex_fmt :: chars where
  "ex_fmt = [91, 37, 53, 100, 124, 37, 45, 52, 115, 124, 37, 35, 120, 93]"

definition ex_args :: "va list" where
  "ex_args = [VA_word (- 42), VA_str (Some [97, 98]), VA_word 255]"

lemma ex_fmt_ok: "fmt_ok ex_fmt" "args_ok ex_args"
proof -
  have l: "length (filter P (takeWhile Q (drop i ex_fmt))) \<le> 9" if "length (takeWhile Q (drop i ex_fmt)) \<le> 9" for P Q i
    using that length_filter_le le_trans by blast
  have "\<forall>i \<in> {..<14}. length (takeWhile is_modifier (drop i ex_fmt)) \<le> 9"
    by (simp add: lessThan_nat_numeral lessThan_Suc ex_fmt_def is_modifier_def)
  then show "fmt_ok ex_fmt" using l by (auto simp: fmt_ok_def ex_fmt_def)
  show "args_ok ex_args" by (auto simp: args_ok_def ex_args_def)
qed

lemma ex_render: "render ex_fmt ex_args = Some [91, 32, 32, 45, 52, 50, 124, 97, 98, 32, 32, 124, 48, 120, 102, 102, 93]"
  by (simp add: ex_fmt_def ex_args_def is_modifier_def field_def number_field_def padded_def field_width_def dec_value_def zero_fill_def base_prefix_def
      numeral_str.simps digit_char_def) (simp add: numeral_2_eq_2)


section \<open>Reading numbers back\<close>

lemma digit_char_dec:
  assumes "d < 10"
  shows "is_digit (digit_char d)" and "(ucast (digit_char d - 48) :: 32 word) = word_of_nat d"
proof -
  have "d \<in> {0..<10}" using assms by simp
  then show "is_digit (digit_char d)" "(ucast (digit_char d - 48) :: 32 word) = word_of_nat d"
    by (auto simp: atLeastLessThan_nat_numeral digit_char_def)
qed

lemma atoi_digits_append: "\<forall>c \<in> set a. is_digit c \<Longrightarrow> atoi_digits (a @ b) v = atoi_digits b (atoi_digits a v)"
  by (induction a arbitrary: v) simp_all

lemma numeral_digits: "\<forall>c \<in> set (numeral_str 10 n). is_digit c"
proof (induction "10 :: nat" n rule: numeral_str.induct)
  case (1 n)
  show ?case
  proof (cases "n < 10")
    case True
    then show ?thesis using digit_char_dec(1) by (simp add: numeral_str_small)
  next
    case False
    then have "\<forall>c \<in> set (numeral_str 10 (n div 10)). is_digit c" using 1 by simp
    then show ?thesis using False digit_char_dec(1) [of "n mod 10"] by (auto simp: numeral_str_step [of 10 n])
  qed
qed

lemma atoi_digits_numeral: "atoi_digits (numeral_str 10 n) 0 = word_of_nat n"
proof (induction "10 :: nat" n rule: numeral_str.induct)
  case (1 n)
  show ?case
  proof (cases "n < 10")
    case True
    then show ?thesis using digit_char_dec by (simp add: numeral_str_small)
  next
    case False
    then have "atoi_digits (numeral_str 10 (n div 10)) 0 = word_of_nat (n div 10)" using 1 by simp
    moreover have "word_of_nat (n div 10) * 10 + word_of_nat (n mod 10) = (word_of_nat (n div 10 * 10 + n mod 10) :: 32 word)"
      by (simp only: of_nat_add of_nat_mult of_nat_numeral)
    ultimately show ?thesis using False digit_char_dec [of "n mod 10"]
      by (simp add: numeral_str_step [of 10 n] atoi_digits_append numeral_digits)
  qed
qed

lemma number_field_plain: "number_field [] 100 w = (if sint w < 0 then [45] else []) @ numeral_str 10 (nat \<bar>sint w\<bar>)"
  by (simp add: number_field_def padded_def field_width_def dec_value_def zero_fill_def)

lemma atoi_number: "atoi (number_field [] 100 w) = sint w"
proof -
  let ?s = "numeral_str 10 (nat \<bar>sint w\<bar>)"
  obtain c cs where c: "?s = c # cs" using numeral_length_pos [of 10 "nat \<bar>sint w\<bar>"] by (cases ?s) auto
  have "is_digit c" using numeral_digits [of "nat \<bar>sint w\<bar>"] unfolding c by simp
  then have nb: "c \<noteq> 32" "c \<noteq> 9" "c \<noteq> 45" "c \<noteq> 43" by auto
  have v: "atoi_digits ?s 0 = word_of_nat (nat \<bar>sint w\<bar>)" by (rule atoi_digits_numeral)
  show ?thesis
  proof (cases "sint w < 0")
    case True
    then have "- (word_of_nat (nat \<bar>sint w\<bar>)) = w" using unat_abs(1) [OF True, symmetric] by simp
    then show ?thesis using True v by (simp add: number_field_plain atoi_def)
  next
    case False
    then have "word_of_nat (nat \<bar>sint w\<bar>) = w" using unat_abs(2) [OF False, symmetric] by simp
    then show ?thesis using False v nb c by (simp add: number_field_plain atoi_def)
  qed
qed

text \<open>
  C24: \<open>atoi\<close> reads back what \<open>%d\<close> prints, for every \<open>int\<close>, the smallest included, whose absolute value is not an \<open>int\<close>: the string
  that \<open>snprintf\<close> leaves in a buffer of at least twelve bytes is a numeral that \<open>atoi\<close> turns into the same number.
\<close>

theorem snprintf_atoi:
  assumes "12 \<le> len" and "len \<le> length b"
  shows "\<exists>n b'. snprintf (Some b) len [37, 100] [VA_word w] = Some (n, Some b') \<and> n = int (length (takeWhile (\<lambda>c. c \<noteq> 0) b')) \<and>
    atoi (takeWhile (\<lambda>c. c \<noteq> 0) b') = sint w"
proof -
  let ?out = "number_field [] 100 w"
  have f: "fmt_ok [37, 100]" "args_ok [VA_word w]" by (auto simp: fmt_ok_def args_ok_def is_modifier_def less_Suc_eq)
  have r: "render [37, 100] [VA_word w] = Some ?out" by (simp add: is_modifier_def field_def)
  have "nat \<bar>sint w\<bar> = unat (if sint w < 0 then - w else w)" using unat_abs [of w] by simp
  then have "nat \<bar>sint w\<bar> < 10 ^ 10" using unat_lt [of "if sint w < 0 then - w else w"] by simp
  then have "length (numeral_str 10 (nat \<bar>sint w\<bar>)) \<le> 10" by (subst numeral_length) simp_all
  then have len: "length ?out \<le> 11" unfolding number_field_plain by (cases "sint w < 0") simp_all
  have nz: "\<forall>c \<in> set ?out. c \<noteq> 0"
    using numeral_str_nz [of 10 "nat \<bar>sint w\<bar>"] unfolding number_field_plain by auto
  have "take (len - 1) ?out = ?out" using len assms(1) by simp
  then have "snprintf (Some b) len [37, 100] [VA_word w] = Some (int (length ?out), Some (?out @ 0 # drop (length ?out + 1) b))"
    using snprintf_eq [OF f r assms(2)] assms(1) len c_int_id [of "int (length ?out)"] by (auto simp: min_def)
  moreover have "takeWhile (\<lambda>c. c \<noteq> 0) (?out @ 0 # drop (length ?out + 1) b) = ?out" using nz by (simp add: takeWhile_append2)
  ultimately show ?thesis using atoi_number [of w] by auto
qed

theorem snprintf_atoi_witness:
  "\<exists>n b'. snprintf (Some (replicate 12 7)) 12 [37, 100] [VA_word (- (2 ^ 31))] = Some (n, Some b') \<and> atoi (takeWhile (\<lambda>c. c \<noteq> 0) b') = - (2 ^ 31)"
  using snprintf_atoi [of 12 "replicate 12 7" "- (2 ^ 31)"] by auto

end
