(* ===== verification/Console.thy ===== *)
theory Console
  imports Printf_Sink Uio
begin

text \<open>
  The console of \<open>kern/dev/generic/console.c\<close>, \<open>kprintf\<close> of \<open>kern/lib/kprintf.c\<close>, the line editor \<open>kern/lib/kgets.c\<close> and the beep.

  The state has the characters given to the device so far and those that will be typed.  A character is given to the device by
  polling or with interrupts, as the processor's state demands; either way it is given to it.  \<open>getch\<close> waits for the
  next character typed; when no more will be typed it never returns, which is \<open>None\<close> here.
\<close>

record con =
  the_console :: bool
  delayed_outbuf :: chars
  con_out :: chars
  con_in :: chars
  the_beep :: bool
  con_beeps :: nat

abbreviation DELAYBUFSIZE :: nat where "DELAYBUFSIZE \<equiv> 1024"

section \<open>Characters\<close>

definition putch_delayed :: "8 word \<Rightarrow> con \<Rightarrow> con option" where
  "putch_delayed ch cs = do {
     kassert (length (delayed_outbuf cs) < DELAYBUFSIZE);
     Some (cs\<lparr>delayed_outbuf := delayed_outbuf cs @ [ch]\<rparr>) }"

definition putch :: "8 word \<Rightarrow> con \<Rightarrow> con option" where
  "putch ch cs = (if \<not> the_console cs then putch_delayed ch cs else Some (cs\<lparr>con_out := con_out cs @ [ch]\<rparr>))"

definition getch :: "con \<Rightarrow> (8 word \<times> con) option" where
  "getch cs = do {
     kassert (the_console cs);
     case con_in cs of [] \<Rightarrow> None | c # rest \<Rightarrow> Some (c, cs\<lparr>con_in := rest\<rparr>) }"

fun console_send :: "con sendfunc" where
  "console_send cs [] = Some cs"
| "console_send cs (c # data) = do { cs1 \<leftarrow> putch c cs; console_send cs1 data }"

definition flush_delay_buf :: "con \<Rightarrow> con option" where
  "flush_delay_buf cs = do { cs1 \<leftarrow> console_send cs (delayed_outbuf cs); Some (cs1\<lparr>delayed_outbuf := []\<rparr>) }"

definition kprintf :: "chars \<Rightarrow> va list \<Rightarrow> con \<Rightarrow> (int \<times> con) option" where
  "kprintf fmt args cs = vprintf console_send cs fmt args"

definition chars_of :: "string \<Rightarrow> chars" where
  "chars_of s = map of_char s"

definition beep :: "con \<Rightarrow> con option" where
  "beep cs = (if the_beep cs then Some (cs\<lparr>con_beeps := con_beeps cs + 1\<rparr>)
     else do { (_, cs1) \<leftarrow> kprintf (chars_of ''beep: Warning: no beep device'' @ [10]) [] cs; Some cs1 })"

text \<open>The part of \<open>config_con\<close> after the memory for semaphores and locks has been found: the device is the console from now on and
  is given what was printed before.\<close>

definition config_con :: "nat \<Rightarrow> bool \<Rightarrow> con \<Rightarrow> (unit, con) kcall" where
  "config_con unit_no mem cs =
     (if unit_no > 0 then do { kassert (the_console cs); Some (Inl ENODEV, cs) }
      else do {
        kassert (\<not> the_console cs);
        if \<not> mem then Some (Inl ENOMEM, cs)
        else do { cs1 \<leftarrow> flush_delay_buf (cs\<lparr>the_console := True\<rparr>); Some (Inr (), cs1) } })"

section \<open>The device\<close>

text \<open>The loop of \<open>con_io\<close>; the lock is taken before it and released after it on every path.\<close>

partial_function (option) con_io :: "uio \<Rightarrow> con \<Rightarrow> ((errno + unit) \<times> uio \<times> con) option" where
  [code]: "con_io u cs =
     (if uio_resid u > 0 then
        (if uio_rw u = UIO_READ then do {
           (c, cs1) \<leftarrow> getch cs;
           let ch = (if c = 13 then 10 else c) in do {
             (r, u1) \<leftarrow> uiomove [ch] u;
             case r of Inl e \<Rightarrow> Some (Inl e, u1, cs1)
             | Inr _ \<Rightarrow> if ch = 10 then Some (Inr (), u1, cs1) else con_io u1 cs1 } }
         else do {
           (r, u1) \<leftarrow> uiomove [0] u;
           case r of Inl e \<Rightarrow> Some (Inl e, u1, cs)
           | Inr bs \<Rightarrow> do {
               cs1 \<leftarrow> (if hd bs = 10 then putch 13 cs else Some cs);
               cs2 \<leftarrow> putch (hd bs) cs1;
               con_io u1 cs2 } })
      else Some (Inr (), u, cs))"

section \<open>Reading a line\<close>

definition backsp :: "con \<Rightarrow> con option" where
  "backsp cs = console_send cs [8, 32, 8]"

text \<open>The loops of \<open>^U\<close> and \<open>^W\<close>: characters are erased while the test on the last one holds.\<close>

fun erase_while :: "(8 word \<Rightarrow> bool) \<Rightarrow> chars \<Rightarrow> nat \<Rightarrow> con \<Rightarrow> (nat \<times> con) option" where
  "erase_while P buf 0 cs = Some (0, cs)"
| "erase_while P buf (Suc pos) cs = do {
     c \<leftarrow> mem_read (Some buf) (int pos);
     if P c then do { cs1 \<leftarrow> backsp cs; erase_while P buf pos cs1 } else Some (Suc pos, cs) }"

text \<open>The end of \<open>kgets\<close>: \<open>buf[pos] = 0\<close>.\<close>

definition kgets_end :: "chars \<Rightarrow> nat \<Rightarrow> con \<Rightarrow> (chars \<times> con) option" where
  "kgets_end buf pos cs = do { p \<leftarrow> mem_write (Some buf) (int pos) 0; b \<leftarrow> p; Some (b, cs) }"

partial_function (option) kgets_loop :: "nat \<Rightarrow> chars \<Rightarrow> nat \<Rightarrow> con \<Rightarrow> (chars \<times> con) option" where
  [code]: "kgets_loop maxlen buf pos cs = do {
     (ch, cs) \<leftarrow> getch cs;
     if ch = 10 \<or> ch = 13 then do { cs \<leftarrow> putch 10 cs; kgets_end buf pos cs }
     else if 32 \<le> ch \<and> ch < 127 \<and> pos < c_usub maxlen 1 then do {
       cs \<leftarrow> putch ch cs;
       p \<leftarrow> mem_write (Some buf) (int pos) ch; buf \<leftarrow> p;
       kgets_loop maxlen buf (pos + 1) cs }
     else if (ch = 8 \<or> ch = 127) \<and> pos > 0 then do { cs \<leftarrow> backsp cs; kgets_loop maxlen buf (pos - 1) cs }
     else if ch = 3 then do { cs \<leftarrow> console_send cs [94, 67, 10]; kgets_end buf 0 cs }
     else if ch = 18 then do {
       p \<leftarrow> mem_write (Some buf) (int pos) 0; buf \<leftarrow> p;
       (_, cs) \<leftarrow> kprintf (chars_of ''^R'' @ [10] @ chars_of ''%s'') [VA_str (Some (takeWhile (\<lambda>c. c \<noteq> 0) buf))] cs;
       kgets_loop maxlen buf pos cs }
     else if ch = 21 then do { (pos, cs) \<leftarrow> erase_while (\<lambda>_. True) buf pos cs; kgets_loop maxlen buf pos cs }
     else if ch = 23 then do {
       (pos, cs) \<leftarrow> erase_while (\<lambda>c. c = 32) buf pos cs;
       (pos, cs) \<leftarrow> erase_while (\<lambda>c. c \<noteq> 32) buf pos cs;
       kgets_loop maxlen buf pos cs }
     else if ch = 4 then do {
       (_, cs) \<leftarrow> kprintf (chars_of ''end of file was found'' @ [10]) [] cs;
       kgets_loop maxlen buf pos cs }
     else do { cs \<leftarrow> beep cs; kgets_loop maxlen buf pos cs } }"

definition kgets :: "chars \<Rightarrow> nat \<Rightarrow> con \<Rightarrow> (chars \<times> con) option" where
  "kgets buf maxlen cs = kgets_loop maxlen buf 0 cs"

end
