(* ===== verification/Console_Props.thy ===== *)
theory Console_Props
  imports Console
begin

text \<open>
  What the console functions do once the console is there: output arrives in order, formatted output is the text of the format, a line
  is read as its editing characters say, and transfers to and from the console device.
\<close>

section \<open>Output\<close>

interpretation console: output_sink console_send
proof
  show "console_send c [] = Some c" for c by simp
  show "console_send c (a @ b) = Option.bind (console_send c a) (\<lambda>c'. console_send c' b)" for c a b
    by (induction a arbitrary: c) simp_all
qed

lemma putch_attached [simp]: "the_console cs \<Longrightarrow> putch c cs = Some (cs\<lparr>con_out := con_out cs @ [c]\<rparr>)"
  by (simp add: putch_def)

lemma console_send_attached [simp]: "the_console cs \<Longrightarrow> console_send cs data = Some (cs\<lparr>con_out := con_out cs @ data\<rparr>)"
  by (induction data arbitrary: cs) simp_all

lemma console_send_delayed: "\<not> the_console cs \<Longrightarrow> length (delayed_outbuf cs) + length data \<le> DELAYBUFSIZE \<Longrightarrow>
    console_send cs data = Some (cs\<lparr>delayed_outbuf := delayed_outbuf cs @ data\<rparr>)"
  by (induction data arbitrary: cs) (simp_all add: putch_def putch_delayed_def)

lemma kprintf_attached:
  assumes "the_console cs" and "fmt_ok fmt" and "args_ok args" and "render fmt args = Some out"
  shows "kprintf fmt args cs = Some (c_int (int (length out)), cs\<lparr>con_out := con_out cs @ out\<rparr>)"
  using console.vprintf_render [OF assms(2,3)] assms(1,4) by (simp add: kprintf_def)

lemma no_percent: "37 \<notin> set fmt \<Longrightarrow> render fmt args = Some fmt"
  by (induction fmt) auto

lemma fmt_ok_plain: "0 \<notin> set fmt \<Longrightarrow> (\<forall>c \<in> set fmt. \<not> is_digit c) \<Longrightarrow> fmt_ok fmt"
proof -
  assume a: "0 \<notin> set fmt" "\<forall>c \<in> set fmt. \<not> is_digit c"
  have "filter is_digit (takeWhile is_modifier (drop i fmt)) = []" for i
    using a(2) by (auto simp: filter_empty_conv dest!: set_takeWhileD in_set_dropD)
  then show ?thesis using a(1) unfolding fmt_ok_def by (metis list.size(3) zero_le)
qed

lemma kprintf_plain:
  "the_console cs \<Longrightarrow> 0 \<notin> set fmt \<Longrightarrow> 37 \<notin> set fmt \<Longrightarrow> \<forall>c \<in> set fmt. \<not> is_digit c \<Longrightarrow>
    \<exists>n. kprintf fmt [] cs = Some (n, cs\<lparr>con_out := con_out cs @ fmt\<rparr>)"
  using kprintf_attached [OF _ fmt_ok_plain _ no_percent, of cs fmt "[]"] by (auto simp: args_ok_def)

text \<open>What was printed before the console was there comes first.\<close>

lemma config_con_flush:
  assumes "\<not> the_console cs"
  shows "config_con 0 True cs = Some (Inr (), cs\<lparr>the_console := True, con_out := con_out cs @ delayed_outbuf cs, delayed_outbuf := []\<rparr>)"
  using assms by (simp add: config_con_def flush_delay_buf_def)

section \<open>The line editor\<close>

text \<open>What one typed character that does not end the line does to it; the line has room for \<open>maxlen - 1\<close> characters.\<close>

definition edit :: "nat \<Rightarrow> chars \<Rightarrow> 8 word \<Rightarrow> chars" where
  "edit maxlen line ch =
     (if 32 \<le> ch \<and> ch < 127 then (if length line < maxlen - 1 then line @ [ch] else line)
      else if ch = 8 \<or> ch = 127 then butlast line
      else if ch = 21 then []
      else if ch = 23 then rev (dropWhile (\<lambda>c. c \<noteq> 32) (dropWhile (\<lambda>c. c = 32) (rev line)))
      else line)"

text \<open>The line so far stands at the start of the buffer.\<close>

definition editing :: "nat \<Rightarrow> chars \<Rightarrow> chars \<Rightarrow> nat \<Rightarrow> chars \<Rightarrow> bool" where
  "editing maxlen buf0 buf pos line \<longleftrightarrow> pos = length line \<and> take pos buf = line \<and> pos < maxlen \<and> maxlen \<le> length buf \<and>
     length buf = length buf0 \<and> drop maxlen buf = drop maxlen buf0 \<and> 0 \<notin> set line"

lemma erase_while_eq:
  "the_console cs \<Longrightarrow> take pos buf = line \<Longrightarrow> pos = length line \<Longrightarrow> pos \<le> length buf \<Longrightarrow>
    \<exists>cs'. erase_while P buf pos cs = Some (length (dropWhile P (rev line)), cs') \<and> the_console cs' \<and> con_in cs' = con_in cs"
proof (induction pos arbitrary: cs line)
  case (Suc pos)
  then have l2: "pos < length buf" by simp
  have "line = take (Suc pos) buf" using Suc.prems(2) by simp
  then have l: "line = take pos buf @ [buf ! pos]" "pos < length buf" using l2 by (simp_all only: take_Suc_conv_app_nth)
  show ?case
  proof (cases "P (buf ! pos)")
    case True
    let ?cs = "cs\<lparr>con_out := con_out cs @ [8, 32, 8]\<rparr>"
    obtain cs' where cs': "erase_while P buf pos ?cs = Some (length (dropWhile P (rev (take pos buf))), cs')" "the_console cs'" "con_in cs' = con_in cs"
      using Suc.IH [of ?cs "take pos buf"] Suc.prems(1) l(2) by auto
    have "erase_while P buf (Suc pos) cs = erase_while P buf pos ?cs" using True Suc.prems(1) l(2) by (simp add: mem_read_def backsp_def)
    moreover have "dropWhile P (rev line) = dropWhile P (rev (take pos buf))" unfolding l(1) using True by simp
    ultimately show ?thesis using cs' by auto
  next
    case False
    then have "dropWhile P (rev line) = rev line" unfolding l(1) by simp
    moreover have "erase_while P buf (Suc pos) cs = Some (Suc pos, cs)" using False l(2) by (simp add: mem_read_def)
    ultimately show ?thesis using Suc.prems(1,3) by simp
  qed
qed auto

lemma rev_dropWhile_take: "rev (dropWhile P (rev line)) = take (length (dropWhile P (rev line))) line"
proof -
  have "rev line = takeWhile P (rev line) @ dropWhile P (rev line)" by simp
  then have "line = rev (dropWhile P (rev line)) @ rev (takeWhile P (rev line))" by (metis rev_append rev_rev_ident)
  then show ?thesis by (metis append_eq_conv_conj length_rev)
qed

lemma editing_take:
  "editing maxlen b0 buf pos line \<Longrightarrow> n \<le> pos \<Longrightarrow> editing maxlen b0 buf n (take n line)"
proof -
  assume a: "editing maxlen b0 buf pos line" "n \<le> pos"
  then have "take n line = take n (take pos buf)" unfolding editing_def by (metis)
  also have "\<dots> = take n buf" using a(2) by (simp add: min_def)
  finally have t: "take n buf = take n line" by simp
  have "0 \<notin> set (take n line)" using a by (auto simp: editing_def dest: in_set_takeD)
  then show ?thesis using a t by (auto simp: editing_def)
qed

lemma editing_write:
  assumes e: "editing maxlen b0 buf pos line" and c: "pos < maxlen - 1" "ch \<noteq> 0"
  shows "editing maxlen b0 (buf[pos := ch]) (pos + 1) (line @ [ch])"
proof -
  have "pos < length buf" "pos < maxlen" using e c by (auto simp: editing_def)
  then show ?thesis using e c by (auto simp: editing_def take_Suc_conv_app_nth)
qed

lemma editing_mark: "editing maxlen b0 buf pos line \<Longrightarrow> editing maxlen b0 (buf[pos := 0]) pos line"
  by (auto simp: editing_def)

lemma editing_str: "editing maxlen b0 buf pos line \<Longrightarrow> takeWhile (\<lambda>c. c \<noteq> 0) (buf[pos := 0]) = line"
proof -
  assume e: "editing maxlen b0 buf pos line"
  then have b: "buf[pos := 0] = line @ 0 # drop (Suc pos) buf" by (auto simp: editing_def upd_conv_take_nth_drop)
  have "\<forall>c \<in> set line. c \<noteq> 0" using e by (auto simp: editing_def)
  then show ?thesis unfolding b by (simp add: takeWhile_append2)
qed

lemma reprint_ok: "length s < 2 ^ 31 \<Longrightarrow>
    fmt_ok (chars_of ''^R'' @ [10] @ chars_of ''%s'') \<and> args_ok [VA_str (Some s)] \<and>
    render (chars_of ''^R'' @ [10] @ chars_of ''%s'') [VA_str (Some s)] = Some ([94, 82, 10] @ s)"
  by (auto simp: chars_of_def args_ok_def is_modifier_def field_def padded_def field_width_def dec_value_def zero_fill_def intro!: fmt_ok_plain)

lemma beep_attached: "the_console cs \<Longrightarrow> \<exists>cs'. beep cs = Some cs' \<and> the_console cs' \<and> con_in cs' = con_in cs"
  using kprintf_plain [of cs "chars_of ''beep: Warning: no beep device'' @ [10]"] by (auto simp: beep_def chars_of_def)

lemma eof_attached: "the_console cs \<Longrightarrow>
    \<exists>n cs'. kprintf (chars_of ''end of file was found'' @ [10]) [] cs = Some (n, cs') \<and> the_console cs' \<and> con_in cs' = con_in cs"
  using kprintf_plain [of cs "chars_of ''end of file was found'' @ [10]"] by (auto simp: chars_of_def)

text \<open>One character that does not end the line.\<close>

lemma kgets_step:
  assumes e: "editing maxlen b0 buf pos line" and c: "the_console cs" "con_in cs = ch # rest" and ch: "ch \<notin> {10, 13, 3}"
    and len: "maxlen < 2 ^ 31"
  shows "\<exists>buf' cs'. kgets_loop maxlen buf pos cs = kgets_loop maxlen buf' (length (edit maxlen line ch)) cs' \<and>
    editing maxlen b0 buf' (length (edit maxlen line ch)) (edit maxlen line ch) \<and> the_console cs' \<and> con_in cs' = rest"
proof -
  define cs0 where "cs0 = cs\<lparr>con_in := rest\<rparr>"
  have g: "getch cs = Some (ch, cs0)" using c by (simp add: getch_def cs0_def)
  have c0: "the_console cs0" "con_in cs0 = rest" using c by (simp_all add: cs0_def)
  have pos: "pos = length line" "pos < length buf" "pos \<le> length buf" "take pos buf = line" "0 < maxlen" "length line < 2 ^ 31"
    using e len by (auto simp: editing_def)
  have us: "c_usub maxlen 1 = maxlen - 1" using pos(5) len by (intro c_usub_id) simp_all
  note lp = kgets_loop.simps [of maxlen buf pos cs, unfolded g Option.bind.simps prod.case us]
  have fin: "?thesis" if "kgets_loop maxlen buf pos cs = kgets_loop maxlen buf' n cs'" "n = length (edit maxlen line ch)"
      "editing maxlen b0 buf' n (edit maxlen line ch)" "the_console cs'" "con_in cs' = rest" for buf' n cs'
    using that by blast
  consider (put) "32 \<le> ch" "ch < 127" "pos < maxlen - 1" | (full) "32 \<le> ch" "ch < 127" "\<not> pos < maxlen - 1" | (bs) "ch = 8 \<or> ch = 127"
    | (again) "ch = 18" | (line) "ch = 21" | (word) "ch = 23" | (eof) "ch = 4"
    | (other) "\<not> (32 \<le> ch \<and> ch < 127)" "ch \<notin> {8, 127, 18, 21, 23, 4}" by blast
  then show ?thesis
  proof cases
    case put
    then have n: "ch \<noteq> 0" "ch \<notin> {10, 13}" using ch by auto
    have ed: "edit maxlen line ch = line @ [ch]" using put pos(1) by (simp add: edit_def)
    have "kgets_loop maxlen buf pos cs = kgets_loop maxlen (buf[pos := ch]) (pos + 1) (cs0\<lparr>con_out := con_out cs0 @ [ch]\<rparr>)"
      unfolding lp using put n c0 pos(2) by (simp add: mem_write_def)
    then show ?thesis by (rule fin) (use editing_write [OF e put(3) n(1)] c0 pos(1) in \<open>simp_all add: ed\<close>)
  next
    case full
    obtain cs' where cs': "beep cs0 = Some cs'" "the_console cs'" "con_in cs' = rest" using beep_attached [OF c0(1)] c0(2) by auto
    have "edit maxlen line ch = line" using full pos(1) by (simp add: edit_def)
    moreover have "ch \<notin> {10, 13, 8, 127, 3, 18, 21, 23, 4}" using full ch by auto
    ultimately show ?thesis unfolding lp using full(3) cs' e pos(1) by auto
  next
    case bs
    show ?thesis
    proof (cases "pos = 0")
      case True
      obtain cs' where cs': "beep cs0 = Some cs'" "the_console cs'" "con_in cs' = rest" using beep_attached [OF c0(1)] c0(2) by auto
      have "edit maxlen line ch = line" using bs True pos(1) by (auto simp: edit_def)
      then show ?thesis unfolding lp using bs cs' e pos(1) True by auto
    next
      case False
      have ed: "edit maxlen line ch = take (pos - 1) line" using bs pos(1) by (auto simp: edit_def butlast_conv_take)
      have "kgets_loop maxlen buf pos cs = kgets_loop maxlen buf (pos - 1) (cs0\<lparr>con_out := con_out cs0 @ [8, 32, 8]\<rparr>)"
        unfolding lp using bs False c0 by (auto simp: backsp_def)
      then show ?thesis by (rule fin) (use editing_take [OF e, of "pos - 1"] c0 pos(1) in \<open>simp_all add: ed\<close>)
    qed
  next
    case again
    have ed: "edit maxlen line ch = line" using again by (simp add: edit_def)
    have "kgets_loop maxlen buf pos cs = kgets_loop maxlen (buf[pos := 0]) pos (cs0\<lparr>con_out := con_out cs0 @ [94, 82, 10] @ line\<rparr>)"
      unfolding lp using again pos(2) kprintf_attached [OF c0(1)] reprint_ok [OF pos(6)] by (simp add: mem_write_def editing_str [OF e])
    then show ?thesis by (rule fin) (use editing_mark [OF e] c0 pos(1) in \<open>simp_all add: ed\<close>)
  next
    case line
    obtain cs' where cs': "erase_while (\<lambda>_. True) buf pos cs0 = Some (0, cs')" "the_console cs'" "con_in cs' = rest"
      using erase_while_eq [OF c0(1) pos(4,1,3), of "\<lambda>_. True"] c0(2) by auto
    have "edit maxlen line ch = []" using line by (simp add: edit_def)
    then show ?thesis unfolding lp using line cs' editing_take [OF e, of 0] by auto
  next
    case word
    let ?a = "rev (dropWhile (\<lambda>c. c = 32) (rev line))"
    let ?b = "rev (dropWhile (\<lambda>c. c \<noteq> 32) (rev ?a))"
    have a0: "take (length ?a) line = ?a" unfolding length_rev by (rule rev_dropWhile_take [symmetric])
    have b0: "take (length ?b) ?a = ?b" unfolding length_rev by (rule rev_dropWhile_take [symmetric])
    have ab: "length ?a \<le> pos" "length ?b \<le> length ?a"
      using length_dropWhile_le [of "\<lambda>c. c = 32" "rev line"] length_dropWhile_le [of "\<lambda>c. c \<noteq> 32" "rev ?a"] pos(1) by simp_all
    have a: "take (length ?a) buf = ?a" "length ?a \<le> pos" using a0 ab(1) pos(4) by (metis min.absorb1 take_take) (rule ab(1))
    obtain cs1 where cs1: "erase_while (\<lambda>c. c = 32) buf pos cs0 = Some (length ?a, cs1)" "the_console cs1" "con_in cs1 = rest"
      using erase_while_eq [OF c0(1) pos(4,1,3), of "\<lambda>c. c = 32"] c0(2) by auto
    obtain cs2 where cs2: "erase_while (\<lambda>c. c \<noteq> 32) buf (length ?a) cs1 = Some (length ?b, cs2)" "the_console cs2" "con_in cs2 = rest"
      using erase_while_eq [OF cs1(2) a(1) refl, of "\<lambda>c. c \<noteq> 32"] a(2) pos(2) cs1(3) by auto
    have "take (length ?b) line = take (length ?b) (take (length ?a) line)" using ab(2) by (simp only: take_take min.absorb1)
    also have "\<dots> = ?b" unfolding a0 by (rule b0)
    finally have b: "take (length ?b) line = ?b" .
    have "edit maxlen line ch = ?b" using word by (simp add: edit_def)
    moreover have "length ?b \<le> pos" using ab by simp
    ultimately have ed: "edit maxlen line ch = ?b" "editing maxlen b0 buf (length ?b) ?b" using editing_take [OF e, of "length ?b"] b by simp_all
    have "kgets_loop maxlen buf pos cs = kgets_loop maxlen buf (length ?b) cs2" unfolding lp using word cs1(1) cs2(1) by simp
    then show ?thesis by (rule fin) (simp_all only: ed cs2)
  next
    case eof
    obtain n cs' where cs': "kprintf (chars_of ''end of file was found'' @ [10]) [] cs0 = Some (n, cs')" "the_console cs'" "con_in cs' = rest"
      using eof_attached [OF c0(1)] c0(2) by auto
    have "edit maxlen line ch = line" using eof by (simp add: edit_def)
    then show ?thesis unfolding lp using eof cs' e pos(1) by auto
  next
    case other
    obtain cs' where cs': "beep cs0 = Some cs'" "the_console cs'" "con_in cs' = rest" using beep_attached [OF c0(1)] c0(2) by auto
    have "edit maxlen line ch = line" using other by (auto simp: edit_def)
    then show ?thesis unfolding lp using other ch cs' e pos(1) by auto
  qed
qed

lemma kgets_loop_eq:
  assumes "editing maxlen b0 buf pos line" and "the_console cs" and "con_in cs = typed @ c # rest" and "set typed \<inter> {10, 13, 3} = {}"
    and "c \<in> {10, 13, 3}" and "maxlen < 2 ^ 31"
  shows "\<exists>buf' cs'. kgets_loop maxlen buf pos cs = Some (buf', cs') \<and> con_in cs' = rest \<and> length buf' = length b0 \<and> drop maxlen buf' = drop maxlen b0 \<and>
    takeWhile (\<lambda>c. c \<noteq> 0) buf' = (if c = 3 then [] else foldl (edit maxlen) line typed) \<and>
    0 \<in> set (take maxlen buf')"
  using assms
proof (induction typed arbitrary: buf pos line cs)
  case Nil
  define cs0 where "cs0 = cs\<lparr>con_in := rest\<rparr>"
  have g: "getch cs = Some (c, cs0)" using Nil by (simp add: getch_def cs0_def)
  have c0: "the_console cs0" "con_in cs0 = rest" using Nil by (simp_all add: cs0_def)
  note lp = kgets_loop.simps [of maxlen buf pos cs, unfolded g Option.bind.simps prod.case]
  have pos: "pos < maxlen" "maxlen \<le> length buf" using Nil.prems(1) by (simp_all add: editing_def)
  define p where "p = (if c = 3 then 0 else pos)"
  have p: "p < length buf" "p < maxlen" using pos by (auto simp: p_def)
  have e: "editing maxlen b0 buf p (take p line)" using Nil.prems(1) editing_take [OF Nil.prems(1), of p] by (auto simp: p_def)
  have run: "\<exists>cs'. kgets_loop maxlen buf pos cs = Some (buf[p := 0], cs') \<and> con_in cs' = rest"
    unfolding lp using Nil.prems(5) c0 p by (auto simp: kgets_end_def mem_write_def p_def)
  have "takeWhile (\<lambda>c. c \<noteq> 0) (buf[p := 0]) = take p line" by (rule editing_str [OF e])
  moreover have "take p line = (if c = 3 then [] else line)" using Nil.prems(1) by (simp add: p_def editing_def)
  moreover have "take maxlen (buf[p := 0]) ! p = 0" "p < length (take maxlen (buf[p := 0]))" using p by simp_all
  then have "0 \<in> set (take maxlen (buf[p := 0]))" by (metis nth_mem)
  moreover have "length (buf[p := 0]) = length b0" "drop maxlen (buf[p := 0]) = drop maxlen b0" using editing_mark [OF e] by (simp_all add: editing_def)
  ultimately show ?case using run by auto
next
  case (Cons ch typed)
  have i: "con_in cs = ch # (typed @ c # rest)" using Cons.prems(3) by simp
  have ch: "ch \<notin> {10, 13, 3}" "set typed \<inter> {10, 13, 3} = {}" using Cons.prems(4) by auto
  obtain buf' cs' where st: "kgets_loop maxlen buf pos cs = kgets_loop maxlen buf' (length (edit maxlen line ch)) cs'"
      "editing maxlen b0 buf' (length (edit maxlen line ch)) (edit maxlen line ch)" "the_console cs'" "con_in cs' = typed @ c # rest"
    using kgets_step [OF Cons.prems(1,2) i ch(1) Cons.prems(6)] by blast
  show ?case using Cons.IH [OF st(2,3,4) ch(2) Cons.prems(5,6)] unfolding st(1) foldl_Cons .
qed



end
