(* ===== verification/Process.thy ===== *)
theory Process
  imports Thread_Ops
begin

text \<open>
  Processes: the list of process ids of \<open>kern/userprog/fork.c\<close>, \<open>sys_waitpid\<close> (\<open>wait.c\<close>), \<open>sys_exit\<close> (\<open>exit.c\<close>), \<open>sys_get_pid\<close>,
  \<open>thread_join\<close> of \<open>thread.c\<close> and the system call dispatcher of \<open>arch/mips/mips/syscall.c\<close>, on the thread
  system of \<open>Threads\<close>.

  A call that sleeps leaves its continuation with the thread.  What a call of \<open>sys_waitpid\<close> returns and what it stores through
  \<open>status\<close> is kept for each thread.  \<open>fork.h\<close> declares its variables \<open>static\<close>, so that each file that includes it has
  variables of its own; those here are the ones of \<open>fork.c\<close>, which all its functions use.
\<close>

section \<open>The list of processes\<close>

record pid_entry =
  pe_pid :: int
  pe_exited :: bool
  pe_code :: int

datatype pkont = KW_wait int int | KW_join int int | KW_yield int | KW_exit

record pstate = "pkont kstate" +
  global_pid :: int
  pidlist :: "pid_entry list option"
  pid_lock :: "(nat \<times> tid option) option"
  wait_status :: "tid \<Rightarrow> int option"
  wait_ret :: "tid \<Rightarrow> int option"

definition cur_thread :: "('k, 'z) kstate_scheme \<Rightarrow> (tid \<times> 'k thread) option" where
  "cur_thread st = do { t \<leftarrow> curthread st; th \<leftarrow> threads st t; Some (t, th) }"

definition sys_get_pid :: "pstate \<Rightarrow> int option" where
  "sys_get_pid st = map_option (t_pid \<circ> snd) (cur_thread st)"

text \<open>The result of \<open>kmalloc\<close> is not checked; \<open>junk\<close> is what the memory holds where the code sets nothing.\<close>

definition init_pid :: "bool \<Rightarrow> int \<Rightarrow> pstate \<Rightarrow> pstate option" where
  "init_pid mem junk st = do {
     (t, _) \<leftarrow> cur_thread st;
     kassert mem;
     Some ((upd_thread t (\<lambda>th. th\<lparr>t_pid := 1\<rparr>) st)\<lparr>global_pid := 1,
       pidlist := Some [\<lparr>pe_pid = 1, pe_exited = False, pe_code = junk\<rparr>]\<rparr>) }"

definition get_globalpid :: "pstate \<Rightarrow> int" where
  "get_globalpid st = global_pid st"

definition get_newpid :: "pstate \<Rightarrow> int \<times> pstate" where
  "get_newpid st = (let g = c_int (global_pid st + 1) in (g, st\<lparr>global_pid := g\<rparr>))"

definition pidlist_create :: "bool \<Rightarrow> int \<Rightarrow> int \<Rightarrow> pid_entry option" where
  "pidlist_create mem junk pid = (if mem then Some \<lparr>pe_pid = pid, pe_exited = False, pe_code = junk\<rparr> else None)"

text \<open>\<open>lock_create\<close>, \<open>lock_acquire\<close> and \<open>lock_release\<close> of the lock of the list.  A call that has to wait for another thread does
  not come back within the call.\<close>

definition pid_lock_acquire :: "pstate \<Rightarrow> pstate option" where
  "pid_lock_acquire st = do {
     (l, holder) \<leftarrow> pid_lock st;
     kassert (in_interrupt st = 0);
     kassert (holder = None \<or> holder = curthread st);
     Some (st\<lparr>pid_lock := Some (l, curthread st)\<rparr>) }"

definition pid_lock_release :: "tid kmem \<Rightarrow> pstate \<Rightarrow> pstate option" where
  "pid_lock_release km st = do {
     (l, holder) \<leftarrow> pid_lock st;
     kassert (in_interrupt st = 0);
     if holder = curthread st then do {
       let (spl, st1) = splhigh (st\<lparr>pid_lock := Some (l, None)\<rparr>);
       st2 \<leftarrow> thread_wakeup km (LockObj l) st1;
       Some (snd (splx spl st2)) }
     else Some st }"

text \<open>\<open>newlock\<close> is the address \<open>lock_create\<close> returns.\<close>

definition pidlist_search :: "tid kmem \<Rightarrow> nat option \<Rightarrow> int \<Rightarrow> pstate \<Rightarrow> (bool \<times> pstate) option" where
  "pidlist_search km newlock pid st = do {
     (t, _) \<leftarrow> cur_thread st;
     let st1 = (if pid_lock st = None then st\<lparr>pid_lock := map_option (\<lambda>l. (l, None)) newlock\<rparr> else st);
     case find (\<lambda>e. pe_pid e = pid) (case pidlist st1 of None \<Rightarrow> [] | Some l \<Rightarrow> l) of
       None \<Rightarrow> do { st2 \<leftarrow> pid_lock_release km st1; Some (False, st2) }
     | Some e \<Rightarrow> Some (pe_exited e, st1\<lparr>wait_status := (wait_status st1)(t \<mapsto> pe_code e)\<rparr>) }"

fun set_exited :: "int \<Rightarrow> int \<Rightarrow> pid_entry list \<Rightarrow> pid_entry list" where
  "set_exited pid code [] = []"
| "set_exited pid code (e # es) = (if pe_pid e = pid then e\<lparr>pe_exited := True, pe_code := code\<rparr> # es else e # set_exited pid code es)"

definition pidlist_exit :: "int \<Rightarrow> int \<Rightarrow> pstate \<Rightarrow> pstate" where
  "pidlist_exit pid exitcode st = st\<lparr>pidlist := map_option (set_exited pid exitcode) (pidlist st)\<rparr>"

section \<open>Waiting and exiting\<close>

definition wait_return :: "int \<Rightarrow> pstate \<Rightarrow> pstate option" where
  "wait_return r st = do { (t, _) \<leftarrow> cur_thread st; Some (st\<lparr>wait_ret := (wait_ret st)(t \<mapsto> r)\<rparr>) }"

definition waitpid_loop :: "tid kmem \<Rightarrow> nat option \<Rightarrow> int \<Rightarrow> pstate \<Rightarrow> pstate option" where
  "waitpid_loop km newlock pid st = do {
     let (spl, st1) = splhigh st;
     (has_exited, st2) \<leftarrow> pidlist_search km newlock pid st1;
     if has_exited then wait_return pid (snd (splx spl st2))
     else thread_sleep km (PidObj pid) (KW_wait pid spl) st2 }"

definition sys_waitpid :: "tid kmem \<Rightarrow> nat option \<Rightarrow> int \<Rightarrow> bool \<Rightarrow> int \<Rightarrow> pstate \<Rightarrow> pstate option" where
  "sys_waitpid km newlock pid status_null options st =
     (if options \<noteq> 0 then wait_return (errno_code EINVAL) st
      else if status_null then wait_return (errno_code EFAULT) st
      else if pid > get_globalpid st then wait_return pid st
      else do {
        me \<leftarrow> sys_get_pid st;
        if pid \<le> me then wait_return pid st else waitpid_loop km newlock pid st })"

definition sys_exit :: "tid kmem \<Rightarrow> int \<Rightarrow> pstate \<Rightarrow> pstate option" where
  "sys_exit km exitcode st = do {
     let (spl, st1) = splhigh st;
     (t, th) \<leftarrow> cur_thread st1;
     st2 \<leftarrow> thread_wakeup km (PidObj (t_pid th)) (pidlist_exit (t_pid th) exitcode st1);
     thread_exit km KW_exit (snd (splx spl st2)) }"

text \<open>\<open>thread_join\<close> looks once; after it has slept it does not look again.  Its last part runs at the end of every path but one, and
  falls off the end of a function that should return a value.\<close>

definition thread_join_end :: "pstate \<Rightarrow> pstate option" where
  "thread_join_end st = do {
     let (spl, st1) = splhigh st;
     st2 \<leftarrow> exorcise st1;
     Some (snd (splx spl st2)) }"

definition thread_join :: "tid kmem \<Rightarrow> nat option \<Rightarrow> tid \<Rightarrow> pstate \<Rightarrow> pstate option" where
  "thread_join km newlock child st = do {
     let (spl, st1) = splhigh st;
     cth \<leftarrow> threads st1 child;
     (has_exited, st2) \<leftarrow> pidlist_search km newlock (t_pid cth) st1;
     if has_exited then wait_return 0 (snd (splx spl st2))
     else thread_sleep km (PidObj (t_pid cth)) (KW_join (t_pid cth) spl) st2 }"

definition presume_k :: "tid kmem \<Rightarrow> nat option \<Rightarrow> pkont \<Rightarrow> pstate \<Rightarrow> pstate option" where
  "presume_k km newlock k st = (case k of
       KW_wait pid spl \<Rightarrow> do { st1 \<leftarrow> thread_sleep_return st; waitpid_loop km newlock pid (snd (splx spl st1)) }
     | KW_join pid spl \<Rightarrow> do { st1 \<leftarrow> thread_sleep_return st; thread_join_end (snd (splx spl st1)) }
     | KW_yield spl \<Rightarrow> Some (snd (splx spl st))
     | KW_exit \<Rightarrow> None)"

definition pdispatch :: "tid kmem \<Rightarrow> nat option \<Rightarrow> pkont pcb \<Rightarrow> pstate \<Rightarrow> pstate option" where
  "pdispatch km newlock p st = (case p of
       PcbStart \<Rightarrow> mi_threadstart st
     | PcbSwitch k \<Rightarrow> do { st1 \<leftarrow> mi_switch_return st; presume_k km newlock k st1 })"

section \<open>Forking\<close>

text \<open>The results of the allocations of \<open>sys_fork\<close>: the copy of the trap frame, the copy of the address space, what
  \<open>thread_fork\<close> asks for, and the new entry.\<close>

record fork_mem =
  fm_tf :: bool
  fm_as :: "nat option"
  fm_thread :: "tid option"
  fm_name :: bool
  fm_stack :: bool
  fm_entry :: bool
  fm_junk :: int

text \<open>
  The call is modelled without preemption between \<open>thread_fork\<close> and the assignment of the child's id.  The early returns after
  \<open>lock_acquire\<close> keep the lock.
\<close>

definition sys_fork :: "tid kmem \<Rightarrow> fork_mem \<Rightarrow> pstate \<Rightarrow> (int \<times> pstate) option" where
  "sys_fork km fm st =
     (if \<not> fm_tf fm \<or> fm_as fm = None then Some (- 1, st)
      else do {
        (_, th) \<leftarrow> cur_thread st;
        (r, st1) \<leftarrow> thread_fork (fm_thread fm) (fm_name fm) (fm_stack fm) km (t_name th) st;
        case r of Inl _ \<Rightarrow> Some (- 1, st1)
        | Inr child \<Rightarrow> do {
            st2 \<leftarrow> pid_lock_acquire st1;
            let (pid, st3) = get_newpid st2;
            let st4 = upd_thread child (\<lambda>th. th\<lparr>t_pid := pid\<rparr>) st3;
            case pidlist_create (fm_entry fm) (fm_junk fm) (get_globalpid st4) of None \<Rightarrow> Some (- 1, st4)
            | Some e \<Rightarrow> do {
                l \<leftarrow> pidlist st4;
                kassert (l \<noteq> []);
                st5 \<leftarrow> pid_lock_release km (st4\<lparr>pidlist := Some (l @ [e])\<rparr>);
                Some (pid, st5) } } })"

text \<open>The registers of a trap frame that the code touches.\<close>

record trapframe =
  tf_v0 :: "32 word"
  tf_a0 :: "32 word"
  tf_a1 :: "32 word"
  tf_a2 :: "32 word"
  tf_a3 :: "32 word"
  tf_epc :: "32 word"

text \<open>The entry of the child: its copy of the parent's trap frame returns 0 past the system call instruction, in the copied
  address space.\<close>

definition md_forkentry :: "trapframe \<Rightarrow> nat \<Rightarrow> pstate \<Rightarrow> (trapframe \<times> pstate) option" where
  "md_forkentry tf as st = do {
     (t, _) \<leftarrow> cur_thread st;
     Some (tf\<lparr>tf_v0 := 0, tf_a3 := 0, tf_epc := tf_epc tf + 4\<rparr>,
       kcall_log (As_activate as) (upd_thread t (\<lambda>th. th\<lparr>t_vmspace := Some as\<rparr>) st)) }"

text \<open>
  The part of \<open>common_prog\<close> of \<open>main/menu.c\<close> between \<open>thread_fork\<close> and \<open>thread_join\<close>.  The list and the lock it uses are \<open>menu.c\<close>'s own
  variables: the new entry is stored in a local variable only, and the list of \<open>fork.c\<close> does not get it.
\<close>

definition common_prog_fork :: "tid kmem \<Rightarrow> tid option \<Rightarrow> bool \<Rightarrow> bool \<Rightarrow> string \<Rightarrow> pstate \<Rightarrow> ((errno + tid) \<times> pstate) option" where
  "common_prog_fork km mem okname okstack name st = do {
     (r, st1) \<leftarrow> thread_fork mem okname okstack km name st;
     case r of Inl e \<Rightarrow> Some (Inl e, st1)
     | Inr child \<Rightarrow> do {
         let (pid, st2) = get_newpid st1;
         Some (Inr child, upd_thread child (\<lambda>th. th\<lparr>t_pid := pid\<rparr>) st2) } }"

section \<open>The end of a system call\<close>

text \<open>What \<open>mips_syscall\<close> writes into the trap frame for the calls whose results it treats in a special way, and for the others.\<close>

definition syscall_fork_ret :: "int \<Rightarrow> trapframe \<Rightarrow> trapframe" where
  "syscall_fork_ret pidreturn tf =
     (if pidreturn = - 1 then tf\<lparr>tf_v0 := word_of_int (errno_code ENOMEM), tf_a3 := 1\<rparr>
      else tf\<lparr>tf_v0 := word_of_int pidreturn, tf_a3 := 0\<rparr>)"

text \<open>Also for \<open>SYS_getpid\<close>, \<open>SYS_waitpid\<close> and \<open>SYS_readchar\<close>.\<close>

definition syscall_plain_ret :: "int \<Rightarrow> trapframe \<Rightarrow> trapframe" where
  "syscall_plain_ret r tf = tf\<lparr>tf_v0 := word_of_int r, tf_a3 := 0\<rparr>"

text \<open>The \<open>else\<close> of this case has no braces: its second line, which clears the error flag, is always executed.\<close>

definition syscall_sbrk_ret :: "errno + nat \<Rightarrow> trapframe \<Rightarrow> trapframe" where
  "syscall_sbrk_ret r tf = (let tf1 = (case r of
       Inl e \<Rightarrow> tf\<lparr>tf_v0 := word_of_int (errno_code e), tf_a3 := 1\<rparr>
     | Inr htop \<Rightarrow> tf\<lparr>tf_v0 := word_of_nat htop\<rparr>)
   in tf1\<lparr>tf_a3 := 0\<rparr>)"

definition syscall_err_ret :: "errno option \<Rightarrow> trapframe \<Rightarrow> trapframe" where
  "syscall_err_ret err tf = (case err of
       Some e \<Rightarrow> tf\<lparr>tf_v0 := word_of_int (errno_code e), tf_a3 := 1\<rparr>
     | None \<Rightarrow> tf\<lparr>tf_v0 := 0, tf_a3 := 0\<rparr>)"

text \<open>The results of the calls, by call number, and the end of the dispatcher.\<close>

datatype syscall_result = R_fork int | R_plain int | R_sbrk "errno + nat" | R_err "errno option"

definition mips_syscall_end :: "syscall_result \<Rightarrow> trapframe \<Rightarrow> trapframe" where
  "mips_syscall_end r tf = (let tf1 = (case r of
       R_fork p \<Rightarrow> syscall_fork_ret p tf
     | R_plain p \<Rightarrow> syscall_plain_ret p tf
     | R_sbrk s \<Rightarrow> syscall_sbrk_ret s tf
     | R_err e \<Rightarrow> syscall_err_ret e tf)
   in tf1\<lparr>tf_epc := tf_epc tf1 + 4\<rparr>)"

end
