(* ===== verification/Process_Inv.thy ===== *)
theory Process_Inv
  imports Process Synch_Inv
begin

text \<open>
  The invariant of the process list: a thread that sleeps in \<open>sys_waitpid\<close> waits for a process with a larger id; if that has an entry in
  the list, it has not exited and is that of a live thread.  \<open>pstep\<close> is the step relation of processes: system calls, preemption, and the
  scheduler.
\<close>

section \<open>What the thread operations do to single threads\<close>

lemma mi_switch_other: "mi_switch km s k st = Some st' \<Longrightarrow> curthread st \<noteq> Some t \<Longrightarrow> threads st' t = threads st t"
  by (auto simp: mi_switch_def mi_switch_out_def stash_def make_runnable_def schedule_def Let_def
      split: Option.bind_splits if_splits option.splits prod.splits)

lemma mi_switch_cur: "mi_switch km s k st = Some st' \<Longrightarrow> curthread st = Some t \<Longrightarrow> threads st t = Some th \<Longrightarrow>
    threads st' t = Some (th\<lparr>t_pcb := PcbSwitch k, t_ininterrupt := in_interrupt st\<rparr>)"
  by (auto simp: mi_switch_def mi_switch_out_def stash_def make_runnable_def schedule_def Let_def
      split: Option.bind_splits if_splits option.splits prod.splits)

lemma mi_switch_sleepers: "mi_switch km s k st = Some st' \<Longrightarrow> s \<noteq> S_SLEEP \<Longrightarrow> sleepers st' = sleepers st"
  by (auto simp: mi_switch_def mi_switch_out_def stash_def make_runnable_def schedule_def Let_def
      split: Option.bind_splits if_splits option.splits prod.splits)

text \<open>What a thread that was switched to has to do first is what it left behind.\<close>

definition pending_ok :: "('k, 'z) kstate_scheme \<Rightarrow> bool" where
  "pending_ok st \<longleftrightarrow> (\<forall>p. k_pending st = Some p \<longrightarrow> (\<exists>t th. curthread st = Some t \<and> threads st t = Some th \<and> t_pcb th = p))"

lemma schedule_pending: "schedule st = Some st' \<Longrightarrow> k_pending st = None \<Longrightarrow> pending_ok st'"
  by (auto simp: schedule_def pending_ok_def split: Option.bind_splits if_splits prod.splits)

lemma mi_switch_pending: "mi_switch km s k st = Some st' \<Longrightarrow> k_pending st = None \<Longrightarrow> pending_ok st'"
  by (auto simp: mi_switch_def mi_switch_out_def stash_def make_runnable_def Let_def pending_ok_def
      split: Option.bind_splits if_splits option.splits prod.splits dest!: schedule_pending)

lemma pending_None: "k_pending st = None \<Longrightarrow> pending_ok st"
  by (simp add: pending_ok_def)

lemma thread_exit_effect:
  assumes "thread_exit km k st = Some st'" and "curthread st = Some cur" and "k_pending st = None"
  shows "t \<noteq> cur \<Longrightarrow> threads st' t = threads st t" and "sleepers st' = sleepers st" and "pending_ok st'"
proof -
  have "\<exists>st1. mi_switch km S_ZOMB k st1 = Some st' \<and> curthread st1 = Some cur \<and> sleepers st1 = sleepers st \<and> k_pending st1 = None \<and>
      (\<forall>t. t \<noteq> cur \<longrightarrow> threads st1 t = threads st t)"
    using assms by (auto simp: thread_exit_def Let_def split: Option.bind_splits if_splits option.splits)
  then obtain st1 where st1: "mi_switch km S_ZOMB k st1 = Some st'" "curthread st1 = Some cur" "sleepers st1 = sleepers st"
      "k_pending st1 = None" "\<forall>t. t \<noteq> cur \<longrightarrow> threads st1 t = threads st t" by blast
  show "t \<noteq> cur \<Longrightarrow> threads st' t = threads st t" using mi_switch_other [OF st1(1), of t] st1(2,5) by simp
  show "sleepers st' = sleepers st" using mi_switch_sleepers [OF st1(1)] st1(3) by simp
  show "pending_ok st'" by (rule mi_switch_pending [OF st1(1,4)])
qed

lemma mi_switch_return_effect:
  assumes "mi_switch_return st = Some st'" and "thr_inv st"
  shows "curthread st' = curthread st" and "sleeping st' = sleeping st" and "k_pending st' = None" and "kstate.more st' = kstate.more st"
    and "t \<in> set (live st) \<Longrightarrow> threads st' t = threads st t"
proof -
  obtain st1 st2 where st: "exorcise st = Some st1" "activate_cur st1 = Some st2" "st' = st2\<lparr>k_pending := None\<rparr>"
    using assms(1) by (auto simp: mi_switch_return_def split: Option.bind_splits)
  have s: "thr_struct st" using assms(2) by (simp add: thr_inv_def)
  note ex = exorcise_struct [OF s st(1)] and ac = activate_cur_inv [OF st(2)]
  have "curspl st > 0" using st(1) by (auto simp: exorcise_def split: if_splits)
  then obtain z where "st1 = st\<lparr>threads := (\<lambda>t. if t \<in> set (dead st) then None else threads st t), zombies := z\<rparr>"
    using exorcise_eq [OF s] st(1) by auto
  then show "sleeping st' = sleeping st" using ac st(3) by simp
  show "curthread st' = curthread st" "k_pending st' = None" using ex ac st(3) by simp_all
  show "kstate.more st' = kstate.more st" using more_exorcise [OF st(1) s] more_activate [OF st(2)] st(3) by simp
  show "t \<in> set (live st) \<Longrightarrow> threads st' t = threads st t" using ex(6) ac st(3) by simp
qed

lemma pstate_more:
  fixes st st' :: pstate
  assumes "kstate.more st' = kstate.more st"
  shows "global_pid st' = global_pid st" "pidlist st' = pidlist st" "pid_lock st' = pid_lock st"
    "wait_status st' = wait_status st" "wait_ret st' = wait_ret st"
  using assms by (cases st; cases st'; simp)+

section \<open>The invariant\<close>

definition pid_of :: "('k, 'z) kstate_scheme \<Rightarrow> tid \<Rightarrow> int" where
  "pid_of st t = (case threads st t of None \<Rightarrow> 0 | Some th \<Rightarrow> t_pid th)"

definition pids :: "pstate \<Rightarrow> int set" where
  "pids st = pe_pid ` set (case pidlist st of None \<Rightarrow> [] | Some l \<Rightarrow> l)"

text \<open>The ids of the processes in the list that have not exited.\<close>

definition unexited :: "pstate \<Rightarrow> int set" where
  "unexited st = pe_pid ` {e \<in> set (case pidlist st of None \<Rightarrow> [] | Some l \<Rightarrow> l). \<not> pe_exited e}"

definition list_ok :: "pstate \<Rightarrow> bool" where
  "list_ok st \<longleftrightarrow> (\<exists>l. pidlist st = Some l \<and> l \<noteq> [] \<and> distinct (map pe_pid l)) \<and> pids st \<subseteq> {1..global_pid st}"

text \<open>A thread that called \<open>sys_waitpid\<close> asked for an id that was given out and is larger than its own.  It sleeps while the process has
  not exited, and, as \<open>pidlist_search\<close> answers 0 there, when the list has no such entry.\<close>

definition thread_waits_ok :: "pstate \<Rightarrow> tid \<Rightarrow> bool" where
  "thread_waits_ok st t \<longleftrightarrow>
     (\<forall>p spl. map_option t_pcb (threads st t) = Some (PcbSwitch (KW_wait p spl)) \<longrightarrow> pid_of st t < p \<and> p \<le> global_pid st \<and>
       (t \<in> set (sleeping st) \<longrightarrow> sleeps_on st (PidObj p) t \<and> (p \<in> pids st \<longrightarrow> p \<in> unexited st)))"

text \<open>No two live threads have the same id.  \<open>D\<close> holds the exits so far, each an id with the code: the entry has the code, and no live
  thread has the id.\<close>

definition exit_known :: "pstate \<Rightarrow> int \<Rightarrow> int \<Rightarrow> bool" where
  "exit_known st p c \<longleftrightarrow> (\<exists>e \<in> set (case pidlist st of None \<Rightarrow> [] | Some l \<Rightarrow> l). pe_pid e = p \<and> pe_exited e \<and> pe_code e = c)"

definition pids_ok :: "(int \<times> int) set \<Rightarrow> pstate \<Rightarrow> bool" where
  "pids_ok D st \<longleftrightarrow> inj_on (pid_of st) (set (live st)) \<and> (\<forall>t \<in> set (live st). pid_of st t \<le> global_pid st) \<and>
     (\<forall>p c. (p, c) \<in> D \<longrightarrow> p \<le> global_pid st \<and> p \<notin> pid_of st ` set (live st) \<and> exit_known st p c)"

lemma pids_ok_frame:
  assumes "pids_ok D st" and "set (live st') \<subseteq> set (live st)" and "\<And>t. t \<in> set (live st') \<Longrightarrow> pid_of st' t = pid_of st t"
    and "pidlist st' = pidlist st" and "global_pid st' = global_pid st"
  shows "pids_ok D st'"
proof -
  have "pid_of st' ` set (live st') = pid_of st ` set (live st')" by (rule image_cong [OF refl assms(3)])
  then have im: "pid_of st' ` set (live st') \<subseteq> pid_of st ` set (live st)" using assms(2) by auto
  have "inj_on (pid_of st') (set (live st')) = inj_on (pid_of st) (set (live st'))" by (rule inj_on_cong [OF assms(3)])
  moreover have "inj_on (pid_of st) (set (live st'))" using assms(1,2) inj_on_subset by (auto simp: pids_ok_def)
  moreover have "exit_known st' = exit_known st" using assms(4) by (simp add: exit_known_def fun_eq_iff)
  moreover have "p \<notin> pid_of st' ` set (live st')" if "(p, c) \<in> D" for p c using that assms(1) im unfolding pids_ok_def by blast
  ultimately show ?thesis using assms(1,2,3,5) unfolding pids_ok_def by auto
qed

definition proc_inv :: "(int \<times> int) set \<Rightarrow> pstate \<Rightarrow> bool" where
  "proc_inv D st \<longleftrightarrow> thr_inv st \<and> list_ok st \<and> (\<forall>t \<in> set (live st). thread_waits_ok st t) \<and>
     unexited st \<subseteq> pid_of st ` set (live st) \<and> pending_ok st \<and> pids_ok D st"

lemma list_cong:
  "pidlist st' = pidlist st \<Longrightarrow> pids st' = pids st" "pidlist st' = pidlist st \<Longrightarrow> unexited st' = unexited st"
  "pidlist st' = pidlist st \<Longrightarrow> global_pid st' = global_pid st \<Longrightarrow> list_ok st' = list_ok st"
  by (simp_all add: pids_def unexited_def list_ok_def)

text \<open>A thread is kept when its id stays and its state of waiting stays or it is not waiting for a process.\<close>

definition kept :: "pstate \<Rightarrow> pstate \<Rightarrow> tid \<Rightarrow> bool" where
  "kept st st' t \<longleftrightarrow> (\<exists>th th'. threads st t = Some th \<and> threads st' t = Some th' \<and> t_pid th' = t_pid th \<and>
     (t_pcb th' = t_pcb th \<and> (t \<in> set (sleeping st') \<longrightarrow> t \<in> set (sleeping st) \<and> t_sleepaddr th' = t_sleepaddr th) \<or>
      (\<forall>p spl. t_pcb th' \<noteq> PcbSwitch (KW_wait p spl))))"

lemma kept_pid: "kept st st' t \<Longrightarrow> pid_of st' t = pid_of st t"
  by (auto simp: kept_def pid_of_def)

lemma kept_same:
  "threads st' t = threads st t \<Longrightarrow> (t \<in> set (sleeping st') \<Longrightarrow> t \<in> set (sleeping st)) \<Longrightarrow> t \<in> dom (threads st) \<Longrightarrow> kept st st' t"
  by (auto simp: kept_def)

lemma waits_kept:
  assumes "thread_waits_ok st t" and "kept st st' t" and "pids st' \<inter> {..global_pid st} \<subseteq> pids st" and "unexited st \<subseteq> unexited st'"
    and "global_pid st \<le> global_pid st'"
  shows "thread_waits_ok st' t"
  unfolding thread_waits_ok_def
proof (intro allI impI)
  fix p spl
  assume a: "map_option t_pcb (threads st' t) = Some (PcbSwitch (KW_wait p spl))"
  obtain th th' where th: "threads st t = Some th" "threads st' t = Some th'" "t_pid th' = t_pid th" "t_pcb th' = t_pcb th"
      "t \<in> set (sleeping st') \<longrightarrow> t \<in> set (sleeping st) \<and> t_sleepaddr th' = t_sleepaddr th"
    using assms(2) a by (auto simp: kept_def)
  then have "pid_of st t < p \<and> p \<le> global_pid st \<and>
      (t \<in> set (sleeping st) \<longrightarrow> sleeps_on st (PidObj p) t \<and> (p \<in> pids st \<longrightarrow> p \<in> unexited st))"
    using assms(1) a by (auto simp: thread_waits_ok_def)
  then show "pid_of st' t < p \<and> p \<le> global_pid st' \<and>
      (t \<in> set (sleeping st') \<longrightarrow> sleeps_on st' (PidObj p) t \<and> (p \<in> pids st' \<longrightarrow> p \<in> unexited st'))"
    using th assms(3,4,5) by (auto simp: pid_of_def sleeps_on_def)
qed

lemma live_dom: "thr_inv st \<Longrightarrow> t \<in> set (live st) \<Longrightarrow> t \<in> dom (threads st)"
  by (auto simp: thr_inv_def thr_struct_def)

lemma proc_frame:
  assumes i: "proc_inv D st" and t: "thr_inv st'" and p: "pending_ok st'" and l: "set (live st') = set (live st)"
    and e: "pidlist st' = pidlist st" "global_pid st' = global_pid st" and k: "\<And>t. t \<in> set (live st) \<Longrightarrow> kept st st' t"
  shows "proc_inv D st'"
proof -
  have w: "\<forall>t \<in> set (live st'). thread_waits_ok st' t"
    using i k l list_cong [OF e(1)] e(2) by (auto simp: proc_inv_def intro!: waits_kept [of st _ st'])
  have "pid_of st' ` set (live st') = pid_of st ` set (live st)" unfolding l by (intro image_cong refl kept_pid k)
  moreover have "pids_ok D st'" by (rule pids_ok_frame [of D st]) (use i l e k kept_pid in \<open>auto simp: proc_inv_def\<close>)
  ultimately show ?thesis using i t p w list_cong [OF e(1)] e(2) by (simp add: proc_inv_def)
qed

text \<open>Steps that touch neither threads nor lists, but only the level, the lock or what calls returned.\<close>

lemma proc_same:
  assumes i: "proc_inv D st" and s: "threads st' = threads st" "sleepers st' = sleepers st" "runqueue st' = runqueue st" "zombies st' = zombies st"
      "curthread st' = curthread st" "numthreads st' = numthreads st" "k_pending st' = k_pending st"
      "pidlist st' = pidlist st" "global_pid st' = global_pid st"
  shows "proc_inv D st'"
proof (rule proc_frame [OF i])
  have l: "live st' = live st" using s by (simp add: live_def running_def)
  show "thr_inv st'" using i s l by (simp add: proc_inv_def thr_inv_def thr_struct_def thr_lists_def)
  show "pending_ok st'" using i s by (simp add: proc_inv_def pending_ok_def)
  show "set (live st') = set (live st)" using l by simp
  show "kept st st' t" if "t \<in> set (live st)" for t using i s that live_dom by (intro kept_same) (auto simp: proc_inv_def)
qed (use s in simp_all)

lemma thread_sleep_effect:
  assumes "thread_sleep km a k st = Some st'" and "thr_inv st" and "kmem_limit km" and "curthread st = Some cur" and "threads st cur = Some th" and "k_pending st = None"
  shows "threads st' cur = Some (th\<lparr>t_sleepaddr := Some a, t_pcb := PcbSwitch k, t_ininterrupt := in_interrupt st\<rparr>)"
    and "t \<noteq> cur \<Longrightarrow> threads st' t = threads st t" and "set (sleeping st') = insert cur (set (sleeping st))"
    and "set (live st') = set (live st)" and "pending_ok st'" and "thr_inv st'"
proof -
  let ?st = "upd_thread cur (\<lambda>th. th\<lparr>t_sleepaddr := Some a\<rparr>) st"
  have sw: "mi_switch km S_SLEEP k ?st = Some st'" using assms(1,4) by (auto simp: thread_sleep_def split: if_splits)
  show "threads st' cur = Some (th\<lparr>t_sleepaddr := Some a, t_pcb := PcbSwitch k, t_ininterrupt := in_interrupt st\<rparr>)"
    using mi_switch_cur [OF sw] assms(4,5) by simp
  show "t \<noteq> cur \<Longrightarrow> threads st' t = threads st t" using mi_switch_other [OF sw, of t] assms(4) by simp
  show "pending_ok st'" using mi_switch_pending [OF sw] assms(6) by simp
  show inv: "thr_inv st'" using thread_sleep_inv(1) [OF assms(2,3,1)] .
  show "set (live st') = set (live st)" using thread_sleep_inv(2) [OF assms(2,3,1)] by (metis set_mset_mset)
  have str: "thr_struct ?st" using sleepaddr_inv [OF assms(2)] by (simp add: thr_inv_def)
  have c: "curspl ?st > 0" using sw by (auto simp: mi_switch_def mi_switch_out_def split: if_splits)
  obtain st1 where st1: "mi_switch_out km S_SLEEP k ?st = Some st1" "schedule st1 = Some st'"
    using sw assms(4) by (auto simp: mi_switch_def split: Option.bind_splits)
  then have "sleeping st1 = sleeping st @ [cur]" using mi_switch_out_sleep [OF str _ c, of cur km k] assms(4) by auto
  moreover have "sleepers st' = sleepers st1" using st1(2) by (auto simp: schedule_def split: Option.bind_splits if_splits)
  ultimately show "set (sleeping st') = insert cur (set (sleeping st))" by simp
qed

lemma cur_live: "curthread st = Some t \<Longrightarrow> t \<in> set (live st)"
  by (simp add: live_def running_def)

lemma proc_sleep:
  assumes i: "proc_inv D st" and km: "kmem_limit km" and cur: "curthread st = Some cur" and pend: "k_pending st = None"
    and s: "thread_sleep km a k st = Some st'"
    and k: "\<And>p spl. k = KW_wait p spl \<Longrightarrow> a = PidObj p \<and> pid_of st cur < p \<and> p \<le> global_pid st \<and> (p \<in> pids st \<longrightarrow> p \<in> unexited st)"
  shows "proc_inv D st'"
proof -
  have inv: "thr_inv st" using i by (simp add: proc_inv_def)
  obtain th where th: "threads st cur = Some th" using live_dom [OF inv cur_live [OF cur]] by blast
  note e = thread_sleep_effect [OF s inv km cur th pend] and m = pstate_more [OF more_sleep [OF s]]
  have pid: "pid_of st' t = pid_of st t" for t using e(1,2) th by (cases "t = cur") (auto simp: pid_of_def)
  have "thread_waits_ok st' t" if t: "t \<in> set (live st)" for t
  proof (cases "t = cur")
    case True
    then show ?thesis using e(1) k pid list_cong [OF m(2)] m(1) by (auto simp: thread_waits_ok_def sleeps_on_def)
  next
    case False
    then have "kept st st' t" using e(2,3) live_dom [OF inv t] by (intro kept_same) auto
    then show ?thesis using i t list_cong [OF m(2)] m(1) by (auto simp: proc_inv_def intro!: waits_kept [of st t st'])
  qed
  moreover have "pids_ok D st'" by (rule pids_ok_frame [of D st]) (use i e(4) pid m in \<open>simp_all add: proc_inv_def\<close>)
  ultimately show ?thesis using i e(4,5,6) pid list_cong [OF m(2)] m(1) by (simp add: proc_inv_def)
qed

lemma proc_wake:
  assumes i: "proc_inv D st" and km: "kmem_limit km" and w: "thread_wakeup km a st = Some st'"
  shows "proc_inv D st'" and "curthread st' = curthread st" and "k_pending st' = k_pending st" and "threads st' = threads st"
    and "kstate.more st' = kstate.more st" and "curspl st' = curspl st" and "in_interrupt st' = in_interrupt st"
    and "set (sleeping st') = {t \<in> set (sleeping st). \<not> sleeps_on st a t}" and "set (live st') = set (live st)"
proof -
  have inv: "thr_inv st" and str: "thr_struct st" using i by (simp_all add: proc_inv_def thr_inv_def)
  have c: "curspl st > 0" using w by (auto simp: thread_wakeup_def split: if_splits)
  note m = more_wakeup [OF w str km]
  show "curthread st' = curthread st" "k_pending st' = k_pending st" "threads st' = threads st" "kstate.more st' = kstate.more st"
    "curspl st' = curspl st" "in_interrupt st' = in_interrupt st" using m by simp_all
  have wk: "woke st (filter (sleeps_on st a) (sleeping st)) (filter (\<lambda>t. \<not> sleeps_on st a t) (sleeping st)) st'"
    using thread_wakeup_cases [OF str km c, of a] w by auto
  then show sl: "set (sleeping st') = {t \<in> set (sleeping st). \<not> sleeps_on st a t}" by (auto simp: woke_def)
  show l: "set (live st') = set (live st)" using wk by (auto simp: woke_def rq_step_def live_def running_def)
  show "proc_inv D st'"
  proof (rule proc_frame [OF i thread_wakeup_inv [OF inv km w] _ l pstate_more(2,1) [OF m(1)]])
    show "pending_ok st'" using i m by (simp add: proc_inv_def pending_ok_def)
    show "kept st st' t" if "t \<in> set (live st)" for t using m(6) sl that live_dom [OF inv] by (intro kept_same) auto
  qed
qed

lemma proc_spl: "proc_inv D (st\<lparr>curspl := n\<rparr>) = proc_inv D st"
proof
  show "proc_inv D st \<Longrightarrow> proc_inv D (st\<lparr>curspl := n\<rparr>)" by (erule proc_same) simp_all
  show "proc_inv D (st\<lparr>curspl := n\<rparr>) \<Longrightarrow> proc_inv D st" by (erule proc_same) simp_all
qed

lemma proc_fields:
  "proc_inv D st \<Longrightarrow> proc_inv D (st\<lparr>pid_lock := x\<rparr>)" "proc_inv D st \<Longrightarrow> proc_inv D (st\<lparr>wait_status := y\<rparr>)" "proc_inv D st \<Longrightarrow> proc_inv D (st\<lparr>wait_ret := z\<rparr>)"
  by (erule proc_same, simp_all)+

text \<open>Releasing the lock and searching the list keep the running thread and the threads as they are.\<close>

definition quiet :: "(int \<times> int) set \<Rightarrow> pstate \<Rightarrow> pstate \<Rightarrow> bool" where
  "quiet D st st' \<longleftrightarrow> proc_inv D st' \<and> curthread st' = curthread st \<and> k_pending st' = k_pending st \<and> threads st' = threads st \<and>
     pidlist st' = pidlist st \<and> global_pid st' = global_pid st \<and> curspl st' = curspl st \<and> set (live st') = set (live st)"

lemma release_quiet:
  assumes i: "proc_inv D st" and km: "kmem_limit km" and r: "pid_lock_release km st = Some st'"
  shows "quiet D st st'"
proof (cases "st' = st")
  case True
  then show ?thesis using i by (simp add: quiet_def)
next
  case False
  then obtain l st1 where l: "thread_wakeup km (LockObj l) (st\<lparr>pid_lock := Some (l, None), curspl := 15\<rparr>) = Some st1" "st' = st1\<lparr>curspl := curspl st\<rparr>"
    using r by (auto simp: pid_lock_release_def split: if_splits Option.bind_splits)
  have "proc_inv D (st\<lparr>pid_lock := Some (l, None), curspl := 15\<rparr>)" using i by (simp add: proc_spl proc_fields)
  note w = proc_wake [OF this km l(1)]
  show ?thesis using w pstate_more [OF w(5)] l(2) by (simp add: quiet_def proc_spl) (simp add: live_def running_def)
qed

lemma search_quiet:
  assumes i: "proc_inv D st" and km: "kmem_limit km" and r: "pidlist_search km nl p st = Some (b, st')"
  shows "quiet D st st'" and "p \<in> pids st \<Longrightarrow> b \<longleftrightarrow> p \<notin> unexited st"
proof -
  obtain l where l: "pidlist st = Some l" "distinct (map pe_pid l)" using i by (auto simp: proc_inv_def list_ok_def)
  define st1 where "st1 = (if pid_lock st = None then st\<lparr>pid_lock := map_option (\<lambda>l. (l, None)) nl\<rparr> else st)"
  have 1: "quiet D st st1" using i by (auto simp: quiet_def st1_def proc_fields live_def running_def)
  have run: "pidlist_search km nl p st = do { (t, _) \<leftarrow> cur_thread st; case find (\<lambda>e. pe_pid e = p) l of
       None \<Rightarrow> do { st2 \<leftarrow> pid_lock_release km st1; Some (False, st2) }
     | Some e \<Rightarrow> Some (pe_exited e, st1\<lparr>wait_status := (wait_status st1)(t \<mapsto> pe_code e)\<rparr>) }"
    using l 1 unfolding pidlist_search_def Let_def st1_def [symmetric] by (simp add: quiet_def cong: option.case_cong)
  show "quiet D st st'"
  proof (cases "find (\<lambda>e. pe_pid e = p) l")
    case None
    then have "pid_lock_release km st1 = Some st'" using r unfolding run by (auto split: Option.bind_splits)
    then show ?thesis using release_quiet [OF _ km, of D st1 st'] 1 by (auto simp: quiet_def)
  next
    case (Some e)
    then obtain y where "st' = st1\<lparr>wait_status := y\<rparr>" using r unfolding run by (auto split: Option.bind_splits)
    moreover have "live (st1\<lparr>wait_status := y\<rparr>) = live st1" by (simp add: live_def running_def)
    ultimately show ?thesis using 1 proc_fields(2) [of D st1 y] by (simp add: quiet_def)
  qed
  show "b \<longleftrightarrow> p \<notin> unexited st" if p: "p \<in> pids st"
  proof -
    obtain e where e: "find (\<lambda>e. pe_pid e = p) l = Some e" using p l(1) by (cases "find (\<lambda>e. pe_pid e = p) l") (auto simp: pids_def find_None_iff)
    then have e': "e \<in> set l" "pe_pid e = p" by (auto simp: find_Some_iff)
    have u: "e2 = e" if "e2 \<in> set l" "pe_pid e2 = p" for e2 using inj_onD [of pe_pid "set l" e2 e] l(2) e' that by (simp add: distinct_map)
    have "p \<in> unexited st \<longleftrightarrow> (\<exists>e2 \<in> set l. pe_pid e2 = p \<and> \<not> pe_exited e2)" using l(1) by (auto simp: unexited_def)
    then have "p \<in> unexited st \<longleftrightarrow> \<not> pe_exited e" using e' u by blast
    moreover have "b = pe_exited e" using r unfolding run e by (auto split: Option.bind_splits)
    ultimately show ?thesis by simp
  qed
qed

lemma proc_waitpid_loop:
  assumes i: "proc_inv D st" and km: "kmem_limit km" and cur: "curthread st = Some cur" and pend: "k_pending st = None"
    and p: "p \<le> global_pid st" "pid_of st cur < p" and r: "waitpid_loop km nl p st = Some st'"
  shows "proc_inv D st'"
proof -
  obtain b st2 where s: "pidlist_search km nl p (st\<lparr>curspl := 15\<rparr>) = Some (b, st2)"
      "(if b then wait_return p (st2\<lparr>curspl := curspl st\<rparr>) else thread_sleep km (PidObj p) (KW_wait p (curspl st)) st2) = Some st'"
    using r by (auto simp: waitpid_loop_def cong: if_cong split: Option.bind_splits)
  have "proc_inv D (st\<lparr>curspl := 15\<rparr>)" using i by (simp add: proc_spl)
  note q = search_quiet [OF this km s(1)]
  have st2: "proc_inv D st2" "curthread st2 = Some cur" "k_pending st2 = None" "pidlist st2 = pidlist st" "pid_of st2 cur = pid_of st cur"
    using q(1) cur pend by (auto simp: quiet_def pid_of_def)
  show ?thesis
  proof (cases b)
    case True
    then show ?thesis using s(2) st2(1) by (auto simp: wait_return_def proc_spl proc_fields split: Option.bind_splits)
  next
    case False
    then have "p \<in> pids st \<longrightarrow> p \<in> unexited st" using q(2) by (simp add: pids_def unexited_def)
    then have "p \<in> pids st2 \<longrightarrow> p \<in> unexited st2" using list_cong(1,2) [OF st2(4)] by simp
    moreover have "p \<le> global_pid st2" using q(1) p(1) by (simp add: quiet_def)
    ultimately show ?thesis using s(2) False st2 p(2) by (intro proc_sleep [OF st2(1) km st2(2,3)]) auto
  qed
qed

section \<open>Steps of processes\<close>

lemma proc_cur:
  assumes "proc_inv D st" and "cur_thread st = Some (t, th)"
  shows "curthread st = Some t" and "threads st t = Some th" and "t \<in> set (live st)" and "pid_of st t = t_pid th"
  using assms by (auto simp: cur_thread_def pid_of_def live_def running_def split: Option.bind_splits)

lemma proc_waitpid:
  assumes i: "proc_inv D st" and km: "kmem_limit km" and pend: "k_pending st = None" and r: "sys_waitpid km nl p sn opt st = Some st'"
  shows "proc_inv D st'"
proof -
  have ret: "proc_inv D st'" if "wait_return x st = Some st'" for x
    using that i by (auto simp: wait_return_def proc_fields split: Option.bind_splits)
  show ?thesis
  proof (cases "\<exists>x. wait_return x st = Some st'")
    case False
    then obtain me where me: "sys_get_pid st = Some me" "\<not> p \<le> me" "\<not> p > global_pid st" "waitpid_loop km nl p st = Some st'"
      using r by (auto simp: sys_waitpid_def get_globalpid_def split: if_splits Option.bind_splits)
    then obtain t th where t: "cur_thread st = Some (t, th)" "t_pid th = me" by (auto simp: sys_get_pid_def)
    note c = proc_cur [OF i t(1)]
    show ?thesis using proc_waitpid_loop [OF i km c(1) pend _ _ me(4)] me c(4) t(2) by auto
  qed (use ret in blast)
qed

lemma set_exited_props:
  "map pe_pid (set_exited p c l) = map pe_pid l"
  "distinct (map pe_pid l) \<Longrightarrow> pe_pid ` {e \<in> set (set_exited p c l). \<not> pe_exited e} = pe_pid ` {e \<in> set l. \<not> pe_exited e} - {p}"
proof -
  show "map pe_pid (set_exited p c l) = map pe_pid l" by (induction l) simp_all
  show "distinct (map pe_pid l) \<Longrightarrow> pe_pid ` {e \<in> set (set_exited p c l). \<not> pe_exited e} = pe_pid ` {e \<in> set l. \<not> pe_exited e} - {p}"
  proof (induction l)
    case (Cons e l)
    show ?case
    proof (cases "pe_pid e = p")
      case True
      then have "\<forall>x \<in> set l. pe_pid x \<noteq> p" using Cons.prems by (auto intro: rev_image_eqI)
      then show ?thesis using True by auto
    next
      case False
      then have "{x \<in> set (set_exited p c (e # l)). \<not> pe_exited x} = (if pe_exited e then {} else {e}) \<union> {x \<in> set (set_exited p c l). \<not> pe_exited x}" by auto
      moreover have "{x \<in> set (e # l). \<not> pe_exited x} = (if pe_exited e then {} else {e}) \<union> {x \<in> set l. \<not> pe_exited x}" by auto
      ultimately show ?thesis using Cons False by (simp only: image_Un) auto
    qed
  qed simp
qed

lemma pidlist_exit_props:
  assumes "list_ok st"
  shows "list_ok (pidlist_exit p c st)" and "unexited (pidlist_exit p c st) = unexited st - {p}" and "pids (pidlist_exit p c st) = pids st"
proof -
  obtain l where l: "pidlist st = Some l" "l \<noteq> []" "distinct (map pe_pid l)" using assms by (auto simp: list_ok_def)
  have "pe_pid ` set (set_exited p c l) = pe_pid ` set l" using set_exited_props(1) [of p c l] by (metis set_map)
  then show ps: "pids (pidlist_exit p c st) = pids st" using l by (simp add: pids_def pidlist_exit_def)
  show "unexited (pidlist_exit p c st) = unexited st - {p}" using set_exited_props(2) [OF l(3), of p c] l by (simp add: unexited_def pidlist_exit_def)
  have "set_exited p c l \<noteq> []" using l(2) by (cases l) auto
  then show "list_ok (pidlist_exit p c st)" using assms l ps set_exited_props(1) [of p c l] by (simp add: list_ok_def) (simp add: pidlist_exit_def)
qed

lemma set_exited_other: "e \<in> set l \<Longrightarrow> pe_pid e \<noteq> p \<Longrightarrow> e \<in> set (set_exited p c l)"
  by (induction l) auto

lemma set_exited_this: "p \<in> pe_pid ` set l \<Longrightarrow> \<exists>e \<in> set (set_exited p c l). pe_pid e = p \<and> pe_exited e \<and> pe_code e = c"
  by (induction l) auto

lemma exit_known_exit: "exit_known st q d \<Longrightarrow> q \<noteq> p \<Longrightarrow> exit_known (pidlist_exit p c st) q d"
  by (auto simp: exit_known_def pidlist_exit_def dest: set_exited_other split: option.splits)

text \<open>
  An exiting thread first marks its process; until its waiters have been woken, the invariant fails just for them.  So the two steps
  are taken together.
\<close>

lemma proc_mark:
  assumes i: "proc_inv D st" and km: "kmem_limit km" and cur: "cur_thread st = Some (t, th)"
    and w: "thread_wakeup km (PidObj (t_pid th)) (pidlist_exit (t_pid th) c (st\<lparr>curspl := 15\<rparr>)) = Some st2"
  shows "proc_inv D st2" and "pidlist st2 = pidlist (pidlist_exit (t_pid th) c st)" and "unexited st2 = unexited st - {t_pid th}"
    and "set (sleeping st2) = {u \<in> set (sleeping st). \<not> sleeps_on st (PidObj (t_pid th)) u}"
    and "set (live st2) = set (live st)" and "threads st2 = threads st" and "curthread st2 = Some t" and "k_pending st2 = k_pending st"
proof -
  note ct = proc_cur [OF i cur]
  define st1 where "st1 = pidlist_exit (t_pid th) c (st\<lparr>curspl := 15\<rparr>)"
  have f1: "threads st1 = threads st" "sleepers st1 = sleepers st" "curthread st1 = Some t" "k_pending st1 = k_pending st" "live st1 = live st"
      "curspl st1 = 15" "pidlist st1 = pidlist (pidlist_exit (t_pid th) c st)" "global_pid st1 = global_pid st"
    using ct by (simp_all add: st1_def pidlist_exit_def live_def running_def)
  have inv: "thr_inv st" and lk: "list_ok st" using i by (simp_all add: proc_inv_def)
  have inv1: "thr_inv st1" using inv by (simp add: st1_def pidlist_exit_def thr_inv_def thr_struct_def thr_lists_def live_def running_def)
  then have str1: "thr_struct st1" by (simp add: thr_inv_def)
  have w1: "thread_wakeup km (PidObj (t_pid th)) st1 = Some st2" using w by (simp add: st1_def)
  note m = more_wakeup [OF w1 str1 km] and m2 = pstate_more [OF more_wakeup(1) [OF w1 str1 km]]
  have wk: "woke st1 (filter (sleeps_on st1 (PidObj (t_pid th))) (sleeping st1)) (filter (\<lambda>u. \<not> sleeps_on st1 (PidObj (t_pid th)) u) (sleeping st1)) st2"
    using thread_wakeup_cases [OF str1 km, of "PidObj (t_pid th)"] f1(6) w1 by auto
  show sl: "set (sleeping st2) = {u \<in> set (sleeping st). \<not> sleeps_on st (PidObj (t_pid th)) u}"
    using wk f1(1,2) by (auto simp: woke_def sleeps_on_def)
  have "set (live st2) = set (live st1)" using wk by (auto simp: woke_def rq_step_def live_def running_def)
  then show lv: "set (live st2) = set (live st)" using f1(5) by simp
  show th2: "threads st2 = threads st" and c2: "curthread st2 = Some t" and k2: "k_pending st2 = k_pending st" using m f1 by simp_all
  show pl: "pidlist st2 = pidlist (pidlist_exit (t_pid th) c st)" using m2(2) f1(7) by simp
  note px = pidlist_exit_props [OF lk, of "t_pid th" c]
  show un: "unexited st2 = unexited st - {t_pid th}" using px(2) list_cong(2) [OF pl] by simp
  have ps: "pids st2 = pids st" using px(3) list_cong(1) [OF pl] by simp
  have gp: "global_pid st2 = global_pid st" using m2(1) f1(8) by simp
  have "list_ok st2" using px(1) list_cong(3) [OF pl] gp by (simp add: pidlist_exit_def)
  moreover have "thread_waits_ok st2 u" if u: "u \<in> set (live st)" for u
    using i u th2 sl un ps gp by (auto simp: proc_inv_def thread_waits_ok_def pid_of_def sleeps_on_def)
  moreover have po: "pid_of st2 = pid_of st" using th2 by (simp add: pid_of_def fun_eq_iff)
  moreover have "pids_ok D st2"
  proof -
    have "exit_known st2 q d" if "(q, d) \<in> D" for q d
    proof -
      have "q \<notin> pid_of st ` set (live st)" "exit_known st q d" using that i by (simp_all add: proc_inv_def pids_ok_def)
      moreover from this have "q \<noteq> t_pid th" using ct(3,4) by (metis imageI)
      ultimately have "exit_known (pidlist_exit (t_pid th) c st) q d" by (intro exit_known_exit)
      then show ?thesis using pl by (simp add: exit_known_def)
    qed
    then show ?thesis using i po lv gp by (simp add: proc_inv_def pids_ok_def)
  qed
  moreover have "pending_ok st2" using i th2 c2 k2 ct by (simp add: proc_inv_def pending_ok_def)
  ultimately show "proc_inv D st2" using i lv un thread_wakeup_inv [OF inv1 km w1] by (auto simp: proc_inv_def)
qed

text \<open>A thread that ends has no process that others may still wait for.\<close>

lemma proc_thread_exit:
  assumes i: "proc_inv D st" and cur: "curthread st = Some t" and pend: "k_pending st = None" and r: "thread_exit km k st = Some st'"
    and u: "pid_of st t \<notin> unexited st"
  shows "proc_inv D st'" and "sleepers st' = sleepers st" and "set (live st') = set (live st) - {t}" and "kstate.more st' = kstate.more st"
    and "\<And>v. v \<in> set (live st') \<Longrightarrow> pid_of st' v = pid_of st v"
proof -
  have inv: "thr_inv st" using i by (simp add: proc_inv_def)
  note e = thread_exit_effect [OF r cur pend] and m = pstate_more [OF more_exit [OF r]]
  have ec: "thr_inv st' \<and> mset (live st) = add_mset t (mset (live st'))" using thread_exit_cases [OF inv cur, of km k] r by auto
  have "distinct (live st)" using inv by (simp add: thr_inv_def thr_struct_def)
  then have "distinct (t # live st')" using ec by (metis mset.simps(2) mset_eq_imp_distinct_iff)
  moreover have "set (live st) = insert t (set (live st'))" using ec by (metis set_mset_add_mset_insert set_mset_mset)
  ultimately show lv: "set (live st') = set (live st) - {t}" by auto
  show "sleepers st' = sleepers st" "kstate.more st' = kstate.more st" using e(2) more_exit [OF r] by simp_all
  have kp: "kept st st' v" if "v \<in> set (live st')" for v
    using that lv e(1) [of v] e(2) live_dom [OF inv] by (intro kept_same) auto
  show "\<And>v. v \<in> set (live st') \<Longrightarrow> pid_of st' v = pid_of st v" using kp kept_pid by blast
  have "thread_waits_ok st' v" if "v \<in> set (live st')" for v
    using kp [OF that] that lv i list_cong [OF m(2)] m(1) by (auto simp: proc_inv_def intro!: waits_kept [of st v st'])
  moreover have "unexited st' \<subseteq> pid_of st' ` set (live st')"
  proof
    fix p
    assume p: "p \<in> unexited st'"
    then obtain v where v: "v \<in> set (live st)" "pid_of st v = p" using list_cong(2) [OF m(2)] i by (auto simp: proc_inv_def)
    have "v \<noteq> t" using p u v(2) list_cong(2) [OF m(2)] by auto
    then have "pid_of st' v = p" "v \<in> set (live st')" using v lv kp [of v] kept_pid by auto
    then show "p \<in> pid_of st' ` set (live st')" by blast
  qed
  moreover have "pids_ok D st'" by (rule pids_ok_frame [of D st]) (use i lv m kp kept_pid in \<open>auto simp: proc_inv_def\<close>)
  ultimately show "proc_inv D st'" using ec e(3) i list_cong(3) [OF m(2,1)] by (simp add: proc_inv_def)
qed

lemma proc_exit:
  assumes i: "proc_inv D st" and km: "kmem_limit km" and pend: "k_pending st = None" and r: "sys_exit km c st = Some st'"
    and cur: "cur_thread st = Some (t, th)"
  shows "proc_inv D st'" and "pidlist st' = pidlist (pidlist_exit (t_pid th) c st)"
    and "set (sleeping st') = {u \<in> set (sleeping st). \<not> sleeps_on st (PidObj (t_pid th)) u}"
    and "set (live st') = set (live st) - {t}" and "t_pid th \<in> pids st \<Longrightarrow> proc_inv (insert (t_pid th, c) D) st'"
proof -
  have "cur_thread (st\<lparr>curspl := 15\<rparr>) = Some (t, th)" using cur by (simp add: cur_thread_def)
  then obtain st2 where w: "thread_wakeup km (PidObj (t_pid th)) (pidlist_exit (t_pid th) c (st\<lparr>curspl := 15\<rparr>)) = Some st2"
      and ex: "thread_exit km KW_exit (st2\<lparr>curspl := curspl st\<rparr>) = Some st'"
    using r by (auto simp: sys_exit_def split: Option.bind_splits)
  note m = proc_mark [OF i km cur w]
  have "pid_of st2 t = t_pid th" using m(6) proc_cur(2) [OF i cur] by (simp add: pid_of_def)
  then have "pid_of (st2\<lparr>curspl := curspl st\<rparr>) t \<notin> unexited (st2\<lparr>curspl := curspl st\<rparr>)" using m(3) by (simp add: pid_of_def unexited_def)
  note x = proc_thread_exit [OF _ _ _ ex this] m(1,7,8) pend
  have y: "proc_inv D st'" "sleepers st' = sleepers st2" "set (live st') = set (live st2) - {t}" "kstate.more st' = kstate.more st2"
    and pv: "\<And>v. v \<in> set (live st') \<Longrightarrow> pid_of st' v = pid_of st v"
    using x m(6) by (simp_all add: proc_spl pid_of_def)
  show "proc_inv D st'" by (fact y(1))
  show "pidlist st' = pidlist (pidlist_exit (t_pid th) c st)" using pstate_more(2) [OF y(4)] m(2) by simp
  show "set (sleeping st') = {u \<in> set (sleeping st). \<not> sleeps_on st (PidObj (t_pid th)) u}" using y(2) m(4) by simp
  show lv: "set (live st') = set (live st) - {t}" using y(3) m(5) by simp
  show "proc_inv (insert (t_pid th, c) D) st'" if p: "t_pid th \<in> pids st"
  proof -
    obtain l where l: "pidlist st = Some l" using i by (auto simp: proc_inv_def list_ok_def)
    have pl: "pidlist st' = Some (set_exited (t_pid th) c l)" using pstate_more(2) [OF y(4)] m(2) l by (simp add: pidlist_exit_def)
    then have "exit_known st' (t_pid th) c" using set_exited_this [of "t_pid th" l c] p l by (simp add: exit_known_def pids_def)
    moreover have "t_pid th \<in> pids st'" using p l pl arg_cong [OF set_exited_props(1) [of "t_pid th" c l], of set] by (simp add: pids_def)
    then have "t_pid th \<le> global_pid st'" using y(1) by (auto simp: proc_inv_def list_ok_def)
    moreover have "t_pid th \<notin> pid_of st' ` set (live st')"
    proof
      assume "t_pid th \<in> pid_of st' ` set (live st')"
      then obtain v where v': "v \<in> set (live st')" "pid_of st' v = t_pid th" by (metis imageE)
      then have "v \<in> set (live st)" "v \<noteq> t" "pid_of st v = t_pid th" using pv [OF v'(1)] lv by simp_all
      moreover have "inj_on (pid_of st) (set (live st))" using i by (simp add: proc_inv_def pids_ok_def)
      ultimately show False using proc_cur(3,4) [OF i cur] by (metis inj_onD)
    qed
    ultimately show ?thesis using y(1) by (auto simp: proc_inv_def pids_ok_def)
  qed
qed

lemma global_pos: "list_ok st \<Longrightarrow> 1 \<le> global_pid st"
proof -
  assume a: "list_ok st"
  then obtain l where "pidlist st = Some l" "l \<noteq> []" by (auto simp: list_ok_def)
  then have "pe_pid (hd l) \<in> pids st" by (simp add: pids_def)
  then have "pe_pid (hd l) \<in> {1..global_pid st}" using a by (auto simp: list_ok_def)
  then show "1 \<le> global_pid st" by simp
qed

text \<open>A new thread, with an entry of its own in the list or without one.\<close>

lemma proc_admit:
  assumes i: "proc_inv D st" and v: "thr_inv st'" and l: "set (live st') = insert t (set (live st))" and f: "threads st t = None"
    and th: "threads st' = (threads st)(t \<mapsto> th')" "t_pcb th' = PcbStart" and s: "sleeping st' = sleeping st" "curthread st' = curthread st" "k_pending st' = k_pending st"
    and p: "pidlist st' = pidlist st \<or> (\<exists>l e. pidlist st = Some l \<and> pidlist st' = Some (l @ [e]) \<and> pe_pid e = global_pid st + 1)"
    and g: "global_pid st' = global_pid st + 1" "t_pid th' = global_pid st + 1"
  shows "proc_inv D st'"
proof -
  have lk: "list_ok st" using i by (simp add: proc_inv_def)
  have nl: "t \<notin> set (live st)" using live_dom f i by (auto simp: proc_inv_def)
  obtain es where es: "pidlist st = Some es" "es \<noteq> []" "distinct (map pe_pid es)" "\<forall>e \<in> set es. 1 \<le> pe_pid e \<and> pe_pid e \<le> global_pid st"
    using lk by (auto simp: list_ok_def pids_def image_subset_iff)
  have sub: "pids st' \<inter> {..global_pid st} \<subseteq> pids st" "global_pid st \<le> global_pid st'" "unexited st \<subseteq> unexited st'" "unexited st' \<subseteq> insert (t_pid th') (unexited st)"
    using p g es(1) by (auto simp: pids_def unexited_def)
  have lo: "list_ok st'" using p g es global_pos [OF lk] by (fastforce simp: list_ok_def pids_def)
  have kp: "kept st st' u" if "u \<in> set (live st)" for u
    using that nl th(1) s(1) live_dom i by (intro kept_same) (auto simp: proc_inv_def)
  then have "thread_waits_ok st' u" if "u \<in> set (live st)" for u using that i sub by (auto simp: proc_inv_def intro!: waits_kept [of st u st'])
  moreover have "thread_waits_ok st' t" using th by (simp add: thread_waits_ok_def)
  moreover have "unexited st' \<subseteq> pid_of st' ` set (live st')"
  proof -
    have "pid_of st' t = t_pid th'" using th(1) by (simp add: pid_of_def)
    moreover have "pid_of st ` set (live st) = pid_of st' ` set (live st)" by (intro image_cong refl kept_pid [symmetric] kp)
    ultimately show ?thesis using sub(4) i l by (auto simp: proc_inv_def)
  qed
  moreover have "pending_ok st'" using i s(2,3) th(1) f by (fastforce simp: proc_inv_def pending_ok_def)
  moreover have "pids_ok D st'"
  proof -
    have po: "pids_ok D st" using i by (simp add: proc_inv_def)
    have pk: "pid_of st' u = pid_of st u" if "u \<in> set (live st)" for u using kept_pid [OF kp [OF that]] .
    have pt: "pid_of st' t = global_pid st + 1" using th(1) g by (simp add: pid_of_def)
    have "inj_on (pid_of st') (set (live st))" using po inj_on_cong [of "set (live st)" "pid_of st'" "pid_of st", OF pk] by (simp add: pids_ok_def)
    moreover have im: "pid_of st' ` set (live st) = pid_of st ` set (live st)" by (rule image_cong [OF refl pk])
    moreover have lt: "x \<le> global_pid st" if "x \<in> pid_of st ` set (live st)" for x using that po by (auto simp: pids_ok_def)
    moreover have "global_pid st + 1 \<notin> pid_of st ` set (live st)" using lt by force
    ultimately have "inj_on (pid_of st') (set (live st'))" using l pt nl by (simp add: inj_on_insert)
    moreover have "exit_known st' q d" if "exit_known st q d" for q d using that p es(1) by (auto simp: exit_known_def)
    moreover have "pid_of st' ` set (live st') = insert (global_pid st + 1) (pid_of st ` set (live st))" using l pt im by simp
    moreover have "pid_of st' u \<le> global_pid st'" if "u \<in> set (live st')" for u
      using that l pt pk [of u] lt [of "pid_of st u"] g(1) by auto
    ultimately show ?thesis using po g(1) unfolding pids_ok_def by (auto 0 3 dest: spec)
  qed
  ultimately show ?thesis using v l lo by (simp add: proc_inv_def)
qed

lemma fork_admit:
  assumes i: "proc_inv D st" and km: "kmem_limit km" and cur: "cur_thread st = Some (u, cth)" and f: "threads st t = None"
    and r: "thread_fork (Some t) True okstack km name st = Some (Inr x, st1)"
  shows "x = t" and "thr_inv st1" and "set (live st1) = insert t (set (live st))" and "threads st1 = (threads st)(t \<mapsto> fork_child name cth)"
    and "sleeping st1 = sleeping st" and "curthread st1 = curthread st" and "k_pending st1 = k_pending st" and "kstate.more st1 = kstate.more st"
    and "t_pcb (fork_child name cth) = PcbStart"
proof -
  note c = proc_cur [OF i cur]
  have inv: "thr_inv st" using i by (simp add: proc_inv_def)
  have fr: "thr_inv st1" "fork_result t (fork_child name cth) st (Inr x) st1" using thread_fork_cases [OF inv c(1,2) f km, of okstack name] r by auto
  then have "x = t" by (auto simp: fork_result_def split: if_splits)
  then show "x = t" "thr_inv st1" "threads st1 = (threads st)(t \<mapsto> fork_child name cth)" "sleeping st1 = sleeping st" "curthread st1 = curthread st"
    "k_pending st1 = k_pending st" "kstate.more st1 = kstate.more st" "set (live st1) = insert t (set (live st))"
    using fr by (auto simp: fork_result_def live_def running_def)
  show "t_pcb (fork_child name cth) = PcbStart" by (simp add: fork_child_def new_thread_def)
qed

lemma fork_fails:
  assumes i: "proc_inv D st" and km: "kmem_limit km" and cur: "cur_thread st = Some (u, cth)" and f: "threads st t = None"
    and r: "thread_fork (Some t) True okstack km name st = Some (Inl e, st1)"
  shows "proc_inv D st1"
proof -
  note c = proc_cur [OF i cur]
  have inv: "thr_inv st" using i by (simp add: proc_inv_def)
  have fr: "thr_inv st1" "fork_result t (fork_child name cth) st (Inl e) st1" using thread_fork_cases [OF inv c(1,2) f km, of okstack name] r by auto
  have m: "kstate.more st1 = kstate.more st" using fr(2) by (simp add: fork_result_def)
  show ?thesis
  proof (rule proc_frame [OF i fr(1) _ _ pstate_more(2,1) [OF m]])
    show "pending_ok st1" using fr(2) i by (simp add: fork_result_def proc_inv_def pending_ok_def)
    show "set (live st1) = set (live st)" using fr(2) by (simp add: fork_result_def live_def running_def)
    show "kept st st1 t" if "t \<in> set (live st)" for t using fr(2) that live_dom [OF inv] by (intro kept_same) (auto simp: fork_result_def)
  qed
qed

lemma pid_inv: "thr_inv st \<Longrightarrow> thr_inv (upd_thread t (\<lambda>th. th\<lparr>t_pid := x\<rparr>) st)"
  by (rule upd_thread_inv) (simp_all add: stack_ok_def disposable_def)

lemma proc_fork:
  assumes i: "proc_inv D st" and km: "kmem_limit km" and f: "fm_thread fm = Some t" "threads st t = None" "fm_name fm"
    and g: "global_pid st < 2 ^ 31 - 1" and r: "sys_fork km fm st = Some (x, st')"
  shows "proc_inv D st'"
proof (cases "\<not> fm_tf fm \<or> fm_as fm = None")
  case True
  then show ?thesis using r i by (simp add: sys_fork_def)
next
  case False
  then obtain as where ok: "fm_tf fm" "fm_as fm = Some as" by auto
  obtain u cth where cur: "cur_thread st = Some (u, cth)" using r ok by (auto simp: sys_fork_def split: Option.bind_splits)
  obtain q st1 where tf: "thread_fork (Some t) True (fm_stack fm) km (t_name cth) st = Some (q, st1)"
    using r ok f cur by (auto simp: sys_fork_def split: Option.bind_splits)
  show ?thesis
  proof (cases q)
    case (Inl e)
    then have "st' = st1" using r ok f cur tf by (simp add: sys_fork_def)
    then show ?thesis using fork_fails [OF i km cur f(2)] tf Inl by simp
  next
    case (Inr y)
    note a = fork_admit [OF i km cur f(2) tf [unfolded Inr]]
    have c1: "c_int (global_pid st1 + 1) = global_pid st + 1"
      using pstate_more(1) [OF a(8)] g global_pos [of st] i by (subst c_int_id) (auto simp: proc_inv_def)
    obtain lk where lk: "pid_lock_acquire st1 = Some (st1\<lparr>pid_lock := lk\<rparr>)"
      using r ok f cur tf Inr by (auto simp: sys_fork_def pid_lock_acquire_def split: Option.bind_splits if_splits)
    define st4 where "st4 = upd_thread t (\<lambda>th. th\<lparr>t_pid := global_pid st + 1\<rparr>) (st1\<lparr>pid_lock := lk, global_pid := global_pid st + 1\<rparr>)"
    have run: "sys_fork km fm st = (case pidlist_create (fm_entry fm) (fm_junk fm) (global_pid st4) of None \<Rightarrow> Some (- 1, st4)
        | Some e \<Rightarrow> do { l \<leftarrow> pidlist st4; kassert (l \<noteq> []); st5 \<leftarrow> pid_lock_release km (st4\<lparr>pidlist := Some (l @ [e])\<rparr>); Some (global_pid st + 1, st5) })"
      using ok f cur tf Inr lk c1 a(1) by (simp add: sys_fork_def get_newpid_def get_globalpid_def Let_def st4_def cong: option.case_cong if_cong)
    have "thr_inv (st1\<lparr>pid_lock := lk, global_pid := global_pid st + 1\<rparr>)"
      using a(2) by (simp add: thr_inv_def thr_struct_def thr_lists_def live_def running_def)
    then have v4: "thr_inv st4" unfolding st4_def by (rule pid_inv)
    have s4: "threads st4 = (threads st)(t \<mapsto> (fork_child (t_name cth) cth)\<lparr>t_pid := global_pid st + 1\<rparr>)" "sleeping st4 = sleeping st"
        "curthread st4 = curthread st" "k_pending st4 = k_pending st" "set (live st4) = insert t (set (live st))" "global_pid st4 = global_pid st + 1"
        "pidlist st4 = pidlist st"
      using a pstate_more(2) [OF a(8)] unfolding st4_def by (simp_all add: live_def running_def upd_thread_def)
    have "proc_inv D st4" by (rule proc_admit [OF i v4 s4(5) f(2) s4(1) _ s4(2,3,4)]) (use a(9) s4 in simp_all)
    show ?thesis
    proof (cases "pidlist_create (fm_entry fm) (fm_junk fm) (global_pid st4)")
      case None
      then show ?thesis using r run \<open>proc_inv D st4\<close> by simp
    next
      case (Some e)
      then have e: "pe_pid e = global_pid st + 1" using s4(6) by (auto simp: pidlist_create_def split: if_splits)
      obtain l where l: "pidlist st = Some l" using i by (auto simp: proc_inv_def list_ok_def)
      define st5 where "st5 = st4\<lparr>pidlist := Some (l @ [e])\<rparr>"
      have v5: "thr_inv st5" using v4 by (simp add: st5_def thr_inv_def thr_struct_def thr_lists_def live_def running_def)
      have s5: "set (live st5) = insert t (set (live st))" using s4(5) by (simp add: st5_def live_def running_def)
      have p5: "proc_inv D st5" by (rule proc_admit [OF i v5 s5 f(2), where th' = "(fork_child (t_name cth) cth)\<lparr>t_pid := global_pid st + 1\<rparr>"])
        (use a(9) s4 l e in \<open>auto simp: st5_def\<close>)
      have "pid_lock_release km st5 = Some st'"
      proof -
        have ne: "l \<noteq> []" using i l by (auto simp: proc_inv_def list_ok_def)
        have "sys_fork km fm st = do { st6 \<leftarrow> pid_lock_release km st5; Some (global_pid st + 1, st6) }"
          unfolding run Some st5_def using s4(7) l ne by simp
        then show ?thesis using r by (cases "pid_lock_release km st5") simp_all
      qed
      from release_quiet [OF p5 km this] show ?thesis by (simp add: quiet_def)
    qed
  qed
qed

text \<open>Starting a program from the menu, up to \<open>thread_join\<close>.\<close>

lemma proc_program:
  assumes i: "proc_inv D st" and km: "kmem_limit km" and f: "threads st t = None" and g: "global_pid st < 2 ^ 31 - 1"
    and cur: "cur_thread st = Some (u, cth)" and r: "common_prog_fork km (Some t) True okstack name st = Some (x, st')"
  shows "proc_inv D st'"
proof -
  obtain q st1 where tf: "thread_fork (Some t) True okstack km name st = Some (q, st1)"
    using r by (auto simp: common_prog_fork_def split: Option.bind_splits)
  show ?thesis
  proof (cases q)
    case (Inl e)
    then have "st' = st1" using r tf by (simp add: common_prog_fork_def)
    then show ?thesis using fork_fails [OF i km cur f] tf Inl by simp
  next
    case (Inr y)
    note a = fork_admit [OF i km cur f tf [unfolded Inr]]
    have c1: "c_int (global_pid st1 + 1) = global_pid st + 1"
      using pstate_more(1) [OF a(8)] g global_pos [of st] i by (subst c_int_id) (auto simp: proc_inv_def)
    have st': "st' = upd_thread t (\<lambda>th. th\<lparr>t_pid := global_pid st + 1\<rparr>) (st1\<lparr>global_pid := global_pid st + 1\<rparr>)"
      using r tf Inr a(1) c1 by (simp add: common_prog_fork_def get_newpid_def Let_def)
    have "thr_inv (st1\<lparr>global_pid := global_pid st + 1\<rparr>)" using a(2) by (simp add: thr_inv_def thr_struct_def thr_lists_def live_def running_def)
    then have v: "thr_inv st'" unfolding st' by (rule pid_inv)
    have s4: "threads st' = (threads st)(t \<mapsto> (fork_child name cth)\<lparr>t_pid := global_pid st + 1\<rparr>)" "sleeping st' = sleeping st"
        "curthread st' = curthread st" "k_pending st' = k_pending st" "set (live st') = insert t (set (live st))" "global_pid st' = global_pid st + 1"
        "pidlist st' = pidlist st"
      using a pstate_more(2) [OF a(8)] unfolding st' by (simp_all add: live_def running_def upd_thread_def)
    show ?thesis by (rule proc_admit [OF i v s4(5) f s4(1) _ s4(2,3,4)]) (use a(9) s4 in simp_all)
  qed
qed

lemma proc_join:
  assumes i: "proc_inv D st" and km: "kmem_limit km" and pend: "k_pending st = None" and r: "thread_join km nl t st = Some st'"
  shows "proc_inv D st'"
proof -
  obtain p b st2 where s: "pidlist_search km nl (p) (st\<lparr>curspl := 15\<rparr>) = Some (b, st2)"
      "(if b then wait_return 0 (st2\<lparr>curspl := curspl st\<rparr>) else thread_sleep km (PidObj (p)) (KW_join (p) (curspl st)) st2) = Some st'"
    using r by (auto simp: thread_join_def cong: if_cong split: Option.bind_splits)
  have "proc_inv D (st\<lparr>curspl := 15\<rparr>)" using i by (simp add: proc_spl)
  note q = search_quiet(1) [OF this km s(1)]
  have st2: "proc_inv D st2" "k_pending st2 = None" using q pend by (auto simp: quiet_def)
  show ?thesis
  proof (cases b)
    case True
    then show ?thesis using s(2) st2(1) by (auto simp: wait_return_def proc_spl proc_fields split: Option.bind_splits)
  next
    case False
    then have sl: "thread_sleep km (PidObj (p)) (KW_join (p) (curspl st)) st2 = Some st'" using s(2) by simp
    then obtain cur where "curthread st2 = Some cur" by (auto simp: thread_sleep_def split: Option.bind_splits if_splits)
    from proc_sleep [OF st2(1) km this st2(2) sl] show ?thesis by simp
  qed
qed

lemma proc_switch_kept:
  assumes i: "proc_inv D st" and v: "thr_inv st'" and l: "set (live st') = set (live st)" and p: "pending_ok st'" and m: "kstate.more st' = kstate.more st"
    and k: "\<And>t. t \<in> set (live st) \<Longrightarrow> kept st st' t"
  shows "proc_inv D st'"
  by (rule proc_frame [OF i v p l pstate_more(2,1) [OF m] k])

lemma proc_yield:
  assumes i: "proc_inv D st" and km: "kmem_limit km" and cur: "curthread st = Some cur" and pend: "k_pending st = None"
    and r: "thread_yield km KW_yield st = Some st'"
  shows "proc_inv D st'"
proof (rule proc_switch_kept [OF i])
  have sw: "mi_switch km S_READY (KW_yield (curspl st)) (st\<lparr>curspl := 15\<rparr>) = Some st'" using r cur by (simp add: thread_yield_def)
  have inv: "thr_inv st" using i by (simp add: proc_inv_def)
  show "thr_inv st'" using thread_yield_inv(1) [OF inv km r] .
  show "set (live st') = set (live st)" using thread_yield_inv(2) [OF inv km r] by (metis set_mset_mset)
  show "pending_ok st'" using mi_switch_pending [OF sw] pend by simp
  show "kstate.more st' = kstate.more st" using more_yield [OF r] .
  show "kept st st' t" if t: "t \<in> set (live st)" for t
  proof (cases "t = cur")
    case True
    obtain th where "threads st cur = Some th" using live_dom [OF inv cur_live [OF cur]] by blast
    then show ?thesis using True mi_switch_cur [OF sw, of cur th] cur by (auto simp: kept_def)
  next
    case False
    then show ?thesis using mi_switch_other [OF sw, of t] mi_switch_sleepers [OF sw] cur live_dom [OF inv t] by (intro kept_same) auto
  qed
qed

lemma proc_idle:
  assumes i: "proc_inv D st" and cur: "curthread st = None" and r: "schedule st = Some st'"
  shows "proc_inv D st'"
proof (rule proc_switch_kept [OF i])
  have inv: "thr_inv st" and str: "thr_struct st" and pend: "k_pending st = None"
    using i cur by (auto simp: proc_inv_def thr_inv_def pending_ok_def)
  note s = schedule_struct [OF str cur r]
  show "thr_inv st'" using s inv live_length [of st' st] by (simp add: thr_inv_def)
  show "set (live st') = set (live st)" using s(2) by (metis set_mset_mset)
  show "pending_ok st'" using schedule_pending [OF r pend] .
  show "kstate.more st' = kstate.more st" using r by (auto simp: schedule_def split: Option.bind_splits if_splits)
  show "kept st st' t" if "t \<in> set (live st)" for t using s live_dom [OF inv that] by (intro kept_same) auto
qed

lemma proc_return:
  assumes i: "proc_inv D st" and r: "mi_switch_return st = Some st'"
  shows "proc_inv D st'" and "\<And>t. t \<in> set (live st) \<Longrightarrow> threads st' t = threads st t" and "curthread st' = curthread st" and "k_pending st' = None"
    and "pidlist st' = pidlist st"
proof -
  have inv: "thr_inv st" using i by (simp add: proc_inv_def)
  note e = mi_switch_return_effect [OF r inv] and v = mi_switch_return_inv [OF inv r]
  show "proc_inv D st'"
    by (rule proc_switch_kept [OF i v(1) _ pending_None [OF e(3)] e(4)]) (use v e live_dom [OF inv] in \<open>auto intro!: kept_same\<close>)
  show "\<And>t. t \<in> set (live st) \<Longrightarrow> threads st' t = threads st t" "curthread st' = curthread st" "k_pending st' = None" "pidlist st' = pidlist st"
    using e pstate_more(2) [OF e(4)] by auto
qed

lemma proc_awake:
  assumes i: "proc_inv D st" and pend: "k_pending st = None" and r: "thread_sleep_return st = Some st'"
  shows "proc_inv D st'" and "curthread st' = curthread st" and "k_pending st' = None" and "pidlist st' = pidlist st" and "pid_of st' t = pid_of st t"
proof -
  have inv: "thr_inv st" using i by (simp add: proc_inv_def)
  obtain c where c: "curthread st = Some c" "st' = upd_thread c (\<lambda>th. th\<lparr>t_sleepaddr := None\<rparr>) st"
    using r by (auto simp: thread_sleep_return_def split: Option.bind_splits)
  have str: "thr_struct st" using inv by (simp add: thr_inv_def)
  have "c \<notin> set (sleeping st)" using str c(1) by (auto simp: thr_struct_def live_def running_def)
  then have "kept st st' t" if "t \<in> set (live st)" for t using c(2) live_dom [OF inv that] by (auto simp: kept_def)
  moreover have l: "set (live st') = set (live st)" using c(2) by simp
  moreover have "pending_ok st'" using c(2) pend by (simp add: pending_ok_def)
  ultimately show "proc_inv D st'" using proc_switch_kept [OF i thread_sleep_return_inv [OF inv r]] more_sleep_return [OF r] by blast
  show "curthread st' = curthread st" "k_pending st' = None" using c pend by simp_all
  show "pidlist st' = pidlist st" using pstate_more(2) [OF more_sleep_return [OF r]] .
  show "pid_of st' t = pid_of st t" using c(2) by (simp add: pid_of_def split: option.split)
qed

end
