(* ===== verification/Process_Steps.thy ===== *)
theory Process_Steps
  imports Process_Inv
begin

text \<open>
  The step relation of processes and the states it reaches from the boot of the kernel.  A step is a system call, a fork by the menu,
  the end of a thread that has no entry in the list, preemption, what a thread does that was switched to, or the idle loop.  A system
  call runs up to its end or to where it sleeps.
\<close>

section \<open>What a thread does that was switched to\<close>

lemma proc_exorcise:
  assumes i: "proc_inv D st" and r: "exorcise st = Some st'"
  shows "proc_inv D st'"
proof -
  have inv: "thr_inv st" and str: "thr_struct st" and num: "numthreads st = int (length (live st))"
    using i by (simp_all add: proc_inv_def thr_inv_def)
  note ex = exorcise_struct [OF str r]
  have "curspl st > 0" using r by (auto simp: exorcise_def split: if_splits)
  then obtain z where z: "st' = st\<lparr>threads := (\<lambda>t. if t \<in> set (dead st) then None else threads st t), zombies := z\<rparr>"
    using exorcise_eq [OF str] r by auto
  show ?thesis
  proof (rule proc_switch_kept [OF i _ _ _ more_exorcise [OF r str]])
    show "thr_inv st'" using ex num by (simp add: thr_inv_def)
    show "set (live st') = set (live st)" using ex(2) by simp
    have kp: "k_pending st' = k_pending st" using z by simp
    have th: "threads st' t = threads st t" if "curthread st = Some t" for t using ex(6) [OF cur_live [OF that]] .
    have "pending_ok st" using i by (simp add: proc_inv_def)
    then show "pending_ok st'" unfolding pending_ok_def kp ex(5) by (metis th)
    show "kept st st' t" if "t \<in> set (live st)" for t
      using z ex(6) [OF that] live_dom [OF inv that] by (intro kept_same) auto
  qed
qed

lemma proc_start:
  assumes i: "proc_inv D st" and r: "mi_threadstart st = Some st'"
  shows "proc_inv D st'"
proof -
  have inv: "thr_inv st" using i by (simp add: proc_inv_def)
  obtain st1 where st1: "activate_cur st = Some st1" "st' = st1\<lparr>curspl := 0, k_pending := None\<rparr>"
    using r by (auto simp: mi_threadstart_def spl0_def splx_def split: Option.bind_splits)
  note ac = activate_cur_inv [OF st1(1)]
  show ?thesis
  proof (rule proc_switch_kept [OF i mi_threadstart_inv [OF inv r]])
    show "set (live st') = set (live st)" using ac(2) st1(2) by (simp add: live_def running_def)
    show "pending_ok st'" using st1(2) by (simp add: pending_ok_def)
    show "kstate.more st' = kstate.more st" using more_activate [OF st1(1)] st1(2) by simp
    show "kept st st' t" if "t \<in> set (live st)" for t
      using ac st1(2) live_dom [OF inv that] by (intro kept_same) auto
  qed
qed

lemma proc_resume:
  assumes i: "proc_inv D st" and km: "kmem_limit km" and cur: "curthread st = Some t" and pend: "k_pending st = None"
    and r: "presume_k km nl k st = Some st'" and w: "\<And>p spl. k = KW_wait p spl \<Longrightarrow> pid_of st t < p \<and> p \<le> global_pid st"
  shows "proc_inv D st'"
proof (cases k)
  case (KW_wait p spl)
  then obtain st1 where s: "thread_sleep_return st = Some st1" "waitpid_loop km nl p (st1\<lparr>curspl := spl\<rparr>) = Some st'"
    using r by (auto simp: presume_k_def split: Option.bind_splits)
  note a = proc_awake [OF i pend s(1)] and m = pstate_more [OF more_sleep_return [OF s(1)]]
  have "pid_of (st1\<lparr>curspl := spl\<rparr>) t < p" using a(5) [of t] w [OF KW_wait] by (simp add: pid_of_def)
  then show ?thesis using a m cur w [OF KW_wait] by (intro proc_waitpid_loop [OF _ km _ _ _ _ s(2)]) (simp_all add: proc_spl)
next
  case (KW_join p spl)
  then obtain st1 st2 where s: "thread_sleep_return st = Some st1" "exorcise (st1\<lparr>curspl := 15\<rparr>) = Some st2" "\<exists>n. st' = st2\<lparr>curspl := n\<rparr>"
    using r by (auto simp: presume_k_def thread_join_end_def split: Option.bind_splits)
  have "proc_inv D (st1\<lparr>curspl := 15\<rparr>)" using proc_awake(1) [OF i pend s(1)] by (simp add: proc_spl)
  from proc_exorcise [OF this s(2)] show ?thesis using s(3) by (auto simp: proc_spl)
next
  case (KW_yield spl)
  then show ?thesis using r i by (auto simp: presume_k_def proc_spl)
next
  case KW_exit
  then show ?thesis using r by (simp add: presume_k_def)
qed

lemma proc_go_on:
  assumes i: "proc_inv D st" and km: "kmem_limit km" and pend: "k_pending st = Some p" and r: "pdispatch km nl p st = Some st'"
  shows "proc_inv D st'"
proof (cases p)
  case PcbStart
  then show ?thesis using r proc_start [OF i] by (simp add: pdispatch_def)
next
  case (PcbSwitch k)
  obtain st1 where st1: "mi_switch_return st = Some st1" "presume_k km nl k st1 = Some st'"
    using r PcbSwitch by (auto simp: pdispatch_def split: Option.bind_splits)
  note b = proc_return [OF i st1(1)]
  have inv: "thr_inv st" using i by (simp add: proc_inv_def)
  obtain t th where t: "curthread st = Some t" "threads st t = Some th" "t_pcb th = PcbSwitch k"
    using i pend PcbSwitch by (auto simp: proc_inv_def pending_ok_def)
  have l: "t \<in> set (live st)" using cur_live [OF t(1)] .
  have w: "pid_of st1 t < q \<and> q \<le> global_pid st1" if "k = KW_wait q spl" for q spl
  proof -
    have "thread_waits_ok st t" using i l by (simp add: proc_inv_def)
    moreover have "pid_of st1 t = pid_of st t" using b(2) [OF l] by (simp add: pid_of_def)
    moreover have "global_pid st1 = global_pid st" using pstate_more(1) [OF mi_switch_return_effect(4) [OF st1(1) inv]] .
    ultimately show ?thesis using t that by (auto simp: thread_waits_ok_def)
  qed
  show ?thesis using proc_resume [OF b(1) km _ b(4) st1(2) w] b(3) t(1) by simp
qed

section \<open>Steps\<close>

inductive pstep :: "pstate \<Rightarrow> pstate \<Rightarrow> bool" where
  wait: "pstep st st'" if "k_pending st = None" "kmem_limit km" "sys_waitpid km nl p status_null options st = Some st'"
| exit: "pstep st st'" if "k_pending st = None" "kmem_limit km" "cur_thread st = Some (t, th)" "sys_exit km c st = Some st'"
| leave: "pstep st st'" if "k_pending st = None" "cur_thread st = Some (t, th)" "t_pid th \<notin> pids st" "thread_exit km KW_exit st = Some st'"
| fork: "pstep st st'" if "k_pending st = None" "kmem_limit km" "fm_thread fm = Some t" "threads st t = None" "fm_name fm"
    "global_pid st < 2 ^ 31 - 1" "sys_fork km fm st = Some (r, st')"
| program: "pstep st st'" if "k_pending st = None" "kmem_limit km" "threads st t = None" "global_pid st < 2 ^ 31 - 1"
    "cur_thread st = Some (u, th)" "common_prog_fork km (Some t) True okstack name st = Some (x, st')"
| join: "pstep st st'" if "k_pending st = None" "kmem_limit km" "thread_join km nl t st = Some st'"
| preempt: "pstep st st'" if "k_pending st = None" "kmem_limit km" "curthread st = Some t" "thread_yield km KW_yield st = Some st'"
| go_on: "pstep st st'" if "k_pending st = Some p" "kmem_limit km" "pdispatch km nl p st = Some st'"
| idle: "pstep st st'" if "curthread st = None" "schedule st = Some st'"

inductive_cases pstepE: "pstep st st'"

lemma pstep_inv:
  assumes "pstep st st'" and i: "proc_inv D st"
  shows "proc_inv D st'"
  using assms(1)
proof (cases rule: pstep.cases)
  case (wait km nl p status_null options)
  show ?thesis by (rule proc_waitpid [OF i wait(2,1,3)])
next
  case (exit km t th c)
  show ?thesis by (rule proc_exit(1) [OF i exit(2,1,4,3)])
next
  case (leave t th km)
  note c = proc_cur [OF i leave(2)]
  have "pid_of st t \<notin> unexited st" using c(4) leave(3) by (auto simp: unexited_def pids_def)
  then show ?thesis by (rule proc_thread_exit(1) [OF i c(1) leave(1,4)])
next
  case (fork km fm t r)
  show ?thesis by (rule proc_fork [OF i fork(2-7)])
next
  case (program km t u th okstack name x)
  show ?thesis by (rule proc_program [OF i program(2-6)])
next
  case (join km nl t)
  show ?thesis by (rule proc_join [OF i join(2,1,3)])
next
  case (preempt km t)
  show ?thesis by (rule proc_yield [OF i preempt(2,3,1,4)])
next
  case (go_on p km nl)
  show ?thesis by (rule proc_go_on [OF i go_on(2,1,3)])
next
  case idle
  show ?thesis by (rule proc_idle [OF i idle])
qed

text \<open>Boot: the thread system, then \<open>init_pid\<close>.  The variables of \<open>fork.c\<close> are zero before.\<close>

definition boot_pstate :: "tid queue \<Rightarrow> pstate" where
  "boot_pstate rq = kstate.extend (boot_state rq)
     \<lparr>global_pid = 0, pidlist = None, pid_lock = None, wait_status = \<lambda>_. None, wait_ret = \<lambda>_. None\<rparr>"

inductive proc_booted :: "pstate \<Rightarrow> bool" where
  "proc_booted st" if "scheduler_bootstrap True km (boot_pstate rq) = Some st0"
    "thread_bootstrap True True (Some t) True st0 = Some st1" "init_pid True junk st1 = Some st"

inductive proc_reachable :: "pstate \<Rightarrow> bool" where
  boot: "proc_reachable st" if "proc_booted st"
| step: "proc_reachable st'" if "proc_reachable st" "pstep st st'"

lemma proc_booted_inv:
  assumes "proc_booted st"
  shows "proc_inv {} st"
proof -
  obtain km rq st0 t st1 junk where b: "scheduler_bootstrap True km (boot_pstate rq) = Some st0"
      "thread_bootstrap True True (Some t) True st0 = Some st1" "init_pid True junk st1 = Some st"
    using assms by (auto simp: proc_booted.simps)
  have e: "threads (boot_pstate rq) = (\<lambda>_. None)" "k_pending (boot_pstate rq) = None"
    by (simp_all add: boot_pstate_def boot_state_def kstate.extend_def)
  note v = thread_bootstrap_inv [OF b(1,2) e(1)]
  have k: "k_pending st1 = None" and th: "threads st1 t = Some (new_thread ''<boot/menu>'')"
    using b e by (auto simp: scheduler_bootstrap_def thread_bootstrap_def thread_create_def array_create_def split: Option.bind_splits)
  let ?st = "(upd_thread t (\<lambda>th. th\<lparr>t_pid := 1\<rparr>) st1)\<lparr>global_pid := 1, pidlist := Some [\<lparr>pe_pid = 1, pe_exited = False, pe_code = junk\<rparr>]\<rparr>"
  have st: "st = ?st" using b(3) v(2) th by (simp add: init_pid_def cur_thread_def)
  have l: "live st = [t]" using v(3) unfolding st by (simp add: live_def running_def)
  have "thr_inv (upd_thread t (\<lambda>th. th\<lparr>t_pid := 1\<rparr>) st1)" by (rule pid_inv [OF v(1)])
  then have "thr_inv st" unfolding st by (simp add: thr_inv_def thr_struct_def thr_lists_def live_def running_def)
  moreover have "list_ok st" unfolding st by (simp add: list_ok_def pids_def)
  moreover have "thread_waits_ok st t" unfolding st using th by (simp add: thread_waits_ok_def new_thread_def)
  moreover have "unexited st \<subseteq> pid_of st ` set (live st)" unfolding l unfolding st using th by (auto simp: unexited_def pid_of_def)
  moreover have "pending_ok st" unfolding st using k by (simp add: pending_ok_def)
  moreover have "pids_ok {} st" unfolding pids_ok_def l unfolding st using th by (simp add: pid_of_def)
  ultimately show ?thesis using l by (simp add: proc_inv_def)
qed

lemma proc_reachable_inv: "proc_reachable st \<Longrightarrow> proc_inv {} st"
  by (induction rule: proc_reachable.induct) (auto intro: proc_booted_inv pstep_inv)

end
