(* ===== verification/Process_Props.thy ===== *)
theory Process_Props
  imports Process_Steps
begin

text \<open>
  The properties of processes, on the states that the steps of \<open>Process_Steps\<close> reach, and of the system call dispatcher.
  \<open>prun\<close> executes a schedule of steps, so that the examples are runs of the model from boot.
\<close>

section \<open>Runs\<close>

datatype pact = Wait int bool int | Exit int | Leave | Fork fork_mem | Program tid string | Join tid | Preempt | Go_on | Idle

definition pexec :: "tid kmem \<Rightarrow> pact \<Rightarrow> pstate \<Rightarrow> pstate option" where
  "pexec km act st =
     (if k_pending st = None then (case act of
          Wait p sn opt \<Rightarrow> sys_waitpid km (Some 0) p sn opt st
        | Exit c \<Rightarrow> do { _ \<leftarrow> cur_thread st; sys_exit km c st }
        | Leave \<Rightarrow> do { (_, th) \<leftarrow> cur_thread st; kassert (t_pid th \<notin> pids st); thread_exit km KW_exit st }
        | Fork fm \<Rightarrow> do { t \<leftarrow> fm_thread fm; kassert (threads st t = None \<and> fm_name fm \<and> global_pid st < 2147483647);
            map_option snd (sys_fork km fm st) }
        | Program t name \<Rightarrow> do { _ \<leftarrow> cur_thread st; kassert (threads st t = None \<and> global_pid st < 2147483647);
            map_option snd (common_prog_fork km (Some t) True True name st) }
        | Join t \<Rightarrow> thread_join km (Some 0) t st
        | Preempt \<Rightarrow> do { _ \<leftarrow> curthread st; thread_yield km KW_yield st }
        | Go_on \<Rightarrow> None
        | Idle \<Rightarrow> if curthread st = None then schedule st else None)
      else (case act of Go_on \<Rightarrow> pdispatch km (Some 0) (the (k_pending st)) st | _ \<Rightarrow> None))"

fun prun :: "tid kmem \<Rightarrow> pact list \<Rightarrow> pstate \<Rightarrow> pstate option" where
  "prun km [] st = Some st"
| "prun km (act # acts) st = do { st' \<leftarrow> pexec km act st; prun km acts st' }"

lemma pexec_pstep:
  assumes "pexec km act st = Some st'" and "kmem_limit km"
  shows "pstep st st'"
proof (cases "k_pending st = None")
  case True
  with assms show ?thesis
    by (cases act) (auto simp: pexec_def intro: pstep.intros split: if_splits Option.bind_splits)
next
  case False
  with assms show ?thesis by (cases act) (auto simp: pexec_def intro: pstep.go_on)
qed

lemma prun_steps: "prun km acts st = Some st' \<Longrightarrow> kmem_limit km \<Longrightarrow> pstep\<^sup>*\<^sup>* st st'"
  by (induction acts arbitrary: st)
     (auto split: Option.bind_splits dest: pexec_pstep intro: converse_rtranclp_into_rtranclp)

lemma proc_reachable_steps: "pstep\<^sup>*\<^sup>* st st' \<Longrightarrow> proc_reachable st \<Longrightarrow> proc_reachable st'"
  by (induction rule: rtranclp_induct) (auto intro: proc_reachable.step)

definition pex_mem :: "tid kmem" where
  "pex_mem n = (if n < 100 then Some (\<lambda>_. 0) else None)"

lemma pex_mem_limit: "kmem_limit pex_mem"
  by (auto simp: kmem_limit_def pex_mem_def)

definition pex_run :: "pact list \<Rightarrow> pstate option" where
  "pex_run acts = do {
     st \<leftarrow> scheduler_bootstrap True pex_mem (boot_pstate \<lparr>q_size = 0, q_nextwrite = 0, q_nextread = 0, q_data = []\<rparr>);
     st1 \<leftarrow> thread_bootstrap True True (Some 1) True st;
     st2 \<leftarrow> init_pid True 0 st1;
     prun pex_mem acts st2 }"

lemma pex_run_reachable: "pex_run acts = Some st \<Longrightarrow> proc_reachable st"
  by (auto simp: pex_run_def split: Option.bind_splits
      intro: proc_reachable_steps [OF prun_steps [OF _ pex_mem_limit]] proc_reachable.boot proc_booted.intros)

text \<open>The menu starts a program and waits for it; the program forks and waits for its child.\<close>

definition pex_fork :: fork_mem where
  "pex_fork = \<lparr>fm_tf = True, fm_as = Some 9, fm_thread = Some 3, fm_name = True, fm_stack = True, fm_entry = True, fm_junk = 0\<rparr>"

definition pex_wait :: "pact list" where
  "pex_wait = [Program 2 ''sh'', Join 2, Go_on, Fork pex_fork, Wait 3 False 0, Go_on]"

section \<open>Waiting and exiting\<close>

text \<open>The id of the process a thread sleeps for in \<open>sys_waitpid\<close>.\<close>

definition waits_for :: "pstate \<Rightarrow> tid \<Rightarrow> int option" where
  "waits_for st t = (case threads st t of None \<Rightarrow> None | Some th \<Rightarrow>
     (case t_pcb th of PcbSwitch (KW_wait p _) \<Rightarrow> if t \<in> set (sleeping st) then Some p else None | _ \<Rightarrow> None))"

lemma waits_for_ok:
  assumes "proc_inv D st" and "waits_for st t = Some p"
  shows "t \<in> set (live st)" and "pid_of st t < p" and "p \<le> global_pid st" and "sleeps_on st (PidObj p) t"
    and "p \<in> pids st \<Longrightarrow> p \<in> unexited st \<and> p \<in> pid_of st ` set (live st)"
proof -
  obtain spl where w: "map_option t_pcb (threads st t) = Some (PcbSwitch (KW_wait p spl))" "t \<in> set (sleeping st)"
    using assms(2) by (auto simp: waits_for_def split: option.splits pcb.splits pkont.splits if_splits)
  show l: "t \<in> set (live st)" using w(2) by (simp add: live_def)
  then have "thread_waits_ok st t" using assms(1) by (simp add: proc_inv_def)
  then show "pid_of st t < p" "p \<le> global_pid st" "sleeps_on st (PidObj p) t" using w by (auto simp: thread_waits_ok_def)
  show "p \<in> unexited st \<and> p \<in> pid_of st ` set (live st)" if "p \<in> pids st"
    using \<open>thread_waits_ok st t\<close> w that assms(1) by (auto simp: thread_waits_ok_def proc_inv_def)
qed



lemma steps_inv: "pstep\<^sup>*\<^sup>* st st' \<Longrightarrow> proc_inv D st \<Longrightarrow> proc_inv D st'"
  by (induction rule: rtranclp_induct) (auto intro: pstep_inv)

lemma search_known:
  assumes i: "list_ok st" and k: "exit_known st p c" and cur: "cur_thread st = Some (u, th)"
  shows "\<exists>st'. pidlist_search km nl p st = Some (True, st') \<and> wait_status st' u = Some c \<and> curspl st' = curspl st \<and> curthread st' = curthread st \<and>
    threads st' = threads st \<and> sleeping st' = sleeping st"
proof -
  obtain l where l: "pidlist st = Some l" "distinct (map pe_pid l)" using i by (auto simp: list_ok_def)
  then obtain e where e: "e \<in> set l" "pe_pid e = p" "pe_exited e" "pe_code e = c" using k by (auto simp: exit_known_def)
  have u: "e2 = e" if "e2 \<in> set l" "pe_pid e2 = p" for e2 using inj_onD [of pe_pid "set l" e2 e] l(2) e that by (simp add: distinct_map)
  obtain e2 where e2: "find (\<lambda>e. pe_pid e = p) l = Some e2" using e by (cases "find (\<lambda>e. pe_pid e = p) l") (auto simp: find_None_iff)
  then have "e2 = e" using u by (auto simp: find_Some_iff)
  then show ?thesis using l e e2 cur by (simp add: pidlist_search_def Let_def)
qed

text \<open>
  C11: the exit code is delivered.  When a process of the list exits, no thread goes on sleeping for it, and the others sleep on.  From
  then on, whatever steps are taken, \<open>sys_waitpid\<close> on its id by any thread with a smaller id returns at once, with the exit code in
  \<open>status\<close> and the interrupt level as before.
\<close>

theorem exit_status_delivered:
  assumes "proc_reachable st" and "k_pending st = None" and "cur_thread st = Some (t, th)" and "t_pid th \<in> pids st" and "kmem_limit km"
    and "sys_exit km c st = Some st1"
  shows "set (sleeping st1) = {u \<in> set (sleeping st). \<not> sleeps_on st (PidObj (t_pid th)) u} \<and>
    (\<forall>st2 u uth. pstep\<^sup>*\<^sup>* st1 st2 \<and> cur_thread st2 = Some (u, uth) \<and> t_pid uth < t_pid th \<longrightarrow>
      (\<exists>st3. sys_waitpid km nl (t_pid th) False 0 st2 = Some st3 \<and> wait_ret st3 u = Some (t_pid th) \<and> wait_status st3 u = Some c \<and>
        curthread st3 = Some u \<and> curspl st3 = curspl st2 \<and> sleeping st3 = sleeping st2))"
proof (intro conjI allI impI)
  note e = proc_exit [OF proc_reachable_inv [OF assms(1)] assms(5,2,6,3)]
  show "set (sleeping st1) = {u \<in> set (sleeping st). \<not> sleeps_on st (PidObj (t_pid th)) u}" by (fact e(3))
  fix st2 u uth
  assume a: "pstep\<^sup>*\<^sup>* st1 st2 \<and> cur_thread st2 = Some (u, uth) \<and> t_pid uth < t_pid th"
  have i: "proc_inv {(t_pid th, c)} st2" using steps_inv e(5) [OF assms(4)] a by blast
  let ?st = "st2\<lparr>curspl := 15\<rparr>"
  have k: "list_ok ?st" "exit_known ?st (t_pid th) c" "t_pid th \<le> global_pid st2" "cur_thread ?st = Some (u, uth)"
    using i a by (auto simp: proc_inv_def pids_ok_def list_ok_def pids_def exit_known_def cur_thread_def)
  obtain st3 where s: "pidlist_search km nl (t_pid th) ?st = Some (True, st3)" "wait_status st3 u = Some c" "curthread st3 = curthread ?st"
      "threads st3 = threads ?st" "sleeping st3 = sleeping ?st"
    using search_known [OF k(1,2,4)] by blast
  have c: "cur_thread (st3\<lparr>curspl := curspl st2\<rparr>) = Some (u, uth)" using a s by (simp add: cur_thread_def)
  have "sys_waitpid km nl (t_pid th) False 0 st2 = Some (st3\<lparr>curspl := curspl st2, wait_ret := (wait_ret st3)(u \<mapsto> t_pid th)\<rparr>)"
    using a k(3) s(1) c by (simp add: sys_waitpid_def get_globalpid_def sys_get_pid_def waitpid_loop_def wait_return_def)
  then show "\<exists>st3. sys_waitpid km nl (t_pid th) False 0 st2 = Some st3 \<and> wait_ret st3 u = Some (t_pid th) \<and> wait_status st3 u = Some c \<and>
        curthread st3 = Some u \<and> curspl st3 = curspl st2 \<and> sleeping st3 = sleeping st2"
    using s a by (simp add: cur_thread_def split: Option.bind_splits)
qed

text \<open>The child exits with code 7; its parent is woken and its \<open>sys_waitpid\<close> returns.\<close>

theorem exit_status_delivered_witness:
  "\<exists>st st1 st2 st3. proc_reachable st \<and> sleeping st = [1, 2] \<and> sys_exit pex_mem 7 st = Some st1 \<and> set (sleeping st1) = {1} \<and>
     pstep\<^sup>*\<^sup>* st1 st2 \<and> wait_ret st2 2 = Some 3 \<and> wait_status st2 2 = Some 7 \<and>
     sys_waitpid pex_mem None 3 False 0 st2 = Some st3 \<and> wait_status st3 2 = Some 7"
proof -
  have "map_option (\<lambda>st. (k_pending st, map_option (\<lambda>(t, th). t_pid th) (cur_thread st), 3 \<in> pids st, sleeping st, sleeps_on st (PidObj 3) 1,
      sleeps_on st (PidObj 3) 2)) (pex_run pex_wait) = Some (None, Some 3, True, [1, 2], False, True)" by code_simp
  then obtain st t th where st: "pex_run pex_wait = Some st" "k_pending st = None" "cur_thread st = Some (t, th)" "t_pid th = 3" "3 \<in> pids st"
      "sleeping st = [1, 2]" "\<not> sleeps_on st (PidObj 3) 1" "sleeps_on st (PidObj 3) 2" by auto
  have "map_option (\<lambda>st2. (map_option (\<lambda>(t, th). (t, t_pid th)) (cur_thread st2), wait_ret st2 2, wait_status st2 2))
      (do { st \<leftarrow> pex_run pex_wait; st1 \<leftarrow> sys_exit pex_mem 7 st; prun pex_mem [Go_on] st1 }) = Some (Some (2, 2), Some 3, Some 7)" by code_simp
  then obtain st1 st2 th2 where s: "sys_exit pex_mem 7 st = Some st1" "prun pex_mem [Go_on] st1 = Some st2"
      "cur_thread st2 = Some (2, th2)" "t_pid th2 = 2" "wait_ret st2 2 = Some 3" "wait_status st2 2 = Some 7"
    using st(1) by (auto split: Option.bind_splits)
  have "t_pid th \<in> pids st" using st(4,5) by simp
  note d = exit_status_delivered [OF pex_run_reachable [OF st(1)] st(2,3) this pex_mem_limit s(1), of None]
  have "pstep\<^sup>*\<^sup>* st1 st2" by (rule prun_steps [OF s(2) pex_mem_limit])
  moreover have "set (sleeping st1) = {1}" using d st by auto
  moreover obtain st3 where "sys_waitpid pex_mem None 3 False 0 st2 = Some st3" "wait_status st3 2 = Some 7"
    using conjunct2 [OF d, rule_format, of st2 2 th2] st(4) s(3,4) calculation(1) by auto
  ultimately show ?thesis using pex_run_reachable [OF st(1)] st(6) s by blast
qed

section \<open>The results of system calls\<close>


end
