(* ===== verification/Sbrk.thy ===== *)
theory Sbrk
  imports Kern_Prelude
begin

text \<open>
  The break of a process: \<open>sys_sbrk\<close> of \<open>kern/userprog/sbrk.c\<close>, on the bounds of the heap in an address space.
\<close>

section \<open>The model\<close>

text \<open>The fields of an address space that \<open>sys_sbrk\<close> uses; addresses are unsigned, the positions it computes are \<open>int\<close>.\<close>

record heap_bounds =
  heapbottom :: nat
  heaptop :: nat
  as_stackvbase :: nat

text \<open>C's remainder takes the sign of its first operand.  In the comparison with \<open>as_stackvbase\<close> the \<open>int\<close> is converted to unsigned.\<close>

definition c_rem4 :: "int \<Rightarrow> int" where
  "c_rem4 x = (if x < 0 then - ((- x) mod 4) else x mod 4)"

definition u32 :: "int \<Rightarrow> nat" where
  "u32 x = nat (x mod 2 ^ 32)"

definition sys_sbrk :: "int \<Rightarrow> 'z heap_bounds_scheme \<Rightarrow> (errno + nat) \<times> 'z heap_bounds_scheme" where
  "sys_sbrk change as =
     (if u32 (int (heaptop as) + change) < heapbottom as then (Inl EINVAL, as)
      else if change = 0 then (Inr (heapbottom as), as)
      else let new_hpos = c_int (int (heaptop as) + change);
               brk = c_int (new_hpos + c_rem4 new_hpos)
           in if u32 brk > as_stackvbase as then (Inl ENOMEM, as)
              else (Inr (heaptop as), as\<lparr>heaptop := u32 brk\<rparr>))"

section \<open>The break stays between the heap and the stack\<close>

definition heap_inv :: "'z heap_bounds_scheme \<Rightarrow> bool" where
  "heap_inv as \<longleftrightarrow> heapbottom as \<le> heaptop as \<and> heaptop as \<le> as_stackvbase as \<and> as_stackvbase as < 2 ^ 31 - 4"

lemma c_int_mod: "c_int x mod 2 ^ 32 = x mod 2 ^ 32"
  by (simp add: c_int_def mod_simps)

lemma c_rem4_bounds: "0 \<le> x \<Longrightarrow> 0 \<le> c_rem4 x \<and> c_rem4 x < 4" "x < 0 \<Longrightarrow> - 4 < c_rem4 x \<and> c_rem4 x \<le> 0"
  by (simp_all add: c_rem4_def)



end
