(* ===== verification/Vm.thy ===== *)
theory Vm
  imports Coremap Sbrk "HOL-Library.Signed_Division"
begin

text \<open>
  User memory, the second part of \<open>kern/vm/vm.c\<close>: address spaces with their page tables of two levels, the TLB, page faults and
  paging to the swap device, over the core map of \<open>Coremap\<close>.

  Address spaces are kept in a store by their address.  A second-level page table is \<open>None\<close> where the code has a null pointer.  An
  entry is twice the index of a frame in the core map, or, with the lowest bit set, twice that of a page on the swap device.
  \<open>frames\<close> holds the contents of each page by its kernel address.  The vnode operations, the transfers to and from
  the swap device and reading a page of user memory are arguments; the last three may touch the whole state, as they access user memory and may
  fault themselves.
  Memory that \<open>kmalloc\<close> returns is not cleared: what a new page table holds is an argument.
\<close>

section \<open>State\<close>

abbreviation USERSTACK :: nat where "USERSTACK \<equiv> 0x80000000"
abbreviation NUM_TLB :: nat where "NUM_TLB \<equiv> 64"

type_synonym page_table = "nat \<Rightarrow> int"

record uspace = heap_bounds +
  as_vnode :: "nat option"
  filesize_data :: nat
  off_data :: nat
  filesize_text :: nat
  off_text :: nat
  firstpt :: "nat \<Rightarrow> page_table option"
  as_vbase1 :: nat
  as_npages1 :: nat
  as_vbase2 :: nat
  as_npages2 :: nat
  as_prot1 :: "int \<times> int \<times> int"
  as_prot2 :: "int \<times> int \<times> int"
  as_pbase1 :: nat
  as_pbase2 :: nat
  as_stackpbase :: nat

record 'f vmem =
  vcm :: vm_state
  spaces :: "nat \<Rightarrow> uspace option"
  tlb :: "(32 word \<times> 32 word) list"
  swap_bmp :: bitmap
  swap_holder :: "page_table_entry list"
  frames :: "nat \<Rightarrow> 8 word list"
  vm_spl :: int
  paging_held :: bool
  vm_pid :: int
  vm_files :: 'f

record 'f vmops =
  vo_read :: "nat \<Rightarrow> nat \<Rightarrow> nat \<Rightarrow> 'f \<Rightarrow> ((errno + 8 word list) \<times> 'f) option"
  vo_incref :: "nat \<Rightarrow> 'f \<Rightarrow> 'f option"
  vo_decref :: "nat \<Rightarrow> 'f \<Rightarrow> 'f option"
  vo_swap_out :: "nat \<Rightarrow> nat \<Rightarrow> 'f vmem \<Rightarrow> 'f vmem option"
  vo_swap_in :: "nat \<Rightarrow> nat \<Rightarrow> 'f vmem \<Rightarrow> 'f vmem option"
  vo_upage :: "nat \<Rightarrow> 'f vmem \<Rightarrow> (8 word list \<times> 'f vmem) option"

definition cm_do :: "(vm_state \<Rightarrow> vm_state option) \<Rightarrow> 'f vmem \<Rightarrow> 'f vmem option" where
  "cm_do f s = map_option (\<lambda>c. s\<lparr>vcm := c\<rparr>) (f (vcm s))"

definition space_upd :: "nat \<Rightarrow> (uspace \<Rightarrow> uspace) \<Rightarrow> 'f vmem \<Rightarrow> 'f vmem option" where
  "space_upd a f s = do { u \<leftarrow> spaces s a; Some (s\<lparr>spaces := (spaces s)(a \<mapsto> f u)\<rparr>) }"

text \<open>The index of an address in the first and in the second level.\<close>

definition top10 :: "nat \<Rightarrow> nat" where
  "top10 va = va div 2 ^ 22"

definition btm10 :: "nat \<Rightarrow> nat" where
  "btm10 va = va mod 2 ^ 22 div 2 ^ 12"

definition pt_get :: "nat \<Rightarrow> nat \<Rightarrow> nat \<Rightarrow> 'f vmem \<Rightarrow> int option" where
  "pt_get a t b s = do { u \<leftarrow> spaces s a; pt \<leftarrow> firstpt u t; kassert (b < 1024); Some (pt b) }"

definition pt_set :: "nat \<Rightarrow> nat \<Rightarrow> nat \<Rightarrow> int \<Rightarrow> 'f vmem \<Rightarrow> 'f vmem option" where
  "pt_set a t b v s = do {
     u \<leftarrow> spaces s a; pt \<leftarrow> firstpt u t; kassert (b < 1024);
     Some (s\<lparr>spaces := (spaces s)(a \<mapsto> u\<lparr>firstpt := (firstpt u)(t \<mapsto> pt(b := v))\<rparr>)\<rparr>) }"

definition pt_new :: "nat \<Rightarrow> nat \<Rightarrow> page_table option \<Rightarrow> 'f vmem \<Rightarrow> 'f vmem option" where
  "pt_new a t mem s = space_upd a (\<lambda>u. u\<lparr>firstpt := (firstpt u)(t := mem)\<rparr>) s"

section \<open>The TLB\<close>

definition TLBHI_VPAGE :: "32 word" where "TLBHI_VPAGE = 0xfffff000"
definition TLBHI_PID :: "32 word" where "TLBHI_PID = 0xfc0"
definition TLBLO_DIRTY :: "32 word" where "TLBLO_DIRTY = 0x400"
definition TLBLO_VALID :: "32 word" where "TLBLO_VALID = 0x200"

definition tlb_invalid :: "nat \<Rightarrow> 32 word \<times> 32 word" where
  "tlb_invalid i = (word_of_nat ((0x80000 + i) * 4096), 0)"

definition tlb_valid :: "32 word \<times> 32 word \<Rightarrow> bool" where
  "tlb_valid e \<longleftrightarrow> and (snd e) TLBLO_VALID \<noteq> 0"

definition tlb_flush :: "'f vmem \<Rightarrow> 'f vmem" where
  "tlb_flush s = s\<lparr>tlb := map tlb_invalid [0..<NUM_TLB]\<rparr>"

text \<open>The process id in an entry.\<close>

definition tlb_pid :: "32 word \<times> 32 word \<Rightarrow> int" where
  "tlb_pid e = uint (drop_bit 6 (and (fst e) TLBHI_PID))"

text \<open>The loop of \<open>vm_fault\<close> that stores an entry.  Where no entry is invalid the function ends without a value.\<close>

definition tlb_insert :: "32 word \<times> 32 word \<Rightarrow> 'f vmem \<Rightarrow> 'f vmem option" where
  "tlb_insert e s = do {
     i \<leftarrow> find (\<lambda>i. \<not> tlb_valid (tlb s ! i)) [0..<NUM_TLB];
     if i = 63 then let s1 = tlb_flush s in Some (s1\<lparr>tlb := (tlb s1)[0 := e]\<rparr>)
     else Some (s\<lparr>tlb := (tlb s)[i := e]\<rparr>) }"

text \<open>The loop of \<open>evict\<close> that drops the entry of a page.\<close>

definition tlb_drop :: "nat \<Rightarrow> 'f vmem \<Rightarrow> 'f vmem" where
  "tlb_drop va s = (case find (\<lambda>i. and (fst (tlb s ! i)) TLBHI_VPAGE = word_of_nat va) [0..<NUM_TLB] of
       None \<Rightarrow> s
     | Some i \<Rightarrow> s\<lparr>tlb := (tlb s)[i := tlb_invalid i]\<rparr>)"

section \<open>Paging\<close>

fun find_fifo_from :: "nat list \<Rightarrow> nat \<Rightarrow> nat \<Rightarrow> 'f vmem \<Rightarrow> nat option" where
  "find_fifo_from [] secs lowest s = Some lowest"
| "find_fifo_from (i # is) secs lowest s = do {
     e \<leftarrow> cm_at i (vcm s);
     case pte_addr e of
       None \<Rightarrow> find_fifo_from is secs lowest s
     | Some a \<Rightarrow>
         if pte_time e \<le> secs \<and> pte_locked e \<noteq> 1 then do {
           u \<leftarrow> spaces s a;
           case firstpt u (top10 (pte_va e)) of
             None \<Rightarrow> find_fifo_from is secs lowest s
           | Some pt \<Rightarrow> if pt (btm10 (pte_va e)) \<noteq> 0 then find_fifo_from is (pte_time e) i s else find_fifo_from is secs lowest s }
         else find_fifo_from is secs lowest s }"

definition find_fifo :: "'f vmem \<Rightarrow> nat option" where
  "find_fifo s = find_fifo_from [3..<max_page_num (vcm s)] (2 ^ 32 - 1) 3 s"

text \<open>What is written to the swap device is the page at the address that faulted, not the page that is evicted.\<close>

definition evict :: "'f vmops \<Rightarrow> nat \<Rightarrow> 'f vmem \<Rightarrow> (bool \<times> 'f vmem) option" where
  "evict ops vaddr s = do {
     (r, bm) \<leftarrow> bitmap_alloc (swap_bmp s);
     let s1 = s\<lparr>swap_bmp := bm\<rparr>;
     case r of
       Inl _ \<Rightarrow> Some (False, s1)
     | Inr j \<Rightarrow> do {
         i \<leftarrow> find_fifo s1;
         e \<leftarrow> cm_at i (vcm s1);
         kassert (j < length (swap_holder s1));
         let s2 = s1\<lparr>swap_holder := (swap_holder s1)[j := (swap_holder s1 ! j)\<lparr>pte_va := pte_va e, pte_npages := pte_npages e, pte_addr := pte_addr e\<rparr>]\<rparr>;
         bm \<leftarrow> bitmap_unmark (gbl_bmp (vcm s2)) i;
         w \<leftarrow> bitmap_isset bm i;
         kassert (w = 0);
         a \<leftarrow> pte_addr e;
         s3 \<leftarrow> pt_set a (top10 (pte_va e)) (btm10 (pte_va e)) (int j * 2 + 1) (s2\<lparr>vcm := (vcm s2)\<lparr>gbl_bmp := bm\<rparr>\<rparr>);
         s4 \<leftarrow> cm_do (cm_upd i (\<lambda>e. e\<lparr>pte_addr := None, pte_va := 0, pte_npages := 0, pte_time := 0, pte_valid := 0\<rparr>)) s3;
         s5 \<leftarrow> vo_swap_out ops vaddr (j * PAGE_SIZE) s4;
         Some (True, tlb_drop (pte_va e) s5) } }"

definition swap_in :: "'f vmops \<Rightarrow> nat \<Rightarrow> nat \<Rightarrow> 'f vmem \<Rightarrow> (bool \<times> 'f vmem) option" where
  "swap_in ops vaddr swap_index s = do {
     (r, bm) \<leftarrow> bitmap_alloc (gbl_bmp (vcm s));
     let s1 = s\<lparr>vcm := (vcm s)\<lparr>gbl_bmp := bm\<rparr>\<rparr>;
     case r of
       Inl _ \<Rightarrow> Some (False, s1)
     | Inr i \<Rightarrow> do {
         kassert (swap_index < length (swap_holder s1));
         let h = swap_holder s1 ! swap_index;
         a \<leftarrow> pte_addr h;
         s2 \<leftarrow> pt_set a (top10 (pte_va h)) (btm10 (pte_va h)) (int i * 2) s1;
         s3 \<leftarrow> cm_do (cm_upd i (\<lambda>e. e\<lparr>pte_va := pte_va h, pte_npages := pte_npages h, pte_time := nat (vm_ref (vcm s2) mod 2 ^ 32), pte_valid := 1\<rparr>)) s2;
         let s4 = s3\<lparr>vcm := (vcm s3)\<lparr>vm_ref := c_int (vm_ref (vcm s3) + 1)\<rparr>\<rparr>;
         bm \<leftarrow> bitmap_unmark (swap_bmp s4) swap_index;
         s5 \<leftarrow> vo_swap_in ops vaddr (swap_index * PAGE_SIZE) (s4\<lparr>swap_bmp := bm\<rparr>);
         Some (True, s5) } }"

text \<open>The call of \<open>swap_in\<close> passes its two arguments in the wrong order.\<close>

definition swap_handler :: "'f vmops \<Rightarrow> int \<Rightarrow> nat \<Rightarrow> 'f vmem \<Rightarrow> (bool \<times> 'f vmem) option" where
  "swap_handler ops index vaddr s = do {
     (ok, s1) \<leftarrow> evict ops vaddr (s\<lparr>vm_spl := 15\<rparr>);
     if ok \<and> index \<noteq> 0 then swap_in ops (nat index) vaddr s1
     else Some (ok, s1) }"

section \<open>Page faults\<close>

definition put_page :: "nat \<Rightarrow> nat \<Rightarrow> 8 word list \<Rightarrow> 'f vmem \<Rightarrow> 'f vmem" where
  "put_page ka off d s = s\<lparr>frames := (frames s)(ka := take off (frames s ka) @ d @ drop (off + length d) (frames s ka))\<rparr>"

definition page_read :: "'f vmops \<Rightarrow> nat option \<Rightarrow> nat \<Rightarrow> nat \<Rightarrow> nat \<Rightarrow> nat \<Rightarrow> 'f vmem \<Rightarrow> (unit, 'f vmem) kcall" where
  "page_read ops v offset ka memsize filesize s = do {
     let n = min filesize memsize;
     vn \<leftarrow> v;
     (r, fs) \<leftarrow> vo_read ops vn offset n (vm_files s);
     let s1 = s\<lparr>vm_files := fs\<rparr>;
     case r of
       Inl e \<Rightarrow> Some (Inl e, s1)
     | Inr d \<Rightarrow>
         let s2 = put_page ka 0 (take n d) s1 in
         if length (take n d) \<noteq> n then Some (Inl ENOEXEC, s2)
         else Some (Inr (), put_page ka n (replicate (memsize - n) 0) s2) }"

text \<open>The loop that asks for a frame until there is one.\<close>

partial_function (option) fault_frame :: "'f vmops \<Rightarrow> nat \<Rightarrow> 'f vmem \<Rightarrow> (nat \<times> nat, 'f vmem) kcall" where
  [code]: "fault_frame ops fa s = do {
     (temp, ix, c) \<leftarrow> get_singlepage (vcm s);
     if temp = 0 then do {
       (ok, s1) \<leftarrow> swap_handler ops 0 fa (s\<lparr>vcm := c\<rparr>);
       if ok then fault_frame ops fa s1 else Some (Inl ENOMEM, s1) }
     else do { i \<leftarrow> ix; Some (Inr (temp, i), s\<lparr>vcm := c\<rparr>) } }"

text \<open>The page table part of \<open>vm_fault\<close>: afterwards the page has a frame.  \<open>mem\<close> is the result of \<open>kmalloc\<close> for a new second-level table.\<close>

definition fault_page :: "'f vmops \<Rightarrow> page_table option \<Rightarrow> nat \<Rightarrow> nat \<Rightarrow> 'f vmem \<Rightarrow> (unit, 'f vmem) kcall" where
  "fault_page ops mem a fa s = do {
     u \<leftarrow> spaces s a;
     s1 \<leftarrow> (if firstpt u (top10 fa) = None then pt_new a (top10 fa) mem s else Some s);
     v \<leftarrow> pt_get a (top10 fa) (btm10 fa) s1;
     if v smod 2 = 1 then do {
       (ok, s2) \<leftarrow> swap_handler ops (v sdiv 2) fa s1;
       Some (if ok then Inr () else Inl ENOMEM, s2) }
     else if v sdiv 2 = 0 then do {
       (r, s2) \<leftarrow> fault_frame ops fa s1;
       case r of
         Inl e \<Rightarrow> Some (Inl e, s2)
       | Inr (temp, index) \<Rightarrow> do {
           s3 \<leftarrow> cm_do (cm_upd index (\<lambda>e. e\<lparr>pte_npages := 1\<rparr>)) s2;
           s4 \<leftarrow> pt_set a (top10 fa) (btm10 fa) (c_int (int index * 2)) s3;
           s5 \<leftarrow> cm_do (pt_insert fa temp) s4;
           Some (Inr (), s5) } }
     else Some (Inr (), s1) }"

definition frame_of :: "nat \<Rightarrow> nat \<Rightarrow> 'f vmem \<Rightarrow> nat option" where
  "frame_of a fa s = do { v \<leftarrow> pt_get a (top10 fa) (btm10 fa) s; kassert (0 \<le> v); Some (nat (v sdiv 2)) }"

text \<open>The number of the page of a region that an address lies in, as the loop over \<open>counter\<close> computes it.\<close>

definition page_no :: "nat \<Rightarrow> nat \<Rightarrow> nat" where
  "page_no fa vbase = (fa - vbase + (PAGE_SIZE - 1)) div PAGE_SIZE"

definition fault_read :: "'f vmops \<Rightarrow> uspace \<Rightarrow> nat \<Rightarrow> nat \<Rightarrow> nat \<Rightarrow> nat \<Rightarrow> nat \<Rightarrow> 'f vmem \<Rightarrow> (unit, 'f vmem) kcall" where
  "fault_read ops u i fa vbase filesize offset s = do {
     e \<leftarrow> cm_at i (vcm s);
     page_read ops (as_vnode u) (c_uint (offset + page_no fa vbase * PAGE_SIZE)) (PADDR_TO_KVADDR (pte_pa e)) PAGE_SIZE
       (c_usub filesize (page_no fa vbase * PAGE_SIZE)) s }"

definition lock_frame :: "nat \<Rightarrow> 'f vmem \<Rightarrow> 'f vmem option" where
  "lock_frame i s = cm_do (cm_upd i (\<lambda>e. e\<lparr>pte_locked := 1\<rparr>)) s"

definition in_region :: "nat \<Rightarrow> nat \<Rightarrow> nat \<Rightarrow> bool" where
  "in_region fa vbase npages \<longleftrightarrow> vbase \<le> fa \<and> fa < c_uint (vbase + npages * PAGE_SIZE)"

text \<open>The part of \<open>vm_fault\<close> that reads the page of the text or data region from the executable.\<close>

definition fault_load :: "'f vmops \<Rightarrow> nat \<Rightarrow> nat \<Rightarrow> 'f vmem \<Rightarrow> (unit, 'f vmem) kcall" where
  "fault_load ops a fa s = do {
     u \<leftarrow> spaces s a;
     if in_region fa (as_vbase1 u) (as_npages1 u) then do {
       i \<leftarrow> frame_of a fa s;
       (r, s1) \<leftarrow> fault_read ops u i fa (as_vbase1 u) (filesize_text u) (off_text u) s;
       s2 \<leftarrow> lock_frame i s1;
       Some (r, s2) }
     else if in_region fa (as_vbase2 u) (as_npages2 u) \<and> filesize_data u \<noteq> 0 then do {
       i \<leftarrow> frame_of a fa s;
       s1 \<leftarrow> lock_frame i s;
       fault_read ops u i fa (as_vbase2 u) (filesize_data u) (off_data u) s1 }
     else Some (Inr (), s) }"

text \<open>The part of \<open>vm_fault\<close> that maps the page.  Pages of the text region are not writeable.\<close>

definition fault_map :: "nat \<Rightarrow> nat \<Rightarrow> int \<Rightarrow> 'f vmem \<Rightarrow> 'f vmem option" where
  "fault_map a fa spl s = do {
     u \<leftarrow> spaces s a;
     i \<leftarrow> frame_of a fa s;
     e \<leftarrow> cm_at i (vcm s);
     let dirty = (if in_region fa (as_vbase1 u) (as_npages1 u) then 0 else TLBLO_DIRTY);
     s1 \<leftarrow> tlb_insert (or (word_of_nat fa) (word_of_int (vm_pid s * 64)), or (or (word_of_nat (pte_pa e)) TLBLO_VALID) dirty) s;
     Some (s1\<lparr>vm_spl := spl, paging_held := False\<rparr>) }"

definition as_set_up :: "uspace \<Rightarrow> bool" where
  "as_set_up u \<longleftrightarrow> as_npages1 u \<noteq> 0 \<and> as_vbase2 u \<noteq> 0 \<and> as_npages2 u \<noteq> 0 \<and>
     page_frame (as_vbase1 u) = as_vbase1 u \<and> page_frame (as_pbase1 u) = as_pbase1 u \<and>
     page_frame (as_vbase2 u) = as_vbase2 u \<and> page_frame (as_pbase2 u) = as_pbase2 u"

text \<open>The error returns keep \<open>paginglock\<close> and, but for one, the interrupt level.\<close>

definition vm_fault :: "'f vmops \<Rightarrow> page_table option \<Rightarrow> nat \<Rightarrow> nat \<Rightarrow> 'f vmem \<Rightarrow> (unit, 'f vmem) kcall" where
  "vm_fault ops mem faulttype faultaddress s = (let spl = vm_spl s; s1 = s\<lparr>paging_held := True, vm_spl := 15\<rparr>; fa = page_frame faultaddress in
     if fa = 1073741824 then Some (Inl EFAULT, s1)
     else if faulttype = 2 then None
     else if faulttype \<noteq> 0 \<and> faulttype \<noteq> 1 then Some (Inl EINVAL, s1\<lparr>vm_spl := spl\<rparr>)
     else (case cur_vmspace (vcm s1) of
         None \<Rightarrow> Some (Inl EFAULT, s1)
       | Some a \<Rightarrow>
           if fa = 0 then Some (Inl EFAULT, s1)
           else do {
             s2 \<leftarrow> space_upd a (\<lambda>u. if c_uint (fa + PAGE_SIZE) \<ge> as_stackvbase u then u\<lparr>as_stackvbase := fa\<rparr> else u) s1;
             u \<leftarrow> spaces s2 a;
             kassert (as_set_up u);
             try_k (fault_page ops mem a fa s2) (\<lambda>_ s3.
             try_k (fault_load ops a fa s3) (\<lambda>_ s4. do {
             s5 \<leftarrow> fault_map a fa spl s4;
             Some (Inr (), s5) })) }))"

section \<open>Address spaces\<close>

text \<open>The result of \<open>as_create\<close> is the address \<open>kmalloc\<close> returns, with what the memory holds where the code sets nothing.\<close>

definition as_create :: "(nat \<times> uspace) option \<Rightarrow> (nat \<Rightarrow> page_table option) option \<Rightarrow> 'f vmem \<Rightarrow> nat option \<times> 'f vmem" where
  "as_create mem ptmem s = (case mem of
       None \<Rightarrow> (None, s)
     | Some (a, junk) \<Rightarrow> (case ptmem of
           None \<Rightarrow> (None, s)
         | Some pt \<Rightarrow> (Some a, s\<lparr>spaces := (spaces s)(a \<mapsto> junk\<lparr>firstpt := pt, as_vnode := None, as_stackvbase := USERSTACK, heaptop := 0,
             heapbottom := 0, as_vbase1 := 0, as_npages1 := 0, as_vbase2 := 0, as_npages2 := 0, as_pbase1 := 0, as_pbase2 := 0, as_stackpbase := 0\<rparr>)\<rparr>)))"

text \<open>The loops of \<open>as_destroy\<close> over the entries of one table and over the tables.\<close>

fun destroy_pt :: "page_table \<Rightarrow> nat list \<Rightarrow> vm_state \<Rightarrow> vm_state option" where
  "destroy_pt pt [] c = Some c"
| "destroy_pt pt (j # js) c =
     (if pt j sdiv 2 \<noteq> 0 then do {
        kassert (0 \<le> pt j);
        e \<leftarrow> cm_at (nat (pt j sdiv 2)) c;
        c1 \<leftarrow> coremap_remove (pte_pa e) (nat (pt j sdiv 2)) c;
        destroy_pt pt js c1 }
      else destroy_pt pt js c)"

fun destroy_pts :: "(nat \<Rightarrow> page_table option) \<Rightarrow> nat list \<Rightarrow> vm_state \<Rightarrow> vm_state option" where
  "destroy_pts first [] c = Some c"
| "destroy_pts first (i # is) c = (case first i of
       None \<Rightarrow> destroy_pts first is c
     | Some pt \<Rightarrow> do { c1 \<leftarrow> destroy_pt pt [0..<1024] c; destroy_pts first is c1 })"

text \<open>The code flushes the TLB if its first entry belongs to the running process.\<close>

definition tlb_flush_own :: "'f vmem \<Rightarrow> 'f vmem" where
  "tlb_flush_own s = (if snd (tlb s ! 0) \<noteq> 0 \<and> tlb_pid (tlb s ! 0) = vm_pid s then tlb_flush s else s)"

definition as_destroy :: "'f vmops \<Rightarrow> nat \<Rightarrow> 'f vmem \<Rightarrow> 'f vmem option" where
  "as_destroy ops a s = do {
     u \<leftarrow> spaces s a;
     v \<leftarrow> as_vnode u;
     f1 \<leftarrow> vo_decref ops v (vm_files s);
     f2 \<leftarrow> vo_decref ops v f1;
     s1 \<leftarrow> cm_do (destroy_pts (firstpt u) [1..<1024]) (tlb_flush_own (s\<lparr>vm_files := f2\<rparr>));
     Some (tlb_flush_own (s1\<lparr>spaces := (spaces s1)(a := None)\<rparr>)) }"

text \<open>\<open>as_activate\<close> reads the first entry of the TLB unless the process has the id 2; then \<open>junk\<close> is what the variables hold.\<close>

definition as_activate :: "32 word \<times> 32 word \<Rightarrow> 'f vmem \<Rightarrow> 'f vmem" where
  "as_activate junk s = (let e = (if vm_pid s \<noteq> 2 then tlb s ! 0 else junk) in
     if snd e \<noteq> 0 \<and> tlb_pid e \<noteq> vm_pid s then tlb_flush s else s)"

definition as_define_region :: "'f vmops \<Rightarrow> nat \<Rightarrow> nat \<Rightarrow> nat \<Rightarrow> nat \<Rightarrow> int \<times> int \<times> int \<Rightarrow> nat \<Rightarrow> nat \<Rightarrow> 'f vmem \<Rightarrow> (unit, 'f vmem) kcall" where
  "as_define_region ops a vaddr0 sz0 filesize prot v offset s = (let
      sz1 = c_uint (sz0 + vaddr0 mod PAGE_SIZE);
      vaddr = page_frame vaddr0;
      sz = page_frame (c_uint (sz1 + (PAGE_SIZE - 1)));
      npages = sz div PAGE_SIZE;
      top = c_uint (vaddr + sz)
    in do {
      u \<leftarrow> spaces s a;
      if as_vbase1 u = 0 then do {
        f \<leftarrow> vo_incref ops v (vm_files s);
        s1 \<leftarrow> space_upd a (\<lambda>u. u\<lparr>as_vbase1 := vaddr, as_prot1 := prot, as_npages1 := npages, heapbottom := top, heaptop := top,
          as_vnode := Some v, off_text := offset, filesize_text := filesize\<rparr>) (s\<lparr>vm_files := f\<rparr>);
        Some (Inr (), s1) }
      else if as_vbase2 u = 0 then do {
        f \<leftarrow> vo_incref ops v (vm_files s);
        s1 \<leftarrow> space_upd a (\<lambda>u. u\<lparr>as_vbase2 := vaddr, as_prot2 := prot, as_npages2 := npages, heapbottom := top, heaptop := top,
          as_vnode := (if as_vnode u = None then Some v else as_vnode u), off_data := offset, filesize_data := filesize\<rparr>) (s\<lparr>vm_files := f\<rparr>);
        Some (Inr (), s1) }
      else Some (Inl EUNIMP, s) })"

text \<open>
  The two loops of \<open>as_prepare_load\<close>, from page \<open>i\<close> on.  \<open>index\<close> keeps its value from the last pass where there is no free page; the entry
  is stored before the result is looked at.  \<open>setpbase\<close> records the address of the first page.  Only for the data region (\<open>data\<close>) a file
  size of 0 is taken into account.
\<close>

fun load_pages :: "'f vmops \<Rightarrow> nat \<Rightarrow> bool \<Rightarrow> nat \<Rightarrow> nat \<Rightarrow> nat \<Rightarrow> nat \<Rightarrow> (nat \<Rightarrow> uspace \<Rightarrow> uspace) \<Rightarrow> nat list \<Rightarrow> nat \<Rightarrow> 'f vmem \<Rightarrow> (nat, 'f vmem) kcall" where
  "load_pages ops a data vbase npages filesize offset setpbase [] index s = Some (Inr index, s)"
| "load_pages ops a data vbase npages filesize offset setpbase (i # is) index s = do {
     (temp, ix, c) \<leftarrow> get_singlepage (vcm s);
     let index = (case ix of Some k \<Rightarrow> k | None \<Rightarrow> index);
     s1 \<leftarrow> (if i = 0 then cm_do (cm_upd index (\<lambda>e. e\<lparr>pte_npages := npages\<rparr>)) (s\<lparr>vcm := c\<rparr>) else Some (s\<lparr>vcm := c\<rparr>));
     s2 \<leftarrow> pt_set a (top10 vbase) (btm10 vbase + i) (c_int (int index * 2)) s1;
     if temp = 0 then Some (Inl ENOMEM, s2)
     else do {
       s3 \<leftarrow> cm_do (pt_insert (c_uint (vbase + i * PAGE_SIZE)) temp) s2;
       s4 \<leftarrow> (if i = 0 then space_upd a (setpbase temp) s3 else Some s3);
       u \<leftarrow> spaces s4 a;
       if data \<and> filesize = 0 then load_pages ops a data vbase npages filesize offset setpbase is index s4
       else try_k (page_read ops (as_vnode u) (c_uint (offset + i * PAGE_SIZE)) (PADDR_TO_KVADDR temp) PAGE_SIZE (c_usub filesize (i * PAGE_SIZE)) s4)
         (\<lambda>_ s5. load_pages ops a data vbase npages filesize offset setpbase is index s5) } }"

definition as_prepare_load :: "'f vmops \<Rightarrow> page_table option \<Rightarrow> page_table option \<Rightarrow> nat \<Rightarrow> nat \<Rightarrow> 'f vmem \<Rightarrow> (unit, 'f vmem) kcall" where
  "as_prepare_load ops mem1 mem2 junk a s = do {
     u \<leftarrow> spaces s a;
     s1 \<leftarrow> pt_new a (top10 (as_vbase1 u)) mem1 s;
     try_k (load_pages ops a False (as_vbase1 u) (as_npages1 u) (filesize_text u) (off_text u) (\<lambda>p u. u\<lparr>as_pbase1 := p\<rparr>) [0..<as_npages1 u] junk s1)
       (\<lambda>index s2. do {
         s3 \<leftarrow> pt_new a (top10 (as_vbase2 u)) mem2 s2;
         try_k (load_pages ops a True (as_vbase2 u) (as_npages2 u) (filesize_data u) (off_data u) (\<lambda>p u. u\<lparr>as_pbase2 := p\<rparr>) [0..<as_npages2 u] index s3)
           (\<lambda>_ s4. Some (Inr (), s4)) }) }"

definition as_define_stack :: "nat \<Rightarrow> 'f vmem \<Rightarrow> nat option" where
  "as_define_stack a s = map_option as_stackvbase (spaces s a)"

section \<open>Copying an address space\<close>

text \<open>The frame of an entry of the new page table.\<close>

definition entry_frame :: "nat \<Rightarrow> nat \<Rightarrow> nat \<Rightarrow> 'f vmem \<Rightarrow> nat option" where
  "entry_frame a t b s = do {
     v \<leftarrow> pt_get a t b s;
     kassert (0 \<le> v);
     e \<leftarrow> cm_at (nat (v sdiv 2)) (vcm s);
     Some (PADDR_TO_KVADDR (pte_pa e)) }"

text \<open>The loops over the pages of a region.  The code takes it for granted that the regions have the tables 1 and 64, and start at their first page.\<close>

fun copy_region :: "'f vmops \<Rightarrow> nat \<Rightarrow> nat \<Rightarrow> nat \<Rightarrow> nat list \<Rightarrow> 'f vmem \<Rightarrow> 'f vmem option" where
  "copy_region ops new t vbase [] s = Some s"
| "copy_region ops new t vbase (i # is) s = do {
     ka \<leftarrow> entry_frame new t i s;
     (d, s1) \<leftarrow> vo_upage ops (c_uint (vbase + i * PAGE_SIZE)) s;
     copy_region ops new t vbase is (put_page ka 0 d s1) }"

fun copy_stack :: "'f vmops \<Rightarrow> nat \<Rightarrow> nat list \<Rightarrow> nat \<Rightarrow> 'f vmem \<Rightarrow> 'f vmem option" where
  "copy_stack ops new [] index s = Some s"
| "copy_stack ops new (i # is) index s = do {
     (paddr, ix, c) \<leftarrow> get_singlepage (vcm s);
     let index = (case ix of Some k \<Rightarrow> k | None \<Rightarrow> index);
     s1 \<leftarrow> cm_do (pt_insert (PADDR_TO_KVADDR paddr) paddr) (s\<lparr>vcm := c\<rparr>);
     let currva = c_usub USERSTACK (i * PAGE_SIZE);
     s2 \<leftarrow> pt_set new (top10 currva) (btm10 currva) (c_int (int index * 2)) s1;
     (d, s3) \<leftarrow> vo_upage ops currva s2;
     copy_stack ops new is index (put_page (PADDR_TO_KVADDR paddr) 0 d s3) }"

text \<open>The loop over the heap.  Its condition compares the bottom of the new heap with the top of the old one; its body changes neither.\<close>

partial_function (option) copy_heap :: "'f vmops \<Rightarrow> nat \<Rightarrow> nat \<Rightarrow> 'f vmem \<Rightarrow> 'f vmem option" where
  [code]: "copy_heap ops new old s = do {
     un \<leftarrow> spaces s new;
     uo \<leftarrow> spaces s old;
     if heapbottom un < heaptop uo then do {
       (paddr, ix, c) \<leftarrow> get_singlepage (vcm s);
       s1 \<leftarrow> cm_do (pt_insert (PADDR_TO_KVADDR paddr) paddr) (s\<lparr>vcm := c\<rparr>);
       (d, s2) \<leftarrow> vo_upage ops (heaptop un) s1;
       s3 \<leftarrow> space_upd new (\<lambda>u. u\<lparr>heaptop := c_uint (heaptop u + PAGE_SIZE)\<rparr>) (put_page (PADDR_TO_KVADDR paddr) 0 d s2);
       copy_heap ops new old s3 }
     else Some s }"

text \<open>The results of the allocations: the structure, the first-level table, and three second-level tables.\<close>

record copy_mem =
  cp_space :: "(nat \<times> uspace) option"
  cp_first :: "(nat \<Rightarrow> page_table option) option"
  cp_text :: "page_table option"
  cp_data :: "page_table option"
  cp_stack :: "page_table option"
  cp_junk :: nat

definition as_copy :: "'f vmops \<Rightarrow> copy_mem \<Rightarrow> nat \<Rightarrow> 'f vmem \<Rightarrow> (nat, 'f vmem) kcall" where
  "as_copy ops cp old s = (case as_create (cp_space cp) (cp_first cp) s of
       (None, s1) \<Rightarrow> Some (Inl ENOMEM, s1)
     | (Some new, s1) \<Rightarrow> do {
         uo \<leftarrow> spaces s1 old;
         s2 \<leftarrow> space_upd new (\<lambda>u. u\<lparr>heaptop := heaptop uo, heapbottom := heapbottom uo, as_stackvbase := as_stackvbase uo,
           as_vbase1 := as_vbase1 uo, as_npages1 := as_npages1 uo, as_vbase2 := as_vbase2 uo, as_npages2 := as_npages2 uo, as_vnode := as_vnode uo,
           off_data := off_data uo, off_text := off_text uo, filesize_text := filesize_text uo, filesize_data := filesize_data uo\<rparr>) s1;
         v \<leftarrow> as_vnode uo;
         f1 \<leftarrow> vo_incref ops v (vm_files s2);
         f2 \<leftarrow> vo_incref ops v f1;
         (r, s3) \<leftarrow> as_prepare_load ops (cp_text cp) (cp_data cp) (cp_junk cp) new (s2\<lparr>vm_files := f2\<rparr>);
         case r of
           Inl _ \<Rightarrow> do { s4 \<leftarrow> as_destroy ops new s3; Some (Inl ENOMEM, s4) }
         | Inr _ \<Rightarrow> do {
             s4 \<leftarrow> copy_region ops new 1 (as_vbase1 uo) [0..<as_npages1 uo] s3;
             s5 \<leftarrow> copy_region ops new 64 (as_vbase2 uo) [0..<as_npages2 uo] s4;
             u5 \<leftarrow> spaces s5 old;
             s6 \<leftarrow> pt_new new (top10 (as_stackvbase u5)) (cp_stack cp) s5;
             s7 \<leftarrow> copy_stack ops new (rev [1..<c_usub USERSTACK (as_stackvbase u5) div PAGE_SIZE + 1]) (cp_junk cp) s6;
             s8 \<leftarrow> copy_heap ops new old s7;
             Some (Inr new, s8) } })"

section \<open>Start\<close>

text \<open>\<open>st_size\<close> is the size of the swap device; the other arguments are the results of opening it and of the allocations.\<close>

definition swap_init :: "bool \<Rightarrow> nat \<Rightarrow> bool \<times> bool \<Rightarrow> page_table_entry kmem \<Rightarrow> 'f vmem \<Rightarrow> 'f vmem option" where
  "swap_init opened st_size bmem km s = do {
     kassert opened;
     let n = st_size div PAGE_SIZE;
     bm \<leftarrow> bitmap_create (fst bmem) (snd bmem) n;
     b \<leftarrow> bm;
     h \<leftarrow> kalloc km n;
     let (firstaddr, c) = ram_stealmem 0 (vcm s);
     Some (s\<lparr>vcm := c, swap_bmp := b, swap_holder := map (\<lambda>i. (h ! i)\<lparr>pte_pa := c_uint (firstaddr + i * PAGE_SIZE)\<rparr>) [0..<n]\<rparr>) }"

definition vm_bootstrap :: "bool \<Rightarrow> nat \<Rightarrow> bool \<times> bool \<Rightarrow> page_table_entry kmem \<Rightarrow> nat \<Rightarrow> nat \<times> bool \<times> bool \<Rightarrow> nat \<times> page_table_entry kmem \<Rightarrow> 'f vmem \<Rightarrow> 'f vmem option" where
  "vm_bootstrap opened st_size smem skm ramsize bmem cmem s = do {
     s1 \<leftarrow> swap_init opened st_size smem skm (s\<lparr>paging_held := False\<rparr>);
     cm_do (coremap_init ramsize bmem cmem) s1 }"

end
