(* ===== verification/Vm_Inv.thy ===== *)
theory Vm_Inv
  imports Vm Coremap_Inv
begin

text \<open>
  The invariant of user memory: no frame is mapped twice, and the TLB maps pages of one process only, as its page table does.
\<close>

section \<open>Page tables\<close>

text \<open>The entry of page number \<open>p\<close> in the address space \<open>a\<close>, 0 where there is none.\<close>

definition pte :: "'f vmem \<Rightarrow> nat \<Rightarrow> nat \<Rightarrow> int" where
  "pte s a p = (case spaces s a of None \<Rightarrow> 0 | Some u \<Rightarrow> (case firstpt u (p div 1024) of None \<Rightarrow> 0 | Some pt \<Rightarrow> pt (p mod 1024)))"

abbreviation used :: "'f vmem \<Rightarrow> nat set" where
  "used s \<equiv> bitmap_used (gbl_bmp (vcm s))"

lemma page_index: "top10 (p * 4096) = p div 1024" "btm10 (p * 4096) = p mod 1024"
proof -
  have "p * 4096 div (4096 * 1024) = p * 4096 div 4096 div 1024" by (rule div_mult2_eq)
  then show "top10 (p * 4096) = p div 1024" by (simp add: top10_def)
  have "p * 4096 mod (4096 * 1024) = 4096 * (p * 4096 div 4096 mod 1024) + p * 4096 mod 4096" by (rule mod_mult2_eq)
  then show "btm10 (p * 4096) = p mod 1024" by (simp add: btm10_def)
qed

lemma pt_get_pte: "pt_get a (p div 1024) (p mod 1024) s = Some v \<Longrightarrow> pte s a p = v"
  by (auto simp: pt_get_def pte_def split: Option.bind_splits)

lemma page_eq: "q div 1024 = p div 1024 \<Longrightarrow> q mod 1024 = p mod 1024 \<Longrightarrow> q = (p :: nat)"
  by (metis mult_div_mod_eq)

lemma pt_set_pte:
  assumes "pt_set a (p div 1024) (p mod 1024) v s = Some s'"
  shows "pte s' = (pte s)(a := (pte s a)(p := v))" and "\<exists>x. s' = s\<lparr>spaces := x\<rparr>"
proof -
  obtain u pt where u: "spaces s a = Some u" "firstpt u (p div 1024) = Some pt"
      "s' = s\<lparr>spaces := (spaces s)(a \<mapsto> u\<lparr>firstpt := (firstpt u)(p div 1024 \<mapsto> pt(p mod 1024 := v))\<rparr>)\<rparr>"
    using assms by (auto simp: pt_set_def split: Option.bind_splits)
  show "pte s' = (pte s)(a := (pte s a)(p := v))"
    using u page_eq [of _ p] by (auto simp: pte_def fun_eq_iff split: option.splits)
  show "\<exists>x. s' = s\<lparr>spaces := x\<rparr>" using u(3) by blast
qed

lemma pt_new_pte:
  assumes "pt_new a t (Some (\<lambda>_. 0)) s = Some s'"
  shows "pte s' b p = (if b = a \<and> p div 1024 = t then 0 else pte s b p)" and "\<exists>x. s' = s\<lparr>spaces := x\<rparr>"
proof -
  obtain u where u: "spaces s a = Some u" "s' = s\<lparr>spaces := (spaces s)(a \<mapsto> u\<lparr>firstpt := (firstpt u)(t \<mapsto> (\<lambda>_. 0))\<rparr>)\<rparr>"
    using assms by (auto simp: pt_new_def space_upd_def split: Option.bind_splits)
  then show "pte s' b p = (if b = a \<and> p div 1024 = t then 0 else pte s b p)" by (cases "b = a") (simp_all add: pte_def)
  show "\<exists>x. s' = s\<lparr>spaces := x\<rparr>" using u(2) by blast
qed

text \<open>Updates of other fields of an address space.\<close>

lemma space_upd_pte:
  assumes "space_upd a f s = Some s'" and "\<And>u. firstpt (f u) = firstpt u"
  shows "pte s' = pte s" and "\<exists>x. s' = s\<lparr>spaces := x\<rparr>"
proof -
  obtain u where u: "spaces s a = Some u" "s' = s\<lparr>spaces := (spaces s)(a \<mapsto> f u)\<rparr>" using assms(1) by (auto simp: space_upd_def split: Option.bind_splits)
  then have "pte s' b p = pte s b p" for b p using assms(2) by (cases "b = a") (simp_all add: pte_def)
  then show "pte s' = pte s" by (simp add: fun_eq_iff)
  show "\<exists>x. s' = s\<lparr>spaces := x\<rparr>" using u(2) by blast
qed

lemma pte_fields [simp]:
  "pte (s\<lparr>vcm := c\<rparr>) = pte s" "pte (s\<lparr>tlb := x1\<rparr>) = pte s" "pte (s\<lparr>frames := x2\<rparr>) = pte s" "pte (s\<lparr>vm_spl := x3\<rparr>) = pte s"
  "pte (s\<lparr>paging_held := x4\<rparr>) = pte s" "pte (s\<lparr>vm_pid := x5\<rparr>) = pte s" "pte (s\<lparr>vm_files := x6\<rparr>) = pte s"
  by (simp_all add: pte_def fun_eq_iff)

section \<open>Frames\<close>

text \<open>Every entry is that of a frame in use, and no two entries are that of the same frame.\<close>

definition frames_ok :: "'f vmem \<Rightarrow> bool" where
  "frames_ok s \<longleftrightarrow> cm_ok (vcm s) \<and>
     (\<forall>a p. pte s a p \<noteq> 0 \<longrightarrow> (\<exists>i. pte s a p = 2 * int i \<and> 3 \<le> i \<and> i < max_page_num (vcm s) \<and> i \<in> used s)) \<and>
     (\<forall>a p b q. pte s a p \<noteq> 0 \<and> pte s a p = pte s b q \<longrightarrow> a = b \<and> p = q)"

lemma frames_okD:
  assumes "frames_ok s"
  shows "cm_ok (vcm s)" and "pte s a p \<noteq> 0 \<Longrightarrow> \<exists>i. pte s a p = 2 * int i \<and> 3 \<le> i \<and> i < max_page_num (vcm s) \<and> i \<in> used s"
    and "pte s a p \<noteq> 0 \<Longrightarrow> pte s a p = pte s b q \<Longrightarrow> a = b \<and> p = q"
  using assms unfolding frames_ok_def by blast+

text \<open>Entries may go.\<close>

lemma frames_ok_sub:
  assumes f: "frames_ok s" and c: "cm_ok (vcm s')" "max_page_num (vcm s') = max_page_num (vcm s)"
    and e: "\<And>a p. pte s' a p \<noteq> 0 \<Longrightarrow> pte s' a p = pte s a p" and u: "\<And>a p i. pte s' a p = 2 * int i \<Longrightarrow> i \<noteq> 0 \<Longrightarrow> i \<in> used s \<Longrightarrow> i \<in> used s'"
  shows "frames_ok s'"
  unfolding frames_ok_def
proof (intro conjI allI impI c(1))
  fix a p assume a: "pte s' a p \<noteq> 0"
  have n: "pte s a p \<noteq> 0" using a e [OF a] by simp
  obtain i where i: "pte s a p = 2 * int i" "3 \<le> i" "i < max_page_num (vcm s)" "i \<in> used s" using frames_okD(2) [OF f n] by blast
  have "i \<in> used s'" by (rule u [of a p]) (use a i e [OF a] in simp_all)
  then show "\<exists>i. pte s' a p = 2 * int i \<and> 3 \<le> i \<and> i < max_page_num (vcm s') \<and> i \<in> used s'" using i e [OF a] c(2) by auto
next
  fix a p b q assume a: "pte s' a p \<noteq> 0 \<and> pte s' a p = pte s' b q"
  then have "pte s' b q \<noteq> 0" by simp
  then have "pte s a p \<noteq> 0" "pte s a p = pte s b q" using a e [of a p] e [of b q] by simp_all
  then show "a = b" "p = q" using frames_okD(3) [OF f] by blast+
qed

text \<open>A page gets a frame that was free.\<close>

lemma frames_ok_add:
  assumes f: "frames_ok s" and c: "cm_ok (vcm s')" "max_page_num (vcm s') = max_page_num (vcm s)"
    and e: "pte s' = (pte s)(a := (pte s a)(p := 2 * int i))" and i: "i \<notin> used s" "3 \<le> i" "i < max_page_num (vcm s)" and u: "used s' = insert i (used s)"
  shows "frames_ok s'"
  unfolding frames_ok_def
proof (intro conjI allI impI c(1))
  have old: "pte s b q \<noteq> 2 * int i" for b q
  proof
    assume a: "pte s b q = 2 * int i"
    then have "pte s b q \<noteq> 0" using i(2) by simp
    then obtain j where "pte s b q = 2 * int j" "j \<in> used s" using frames_okD(2) [OF f] by blast
    then show False using a i(1) by simp
  qed
  have n: "pte s' b q = (if b = a \<and> q = p then 2 * int i else pte s b q)" for b q using e by simp
  show "\<exists>j. pte s' b q = 2 * int j \<and> 3 \<le> j \<and> j < max_page_num (vcm s') \<and> j \<in> used s'" if "pte s' b q \<noteq> 0" for b q
    using that n [of b q] frames_okD(2) [OF f, of b q] i u c(2) by (auto split: if_splits)
  show "b = d" "q = r" if "pte s' b q \<noteq> 0 \<and> pte s' b q = pte s' d r" for b q d r
    using that n [of b q] n [of d r] old [of b q] old [of d r] frames_okD(3) [OF f, of b q d r] by (auto split: if_splits)
qed

section \<open>The core map\<close>

lemma cur_single: "get_singlepage c = Some (x, y, c') \<Longrightarrow> cur_vmspace c' = cur_vmspace c"
  by (auto simp: get_singlepage_def cm_upd_def cm_at_def Let_def split: Option.bind_splits sum.splits if_splits)

lemma cur_insert: "pt_insert v p c = Some c' \<Longrightarrow> cur_vmspace c' = cur_vmspace c"
  by (auto simp: pt_insert_def cm_upd_def Let_def split: Option.bind_splits if_splits)

lemma cur_upd: "cm_upd i f c = Some c' \<Longrightarrow> cur_vmspace c' = cur_vmspace c"
  by (auto simp: cm_upd_def split: if_splits)

lemma cur_remove: "coremap_remove p i c = Some c' \<Longrightarrow> cur_vmspace c' = cur_vmspace c"
  by (auto simp: coremap_remove_def dest!: cur_upd split: Option.bind_splits if_splits)

lemma cm_ok_cur [simp]: "cm_ok (c\<lparr>cur_vmspace := x\<rparr>) = cm_ok c"
  by (simp add: cm_ok_def entry_ok_def kva_def)

text \<open>Changing what neither address of an entry depends on.\<close>

lemma flag_step:
  assumes ok: "cm_ok c" and r: "cm_upd i f c = Some c'" and f: "\<And>e. pte_pa (f e) = pte_pa e \<and> pte_va (f e) = pte_va e"
  shows "cm_ok c'" and "max_page_num c' = max_page_num c" and "mem_start c' = mem_start c" and "gbl_bmp c' = gbl_bmp c" and "cur_vmspace c' = cur_vmspace c"
proof -
  let ?e = "f (coremap c ! i)"
  note D = cm_okD [OF ok]
  have i: "i < max_page_num c" and c': "c' = c\<lparr>coremap := (coremap c)[i := ?e]\<rparr>"
    using r D(4) by (auto simp: cm_upd_def split: if_splits)
  have eq: "c\<lparr>gbl_bmp := gbl_bmp c, coremap := (coremap c)[i := ?e], vm_ref := vm_ref c\<rparr> = c'" using c' by simp
  have "cm_step {i} c (c\<lparr>gbl_bmp := gbl_bmp c, coremap := (coremap c)[i := ?e], vm_ref := vm_ref c\<rparr>)"
    by (rule entry_step [OF ok i _ _ D(2,3)]) (use f D(8) [OF _ i] D(9) [OF i] in \<open>simp_all, fastforce\<close>)
  then show "cm_ok c'" unfolding eq by (simp add: cm_step_def)
  show "max_page_num c' = max_page_num c" "mem_start c' = mem_start c" "gbl_bmp c' = gbl_bmp c" "cur_vmspace c' = cur_vmspace c"
    using c' by simp_all
qed

section \<open>Page faults\<close>

text \<open>Steps that change neither page tables nor the TLB nor which frames are in use.\<close>

definition alike :: "'f vmem \<Rightarrow> 'f vmem \<Rightarrow> bool" where
  "alike s s' \<longleftrightarrow> pte s' = pte s \<and> tlb s' = tlb s \<and> vm_pid s' = vm_pid s \<and> cm_ok (vcm s') \<and> used s' = used s \<and>
     max_page_num (vcm s') = max_page_num (vcm s) \<and> mem_start (vcm s') = mem_start (vcm s) \<and> cur_vmspace (vcm s') = cur_vmspace (vcm s)"

lemma alike_trans: "alike s s' \<Longrightarrow> alike s' s'' \<Longrightarrow> alike s s''"
  by (simp add: alike_def)

lemma alike_refl: "cm_ok (vcm s) \<Longrightarrow> alike s s"
  by (simp add: alike_def)

lemma alike_frames: "frames_ok s \<Longrightarrow> alike s s' \<Longrightarrow> frames_ok s'"
  by (rule frames_ok_sub) (auto simp: alike_def)

lemma page_read_alike:
  assumes "page_read ops v off ka n fsz s = Some (r, s')" and "cm_ok (vcm s)"
  shows "alike s s'" and "spaces s' = spaces s"
  using assms by (auto simp: page_read_def put_page_def alike_def Let_def split: Option.bind_splits sum.splits if_splits)

lemma lock_frame_alike:
  assumes "lock_frame i s = Some s'" and ok: "cm_ok (vcm s)"
  shows "alike s s'" and "spaces s' = spaces s"
proof -
  obtain c where c: "cm_upd i (\<lambda>e. e\<lparr>pte_locked := 1\<rparr>) (vcm s) = Some c" "s' = s\<lparr>vcm := c\<rparr>" using assms(1) by (auto simp: lock_frame_def cm_do_def)
  show "alike s s'" using flag_step [OF ok c(1)] c(2) by (simp add: alike_def)
  show "spaces s' = spaces s" using c(2) by simp
qed

lemma fault_load_alike:
  assumes "fault_load ops a fa s = Some (r, s')" and ok: "cm_ok (vcm s)"
  shows "alike s s'" and "spaces s' = spaces s"
proof -
  have rd: "alike s1 s2 \<and> spaces s2 = spaces s1" if "fault_read ops u i fa vb fsz off s1 = Some (r2, s2)" "cm_ok (vcm s1)" for u i vb fsz off s1 r2 s2
    using that page_read_alike by (auto simp: fault_read_def split: Option.bind_splits)
  have "alike s s' \<and> spaces s' = spaces s"
  proof -
    consider "s' = s" | u i vb fsz off r2 s1 where "fault_read ops u i fa vb fsz off s = Some (r2, s1)" "lock_frame i s1 = Some s'"
      | u i vb fsz off s1 where "lock_frame i s = Some s1" "fault_read ops u i fa vb fsz off s1 = Some (r, s')"
      using assms(1) by (auto simp: fault_load_def split: Option.bind_splits if_splits)
    then show ?thesis
    proof cases
      case 1
      then show ?thesis using alike_refl [OF ok] by simp
    next
      case 2
      have s1: "alike s s1 \<and> spaces s1 = spaces s" by (rule rd [OF 2(1) ok])
      then have ok1: "cm_ok (vcm s1)" by (simp add: alike_def)
      show ?thesis using s1 lock_frame_alike [OF 2(2) ok1] alike_trans by auto
    next
      case 3
      note l = lock_frame_alike [OF 3(1) ok]
      then have ok1: "cm_ok (vcm s1)" by (simp add: alike_def)
      show ?thesis using l rd [OF 3(2) ok1] alike_trans by auto
    qed
  qed
  then show "alike s s'" "spaces s' = spaces s" by simp_all
qed

lemma entry_halves: "(2 * int i) smod 2 = 0" "(2 * int i) sdiv 2 = int i"
  by (simp_all add: signed_modulo_int_eq_modulo_int signed_divide_int_eq_divide_int)

text \<open>A free frame, entered for page \<open>p\<close> of the address space \<open>a\<close>.\<close>

lemma get_frame:
  assumes ok: "cm_ok c" and free: "bitmap_used (gbl_bmp c) \<noteq> {0..<max_page_num c}"
  shows "\<exists>i c'. get_singlepage c = Some (mem_start c + i * PAGE_SIZE, Some i, c') \<and> mem_start c + i * PAGE_SIZE \<noteq> 0 \<and> 3 \<le> i \<and> i < max_page_num c \<and>
    i \<notin> bitmap_used (gbl_bmp c) \<and> cm_step {i} c c' \<and> bitmap_used (gbl_bmp c') = insert i (bitmap_used (gbl_bmp c)) \<and>
    cur_vmspace c' = cur_vmspace c \<and> c_int (int i * 2) = 2 * int i"
proof -
  obtain i c' where i: "get_singlepage c = Some (mem_start c + i * PAGE_SIZE, Some i, c')" "3 \<le> i" "i < max_page_num c" "i \<notin> bitmap_used (gbl_bmp c)"
      "cm_step {i} c c'" "bitmap_used (gbl_bmp c') = insert i (bitmap_used (gbl_bmp c))"
    using singlepage_ok [OF ok] free by auto
  have "i * 4096 \<le> 2 ^ 29" using cm_okD(7) [OF ok] i(3) by simp
  then have "c_int (int i * 2) = 2 * int i" by (subst c_int_id) auto
  then show ?thesis using i cur_single [OF i(1)] by auto
qed

lemma frame_entered:
  assumes f: "frames_ok s" and c: "cm_step {i} (vcm s) c1" "bitmap_used (gbl_bmp c1) = insert i (used s)" "cur_vmspace c1 = cur_vmspace (vcm s)"
    and i: "3 \<le> i" "i < max_page_num (vcm s)" "i \<notin> used s" and va: "va < MIPS_KSEG0"
    and ins: "pt_insert va (mem_start (vcm s) + i * PAGE_SIZE) (vcm s2) = Some c2" and s2: "vcm s2 = c1" "pte s2 = (pte s)(a := (pte s a)(p := 2 * int i))"
  shows "frames_ok (s2\<lparr>vcm := c2\<rparr>)" and "bitmap_used (gbl_bmp c2) = insert i (used s)" and "max_page_num c2 = max_page_num (vcm s)"
    and "mem_start c2 = mem_start (vcm s)" and "cur_vmspace c2 = cur_vmspace (vcm s)"
proof -
  have c1: "cm_ok c1" "max_page_num c1 = max_page_num (vcm s)" "mem_start c1 = mem_start (vcm s)" using c(1) by (auto simp: cm_step_def)
  have il: "i < max_page_num c1" using i(2) c1(2) by simp
  obtain c3 where c3: "pt_insert va (mem_start c1 + i * PAGE_SIZE) c1 = Some c3" "cm_step {i} c1 c3" "bitmap_used (gbl_bmp c3) = insert i (bitmap_used (gbl_bmp c1))"
    using pt_insert_ok [OF c1(1) i(1) il, of va] va by auto
  then have eq: "c3 = c2" using ins s2(1) c1(3) by simp
  have k: "cm_ok c2" "max_page_num c2 = max_page_num c1" "mem_start c2 = mem_start c1" using c3(2) eq by (auto simp: cm_step_def)
  show u: "bitmap_used (gbl_bmp c2) = insert i (used s)" using c3(3) eq c(2) by simp
  show "max_page_num c2 = max_page_num (vcm s)" "mem_start c2 = mem_start (vcm s)" using k c1 by simp_all
  show "cur_vmspace c2 = cur_vmspace (vcm s)" using cur_insert [OF ins] s2(1) c(3) by simp
  show "frames_ok (s2\<lparr>vcm := c2\<rparr>)" by (rule frames_ok_add [OF f _ _ _ i(3,1,2)]) (use k c1 s2 u in simp_all)
qed

text \<open>What \<open>fault_page\<close> leaves: page \<open>p\<close> of \<open>a\<close> has frame \<open>i\<close>, its old one or one that was free.\<close>

definition paged :: "nat \<Rightarrow> nat \<Rightarrow> nat \<Rightarrow> 'f vmem \<Rightarrow> 'f vmem \<Rightarrow> bool" where
  "paged a p i s s' \<longleftrightarrow> pte s' = (pte s)(a := (pte s a)(p := 2 * int i)) \<and> 3 \<le> i \<and> i < max_page_num (vcm s) \<and>
     (pte s a p = 2 * int i \<and> used s' = used s \<or> pte s a p = 0 \<and> i \<notin> used s \<and> used s' = insert i (used s)) \<and>
     tlb s' = tlb s \<and> vm_pid s' = vm_pid s \<and> mem_start (vcm s') = mem_start (vcm s) \<and> max_page_num (vcm s') = max_page_num (vcm s) \<and>
     cur_vmspace (vcm s') = cur_vmspace (vcm s)"

lemma new_frame:
  assumes f: "frames_ok s" and p: "p < 2 ^ 19" and z: "pte s a p = 0" and free: "used s \<noteq> {0..<max_page_num (vcm s)}"
    and r: "do { (r, s2) \<leftarrow> fault_frame ops fa s; case r of Inl e \<Rightarrow> Some (Inl e, s2)
       | Inr (temp, index) \<Rightarrow> do { s3 \<leftarrow> cm_do (cm_upd index (\<lambda>e. e\<lparr>pte_npages := 1\<rparr>)) s2;
           s4 \<leftarrow> pt_set a (p div 1024) (p mod 1024) (c_int (int index * 2)) s3; s5 \<leftarrow> cm_do (pt_insert (p * 4096) temp) s4; Some (Inr (), s5) } } = Some (x, s')"
  shows "x = Inr ()" and "frames_ok s'" and "\<exists>i. paged a p i s s'"
proof -
  note ok = frames_okD(1) [OF f]
  obtain i c where g: "get_singlepage (vcm s) = Some (mem_start (vcm s) + i * PAGE_SIZE, Some i, c)" "mem_start (vcm s) + i * PAGE_SIZE \<noteq> 0" "3 \<le> i"
      "i < max_page_num (vcm s)" "i \<notin> used s" "cm_step {i} (vcm s) c" "bitmap_used (gbl_bmp c) = insert i (used s)"
      "cur_vmspace c = cur_vmspace (vcm s)" "c_int (int i * 2) = 2 * int i"
    using get_frame [OF ok free] by blast
  have ff: "fault_frame ops fa s = Some (Inr (mem_start (vcm s) + i * PAGE_SIZE, i), s\<lparr>vcm := c\<rparr>)" using g(1,2) by (subst fault_frame.simps) auto
  obtain c1 s4 c2 where t: "cm_upd i (\<lambda>e. e\<lparr>pte_npages := 1\<rparr>) c = Some c1" "pt_set a (p div 1024) (p mod 1024) (2 * int i) (s\<lparr>vcm := c1\<rparr>) = Some s4"
      "pt_insert (p * 4096) (mem_start (vcm s) + i * PAGE_SIZE) (vcm s4) = Some c2" "s' = s4\<lparr>vcm := c2\<rparr>" "x = Inr ()"
    using r g(9) unfolding ff by (auto simp: cm_do_def split: Option.bind_splits)
  have okc: "cm_ok c" using g(6) by (simp add: cm_step_def)
  note fl = flag_step [OF okc t(1)]
  obtain y where y: "s4 = s\<lparr>vcm := c1, spaces := y\<rparr>" using pt_set_pte(2) [OF t(2)] by auto
  have e4: "pte s4 = (pte s)(a := (pte s a)(p := 2 * int i))" using pt_set_pte(1) [OF t(2)] by simp
  have "cm_step {i} (vcm s) c1"
    using g(6) fl t(1) by (auto simp: cm_step_def cm_upd_def nth_list_update split: if_splits)
  note en = frame_entered [OF f this _ _ g(3,4,5) _ t(3) _ e4]
  have pp: "p * 4096 < MIPS_KSEG0" using p by simp
  note en = en [OF _ _ pp]
  show "x = Inr ()" by (fact t(5))
  show "frames_ok s'" using en(1) fl(4,5) g(7,8) y t(4) by simp
  have o: "tlb s' = tlb s" "vm_pid s' = vm_pid s" "vcm s' = c2" "vcm s4 = c1" using y t(4) by simp_all
  have e5: "pte s' = (pte s)(a := (pte s a)(p := 2 * int i))" using e4 t(4) by simp
  show "\<exists>i. paged a p i s s'" using en(2-5) fl(4,5) g(3,4,5,7,8) o e5 z by (intro exI [of _ i]) (simp add: paged_def)
qed

lemma fault_page_ok:
  assumes f: "frames_ok s" and p: "p < 2 ^ 19" and mem: "mem = None \<or> mem = Some (\<lambda>_. 0)" and free: "used s \<noteq> {0..<max_page_num (vcm s)}"
    and r: "fault_page ops mem a (p * 4096) s = Some (x, s')"
  shows "x = Inr ()" and "frames_ok s'" and "\<exists>i. paged a p i s s'"
proof -
  note r = r [unfolded fault_page_def page_index]
  obtain u s1 v where s1: "spaces s a = Some u" "(if firstpt u (p div 1024) = None then pt_new a (p div 1024) mem s else Some s) = Some s1"
      "pt_get a (p div 1024) (p mod 1024) s1 = Some v"
    using r by (auto split: Option.bind_splits)
  have s1': "pte s1 = pte s" "\<exists>y. s1 = s\<lparr>spaces := y\<rparr>"
  proof -
    have "pte s1 = pte s \<and> (\<exists>y. s1 = s\<lparr>spaces := y\<rparr>)"
    proof (cases "firstpt u (p div 1024) = None")
      case True
      then have n: "pt_new a (p div 1024) mem s = Some s1" using s1(2) by simp
      have "mem \<noteq> None"
      proof
        assume "mem = None"
        then have "firstpt (the (spaces s1 a)) (p div 1024) = None" "spaces s1 a \<noteq> None" using n s1(1) by (auto simp: pt_new_def space_upd_def)
        then show False using s1(3) by (auto simp: pt_get_def split: Option.bind_splits)
      qed
      then have n0: "pt_new a (p div 1024) (Some (\<lambda>_. 0)) s = Some s1" using n mem by auto
      have "pte s1 b q = pte s b q" for b q using pt_new_pte(1) [OF n0, of b q] True s1(1) by (auto simp: pte_def)
      then show ?thesis using pt_new_pte(2) [OF n0] by (simp add: fun_eq_iff)
    next
      case False
      then show ?thesis using s1(2) by (auto intro: exI [of _ "spaces s1"])
    qed
    then show "pte s1 = pte s" "\<exists>y. s1 = s\<lparr>spaces := y\<rparr>" by simp_all
  qed
  then obtain y where y: "s1 = s\<lparr>spaces := y\<rparr>" by blast
  have f1: "frames_ok s1" by (rule frames_ok_sub [OF f]) (use y s1'(1) frames_okD(1) [OF f] in auto)
  have v: "pte s a p = v" using pt_get_pte [OF s1(3)] s1'(1) by simp
  have "x = Inr () \<and> frames_ok s' \<and> (\<exists>i. paged a p i s s')"
  proof (cases "v = 0")
    case True
    have "x = Inr () \<and> frames_ok s' \<and> (\<exists>i. paged a p i s1 s')"
    proof -
      have "do { (r, s2) \<leftarrow> fault_frame ops (p * 4096) s1; case r of Inl e \<Rightarrow> Some (Inl e, s2)
         | Inr (temp, index) \<Rightarrow> do { s3 \<leftarrow> cm_do (cm_upd index (\<lambda>e. e\<lparr>pte_npages := 1\<rparr>)) s2;
           s4 \<leftarrow> pt_set a (p div 1024) (p mod 1024) (c_int (int index * 2)) s3; s5 \<leftarrow> cm_do (pt_insert (p * 4096) temp) s4; Some (Inr (), s5) } } = Some (x, s')"
        using r s1 True by simp
      from new_frame [OF f1 p _ _ this] show ?thesis using v True s1'(1) free y by simp
    qed
    then show ?thesis using y s1'(1) by (auto simp: paged_def)
  next
    case False
    then obtain i where i: "v = 2 * int i" "3 \<le> i" "i < max_page_num (vcm s)" using frames_okD(2) [OF f] v by metis
    then have "x = Inr ()" "s' = s1" using r s1 entry_halves [of i] by auto
    then show ?thesis using f1 y s1'(1) v i by (auto simp: paged_def fun_eq_iff)
  qed
  then show "x = Inr ()" "frames_ok s'" "\<exists>i. paged a p i s s'" by simp_all
qed

end
