(* ===== verification/Vm_Tlb.thy ===== *)
theory Vm_Tlb
  imports Vm_Inv
begin

text \<open>
  The entries of the TLB: what they hold, and that \<open>vm_fault\<close>, context switches and the operations on address spaces keep
  them to the pages of one process.
\<close>

section \<open>Entries\<close>

lemma tlb_masks:
  "TLBHI_VPAGE = push_bit 12 (mask 20)" "TLBHI_PID = push_bit 6 (mask 6)" "TLBLO_VALID = push_bit 9 1" "TLBLO_DIRTY = push_bit 10 1"
  by (simp_all add: TLBHI_VPAGE_def TLBHI_PID_def TLBLO_VALID_def TLBLO_DIRTY_def mask_eq_exp_minus_1 push_bit_eq_mult)

lemma mask_bits:
  "bit TLBHI_VPAGE n \<longleftrightarrow> 12 \<le> n \<and> n < 32" "bit TLBHI_PID n \<longleftrightarrow> 6 \<le> n \<and> n < 12" "bit TLBLO_VALID n \<longleftrightarrow> n = 9" "bit TLBLO_DIRTY n \<longleftrightarrow> n = 10"
  unfolding tlb_masks bit_push_bit_iff bit_mask_iff bit_1_iff by auto

lemma vpn_shift: "(word_of_nat (p * 4096) :: 32 word) = push_bit 12 (word_of_nat p)"
  by (simp add: push_bit_eq_mult)

lemma pid_shift: "(word_of_int (q * 64) :: 32 word) = push_bit 6 (word_of_int q)"
  by (simp add: push_bit_eq_mult)

lemma pid_small: "0 \<le> q \<Longrightarrow> q < 64 \<Longrightarrow> bit (word_of_int q :: 32 word) n \<Longrightarrow> n < 6"
proof -
  assume q: "0 \<le> q" "q < 64" and b: "bit (word_of_int q :: 32 word) n"
  have "take_bit 6 q = q" using q by (simp add: take_bit_eq_mod)
  moreover have "bit q n" using b by (simp add: bit_simps)
  ultimately show "n < 6" by (metis bit_take_bit_iff)
qed

lemma entry_hi:
  assumes q: "0 \<le> q" "q < 64"
  shows "and (or (word_of_nat (p * 4096)) (word_of_int (q * 64))) TLBHI_VPAGE = (word_of_nat (p * 4096) :: 32 word)"
    and "uint (drop_bit 6 (and (or (word_of_nat (p * 4096)) (word_of_int (q * 64))) TLBHI_PID)) = q"
proof -
  note small = pid_small [OF q]
  show "and (or (word_of_nat (p * 4096)) (word_of_int (q * 64))) TLBHI_VPAGE = (word_of_nat (p * 4096) :: 32 word)"
    unfolding vpn_shift pid_shift by (rule bit_eqI) (auto simp: bit_and_iff bit_or_iff bit_push_bit_iff mask_bits dest: small)
  have "drop_bit 6 (and (or (word_of_nat (p * 4096)) (word_of_int (q * 64))) TLBHI_PID) = word_of_int q"
    unfolding vpn_shift pid_shift
    by (rule bit_eqI) (auto simp: bit_drop_bit_eq bit_and_iff bit_or_iff bit_push_bit_iff mask_bits dest: small)
  moreover have "uint (word_of_int q :: 32 word) = q" using q by (simp add: uint_word_of_int)
  ultimately show "uint (drop_bit 6 (and (or (word_of_nat (p * 4096)) (word_of_int (q * 64))) TLBHI_PID)) = q" by simp
qed

lemma entry_lo:
  assumes "d = 0 \<or> d = TLBLO_DIRTY"
  shows "and (or (or (word_of_nat (p * 4096)) TLBLO_VALID) d) TLBHI_VPAGE = word_of_nat (p * 4096)"
    and "and (or (or (word_of_nat (p * 4096)) TLBLO_VALID) d) TLBLO_VALID \<noteq> 0"
proof -
  show "and (or (or (word_of_nat (p * 4096)) TLBLO_VALID) d) TLBHI_VPAGE = word_of_nat (p * 4096)"
    unfolding vpn_shift by (rule bit_eqI) (use assms in \<open>auto simp: bit_and_iff bit_or_iff bit_push_bit_iff mask_bits\<close>)
  have "bit (and (or (or (word_of_nat (p * 4096)) TLBLO_VALID) d) TLBLO_VALID) 9" by (simp add: bit_and_iff bit_or_iff mask_bits)
  then show "and (or (or (word_of_nat (p * 4096)) TLBLO_VALID) d) TLBLO_VALID \<noteq> 0" by auto
qed

section \<open>The entries are those of one process\<close>

text \<open>The entry maps a page of the address space \<open>a\<close> to its frame.\<close>

definition tlb_maps :: "'f vmem \<Rightarrow> nat \<Rightarrow> 32 word \<times> 32 word \<Rightarrow> bool" where
  "tlb_maps s a e \<longleftrightarrow> (\<exists>p i. p < 2 ^ 19 \<and> and (fst e) TLBHI_VPAGE = word_of_nat (p * 4096) \<and> i \<noteq> 0 \<and> pte s a p = 2 * int i \<and>
     and (snd e) TLBHI_VPAGE = word_of_nat (mem_start (vcm s) + i * PAGE_SIZE))"

text \<open>The first \<open>n\<close> entries are those of the process \<open>p0\<close>, which is the running one if that is a user process; the others are empty.  There are never 64.\<close>

definition tlb_holds :: "(int \<Rightarrow> nat) \<Rightarrow> 'f vmem \<Rightarrow> nat \<Rightarrow> int \<Rightarrow> bool" where
  "tlb_holds P s n p0 \<longleftrightarrow> length (tlb s) = NUM_TLB \<and> n < NUM_TLB \<and>
     (\<forall>i < length (tlb s). if i < n then tlb_valid (tlb s ! i) \<and> tlb_pid (tlb s ! i) = p0 \<and> tlb_maps s (P p0) (tlb s ! i) else snd (tlb s ! i) = 0) \<and>
     (cur_vmspace (vcm s) \<noteq> None \<and> 0 < n \<longrightarrow> p0 = vm_pid s)"

definition vm_inv :: "(int \<Rightarrow> nat) \<Rightarrow> 'f vmem \<Rightarrow> bool" where
  "vm_inv P s \<longleftrightarrow> frames_ok s \<and> 0 \<le> vm_pid s \<and> vm_pid s < 64 \<and> (\<forall>a. cur_vmspace (vcm s) = Some a \<longrightarrow> a = P (vm_pid s)) \<and> (\<exists>n p0. tlb_holds P s n p0)"

lemma tlb_holdsI:
  assumes "length (tlb s) = 64" and "n < 64" and "\<And>i. i < n \<Longrightarrow> tlb_valid (tlb s ! i) \<and> tlb_pid (tlb s ! i) = p0 \<and> tlb_maps s (P p0) (tlb s ! i)"
    and "\<And>i. n \<le> i \<Longrightarrow> i < 64 \<Longrightarrow> snd (tlb s ! i) = 0" and "cur_vmspace (vcm s) \<noteq> None \<Longrightarrow> 0 < n \<Longrightarrow> p0 = vm_pid s"
  shows "tlb_holds P s n p0"
  unfolding tlb_holds_def
proof (intro conjI allI impI assms(1,2))
  fix i assume "i < length (tlb s)"
  then have "i < 64" using assms(1) by (simp only:)
  then show "if i < n then tlb_valid (tlb s ! i) \<and> tlb_pid (tlb s ! i) = p0 \<and> tlb_maps s (P p0) (tlb s ! i) else snd (tlb s ! i) = 0"
    using assms(3,4) [of i] by (cases "i < n") auto
qed (use assms(5) in blast)

lemma tlb_holdsD:
  assumes "tlb_holds P s n p0"
  shows "length (tlb s) = 64" and "n < 64" and "i < n \<Longrightarrow> tlb_valid (tlb s ! i) \<and> tlb_pid (tlb s ! i) = p0 \<and> tlb_maps s (P p0) (tlb s ! i)"
    and "n \<le> i \<Longrightarrow> i < 64 \<Longrightarrow> snd (tlb s ! i) = 0" and "cur_vmspace (vcm s) \<noteq> None \<Longrightarrow> 0 < n \<Longrightarrow> p0 = vm_pid s"
proof -
  show len: "length (tlb s) = 64" "n < 64" using assms by (simp_all only: tlb_holds_def)
  have e: "if i < n then tlb_valid (tlb s ! i) \<and> tlb_pid (tlb s ! i) = p0 \<and> tlb_maps s (P p0) (tlb s ! i) else snd (tlb s ! i) = 0" if "i < 64" for i
    using assms that len(1) unfolding tlb_holds_def by metis
  show "tlb_valid (tlb s ! i) \<and> tlb_pid (tlb s ! i) = p0 \<and> tlb_maps s (P p0) (tlb s ! i)" if "i < n" using e [of i] that len(2) by simp
  show "snd (tlb s ! i) = 0" if "n \<le> i" "i < 64" using e [of i] that by simp
  show "p0 = vm_pid s" if "cur_vmspace (vcm s) \<noteq> None" "0 < n" using assms that unfolding tlb_holds_def by blast
qed

lemma tlb_holds_frame:
  assumes h: "tlb_holds P s n p0" and t: "tlb s' = tlb s" "vm_pid s' = vm_pid s" "cur_vmspace (vcm s') = cur_vmspace (vcm s)"
      "mem_start (vcm s') = mem_start (vcm s)" and e: "\<And>p. pte s (P p0) p \<noteq> 0 \<Longrightarrow> pte s' (P p0) p = pte s (P p0) p"
  shows "tlb_holds P s' n p0"
proof -
  have "tlb_maps s' (P p0) x" if m: "tlb_maps s (P p0) x" for x
  proof -
    obtain p i where p: "p < 2 ^ 19" "and (fst x) TLBHI_VPAGE = word_of_nat (p * 4096)" "i \<noteq> 0" "pte s (P p0) p = 2 * int i"
        "and (snd x) TLBHI_VPAGE = word_of_nat (mem_start (vcm s) + i * PAGE_SIZE)" using m unfolding tlb_maps_def by blast
    moreover have "pte s' (P p0) p = 2 * int i" using e [of p] p(3,4) by simp
    ultimately show ?thesis unfolding tlb_maps_def t(4) by blast
  qed
  then show ?thesis using tlb_holdsD [OF h] by (intro tlb_holdsI) (simp_all add: t)
qed

lemma vm_inv_frame:
  assumes i: "vm_inv P s" and f: "frames_ok s'" and t: "tlb s' = tlb s" "vm_pid s' = vm_pid s" "cur_vmspace (vcm s') = cur_vmspace (vcm s)"
      "mem_start (vcm s') = mem_start (vcm s)" and e: "\<And>a p. pte s a p \<noteq> 0 \<Longrightarrow> pte s' a p = pte s a p"
  shows "vm_inv P s'"
proof -
  obtain n p0 where "tlb_holds P s n p0" using i by (auto simp: vm_inv_def)
  from tlb_holds_frame [OF this t e] show ?thesis using i f t by (auto simp: vm_inv_def)
qed

lemma flush_nth: "i < NUM_TLB \<Longrightarrow> tlb (tlb_flush s) ! i = tlb_invalid i" "length (tlb (tlb_flush s)) = NUM_TLB"
  unfolding tlb_flush_def by (simp_all del: upt_rec_numeral)

lemma flush_holds: "tlb_holds P (tlb_flush s) 0 p0"
  by (rule tlb_holdsI) (simp_all add: flush_nth tlb_invalid_def)

lemma tlb_insert_ok:
  assumes h: "tlb_holds P s n p0" and cur: "cur_vmspace (vcm s) = Some (P (vm_pid s))"
    and e: "tlb_valid e" "tlb_pid e = vm_pid s" "tlb_maps s (P (vm_pid s)) e"
  shows "\<exists>t n'. tlb_insert e s = Some (s\<lparr>tlb := t\<rparr>) \<and> tlb_holds P (s\<lparr>tlb := t\<rparr>) n' (vm_pid s) \<and> e \<in> set t"
proof -
  note H = tlb_holdsD [OF h]
  have v: "tlb_valid (tlb s ! i) \<longleftrightarrow> i < n" if "i < 64" for i using H(3) [of i] H(4) [of i] that by (cases "i < n") (auto simp: tlb_valid_def)
  have fd: "find (\<lambda>i. \<not> tlb_valid (tlb s ! i)) [0..<NUM_TLB] = Some n"
    unfolding find_Some_iff by (rule exI [of _ n]) (use H(2) v in \<open>simp del: upt_rec_numeral\<close>)
  have mp: "tlb_maps (s\<lparr>tlb := t\<rparr>) a x = tlb_maps s a x" for t a x by (simp add: tlb_maps_def)
  show ?thesis
  proof (cases "n = 63")
    case True
    define t where "t = (tlb (tlb_flush s))[0 := e]"
    have nth: "t ! i = (if i = 0 then e else tlb_invalid i)" if "i < 64" for i
      using that flush_nth(1) [of i s] flush_nth(2) [of s] by (simp add: t_def nth_list_update)
    have len: "length t = 64" using flush_nth(2) by (simp add: t_def)
    have "tlb_insert e s = Some (s\<lparr>tlb := t\<rparr>)" using fd True by (simp add: tlb_insert_def t_def tlb_flush_def Let_def del: upt_rec_numeral)
    moreover have "tlb_holds P (s\<lparr>tlb := t\<rparr>) 1 (vm_pid s)"
      by (rule tlb_holdsI) (use e nth len in \<open>simp_all add: mp tlb_invalid_def\<close>)
    moreover have "e \<in> set t" using nth [of 0] nth_mem [of 0 t] len by simp
    ultimately show ?thesis by blast
  next
    case False
    define t where "t = (tlb s)[n := e]"
    have nth: "t ! i = (if i = n then e else tlb s ! i)" if "i < 64" for i using that H(1,2) by (simp add: t_def nth_list_update)
    have "tlb_insert e s = Some (s\<lparr>tlb := t\<rparr>)" using fd False by (simp add: tlb_insert_def t_def del: upt_rec_numeral)
    moreover have "tlb_holds P (s\<lparr>tlb := t\<rparr>) (n + 1) (vm_pid s)"
    proof (rule tlb_holdsI)
      have p0: "0 < n \<Longrightarrow> p0 = vm_pid s" using H(5) cur by simp
      show "tlb_valid (tlb (s\<lparr>tlb := t\<rparr>) ! i) \<and> tlb_pid (tlb (s\<lparr>tlb := t\<rparr>) ! i) = vm_pid s \<and> tlb_maps (s\<lparr>tlb := t\<rparr>) (P (vm_pid s)) (tlb (s\<lparr>tlb := t\<rparr>) ! i)"
        if "i < n + 1" for i using that nth [of i] H(2) H(3) [of i] e p0 by (cases "i = n") (auto simp: mp)
      show "snd (tlb (s\<lparr>tlb := t\<rparr>) ! i) = 0" if "n + 1 \<le> i" "i < 64" for i using that nth [of i] H(4) [of i] by simp
    qed (use H(1,2) False in \<open>simp_all add: t_def\<close>)
    moreover have "e \<in> set t" using H(1,2) by (simp add: t_def set_update_memI)
    ultimately show ?thesis by blast
  qed
qed

section \<open>Page faults\<close>

lemma frame_of_page:
  assumes "pte s a p = 2 * int i" and "i \<noteq> 0"
  shows "frame_of a (p * 4096) s = Some i" and "spaces s a \<noteq> None"
proof -
  have "pt_get a (p div 1024) (p mod 1024) s = Some (2 * int i)" using assms by (auto simp: pte_def pt_get_def split: option.splits)
  then show "frame_of a (p * 4096) s = Some i" using entry_halves [of i] by (simp add: frame_of_def page_index)
  show "spaces s a \<noteq> None" using assms by (auto simp: pte_def split: option.splits)
qed

text \<open>The TLB holds the page, writeable unless it is one of the text region.\<close>

definition mapped_page :: "'f vmem \<Rightarrow> nat \<Rightarrow> nat \<Rightarrow> bool" where
  "mapped_page s p i \<longleftrightarrow> (\<exists>e \<in> set (tlb s). tlb_valid e \<and> and (fst e) TLBHI_VPAGE = word_of_nat (p * 4096) \<and> tlb_pid e = vm_pid s \<and>
     and (snd e) TLBHI_VPAGE = word_of_nat (mem_start (vcm s) + i * PAGE_SIZE))"

lemma fault_map_ok:
  assumes i: "vm_inv P s" and cur: "cur_vmspace (vcm s) = Some a" and p: "p < 2 ^ 19" "pte s a p = 2 * int i" "3 \<le> i" "i < max_page_num (vcm s)"
  shows "\<exists>t. fault_map a (p * 4096) spl s = Some (s\<lparr>tlb := t, vm_spl := spl, paging_held := False\<rparr>) \<and>
    vm_inv P (s\<lparr>tlb := t, vm_spl := spl, paging_held := False\<rparr>) \<and> mapped_page (s\<lparr>tlb := t, vm_spl := spl, paging_held := False\<rparr>) p i"
proof -
  have f: "frames_ok s" and q: "0 \<le> vm_pid s" "vm_pid s < 64" and a: "a = P (vm_pid s)" using i cur by (auto simp: vm_inv_def)
  obtain n p0 where h: "tlb_holds P s n p0" using i by (auto simp: vm_inv_def)
  note ok = frames_okD(1) [OF f]
  have fr: "frame_of a (p * 4096) s = Some i" "spaces s a \<noteq> None" using frame_of_page [OF p(2)] p(3) by auto
  then obtain u where u: "spaces s a = Some u" by blast
  have cm: "cm_at i (vcm s) = Some (coremap (vcm s) ! i)" "pte_pa (coremap (vcm s) ! i) = mem_start (vcm s) + i * PAGE_SIZE"
    using cm_okD(4) [OF ok] cm_okD(8) [OF ok p(3,4)] p(4) by (simp_all add: cm_at_def)
  define d where "d = (if in_region (p * 4096) (as_vbase1 u) (as_npages1 u) then 0 else TLBLO_DIRTY)"
  define e where "e = (or (word_of_nat (p * 4096)) (word_of_int (vm_pid s * 64)) :: 32 word, or (or (word_of_nat (mem_start (vcm s) + i * PAGE_SIZE)) TLBLO_VALID) d)"
  obtain k where k: "mem_start (vcm s) = k * 4096" using cm_okD(6) [OF ok] by (metis mod_0_imp_dvd dvdE mult.commute)
  then have fa: "mem_start (vcm s) + i * PAGE_SIZE = (k + i) * 4096" by simp
  have d: "d = 0 \<or> d = TLBLO_DIRTY" by (simp add: d_def)
  have lo: "and (snd e) TLBHI_VPAGE = word_of_nat (mem_start (vcm s) + i * PAGE_SIZE)" "tlb_valid e"
    using entry_lo [OF d, of "k + i"] unfolding e_def fa tlb_valid_def by simp_all
  have hi: "and (fst e) TLBHI_VPAGE = word_of_nat (p * 4096)" "tlb_pid e = vm_pid s"
    using entry_hi [OF q, of p] unfolding e_def tlb_pid_def by simp_all
  have "tlb_maps s (P (vm_pid s)) e" unfolding tlb_maps_def using lo(1) hi(1) p(1,2,3) a by (intro exI [of _ p] exI [of _ i]) simp
  then obtain t n' where t: "tlb_insert e s = Some (s\<lparr>tlb := t\<rparr>)" "tlb_holds P (s\<lparr>tlb := t\<rparr>) n' (vm_pid s)" "e \<in> set t"
    using tlb_insert_ok [OF h _ lo(2) hi(2)] cur a by auto
  let ?s = "s\<lparr>tlb := t, vm_spl := spl, paging_held := False\<rparr>"
  have fm: "fault_map a (p * 4096) spl s = Some ?s" using t(1) u fr(1) cm by (simp add: fault_map_def e_def d_def)
  have "tlb_holds P ?s n' (vm_pid s)" by (rule tlb_holds_frame [OF t(2)]) simp_all
  moreover have "frames_ok ?s" by (rule frames_ok_sub [OF f]) (use ok in simp_all)
  ultimately have "vm_inv P ?s" using i by (auto simp: vm_inv_def)
  moreover have "mapped_page ?s p i" unfolding mapped_page_def using t(3) lo hi by (intro bexI [of _ e]) simp_all
  ultimately show ?thesis using fm by blast
qed

lemma paged_inv:
  assumes i: "vm_inv P s" and f: "frames_ok s'" and p: "paged a p k s s'"
  shows "vm_inv P s'"
  by (rule vm_inv_frame [OF i f]) (use p in \<open>auto simp: paged_def\<close>)

lemma alike_inv: "vm_inv P s \<Longrightarrow> alike s s' \<Longrightarrow> vm_inv P s'"
  by (rule vm_inv_frame) (auto simp: alike_def vm_inv_def intro: alike_frames)

lemma vm_fault_ok:
  assumes i: "vm_inv P s" and fa: "fa < 2 ^ 31" and mem: "mem = None \<or> mem = Some (\<lambda>_. 0)" and free: "used s \<noteq> {0..<max_page_num (vcm s)}"
    and r: "vm_fault ops mem ft fa s = Some (x, s')"
  shows "vm_inv P s'"
    and "x = Inr () \<Longrightarrow> \<exists>a k. cur_vmspace (vcm s) = Some a \<and> pte s' = (pte s)(a := (pte s a)(fa div 4096 := 2 * int k)) \<and>
      (pte s a (fa div 4096) = 2 * int k \<or> pte s a (fa div 4096) = 0 \<and> k \<notin> used s) \<and> 3 \<le> k \<and> k \<in> used s' \<and>
      mapped_page s' (fa div 4096) k \<and> vm_spl s' = vm_spl s \<and> \<not> paging_held s'"
proof -
  define p where "p = fa div 4096"
  have pf: "page_frame fa = p * 4096" by (simp add: page_frame_def p_def)
  have p: "p < 2 ^ 19" using fa by (simp add: p_def less_mult_imp_div_less)
  let ?s1 = "s\<lparr>paging_held := True, vm_spl := 15\<rparr>"
  have ok: "cm_ok (vcm s)" using i by (simp add: vm_inv_def frames_okD(1))
  have l: "alike s (s\<lparr>paging_held := b, vm_spl := n\<rparr>)" "alike s (s\<lparr>paging_held := b\<rparr>)" for b n using ok by (simp_all add: alike_def)
  note r = r [unfolded vm_fault_def Let_def pf]
  have "vm_inv P s' \<and> (x = Inr () \<longrightarrow> (\<exists>a k. cur_vmspace (vcm s) = Some a \<and> pte s' = (pte s)(a := (pte s a)(p := 2 * int k)) \<and>
      (pte s a p = 2 * int k \<or> pte s a p = 0 \<and> k \<notin> used s) \<and> 3 \<le> k \<and> k \<in> used s' \<and> mapped_page s' p k \<and> vm_spl s' = vm_spl s \<and> \<not> paging_held s'))"
  proof (cases "p * 4096 = 1073741824 \<or> ft \<noteq> 0 \<and> ft \<noteq> 1 \<or> cur_vmspace (vcm s) = None \<or> p = 0")
    case True
    then have "(\<exists>e. x = Inl e) \<and> (\<exists>b n. s' = s\<lparr>paging_held := b, vm_spl := n\<rparr> \<or> s' = s\<lparr>paging_held := b\<rparr>)"
      using r by (auto split: if_splits option.splits)
    then show ?thesis using alike_inv [OF i] l by auto
  next
    case False
    then obtain a where a: "cur_vmspace (vcm s) = Some a" by auto
    obtain s2 where s2: "space_upd a (\<lambda>u. if c_uint (p * 4096 + PAGE_SIZE) \<ge> as_stackvbase u then u\<lparr>as_stackvbase := p * 4096\<rparr> else u) ?s1 = Some s2"
        "try_k (fault_page ops mem a (p * 4096) s2) (\<lambda>_ s3. try_k (fault_load ops a (p * 4096) s3) (\<lambda>_ s4. do {
             s5 \<leftarrow> fault_map a (p * 4096) (vm_spl s) s4; Some (Inr (), s5) })) = Some (x, s')"
      using r False a by (auto split: Option.bind_splits if_splits)
    have sp: "pte s2 = pte s" "\<exists>y. s2 = ?s1\<lparr>spaces := y\<rparr>" using space_upd_pte [OF s2(1)] by simp_all
    then have l2: "alike s s2" using ok by (auto simp: alike_def)
    have i2: "vm_inv P s2" by (rule alike_inv [OF i l2])
    have f2: "frames_ok s2" and free2: "used s2 \<noteq> {0..<max_page_num (vcm s2)}" using i2 free l2 by (simp_all add: vm_inv_def alike_def)
    obtain y3 s3 where s3: "fault_page ops mem a (p * 4096) s2 = Some (y3, s3)" using s2(2) by (auto simp: try_k_def split: option.splits)
    note fp = fault_page_ok [OF f2 p mem free2 s3]
    obtain k where k: "paged a p k s2 s3" using fp(3) by blast
    have i3: "vm_inv P s3" by (rule paged_inv [OF i2 fp(2) k])
    then have ok3: "cm_ok (vcm s3)" by (simp add: vm_inv_def frames_okD(1))
    have s2': "try_k (fault_load ops a (p * 4096) s3) (\<lambda>_ s4. do { s5 \<leftarrow> fault_map a (p * 4096) (vm_spl s) s4; Some (Inr (), s5) }) = Some (x, s')"
      using s2(2) s3 fp(1) by (simp add: try_k_def)
    obtain y4 s4 where s4: "fault_load ops a (p * 4096) s3 = Some (y4, s4)" using s2' by (auto simp: try_k_def split: option.splits)
    note l4 = fault_load_alike(1) [OF s4 ok3]
    have i4: "vm_inv P s4" by (rule alike_inv [OF i3 l4])
    show ?thesis
    proof (cases y4)
      case (Inl e)
      then show ?thesis using s2' s4 i4 by auto
    next
      case (Inr y)
      have e4: "pte s4 = (pte s)(a := (pte s a)(p := 2 * int k))" "3 \<le> k" "k < max_page_num (vcm s4)" "cur_vmspace (vcm s4) = Some a" "k \<in> used s4"
          "pte s a p = 2 * int k \<or> pte s a p = 0 \<and> k \<notin> used s"
        using k l4 l2 a frames_okD(2) [OF fp(2), of a p] by (auto simp: paged_def alike_def)
      then have "pte s4 a p = 2 * int k" by simp
      from fault_map_ok [OF i4 e4(4) p this e4(2,3), of "vm_spl s"] obtain t where t:
          "fault_map a (p * 4096) (vm_spl s) s4 = Some (s4\<lparr>tlb := t, vm_spl := vm_spl s, paging_held := False\<rparr>)"
          "vm_inv P (s4\<lparr>tlb := t, vm_spl := vm_spl s, paging_held := False\<rparr>)" "mapped_page (s4\<lparr>tlb := t, vm_spl := vm_spl s, paging_held := False\<rparr>) p k" by blast
      have "s' = s4\<lparr>tlb := t, vm_spl := vm_spl s, paging_held := False\<rparr>" using s2' s4 Inr t(1) by (simp add: try_k_def)
      then show ?thesis using t(2,3) a e4 by auto
    qed
  qed
  then show "vm_inv P s'" "x = Inr () \<Longrightarrow> \<exists>a k. cur_vmspace (vcm s) = Some a \<and> pte s' = (pte s)(a := (pte s a)(fa div 4096 := 2 * int k)) \<and>
      (pte s a (fa div 4096) = 2 * int k \<or> pte s a (fa div 4096) = 0 \<and> k \<notin> used s) \<and> 3 \<le> k \<and> k \<in> used s' \<and>
      mapped_page s' (fa div 4096) k \<and> vm_spl s' = vm_spl s \<and> \<not> paging_held s'" unfolding p_def by simp_all
qed

end
