(* ===== verification/Vm_Steps.thy ===== *)
theory Vm_Steps
  imports Vm_Tlb
begin

text \<open>
  Address spaces and context switches keep the invariant of user memory; the steps of the memory of processes, and the states they reach.
\<close>

section \<open>Loading\<close>

lemma bind_SomeE: "Option.bind m k = Some y \<Longrightarrow> (\<And>x. m = Some x \<Longrightarrow> k x = Some y \<Longrightarrow> R) \<Longrightarrow> R"
  by (cases m) auto

text \<open>Only the address space \<open>a\<close> changes, and its frames.\<close>

definition only :: "nat \<Rightarrow> 'f vmem \<Rightarrow> 'f vmem \<Rightarrow> bool" where
  "only a s s' \<longleftrightarrow> frames_ok s' \<and> (\<forall>b. b \<noteq> a \<longrightarrow> pte s' b = pte s b) \<and> tlb s' = tlb s \<and> vm_pid s' = vm_pid s \<and>
     mem_start (vcm s') = mem_start (vcm s) \<and> cur_vmspace (vcm s') = cur_vmspace (vcm s)"

lemma only_trans: "only a s s' \<Longrightarrow> only a s' s'' \<Longrightarrow> only a s s''"
  by (simp add: only_def)

lemma alike_only: "frames_ok s \<Longrightarrow> alike s s' \<Longrightarrow> only a s s'"
  using alike_frames [of s s'] by (auto simp: only_def alike_def)

lemma load_page_index: "v mod 1024 + i < 1024 \<Longrightarrow> v div 1024 = (v + i) div 1024 \<and> v mod 1024 + i = (v + i) mod (1024 :: nat)"
proof -
  assume a: "v mod 1024 + i < 1024"
  define r where "r = v mod 1024 + i"
  have v: "v + i = r + v div 1024 * 1024" by (simp add: r_def)
  have "(v + i) div 1024 = v div 1024" "(v + i) mod 1024 = r" using a unfolding v r_def [symmetric] by simp_all
  then show ?thesis by (simp add: r_def)
qed

text \<open>One page of a region gets a frame.\<close>

lemma load_one:
  assumes f: "frames_ok s" and va: "(v + i) * 4096 < 2 ^ 31" and g: "get_singlepage (vcm s) = Some (temp, ix, c)" and t: "temp \<noteq> 0"
    and n: "(if i = 0 then cm_do (cm_upd (case ix of Some k \<Rightarrow> k | None \<Rightarrow> index) (\<lambda>e. e\<lparr>pte_npages := np\<rparr>)) (s\<lparr>vcm := c\<rparr>) else Some (s\<lparr>vcm := c\<rparr>)) = Some s1"
    and e: "pt_set a (v div 1024) (v mod 1024 + i) (c_int (int (case ix of Some k \<Rightarrow> k | None \<Rightarrow> index) * 2)) s1 = Some s2"
    and p: "cm_do (pt_insert ((v + i) * 4096) temp) s2 = Some s3"
  shows "only a s s3"
proof -
  note ok = frames_okD(1) [OF f]
  have "bitmap_used (gbl_bmp (vcm s)) \<noteq> {0..<max_page_num (vcm s)}"
  proof
    assume "bitmap_used (gbl_bmp (vcm s)) = {0..<max_page_num (vcm s)}"
    then show False using singlepage_ok [OF ok] g t by auto
  qed
  from get_frame [OF ok this] obtain k where k: "temp = mem_start (vcm s) + k * PAGE_SIZE" "ix = Some k" "3 \<le> k" "k < max_page_num (vcm s)" "k \<notin> used s"
      "cm_step {k} (vcm s) c" "bitmap_used (gbl_bmp c) = insert k (used s)" "cur_vmspace c = cur_vmspace (vcm s)" "c_int (int k * 2) = 2 * int k"
    using g by auto
  have okc: "cm_ok c" using k(6) by (simp add: cm_step_def)
  have c1: "\<exists>c1. s1 = s\<lparr>vcm := c1\<rparr> \<and> cm_step {k} (vcm s) c1 \<and> gbl_bmp c1 = gbl_bmp c \<and> cur_vmspace c1 = cur_vmspace c"
  proof (cases "i = 0")
    case True
    then obtain c1 where c1: "cm_upd k (\<lambda>e. e\<lparr>pte_npages := np\<rparr>) c = Some c1" "s1 = s\<lparr>vcm := c1\<rparr>" using n k(2) by (auto simp: cm_do_def)
    note fl = flag_step [OF okc c1(1)]
    have "cm_step {k} (vcm s) c1" using k(6) fl c1(1) by (auto simp: cm_step_def cm_upd_def nth_list_update split: if_splits)
    then show ?thesis using fl(4,5) c1(2) by auto
  next
    case False
    then show ?thesis using n k(6) by auto
  qed
  then obtain c1 where c1: "s1 = s\<lparr>vcm := c1\<rparr>" "cm_step {k} (vcm s) c1" "gbl_bmp c1 = gbl_bmp c" "cur_vmspace c1 = cur_vmspace c" by blast
  have lt: "v mod 1024 + i < 1024" using e by (auto simp: pt_set_def split: Option.bind_splits if_splits)
  have e': "pt_set a ((v + i) div 1024) ((v + i) mod 1024) (2 * int k) s1 = Some s2" using e k(2,9) load_page_index [OF lt] by simp
  obtain c2 where c2: "pt_insert ((v + i) * 4096) (mem_start (vcm s) + k * PAGE_SIZE) (vcm s2) = Some c2" "s3 = s2\<lparr>vcm := c2\<rparr>"
    using p k(1) by (auto simp: cm_do_def)
  obtain y where y: "s2 = s1\<lparr>spaces := y\<rparr>" using pt_set_pte(2) [OF e'] by blast
  have e2: "pte s2 = (pte s)(a := (pte s a)(v + i := 2 * int k))" using pt_set_pte(1) [OF e'] c1(1) by simp
  have va': "(v + i) * 4096 < MIPS_KSEG0" using va by simp
  have v2: "vcm s2 = c1" using y c1(1) by simp
  note en = frame_entered [OF f c1(2) _ _ k(3,4,5) va' c2(1) v2 e2]
  have u: "bitmap_used (gbl_bmp c1) = insert k (used s)" "cur_vmspace c1 = cur_vmspace (vcm s)" using c1(3,4) k(7,8) by simp_all
  note en = en [OF u]
  have o: "tlb s3 = tlb s" "vm_pid s3 = vm_pid s" "vcm s3 = c2" using c2(2) y c1(1) by simp_all
  have "pte s3 = pte s2" using c2(2) by simp
  then show ?thesis unfolding only_def using en o e2 c2(2) by simp
qed

text \<open>One pass of the loop that succeeds.\<close>

lemma load_pages_ConsE:
  assumes "load_pages ops a data vb np fsz off setp (i # js) ix s = Some (Inr jx, s')"
  obtains temp iy c s1 s2 s3 s4 u where "get_singlepage (vcm s) = Some (temp, iy, c)"
      "(if i = 0 then cm_do (cm_upd (case iy of Some k \<Rightarrow> k | None \<Rightarrow> ix) (\<lambda>e. e\<lparr>pte_npages := np\<rparr>)) (s\<lparr>vcm := c\<rparr>) else Some (s\<lparr>vcm := c\<rparr>)) = Some s1"
      "pt_set a (top10 vb) (btm10 vb + i) (c_int (int (case iy of Some k \<Rightarrow> k | None \<Rightarrow> ix) * 2)) s1 = Some s2" "temp \<noteq> 0"
      "cm_do (pt_insert (c_uint (vb + i * PAGE_SIZE)) temp) s2 = Some s3" "(if i = 0 then space_upd a (setp temp) s3 else Some s3) = Some s4" "spaces s4 a = Some u"
      "(if data \<and> fsz = 0 then load_pages ops a data vb np fsz off setp js (case iy of Some k \<Rightarrow> k | None \<Rightarrow> ix) s4
        else try_k (page_read ops (as_vnode u) (c_uint (off + i * PAGE_SIZE)) (PADDR_TO_KVADDR temp) PAGE_SIZE (c_usub fsz (i * PAGE_SIZE)) s4)
          (\<lambda>_ s5. load_pages ops a data vb np fsz off setp js (case iy of Some k \<Rightarrow> k | None \<Rightarrow> ix) s5)) = Some (Inr jx, s')"
  using assms unfolding load_pages.simps Let_def by (elim bind_SomeE) (auto split: if_splits elim!: bind_SomeE)

lemma load_pages_ok:
  assumes "load_pages ops a data (v * 4096) np fsz off setp is ix s = Some (Inr jx, s')" and "frames_ok s"
    and "\<And>i. i \<in> set is \<Longrightarrow> (v + i) * 4096 < 2 ^ 31" and "\<And>t u. firstpt (setp t u) = firstpt u"
  shows "only a s s'"
  using assms
proof (induction "is" arbitrary: ix s)
  case Nil
  then show ?case by (simp add: only_def)
next
  case (Cons i js)
  have va: "(v + i) * 4096 < 2 ^ 31" and cu: "c_uint (v * 4096 + i * PAGE_SIZE) = (v + i) * 4096"
    using Cons.prems(3) [of i] by (simp_all add: c_uint_id algebra_simps)
  obtain temp iy c s1 s2 s3 s4 u where g: "get_singlepage (vcm s) = Some (temp, iy, c)"
      "(if i = 0 then cm_do (cm_upd (case iy of Some k \<Rightarrow> k | None \<Rightarrow> ix) (\<lambda>e. e\<lparr>pte_npages := np\<rparr>)) (s\<lparr>vcm := c\<rparr>) else Some (s\<lparr>vcm := c\<rparr>)) = Some s1"
      "pt_set a (v div 1024) (v mod 1024 + i) (c_int (int (case iy of Some k \<Rightarrow> k | None \<Rightarrow> ix) * 2)) s1 = Some s2" "temp \<noteq> 0"
      "cm_do (pt_insert ((v + i) * 4096) temp) s2 = Some s3" "(if i = 0 then space_upd a (setp temp) s3 else Some s3) = Some s4" "spaces s4 a = Some u"
      and rest: "(if data \<and> fsz = 0 then load_pages ops a data (v * 4096) np fsz off setp js (case iy of Some k \<Rightarrow> k | None \<Rightarrow> ix) s4
        else try_k (page_read ops (as_vnode u) (c_uint (off + i * PAGE_SIZE)) (PADDR_TO_KVADDR temp) PAGE_SIZE (c_usub fsz (i * PAGE_SIZE)) s4)
          (\<lambda>_ s5. load_pages ops a data (v * 4096) np fsz off setp js (case iy of Some k \<Rightarrow> k | None \<Rightarrow> ix) s5)) = Some (Inr jx, s')"
    by (rule load_pages_ConsE [OF Cons.prems(1), unfolded page_index cu])
  have o3: "only a s s3" by (rule load_one [OF Cons.prems(2) va g(1,4,2,3,5)])
  have l4: "alike s3 s4"
  proof (cases "i = 0")
    case True
    then have "space_upd a (setp temp) s3 = Some s4" using g(6) by simp
    from space_upd_pte [OF this Cons.prems(4)] show ?thesis using o3 frames_okD(1) by (auto simp: alike_def only_def)
  next
    case False
    then show ?thesis using g(6) o3 frames_okD(1) by (auto simp: alike_def only_def)
  qed
  then have ok4: "cm_ok (vcm s4)" by (simp add: alike_def)
  obtain iz s5 where s5: "alike s4 s5" "load_pages ops a data (v * 4096) np fsz off setp js iz s5 = Some (Inr jx, s')"
  proof (cases "data \<and> fsz = 0")
    case True
    then show ?thesis using that [OF alike_refl [OF ok4]] rest by simp
  next
    case False
    then obtain y s5 where "page_read ops (as_vnode u) (c_uint (off + i * PAGE_SIZE)) (PADDR_TO_KVADDR temp) PAGE_SIZE (c_usub fsz (i * PAGE_SIZE)) s4 = Some (Inr y, s5)"
        "load_pages ops a data (v * 4096) np fsz off setp js (case iy of Some k \<Rightarrow> k | None \<Rightarrow> ix) s5 = Some (Inr jx, s')"
      using rest by (auto simp: try_k_eq_Inr)
    then show ?thesis using that page_read_alike(1) ok4 by blast
  qed
  have o5: "only a s s5" using only_trans [OF o3 alike_only [OF _ alike_trans [OF l4 s5(1)]]] o3 by (simp add: only_def)
  have "only a s5 s'" by (rule Cons.IH [OF s5(2)]) (use o5 Cons.prems(3,4) in \<open>auto simp: only_def\<close>)
  then show ?case using only_trans [OF o5] by blast
qed

text \<open>An address space without pages has no entries in the TLB.\<close>

lemma only_inv:
  assumes i: "vm_inv P s" and o: "only a s s'" and z: "\<And>p. pte s a p = 0"
  shows "vm_inv P s'"
proof (rule vm_inv_frame [OF i])
  show "pte s' b p = pte s b p" if "pte s b p \<noteq> 0" for b p using o that z [of p] by (cases "b = a") (simp_all add: only_def)
qed (use o in \<open>simp_all add: only_def\<close>)

lemma pt_new_only:
  assumes f: "frames_ok s" and r: "pt_new a t (Some (\<lambda>_. 0)) s = Some s'"
  shows "only a s s'"
proof -
  obtain y where y: "s' = s\<lparr>spaces := y\<rparr>" using pt_new_pte(2) [OF r] by blast
  have "frames_ok s'" by (rule frames_ok_sub [OF f]) (use y frames_okD(1) [OF f] pt_new_pte(1) [OF r] in \<open>auto split: if_splits\<close>)
  then show ?thesis using y pt_new_pte(1) [OF r] by (auto simp: only_def fun_eq_iff)
qed

lemma as_prepare_load_ok:
  assumes i: "vm_inv P s" and u: "spaces s a = Some u" and z: "\<And>p. pte s a p = 0"
    and al: "as_vbase1 u mod PAGE_SIZE = 0" "as_vbase2 u mod PAGE_SIZE = 0"
    and lim: "as_vbase1 u + as_npages1 u * PAGE_SIZE \<le> 2 ^ 31" "as_vbase2 u + as_npages2 u * PAGE_SIZE \<le> 2 ^ 31"
    and r: "as_prepare_load ops (Some (\<lambda>_. 0)) (Some (\<lambda>_. 0)) junk a s = Some (Inr (), s')"
  shows "vm_inv P s'" and "only a s s'"
proof -
  obtain v w where vw: "as_vbase1 u = v * 4096" "as_vbase2 u = w * 4096" using al by (metis mod_0_imp_dvd dvdE mult.commute)
  have f: "frames_ok s" using i by (simp add: vm_inv_def)
  have lt: "(v + i) * 4096 < 2 ^ 31" if "i \<in> set [0..<as_npages1 u]" for i
  proof -
    have "i + 1 \<le> as_npages1 u" using that by simp
    then have "(v + i) * 4096 + 4096 \<le> v * 4096 + as_npages1 u * 4096" by (simp add: algebra_simps)
    then show ?thesis using lim(1) vw(1) by simp
  qed
  have lt2: "(w + i) * 4096 < 2 ^ 31" if "i \<in> set [0..<as_npages2 u]" for i
  proof -
    have "i + 1 \<le> as_npages2 u" using that by simp
    then have "(w + i) * 4096 + 4096 \<le> w * 4096 + as_npages2 u * 4096" by (simp add: algebra_simps)
    then show ?thesis using lim(2) vw(2) by simp
  qed
  obtain s1 s2 s3 ix jx where st: "pt_new a (top10 (as_vbase1 u)) (Some (\<lambda>_. 0)) s = Some s1"
      "load_pages ops a False (v * 4096) (as_npages1 u) (filesize_text u) (off_text u) (\<lambda>p u. u\<lparr>as_pbase1 := p\<rparr>) [0..<as_npages1 u] junk s1 = Some (Inr ix, s2)"
      "pt_new a (top10 (as_vbase2 u)) (Some (\<lambda>_. 0)) s2 = Some s3"
      "load_pages ops a True (w * 4096) (as_npages2 u) (filesize_data u) (off_data u) (\<lambda>p u. u\<lparr>as_pbase2 := p\<rparr>) [0..<as_npages2 u] ix s3 = Some (Inr jx, s')"
    using r u vw by (auto simp: as_prepare_load_def try_k_eq_Inr elim!: bind_SomeE)
  have o1: "only a s s1" by (rule pt_new_only [OF f st(1)])
  then have f1: "frames_ok s1" by (simp add: only_def)
  have o2: "only a s1 s2" by (rule load_pages_ok [OF st(2) f1 lt]) simp_all
  then have f2: "frames_ok s2" by (simp add: only_def)
  have o3: "only a s2 s3" by (rule pt_new_only [OF f2 st(3)])
  then have f3: "frames_ok s3" by (simp add: only_def)
  have o4: "only a s3 s'" by (rule load_pages_ok [OF st(4) f3 lt2]) simp_all
  show o: "only a s s'" using only_trans [OF only_trans [OF only_trans [OF o1 o2] o3] o4] .
  show "vm_inv P s'" by (rule only_inv [OF i o z])
qed

section \<open>Creating, defining, destroying\<close>

lemma as_create_ok:
  assumes i: "vm_inv P s" and f: "\<And>a u. mem = Some (a, u) \<Longrightarrow> spaces s a = None" and r: "as_create mem (Some (\<lambda>_. None)) s = (x, s')"
  shows "vm_inv P s'"
proof -
  have "alike s s'"
  proof (cases mem)
    case None
    then show ?thesis using r i by (simp add: as_create_def alike_def vm_inv_def frames_okD(1))
  next
    case (Some au)
    obtain a u where au: "au = (a, u)" by force
    have n: "spaces s a = None" using f Some au by simp
    obtain u' where s': "s' = s\<lparr>spaces := (spaces s)(a \<mapsto> u')\<rparr>" "firstpt u' = (\<lambda>_. None)" using r Some au by (auto simp: as_create_def)
    have "pte s' b p = pte s b p" for b p using s' n by (cases "b = a") (simp_all add: pte_def)
    then show ?thesis using s'(1) i by (simp add: alike_def vm_inv_def frames_okD(1) fun_eq_iff)
  qed
  then show ?thesis by (rule alike_inv [OF i])
qed

lemma as_define_region_ok:
  assumes i: "vm_inv P s" and r: "as_define_region ops a va sz fsz prot v off s = Some (x, s')"
  shows "vm_inv P s'"
proof -
  have ok: "cm_ok (vcm s)" using i by (simp add: vm_inv_def frames_okD(1))
  have "alike s s'"
  proof (cases "s' = s")
    case True
    then show ?thesis using alike_refl [OF ok] by simp
  next
    case False
    then obtain f g where g: "space_upd a g (s\<lparr>vm_files := f\<rparr>) = Some s'" "\<And>u. firstpt (g u) = firstpt u"
      using r by (auto simp: as_define_region_def Let_def elim!: bind_SomeE split: if_splits)
    show ?thesis using space_upd_pte [OF g] ok by (auto simp: alike_def)
  qed
  then show ?thesis by (rule alike_inv [OF i])
qed

text \<open>The frames of one table, of the tables.\<close>

lemma destroy_pt_ok:
  assumes "destroy_pt pt js c = Some c'" and "cm_ok c" and "distinct js"
    and "\<And>j. j \<in> set js \<Longrightarrow> pt j \<noteq> 0 \<Longrightarrow> \<exists>i. pt j = 2 * int i \<and> 3 \<le> i \<and> i < max_page_num c \<and> i \<in> bitmap_used (gbl_bmp c)"
    and "\<And>j k. j \<in> set js \<Longrightarrow> k \<in> set js \<Longrightarrow> pt j = pt k \<Longrightarrow> pt j \<noteq> 0 \<Longrightarrow> j = k"
  shows "cm_step {i. i \<noteq> 0 \<and> (\<exists>j \<in> set js. pt j = 2 * int i)} c c' \<and> cur_vmspace c' = cur_vmspace c"
  using assms
proof (induction js arbitrary: c)
  case Nil
  then show ?case by (simp add: cm_step_refl)
next
  case (Cons j js)
  show ?case
  proof (cases "pt j = 0")
    case True
    then have d: "destroy_pt pt js c = Some c'" using Cons.prems(1) by simp
    have "cm_step {i. i \<noteq> 0 \<and> (\<exists>j \<in> set js. pt j = 2 * int i)} c c' \<and> cur_vmspace c' = cur_vmspace c"
      by (rule Cons.IH [OF d Cons.prems(2)]) (use Cons.prems(3-5) in auto)
    then show ?thesis by (auto intro: cm_step_mono)
  next
    case False
    then obtain i where i: "pt j = 2 * int i" "3 \<le> i" "i < max_page_num c" "i \<in> bitmap_used (gbl_bmp c)" using Cons.prems(4) [of j] by auto
    obtain c1 where c1: "coremap_remove (pte_pa (coremap c ! i)) i c = Some c1" "cm_step {i} c c1" "bitmap_used (gbl_bmp c1) = bitmap_used (gbl_bmp c) - {i}"
      using coremap_remove_ok [OF Cons.prems(2) i(2-4)] by blast
    have d: "destroy_pt pt js c1 = Some c'"
      using Cons.prems(1) i c1(1) entry_halves(2) [of i] cm_okD(4) [OF Cons.prems(2)] by (simp add: cm_at_def)
    have m1: "max_page_num c1 = max_page_num c" "cm_ok c1" using c1(2) by (auto simp: cm_step_def)
    have "cm_step {i. i \<noteq> 0 \<and> (\<exists>j \<in> set js. pt j = 2 * int i)} c1 c' \<and> cur_vmspace c' = cur_vmspace c1"
    proof (rule Cons.IH [OF d m1(2)])
      show "\<exists>l. pt k = 2 * int l \<and> 3 \<le> l \<and> l < max_page_num c1 \<and> l \<in> bitmap_used (gbl_bmp c1)" if k: "k \<in> set js" "pt k \<noteq> 0" for k
      proof -
        obtain l where l: "pt k = 2 * int l" "3 \<le> l" "l < max_page_num c" "l \<in> bitmap_used (gbl_bmp c)" using Cons.prems(4) [of k] k by auto
        have "k \<noteq> j" using k(1) Cons.prems(3) by auto
        then have "l \<noteq> i" using Cons.prems(5) [of k j] k l(1) i(1) by auto
        then show ?thesis using l m1(1) c1(3) by auto
      qed
    qed (use Cons.prems(3,5) in auto)
    then have r: "cm_step {i. i \<noteq> 0 \<and> (\<exists>j \<in> set (j # js). pt j = 2 * int i)} c1 c'" "cur_vmspace c' = cur_vmspace c1" by (auto intro: cm_step_mono)
    have "cm_step {i. i \<noteq> 0 \<and> (\<exists>j \<in> set (j # js). pt j = 2 * int i)} c c1" by (rule cm_step_mono [OF c1(2)]) (use i(1,2) in auto)
    from cm_step_trans [OF this r(1)] show ?thesis using r(2) cur_remove [OF c1(1)] by simp
  qed
qed

definition pt_frames :: "(nat \<Rightarrow> page_table option) \<Rightarrow> nat set \<Rightarrow> nat set" where
  "pt_frames first T = {i. i \<noteq> 0 \<and> (\<exists>t \<in> T. \<exists>pt j. first t = Some pt \<and> j < 1024 \<and> pt j = 2 * int i)}"

lemma destroy_pts_ok:
  assumes "destroy_pts first is c = Some c'" and "cm_ok c" and "distinct is"
    and "\<And>t pt j. t \<in> set is \<Longrightarrow> first t = Some pt \<Longrightarrow> j < 1024 \<Longrightarrow> pt j \<noteq> 0 \<Longrightarrow>
      \<exists>i. pt j = 2 * int i \<and> 3 \<le> i \<and> i < max_page_num c \<and> i \<in> bitmap_used (gbl_bmp c)"
    and "\<And>t pt j u qt k. t \<in> set is \<Longrightarrow> u \<in> set is \<Longrightarrow> first t = Some pt \<Longrightarrow> first u = Some qt \<Longrightarrow> j < 1024 \<Longrightarrow> k < 1024 \<Longrightarrow>
      pt j = qt k \<Longrightarrow> pt j \<noteq> 0 \<Longrightarrow> t = u \<and> j = k"
  shows "cm_step (pt_frames first (set is)) c c' \<and> cur_vmspace c' = cur_vmspace c"
  using assms
proof (induction "is" arbitrary: c)
  case Nil
  then show ?case by (simp add: cm_step_refl)
next
  case (Cons t ts)
  have sub: "pt_frames first (set ts) \<subseteq> pt_frames first (set (t # ts))" by (auto simp: pt_frames_def)
  show ?case
  proof (cases "first t")
    case None
    then have d: "destroy_pts first ts c = Some c'" using Cons.prems(1) by simp
    have "cm_step (pt_frames first (set ts)) c c' \<and> cur_vmspace c' = cur_vmspace c"
    proof (rule Cons.IH [OF d Cons.prems(2)])
      show "distinct ts" using Cons.prems(3) by simp
    qed (use Cons.prems(4,5) in \<open>meson list.set_intros(2)\<close>)+
    then show ?thesis using cm_step_mono [OF _ sub] by blast
  next
    case (Some pt)
    then obtain c1 where c1: "destroy_pt pt [0..<1024] c = Some c1" "destroy_pts first ts c1 = Some c'"
      using Cons.prems(1) by (auto simp del: upt_rec_numeral elim!: bind_SomeE)
    have "cm_step {i. i \<noteq> 0 \<and> (\<exists>j \<in> set [0..<1024]. pt j = 2 * int i)} c c1 \<and> cur_vmspace c1 = cur_vmspace c"
      by (rule destroy_pt_ok [OF c1(1) Cons.prems(2)]) (use Cons.prems(4) [of t pt] Cons.prems(5) [of t t pt pt] Some in \<open>auto simp del: upt_rec_numeral\<close>)
    moreover have "{i. i \<noteq> 0 \<and> (\<exists>j \<in> set [0..<1024]. pt j = 2 * int i)} = pt_frames first {t}"
      using Some by (auto simp: pt_frames_def simp del: upt_rec_numeral)
    ultimately have s1: "cm_step (pt_frames first {t}) c c1" "cur_vmspace c1 = cur_vmspace c" by simp_all
    have m1: "max_page_num c1 = max_page_num c" "cm_ok c1" using s1(1) by (simp_all add: cm_step_def)
    have u1: "k \<in> bitmap_used (gbl_bmp c1)" if "k \<notin> pt_frames first {t}" "k \<in> bitmap_used (gbl_bmp c)" for k
      using s1(1) that by (simp add: cm_step_def)
    have "cm_step (pt_frames first (set ts)) c1 c' \<and> cur_vmspace c' = cur_vmspace c1"
    proof (rule Cons.IH [OF c1(2) m1(2)])
      show "distinct ts" using Cons.prems(3) by simp
      show "\<exists>i. qt j = 2 * int i \<and> 3 \<le> i \<and> i < max_page_num c1 \<and> i \<in> bitmap_used (gbl_bmp c1)"
        if q: "u \<in> set ts" "first u = Some qt" "j < 1024" "qt j \<noteq> 0" for u qt j
      proof -
        obtain i where i: "qt j = 2 * int i" "3 \<le> i" "i < max_page_num c" "i \<in> bitmap_used (gbl_bmp c)" using Cons.prems(4) [OF _ q(2-4)] q(1) by auto
        have "i \<notin> pt_frames first {t}"
        proof
          assume "i \<in> pt_frames first {t}"
          then obtain k where k: "k < 1024" "pt k = 2 * int i" using Some by (auto simp: pt_frames_def)
          then have "u = t" using Cons.prems(5) [OF _ _ q(2) Some q(3) k(1)] q(1,4) i(1) by simp
          then show False using q(1) Cons.prems(3) by simp
        qed
        then show ?thesis using i u1 m1(1) by auto
      qed
    qed (use Cons.prems(5) in \<open>meson list.set_intros(2)\<close>)
    then have r: "cm_step (pt_frames first (set (t # ts))) c1 c'" "cur_vmspace c' = cur_vmspace c1" using cm_step_mono [OF _ sub] by blast+
    have "cm_step (pt_frames first (set (t # ts))) c c1" by (rule cm_step_mono [OF s1(1)]) (auto simp: pt_frames_def)
    from cm_step_trans [OF this r(1)] show ?thesis using r(2) s1(2) by simp
  qed
qed

text \<open>A running process that gives up its address space.\<close>

definition tlb_empty :: "'f vmem \<Rightarrow> bool" where
  "tlb_empty s \<longleftrightarrow> length (tlb s) = NUM_TLB \<and> (\<forall>e \<in> set (tlb s). snd e = 0)"

lemma empty_nth: "tlb_empty s \<Longrightarrow> i < NUM_TLB \<Longrightarrow> snd (tlb s ! i) = 0"
  by (metis nth_mem tlb_empty_def)

lemma empty_holds: "tlb_empty s \<Longrightarrow> tlb_holds P s 0 p0"
  by (rule tlb_holdsI) (auto simp: empty_nth, simp add: tlb_empty_def)

lemma flush_empty: "tlb_empty (tlb_flush s)"
  unfolding tlb_empty_def by (auto simp: in_set_conv_nth flush_nth tlb_invalid_def)

lemma flush_own_empty:
  assumes h: "tlb_holds P s n p0" and cur: "cur_vmspace (vcm s) \<noteq> None"
  shows "tlb_empty (tlb_flush_own s)"
proof (cases "n = 0")
  case True
  have z: "snd (tlb s ! i) = 0" if "i < 64" for i using tlb_holdsD(4) [OF h, of i] True that by simp
  then have "tlb_flush_own s = s" by (simp add: tlb_flush_own_def)
  moreover have "tlb_empty s" unfolding tlb_empty_def using z tlb_holdsD(1) [OF h] by (metis in_set_conv_nth)
  ultimately show ?thesis by simp
next
  case False
  then have "tlb_valid (tlb s ! 0)" "tlb_pid (tlb s ! 0) = vm_pid s" using tlb_holdsD(3) [OF h, of 0] tlb_holdsD(5) [OF h cur] by auto
  then have "tlb_flush_own s = tlb_flush s" by (auto simp: tlb_flush_own_def tlb_valid_def)
  then show ?thesis using flush_empty [of s] by simp
qed

lemma flush_own_idle: "tlb_empty s \<Longrightarrow> tlb_flush_own s = s"
  using empty_nth [of s 0] by (simp add: tlb_flush_own_def)

lemma flush_own_fields:
  "vcm (tlb_flush_own s) = vcm s" "spaces (tlb_flush_own s) = spaces s" "vm_pid (tlb_flush_own s) = vm_pid s"
  by (simp_all add: tlb_flush_own_def tlb_flush_def del: upt_rec_numeral)

lemma as_destroy_ok:
  assumes i: "vm_inv P s" and cur: "cur_vmspace (vcm s) = Some a" and r: "as_destroy ops a s = Some s'"
  shows "vm_inv P (s'\<lparr>vcm := (vcm s')\<lparr>cur_vmspace := None\<rparr>\<rparr>)" and "\<And>b. b \<noteq> a \<Longrightarrow> pte s' b = pte s b" and "\<And>p. pte s' a p = 0"
proof -
  have f: "frames_ok s" and q: "0 \<le> vm_pid s" "vm_pid s < 64" using i by (auto simp: vm_inv_def)
  obtain n p0 where h: "tlb_holds P s n p0" using i by (auto simp: vm_inv_def)
  obtain u f2 s1 where u: "spaces s a = Some u" and r': "cm_do (destroy_pts (firstpt u) [1..<1024]) (tlb_flush_own (s\<lparr>vm_files := f2\<rparr>)) = Some s1"
      "s' = tlb_flush_own (s1\<lparr>spaces := (spaces s1)(a := None)\<rparr>)"
    using r by (auto simp: as_destroy_def simp del: upt_rec_numeral elim!: bind_SomeE)
  define w where "w = tlb_flush_own (s\<lparr>vm_files := f2\<rparr>)"
  have "tlb_holds P (s\<lparr>vm_files := f2\<rparr>) n p0" by (rule tlb_holds_frame [OF h]) simp_all
  then have we: "tlb_empty w" unfolding w_def using cur by (intro flush_own_empty) simp_all
  have wf: "vcm w = vcm s" "spaces w = spaces s" "vm_pid w = vm_pid s" unfolding w_def by (simp_all add: flush_own_fields)
  obtain c where c: "destroy_pts (firstpt u) [1..<1024] (vcm s) = Some c" "s' = tlb_flush_own (w\<lparr>vcm := c, spaces := (spaces s)(a := None)\<rparr>)"
    using r' wf unfolding w_def [symmetric] by (auto simp: cm_do_def simp del: upt_rec_numeral)
  have s': "s' = w\<lparr>vcm := c, spaces := (spaces s)(a := None)\<rparr>" using c(2) flush_own_idle [of "w\<lparr>vcm := c, spaces := (spaces s)(a := None)\<rparr>"] we by (simp add: tlb_empty_def)
  have pe: "pt j = pte s a (t * 1024 + j)" if "firstpt u t = Some pt" "j < 1024" for t pt j using u that by (simp add: pte_def)
  note D = frames_okD [OF f]
  have ds: "cm_step (pt_frames (firstpt u) (set [1..<1024])) (vcm s) c \<and> cur_vmspace c = cur_vmspace (vcm s)"
  proof (rule destroy_pts_ok [OF c(1) D(1)])
    show "\<exists>i. pt j = 2 * int i \<and> 3 \<le> i \<and> i < max_page_num (vcm s) \<and> i \<in> used s" if "firstpt u t = Some pt" "j < 1024" "pt j \<noteq> 0" for t pt j
      using D(2) [of a "t * 1024 + j"] pe [OF that(1,2)] that(3) by simp
    show "t = t' \<and> j = k" if "firstpt u t = Some pt" "firstpt u t' = Some qt" "j < 1024" "k < 1024" "pt j = qt k" "pt j \<noteq> 0" for t pt j t' qt k
    proof -
      have e: "t * 1024 + j = t' * 1024 + k" using D(3) [of a "t * 1024 + j" a "t' * 1024 + k"] pe [OF that(1,3)] pe [OF that(2,4)] that(5,6) by simp
      have "(t * 1024 + j) div 1024 = t" "(t' * 1024 + k) div 1024 = t'" using that(3,4) by simp_all
      then show ?thesis using e by simp
    qed
  qed simp
  have po: "pte s' b p = (if b = a then 0 else pte s b p)" for b p using s' wf(2) by (simp add: pte_def)
  then show "\<And>b. b \<noteq> a \<Longrightarrow> pte s' b = pte s b" "\<And>p. pte s' a p = 0" by (simp_all add: fun_eq_iff)
  let ?s = "s'\<lparr>vcm := (vcm s')\<lparr>cur_vmspace := None\<rparr>\<rparr>"
  have cs: "vcm s' = c" "tlb s' = tlb w" "vm_pid s' = vm_pid s" using s' wf by simp_all
  have "frames_ok ?s"
  proof (rule frames_ok_sub [OF f])
    show "cm_ok (vcm ?s)" "max_page_num (vcm ?s) = max_page_num (vcm s)" using ds cs(1) by (simp_all add: cm_step_def)
    show "pte ?s b p = pte s b p" if "pte ?s b p \<noteq> 0" for b p using that po by (simp split: if_splits)
    show "k \<in> used ?s" if k: "pte ?s b p = 2 * int k" "k \<noteq> 0" "k \<in> used s" for b p k
    proof -
      have b: "b \<noteq> a" "pte s b p = 2 * int k" using k(1,2) po [of b p] by (auto split: if_splits)
      have "k \<notin> pt_frames (firstpt u) (set [1..<1024])"
      proof
        assume "k \<in> pt_frames (firstpt u) (set [1..<1024])"
        then obtain t pt j where "firstpt u t = Some pt" "j < 1024" "pt j = 2 * int k" unfolding pt_frames_def by blast
        then have "pte s a (t * 1024 + j) = pte s b p" using pe b(2) by simp
        then show False using D(3) [of b p a "t * 1024 + j"] b k(2) by simp
      qed
      then show ?thesis using ds k(3) cs(1) by (simp add: cm_step_def)
    qed
  qed
  moreover have "tlb_empty ?s" using we cs(2) by (simp add: tlb_empty_def)
  then have "tlb_holds P ?s 0 p0" by (rule empty_holds)
  ultimately show "vm_inv P ?s" using q cs(3) by (auto simp: vm_inv_def)
qed

section \<open>Context switches\<close>

text \<open>To a thread of a process, which activates its address space, and to a thread of the kernel, which leaves the TLB as it is.\<close>

definition run_process :: "32 word \<times> 32 word \<Rightarrow> int \<Rightarrow> nat \<Rightarrow> 'f vmem \<Rightarrow> 'f vmem" where
  "run_process junk p a s = as_activate junk (s\<lparr>vm_pid := p, vcm := (vcm s)\<lparr>cur_vmspace := Some a\<rparr>\<rparr>)"

definition run_kernel :: "int \<Rightarrow> 'f vmem \<Rightarrow> 'f vmem" where
  "run_kernel p s = s\<lparr>vm_pid := p, vcm := (vcm s)\<lparr>cur_vmspace := None\<rparr>\<rparr>"

lemma switch_frames: "frames_ok s \<Longrightarrow> frames_ok (s\<lparr>vm_pid := p, vcm := (vcm s)\<lparr>cur_vmspace := x\<rparr>\<rparr>)"
  by (rule frames_ok_sub) (auto simp: frames_okD(1))

lemma switch_holds:
  assumes h: "tlb_holds P s n p0" and c: "x \<noteq> None \<Longrightarrow> 0 < n \<Longrightarrow> p0 = p"
  shows "tlb_holds P (s\<lparr>vm_pid := p, vcm := (vcm s)\<lparr>cur_vmspace := x\<rparr>\<rparr>) n p0"
proof -
  have "tlb_maps (s\<lparr>vm_pid := p, vcm := (vcm s)\<lparr>cur_vmspace := x\<rparr>\<rparr>) = tlb_maps s" by (simp add: tlb_maps_def fun_eq_iff)
  then show ?thesis using tlb_holdsD [OF h] c by (intro tlb_holdsI) auto
qed

lemma run_kernel_ok:
  assumes i: "vm_inv P s" and p: "0 \<le> p" "p < 64"
  shows "vm_inv P (run_kernel p s)"
proof -
  obtain n p0 where h: "tlb_holds P s n p0" using i by (auto simp: vm_inv_def)
  have "tlb_holds P (run_kernel p s) n p0" unfolding run_kernel_def by (rule switch_holds [OF h]) simp
  moreover have "frames_ok (run_kernel p s)" unfolding run_kernel_def using i by (intro switch_frames) (simp add: vm_inv_def)
  ultimately show ?thesis using p by (auto simp: vm_inv_def run_kernel_def)
qed

lemma run_process_ok:
  assumes i: "vm_inv P s" and p: "0 \<le> p" "p < 64" "p \<noteq> 2"
  shows "vm_inv P (run_process junk p (P p) s)"
proof -
  let ?s = "s\<lparr>vm_pid := p, vcm := (vcm s)\<lparr>cur_vmspace := Some (P p)\<rparr>\<rparr>"
  obtain n p0 where h: "tlb_holds P s n p0" using i by (auto simp: vm_inv_def)
  have f: "frames_ok ?s" using i switch_frames by (auto simp: vm_inv_def)
  have "\<exists>n p0. tlb_holds P (run_process junk p (P p) s) n p0 \<and> frames_ok (run_process junk p (P p) s) \<and> vm_pid (run_process junk p (P p) s) = p \<and>
    cur_vmspace (vcm (run_process junk p (P p) s)) = Some (P p)"
  proof (cases "snd (tlb s ! 0) \<noteq> 0 \<and> tlb_pid (tlb s ! 0) \<noteq> p")
    case True
    then have e: "run_process junk p (P p) s = tlb_flush ?s" using p(3) by (simp add: run_process_def as_activate_def)
    have "frames_ok (tlb_flush ?s)" by (rule frames_ok_sub [OF f]) (use frames_okD(1) [OF f] in \<open>auto simp: tlb_flush_def simp del: upt_rec_numeral\<close>)
    then show ?thesis using e flush_holds [of P ?s p0] by (auto simp: tlb_flush_def simp del: upt_rec_numeral)
  next
    case False
    then have e: "run_process junk p (P p) s = ?s" using p(3) by (auto simp: run_process_def as_activate_def Let_def)
    have "p0 = p" if "0 < n" using False tlb_holdsD(3) [OF h, of 0] that by (auto simp: tlb_valid_def)
    then have "tlb_holds P ?s n p0" by (intro switch_holds [OF h]) simp
    then show ?thesis using e f by auto
  qed
  then show ?thesis using p by (auto simp: vm_inv_def)
qed

section \<open>Steps\<close>

text \<open>
  The steps of the memory of processes: page faults of the running one while a frame is free, context switches, creating, filling and
  giving up address spaces, and whatever the kernel heap does to the core map without touching frames of processes.  \<open>P\<close> gives
  the address space of each process.
\<close>

inductive vstep :: "'f vmops \<Rightarrow> (int \<Rightarrow> nat) \<Rightarrow> 'f vmem \<Rightarrow> 'f vmem \<Rightarrow> bool" for ops P where
  fault: "vstep ops P s s'" if "vm_fault ops mem ft fa s = Some (r, s')" "fa < 2 ^ 31" "mem = None \<or> mem = Some (\<lambda>_. 0)"
    "used s \<noteq> {0..<max_page_num (vcm s)}"
| switch: "vstep ops P s (run_process junk p (P p) s)" if "0 \<le> p" "p < 64" "p \<noteq> 2"
| kernel: "vstep ops P s (run_kernel p s)" if "0 \<le> p" "p < 64"
| create: "vstep ops P s s'" if "as_create mem (Some (\<lambda>_. None)) s = (r, s')" "\<forall>a u. mem = Some (a, u) \<longrightarrow> spaces s a = None"
| region: "vstep ops P s s'" if "as_define_region ops a va sz fsz prot v off s = Some (r, s')"
| load: "vstep ops P s s'" if "as_prepare_load ops (Some (\<lambda>_. 0)) (Some (\<lambda>_. 0)) junk a s = Some (Inr (), s')" "spaces s a = Some u"
    "\<forall>p. pte s a p = 0" "as_vbase1 u mod PAGE_SIZE = 0" "as_vbase2 u mod PAGE_SIZE = 0"
    "as_vbase1 u + as_npages1 u * PAGE_SIZE \<le> 2 ^ 31" "as_vbase2 u + as_npages2 u * PAGE_SIZE \<le> 2 ^ 31"
| leave: "vstep ops P s (s'\<lparr>vcm := (vcm s')\<lparr>cur_vmspace := None\<rparr>\<rparr>)" if "cur_vmspace (vcm s) = Some a" "as_destroy ops a s = Some s'"
| heap: "vstep ops P s (s\<lparr>vcm := c\<rparr>)" if "cm_ok c" "max_page_num c = max_page_num (vcm s)" "mem_start c = mem_start (vcm s)"
    "cur_vmspace c = cur_vmspace (vcm s)" "\<forall>a p i. pte s a p = 2 * int i \<and> i \<noteq> 0 \<longrightarrow> i \<in> bitmap_used (gbl_bmp c)"

lemma vstep_inv:
  assumes "vstep ops P s s'" and i: "vm_inv P s"
  shows "vm_inv P s'"
  using assms(1)
proof (cases rule: vstep.cases)
  case (fault mem ft fa r)
  show ?thesis by (rule vm_fault_ok(1) [OF i fault(2,3,4,1)])
next
  case (switch p junk)
  then show ?thesis using run_process_ok [OF i] by simp
next
  case (kernel p)
  then show ?thesis using run_kernel_ok [OF i] by simp
next
  case (create mem r)
  show ?thesis by (rule as_create_ok [OF i _ create(1)]) (use create(2) in blast)
next
  case (region a va sz fsz prot v off r)
  show ?thesis by (rule as_define_region_ok [OF i region])
next
  case (load junk a u)
  show ?thesis by (rule as_prepare_load_ok(1) [OF i load(2) _ load(4-7,1)]) (use load(3) in blast)
next
  case (leave a s2)
  then show ?thesis using as_destroy_ok(1) [OF i] by simp
next
  case (heap c)
  have f: "frames_ok s" using i by (simp add: vm_inv_def)
  have "frames_ok (s\<lparr>vcm := c\<rparr>)" by (rule frames_ok_sub [OF f]) (use heap(2-6) in auto)
  then have "vm_inv P (s\<lparr>vcm := c\<rparr>)" by (rule vm_inv_frame [OF i]) (use heap(2-5) in simp_all)
  then show ?thesis using heap(1) by simp
qed

end
