(* ===== verification/Vm_Props.thy ===== *)
theory Vm_Props
  imports Vm_Steps Kmalloc
begin

text \<open>
  The properties of user memory: processes are isolated, a page fault maps its page, and what goes wrong with pages of the data region
  and with copies of an address space that has a heap.
\<close>

section \<open>Page faults return\<close>

text \<open>Files of which every part can be read.\<close>

definition files_ok :: "'f vmops \<Rightarrow> bool" where
  "files_ok ops \<longleftrightarrow> (\<forall>v off n f. \<exists>d f'. vo_read ops v off n f = Some (Inr d, f') \<and> length d = n)"

lemma page_read_total:
  assumes "files_ok ops"
  shows "\<exists>s'. page_read ops (Some v) off ka n fsz s = Some (Inr (), s')"
proof -
  obtain d f where "vo_read ops v off (min fsz n) (vm_files s) = Some (Inr d, f)" "length d = min fsz n" using assms unfolding files_ok_def by blast
  then show ?thesis by (simp add: page_read_def Let_def)
qed

lemma fault_load_total:
  assumes ok: "cm_ok (vcm s)" and u: "spaces s a = Some u" "as_vnode u \<noteq> None" and p: "pte s a p = 2 * int i" "3 \<le> i" "i < max_page_num (vcm s)"
    and fo: "files_ok ops"
  shows "\<exists>s'. fault_load ops a (p * 4096) s = Some (Inr (), s')"
proof -
  obtain v where v: "as_vnode u = Some v" using u(2) by blast
  have fr: "frame_of a (p * 4096) s = Some i" using frame_of_page(1) [OF p(1)] p(2) by simp
  have up: "\<exists>c. cm_upd i f (vcm w) = Some c" if "length (coremap (vcm w)) = length (coremap (vcm s))" for f and w :: "'a vmem"
    using that p(3) cm_okD(4) [OF ok] by (simp add: cm_upd_def)
  have lk: "\<exists>s1. lock_frame i w = Some s1 \<and> length (coremap (vcm s1)) = length (coremap (vcm s))"
    if "length (coremap (vcm w)) = length (coremap (vcm s))" for w :: "'a vmem"
    using up [OF that] that p(3) cm_okD(4) [OF ok] by (auto simp: lock_frame_def cm_do_def cm_upd_def)
  have rd: "\<exists>s2. fault_read ops u i (p * 4096) vb fsz off w = Some (Inr (), s2) \<and> length (coremap (vcm s2)) = length (coremap (vcm s))"
    if "length (coremap (vcm w)) = length (coremap (vcm s))" for vb fsz off and w :: "'a vmem"
  proof -
    have "cm_at i (vcm w) = Some (coremap (vcm w) ! i)" using that p(3) cm_okD(4) [OF ok] by (simp add: cm_at_def)
    then obtain s2 where s2: "fault_read ops u i (p * 4096) vb fsz off w = Some (Inr (), s2)"
      using page_read_total [OF fo] v by (fastforce simp: fault_read_def)
    then have "vcm s2 = vcm w" by (auto simp: fault_read_def page_read_def put_page_def Let_def split: Option.bind_splits sum.splits if_splits)
    then show ?thesis using s2 that by simp
  qed
  show ?thesis
  proof (cases "in_region (p * 4096) (as_vbase1 u) (as_npages1 u)")
    case True
    obtain s1 where s1: "fault_read ops u i (p * 4096) (as_vbase1 u) (filesize_text u) (off_text u) s = Some (Inr (), s1)"
        "length (coremap (vcm s1)) = length (coremap (vcm s))" using rd [of s] by blast
    obtain s2 where "lock_frame i s1 = Some s2" using lk [OF s1(2)] by blast
    then show ?thesis using True u(1) fr s1(1) by (simp add: fault_load_def)
  next
    case False
    obtain s1 where s1: "lock_frame i s = Some s1" "length (coremap (vcm s1)) = length (coremap (vcm s))" using lk [of s] by blast
    obtain s2 where "fault_read ops u i (p * 4096) (as_vbase2 u) (filesize_data u) (off_data u) s1 = Some (Inr (), s2)" using rd [OF s1(2)] by blast
    then show ?thesis using False u(1) fr s1(1) by (simp add: fault_load_def)
  qed
qed

lemma fault_page_total:
  assumes f: "frames_ok s" and u: "spaces s a = Some u" and p: "p < 2 ^ 19" and free: "used s \<noteq> {0..<max_page_num (vcm s)}"
  shows "\<exists>s' x. fault_page ops (Some (\<lambda>_. 0)) a (p * 4096) s = Some (Inr (), s') \<and> spaces s' a = Some (u\<lparr>firstpt := x\<rparr>)"
proof -
  note ok = frames_okD(1) [OF f]
  let ?t = "p div 1024" and ?b = "p mod 1024"
  obtain s1 pt x1 where s1: "(if firstpt u ?t = None then pt_new a ?t (Some (\<lambda>_. 0)) s else Some s) = Some s1" "spaces s1 a = Some (u\<lparr>firstpt := x1\<rparr>)"
      "x1 ?t = Some pt" "pt ?b = pte s a p" "vcm s1 = vcm s"
  proof (cases "firstpt u ?t")
    case None
    then show ?thesis using that [of "s\<lparr>spaces := (spaces s)(a \<mapsto> u\<lparr>firstpt := (firstpt u)(?t \<mapsto> (\<lambda>_. 0))\<rparr>)\<rparr>" "(firstpt u)(?t \<mapsto> (\<lambda>_. 0))" "\<lambda>_. 0"] u
      by (simp add: pt_new_def space_upd_def pte_def)
  next
    case (Some qt)
    then show ?thesis using that [of s "firstpt u" qt] u by (simp add: pte_def)
  qed
  have get: "pt_get a ?t ?b s1 = Some (pte s a p)" using s1 by (simp add: pt_get_def)
  have run: "fault_page ops (Some (\<lambda>_. 0)) a (p * 4096) s = (if pte s a p smod 2 = 1 then do {
         (ok, s2) \<leftarrow> swap_handler ops (pte s a p sdiv 2) (p * 4096) s1; Some (if ok then Inr () else Inl ENOMEM, s2) }
       else if pte s a p sdiv 2 = 0 then do {
         (r, s2) \<leftarrow> fault_frame ops (p * 4096) s1;
         case r of Inl e \<Rightarrow> Some (Inl e, s2)
         | Inr (temp, index) \<Rightarrow> do {
             s3 \<leftarrow> cm_do (cm_upd index (\<lambda>e. e\<lparr>pte_npages := 1\<rparr>)) s2;
             s4 \<leftarrow> pt_set a ?t ?b (c_int (int index * 2)) s3;
             s5 \<leftarrow> cm_do (pt_insert (p * 4096) temp) s4; Some (Inr (), s5) } }
       else Some (Inr (), s1))"
    unfolding fault_page_def page_index using u s1(1) get by simp
  show ?thesis
  proof (cases "pte s a p = 0")
    case False
    then obtain i where "pte s a p = 2 * int i" "i \<noteq> 0" using frames_okD(2) [OF f, of a p] by auto
    then show ?thesis using run s1(2) entry_halves [of i] by auto
  next
    case True
    obtain i c where g: "get_singlepage (vcm s) = Some (mem_start (vcm s) + i * PAGE_SIZE, Some i, c)" "mem_start (vcm s) + i * PAGE_SIZE \<noteq> 0" "3 \<le> i"
        "i < max_page_num (vcm s)" "cm_step {i} (vcm s) c" using get_frame [OF ok free] by blast
    have c: "cm_ok c" "max_page_num c = max_page_num (vcm s)" "mem_start c = mem_start (vcm s)" using g(5) by (simp_all add: cm_step_def)
    obtain c1 where c1: "cm_upd i (\<lambda>e. e\<lparr>pte_npages := 1\<rparr>) c = Some c1" "cm_step {} c c1" using npages_step [OF c(1), of i 1] g(4) c(2) by auto
    have k1: "cm_ok c1" "max_page_num c1 = max_page_num (vcm s)" "mem_start c1 = mem_start (vcm s)" using c1(2) c by (simp_all add: cm_step_def)
    obtain c2 where c2: "pt_insert (p * 4096) (mem_start (vcm s) + i * PAGE_SIZE) c1 = Some c2"
      using pt_insert_ok [OF k1(1) g(3), of "p * 4096"] g(4) k1 p by auto
    have ff: "fault_frame ops (p * 4096) s1 = Some (Inr (mem_start (vcm s) + i * PAGE_SIZE, i), s1\<lparr>vcm := c\<rparr>)"
      using g(1,2) s1(5) by (subst fault_frame.simps) auto
    define y where "y = x1(?t \<mapsto> pt(?b := c_int (int i * 2)))"
    have ps: "pt_set a ?t ?b (c_int (int i * 2)) (s1\<lparr>vcm := c1\<rparr>) = Some (s1\<lparr>vcm := c1, spaces := (spaces s1)(a \<mapsto> u\<lparr>firstpt := y\<rparr>)\<rparr>)"
      using s1(2,3) by (simp add: pt_set_def y_def)
    have "fault_page ops (Some (\<lambda>_. 0)) a (p * 4096) s = Some (Inr (), s1\<lparr>vcm := c2, spaces := (spaces s1)(a \<mapsto> u\<lparr>firstpt := y\<rparr>)\<rparr>)"
      unfolding run using True ff c1(1) ps c2 by (simp add: cm_do_def)
    then show ?thesis by auto
  qed
qed


text \<open>What a fault in a process that is set up goes through, if there is a free frame: it returns.\<close>

definition fault_runs :: "'f vmops \<Rightarrow> nat \<Rightarrow> uspace \<Rightarrow> nat \<Rightarrow> nat \<Rightarrow> 'f vmem \<Rightarrow> 'f vmem \<Rightarrow> 'f vmem \<Rightarrow> 'f vmem \<Rightarrow> 'f vmem \<Rightarrow> bool" where
  "fault_runs ops a u p k s s2 s3 s4 s' \<longleftrightarrow> (\<exists>y. s2 = s\<lparr>paging_held := True, vm_spl := 15, spaces := (spaces s)(a \<mapsto> u\<lparr>as_stackvbase := y\<rparr>)\<rparr> \<and>
     alike s s2 \<and> fault_page ops (Some (\<lambda>_. 0)) a (p * 4096) s2 = Some (Inr (), s3) \<and> (\<exists>x. spaces s3 a = Some (u\<lparr>as_stackvbase := y, firstpt := x\<rparr>)) \<and> cm_ok (vcm s3) \<and>
     paged a p k s2 s3 \<and> fault_load ops a (p * 4096) s3 = Some (Inr (), s4) \<and> alike s3 s4 \<and> spaces s4 = spaces s3 \<and>
     (\<exists>t. s' = s4\<lparr>tlb := t, vm_spl := vm_spl s, paging_held := False\<rparr>))"

lemma vm_fault_total:
  assumes i: "vm_inv P s" and a: "cur_vmspace (vcm s) = Some a" and u: "spaces s a = Some u" "as_set_up u" "as_vnode u \<noteq> None"
    and fa: "fa < 2 ^ 31" "fa div 4096 \<noteq> 0" "fa div 4096 \<noteq> 0x40000" and ft: "ft = 0 \<or> ft = 1"
    and free: "used s \<noteq> {0..<max_page_num (vcm s)}" and fo: "files_ok ops"
  shows "\<exists>k s2 s3 s4 s'. vm_fault ops (Some (\<lambda>_. 0)) ft fa s = Some (Inr (), s') \<and> fault_runs ops a u (fa div 4096) k s s2 s3 s4 s'"
proof -
  define p where "p = fa div 4096"
  have pf: "page_frame fa = p * 4096" by (simp add: page_frame_def p_def)
  have p: "p < 2 ^ 19" "p \<noteq> 0" "p * 4096 \<noteq> 1073741824" using fa by (simp_all add: p_def less_mult_imp_div_less)
  define y where "y = (if c_uint (p * 4096 + PAGE_SIZE) \<ge> as_stackvbase u then p * 4096 else as_stackvbase u)"
  let ?u = "u\<lparr>as_stackvbase := y\<rparr>"
  define s2 where "s2 = s\<lparr>paging_held := True, vm_spl := 15, spaces := (spaces s)(a \<mapsto> ?u)\<rparr>"
  have ok: "cm_ok (vcm s)" using i by (simp add: vm_inv_def frames_okD(1))
  have su: "space_upd a (\<lambda>u. if c_uint (p * 4096 + PAGE_SIZE) \<ge> as_stackvbase u then u\<lparr>as_stackvbase := p * 4096\<rparr> else u) (s\<lparr>paging_held := True, vm_spl := 15\<rparr>) = Some s2"
    using u(1) by (simp add: space_upd_def s2_def y_def)
  have l2: "alike s s2" using space_upd_pte(1) [OF su] ok by (simp add: alike_def s2_def)
  have i2: "vm_inv P s2" by (rule alike_inv [OF i l2])
  have f2: "frames_ok s2" and free2: "used s2 \<noteq> {0..<max_page_num (vcm s2)}" using i2 free l2 by (simp_all add: vm_inv_def alike_def)
  have up: "spaces s2 a = Some ?u" "as_set_up ?u" using u(2) by (simp_all add: s2_def as_set_up_def)
  obtain s3 x where s3: "fault_page ops (Some (\<lambda>_. 0)) a (p * 4096) s2 = Some (Inr (), s3)" "spaces s3 a = Some (?u\<lparr>firstpt := x\<rparr>)"
    using fault_page_total [OF f2 up(1) p(1) free2] by blast
  note fp = fault_page_ok [OF f2 p(1) _ free2 s3(1)]
  obtain k where k: "paged a p k s2 s3" using fp(3) by blast
  have i3: "vm_inv P s3" by (rule paged_inv [OF i2 fp(2) k]) simp
  then have ok3: "cm_ok (vcm s3)" by (simp add: vm_inv_def frames_okD(1))
  have k3: "pte s3 a p = 2 * int k" "3 \<le> k" "k < max_page_num (vcm s3)" "cur_vmspace (vcm s3) = Some a" using k a l2 by (simp_all add: paged_def alike_def)
  obtain s4 where s4: "fault_load ops a (p * 4096) s3 = Some (Inr (), s4)"
    using fault_load_total [OF ok3 s3(2) _ k3(1-3) fo] u(3) by auto
  note l4 = fault_load_alike [OF s4 ok3]
  have k4: "pte s4 a p = 2 * int k" "k < max_page_num (vcm s4)" "cur_vmspace (vcm s4) = Some a" using k3 l4(1) by (simp_all add: alike_def)
  obtain t where s5: "fault_map a (p * 4096) (vm_spl s) s4 = Some (s4\<lparr>tlb := t, vm_spl := vm_spl s, paging_held := False\<rparr>)"
    using fault_map_ok [OF alike_inv [OF i3 l4(1)] k4(3) p(1) k4(1) k3(2) k4(2)] by blast
  have "vm_fault ops (Some (\<lambda>_. 0)) ft fa s = Some (Inr (), s4\<lparr>tlb := t, vm_spl := vm_spl s, paging_held := False\<rparr>)"
    using p(2,3) ft a su up(1,2) s3(1) s4 s5 by (auto simp: vm_fault_def Let_def pf try_k_def)
  then show ?thesis unfolding fault_runs_def p_def [symmetric] using s2_def l2 s3 ok3 k s4 l4 by blast
qed

lemma fault_runs_facts:
  assumes "fault_runs ops a u p k s s2 s3 s4 s'"
  shows "pte s' a p = 2 * int k" and "\<exists>x y. spaces s' a = Some (u\<lparr>as_stackvbase := y, firstpt := x\<rparr>)" and "3 \<le> k"
    and "cur_vmspace (vcm s') = cur_vmspace (vcm s)" and "max_page_num (vcm s') = max_page_num (vcm s)"
    and "if pte s a p = 2 * int k then used s' = used s else used s' = insert k (used s)"
proof -
  obtain x y t where st: "alike s s2" "spaces s3 a = Some (u\<lparr>as_stackvbase := y, firstpt := x\<rparr>)" "paged a p k s2 s3" "alike s3 s4" "spaces s4 = spaces s3"
      "s' = s4\<lparr>tlb := t, vm_spl := vm_spl s, paging_held := False\<rparr>"
    using assms unfolding fault_runs_def by blast
  show "pte s' a p = 2 * int k" "3 \<le> k" "cur_vmspace (vcm s') = cur_vmspace (vcm s)" "max_page_num (vcm s') = max_page_num (vcm s)"
    using st(1,3,4,6) by (simp_all add: alike_def paged_def)
  have "3 \<le> k" "pte s a p = 2 * int k \<and> used s' = used s \<or> pte s a p = 0 \<and> used s' = insert k (used s)"
    using st(1,3,4,6) by (simp_all add: alike_def paged_def) blast
  then show "if pte s a p = 2 * int k then used s' = used s else used s' = insert k (used s)" by auto
  show "\<exists>x y. spaces s' a = Some (u\<lparr>as_stackvbase := y, firstpt := x\<rparr>)" using st(2,5,6) by auto
qed

text \<open>Of a page that has a frame nothing changes.\<close>

lemma fault_page_mapped:
  assumes "pte s a p = 2 * int i" and "i \<noteq> 0"
  shows "fault_page ops mem a (p * 4096) s = Some (Inr (), s)"
proof -
  obtain u pt where u: "spaces s a = Some u" "firstpt u (p div 1024) = Some pt" using assms by (auto simp: pte_def split: option.splits)
  then have "pt_get a (p div 1024) (p mod 1024) s = Some (2 * int i)" using assms(1) by (simp add: pt_get_def pte_def)
  then show ?thesis unfolding fault_page_def page_index using u entry_halves [of i] assms(2) by simp
qed

section \<open>Reachable states\<close>

text \<open>After boot there is no user process.\<close>

definition vm_booted :: "'f vmem \<Rightarrow> bool" where
  "vm_booted s \<longleftrightarrow> cm_ok (vcm s) \<and> spaces s = Map.empty \<and> tlb_empty s \<and> 0 \<le> vm_pid s \<and> vm_pid s < 64 \<and> cur_vmspace (vcm s) = None"

inductive vm_reachable :: "'f vmops \<Rightarrow> (int \<Rightarrow> nat) \<Rightarrow> 'f vmem \<Rightarrow> bool" for ops P where
  boot: "vm_reachable ops P s" if "vm_booted s"
| step: "vm_reachable ops P s'" if "vm_reachable ops P s" "vstep ops P s s'"

lemma vm_reachable_inv: "vm_reachable ops P s \<Longrightarrow> vm_inv P s"
proof (induction rule: vm_reachable.induct)
  case (boot s)
  then have z: "pte s a p = 0" for a p by (simp add: vm_booted_def pte_def)
  have "frames_ok s" using boot z by (simp add: frames_ok_def vm_booted_def)
  then show ?case using boot empty_holds [of s P] by (auto simp: vm_inv_def vm_booted_def)
next
  case (step s s')
  then show ?case using vstep_inv by blast
qed


section \<open>Data pages\<close>

lemma put_page_twice:
  assumes "length d = n" and "n \<le> m"
  shows "frames (put_page ka n (replicate (m - n) 0) (put_page ka 0 d s)) = (frames s)(ka := d @ replicate (m - n) 0 @ drop m (frames s ka))"
  using assms by (auto simp: put_page_def fun_eq_iff)

text \<open>A page that \<open>page_read\<close> fills: the bytes of the file, then zeros.\<close>

lemma page_read_contents:
  assumes "page_read ops (Some v) off ka m fsz s = Some (Inr (), s')"
  shows "\<exists>d f. vo_read ops v off (min fsz m) (vm_files s) = Some (Inr d, f) \<and> min fsz m \<le> length d \<and>
    frames s' = (frames s)(ka := take (min fsz m) d @ replicate (m - min fsz m) 0 @ drop m (frames s ka))"
proof -
  let ?n = "min fsz m"
  obtain d f where d: "vo_read ops v off ?n (vm_files s) = Some (Inr d, f)" "length (take ?n d) = ?n"
      "s' = put_page ka ?n (replicate (m - ?n) 0) (put_page ka 0 (take ?n d) (s\<lparr>vm_files := f\<rparr>))"
    using assms by (auto simp: page_read_def Let_def elim!: bind_SomeE split: sum.splits if_splits)
  have "frames s' = (frames (s\<lparr>vm_files := f\<rparr>))(ka := take ?n d @ replicate (m - ?n) 0 @ drop m (frames (s\<lparr>vm_files := f\<rparr>) ka))"
    unfolding d(3) by (rule put_page_twice [OF d(2)]) simp
  then show ?thesis using d(1,2) by (intro exI [of _ d] exI [of _ f]) simp
qed

lemma fault_load_data:
  assumes ok: "cm_ok (vcm s)" and u: "spaces s a = Some u" "as_vnode u = Some v" and p: "pte s a p = 2 * int i" "3 \<le> i" "i < max_page_num (vcm s)"
    and d: "\<not> in_region (p * 4096) (as_vbase1 u) (as_npages1 u)" "in_region (p * 4096) (as_vbase2 u) (as_npages2 u)" "filesize_data u \<noteq> 0"
    and r: "fault_load ops a (p * 4096) s = Some (Inr (), s')"
  shows "\<exists>s1. vm_files s1 = vm_files s \<and> frames s1 = frames s \<and> page_read ops (Some v) (c_uint (off_data u + page_no (p * 4096) (as_vbase2 u) * PAGE_SIZE))
    (PADDR_TO_KVADDR (mem_start (vcm s) + i * PAGE_SIZE)) PAGE_SIZE (c_usub (filesize_data u) (page_no (p * 4096) (as_vbase2 u) * PAGE_SIZE)) s1 = Some (Inr (), s')"
proof -
  have fr: "frame_of a (p * 4096) s = Some i" using frame_of_page(1) [OF p(1)] p(2) by simp
  obtain s1 where s1: "lock_frame i s = Some s1" "fault_read ops u i (p * 4096) (as_vbase2 u) (filesize_data u) (off_data u) s1 = Some (Inr (), s')"
    using r d u fr by (auto simp: fault_load_def elim!: bind_SomeE)
  have s1v: "s1 = s\<lparr>vcm := vcm s1\<rparr>" using s1(1) by (auto simp: lock_frame_def cm_do_def)
  have "cm_at i (vcm s1) = Some ((coremap (vcm s) ! i)\<lparr>pte_locked := 1\<rparr>)"
    using s1(1) p(3) cm_okD(4) [OF ok] by (auto simp: lock_frame_def cm_do_def cm_upd_def cm_at_def split: if_splits)
  then have "page_read ops (Some v) (c_uint (off_data u + page_no (p * 4096) (as_vbase2 u) * PAGE_SIZE))
    (PADDR_TO_KVADDR (mem_start (vcm s) + i * PAGE_SIZE)) PAGE_SIZE (c_usub (filesize_data u) (page_no (p * 4096) (as_vbase2 u) * PAGE_SIZE)) s1 = Some (Inr (), s')"
    using s1(2) u(2) cm_okD(8) [OF ok p(2,3)] by (simp add: fault_read_def)
  moreover have "vm_files s1 = vm_files s" "frames s1 = frames s" by (subst s1v, simp)+
  ultimately show ?thesis by blast
qed

section \<open>Copies of a heap\<close>

text \<open>The bounds of the heaps.\<close>

definition heaps :: "'f vmem \<Rightarrow> nat \<Rightarrow> (nat \<times> nat) option" where
  "heaps s a = map_option (\<lambda>u. (heapbottom u, heaptop u)) (spaces s a)"

text \<open>Reading user memory changes no heap.\<close>

definition upage_keeps :: "'f vmops \<Rightarrow> bool" where
  "upage_keeps ops \<longleftrightarrow> (\<forall>va s d s'. vo_upage ops va s = Some (d, s') \<longrightarrow> heaps s' = heaps s)"

lemma heaps_fields [simp]:
  "heaps (s\<lparr>vcm := c\<rparr>) = heaps s" "heaps (s\<lparr>vm_files := x\<rparr>) = heaps s" "heaps (put_page ka n d s) = heaps s"
  by (simp_all add: heaps_def fun_eq_iff put_page_def)

lemma heaps_ops:
  shows "cm_do f s = Some s' \<Longrightarrow> heaps s' = heaps s"
    and "pt_set a t b v s = Some s' \<Longrightarrow> heaps s' = heaps s"
    and "pt_new a t m s = Some s' \<Longrightarrow> heaps s' = heaps s"
    and "page_read ops v' off ka n fsz s = Some (r, s') \<Longrightarrow> heaps s' = heaps s"
    and "space_upd a g s = Some s' \<Longrightarrow> (\<And>u. heapbottom (g u) = heapbottom u \<and> heaptop (g u) = heaptop u) \<Longrightarrow> heaps s' = heaps s"
  by (auto simp: cm_do_def)
    (auto simp: heaps_def fun_eq_iff pt_set_def pt_new_def space_upd_def page_read_def put_page_def Let_def elim!: bind_SomeE split: sum.splits if_splits)

lemma load_pages_heaps:
  assumes "load_pages ops a data vb np fsz off setp is ix s = Some (Inr jx, s')" and g: "\<And>t u. heapbottom (setp t u) = heapbottom u \<and> heaptop (setp t u) = heaptop u"
  shows "heaps s' = heaps s"
  using assms(1)
proof (induction "is" arbitrary: ix s)
  case (Cons i js)
  show ?case
  proof (rule load_pages_ConsE [OF Cons.prems])
    fix temp iy c s1 s2 s3 s4 u
    let ?ix = "case iy of Some k \<Rightarrow> k | None \<Rightarrow> ix"
    assume st: "(if i = 0 then cm_do (cm_upd ?ix (\<lambda>e. e\<lparr>pte_npages := np\<rparr>)) (s\<lparr>vcm := c\<rparr>) else Some (s\<lparr>vcm := c\<rparr>)) = Some s1"
      "pt_set a (top10 vb) (btm10 vb + i) (c_int (int ?ix * 2)) s1 = Some s2" "cm_do (pt_insert (c_uint (vb + i * PAGE_SIZE)) temp) s2 = Some s3"
      "(if i = 0 then space_upd a (setp temp) s3 else Some s3) = Some s4"
      and rest: "(if data \<and> fsz = 0 then load_pages ops a data vb np fsz off setp js ?ix s4
        else try_k (page_read ops (as_vnode u) (c_uint (off + i * PAGE_SIZE)) (PADDR_TO_KVADDR temp) PAGE_SIZE (c_usub fsz (i * PAGE_SIZE)) s4)
          (\<lambda>_ s5. load_pages ops a data vb np fsz off setp js ?ix s5)) = Some (Inr jx, s')"
    have "heaps s1 = heaps s" using st(1) heaps_ops(1) [of _ "s\<lparr>vcm := c\<rparr>" s1] by (auto split: if_splits)
    then have "heaps s3 = heaps s" using heaps_ops(2) [OF st(2)] heaps_ops(1) [OF st(3)] by simp
    then have h4: "heaps s4 = heaps s" using heaps_ops(5) [of a "setp temp" s3 s4, OF _ g] st(4) by (auto split: if_splits)
    show ?thesis using rest h4 Cons.IH heaps_ops(4) by (fastforce simp: try_k_eq_Inr split: if_splits)
  qed
qed simp

lemma as_prepare_load_heaps:
  assumes "as_prepare_load ops m1 m2 junk a s = Some (Inr x, s')"
  shows "heaps s' = heaps s"
  using assms by (auto simp: as_prepare_load_def try_k_eq_Inr elim!: bind_SomeE dest!: load_pages_heaps heaps_ops(3))

lemma copy_region_heaps: "upage_keeps ops \<Longrightarrow> copy_region ops new t vb is s = Some s' \<Longrightarrow> heaps s' = heaps s"
  by (induction "is" arbitrary: s) (auto simp: upage_keeps_def elim!: bind_SomeE)

lemma copy_stack_heaps: "upage_keeps ops \<Longrightarrow> copy_stack ops new is ix s = Some s' \<Longrightarrow> heaps s' = heaps s"
proof (induction "is" arbitrary: ix s)
  case (Cons i js)
  obtain pa c iy s1 s2 d s3 where st: "cm_do (pt_insert (PADDR_TO_KVADDR pa) pa) (s\<lparr>vcm := c\<rparr>) = Some s1"
      "pt_set new (top10 (c_usub USERSTACK (i * PAGE_SIZE))) (btm10 (c_usub USERSTACK (i * PAGE_SIZE))) (c_int (int iy * 2)) s1 = Some s2"
      "vo_upage ops (c_usub USERSTACK (i * PAGE_SIZE)) s2 = Some (d, s3)" "copy_stack ops new js iy (put_page (PADDR_TO_KVADDR pa) 0 d s3) = Some s'"
    using Cons.prems(2) by (simp only: copy_stack.simps Let_def) (elim bind_SomeE, auto elim!: bind_SomeE)
  have "heaps s3 = heaps s" using heaps_ops(1) [OF st(1)] heaps_ops(2) [OF st(2)] Cons.prems(1) st(3) by (simp add: upage_keeps_def)
  then show ?case using Cons.IH [OF Cons.prems(1) st(4)] by simp
qed simp

text \<open>The loop over the heap ends in no state in which the old heap is not empty.\<close>

lemma copy_heap_bounds:
  assumes "copy_heap ops new old s = Some s'" and "upage_keeps ops" and "new \<noteq> old" and "heaps s new = Some (b, t)" and "heaps s old = Some (b', t')"
  shows "t' \<le> b"
proof -
  have "upage_keeps ops \<longrightarrow> new \<noteq> old \<longrightarrow> (\<forall>t. heaps s new = Some (b, t) \<longrightarrow> heaps s old = Some (b', t') \<longrightarrow> t' \<le> b)"
  proof (rule copy_heap.raw_induct [where P = "\<lambda>ops new old s _. upage_keeps ops \<longrightarrow> new \<noteq> old \<longrightarrow>
      (\<forall>t. heaps s new = Some (b, t) \<longrightarrow> heaps s old = Some (b', t') \<longrightarrow> t' \<le> b)", OF _ assms(1)], intro impI allI)
    fix ch :: "'a vmops \<Rightarrow> nat \<Rightarrow> nat \<Rightarrow> 'a vmem \<Rightarrow> 'a vmem option" and ops new old s y t
    assume IH: "\<And>ops new old s y. ch ops new old s = Some y \<Longrightarrow> upage_keeps ops \<longrightarrow> new \<noteq> old \<longrightarrow>
        (\<forall>t. heaps s new = Some (b, t) \<longrightarrow> heaps s old = Some (b', t') \<longrightarrow> t' \<le> b)"
      and run: "do { un \<leftarrow> spaces s new; uo \<leftarrow> spaces s old;
        if heapbottom un < heaptop uo then do {
          (paddr, ix, c) \<leftarrow> get_singlepage (vcm s);
          s1 \<leftarrow> cm_do (pt_insert (PADDR_TO_KVADDR paddr) paddr) (s\<lparr>vcm := c\<rparr>);
          (d, s2) \<leftarrow> vo_upage ops (heaptop un) s1;
          s3 \<leftarrow> space_upd new (\<lambda>u. u\<lparr>heaptop := c_uint (heaptop u + PAGE_SIZE)\<rparr>) (put_page (PADDR_TO_KVADDR paddr) 0 d s2);
          ch ops new old s3 }
        else Some s } = Some y"
      and k: "upage_keeps ops" "new \<noteq> old" and h: "heaps s new = Some (b, t)" "heaps s old = Some (b', t')"
    obtain un uo where u: "spaces s new = Some un" "spaces s old = Some uo" "heapbottom un = b" "heaptop un = t" "heaptop uo = t'"
      using h by (auto simp: heaps_def)
    show "t' \<le> b"
    proof (rule ccontr)
      assume n: "\<not> t' \<le> b"
      obtain pa c s1 d s2 s3 where st: "cm_do (pt_insert (PADDR_TO_KVADDR pa) pa) (s\<lparr>vcm := c\<rparr>) = Some s1" "vo_upage ops t s1 = Some (d, s2)"
          "space_upd new (\<lambda>u. u\<lparr>heaptop := c_uint (heaptop u + PAGE_SIZE)\<rparr>) (put_page (PADDR_TO_KVADDR pa) 0 d s2) = Some s3" "ch ops new old s3 = Some y"
        using run u n by (auto elim!: bind_SomeE)
      have "heaps s2 = heaps s" using heaps_ops(1) [OF st(1)] k(1) st(2) by (simp add: upage_keeps_def)
      then have h2: "heaps s2 new = Some (b, t)" "heaps s2 old = Some (b', t')" using h by simp_all
      obtain t2 where "heaps s3 new = Some (b, t2)" "heaps s3 old = Some (b', t')"
        using st(3) h2 k(2) by (auto simp: space_upd_def heaps_def put_page_def elim!: bind_SomeE)
      then have "t' \<le> b" using IH [OF st(4)] k by blast
      then show False using n by simp
    qed
  qed
  then show ?thesis using assms by blast
qed


section \<open>An example\<close>

text \<open>Files of which every byte is 7, and a machine with three free frames on which a process is set up that has run no instruction.\<close>

definition ex_ops :: "unit vmops" where
  "ex_ops = \<lparr>vo_read = (\<lambda>v off n f. Some (Inr (replicate n 7), f)), vo_incref = (\<lambda>v f. Some f), vo_decref = (\<lambda>v f. Some f),
     vo_swap_out = (\<lambda>va off s. Some s), vo_swap_in = (\<lambda>va off s. Some s), vo_upage = (\<lambda>va s. Some (replicate PAGE_SIZE 0, s))\<rparr>"

definition ex_space :: uspace where
  "ex_space = \<lparr>heapbottom = 0, heaptop = 0, as_stackvbase = 0, as_vnode = None, filesize_data = 0, off_data = 0, filesize_text = 0, off_text = 0,
     firstpt = (\<lambda>_. None), as_vbase1 = 0, as_npages1 = 0, as_vbase2 = 0, as_npages2 = 0, as_prot1 = (0, 0, 0), as_prot2 = (0, 0, 0),
     as_pbase1 = 0, as_pbase2 = 0, as_stackpbase = 0\<rparr>"

definition ex_vboot :: "unit vmem" where
  "ex_vboot = \<lparr>vcm = ex_cm, spaces = Map.empty, tlb = replicate NUM_TLB (0, 0), swap_bmp = \<lparr>b_nbits = 0, b_v = []\<rparr>, swap_holder = [],
     frames = (\<lambda>_. replicate PAGE_SIZE 0), vm_spl = 0, paging_held = False, vm_pid = 0, vm_files = ()\<rparr>"

text \<open>The space with one page of text and one of data.\<close>

definition ex_loaded :: uspace where
  "ex_loaded = ex_space\<lparr>as_stackvbase := USERSTACK, as_vnode := Some 9, as_vbase1 := 0x400000, as_npages1 := 1, off_text := 4096, filesize_text := 4096,
     as_vbase2 := 0x10000000, as_npages2 := 1, off_data := 8192, filesize_data := 4096, heapbottom := 0x10001000, heaptop := 0x10001000\<rparr>"

definition ex_ready :: "unit vmem" where
  "ex_ready = ex_vboot\<lparr>spaces := [100 \<mapsto> ex_loaded], vm_pid := 3, vcm := ex_cm\<lparr>cur_vmspace := Some 100\<rparr>\<rparr>"

lemma ex_ready_reachable: "vm_reachable ex_ops (\<lambda>_. 100) ex_ready"
proof -
  let ?P = "\<lambda>_ :: int. 100 :: nat"
  let ?u0 = "ex_space\<lparr>as_stackvbase := USERSTACK\<rparr>"
  let ?u1 = "?u0\<lparr>as_vnode := Some 9, as_vbase1 := 0x400000, as_npages1 := 1, off_text := 4096, filesize_text := 4096, heapbottom := 0x401000, heaptop := 0x401000\<rparr>"
  have "vm_booted ex_vboot" by (simp add: vm_booted_def ex_vboot_def ex_cm_ok tlb_empty_def) (simp add: ex_cm_def)
  then have r0: "vm_reachable ex_ops ?P ex_vboot" by (rule boot)
  have "as_create (Some (100, ex_space)) (Some (\<lambda>_. None)) ex_vboot = (Some 100, ex_vboot\<lparr>spaces := [100 \<mapsto> ?u0]\<rparr>)"
    by (simp add: as_create_def ex_vboot_def ex_space_def)
  then have r1: "vm_reachable ex_ops ?P (ex_vboot\<lparr>spaces := [100 \<mapsto> ?u0]\<rparr>)"
    by (intro vm_reachable.step [OF r0 create]) (auto simp: ex_vboot_def)
  have "as_define_region ex_ops 100 0x400000 4096 4096 (0, 0, 0) 9 4096 (ex_vboot\<lparr>spaces := [100 \<mapsto> ?u0]\<rparr>) = Some (Inr (), ex_vboot\<lparr>spaces := [100 \<mapsto> ?u1]\<rparr>)"
    by (simp add: as_define_region_def ex_ops_def space_upd_def ex_vboot_def ex_space_def page_frame_def c_uint_def)
  then have r2: "vm_reachable ex_ops ?P (ex_vboot\<lparr>spaces := [100 \<mapsto> ?u1]\<rparr>)" by (intro vm_reachable.step [OF r1 region])
  have "as_define_region ex_ops 100 0x10000000 4096 4096 (0, 0, 0) 9 8192 (ex_vboot\<lparr>spaces := [100 \<mapsto> ?u1]\<rparr>) = Some (Inr (), ex_vboot\<lparr>spaces := [100 \<mapsto> ex_loaded]\<rparr>)"
    by (simp add: as_define_region_def ex_ops_def space_upd_def ex_vboot_def ex_space_def ex_loaded_def page_frame_def c_uint_def)
  then have r3: "vm_reachable ex_ops ?P (ex_vboot\<lparr>spaces := [100 \<mapsto> ex_loaded]\<rparr>)" by (intro vm_reachable.step [OF r2 region])
  have "run_process (0, 0) 3 (?P 3) (ex_vboot\<lparr>spaces := [100 \<mapsto> ex_loaded]\<rparr>) = ex_ready"
    by (simp add: run_process_def as_activate_def ex_ready_def ex_vboot_def Let_def)
  moreover have "vm_reachable ex_ops ?P (run_process (0, 0) 3 (?P 3) (ex_vboot\<lparr>spaces := [100 \<mapsto> ex_loaded]\<rparr>))"
    by (rule vm_reachable.step [OF r3 switch]) simp_all
  ultimately show ?thesis by simp
qed

lemma ex_ready_fields:
  "cur_vmspace (vcm ex_ready) = Some 100" "spaces ex_ready 100 = Some ex_loaded" "as_set_up ex_loaded" "as_vnode ex_loaded \<noteq> None"
  "used ex_ready = {0, 1, 2, 3, 4}" "max_page_num (vcm ex_ready) = 8" "pte ex_ready a p = 0" "files_ok ex_ops"
  using ex_cm_used(1)
  by (simp_all add: ex_ready_def ex_loaded_def as_set_up_def page_frame_def pte_def ex_space_def files_ok_def ex_ops_def)

lemma ex_ready_free: "used ex_ready \<noteq> {0..<max_page_num (vcm ex_ready)}"
proof
  assume "used ex_ready = {0..<max_page_num (vcm ex_ready)}"
  then have "5 \<in> used ex_ready" by (simp add: ex_ready_fields(6))
  then show False by (simp add: ex_ready_fields(5))
qed

text \<open>A fault in the data region.\<close>

lemma ex_fault:
  "\<exists>k s'. vm_fault ex_ops (Some (\<lambda>_. 0)) 1 0x10000000 ex_ready = Some (Inr (), s') \<and> vm_reachable ex_ops (\<lambda>_. 100) s' \<and>
     cur_vmspace (vcm s') = Some 100 \<and> (\<exists>x y. spaces s' 100 = Some (ex_loaded\<lparr>as_stackvbase := y, firstpt := x\<rparr>)) \<and>
     used s' = insert k {0, 1, 2, 3, 4} \<and> max_page_num (vcm s') = 8 \<and> pte s' 100 0x10000 = 2 * int k \<and> 3 \<le> k \<and> mapped_page s' 0x10000 k"
proof -
  have i: "vm_inv (\<lambda>_. 100) ex_ready" by (rule vm_reachable_inv [OF ex_ready_reachable])
  have fa: "0x10000000 < (2 :: nat) ^ 31" "0x10000000 div 4096 \<noteq> (0 :: nat)" "0x10000000 div 4096 \<noteq> (0x40000 :: nat)" "(1 :: nat) = 0 \<or> (1 :: nat) = 1"
    and p: "0x10000000 div 4096 = (0x10000 :: nat)" by simp_all
  obtain k s2 s3 s4 s' where r: "vm_fault ex_ops (Some (\<lambda>_. 0)) 1 0x10000000 ex_ready = Some (Inr (), s')" "fault_runs ex_ops 100 ex_loaded 0x10000 k ex_ready s2 s3 s4 s'"
    using vm_fault_total [OF i ex_ready_fields(1-4) fa ex_ready_free ex_ready_fields(8)] unfolding p by blast
  have "vstep ex_ops (\<lambda>_. 100) ex_ready s'" by (rule fault [OF r(1) fa(1) _ ex_ready_free]) simp
  then have "vm_reachable ex_ops (\<lambda>_. 100) s'" by (rule vm_reachable.step [OF ex_ready_reachable])
  moreover have "\<exists>a2 k2. cur_vmspace (vcm ex_ready) = Some a2 \<and> pte s' = (pte ex_ready)(a2 := (pte ex_ready a2)(0x10000 := 2 * int k2)) \<and> mapped_page s' 0x10000 k2"
    using vm_fault_ok(2) [OF i fa(1) disjI2 [OF refl] ex_ready_free r(1) refl, unfolded p] by (elim exE conjE) (intro exI conjI)
  then obtain a2 k2 where k2: "cur_vmspace (vcm ex_ready) = Some a2" "pte s' = (pte ex_ready)(a2 := (pte ex_ready a2)(0x10000 := 2 * int k2))" "mapped_page s' 0x10000 k2"
    by (elim exE conjE)
  moreover have e2: "pte s' 100 0x10000 = 2 * int k2" using k2(1) ex_ready_fields(1) unfolding k2(2) by simp
  note F = fault_runs_facts [OF r(2)]
  have z: "pte ex_ready 100 0x10000 = 0" by (rule ex_ready_fields(7))
  have "used s' = insert k {0, 1, 2, 3, 4}" using F(3,6) z ex_ready_fields(5) by simp
  moreover have "cur_vmspace (vcm s') = Some 100" "max_page_num (vcm s') = 8" using F(4,5) ex_ready_fields(1,6) by simp_all
  moreover note F(1,2,3)
  moreover have "k2 = k" using e2 F(1) by simp
  moreover have "mapped_page s' 0x10000 k2" by (fact k2(3))
  ultimately show ?thesis using r(1) by (intro exI [of _ k] exI [of _ s']) simp
qed

section \<open>Isolation\<close>



section \<open>Faults\<close>




section \<open>What goes wrong\<close>





end
