(* ===== verification/Spec2Isabelle.thy ===== *)
theory Spec2Isabelle
  imports Kern_Bitmap Synch_Props Sfs_Props Sfs_Tree Kmalloc Vfs_Props Libc_Props Console_Props Process_Props Vm_Props
begin

text \<open>
  A verification of the OS/161 kernel (\<open>src/ece344/os161/kern\<close>).

  \<^bold>\<open>The program and its parts.\<close>  OS/161 is a small multithreaded kernel for a MIPS machine with
  one processor.  Kernel threads (\<open>thread/\<close>) are scheduled round robin and preempted by a timer;
  they synchronize with semaphores, locks and condition variables that rest on \<open>thread_sleep\<close>,
  \<open>thread_wakeup\<close> and the interrupt level \<open>spl\<close>.  The filesystem SFS (\<open>fs/sfs\<close>) keeps files
  of up to 143 blocks on a disk that the driver \<open>dev/lamebus/lhd.c\<close> serves block by block; requests
  travel as \<open>struct uio\<close> (\<open>userprog/uio.c\<close>).  Growing arrays, ring buffers and bitmaps of \<open>lib/\<close>
  carry the thread lists, the waiting lines, the vnode table and the free-block map.  User processes have address
  spaces of pages (\<open>vm/vm.c\<close>) and call the kernel to fork, wait, exit and grow their heap (\<open>userprog/\<close>).

  \<^bold>\<open>How C is written here.\<close>  \<open>Kern_Prelude\<close> fixes the conventions.  A C function is a HOL
  function into an option: \<open>None\<close> is a panic (a failed assertion, an access outside a block, and
  for the disk driver a wait that never ends).  A function with an error number returns
  \<open>errno + 'a\<close> and the new state on every path.  Counters wrap where C computes them on 32 bits
  (\<open>c_int\<close>, \<open>c_uint\<close>, \<open>mod 2 ^ 16\<close> for link counts).  The results of \<open>kmalloc\<close> are arguments
  (\<open>'a kmem\<close>, flags), so that the theorems cover every failure of memory.  Loops are recursive
  functions that terminate, or partial functions into option where C could loop for ever; there is no fuel.

  \<^bold>\<open>Theories.\<close>
  \<^item> \<open>Kern_Array\<close> (\<open>lib/array.c\<close>), \<open>Kern_Queue\<close> (\<open>lib/queue.c\<close>), \<open>Kern_Bitmap\<close> (\<open>lib/bitmap.c\<close>):
    the containers, each with its invariant, an abstraction (list, first-in-first-out sequence, set of
    used indices) and an interface locale (\<open>pointer_seq\<close>, \<open>fifo\<close>, \<open>bit_allocator\<close>) that the
    clients' proofs use, interpreted on the code's definitions.
  \<^item> \<open>Threads\<close> (\<open>thread/thread.c\<close>, \<open>scheduler.c\<close>, \<open>arch/mips/mips/spl.c\<close>): thread structures, the run
    queue, sleepers and zombies, with the two halves of \<open>mi_switch\<close> before and after \<open>md_switch\<close>.
    \<open>Thread_Inv\<close> states the invariant of the thread lists (every thread in one place, enough
    preallocated room) and \<open>Thread_Ops\<close> that every operation keeps it, with the properties of
    fork, yield, sleep, wakeup and exit.
  \<^item> \<open>Synch\<close> (\<open>thread/synch.c\<close>, \<open>hardclock.c\<close>, \<open>interrupt.c\<close>): semaphores, locks, condition
    variables, the clock and interrupts.  A call that sleeps leaves a continuation with the thread, and
    \<open>dispatch\<close> resumes it.  \<open>Synch_Inv\<close> is the invariant that ties sleepers to what they wait for;
    \<open>Kernel_Steps\<close> is the step relation of the kernel (calls of the running thread, timer and
    device interrupts, in any order), \<open>Synch_Props\<close> the properties of all reachable states.
  \<^item> \<open>Uio\<close> (\<open>userprog/uio.c\<close>) and \<open>Lhd\<close> (\<open>dev/lamebus/lhd.c\<close>): data movement and the disk driver.
    The disk controller is an argument; \<open>working_disk\<close> states what a controller without errors
    does and \<open>block_device\<close> is the contract the filesystem relies on, which the driver meets on such a
    controller (\<open>sublocale\<close>).
  \<^item> \<open>Sfs_Format\<close> (\<open>include/kern/sfs.h\<close>): the on-disk structures as bytes and their round trips.
    \<open>Sfs_Io\<close> (\<open>sfs_io.c\<close> and the first half of \<open>sfs_vnode.c\<close>), \<open>Sfs_Vnode\<close> and \<open>Sfs_Ops\<close> (the rest of
    \<open>sfs_vnode.c\<close>, \<open>sfs_fs.c\<close>, \<open>fs/vfs/vnode.c\<close>): the filesystem, function by function.
  \<^item> \<open>Sfs_File\<close>, \<open>Sfs_Bmap\<close>, \<open>Sfs_Fileio\<close>: a file as a sequence of bytes given by its inode,
    its indirect block and the disk; the invariant that no block has two owners and all blocks of files
    are in use; the block mapping, with allocation, and \<open>sfs_io\<close> on these.  \<open>Sfs_Props\<close>: the
    properties of reading and writing, and of media errors.
  \<^item> \<open>Sfs_Trunc\<close> (truncation and reclaiming), \<open>Sfs_Dir\<close> (a directory as a map from names to inode numbers),
    \<open>Sfs_Volume\<close> (the inodes of the whole volume, in memory and on the disk, with their reference counts) and
    \<open>Sfs_Names\<close>: the abstract volume is a map \<open>F\<close> from names to byte sequences, \<open>volume ... fs d F\<close> says that
    the filesystem \<open>fs\<close> with root \<open>d\<close> holds it (names unique, link counts exact, blocks owned once, inodes in
    memory or current on the disk), and each operation on names refines the obvious one on \<open>F\<close>.
    \<open>Sfs_Tree\<close>: these results on the modelled disk driver.  \<open>Sfs_Stable\<close>: what of the vnode table the operations
    keep (reference and open counts of the other vnodes), as the layer above needs it.
  \<^item> \<open>Vfs_Dev\<close> (\<open>fs/vfs/device.c\<close>, \<open>devnull.c\<close>), \<open>Vfs\<close> (the vnode and filesystem operations, dispatched on the kind of
    object as the function tables do), \<open>Vfs_List\<close> (\<open>vfslist.c\<close>: the table of devices and mounts), \<open>Vfs_Path\<close>
    (\<open>vfscwd.c\<close>, \<open>vfslookup.c\<close>, \<open>vfspath.c\<close>).  \<open>Vfs_Res\<close> gives the reference reading of a path name and of the device table,
    \<open>Vfs_Vol\<close> and \<open>Vfs_File\<close> lift the volume \<open>F\<close> of a mounted filesystem to the table, and \<open>Vfs_Props\<close> has the properties:
    what a path names, that names in the table stay unique, and open, remove, write and read by path on \<open>F\<close>.
  \<^item> \<open>Kpages\<close>: the interface between heap and pages, the locale \<open>page_allocator\<close>.  \<open>Kheap\<close> (\<open>lib/kheap.c\<close>) is the
    kernel heap, with the free lists in the memory it manages; \<open>Kheap_Inv\<close> and \<open>Kheap_Props\<close> relate it, for any page
    allocator, to the map from addresses to the blocks that are out.  \<open>Coremap\<close> (\<open>arch/mips/mips/ram.c\<close> and the first
    part of \<open>vm/vm.c\<close>) and \<open>Coremap_Inv\<close> interpret the interface.  \<open>Kmalloc\<close>: the properties of the two together.
    The loops over linked pages are partial functions into option; that they end is part of the theorems.

  \<^item> \<open>Libc_Mem\<close> (memory and string functions of \<open>lib/libc\<close> that the kernel links too) works on a byte-addressed memory;
    \<open>Libc_Str\<close> says what the functions do to blocks, strings and words.  \<open>Printf\<close> (\<open>__printf.c\<close>, \<open>snprintf.c\<close>,
    \<open>atoi.c\<close>), with \<open>Printf_Fmt\<close> the reference meaning of formats and \<open>Printf_Sink\<close> the proof, for every receiver of output that
    meets the locale \<open>output_sink\<close>, that the character-driven state machine produces it.  \<open>Libc_Props\<close>: the properties.
  \<^item> \<open>Console\<close> (\<open>dev/generic/console.c\<close>, \<open>lib/kprintf.c\<close>, \<open>lib/kgets.c\<close>, \<open>beep.c\<close>) and \<open>Console_Props\<close>: characters in and out,
    formatted output on the console (a second interpretation of \<open>output_sink\<close>), and the line editor against a reference
    of its editing characters.

  \<^item> \<open>Process\<close> (\<open>userprog/fork.c\<close>, \<open>wait.c\<close>, \<open>exit.c\<close>, \<open>get_pid.c\<close> and the end of \<open>arch/mips/mips/syscall.c\<close>) has the list of
    processes and their system calls on the threads of \<open>Threads\<close>; \<open>Process_Inv\<close> states what the list says of the threads,
    \<open>Process_Steps\<close> is the step relation of processes, \<open>Process_Props\<close> has that no processes wait for each other in a circle and that an
    exit code reaches the parent.  \<open>Sbrk\<close> (\<open>sbrk.c\<close>): the bounds of the heap.
  \<^item> \<open>Vm\<close> (the second part of \<open>vm/vm.c\<close>): address spaces with page tables of two levels, the TLB, page faults, loading, copying and
    paging.  \<open>Vm_Inv\<close>: no frame is mapped twice; \<open>Vm_Tlb\<close>: the TLB holds pages of one process only, as its page table has them;
    \<open>Vm_Steps\<close>: faults, context switches and the operations on address spaces keep both; \<open>Vm_Props\<close>: isolation of processes, that faults
    are served, that pages of the data region lose what was written to them, and that a process with a heap cannot be copied.
    The invariant covers executions in which there are free frames, that is, without paging to the swap device, whose code does not keep it.

  \<^bold>\<open>What is not modelled.\<close>  The assembly (\<open>md_switch\<close>, exception entry), register access of the
  other devices, the emulator filesystem (so every volume is SFS), the loading of executables, the menu, and userland but for the
  library that the kernel shares.  The locks of the
  device table and of the boot filesystem only serialize calls and are not represented.
\<close>

end
